(* ===== verification/GoBase.thy ===== *)
theory GoBase
  imports Main "HOL-Library.List_Lexorder" "HOL-Library.Char_ord" "HOL-Library.AList"
    "HOL-Library.Signed_Division" "HOL-Library.Multiset"
begin

text \<open>
  Prelude of the development: what the Go sources use of the language and its standard
  library, as executable functions, with the generic lemmas the component theories share.

  \<^item> Go strings are byte strings, modelled as \<^typ>\<open>string\<close> (lists of 8-bit characters).
    \<open>strings.ToLower\<close>, \<open>strings.EqualFold\<close> and \<open>strings.TrimSpace\<close> are given by their action
    on ASCII bytes; bytes above 127 are left alone.
  \<^item> \<open>time.Time\<close> is an \<^typ>\<open>int\<close> counting nanoseconds since the zero time (year 1), so that
    \<open>time.Time{}\<close> is \<open>0\<close>; \<open>time.Duration\<close> is an \<^typ>\<open>int\<close> of nanoseconds, with the 64-bit
    wrap-around of products and the saturation of \<open>Time.Sub\<close> written out.
  \<^item> Go maps are association lists with distinct keys (\<^const>\<open>map_of\<close>, \<open>AList.update\<close>,
    \<open>AList.delete\<close>); the order of the list is the iteration order, which Go leaves open and
    the theorems quantify over.
  \<^item> \<open>sort.Search\<close> is the library's binary search.
\<close>

named_theorems go_str \<open>definitions of the string operations\<close>
named_theorems alist_simps \<open>lemmas about association lists that stand for Go maps\<close>

section \<open>Strings\<close>

definition HasPrefix :: "string \<Rightarrow> string \<Rightarrow> bool" where [go_str]:
  "HasPrefix s p \<longleftrightarrow> take (length p) s = p"

definition HasSuffix :: "string \<Rightarrow> string \<Rightarrow> bool" where [go_str]:
  "HasSuffix s p \<longleftrightarrow> length p \<le> length s \<and> drop (length s - length p) s = p"

definition TrimSuffix :: "string \<Rightarrow> string \<Rightarrow> string" where [go_str]:
  "TrimSuffix s p = (if HasSuffix s p then take (length s - length p) s else s)"

text \<open>\<open>strings.Cut\<close>: the text before and after the first occurrence of the separator.\<close>

fun CutStr :: "string \<Rightarrow> string \<Rightarrow> (string \<times> string) option" where
  "CutStr [] sep = (if sep = [] then Some ([], []) else None)"
| "CutStr (c # cs) sep =
     (if HasPrefix (c # cs) sep then Some ([], drop (length sep) (c # cs))
      else map_option (\<lambda>(a, b). (c # a, b)) (CutStr cs sep))"

definition ContainsStr :: "string \<Rightarrow> string \<Rightarrow> bool" where [go_str]:
  "ContainsStr s sub \<longleftrightarrow> CutStr s sub \<noteq> None"

text \<open>\<open>strings.Count\<close> for a non-empty separator (the sources never count the empty string).\<close>

function CountStr :: "string \<Rightarrow> string \<Rightarrow> nat" where
  "CountStr [] sep = 0"
| "CountStr (c # cs) sep =
     (if sep \<noteq> [] \<and> HasPrefix (c # cs) sep then Suc (CountStr (drop (length sep) (c # cs)) sep)
      else CountStr cs sep)"
  by pat_completeness auto
termination by (relation "measure (\<lambda>(s, _). length s)") auto

text \<open>\<open>strings.ReplaceAll\<close> for a non-empty pattern.\<close>

function ReplaceAll :: "string \<Rightarrow> string \<Rightarrow> string \<Rightarrow> string" where
  "ReplaceAll [] old new = []"
| "ReplaceAll (c # cs) old new =
     (if old \<noteq> [] \<and> HasPrefix (c # cs) old
      then new @ ReplaceAll (drop (length old) (c # cs)) old new
      else c # ReplaceAll cs old new)"
  by pat_completeness auto
termination by (relation "measure (\<lambda>(s, _). length s)") auto

definition ContainsAny :: "string \<Rightarrow> string \<Rightarrow> bool" where [go_str]:
  "ContainsAny s chars \<longleftrightarrow> list_ex (\<lambda>c. c \<in> set chars) s"

definition lower_char :: "char \<Rightarrow> char" where
  "lower_char c = (let n = (of_char c :: nat) in if 65 \<le> n \<and> n \<le> 90 then char_of (n + 32) else c)"

definition ToLower :: "string \<Rightarrow> string" where
  "ToLower s = map lower_char s"

definition is_space :: "char \<Rightarrow> bool" where
  "is_space c \<longleftrightarrow> (let n = (of_char c :: nat) in n = 32 \<or> (9 \<le> n \<and> n \<le> 13))"

definition TrimSpace :: "string \<Rightarrow> string" where
  "TrimSpace s = rev (dropWhile is_space (rev (dropWhile is_space s)))"

definition EqualFold :: "string \<Rightarrow> string \<Rightarrow> bool" where [go_str]:
  "EqualFold a b \<longleftrightarrow> ToLower a = ToLower b"

text \<open>The characters carriage return, line feed and NUL, which several validators reject.\<close>

definition crlf_nul :: string where
  "crlf_nul = [char_of (13::nat), char_of (10::nat), char_of (0::nat)]"

lemma lower_char_idem [simp]: "lower_char (lower_char c) = lower_char c"
proof (cases "65 \<le> (of_char c :: nat) \<and> (of_char c :: nat) \<le> 90")
  case True
  then have "(of_char (char_of ((of_char c :: nat) + 32)) :: nat) = of_char c + 32"
    by (simp add: of_char_of)
  with True show ?thesis by (simp add: lower_char_def Let_def)
qed (auto simp: lower_char_def Let_def)

lemma ToLower_idem [simp]: "ToLower (ToLower s) = ToLower s"
  by (simp add: ToLower_def o_def)

lemma length_ToLower [simp]: "length (ToLower s) = length s"
  by (simp add: ToLower_def)

lemma is_space_lower_char [simp]: "is_space (lower_char c) = is_space c"
proof (cases "65 \<le> (of_char c :: nat) \<and> (of_char c :: nat) \<le> 90")
  case True
  then have "(of_char (lower_char c) :: nat) = of_char c + 32"
    by (simp add: lower_char_def Let_def of_char_of)
  with True show ?thesis by (auto simp: is_space_def Let_def)
qed (auto simp: lower_char_def Let_def)

lemma TrimSpace_ToLower: "TrimSpace (ToLower s) = ToLower (TrimSpace s)"
  by (simp add: TrimSpace_def ToLower_def dropWhile_map rev_map o_def)

lemma dropWhile_idem: "dropWhile P (dropWhile P xs) = dropWhile P xs"
  by (induction xs) auto

lemma dropWhile_rev_dropWhile:
  "dropWhile P (rev (dropWhile P (rev (dropWhile P xs)))) = rev (dropWhile P (rev (dropWhile P xs)))"
proof (cases "dropWhile P xs")
  case (Cons a ys)
  then have "\<not> P a" by (metis dropWhile_eq_Cons_conv)
  then have "dropWhile P (rev (a # ys)) = dropWhile P (rev ys) @ [a]"
    by (simp add: dropWhile_append dropWhile_eq_Nil_conv) 
  with Cons \<open>\<not> P a\<close> show ?thesis by simp
next
  case Nil
  then show ?thesis by (simp only: rev.simps dropWhile.simps)
qed

lemma TrimSpace_idem [simp]: "TrimSpace (TrimSpace s) = TrimSpace s"
  by (simp add: TrimSpace_def dropWhile_rev_dropWhile dropWhile_idem)

lemma ToLower_TrimSpace_idem [simp]:
  "TrimSpace (ToLower (TrimSpace s)) = ToLower (TrimSpace s)"
  by (simp add: TrimSpace_ToLower)

section \<open>Decimal numbers and length-prefixed fields\<close>

definition digit_char :: "nat \<Rightarrow> char" where
  "digit_char d = char_of (48 + d)"

fun itoa :: "nat \<Rightarrow> string" where
  "itoa n = (if n < 10 then [digit_char n] else itoa (n div 10) @ [digit_char (n mod 10)])"

declare itoa.simps [simp del]

definition is_digit :: "char \<Rightarrow> bool" where
  "is_digit c \<longleftrightarrow> (let n = (of_char c :: nat) in 48 \<le> n \<and> n \<le> 57)"

lemma digit_char_code: "d < 10 \<Longrightarrow> (of_char (digit_char d) :: nat) = 48 + d"
  by (simp add: digit_char_def of_char_of)

lemma is_digit_digit_char: "d < 10 \<Longrightarrow> is_digit (digit_char d)"
  by (simp add: is_digit_def digit_char_code Let_def)

lemma digit_char_inj: "a < 10 \<Longrightarrow> b < 10 \<Longrightarrow> digit_char a = digit_char b \<Longrightarrow> a = b"
  by (metis digit_char_code add_left_imp_eq)

lemma itoa_digits: "list_all is_digit (itoa n)"
proof (induction n rule: itoa.induct)
  case (1 n)
  then show ?case
    by (subst itoa.simps) (auto simp: is_digit_digit_char)
qed

lemma itoa_nonempty: "itoa n \<noteq> []"
  by (subst itoa.simps) simp

text \<open>Reading a decimal string back, so that printing is seen to be injective.\<close>

definition read_nat :: "string \<Rightarrow> nat" where
  "read_nat s = foldl (\<lambda>n c. 10 * n + (of_char c - 48)) 0 s"

lemma read_nat_itoa: "read_nat (itoa n) = n"
proof (induction n rule: itoa.induct)
  case (1 n)
  show ?case
  proof (cases "n < 10")
    case True
    then show ?thesis by (subst itoa.simps) (simp add: read_nat_def digit_char_code)
  next
    case False
    then have "read_nat (itoa n) = 10 * read_nat (itoa (n div 10)) + n mod 10"
      by (subst itoa.simps) (simp add: read_nat_def digit_char_code)
    with 1 False show ?thesis by simp
  qed
qed

lemma itoa_inj: "itoa a = itoa b \<Longrightarrow> a = b"
  using read_nat_itoa by metis

section \<open>Binary search\<close>

function search_aux :: "(nat \<Rightarrow> bool) \<Rightarrow> nat \<Rightarrow> nat \<Rightarrow> nat" where
  "search_aux f i j =
     (if i < j then (let h = (i + j) div 2 in if \<not> f h then search_aux f (h + 1) j else search_aux f i h)
      else i)"
  by pat_completeness auto
termination by (relation "measure (\<lambda>(f, i, j). j - i)") (auto simp: Let_def)

declare search_aux.simps [simp del]

definition sort_Search :: "nat \<Rightarrow> (nat \<Rightarrow> bool) \<Rightarrow> nat" where
  "sort_Search n f = search_aux f 0 n"

lemma search_aux_spec:
  assumes "i \<le> j" and "\<And>a b. a \<le> b \<Longrightarrow> b < j \<Longrightarrow> f a \<Longrightarrow> f b"
  shows "i \<le> search_aux f i j \<and> search_aux f i j \<le> j \<and>
     (\<forall>k. i \<le> k \<longrightarrow> k < search_aux f i j \<longrightarrow> \<not> f k) \<and>
     (\<forall>k. search_aux f i j \<le> k \<longrightarrow> k < j \<longrightarrow> f k)"
  using assms
proof (induction f i j rule: search_aux.induct)
  case (1 f i j)
  show ?case
  proof (cases "i < j")
    case True
    define h where "h = (i + j) div 2"
    have h: "i \<le> h" "h < j" using True by (auto simp: h_def)
    show ?thesis
    proof (cases "f h")
      case fh: True
      have "i \<le> search_aux f i h \<and> search_aux f i h \<le> h \<and>
         (\<forall>k. i \<le> k \<longrightarrow> k < search_aux f i h \<longrightarrow> \<not> f k) \<and>
         (\<forall>k. search_aux f i h \<le> k \<longrightarrow> k < h \<longrightarrow> f k)"
        using "1.IH"(2)[OF True h_def] fh h "1.prems"(2) by auto
      moreover have "search_aux f i j = search_aux f i h"
        using True fh by (subst search_aux.simps) (simp add: h_def Let_def)
      moreover have "f k" if "h \<le> k" "k < j" for k using "1.prems"(2) fh that by blast
      ultimately show ?thesis using h by (metis less_imp_le linorder_not_le order.trans)
    next
      case fh: False
      have "h + 1 \<le> search_aux f (h + 1) j \<and> search_aux f (h + 1) j \<le> j \<and>
         (\<forall>k. h + 1 \<le> k \<longrightarrow> k < search_aux f (h + 1) j \<longrightarrow> \<not> f k) \<and>
         (\<forall>k. search_aux f (h + 1) j \<le> k \<longrightarrow> k < j \<longrightarrow> f k)"
        using "1.IH"(1)[OF True h_def] fh h "1.prems"(2) by auto
      moreover have "search_aux f i j = search_aux f (h + 1) j"
        using True fh by (subst search_aux.simps) (simp add: h_def Let_def)
      moreover have "\<not> f k" if "k \<le> h" for k using "1.prems"(2) fh that h(2) by blast
      ultimately show ?thesis using h by (auto simp: not_less_eq_eq)
         (metis not_less_eq_eq)
    qed
  next
    case False
    with "1.prems" show ?thesis by (subst (1 2 3 4) search_aux.simps) auto
  qed
qed

text \<open>The index found in a sorted list splits it at the first element that satisfies the test.\<close>

lemma sort_Search_split:
  assumes mono: "\<And>a b. a \<le> b \<Longrightarrow> b < length xs \<Longrightarrow> P (xs ! a) \<Longrightarrow> P (xs ! b)"
  defines "k \<equiv> sort_Search (length xs) (\<lambda>i. P (xs ! i))"
  shows "k \<le> length xs" and "drop k xs = filter P xs" and "take k xs = filter (\<lambda>x. \<not> P x) xs"
proof -
  have spec: "k \<le> length xs \<and> (\<forall>i. i < k \<longrightarrow> \<not> P (xs ! i)) \<and> (\<forall>i. k \<le> i \<longrightarrow> i < length xs \<longrightarrow> P (xs ! i))"
    using search_aux_spec[of 0 "length xs" "\<lambda>i. P (xs ! i)"] mono
    unfolding k_def sort_Search_def by blast
  then show "k \<le> length xs" by blast
  have t: "\<forall>x\<in>set (take k xs). \<not> P x" using spec by (auto simp: in_set_conv_nth)
  have d: "\<forall>x\<in>set (drop k xs). P x" using spec by (auto simp: in_set_conv_nth)
  have "filter P xs = filter P (take k xs) @ filter P (drop k xs)"
    by (metis append_take_drop_id filter_append)
  also have "\<dots> = drop k xs" using t d by (simp add: filter_empty_conv)
  finally show "drop k xs = filter P xs" by simp
  have "filter (\<lambda>x. \<not> P x) xs = filter (\<lambda>x. \<not> P x) (take k xs) @ filter (\<lambda>x. \<not> P x) (drop k xs)"
    by (metis append_take_drop_id filter_append)
  also have "\<dots> = take k xs" using t d by (simp add: filter_empty_conv)
  finally show "take k xs = filter (\<lambda>x. \<not> P x) xs" by simp
qed

section \<open>Time\<close>

type_synonym gtime = int
type_synonym gdur = int

abbreviation (input) zero_time :: gtime where "zero_time \<equiv> 0"

definition ms_ns :: int where "ms_ns = 1000000"
definition sec_ns :: int where "sec_ns = 1000000000"

text \<open>Two's complement wrap-around of a 64-bit signed product.\<close>

definition wrap64 :: "int \<Rightarrow> int" where
  "wrap64 x = (x + 2 ^ 63) mod 2 ^ 64 - 2 ^ 63"

definition ms_dur :: "int \<Rightarrow> gdur" where
  "ms_dur ms = wrap64 (ms * ms_ns)"

text \<open>\<open>Time.Sub\<close> saturates at the least and greatest \<open>Duration\<close>.\<close>

definition time_sub :: "gtime \<Rightarrow> gtime \<Rightarrow> gdur" where
  "time_sub a b = max (- (2 ^ 63)) (min (2 ^ 63 - 1) (a - b))"

text \<open>\<open>Duration.Milliseconds\<close>: division that truncates towards zero.\<close>

definition dur_ms :: "gdur \<Rightarrow> int" where
  "dur_ms d = d sdiv ms_ns"

lemma wrap64_id: "- (2 ^ 63) \<le> x \<Longrightarrow> x < 2 ^ 63 \<Longrightarrow> wrap64 x = x"
  by (simp add: wrap64_def)

lemma ms_dur_exact: "0 \<le> ms \<Longrightarrow> ms \<le> 31622400000 \<Longrightarrow> ms_dur ms = ms * 1000000"
  by (simp add: ms_dur_def ms_ns_def wrap64_id)

section \<open>Go maps as association lists\<close>

definition adjust :: "'k \<Rightarrow> ('v \<Rightarrow> 'v) \<Rightarrow> ('k \<times> 'v) list \<Rightarrow> ('k \<times> 'v) list" where
  "adjust k f al = map (\<lambda>(k', v). (k', if k' = k then f v else v)) al"

definition map_vals :: "('v \<Rightarrow> 'w) \<Rightarrow> ('k \<times> 'v) list \<Rightarrow> ('k \<times> 'w) list" where
  "map_vals f al = map (\<lambda>(k, v). (k, f v)) al"

definition asum :: "('v \<Rightarrow> int) \<Rightarrow> ('k \<times> 'v) list \<Rightarrow> int" where
  "asum g al = sum_list (map (\<lambda>(k, v). g v) al)"

abbreviation keys_distinct :: "('k \<times> 'v) list \<Rightarrow> bool" where
  "keys_distinct al \<equiv> distinct (map fst al)"

lemma fst_adjust [simp, alist_simps]: "map fst (adjust k f al) = map fst al"
  by (induction al) (auto simp: adjust_def)

lemma fst_map_vals [simp, alist_simps]: "map fst (map_vals f al) = map fst al"
  by (induction al) (auto simp: map_vals_def)

lemma length_adjust [simp]: "length (adjust k f al) = length al"
  by (simp add: adjust_def)

lemma length_map_vals [simp]: "length (map_vals f al) = length al"
  by (simp add: map_vals_def)

lemma map_of_adjust [simp, alist_simps]:
  "map_of (adjust k f al) k' = (if k' = k then map_option f (map_of al k) else map_of al k')"
  by (induction al) (auto simp: adjust_def)

lemma map_of_map_vals [simp, alist_simps]: "map_of (map_vals f al) k = map_option f (map_of al k)"
  by (induction al) (auto simp: map_vals_def)

lemma asum_Nil [simp]: "asum g [] = 0"
  by (simp add: asum_def)

lemma asum_Cons [simp]: "asum g ((k, v) # al) = g v + asum g al"
  by (simp add: asum_def)

lemma asum_append [simp]: "asum g (al @ bl) = asum g al + asum g bl"
  by (simp add: asum_def)

lemma asum_map_vals: "asum g (map_vals f al) = asum (\<lambda>v. g (f v)) al"
  by (induction al) (auto simp: map_vals_def)

lemma asum_nonneg: "(\<And>k v. (k, v) \<in> set al \<Longrightarrow> 0 \<le> g v) \<Longrightarrow> 0 \<le> asum g al"
  by (induction al) (auto, fastforce)

lemma adjust_absent: "k \<notin> fst ` set al \<Longrightarrow> adjust k f al = al"
  by (induction al) (auto simp: adjust_def)

lemma asum_adjust:
  "keys_distinct al \<Longrightarrow> map_of al k = Some v \<Longrightarrow> asum g (adjust k f al) = asum g al - g v + g (f v)"
proof (induction al)
  case (Cons p al)
  obtain k' v' where p: "p = (k', v')" by (cases p)
  have *: "adjust k f (p # al) = (k', if k' = k then f v' else v') # adjust k f al"
    by (simp add: adjust_def p)
  show ?case
  proof (cases "k' = k")
    case True
    then have "k \<notin> fst ` set al" using Cons.prems p by auto
    with True Cons.prems p * show ?thesis by (simp add: adjust_absent)
  next
    case False
    with Cons p * show ?thesis by simp
  qed
qed simp

lemma asum_delete:
  "keys_distinct al \<Longrightarrow> map_of al k = Some v \<Longrightarrow> asum g (AList.delete k al) = asum g al - g v"
proof (induction al)
  case (Cons p al)
  obtain k' v' where p: "p = (k', v')" by (cases p)
  show ?case
  proof (cases "k' = k")
    case True
    then have "k \<notin> fst ` set al" using Cons.prems p by auto
    then have "AList.delete k al = al" by (simp add: delete_id)
    with True Cons.prems p show ?thesis by simp
  next
    case False
    with Cons p show ?thesis by simp
  qed
qed simp

lemma keys_distinct_delete [simp, alist_simps]:
  "keys_distinct al \<Longrightarrow> keys_distinct (AList.delete k al)"
  by (rule distinct_delete)

lemma map_of_delete_cases [alist_simps]:
  "map_of (AList.delete k al) k' = (if k' = k then None else map_of al k')"
  by (simp add: delete_conv')

lemma map_of_filter_keys:
  "keys_distinct al \<Longrightarrow>
   map_of (filter (\<lambda>(k, v). P k v) al) k =
     (case map_of al k of None \<Rightarrow> None | Some v \<Rightarrow> if P k v then Some v else None)"
  by (induction al) (auto split: option.splits simp: map_of_eq_None_iff dest: map_of_SomeD)

lemma keys_distinct_filter: "keys_distinct al \<Longrightarrow> keys_distinct (filter P al)"
  by (induction al) auto

section \<open>Reachable states\<close>

text \<open>
  The states reached from an initial state by steps of a labelled machine, and the interface
  through which every stateful component proves its invariants: a component supplies its
  initial states, its step relation and an inductive invariant.
\<close>

inductive reachable :: "('s \<Rightarrow> bool) \<Rightarrow> ('s \<Rightarrow> 's \<Rightarrow> bool) \<Rightarrow> 's \<Rightarrow> bool"
  for init :: "'s \<Rightarrow> bool" and step :: "'s \<Rightarrow> 's \<Rightarrow> bool" where
  reach_init: "init s \<Longrightarrow> reachable init step s"
| reach_step: "reachable init step s \<Longrightarrow> step s t \<Longrightarrow> reachable init step t"

locale inductive_invariant =
  fixes init :: "'s \<Rightarrow> bool"
    and step :: "'s \<Rightarrow> 's \<Rightarrow> bool"
    and inv :: "'s \<Rightarrow> bool"
  assumes init_inv: "init s \<Longrightarrow> inv s"
    and step_inv: "inv s \<Longrightarrow> step s t \<Longrightarrow> inv t"
begin

lemma reachable_inv: "reachable init step s \<Longrightarrow> inv s"
  by (induction rule: reachable.induct) (auto intro: init_inv step_inv)

lemma steps_inv: "step\<^sup>*\<^sup>* s t \<Longrightarrow> inv s \<Longrightarrow> inv t"
  by (induction rule: rtranclp_induct) (auto intro: step_inv)

end

end
