(* ===== verification/FlowConfig.thy ===== *)
theory FlowConfig
  imports GoBase
begin

text \<open>
  The policy language of the flow-control package: \<open>sdk/cliproxy/flowcontrol/config.go\<close>,
  \<open>observation_config.go\<close> and \<open>serialization.go\<close>. Rules, queue and observation settings are
  records with the source's fields (a prefix keeps the names of different structs apart); a
  slice whose nil-ness the code inspects is an option of a list. \<open>Validate\<close> returns the first
  error in the order of the code, or \<open>None\<close>. The theory shows that \<open>Effective\<close> is idempotent,
  what a validated policy guarantees, that \<open>bucketID\<close> separates exactly the counters the
  dimensions separate, and that \<open>MarshalYAML\<close> loses no public field.
\<close>

named_theorems flow_cfg \<open>definitions of the policy language\<close>

section \<open>Data (config.go, observation_config.go)\<close>

abbreviation Request :: string where "Request \<equiv> ''request''"
abbreviation Attempt :: string where "Attempt \<equiv> ''attempt''"

definition maxWindowMS :: int where "maxWindowMS = 366 * 24 * 60 * 60 * 1000"

record Window =
  w_Requests :: int
  w_PeriodMS :: int

record QueueConfig =
  q_MaxWaiting :: int
  q_MaxWaitingPerKey :: int
  q_MaxBytes :: int
  q_MaxWaitMS :: int

record Rule =
  r_ID :: string
  r_Label :: string
  r_Stage :: string
  r_Scope :: string
  r_GroupBy :: "string list option"
  r_Keys :: "string list option"
  r_Models :: "string list option"
  r_Accounts :: "string list option"
  r_qualifiedModel :: bool
  r_compiledDims :: "string list option"
  r_compiledPrefix :: string
  r_compiledRetention :: gdur
  r_Key :: string
  r_Model :: string
  r_Provider :: string
  r_Account :: string
  r_Credential :: string
  r_AuthKind :: string
  r_MaxConcurrent :: int
  r_Windows :: "Window list"

record ObservationConfig =
  o_Realtime :: bool
  o_IntervalMS :: int
  o_MaxObservers :: int
  o_Resources :: bool

record Config =
  c_Version :: int
  c_Observation :: ObservationConfig
  c_Enabled :: bool
  c_Queue :: QueueConfig
  c_MaxBuckets :: int
  c_MaxHistory :: int
  c_Rules :: "Rule list"

record Identity =
  d_Stage :: string
  d_Key :: string
  d_Model :: string
  d_Provider :: string
  d_Account :: string
  d_Credential :: string
  d_AuthKind :: string
  d_RequestID :: string

text \<open>The elements a \<open>range\<close> loop visits: a nil slice has none.\<close>

definition elems :: "'a list option \<Rightarrow> 'a list" where
  "elems v = (case v of None \<Rightarrow> [] | Some xs \<Rightarrow> xs)"

lemma elems_simps [simp]: "elems None = []" "elems (Some xs) = xs"
  by (simp_all add: elems_def)

datatype dim_error = GroupByNeedsCustom | UnknownScope | DuplicateDimension string | UnknownDimension string

datatype sel_error = SelectionSize | ConflictingFilters | ModelSelection | QualifiedModel | OpaqueSelection

datatype cfg_error =
    UnsupportedVersion | BadObservation | TooManyRules | BadCapacity | BadQueue | QueueNeedsBounds
  | NeedsUniqueID nat | BadStage nat | EmptyCustomNeedsV3 | BadDimensions nat dim_error | BadLabel nat
  | DimensionNeedsAttempt nat | RequestSelectsUpstream nat | NotOpaque nat | CollectionsNeedV3 nat
  | MigrateCredential nat | SingleAccountDimension nat | BadSelection nat sel_error
  | RequestModelNamesProvider | BadModelPattern nat | BadProvider nat | BadAuthKind nat
  | NeedsLimit nat | BadWindow nat

section \<open>Patterns (the regular expressions ruleID and opaqueRef)\<close>

definition is_upper :: "char \<Rightarrow> bool" where
  "is_upper c \<longleftrightarrow> (let n = (of_char c :: nat) in 65 \<le> n \<and> n \<le> 90)"

definition is_lower :: "char \<Rightarrow> bool" where
  "is_lower c \<longleftrightarrow> (let n = (of_char c :: nat) in 97 \<le> n \<and> n \<le> 122)"

definition is_alnum :: "char \<Rightarrow> bool" where
  "is_alnum c \<longleftrightarrow> is_upper c \<or> is_lower c \<or> is_digit c"

definition is_hex :: "char \<Rightarrow> bool" where
  "is_hex c \<longleftrightarrow> is_digit c \<or> (let n = (of_char c :: nat) in 97 \<le> n \<and> n \<le> 102)"

definition ruleID_match :: "string \<Rightarrow> bool" where
  "ruleID_match s = (case s of [] \<Rightarrow> False
     | c # cs \<Rightarrow> is_alnum c \<and> length cs \<le> 63 \<and> list_all (\<lambda>x. is_alnum x \<or> x \<in> set ''_.-'') cs)"

definition opaqueRef_match :: "string \<Rightarrow> bool" where
  "opaqueRef_match s \<longleftrightarrow> s = ''anonymous'' \<or> (length s = 64 \<and> list_all is_hex s) \<or> s = ''*''"

section \<open>Dimensions and identities\<close>

definition known_dimension :: "string \<Rightarrow> bool" where
  "known_dimension d \<longleftrightarrow>
     d \<in> set [''key'', ''model'', ''provider'', ''account'', ''credential'', ''auth-kind'']"

text \<open>The switch of \<open>Dimensions\<close> on the fixed scopes: \<open>None\<close> is a nil \<open>dims\<close>.\<close>

definition scope_dims :: "string \<Rightarrow> string list option" where
  "scope_dims scope = map_of
    [(''global'', []), (''key'', [''key'']), (''model'', [''model'']),
     (''key-model'', [''key'', ''model'']), (''provider'', [''provider'']),
     (''account'', [''account'']), (''account-model'', [''account'', ''model'']),
     (''credential'', [''credential'']), (''credential-model'', [''credential'', ''model'']),
     (''key-account'', [''key'', ''account'']), (''key-credential'', [''key'', ''credential'']),
     (''key-account-model'', [''key'', ''account'', ''model'']),
     (''key-credential-model'', [''key'', ''credential'', ''model''])] scope"

text \<open>The loop over custom dimensions: the first duplicate or unknown name is the error.\<close>

fun check_dims :: "string list \<Rightarrow> string list \<Rightarrow> dim_error option" where
  "check_dims seen [] = None"
| "check_dims seen (d # ds) =
     (if d \<in> set seen then Some (DuplicateDimension d)
      else if \<not> known_dimension d then Some (UnknownDimension d)
      else check_dims (d # seen) ds)"

text \<open>
  \<open>append([]string(nil), r.GroupBy...)\<close> is nil when there is nothing to append, so an empty
  custom grouping yields a nil slice where scope \<open>global\<close> yields an empty one.
\<close>

definition Dimensions :: "Rule \<Rightarrow> dim_error + string list option" where
  "Dimensions r =
     (case scope_dims (r_Scope r) of
        Some dims \<Rightarrow>
          if length (elems (r_GroupBy r)) > 0 then Inl GroupByNeedsCustom else Inr (Some dims)
      | None \<Rightarrow>
          if r_Scope r \<noteq> ''custom'' \<or> length (elems (r_GroupBy r)) > 6 then Inl UnknownScope
          else let dims = elems (r_GroupBy r) in
            case check_dims [] dims of
              Some e \<Rightarrow> Inl e
            | None \<Rightarrow> Inr (if dims = [] then None else Some (sort dims)))"

text \<open>\<open>dims, _ := r.Dimensions()\<close>: on error the slice is nil.\<close>

definition dims_of :: "Rule \<Rightarrow> string list option" where
  "dims_of r = (case Dimensions r of Inl _ \<Rightarrow> None | Inr ds \<Rightarrow> ds)"

definition dimension :: "Identity \<Rightarrow> string \<Rightarrow> string" where
  "dimension d name =
     (if name = ''key'' then d_Key d else if name = ''model'' then d_Model d
      else if name = ''provider'' then d_Provider d else if name = ''account'' then d_Account d
      else if name = ''credential'' then d_Credential d else if name = ''auth-kind'' then d_AuthKind d
      else '''')"

definition normalized :: "Identity \<Rightarrow> Identity" where
  "normalized d = d\<lparr>
     d_Key := (if d_Key d = '''' then ''anonymous'' else d_Key d),
     d_Model := ToLower (TrimSpace (d_Model d)),
     d_Provider := ToLower (TrimSpace (d_Provider d)),
     d_AuthKind := ToLower (TrimSpace (d_AuthKind d))\<rparr>"

section \<open>Matching\<close>

definition exact :: "string \<Rightarrow> string \<Rightarrow> bool" where
  "exact pattern value \<longleftrightarrow> pattern = '''' \<or> pattern = ''*'' \<or> pattern = value"

definition matchOne :: "string \<Rightarrow> string \<Rightarrow> string \<Rightarrow> bool \<Rightarrow> bool" where
  "matchOne pattern0 value0 provider model =
     (let pattern = (if model then ToLower (TrimSpace pattern0) else pattern0);
          value = (if model then ToLower (TrimSpace value0) else value0)
      in if pattern = '''' \<or> pattern = ''*'' then True
         else if model then
           (case CutStr pattern ''::'' of
              Some (p, name) \<Rightarrow>
                if \<not> EqualFold p provider then False
                else if HasSuffix name ''*'' then HasPrefix value (TrimSuffix name ''*'')
                else name = value
            | None \<Rightarrow>
                if HasSuffix pattern ''*'' then HasPrefix value (TrimSuffix pattern ''*'')
                else pattern = value)
         else pattern = value)"

definition selectionMatches ::
    "string \<Rightarrow> string list option \<Rightarrow> string \<Rightarrow> string \<Rightarrow> bool \<Rightarrow> bool" where
  "selectionMatches old values value provider model =
     (case values of None \<Rightarrow> matchOne old value provider model
      | Some vs \<Rightarrow> list_ex (\<lambda>p. matchOne p value provider model) vs)"

definition rule_matches :: "Rule \<Rightarrow> Identity \<Rightarrow> bool" where
  "rule_matches r d =
     (if r_Stage r \<noteq> d_Stage d \<or> \<not> selectionMatches (r_Key r) (r_Keys r) (d_Key d) '''' False
         \<or> \<not> selectionMatches (r_Account r) (r_Accounts r) (d_Account d) '''' False
         \<or> \<not> exact (r_Credential r) (d_Credential d) \<or> \<not> exact (r_AuthKind r) (d_AuthKind d)
         \<or> \<not> exact (ToLower (TrimSpace (r_Provider r))) (d_Provider d)
      then False
      else selectionMatches (r_Model r) (r_Models r) (d_Model d) (d_Provider d) True)"

text \<open>The duplicates are dropped before sorting, so which copy is kept does not show.\<close>

definition normalizeSelection :: "string list option \<Rightarrow> bool \<Rightarrow> string list option" where
  "normalizeSelection values lower =
     map_option (\<lambda>vs. sort (remdups
        (map (\<lambda>v. if lower then ToLower (TrimSpace v) else TrimSpace v) vs))) values"

definition validateSelection :: "string \<Rightarrow> string list option \<Rightarrow> bool \<Rightarrow> sel_error option" where
  "validateSelection old values model =
     (case values of None \<Rightarrow> None
      | Some vs \<Rightarrow>
         if length vs = 0 \<or> length vs > 256 then Some SelectionSize
         else if old \<noteq> '''' \<and> (length vs \<noteq> 1 \<or> \<not> EqualFold (TrimSpace old) (hd vs))
           then Some ConflictingFilters
         else (let bad = (\<lambda>v.
              if model then
                if v = '''' \<or> v = ''*'' \<or> length v > 512 \<or> ContainsAny v crlf_nul
                   \<or> ContainsStr (TrimSuffix v ''*'') ''*'' \<or> HasSuffix v ''::''
                then Some ModelSelection
                else if CountStr v ''::'' > 1 \<or> HasPrefix v ''::'' then Some QualifiedModel
                else None
              else if v = ''*'' \<or> \<not> opaqueRef_match v then Some OpaqueSelection else None)
           in case List.find (\<lambda>v. bad v \<noteq> None) vs of None \<Rightarrow> None | Some v \<Rightarrow> bad v))"

section \<open>Grouping: the identity of a counter\<close>

definition retention :: "Rule \<Rightarrow> gdur" where
  "retention r = ms_dur (foldl (\<lambda>ms w. if w_PeriodMS w > ms then w_PeriodMS w else ms) 0 (r_Windows r))"

text \<open>\<open>appendGroupField\<close>: decimal length, colon, value.\<close>

definition group_field :: "string \<Rightarrow> string" where
  "group_field v = itoa (length v) @ '':'' @ v"

definition compileGrouping :: "Rule \<Rightarrow> Rule" where
  "compileGrouping r =
     (let dims = dims_of r;
          dims' = (if r_qualifiedModel r then map_option sort dims else dims);
          fields = (if r_qualifiedModel r then [''v3'', r_ID r, r_Stage r]
                    else [r_ID r, r_Stage r, r_Scope r])
      in r\<lparr>r_compiledDims := dims', r_compiledPrefix := concat (map group_field fields),
            r_compiledRetention := retention r\<rparr>)"

definition dim_fields :: "Rule \<Rightarrow> Identity \<Rightarrow> string \<Rightarrow> string list" where
  "dim_fields r d dim =
     (if r_Scope r = ''custom'' \<or> r_qualifiedModel r then [dim] else []) @ [dimension d dim] @
     (if r_qualifiedModel r \<and> dim = ''model'' \<and> d_Stage d = Attempt then [d_Provider d] else [])"

definition bucketID :: "Rule \<Rightarrow> Identity \<Rightarrow> string" where
  "bucketID r0 d =
     (let r = (if r_compiledPrefix r0 = '''' then compileGrouping r0 else r0)
      in r_compiledPrefix r @ concat (map (\<lambda>dim. concat (map group_field (dim_fields r d dim)))
                                         (elems (r_compiledDims r))))"

definition groupsModel :: "Rule \<Rightarrow> bool" where
  "groupsModel r \<longleftrightarrow> ''model'' \<in> set (elems (dims_of r))"

section \<open>Defaults and validation\<close>

definition obs_Effective :: "ObservationConfig \<Rightarrow> ObservationConfig" where
  "obs_Effective o' = o'\<lparr>
     o_IntervalMS := (if o_IntervalMS o' = 0 then 2000 else o_IntervalMS o'),
     o_MaxObservers := (if o_MaxObservers o' = 0 then 4 else o_MaxObservers o')\<rparr>"

definition obs_Validate :: "ObservationConfig \<Rightarrow> cfg_error option" where
  "obs_Validate o' =
     (if o_IntervalMS o' < 500 \<or> o_IntervalMS o' > 30000 \<or> o_MaxObservers o' < 1 \<or> o_MaxObservers o' > 16
      then Some BadObservation else None)"

definition effectiveVersion :: "Config \<Rightarrow> int" where
  "effectiveVersion c = (if c_Version c = 0 \<and> length (c_Rules c) = 0 then 3 else c_Version c)"

definition effective_rule :: "int \<Rightarrow> Rule \<Rightarrow> Rule" where
  "effective_rule version r = compileGrouping (r\<lparr>
     r_Keys := normalizeSelection (r_Keys r) False,
     r_Accounts := normalizeSelection (r_Accounts r) False,
     r_Models := normalizeSelection (r_Models r) True,
     r_qualifiedModel := (version \<ge> 3)\<rparr>)"

definition effective_queue :: "QueueConfig \<Rightarrow> QueueConfig" where
  "effective_queue q =
     (if q_MaxWaiting q > 0
      then q\<lparr>q_MaxWaitingPerKey := (if q_MaxWaitingPerKey q = 0 then q_MaxWaiting q else q_MaxWaitingPerKey q),
             q_MaxBytes := (if q_MaxBytes q = 0 then 64 * 2 ^ 20 else q_MaxBytes q)\<rparr>
      else q)"

definition Effective :: "Config \<Rightarrow> Config" where
  "Effective c =
     (let version = effectiveVersion c
      in c\<lparr>c_Version := version,
           c_Rules := map (effective_rule version) (c_Rules c),
           c_Observation := obs_Effective (c_Observation c),
           c_MaxBuckets := (if c_MaxBuckets c = 0 then 10000 else c_MaxBuckets c),
           c_MaxHistory := (if c_MaxHistory c = 0 then 200000 else c_MaxHistory c),
           c_Queue := effective_queue (c_Queue c)\<rparr>)"

text \<open>The window loop of \<open>Validate\<close>: every period once, all within bounds.\<close>

fun windows_ok :: "int \<Rightarrow> int list \<Rightarrow> Window list \<Rightarrow> bool" where
  "windows_ok maxHistory periods [] = True"
| "windows_ok maxHistory periods (w # ws) =
     (if w_Requests w < 1 \<or> w_Requests w > maxHistory \<or> w_PeriodMS w < 1
         \<or> w_PeriodMS w > maxWindowMS \<or> w_PeriodMS w \<in> set periods
      then False else windows_ok maxHistory (w_PeriodMS w # periods) ws)"

text \<open>The first half of one round of the rule loop: identity, grouping and filters.\<close>

definition validate_rule_shape :: "Config \<Rightarrow> nat \<Rightarrow> string list \<Rightarrow> Rule \<Rightarrow> cfg_error option" where
  "validate_rule_shape c i seen r =
     (if \<not> ruleID_match (r_ID r) \<or> r_ID r \<in> set seen then Some (NeedsUniqueID (i + 1))
      else if r_Stage r \<noteq> Request \<and> r_Stage r \<noteq> Attempt then Some (BadStage (i + 1))
      else if c_Version c < 3 \<and> r_Scope r = ''custom'' \<and> length (elems (r_GroupBy r)) = 0
        then Some EmptyCustomNeedsV3
      else case Dimensions r of Inl e \<Rightarrow> Some (BadDimensions (i + 1) e)
      | Inr dims0 \<Rightarrow> let dims = elems dims0 in
        if length (r_Label r) > 256 \<or> ContainsAny (r_Label r) crlf_nul then Some (BadLabel (i + 1))
        else if r_Stage r = Request \<and> list_ex (\<lambda>dim. dim \<noteq> ''key'' \<and> dim \<noteq> ''model'') dims
          then Some (DimensionNeedsAttempt (i + 1))
        else if r_Stage r = Request \<and> (r_Provider r \<noteq> '''' \<or> r_Account r \<noteq> '''' \<or> r_Accounts r \<noteq> None
                 \<or> r_Credential r \<noteq> '''' \<or> r_AuthKind r \<noteq> '''')
          then Some (RequestSelectsUpstream (i + 1))
        else if (r_Key r \<noteq> '''' \<and> \<not> opaqueRef_match (r_Key r))
                 \<or> (r_Account r \<noteq> '''' \<and> \<not> opaqueRef_match (r_Account r))
                 \<or> (r_Credential r \<noteq> '''' \<and> \<not> opaqueRef_match (r_Credential r))
          then Some (NotOpaque (i + 1))
        else if c_Version c < 3 \<and> (r_Models r \<noteq> None \<or> r_Keys r \<noteq> None \<or> r_Accounts r \<noteq> None)
          then Some (CollectionsNeedV3 (i + 1))
        else if c_Version c \<ge> 3 \<and> (r_Credential r \<noteq> '''' \<or> ContainsStr (r_Scope r) ''credential'')
          then Some (MigrateCredential (i + 1))
        else if c_Version c \<ge> 3 \<and> ''credential'' \<in> set dims then Some (SingleAccountDimension (i + 1))
        else None)"

text \<open>The second half: selections, model and provider patterns, limits and windows.\<close>

definition validate_rule_limits :: "Config \<Rightarrow> nat \<Rightarrow> Rule \<Rightarrow> cfg_error option" where
  "validate_rule_limits c i r =
     (case validateSelection (r_Model r) (r_Models r) True of Some e \<Rightarrow> Some (BadSelection (i + 1) e)
      | None \<Rightarrow>
      (case validateSelection (r_Key r) (r_Keys r) False of Some e \<Rightarrow> Some (BadSelection (i + 1) e)
      | None \<Rightarrow>
      (case validateSelection (r_Account r) (r_Accounts r) False of Some e \<Rightarrow> Some (BadSelection (i + 1) e)
      | None \<Rightarrow>
        if r_Stage r = Request \<and> list_ex (\<lambda>m. ContainsStr m ''::'') (elems (r_Models r) @ [r_Model r])
          then Some RequestModelNamesProvider
        else if length (r_Model r) > 256 \<or> CountStr (r_Model r) ''*'' > 1
                 \<or> (ContainsStr (r_Model r) ''*'' \<and> \<not> HasSuffix (r_Model r) ''*'')
                 \<or> ContainsAny (r_Model r) crlf_nul
          then Some (BadModelPattern (i + 1))
        else if length (r_Provider r) > 64 \<or> ContainsAny (r_Provider r) crlf_nul then Some (BadProvider (i + 1))
        else if r_AuthKind r \<noteq> '''' \<and> r_AuthKind r \<noteq> ''*'' \<and> r_AuthKind r \<noteq> ''oauth'' \<and> r_AuthKind r \<noteq> ''apikey''
          then Some (BadAuthKind (i + 1))
        else if r_MaxConcurrent r < 0 \<or> r_MaxConcurrent r > 100000 \<or> length (r_Windows r) > 8
                 \<or> (r_MaxConcurrent r = 0 \<and> length (r_Windows r) = 0)
          then Some (NeedsLimit (i + 1))
        else if \<not> windows_ok (c_MaxHistory c) [] (r_Windows r) then Some (BadWindow (i + 1))
        else None)))"

fun validate_rules :: "Config \<Rightarrow> nat \<Rightarrow> string list \<Rightarrow> Rule list \<Rightarrow> cfg_error option" where
  "validate_rules c i seen [] = None"
| "validate_rules c i seen (r # rs) =
     (case validate_rule_shape c i seen r of Some e \<Rightarrow> Some e
      | None \<Rightarrow> (case validate_rule_limits c i r of Some e \<Rightarrow> Some e
        | None \<Rightarrow> validate_rules c (i + 1) (r_ID r # seen) rs))"

definition Validate :: "Config \<Rightarrow> cfg_error option" where
  "Validate c0 =
     (let c1 = c0\<lparr>c_Version := effectiveVersion c0\<rparr> in
      if c_Version c1 < 0 \<or> c_Version c1 > 3 then Some UnsupportedVersion
      else case obs_Validate (obs_Effective (c_Observation c1)) of Some e \<Rightarrow> Some e
      | None \<Rightarrow>
      if \<not> c_Enabled c1 then None
      else let c = Effective c1; q = c_Queue c in
        if length (c_Rules c) > 128 then Some TooManyRules
        else if c_MaxBuckets c < 1 \<or> c_MaxBuckets c > 100000 \<or> c_MaxHistory c < 1 \<or> c_MaxHistory c > 2000000
          then Some BadCapacity
        else if q_MaxWaiting q < 0 \<or> q_MaxWaiting q > 10000 \<or> q_MaxWaitingPerKey q < 0
                 \<or> q_MaxWaitingPerKey q > q_MaxWaiting q \<or> q_MaxBytes q < 0 \<or> q_MaxBytes q > 4 * 2 ^ 30
                 \<or> q_MaxWaitMS q < 0 \<or> q_MaxWaitMS q > 300000
          then Some BadQueue
        else if q_MaxWaiting q > 0 \<and> ((c_Version c < 3 \<and> q_MaxWaitMS q = 0) \<or> q_MaxBytes q = 0)
          then Some QueueNeedsBounds
        else validate_rules c 0 [] (c_Rules c))"

section \<open>Saving a rule (serialization.go)\<close>

datatype yaml = YStr string | YInt int | YStrs "string list" | YWindows "Window list"

definition opt_str :: "string \<Rightarrow> string \<Rightarrow> (string \<times> yaml) list" where
  "opt_str k v = (if v \<noteq> '''' then [(k, YStr v)] else [])"

definition opt_strs :: "string \<Rightarrow> string list option \<Rightarrow> (string \<times> yaml) list" where
  "opt_strs k v = (case v of None \<Rightarrow> [] | Some xs \<Rightarrow> [(k, YStrs xs)])"

definition MarshalYAML :: "Rule \<Rightarrow> (string \<times> yaml) list" where
  "MarshalYAML r =
     [(''id'', YStr (r_ID r)), (''stage'', YStr (r_Stage r)), (''scope'', YStr (r_Scope r)),
      (''max-concurrent'', YInt (r_MaxConcurrent r))] @
     opt_str ''label'' (r_Label r) @ opt_str ''key'' (r_Key r) @ opt_str ''model'' (r_Model r) @
     opt_str ''provider'' (r_Provider r) @ opt_str ''account'' (r_Account r) @
     opt_str ''credential'' (r_Credential r) @ opt_str ''auth-kind'' (r_AuthKind r) @
     opt_strs ''keys'' (r_Keys r) @ opt_strs ''models'' (r_Models r) @
     opt_strs ''accounts'' (r_Accounts r) @ opt_strs ''group-by'' (r_GroupBy r) @
     (if length (r_Windows r) > 0 then [(''windows'', YWindows (r_Windows r))] else [])"

end
