(* ===== verification/FlowEngine.thy ===== *)
theory FlowEngine
  imports FlowConfig
begin

text \<open>
  The admission engine: \<open>sdk/cliproxy/flowcontrol/engine.go\<close> and \<open>joint.go\<close>. The engine is one
  record; each method is a function from the engine (and its arguments) to the engine after the
  critical section it runs under \<open>Engine.mu\<close>.

  Pointers. A member points to a bucket of \<open>buckets\<close>, and is its key here: a bucket leaves the map
  only when no active record counts on it (\<open>FlowInvariant\<close> proves that a member's key is always
  present). Operations are shared between permits, waiters and active records and live in the
  store \<open>e_ops\<close>; a permit refers to its engine by \<open>e_self\<close>. Waiters are identified by their
  number, which is never reused.

  Nondeterminism. A context's \<open>Err()\<close> and the clock are read by the code at given points; each
  reading is an argument (\<open>errs1\<close>, \<open>errs2\<close>: the state of each waiter's context at the two places
  where \<open>dispatchLocked\<close> reads it; \<open>now\<close>: a reading of the clock). A goroutine blocked in
  \<open>acquireWork\<close> is the waiter it left in the queue; \<open>acquire_done\<close> and \<open>acquire_canceled\<close> are the
  two ways its \<open>select\<close> continues. Waiters whose channel has been closed are kept in \<open>e_settled\<close>.
\<close>

section \<open>Errors (engine.go)\<close>

record flow_Error =
  fe_Code :: string
  fe_Rule :: string
  fe_retry :: gdur

definition flow_err :: "string \<Rightarrow> string \<Rightarrow> gdur \<Rightarrow> flow_Error" where
  "flow_err code rule retry = \<lparr>fe_Code = code, fe_Rule = rule, fe_retry = retry\<rparr>"

datatype ctx_error = CtxCanceled | CtxDeadlineExceeded

datatype err = ECtx ctx_error | EFlow flow_Error

definition StatusCode :: "flow_Error \<Rightarrow> int" where
  "StatusCode e = (if fe_Code e = ''flow_control_closed'' \<or> fe_Code e = ''flow_control_state_full''
     \<or> fe_Code e = ''flow_control_configuration'' then 503 else 429)"

definition RetryAfter :: "flow_Error \<Rightarrow> gdur" where
  "RetryAfter e = (if fe_retry e \<le> 0 then sec_ns else fe_retry e)"

text \<open>The number of seconds in the \<open>Retry-After\<close> header; the sum may wrap around.\<close>

definition RetryAfterSeconds :: "flow_Error \<Rightarrow> int" where
  "RetryAfterSeconds e = wrap64 (RetryAfter e + sec_ns - 1) sdiv sec_ns"

section \<open>State\<close>

record event =
  ev_at :: gtime
  ev_ticket :: nat

record bucket =
  b_rule :: Rule
  b_identity :: Identity
  b_active :: int
  b_history :: "event list"
  b_retention :: gdur

record active =
  a_operation :: "nat option"
  a_identity :: Identity
  a_members :: "string list"
  a_started :: gtime
  a_phase :: string

record operation =
  op_identity :: Identity
  op_ticket :: nat
  op_attempts :: int
  op_started :: bool
  op_closed :: bool
  op_waiting :: bool
  op_waitUsed :: gdur

record Permit =
  p_e :: "nat option"
  p_id :: nat
  p_once :: bool
  p_operation :: "nat option"

text \<open>\<open>&Permit{}\<close>: the permit handed out while the engine is disabled.\<close>

definition empty_permit :: Permit where
  "empty_permit = \<lparr>p_e = None, p_id = 0, p_once = False, p_operation = None\<rparr>"

record waiter =
  wt_request :: "Permit option"
  wt_identity :: Identity
  wt_id :: nat
  wt_enqueued :: gtime
  wt_bytes :: int
  wt_deadline :: gtime
  wt_parent :: "gtime option"
  wt_permit :: "Permit option"
  wt_err :: "err option"
  wt_blocked :: string
  wt_nextCheck :: gtime
  wt_finished :: bool

record timer =
  tm_delay :: gdur
  tm_generation :: nat

record engine =
  e_self :: nat
  e_cfg :: Config
  e_buckets :: "(string \<times> bucket) list"
  e_active :: "(nat \<times> active) list"
  e_queue :: "waiter list"
  e_queueBytes :: int
  e_sequence :: nat
  e_lastServed :: "(string \<times> nat) list"
  e_timer :: "timer option"
  e_timerGeneration :: nat
  e_dispatchPending :: bool
  e_closed :: bool
  e_admitted :: nat
  e_rejected :: nat
  e_canceled :: nat
  e_timedOut :: nat
  e_waited :: nat
  e_historyCount :: int
  e_activitySequence :: nat
  e_policyRevision :: nat
  e_ops :: "(nat \<times> operation) list"
  e_settled :: "waiter list"

definition New :: "nat \<Rightarrow> Config \<Rightarrow> cfg_error + engine" where
  "New self cfg = (case Validate cfg of Some e \<Rightarrow> Inl e
     | None \<Rightarrow> Inr \<lparr>e_self = self, e_cfg = Effective cfg, e_buckets = [], e_active = [], e_queue = [],
         e_queueBytes = 0, e_sequence = 0, e_lastServed = [], e_timer = None, e_timerGeneration = 0,
         e_dispatchPending = False, e_closed = False, e_admitted = 0, e_rejected = 0, e_canceled = 0,
         e_timedOut = 0, e_waited = 0, e_historyCount = 0, e_activitySequence = 0,
         e_policyRevision = 1, e_ops = [], e_settled = []\<rparr>)"

text \<open>\<open>request != nil && request.operation != nil\<close>, and the operation it points to.\<close>

definition request_op :: "Permit option \<Rightarrow> nat option" where
  "request_op request = (case request of None \<Rightarrow> None | Some p \<Rightarrow> p_operation p)"

definition get_op :: "engine \<Rightarrow> nat \<Rightarrow> operation option" where
  "get_op e i = map_of (e_ops e) i"

definition upd_op :: "nat \<Rightarrow> (operation \<Rightarrow> operation) \<Rightarrow> engine \<Rightarrow> engine" where
  "upd_op i f e = e\<lparr>e_ops := adjust i f (e_ops e)\<rparr>"

section \<open>The admission check\<close>

text \<open>\<open>sort.Search\<close> for the first record younger than the cut.\<close>

definition first_after :: "gtime \<Rightarrow> event list \<Rightarrow> nat" where
  "first_after cutoff history = sort_Search (length history) (\<lambda>i. ev_at (history ! i) > cutoff)"

text \<open>One window: blocked, and when it frees up, or not.\<close>

definition window_check :: "gtime \<Rightarrow> event list \<Rightarrow> Window \<Rightarrow> gtime option" where
  "window_check now history w =
     (let period = ms_dur (w_PeriodMS w);
          first = first_after (now - period) history;
          count = length history - first
      in if int count \<ge> w_Requests w
         then Some (ev_at (history ! nat (int first + int count - w_Requests w)) + period) else None)"

fun check_windows :: "gtime \<Rightarrow> event list \<Rightarrow> string \<Rightarrow> Window list \<Rightarrow> gtime \<times> string \<Rightarrow> gtime \<times> string" where
  "check_windows now history rid [] (nxt, blocked) = (nxt, blocked)"
| "check_windows now history rid (w # ws) (nxt, blocked) =
     (case window_check now history w of
        Some available \<Rightarrow>
          check_windows now history rid ws (if available > nxt then available else nxt, rid)
      | None \<Rightarrow> check_windows now history rid ws (nxt, blocked))"

text \<open>The result of the rule loop: the buckets, and either the early return or the accumulators.\<close>

type_synonym check_result = "string list \<times> gtime \<times> string \<times> flow_Error option"

definition skips_model :: "bool \<Rightarrow> Rule \<Rightarrow> bool" where
  "skips_model withoutModel r \<longleftrightarrow>
     withoutModel \<and> (groupsModel r \<or> r_Models r \<noteq> None \<or> (r_Model r \<noteq> '''' \<and> r_Model r \<noteq> ''*''))"

text \<open>\<open>b.rule = r\<close>, and the retention only grows.\<close>

definition touch_bucket :: "Rule \<Rightarrow> bucket \<Rightarrow> bucket" where
  "touch_bucket r b = b\<lparr>b_rule := r,
     b_retention := (if r_compiledRetention r > b_retention b then r_compiledRetention r else b_retention b)\<rparr>"

definition new_bucket :: "Rule \<Rightarrow> Identity \<Rightarrow> bucket" where
  "new_bucket r d = \<lparr>b_rule = r, b_identity = d, b_active = 0, b_history = [],
     b_retention = r_compiledRetention r\<rparr>"

fun check_rules :: "Identity \<Rightarrow> gtime \<Rightarrow> bool \<Rightarrow> int \<Rightarrow> Rule list \<Rightarrow> (string \<times> bucket) list
    \<Rightarrow> string list \<Rightarrow> gtime \<Rightarrow> string \<Rightarrow> (string \<times> bucket) list \<times> check_result" where
  "check_rules d now wm maxBuckets [] bs members nxt blocked = (bs, members, nxt, blocked, None)"
| "check_rules d now wm maxBuckets (r # rs) bs members nxt blocked =
     (if skips_model wm r then check_rules d now wm maxBuckets rs bs members nxt blocked
      else if \<not> rule_matches r d then check_rules d now wm maxBuckets rs bs members nxt blocked
      else let bid = bucketID r d in
        if map_of bs bid = None \<and> int (length bs) \<ge> maxBuckets
        then (bs, [], nxt, r_ID r, Some (flow_err ''flow_control_state_full'' (r_ID r) 0))
        else let b0 = (case map_of bs bid of None \<Rightarrow> new_bucket r d | Some b \<Rightarrow> b);
                 b = touch_bucket r b0;
                 bs' = (case map_of bs bid of None \<Rightarrow> bs @ [(bid, b)] | Some _ \<Rightarrow> adjust bid (\<lambda>_. b) bs);
                 blocked1 = (if r_MaxConcurrent r > 0 \<and> b_active b \<ge> r_MaxConcurrent r then r_ID r else blocked);
                 (nxt2, blocked2) = check_windows now (b_history b) (r_ID r) (r_Windows r) (nxt, blocked1)
             in check_rules d now wm maxBuckets rs bs' (members @ [bid]) nxt2 blocked2)"

definition has_windows :: "engine \<Rightarrow> string \<Rightarrow> bool" where
  "has_windows e bid = (case map_of (e_buckets e) bid of None \<Rightarrow> False | Some b \<Rightarrow> r_Windows (b_rule b) \<noteq> [])"

definition needed_records :: "engine \<Rightarrow> string list \<Rightarrow> int" where
  "needed_records e members = int (length (filter (has_windows e) members))"

definition checkLocked :: "Identity \<Rightarrow> gtime \<Rightarrow> bool \<Rightarrow> engine \<Rightarrow> engine \<times> check_result" where
  "checkLocked d now withoutModel e =
     (let (bs, members, nxt, blocked, er) =
            check_rules d now withoutModel (c_MaxBuckets (e_cfg e)) (c_Rules (e_cfg e)) (e_buckets e) [] zero_time '''';
          e' = e\<lparr>e_buckets := bs\<rparr>
      in case er of Some x \<Rightarrow> (e', members, nxt, blocked, Some x)
         | None \<Rightarrow>
           if blocked = '''' then
             if int (length (e_active e')) \<ge> 100000
             then (e', [], nxt, '''', Some (flow_err ''flow_control_state_full'' '''' 0))
             else if e_historyCount e' + needed_records e' members > c_MaxHistory (e_cfg e')
             then (e', [], nxt, '''', Some (flow_err ''flow_control_state_full'' '''' 0))
             else (e', members, nxt, blocked, None)
           else (e', members, nxt, blocked, None))"

text \<open>\<open>checkWorkLocked\<close> (joint.go): the request-stage rules of the first attempt, then the attempt's.\<close>

type_synonym work_result = "(string list \<times> string list) \<times> gtime \<times> string \<times> flow_Error option"

definition checkAttemptLocked ::
    "Identity \<Rightarrow> gtime \<Rightarrow> string list \<Rightarrow> gtime \<Rightarrow> int \<Rightarrow> engine \<Rightarrow> engine \<times> work_result" where
  "checkAttemptLocked d now reqm first records e1 =
     (let (e2, attm, nxt, blocked, er) = checkLocked d now False e1;
          first' = (if nxt > first then nxt else first)
      in if er = None \<and> blocked = '''' \<and>
            (int (length (e_active e2)) + records > 100000 \<or>
             e_historyCount e2 + (needed_records e2 reqm + needed_records e2 attm) > c_MaxHistory (e_cfg e2))
         then (e2, (reqm, attm), first', blocked, Some (flow_err ''flow_control_state_full'' '''' 0))
         else (e2, (reqm, attm), first', blocked, er))"

definition checkWorkLocked :: "Permit option \<Rightarrow> Identity \<Rightarrow> gtime \<Rightarrow> engine \<Rightarrow> engine \<times> work_result" where
  "checkWorkLocked request d now e =
     (case request_op request of None \<Rightarrow> checkAttemptLocked d now [] zero_time 1 e
      | Some o' \<Rightarrow>
        (case get_op e o' of None \<Rightarrow> checkAttemptLocked d now [] zero_time 1 e
         | Some opr \<Rightarrow>
           if op_closed opr then (e, ([], []), zero_time, '''', Some (flow_err ''flow_control_closed'' '''' 0))
           else if op_ticket opr = 0 then
             (let (e1, reqm, first, blocked, er) = checkLocked (op_identity opr) now False e
              in if er \<noteq> None \<or> blocked \<noteq> '''' then (e1, (reqm, []), first, blocked, er)
                 else checkAttemptLocked d now reqm first 2 e1)
           else checkAttemptLocked d now [] zero_time 1 e))"

section \<open>Granting\<close>

definition grant_member :: "gtime \<Rightarrow> nat \<Rightarrow> string \<Rightarrow> engine \<Rightarrow> engine" where
  "grant_member now ticket bid e =
     (let windowed = has_windows e bid
      in e\<lparr>e_buckets := adjust bid (\<lambda>b. b\<lparr>b_active := b_active b + 1,
              b_history := (if windowed then b_history b @ [\<lparr>ev_at = now, ev_ticket = ticket\<rparr>] else b_history b)\<rparr>)
              (e_buckets e),
           e_historyCount := e_historyCount e + (if windowed then 1 else 0)\<rparr>)"

definition grantLocked :: "Identity \<Rightarrow> string list \<Rightarrow> gtime \<Rightarrow> engine \<Rightarrow> Permit \<times> engine" where
  "grantLocked d members now e0 =
     (let e1 = e0\<lparr>e_sequence := Suc (e_sequence e0)\<rparr>;
          ticket = e_sequence e1;
          e2 = fold (grant_member now ticket) members e1;
          e3 = e2\<lparr>e_active := AList.update ticket \<lparr>a_operation = None, a_identity = d, a_members = members,
                     a_started = now, a_phase = ''running''\<rparr> (e_active e2),
                  e_admitted := Suc (e_admitted e2),
                  e_lastServed := AList.update (d_Key d) (e_sequence e2) (e_lastServed e2)\<rparr>
      in (\<lparr>p_e = Some (e_self e0), p_id = ticket, p_once = False, p_operation = None\<rparr>, e3))"

definition grantWorkLocked ::
    "Permit option \<Rightarrow> Identity \<Rightarrow> string list \<times> string list \<Rightarrow> gtime \<Rightarrow> engine \<Rightarrow> Permit \<times> engine" where
  "grantWorkLocked request d mm now e =
     (case request_op request of
        None \<Rightarrow> grantLocked d (snd mm) now e
      | Some o' \<Rightarrow>
          let e1 = (case get_op e o' of None \<Rightarrow> e
                    | Some opr \<Rightarrow> if op_ticket opr = 0
                        then (let (rp, eg) = grantLocked (op_identity opr) (fst mm) now e
                              in upd_op o' (\<lambda>x. x\<lparr>op_ticket := p_id rp\<rparr>) eg)
                        else e);
              (p, e2) = grantLocked d (snd mm) now e1;
              e3 = upd_op o' (\<lambda>x. x\<lparr>op_attempts := op_attempts x + 1\<rparr>) e2
          in (p, e3\<lparr>e_active := adjust (p_id p) (\<lambda>a. a\<lparr>a_operation := Some o'\<rparr>) (e_active e3)\<rparr>))"

section \<open>Releasing\<close>

text \<open>The inner loop of a refund: the first record of the ticket leaves the history.\<close>

fun remove_ticket :: "nat \<Rightarrow> event list \<Rightarrow> event list" where
  "remove_ticket ticket [] = []"
| "remove_ticket ticket (x # xs) = (if ev_ticket x = ticket then xs else x # remove_ticket ticket xs)"

definition refund_history :: "nat \<Rightarrow> engine \<Rightarrow> engine" where
  "refund_history ticket e =
     e\<lparr>e_buckets := map_vals (\<lambda>b. b\<lparr>b_history := remove_ticket ticket (b_history b)\<rparr>) (e_buckets e),
       e_historyCount := e_historyCount e -
         asum (\<lambda>b. int (length (b_history b)) - int (length (remove_ticket ticket (b_history b)))) (e_buckets e)\<rparr>"

text \<open>\<open>m.b.active--\<close> for every member, then the record leaves the active map.\<close>

definition drop_record :: "nat \<Rightarrow> active \<Rightarrow> bool \<Rightarrow> engine \<Rightarrow> engine" where
  "drop_record ticket a refund e0 =
     (let e1 = e0\<lparr>e_buckets := fold (\<lambda>m. adjust m (\<lambda>b. b\<lparr>b_active := b_active b - 1\<rparr>)) (a_members a) (e_buckets e0),
                   e_active := AList.delete ticket (e_active e0)\<rparr>
      in if refund then refund_history ticket e1 else e1)"

lemma drop_record_active: "e_active (drop_record ticket a refund e) = AList.delete ticket (e_active e)"
  by (simp add: drop_record_def refund_history_def Let_def)

lemma length_delete_less: "map_of al k = Some v \<Longrightarrow> length (AList.delete k al) < length al"
  unfolding AList.delete_eq by (drule map_of_SomeD, erule length_filter_less) simp

function releaseRecordLocked :: "nat \<Rightarrow> bool \<Rightarrow> engine \<Rightarrow> engine" where
  "releaseRecordLocked ticket refund e =
     (case map_of (e_active e) ticket of None \<Rightarrow> e
      | Some a \<Rightarrow>
        let e1 = drop_record ticket a refund e in
        case a_operation a of None \<Rightarrow> e1
        | Some o' \<Rightarrow>
          let e2 = upd_op o' (\<lambda>x. x\<lparr>op_attempts := op_attempts x - 1,
                                   op_started := (op_started x \<or> \<not> refund)\<rparr>) e1 in
          case get_op e2 o' of None \<Rightarrow> e2
          | Some opr \<Rightarrow>
            if op_attempts opr = 0 \<and> op_ticket opr \<noteq> 0 \<and> (op_closed opr \<or> \<not> op_started opr)
            then releaseRecordLocked (op_ticket opr) (\<not> op_started opr)
                   (upd_op o' (\<lambda>x. x\<lparr>op_ticket := 0\<rparr>) e2)
            else e2)"
  by pat_completeness auto
termination
  by (relation "measure (\<lambda>(ticket, refund, e). length (e_active e))")
    (auto simp: upd_op_def drop_record_active intro: length_delete_less)

declare releaseRecordLocked.simps [simp del]

section \<open>Waiters\<close>

definition find_waiter :: "engine \<Rightarrow> nat \<Rightarrow> waiter option" where
  "find_waiter e i = List.find (\<lambda>w. wt_id w = i) (e_queue e)"

definition upd_waiter :: "nat \<Rightarrow> (waiter \<Rightarrow> waiter) \<Rightarrow> engine \<Rightarrow> engine" where
  "upd_waiter i f e = e\<lparr>e_queue := map (\<lambda>w. if wt_id w = i then f w else w) (e_queue e)\<rparr>"

text \<open>\<open>op.waiting = false\<close> and the time spent waiting is charged to the operation.\<close>

definition charge_wait :: "gtime \<Rightarrow> waiter \<Rightarrow> engine \<Rightarrow> engine" where
  "charge_wait now w e =
     (case request_op (wt_request w) of None \<Rightarrow> e
      | Some o' \<Rightarrow> upd_op o' (\<lambda>x. x\<lparr>op_waiting := False,
          op_waitUsed := (let spent = time_sub now (wt_enqueued w)
                          in if spent > 0 then wrap64 (op_waitUsed x + spent) else op_waitUsed x)\<rparr>) e)"

definition removeWaiterLocked :: "nat \<Rightarrow> gtime \<Rightarrow> engine \<Rightarrow> bool \<times> engine" where
  "removeWaiterLocked i now e =
     (case find_waiter e i of None \<Rightarrow> (False, e)
      | Some w \<Rightarrow> (True, charge_wait now w
          (e\<lparr>e_queue := filter (\<lambda>v. wt_id v \<noteq> i) (e_queue e), e_queueBytes := e_queueBytes e - wt_bytes w\<rparr>)))"

definition finishWaiterLocked :: "waiter \<Rightarrow> Permit option \<Rightarrow> err option \<Rightarrow> gtime \<Rightarrow> engine \<Rightarrow> engine" where
  "finishWaiterLocked w p er now e =
     (let e1 = snd (removeWaiterLocked (wt_id w) now e)
      in e1\<lparr>e_settled := e_settled e1 @ [w\<lparr>wt_permit := p, wt_err := er\<rparr>]\<rparr>)"

text \<open>\<open>settleWaiterLocked\<close> leaves the waiter in the queue, marked, until the batch is compacted.\<close>

definition settleWaiterLocked :: "nat \<Rightarrow> Permit option \<Rightarrow> err option \<Rightarrow> gtime \<Rightarrow> engine \<Rightarrow> engine" where
  "settleWaiterLocked i p er now e =
     (case find_waiter e i of None \<Rightarrow> e
      | Some w \<Rightarrow>
        if wt_finished w then e
        else upd_waiter i (\<lambda>v. v\<lparr>wt_finished := True, wt_permit := p, wt_err := er\<rparr>)
               (charge_wait now w (e\<lparr>e_queueBytes := e_queueBytes e - wt_bytes w\<rparr>)))"

section \<open>Dispatch\<close>

definition dispatchGrantBatch :: nat where "dispatchGrantBatch = 64"

text \<open>A \<open>dispatchKey\<close>, with the items from the cursor on (the numbers of the waiters).\<close>

record dispatchKey =
  k_key :: string
  k_rank :: nat
  k_items :: "nat list"

definition served_rank :: "engine \<Rightarrow> string \<Rightarrow> nat" where
  "served_rank e key = (case map_of (e_lastServed e) key of None \<Rightarrow> 0 | Some n \<Rightarrow> n)"

text \<open>\<open>Less\<close> of the heap: least recently served key first, then the oldest waiter.\<close>

definition key_less :: "dispatchKey \<Rightarrow> dispatchKey \<Rightarrow> bool" where
  "key_less a b = (if k_rank a \<noteq> k_rank b then k_rank a < k_rank b else hd (k_items a) < hd (k_items b))"

text \<open>\<open>heap.Pop\<close>: a least element and the others.\<close>

fun pop_min :: "dispatchKey \<Rightarrow> dispatchKey list \<Rightarrow> dispatchKey \<times> dispatchKey list" where
  "pop_min k [] = (k, [])"
| "pop_min k (x # xs) = (let (m, rest) = pop_min x xs in if key_less k m then (k, m # rest) else (m, k # rest))"

text \<open>The first pass: settle the canceled and the expired, group the others by key.\<close>

fun add_item :: "engine \<Rightarrow> string \<Rightarrow> nat \<Rightarrow> dispatchKey list \<Rightarrow> dispatchKey list" where
  "add_item e key i [] = [\<lparr>k_key = key, k_rank = served_rank e key, k_items = [i]\<rparr>]"
| "add_item e key i (k # ks) =
     (if k_key k = key then k\<lparr>k_items := k_items k @ [i]\<rparr> # ks else k # add_item e key i ks)"

definition scan_waiter :: "(nat \<Rightarrow> ctx_error option) \<Rightarrow> gtime \<Rightarrow> waiter
    \<Rightarrow> engine \<times> dispatchKey list \<Rightarrow> engine \<times> dispatchKey list" where
  "scan_waiter errs now w = (\<lambda>(e, keys).
     (case errs (wt_id w) of
        Some ce \<Rightarrow> (settleWaiterLocked (wt_id w) None (Some (ECtx ce)) now (e\<lparr>e_canceled := Suc (e_canceled e)\<rparr>), keys)
      | None \<Rightarrow>
        if now \<ge> wt_deadline w then
          (let er = (case wt_parent w of
                       Some parent \<Rightarrow> if now \<ge> parent then ECtx CtxDeadlineExceeded
                                      else EFlow (flow_err ''flow_control_wait_timeout'' (wt_blocked w) 0)
                     | None \<Rightarrow> EFlow (flow_err ''flow_control_wait_timeout'' (wt_blocked w) 0))
           in (settleWaiterLocked (wt_id w) None (Some er) now (e\<lparr>e_timedOut := Suc (e_timedOut e)\<rparr>), keys))
        else (e, add_item e (d_Key (wt_identity w)) (wt_id w) keys)))"

text \<open>The waiters of one key, from its cursor: the first that can be granted is; the rest is returned.\<close>

fun serve_items :: "(nat \<Rightarrow> ctx_error option) \<Rightarrow> gtime \<Rightarrow> nat list \<Rightarrow> engine \<Rightarrow> nat list option \<times> engine" where
  "serve_items errs now [] e = (None, e)"
| "serve_items errs now (i # rest) e =
     (case find_waiter e i of None \<Rightarrow> serve_items errs now rest e
      | Some w \<Rightarrow>
        (case errs i of
           Some ce \<Rightarrow> serve_items errs now rest
             (settleWaiterLocked i None (Some (ECtx ce)) now (e\<lparr>e_canceled := Suc (e_canceled e)\<rparr>))
         | None \<Rightarrow>
           if \<not> c_Enabled (e_cfg e)
           then (Some rest, settleWaiterLocked i (Some empty_permit) None now e)
           else
             let (e1, mm, nxt, blocked, er) = checkWorkLocked (wt_request w) (wt_identity w) now e;
                 e2 = upd_waiter i (\<lambda>v. v\<lparr>wt_nextCheck := nxt, wt_blocked := blocked\<rparr>) e1
             in case er of
                  Some x \<Rightarrow> serve_items errs now rest (upd_waiter i (\<lambda>v. v\<lparr>wt_blocked := fe_Code x\<rparr>) e2)
                | None \<Rightarrow>
                    if blocked \<noteq> '''' then serve_items errs now rest e2
                    else let (p, e3) = grantWorkLocked (wt_request w) (wt_identity w) mm now e2
                         in (Some rest, settleWaiterLocked i (Some p) None now e3)))"

lemma serve_items_shorter: "serve_items errs now xs e = (Some rest, e') \<Longrightarrow> length rest < length xs"
proof (induction xs arbitrary: e)
  case (Cons i xs)
  show ?case
    using Cons.prems by (auto simp: Let_def split: option.splits if_splits prod.splits
        intro: less_SucI Cons.IH dest: Cons.IH)
qed simp

lemma pop_min_mset: "pop_min k ks = (m, rest) \<Longrightarrow> mset (k # ks) = mset (m # rest)"
  by (induction k ks arbitrary: m rest rule: pop_min.induct) (auto split: prod.splits if_splits)

definition keys_size :: "dispatchKey list \<Rightarrow> nat" where
  "keys_size ks = sum_list (map (\<lambda>k. Suc (length (k_items k))) ks)"

lemma keys_size_mset: "mset xs = mset ys \<Longrightarrow> keys_size xs = keys_size ys"
  unfolding keys_size_def by (metis mset_map sum_mset_sum_list)

text \<open>The heap loop. At most \<open>dispatchGrantBatch\<close> grants; then the timer resumes the work.\<close>

function dispatch_loop ::
    "(nat \<Rightarrow> ctx_error option) \<Rightarrow> gtime \<Rightarrow> dispatchKey list \<Rightarrow> nat \<Rightarrow> engine \<Rightarrow> engine" where
  "dispatch_loop errs now [] grants e = e"
| "dispatch_loop errs now (k0 # ks) grants e =
     (let (k, rest) = pop_min k0 ks;
          (served, e1) = serve_items errs now (k_items k) e;
          grants' = (case served of None \<Rightarrow> grants | Some _ \<Rightarrow> Suc grants);
          keys' = (case served of None \<Rightarrow> rest
                   | Some items \<Rightarrow> if items = [] then rest
                       else k\<lparr>k_rank := served_rank e1 (k_key k), k_items := items\<rparr> # rest)
      in if grants' \<ge> dispatchGrantBatch \<and> keys' \<noteq> [] then e1\<lparr>e_dispatchPending := True\<rparr>
         else dispatch_loop errs now keys' grants' e1)"
  by pat_completeness auto
termination
proof (relation "measure (\<lambda>(errs, now, ks, grants, e). keys_size ks)", goal_cases)
  case 1
  then show ?case by simp
next
  case (2 errs now k0 ks grants e p k rest sp served e1 grants' keys')
  have "pop_min k0 ks = (k, rest)" using 2(1,2) by simp
  then have "keys_size (k0 # ks) = keys_size (k # rest)"
    by (intro keys_size_mset pop_min_mset)
  then have eq: "keys_size (k0 # ks) = Suc (length (k_items k)) + keys_size rest"
    by (simp add: keys_size_def)
  have "keys_size keys' < keys_size (k0 # ks)"
  proof (cases served)
    case None
    then show ?thesis using 2 eq by simp
  next
    case (Some items)
    then have "length items < length (k_items k)"
      using 2 serve_items_shorter[of errs now "k_items k" e items e1] by simp
    then show ?thesis using 2 eq Some by (auto simp: keys_size_def split: if_splits)
  qed
  then show ?case by simp
qed

text \<open>The deferred compaction: finished waiters leave the queue.\<close>

definition compact_queue :: "engine \<Rightarrow> engine" where
  "compact_queue e = e\<lparr>e_queue := filter (\<lambda>w. \<not> wt_finished w) (e_queue e),
                        e_settled := e_settled e @ filter wt_finished (e_queue e)\<rparr>"

definition dispatchLocked ::
    "(nat \<Rightarrow> ctx_error option) \<Rightarrow> (nat \<Rightarrow> ctx_error option) \<Rightarrow> gtime \<Rightarrow> engine \<Rightarrow> engine" where
  "dispatchLocked errs1 errs2 now e0 =
     (let e = e0\<lparr>e_dispatchPending := False\<rparr> in
      if e_queue e = [] then e
      else let (e1, keys) = fold (scan_waiter errs1 now) (e_queue e) (e, [])
           in compact_queue (dispatch_loop errs2 now keys 0 e1))"

section \<open>Cleanup and the timer\<close>

definition live_keys :: "engine \<Rightarrow> string set" where
  "live_keys e = (\<lambda>(i, a). d_Key (a_identity a)) ` set (e_active e) \<union> (\<lambda>w. d_Key (wt_identity w)) ` set (e_queue e)"

definition expired_count :: "gtime \<Rightarrow> bucket \<Rightarrow> nat" where
  "expired_count now b = first_after (now - b_retention b) (b_history b)"

definition prune_bucket :: "gtime \<Rightarrow> bucket \<Rightarrow> bucket" where
  "prune_bucket now b = b\<lparr>b_history := drop (expired_count now b) (b_history b)\<rparr>"

definition cleanupLocked :: "gtime \<Rightarrow> engine \<Rightarrow> engine" where
  "cleanupLocked now e =
     e\<lparr>e_lastServed := filter (\<lambda>(key, n). key \<in> live_keys e) (e_lastServed e),
       e_historyCount := e_historyCount e - asum (\<lambda>b. int (expired_count now b)) (e_buckets e),
       e_buckets := filter (\<lambda>(bid, b). \<not> (b_active b = 0 \<and> b_history b = []))
                      (map_vals (prune_bucket now) (e_buckets e))\<rparr>"

text \<open>The earliest time at which the queue has to be looked at again.\<close>

definition earliest_wake :: "gtime \<Rightarrow> engine \<Rightarrow> waiter \<Rightarrow> gtime" where
  "earliest_wake now e w0 =
     (let t1 = fold (\<lambda>w t. let t' = (if wt_deadline w < t then wt_deadline w else t)
                           in if c_Enabled (e_cfg e) \<and> wt_nextCheck w > now \<and> wt_nextCheck w < t'
                              then wt_nextCheck w else t') (e_queue e) (wt_deadline w0);
          t2 = fold (\<lambda>(bid, b) t. case b_history b of [] \<Rightarrow> t
                       | x # _ \<Rightarrow> let at = ev_at x + b_retention b in if at > now \<and> at < t then at else t)
                 (e_buckets e) t1
      in if e_dispatchPending e \<and> now + ms_ns < t2 then now + ms_ns else t2)"

definition scheduleLocked :: "gtime \<Rightarrow> engine \<Rightarrow> engine" where
  "scheduleLocked now e0 =
     (let e = e0\<lparr>e_timer := None, e_timerGeneration := Suc (e_timerGeneration e0)\<rparr>
      in if e_closed e then e
         else case e_queue e of [] \<Rightarrow> e
         | w0 # _ \<Rightarrow>
           let delay0 = time_sub (earliest_wake now e w0) now;
               delay = (if delay0 < ms_ns then ms_ns else delay0)
           in e\<lparr>e_timer := Some \<lparr>tm_delay = delay, tm_generation = e_timerGeneration e\<rparr>\<rparr>)"

text \<open>The callback of the timer.\<close>

definition timer_fires ::
    "nat \<Rightarrow> (nat \<Rightarrow> ctx_error option) \<Rightarrow> (nat \<Rightarrow> ctx_error option) \<Rightarrow> gtime \<Rightarrow> engine \<Rightarrow> engine" where
  "timer_fires generation errs1 errs2 n e =
     (if generation \<noteq> e_timerGeneration e \<or> e_closed e then e
      else scheduleLocked n (dispatchLocked errs1 errs2 n (cleanupLocked n e)))"

end
