(* ===== verification/FlowApi.thy ===== *)
theory FlowApi
  imports FlowEngine
begin

text \<open>
  The entry points of the admission engine: acquiring, releasing, updating and closing
  (\<open>engine.go\<close>), the joint request operations (\<open>joint.go\<close>) and \<open>MarkPhase\<close> (\<open>status.go\<close>). Each
  is built from the critical sections of \<open>FlowEngine\<close> in the order of the code. A nil engine or
  nil permit is outside the model: those calls return at once in the code.
\<close>

section \<open>Releasing permits\<close>

type_synonym ctx_reads = "nat \<Rightarrow> ctx_error option"

text \<open>\<open>release\<close>: give the record back, then clean up, dispatch and re-arm the timer.\<close>

definition settle_after :: "ctx_reads \<Rightarrow> ctx_reads \<Rightarrow> gtime \<Rightarrow> engine \<Rightarrow> engine" where
  "settle_after errs1 errs2 now e = scheduleLocked now (dispatchLocked errs1 errs2 now (cleanupLocked now e))"

definition release :: "ctx_reads \<Rightarrow> ctx_reads \<Rightarrow> gtime \<Rightarrow> nat \<Rightarrow> bool \<Rightarrow> engine \<Rightarrow> engine" where
  "release errs1 errs2 now ticket refund e = settle_after errs1 errs2 now (releaseRecordLocked ticket refund e)"

text \<open>\<open>endOperation\<close>: close the call, wake its waiters, release its record when no attempt runs. The source reads
  the clock anew for each waiter it wakes; here one reading serves them all, which only affects the waiting
  times that are recorded.\<close>

definition finish_op_waiters :: "nat \<Rightarrow> gtime \<Rightarrow> engine \<Rightarrow> engine" where
  "finish_op_waiters o' nowf e =
     fold (\<lambda>w. finishWaiterLocked w None (Some (EFlow (flow_err ''flow_control_closed'' '''' 0))) nowf)
       (filter (\<lambda>w. request_op (wt_request w) = Some o') (e_queue e)) e"

definition endOperation :: "ctx_reads \<Rightarrow> ctx_reads \<Rightarrow> gtime \<Rightarrow> gtime \<Rightarrow> nat \<Rightarrow> engine \<Rightarrow> engine" where
  "endOperation errs1 errs2 nowf n o' e0 =
     (let e1 = finish_op_waiters o' nowf (upd_op o' (\<lambda>x. x\<lparr>op_closed := True\<rparr>) e0);
          e2 = (case get_op e1 o' of None \<Rightarrow> e1
                | Some opr \<Rightarrow>
                  if op_attempts opr = 0 \<and> op_ticket opr \<noteq> 0
                  then releaseRecordLocked (op_ticket opr) (\<not> op_started opr)
                         (upd_op o' (\<lambda>x. x\<lparr>op_ticket := 0\<rparr>) e1)
                  else e1)
      in settle_after errs1 errs2 n e2)"

text \<open>
  \<open>Release\<close> and \<open>abort\<close> (which \<open>CancelBeforeDispatch\<close> calls) share the permit's \<open>sync.Once\<close>. The
  engine argument is the one the permit belongs to; a permit of no engine does nothing.
\<close>

definition finish_permit ::
    "bool \<Rightarrow> ctx_reads \<Rightarrow> ctx_reads \<Rightarrow> gtime \<Rightarrow> gtime \<Rightarrow> Permit \<Rightarrow> engine \<Rightarrow> Permit \<times> engine" where
  "finish_permit refund errs1 errs2 nowf now p e =
     (if p_e p \<noteq> Some (e_self e) \<or> p_once p then (p, e)
      else (p\<lparr>p_once := True\<rparr>,
            case p_operation p of
              Some o' \<Rightarrow> endOperation errs1 errs2 nowf now o' e
            | None \<Rightarrow> release errs1 errs2 now (p_id p) refund e))"

definition Release :: "ctx_reads \<Rightarrow> ctx_reads \<Rightarrow> gtime \<Rightarrow> gtime \<Rightarrow> Permit \<Rightarrow> engine \<Rightarrow> Permit \<times> engine" where
  "Release = finish_permit False"

definition abort :: "ctx_reads \<Rightarrow> ctx_reads \<Rightarrow> gtime \<Rightarrow> gtime \<Rightarrow> Permit \<Rightarrow> engine \<Rightarrow> Permit \<times> engine" where
  "abort = finish_permit True"

section \<open>Acquiring\<close>

datatype acquired = Granted Permit | Refused err | Enqueued nat

definition identity_ok :: "Identity \<Rightarrow> bool" where
  "identity_ok d \<longleftrightarrow> \<not> ((d_Stage d \<noteq> Request \<and> d_Stage d \<noteq> Attempt) \<or> int (length (d_Key d)) > 256 \<or> int (length (d_Account d)) > 256
     \<or> int (length (d_Model d)) > 4096 \<or> int (length (d_Provider d)) > 256 \<or> int (length (d_Credential d)) > 256
     \<or> int (length (d_RequestID d)) > 128)"

text \<open>The queue wait left to a call, and whether it may wait: a call with a running attempt may not.\<close>

definition wait_budget :: "engine \<Rightarrow> Permit option \<Rightarrow> gdur" where
  "wait_budget e request = (let b = ms_dur (q_MaxWaitMS (c_Queue (e_cfg e))) in
     case request_op request of None \<Rightarrow> b
     | Some o' \<Rightarrow> (case get_op e o' of None \<Rightarrow> b | Some opr \<Rightarrow> wrap64 (b - op_waitUsed opr)))"

definition may_wait :: "engine \<Rightarrow> Permit option \<Rightarrow> bool \<Rightarrow> bool" where
  "may_wait e request mayWait =
     (case request_op request of None \<Rightarrow> mayWait
      | Some o' \<Rightarrow> (case get_op e o' of None \<Rightarrow> mayWait
         | Some opr \<Rightarrow> if op_attempts opr > 0 \<or> op_waiting opr then False else mayWait))"

text \<open>Lines 241-285: the request is refused or joins the queue.\<close>

definition enqueue_or_refuse :: "Permit option \<Rightarrow> Identity \<Rightarrow> int \<Rightarrow> bool \<Rightarrow> gtime option \<Rightarrow> gtime \<Rightarrow> string
    \<Rightarrow> gtime \<Rightarrow> engine \<Rightarrow> acquired \<times> engine" where
  "enqueue_or_refuse request d payloadBytes mayWait parent nxt blocked now e =
     (let q = c_Queue (e_cfg e);
          budget = wait_budget e request;
          refuse = (\<lambda>x. (Refused (EFlow x), e\<lparr>e_rejected := Suc (e_rejected e)\<rparr>));
          perKey = int (length (filter (\<lambda>w. d_Key (wt_identity w) = d_Key d) (e_queue e)))
      in if \<not> may_wait e request mayWait \<or> q_MaxWaiting q = 0 \<or> q_MaxWaitMS q = 0
         then refuse (flow_err ''flow_control_busy'' blocked (time_sub nxt now))
         else if budget \<le> 0 then refuse (flow_err ''flow_control_wait_timeout'' blocked 0)
         else if int (length (e_queue e)) \<ge> q_MaxWaiting q \<or> perKey \<ge> q_MaxWaitingPerKey q
              \<or> payloadBytes > q_MaxBytes q - e_queueBytes e
         then refuse (flow_err ''flow_control_queue_full'' blocked (time_sub nxt now))
         else
           let deadline0 = now + budget;
               deadline = (case parent of Some pd \<Rightarrow> if pd < deadline0 then pd else deadline0 | None \<Rightarrow> deadline0);
               wid = Suc (e_activitySequence e);
               w = \<lparr>wt_request = request, wt_identity = d, wt_id = wid, wt_enqueued = now, wt_bytes = payloadBytes,
                    wt_deadline = deadline, wt_parent = parent, wt_permit = None, wt_err = None,
                    wt_blocked = blocked, wt_nextCheck = nxt, wt_finished = False\<rparr>;
               e1 = (case request_op request of None \<Rightarrow> e
                     | Some o' \<Rightarrow> upd_op o' (\<lambda>x. x\<lparr>op_waiting := True\<rparr>) e);
               e2 = e1\<lparr>e_activitySequence := wid, e_queue := e_queue e1 @ [w],
                       e_queueBytes := e_queueBytes e1 + payloadBytes, e_waited := Suc (e_waited e1)\<rparr>
           in (Enqueued wid, scheduleLocked now e2))"

text \<open>Lines 207-285: everything under the lock, up to the grant, the refusal or the enqueueing.\<close>

definition acquire_locked :: "ctx_reads \<Rightarrow> ctx_reads \<Rightarrow> gtime \<Rightarrow> Permit option \<Rightarrow> Identity \<Rightarrow> int \<Rightarrow> bool
    \<Rightarrow> gtime option \<Rightarrow> engine \<Rightarrow> acquired \<times> engine" where
  "acquire_locked errs1 errs2 now request d payloadBytes mayWait parent e0 =
     (if e_closed e0 then (Refused (EFlow (flow_err ''flow_control_closed'' '''' 0)), e0)
      else let e1 = cleanupLocked now e0 in
        if \<not> c_Enabled (e_cfg e1) then (Granted empty_permit, e1)
        else let e2 = dispatchLocked errs1 errs2 now e1;
                 e3 = (if e_dispatchPending e2 then scheduleLocked now e2 else e2);
                 (e4, mm, nxt, blocked, er) = checkWorkLocked request d now e3
             in case er of
                  Some x \<Rightarrow> (Refused (EFlow x), e4\<lparr>e_rejected := Suc (e_rejected e4)\<rparr>)
                | None \<Rightarrow>
                    if blocked = '''' \<and> \<not> e_dispatchPending e4
                    then (let (p, e5) = grantWorkLocked request d mm now e4
                          in (Granted p, scheduleLocked now e5))
                    else enqueue_or_refuse request d payloadBytes mayWait parent nxt blocked now e4)"

text \<open>
  The context as the caller of \<open>acquireWork\<close> sees it: \<open>Err()\<close> before the lock and after a grant,
  and its deadline. \<open>errs1'\<close>, \<open>errs2'\<close>, \<open>nowf'\<close> and \<open>now'\<close> are the readings of the critical section
  an abort runs.
\<close>

record ctx_view =
  cx_before :: "ctx_error option"
  cx_after :: "ctx_error option"
  cx_deadline :: "gtime option"

record readings =
  rd_errs1 :: ctx_reads
  rd_errs2 :: ctx_reads
  rd_nowf :: gtime
  rd_now :: gtime

definition acquireWork :: "readings \<Rightarrow> readings \<Rightarrow> ctx_view \<Rightarrow> Permit option \<Rightarrow> Identity \<Rightarrow> int \<Rightarrow> bool
    \<Rightarrow> engine \<Rightarrow> acquired \<times> engine" where
  "acquireWork rd rd' cx request d0 payloadBytes0 mayWait e =
     (let payloadBytes = (if payloadBytes0 < 0 then 0 else payloadBytes0) in
      case cx_before cx of Some ce \<Rightarrow> (Refused (ECtx ce), e)
      | None \<Rightarrow>
        let d = normalized d0 in
        if \<not> identity_ok d then (Refused (EFlow (flow_err ''flow_control_configuration'' '''' 0)), e)
        else case acquire_locked (rd_errs1 rd) (rd_errs2 rd) (rd_now rd) request d payloadBytes mayWait
                    (cx_deadline cx) e of
               (Granted p, e1) \<Rightarrow>
                 if \<not> c_Enabled (e_cfg e) then (Granted p, e1)
                 else (case cx_after cx of
                         Some ce \<Rightarrow> (Refused (ECtx ce),
                           snd (abort (rd_errs1 rd') (rd_errs2 rd') (rd_nowf rd') (rd_now rd') p e1))
                       | None \<Rightarrow> (Granted p, e1))
             | r \<Rightarrow> r)"

definition Acquire :: "readings \<Rightarrow> readings \<Rightarrow> ctx_view \<Rightarrow> Identity \<Rightarrow> int \<Rightarrow> engine \<Rightarrow> acquired \<times> engine" where
  "Acquire rd rd' cx d payloadBytes e = acquireWork rd rd' cx None d payloadBytes True e"

definition AcquireImmediately :: "readings \<Rightarrow> readings \<Rightarrow> ctx_view \<Rightarrow> Identity \<Rightarrow> int \<Rightarrow> engine \<Rightarrow> acquired \<times> engine" where
  "AcquireImmediately rd rd' cx d payloadBytes e = acquireWork rd rd' cx None d payloadBytes False e"

definition BeginRequest :: "Identity \<Rightarrow> engine \<Rightarrow> Permit \<times> engine" where
  "BeginRequest d e =
     (let o' = Suc (foldl max 0 (map fst (e_ops e)))
      in (\<lparr>p_e = Some (e_self e), p_id = 0, p_once = False, p_operation = Some o'\<rparr>,
          e\<lparr>e_ops := e_ops e @ [(o', \<lparr>op_identity = normalized d, op_ticket = 0, op_attempts = 0, op_started = False,
             op_closed = False, op_waiting = False, op_waitUsed = 0\<rparr>)]\<rparr>))"

definition AcquireForRequest :: "readings \<Rightarrow> readings \<Rightarrow> ctx_view \<Rightarrow> Permit option \<Rightarrow> Identity \<Rightarrow> int \<Rightarrow> bool
    \<Rightarrow> engine \<Rightarrow> acquired \<times> engine" where
  "AcquireForRequest rd rd' cx request d payloadBytes mayWait e =
     (let bad = (case request of None \<Rightarrow> False
         | Some rp \<Rightarrow> (case p_operation rp of None \<Rightarrow> False
             | Some o' \<Rightarrow> p_e rp \<noteq> Some (e_self e) \<or> d_Stage d \<noteq> Attempt \<or>
                 (case get_op e o' of None \<Rightarrow> True
                  | Some opr \<Rightarrow> d_Stage (op_identity opr) \<noteq> Request \<or> int (length (d_Key (op_identity opr))) > 256
                      \<or> int (length (d_Model (op_identity opr))) > 4096 \<or> int (length (d_RequestID (op_identity opr))) > 128)))
      in if bad then (Refused (EFlow (flow_err ''flow_control_configuration'' '''' 0)), e)
         else acquireWork rd rd' cx request d payloadBytes mayWait e)"

text \<open>
  The two branches of the final \<open>select\<close>. \<open>w.done\<close> is closed: return what was settled, unless the
  context has ended. \<open>ctx.Done()\<close>: leave the queue if still in it; a permit granted meanwhile is
  aborted.
\<close>

definition find_settled :: "engine \<Rightarrow> nat \<Rightarrow> waiter option" where
  "find_settled e i = List.find (\<lambda>w. wt_id w = i) (e_settled e)"

definition abort_opt :: "readings \<Rightarrow> Permit option \<Rightarrow> engine \<Rightarrow> engine" where
  "abort_opt rd p e = (case p of None \<Rightarrow> e
     | Some q \<Rightarrow> snd (abort (rd_errs1 rd) (rd_errs2 rd) (rd_nowf rd) (rd_now rd) q e))"

definition acquire_done :: "readings \<Rightarrow> ctx_error option \<Rightarrow> nat \<Rightarrow> engine \<Rightarrow> (acquired option) \<times> engine" where
  "acquire_done rd cerr i e =
     (case find_settled e i of None \<Rightarrow> (None, e)
      | Some w \<Rightarrow>
        let e1 = e\<lparr>e_settled := filter (\<lambda>v. wt_id v \<noteq> i) (e_settled e)\<rparr> in
        case cerr of
          Some ce \<Rightarrow> (Some (Refused (ECtx ce)), abort_opt rd (wt_permit w) e1)
        | None \<Rightarrow> ((case wt_err w of Some x \<Rightarrow> Some (Refused x)
                     | None \<Rightarrow> map_option Granted (wt_permit w)), e1))"

definition acquire_canceled :: "readings \<Rightarrow> readings \<Rightarrow> gtime \<Rightarrow> ctx_error \<Rightarrow> nat \<Rightarrow> engine \<Rightarrow> acquired \<times> engine" where
  "acquire_canceled rd rd' nows ce i e =
     (case removeWaiterLocked i (rd_nowf rd) e of
        (True, e1) \<Rightarrow>
          (Refused (ECtx ce),
           scheduleLocked nows (dispatchLocked (rd_errs1 rd) (rd_errs2 rd) (rd_now rd)
             (e1\<lparr>e_canceled := Suc (e_canceled e1)\<rparr>)))
      | (False, e1) \<Rightarrow>
          (Refused (ECtx ce),
           (case find_settled e1 i of None \<Rightarrow> e1
            | Some w \<Rightarrow> abort_opt rd' (wt_permit w) (e1\<lparr>e_settled := filter (\<lambda>v. wt_id v \<noteq> i) (e_settled e1)\<rparr>))))"

text \<open>Scheduling hints.\<close>

definition available_hint :: "bool \<Rightarrow> Identity \<Rightarrow> gtime \<Rightarrow> engine \<Rightarrow> bool \<times> engine" where
  "available_hint withoutModel d now e =
     (if \<not> c_Enabled (e_cfg e) then (True, e)
      else if e_closed e then (False, e)
      else let (e1, _, _, blocked, er) = checkLocked (normalized d) now withoutModel (cleanupLocked now e)
           in (blocked = '''' \<and> er = None, e1))"

definition Available :: "Identity \<Rightarrow> gtime \<Rightarrow> engine \<Rightarrow> bool \<times> engine" where
  "Available = available_hint False"

definition AvailableAccount :: "Identity \<Rightarrow> gtime \<Rightarrow> engine \<Rightarrow> bool \<times> engine" where
  "AvailableAccount = available_hint True"

section \<open>Marking work\<close>

definition CommitDispatch :: "Permit \<Rightarrow> engine \<Rightarrow> engine" where
  "CommitDispatch p e =
     (if p_e p \<noteq> Some (e_self e) then e
      else case map_of (e_active e) (p_id p) of None \<Rightarrow> e
      | Some a \<Rightarrow> (case a_operation a of None \<Rightarrow> e
          | Some o' \<Rightarrow> upd_op o' (\<lambda>x. x\<lparr>op_started := True\<rparr>) e))"

definition MarkPhase :: "string \<Rightarrow> Permit \<Rightarrow> engine \<Rightarrow> engine" where
  "MarkPhase phase p e =
     (if p_e p \<noteq> Some (e_self e) \<or> (phase \<noteq> ''running'' \<and> phase \<noteq> ''draining'') then e
      else let i = (case p_operation p of None \<Rightarrow> p_id p
                    | Some o' \<Rightarrow> (case get_op e o' of None \<Rightarrow> 0 | Some opr \<Rightarrow> op_ticket opr))
           in e\<lparr>e_active := adjust i (\<lambda>a. a\<lparr>a_phase := phase\<rparr>) (e_active e)\<rparr>)"

text \<open>
  \<open>WaitForProducer\<close>: \<open>None\<close> is a nil channel, \<open>Some True\<close> a channel already closed. What ends the
  wait is the producer, the context or the timer of the call's remaining budget; the time from
  \<open>start\<close> to \<open>stop\<close> is charged to the call.
\<close>

datatype wait_event = ProducerDone "ctx_error option" | ContextDone ctx_error | BudgetElapsed

definition WaitForProducer :: "bool option \<Rightarrow> ctx_error option \<Rightarrow> gtime \<Rightarrow> gtime \<Rightarrow> wait_event \<Rightarrow> Permit option
    \<Rightarrow> engine \<Rightarrow> err option \<times> engine" where
  "WaitForProducer channel cerr start stop ev request e =
     (if channel = None then (None, e)
      else case cerr of Some ce \<Rightarrow> (Some (ECtx ce), e)
      | None \<Rightarrow>
        if channel = Some True then (None, e)
        else if (case request of None \<Rightarrow> False | Some rp \<Rightarrow> p_operation rp \<noteq> None \<and> p_e rp \<noteq> Some (e_self e))
        then (Some (EFlow (flow_err ''flow_control_configuration'' '''' 0)), e)
        else if wait_budget e request \<le> 0 then (Some (EFlow (flow_err ''flow_control_wait_timeout'' '''' 0)), e)
        else ((case ev of ProducerDone None \<Rightarrow> None
               | ProducerDone (Some ce) \<Rightarrow> Some (ECtx ce)
               | ContextDone ce \<Rightarrow> Some (ECtx ce)
               | BudgetElapsed \<Rightarrow> Some (EFlow (flow_err ''flow_control_wait_timeout'' '''' 0))),
              (case request_op request of None \<Rightarrow> e
               | Some o' \<Rightarrow> upd_op o' (\<lambda>x. x\<lparr>op_waitUsed :=
                    (let spent = time_sub stop start
                     in if spent > 0 then wrap64 (op_waitUsed x + spent) else op_waitUsed x)\<rparr>) e)))"

section \<open>Changing the policy\<close>

text \<open>\<open>sameRuleDomain\<close> (status.go) compares the dimensions with \<open>reflect.DeepEqual\<close>, which tells a nil
  slice from an empty one.\<close>

definition sameRuleDomain :: "Rule \<Rightarrow> Rule \<Rightarrow> bool" where
  "sameRuleDomain a b \<longleftrightarrow>
     \<not> ((\<not> r_qualifiedModel a \<and> r_Scope a \<noteq> r_Scope b) \<or> r_ID a \<noteq> r_ID b \<or> r_Stage a \<noteq> r_Stage b
        \<or> r_qualifiedModel a \<noteq> r_qualifiedModel b \<or> map_option sort (dims_of a) \<noteq> map_option sort (dims_of b)
        \<or> r_Key a \<noteq> r_Key b \<or> r_Account a \<noteq> r_Account b \<or> r_Credential a \<noteq> r_Credential b
        \<or> r_Model a \<noteq> r_Model b \<or> r_Provider a \<noteq> r_Provider b \<or> r_AuthKind a \<noteq> r_AuthKind b
        \<or> r_Keys a \<noteq> r_Keys b \<or> r_Accounts a \<noteq> r_Accounts b \<or> r_Models a \<noteq> r_Models b)"

definition has_live_history :: "gtime \<Rightarrow> bucket \<Rightarrow> bool" where
  "has_live_history now b \<longleftrightarrow> b_history b \<noteq> [] \<and> ev_at (last (b_history b)) > now - b_retention b"

text \<open>The rule, if any, whose live rate records the new policy would reinterpret.\<close>

definition domain_change :: "Config \<Rightarrow> gtime \<Rightarrow> bucket \<Rightarrow> string option" where
  "domain_change cfg now b =
     (if \<not> has_live_history now b then None
      else map_option r_ID (List.find (\<lambda>r. r_Windows r \<noteq> [] \<and> r_ID r = r_ID (b_rule b) \<and> \<not> sameRuleDomain (b_rule b) r)
             (c_Rules cfg)))"

definition live_history :: "gtime \<Rightarrow> engine \<Rightarrow> int" where
  "live_history now e = asum (\<lambda>b. int (length (b_history b) - expired_count now b)) (e_buckets e)"

definition needed_buckets :: "Config \<Rightarrow> gtime \<Rightarrow> engine \<Rightarrow> string list" where
  "needed_buckets cfg now e = remdups
     (map fst (filter (\<lambda>(bid, b). has_live_history now b) (e_buckets e)) @
      (if c_Enabled cfg then concat (map (\<lambda>(i, a). map (\<lambda>r. bucketID r (a_identity a))
          (filter (\<lambda>r. rule_matches r (a_identity a)) (c_Rules cfg))) (e_active e)) else []))"

definition checkUpdateLocked :: "Config \<Rightarrow> gtime \<Rightarrow> engine \<Rightarrow> flow_Error option" where
  "checkUpdateLocked cfg now e =
     (if e_closed e then Some (flow_err ''flow_control_closed'' '''' 0)
      else if c_Enabled cfg \<and> (c_Version cfg \<ge> 3) \<noteq> (c_Version (e_cfg e) \<ge> 3) \<and> (e_active e \<noteq> [] \<or> e_queue e \<noteq> [])
      then Some (flow_err ''flow_control_migration_busy'' '''' 0)
      else case (if c_Enabled cfg \<and> c_Version cfg \<ge> 3
                 then List.find (\<lambda>(bid, b). domain_change cfg now b \<noteq> None) (e_buckets e) else None) of
             Some (bid, b) \<Rightarrow> Some (flow_err ''flow_control_rate_domain_change'' (the (domain_change cfg now b)) 0)
           | None \<Rightarrow>
             if c_Enabled cfg \<and> (int (length (needed_buckets cfg now e)) > c_MaxBuckets cfg
                                 \<or> live_history now e > c_MaxHistory cfg)
             then Some (flow_err ''flow_control_state_full'' '''' 0) else None)"

datatype update_error = UConfig cfg_error | UFlow flow_Error

definition CheckUpdate :: "Config \<Rightarrow> gtime \<Rightarrow> engine \<Rightarrow> update_error option" where
  "CheckUpdate cfg0 now e =
     (case Validate cfg0 of Some x \<Rightarrow> Some (UConfig x)
      | None \<Rightarrow> map_option UFlow (checkUpdateLocked (Effective cfg0) now e))"

text \<open>One rule against one active record, when a new policy counts the running work again.\<close>

definition reproject_rule :: "Identity \<Rightarrow> Rule \<Rightarrow> (string \<times> bucket) list \<times> string list
    \<Rightarrow> (string \<times> bucket) list \<times> string list" where
  "reproject_rule d r = (\<lambda>(bs, members).
     if \<not> rule_matches r d then (bs, members)
     else let bid = bucketID r d;
              b0 = (case map_of bs bid of None \<Rightarrow> new_bucket r d | Some b \<Rightarrow> b);
              b = b0\<lparr>b_rule := r, b_retention := (if retention r > b_retention b0 then retention r else b_retention b0),
                     b_active := b_active b0 + 1\<rparr>
          in ((case map_of bs bid of None \<Rightarrow> bs @ [(bid, b)] | Some _ \<Rightarrow> adjust bid (\<lambda>_. b) bs), members @ [bid]))"

fun reproject :: "Config \<Rightarrow> (nat \<times> active) list \<Rightarrow> (string \<times> bucket) list
    \<Rightarrow> (string \<times> bucket) list \<times> (nat \<times> active) list" where
  "reproject cfg [] bs = (bs, [])"
| "reproject cfg ((i, a) # as) bs =
     (if \<not> c_Enabled cfg
      then (let (bs', as') = reproject cfg as bs in (bs', (i, a\<lparr>a_members := []\<rparr>) # as'))
      else let (bs1, members) = fold (reproject_rule (a_identity a)) (c_Rules cfg) (bs, []);
               (bs', as') = reproject cfg as bs1
           in (bs', (i, a\<lparr>a_members := members\<rparr>) # as'))"

definition Update :: "ctx_reads \<Rightarrow> ctx_reads \<Rightarrow> gtime \<Rightarrow> gtime \<Rightarrow> Config \<Rightarrow> engine \<Rightarrow> update_error option \<times> engine" where
  "Update errs1 errs2 now now' cfg0 e0 =
     (case Validate cfg0 of Some x \<Rightarrow> (Some (UConfig x), e0)
      | None \<Rightarrow>
        let cfg = Effective cfg0 in
        case checkUpdateLocked cfg now e0 of Some x \<Rightarrow> (Some (UFlow x), e0)
        | None \<Rightarrow>
          let e1 = cleanupLocked now e0;
              e2 = e1\<lparr>e_cfg := cfg, e_policyRevision := Suc (e_policyRevision e1),
                      e_buckets := map_vals (\<lambda>b. b\<lparr>b_active := 0\<rparr>) (e_buckets e1)\<rparr>;
              (bs, as) = reproject cfg (e_active e2) (e_buckets e2);
              e3 = e2\<lparr>e_buckets := bs, e_active := as\<rparr>
          in (None, settle_after errs1 errs2 now' e3))"

definition Close :: "gtime \<Rightarrow> engine \<Rightarrow> engine" where
  "Close now e =
     (if e_closed e then e
      else let e1 = e\<lparr>e_closed := True\<rparr>;
               e2 = fold (\<lambda>w. finishWaiterLocked w None (Some (EFlow (flow_err ''flow_control_closed'' '''' 0))) now)
                      (e_queue e1) e1
           in e2\<lparr>e_timer := None, e_timerGeneration := Suc (e_timerGeneration e2)\<rparr>)"

end
