(* ===== verification/FlowConfigLemmas.thy ===== *)
theory FlowConfigLemmas
  imports FlowConfig
begin

text \<open>
  What the policy language guarantees: defaults are idempotent and validation is stable under
  them, a validated policy has bounded positive windows and distinct rule names, the counter
  identities of a policy separate exactly what its dimensions separate, and saving a rule
  keeps every public field.
\<close>

section \<open>Prefix codes\<close>

text \<open>
  The interface behind counter identities: an encoding whose words can be read off the front
  of a text. Sequences of code words are then determined by their concatenation.
\<close>

locale prefix_code =
  fixes enc :: "'a \<Rightarrow> 'c list"
  assumes enc_prefix: "enc x @ s = enc y @ t \<Longrightarrow> x = y \<and> s = t"
    and enc_nonempty: "enc x \<noteq> []"
begin

lemma concat_enc_inj: "concat (map enc xs) = concat (map enc ys) \<Longrightarrow> xs = ys"
proof (induction xs arbitrary: ys)
  case Nil
  then show ?case by (cases ys) (auto simp: enc_nonempty)
next
  case (Cons x xs)
  show ?case
  proof (cases ys)
    case Nil
    with Cons.prems show ?thesis by (simp add: enc_nonempty)
  next
    case (Cons y zs)
    with Cons.prems have "enc x @ concat (map enc xs) = enc y @ concat (map enc zs)" by simp
    then have "x = y \<and> concat (map enc xs) = concat (map enc zs)" by (rule enc_prefix)
    with Cons.IH Cons show ?thesis by simp
  qed
qed

end

lemma digits_split:
  assumes "list_all is_digit a" "list_all is_digit b" "\<not> is_digit c" "a @ c # s = b @ c # t"
  shows "a = b \<and> s = t"
  using assms
proof (induction a arbitrary: b)
  case Nil
  then show ?case by (cases b) auto
next
  case (Cons x a)
  then show ?case by (cases b) auto
qed

interpretation field: prefix_code group_field
proof
  fix x s y t
  assume "group_field x @ s = group_field y @ t"
  then have "itoa (length x) @ CHR '':'' # (x @ s) = itoa (length y) @ CHR '':'' # (y @ t)"
    by (simp add: group_field_def)
  then have *: "itoa (length x) = itoa (length y) \<and> x @ s = y @ t"
    by (intro digits_split[of _ _ "CHR '':''"]) (auto simp: itoa_digits is_digit_def)
  then have "length x = length y" using itoa_inj by blast
  with * show "x = y \<and> s = t" by simp
next
  fix x show "group_field x \<noteq> []" by (simp add: group_field_def)
qed

section \<open>Defaults are idempotent\<close>

lemma normalizeSelection_idem:
  "normalizeSelection (normalizeSelection v l) l = normalizeSelection v l"
proof (cases v)
  case (Some vs)
  define f where "f = (\<lambda>v. if l then ToLower (TrimSpace v) else TrimSpace v)"
  have ff: "f (f x) = f x" for x by (simp add: f_def)
  define ys where "ys = sort (remdups (map f vs))"
  have "map f ys = ys" by (rule map_idI) (auto simp: ys_def ff)
  moreover have "sorted ys" "distinct ys" by (auto simp: ys_def)
  ultimately have "sort (remdups (map f ys)) = ys" by (simp add: distinct_remdups_id sort_key_id_if_sorted)
  with Some show ?thesis by (simp add: normalizeSelection_def f_def ys_def)
qed (simp add: normalizeSelection_def)

lemma dims_of_cong:
  assumes "r_Scope r = r_Scope r'" and "r_GroupBy r = r_GroupBy r'"
  shows "Dimensions r = Dimensions r'" and "dims_of r = dims_of r'"
  unfolding dims_of_def Dimensions_def assms by (rule refl)+

lemma compileGrouping_simps [simp]:
  "r_ID (compileGrouping r) = r_ID r" "r_Stage (compileGrouping r) = r_Stage r"
  "r_Scope (compileGrouping r) = r_Scope r" "r_GroupBy (compileGrouping r) = r_GroupBy r"
  "r_Keys (compileGrouping r) = r_Keys r" "r_Models (compileGrouping r) = r_Models r"
  "r_Accounts (compileGrouping r) = r_Accounts r" "r_qualifiedModel (compileGrouping r) = r_qualifiedModel r"
  "r_MaxConcurrent (compileGrouping r) = r_MaxConcurrent r" "r_Windows (compileGrouping r) = r_Windows r"
  "r_compiledRetention (compileGrouping r) = retention r"
  by (simp_all add: compileGrouping_def Let_def)

lemma effective_rule_simps [simp]:
  "r_ID (effective_rule v r) = r_ID r" "r_Stage (effective_rule v r) = r_Stage r"
  "r_Scope (effective_rule v r) = r_Scope r" "r_GroupBy (effective_rule v r) = r_GroupBy r"
  "r_qualifiedModel (effective_rule v r) = (v \<ge> 3)" "r_Windows (effective_rule v r) = r_Windows r"
  "r_MaxConcurrent (effective_rule v r) = r_MaxConcurrent r"
  by (simp_all add: effective_rule_def)

lemma retention_cong: "r_Windows r = r_Windows r' \<Longrightarrow> retention r = retention r'"
  by (simp add: retention_def)

lemma effective_rule_retention [simp]: "r_compiledRetention (effective_rule v r) = retention r"
  by (simp add: effective_rule_def retention_def)

lemma dims_of_effective_rule [simp]:
  "dims_of (effective_rule v r) = dims_of r" "Dimensions (effective_rule v r) = Dimensions r"
  by (rule dims_of_cong; simp)+

lemma effective_rule_form:
  "effective_rule v r = r\<lparr>
     r_Keys := normalizeSelection (r_Keys r) False,
     r_Accounts := normalizeSelection (r_Accounts r) False,
     r_Models := normalizeSelection (r_Models r) True,
     r_qualifiedModel := (v \<ge> 3),
     r_compiledDims := (if v \<ge> 3 then map_option sort (dims_of r) else dims_of r),
     r_compiledPrefix := concat (map group_field
        (if v \<ge> 3 then [''v3'', r_ID r, r_Stage r] else [r_ID r, r_Stage r, r_Scope r])),
     r_compiledRetention := retention r\<rparr>"
proof -
  let ?r = "r\<lparr>r_Keys := normalizeSelection (r_Keys r) False, r_Accounts := normalizeSelection (r_Accounts r) False,
     r_Models := normalizeSelection (r_Models r) True, r_qualifiedModel := (v \<ge> 3)\<rparr>"
  have "dims_of ?r = dims_of r" by (rule dims_of_cong) simp_all
  moreover have "retention ?r = retention r" by (rule retention_cong) simp
  ultimately show ?thesis by (simp add: effective_rule_def compileGrouping_def Let_def)
qed

lemma effective_rule_idem: "effective_rule v (effective_rule v r) = effective_rule v r"
proof -
  have n: "normalizeSelection (r_Keys (effective_rule v r)) False = r_Keys (effective_rule v r)"
    "normalizeSelection (r_Accounts (effective_rule v r)) False = r_Accounts (effective_rule v r)"
    "normalizeSelection (r_Models (effective_rule v r)) True = r_Models (effective_rule v r)"
    by (simp_all add: effective_rule_form normalizeSelection_idem)
  have t: "retention (effective_rule v r) = retention r" by (rule retention_cong) simp
  show ?thesis
    unfolding effective_rule_form[of v "effective_rule v r"] n t effective_rule_simps dims_of_effective_rule
    by (simp add: effective_rule_form)
qed

lemma effective_queue_idem: "effective_queue (effective_queue q) = effective_queue q"
  by (simp add: effective_queue_def)

lemma obs_Effective_idem: "obs_Effective (obs_Effective ob) = obs_Effective ob"
  by (simp add: obs_Effective_def)

lemma Effective_simps [simp]:
  "c_Enabled (Effective c) = c_Enabled c" "c_Version (Effective c) = effectiveVersion c"
  "c_Rules (Effective c) = map (effective_rule (effectiveVersion c)) (c_Rules c)"
  by (simp_all add: Effective_def Let_def)

lemma effectiveVersion_Effective [simp]: "effectiveVersion (Effective c) = effectiveVersion c"
  by (simp add: effectiveVersion_def)

lemma Effective_idem: "Effective (Effective c) = Effective c"
proof -
  have "effective_rule v \<circ> effective_rule v = effective_rule v" for v
    by (simp add: fun_eq_iff effective_rule_idem)
  then show ?thesis
    unfolding Effective_def[of "Effective c"] Let_def effectiveVersion_Effective Effective_simps map_map
    by (cases c) (simp add: Effective_def Let_def obs_Effective_idem effective_queue_idem)
qed

lemma Effective_set_version: "Effective (c\<lparr>c_Version := effectiveVersion c\<rparr>) = Effective c"
  by (simp add: Effective_def effectiveVersion_def Let_def)

lemma Validate_Effective: "Validate (Effective c) = Validate c"
proof -
  have v: "effectiveVersion (Effective c) = effectiveVersion c" by simp
  have o: "c_Observation (Effective c) = obs_Effective (c_Observation c)"
    by (simp add: Effective_def Let_def)
  have e: "Effective ((Effective c)\<lparr>c_Version := effectiveVersion c\<rparr>) = Effective c"
    using Effective_set_version[of "Effective c"] by (simp add: Effective_idem)
  show ?thesis
    unfolding Validate_def Let_def
    by (simp only: v o e Effective_set_version obs_Effective_idem Config.select_convs Config.update_convs
        Config.simps Effective_simps) (simp add: o obs_Effective_idem e Effective_set_version)
qed

section \<open>What validation guarantees\<close>

text \<open>The facts about one rule of a running policy that the engine relies on.\<close>

definition rule_ok :: "int \<Rightarrow> Rule \<Rightarrow> bool" where
  "rule_ok maxHistory r \<longleftrightarrow>
     0 \<le> r_MaxConcurrent r \<and> r_MaxConcurrent r \<le> 100000 \<and>
     (r_MaxConcurrent r > 0 \<or> r_Windows r \<noteq> []) \<and>
     distinct (map w_PeriodMS (r_Windows r)) \<and>
     (\<forall>w\<in>set (r_Windows r). 1 \<le> w_Requests w \<and> w_Requests w \<le> maxHistory \<and>
        1 \<le> w_PeriodMS w \<and> w_PeriodMS w \<le> maxWindowMS)"

definition policy_ok :: "Config \<Rightarrow> bool" where
  "policy_ok c \<longleftrightarrow>
     distinct (map r_ID (c_Rules c)) \<and> length (c_Rules c) \<le> 128 \<and>
     1 \<le> c_MaxBuckets c \<and> 1 \<le> c_MaxHistory c \<and>
     0 \<le> q_MaxWaiting (c_Queue c) \<and> 0 \<le> q_MaxBytes (c_Queue c) \<and>
     (\<forall>r\<in>set (c_Rules c). ruleID_match (r_ID r) \<and> (r_Stage r = Request \<or> r_Stage r = Attempt) \<and>
        (\<exists>ds. Dimensions r = Inr ds) \<and> rule_ok (c_MaxHistory c) r)"

lemma windows_ok_sound:
  "windows_ok H ps ws \<Longrightarrow> distinct (map w_PeriodMS ws) \<and> set (map w_PeriodMS ws) \<inter> set ps = {} \<and>
     (\<forall>w\<in>set ws. 1 \<le> w_Requests w \<and> w_Requests w \<le> H \<and> 1 \<le> w_PeriodMS w \<and> w_PeriodMS w \<le> maxWindowMS)"
  by (induction H ps ws rule: windows_ok.induct) (auto split: if_splits)

lemma windows_ok_complete:
  "distinct (map w_PeriodMS ws) \<Longrightarrow> set (map w_PeriodMS ws) \<inter> set ps = {} \<Longrightarrow>
   \<forall>w\<in>set ws. 1 \<le> w_Requests w \<and> w_Requests w \<le> H \<and> 1 \<le> w_PeriodMS w \<and> w_PeriodMS w \<le> maxWindowMS \<Longrightarrow>
   windows_ok H ps ws"
  by (induction H ps ws rule: windows_ok.induct) auto

lemma validate_limits_sound: "validate_rule_limits c i r = None \<Longrightarrow> rule_ok (c_MaxHistory c) r"
  using windows_ok_sound[of "c_MaxHistory c" "[]" "r_Windows r"]
  by (auto simp: validate_rule_limits_def rule_ok_def split: option.splits if_splits)

lemma validate_shape_sound:
  "validate_rule_shape c i seen r = None \<Longrightarrow>
     ruleID_match (r_ID r) \<and> r_ID r \<notin> set seen \<and> (r_Stage r = Request \<or> r_Stage r = Attempt) \<and>
     (\<exists>ds. Dimensions r = Inr ds)"
  by (auto simp: validate_rule_shape_def split: sum.splits if_splits)

lemma validate_rules_sound:
  "validate_rules c i seen rs = None \<Longrightarrow>
     distinct (map r_ID rs) \<and> r_ID ` set rs \<inter> set seen = {} \<and>
     (\<forall>r\<in>set rs. ruleID_match (r_ID r) \<and> (r_Stage r = Request \<or> r_Stage r = Attempt) \<and>
        (\<exists>ds. Dimensions r = Inr ds) \<and> rule_ok (c_MaxHistory c) r)"
proof (induction c i seen rs rule: validate_rules.induct)
  case (2 c i seen r rs)
  then have s: "validate_rule_shape c i seen r = None" and l: "validate_rule_limits c i r = None"
    and rest: "validate_rules c (i + 1) (r_ID r # seen) rs = None"
    by (auto split: option.splits)
  from "2.IH"[OF s l rest] validate_shape_sound[OF s] validate_limits_sound[OF l]
  show ?case by auto
qed simp

lemma Validate_sound:
  assumes "Validate c = None" and "c_Enabled c"
  shows "policy_ok (Effective c)"
proof -
  let ?c = "Effective c"
  have "validate_rules ?c 0 [] (c_Rules ?c) = None" and
    "length (c_Rules ?c) \<le> 128 \<and> 1 \<le> c_MaxBuckets ?c \<and> 1 \<le> c_MaxHistory ?c \<and>
     0 \<le> q_MaxWaiting (c_Queue ?c) \<and> 0 \<le> q_MaxBytes (c_Queue ?c)"
    using assms
    by (auto simp: Validate_def Let_def Effective_set_version split: if_splits option.splits)
  with validate_rules_sound[of ?c 0 "[]" "c_Rules ?c"] show ?thesis
    unfolding policy_ok_def by blast
qed

lemma foldl_max_ge: "a \<le> foldl (\<lambda>ms w. if w_PeriodMS w > ms then w_PeriodMS w else ms) a ws \<and>
   (\<forall>w\<in>set ws. w_PeriodMS w \<le> foldl (\<lambda>ms w. if w_PeriodMS w > ms then w_PeriodMS w else ms) a ws)"
proof (induction ws arbitrary: a)
  case (Cons w ws)
  from Cons[of "if w_PeriodMS w > a then w_PeriodMS w else a"] show ?case
    by (auto split: if_splits)
qed simp

lemma foldl_max_le: "a \<le> b \<Longrightarrow> \<forall>w\<in>set ws. w_PeriodMS w \<le> b \<Longrightarrow>
   foldl (\<lambda>ms w. if w_PeriodMS w > ms then w_PeriodMS w else ms) a ws \<le> b"
  by (induction ws arbitrary: a) auto

text \<open>A validated window never outlives the history its bucket keeps.\<close>

lemma retention_covers:
  assumes "rule_ok H r" and "w \<in> set (r_Windows r)"
  shows "ms_dur (w_PeriodMS w) = w_PeriodMS w * 1000000"
    and "0 < ms_dur (w_PeriodMS w)" and "ms_dur (w_PeriodMS w) \<le> retention r"
proof -
  let ?m = "foldl (\<lambda>ms w. if w_PeriodMS w > ms then w_PeriodMS w else ms) 0 (r_Windows r)"
  have w: "1 \<le> w_PeriodMS w" "w_PeriodMS w \<le> maxWindowMS"
    using assms by (auto simp: rule_ok_def)
  have m: "w_PeriodMS w \<le> ?m" using foldl_max_ge[of 0 "r_Windows r"] assms(2) by blast
  have m2: "?m \<le> maxWindowMS"
    by (rule foldl_max_le) (use assms(1) in \<open>auto simp: rule_ok_def maxWindowMS_def\<close>)
  show a: "ms_dur (w_PeriodMS w) = w_PeriodMS w * 1000000"
    using w by (intro ms_dur_exact) (auto simp: maxWindowMS_def)
  with w show "0 < ms_dur (w_PeriodMS w)" by simp
  have "ms_dur ?m = ?m * 1000000"
    using w m m2 by (intro ms_dur_exact) (auto simp: maxWindowMS_def)
  with a m show "ms_dur (w_PeriodMS w) \<le> retention r" by (simp add: retention_def)
qed

lemma retention_nonneg: "rule_ok H r \<Longrightarrow> 0 \<le> retention r"
proof (cases "r_Windows r")
  case Nil
  then show ?thesis by (simp add: retention_def ms_dur_def wrap64_def)
next
  case (Cons w ws)
  assume "rule_ok H r"
  with Cons have "0 < ms_dur (w_PeriodMS w)" "ms_dur (w_PeriodMS w) \<le> retention r"
    using retention_covers[of H r w] by auto
  then show ?thesis by linarith
qed

section \<open>Counter identities\<close>

lemma concat_map_eq_iff:
  assumes "\<And>x. x \<in> set xs \<Longrightarrow> length (f x) = length (g x)"
  shows "concat (map f xs) = concat (map g xs) \<longleftrightarrow> (\<forall>x\<in>set xs. f x = g x)"
  using assms by (induction xs) (auto simp: append_eq_append_conv)

definition prefix_fields :: "Rule \<Rightarrow> string list" where
  "prefix_fields r = (if r_qualifiedModel r then [''v3'', r_ID r, r_Stage r] else [r_ID r, r_Stage r, r_Scope r])"

lemma length_prefix_fields [simp]: "length (prefix_fields r) = 3"
  by (simp add: prefix_fields_def)

lemma concat_fields: "concat (map (\<lambda>x. concat (map g (f x))) xs) = concat (map g (concat (map f xs)))"
  by (induction xs) auto

text \<open>A compiled rule's counter name is a sequence of length-prefixed fields.\<close>

lemma bucketID_fields:
  "bucketID (effective_rule v r) d = concat (map group_field (prefix_fields (effective_rule v r) @
     concat (map (dim_fields (effective_rule v r) d) (elems (r_compiledDims (effective_rule v r))))))"
proof -
  let ?r = "effective_rule v r"
  have p: "r_compiledPrefix ?r = concat (map group_field (prefix_fields ?r))"
    by (simp add: effective_rule_form prefix_fields_def)
  then have "r_compiledPrefix ?r \<noteq> ''''"
    by (auto simp: prefix_fields_def field.enc_nonempty)
  then have c: "(if r_compiledPrefix ?r = '''' then compileGrouping ?r else ?r) = ?r" by simp
  show ?thesis unfolding bucketID_def Let_def c by (simp only: p concat_fields map_append concat_append)
qed

lemma set_compiledDims [simp]:
  "set (elems (r_compiledDims (effective_rule v r))) = set (elems (dims_of r))"
  by (cases "dims_of r") (simp_all add: effective_rule_form)

lemma bucketID_same_rule:
  assumes "d_Stage d1 = r_Stage r" and "d_Stage d2 = r_Stage r"
  shows "bucketID (effective_rule v r) d1 = bucketID (effective_rule v r) d2 \<longleftrightarrow>
     (\<forall>dim\<in>set (elems (dims_of r)). dimension d1 dim = dimension d2 dim \<and>
        (3 \<le> v \<and> dim = ''model'' \<and> r_Stage r = Attempt \<longrightarrow> d_Provider d1 = d_Provider d2))"
proof -
  let ?r = "effective_rule v r" and ?ds = "elems (r_compiledDims (effective_rule v r))"
  have len: "length (dim_fields ?r d1 x) = length (dim_fields ?r d2 x)" for x
    using assms by (simp add: dim_fields_def)
  have "bucketID ?r d1 = bucketID ?r d2 \<longleftrightarrow>
      concat (map (dim_fields ?r d1) ?ds) = concat (map (dim_fields ?r d2) ?ds)"
    unfolding bucketID_fields by (metis field.concat_enc_inj same_append_eq)
  also have "\<dots> \<longleftrightarrow> (\<forall>x\<in>set ?ds. dim_fields ?r d1 x = dim_fields ?r d2 x)"
    by (rule concat_map_eq_iff) (rule len)
  also have "\<dots> \<longleftrightarrow> (\<forall>x\<in>set (elems (dims_of r)). dim_fields ?r d1 x = dim_fields ?r d2 x)"
    by simp
  also have "\<dots> \<longleftrightarrow> (\<forall>x\<in>set (elems (dims_of r)). dimension d1 x = dimension d2 x \<and>
        (3 \<le> v \<and> x = ''model'' \<and> r_Stage r = Attempt \<longrightarrow> d_Provider d1 = d_Provider d2))"
    by (rule ball_cong) (use assms in \<open>auto simp: dim_fields_def\<close>)
  finally show ?thesis .
qed

lemma bucketID_rule_inj:
  assumes "bucketID (effective_rule v r1) d1 = bucketID (effective_rule v r2) d2"
  shows "r_ID r1 = r_ID r2 \<and> r_Stage r1 = r_Stage r2"
proof -
  have "prefix_fields (effective_rule v r1) = prefix_fields (effective_rule v r2)"
    using field.concat_enc_inj[OF assms[unfolded bucketID_fields]]
    by (simp only: append_eq_append_conv length_prefix_fields simp_thms)
  then show ?thesis by (auto simp: prefix_fields_def split: if_splits)
qed

lemma distinct_map_inj: "distinct (map f xs) \<Longrightarrow> x \<in> set xs \<Longrightarrow> y \<in> set xs \<Longrightarrow> f x = f y \<Longrightarrow> x = y"
  by (auto simp: distinct_map inj_on_def)

section \<open>Saving a rule\<close>

definition public_rule :: "Rule \<Rightarrow> Rule" where
  "public_rule r = r\<lparr>r_qualifiedModel := False, r_compiledDims := None, r_compiledPrefix := '''',
     r_compiledRetention := 0\<rparr>"

lemma map_of_opt_str: "map_of (opt_str k v) k' = (if k' = k \<and> v \<noteq> '''' then Some (YStr v) else None)"
  by (simp add: opt_str_def)

lemma map_of_opt_strs: "map_of (opt_strs k v) k' = (if k' = k then map_option YStrs v else None)"
  by (simp add: opt_strs_def split: option.splits)

lemma MarshalYAML_lookup:
  "map_of (MarshalYAML r) ''id'' = Some (YStr (r_ID r))"
  "map_of (MarshalYAML r) ''stage'' = Some (YStr (r_Stage r))"
  "map_of (MarshalYAML r) ''scope'' = Some (YStr (r_Scope r))"
  "map_of (MarshalYAML r) ''max-concurrent'' = Some (YInt (r_MaxConcurrent r))"
  "map_of (MarshalYAML r) ''label'' = (if r_Label r = '''' then None else Some (YStr (r_Label r)))"
  "map_of (MarshalYAML r) ''key'' = (if r_Key r = '''' then None else Some (YStr (r_Key r)))"
  "map_of (MarshalYAML r) ''model'' = (if r_Model r = '''' then None else Some (YStr (r_Model r)))"
  "map_of (MarshalYAML r) ''provider'' = (if r_Provider r = '''' then None else Some (YStr (r_Provider r)))"
  "map_of (MarshalYAML r) ''account'' = (if r_Account r = '''' then None else Some (YStr (r_Account r)))"
  "map_of (MarshalYAML r) ''credential'' = (if r_Credential r = '''' then None else Some (YStr (r_Credential r)))"
  "map_of (MarshalYAML r) ''auth-kind'' = (if r_AuthKind r = '''' then None else Some (YStr (r_AuthKind r)))"
  "map_of (MarshalYAML r) ''keys'' = map_option YStrs (r_Keys r)"
  "map_of (MarshalYAML r) ''models'' = map_option YStrs (r_Models r)"
  "map_of (MarshalYAML r) ''accounts'' = map_option YStrs (r_Accounts r)"
  "map_of (MarshalYAML r) ''group-by'' = map_option YStrs (r_GroupBy r)"
  "map_of (MarshalYAML r) ''windows'' = (if r_Windows r = [] then None else Some (YWindows (r_Windows r)))"
  by (simp_all add: MarshalYAML_def map_add_def map_of_opt_str map_of_opt_strs split: option.splits)

lemma map_option_YStrs_inj: "map_option YStrs a = map_option YStrs b \<Longrightarrow> a = b"
  by (cases a; cases b) auto

lemma opt_YStr_inj:
  "(if a = '''' then None else Some (YStr a)) = (if b = '''' then None else Some (YStr b)) \<Longrightarrow> a = b"
  by (auto split: if_splits)

lemma opt_YWindows_inj:
  "(if a = [] then None else Some (YWindows a)) = (if b = [] then None else Some (YWindows b)) \<Longrightarrow> a = b"
  by (auto split: if_splits)

section \<open>A sample policy\<close>

text \<open>
  A version 3 policy with a per-key cap of two and one admission per second for each account,
  used where a property is applied at a concrete input.
\<close>

definition blank_rule :: Rule where
  "blank_rule = \<lparr>r_ID = '''', r_Label = '''', r_Stage = Request, r_Scope = ''global'', r_GroupBy = None,
     r_Keys = None, r_Models = None, r_Accounts = None, r_qualifiedModel = False, r_compiledDims = None,
     r_compiledPrefix = '''', r_compiledRetention = 0, r_Key = '''', r_Model = '''', r_Provider = '''',
     r_Account = '''', r_Credential = '''', r_AuthKind = '''', r_MaxConcurrent = 0, r_Windows = []\<rparr>"

definition sample_policy :: Config where
  "sample_policy = \<lparr>c_Version = 3,
     c_Observation = \<lparr>o_Realtime = False, o_IntervalMS = 0, o_MaxObservers = 0, o_Resources = False\<rparr>,
     c_Enabled = True,
     c_Queue = \<lparr>q_MaxWaiting = 2, q_MaxWaitingPerKey = 0, q_MaxBytes = 100, q_MaxWaitMS = 5000\<rparr>,
     c_MaxBuckets = 0, c_MaxHistory = 0,
     c_Rules = [blank_rule\<lparr>r_ID := ''k'', r_Scope := ''key'', r_MaxConcurrent := 2\<rparr>,
       blank_rule\<lparr>r_ID := ''a'', r_Stage := Attempt, r_Scope := ''account'',
         r_Windows := [\<lparr>w_Requests = 1, w_PeriodMS = 1000\<rparr>]\<rparr>]\<rparr>"

definition sample_identity :: Identity where
  "sample_identity = \<lparr>d_Stage = Request, d_Key = ''u1'', d_Model = ''gpt'', d_Provider = '''', d_Account = '''',
     d_Credential = '''', d_AuthKind = '''', d_RequestID = ''''\<rparr>"

lemma sample_policy_valid: "Validate sample_policy = None"
  by code_simp

lemma sample_policy_enabled: "c_Enabled sample_policy"
  by (simp add: sample_policy_def)

section \<open>Properties\<close>

text \<open>C8: A policy that passes \<open>Validate\<close> while enabled runs, after \<open>Effective\<close>, with distinct
  rule names and, in every rule, a bounded concurrency cap and distinct windows whose request
  count lies in \<open>1..MaxHistory\<close> and whose period lies in \<open>1..maxWindowMS\<close>; converting such a
  period to nanoseconds does not overflow, and the compiled retention covers it.\<close>

theorem validated_policy_sound:
  assumes "Validate c = None" and "c_Enabled c"
  shows "policy_ok (Effective c) \<and>
    (\<forall>r\<in>set (c_Rules (Effective c)). \<forall>w\<in>set (r_Windows r).
       ms_dur (w_PeriodMS w) = w_PeriodMS w * 1000000 \<and> 0 < ms_dur (w_PeriodMS w) \<and>
       ms_dur (w_PeriodMS w) \<le> r_compiledRetention r)"
proof (intro conjI ballI)
  show ok: "policy_ok (Effective c)" using assms by (rule Validate_sound)
  fix r w assume r: "r \<in> set (c_Rules (Effective c))" and w: "w \<in> set (r_Windows r)"
  have rok: "rule_ok (c_MaxHistory (Effective c)) r" using ok r by (auto simp: policy_ok_def)
  have ret: "r_compiledRetention r = retention r"
    using r by (auto simp: retention_def)
  show "ms_dur (w_PeriodMS w) = w_PeriodMS w * 1000000" "0 < ms_dur (w_PeriodMS w)"
    "ms_dur (w_PeriodMS w) \<le> r_compiledRetention r"
    using retention_covers[OF rok w] ret by simp_all
qed

theorem validated_policy_sound_witness: "policy_ok (Effective sample_policy)"
  using validated_policy_sound[OF sample_policy_valid sample_policy_enabled] by blast

text \<open>In a validated policy two admissions share a counter exactly when they are counted by the
  same rule and agree on every dimension the rule groups by (for version 3 attempt rules that
  group by model, on the provider too): \<open>bucketID\<close> neither merges nor splits counters.\<close>

theorem bucketID_separates:
  assumes "Validate c = None" and "c_Enabled c"
    and "r1 \<in> set (c_Rules (Effective c))" and "r2 \<in> set (c_Rules (Effective c))"
    and "d_Stage d1 = r_Stage r1" and "d_Stage d2 = r_Stage r2"
  shows "bucketID r1 d1 = bucketID r2 d2 \<longleftrightarrow>
    r1 = r2 \<and> (\<forall>dim\<in>set (elems (dims_of r1)). dimension d1 dim = dimension d2 dim \<and>
       (r_qualifiedModel r1 \<and> dim = ''model'' \<and> r_Stage r1 = Attempt \<longrightarrow> d_Provider d1 = d_Provider d2))"
proof -
  let ?v = "effectiveVersion c"
  obtain s1 s2 where s: "r1 = effective_rule ?v s1" "r2 = effective_rule ?v s2"
    using assms(3,4) by auto
  have "distinct (map r_ID (c_Rules (Effective c)))"
    using Validate_sound[OF assms(1,2)] by (simp add: policy_ok_def)
  then have inj: "r_ID r1 = r_ID r2 \<Longrightarrow> r1 = r2" using assms(3,4) by (rule distinct_map_inj)
  have "bucketID r1 d1 = bucketID r2 d2 \<Longrightarrow> r1 = r2"
    using inj bucketID_rule_inj[of ?v s1 d1 s2 d2] s by simp
  moreover have "bucketID r1 d1 = bucketID r2 d2 \<longleftrightarrow>
     (\<forall>dim\<in>set (elems (dims_of r1)). dimension d1 dim = dimension d2 dim \<and>
       (r_qualifiedModel r1 \<and> dim = ''model'' \<and> r_Stage r1 = Attempt \<longrightarrow> d_Provider d1 = d_Provider d2))"
    if "r1 = r2"
  proof -
    have "d_Stage d1 = r_Stage s1" using assms(5) s(1) by simp
    moreover have "d_Stage d2 = r_Stage s1" using assms(6) s(1) that by (metis effective_rule_simps(2))
    ultimately have "d_Stage d1 = r_Stage s1" "d_Stage d2 = r_Stage s1" by blast+
    from bucketID_same_rule[OF this, of ?v] show ?thesis
      unfolding that[symmetric] s(1) by simp
  qed
  ultimately show ?thesis by blast
qed

theorem bucketID_separates_witness:
  "let r = hd (c_Rules (Effective sample_policy)) in
     bucketID r sample_identity = bucketID r (sample_identity\<lparr>d_Model := ''other''\<rparr>) \<and>
     bucketID r sample_identity \<noteq> bucketID r (sample_identity\<lparr>d_Key := ''u2''\<rparr>)"
proof -
  define r where "r = hd (c_Rules (Effective sample_policy))"
  have r: "r \<in> set (c_Rules (Effective sample_policy))" "r_Stage r = Request" "elems (dims_of r) = [''key'']"
    unfolding r_def by code_simp+
  note sep = bucketID_separates[OF sample_policy_valid sample_policy_enabled r(1) r(1)]
  show ?thesis
    using sep[of sample_identity "sample_identity\<lparr>d_Model := ''other''\<rparr>"]
      sep[of sample_identity "sample_identity\<lparr>d_Key := ''u2''\<rparr>"]
    unfolding Let_def r_def[symmetric] by (simp add: r(2,3) sample_identity_def dimension_def)
qed

text \<open>\<open>Effective\<close> is idempotent and validation does not depend on whether the defaults have been
  filled in: a policy and its effective form get the same verdict, error included.\<close>

theorem effective_stable: "Effective (Effective c) = Effective c \<and> Validate (Effective c) = Validate c"
  by (simp add: Effective_idem Validate_Effective)

text \<open>\<open>MarshalYAML\<close> loses no public field: two rules are saved as the same mapping exactly when
  they agree on everything but the compiled, unexported fields; in particular an explicitly
  empty selection is not saved as an omitted one.\<close>

theorem marshal_yaml_lossless:
  "map_of (MarshalYAML r) = map_of (MarshalYAML s) \<longleftrightarrow> public_rule r = public_rule s"
proof
  assume eq: "map_of (MarshalYAML r) = map_of (MarshalYAML s)"
  then have k: "map_of (MarshalYAML r) k = map_of (MarshalYAML s) k" for k by simp
  note strs = k[of "''label''", unfolded MarshalYAML_lookup, THEN opt_YStr_inj]
    k[of "''key''", unfolded MarshalYAML_lookup, THEN opt_YStr_inj]
    k[of "''model''", unfolded MarshalYAML_lookup, THEN opt_YStr_inj]
    k[of "''provider''", unfolded MarshalYAML_lookup, THEN opt_YStr_inj]
    k[of "''account''", unfolded MarshalYAML_lookup, THEN opt_YStr_inj]
    k[of "''credential''", unfolded MarshalYAML_lookup, THEN opt_YStr_inj]
    k[of "''auth-kind''", unfolded MarshalYAML_lookup, THEN opt_YStr_inj]
  note lists = k[of "''keys''", unfolded MarshalYAML_lookup, THEN map_option_YStrs_inj]
    k[of "''models''", unfolded MarshalYAML_lookup, THEN map_option_YStrs_inj]
    k[of "''accounts''", unfolded MarshalYAML_lookup, THEN map_option_YStrs_inj]
    k[of "''group-by''", unfolded MarshalYAML_lookup, THEN map_option_YStrs_inj]
    k[of "''windows''", unfolded MarshalYAML_lookup, THEN opt_YWindows_inj]
  have "r_ID r = r_ID s" "r_Stage r = r_Stage s" "r_Scope r = r_Scope s"
    "r_MaxConcurrent r = r_MaxConcurrent s"
    using k[of "''id''"] k[of "''stage''"] k[of "''scope''"] k[of "''max-concurrent''"]
    by (simp_all only: MarshalYAML_lookup option.inject yaml.inject)
  then show "public_rule r = public_rule s"
    by (intro Rule.equality) (simp_all add: public_rule_def strs lists)
next
  assume "public_rule r = public_rule s"
  then show "map_of (MarshalYAML r) = map_of (MarshalYAML s)"
    by (cases r; cases s) (simp add: public_rule_def MarshalYAML_def)
qed

end
