(* ===== verification/FlowInvariant.thy ===== *)
theory FlowInvariant
  imports FlowApi FlowConfigLemmas
begin

text \<open>
  Invariants of the admission engine. \<open>acct\<close>: every counter equals the number of running records
  that point to it and the history total is exact. \<open>queue_ok\<close>: the queued bytes are those of the
  unfinished waiters, whose numbers are distinct. \<open>hist_ok\<close>: histories are sorted and not in the
  future. \<open>limits\<close>: under a fixed policy no counter is over its concurrency cap and no trailing
  window holds more admissions than allowed. Each is shown to be kept by every critical section.
\<close>

section \<open>Accounting\<close>

definition uses :: "(nat \<times> active) list \<Rightarrow> string \<Rightarrow> int" where
  "uses act bid = asum (\<lambda>a. int (count_list (a_members a) bid)) act"

definition hist_total :: "(string \<times> bucket) list \<Rightarrow> int" where
  "hist_total bs = asum (\<lambda>b. int (length (b_history b))) bs"

definition counted :: "(string \<times> bucket) list \<Rightarrow> (nat \<times> active) list \<Rightarrow> bool" where
  "counted bs act \<longleftrightarrow>
     (\<forall>bid b. map_of bs bid = Some b \<longrightarrow> b_active b = uses act bid) \<and>
     (\<forall>i a. (i, a) \<in> set act \<longrightarrow> set (a_members a) \<subseteq> fst ` set bs)"

definition acct :: "engine \<Rightarrow> bool" where
  "acct e \<longleftrightarrow> keys_distinct (e_buckets e) \<and> keys_distinct (e_active e) \<and>
     (\<forall>i\<in>fst ` set (e_active e). 0 < i \<and> i \<le> e_sequence e) \<and>
     e_historyCount e = hist_total (e_buckets e) \<and> counted (e_buckets e) (e_active e)"

lemma acctI:
  assumes "keys_distinct (e_buckets e)" "keys_distinct (e_active e)"
    "\<And>i. i \<in> fst ` set (e_active e) \<Longrightarrow> 0 < i \<and> i \<le> e_sequence e"
    "e_historyCount e = hist_total (e_buckets e)" "counted (e_buckets e) (e_active e)"
  shows "acct e"
  using assms by (simp add: acct_def)

lemma acct_cong:
  assumes "e_buckets e' = e_buckets e" "e_active e' = e_active e" "e_sequence e' = e_sequence e"
    "e_historyCount e' = e_historyCount e"
  shows "acct e' = acct e"
  using assms by (simp add: acct_def)

lemma acct_members: "acct e \<Longrightarrow> (i, a) \<in> set (e_active e) \<Longrightarrow> set (a_members a) \<subseteq> fst ` set (e_buckets e)"
  unfolding acct_def counted_def by blast

lemma uses_Nil [simp]: "uses [] bid = 0"
  by (simp add: uses_def)

lemma uses_zero:
  assumes "counted bs act" and "bid \<notin> fst ` set bs"
  shows "uses act bid = 0"
proof -
  have "\<forall>(i, a)\<in>set act. count_list (a_members a) bid = 0"
    using assms by (fastforce simp: counted_def count_list_0_iff)
  then show ?thesis unfolding uses_def by (induction act) auto
qed

lemma uses_nonneg: "0 \<le> uses act bid"
  unfolding uses_def by (rule asum_nonneg) simp

subsection \<open>The check extends the bucket map\<close>

text \<open>
  What \<open>checkLocked\<close> does to the buckets: it adds fresh, unused ones, and of the others changes
  only the rule and the retention, which grows.
\<close>

definition bucket_ext :: "bucket option \<Rightarrow> bucket \<Rightarrow> bool" where
  "bucket_ext bo b' = (case bo of None \<Rightarrow> b_active b' = 0 \<and> b_history b' = []
     | Some b \<Rightarrow> b_active b' = b_active b \<and> b_history b' = b_history b \<and> b_retention b \<le> b_retention b')"

definition bs_ext :: "(string \<times> bucket) list \<Rightarrow> (string \<times> bucket) list \<Rightarrow> bool" where
  "bs_ext bs bs' \<longleftrightarrow> keys_distinct bs' \<and> fst ` set bs \<subseteq> fst ` set bs' \<and> hist_total bs' = hist_total bs \<and>
     (\<forall>bid b'. map_of bs' bid = Some b' \<longrightarrow> bucket_ext (map_of bs bid) b')"

lemma bucket_ext_simps [simp]:
  "bucket_ext None b' \<longleftrightarrow> b_active b' = 0 \<and> b_history b' = []"
  "bucket_ext (Some b) b' \<longleftrightarrow> b_active b' = b_active b \<and> b_history b' = b_history b \<and> b_retention b \<le> b_retention b'"
  by (simp_all add: bucket_ext_def)

lemma bucket_ext_trans: "bucket_ext x (b :: bucket) \<Longrightarrow> bucket_ext (Some b) c \<Longrightarrow> bucket_ext x c"
  by (cases x) auto

lemma map_of_None_key: "map_of al k = None \<longleftrightarrow> k \<notin> fst ` set al"
  by (simp add: map_of_eq_None_iff)

lemma bs_extD: "bs_ext bs bs' \<Longrightarrow> map_of bs' bid = Some b' \<Longrightarrow> bucket_ext (map_of bs bid) b'"
  unfolding bs_ext_def by blast

lemma bs_ext_keys: "bs_ext bs bs' \<Longrightarrow> fst ` set bs \<subseteq> fst ` set bs'"
  by (simp add: bs_ext_def)

lemma bs_ext_refl: "keys_distinct bs \<Longrightarrow> bs_ext bs bs"
  by (simp add: bs_ext_def)

lemma bs_ext_absent: "bs_ext bs bs' \<Longrightarrow> map_of bs' bid = None \<Longrightarrow> map_of bs bid = None"
  unfolding bs_ext_def map_of_None_key by blast

lemma bs_ext_trans:
  assumes "bs_ext a b" and "bs_ext b c"
  shows "bs_ext a c"
  unfolding bs_ext_def
proof (intro conjI allI impI)
  show "keys_distinct c" "fst ` set a \<subseteq> fst ` set c" "hist_total c = hist_total a"
    using assms by (auto simp: bs_ext_def)
  fix bid b' assume c: "map_of c bid = Some b'"
  note step = bs_extD[OF assms(2) c]
  show "bucket_ext (map_of a bid) b'"
  proof (cases "map_of b bid")
    case None
    with step bs_ext_absent[OF assms(1) None] show ?thesis by simp
  next
    case (Some y)
    with step bs_extD[OF assms(1) Some] show ?thesis by (metis bucket_ext_trans)
  qed
qed

lemma bs_ext_counted:
  assumes "bs_ext bs bs'" and "counted bs act"
  shows "counted bs' act"
  unfolding counted_def
proof (intro conjI allI impI)
  fix bid b' assume b': "map_of bs' bid = Some b'"
  note step = bs_extD[OF assms(1) b']
  show "b_active b' = uses act bid"
  proof (cases "map_of bs bid")
    case None
    then have "uses act bid = 0" using uses_zero[OF assms(2)] map_of_None_key by metis
    with None step show ?thesis by simp
  next
    case (Some b)
    with step assms(2) show ?thesis by (simp add: counted_def)
  qed
next
  fix i a assume "(i, a) \<in> set act"
  then have "set (a_members a) \<subseteq> fst ` set bs" using assms(2) unfolding counted_def by blast
  also have "\<dots> \<subseteq> fst ` set bs'" using assms(1) by (rule bs_ext_keys)
  finally show "set (a_members a) \<subseteq> fst ` set bs'" .
qed

text \<open>The bucket map after one matching rule of \<open>check_rules\<close>.\<close>

definition touch :: "Identity \<Rightarrow> Rule \<Rightarrow> (string \<times> bucket) list \<Rightarrow> (string \<times> bucket) list" where
  "touch d r bs = (let bid = bucketID r d in
     case map_of bs bid of None \<Rightarrow> bs @ [(bid, touch_bucket r (new_bucket r d))]
     | Some b \<Rightarrow> adjust bid (\<lambda>_. touch_bucket r b) bs)"

lemma map_of_touch:
  "map_of (touch d r bs) bid' = (if bid' = bucketID r d
     then Some (touch_bucket r (case map_of bs bid' of None \<Rightarrow> new_bucket r d | Some b \<Rightarrow> b)) else map_of bs bid')"
  by (auto simp: touch_def Let_def map_add_def split: option.splits)

lemma touch_ext: "keys_distinct bs \<Longrightarrow> bs_ext bs (touch d r bs)"
  unfolding bs_ext_def
proof (intro conjI allI impI)
  assume kd: "keys_distinct bs"
  show "keys_distinct (touch d r bs)"
    using kd by (auto simp: touch_def Let_def map_of_eq_None_iff split: option.splits)
  show "fst ` set bs \<subseteq> fst ` set (touch d r bs)"
    unfolding touch_def Let_def by (auto split: option.splits) (metis fst_adjust list.set_map image_eqI fst_conv)
  show "hist_total (touch d r bs) = hist_total bs"
    using kd by (auto simp: touch_def Let_def hist_total_def asum_adjust touch_bucket_def new_bucket_def split: option.splits)
  fix bid b' assume "map_of (touch d r bs) bid = Some b'"
  then show "bucket_ext (map_of bs bid) b'"
    by (cases "map_of bs bid") (auto simp: map_of_touch touch_bucket_def new_bucket_def split: if_splits)
qed

lemma check_rules_Cons:
  "check_rules d now wm mb (r # rs) bs ms nxt bl =
     (if skips_model wm r \<or> \<not> rule_matches r d then check_rules d now wm mb rs bs ms nxt bl
      else if map_of bs (bucketID r d) = None \<and> int (length bs) \<ge> mb
      then (bs, [], nxt, r_ID r, Some (flow_err ''flow_control_state_full'' (r_ID r) 0))
      else let b = touch_bucket r (case map_of bs (bucketID r d) of None \<Rightarrow> new_bucket r d | Some b \<Rightarrow> b);
               (nxt2, bl2) = check_windows now (b_history b) (r_ID r) (r_Windows r)
                 (nxt, if r_MaxConcurrent r > 0 \<and> b_active b \<ge> r_MaxConcurrent r then r_ID r else bl)
           in check_rules d now wm mb rs (touch d r bs) (ms @ [bucketID r d]) nxt2 bl2)"
  by (auto simp: Let_def touch_def split: option.splits prod.splits)

declare check_rules.simps(2) [simp del]

lemma check_rules_ext:
  assumes "check_rules d now wm mb rs bs ms nxt bl = (bs', ms', nxt', bl', er)" "keys_distinct bs"
    "set ms \<subseteq> fst ` set bs"
  shows "bs_ext bs bs' \<and> set ms' \<subseteq> fst ` set bs'"
  using assms
proof (induction rs arbitrary: bs ms nxt bl)
  case Nil
  then show ?case by (auto intro: bs_ext_refl)
next
  case (Cons r rs)
  show ?case
  proof (cases "skips_model wm r \<or> \<not> rule_matches r d")
    case True
    with Cons show ?thesis by (simp add: check_rules_Cons)
  next
    case False
    show ?thesis
    proof (cases "map_of bs (bucketID r d) = None \<and> int (length bs) \<ge> mb")
      case True
      with False Cons.prems have "bs' = bs" "ms' = []" by (auto simp: check_rules_Cons)
      with Cons.prems show ?thesis by (simp add: bs_ext_refl)
    next
      case nf: False
      have ext: "bs_ext bs (touch d r bs)" using Cons.prems by (simp add: touch_ext)
      have k: "bucketID r d \<in> fst ` set (touch d r bs)"
        by (metis map_of_touch map_of_eq_None_iff option.distinct(1))
      obtain n2 b2 where rest: "check_rules d now wm mb rs (touch d r bs) (ms @ [bucketID r d]) n2 b2 = (bs', ms', nxt', bl', er)"
        using Cons.prems False nf by (auto simp: check_rules_Cons Let_def split: prod.splits)
      have "bs_ext (touch d r bs) bs' \<and> set ms' \<subseteq> fst ` set bs'"
        using ext k Cons.prems(3) by (intro Cons.IH[OF rest]) (auto simp: bs_ext_def)
      with ext show ?thesis using bs_ext_trans by blast
    qed
  qed
qed

text \<open>What a check changes of the engine, and what its members are.\<close>

definition only_buckets :: "engine \<Rightarrow> engine \<Rightarrow> bool" where
  "only_buckets e e' \<longleftrightarrow> (\<exists>bs. e' = e\<lparr>e_buckets := bs\<rparr>)"

lemma checkLocked_ext:
  assumes "checkLocked d now wm e = (e', ms, nxt, bl, er)" "keys_distinct (e_buckets e)"
  shows "only_buckets e e' \<and> bs_ext (e_buckets e) (e_buckets e') \<and> set ms \<subseteq> fst ` set (e_buckets e')"
proof -
  obtain bs ms0 n0 b0 r0 where c: "check_rules d now wm (c_MaxBuckets (e_cfg e)) (c_Rules (e_cfg e)) (e_buckets e) [] 0 ''''
      = (bs, ms0, n0, b0, r0)" by (metis prod_cases5)
  then have "bs_ext (e_buckets e) bs \<and> set ms0 \<subseteq> fst ` set bs"
    using check_rules_ext[OF c] assms(2) by simp
  moreover have "e' = e\<lparr>e_buckets := bs\<rparr>" "ms = [] \<or> ms = ms0"
    using assms(1) c by (auto simp: checkLocked_def Let_def split: option.splits if_splits)
  ultimately show ?thesis by (auto simp: only_buckets_def)
qed

lemma only_buckets_acct:
  assumes "only_buckets e e'" "bs_ext (e_buckets e) (e_buckets e')" "acct e"
  shows "acct e'"
proof -
  have "e_active e' = e_active e" "e_sequence e' = e_sequence e" "e_historyCount e' = e_historyCount e"
    using assms(1) by (auto simp: only_buckets_def)
  with assms(2,3) bs_ext_counted[OF assms(2)] show ?thesis by (auto simp: acct_def bs_ext_def)
qed


subsection \<open>Granting\<close>

definition granted_bucket :: "gtime \<Rightarrow> nat \<Rightarrow> string list \<Rightarrow> string \<Rightarrow> bucket \<Rightarrow> bucket" where
  "granted_bucket now ticket ms bid b = b\<lparr>b_active := b_active b + int (count_list ms bid),
     b_history := b_history b @ (if r_Windows (b_rule b) = [] then []
        else replicate (count_list ms bid) \<lparr>ev_at = now, ev_ticket = ticket\<rparr>)\<rparr>"

lemma granted_bucket_none [simp]: "bid \<notin> set ms \<Longrightarrow> granted_bucket now ticket ms bid b = b"
  by (simp add: granted_bucket_def)

lemma grant_members_frame [simp]:
  "e_active (fold (grant_member now ticket) ms e) = e_active e"
  "e_sequence (fold (grant_member now ticket) ms e) = e_sequence e"
  "e_cfg (fold (grant_member now ticket) ms e) = e_cfg e"
  "e_ops (fold (grant_member now ticket) ms e) = e_ops e"
  "e_queue (fold (grant_member now ticket) ms e) = e_queue e"
  "e_queueBytes (fold (grant_member now ticket) ms e) = e_queueBytes e"
  "e_activitySequence (fold (grant_member now ticket) ms e) = e_activitySequence e"
  "e_closed (fold (grant_member now ticket) ms e) = e_closed e"
  "e_self (fold (grant_member now ticket) ms e) = e_self e"
  "e_admitted (fold (grant_member now ticket) ms e) = e_admitted e"
  "e_lastServed (fold (grant_member now ticket) ms e) = e_lastServed e"
  "e_settled (fold (grant_member now ticket) ms e) = e_settled e"
  "map fst (e_buckets (fold (grant_member now ticket) ms e)) = map fst (e_buckets e)"
  by (induction ms arbitrary: e) (auto simp: grant_member_def Let_def)

lemma map_of_grant_member:
  "map_of (e_buckets (grant_member now ticket m e)) bid =
     map_option (granted_bucket now ticket [m] bid) (map_of (e_buckets e) bid)"
  by (cases "map_of (e_buckets e) bid") (auto simp: grant_member_def Let_def has_windows_def granted_bucket_def)

lemma granted_bucket_Cons:
  "granted_bucket now ticket ms bid (granted_bucket now ticket [m] bid b) = granted_bucket now ticket (m # ms) bid b"
  by (simp add: granted_bucket_def)

lemma map_of_grant_members:
  "map_of (e_buckets (fold (grant_member now ticket) ms e)) bid =
     map_option (granted_bucket now ticket ms bid) (map_of (e_buckets e) bid)"
proof (induction ms arbitrary: e)
  case Nil
  then show ?case by (cases "map_of (e_buckets e) bid") (simp_all add: granted_bucket_def)
next
  case (Cons m ms)
  then show ?case
    by (simp add: map_of_grant_member granted_bucket_Cons option.map_comp comp_def)
qed

lemma grant_member_total:
  assumes "keys_distinct (e_buckets e)" "m \<in> fst ` set (e_buckets e)" "e_historyCount e = hist_total (e_buckets e)"
  shows "e_historyCount (grant_member now ticket m e) = hist_total (e_buckets (grant_member now ticket m e))"
proof -
  obtain b where "map_of (e_buckets e) m = Some b" using assms(2) by (metis map_of_None_key option.exhaust)
  with assms show ?thesis by (simp add: grant_member_def Let_def hist_total_def asum_adjust has_windows_def)
qed

lemma grant_member_keys [simp]: "map fst (e_buckets (grant_member now ticket m e)) = map fst (e_buckets e)"
  by (simp add: grant_member_def Let_def)

lemma keys_from_list: "map fst xs = map fst ys \<Longrightarrow> fst ` set xs = fst ` set ys"
  by (metis list.set_map)

lemma grant_members_total:
  assumes "keys_distinct (e_buckets e)" "set ms \<subseteq> fst ` set (e_buckets e)" "e_historyCount e = hist_total (e_buckets e)"
  shows "e_historyCount (fold (grant_member now ticket) ms e) = hist_total (e_buckets (fold (grant_member now ticket) ms e))"
  using assms
proof (induction ms arbitrary: e)
  case (Cons m ms)
  have k: "fst ` set (e_buckets (grant_member now ticket m e)) = fst ` set (e_buckets e)"
    by (rule keys_from_list) simp
  show ?case using Cons.prems k grant_member_total[of e m]
    by (simp only: fold_simps) (rule Cons.IH, auto)
qed simp

lemma uses_update_new:
  assumes "ticket \<notin> fst ` set act"
  shows "uses (AList.update ticket a act) bid = uses act bid + int (count_list (a_members a) bid)"
  using assms unfolding uses_def by (induction act) auto

lemma set_update_new: "ticket \<notin> fst ` set act \<Longrightarrow> set (AList.update ticket a act) = insert (ticket, a) (set act)"
  by (induction act) auto

lemma grantLocked_acct:
  assumes inv: "acct e" and ms: "set ms \<subseteq> fst ` set (e_buckets e)" and g: "grantLocked d ms now e = (p, e')"
  shows "acct e'"
proof -
  let ?t = "Suc (e_sequence e)"
  let ?f = "fold (grant_member now ?t) ms (e\<lparr>e_sequence := ?t\<rparr>)"
  let ?a = "\<lparr>a_operation = None, a_identity = d, a_members = ms, a_started = now, a_phase = ''running''\<rparr>"
  have e': "e_buckets e' = e_buckets ?f" "e_active e' = AList.update ?t ?a (e_active e)"
    "e_sequence e' = ?t" "e_historyCount e' = e_historyCount ?f"
    using g by (auto simp: grantLocked_def Let_def)
  have new: "?t \<notin> fst ` set (e_active e)" using inv by (force simp: acct_def)
  have keys: "fst ` set (e_buckets ?f) = fst ` set (e_buckets e)" by (rule keys_from_list) simp
  show ?thesis
  proof (rule acctI)
    show "keys_distinct (e_buckets e')" using inv by (simp add: e' acct_def)
    show "keys_distinct (e_active e')" using inv by (simp add: e' acct_def distinct_update)
    show "\<And>i. i \<in> fst ` set (e_active e') \<Longrightarrow> 0 < i \<and> i \<le> e_sequence e'"
      using inv new by (force simp: e' acct_def set_update_new)
    have "e_historyCount ?f = hist_total (e_buckets ?f)"
      by (rule grant_members_total) (use inv ms in \<open>auto simp: acct_def\<close>)
    then show "e_historyCount e' = hist_total (e_buckets e')" by (simp add: e')
    show "counted (e_buckets e') (e_active e')"
      unfolding counted_def
    proof (intro conjI allI impI)
      fix bid b assume "map_of (e_buckets e') bid = Some b"
      then obtain b0 where "map_of (e_buckets e) bid = Some b0" "b = granted_bucket now ?t ms bid b0"
        by (auto simp: e' map_of_grant_members)
      with inv show "b_active b = uses (e_active e') bid"
        by (simp add: e' uses_update_new[OF new] granted_bucket_def acct_def counted_def)
    next
      fix i a assume "(i, a) \<in> set (e_active e')"
      then have "a = ?a \<or> (i, a) \<in> set (e_active e)" by (auto simp: e' set_update_new[OF new])
      then show "set (a_members a) \<subseteq> fst ` set (e_buckets e')"
        unfolding e' keys using ms acct_members[OF inv] by (elim disjE) (simp, blast)
    qed
  qed
qed


subsection \<open>Releasing\<close>

lemma map_of_drop_members:
  "map_of (fold (\<lambda>m. adjust m (\<lambda>b. b\<lparr>b_active := b_active b - 1\<rparr>)) ms bs) bid =
     map_option (\<lambda>b. b\<lparr>b_active := b_active b - int (count_list ms bid)\<rparr>) (map_of bs bid)"
proof (induction ms arbitrary: bs)
  case Nil
  then show ?case by (cases "map_of bs bid") simp_all
next
  case (Cons m ms)
  then show ?case by (cases "map_of bs bid") (auto simp: algebra_simps)
qed

lemma drop_members_keys [simp]:
  "map fst (fold (\<lambda>m. adjust m (\<lambda>b. b\<lparr>b_active := b_active b - 1\<rparr>)) ms bs) = map fst bs"
  by (induction ms arbitrary: bs) auto

lemma asum_adjust_same: "(\<And>v. g (f v) = g v) \<Longrightarrow> asum g (adjust k f al) = asum g al"
  by (induction al) (auto simp: adjust_def)

lemma drop_members_total [simp]:
  "hist_total (fold (\<lambda>m. adjust m (\<lambda>b. b\<lparr>b_active := b_active b - 1\<rparr>)) ms bs) = hist_total bs"
  by (induction ms arbitrary: bs) (auto simp: hist_total_def asum_adjust_same)

lemma asum_diff: "asum (\<lambda>v. f v - g v) al = asum f al - asum g al"
  by (induction al) auto

lemma refund_history_acct: "acct e \<Longrightarrow> acct (refund_history ticket e)"
proof -
  assume inv: "acct e"
  have k: "fst ` set (map_vals f bs) = fst ` set bs" for f :: "bucket \<Rightarrow> bucket" and bs :: "(string \<times> bucket) list"
    by (rule keys_from_list) simp
  show ?thesis
    using inv by (auto simp: acct_def refund_history_def hist_total_def asum_map_vals asum_diff counted_def k)
qed

lemma uses_delete:
  assumes "keys_distinct act" "map_of act ticket = Some a"
  shows "uses (AList.delete ticket act) bid = uses act bid - int (count_list (a_members a) bid)"
  unfolding uses_def using assms by (rule asum_delete)

lemma drop_record_acct:
  assumes inv: "acct e" and a: "map_of (e_active e) ticket = Some a"
  shows "acct (drop_record ticket a refund e)"
proof -
  let ?bs = "fold (\<lambda>m. adjust m (\<lambda>b. b\<lparr>b_active := b_active b - 1\<rparr>)) (a_members a) (e_buckets e)"
  let ?e = "e\<lparr>e_buckets := ?bs, e_active := AList.delete ticket (e_active e)\<rparr>"
  have keys: "fst ` set ?bs = fst ` set (e_buckets e)" by (rule keys_from_list) simp
  have "acct ?e"
  proof (rule acctI)
    show "keys_distinct (e_buckets ?e)" "keys_distinct (e_active ?e)" "e_historyCount ?e = hist_total (e_buckets ?e)"
      using inv by (simp_all add: acct_def)
    show "\<And>i. i \<in> fst ` set (e_active ?e) \<Longrightarrow> 0 < i \<and> i \<le> e_sequence ?e"
      using inv by (force simp: acct_def AList.delete_eq)
    show "counted (e_buckets ?e) (e_active ?e)"
      unfolding counted_def
    proof (intro conjI allI impI)
      fix bid b assume "map_of (e_buckets ?e) bid = Some b"
      then obtain b0 where "map_of (e_buckets e) bid = Some b0"
        "b_active b = b_active b0 - int (count_list (a_members a) bid)"
        by (auto simp: map_of_drop_members)
      with inv show "b_active b = uses (e_active ?e) bid"
        using uses_delete[OF _ a] by (simp add: acct_def counted_def)
    next
      fix i x assume "(i, x) \<in> set (e_active ?e)"
      then have "(i, x) \<in> set (e_active e)" by (auto simp: AList.delete_eq)
      then show "set (a_members x) \<subseteq> fst ` set (e_buckets ?e)" using acct_members[OF inv] keys by simp
    qed
  qed
  then show ?thesis by (simp add: drop_record_def Let_def refund_history_acct)
qed

lemma upd_op_acct [simp]: "acct (upd_op i f e) = acct e"
  by (rule acct_cong) (simp_all add: upd_op_def)

text \<open>What is kept by dropping a record and by changing an operation is kept by a release.\<close>

lemma releaseRecordLocked_keeps:
  assumes drop: "\<And>e ticket a refund. P e \<Longrightarrow> map_of (e_active e) ticket = Some a \<Longrightarrow> P (drop_record ticket a refund e)"
    and opr: "\<And>e i f. P e \<Longrightarrow> (\<And>x. op_identity (f x) = op_identity x) \<Longrightarrow> P (upd_op i f e)"
  shows "P e \<Longrightarrow> P (releaseRecordLocked ticket refund e)"
proof (induction ticket refund e rule: releaseRecordLocked.induct)
  case (1 ticket refund e)
  show ?case
  proof (cases "map_of (e_active e) ticket")
    case None
    with "1.prems" show ?thesis by (subst releaseRecordLocked.simps) simp
  next
    case (Some a)
    have d: "P (drop_record ticket a refund e)" using "1.prems" Some by (rule drop)
    show ?thesis
    proof (cases "a_operation a")
      case None
      with Some d show ?thesis by (subst releaseRecordLocked.simps) simp
    next
      case op: (Some o')
      let ?e = "upd_op o' (\<lambda>x. x\<lparr>op_attempts := op_attempts x - 1, op_started := (op_started x \<or> \<not> refund)\<rparr>)
        (drop_record ticket a refund e)"
      have pe: "P ?e" using d by (rule opr) simp
      show ?thesis
      proof (cases "get_op ?e o'")
        case None
        with Some op pe show ?thesis by (subst releaseRecordLocked.simps) (simp add: Let_def)
      next
        case g: (Some x)
        have z: "P (upd_op o' (\<lambda>x. x\<lparr>op_ticket := 0\<rparr>) ?e)" using pe by (rule opr) simp
        show ?thesis
        proof (cases "op_attempts x = 0 \<and> op_ticket x \<noteq> 0 \<and> (op_closed x \<or> \<not> op_started x)")
          case True
          then have "releaseRecordLocked ticket refund e =
              releaseRecordLocked (op_ticket x) (\<not> op_started x) (upd_op o' (\<lambda>x. x\<lparr>op_ticket := 0\<rparr>) ?e)"
            using Some op g by (subst releaseRecordLocked.simps) (simp add: Let_def)
          moreover have "P (releaseRecordLocked (op_ticket x) (\<not> op_started x) (upd_op o' (\<lambda>x. x\<lparr>op_ticket := 0\<rparr>) ?e))"
            using "1.IH"[OF Some refl op refl g True z] .
          ultimately show ?thesis by simp
        next
          case False
          then show ?thesis using Some op g pe by (subst releaseRecordLocked.simps) (auto simp: Let_def)
        qed
      qed
    qed
  qed
qed

lemma releaseRecordLocked_acct: "acct e \<Longrightarrow> acct (releaseRecordLocked ticket refund e)"
  by (rule releaseRecordLocked_keeps[where P = acct]) (simp_all add: drop_record_acct)

subsection \<open>Cleanup\<close>

lemma uses_pos:
  assumes "(i, a) \<in> set act" and "bid \<in> set (a_members a)"
  shows "0 < uses act bid"
  using assms
proof (induction act)
  case (Cons x act)
  have "0 \<le> asum (\<lambda>a. int (count_list (a_members a) bid)) act" by (rule asum_nonneg) simp
  moreover have "(i, a) = x \<Longrightarrow> 0 < count_list (a_members (snd x)) bid"
    using Cons.prems(2) by (metis count_list_0_iff neq0_conv snd_conv)
  ultimately show ?case using Cons by (cases x) (auto simp: uses_def)
qed simp

lemma asum_filter_zero: "(\<And>k v. \<not> P (k, v) \<Longrightarrow> g v = 0) \<Longrightarrow> asum g (filter P al) = asum g al"
  by (induction al) auto

lemma asum_cong: "(\<And>k v. (k, v) \<in> set al \<Longrightarrow> f v = g v) \<Longrightarrow> asum f al = asum g al"
  by (induction al) (auto, metis)

lemma search_aux_le: "i \<le> j \<Longrightarrow> search_aux f i j \<le> j"
proof (induction f i j rule: search_aux.induct)
  case (1 f i j)
  have "(i + j) div 2 \<le> j" if "i < j" using that by simp
  with 1 show ?case by (subst search_aux.simps) (force simp: Let_def)
qed

lemma expired_count_le: "expired_count now b \<le> length (b_history b)"
  unfolding expired_count_def first_after_def sort_Search_def by (rule search_aux_le) simp

lemma map_of_cleanup:
  assumes "keys_distinct (e_buckets e)"
  shows "map_of (e_buckets (cleanupLocked now e)) bid =
    (case map_of (e_buckets e) bid of None \<Rightarrow> None
     | Some b \<Rightarrow> let b' = prune_bucket now b in if b_active b' = 0 \<and> b_history b' = [] then None else Some b')"
  using assms by (simp add: cleanupLocked_def map_of_filter_keys Let_def split: option.splits)

lemma cleanupLocked_acct:
  assumes inv: "acct e"
  shows "acct (cleanupLocked now e)"
proof -
  have kd: "keys_distinct (e_buckets e)" using inv by (simp add: acct_def)
  let ?e = "cleanupLocked now e"
  show ?thesis
  proof (rule acctI)
    show "keys_distinct (e_buckets ?e)" using kd by (simp add: cleanupLocked_def keys_distinct_filter)
    show "keys_distinct (e_active ?e)" "\<And>i. i \<in> fst ` set (e_active ?e) \<Longrightarrow> 0 < i \<and> i \<le> e_sequence ?e"
      using inv by (auto simp: acct_def cleanupLocked_def)
    have bs: "e_buckets ?e = filter (\<lambda>(bid, b). \<not> (b_active b = 0 \<and> b_history b = []))
        (map_vals (prune_bucket now) (e_buckets e))" by (simp add: cleanupLocked_def)
    have "hist_total (e_buckets ?e) = asum (\<lambda>b. int (length (b_history (prune_bucket now b)))) (e_buckets e)"
      unfolding hist_total_def bs by (subst asum_filter_zero) (auto simp: asum_map_vals)
    also have "\<dots> = asum (\<lambda>b. int (length (b_history b)) - int (expired_count now b)) (e_buckets e)"
      by (rule asum_cong) (simp add: prune_bucket_def of_nat_diff expired_count_le)
    finally show "e_historyCount ?e = hist_total (e_buckets ?e)"
      using inv by (simp add: asum_diff acct_def cleanupLocked_def hist_total_def)
    show "counted (e_buckets ?e) (e_active ?e)"
      unfolding counted_def
    proof (intro conjI allI impI)
      fix bid b assume "map_of (e_buckets ?e) bid = Some b"
      then obtain b0 where "map_of (e_buckets e) bid = Some b0" "b_active b = b_active b0"
        by (auto simp: map_of_cleanup[OF kd] prune_bucket_def Let_def split: option.splits if_splits)
      moreover have "e_active ?e = e_active e" by (simp add: cleanupLocked_def)
      ultimately show "b_active b = uses (e_active ?e) bid"
        using inv by (simp add: acct_def counted_def)
    next
      fix i a assume ia: "(i, a) \<in> set (e_active ?e)"
      then have ia': "(i, a) \<in> set (e_active e)" by (simp add: cleanupLocked_def)
      show "set (a_members a) \<subseteq> fst ` set (e_buckets ?e)"
      proof
        fix bid assume m: "bid \<in> set (a_members a)"
        then have "bid \<in> fst ` set (e_buckets e)" using acct_members[OF inv ia'] by blast
        then obtain b where b: "map_of (e_buckets e) bid = Some b" by (metis map_of_None_key option.exhaust)
        then have "0 < b_active b" using inv uses_pos[OF ia' m] by (simp add: acct_def counted_def)
        with b have "map_of (e_buckets ?e) bid \<noteq> None" by (simp add: map_of_cleanup[OF kd] prune_bucket_def)
        then show "bid \<in> fst ` set (e_buckets ?e)" by (metis map_of_None_key)
      qed
    qed
  qed
qed


section \<open>Histories\<close>

text \<open>Histories are in the order of their times, and no record lies in the future.\<close>

definition history_ok :: "gtime \<Rightarrow> event list \<Rightarrow> bool" where
  "history_ok t h \<longleftrightarrow> sorted (map ev_at h) \<and> (\<forall>x\<in>set h. ev_at x \<le> t)"

definition hist_ok :: "gtime \<Rightarrow> engine \<Rightarrow> bool" where
  "hist_ok t e \<longleftrightarrow> (\<forall>bid b. map_of (e_buckets e) bid = Some b \<longrightarrow> history_ok t (b_history b))"

lemma history_ok_Nil [simp]: "history_ok t []"
  by (simp add: history_ok_def)

lemma history_ok_mono: "history_ok t h \<Longrightarrow> t \<le> t' \<Longrightarrow> history_ok t' h"
  by (auto simp: history_ok_def)

lemma history_ok_append:
  "history_ok now h \<Longrightarrow> history_ok now (h @ replicate n \<lparr>ev_at = now, ev_ticket = i\<rparr>)"
  by (auto simp: history_ok_def sorted_append)

lemma history_ok_drop: "history_ok t h \<Longrightarrow> history_ok t (drop n h)"
  by (auto simp: history_ok_def drop_map[symmetric] sorted_wrt_drop dest: in_set_dropD)

lemma remove_ticket_subset: "set (remove_ticket ticket h) \<subseteq> set h"
  by (induction h) auto

lemma history_ok_remove: "history_ok t h \<Longrightarrow> history_ok t (remove_ticket ticket h)"
  unfolding history_ok_def by (induction h) (use remove_ticket_subset in fastforce)+

lemma hist_ok_mono: "hist_ok t e \<Longrightarrow> t \<le> t' \<Longrightarrow> hist_ok t' e"
  unfolding hist_ok_def using history_ok_mono by blast

lemma bs_ext_hist:
  assumes "only_buckets e e'" "bs_ext (e_buckets e) (e_buckets e')" "hist_ok t e"
  shows "hist_ok t e'"
  unfolding hist_ok_def
proof (intro allI impI)
  fix bid b' assume "map_of (e_buckets e') bid = Some b'"
  from bs_extD[OF assms(2) this] assms(3) show "history_ok t (b_history b')"
    by (cases "map_of (e_buckets e) bid") (auto simp: hist_ok_def)
qed

lemma grantLocked_buckets:
  assumes "grantLocked d ms now e = (p, e')"
  shows "map_of (e_buckets e') bid = map_option (granted_bucket now (Suc (e_sequence e)) ms bid) (map_of (e_buckets e) bid)"
  using assms by (auto simp: grantLocked_def Let_def map_of_grant_members)

lemma grantLocked_hist:
  assumes "grantLocked d ms now e = (p, e')" "hist_ok now e"
  shows "hist_ok now e'"
  using assms(2) unfolding hist_ok_def grantLocked_buckets[OF assms(1)]
  by (auto simp: granted_bucket_def history_ok_append)

lemma map_of_drop_record:
  "map_of (e_buckets (drop_record ticket a refund e)) bid =
     map_option (\<lambda>b. b\<lparr>b_active := b_active b - int (count_list (a_members a) bid),
        b_history := (if refund then remove_ticket ticket (b_history b) else b_history b)\<rparr>) (map_of (e_buckets e) bid)"
  by (cases "map_of (e_buckets e) bid") (auto simp: drop_record_def refund_history_def Let_def map_of_drop_members)

lemma drop_record_hist: "hist_ok t e \<Longrightarrow> hist_ok t (drop_record ticket a refund e)"
  unfolding hist_ok_def by (auto simp: map_of_drop_record history_ok_remove)

lemma releaseRecordLocked_hist: "hist_ok t e \<Longrightarrow> hist_ok t (releaseRecordLocked ticket refund e)"
  by (rule releaseRecordLocked_keeps[where P = "hist_ok t"])
    (simp_all add: drop_record_hist, simp add: hist_ok_def upd_op_def)

lemma cleanupLocked_hist:
  assumes "hist_ok t e" "keys_distinct (e_buckets e)"
  shows "hist_ok t (cleanupLocked now e)"
  unfolding hist_ok_def
proof (intro allI impI)
  fix bid b assume "map_of (e_buckets (cleanupLocked now e)) bid = Some b"
  then obtain b0 where "map_of (e_buckets e) bid = Some b0" "b = prune_bucket now b0"
    by (auto simp: map_of_cleanup[OF assms(2)] Let_def split: option.splits if_splits)
  with assms(1) show "history_ok t (b_history b)" by (auto simp: hist_ok_def prune_bucket_def history_ok_drop)
qed

end
