(* ===== verification/FlowAdmission.thy ===== *)
theory FlowAdmission
  imports FlowInvariant
begin

text \<open>
  The frame of the admission state and the interface of the queue loops. The admission state
  (\<open>core\<close>) is the policy, the counters, the members of the running records and the totals; queue,
  timer, statistics and operations are its frame. The loops of \<open>dispatchLocked\<close> keep whatever its
  elementary actions keep (locale \<open>dispatch_invariant\<close>).
\<close>

section \<open>The admission state and its frame\<close>

definition core :: "engine \<Rightarrow> Config \<times> (string \<times> bucket) list \<times> (nat \<times> string list) list \<times> nat \<times> int" where
  "core e = (e_cfg e, e_buckets e, map_vals a_members (e_active e), e_sequence e, e_historyCount e)"

definition op_ids :: "engine \<Rightarrow> nat \<Rightarrow> Identity option" where
  "op_ids e i = map_option op_identity (get_op e i)"

text \<open>Joint work pairs a request-stage operation with an attempt-stage identity.\<close>

definition work_ok :: "Permit option \<Rightarrow> Identity \<Rightarrow> engine \<Rightarrow> bool" where
  "work_ok request d e = (case request_op request of None \<Rightarrow> True
     | Some o' \<Rightarrow> d_Stage d = Attempt \<and> (case op_ids e o' of None \<Rightarrow> False | Some x \<Rightarrow> d_Stage x = Request))"

definition queue_work :: "engine \<Rightarrow> bool" where
  "queue_work e \<longleftrightarrow> (\<forall>w\<in>set (e_queue e). work_ok (wt_request w) (wt_identity w) e)"

text \<open>\<open>framed e e'\<close>: the step keeps the admission state, the operations' identities, and adds no waiter.\<close>

definition works :: "engine \<Rightarrow> (nat \<times> Permit option \<times> Identity) set" where
  "works e = (\<lambda>w. (wt_id w, wt_request w, wt_identity w)) ` set (e_queue e)"

definition framed :: "engine \<Rightarrow> engine \<Rightarrow> bool" where
  "framed e e' \<longleftrightarrow> core e' = core e \<and> op_ids e' = op_ids e \<and> works e' \<subseteq> works e"

text \<open>\<open>evolves e e'\<close>: the same without the admission state.\<close>

definition evolves :: "engine \<Rightarrow> engine \<Rightarrow> bool" where
  "evolves e e' \<longleftrightarrow> e_cfg e' = e_cfg e \<and> op_ids e' = op_ids e \<and> works e' \<subseteq> works e"

lemma framed_refl [simp]: "framed e e" by (simp add: framed_def)
lemma evolves_refl [simp]: "evolves e e" by (simp add: evolves_def)

lemma framed_trans: "framed a b \<Longrightarrow> framed b c \<Longrightarrow> framed a c" by (auto simp: framed_def)
lemma evolves_trans: "evolves a b \<Longrightarrow> evolves b c \<Longrightarrow> evolves a c" by (auto simp: evolves_def)

lemma framed_evolves: "framed e e' \<Longrightarrow> evolves e e'" by (auto simp: framed_def evolves_def core_def)

lemma framed_same:
  assumes "core e' = core e" "e_ops e' = e_ops e" "e_queue e' = e_queue e"
  shows "framed e e'"
  using assms by (auto simp: framed_def op_ids_def get_op_def works_def)

lemma evolves_same:
  assumes "e_cfg e' = e_cfg e" "e_ops e' = e_ops e" "e_queue e' = e_queue e"
  shows "evolves e e'"
  using assms by (auto simp: evolves_def op_ids_def get_op_def works_def)

lemma work_ok_evolves: "evolves e e' \<Longrightarrow> work_ok r d e' = work_ok r d e"
  by (auto simp: evolves_def work_ok_def split: option.splits)

lemma queue_work_evolves:
  assumes "evolves e e'" "queue_work e"
  shows "queue_work e'"
  unfolding queue_work_def
proof
  fix w assume "w \<in> set (e_queue e')"
  then have "(wt_id w, wt_request w, wt_identity w) \<in> works e" using assms(1) by (auto simp: evolves_def works_def)
  then obtain v where "v \<in> set (e_queue e)" "wt_request v = wt_request w" "wt_identity v = wt_identity w"
    by (auto simp: works_def)
  with assms(2) show "work_ok (wt_request w) (wt_identity w) e'"
    unfolding work_ok_evolves[OF assms(1)] queue_work_def by metis
qed

lemma op_ids_upd:
  assumes "\<And>x. op_identity (f x) = op_identity x"
  shows "op_ids (upd_op i f e) = op_ids e"
  using assms by (auto simp: fun_eq_iff op_ids_def get_op_def upd_op_def option.map_comp comp_def)

lemma upd_op_framed: "(\<And>x. op_identity (f x) = op_identity x) \<Longrightarrow> framed e (upd_op i f e)"
  by (simp add: framed_def op_ids_upd) (simp add: core_def works_def upd_op_def)

lemma upd_waiter_framed:
  assumes "\<And>w. wt_id (f w) = wt_id w \<and> wt_request (f w) = wt_request w \<and> wt_identity (f w) = wt_identity w"
  shows "framed e (upd_waiter i f e)"
  using assms by (auto simp: framed_def core_def op_ids_def get_op_def works_def upd_waiter_def image_def)

lemma charge_wait_framed: "framed e (charge_wait now w e)"
  by (auto simp: charge_wait_def intro: upd_op_framed split: option.splits)

lemma removeWaiter_framed: "framed e (snd (removeWaiterLocked i now e))"
proof -
  have "framed e (e\<lparr>e_queue := filter P (e_queue e), e_queueBytes := n\<rparr>)" for P n
    by (auto simp: framed_def core_def op_ids_def get_op_def works_def)
  then show ?thesis
    by (auto simp: removeWaiterLocked_def intro: framed_trans[OF _ charge_wait_framed] split: option.splits)
qed

lemma finishWaiter_framed: "framed e (finishWaiterLocked w p er now e)"
  unfolding finishWaiterLocked_def Let_def
  by (rule framed_trans[OF removeWaiter_framed]) (rule framed_same; simp add: core_def)

lemma settleWaiter_framed: "framed e (settleWaiterLocked i p er now e)"
proof -
  have "framed e (upd_waiter i (\<lambda>v. v\<lparr>wt_finished := True, wt_permit := p, wt_err := er\<rparr>)
      (charge_wait now w (e\<lparr>e_queueBytes := n\<rparr>)))" for w n
    by (rule framed_trans[OF framed_trans[OF framed_same charge_wait_framed] upd_waiter_framed]) (auto simp: core_def)
  then show ?thesis by (auto simp: settleWaiterLocked_def split: option.splits)
qed

lemma schedule_framed: "framed e (scheduleLocked now e)"
  by (rule framed_same) (auto simp: scheduleLocked_def core_def Let_def split: list.splits)

lemma compact_framed: "framed e (compact_queue e)"
  by (auto simp: framed_def core_def op_ids_def get_op_def works_def compact_queue_def)

lemma framed_fold: "(\<And>x e. framed e (f x e)) \<Longrightarrow> framed e (fold f xs e)"
  by (induction xs arbitrary: e) (auto intro: framed_trans)

lemma scan_framed: "framed (fst ek) (fst (fold (scan_waiter errs now) ws ek))"
proof (induction ws arbitrary: ek)
  case (Cons w ws)
  have "framed (fst ek) (fst (scan_waiter errs now w ek))"
    by (cases ek) (auto simp: scan_waiter_def Let_def core_def split: option.splits
        intro: framed_trans[OF framed_same settleWaiter_framed])
  with Cons[of "scan_waiter errs now w ek"] show ?case by (auto intro: framed_trans)
qed simp

lemma only_buckets_evolves: "only_buckets e e' \<Longrightarrow> evolves e e'"
  by (auto simp: only_buckets_def intro: evolves_same)

lemma upd_op_evolves: "(\<And>x. op_identity (f x) = op_identity x) \<Longrightarrow> evolves e (upd_op i f e)"
  by (intro framed_evolves upd_op_framed)

lemma grantLocked_evolves: "grantLocked d ms now e = (p, e') \<Longrightarrow> evolves e e'"
  by (rule evolves_same) (auto simp: grantLocked_def Let_def)

lemma drop_record_evolves: "evolves e (drop_record ticket a refund e)"
  by (rule evolves_same) (simp_all add: drop_record_def refund_history_def Let_def)

lemma releaseRecord_evolves: "evolves e (releaseRecordLocked ticket refund e)"
  by (rule releaseRecordLocked_keeps[where P = "evolves e"])
    (erule evolves_trans, rule drop_record_evolves, erule evolves_trans, rule upd_op_evolves, blast, simp)

lemma cleanup_evolves: "evolves e (cleanupLocked now e)"
  by (rule evolves_same) (simp_all add: cleanupLocked_def)


section \<open>Checks leave the frame alone\<close>

lemma checkLocked_only: "checkLocked d now wm e = (e1, ms, nxt, bl, er) \<Longrightarrow> only_buckets e e1"
  unfolding only_buckets_def
  by (rule exI[of _ "fst (check_rules d now wm (c_MaxBuckets (e_cfg e)) (c_Rules (e_cfg e)) (e_buckets e) [] 0 '''')"])
    (auto simp: checkLocked_def Let_def split: option.splits if_splits prod.splits)

lemma only_buckets_trans: "only_buckets a b \<Longrightarrow> only_buckets b c \<Longrightarrow> only_buckets a c"
  by (auto simp: only_buckets_def)

lemma only_buckets_refl [simp]: "only_buckets e e"
  unfolding only_buckets_def by (rule exI[of _ "e_buckets e"]) simp

text \<open>The attempt check is one \<open>checkLocked\<close> and, if it passes, the joint capacity test.\<close>

lemma checkAttempt_E:
  assumes "checkAttemptLocked d now reqm first records e = (e2, mm, nxt, bl, er)"
  obtains attm n er' where "checkLocked d now False e = (e2, attm, n, bl, er')" "mm = (reqm, attm)"
    "er = None \<Longrightarrow> er' = None"
    "er = None \<Longrightarrow> bl = '''' \<Longrightarrow> int (length (e_active e2)) + records \<le> 100000 \<and>
       e_historyCount e2 + (needed_records e2 reqm + needed_records e2 attm) \<le> c_MaxHistory (e_cfg e2)"
  using assms by (auto simp: checkAttemptLocked_def Let_def split: prod.splits if_splits)

text \<open>The two ways a joint check can go: the attempt alone, or the request and then the attempt.\<close>

definition fresh_op :: "Permit option \<Rightarrow> engine \<Rightarrow> operation option" where
  "fresh_op request e = (case request_op request of None \<Rightarrow> None
     | Some o' \<Rightarrow> (case get_op e o' of None \<Rightarrow> None | Some opr \<Rightarrow> if op_ticket opr = 0 then Some opr else None))"

lemma checkWork_E:
  assumes "checkWorkLocked request d now e = (e', mm, nxt, bl, er)"
  obtains (closed) "e' = e" "er \<noteq> None"
  | (request) opr ms er' where "fresh_op request e = Some opr" "checkLocked (op_identity opr) now False e = (e', ms, nxt, bl, er')"
      "er \<noteq> None \<or> bl \<noteq> ''''"
  | (alone) "fresh_op request e = None" "checkAttemptLocked d now [] 0 1 e = (e', mm, nxt, bl, er)"
  | (both) opr e1 reqm first where "fresh_op request e = Some opr"
      "checkLocked (op_identity opr) now False e = (e1, reqm, first, '''', None)"
      "checkAttemptLocked d now reqm first 2 e1 = (e', mm, nxt, bl, er)"
proof (cases "request_op request")
  case None
  with assms show ?thesis by (intro alone) (simp_all add: checkWorkLocked_def fresh_op_def)
next
  case (Some o')
  show ?thesis
  proof (cases "get_op e o'")
    case None
    with Some assms show ?thesis by (intro alone) (simp_all add: checkWorkLocked_def fresh_op_def)
  next
    case g: (Some opr)
    show ?thesis
    proof (cases "op_closed opr \<or> op_ticket opr \<noteq> 0")
      case True
      with Some g assms show ?thesis
        by (cases "op_closed opr") (auto simp: checkWorkLocked_def fresh_op_def intro: closed alone)
    next
      case False
      with Some g have f: "fresh_op request e = Some opr" by (simp add: fresh_op_def)
      obtain e1 reqm first bl1 er1 where c: "checkLocked (op_identity opr) now False e = (e1, reqm, first, bl1, er1)"
        by (metis prod_cases5)
      show ?thesis
      proof (cases "er1 \<noteq> None \<or> bl1 \<noteq> ''''")
        case True
        with Some g False c assms f show ?thesis by (intro request[of opr reqm er1]) (auto simp: checkWorkLocked_def)
      next
        case ok: False
        with Some g False c assms f show ?thesis by (intro both[of opr e1 reqm first]) (auto simp: checkWorkLocked_def)
      qed
    qed
  qed
qed

lemma checkWork_only: "checkWorkLocked request d now e = (e', mm, nxt, bl, er) \<Longrightarrow> only_buckets e e'"
  by (erule checkWork_E)
    (auto elim!: checkAttempt_E dest: checkLocked_only intro: only_buckets_trans)

lemma only_buckets_ops: "only_buckets e e' \<Longrightarrow> e_ops e' = e_ops e \<and> e_queue e' = e_queue e \<and> e_active e' = e_active e
   \<and> e_cfg e' = e_cfg e \<and> e_sequence e' = e_sequence e \<and> e_historyCount e' = e_historyCount e"
  by (auto simp: only_buckets_def)

lemma core_active_frame:
  assumes "\<And>a. a_members (f a) = a_members a"
  shows "core (e\<lparr>e_active := adjust i f (e_active e)\<rparr>) = core e"
  using assms by (auto simp: core_def adjust_def map_vals_def)

text \<open>A joint grant is a request grant when the operation holds none yet, then the attempt's.\<close>

lemma grantWork_E:
  assumes "grantWorkLocked request d mm now e = (p, e')"
  obtains e1 e2 where
    "case fresh_op request e of None \<Rightarrow> e1 = e
     | Some opr \<Rightarrow> \<exists>rp eg. grantLocked (op_identity opr) (fst mm) now e = (rp, eg) \<and> framed eg e1"
    "grantLocked d (snd mm) now e1 = (p, e2)" "framed e2 e'"
proof (cases "request_op request")
  case None
  with assms show ?thesis by (intro that[of e e']) (simp_all add: grantWorkLocked_def fresh_op_def)
next
  case (Some o')
  define e1 where "e1 = (case get_op e o' of None \<Rightarrow> e
                    | Some opr \<Rightarrow> if op_ticket opr = 0
                        then (let (rp, eg) = grantLocked (op_identity opr) (fst mm) now e
                              in upd_op o' (\<lambda>x. x\<lparr>op_ticket := p_id rp\<rparr>) eg)
                        else e)"
  obtain e2 where g: "grantLocked d (snd mm) now e1 = (p, e2)"
    and e': "e' = (let e3 = upd_op o' (\<lambda>x. x\<lparr>op_attempts := op_attempts x + 1\<rparr>) e2
      in e3\<lparr>e_active := adjust (p_id p) (\<lambda>a. a\<lparr>a_operation := Some o'\<rparr>) (e_active e3)\<rparr>)"
    using assms Some by (auto simp: grantWorkLocked_def e1_def Let_def split: prod.splits)
  have "case fresh_op request e of None \<Rightarrow> e1 = e
     | Some opr \<Rightarrow> \<exists>rp eg. grantLocked (op_identity opr) (fst mm) now e = (rp, eg) \<and> framed eg e1"
    using Some by (auto simp: fresh_op_def e1_def split: option.splits prod.splits intro: upd_op_framed)
  moreover have "framed e2 e'"
    unfolding e' Let_def
    by (rule framed_trans[OF upd_op_framed framed_same]) (simp_all add: core_active_frame)
  ultimately show ?thesis using g that by blast
qed

lemma grantWork_evolves:
  assumes "grantWorkLocked request d mm now e = (p, e')"
  shows "evolves e e'"
  using assms
  by (elim grantWork_E) (auto split: option.splits dest!: grantLocked_evolves framed_evolves intro: evolves_trans)


section \<open>What dispatching keeps\<close>

lemma stat_framed [simp]:
  "framed e (e\<lparr>e_canceled := n\<rparr>)" "framed e (e\<lparr>e_timedOut := n\<rparr>)" "framed e (e\<lparr>e_rejected := n\<rparr>)"
  "framed e (e\<lparr>e_dispatchPending := b\<rparr>)" "framed e (e\<lparr>e_closed := b\<rparr>)" "framed e (e\<lparr>e_settled := ws\<rparr>)"
  "framed e (e\<lparr>e_timer := tm, e_timerGeneration := n\<rparr>)"
  by (rule framed_same; simp add: core_def)+

lemma find_waiter_work: "find_waiter e i = Some w \<Longrightarrow> w \<in> set (e_queue e) \<and> wt_id w = i"
  by (auto simp: find_waiter_def find_Some_iff)

text \<open>
  The interface of the queue loops: a predicate kept by settling a waiter, by noting why it waits,
  by the statistics, by the check of a queued piece of work and by the grant after a check that
  passed is kept by a whole dispatch, up to the compaction of the queue.
\<close>

definition note_waiter :: "nat \<Rightarrow> gtime \<Rightarrow> string \<Rightarrow> engine \<Rightarrow> engine" where
  "note_waiter i nxt bl = upd_waiter i (\<lambda>v. v\<lparr>wt_nextCheck := nxt, wt_blocked := bl\<rparr>)"

definition dispatch_marked :: "ctx_reads \<Rightarrow> ctx_reads \<Rightarrow> gtime \<Rightarrow> engine \<Rightarrow> engine" where
  "dispatch_marked errs1 errs2 now e =
     (let (e1, keys) = fold (scan_waiter errs1 now) (e_queue e) (e\<lparr>e_dispatchPending := False\<rparr>, [])
      in dispatch_loop errs2 now keys 0 e1)"

lemma dispatchLocked_marked:
  "dispatchLocked errs1 errs2 now e =
     (if e_queue e = [] then e\<lparr>e_dispatchPending := False\<rparr> else compact_queue (dispatch_marked errs1 errs2 now e))"
  by (auto simp: dispatchLocked_def dispatch_marked_def Let_def split: prod.splits)

locale dispatch_invariant =
  fixes P :: "gtime \<Rightarrow> engine \<Rightarrow> bool"
  assumes d_settle: "P now e \<Longrightarrow> P now (settleWaiterLocked i sp se now e)"
    and d_canceled: "P now e \<Longrightarrow> P now (e\<lparr>e_canceled := n\<rparr>)"
    and d_timed_out: "P now e \<Longrightarrow> P now (e\<lparr>e_timedOut := n\<rparr>)"
    and d_pending: "P now e \<Longrightarrow> P now (e\<lparr>e_dispatchPending := b\<rparr>)"
    and d_note: "P now e \<Longrightarrow> P now (note_waiter i nxt bl e)"
    and d_full: "P now e \<Longrightarrow> P now (upd_waiter i (\<lambda>v. v\<lparr>wt_blocked := bl\<rparr>) e)"
    and d_check: "P now e \<Longrightarrow> c_Enabled (e_cfg e) \<Longrightarrow> w \<in> set (e_queue e) \<Longrightarrow>
      checkWorkLocked (wt_request w) (wt_identity w) now e = (e1, mm, nxt, bl, er) \<Longrightarrow> P now e1"
    and d_grant: "P now e \<Longrightarrow> c_Enabled (e_cfg e) \<Longrightarrow> w \<in> set (e_queue e) \<Longrightarrow>
      checkWorkLocked (wt_request w) (wt_identity w) now e = (e1, mm, nxt, '''', None) \<Longrightarrow>
      grantWorkLocked (wt_request w) (wt_identity w) mm now (note_waiter i nxt '''' e1) = (p, e3) \<Longrightarrow> P now e3"
begin

lemma serve_items_inv: "P now e \<Longrightarrow> P now (snd (serve_items errs now is e))"
proof (induction "is" arbitrary: e)
  case (Cons i rest)
  show ?case
  proof (cases "find_waiter e i")
    case None
    with Cons show ?thesis by simp
  next
    case fw: (Some w)
    then have w: "w \<in> set (e_queue e)" by (simp add: find_waiter_work)
    show ?thesis
    proof (cases "errs i")
      case (Some ce)
      with fw Cons.IH[OF d_settle[OF d_canceled[OF Cons.prems]]] show ?thesis by simp
    next
      case None
      show ?thesis
      proof (cases "c_Enabled (e_cfg e)")
        case False
        with None fw d_settle[OF Cons.prems] show ?thesis by simp
      next
        case en: True
        obtain e1 mm nxt bl er where c: "checkWorkLocked (wt_request w) (wt_identity w) now e = (e1, mm, nxt, bl, er)"
          by (metis prod_cases5)
        have p2: "P now (note_waiter i nxt bl e1)" using d_check[OF Cons.prems en w c] by (rule d_note)
        show ?thesis
        proof (cases er)
          case (Some x)
          from Cons.IH[OF d_full[OF p2, of i "fe_Code x"]] Some c en None fw show ?thesis by (simp add: note_waiter_def)
        next
          case ok: None
          show ?thesis
          proof (cases "bl = ''''")
            case False
            with Cons.IH[OF p2] ok c en None fw show ?thesis by (simp add: note_waiter_def)
          next
            case True
            obtain p e3 where g: "grantWorkLocked (wt_request w) (wt_identity w) mm now (note_waiter i nxt '''' e1) = (p, e3)"
              by fastforce
            have "P now e3" using d_grant[OF Cons.prems en w c[unfolded ok True] g] .
            then show ?thesis using d_settle g True ok c en None fw by (simp add: note_waiter_def)
          qed
        qed
      qed
    qed
  qed
qed simp

lemma dispatch_loop_inv: "P now e \<Longrightarrow> P now (dispatch_loop errs now ks grants e)"
proof (induction errs now ks grants e rule: dispatch_loop.induct)
  case (2 errs now k0 ks grants e)
  obtain k rest where pm: "pop_min k0 ks = (k, rest)" by fastforce
  obtain served e1 where sv: "serve_items errs now (k_items k) e = (served, e1)" by fastforce
  have p1: "P now e1" using serve_items_inv[OF "2.prems", of errs "k_items k"] sv by simp
  with d_pending[OF p1, of True] "2.IH"[OF pm[symmetric] refl sv[symmetric] refl refl refl] show ?case
    by (simp add: pm sv Let_def)
qed simp

lemma scan_inv: "P now (fst ek) \<Longrightarrow> P now (fst (fold (scan_waiter errs now) ws ek))"
proof (induction ws arbitrary: ek)
  case (Cons w ws)
  have "P now (fst (scan_waiter errs now w ek))"
    using Cons.prems by (cases ek) (auto simp: scan_waiter_def Let_def split: option.splits
        intro: d_settle d_canceled d_timed_out)
  with Cons.IH show ?case by simp
qed simp

lemma dispatch_marked_inv:
  assumes "P now e"
  shows "P now (dispatch_marked errs1 errs2 now e)"
proof -
  obtain e1 keys where f: "fold (scan_waiter errs1 now) (e_queue e) (e\<lparr>e_dispatchPending := False\<rparr>, []) = (e1, keys)"
    by fastforce
  have "P now e1" using scan_inv[of now "(e\<lparr>e_dispatchPending := False\<rparr>, [])" errs1 "e_queue e"] f d_pending[OF assms]
    by simp
  then show ?thesis using dispatch_loop_inv by (simp add: dispatch_marked_def f)
qed

lemma dispatchLocked_inv:
  assumes "P now e" "P now (dispatch_marked errs1 errs2 now e) \<Longrightarrow> P now (compact_queue (dispatch_marked errs1 errs2 now e))"
  shows "P now (dispatchLocked errs1 errs2 now e)"
  unfolding dispatchLocked_marked using assms dispatch_marked_inv d_pending by simp

end

lemma note_waiter_framed: "framed e (note_waiter i nxt bl e)"
  unfolding note_waiter_def by (rule upd_waiter_framed) simp

text \<open>A predicate kept by frame steps and by checked grants satisfies the interface.\<close>

lemma dispatch_invariantI:
  assumes frame: "\<And>now e e'. P now e \<Longrightarrow> framed e e' \<Longrightarrow> P now e'"
    and "\<And>now e w e1 mm nxt bl er. P now e \<Longrightarrow> c_Enabled (e_cfg e) \<Longrightarrow> w \<in> set (e_queue e) \<Longrightarrow>
      checkWorkLocked (wt_request w) (wt_identity w) now e = (e1, mm, nxt, bl, er) \<Longrightarrow> P now e1"
    and g: "\<And>now e w e1 mm nxt e2 p e3. P now e \<Longrightarrow> c_Enabled (e_cfg e) \<Longrightarrow> w \<in> set (e_queue e) \<Longrightarrow>
      checkWorkLocked (wt_request w) (wt_identity w) now e = (e1, mm, nxt, '''', None) \<Longrightarrow>
      framed e1 e2 \<Longrightarrow> e_ops e2 = e_ops e1 \<Longrightarrow>
      grantWorkLocked (wt_request w) (wt_identity w) mm now e2 = (p, e3) \<Longrightarrow> P now e3"
  shows "dispatch_invariant P"
proof
  show "P now (settleWaiterLocked i p er now e)" if "P now e" for now e i p er
    using that settleWaiter_framed by (rule frame)
  show "P now (e\<lparr>e_canceled := n\<rparr>)" "P now (e\<lparr>e_timedOut := n\<rparr>)" "P now (e\<lparr>e_dispatchPending := b\<rparr>)"
    if "P now e" for now e n b
    by (rule frame[OF that], simp)+
  show "P now (note_waiter i nxt bl e)" if "P now e" for now e i nxt bl using that note_waiter_framed by (rule frame)
  show "P now (upd_waiter i (\<lambda>v. v\<lparr>wt_blocked := bl\<rparr>) e)" if "P now e" for now e i bl
    using that by (rule frame) (rule upd_waiter_framed, simp)
  show "P now e3" if "P now e" "c_Enabled (e_cfg e)" "w \<in> set (e_queue e)"
    "checkWorkLocked (wt_request w) (wt_identity w) now e = (e1, mm, nxt, '''', None)"
    "grantWorkLocked (wt_request w) (wt_identity w) mm now (note_waiter i nxt '''' e1) = (p, e3)"
    for now e w e1 mm nxt i p e3
    by (rule g[OF that(1-4) note_waiter_framed _ that(5)]) (simp add: note_waiter_def upd_waiter_def)
qed (rule assms(2))

interpretation evolution: dispatch_invariant "\<lambda>_. evolves e0" for e0
proof (rule dispatch_invariantI)
  show "evolves e0 e'" if "evolves e0 e" "framed e e'" for e e'
    using that by (blast intro: evolves_trans framed_evolves)
  show "evolves e0 e1" if "evolves e0 e" "checkWorkLocked (wt_request w) (wt_identity w) now e = (e1, mm, nxt, bl, er)"
    for now e w e1 mm nxt bl er
    using that by (blast intro: evolves_trans only_buckets_evolves checkWork_only)
  show "evolves e0 e3" if "evolves e0 e" "checkWorkLocked (wt_request w) (wt_identity w) now e = (e1, mm, nxt, '''', None)"
    "framed e1 e2" "grantWorkLocked (wt_request w) (wt_identity w) mm now e2 = (p, e3)"
    for now e w e1 mm nxt e2 p e3
    using that by (blast intro: evolves_trans only_buckets_evolves checkWork_only framed_evolves grantWork_evolves)
qed

lemma dispatch_evolves: "evolves e (dispatchLocked errs1 errs2 now e)"
  by (rule evolution.dispatchLocked_inv) (simp, blast intro: evolves_trans framed_evolves compact_framed)

end
