(* ===== verification/FlowMachine.thy ===== *)
theory FlowMachine
  imports FlowAdmission
begin

text \<open>
  The engine as a machine: one step per critical section (\<open>flow_step\<close>), and the interface through
  which its invariants are proved. \<open>engine_invariant\<close> asks for one law per elementary action of the
  critical sections; every step then keeps the predicate. \<open>admission_invariant\<close> is the contract of
  predicates on the admission state alone, and satisfies the first. The limits of the policy, the
  bounds of the state (\<open>FlowLimits\<close>) and the queue (\<open>FlowQueue\<close>) interpret them.
\<close>

section \<open>The machine\<close>

text \<open>
  The state is the engine and the last reading of the clock, which never goes back. A running
  policy is fixed: \<open>Update\<close> is not a step. \<open>Acquire\<close> and \<open>AcquireImmediately\<close> are the acquire step
  without a request, \<open>Release\<close> and \<open>abort\<close> the two finish steps.
\<close>

lemma Acquire_for_request:
  "Acquire rd rd' cx d payload e = AcquireForRequest rd rd' cx None d payload True e"
  "AcquireImmediately rd rd' cx d payload e = AcquireForRequest rd rd' cx None d payload False e"
  by (simp_all add: Acquire_def AcquireImmediately_def AcquireForRequest_def)

inductive flow_step :: "engine \<times> gtime \<Rightarrow> engine \<times> gtime \<Rightarrow> bool" where
  step_acquire: "t \<le> rd_now rd \<Longrightarrow> rd_now rd \<le> rd_now rd' \<Longrightarrow>
    flow_step (e, t) (snd (AcquireForRequest rd rd' cx request d payload mayWait e), rd_now rd')"
| step_begin: "flow_step (e, t) (snd (BeginRequest d e), t)"
| step_finish: "t \<le> now \<Longrightarrow> flow_step (e, t) (snd (finish_permit refund errs1 errs2 nowf now p e), now)"
| step_done: "t \<le> rd_now rd \<Longrightarrow> flow_step (e, t) (snd (acquire_done rd cerr i e), rd_now rd)"
| step_canceled: "t \<le> rd_now rd \<Longrightarrow> rd_now rd \<le> rd_now rd' \<Longrightarrow>
    flow_step (e, t) (snd (acquire_canceled rd rd' nows ce i e), rd_now rd')"
| step_hint: "t \<le> now \<Longrightarrow> flow_step (e, t) (snd (available_hint wm d now e), now)"
| step_commit: "flow_step (e, t) (CommitDispatch p e, t)"
| step_mark: "flow_step (e, t) (MarkPhase phase p e, t)"
| step_wait: "flow_step (e, t) (snd (WaitForProducer channel cerr start stop ev request e), t)"
| step_timer: "t \<le> now \<Longrightarrow> flow_step (e, t) (timer_fires generation errs1 errs2 now e, now)"
| step_close: "flow_step (e, t) (Close now e, t)"

inductive_cases flow_step_cases: "flow_step (e, t) s"

definition flow_init :: "Config \<Rightarrow> engine \<times> gtime \<Rightarrow> bool" where
  "flow_init cfg s \<longleftrightarrow> (\<exists>self. New self cfg = Inr (fst s)) \<and> c_Enabled cfg"

lemma normalized_stage [simp]: "d_Stage (normalized d) = d_Stage d"
  by (simp add: normalized_def)

section \<open>The interface of engine invariants\<close>

lemma cleanup_cfg [simp]: "e_cfg (cleanupLocked now e) = e_cfg e"
  by (simp add: cleanupLocked_def)

locale engine_invariant =
  fixes Q :: "gtime \<Rightarrow> engine \<Rightarrow> bool"
  assumes q_mono: "Q t e \<Longrightarrow> t \<le> t' \<Longrightarrow> Q t' e"
    and q_cleanup: "Q t e \<Longrightarrow> Q t (cleanupLocked now e)"
    and q_release: "Q t e \<Longrightarrow> Q t (releaseRecordLocked ticket refund e)"
    and q_dispatch: "Q now e \<Longrightarrow> Q now (dispatchLocked errs1 errs2 now e)"
    and q_schedule: "Q t e \<Longrightarrow> Q t (scheduleLocked now e)"
    and q_op: "Q t e \<Longrightarrow> (\<And>x. op_identity (f x) = op_identity x) \<Longrightarrow> Q t (upd_op i f e)"
    and q_remove: "Q t e \<Longrightarrow> Q t (snd (removeWaiterLocked i now e))"
    and q_canceled: "Q t e \<Longrightarrow> Q t (e\<lparr>e_canceled := n\<rparr>)"
    and q_rejected: "Q t e \<Longrightarrow> Q t (e\<lparr>e_rejected := n\<rparr>)"
    and q_settled: "Q t e \<Longrightarrow> Q t (e\<lparr>e_settled := ws\<rparr>)"
    and q_closed: "Q t e \<Longrightarrow> Q t (e\<lparr>e_closed := b\<rparr>)"
    and q_timer: "Q t e \<Longrightarrow> Q t (e\<lparr>e_timer := tm, e_timerGeneration := n\<rparr>)"
    and q_phase: "Q t e \<Longrightarrow> Q t (e\<lparr>e_active := adjust i (\<lambda>a. a\<lparr>a_phase := phase\<rparr>) (e_active e)\<rparr>)"
    and q_begin: "Q t e \<Longrightarrow> Q t (snd (BeginRequest d e))"
    and q_check: "Q now e \<Longrightarrow> c_Enabled (e_cfg e) \<Longrightarrow> checkLocked d now wm e = (e1, ms, nxt, bl, er) \<Longrightarrow> Q now e1"
    and q_work: "Q now e \<Longrightarrow> c_Enabled (e_cfg e) \<Longrightarrow> checkWorkLocked request d now e = (e1, mm, nxt, bl, er) \<Longrightarrow> Q now e1"
    and q_grant: "Q now e \<Longrightarrow> c_Enabled (e_cfg e) \<Longrightarrow> work_ok request d e \<Longrightarrow>
      checkWorkLocked request d now e = (e1, mm, nxt, '''', None) \<Longrightarrow>
      grantWorkLocked request d mm now e1 = (p, e3) \<Longrightarrow> Q now e3"
    and q_enqueue: "Q now e \<Longrightarrow> work_ok request d e \<Longrightarrow> 0 \<le> payload \<Longrightarrow>
      Q now (snd (enqueue_or_refuse request d payload mayWait parent nxt bl now e))"
begin

lemma k_settle:
  assumes "Q t e" "t \<le> now"
  shows "Q now (settle_after errs1 errs2 now e)"
  unfolding settle_after_def by (intro q_schedule q_dispatch q_cleanup q_mono[OF assms])

lemma k_release: "Q t e \<Longrightarrow> t \<le> now \<Longrightarrow> Q now (release errs1 errs2 now ticket refund e)"
  unfolding release_def using q_release k_settle by blast

lemma k_finish_waiters: "Q t e \<Longrightarrow> Q t (fold (\<lambda>w. finishWaiterLocked w p er now) ws e)"
  by (induction ws arbitrary: e) (auto simp: finishWaiterLocked_def Let_def intro: q_settled q_remove)

lemma k_end_operation:
  assumes "Q t e" "t \<le> now"
  shows "Q now (endOperation errs1 errs2 nowf now o' e)"
proof -
  let ?e1 = "finish_op_waiters o' nowf (upd_op o' (\<lambda>x. x\<lparr>op_closed := True\<rparr>) e)"
  have c: "Q t (upd_op o' (\<lambda>x. x\<lparr>op_closed := True\<rparr>) e)" using assms(1) by (rule q_op) simp
  have e1: "Q t ?e1" unfolding finish_op_waiters_def using c by (rule k_finish_waiters)
  have z: "Q t (upd_op o' (\<lambda>x. x\<lparr>op_ticket := 0\<rparr>) ?e1)" using e1 by (rule q_op) simp
  show ?thesis
    unfolding endOperation_def Let_def
    by (rule k_settle[OF _ assms(2)]) (auto simp: e1 split: option.splits intro: q_release[OF z])
qed

lemma k_finish_permit:
  "Q t e \<Longrightarrow> t \<le> now \<Longrightarrow> Q now (snd (finish_permit refund errs1 errs2 nowf now p e))"
  by (auto simp: finish_permit_def k_end_operation k_release q_mono split: option.splits)

lemma k_acquire_locked:
  assumes "Q t e" "t \<le> now" "work_ok request d e" "0 \<le> payload"
  shows "Q now (snd (acquire_locked errs1 errs2 now request d payload mayWait parent e))"
proof (cases "e_closed e \<or> \<not> c_Enabled (e_cfg e)")
  case True
  then show ?thesis using q_mono[OF assms(1,2)] q_cleanup[OF q_mono[OF assms(1,2)]]
    by (auto simp: acquire_locked_def Let_def)
next
  case False
  define e2 where "e2 = dispatchLocked errs1 errs2 now (cleanupLocked now e)"
  define e3 where "e3 = (if e_dispatchPending e2 then scheduleLocked now e2 else e2)"
  obtain e4 mm nxt bl er where c: "checkWorkLocked request d now e3 = (e4, mm, nxt, bl, er)" by (metis prod_cases5)
  have i2: "Q now e2"
    unfolding e2_def by (intro q_dispatch q_cleanup q_mono[OF assms(1,2)])
  then have i3: "Q now e3" unfolding e3_def using q_schedule by simp
  have ev: "evolves e e3"
    unfolding e3_def e2_def
    by (auto intro: evolves_trans[OF evolves_trans[OF cleanup_evolves dispatch_evolves]] framed_evolves schedule_framed
        evolves_trans[OF cleanup_evolves dispatch_evolves])
  have en: "c_Enabled (e_cfg e3)" and w3: "work_ok request d e3"
    using False ev assms(3) work_ok_evolves[OF ev] by (auto simp: evolves_def)
  have i4: "Q now e4" using i3 en c by (rule q_work)
  have w4: "work_ok request d e4"
    using w3 work_ok_evolves[OF only_buckets_evolves[OF checkWork_only[OF c]]] by simp
  have red: "acquire_locked errs1 errs2 now request d payload mayWait parent e =
    (case er of Some x \<Rightarrow> (Refused (EFlow x), e4\<lparr>e_rejected := Suc (e_rejected e4)\<rparr>)
     | None \<Rightarrow> if bl = '''' \<and> \<not> e_dispatchPending e4
         then (let (p, e5) = grantWorkLocked request d mm now e4 in (Granted p, scheduleLocked now e5))
         else enqueue_or_refuse request d payload mayWait parent nxt bl now e4)"
    using False c[unfolded e3_def e2_def] by (simp add: acquire_locked_def Let_def)
  show ?thesis
  proof (cases er)
    case (Some x)
    then show ?thesis unfolding red using q_rejected[OF i4] by simp
  next
    case None
    show ?thesis
    proof (cases "bl = '''' \<and> \<not> e_dispatchPending e4")
      case True
      obtain p e5 where g: "grantWorkLocked request d mm now e4 = (p, e5)" by fastforce
      have "Q now e5" using q_grant[OF i3 en w3 _ g] c None True by simp
      then show ?thesis unfolding red using None True g q_schedule by simp
    next
      case False
      then show ?thesis unfolding red using None q_enqueue[OF i4 w4 assms(4)] by auto
    qed
  qed
qed

lemma k_acquire_work:
  assumes "Q t e" "t \<le> rd_now rd" "rd_now rd \<le> rd_now rd'" "work_ok request (normalized d) e"
  shows "Q (rd_now rd') (snd (acquireWork rd rd' cx request d payload mayWait e))"
proof -
  have m: "Q (rd_now rd') e" using assms(1-3) by (meson q_mono order_trans)
  define n where "n = (if payload < 0 then 0 else payload)"
  have n: "0 \<le> n" by (simp add: n_def)
  obtain a e1 where a: "acquire_locked (rd_errs1 rd) (rd_errs2 rd) (rd_now rd) request (normalized d) n mayWait
      (cx_deadline cx) e = (a, e1)" by fastforce
  have i1: "Q (rd_now rd) e1" using k_acquire_locked[OF assms(1,2,4) n] a by (metis snd_conv)
  then have "Q (rd_now rd') e1" using assms(3) by (rule q_mono)
  moreover have "Q (rd_now rd') (snd (abort (rd_errs1 rd') (rd_errs2 rd') (rd_nowf rd') (rd_now rd') p e1))" for p
    unfolding abort_def using i1 assms(3) by (rule k_finish_permit)
  ultimately show ?thesis
    using m a by (auto simp: acquireWork_def Let_def n_def[symmetric] split: option.splits acquired.splits)
qed

lemma k_acquire_for_request:
  assumes "Q t e" "t \<le> rd_now rd" "rd_now rd \<le> rd_now rd'"
  shows "Q (rd_now rd') (snd (AcquireForRequest rd rd' cx request d payload mayWait e))"
proof -
  have m: "Q (rd_now rd') e" using assms(1-3) by (meson q_mono order_trans)
  show ?thesis
  proof (cases "work_ok request (normalized d) e")
    case True
    with k_acquire_work[OF assms] m show ?thesis by (simp add: AcquireForRequest_def)
  next
    case False
    with m show ?thesis
      by (auto simp: AcquireForRequest_def work_ok_def request_op_def op_ids_def split: option.splits)
  qed
qed

lemma k_abort_opt: "Q t e \<Longrightarrow> t \<le> rd_now rd \<Longrightarrow> Q (rd_now rd) (abort_opt rd p e)"
  by (auto simp: abort_opt_def abort_def k_finish_permit q_mono split: option.splits)

lemma k_done:
  assumes "Q t e" "t \<le> rd_now rd"
  shows "Q (rd_now rd) (snd (acquire_done rd cerr i e))"
  using k_abort_opt[OF q_settled[OF assms(1)] assms(2)] q_mono[OF q_settled[OF assms(1)] assms(2)] q_mono[OF assms]
  by (auto simp: acquire_done_def Let_def split: option.splits)

lemma k_canceled:
  assumes "Q t e" "t \<le> rd_now rd" "rd_now rd \<le> rd_now rd'"
  shows "Q (rd_now rd') (snd (acquire_canceled rd rd' nows ce i e))"
proof -
  obtain ok e1 where rm: "removeWaiterLocked i (rd_nowf rd) e = (ok, e1)" by fastforce
  have i1: "Q t e1" using q_remove[OF assms(1), of i "rd_nowf rd"] rm by simp
  have d: "Q (rd_now rd') (scheduleLocked nows (dispatchLocked (rd_errs1 rd) (rd_errs2 rd) (rd_now rd)
       (e1\<lparr>e_canceled := n\<rparr>)))" for n
    by (intro q_mono[OF _ assms(3)] q_schedule q_dispatch q_canceled q_mono[OF i1 assms(2)])
  have t: "t \<le> rd_now rd'" using assms(2,3) by simp
  show ?thesis
    using rm d q_mono[OF i1 t] k_abort_opt[OF q_settled[OF i1] t]
    by (auto simp: acquire_canceled_def split: option.splits bool.splits)
qed

lemma k_hint:
  assumes "Q t e" "t \<le> now"
  shows "Q now (snd (available_hint wm d now e))"
proof -
  obtain e1 ms nxt bl er where c: "checkLocked (normalized d) now wm (cleanupLocked now e) = (e1, ms, nxt, bl, er)"
    by (metis prod_cases5)
  have "Q now e1" if "c_Enabled (e_cfg e)"
    using q_check[OF q_cleanup[OF q_mono[OF assms]] _ c] that by simp
  with q_mono[OF assms] c show ?thesis by (auto simp: available_hint_def)
qed

lemma k_other_steps:
  assumes "Q t e"
  shows "Q t (CommitDispatch p e)" "Q t (MarkPhase phase p e)"
    "Q t (snd (WaitForProducer channel cerr start stop ev request e))" "Q t (Close now e)"
proof -
  show "Q t (CommitDispatch p e)"
    using assms by (auto simp: CommitDispatch_def split: option.splits intro!: q_op)
  show "Q t (MarkPhase phase p e)" using assms q_phase by (auto simp: MarkPhase_def Let_def)
  show "Q t (snd (WaitForProducer channel cerr start stop ev request e))"
    using assms by (auto simp: WaitForProducer_def Let_def split: option.splits intro!: q_op)
  show "Q t (Close now e)"
    using assms unfolding Close_def Let_def by (auto intro!: q_timer k_finish_waiters q_closed)
qed

lemma step_keeps: "flow_step (e, t) (e', t') \<Longrightarrow> Q t e \<Longrightarrow> Q t' e'"
  by (erule flow_step_cases)
    (auto simp: timer_fires_def settle_after_def[symmetric] k_settle q_mono intro: k_acquire_for_request
      q_begin k_finish_permit k_done k_canceled k_hint k_other_steps)

end

section \<open>The interface of admission invariants\<close>

lemma queue_work_enqueue:
  assumes "queue_work e" "work_ok request d e"
  shows "queue_work (snd (enqueue_or_refuse request d payload mayWait parent nxt bl now e))"
proof -
  have f: "evolves e (scheduleLocked now e)" for e by (intro framed_evolves schedule_framed)
  have q: "queue_work (e1\<lparr>e_activitySequence := n, e_queue := e_queue e1 @ [w], e_queueBytes := b, e_waited := c\<rparr>)"
    if "evolves e e1" "wt_request w = request" "wt_identity w = d" for e1 n w b c
  proof -
    let ?e = "e1\<lparr>e_activitySequence := n, e_queue := e_queue e1 @ [w], e_queueBytes := b, e_waited := c\<rparr>"
    have "op_ids ?e = op_ids e1" by (simp add: op_ids_def get_op_def fun_eq_iff)
    then have wk: "work_ok r x ?e = work_ok r x e1" for r x by (cases "request_op r") (simp_all add: work_ok_def)
    have "queue_work e1" using that(1) assms(1) by (rule queue_work_evolves)
    then show ?thesis
      using that assms(2) work_ok_evolves[OF that(1)] by (auto simp: queue_work_def wk)
  qed
  have up: "evolves e (upd_op o' (\<lambda>x. x\<lparr>op_waiting := True\<rparr>) e)" for o' by (rule upd_op_evolves) simp
  have r: "queue_work (e\<lparr>e_rejected := n\<rparr>)" for n
    by (rule queue_work_evolves[OF framed_evolves assms(1)]) simp
  show ?thesis
    unfolding enqueue_or_refuse_def Let_def
    by (auto simp: r split: option.splits intro!: queue_work_evolves[OF f] q up)
qed

lemma foldl_max_upper: "n \<in> set ns \<Longrightarrow> (n :: nat) \<le> foldl max a ns"
proof -
  have a: "a \<le> foldl max a ns" for a :: nat and ns
    by (induction ns arbitrary: a) (auto intro: order_trans[OF max.cobounded1])
  show "n \<in> set ns \<Longrightarrow> n \<le> foldl max a ns"
  proof (induction ns arbitrary: a)
    case (Cons m ns)
    then show ?case using a[of "max a m" ns] by auto
  qed simp
qed

lemma BeginRequest_ids:
  assumes "op_ids e i = Some x"
  shows "op_ids (snd (BeginRequest d e)) i = Some x"
proof -
  have "map_of (e_ops e) i \<noteq> None" using assms by (auto simp: op_ids_def get_op_def)
  then have "i \<in> fst ` set (e_ops e)" by (metis map_of_None_key)
  then have "i \<noteq> Suc (foldl max 0 (map fst (e_ops e)))"
    using foldl_max_upper[of i "map fst (e_ops e)" 0] by (auto simp: image_iff)
  with assms show ?thesis
    by (auto simp: BeginRequest_def Let_def op_ids_def get_op_def map_add_def split: option.splits)
qed

lemma BeginRequest_work:
  assumes "queue_work e"
  shows "queue_work (snd (BeginRequest d e))"
proof -
  have q: "e_queue (snd (BeginRequest d e)) = e_queue e" by (simp add: BeginRequest_def Let_def)
  have "work_ok r x (snd (BeginRequest d e))" if "work_ok r x e" for r x
    using that BeginRequest_ids[of e] unfolding work_ok_def by (auto split: option.splits)
  with assms show ?thesis unfolding queue_work_def q by blast
qed

locale admission_invariant =
  fixes P :: "gtime \<Rightarrow> engine \<Rightarrow> bool"
  assumes mono: "P t e \<Longrightarrow> t \<le> t' \<Longrightarrow> P t' e"
    and frame: "P t e \<Longrightarrow> core e' = core e \<Longrightarrow> P t e'"
    and cleaned: "P t e \<Longrightarrow> P t (cleanupLocked now e)"
    and dropped: "P t e \<Longrightarrow> map_of (e_active e) ticket = Some a \<Longrightarrow> P t (drop_record ticket a refund e)"
    and checked: "P now e \<Longrightarrow> c_Enabled (e_cfg e) \<Longrightarrow> checkLocked d now wm e = (e1, ms, nxt, bl, er) \<Longrightarrow> P now e1"
    and admitted: "P now e \<Longrightarrow> c_Enabled (e_cfg e) \<Longrightarrow> work_ok request d e \<Longrightarrow>
      checkWorkLocked request d now e = (e1, mm, nxt, '''', None) \<Longrightarrow> framed e1 e2 \<Longrightarrow> e_ops e2 = e_ops e1 \<Longrightarrow>
      grantWorkLocked request d mm now e2 = (p, e3) \<Longrightarrow> P now e3"
begin

definition inv :: "gtime \<Rightarrow> engine \<Rightarrow> bool" where
  "inv t e \<longleftrightarrow> P t e \<and> queue_work e"

lemma inv_mono: "inv t e \<Longrightarrow> t \<le> t' \<Longrightarrow> inv t' e"
  unfolding inv_def using mono by blast

lemma inv_frame: "inv t e \<Longrightarrow> framed e e' \<Longrightarrow> inv t e'"
  unfolding inv_def using frame framed_evolves queue_work_evolves by (metis framed_def)

lemma work_checked:
  assumes "P now e" "c_Enabled (e_cfg e)" "checkWorkLocked request d now e = (e', mm, nxt, bl, er)"
  shows "P now e'"
  using assms(3)
proof (cases rule: checkWork_E)
  case (both opr e1 reqm first)
  have "P now e1" using assms(1,2) both(2) by (rule checked)
  moreover have "c_Enabled (e_cfg e1)" using assms(2) checkLocked_only[OF both(2)] by (simp add: only_buckets_ops)
  ultimately show ?thesis using both(3) by (auto elim!: checkAttempt_E intro: checked)
qed (use assms in \<open>auto elim!: checkAttempt_E intro: checked\<close>)

lemma inv_work_checked:
  assumes "inv now e" "c_Enabled (e_cfg e)" "checkWorkLocked request d now e = (e', mm, nxt, bl, er)"
  shows "inv now e'"
  using assms work_checked queue_work_evolves[OF only_buckets_evolves[OF checkWork_only[OF assms(3)]]]
  unfolding inv_def by blast

lemma inv_admitted:
  assumes "inv now e" "c_Enabled (e_cfg e)" "work_ok request d e"
    "checkWorkLocked request d now e = (e1, mm, nxt, '''', None)" "framed e1 e2" "e_ops e2 = e_ops e1"
    "grantWorkLocked request d mm now e2 = (p, e3)"
  shows "inv now e3"
proof -
  have "evolves e e3"
    using evolves_trans[OF only_buckets_evolves[OF checkWork_only[OF assms(4)]]]
      evolves_trans[OF framed_evolves[OF assms(5)] grantWork_evolves[OF assms(7)]] by blast
  with assms queue_work_evolves admitted show ?thesis unfolding inv_def by blast
qed

end

sublocale admission_invariant \<subseteq> queue: dispatch_invariant inv
proof (rule dispatch_invariantI)
  show "inv now e'" if "inv now e" "framed e e'" for now e e' using that by (rule inv_frame)
  show "inv now e1" if "inv now e" "c_Enabled (e_cfg e)"
    "checkWorkLocked (wt_request w) (wt_identity w) now e = (e1, mm, nxt, bl, er)" for now e w e1 mm nxt bl er
    using that by (rule inv_work_checked)
  show "inv now e3" if "inv now e" "c_Enabled (e_cfg e)" "w \<in> set (e_queue e)"
    "checkWorkLocked (wt_request w) (wt_identity w) now e = (e1, mm, nxt, '''', None)"
    "framed e1 e2" "e_ops e2 = e_ops e1" "grantWorkLocked (wt_request w) (wt_identity w) mm now e2 = (p, e3)"
    for now e w e1 mm nxt e2 p e3
    using that by (intro inv_admitted[OF that(1,2) _ that(4,5,6,7)]) (auto simp: inv_def queue_work_def)
qed


context admission_invariant
begin

lemma inv_dispatch: "inv now e \<Longrightarrow> inv now (dispatchLocked errs1 errs2 now e)"
  by (rule queue.dispatchLocked_inv) (auto intro: inv_frame compact_framed)

lemma inv_cleanup: "inv t e \<Longrightarrow> inv t (cleanupLocked now e)"
  unfolding inv_def using cleaned cleanup_evolves queue_work_evolves by blast

lemma inv_release_record: "inv t e \<Longrightarrow> inv t (releaseRecordLocked ticket refund e)"
proof (rule releaseRecordLocked_keeps[where P = "inv t"])
  show "inv t (drop_record k a r x)" if "inv t x" "map_of (e_active x) k = Some a" for x k a r
    using that dropped queue_work_evolves[OF drop_record_evolves] unfolding inv_def by blast
  show "inv t (upd_op i f x)" if "inv t x" "\<And>y. op_identity (f y) = op_identity y" for x i f
    using that(1) by (rule inv_frame) (rule upd_op_framed, rule that(2))
qed

lemma inv_upd_op: "inv t e \<Longrightarrow> (\<And>x. op_identity (f x) = op_identity x) \<Longrightarrow> inv t (upd_op i f e)"
  using inv_frame upd_op_framed by blast

lemma inv_enqueue:
  assumes "inv now e" "work_ok request d e"
  shows "inv now (snd (enqueue_or_refuse request d payload mayWait parent nxt bl now e))"
proof -
  have "core (snd (enqueue_or_refuse request d payload mayWait parent nxt bl now e)) = core e"
    using schedule_framed
    by (auto simp: enqueue_or_refuse_def Let_def framed_def upd_op_def core_def split: option.splits)
  with assms queue_work_enqueue frame show ?thesis unfolding inv_def by blast
qed

lemma inv_begin: "inv t e \<Longrightarrow> inv t (snd (BeginRequest d e))"
  unfolding inv_def using BeginRequest_work
  by (auto intro: frame simp: core_def BeginRequest_def Let_def)

end

sublocale admission_invariant \<subseteq> engine_invariant inv
proof
  show "inv t' e" if "inv t e" "t \<le> t'" for t t' e using that by (rule inv_mono)
  show "inv t (cleanupLocked now e)" if "inv t e" for t now e using that by (rule inv_cleanup)
  show "inv t (releaseRecordLocked ticket refund e)" if "inv t e" for t e ticket refund
    using that by (rule inv_release_record)
  show "inv now (dispatchLocked errs1 errs2 now e)" if "inv now e" for now e errs1 errs2
    using that by (rule inv_dispatch)
  show "inv t (scheduleLocked now e)" "inv t (snd (removeWaiterLocked i now e))" if "inv t e" for t e now i
    using that schedule_framed removeWaiter_framed by (blast intro: inv_frame)+
  show "inv t (upd_op i f e)" if "inv t e" "\<And>x. op_identity (f x) = op_identity x" for t e i f
    using that by (rule inv_upd_op)
  show "inv t (e\<lparr>e_canceled := n\<rparr>)" "inv t (e\<lparr>e_rejected := n\<rparr>)" "inv t (e\<lparr>e_settled := ws\<rparr>)"
    "inv t (e\<lparr>e_closed := b\<rparr>)" "inv t (e\<lparr>e_timer := tm, e_timerGeneration := n\<rparr>)" if "inv t e" for t e n ws b tm
    by (rule inv_frame[OF that], simp)+
  show "inv t (e\<lparr>e_active := adjust i (\<lambda>a. a\<lparr>a_phase := phase\<rparr>) (e_active e)\<rparr>)" if "inv t e" for t e i phase
    by (rule inv_frame[OF that], rule framed_same) (simp_all add: core_active_frame)
  show "inv t (snd (BeginRequest d e))" if "inv t e" for t e d using that by (rule inv_begin)
  show "inv now e1" if "inv now e" "c_Enabled (e_cfg e)" "checkLocked d now wm e = (e1, ms, nxt, bl, er)"
    for now e d wm e1 ms nxt bl er
    using that checked queue_work_evolves[OF only_buckets_evolves[OF checkLocked_only[OF that(3)]]]
    unfolding inv_def by blast
  show "inv now e1" if "inv now e" "c_Enabled (e_cfg e)" "checkWorkLocked request d now e = (e1, mm, nxt, bl, er)"
    for now e request d e1 mm nxt bl er using that by (rule inv_work_checked)
  show "inv now e3" if "inv now e" "c_Enabled (e_cfg e)" "work_ok request d e"
    "checkWorkLocked request d now e = (e1, mm, nxt, '''', None)" "grantWorkLocked request d mm now e1 = (p, e3)"
    for now e request d e1 mm nxt p e3 by (rule inv_admitted[OF that(1-4) framed_refl refl that(5)])
  show "inv now (snd (enqueue_or_refuse request d payload mayWait parent nxt bl now e))"
    if "inv now e" "work_ok request d e" for now e request d payload mayWait parent nxt bl
    using that by (rule inv_enqueue)
qed

end
