(* ===== verification/FlowLimits.thy ===== *)
theory FlowLimits
  imports FlowMachine
begin

text \<open>
  The limits of a running policy as an admission invariant: no counter is above its concurrency
  cap, and no trailing window of any length configured for it holds more admissions than allowed;
  besides, the state stays within \<open>MaxBuckets\<close>, \<open>MaxHistory\<close> and the bound on running records.
\<close>

section \<open>Windows\<close>

text \<open>The admissions recorded in the half-open window of length \<open>p\<close> that ends at \<open>x\<close>.\<close>

definition recent :: "gtime \<Rightarrow> gdur \<Rightarrow> event list \<Rightarrow> int" where
  "recent x p h = int (length (filter (\<lambda>y. x - p < ev_at y \<and> ev_at y \<le> x) h))"

lemma recent_Nil [simp]: "recent x p [] = 0"
  by (simp add: recent_def)

lemma recent_nonneg: "0 \<le> recent x p h"
  by (simp add: recent_def)

lemma first_after_split:
  assumes "history_ok t h"
  shows "first_after c h \<le> length h" "drop (first_after c h) h = filter (\<lambda>y. ev_at y > c) h"
proof -
  have m: "ev_at (h ! b) > c" if "a \<le> b" "b < length h" "ev_at (h ! a) > c" for a b
    using that assms sorted_nth_mono[of "map ev_at h" a b] by (auto simp: history_ok_def)
  show "first_after c h \<le> length h" "drop (first_after c h) h = filter (\<lambda>y. ev_at y > c) h"
    unfolding first_after_def using sort_Search_split[of h "\<lambda>y. ev_at y > c"] m by blast+
qed

lemma window_check_iff:
  assumes "history_ok now h"
  shows "window_check now h w = None \<longleftrightarrow> recent now (ms_dur (w_PeriodMS w)) h < w_Requests w"
proof -
  let ?p = "ms_dur (w_PeriodMS w)"
  have f: "filter (\<lambda>y. ev_at y > now - ?p) h = filter (\<lambda>y. now - ?p < ev_at y \<and> ev_at y \<le> now) h"
    by (rule filter_cong) (use assms in \<open>auto simp: history_ok_def\<close>)
  have "length h - first_after (now - ?p) h = length (filter (\<lambda>y. ev_at y > now - ?p) h)"
    using first_after_split(2)[OF assms, of "now - ?p"] by (metis length_drop)
  then have "int (length h - first_after (now - ?p) h) = recent now ?p h" unfolding recent_def f by simp
  then show ?thesis by (auto simp: window_check_def Let_def)
qed

lemma recent_drop: "recent x p (drop n h) \<le> recent x p h"
proof -
  have "length (filter Q (drop n h)) \<le> length (filter Q h)" for Q :: "event \<Rightarrow> bool"
  proof -
    have "filter Q h = filter Q (take n h) @ filter Q (drop n h)" by (metis append_take_drop_id filter_append)
    then show ?thesis by simp
  qed
  then show ?thesis unfolding recent_def by simp
qed

lemma recent_remove: "recent x p (remove_ticket ticket h) \<le> recent x p h"
  by (induction h) (auto simp: recent_def)

lemma recent_admit:
  assumes "history_ok now h" "recent now p h < n" "recent x p h \<le> n"
  shows "recent x p (h @ [\<lparr>ev_at = now, ev_ticket = i\<rparr>]) \<le> n"
proof (cases "x < now")
  case True
  with assms(3) show ?thesis by (simp add: recent_def)
next
  case False
  have "length (filter (\<lambda>y. x - p < ev_at y \<and> ev_at y \<le> x) h) \<le> length (filter (\<lambda>y. now - p < ev_at y \<and> ev_at y \<le> now) h)"
    using assms(1) False by (induction h) (auto simp: history_ok_def)
  with assms(2) show ?thesis by (simp add: recent_def)
qed

section \<open>Limits\<close>

definition within :: "Rule \<Rightarrow> bucket \<Rightarrow> bool" where
  "within r b \<longleftrightarrow> (r_MaxConcurrent r > 0 \<longrightarrow> b_active b \<le> r_MaxConcurrent r) \<and>
     (\<forall>w\<in>set (r_Windows r). \<forall>x. recent x (ms_dur (w_PeriodMS w)) (b_history b) \<le> w_Requests w)"

definition room :: "gtime \<Rightarrow> Rule \<Rightarrow> bucket \<Rightarrow> bool" where
  "room now r b \<longleftrightarrow> (r_MaxConcurrent r > 0 \<longrightarrow> b_active b < r_MaxConcurrent r) \<and>
     (\<forall>w\<in>set (r_Windows r). recent now (ms_dur (w_PeriodMS w)) (b_history b) < w_Requests w)"

text \<open>Every counter belongs to a rule of the policy, under one of the names the rule gives.\<close>

definition origin :: "Rule list \<Rightarrow> (string \<times> bucket) list \<Rightarrow> bool" where
  "origin rs bs \<longleftrightarrow> (\<forall>bid b. map_of bs bid = Some b \<longrightarrow> b_rule b \<in> set rs \<and> (\<exists>d. bid = bucketID (b_rule b) d))"

definition running_policy :: "Config \<Rightarrow> bool" where
  "running_policy c \<longleftrightarrow> Effective c = c \<and> policy_ok c"

definition limits :: "engine \<Rightarrow> bool" where
  "limits e \<longleftrightarrow> origin (c_Rules (e_cfg e)) (e_buckets e) \<and>
     (\<forall>bid b. map_of (e_buckets e) bid = Some b \<longrightarrow> within (b_rule b) b)"

definition limited :: "gtime \<Rightarrow> engine \<Rightarrow> bool" where
  "limited t e \<longleftrightarrow> running_policy (e_cfg e) \<and> acct e \<and> hist_ok t e \<and> limits e"

lemma Effective_rules: "c_Rules (Effective c) = map (effective_rule (effectiveVersion c)) (c_Rules c)"
  by (simp add: Effective_def Let_def)

lemma rule_of_bucket:
  assumes "running_policy c" "r1 \<in> set (c_Rules c)" "r2 \<in> set (c_Rules c)" "bucketID r1 d1 = bucketID r2 d2"
  shows "r1 = r2"
proof -
  obtain x1 x2 where x: "r1 = effective_rule (effectiveVersion c) x1" "r2 = effective_rule (effectiveVersion c) x2"
  proof -
    have "c_Rules c = map (effective_rule (effectiveVersion c)) (c_Rules c)"
      using assms(1) Effective_rules[of c] by (simp add: running_policy_def)
    then have "set (c_Rules c) = effective_rule (effectiveVersion c) ` set (c_Rules c)" by (metis list.set_map)
    with assms(2,3) that show ?thesis by blast
  qed
  then have "r_ID r1 = r_ID r2" using bucketID_rule_inj[of "effectiveVersion c" x1 d1 x2 d2] assms(4) by simp
  moreover have "distinct (map r_ID (c_Rules c))" using assms(1) by (simp add: running_policy_def policy_ok_def)
  ultimately show ?thesis using distinct_map_inj assms(2,3) by metis
qed

lemma new_within:
  assumes "running_policy c" "r \<in> set (c_Rules c)" "b_active b = 0" "b_history b = []"
  shows "within r b"
proof -
  have "rule_ok (c_MaxHistory c) r" using assms(1,2) by (simp add: running_policy_def policy_ok_def)
  with assms(3,4) show ?thesis by (auto simp: within_def rule_ok_def)
qed

lemma origin_touch: "origin rs bs \<Longrightarrow> r \<in> set rs \<Longrightarrow> origin rs (touch d r bs)"
  unfolding origin_def by (auto simp: map_of_touch touch_bucket_def split: if_splits)

text \<open>What a rule loop that finds no obstacle has established.\<close>

lemma check_windows_clear:
  "check_windows now h rid ws (nxt, bl) = (nxt', '''') \<Longrightarrow> rid \<noteq> '''' \<Longrightarrow>
     bl = '''' \<and> (\<forall>w\<in>set ws. window_check now h w = None)"
proof (induction ws arbitrary: nxt bl)
  case (Cons w ws)
  show ?case
  proof (cases "window_check now h w")
    case None
    with Cons show ?thesis by auto
  next
    case (Some t)
    with Cons.prems Cons.IH[of "if t > nxt then t else nxt" rid] show ?thesis by simp
  qed
qed simp

definition counted_rules :: "Identity \<Rightarrow> bool \<Rightarrow> Rule list \<Rightarrow> Rule list" where
  "counted_rules d wm rs = filter (\<lambda>r. \<not> skips_model wm r \<and> rule_matches r d) rs"

lemma check_rules_clear:
  assumes "check_rules d now wm mb rs bs ms nxt bl = (bs', ms', nxt', '''', None)"
    "keys_distinct bs" "origin R bs" "set rs \<subseteq> set R" "\<forall>r\<in>set rs. r_ID r \<noteq> ''''"
    "set ms \<subseteq> fst ` set bs"
  shows "bl = '''' \<and> ms' = ms @ map (\<lambda>r. bucketID r d) (counted_rules d wm rs) \<and> origin R bs' \<and>
    (\<forall>r\<in>set (counted_rules d wm rs). \<exists>b. map_of bs' (bucketID r d) = Some b \<and>
       (r_MaxConcurrent r > 0 \<longrightarrow> b_active b < r_MaxConcurrent r) \<and>
       (\<forall>w\<in>set (r_Windows r). window_check now (b_history b) w = None))"
  using assms
proof (induction rs arbitrary: bs ms nxt bl)
  case Nil
  then show ?case by (simp add: counted_rules_def)
next
  case (Cons r rs)
  show ?case
  proof (cases "skips_model wm r \<or> \<not> rule_matches r d")
    case True
    then have "check_rules d now wm mb rs bs ms nxt bl = (bs', ms', nxt', '''', None)" "counted_rules d wm (r # rs) = counted_rules d wm rs"
      using Cons.prems(1) by (auto simp: check_rules_Cons counted_rules_def)
    with Cons.IH[of bs ms nxt bl] Cons.prems show ?thesis by simp
  next
    case False
    let ?id = "bucketID r d" and ?bs = "touch d r bs"
    define b where "b = touch_bucket r (case map_of bs ?id of None \<Rightarrow> new_bucket r d | Some b \<Rightarrow> b)"
    define bl1 where "bl1 = (if r_MaxConcurrent r > 0 \<and> b_active b \<ge> r_MaxConcurrent r then r_ID r else bl)"
    have b: "map_of ?bs ?id = Some b" by (simp add: map_of_touch b_def)
    have nf: "\<not> (map_of bs ?id = None \<and> int (length bs) \<ge> mb)"
      using Cons.prems(1) False by (auto simp: check_rules_Cons)
    obtain n2 bl2 where w: "check_windows now (b_history b) (r_ID r) (r_Windows r) (nxt, bl1) = (n2, bl2)" by fastforce
    have rest: "check_rules d now wm mb rs ?bs (ms @ [?id]) n2 bl2 = (bs', ms', nxt', '''', None)"
      using Cons.prems(1) False nf w unfolding check_rules_Cons b_def[symmetric] bl1_def[symmetric] Let_def by simp
    have ext: "bs_ext bs ?bs" using Cons.prems(2) by (rule touch_ext)
    have kd: "keys_distinct ?bs" using ext by (simp add: bs_ext_def)
    have mk: "set (ms @ [?id]) \<subseteq> fst ` set ?bs"
    proof -
      have "?id \<in> fst ` set ?bs" using b map_of_None_key[of ?bs ?id] by simp
      moreover have "set ms \<subseteq> fst ` set ?bs" using Cons.prems(6) bs_ext_keys[OF ext] by (rule order_trans)
      ultimately show ?thesis by simp
    qed
    have og: "origin R ?bs" using origin_touch[OF Cons.prems(3)] Cons.prems(4) by simp
    note ih = Cons.IH[OF rest kd og _ _ mk]
    have IH: "bl2 = ''''" "ms' = (ms @ [?id]) @ map (\<lambda>r. bucketID r d) (counted_rules d wm rs)" "origin R bs'"
      "\<forall>r\<in>set (counted_rules d wm rs). \<exists>b. map_of bs' (bucketID r d) = Some b \<and>
       (r_MaxConcurrent r > 0 \<longrightarrow> b_active b < r_MaxConcurrent r) \<and>
       (\<forall>w\<in>set (r_Windows r). window_check now (b_history b) w = None)"
      using ih Cons.prems(4,5) by auto
    have cl: "bl1 = ''''" "\<forall>w\<in>set (r_Windows r). window_check now (b_history b) w = None"
      using check_windows_clear[OF w[unfolded IH(1)]] Cons.prems(5) by auto
    have cap: "bl = ''''" "r_MaxConcurrent r > 0 \<longrightarrow> b_active b < r_MaxConcurrent r"
      using cl(1) Cons.prems(5) by (auto simp: bl1_def split: if_splits)
    have ext2: "bs_ext ?bs bs'" using check_rules_ext[OF rest kd mk] by simp
    obtain b' where b': "map_of bs' ?id = Some b'" using bs_ext_absent[OF ext2] b by (cases "map_of bs' ?id") auto
    have "b_active b' = b_active b" "b_history b' = b_history b" using bs_extD[OF ext2 b'] b by simp_all
    with b' cap cl IH False show ?thesis by (simp add: counted_rules_def)
  qed
qed


section \<open>Checks\<close>

lemma check_rules_origin:
  assumes "check_rules d now wm mb rs bs ms nxt bl = (bs', ms', nxt', bl', er)" "origin R bs" "set rs \<subseteq> set R"
  shows "origin R bs'"
  using assms
proof (induction rs arbitrary: bs ms nxt bl)
  case (Cons r rs)
  have "origin R (touch d r bs)" using origin_touch Cons.prems by simp
  then show ?case
    using Cons.prems Cons.IH by (auto simp: check_rules_Cons Let_def split: if_splits prod.splits)
qed simp

lemma checkLocked_rules:
  assumes "checkLocked d now wm e = (e1, ms, nxt, bl, er)"
  obtains ms0 er0 bl0 where "check_rules d now wm (c_MaxBuckets (e_cfg e)) (c_Rules (e_cfg e)) (e_buckets e) [] 0 ''''
      = (e_buckets e1, ms0, nxt, bl0, er0)" "er = None \<Longrightarrow> er0 = None \<and> ms0 = ms \<and> bl0 = bl"
    "er = None \<Longrightarrow> bl = '''' \<Longrightarrow> int (length (e_active e1)) < 100000 \<and> e_historyCount e1 + needed_records e1 ms \<le> c_MaxHistory (e_cfg e1)"
proof -
  obtain bs ms0 n0 b0 r0 where c: "check_rules d now wm (c_MaxBuckets (e_cfg e)) (c_Rules (e_cfg e)) (e_buckets e) [] 0 ''''
      = (bs, ms0, n0, b0, r0)" by (metis prod_cases5)
  show ?thesis
    by (rule that[of ms0 b0 r0])
      (use assms c in \<open>auto simp: checkLocked_def Let_def not_le split: option.splits if_splits\<close>)
qed

text \<open>Extending the buckets within their origin keeps the limits.\<close>

lemma limits_ext:
  assumes ok: "running_policy (e_cfg e)" and cfg: "e_cfg e' = e_cfg e" and ext: "bs_ext (e_buckets e) (e_buckets e')"
    and og: "origin (c_Rules (e_cfg e)) (e_buckets e')" and lim: "limits e"
  shows "limits e'"
  unfolding limits_def cfg
proof (intro conjI allI impI)
  show "origin (c_Rules (e_cfg e)) (e_buckets e')" by (rule og)
  fix bid b' assume b': "map_of (e_buckets e') bid = Some b'"
  then obtain d' where r': "b_rule b' \<in> set (c_Rules (e_cfg e))" "bid = bucketID (b_rule b') d'"
    using og by (auto simp: origin_def)
  show "within (b_rule b') b'"
  proof (cases "map_of (e_buckets e) bid")
    case None
    with bs_extD[OF ext b'] show ?thesis using new_within[OF ok r'(1)] by simp
  next
    case (Some b)
    then have "within (b_rule b) b" and "b_rule b \<in> set (c_Rules (e_cfg e)) \<and> (\<exists>d. bid = bucketID (b_rule b) d)"
      using lim by (auto simp: limits_def origin_def)
    moreover from this r' have "b_rule b = b_rule b'" using rule_of_bucket[OF ok] by metis
    ultimately show ?thesis using bs_extD[OF ext b'] Some by (simp add: within_def)
  qed
qed

lemma checkLocked_limited:
  assumes "limited now e" "checkLocked d now wm e = (e1, ms, nxt, bl, er)"
  shows "limited now e1"
proof -
  have kd: "keys_distinct (e_buckets e)" using assms(1) by (simp add: limited_def acct_def)
  have x: "only_buckets e e1" "bs_ext (e_buckets e) (e_buckets e1)" using checkLocked_ext[OF assms(2) kd] by auto
  obtain ms0 er0 bl0 where "check_rules d now wm (c_MaxBuckets (e_cfg e)) (c_Rules (e_cfg e)) (e_buckets e) [] 0 ''''
      = (e_buckets e1, ms0, nxt, bl0, er0)" using checkLocked_rules[OF assms(2)] by metis
  then have og: "origin (c_Rules (e_cfg e)) (e_buckets e1)"
    using check_rules_origin[of d now wm] assms(1) by (fastforce simp: limited_def limits_def)
  have cfg: "e_cfg e1 = e_cfg e" using x(1) by (simp add: only_buckets_ops)
  show ?thesis
    using assms(1) x og cfg limits_ext[OF _ cfg x(2) og] only_buckets_acct[OF x] bs_ext_hist[OF x]
    unfolding limited_def by simp
qed

text \<open>The members of a check that passed have room, and belong to rules of the stage checked.\<close>

definition admits :: "gtime \<Rightarrow> engine \<Rightarrow> string list \<Rightarrow> bool" where
  "admits now e ms \<longleftrightarrow> distinct ms \<and> (\<forall>m\<in>set ms. \<exists>b. map_of (e_buckets e) m = Some b \<and> room now (b_rule b) b)"

definition of_stage :: "engine \<Rightarrow> string \<Rightarrow> string list \<Rightarrow> bool" where
  "of_stage e st ms \<longleftrightarrow> (\<forall>m\<in>set ms. \<exists>r\<in>set (c_Rules (e_cfg e)). \<exists>d. r_Stage r = st \<and> m = bucketID r d)"

lemma distinct_map_on: "distinct xs \<Longrightarrow> (\<And>x y. x \<in> set xs \<Longrightarrow> y \<in> set xs \<Longrightarrow> f x = f y \<Longrightarrow> x = y) \<Longrightarrow> distinct (map f xs)"
  by (simp add: distinct_map inj_on_def)

lemma checkLocked_admits:
  assumes lim: "limited now e" and c: "checkLocked d now wm e = (e1, ms, nxt, '''', None)"
  shows "admits now e1 ms \<and> of_stage e1 (d_Stage d) ms"
proof -
  let ?rs = "c_Rules (e_cfg e)" and ?cr = "counted_rules d wm (c_Rules (e_cfg e))"
  have kd: "keys_distinct (e_buckets e)" and ok: "running_policy (e_cfg e)" and og: "origin ?rs (e_buckets e)"
    using lim by (auto simp: limited_def acct_def limits_def)
  have cfg: "e_cfg e1 = e_cfg e" using checkLocked_only[OF c] by (simp add: only_buckets_ops)
  have lim1: "limited now e1" using lim c by (rule checkLocked_limited)
  have cr: "check_rules d now wm (c_MaxBuckets (e_cfg e)) ?rs (e_buckets e) [] 0 '''' = (e_buckets e1, ms, nxt, '''', None)"
    using checkLocked_rules[OF c] by metis
  have ids: "\<forall>r\<in>set ?rs. r_ID r \<noteq> ''''" using ok by (auto simp: running_policy_def policy_ok_def ruleID_match_def)
  have clear: "ms = map (\<lambda>r. bucketID r d) ?cr"
    "\<forall>r\<in>set ?cr. \<exists>b. map_of (e_buckets e1) (bucketID r d) = Some b \<and>
       (r_MaxConcurrent r > 0 \<longrightarrow> b_active b < r_MaxConcurrent r) \<and>
       (\<forall>w\<in>set (r_Windows r). window_check now (b_history b) w = None)"
    using check_rules_clear[OF cr kd og subset_refl ids] by simp_all
  have sub: "set ?cr \<subseteq> set ?rs" and st: "\<forall>r\<in>set ?cr. r_Stage r = d_Stage d"
    by (auto simp: counted_rules_def rule_matches_def split: if_splits)
  have "distinct ?cr" using ok by (simp add: running_policy_def policy_ok_def counted_rules_def distinct_map)
  then have "distinct ms" unfolding clear(1) using sub rule_of_bucket[OF ok] by (intro distinct_map_on) blast+
  moreover have "\<exists>b. map_of (e_buckets e1) m = Some b \<and> room now (b_rule b) b" if mem: "m \<in> set ms" for m
  proof -
    obtain r where r: "r \<in> set ?cr" "m = bucketID r d" using mem unfolding clear(1) by auto
    obtain b where b: "map_of (e_buckets e1) m = Some b" "r_MaxConcurrent r > 0 \<longrightarrow> b_active b < r_MaxConcurrent r"
      "\<forall>w\<in>set (r_Windows r). window_check now (b_history b) w = None" using clear(2) r by blast
    have "b_rule b \<in> set ?rs" "\<exists>d'. m = bucketID (b_rule b) d'"
      using lim1 b(1) cfg by (auto simp: limited_def limits_def origin_def)
    then have "b_rule b = r" using rule_of_bucket[OF ok] r sub by blast
    moreover have "history_ok now (b_history b)" using lim1 b(1) by (auto simp: limited_def hist_ok_def)
    ultimately show ?thesis using b window_check_iff by (auto simp: room_def)
  qed
  moreover have "of_stage e1 (d_Stage d) ms" unfolding of_stage_def cfg clear(1) using sub st by auto
  ultimately show ?thesis by (simp add: admits_def)
qed


section \<open>Grants\<close>

lemma count_list_distinct: "distinct ms \<Longrightarrow> m \<in> set ms \<Longrightarrow> count_list ms m = 1"
  by (induction ms) (auto simp: count_list_0_iff)

lemma room_within:
  assumes "room now r b" "history_ok now (b_history b)" "within r b" "b_rule b = r" "distinct ms" "m \<in> set ms"
  shows "within r (granted_bucket now ticket ms m b)"
proof -
  have c: "count_list ms m = 1" using assms(5,6) by (rule count_list_distinct)
  show ?thesis
    using assms(1-4) recent_admit[OF assms(2)]
    by (auto simp: within_def room_def granted_bucket_def c)
qed

lemma grantLocked_cfg: "grantLocked d ms now e = (p, e') \<Longrightarrow> e_cfg e' = e_cfg e"
  by (auto simp: grantLocked_def Let_def)

lemma granted_bucket_rule [simp]: "b_rule (granted_bucket now ticket ms m b) = b_rule b"
  by (simp add: granted_bucket_def)

lemma grantLocked_limited:
  assumes lim: "limited now e" and ad: "admits now e ms" and g: "grantLocked d ms now e = (p, e')"
  shows "limited now e'"
proof -
  have keys: "set ms \<subseteq> fst ` set (e_buckets e)"
  proof
    fix m assume "m \<in> set ms"
    then have "map_of (e_buckets e) m \<noteq> None" using ad by (auto simp: admits_def)
    then show "m \<in> fst ` set (e_buckets e)" by (metis map_of_None_key)
  qed
  have "limits e'"
    unfolding limits_def origin_def grantLocked_buckets[OF g] grantLocked_cfg[OF g]
  proof (intro conjI allI impI)
    fix m b assume "map_option (granted_bucket now (Suc (e_sequence e)) ms m) (map_of (e_buckets e) m) = Some b"
    then obtain b0 where b0: "map_of (e_buckets e) m = Some b0" "b = granted_bucket now (Suc (e_sequence e)) ms m b0" by auto
    then show "b_rule b \<in> set (c_Rules (e_cfg e))" "\<exists>d. m = bucketID (b_rule b) d"
      using lim by (auto simp: limited_def limits_def origin_def)
    have w: "within (b_rule b0) b0" "history_ok now (b_history b0)"
      using lim b0(1) by (auto simp: limited_def limits_def hist_ok_def)
    show "within (b_rule b) b"
    proof (cases "m \<in> set ms")
      case True
      then have "room now (b_rule b0) b0" using ad b0(1) by (auto simp: admits_def)
      then show ?thesis using room_within[OF _ w(2,1) refl _ True] ad b0(2) by (simp add: admits_def)
    next
      case False
      with w b0 show ?thesis by simp
    qed
  qed
  with lim keys g show ?thesis
    unfolding limited_def grantLocked_cfg[OF g] using grantLocked_acct grantLocked_hist by blast
qed

text \<open>Room survives steps that do not count on the bucket.\<close>

lemma admits_ext:
  assumes ok: "running_policy (e_cfg e)" and cfg: "e_cfg e' = e_cfg e" and ext: "bs_ext (e_buckets e) (e_buckets e')"
    and og: "origin (c_Rules (e_cfg e)) (e_buckets e)" "origin (c_Rules (e_cfg e)) (e_buckets e')" and ad: "admits now e ms"
  shows "admits now e' ms"
  unfolding admits_def
proof (intro conjI ballI)
  show "distinct ms" using ad by (simp add: admits_def)
  fix m assume "m \<in> set ms"
  then obtain b where b: "map_of (e_buckets e) m = Some b" "room now (b_rule b) b" using ad by (auto simp: admits_def)
  obtain b' where b': "map_of (e_buckets e') m = Some b'" using bs_ext_absent[OF ext] b by (cases "map_of (e_buckets e') m") auto
  have "b_rule b \<in> set (c_Rules (e_cfg e)) \<and> (\<exists>d. m = bucketID (b_rule b) d)"
    "b_rule b' \<in> set (c_Rules (e_cfg e)) \<and> (\<exists>d. m = bucketID (b_rule b') d)"
    using og b(1) b' by (auto simp: origin_def)
  then have "b_rule b' = b_rule b" using rule_of_bucket[OF ok] by metis
  with bs_extD[OF ext b'] b b' show "\<exists>b. map_of (e_buckets e') m = Some b \<and> room now (b_rule b) b"
    by (auto simp: room_def)
qed

lemma admits_grant_other:
  assumes "admits now e ms'" "set ms \<inter> set ms' = {}" "grantLocked d ms now e = (p, e')"
  shows "admits now e' ms'"
  using assms(1,2) unfolding admits_def grantLocked_buckets[OF assms(3)]
  by (metis disjoint_iff granted_bucket_none option.map(2))

lemma stages_disjoint:
  assumes "running_policy (e_cfg e)" "of_stage e s1 ms1" "of_stage e s2 ms2" "s1 \<noteq> s2"
  shows "set ms1 \<inter> set ms2 = {}"
proof (rule ccontr)
  assume "set ms1 \<inter> set ms2 \<noteq> {}"
  then obtain m where "m \<in> set ms1" "m \<in> set ms2" by auto
  then obtain r1 d1 r2 d2 where "r1 \<in> set (c_Rules (e_cfg e))" "r_Stage r1 = s1" "m = bucketID r1 d1"
    "r2 \<in> set (c_Rules (e_cfg e))" "r_Stage r2 = s2" "m = bucketID r2 d2"
    using assms(2,3) unfolding of_stage_def by metis
  then show False using rule_of_bucket[OF assms(1)] assms(4) by metis
qed

lemma core_limited: "core e' = core e \<Longrightarrow> limits e' = limits e \<and> hist_ok t e' = hist_ok t e \<and>
    (admits now e' ms = admits now e ms) \<and> e_cfg e' = e_cfg e"
  by (auto simp: core_def limits_def hist_ok_def admits_def)

lemma acct_core:
  assumes "core e' = core e"
  shows "acct e' = acct e"
proof -
  have m: "map_vals a_members (e_active e') = map_vals a_members (e_active e)" using assms by (simp add: core_def)
  have k: "map fst (e_active e') = map fst (e_active e)" using arg_cong[OF m, of "map fst"] by simp
  have u: "uses act bid = asum (\<lambda>ms. int (count_list ms bid)) (map_vals a_members act)" for act bid
    by (simp add: uses_def asum_map_vals)
  have s: "(\<forall>i a. (i, a) \<in> set act \<longrightarrow> set (a_members a) \<subseteq> K) \<longleftrightarrow>
      (\<forall>i ms. (i, ms) \<in> set (map_vals a_members act) \<longrightarrow> set ms \<subseteq> K)" for act K
    by (force simp: map_vals_def)
  have "counted bs (e_active e') = counted bs (e_active e)" for bs unfolding counted_def u s m ..
  with assms k keys_from_list[OF k] show ?thesis by (simp add: acct_def core_def)
qed

lemma limited_core: "core e' = core e \<Longrightarrow> limited t e' = limited t e"
  using core_limited[of e' e t] acct_core[of e' e] by (simp add: limited_def)


section \<open>The limits are an admission invariant\<close>

lemma within_less:
  "within r b \<Longrightarrow> b_active b' \<le> b_active b \<Longrightarrow> (\<And>x p. recent x p (b_history b') \<le> recent x p (b_history b)) \<Longrightarrow> within r b'"
  unfolding within_def by (meson order_trans)

lemma cleanup_limits:
  assumes "limits e" "keys_distinct (e_buckets e)"
  shows "limits (cleanupLocked now e)"
  unfolding limits_def origin_def
proof (intro conjI allI impI)
  fix bid b assume "map_of (e_buckets (cleanupLocked now e)) bid = Some b"
  then obtain b0 where b0: "map_of (e_buckets e) bid = Some b0" "b = prune_bucket now b0"
    by (auto simp: map_of_cleanup[OF assms(2)] Let_def split: option.splits if_splits)
  have o: "b_rule b0 \<in> set (c_Rules (e_cfg e))" "\<exists>d. bid = bucketID (b_rule b0) d" and w: "within (b_rule b0) b0"
    using assms(1) b0(1) by (auto simp: limits_def origin_def)
  show "b_rule b \<in> set (c_Rules (e_cfg (cleanupLocked now e)))" "\<exists>d. bid = bucketID (b_rule b) d"
    using o b0(2) by (auto simp: prune_bucket_def cleanupLocked_def)
  show "within (b_rule b) b"
    using within_less[OF w, of b] b0(2) by (simp add: prune_bucket_def recent_drop)
qed

lemma drop_limits:
  assumes "limits e"
  shows "limits (drop_record ticket a refund e)"
proof -
  have "e_cfg (drop_record ticket a refund e) = e_cfg e" by (simp add: drop_record_def refund_history_def Let_def)
  moreover have "within (b_rule b) (b\<lparr>b_active := b_active b - int n, b_history := (if refund then remove_ticket ticket (b_history b) else b_history b)\<rparr>)"
    if "within (b_rule b) b" for b n
    using that by (rule within_less) (simp_all add: recent_remove)
  ultimately show ?thesis
    using assms unfolding limits_def origin_def map_of_drop_record by fastforce
qed

lemma admitted_limited:
  assumes lim: "limited now e" and wk: "work_ok request d e"
    and c: "checkWorkLocked request d now e = (e1, mm, nxt, '''', None)"
    and fr: "framed e1 e2" "e_ops e2 = e_ops e1" and g: "grantWorkLocked request d mm now e2 = (p, e3)"
  shows "limited now e3"
proof -
  have ops: "fresh_op request e2 = fresh_op request e"
    using checkWork_only[OF c] fr(2) by (cases "request_op request") (simp_all add: fresh_op_def get_op_def only_buckets_ops)
  obtain x1 x2 where x: "case fresh_op request e of None \<Rightarrow> x1 = e2
     | Some opr \<Rightarrow> \<exists>rp eg. grantLocked (op_identity opr) (fst mm) now e2 = (rp, eg) \<and> framed eg x1"
    "grantLocked d (snd mm) now x1 = (p, x2)" "framed x2 e3"
    by (rule grantWork_E[OF g, unfolded ops])
  have core2: "core e2 = core e1" "core e3 = core x2" using fr(1) x(3) by (auto simp: framed_def)
  have "limited now x2"
    using c
  proof (cases rule: checkWork_E)
    case alone
    then obtain attm n where k: "checkLocked d now False e = (e1, attm, n, '''', None)" "mm = ([], attm)"
      by (auto elim!: checkAttempt_E)
    have "limited now e2" "admits now e2 attm"
      using checkLocked_limited[OF lim k(1)] checkLocked_admits[OF lim k(1)] core2(1) limited_core core_limited by metis+
    then show ?thesis using grantLocked_limited x(1,2) alone(1) k(2) by simp
  next
    case (both opr y reqm first)
    then obtain attm n where k: "checkLocked d now False y = (e1, attm, n, '''', None)" "mm = (reqm, attm)"
      by (auto elim!: checkAttempt_E)
    have ly: "limited now y" using lim both(2) by (rule checkLocked_limited)
    have l1: "limited now e1" using ly k(1) by (rule checkLocked_limited)
    have cfg: "e_cfg e1 = e_cfg y" using checkLocked_only[OF k(1)] by (simp add: only_buckets_ops)
    have ext: "bs_ext (e_buckets y) (e_buckets e1)"
      using checkLocked_ext[OF k(1)] ly by (simp add: limited_def acct_def)
    have ok: "running_policy (e_cfg y)" "origin (c_Rules (e_cfg y)) (e_buckets y)" "origin (c_Rules (e_cfg y)) (e_buckets e1)"
      using ly l1 cfg by (auto simp: limited_def limits_def)
    have ar: "admits now e1 reqm" and sr: "of_stage e1 (d_Stage (op_identity opr)) reqm"
      using checkLocked_admits[OF lim both(2)] admits_ext[OF ok(1) cfg ext ok(2,3)] cfg by (auto simp: of_stage_def)
    have at: "admits now e1 attm" and sa: "of_stage e1 (d_Stage d) attm" using checkLocked_admits[OF ly k(1)] by auto
    have "d_Stage (op_identity opr) = Request \<and> d_Stage d = Attempt"
      using wk both(1) by (auto simp: work_ok_def fresh_op_def op_ids_def split: option.splits if_splits)
    then have dj: "set reqm \<inter> set attm = {}"
      using stages_disjoint[OF _ sr sa] ok(1) cfg by simp
    obtain rp eg where eg: "grantLocked (op_identity opr) reqm now e2 = (rp, eg)" "framed eg x1"
      using x(1) both(1) k(2) by auto
    have "limited now e2" "admits now e2 reqm" "admits now e2 attm"
      using l1 ar at core2(1) limited_core core_limited by metis+
    then have "limited now eg" "admits now eg attm"
      using grantLocked_limited[OF _ _ eg(1)] admits_grant_other[OF _ dj eg(1)] by auto
    then have "limited now x1" "admits now x1 attm"
      using eg(2) limited_core core_limited unfolding framed_def by metis+
    then show ?thesis using grantLocked_limited x(2) k(2) by simp
  qed auto
  then show ?thesis using core2(2) limited_core by metis
qed

interpretation running: admission_invariant limited
proof
  show "limited t' e" if "limited t e" "t \<le> t'" for t t' e
    using that hist_ok_mono by (auto simp: limited_def)
  show "limited t e'" if "limited t e" "core e' = core e" for t e e' using that limited_core by metis
  show "limited t (cleanupLocked now e)" if "limited t e" for t now e
  proof -
    have kd: "keys_distinct (e_buckets e)" using that by (simp add: limited_def acct_def)
    have "e_cfg (cleanupLocked now e) = e_cfg e" by (simp add: cleanupLocked_def)
    then show ?thesis using that cleanupLocked_acct cleanupLocked_hist[OF _ kd] cleanup_limits[OF _ kd]
      unfolding limited_def by simp
  qed
  show "limited t (drop_record ticket a refund e)" if "limited t e" "map_of (e_active e) ticket = Some a" for t e ticket a refund
  proof -
    have "e_cfg (drop_record ticket a refund e) = e_cfg e" by (simp add: drop_record_def refund_history_def Let_def)
    then show ?thesis using that drop_record_acct drop_record_hist drop_limits unfolding limited_def by simp
  qed
  show "limited now e1" if "limited now e" "checkLocked d now wm e = (e1, ms, nxt, bl, er)" for now e d wm e1 ms nxt bl er
    using that by (rule checkLocked_limited)
  show "limited now e3" if "limited now e" "work_ok request d e"
    "checkWorkLocked request d now e = (e1, mm, nxt, '''', None)" "framed e1 e2" "e_ops e2 = e_ops e1"
    "grantWorkLocked request d mm now e2 = (p, e3)" for now e request d e1 mm nxt e2 p e3
    using that by (rule admitted_limited)
qed


section \<open>The state stays within its bounds\<close>

definition bounded :: "gtime \<Rightarrow> engine \<Rightarrow> bool" where
  "bounded t e \<longleftrightarrow> int (length (e_buckets e)) \<le> c_MaxBuckets (e_cfg e) \<and>
     e_historyCount e \<le> c_MaxHistory (e_cfg e) \<and> int (length (e_active e)) \<le> 100000"

lemma length_touch: "length (touch d r bs) = (if map_of bs (bucketID r d) = None then Suc (length bs) else length bs)"
  by (auto simp: touch_def Let_def split: option.splits)

lemma check_rules_length:
  "check_rules d now wm mb rs bs ms nxt bl = (bs', res) \<Longrightarrow> int (length bs) \<le> mb \<Longrightarrow> int (length bs') \<le> mb"
proof (induction rs arbitrary: bs ms nxt bl)
  case (Cons r rs)
  then show ?case
    by (auto simp: check_rules_Cons Let_def length_touch split: if_splits prod.splits)
qed simp

lemma checkLocked_bounded:
  assumes "bounded now e" "checkLocked d now wm e = (e1, ms, nxt, bl, er)"
  shows "bounded now e1"
proof -
  obtain ms0 er0 bl0 where "check_rules d now wm (c_MaxBuckets (e_cfg e)) (c_Rules (e_cfg e)) (e_buckets e) [] 0 ''''
      = (e_buckets e1, ms0, nxt, bl0, er0)" using checkLocked_rules[OF assms(2)] by metis
  then have "int (length (e_buckets e1)) \<le> c_MaxBuckets (e_cfg e)"
    using check_rules_length assms(1) by (auto simp: bounded_def)
  with assms(1) only_buckets_ops[OF checkLocked_only[OF assms(2)]] show ?thesis by (simp add: bounded_def)
qed

lemma has_windows_grant [simp]: "has_windows (grant_member now ticket m e) = has_windows e"
  by (auto simp: fun_eq_iff has_windows_def map_of_grant_member granted_bucket_def split: option.splits)

lemma grant_members_count:
  "e_historyCount (fold (grant_member now ticket) ms e) = e_historyCount e + needed_records e ms \<and>
   has_windows (fold (grant_member now ticket) ms e) = has_windows e"
proof (induction ms arbitrary: e)
  case (Cons m ms)
  have "e_historyCount (grant_member now ticket m e) = e_historyCount e + (if has_windows e m then 1 else 0)"
    by (simp add: grant_member_def Let_def)
  with Cons[of "grant_member now ticket m e"] show ?case by (simp add: needed_records_def)
qed (simp add: needed_records_def)

lemma has_windows_seq [simp]: "has_windows (e\<lparr>e_sequence := n\<rparr>) = has_windows e"
  by (simp add: fun_eq_iff has_windows_def)

lemma grantLocked_counts:
  assumes "grantLocked d ms now e = (p, e')"
  shows "e_historyCount e' = e_historyCount e + needed_records e ms" "has_windows e' = has_windows e"
    "length (e_buckets e') = length (e_buckets e)" "length (e_active e') \<le> Suc (length (e_active e))"
proof -
  let ?t = "Suc (e_sequence e)"
  let ?f = "fold (grant_member now ?t) ms (e\<lparr>e_sequence := ?t\<rparr>)"
  have e': "e_buckets e' = e_buckets ?f" "e_historyCount e' = e_historyCount ?f"
    using assms by (auto simp: grantLocked_def Let_def)
  have b: "has_windows ?f = has_windows e" "e_historyCount ?f = e_historyCount e + needed_records e ms"
    using grant_members_count[of now ?t ms "e\<lparr>e_sequence := ?t\<rparr>"] by (simp_all add: needed_records_def)
  show "e_historyCount e' = e_historyCount e + needed_records e ms" using e' b by simp
  have "has_windows e' = has_windows ?f" by (simp add: fun_eq_iff has_windows_def e')
  then show "has_windows e' = has_windows e" using b by simp
  have "map fst (e_buckets ?f) = map fst (e_buckets e)" by simp
  then show "length (e_buckets e') = length (e_buckets e)" unfolding e' by (metis length_map)
  have "length (AList.update k v al) \<le> Suc (length al)" for k :: nat and v :: active and al by (induction al) auto
  then show "length (e_active e') \<le> Suc (length (e_active e))" using assms by (auto simp: grantLocked_def Let_def)
qed

lemma core_bounds:
  assumes "core e' = core e"
  shows "e_historyCount e' = e_historyCount e" "has_windows e' = has_windows e" "e_buckets e' = e_buckets e"
    "length (e_active e') = length (e_active e)" "e_cfg e' = e_cfg e"
proof -
  show "e_historyCount e' = e_historyCount e" "e_buckets e' = e_buckets e" "e_cfg e' = e_cfg e"
    using assms by (auto simp: core_def)
  then show "has_windows e' = has_windows e" by (simp add: fun_eq_iff has_windows_def)
  show "length (e_active e') = length (e_active e)"
    using assms unfolding core_def by (metis length_map_vals prod.inject)
qed

lemma needed_cong: "has_windows e' = has_windows e \<Longrightarrow> needed_records e' ms = needed_records e ms"
  by (simp add: needed_records_def)

lemma needed_nonneg: "0 \<le> needed_records e ms"
  by (simp add: needed_records_def)

text \<open>A grant between two frame steps.\<close>

lemma grant_chain:
  assumes "core x = core a" "grantLocked d ms now x = (p, y)" "core z = core y"
  shows "e_historyCount z = e_historyCount a + needed_records a ms" "has_windows z = has_windows a"
    "length (e_buckets z) = length (e_buckets a)" "length (e_active z) \<le> Suc (length (e_active a))" "e_cfg z = e_cfg a"
proof -
  note s1 = core_bounds[OF assms(1)] and s2 = grantLocked_counts[OF assms(2)] and s3 = core_bounds[OF assms(3)]
  have n: "needed_records x ms = needed_records a ms" using s1(2) by (rule needed_cong)
  show "e_historyCount z = e_historyCount a + needed_records a ms" unfolding s3(1) s2(1) s1(1) n ..
  show "has_windows z = has_windows a" unfolding s3(2) s2(2) s1(2) ..
  show "length (e_buckets z) = length (e_buckets a)" unfolding s3(3) s2(3) s1(3) ..
  show "length (e_active z) \<le> Suc (length (e_active a))" using s2(4) unfolding s3(4) s1(4) .
  show "e_cfg z = e_cfg a" unfolding s3(5) grantLocked_cfg[OF assms(2)] s1(5) ..
qed

lemma admitted_bounded:
  assumes bd: "bounded now e"
    and c: "checkWorkLocked request d now e = (e1, mm, nxt, '''', None)"
    and fr: "framed e1 e2" "e_ops e2 = e_ops e1" and g: "grantWorkLocked request d mm now e2 = (p, e3)"
  shows "bounded now e3"
proof -
  have ops: "fresh_op request e2 = fresh_op request e"
    using checkWork_only[OF c] fr(2) by (cases "request_op request") (simp_all add: fresh_op_def get_op_def only_buckets_ops)
  obtain x1 x2 where x: "case fresh_op request e of None \<Rightarrow> x1 = e2
     | Some opr \<Rightarrow> \<exists>rp eg. grantLocked (op_identity opr) (fst mm) now e2 = (rp, eg) \<and> framed eg x1"
    "grantLocked d (snd mm) now x1 = (p, x2)" "framed x2 e3"
    by (rule grantWork_E[OF g, unfolded ops])
  have cores: "core e2 = core e1" "core e3 = core x2" using fr(1) x(3) by (auto simp: framed_def)
  from c show ?thesis
  proof (cases rule: checkWork_E)
    case alone
    then obtain attm n where k: "checkLocked d now False e = (e1, attm, n, '''', None)" "mm = ([], attm)"
      "int (length (e_active e1)) + 1 \<le> 100000" "e_historyCount e1 + needed_records e1 attm \<le> c_MaxHistory (e_cfg e1)"
      by (auto elim!: checkAttempt_E simp: needed_records_def)
    have b1: "bounded now e1" using bd k(1) by (rule checkLocked_bounded)
    have "grantLocked d attm now e2 = (p, x2)" using x(1,2) alone k(2) by simp
    from grant_chain[OF cores(1) this cores(2)] k(3,4) b1 show ?thesis by (simp add: bounded_def)
  next
    case (both opr y reqm first)
    then obtain attm n where k: "checkLocked d now False y = (e1, attm, n, '''', None)" "mm = (reqm, attm)"
      "int (length (e_active e1)) + 2 \<le> 100000"
      "e_historyCount e1 + (needed_records e1 reqm + needed_records e1 attm) \<le> c_MaxHistory (e_cfg e1)"
      by (auto elim!: checkAttempt_E)
    have b1: "bounded now e1" using checkLocked_bounded[OF checkLocked_bounded[OF bd both(2)] k(1)] .
    obtain rp eg where eg: "grantLocked (op_identity opr) reqm now e2 = (rp, eg)" "framed eg x1"
      using x(1) both(1) k(2) by auto
    have cx: "core x1 = core eg" using eg(2) by (simp add: framed_def)
    have g2: "grantLocked d attm now x1 = (p, x2)" using x(2) k(2) by simp
    note r = grant_chain[OF cores(1) eg(1) cx] and t = grant_chain[OF refl g2 cores(2)]
    have "e_historyCount e3 = e_historyCount e1 + (needed_records e1 reqm + needed_records e1 attm)"
      using t(1) r(1) needed_cong[OF r(2)] by simp
    then show ?thesis using r(3-5) t(3-5) k(3,4) b1 by (simp add: bounded_def)
  qed auto
qed

lemma asum_nonneg_fun: "(\<And>v. 0 \<le> g v) \<Longrightarrow> 0 \<le> asum g al"
  by (rule asum_nonneg) simp

lemma length_remove_ticket: "length (remove_ticket ticket h) \<le> length h"
  by (induction h) auto

lemma drop_members_length:
  "length (fold (\<lambda>m. adjust m (\<lambda>b. b\<lparr>b_active := b_active b - 1\<rparr>)) ms bs) = length bs"
  by (induction ms arbitrary: bs) auto

interpretation sized: admission_invariant bounded
proof
  show "bounded t' e" if "bounded t e" "t \<le> t'" for t t' e using that by (simp add: bounded_def)
  show "bounded t e'" if "bounded t e" "core e' = core e" for t e e'
    using that core_bounds[OF that(2)] by (simp add: bounded_def)
  show "bounded t (cleanupLocked now e)" if "bounded t e" for t now e
  proof -
    have "0 \<le> asum (\<lambda>b. int (expired_count now b)) (e_buckets e)" by (rule asum_nonneg_fun) simp
    moreover have "length (e_buckets (cleanupLocked now e)) \<le> length (e_buckets e)"
      using length_filter_le[of _ "map_vals (prune_bucket now) (e_buckets e)"] by (simp add: cleanupLocked_def)
    ultimately show ?thesis using that by (simp add: bounded_def cleanupLocked_def)
  qed
  show "bounded t (drop_record ticket a refund e)" if "bounded t e" "map_of (e_active e) ticket = Some a" for t e ticket a refund
  proof -
    have l: "length (AList.delete ticket (e_active e)) \<le> length (e_active e)" by (simp add: AList.delete_eq)
    note k = drop_members_length
    have nn: "0 \<le> asum (\<lambda>b. int (length (b_history b)) - int (length (remove_ticket ticket (b_history b)))) bs" for bs :: "(string \<times> bucket) list"
      by (rule asum_nonneg_fun) (simp add: length_remove_ticket)
    then have "e_historyCount (drop_record ticket a refund e) \<le> e_historyCount e"
      by (simp add: drop_record_def refund_history_def Let_def)
    moreover have "length (e_buckets (drop_record ticket a refund e)) = length (e_buckets e)"
      "length (e_active (drop_record ticket a refund e)) \<le> length (e_active e)"
      "e_cfg (drop_record ticket a refund e) = e_cfg e"
      using l k by (simp_all add: drop_record_def refund_history_def Let_def)
    ultimately show ?thesis using that by (simp add: bounded_def)
  qed
  show "bounded now e1" if "bounded now e" "checkLocked d now wm e = (e1, ms, nxt, bl, er)" for now e d wm e1 ms nxt bl er
    using that by (rule checkLocked_bounded)
  show "bounded now e3" if "bounded now e"
    "checkWorkLocked request d now e = (e1, mm, nxt, '''', None)" "framed e1 e2" "e_ops e2 = e_ops e1"
    "grantWorkLocked request d mm now e2 = (p, e3)" for now e request d e1 mm nxt e2 p e3
    using that by (rule admitted_bounded)
qed


section \<open>Tickets\<close>

text \<open>Every recorded admission carries a ticket that was issued.\<close>

definition ticketed :: "gtime \<Rightarrow> engine \<Rightarrow> bool" where
  "ticketed t e \<longleftrightarrow> keys_distinct (e_buckets e) \<and>
     (\<forall>bid b. map_of (e_buckets e) bid = Some b \<longrightarrow> (\<forall>x\<in>set (b_history b). ev_ticket x \<le> e_sequence e))"

lemma ticketed_core: "core e' = core e \<Longrightarrow> ticketed t e' = ticketed t' e"
  by (simp add: ticketed_def core_def)

lemma ticketed_check:
  assumes "ticketed t e" "checkLocked d now wm e = (e1, ms, nxt, bl, er)"
  shows "ticketed t e1"
proof -
  have x: "bs_ext (e_buckets e) (e_buckets e1)" using checkLocked_ext[OF assms(2)] assms(1) by (simp add: ticketed_def)
  have "ev_ticket y \<le> e_sequence e" if b: "map_of (e_buckets e1) bid = Some b" and y: "y \<in> set (b_history b)" for bid b y
    using bs_extD[OF x b] y assms(1) by (cases "map_of (e_buckets e) bid") (auto simp: ticketed_def)
  then show ?thesis using x only_buckets_ops[OF checkLocked_only[OF assms(2)]] by (auto simp: ticketed_def bs_ext_def)
qed

lemma ticketed_grant:
  assumes "ticketed t e" "grantLocked d ms now e = (p, e')"
  shows "ticketed t e'"
proof -
  have "e_sequence e' = Suc (e_sequence e)" "map fst (e_buckets e') = map fst (e_buckets e)"
    using assms(2) by (auto simp: grantLocked_def Let_def)
  with assms(1) show ?thesis
    unfolding ticketed_def grantLocked_buckets[OF assms(2)] by (auto simp: granted_bucket_def le_Suc_eq)
qed

interpretation issued: admission_invariant ticketed
proof
  show "ticketed t' e" if "ticketed t e" for t t' e using that ticketed_core[of e e] by blast
  show "ticketed t e'" if "ticketed t e" "core e' = core e" for t e e' using that ticketed_core by blast
  show "ticketed t (cleanupLocked now e)" if "ticketed t e" for t now e
  proof -
    have kd: "keys_distinct (e_buckets e)" using that by (simp add: ticketed_def)
    have s: "e_sequence (cleanupLocked now e) = e_sequence e" "keys_distinct (e_buckets (cleanupLocked now e))"
      using kd by (simp_all add: cleanupLocked_def keys_distinct_filter)
    have "ev_ticket x \<le> e_sequence e"
      if mb: "map_of (e_buckets (cleanupLocked now e)) bid = Some b" and x: "x \<in> set (b_history b)" for bid b x
    proof -
      obtain b0 where "map_of (e_buckets e) bid = Some b0" "b = prune_bucket now b0"
        using mb by (auto simp: map_of_cleanup[OF kd] Let_def split: option.splits if_splits)
      then show ?thesis using x \<open>ticketed t e\<close> by (auto simp: ticketed_def prune_bucket_def dest: in_set_dropD)
    qed
    then show ?thesis using s by (auto simp: ticketed_def)
  qed
  show "ticketed t (drop_record ticket a refund e)" if "ticketed t e" for t e ticket a refund
  proof -
    have s: "e_sequence (drop_record ticket a refund e) = e_sequence e"
      "map fst (e_buckets (drop_record ticket a refund e)) = map fst (e_buckets e)"
      by (simp_all add: drop_record_def refund_history_def Let_def)
    then show ?thesis using that remove_ticket_subset
      unfolding ticketed_def map_of_drop_record s by (fastforce split: if_splits)
  qed
  show "ticketed now e1" if "ticketed now e" "checkLocked d now wm e = (e1, ms, nxt, bl, er)" for now e d wm e1 ms nxt bl er
    using that by (rule ticketed_check)
  show "ticketed now e3" if tk: "ticketed now e" and c: "checkWorkLocked request d now e = (e1, mm, nxt, '''', None)"
    and fr: "framed e1 e2" and g: "grantWorkLocked request d mm now e2 = (p, e3)" for now e request d e1 mm nxt e2 p e3
  proof -
    have "ticketed now e1"
      using c by (cases rule: checkWork_E) (auto elim!: checkAttempt_E intro: ticketed_check[OF tk] ticketed_check[OF ticketed_check[OF tk]] tk)
    then have t2: "ticketed now e2" using fr ticketed_core by (auto simp: framed_def)
    obtain x1 x2 where x: "case fresh_op request e2 of None \<Rightarrow> x1 = e2
       | Some opr \<Rightarrow> \<exists>rp eg. grantLocked (op_identity opr) (fst mm) now e2 = (rp, eg) \<and> framed eg x1"
      "grantLocked d (snd mm) now x1 = (p, x2)" "framed x2 e3" by (rule grantWork_E[OF g])
    have fr2: "ticketed now b" if "ticketed now a" "framed a b" for a b
      using that ticketed_core[of b a now now] by (simp add: framed_def)
    have "ticketed now x1" using x(1) t2 by (cases "fresh_op request e2") (auto intro: fr2[OF ticketed_grant[OF t2]])
    then show ?thesis using fr2[OF ticketed_grant[OF _ x(2)] x(3)] by blast
  qed
qed

text \<open>The policy itself stays.\<close>

interpretation policy: admission_invariant "\<lambda>_ e. e_cfg e = c" for c
proof
  show "e_cfg e' = c" if "e_cfg e = c" "core e' = core e" for e e' using that by (simp add: core_def)
  show "e_cfg (cleanupLocked now e) = c" if "e_cfg e = c" for now e
    using that cleanup_evolves by (simp add: evolves_def)
  show "e_cfg (drop_record ticket a refund e) = c" if "e_cfg e = c" "map_of (e_active e) ticket = Some a" for e ticket a refund
    using that drop_record_evolves by (simp add: evolves_def)
  show "e_cfg e1 = c" if "e_cfg e = c" "checkLocked d now wm e = (e1, ms, nxt, bl, er)" for now e d wm e1 ms nxt bl er
    using that(1) only_buckets_ops[OF checkLocked_only[OF that(2)]] by simp
  show "e_cfg e3 = c" if "e_cfg e = c" "checkWorkLocked request d now e = (e1, mm, nxt, '''', None)" "framed e1 e2"
    "grantWorkLocked request d mm now e2 = (p, e3)" for now e request d e1 mm nxt e2 p e3
  proof -
    have "evolves e e3"
      using evolves_trans[OF only_buckets_evolves[OF checkWork_only[OF that(2)]]]
        evolves_trans[OF framed_evolves[OF that(3)] grantWork_evolves[OF that(4)]] by blast
    then show ?thesis using that(1) by (simp add: evolves_def)
  qed
qed

section \<open>Reachable states\<close>

definition flow_inv :: "Config \<Rightarrow> engine \<times> gtime \<Rightarrow> bool" where
  "flow_inv cfg = (\<lambda>(e, t). limited t e \<and> bounded t e \<and> ticketed t e \<and> e_cfg e = Effective cfg \<and> queue_work e)"

interpretation machine: inductive_invariant "flow_init cfg" flow_step "flow_inv cfg" for cfg
proof
  fix s assume i: "flow_init cfg s"
  obtain e t where s: "s = (e, t)" by (cases s)
  obtain self where n: "New self cfg = Inr e" "c_Enabled cfg" using i s by (auto simp: flow_init_def)
  then have v: "Validate cfg = None" by (simp add: New_def split: option.splits)
  have ok: "policy_ok (Effective cfg)" using v n(2) by (rule Validate_sound)
  have e: "e_cfg e = Effective cfg" "e_buckets e = []" "e_active e = []" "e_queue e = []" "e_historyCount e = 0"
    using n(1) v by (auto simp: New_def)
  have "limited t e"
    using ok e by (simp add: limited_def running_policy_def Effective_idem acct_def hist_total_def counted_def
        hist_ok_def limits_def origin_def)
  moreover have "bounded t e" using ok e by (simp add: bounded_def policy_ok_def)
  moreover have "ticketed t e" using e by (simp add: ticketed_def)
  ultimately show "flow_inv cfg s" using e s by (simp add: flow_inv_def queue_work_def)
next
  fix s s' assume inv: "flow_inv cfg s" and st: "flow_step s s'"
  obtain e t e' t' where s: "s = (e, t)" "s' = (e', t')" by (cases s, cases s')
  note step = st[unfolded s]
  have "running.inv t e" "sized.inv t e" "issued.inv t e" "policy.inv (Effective cfg) t e"
    using inv s by (simp_all add: flow_inv_def running.inv_def sized.inv_def issued.inv_def policy.inv_def)
  then have "running.inv t' e'" "sized.inv t' e'" "issued.inv t' e'" "policy.inv (Effective cfg) t' e'"
    using running.step_keeps[OF step] sized.step_keeps[OF step] issued.step_keeps[OF step] policy.step_keeps[OF step] by auto
  then show "flow_inv cfg s'" using s by (simp add: flow_inv_def running.inv_def sized.inv_def issued.inv_def policy.inv_def)
qed

end
