(* ===== verification/FlowQueue.thy ===== *)
theory FlowQueue
  imports FlowMachine
begin

text \<open>
  The waiting queue of the admission engine: its byte account, its configured bounds, and that a
  dispatch settles exactly the waiters it takes out (none is lost, the canceled and the expired
  with the error the code gives them).
\<close>

section \<open>The queue during a dispatch\<close>

definition live_bytes :: "waiter list \<Rightarrow> int" where
  "live_bytes q = sum_list (map wt_bytes (filter (\<lambda>w. \<not> wt_finished w) q))"

definition q_ok :: "engine \<Rightarrow> bool" where
  "q_ok e \<longleftrightarrow> distinct (map wt_id (e_queue e)) \<and> e_queueBytes e = live_bytes (e_queue e) \<and>
     (\<forall>w\<in>set (e_queue e). wt_id w \<le> e_activitySequence e \<and> 0 \<le> wt_bytes w)"

text \<open>What of a waiter never changes while it is queued, and what stays once it is settled.\<close>

definition same_waiter :: "waiter \<Rightarrow> waiter \<Rightarrow> bool" where
  "same_waiter w v \<longleftrightarrow> wt_id v = wt_id w \<and> wt_bytes v = wt_bytes w \<and> wt_deadline v = wt_deadline w \<and>
     wt_parent v = wt_parent w \<and> wt_identity v = wt_identity w \<and> wt_request v = wt_request w \<and>
     (wt_finished w \<longrightarrow> wt_finished v \<and> wt_permit v = wt_permit w \<and> wt_err v = wt_err w)"

definition marks :: "engine \<Rightarrow> engine \<Rightarrow> bool" where
  "marks e e' \<longleftrightarrow> (q_ok e \<longrightarrow> q_ok e' \<and> list_all2 same_waiter (e_queue e) (e_queue e') \<and> e_settled e' = e_settled e \<and>
     e_activitySequence e' = e_activitySequence e)"

lemma same_waiter_refl [simp]: "same_waiter w w" by (simp add: same_waiter_def)
lemma same_waiter_trans: "same_waiter a b \<Longrightarrow> same_waiter b c \<Longrightarrow> same_waiter a c" by (auto simp: same_waiter_def)

lemma marks_refl [simp]: "marks e e" by (simp add: marks_def list_all2_same)

lemma marks_trans: "marks a b \<Longrightarrow> marks b c \<Longrightarrow> marks a c"
  unfolding marks_def by (auto intro: list_all2_trans[of same_waiter same_waiter same_waiter] dest: same_waiter_trans)

lemma marks_same:
  assumes "e_queue e' = e_queue e" "e_settled e' = e_settled e" "e_activitySequence e' = e_activitySequence e"
    "e_queueBytes e' = e_queueBytes e"
  shows "marks e e'"
  using assms by (simp add: marks_def list_all2_same q_ok_def)

lemma same_waiter_ids: "list_all2 same_waiter q q' \<Longrightarrow> map wt_id q' = map wt_id q \<and> map wt_bytes q' = map wt_bytes q"
  by (induction rule: list_all2_induct) (auto simp: same_waiter_def)

lemma list_all2_map_upd: "(\<And>w. same_waiter w (g w)) \<Longrightarrow> list_all2 same_waiter q (map g q)"
  by (induction q) auto

lemma live_bytes_map:
  assumes "\<And>w. wt_finished (g w) = wt_finished w \<and> wt_bytes (g w) = wt_bytes w"
  shows "live_bytes (map g q) = live_bytes q"
  using assms by (induction q) (auto simp: live_bytes_def)

lemma q_ok_transfer:
  assumes "q_ok e" "list_all2 same_waiter (e_queue e) (e_queue e')" "e_queueBytes e' = live_bytes (e_queue e')"
    "e_activitySequence e' = e_activitySequence e"
  shows "q_ok e'"
proof -
  have "\<forall>v\<in>set (e_queue e'). wt_id v \<le> e_activitySequence e' \<and> 0 \<le> wt_bytes v"
  proof
    fix v assume "v \<in> set (e_queue e')"
    then obtain w where "w \<in> set (e_queue e)" "same_waiter w v"
      using assms(2) by (metis list_all2_conv_all_nth in_set_conv_nth)
    with assms(1,4) show "wt_id v \<le> e_activitySequence e' \<and> 0 \<le> wt_bytes v" by (auto simp: q_ok_def same_waiter_def)
  qed
  with assms same_waiter_ids[OF assms(2)] show ?thesis by (simp add: q_ok_def)
qed

lemma note_marks:
  assumes "\<And>v. wt_id (f v) = wt_id v \<and> wt_bytes (f v) = wt_bytes v \<and> wt_deadline (f v) = wt_deadline v \<and>
    wt_parent (f v) = wt_parent v \<and> wt_identity (f v) = wt_identity v \<and> wt_request (f v) = wt_request v \<and>
    wt_finished (f v) = wt_finished v \<and> wt_permit (f v) = wt_permit v \<and> wt_err (f v) = wt_err v"
  shows "marks e (upd_waiter i f e)"
proof -
  let ?g = "\<lambda>w. if wt_id w = i then f w else w"
  have l: "list_all2 same_waiter (e_queue e) (map ?g (e_queue e))"
    by (rule list_all2_map_upd) (use assms in \<open>simp add: same_waiter_def\<close>)
  have b: "live_bytes (map ?g (e_queue e)) = live_bytes (e_queue e)" by (rule live_bytes_map) (use assms in simp)
  have "q_ok (upd_waiter i f e)" if "q_ok e"
    by (rule q_ok_transfer[OF that]) (use that l b in \<open>simp_all add: upd_waiter_def q_ok_def\<close>)
  with l show ?thesis by (simp add: marks_def upd_waiter_def)
qed

lemma charge_wait_queue [simp]:
  "e_queue (charge_wait now w e) = e_queue e" "e_settled (charge_wait now w e) = e_settled e"
  "e_activitySequence (charge_wait now w e) = e_activitySequence e" "e_cfg (charge_wait now w e) = e_cfg e"
  "e_queueBytes (charge_wait now w e) = e_queueBytes e" "e_closed (charge_wait now w e) = e_closed e"
  by (simp_all add: charge_wait_def upd_op_def split: option.splits)

lemma live_bytes_settle:
  assumes "distinct (map wt_id q)" "w \<in> set q" "\<not> wt_finished w"
  shows "live_bytes (map (\<lambda>v. if wt_id v = wt_id w then v\<lparr>wt_finished := True, wt_permit := p, wt_err := er\<rparr> else v) q)
     = live_bytes q - wt_bytes w"
  using assms
proof (induction q)
  case (Cons x q)
  let ?g = "\<lambda>v. if wt_id v = wt_id w then v\<lparr>wt_finished := True, wt_permit := p, wt_err := er\<rparr> else v"
  show ?case
  proof (cases "x = w")
    case True
    then have "\<forall>v\<in>set q. wt_id v \<noteq> wt_id w" using Cons.prems(1) by (simp add: image_iff) metis
    then have "map ?g q = q" by (simp add: map_idI)
    with True Cons.prems(3) show ?thesis by (simp add: live_bytes_def)
  next
    case False
    then have "wt_id x \<noteq> wt_id w" "w \<in> set q" using Cons.prems(1,2) by force+
    with Cons show ?thesis by (simp add: live_bytes_def)
  qed
qed simp

lemma settle_marks: "marks e (settleWaiterLocked i p er now e)"
  unfolding marks_def
proof
  assume ok: "q_ok e"
  show "q_ok (settleWaiterLocked i p er now e) \<and> list_all2 same_waiter (e_queue e) (e_queue (settleWaiterLocked i p er now e)) \<and>
    e_settled (settleWaiterLocked i p er now e) = e_settled e \<and>
    e_activitySequence (settleWaiterLocked i p er now e) = e_activitySequence e"
  proof (cases "\<exists>w. find_waiter e i = Some w \<and> \<not> wt_finished w")
    case False
    then have "settleWaiterLocked i p er now e = e" by (auto simp: settleWaiterLocked_def split: option.splits)
    with ok show ?thesis by (simp add: list_all2_same)
  next
    case True
    then obtain w where w: "find_waiter e i = Some w" "w \<in> set (e_queue e)" "wt_id w = i" "\<not> wt_finished w"
      using find_waiter_work by blast
    let ?g = "\<lambda>v. if wt_id v = i then v\<lparr>wt_finished := True, wt_permit := p, wt_err := er\<rparr> else v"
    let ?e = "settleWaiterLocked i p er now e"
    have q: "e_queue ?e = map ?g (e_queue e)" "e_queueBytes ?e = e_queueBytes e - wt_bytes w"
      "e_settled ?e = e_settled e" "e_activitySequence ?e = e_activitySequence e"
      using w by (simp_all add: settleWaiterLocked_def upd_waiter_def)
    have d: "distinct (map wt_id (e_queue e))" using ok by (simp add: q_ok_def)
    have one: "v = w" if "v \<in> set (e_queue e)" "wt_id v = i" for v
      using that w(2,3) distinct_map_inj[OF d] by blast
    have "same_waiter v (?g v)" if "v \<in> set (e_queue e)" for v
      using one[OF that] w(4) by (auto simp: same_waiter_def)
    then have l: "list_all2 same_waiter (e_queue e) (e_queue ?e)"
      unfolding q by (simp add: list_all2_conv_all_nth)
    have "q_ok ?e"
      by (rule q_ok_transfer[OF ok l]) (use ok live_bytes_settle[OF d w(2,4), where p = p and er = er] in \<open>simp_all add: q q_ok_def w(3)\<close>)
    with l show ?thesis by (simp add: q)
  qed
qed

lemma grantLocked_queue:
  assumes "grantLocked d ms now e = (p, e')"
  shows "e_queue e' = e_queue e" "e_settled e' = e_settled e" "e_activitySequence e' = e_activitySequence e"
    "e_queueBytes e' = e_queueBytes e"
  using assms by (auto simp: grantLocked_def Let_def)

lemma upd_op_queue [simp]:
  "e_queue (upd_op i f e) = e_queue e" "e_settled (upd_op i f e) = e_settled e"
  "e_activitySequence (upd_op i f e) = e_activitySequence e" "e_queueBytes (upd_op i f e) = e_queueBytes e"
  "e_cfg (upd_op i f e) = e_cfg e" "e_closed (upd_op i f e) = e_closed e"
  by (simp_all add: upd_op_def)

lemma grantWork_queue:
  assumes "grantWorkLocked request d mm now e = (p, e')"
  shows "e_queue e' = e_queue e \<and> e_settled e' = e_settled e \<and> e_activitySequence e' = e_activitySequence e \<and>
    e_queueBytes e' = e_queueBytes e"
  using assms
  by (auto simp: grantWorkLocked_def Let_def grantLocked_queue split: option.splits prod.splits if_splits)

lemma only_buckets_queue: "only_buckets e e' \<Longrightarrow> e_queue e' = e_queue e \<and> e_settled e' = e_settled e \<and>
    e_activitySequence e' = e_activitySequence e \<and> e_queueBytes e' = e_queueBytes e \<and> e_cfg e' = e_cfg e"
  by (auto simp: only_buckets_def)

interpretation marking: dispatch_invariant "\<lambda>_. marks e0" for e0
proof
  show "marks e0 (settleWaiterLocked i sp se now e)" if "marks e0 e" for now e i sp se
    using that settle_marks by (rule marks_trans)
  show "marks e0 (e\<lparr>e_canceled := n\<rparr>)" "marks e0 (e\<lparr>e_timedOut := n\<rparr>)" "marks e0 (e\<lparr>e_dispatchPending := b\<rparr>)"
    if "marks e0 e" for e n b
    by (rule marks_trans[OF that marks_same]; simp)+
  show n: "marks e0 (note_waiter i nxt bl e)" if "marks e0 e" for e i nxt bl
    unfolding note_waiter_def by (rule marks_trans[OF that note_marks]) simp
  show "marks e0 (upd_waiter i (\<lambda>v. v\<lparr>wt_blocked := bl\<rparr>) e)" if "marks e0 e" for e i bl
    by (rule marks_trans[OF that note_marks]) simp
  show c: "marks e0 e1" if "marks e0 e" "checkWorkLocked (wt_request w) (wt_identity w) now e = (e1, mm, nxt, bl, er)"
    for now e w e1 mm nxt bl er
    using only_buckets_queue[OF checkWork_only[OF that(2)]] by (intro marks_trans[OF that(1) marks_same]) simp_all
  show "marks e0 e3" if "marks e0 e" "checkWorkLocked (wt_request w) (wt_identity w) now e = (e1, mm, nxt, '''', None)"
    "grantWorkLocked (wt_request w) (wt_identity w) mm now (note_waiter i nxt '''' e1) = (p, e3)"
    for now e w e1 mm nxt i p e3
    using grantWork_queue[OF that(3)] by (intro marks_trans[OF n[OF c[OF that(1,2)]] marks_same]) simp_all
qed

lemma dispatch_marks: "marks e (dispatch_marked errs1 errs2 now e)"
  by (rule marking.dispatch_marked_inv) simp

section \<open>The first pass settles the canceled and the expired\<close>

definition scan_error :: "ctx_reads \<Rightarrow> gtime \<Rightarrow> waiter \<Rightarrow> err option" where
  "scan_error errs now w =
     (case errs (wt_id w) of Some ce \<Rightarrow> Some (ECtx ce)
      | None \<Rightarrow> if now \<ge> wt_deadline w then
          (case wt_parent w of
             Some parent \<Rightarrow> if now \<ge> parent then Some (ECtx CtxDeadlineExceeded)
                            else Some (EFlow (flow_err ''flow_control_wait_timeout'' (wt_blocked w) 0))
           | None \<Rightarrow> Some (EFlow (flow_err ''flow_control_wait_timeout'' (wt_blocked w) 0)))
        else None)"

lemma scan_waiter_cases:
  "scan_waiter errs now w (e, ks) =
     (case scan_error errs now w of
        Some x \<Rightarrow> (settleWaiterLocked (wt_id w) None (Some x) now
                    (if errs (wt_id w) = None then e\<lparr>e_timedOut := Suc (e_timedOut e)\<rparr> else e\<lparr>e_canceled := Suc (e_canceled e)\<rparr>), ks)
      | None \<Rightarrow> (e, add_item e (d_Key (wt_identity w)) (wt_id w) ks))"
  by (auto simp: scan_waiter_def scan_error_def Let_def split: option.splits)

definition done_with :: "engine \<Rightarrow> nat \<Rightarrow> err \<Rightarrow> bool" where
  "done_with e i x \<longleftrightarrow> (\<exists>v\<in>set (e_queue e). wt_id v = i \<and> wt_finished v \<and> wt_permit v = None \<and> wt_err v = Some x)"

lemma done_with_marks:
  assumes "marks e e'" "q_ok e" "done_with e i x"
  shows "done_with e' i x"
proof -
  have l: "list_all2 same_waiter (e_queue e) (e_queue e')" using assms(1,2) by (simp add: marks_def)
  obtain v where v: "v \<in> set (e_queue e)" "wt_id v = i \<and> wt_finished v \<and> wt_permit v = None \<and> wt_err v = Some x"
    using assms(3) by (auto simp: done_with_def)
  then obtain k where k: "k < length (e_queue e)" "e_queue e ! k = v" by (auto simp: in_set_conv_nth)
  then have "same_waiter v (e_queue e' ! k)" "k < length (e_queue e')" using l by (auto simp: list_all2_conv_all_nth)
  with v(2) show ?thesis unfolding done_with_def same_waiter_def by (metis nth_mem)
qed

lemma settle_done:
  assumes "v \<in> set (e_queue e)" "wt_id v = i" "\<not> wt_finished v" "q_ok e"
  shows "done_with (settleWaiterLocked i None (Some x) now e) i x"
proof -
  have d: "distinct (map wt_id (e_queue e))" using assms(4) by (simp add: q_ok_def)
  obtain w where w: "find_waiter e i = Some w" using assms(1,2) by (fastforce simp: find_waiter_def find_None_iff)
  then have "w = v" using find_waiter_work assms(1,2) distinct_map_inj[OF d] by metis
  let ?g = "\<lambda>u. if wt_id u = i then u\<lparr>wt_finished := True, wt_permit := None, wt_err := Some x\<rparr> else u"
  have q: "e_queue (settleWaiterLocked i None (Some x) now e) = map ?g (e_queue e)"
    using w \<open>w = v\<close> assms(3) by (simp add: settleWaiterLocked_def upd_waiter_def)
  have "?g v \<in> set (map ?g (e_queue e))" unfolding set_map using assms(1) by (rule imageI)
  then show ?thesis unfolding done_with_def q using assms(2) by (intro bexI[of _ "?g v"]) auto
qed

lemma scan_marks: "marks (fst ek) (fst (fold (scan_waiter errs now) ws ek))"
  by (rule marking.scan_inv) simp

text \<open>After the first pass, every waiter that has to give up has its error.\<close>

lemma scan_settles:
  assumes "q_ok (fst ek)" "set (map wt_id ws) \<subseteq> set (map wt_id (e_queue (fst ek)))" "distinct (map wt_id ws)"
    "\<forall>w\<in>set ws. \<forall>v\<in>set (e_queue (fst ek)). wt_id v = wt_id w \<longrightarrow> \<not> wt_finished v"
    "w \<in> set ws" "scan_error errs now w = Some x"
  shows "done_with (fst (fold (scan_waiter errs now) ws ek)) (wt_id w) x"
  using assms
proof (induction ws arbitrary: ek)
  case (Cons u ws)
  obtain e ks where ek: "ek = (e, ks)" by (cases ek)
  let ?ek = "scan_waiter errs now u ek"
  have m: "marks e (fst ?ek)" using scan_marks[of ek errs now "[u]"] ek by simp
  have ok: "q_ok (fst ?ek)" using m Cons.prems(1) ek by (simp add: marks_def)
  show ?case
  proof (cases "w = u")
    case True
    obtain v where v: "v \<in> set (e_queue e)" "wt_id v = wt_id w" using Cons.prems(2) True ek by auto
    then have nf: "\<not> wt_finished v" using Cons.prems(4) True ek by auto
    have "done_with (fst ?ek) (wt_id w) x"
      unfolding ek scan_waiter_cases using True Cons.prems(1,6) v nf ek
      by (auto intro!: settle_done simp: q_ok_def)
    then show ?thesis using done_with_marks[OF scan_marks ok] by simp
  next
    case False
    then have w: "w \<in> set ws" using Cons.prems(5) by simp
    have l: "list_all2 same_waiter (e_queue e) (e_queue (fst ?ek))" using m Cons.prems(1) ek by (simp add: marks_def)
    have sub: "set (map wt_id ws) \<subseteq> set (map wt_id (e_queue (fst ?ek)))"
      using Cons.prems(2) same_waiter_ids[OF l] ek by (metis fst_conv list.simps(9) set_subset_Cons subset_trans)
    have "\<not> wt_finished v" if y: "y \<in> set ws" and v: "v \<in> set (e_queue (fst ?ek))" "wt_id v = wt_id y" for y v
    proof (cases "scan_error errs now u")
      case None
      then show ?thesis using that Cons.prems(4) by (auto simp: ek scan_waiter_cases)
    next
      case (Some z)
      have "wt_id y \<noteq> wt_id u" using Cons.prems(3) y by (simp add: image_iff) metis
      moreover obtain e' where "fst ?ek = settleWaiterLocked (wt_id u) None (Some z) now e'" "e_queue e' = e_queue e"
        using Some by (cases "errs (wt_id u)") (simp_all add: ek scan_waiter_cases)
      ultimately have "v \<in> set (e_queue e)"
        using v by (auto simp: settleWaiterLocked_def upd_waiter_def split: option.splits if_splits)
      then show ?thesis using Cons.prems(4) y v(2) ek by auto
    qed
    then show ?thesis using Cons.IH[OF ok sub _ _ w Cons.prems(6)] Cons.prems(3) by simp
  qed
qed simp


section \<open>The queue between critical sections\<close>

definition queued_for :: "string \<Rightarrow> waiter list \<Rightarrow> int" where
  "queued_for key q = int (length (filter (\<lambda>w. d_Key (wt_identity w) = key) q))"

definition queue_inv :: "gtime \<Rightarrow> engine \<Rightarrow> bool" where
  "queue_inv t e \<longleftrightarrow> q_ok e \<and> (\<forall>w\<in>set (e_queue e). \<not> wt_finished w) \<and>
     (let q = c_Queue (e_cfg e) in
        (e_queue e = [] \<or> int (length (e_queue e)) \<le> q_MaxWaiting q \<and> e_queueBytes e \<le> q_MaxBytes q \<and>
           (\<forall>key. queued_for key (e_queue e) \<le> q_MaxWaitingPerKey q)))"

definition qview :: "engine \<Rightarrow> waiter list \<times> int \<times> nat \<times> Config" where
  "qview e = (e_queue e, e_queueBytes e, e_activitySequence e, e_cfg e)"

lemma queue_inv_view: "qview e' = qview e \<Longrightarrow> queue_inv t e' = queue_inv t' e"
  by (simp add: qview_def queue_inv_def q_ok_def)

text \<open>A sublist of the waiters, with the bytes that are left, keeps the invariant.\<close>

lemma live_bytes_all: "\<forall>w\<in>set q. \<not> wt_finished w \<Longrightarrow> live_bytes q = sum_list (map wt_bytes q)"
  by (induction q) (auto simp: live_bytes_def)

lemma queue_inv_sub:
  assumes inv: "queue_inv t e" and v: "\<forall>v\<in>set q'. \<not> wt_finished v"
    and s: "e_queue e' = q'" "e_queueBytes e' = live_bytes q'" "e_activitySequence e' = e_activitySequence e" "e_cfg e' = e_cfg e"
    and d: "distinct (map wt_id q')" "\<forall>v\<in>set q'. wt_id v \<le> e_activitySequence e \<and> 0 \<le> wt_bytes v"
    and l: "length q' \<le> length (e_queue e)" "\<And>key. queued_for key q' \<le> queued_for key (e_queue e)"
      "live_bytes q' \<le> e_queueBytes e"
  shows "queue_inv t' e'"
proof -
  have "q_ok e'" using s d by (simp add: q_ok_def)
  moreover have "e_queue e = [] \<Longrightarrow> q' = []" using l(1) by simp
  moreover have "queued_for key q' \<le> q_MaxWaitingPerKey (c_Queue (e_cfg e))" if "e_queue e \<noteq> []" for key
    using inv that l(2)[of key] unfolding queue_inv_def Let_def by (meson order_trans)
  moreover have "int (length q') \<le> q_MaxWaiting (c_Queue (e_cfg e)) \<and> live_bytes q' \<le> q_MaxBytes (c_Queue (e_cfg e))"
    if "e_queue e \<noteq> []" using inv that l(1,3) by (auto simp: queue_inv_def Let_def)
  ultimately show ?thesis using v s by (auto simp: queue_inv_def Let_def)
qed

lemma live_bytes_filter_le:
  assumes "\<forall>w\<in>set q. 0 \<le> wt_bytes w"
  shows "live_bytes (filter P q) \<le> live_bytes q"
  using assms by (induction q) (auto simp: live_bytes_def)

lemma live_bytes_marks:
  assumes "list_all2 same_waiter q q'" "\<forall>w\<in>set q. 0 \<le> wt_bytes w"
  shows "live_bytes q' \<le> live_bytes q"
  using assms by (induction rule: list_all2_induct) (auto simp: live_bytes_def same_waiter_def)

lemma queued_for_filter: "queued_for key (filter P q) \<le> queued_for key q"
  unfolding queued_for_def by (induction q) auto

lemma queued_for_marks: "list_all2 same_waiter q q' \<Longrightarrow> queued_for key q' = queued_for key q"
  unfolding queued_for_def by (induction rule: list_all2_induct) (auto simp: same_waiter_def)

lemma dispatch_marked_cfg: "e_cfg (dispatch_marked errs1 errs2 now e) = e_cfg e"
proof -
  have "evolves e (dispatch_marked errs1 errs2 now e)" by (rule evolution.dispatch_marked_inv) simp
  then show ?thesis by (simp add: evolves_def)
qed

lemma distinct_map_filter_ids: "distinct (map f xs) \<Longrightarrow> distinct (map f (filter P xs))"
  by (induction xs) auto

lemma queue_inv_dispatch:
  assumes inv: "queue_inv t e"
  shows "queue_inv t (dispatchLocked errs1 errs2 now e)"
proof (cases "e_queue e = []")
  case True
  then have "qview (dispatchLocked errs1 errs2 now e) = qview e" by (simp add: dispatchLocked_marked qview_def)
  with inv show ?thesis using queue_inv_view by blast
next
  case False
  let ?m = "dispatch_marked errs1 errs2 now e"
  let ?q = "filter (\<lambda>w. \<not> wt_finished w) (e_queue ?m)"
  have ok: "q_ok e" using inv by (simp add: queue_inv_def)
  have m: "q_ok ?m" "list_all2 same_waiter (e_queue e) (e_queue ?m)" "e_activitySequence ?m = e_activitySequence e"
    using dispatch_marks[of e errs1 errs2 now] ok by (auto simp: marks_def)
  have lq: "live_bytes ?q = live_bytes (e_queue ?m)" by (simp add: live_bytes_def)
  show ?thesis
  proof (rule queue_inv_sub[OF inv])
    show "\<forall>v\<in>set ?q. \<not> wt_finished v" by simp
    show "e_queue (dispatchLocked errs1 errs2 now e) = ?q" using False by (simp add: dispatchLocked_marked compact_queue_def)
    show "e_queueBytes (dispatchLocked errs1 errs2 now e) = live_bytes ?q"
      using False m(1) lq by (simp add: dispatchLocked_marked compact_queue_def q_ok_def)
    show "e_activitySequence (dispatchLocked errs1 errs2 now e) = e_activitySequence e" "e_cfg (dispatchLocked errs1 errs2 now e) = e_cfg e"
      using False m(3) dispatch_marked_cfg by (simp_all add: dispatchLocked_marked compact_queue_def)
    show "distinct (map wt_id ?q)" using m(1) by (simp add: q_ok_def distinct_map_filter_ids)
    show "\<forall>v\<in>set ?q. wt_id v \<le> e_activitySequence e \<and> 0 \<le> wt_bytes v" using m(1,3) by (simp add: q_ok_def)
    show "length ?q \<le> length (e_queue e)" using m(2) by (metis length_filter_le list_all2_lengthD)
    show "queued_for key ?q \<le> queued_for key (e_queue e)" for key
      using queued_for_filter queued_for_marks[OF m(2)] by metis
    show "live_bytes ?q \<le> e_queueBytes e"
      using lq live_bytes_marks[OF m(2)] ok by (simp add: q_ok_def)
  qed
qed

lemma live_bytes_remove:
  assumes "distinct (map wt_id q)" "w \<in> set q" "\<not> wt_finished w"
  shows "live_bytes (filter (\<lambda>v. wt_id v \<noteq> wt_id w) q) = live_bytes q - wt_bytes w"
  using assms
proof (induction q)
  case (Cons x q)
  show ?case
  proof (cases "x = w")
    case True
    then have "\<forall>v\<in>set q. wt_id v \<noteq> wt_id w" using Cons.prems(1) by (simp add: image_iff) metis
    then have "filter (\<lambda>v. wt_id v \<noteq> wt_id w) q = q" by simp
    with True Cons.prems(3) show ?thesis by (simp add: live_bytes_def)
  next
    case False
    then have "wt_id x \<noteq> wt_id w" "w \<in> set q" using Cons.prems(1,2) by (auto simp: image_iff)
    with Cons show ?thesis by (simp add: live_bytes_def)
  qed
qed simp

lemma queue_inv_remove:
  assumes inv: "queue_inv t e"
  shows "queue_inv t (snd (removeWaiterLocked i now e))"
proof (cases "find_waiter e i")
  case None
  with inv show ?thesis by (simp add: removeWaiterLocked_def)
next
  case (Some w)
  let ?q = "filter (\<lambda>v. wt_id v \<noteq> i) (e_queue e)"
  have w: "w \<in> set (e_queue e)" "wt_id w = i" using find_waiter_work[OF Some] by auto
  have ok: "q_ok e" "\<forall>w\<in>set (e_queue e). \<not> wt_finished w" using inv by (auto simp: queue_inv_def)
  have b: "live_bytes ?q = live_bytes (e_queue e) - wt_bytes w"
    using live_bytes_remove[of "e_queue e" w] ok w by (simp add: q_ok_def)
  show ?thesis
  proof (rule queue_inv_sub[OF inv, of ?q])
    show "e_queueBytes (snd (removeWaiterLocked i now e)) = live_bytes ?q"
      using Some b ok(1) by (simp add: removeWaiterLocked_def q_ok_def)
    show "distinct (map wt_id ?q)" using ok(1) by (simp add: q_ok_def distinct_map_filter_ids)
    show "live_bytes ?q \<le> e_queueBytes e" using b ok(1) w(1) by (simp add: q_ok_def)
  qed (use ok Some in \<open>auto simp: removeWaiterLocked_def q_ok_def queued_for_filter\<close>)
qed


lemma queue_inv_enqueue:
  assumes inv: "queue_inv now e" and pl: "0 \<le> payload"
  shows "queue_inv now (snd (enqueue_or_refuse request d payload mayWait parent nxt bl now e))"
proof -
  define r where "r = enqueue_or_refuse request d payload mayWait parent nxt bl now e"
  define q where "q = c_Queue (e_cfg e)"
  consider (refused) "qview (snd r) = qview e"
    | (queued) w where "e_queue (snd r) = e_queue e @ [w]" "e_queueBytes (snd r) = e_queueBytes e + payload"
        "e_activitySequence (snd r) = Suc (e_activitySequence e)" "e_cfg (snd r) = e_cfg e"
        "wt_id w = Suc (e_activitySequence e)" "wt_bytes w = payload" "\<not> wt_finished w" "d_Key (wt_identity w) = d_Key d"
        "int (length (e_queue e)) < q_MaxWaiting q" "queued_for (d_Key d) (e_queue e) < q_MaxWaitingPerKey q"
        "payload \<le> q_MaxBytes q - e_queueBytes e"
  proof -
    have sch: "e_queue (scheduleLocked now x) = e_queue x \<and> e_queueBytes (scheduleLocked now x) = e_queueBytes x \<and>
        e_activitySequence (scheduleLocked now x) = e_activitySequence x \<and> e_cfg (scheduleLocked now x) = e_cfg x" for x
      by (auto simp: scheduleLocked_def Let_def split: list.splits)
    define e1 where "e1 = (case request_op request of None \<Rightarrow> e | Some o' \<Rightarrow> upd_op o' (\<lambda>x. x\<lparr>op_waiting := True\<rparr>) e)"
    have o: "e_queue e1 = e_queue e" "e_queueBytes e1 = e_queueBytes e" "e_activitySequence e1 = e_activitySequence e"
      "e_cfg e1 = e_cfg e" by (simp_all add: e1_def split: option.splits)
    show ?thesis
    proof (cases "\<exists>i. fst r = Enqueued i")
      case False
      then show ?thesis
        by (intro refused) (auto simp: r_def enqueue_or_refuse_def Let_def qview_def split: if_splits)
    next
      case True
      then have c: "int (length (e_queue e)) < q_MaxWaiting q" "queued_for (d_Key d) (e_queue e) < q_MaxWaitingPerKey q"
        "payload \<le> q_MaxBytes q - e_queueBytes e"
        by (auto simp: r_def enqueue_or_refuse_def Let_def queued_for_def q_def not_le not_less split: if_splits)
      obtain w n where w: "snd r = scheduleLocked now (e1\<lparr>e_activitySequence := Suc (e_activitySequence e),
          e_queue := e_queue e1 @ [w], e_queueBytes := e_queueBytes e1 + payload, e_waited := n\<rparr>)"
        "wt_id w = Suc (e_activitySequence e)" "wt_bytes w = payload" "\<not> wt_finished w" "wt_identity w = d"
        using True unfolding r_def enqueue_or_refuse_def Let_def e1_def[symmetric] by (auto split: if_splits)
      then show ?thesis using c sch o by (intro queued[of w]) simp_all
    qed
  qed
  then have "queue_inv now (snd r)"
  proof cases
    case refused
    with inv show ?thesis using queue_inv_view by blast
  next
    case queued
    have ids: "\<forall>w\<in>set (e_queue e). wt_id w \<le> e_activitySequence e" using inv by (simp add: queue_inv_def q_ok_def)
    have "q_ok (snd r)"
      using inv pl queued ids by (auto simp: queue_inv_def q_ok_def live_bytes_def image_iff le_Suc_eq)
    moreover have "queued_for key (e_queue (snd r)) \<le> q_MaxWaitingPerKey q" for key
    proof (cases "key = d_Key d")
      case True
      with queued show ?thesis by (simp add: queued_for_def)
    next
      case False
      have "e_queue e = [] \<Longrightarrow> 0 \<le> q_MaxWaitingPerKey q" using queued(10) by (simp add: queued_for_def)
      with False queued inv show ?thesis by (fastforce simp: queued_for_def queue_inv_def Let_def q_def)
    qed
    ultimately show ?thesis using inv queued by (auto simp: queue_inv_def Let_def q_def)
  qed
  then show ?thesis by (simp add: r_def)
qed

lemma releaseRecord_view: "qview (releaseRecordLocked ticket refund e) = qview e"
  by (rule releaseRecordLocked_keeps[where P = "\<lambda>x. qview x = qview e"])
    (simp_all add: qview_def drop_record_def refund_history_def Let_def)

interpretation queue: engine_invariant queue_inv
proof
  have view: "queue_inv t e'" if "queue_inv t e" "qview e' = qview e" for t e e'
    using that queue_inv_view by blast
  show "queue_inv t' e" if "queue_inv t e" for t t' e using that queue_inv_view by blast
  show "queue_inv t (cleanupLocked now e)" if "queue_inv t e" for t e now
    by (rule view[OF that]) (simp add: qview_def cleanupLocked_def)
  show "queue_inv t (releaseRecordLocked ticket refund e)" if "queue_inv t e" for t e ticket refund
    by (rule view[OF that releaseRecord_view])
  show "queue_inv now (dispatchLocked errs1 errs2 now e)" if "queue_inv now e" for now e errs1 errs2
    using that by (rule queue_inv_dispatch)
  show "queue_inv t (scheduleLocked now e)" if "queue_inv t e" for t e now
    by (rule view[OF that]) (auto simp: qview_def scheduleLocked_def Let_def split: list.splits)
  show "queue_inv t (snd (removeWaiterLocked i now e))" if "queue_inv t e" for t e i now
    using that by (rule queue_inv_remove)
  show "queue_inv t (upd_op i f e)" "queue_inv t (e\<lparr>e_canceled := n\<rparr>)" "queue_inv t (e\<lparr>e_rejected := n\<rparr>)"
    "queue_inv t (e\<lparr>e_settled := ws\<rparr>)" "queue_inv t (e\<lparr>e_closed := b\<rparr>)"
    "queue_inv t (e\<lparr>e_timer := tm, e_timerGeneration := n\<rparr>)"
    "queue_inv t (e\<lparr>e_active := adjust j (\<lambda>a. a\<lparr>a_phase := phase\<rparr>) (e_active e)\<rparr>)"
    if "queue_inv t e" for t e i f n ws b tm j phase
    by (rule view[OF that], simp add: qview_def)+
  show "queue_inv t (snd (BeginRequest d e))" if "queue_inv t e" for t e d
    by (rule view[OF that]) (simp add: qview_def BeginRequest_def Let_def)
  show "queue_inv now e1" if "queue_inv now e" "checkLocked d now wm e = (e1, ms, nxt, bl, er)"
    for now e d wm e1 ms nxt bl er
    using only_buckets_queue[OF checkLocked_only[OF that(2)]] by (intro view[OF that(1)]) (simp add: qview_def)
  show w: "queue_inv now e1" if "queue_inv now e" "checkWorkLocked request d now e = (e1, mm, nxt, bl, er)"
    for now e request d e1 mm nxt bl er
    using only_buckets_queue[OF checkWork_only[OF that(2)]] by (intro view[OF that(1)]) (simp add: qview_def)
  show "queue_inv now e3" if "queue_inv now e" "checkWorkLocked request d now e = (e1, mm, nxt, '''', None)"
    "grantWorkLocked request d mm now e1 = (p, e3)" for now e request d e1 mm nxt p e3
    using grantWork_queue[OF that(3)] grantWork_evolves[OF that(3)]
    by (intro view[OF w[OF that(1,2)]]) (simp add: qview_def evolves_def)
  show "queue_inv now (snd (enqueue_or_refuse request d payload mayWait parent nxt bl now e))"
    if "queue_inv now e" "0 \<le> payload" for now e request d payload mayWait parent nxt bl
    using that by (rule queue_inv_enqueue)
qed

text \<open>No waiter is lost: a dispatch moves waiters from the queue to the settled, in order.\<close>

lemma dispatch_partition:
  assumes inv: "queue_inv t e" and ne: "e_queue e \<noteq> []" and e'_def: "e' = dispatchLocked errs1 errs2 now e"
  obtains m where "list_all2 same_waiter (e_queue e) (e_queue m)" "e_queue e' = filter (\<lambda>w. \<not> wt_finished w) (e_queue m)"
    "e_settled e' = e_settled e @ filter wt_finished (e_queue m)"
    "\<And>w x. w \<in> set (e_queue e) \<Longrightarrow> scan_error errs1 now w = Some x \<Longrightarrow> done_with m (wt_id w) x"
proof (rule that[of "dispatch_marked errs1 errs2 now e"])
  let ?m = "dispatch_marked errs1 errs2 now e"
  have ok: "q_ok e" "\<forall>w\<in>set (e_queue e). \<not> wt_finished w" using inv by (auto simp: queue_inv_def)
  have m: "list_all2 same_waiter (e_queue e) (e_queue ?m)" "e_settled ?m = e_settled e"
    using dispatch_marks[of e errs1 errs2 now] ok(1) by (auto simp: marks_def)
  show "list_all2 same_waiter (e_queue e) (e_queue ?m)" by (rule m)
  show "e_queue e' = filter (\<lambda>w. \<not> wt_finished w) (e_queue ?m)" "e_settled e' = e_settled e @ filter wt_finished (e_queue ?m)"
    using ne m(2) by (simp_all add: e'_def dispatchLocked_marked compact_queue_def)
  fix w x assume w: "w \<in> set (e_queue e)" "scan_error errs1 now w = Some x"
  let ?ek = "(e\<lparr>e_dispatchPending := False\<rparr>, [])"
  obtain e1 keys where f: "fold (scan_waiter errs1 now) (e_queue e) ?ek = (e1, keys)" by fastforce
  have q0: "q_ok (e\<lparr>e_dispatchPending := False\<rparr>)" using ok(1) by (simp add: q_ok_def)
  have "done_with (fst (fold (scan_waiter errs1 now) (e_queue e) ?ek)) (wt_id w) x"
    by (rule scan_settles) (use ok q0 w in \<open>auto simp: q_ok_def\<close>)
  then have d1: "done_with e1 (wt_id w) x" by (simp add: f)
  have "marks (e\<lparr>e_dispatchPending := False\<rparr>) e1" using scan_marks[of ?ek errs1 now "e_queue e"] f by simp
  then have q1: "q_ok e1" using q0 by (simp add: marks_def)
  have "marks e1 ?m" unfolding dispatch_marked_def f by (simp add: marking.dispatch_loop_inv)
  then show "done_with ?m (wt_id w) x" using q1 d1 by (rule done_with_marks)
qed

end
