(* ===== verification/FlowProperties.thy ===== *)
theory FlowProperties
  imports FlowLimits FlowQueue
begin

text \<open>
  The properties of the admission engine: limits, bounds and accounting in every reachable state,
  the queue, exactness of the rate windows, refunds, closing and policy changes.
\<close>

section \<open>A sample run\<close>

definition sample_engine :: engine where
  "sample_engine = projr (New 7 sample_policy)"

definition sample_reads :: "gtime \<Rightarrow> readings" where
  "sample_reads t = \<lparr>rd_errs1 = (\<lambda>_. None), rd_errs2 = (\<lambda>_. None), rd_nowf = t, rd_now = t\<rparr>"

definition sample_ctx :: ctx_view where
  "sample_ctx = \<lparr>cx_before = None, cx_after = None, cx_deadline = None\<rparr>"

definition sample_acquire :: "Identity \<Rightarrow> gtime \<Rightarrow> engine \<Rightarrow> acquired \<times> engine" where
  "sample_acquire d t e = AcquireForRequest (sample_reads t) (sample_reads t) sample_ctx None d 10 True e"

definition sample_attempt :: Identity where
  "sample_attempt = sample_identity\<lparr>d_Stage := Attempt, d_Provider := ''openai'', d_Account := ''acc''\<rparr>"

definition sample_running :: engine where
  "sample_running = snd (sample_acquire sample_attempt 5000 sample_engine)"

definition sample_waiting :: engine where
  "sample_waiting = snd (sample_acquire sample_attempt 6000 sample_running)"

lemma sample_new: "New 7 sample_policy = Inr sample_engine"
  by (simp add: New_def sample_policy_valid sample_engine_def)

lemma sample_init: "flow_init sample_policy (sample_engine, 0)"
  using sample_new by (auto simp: flow_init_def sample_policy_def)

lemma sample_run:
  "reachable (flow_init sample_policy) flow_step (sample_engine, 0)"
  "reachable (flow_init sample_policy) flow_step (sample_running, 5000)"
  "reachable (flow_init sample_policy) flow_step (sample_waiting, 6000)"
proof -
  show a: "reachable (flow_init sample_policy) flow_step (sample_engine, 0)" using sample_init by (rule reach_init)
  have "flow_step (e, t) (snd (sample_acquire d t' e), t')" if "t \<le> t'" for e t t' d
    using step_acquire[of t "sample_reads t'" "sample_reads t'"] that by (simp add: sample_acquire_def sample_reads_def)
  then show b: "reachable (flow_init sample_policy) flow_step (sample_running, 5000)"
    unfolding sample_running_def using reach_step[OF a, of "(snd (sample_acquire sample_attempt 5000 sample_engine), 5000)"] by simp
  show "reachable (flow_init sample_policy) flow_step (sample_waiting, 6000)"
    unfolding sample_waiting_def using reach_step[OF b, of "(snd (sample_acquire sample_attempt 6000 sample_running), 6000)"]
    \<open>\<And>t' t e d. t \<le> t' \<Longrightarrow> flow_step (e, t) (snd (sample_acquire d t' e), t')\<close> by simp
qed

lemma sample_running_bucket: "map (\<lambda>(bid, b). (b_active b, length (b_history b))) (e_buckets sample_running) = [(1, 1)]"
  by code_simp

lemma sample_waiting_queue: "map wt_id (e_queue sample_waiting) = [1] \<and> e_queueBytes sample_waiting = 10"
  by code_simp


section \<open>Reachable states\<close>



interpretation waiting: inductive_invariant "flow_init cfg" flow_step "\<lambda>(e, t). queue_inv t e" for cfg
proof
  show "(\<lambda>(e, t). queue_inv t e) s" if "flow_init cfg s" for s
    using that by (auto simp: flow_init_def New_def queue_inv_def q_ok_def live_bytes_def split: option.splits)
  show "(\<lambda>(e, t). queue_inv t e) s'" if "(\<lambda>(e, t). queue_inv t e) s" "flow_step s s'" for s s'
    using that queue.step_keeps by (cases s, cases s') blast
qed

text \<open>C1: In every state the engine reaches under a validated, enabled policy, each counter belongs to a
  rule of the policy, counts exactly the running records that use it, is within the rule's
  concurrency cap, and no window of any configured length, wherever it ends, holds more recorded
  admissions than the rule allows.\<close>

theorem flow_limits_hold:
  assumes "reachable (flow_init cfg) flow_step (e, t)"
  shows "\<forall>bid b. map_of (e_buckets e) bid = Some b \<longrightarrow>
     b_rule b \<in> set (c_Rules (Effective cfg)) \<and> (\<exists>d. bid = bucketID (b_rule b) d) \<and>
     b_active b = uses (e_active e) bid \<and>
     (r_MaxConcurrent (b_rule b) > 0 \<longrightarrow> b_active b \<le> r_MaxConcurrent (b_rule b)) \<and>
     (\<forall>w\<in>set (r_Windows (b_rule b)). \<forall>x. recent x (ms_dur (w_PeriodMS w)) (b_history b) \<le> w_Requests w)"
proof -
  have "flow_inv cfg (e, t)" using machine.reachable_inv[OF assms] .
  then have "limits e" "acct e" "e_cfg e = Effective cfg" by (auto simp: flow_inv_def limited_def)
  then show ?thesis by (auto simp: limits_def origin_def within_def acct_def counted_def)
qed

theorem flow_limits_hold_witness:
  "\<exists>bid b. map_of (e_buckets sample_running) bid = Some b \<and> b_active b = 1 \<and>
     b_active b = uses (e_active sample_running) bid"
proof -
  obtain bid b where b: "e_buckets sample_running = [(bid, b)]" "b_active b = 1"
    using sample_running_bucket by (auto simp: map_eq_Cons_conv)
  then show ?thesis using flow_limits_hold[OF sample_run(2)] by (intro exI[of _ bid] exI[of _ b]) simp
qed

text \<open>C3: In every reachable state the engine holds at most \<open>MaxBuckets\<close> counters, at most \<open>MaxHistory\<close>
  recorded admissions (and \<open>historyCount\<close> is their exact number), and at most 100000 running records;
  the running records have distinct tickets that were all issued.\<close>

theorem flow_state_bounded:
  assumes "reachable (flow_init cfg) flow_step (e, t)"
  shows "int (length (e_buckets e)) \<le> c_MaxBuckets (Effective cfg) \<and>
    e_historyCount e = asum (\<lambda>b. int (length (b_history b))) (e_buckets e) \<and>
    e_historyCount e \<le> c_MaxHistory (Effective cfg) \<and> length (e_active e) \<le> 100000 \<and>
    distinct (map fst (e_active e)) \<and> (\<forall>i\<in>fst ` set (e_active e). 0 < i \<and> i \<le> e_sequence e)"
proof -
  have "flow_inv cfg (e, t)" using machine.reachable_inv[OF assms] .
  then have "acct e" "bounded t e" "e_cfg e = Effective cfg" by (auto simp: flow_inv_def limited_def)
  then show ?thesis by (auto simp: acct_def bounded_def hist_total_def)
qed

theorem flow_state_bounded_witness:
  "length (e_buckets sample_running) = 1 \<and> e_historyCount sample_running = 1"
proof -
  have "length (e_buckets sample_running) = 1" using arg_cong[OF sample_running_bucket, of length] by simp
  moreover obtain bid b where "e_buckets sample_running = [(bid, b)]" "length (b_history b) = 1"
    using sample_running_bucket by (auto simp: map_eq_Cons_conv)
  ultimately show ?thesis using flow_state_bounded[OF sample_run(2)] by simp
qed

text \<open>In every reachable state the waiting queue respects the policy: at most \<open>MaxWaiting\<close> waiters and
  \<open>MaxBytes\<close> queued bytes, at most \<open>MaxWaitingPerKey\<close> waiters for one key; the byte account is the sum
  over the queue, the waiters have distinct numbers and none is already settled.\<close>

theorem flow_queue_bounded:
  assumes "reachable (flow_init cfg) flow_step (e, t)"
  shows "int (length (e_queue e)) \<le> q_MaxWaiting (c_Queue (Effective cfg)) \<and>
    e_queueBytes e = sum_list (map wt_bytes (e_queue e)) \<and> e_queueBytes e \<le> q_MaxBytes (c_Queue (Effective cfg)) \<and>
    distinct (map wt_id (e_queue e)) \<and> (\<forall>w\<in>set (e_queue e). \<not> wt_finished w) \<and>
    (\<forall>w\<in>set (e_queue e). queued_for (d_Key (wt_identity w)) (e_queue e) \<le> q_MaxWaitingPerKey (c_Queue (Effective cfg)))"
proof -
  have q: "queue_inv t e" using waiting.reachable_inv[OF assms] by simp
  have c: "e_cfg e = Effective cfg" "policy_ok (Effective cfg)"
    using machine.reachable_inv[OF assms] by (auto simp: flow_inv_def limited_def running_policy_def)
  have "e_queueBytes e = sum_list (map wt_bytes (e_queue e))"
    using q live_bytes_all by (auto simp: queue_inv_def q_ok_def)
  with q c show ?thesis by (cases "e_queue e") (auto simp: queue_inv_def q_ok_def policy_ok_def Let_def)
qed

theorem flow_queue_bounded_witness:
  "length (e_queue sample_waiting) = 1 \<and> e_queueBytes sample_waiting = sum_list (map wt_bytes (e_queue sample_waiting))"
proof -
  have "length (e_queue sample_waiting) = 1" using sample_waiting_queue by (metis length_map list.size(3,4) One_nat_def add.right_neutral add_Suc_right)
  then show ?thesis using flow_queue_bounded[OF sample_run(3)] by simp
qed

text \<open>C4: A dispatch loses no waiter: the queue after it and the newly settled waiters together are the
  queue before it, in order. Every waiter whose context has ended or whose deadline has passed is
  settled with the error the code gives it and no permit, so what stays queued is live.\<close>

theorem dispatch_settles:
  assumes "reachable (flow_init cfg) flow_step (e, t)" and "e_queue e \<noteq> []"
  shows "\<exists>q settled. e_queue (dispatchLocked errs1 errs2 now e) = filter (\<lambda>w. \<not> wt_finished w) q \<and>
     settled = filter wt_finished q \<and> e_settled (dispatchLocked errs1 errs2 now e) = e_settled e @ settled \<and>
     map wt_id q = map wt_id (e_queue e) \<and>
     (\<forall>w\<in>set (e_queue e). \<forall>x. scan_error errs1 now w = Some x \<longrightarrow>
        (\<exists>v\<in>set settled. wt_id v = wt_id w \<and> wt_permit v = None \<and> wt_err v = Some x)) \<and>
     (\<forall>v\<in>set (e_queue (dispatchLocked errs1 errs2 now e)). errs1 (wt_id v) = None \<and> now < wt_deadline v)"
proof -
  have inv: "queue_inv t e" using waiting.reachable_inv[OF assms(1)] by simp
  obtain m where m: "list_all2 same_waiter (e_queue e) (e_queue m)"
    "e_queue (dispatchLocked errs1 errs2 now e) = filter (\<lambda>w. \<not> wt_finished w) (e_queue m)"
    "e_settled (dispatchLocked errs1 errs2 now e) = e_settled e @ filter wt_finished (e_queue m)"
    "\<And>w x. w \<in> set (e_queue e) \<Longrightarrow> scan_error errs1 now w = Some x \<Longrightarrow> done_with m (wt_id w) x"
    using dispatch_partition[OF inv assms(2) refl, of errs1 errs2 now] by metis
  have ids: "map wt_id (e_queue m) = map wt_id (e_queue e)" using same_waiter_ids[OF m(1)] by simp
  have d: "distinct (map wt_id (e_queue m))" unfolding ids using inv by (simp add: queue_inv_def q_ok_def)
  have live: "errs1 (wt_id v) = None \<and> now < wt_deadline v" if v: "v \<in> set (e_queue m)" "\<not> wt_finished v" for v
  proof -
    obtain w where w: "w \<in> set (e_queue e)" "same_waiter w v"
      using v(1) m(1) by (metis list_all2_conv_all_nth in_set_conv_nth)
    have "scan_error errs1 now w = None"
    proof (rule ccontr)
      assume "scan_error errs1 now w \<noteq> None"
      then obtain x where "done_with m (wt_id w) x" using m(4) w(1) by blast
      then obtain u where "u \<in> set (e_queue m)" "wt_id u = wt_id w" "wt_finished u" by (auto simp: done_with_def)
      moreover from this have "u = v" using w(2) v(1) distinct_map_inj[OF d] by (simp add: same_waiter_def)
      ultimately show False using v(2) by simp
    qed
    with w(2) show ?thesis by (auto simp: scan_error_def same_waiter_def split: option.splits if_splits)
  qed
  have "\<exists>v\<in>set (filter wt_finished (e_queue m)). wt_id v = wt_id w \<and> wt_permit v = None \<and> wt_err v = Some x"
    if "w \<in> set (e_queue e)" "scan_error errs1 now w = Some x" for w x
    using m(4)[OF that] by (auto simp: done_with_def)
  with m(2,3) ids live show ?thesis
    by (intro exI[of _ "e_queue m"] exI[of _ "filter wt_finished (e_queue m)"]) auto
qed

theorem dispatch_settles_witness:
  "list_all (\<lambda>v. 7000 < wt_deadline v) (e_queue (dispatchLocked (\<lambda>_. None) (\<lambda>_. None) 7000 sample_waiting))"
proof -
  have "e_queue sample_waiting \<noteq> []" using sample_waiting_queue by auto
  from dispatch_settles[OF sample_run(3) this, of "\<lambda>_. None" "\<lambda>_. None" 7000] show ?thesis
    by (auto simp: list_all_iff)
qed


section \<open>Rate windows\<close>

lemma filter_after_drop:
  assumes "history_ok t h"
  shows "filter (\<lambda>y. ev_at y > c) h = drop (first_after c h) h"
  using first_after_split(2)[OF assms] by simp

text \<open>In a sorted history, at least \<open>n\<close> records lie after \<open>c\<close> exactly when the \<open>n\<close>-th from the end does.\<close>

lemma count_after:
  assumes "history_ok t h" "0 < n" "n \<le> length h"
  shows "n \<le> length (filter (\<lambda>y. ev_at y > c) h) \<longleftrightarrow> c < ev_at (h ! (length h - n))"
proof -
  let ?k = "first_after c h"
  have k: "?k \<le> length h" using first_after_split(1)[OF assms(1)] .
  have "length (filter (\<lambda>y. ev_at y > c) h) = length h - ?k" using filter_after_drop[OF assms(1)] by simp
  then have a: "n \<le> length (filter (\<lambda>y. ev_at y > c) h) \<longleftrightarrow> ?k \<le> length h - n" using assms(2,3) k by auto
  have "\<forall>y\<in>set (drop ?k h). c < ev_at y" unfolding filter_after_drop[OF assms(1), symmetric] by simp
  then have hi: "c < ev_at (h ! i)" if "?k \<le> i" "i < length h" for i
    using that nth_mem[of "i - ?k" "drop ?k h"] by simp
  have m: "ev_at (h ! b) > c" if "a \<le> b" "b < length h" "ev_at (h ! a) > c" for a b
    using that assms(1) sorted_nth_mono[of "map ev_at h" a b] by (auto simp: history_ok_def)
  then have "take ?k h = filter (\<lambda>y. \<not> c < ev_at y) h"
    unfolding first_after_def using sort_Search_split(3)[of h "\<lambda>y. ev_at y > c"] by blast
  then have "\<forall>y\<in>set (take ?k h). \<not> c < ev_at y" by simp
  then have lo: "\<not> c < ev_at (h ! i)" if "i < ?k" for i
    using that k nth_mem[of i "take ?k h"] by simp
  show ?thesis unfolding a using hi lo assms(2,3) by (metis diff_less linorder_not_le order_less_le_trans)
qed

lemma window_check_later:
  assumes "history_ok now h" "now \<le> x" "1 \<le> w_Requests w"
  shows "window_check x h w = None \<longleftrightarrow>
    int (length h) < w_Requests w \<or> ev_at (h ! nat (int (length h) - w_Requests w)) + ms_dur (w_PeriodMS w) \<le> x"
proof -
  let ?p = "ms_dur (w_PeriodMS w)" and ?n = "nat (w_Requests w)"
  have ok: "history_ok x h" using assms(1,2) by (rule history_ok_mono)
  have "filter (\<lambda>y. x - ?p < ev_at y \<and> ev_at y \<le> x) h = filter (\<lambda>y. ev_at y > x - ?p) h"
    by (rule filter_cong) (use ok in \<open>auto simp: history_ok_def\<close>)
  then have r: "recent x ?p h = int (length (filter (\<lambda>y. ev_at y > x - ?p) h))" by (simp add: recent_def)
  have le: "length (filter (\<lambda>y. ev_at y > x - ?p) h) \<le> length h" by simp
  show ?thesis
  proof (cases "int (length h) < w_Requests w")
    case True
    then have "recent x ?p h < w_Requests w" unfolding r using le by linarith
    with True show ?thesis unfolding window_check_iff[OF ok] by simp
  next
    case False
    then have n: "?n \<le> length h" "0 < ?n" using assms(3) by auto
    have "nat (int (length h) - w_Requests w) = length h - ?n" using False assms(3) by auto
    with count_after[OF ok n(2,1), of "x - ?p"] False assms(3) show ?thesis
      unfolding window_check_iff[OF ok] r by auto
  qed
qed

text \<open>The wait announced for a blocked rate window is exact. If the window blocks now, it blocks at
  every later time before the announced one and at none from then on, as long as no further
  admission is recorded.\<close>

theorem window_wait_exact:
  assumes "history_ok now h" and "1 \<le> w_Requests w" and "window_check now h w = Some available" and "now \<le> x"
  shows "window_check x h w = None \<longleftrightarrow> available \<le> x"
proof -
  let ?p = "ms_dur (w_PeriodMS w)" and ?k = "first_after (now - ms_dur (w_PeriodMS w)) h"
  have k: "?k \<le> length h" using first_after_split(1)[OF assms(1)] .
  have c: "w_Requests w \<le> int (length h - ?k)"
    "available = ev_at (h ! nat (int ?k + int (length h - ?k) - w_Requests w)) + ?p"
    using assms(3) by (auto simp: window_check_def Let_def split: if_splits)
  have "int ?k + int (length h - ?k) = int (length h)" using k by simp
  then have "available = ev_at (h ! nat (int (length h) - w_Requests w)) + ?p" using c(2) by simp
  moreover have "\<not> int (length h) < w_Requests w" using c(1) k by linarith
  ultimately show ?thesis using window_check_later[OF assms(1,4,2)] by simp
qed

theorem window_wait_exact_witness:
  "window_check 1000000 [\<lparr>ev_at = 5, ev_ticket = 1\<rparr>] \<lparr>w_Requests = 1, w_PeriodMS = 1\<rparr> \<noteq> None \<and>
   window_check 1000005 [\<lparr>ev_at = 5, ev_ticket = 1\<rparr>] \<lparr>w_Requests = 1, w_PeriodMS = 1\<rparr> = None"
proof -
  have "window_check 6 [\<lparr>ev_at = 5, ev_ticket = 1\<rparr>] \<lparr>w_Requests = 1, w_PeriodMS = 1\<rparr> = Some 1000005" by code_simp
  from window_wait_exact[OF _ _ this] show ?thesis by (simp add: history_ok_def)
qed

text \<open>Pruning forgets only records that no window within the retention of the bucket can still count.\<close>

lemma prune_keeps_window:
  assumes "history_ok now (b_history b)" and "now \<le> x" and "ms_dur (w_PeriodMS w) \<le> b_retention b" and "1 \<le> w_Requests w"
  shows "window_check x (b_history (prune_bucket now b)) w = window_check x (b_history b) w"
proof -
  let ?h = "b_history b" and ?n = "expired_count now b" and ?p = "ms_dur (w_PeriodMS w)"
  have ok: "history_ok x ?h" using assms(1,2) by (rule history_ok_mono)
  have okd: "history_ok x (drop ?n ?h)" using ok by (rule history_ok_drop)
  have n: "?n \<le> length ?h" by (rule expired_count_le)
  have dr: "drop ?n ?h = filter (\<lambda>y. ev_at y > now - b_retention b) ?h"
    using filter_after_drop[OF assms(1), of "now - b_retention b"] by (simp add: expired_count_def)
  have f: "filter (\<lambda>y. ev_at y > x - ?p) (drop ?n ?h) = filter (\<lambda>y. ev_at y > x - ?p) ?h"
    unfolding dr filter_filter by (rule filter_cong) (use assms(2,3) in auto)
  define k where "k = first_after (x - ?p) ?h"
  define k' where "k' = first_after (x - ?p) (drop ?n ?h)"
  have kk: "drop k ?h = drop k' (drop ?n ?h)" "k \<le> length ?h" "k' \<le> length (drop ?n ?h)"
    unfolding k_def k'_def using filter_after_drop[OF ok] filter_after_drop[OF okd] f first_after_split(1)[OF ok]
      first_after_split(1)[OF okd] by metis+
  have c: "length ?h - k = length (drop ?n ?h) - k'" using arg_cong[OF kk(1), of length] by simp
  have "drop k ?h ! j = drop k' (drop ?n ?h) ! j" for j using kk(1) by simp
  then have nth: "?h ! (k + j) = drop ?n ?h ! (k' + j)" if "j < length ?h - k" for j
    using that kk(2,3) c nth_drop[of k ?h j] nth_drop[of k' "drop ?n ?h" j] by simp
  have idx: "nat (int m + int l - w_Requests w) = m + nat (int l - w_Requests w)" if "w_Requests w \<le> int l" for m l
    using that by (simp add: nat_add_distrib[symmetric] add_diff_eq)
  have "nat (int (length ?h - k) - w_Requests w) < length ?h - k" if "w_Requests w \<le> int (length ?h - k)"
    using that assms(4) by linarith
  then show ?thesis
    using c nth idx unfolding window_check_def Let_def prune_bucket_def
    by (simp add: k_def[symmetric] k'_def[symmetric] del: nth_drop)
qed

section \<open>Cleanup\<close>

text \<open>Every bucket keeps its records at least as long as its rule needs them.\<close>

definition retained :: "gtime \<Rightarrow> engine \<Rightarrow> bool" where
  "retained t e \<longleftrightarrow> keys_distinct (e_buckets e) \<and>
     (\<forall>bid b. map_of (e_buckets e) bid = Some b \<longrightarrow> r_compiledRetention (b_rule b) \<le> b_retention b)"

lemma retained_core: "core e' = core e \<Longrightarrow> retained t e' = retained t' e"
  by (simp add: retained_def core_def)

lemma retained_frame: "retained t e \<Longrightarrow> framed e e' \<Longrightarrow> retained t e'"
  using retained_core[of e' e t t] by (simp add: framed_def)

lemma retained_touch:
  "\<forall>bid b. map_of bs bid = Some b \<longrightarrow> r_compiledRetention (b_rule b) \<le> b_retention b \<Longrightarrow>
   map_of (touch d r bs) bid = Some b \<Longrightarrow> r_compiledRetention (b_rule b) \<le> b_retention b"
  by (auto simp: map_of_touch touch_bucket_def split: if_splits)

lemma retained_check_rules:
  assumes "check_rules d now wm mb rs bs ms nxt bl = (bs', res)"
    and "\<forall>bid b. map_of bs bid = Some b \<longrightarrow> r_compiledRetention (b_rule b) \<le> b_retention b"
  shows "\<forall>bid b. map_of bs' bid = Some b \<longrightarrow> r_compiledRetention (b_rule b) \<le> b_retention b"
  using assms
proof (induction rs arbitrary: bs ms nxt bl)
  case (Cons r rs)
  have t: "\<forall>bid b. map_of (touch d r bs) bid = Some b \<longrightarrow> r_compiledRetention (b_rule b) \<le> b_retention b"
    using retained_touch[OF Cons.prems(2)] by blast
  show ?case
    using Cons.prems(1) Cons.IH[OF _ Cons.prems(2)] Cons.IH[OF _ t] Cons.prems(2)
    by (auto simp: check_rules_Cons Let_def split: if_splits prod.splits)
qed simp

lemma retained_check:
  assumes "retained t e" "checkLocked d now wm e = (e1, ms, nxt, bl, er)"
  shows "retained t e1"
proof -
  obtain ms0 er0 bl0 where "check_rules d now wm (c_MaxBuckets (e_cfg e)) (c_Rules (e_cfg e)) (e_buckets e) [] 0 ''''
      = (e_buckets e1, ms0, nxt, bl0, er0)" using checkLocked_rules[OF assms(2)] by metis
  from retained_check_rules[OF this] checkLocked_ext[OF assms(2)] assms(1) show ?thesis
    by (simp add: retained_def bs_ext_def)
qed

lemma retained_grant:
  assumes "retained t e" "grantLocked d ms now e = (p, e')"
  shows "retained t e'"
proof -
  have "map fst (e_buckets e') = map fst (e_buckets e)" using assms(2) by (auto simp: grantLocked_def Let_def)
  with assms(1) show ?thesis
    unfolding retained_def grantLocked_buckets[OF assms(2)] by (auto simp: granted_bucket_def)
qed

interpretation remembers: admission_invariant retained
proof
  show "retained t' e" if "retained t e" for t t' e using that retained_core[of e e] by blast
  show "retained t e'" if "retained t e" "core e' = core e" for t e e' using that retained_core by blast
  show "retained t (cleanupLocked now e)" if r: "retained t e" for t now e
  proof -
    have kd: "keys_distinct (e_buckets e)" using r by (simp add: retained_def)
    then have "keys_distinct (e_buckets (cleanupLocked now e))" by (simp add: cleanupLocked_def keys_distinct_filter)
    with r show ?thesis unfolding retained_def map_of_cleanup[OF kd]
      by (auto simp: prune_bucket_def Let_def split: option.splits if_splits)
  qed
  show "retained t (drop_record ticket a refund e)" if "retained t e" for t e ticket a refund
  proof -
    have "map fst (e_buckets (drop_record ticket a refund e)) = map fst (e_buckets e)"
      by (simp add: drop_record_def refund_history_def Let_def)
    then show ?thesis using that unfolding retained_def map_of_drop_record by auto
  qed
  show "retained now e1" if "retained now e" "checkLocked d now wm e = (e1, ms, nxt, bl, er)" for now e d wm e1 ms nxt bl er
    using that by (rule retained_check)
  show "retained now e3" if rt: "retained now e" and c: "checkWorkLocked request d now e = (e1, mm, nxt, '''', None)"
    and fr: "framed e1 e2" and g: "grantWorkLocked request d mm now e2 = (p, e3)" for now e request d e1 mm nxt e2 p e3
  proof -
    have "retained now e1"
      using c by (cases rule: checkWork_E) (auto elim!: checkAttempt_E intro: retained_check[OF rt] retained_check[OF retained_check[OF rt]] rt)
    then have r2: "retained now e2" using fr by (rule retained_frame)
    obtain x1 x2 where x: "case fresh_op request e2 of None \<Rightarrow> x1 = e2
       | Some opr \<Rightarrow> \<exists>rp eg. grantLocked (op_identity opr) (fst mm) now e2 = (rp, eg) \<and> framed eg x1"
      "grantLocked d (snd mm) now x1 = (p, x2)" "framed x2 e3" by (rule grantWork_E[OF g])
    have "retained now x1"
      using x(1) r2 by (cases "fresh_op request e2") (auto intro: retained_frame[OF retained_grant[OF r2]])
    then show ?thesis using retained_frame[OF retained_grant[OF _ x(2)] x(3)] by blast
  qed
qed

interpretation memory: inductive_invariant "flow_init cfg" flow_step "\<lambda>(e, t). remembers.inv t e" for cfg
proof
  show "(\<lambda>(e, t). remembers.inv t e) s" if "flow_init cfg s" for s
    using that by (auto simp: flow_init_def New_def remembers.inv_def retained_def queue_work_def split: option.splits)
  show "(\<lambda>(e, t). remembers.inv t e) s'" if "(\<lambda>(e, t). remembers.inv t e) s" "flow_step s s'" for s s'
    using that remembers.step_keeps by (cases s, cases s') blast
qed

text \<open>What the engine knows of a counter: one that is not there has no running request and no record.\<close>

definition history_at :: "engine \<Rightarrow> string \<Rightarrow> event list" where
  "history_at e bid = (case map_of (e_buckets e) bid of None \<Rightarrow> [] | Some b \<Rightarrow> b_history b)"

definition active_at :: "engine \<Rightarrow> string \<Rightarrow> int" where
  "active_at e bid = (case map_of (e_buckets e) bid of None \<Rightarrow> 0 | Some b \<Rightarrow> b_active b)"

lemma bucket_of_rule:
  assumes "reachable (flow_init cfg) flow_step (e, t)" and "map_of (e_buckets e) (bucketID r d) = Some b"
    and "r \<in> set (c_Rules (Effective cfg))" and "w \<in> set (r_Windows r)"
  shows "history_ok t (b_history b)" "ms_dur (w_PeriodMS w) \<le> b_retention b" "1 \<le> w_Requests w"
proof -
  have inv: "limited t e" "e_cfg e = Effective cfg" using machine.reachable_inv[OF assms(1)] by (auto simp: flow_inv_def)
  then have pol: "running_policy (Effective cfg)" by (simp add: limited_def)
  then have rok: "rule_ok (c_MaxHistory (Effective cfg)) r"
    using assms(3) by (auto simp: running_policy_def policy_ok_def)
  then show "1 \<le> w_Requests w" using assms(4) by (auto simp: rule_ok_def)
  show "history_ok t (b_history b)" using inv(1) assms(2) by (auto simp: limited_def hist_ok_def)
  obtain d' where "b_rule b \<in> set (c_Rules (Effective cfg))" "bucketID r d = bucketID (b_rule b) d'"
    using inv assms(2) unfolding limited_def limits_def origin_def by metis
  then have "b_rule b = r" using rule_of_bucket[OF pol _ assms(3)] by metis
  moreover have "r_compiledRetention (b_rule b) \<le> b_retention b"
    using memory.reachable_inv[OF assms(1)] assms(2) by (auto simp: remembers.inv_def retained_def)
  moreover have "r_compiledRetention r = retention r"
    using assms(3) by (auto simp: Effective_rules retention_def)
  ultimately show "ms_dur (w_PeriodMS w) \<le> b_retention b" using retention_covers(3)[OF rok assms(4)] by simp
qed

text \<open>C5: Cleaning up changes no answer of the rate limiter. In every state the engine reaches under a
  validated, enabled policy, for every rule of the policy and every caller, each window of the rule
  gives at any time from the cleanup on the same answer, with the same wait, on the engine after
  \<open>cleanupLocked\<close> as on the engine before it, a deleted counter counting as one without records,
  and the number of running requests is the same. What is left is no more than needed: every counter
  has a running request or a record, and no record is older than the retention of its counter.\<close>

theorem cleanup_keeps_windows:
  assumes "reachable (flow_init cfg) flow_step (e, t)" and "t \<le> now" and "now \<le> x"
    and "r \<in> set (c_Rules (Effective cfg))"
  shows "(\<forall>w\<in>set (r_Windows r). window_check x (history_at (cleanupLocked now e) (bucketID r d)) w =
       window_check x (history_at e (bucketID r d)) w) \<and>
     active_at (cleanupLocked now e) (bucketID r d) = active_at e (bucketID r d) \<and>
     (\<forall>bid b. map_of (e_buckets (cleanupLocked now e)) bid = Some b \<longrightarrow>
       (b_active b \<noteq> 0 \<or> b_history b \<noteq> []) \<and> (\<forall>y\<in>set (b_history b). now - b_retention b < ev_at y))"
proof (intro conjI ballI allI impI)
  have lim: "limited t e" using machine.reachable_inv[OF assms(1)] by (auto simp: flow_inv_def)
  then have kd: "keys_distinct (e_buckets e)" by (simp add: limited_def acct_def)
  note cl = map_of_cleanup[OF kd, of now]
  have hist: "history_at (cleanupLocked now e) bid =
      (case map_of (e_buckets e) bid of None \<Rightarrow> [] | Some b \<Rightarrow> b_history (prune_bucket now b))" for bid
    by (auto simp: history_at_def cl Let_def split: option.splits)
  show "active_at (cleanupLocked now e) (bucketID r d) = active_at e (bucketID r d)"
    by (auto simp: active_at_def cl Let_def prune_bucket_def split: option.splits)
  fix w assume w: "w \<in> set (r_Windows r)"
  show "window_check x (history_at (cleanupLocked now e) (bucketID r d)) w = window_check x (history_at e (bucketID r d)) w"
  proof (cases "map_of (e_buckets e) (bucketID r d)")
    case (Some b)
    note b = bucket_of_rule[OF assms(1) Some assms(4) w]
    from prune_keeps_window[OF history_ok_mono[OF b(1) assms(2)] assms(3) b(2,3)] Some show ?thesis
      unfolding hist by (simp add: history_at_def)
  next
    case None
    then show ?thesis unfolding hist by (simp add: history_at_def)
  qed
next
  fix bid b assume b: "map_of (e_buckets (cleanupLocked now e)) bid = Some b"
  have lim: "limited t e" using machine.reachable_inv[OF assms(1)] by (auto simp: flow_inv_def)
  then have kd: "keys_distinct (e_buckets e)" by (simp add: limited_def acct_def)
  obtain b0 where b0: "map_of (e_buckets e) bid = Some b0" "b = prune_bucket now b0" "b_active b \<noteq> 0 \<or> b_history b \<noteq> []"
    using b by (auto simp: map_of_cleanup[OF kd] Let_def split: option.splits if_splits)
  then show "b_active b \<noteq> 0 \<or> b_history b \<noteq> []" by simp
  have "history_ok t (b_history b0)" using lim b0(1) by (auto simp: limited_def hist_ok_def)
  then have "b_history b = filter (\<lambda>y. ev_at y > now - b_retention b) (b_history b0)"
    unfolding b0(2) using filter_after_drop by (simp add: prune_bucket_def expired_count_def)
  then show "now - b_retention b < ev_at y" if "y \<in> set (b_history b)" for y using that by simp
qed

theorem cleanup_keeps_windows_witness:
  "\<exists>r\<in>set (c_Rules (Effective sample_policy)). \<exists>w\<in>set (r_Windows r).
     window_check 7000 (history_at sample_running (bucketID r sample_attempt)) w \<noteq> None \<and>
     window_check 7000 (history_at (cleanupLocked 6000 sample_running) (bucketID r sample_attempt)) w =
       window_check 7000 (history_at sample_running (bucketID r sample_attempt)) w"
proof -
  have "list_ex (\<lambda>r. list_ex (\<lambda>w. window_check 7000 (history_at sample_running (bucketID r sample_attempt)) w \<noteq> None)
      (r_Windows r)) (c_Rules (Effective sample_policy))" by code_simp
  then show ?thesis using cleanup_keeps_windows[OF sample_run(2), of 6000 7000 _ sample_attempt]
    by (fastforce simp: list_ex_iff)
qed


section \<open>Refunds\<close>

lemma remove_ticket_fresh: "\<forall>x\<in>set h. ev_ticket x \<noteq> i \<Longrightarrow> remove_ticket i (h @ xs) = h @ remove_ticket i xs"
  by (induction h) auto

lemma asum_mset: "mset bs = mset cs \<Longrightarrow> asum g bs = asum g cs"
  unfolding asum_def by (metis mset_map sum_mset_sum_list)

lemma asum_same_map:
  assumes "map_of bs = map_of cs" "keys_distinct bs" "keys_distinct cs"
  shows "asum g bs = asum g cs"
proof -
  have "set bs = set cs" using assms map_of_inject_set[of bs cs] by simp
  moreover have "distinct bs" "distinct cs" using assms(2,3) by (simp_all add: distinct_map)
  ultimately show ?thesis by (intro asum_mset) (simp add: set_eq_iff_mset_eq_distinct)
qed

lemma delete_update_fresh: "k \<notin> fst ` set al \<Longrightarrow> AList.delete k (AList.update k v al) = al"
  by (induction al) (auto simp: delete_id)



lemma refund_grant:
  assumes "acct e" and "ticketed t e" and "distinct ms" and "set ms \<subseteq> fst ` set (e_buckets e)"
    and "grantLocked d ms now e = (p, e1)"
  shows "map_of (e_buckets (releaseRecordLocked (p_id p) True e1)) = map_of (e_buckets e) \<and>
    e_active (releaseRecordLocked (p_id p) True e1) = e_active e \<and>
    e_historyCount (releaseRecordLocked (p_id p) True e1) = e_historyCount e"
proof -
  let ?t = "Suc (e_sequence e)"
  let ?a = "\<lparr>a_operation = None, a_identity = d, a_members = ms, a_started = now, a_phase = ''running''\<rparr>"
  have new: "?t \<notin> fst ` set (e_active e)" using assms(1) by (force simp: acct_def)
  have p: "p_id p = ?t" "e_active e1 = AList.update ?t ?a (e_active e)"
    using assms(5) by (auto simp: grantLocked_def Let_def)
  have r: "releaseRecordLocked (p_id p) True e1 = drop_record ?t ?a True e1"
    using p by (subst releaseRecordLocked.simps) (simp add: update_conv')
  have b: "map_of (e_buckets (drop_record ?t ?a True e1)) bid = map_of (e_buckets e) bid" for bid
  proof (cases "map_of (e_buckets e) bid")
    case None
    then show ?thesis by (simp add: map_of_drop_record grantLocked_buckets[OF assms(5)])
  next
    case (Some b)
    have "\<forall>x\<in>set (b_history b). ev_ticket x \<noteq> ?t" using assms(2) Some by (fastforce simp: ticketed_def)
    moreover have "count_list ms bid \<le> 1" using count_list_distinct[OF assms(3), of bid] by (cases "bid \<in> set ms") simp_all
    ultimately have "remove_ticket ?t (b_history (granted_bucket now ?t ms bid b)) = b_history b"
      by (cases "count_list ms bid") (auto simp: granted_bucket_def remove_ticket_fresh)
    then show ?thesis
      using Some by (simp add: map_of_drop_record grantLocked_buckets[OF assms(5)]) (simp add: granted_bucket_def)
  qed
  have a: "e_active (drop_record ?t ?a True e1) = e_active e"
    by (simp add: drop_record_active p(2) delete_update_fresh[OF new])
  have "acct (drop_record ?t ?a True e1)"
    using drop_record_acct[OF grantLocked_acct[OF assms(1,4,5)]] p(2) by (simp add: update_conv')
  then have h: "e_historyCount (drop_record ?t ?a True e1) = hist_total (e_buckets (drop_record ?t ?a True e1))"
    "keys_distinct (e_buckets (drop_record ?t ?a True e1))" by (simp_all add: acct_def)
  have m: "map_of (e_buckets (drop_record ?t ?a True e1)) = map_of (e_buckets e)" using b by (rule ext)
  have "hist_total (e_buckets (drop_record ?t ?a True e1)) = hist_total (e_buckets e)"
    unfolding hist_total_def using m h(2) assms(1) by (intro asum_same_map) (simp_all add: acct_def)
  then show ?thesis using m a h(1) assms(1) unfolding r by (simp add: acct_def)
qed


text \<open>C6: Cancelling admitted work before it is dispatched takes the admission back completely. In a
  reachable state, after a check that passes, granting its members and releasing the permit's record
  with a refund gives back the counters, the histories, the running records and the history total
  the check left.\<close>

theorem refund_undoes_grant:
  assumes "reachable (flow_init cfg) flow_step (e, t)" and "t \<le> now"
    and "checkLocked d now False e = (e0, ms, nxt, '''', None)" and "grantLocked d ms now e0 = (p, e1)"
  shows "map_of (e_buckets (releaseRecordLocked (p_id p) True e1)) = map_of (e_buckets e0) \<and>
    e_active (releaseRecordLocked (p_id p) True e1) = e_active e0 \<and>
    e_historyCount (releaseRecordLocked (p_id p) True e1) = e_historyCount e0"
proof -
  have i: "limited t e" "ticketed t e" using machine.reachable_inv[OF assms(1)] by (auto simp: flow_inv_def)
  have lim: "limited now e" using i(1) assms(2) by (rule running.mono)
  have "acct e0" using checkLocked_limited[OF lim assms(3)] by (simp add: limited_def)
  moreover have "ticketed t e0" using i(2) assms(3) by (rule ticketed_check)
  moreover have "distinct ms" using checkLocked_admits[OF lim assms(3)] by (simp add: admits_def)
  moreover have "set ms \<subseteq> fst ` set (e_buckets e0)"
    using checkLocked_ext[OF assms(3)] lim by (simp add: limited_def acct_def)
  ultimately show ?thesis using assms(4) by (rule refund_grant)
qed

definition sample_check :: "engine \<times> check_result" where
  "sample_check = checkLocked sample_attempt 5000 False sample_engine"

lemma sample_check_ok: "length (fst (snd sample_check)) = 1 \<and> snd (snd (snd sample_check)) = ('''', None)"
  by code_simp

theorem refund_undoes_grant_witness:
  "\<exists>e0 ms nxt p e1. sample_check = (e0, ms, nxt, '''', None) \<and> length ms = 1 \<and>
     grantLocked sample_attempt ms 5000 e0 = (p, e1) \<and>
     e_active (releaseRecordLocked (p_id p) True e1) = e_active e0"
proof -
  obtain e0 ms nxt bl er where s: "sample_check = (e0, ms, nxt, bl, er)" by (metis prod_cases5)
  have c: "sample_check = (e0, ms, nxt, '''', None)" "length ms = 1" using sample_check_ok unfolding s by simp_all
  obtain p e1 where g: "grantLocked sample_attempt ms 5000 e0 = (p, e1)" by fastforce
  from refund_undoes_grant[OF sample_run(1) _ c(1)[unfolded sample_check_def] g] c g show ?thesis by auto
qed


section \<open>Closing\<close>

lemma removeWaiter_queue:
  "e_queue (snd (removeWaiterLocked i now e)) = filter (\<lambda>v. wt_id v \<noteq> i) (e_queue e)"
  "e_settled (snd (removeWaiterLocked i now e)) = e_settled e"
  by (auto simp: removeWaiterLocked_def find_waiter_def find_None_iff split: option.splits intro!: filter_True[symmetric])

lemma finish_all:
  "e_queue (fold (\<lambda>w. finishWaiterLocked w p er now) ws e) = filter (\<lambda>v. wt_id v \<notin> wt_id ` set ws) (e_queue e) \<and>
   e_settled (fold (\<lambda>w. finishWaiterLocked w p er now) ws e) = e_settled e @ map (\<lambda>w. w\<lparr>wt_permit := p, wt_err := er\<rparr>) ws"
proof (induction ws arbitrary: e)
  case (Cons w ws)
  let ?e = "finishWaiterLocked w p er now e"
  have q: "e_queue ?e = filter (\<lambda>v. wt_id v \<noteq> wt_id w) (e_queue e)"
    "e_settled ?e = e_settled e @ [w\<lparr>wt_permit := p, wt_err := er\<rparr>]"
    by (simp_all add: finishWaiterLocked_def Let_def removeWaiter_queue)
  have f: "filter (\<lambda>v. wt_id v \<notin> wt_id ` set ws) (filter (\<lambda>v. wt_id v \<noteq> wt_id w) (e_queue e)) =
      filter (\<lambda>v. wt_id v \<notin> wt_id ` set (w # ws)) (e_queue e)"
    unfolding filter_filter by (rule filter_cong) auto
  show ?case using Cons[of ?e] q f by simp
qed simp

lemma remove_closed: "e_closed (snd (removeWaiterLocked i now e)) = e_closed e"
  by (auto simp: removeWaiterLocked_def split: option.splits)

lemma finish_all_closed: "e_closed (fold (\<lambda>w. finishWaiterLocked w p er now) ws e) = e_closed e"
  by (induction ws arbitrary: e) (simp_all add: finishWaiterLocked_def Let_def remove_closed)

text \<open>Closing an open engine wakes every waiter with the error \<open>flow_control_closed\<close> and no permit,
  empties the queue and disarms the timer; afterwards a timer callback does nothing, closing again
  does nothing, and every acquire is refused with \<open>flow_control_closed\<close> and leaves the engine alone
  (unless the caller's context has already ended or its identity is malformed).\<close>

theorem close_drains:
  assumes "\<not> e_closed e"
  shows "let e' = Close now e; closed = Some (EFlow (flow_err ''flow_control_closed'' '''' 0)) in
    e_queue e' = [] \<and> e_timer e' = None \<and> e_closed e' \<and>
    e_settled e' = e_settled e @ map (\<lambda>w. w\<lparr>wt_permit := None, wt_err := closed\<rparr>) (e_queue e) \<and>
    Close now' e' = e' \<and> timer_fires g errs1 errs2 now' e' = e' \<and>
    (cx_before cx = None \<and> identity_ok (normalized d) \<longrightarrow>
       Acquire rd rd' cx d payload e' = (Refused (EFlow (flow_err ''flow_control_closed'' '''' 0)), e'))"
proof -
  let ?closed = "Some (EFlow (flow_err ''flow_control_closed'' '''' 0))"
  define e2 where "e2 = fold (\<lambda>w. finishWaiterLocked w None ?closed now) (e_queue e) (e\<lparr>e_closed := True\<rparr>)"
  have q: "e_queue e2 = []" "e_settled e2 = e_settled e @ map (\<lambda>w. w\<lparr>wt_permit := None, wt_err := ?closed\<rparr>) (e_queue e)"
    unfolding e2_def using finish_all[where e = "e\<lparr>e_closed := True\<rparr>" and ws = "e_queue e" and now = now and p = None and er = ?closed]
    by (auto simp: filter_empty_conv)
  have c: "e_closed e2" unfolding e2_def by (simp add: finish_all_closed)
  have e': "Close now e = e2\<lparr>e_timer := None, e_timerGeneration := Suc (e_timerGeneration e2)\<rparr>"
    using assms by (simp add: Close_def Let_def e2_def)
  show ?thesis
    unfolding Let_def e'
    using q c by (simp add: Close_def timer_fires_def Acquire_def acquireWork_def acquire_locked_def Let_def)
qed

theorem close_drains_witness:
  "e_queue (Close 9 sample_waiting) = [] \<and> length (e_settled (Close 9 sample_waiting)) = length (e_settled sample_waiting) + 1"
proof -
  have o: "\<not> e_closed sample_waiting" by code_simp
  have "length (e_queue sample_waiting) = 1" using sample_waiting_queue by (metis length_map list.size(3,4) One_nat_def add.right_neutral add_Suc_right)
  with close_drains[OF o, of 9] show ?thesis by (simp add: Let_def)
qed

section \<open>Fair choice\<close>

lemma key_less_irrefl: "\<not> key_less a a" by (simp add: key_less_def)
lemma key_less_trans: "key_less a b \<Longrightarrow> key_less b c \<Longrightarrow> key_less a c" by (auto simp: key_less_def split: if_splits)
lemma key_less_total: "\<not> key_less a b \<Longrightarrow> \<not> key_less b c \<Longrightarrow> \<not> key_less a c" by (auto simp: key_less_def split: if_splits)

text \<open>The heap always yields a key that was served least recently, and among those the one whose
  first waiter queued earliest; it neither drops nor duplicates a key.\<close>

theorem dispatch_serves_least_recent:
  assumes "pop_min k ks = (m, rest)"
  shows "mset (k # ks) = mset (m # rest) \<and>
    (\<forall>x\<in>set rest. k_rank m < k_rank x \<or> (k_rank m = k_rank x \<and> hd (k_items m) \<le> hd (k_items x)))"
proof -
  have "\<forall>x\<in>set (k # ks). \<not> key_less x m"
    using assms
  proof (induction k ks arbitrary: m rest rule: pop_min.induct)
    case (1 k)
    then show ?case by (simp add: key_less_irrefl)
  next
    case (2 k x xs)
    obtain m' r' where r: "pop_min x xs = (m', r')" by fastforce
    have ih: "\<forall>y\<in>set (x # xs). \<not> key_less y m'" using "2.IH"[OF r] .
    show ?case
    proof (cases "key_less k m'")
      case True
      with "2.prems" r have m: "m = k" by simp
      have "\<not> key_less y k" if "y \<in> set (x # xs)" for y using ih that True key_less_trans by blast
      with m show ?thesis by (auto simp: key_less_irrefl)
    next
      case False
      with "2.prems" r ih show ?thesis by auto
    qed
  qed
  moreover have ms: "mset (k # ks) = mset (m # rest)" using assms by (rule pop_min_mset)
  ultimately have "\<forall>x\<in>set rest. \<not> key_less x m" by (metis mset_eq_setD set_subset_Cons subsetD)
  with ms show ?thesis by (auto simp: key_less_def split: if_splits)
qed

theorem dispatch_serves_least_recent_witness:
  "\<exists>m rest. pop_min \<lparr>k_key = ''a'', k_rank = 3, k_items = [1]\<rparr> [\<lparr>k_key = ''b'', k_rank = 2, k_items = [5, 6]\<rparr>] = (m, rest) \<and>
     (\<forall>x\<in>set rest. k_rank m < k_rank x \<or> (k_rank m = k_rank x \<and> hd (k_items m) \<le> hd (k_items x)))"
proof -
  obtain m rest where "pop_min \<lparr>k_key = ''a'', k_rank = 3, k_items = [1]\<rparr> [\<lparr>k_key = ''b'', k_rank = 2, k_items = [5, 6]\<rparr>] = (m, rest)"
    by fastforce
  from this dispatch_serves_least_recent[OF this] show ?thesis by blast
qed


end
