(* ===== verification/FlowUpdate.thy ===== *)
theory FlowUpdate
  imports FlowLimits FlowQueue
begin

text \<open>
  Changing the policy of a running engine: \<open>CheckUpdate\<close>, \<open>Update\<close> and the recount of running work.
  The counters are exact in every state reached by any mix of steps and policy changes.
\<close>

section \<open>Changing the policy\<close>

text \<open>The accounts alone are an admission invariant, whatever the policy.\<close>

interpretation accounts: admission_invariant "\<lambda>_. acct"
proof
  show "acct e'" if "acct e" "core e' = core e" for e e' using that acct_core by blast
  show "acct (cleanupLocked now e)" if "acct e" for now e using that by (rule cleanupLocked_acct)
  show "acct (drop_record ticket a refund e)" if "acct e" "map_of (e_active e) ticket = Some a" for e ticket a refund
    using that by (rule drop_record_acct)
  have chk: "acct e1 \<and> set ms \<subseteq> fst ` set (e_buckets e1) \<and> bs_ext (e_buckets e) (e_buckets e1)"
    if "acct e" "checkLocked d now wm e = (e1, ms, nxt, bl, er)" for now e d wm e1 ms nxt bl er
    using checkLocked_ext[OF that(2)] that(1) only_buckets_acct[of e e1] by (simp add: acct_def)
  then show "acct e1" if "acct e" "checkLocked d now wm e = (e1, ms, nxt, bl, er)" for now e d wm e1 ms nxt bl er
    using that by blast
  show "acct e3" if ac: "acct e" and c: "checkWorkLocked request d now e = (e1, mm, nxt, '''', None)"
    and fr: "framed e1 e2" "e_ops e2 = e_ops e1" and g: "grantWorkLocked request d mm now e2 = (p, e3)"
    for now e request d e1 mm nxt e2 p e3
  proof -
    have m: "acct e1 \<and> set (fst mm) \<subseteq> fst ` set (e_buckets e1) \<and> set (snd mm) \<subseteq> fst ` set (e_buckets e1)"
      using c
    proof (cases rule: checkWork_E)
      case alone
      then obtain attm n where k: "checkLocked d now False e = (e1, attm, n, '''', None)" "mm = ([], attm)"
        by (auto elim!: checkAttempt_E)
      then show ?thesis using chk[OF ac k(1)] by simp
    next
      case (both opr y reqm first)
      then obtain attm n where k: "checkLocked d now False y = (e1, attm, n, '''', None)" "mm = (reqm, attm)"
        by (auto elim!: checkAttempt_E)
      have y: "acct y" "set reqm \<subseteq> fst ` set (e_buckets y)" using chk[OF ac both(2)] by auto
      have "acct e1" "set attm \<subseteq> fst ` set (e_buckets e1)" "fst ` set (e_buckets y) \<subseteq> fst ` set (e_buckets e1)"
        using chk[OF y(1) k(1)] bs_ext_keys by auto
      then show ?thesis using y(2) k(2) by simp
    qed auto
    have kb: "fst ` set (e_buckets e2) = fst ` set (e_buckets e1)" "acct e2"
      using fr(1) m acct_core[of e2 e1] by (auto simp: framed_def core_def)
    obtain x1 x2 where x: "case fresh_op request e2 of None \<Rightarrow> x1 = e2
       | Some opr \<Rightarrow> \<exists>rp eg. grantLocked (op_identity opr) (fst mm) now e2 = (rp, eg) \<and> framed eg x1"
      "grantLocked d (snd mm) now x1 = (p, x2)" "framed x2 e3" by (rule grantWork_E[OF g])
    have "acct x1 \<and> fst ` set (e_buckets x1) = fst ` set (e_buckets e2)"
    proof (cases "fresh_op request e2")
      case None
      with x(1) kb show ?thesis by simp
    next
      case (Some opr)
      then obtain rp eg where eg: "grantLocked (op_identity opr) (fst mm) now e2 = (rp, eg)" "framed eg x1" using x(1) by auto
      have "map fst (e_buckets eg) = map fst (e_buckets e2)" using eg(1) by (auto simp: grantLocked_def Let_def)
      moreover have "e_buckets x1 = e_buckets eg" "acct x1 = acct eg"
        using eg(2) acct_core[of x1 eg] by (auto simp: framed_def core_def)
      ultimately show ?thesis using grantLocked_acct[OF kb(2) _ eg(1)] m kb(1) keys_from_list by metis
    qed
    then have "acct x2" using grantLocked_acct[OF _ _ x(2)] m kb(1) by simp
    then show ?thesis using x(3) acct_core[of e3 x2] by (simp add: framed_def)
  qed
qed

text \<open>Counting the running work again under a new policy.\<close>

definition old_active :: "(string \<times> bucket) list \<Rightarrow> string \<Rightarrow> int" where
  "old_active bs bid = (case map_of bs bid of None \<Rightarrow> 0 | Some b \<Rightarrow> b_active b)"

definition recounted :: "(string \<times> bucket) list \<Rightarrow> (string \<Rightarrow> int) \<Rightarrow> (string \<times> bucket) list \<Rightarrow> bool" where
  "recounted bs extra bs' \<longleftrightarrow> keys_distinct bs' \<and> fst ` set bs \<subseteq> fst ` set bs' \<and> hist_total bs' = hist_total bs \<and>
     (\<forall>bid. old_active bs' bid = old_active bs bid + extra bid)"

lemma recounted_trans: "recounted a f b \<Longrightarrow> recounted b g c \<Longrightarrow> recounted a (\<lambda>bid. f bid + g bid) c"
  unfolding recounted_def by auto

lemma recounted_cong: "recounted a f b \<Longrightarrow> (\<And>bid. f bid = g bid) \<Longrightarrow> recounted a g b"
  by (metis ext)

lemma reproject_rule_recounted:
  assumes "keys_distinct bs" "reproject_rule d r (bs, ms) = (bs', ms')"
  shows "\<exists>new. ms' = ms @ new \<and> set new \<subseteq> fst ` set bs' \<and> recounted bs (\<lambda>bid. int (count_list new bid)) bs'"
proof (cases "rule_matches r d")
  case False
  with assms show ?thesis by (intro exI[of _ "[]"]) (simp add: reproject_rule_def recounted_def)
next
  case True
  let ?id = "bucketID r d"
  define b0 where "b0 = (case map_of bs ?id of None \<Rightarrow> new_bucket r d | Some b \<Rightarrow> b)"
  define b where "b = b0\<lparr>b_rule := r, b_retention := (if retention r > b_retention b0 then retention r else b_retention b0),
                     b_active := b_active b0 + 1\<rparr>"
  have "reproject_rule d r (bs, ms) =
      ((case map_of bs ?id of None \<Rightarrow> bs @ [(?id, b)] | Some _ \<Rightarrow> adjust ?id (\<lambda>_. b) bs), ms @ [?id])"
    unfolding reproject_rule_def Let_def b_def b0_def using True by simp
  then have r: "bs' = (case map_of bs ?id of None \<Rightarrow> bs @ [(?id, b)] | Some _ \<Rightarrow> adjust ?id (\<lambda>_. b) bs)" "ms' = ms @ [?id]"
    using assms(2) by simp_all
  have m: "map_of bs' x = (if x = ?id then Some b else map_of bs x)" for x
    by (auto simp: r map_add_def split: option.splits)
  have "keys_distinct bs'" using assms(1) by (auto simp: r map_of_eq_None_iff split: option.splits)
  moreover have keys: "fst ` set bs' = insert ?id (fst ` set bs)"
  proof (cases "map_of bs ?id")
    case None
    then show ?thesis by (simp add: r)
  next
    case (Some x)
    then have "?id \<in> fst ` set bs" using map_of_None_key[of bs ?id] by simp
    moreover have "fst ` set bs' = fst ` set bs" by (rule keys_from_list) (simp add: r Some)
    ultimately show ?thesis by blast
  qed
  moreover have "hist_total bs' = hist_total bs"
    using assms(1) by (auto simp: r hist_total_def asum_adjust b_def b0_def new_bucket_def split: option.splits)
  moreover have "old_active bs' x = old_active bs x + int (count_list [?id] x)" for x
    by (auto simp: old_active_def m b_def b0_def new_bucket_def split: option.splits)
  ultimately have "recounted bs (\<lambda>x. int (count_list [?id] x)) bs'" by (auto simp: recounted_def)
  with keys r(2) show ?thesis by (intro exI[of _ "[?id]"]) auto
qed

lemma reproject_rules_recounted:
  assumes "keys_distinct bs" "fold (reproject_rule d) rs (bs, ms) = (bs', ms')"
  shows "\<exists>new. ms' = ms @ new \<and> set new \<subseteq> fst ` set bs' \<and> recounted bs (\<lambda>bid. int (count_list new bid)) bs'"
  using assms
proof (induction rs arbitrary: bs ms)
  case Nil
  then show ?case by (intro exI[of _ "[]"]) (simp add: recounted_def)
next
  case (Cons r rs)
  obtain bs1 ms1 where s: "reproject_rule d r (bs, ms) = (bs1, ms1)" by fastforce
  obtain n1 where n1: "ms1 = ms @ n1" "set n1 \<subseteq> fst ` set bs1" "recounted bs (\<lambda>bid. int (count_list n1 bid)) bs1"
    using reproject_rule_recounted[OF Cons.prems(1) s] by blast
  have "keys_distinct bs1" using n1(3) by (simp add: recounted_def)
  then obtain n2 where n2: "ms' = ms1 @ n2" "set n2 \<subseteq> fst ` set bs'" "recounted bs1 (\<lambda>bid. int (count_list n2 bid)) bs'"
    using Cons.IH[of bs1 ms1] Cons.prems(2) s by auto
  have "recounted bs (\<lambda>bid. int (count_list (n1 @ n2) bid)) bs'"
    by (rule recounted_cong[OF recounted_trans[OF n1(3) n2(3)]]) simp
  moreover have "set n1 \<subseteq> fst ` set bs'" using n1(2) n2(3) by (auto simp: recounted_def)
  ultimately show ?case using n1(1) n2(1,2) by (intro exI[of _ "n1 @ n2"]) auto
qed

lemma reproject_recounted:
  assumes "keys_distinct bs" "reproject cfg as bs = (bs', as')"
  shows "map fst as' = map fst as \<and> recounted bs (uses as') bs' \<and> (\<forall>(i, a)\<in>set as'. set (a_members a) \<subseteq> fst ` set bs') \<and>
    map (\<lambda>(i, a). (i, a_identity a, a_operation a)) as' = map (\<lambda>(i, a). (i, a_identity a, a_operation a)) as"
  using assms
proof (induction cfg as bs arbitrary: bs' as' rule: reproject.induct)
  case (1 cfg bs)
  then show ?case by (simp add: recounted_def)
next
  case (2 cfg i a as bs)
  show ?case
  proof (cases "c_Enabled cfg")
    case False
    obtain as2 where s: "reproject cfg as bs = (bs', as2)" "as' = (i, a\<lparr>a_members := []\<rparr>) # as2"
      using "2.prems"(2) False by (auto split: prod.splits)
    from "2.IH"(1)[OF _ "2.prems"(1) s(1)] False
    have ih: "map fst as2 = map fst as" "recounted bs (uses as2) bs'" "\<forall>(i, a)\<in>set as2. set (a_members a) \<subseteq> fst ` set bs'"
      "map (\<lambda>(i, a). (i, a_identity a, a_operation a)) as2 = map (\<lambda>(i, a). (i, a_identity a, a_operation a)) as" by auto
    have "recounted bs (uses as') bs'" by (rule recounted_cong[OF ih(2)]) (simp add: uses_def s(2))
    with ih s(2) show ?thesis by simp
  next
    case True
    obtain bs1 ms where f: "fold (reproject_rule (a_identity a)) (c_Rules cfg) (bs, []) = (bs1, ms)" by fastforce
    obtain as2 where s: "reproject cfg as bs1 = (bs', as2)" "as' = (i, a\<lparr>a_members := ms\<rparr>) # as2"
      using "2.prems"(2) True f by (auto split: prod.splits)
    have n: "set ms \<subseteq> fst ` set bs1" "recounted bs (\<lambda>bid. int (count_list ms bid)) bs1"
      using reproject_rules_recounted[OF "2.prems"(1) f] by auto
    have kd: "keys_distinct bs1" using n(2) by (simp add: recounted_def)
    from "2.IH"(2)[OF _ f[symmetric] refl kd s(1)] True
    have ih: "map fst as2 = map fst as" "recounted bs1 (uses as2) bs'" "\<forall>(i, a)\<in>set as2. set (a_members a) \<subseteq> fst ` set bs'"
      "map (\<lambda>(i, a). (i, a_identity a, a_operation a)) as2 = map (\<lambda>(i, a). (i, a_identity a, a_operation a)) as" by auto
    have "recounted bs (uses as') bs'"
      by (rule recounted_cong[OF recounted_trans[OF n(2) ih(2)]]) (simp add: uses_def s(2))
    moreover have "set ms \<subseteq> fst ` set bs'" using n(1) ih(2) by (auto simp: recounted_def)
    ultimately show ?thesis using ih s(2) by simp
  qed
qed


lemma Update_acct:
  assumes inv: "acct e" "queue_work e"
  shows "acct (snd (Update errs1 errs2 now now' cfg e)) \<and> queue_work (snd (Update errs1 errs2 now now' cfg e))"
proof (cases "CheckUpdate cfg now e")
  case (Some x)
  then have "snd (Update errs1 errs2 now now' cfg e) = e" by (auto simp: Update_def CheckUpdate_def Let_def split: option.splits)
  with inv show ?thesis by simp
next
  case None
  define c where "c = Effective cfg"
  define e1 where "e1 = cleanupLocked now e"
  define e2 where "e2 = e1\<lparr>e_cfg := c, e_policyRevision := Suc (e_policyRevision e1),
      e_buckets := map_vals (\<lambda>b. b\<lparr>b_active := 0\<rparr>) (e_buckets e1)\<rparr>"
  obtain bs as where r: "reproject c (e_active e2) (e_buckets e2) = (bs, as)" by fastforce
  let ?e3 = "e2\<lparr>e_buckets := bs, e_active := as\<rparr>"
  have u: "snd (Update errs1 errs2 now now' cfg e) = settle_after errs1 errs2 now' ?e3"
    using None r unfolding Update_def CheckUpdate_def Let_def
    by (auto simp: c_def[symmetric] e1_def[symmetric] e2_def[symmetric] split: option.splits)
  have a1: "acct e1" unfolding e1_def using inv(1) by (rule cleanupLocked_acct)
  have kd: "keys_distinct (e_buckets e2)" using a1 by (simp add: e2_def acct_def)
  have rc: "map fst as = map fst (e_active e2)" "recounted (e_buckets e2) (uses as) bs"
    "\<forall>(i, a)\<in>set as. set (a_members a) \<subseteq> fst ` set bs" using reproject_recounted[OF kd r] by auto
  have z: "old_active (e_buckets e2) bid = 0" for bid by (simp add: old_active_def e2_def split: option.splits)
  have "acct ?e3"
  proof (rule acctI)
    show "keys_distinct (e_buckets ?e3)" "keys_distinct (e_active ?e3)" using rc a1 by (auto simp: recounted_def e2_def acct_def)
    show "\<And>i. i \<in> fst ` set (e_active ?e3) \<Longrightarrow> 0 < i \<and> i \<le> e_sequence ?e3"
      using a1 keys_from_list[OF rc(1)] by (auto simp: e2_def acct_def)
    show "e_historyCount ?e3 = hist_total (e_buckets ?e3)"
      using a1 rc(2) by (simp add: recounted_def e2_def acct_def hist_total_def asum_map_vals)
    show "counted (e_buckets ?e3) (e_active ?e3)"
      unfolding counted_def
    proof (intro conjI allI impI)
      fix bid b assume "map_of (e_buckets ?e3) bid = Some b"
      then have "old_active bs bid = b_active b" by (simp add: old_active_def)
      then show "b_active b = uses (e_active ?e3) bid" using rc(2) z by (simp add: recounted_def)
    next
      fix i a assume "(i, a) \<in> set (e_active ?e3)"
      with rc(3) show "set (a_members a) \<subseteq> fst ` set (e_buckets ?e3)" by auto
    qed
  qed
  moreover have "queue_work ?e3"
  proof -
    have "e_queue ?e3 = e_queue e" "op_ids ?e3 = op_ids e"
      by (simp_all add: e2_def e1_def cleanupLocked_def op_ids_def get_op_def fun_eq_iff)
    then show ?thesis using inv(2) unfolding queue_work_def work_ok_def by metis
  qed
  ultimately have "accounts.inv now' ?e3" by (simp add: accounts.inv_def)
  then have "accounts.inv now' (settle_after errs1 errs2 now' ?e3)" by (rule accounts.k_settle) simp
  then show ?thesis unfolding u by (simp add: accounts.inv_def)
qed


section \<open>Properties\<close>

text \<open>The machine whose policy may change at any time.\<close>

inductive live_step :: "engine \<times> gtime \<Rightarrow> engine \<times> gtime \<Rightarrow> bool" where
  live_flow: "flow_step s s' \<Longrightarrow> live_step s s'"
| live_update: "t \<le> now' \<Longrightarrow> live_step (e, t) (snd (Update errs1 errs2 now now' cfg e), now')"

inductive_simps live_step_simps: "live_step (e, t) (e', t')"

definition live_init :: "engine \<times> gtime \<Rightarrow> bool" where
  "live_init s \<longleftrightarrow> (\<exists>self cfg. New self cfg = Inr (fst s))"

interpretation live: inductive_invariant live_init live_step "\<lambda>(e, t). acct e \<and> queue_work e"
proof
  show "(\<lambda>(e, t). acct e \<and> queue_work e) s" if "live_init s" for s
    using that by (auto simp: live_init_def New_def acct_def hist_total_def counted_def queue_work_def split: option.splits)
  show "(\<lambda>(e, t). acct e \<and> queue_work e) s'" if "(\<lambda>(e, t). acct e \<and> queue_work e) s" "live_step s s'" for s s'
  proof -
    obtain e t e' t' where s: "s = (e, t)" "s' = (e', t')" by (cases s, cases s')
    from that(2)[unfolded s live_step_simps] that(1) s show ?thesis
      using accounts.step_keeps[of e t e' t'] Update_acct[of e] by (auto simp: accounts.inv_def)
  qed
qed

text \<open>C2: Whatever steps an engine takes and however often its policy is replaced, enabled or disabled in
  between, every counter equals the number of running records that point to it, every counter a
  running record points to exists, and \<open>historyCount\<close> is the total length of the histories.\<close>

theorem accounting_always_exact:
  assumes "reachable live_init live_step (e, t)"
  shows "(\<forall>bid b. map_of (e_buckets e) bid = Some b \<longrightarrow> b_active b = uses (e_active e) bid) \<and>
    (\<forall>i a. (i, a) \<in> set (e_active e) \<longrightarrow> set (a_members a) \<subseteq> fst ` set (e_buckets e)) \<and>
    e_historyCount e = asum (\<lambda>b. int (length (b_history b))) (e_buckets e)"
proof -
  have "acct e" using live.reachable_inv[OF assms] by simp
  then show ?thesis by (auto simp: acct_def counted_def hist_total_def)
qed

definition update_engine :: engine where
  "update_engine = snd (Update (\<lambda>_. None) (\<lambda>_. None) 3 3 sample_policy (projr (New 7 (sample_policy\<lparr>c_Enabled := False\<rparr>))))"

theorem accounting_always_exact_witness:
  "e_historyCount update_engine = asum (\<lambda>b. int (length (b_history b))) (e_buckets update_engine)"
proof -
  have "Validate (sample_policy\<lparr>c_Enabled := False\<rparr>) = None" by code_simp
  then have "live_init (projr (New 7 (sample_policy\<lparr>c_Enabled := False\<rparr>)), 0)"
    unfolding live_init_def
    by (intro exI[of _ 7] exI[of _ "sample_policy\<lparr>c_Enabled := False\<rparr>"]) (simp add: New_def)
  then have "reachable live_init live_step (projr (New 7 (sample_policy\<lparr>c_Enabled := False\<rparr>)), 0)" by (rule reach_init)
  then have "reachable live_init live_step (update_engine, 3)"
    unfolding update_engine_def by (rule reach_step) (rule live_update, simp)
  then show ?thesis using accounting_always_exact by blast
qed

text \<open>C7: \<open>Update\<close> is all or nothing and \<open>CheckUpdate\<close> predicts it: both report the same error at the same
  time, a refused update leaves the engine as it was, and an accepted one installs the effective
  policy.\<close>

theorem update_all_or_nothing:
  "fst (Update errs1 errs2 now now' cfg e) = CheckUpdate cfg now e \<and>
   (CheckUpdate cfg now e \<noteq> None \<longrightarrow> snd (Update errs1 errs2 now now' cfg e) = e) \<and>
   (CheckUpdate cfg now e = None \<longrightarrow> e_cfg (snd (Update errs1 errs2 now now' cfg e)) = Effective cfg)"
proof -
  have "e_cfg (settle_after errs1 errs2 now' x) = e_cfg x" for x
    using evolves_trans[OF evolves_trans[OF cleanup_evolves dispatch_evolves] framed_evolves[OF schedule_framed]]
    by (simp add: settle_after_def evolves_def)
  then show ?thesis
    by (auto simp: Update_def CheckUpdate_def Let_def split: option.splits prod.splits)
qed

theorem update_all_or_nothing_witness:
  "CheckUpdate (sample_policy\<lparr>c_Version := 9\<rparr>) 3 update_engine \<noteq> None \<and>
   snd (Update (\<lambda>_. None) (\<lambda>_. None) 3 4 (sample_policy\<lparr>c_Version := 9\<rparr>) update_engine) = update_engine"
proof -
  have "Validate (sample_policy\<lparr>c_Version := 9\<rparr>) \<noteq> None" by code_simp
  then have "CheckUpdate (sample_policy\<lparr>c_Version := 9\<rparr>) 3 update_engine \<noteq> None" by (auto simp: CheckUpdate_def)
  then show ?thesis using update_all_or_nothing by blast
qed

lemma reproject_rules_members:
  "snd (fold (reproject_rule d) rs (bs, ms)) = ms @ map (\<lambda>r. bucketID r d) (filter (\<lambda>r. rule_matches r d) rs)"
proof (induction rs arbitrary: bs ms)
  case (Cons r rs)
  obtain bs1 ms1 where s: "reproject_rule d r (bs, ms) = (bs1, ms1)" by fastforce
  have "ms1 = ms @ (if rule_matches r d then [bucketID r d] else [])"
    using s by (auto simp: reproject_rule_def Let_def split: if_splits)
  with Cons s show ?case by simp
qed simp

text \<open>A new policy counts running work exactly by its own rules: after the recount every running record
  keeps its ticket, identity and operation, and its members are the counters of the rules that match
  its identity, in policy order; under a disabled policy it has none.\<close>

theorem recount_by_rules:
  "snd (reproject cfg as bs) = map (\<lambda>(i, a). (i, a\<lparr>a_members := (if c_Enabled cfg
      then map (\<lambda>r. bucketID r (a_identity a)) (filter (\<lambda>r. rule_matches r (a_identity a)) (c_Rules cfg)) else [])\<rparr>)) as"
proof (induction cfg as bs rule: reproject.induct)
  case (1 cfg bs)
  then show ?case by simp
next
  case (2 cfg i a as bs)
  show ?case
  proof (cases "c_Enabled cfg")
    case False
    with "2.IH"(1) show ?thesis by (simp split: prod.splits) (metis snd_conv)
  next
    case True
    obtain bs1 ms where f: "fold (reproject_rule (a_identity a)) (c_Rules cfg) (bs, []) = (bs1, ms)" by fastforce
    have "ms = map (\<lambda>r. bucketID r (a_identity a)) (filter (\<lambda>r. rule_matches r (a_identity a)) (c_Rules cfg))"
      using reproject_rules_members[of "a_identity a" "c_Rules cfg" bs "[]"] f by simp
    with "2.IH"(2)[OF _ f[symmetric] refl] True f show ?thesis by (simp split: prod.splits) (metis snd_conv)
  qed
qed

end
