(* ===== verification/FlowStatus.thy ===== *)
theory FlowStatus
  imports FlowLimits
begin

text \<open>
  What the engine reports: \<open>Explain\<close> and \<open>Preview\<close> (\<open>status.go\<close>), the counters of \<open>Summary\<close>
  (\<open>summary.go\<close>). A report reads the engine and changes nothing, so each is a function to its
  result. Resource samples, the encoding and its cache are outside the model.
\<close>

section \<open>Explanations (status.go)\<close>

record WindowEvaluation =
  we_Requests :: int
  we_PeriodMS :: int
  we_Used :: int
  we_Remaining :: int
  we_RetryAfterMS :: int

record RuleEvaluation =
  re_Delta :: int
  re_Known :: bool
  re_Unresolved :: "string list"
  re_Rule :: Rule
  re_Dimensions :: "(string \<times> string) list"
  re_Active :: int
  re_Remaining :: "int option"
  re_Windows :: "WindowEvaluation list"
  re_BlockedBy :: "string list"

record Explanation =
  x_Identity :: Identity
  x_Enabled :: bool
  x_Complete :: bool
  x_Unresolved :: "string list"
  x_CanStart :: bool
  x_AdditionalSlots :: "int option"
  x_Matches :: "RuleEvaluation list"
  x_BlockingRules :: "string list"
  x_SampledAt :: gtime
  x_PolicyRevision :: nat
  x_Draft :: bool
  x_AdvisoryOnly :: bool
  x_ConfigurationError :: "cfg_error option"

text \<open>One field of \<open>explainIdentityMatch\<close>: \<open>None\<close> is a known mismatch, otherwise what is missing.\<close>

record id_field =
  f_name :: string
  f_old :: string
  f_value :: string
  f_values :: "string list option"
  f_model :: bool

definition id_fields :: "Rule \<Rightarrow> Identity \<Rightarrow> id_field list" where
  "id_fields r d =
     [\<lparr>f_name = ''key'', f_old = r_Key r, f_value = d_Key d, f_values = r_Keys r, f_model = False\<rparr>,
      \<lparr>f_name = ''account'', f_old = r_Account r, f_value = d_Account d, f_values = r_Accounts r, f_model = False\<rparr>,
      \<lparr>f_name = ''model'', f_old = r_Model r, f_value = d_Model d, f_values = r_Models r, f_model = True\<rparr>,
      \<lparr>f_name = ''provider'', f_old = r_Provider r, f_value = d_Provider d, f_values = None, f_model = False\<rparr>,
      \<lparr>f_name = ''credential'', f_old = r_Credential r, f_value = d_Credential d, f_values = None, f_model = False\<rparr>,
      \<lparr>f_name = ''auth-kind'', f_old = r_AuthKind r, f_value = d_AuthKind d, f_values = None, f_model = False\<rparr>]"

definition field_missing :: "Identity \<Rightarrow> id_field \<Rightarrow> string list option" where
  "field_missing d f =
     (if f_value f = '''' then
        Some (if f_values f \<noteq> None \<or> (f_old f \<noteq> '''' \<and> f_old f \<noteq> ''*'') then [f_name f] else [])
      else if f_model f \<and> d_Stage d = Attempt \<and> d_Provider d = '''' then
        (let patterns = (case f_values f of None \<Rightarrow> [f_old f] | Some vs \<Rightarrow> vs);
             qualified = list_ex (\<lambda>p. case CutStr p ''::'' of Some (q, name) \<Rightarrow> matchOne name (f_value f) '''' True | None \<Rightarrow> False) patterns;
             unqualified = list_ex (\<lambda>p. CutStr p ''::'' = None \<and> matchOne p (f_value f) '''' True) patterns
         in if \<not> qualified \<and> \<not> unqualified then None
            else Some (if qualified \<and> \<not> unqualified then [''provider''] else []))
      else if \<not> selectionMatches (f_old f) (f_values f) (f_value f) (d_Provider d) (f_model f) then None
      else Some [])"

fun fields_missing :: "Identity \<Rightarrow> id_field list \<Rightarrow> string list option" where
  "fields_missing d [] = Some []"
| "fields_missing d (f # fs) =
     (case field_missing d f of None \<Rightarrow> None
      | Some ms \<Rightarrow> map_option (\<lambda>rest. ms @ rest) (fields_missing d fs))"

definition explainIdentityMatch :: "Rule \<Rightarrow> Identity \<Rightarrow> string list option" where
  "explainIdentityMatch r d =
     (if r_Stage r \<noteq> d_Stage d then None
      else case fields_missing d (id_fields r d) of None \<Rightarrow> None
      | Some ms \<Rightarrow> Some (sort (remdups (ms @
          concat (map (\<lambda>field. (if dimension d field = '''' then [field] else []) @
                     (if field = ''model'' \<and> r_qualifiedModel r \<and> d_Stage d = Attempt \<and> d_Provider d = '''' then [''provider''] else []))
            (elems (dims_of r)))))))"

definition sameCountingRule :: "Rule \<Rightarrow> Rule \<Rightarrow> bool" where
  "sameCountingRule a b \<longleftrightarrow> sameRuleDomain a b \<and>
     list_all (\<lambda>w. list_ex (\<lambda>v. w_PeriodMS v = w_PeriodMS w) (r_Windows a)) (r_Windows b)"

definition evaluate_window :: "gtime \<Rightarrow> bucket option \<Rightarrow> Window \<Rightarrow> WindowEvaluation \<times> bool" where
  "evaluate_window now bo w =
     (let we = \<lparr>we_Requests = w_Requests w, we_PeriodMS = w_PeriodMS w, we_Used = 0, we_Remaining = w_Requests w, we_RetryAfterMS = 0\<rparr>
      in case bo of None \<Rightarrow> (we, False)
      | Some b \<Rightarrow>
        let period = ms_dur (w_PeriodMS w);
            first = first_after (now - period) (b_history b);
            used = int (length (b_history b) - first);
            remaining = w_Requests w - used
        in if remaining \<le> 0
           then (let retry = dur_ms (time_sub (ev_at (b_history b ! nat (int first + used - w_Requests w)) + period) now)
                 in (we\<lparr>we_Used := used, we_Remaining := 0, we_RetryAfterMS := (if retry < 1 then 1 else retry)\<rparr>, True))
           else (we\<lparr>we_Used := used, we_Remaining := remaining\<rparr>, False))"

definition less_slots :: "int \<Rightarrow> int option \<Rightarrow> int option" where
  "less_slots n slots = (case slots of None \<Rightarrow> Some n | Some m \<Rightarrow> if n < m then Some n else Some m)"

definition evaluate_rule :: "Identity \<Rightarrow> gtime \<Rightarrow> engine \<Rightarrow> Rule \<Rightarrow> string list \<Rightarrow> RuleEvaluation" where
  "evaluate_rule d now e r missing =
     (let row = \<lparr>re_Delta = 1, re_Known = (missing = []), re_Unresolved = missing, re_Rule = r,
                 re_Dimensions = map (\<lambda>name. (name, dimension d name)) (elems (dims_of r)), re_Active = 0,
                 re_Remaining = None, re_Windows = [], re_BlockedBy = []\<rparr>
      in if missing \<noteq> [] then row
         else let b = map_of (e_buckets e) (bucketID r d);
                  active = (case b of None \<Rightarrow> 0 | Some x \<Rightarrow> b_active x);
                  n = (if r_MaxConcurrent r - active < 0 then 0 else r_MaxConcurrent r - active);
                  ws = map (evaluate_window now b) (r_Windows r)
              in row\<lparr>re_Active := active,
                     re_Remaining := (if r_MaxConcurrent r > 0 then Some n else None),
                     re_Windows := map fst ws,
                     re_BlockedBy := (if r_MaxConcurrent r > 0 \<and> n = 0 then [''concurrency''] else []) @
                        map (\<lambda>_. ''window'') (filter snd ws)\<rparr>)"

definition explain_rule :: "Identity \<Rightarrow> gtime \<Rightarrow> bool \<Rightarrow> Config \<Rightarrow> bool \<Rightarrow> engine \<Rightarrow> Rule \<Rightarrow> Explanation \<Rightarrow> Explanation" where
  "explain_rule d now partially cfg draft e r x =
     (case (if partially then explainIdentityMatch r d else if rule_matches r d then Some [] else None) of
        None \<Rightarrow> x
      | Some missing0 \<Rightarrow>
        let missing = (if draft \<and> \<not> list_ex (\<lambda>live. sameCountingRule live r) (c_Rules (e_cfg e))
                       then missing0 @ [''draft-policy''] else missing0);
            row = evaluate_rule d now e r missing
        in if \<not> re_Known row
           then x\<lparr>x_Complete := False,
                  x_Unresolved := foldl (\<lambda>acc field. if field \<in> set acc then acc else acc @ [field]) (x_Unresolved x) missing,
                  x_Matches := x_Matches x @ [row]\<rparr>
           else let slots0 = (case re_Remaining row of None \<Rightarrow> x_AdditionalSlots x | Some n \<Rightarrow> less_slots n (x_AdditionalSlots x));
                    blocked = re_BlockedBy row \<noteq> []
                in x\<lparr>x_AdditionalSlots := foldl (\<lambda>s we. less_slots (we_Remaining we) s) slots0 (re_Windows row),
                     x_BlockingRules := (if blocked then x_BlockingRules x @ [r_ID r] else x_BlockingRules x),
                     x_CanStart := (if blocked \<and> c_Enabled cfg then False else x_CanStart x),
                     x_Matches := x_Matches x @ [row]\<rparr>)"

definition explainPolicyLocked :: "Identity \<Rightarrow> gtime \<Rightarrow> bool \<Rightarrow> Config \<Rightarrow> bool \<Rightarrow> engine \<Rightarrow> Explanation" where
  "explainPolicyLocked d now partially cfg draft e =
     (let x0 = \<lparr>x_Identity = d, x_Enabled = c_Enabled cfg, x_Complete = True, x_Unresolved = [], x_CanStart = (\<not> e_closed e),
                x_AdditionalSlots = None, x_Matches = [], x_BlockingRules = [], x_SampledAt = now, x_PolicyRevision = 0,
                x_Draft = False, x_AdvisoryOnly = True, x_ConfigurationError = None\<rparr>
      in case (if \<not> c_Enabled cfg then Validate (cfg\<lparr>c_Enabled := True\<rparr>) else None) of
           Some er \<Rightarrow> x0\<lparr>x_CanStart := False, x_Complete := False, x_Unresolved := [''invalid-policy''],
                         x_ConfigurationError := Some er, x_PolicyRevision := e_policyRevision e, x_Draft := draft\<rparr>
         | None \<Rightarrow>
           let x1 = fold (explain_rule d now partially cfg draft e) (c_Rules cfg) x0;
               x2 = x1\<lparr>x_Unresolved := sort (x_Unresolved x1)\<rparr>;
               x3 = (if \<not> x_Complete x2 then x2\<lparr>x_CanStart := False, x_AdditionalSlots := None\<rparr>
                     else if \<not> c_Enabled cfg then x2\<lparr>x_AdditionalSlots := None\<rparr>
                     else if \<not> x_CanStart x2 then x2\<lparr>x_AdditionalSlots := Some 0\<rparr> else x2)
           in x3\<lparr>x_PolicyRevision := e_policyRevision e, x_Draft := draft\<rparr>)"

definition preview_identity :: "Identity \<Rightarrow> Identity" where
  "preview_identity d = (if d_Key d = '''' then (normalized d)\<lparr>d_Key := ''''\<rparr> else normalized d)"

definition Explain :: "Identity \<Rightarrow> gtime \<Rightarrow> engine \<Rightarrow> Explanation" where
  "Explain d now e = explainPolicyLocked (preview_identity d) now True (e_cfg e) False e"

datatype preview_error = TooManyTargets | PreviewConfig cfg_error | InvalidPreviewIdentity | PreviewNeedsExactModel | InvalidPreviewStage

fun preview_targets :: "Config \<Rightarrow> bool \<Rightarrow> gtime \<Rightarrow> engine \<Rightarrow> Identity list \<Rightarrow> preview_error + Explanation list" where
  "preview_targets cfg draft now e [] = Inr []"
| "preview_targets cfg draft now e (d # ds) =
     (if list_ex (\<lambda>v. length v > 512 \<or> ContainsAny v crlf_nul)
           [d_Key d, d_Account d, d_Credential d, d_Provider d, d_AuthKind d, d_Model d] then Inl InvalidPreviewIdentity
      else if ContainsStr (d_Model d) ''*'' then Inl PreviewNeedsExactModel
      else if d_Stage d \<noteq> Request \<and> d_Stage d \<noteq> Attempt then Inl InvalidPreviewStage
      else case preview_targets cfg draft now e ds of Inl x \<Rightarrow> Inl x
         | Inr xs \<Rightarrow> Inr (explainPolicyLocked (preview_identity d) now True cfg draft e # xs))"

definition Preview :: "Config option \<Rightarrow> Identity list \<Rightarrow> gtime \<Rightarrow> engine \<Rightarrow> preview_error + Explanation list" where
  "Preview config targets now e =
     (if length targets > 24 then Inl TooManyTargets
      else case config of None \<Rightarrow> preview_targets (e_cfg e) False now e targets
      | Some c \<Rightarrow> (case Validate ((Effective c)\<lparr>c_Enabled := True\<rparr>) of Some er \<Rightarrow> Inl (PreviewConfig er)
                   | None \<Rightarrow> preview_targets (Effective c) True now e targets))"

section \<open>Summary (summary.go)\<close>

record Summary =
  s_Enabled :: bool
  s_Requests :: int
  s_Attempts :: int
  s_Waiting :: int
  s_WaitingRequests :: int
  s_WaitingAttempts :: int
  s_QueuedBytes :: int
  s_OldestWaitMS :: int
  s_Blocked :: "(string \<times> int) list"
  s_PolicyRevision :: nat

definition waits_for_request :: "engine \<Rightarrow> waiter \<Rightarrow> bool" where
  "waits_for_request e w \<longleftrightarrow> d_Stage (wt_identity w) = Request \<or>
     (case request_op (wt_request w) of None \<Rightarrow> False
      | Some o' \<Rightarrow> (case get_op e o' of None \<Rightarrow> False | Some opr \<Rightarrow> op_ticket opr = 0))"

definition bump :: "string \<Rightarrow> (string \<times> int) list \<Rightarrow> (string \<times> int) list" where
  "bump k m = (case map_of m k of None \<Rightarrow> m @ [(k, 1)] | Some n \<Rightarrow> adjust k (\<lambda>n. n + 1) m)"

definition summary_waiter :: "gtime \<Rightarrow> engine \<Rightarrow> waiter \<Rightarrow> Summary \<Rightarrow> Summary" where
  "summary_waiter now e w s =
     (let s1 = (if waits_for_request e w then s\<lparr>s_WaitingRequests := s_WaitingRequests s + 1\<rparr>
                else s\<lparr>s_WaitingAttempts := s_WaitingAttempts s + 1\<rparr>);
          elapsed = dur_ms (time_sub now (wt_enqueued w));
          s2 = (if elapsed > s_OldestWaitMS s1 then s1\<lparr>s_OldestWaitMS := elapsed\<rparr> else s1)
      in if wt_blocked w \<noteq> '''' then s2\<lparr>s_Blocked := bump (wt_blocked w) (s_Blocked s2)\<rparr> else s2)"

definition summary_active :: "nat \<times> active \<Rightarrow> Summary \<Rightarrow> Summary" where
  "summary_active ia s = (if d_Stage (a_identity (snd ia)) = Request then s\<lparr>s_Requests := s_Requests s + 1\<rparr>
     else s\<lparr>s_Attempts := s_Attempts s + 1\<rparr>)"

definition summaryLocked :: "gtime \<Rightarrow> engine \<Rightarrow> Summary" where
  "summaryLocked now e =
     (let s0 = \<lparr>s_Enabled = c_Enabled (e_cfg e), s_Requests = 0, s_Attempts = 0, s_Waiting = int (length (e_queue e)),
                s_WaitingRequests = 0, s_WaitingAttempts = 0, s_QueuedBytes = e_queueBytes e, s_OldestWaitMS = 0,
                s_Blocked = [], s_PolicyRevision = e_policyRevision e\<rparr>;
          s1 = fold summary_active (e_active e) s0
      in fold (summary_waiter now e) (e_queue e) s1)"


section \<open>Explanations agree with admission\<close>

text \<open>What a check reads of a counter.\<close>

definition load :: "(string \<times> bucket) list \<Rightarrow> string \<Rightarrow> int \<times> event list" where
  "load bs bid = (case map_of bs bid of None \<Rightarrow> (0, []) | Some b \<Rightarrow> (b_active b, b_history b))"

definition rule_blocked :: "gtime \<Rightarrow> Rule \<Rightarrow> int \<times> event list \<Rightarrow> bool" where
  "rule_blocked now r l \<longleftrightarrow> (r_MaxConcurrent r > 0 \<and> fst l \<ge> r_MaxConcurrent r) \<or>
     (\<exists>w\<in>set (r_Windows r). window_check now (snd l) w \<noteq> None)"

lemma load_touch: "load (touch d r bs) = load bs"
  by (auto simp: fun_eq_iff load_def map_of_touch touch_bucket_def new_bucket_def split: option.splits)

lemma check_windows_blocked:
  "rid \<noteq> '''' \<Longrightarrow> snd (check_windows now h rid ws (nxt, bl)) = '''' \<longleftrightarrow> bl = '''' \<and> (\<forall>w\<in>set ws. window_check now h w = None)"
proof (induction ws arbitrary: nxt bl)
  case (Cons w ws)
  then show ?case by (cases "window_check now h w") auto
qed simp

lemma check_rules_blocked:
  assumes "check_rules d now wm mb rs bs ms nxt bl = (bs', ms', nxt', bl', None)" "\<forall>r\<in>set rs. r_ID r \<noteq> ''''"
  shows "bl' = '''' \<longleftrightarrow> bl = '''' \<and> (\<forall>r\<in>set (counted_rules d wm rs). \<not> rule_blocked now r (load bs (bucketID r d)))"
  using assms
proof (induction rs arbitrary: bs ms nxt bl)
  case Nil
  then show ?case by (simp add: counted_rules_def)
next
  case (Cons r rs)
  show ?case
  proof (cases "skips_model wm r \<or> \<not> rule_matches r d")
    case True
    then have "check_rules d now wm mb rs bs ms nxt bl = (bs', ms', nxt', bl', None)" "counted_rules d wm (r # rs) = counted_rules d wm rs"
      using Cons.prems(1) by (auto simp: check_rules_Cons counted_rules_def)
    with Cons.IH[of bs ms nxt bl] Cons.prems(2) show ?thesis by simp
  next
    case False
    let ?id = "bucketID r d"
    define b where "b = touch_bucket r (case map_of bs ?id of None \<Rightarrow> new_bucket r d | Some b \<Rightarrow> b)"
    define bl1 where "bl1 = (if r_MaxConcurrent r > 0 \<and> b_active b \<ge> r_MaxConcurrent r then r_ID r else bl)"
    have l: "load bs ?id = (b_active b, b_history b)"
      by (simp add: load_def b_def touch_bucket_def new_bucket_def split: option.splits)
    have nf: "\<not> (map_of bs ?id = None \<and> int (length bs) \<ge> mb)" using Cons.prems(1) False by (auto simp: check_rules_Cons)
    obtain n2 bl2 where w: "check_windows now (b_history b) (r_ID r) (r_Windows r) (nxt, bl1) = (n2, bl2)" by fastforce
    have rest: "check_rules d now wm mb rs (touch d r bs) (ms @ [?id]) n2 bl2 = (bs', ms', nxt', bl', None)"
      using Cons.prems(1) False nf w unfolding check_rules_Cons b_def[symmetric] bl1_def[symmetric] Let_def by simp
    have "bl2 = '''' \<longleftrightarrow> bl = '''' \<and> \<not> rule_blocked now r (load bs ?id)"
      using check_windows_blocked[of "r_ID r" now "b_history b" "r_Windows r" nxt bl1] w Cons.prems(2)
      by (auto simp: rule_blocked_def l bl1_def)
    with Cons.IH[OF rest] Cons.prems(2) False show ?thesis by (auto simp: load_touch counted_rules_def)
  qed
qed

lemma evaluate_window_blocked: "snd (evaluate_window now bo w) \<longleftrightarrow> (\<exists>b. bo = Some b \<and> window_check now (b_history b) w \<noteq> None)"
  by (auto simp: evaluate_window_def window_check_def Let_def split: option.splits)

lemma window_check_Nil: "1 \<le> w_Requests w \<Longrightarrow> window_check now [] w = None"
  by (simp add: window_check_def Let_def first_after_def sort_Search_def)

lemma evaluate_rule_blocked:
  assumes "rule_ok H r"
  shows "re_BlockedBy (evaluate_rule d now e r []) = [] \<longleftrightarrow> \<not> rule_blocked now r (load (e_buckets e) (bucketID r d))"
proof -
  have "1 \<le> w_Requests w" if "w \<in> set (r_Windows r)" for w using assms that by (auto simp: rule_ok_def)
  then show ?thesis
    by (auto simp: evaluate_rule_def Let_def rule_blocked_def load_def filter_empty_conv evaluate_window_blocked window_check_Nil
        split: option.splits)
qed

lemma evaluate_rule_known [simp]: "re_Known (evaluate_rule d now e r ms) \<longleftrightarrow> ms = []"
  by (simp add: evaluate_rule_def Let_def)

lemma explain_rule_step:
  assumes "c_Enabled cfg"
  shows "x_Complete (explain_rule d now True cfg False e r x) \<longleftrightarrow> x_Complete x \<and> (\<forall>ms. explainIdentityMatch r d = Some ms \<longrightarrow> ms = [])"
    "x_CanStart (explain_rule d now True cfg False e r x) \<longleftrightarrow> x_CanStart x \<and>
       (explainIdentityMatch r d = Some [] \<longrightarrow> re_BlockedBy (evaluate_rule d now e r []) = [])"
  using assms by (auto simp: explain_rule_def Let_def split: option.splits)

lemma explain_fold:
  assumes "c_Enabled cfg" "x_Complete (fold (explain_rule d now True cfg False e) rs x)"
  shows "(\<forall>r\<in>set rs. \<forall>ms. explainIdentityMatch r d = Some ms \<longrightarrow> ms = []) \<and>
    (x_CanStart (fold (explain_rule d now True cfg False e) rs x) \<longleftrightarrow> x_CanStart x \<and>
      (\<forall>r\<in>set rs. explainIdentityMatch r d = Some [] \<longrightarrow> re_BlockedBy (evaluate_rule d now e r []) = []))"
proof -
  have mono: "x_Complete (fold (explain_rule d now True cfg False e) rs y) \<Longrightarrow> x_Complete y" for rs y
  proof (induction rs arbitrary: y)
    case (Cons r rs)
    then have "x_Complete (explain_rule d now True cfg False e r y)" by simp
    then show ?case by (simp add: explain_rule_step[OF assms(1)])
  qed simp
  show ?thesis
    using assms(2)
  proof (induction rs arbitrary: x)
    case (Cons r rs)
    have "x_Complete (explain_rule d now True cfg False e r x)" using Cons.prems mono[of rs] by simp
    then show ?case using Cons.IH[of "explain_rule d now True cfg False e r x"] Cons.prems
      by (auto simp: explain_rule_step[OF assms(1)])
  qed simp
qed

text \<open>A fully known identity: the preview's matcher answers as the admission's.\<close>

lemma fields_missing_iff:
  "fields_missing d fs = Some [] \<longleftrightarrow> (\<forall>f\<in>set fs. field_missing d f = Some [])"
  "fields_missing d fs = None \<longleftrightarrow> (\<exists>f\<in>set fs. field_missing d f = None)"
  by (induction fs) (auto split: option.splits)

lemma matchOne_wild: "matchOne '''' v p m" "matchOne ''*'' v p m"
proof -
  show "matchOne '''' v p m" by (simp add: matchOne_def Let_def TrimSpace_def ToLower_def)
  have "ToLower (TrimSpace ''*'') = ''*''" by code_simp
  then show "matchOne ''*'' v p m" by (simp add: matchOne_def Let_def)
qed

lemma field_missing_match:
  assumes "f_model f \<longrightarrow> d_Stage d = Attempt \<longrightarrow> d_Provider d \<noteq> ''''"
  shows "field_missing d f = None \<Longrightarrow> \<not> selectionMatches (f_old f) (f_values f) (f_value f) (d_Provider d) (f_model f)"
    "field_missing d f = Some [] \<Longrightarrow> selectionMatches (f_old f) (f_values f) (f_value f) (d_Provider d) (f_model f)"
  using assms by (auto simp: field_missing_def selectionMatches_def matchOne_wild split: if_splits)

lemma matchOne_exact: "matchOne old value provider False = exact old value"
  by (auto simp: matchOne_def exact_def Let_def)

lemma matchOne_provider: "matchOne old value p False = matchOne old value q False"
  by (simp add: matchOne_exact)

lemma sort_remdups_Nil: "sort (remdups (xs :: string list)) = [] \<longleftrightarrow> xs = []"
  by (metis set_sort set_remdups set_empty)

lemma explain_match:
  assumes p: "ToLower (TrimSpace (r_Provider r)) = r_Provider r" and q: "d_Stage d = Attempt \<longrightarrow> d_Provider d \<noteq> ''''"
    and full: "\<forall>ms. explainIdentityMatch r d = Some ms \<longrightarrow> ms = []"
  shows "explainIdentityMatch r d = Some [] \<longleftrightarrow> rule_matches r d"
proof -
  let ?sel = "\<lambda>f. selectionMatches (f_old f) (f_values f) (f_value f) (d_Provider d) (f_model f)"
  have all: "(\<forall>f\<in>set (id_fields r d). ?sel f) \<and> r_Stage r = d_Stage d \<longleftrightarrow> rule_matches r d"
    by (auto simp: id_fields_def rule_matches_def p selectionMatches_def matchOne_exact split: option.splits)
  show ?thesis
  proof
    assume s: "explainIdentityMatch r d = Some []"
    then obtain ms where "fields_missing d (id_fields r d) = Some ms" "r_Stage r = d_Stage d" "ms = []"
      by (auto simp: explainIdentityMatch_def sort_remdups_Nil split: if_splits option.splits)
    then show "rule_matches r d" using all field_missing_match(2) q by (auto simp: fields_missing_iff(1))
  next
    assume "rule_matches r d"
    then have "fields_missing d (id_fields r d) \<noteq> None" "r_Stage r = d_Stage d"
      using all field_missing_match(1) q by (auto simp: fields_missing_iff(2))
    then have "explainIdentityMatch r d \<noteq> None" by (auto simp: explainIdentityMatch_def split: option.splits)
    then show "explainIdentityMatch r d = Some []" using full by auto
  qed
qed


section \<open>Properties\<close>

text \<open>C9: On a complete explanation \<open>Explain\<close> and admission agree: for a reachable, open engine and an
  identity whose every relevant field is known, \<open>CanStart\<close> holds exactly when no rule blocks the
  admission check made at the same time (provided the rules spell their provider in lower case
  without surrounding blanks; see \<open>explain_misses_provider_rule\<close>).\<close>

theorem explain_matches_admission:
  assumes "reachable (flow_init cfg) flow_step (e, t)" and "\<not> e_closed e" and "c_Enabled (e_cfg e)"
    and "\<forall>r\<in>set (c_Rules (e_cfg e)). ToLower (TrimSpace (r_Provider r)) = r_Provider r"
    and "d_Stage d = Attempt \<longrightarrow> d_Provider d \<noteq> ''''"
    and "x_Complete (explainPolicyLocked d now True (e_cfg e) False e)"
    and "checkLocked d now False e = (e1, ms, nxt, bl, None)"
  shows "x_CanStart (explainPolicyLocked d now True (e_cfg e) False e) \<longleftrightarrow> bl = ''''"
proof -
  let ?rs = "c_Rules (e_cfg e)"
  define x0 where "x0 = \<lparr>x_Identity = d, x_Enabled = c_Enabled (e_cfg e), x_Complete = True, x_Unresolved = [], x_CanStart = (\<not> e_closed e),
                x_AdditionalSlots = None, x_Matches = [], x_BlockingRules = [], x_SampledAt = now, x_PolicyRevision = 0,
                x_Draft = False, x_AdvisoryOnly = True, x_ConfigurationError = None\<rparr>"
  define x1 where "x1 = fold (explain_rule d now True (e_cfg e) False e) ?rs x0"
  have red: "x_Complete (explainPolicyLocked d now True (e_cfg e) False e) = x_Complete x1"
    "x_Complete x1 \<Longrightarrow> x_CanStart (explainPolicyLocked d now True (e_cfg e) False e) = x_CanStart x1"
    using assms(3) by (auto simp: explainPolicyLocked_def Let_def x1_def x0_def)
  have c1: "x_Complete x1" using assms(6) red(1) by simp
  have full: "\<forall>r\<in>set ?rs. \<forall>ms. explainIdentityMatch r d = Some ms \<longrightarrow> ms = []"
    and can: "x_CanStart x1 \<longleftrightarrow> (\<forall>r\<in>set ?rs. explainIdentityMatch r d = Some [] \<longrightarrow> re_BlockedBy (evaluate_rule d now e r []) = [])"
    using explain_fold[OF assms(3) c1[unfolded x1_def]] assms(2) by (auto simp: x1_def x0_def)
  have ok: "policy_ok (e_cfg e)"
    using machine.reachable_inv[OF assms(1)] by (auto simp: flow_inv_def limited_def running_policy_def)
  have mat: "explainIdentityMatch r d = Some [] \<longleftrightarrow> rule_matches r d" if "r \<in> set ?rs" for r
    using explain_match assms(4,5) full that by blast
  have blk: "re_BlockedBy (evaluate_rule d now e r []) = [] \<longleftrightarrow> \<not> rule_blocked now r (load (e_buckets e) (bucketID r d))"
    if "r \<in> set ?rs" for r
    by (rule evaluate_rule_blocked[of "c_MaxHistory (e_cfg e)"]) (use ok that in \<open>simp add: policy_ok_def\<close>)
  have cr: "check_rules d now False (c_MaxBuckets (e_cfg e)) ?rs (e_buckets e) [] 0 '''' = (e_buckets e1, ms, nxt, bl, None)"
    using checkLocked_rules[OF assms(7)] by metis
  have ids: "\<forall>r\<in>set ?rs. r_ID r \<noteq> ''''" using ok by (auto simp: policy_ok_def ruleID_match_def)
  have "set (counted_rules d False ?rs) = {r \<in> set ?rs. rule_matches r d}" by (auto simp: counted_rules_def skips_model_def)
  then show ?thesis
    using check_rules_blocked[OF cr ids] can mat blk red(2)[OF c1] by auto
qed

text \<open>The state before any traffic, where the sample policy can be evaluated.\<close>

definition quiet_engine :: engine where
  "quiet_engine = projr (New 7 sample_policy)"

definition quiet_check :: "engine \<times> check_result" where
  "quiet_check = checkLocked sample_identity 5 False quiet_engine"

theorem explain_matches_admission_witness:
  "x_CanStart (explainPolicyLocked sample_identity 5 True (e_cfg quiet_engine) False quiet_engine) \<longleftrightarrow> fst (snd (snd (snd quiet_check))) = ''''"
proof -
  have n: "New 7 sample_policy = Inr quiet_engine" by (simp add: New_def sample_policy_valid quiet_engine_def)
  have e: "e_cfg quiet_engine = Effective sample_policy" "\<not> e_closed quiet_engine"
    by (simp_all add: quiet_engine_def New_def sample_policy_valid)
  have r: "reachable (flow_init sample_policy) flow_step (quiet_engine, 0)"
    by (rule reach_init) (use n in \<open>auto simp: flow_init_def sample_policy_enabled\<close>)
  have a: "c_Enabled (e_cfg quiet_engine)" by (simp add: e sample_policy_enabled)
  have p: "\<forall>r\<in>set (c_Rules (e_cfg quiet_engine)). ToLower (TrimSpace (r_Provider r)) = r_Provider r"
    unfolding e by (simp add: Effective_rules sample_policy_def blank_rule_def) code_simp
  have c: "x_Complete (explainPolicyLocked sample_identity 5 True (e_cfg quiet_engine) False quiet_engine)" by code_simp
  have k: "snd (snd (snd (snd quiet_check))) = None" by code_simp
  obtain e1 ms nxt bl er where q: "quiet_check = (e1, ms, nxt, bl, er)" by (metis prod_cases5)
  have kn: "er = None" using k unfolding q by simp
  show ?thesis
    unfolding q using explain_matches_admission[OF r e(2) a p _ c, of e1 ms nxt bl] q[unfolded kn quiet_check_def]
    by (simp add: sample_identity_def)
qed


definition upper_rule :: Rule where
  "upper_rule = blank_rule\<lparr>r_ID := ''up'', r_Stage := Attempt, r_Scope := ''account'', r_Provider := ''OpenAI'', r_MaxConcurrent := 1\<rparr>"

definition upper_policy :: Config where
  "upper_policy = sample_policy\<lparr>c_Rules := [upper_rule]\<rparr>"

definition upper_identity :: Identity where
  "upper_identity = normalized (sample_identity\<lparr>d_Stage := Attempt, d_Provider := ''OpenAI'', d_Account := ''acc'',
     d_Credential := ''acc'', d_AuthKind := ''oauth''\<rparr>)"

text \<open>A validated policy may write a provider in capitals. Admission compares it in lower case, so the
  rule counts the attempt; \<open>Explain\<close> and \<open>Preview\<close> compare it as written and leave the rule out.\<close>

theorem explain_misses_provider_rule:
  "Validate upper_policy = None \<and>
   map (\<lambda>r. rule_matches r upper_identity) (c_Rules (Effective upper_policy)) = [True] \<and>
   map (\<lambda>r. explainIdentityMatch r upper_identity) (c_Rules (Effective upper_policy)) = [None]"
proof (intro conjI)
  show "Validate upper_policy = None" by code_simp
  show "map (\<lambda>r. rule_matches r upper_identity) (c_Rules (Effective upper_policy)) = [True]" by code_simp
  show "map (\<lambda>r. explainIdentityMatch r upper_identity) (c_Rules (Effective upper_policy)) = [None]" by code_simp
qed

lemma bump_total: "keys_distinct m \<Longrightarrow> asum (\<lambda>n. n) (bump k m) = asum (\<lambda>n. n) m + 1 \<and> keys_distinct (bump k m)"
  by (auto simp: bump_def asum_adjust map_of_eq_None_iff split: option.splits)

lemma summary_waiters:
  assumes "keys_distinct (s_Blocked s)"
  shows "s_WaitingRequests (fold (summary_waiter now e) ws s) + s_WaitingAttempts (fold (summary_waiter now e) ws s) =
      s_WaitingRequests s + s_WaitingAttempts s + int (length ws) \<and>
    asum (\<lambda>n. n) (s_Blocked (fold (summary_waiter now e) ws s)) =
      asum (\<lambda>n. n) (s_Blocked s) + int (length (filter (\<lambda>w. wt_blocked w \<noteq> '''') ws)) \<and>
    s_Requests (fold (summary_waiter now e) ws s) = s_Requests s \<and> s_Attempts (fold (summary_waiter now e) ws s) = s_Attempts s \<and>
    s_Waiting (fold (summary_waiter now e) ws s) = s_Waiting s"
  using assms
proof (induction ws arbitrary: s)
  case (Cons w ws)
  have "keys_distinct (s_Blocked (summary_waiter now e w s))"
    using Cons.prems bump_total by (auto simp: summary_waiter_def Let_def)
  from Cons.IH[OF this] Cons.prems bump_total[OF Cons.prems] show ?case by (auto simp: summary_waiter_def Let_def)
qed simp

text \<open>The counts of a summary are partitions: running requests and attempts add up to the running
  records, waiting requests and attempts to the queue, and the waiters counted under a blocking
  rule are exactly those that have one.\<close>

theorem summary_partitions:
  "s_Requests (summaryLocked now e) + s_Attempts (summaryLocked now e) = int (length (e_active e)) \<and>
   s_Waiting (summaryLocked now e) = int (length (e_queue e)) \<and>
   s_WaitingRequests (summaryLocked now e) + s_WaitingAttempts (summaryLocked now e) = s_Waiting (summaryLocked now e) \<and>
   asum (\<lambda>n. n) (s_Blocked (summaryLocked now e)) = int (length (filter (\<lambda>w. wt_blocked w \<noteq> '''') (e_queue e)))"
proof -
  let ?f = summary_active
  have f: "s_Requests (fold ?f as s) + s_Attempts (fold ?f as s) = s_Requests s + s_Attempts s + int (length as) \<and>
      s_Waiting (fold ?f as s) = s_Waiting s \<and> s_WaitingRequests (fold ?f as s) = s_WaitingRequests s \<and>
      s_WaitingAttempts (fold ?f as s) = s_WaitingAttempts s \<and> s_Blocked (fold ?f as s) = s_Blocked s" for as s
    by (induction as arbitrary: s) (auto simp: summary_active_def)
  show ?thesis
    unfolding summaryLocked_def Let_def using f summary_waiters by simp
qed

end
