(* ===== verification/FlowMigration.thy ===== *)
theory FlowMigration
  imports FlowConfigLemmas
begin

text \<open>
  Proposing a version 3 policy for an older one (\<open>migration.go\<close>) and holding a slot while a stream
  drains (\<open>stream.go\<close>).
\<close>

section \<open>Migration (migration.go)\<close>

record AuthReference =
  ar_Legacy :: string
  ar_Ref :: string
  ar_Provider :: string
  ar_AuthKind :: string

datatype migration_reason = BadRuleDimensions dim_error | GroupAmbiguous | AccountMissingOrAmbiguous
  | CredentialMissing | AccountCredentialDisagree | PolicyInvalid cfg_error

record MigrationIssue =
  mi_Rule :: string
  mi_Reason :: migration_reason

record Migration =
  m_Config :: Config
  m_Issues :: "MigrationIssue list"
  m_Ready :: bool

definition issue :: "string \<Rightarrow> migration_reason \<Rightarrow> MigrationIssue" where
  "issue rule reason = \<lparr>mi_Rule = rule, mi_Reason = reason\<rparr>"

text \<open>\<open>oldMap\<close>: the references of the accounts the rule selects, by legacy account.\<close>

definition reference_selected :: "Rule \<Rightarrow> AuthReference \<Rightarrow> bool" where
  "reference_selected r a \<longleftrightarrow> exact (ToLower (TrimSpace (r_Provider r))) (ToLower (ar_Provider a)) \<and>
     exact (r_AuthKind r) (ar_AuthKind a) \<and> exact (r_Account r) (ar_Legacy a) \<and> exact (r_Credential r) (ar_Ref a)"

definition old_refs :: "Rule \<Rightarrow> AuthReference list \<Rightarrow> string \<Rightarrow> string list" where
  "old_refs r refs legacy = map ar_Ref (filter (\<lambda>a. reference_selected r a \<and> ar_Legacy a = legacy) refs)"

definition migrated_dims :: "string list \<Rightarrow> string list" where
  "migrated_dims dims = rev (remdups (rev (map (\<lambda>d. ReplaceAll d ''credential'' ''account'') dims)))"

definition migrate_rule :: "AuthReference list \<Rightarrow> Rule \<Rightarrow> MigrationIssue list \<times> Rule" where
  "migrate_rule refs r =
     (case Dimensions r of Inl er \<Rightarrow> ([issue (r_ID r) (BadRuleDimensions er)], r)
      | Inr dims0 \<Rightarrow>
        let dims = elems dims0;
            selected = filter (reference_selected r) refs;
            i1 = (if ''account'' \<in> set dims \<and> list_ex (\<lambda>a. length (old_refs r refs (ar_Legacy a)) > 1) selected
                  then [issue (r_ID r) GroupAmbiguous] else []);
            named = r_Account r \<noteq> '''' \<and> r_Account r \<noteq> ''*'';
            ids = old_refs r refs (r_Account r);
            i2 = (if named \<and> length ids \<noteq> 1 then [issue (r_ID r) AccountMissingOrAmbiguous] else []);
            account1 = (if named \<and> length ids = 1 then hd ids else '''');
            credential = r_Credential r \<noteq> '''' \<and> r_Credential r \<noteq> ''*'';
            i3 = (if credential \<and> \<not> list_ex (\<lambda>a. ar_Ref a = r_Credential r) refs then [issue (r_ID r) CredentialMissing] else []);
            i4 = (if credential \<and> account1 \<noteq> '''' \<and> account1 \<noteq> r_Credential r
                  then [issue (r_ID r) AccountCredentialDisagree] else []);
            account = (if credential then r_Credential r else account1)
        in (i1 @ i2 @ i3 @ i4,
            r\<lparr>r_Account := '''', r_Credential := '''',
              r_Accounts := (if account \<noteq> '''' then Some [account] else None),
              r_Keys := (if r_Key r \<noteq> '''' \<and> r_Key r \<noteq> ''*'' then Some [r_Key r] else r_Keys r), r_Key := '''',
              r_Models := (if r_Model r \<noteq> '''' \<and> r_Model r \<noteq> ''*'' then Some [r_Model r] else r_Models r), r_Model := '''',
              r_Scope := ''custom'', r_GroupBy := Some (migrated_dims dims)\<rparr>))"

definition Migrate :: "Config \<Rightarrow> AuthReference list \<Rightarrow> Migration" where
  "Migrate cfg refs =
     (let c = Effective cfg in
      if c_Version c \<ge> 3 then
        (case Validate c of Some er \<Rightarrow> \<lparr>m_Config = c, m_Issues = [issue '''' (PolicyInvalid er)], m_Ready = False\<rparr>
         | None \<Rightarrow> \<lparr>m_Config = c, m_Issues = [], m_Ready = True\<rparr>)
      else
        let rows = map (migrate_rule refs) (c_Rules c);
            issues = concat (map fst rows);
            out = Effective (c\<lparr>c_Version := 3, c_Rules := map snd rows\<rparr>)
        in if issues \<noteq> [] then \<lparr>m_Config = out, m_Issues = issues, m_Ready = False\<rparr>
           else (case Validate (out\<lparr>c_Enabled := True\<rparr>) of
                   Some er \<Rightarrow> \<lparr>m_Config = out, m_Issues = [issue '''' (PolicyInvalid er)], m_Ready = False\<rparr>
                 | None \<Rightarrow> \<lparr>m_Config = out, m_Issues = [], m_Ready = True\<rparr>))"

section \<open>Holding a stream (stream.go)\<close>

text \<open>
  \<open>HoldChannel\<close> copies a channel while holding a slot. The loop's two \<open>select\<close>s are nondeterministic;
  \<open>hold\<close> runs it on the choices made: \<open>Recv v\<close> and \<open>SourceClosed\<close> are what the source channel gives,
  \<open>Cancelled\<close> that the context's branch was taken (before or instead of forwarding), \<open>Send\<close> that the
  consumer took the value. The result records what happened, in order.
\<close>

datatype 'a hold_choice = Recv 'a | SourceClosed | Cancelled | Send

datatype 'a hold_event = Forward 'a | Drained 'a | CancelCallback | ReleaseSlot | CloseOut

text \<open>The loop's position: at the first select, holding a received value, draining, or done.\<close>

datatype 'a hold_state = Waiting | Holding 'a | Draining | Finished

fun hold_step :: "'a hold_state \<Rightarrow> 'a hold_choice \<Rightarrow> 'a hold_state \<times> 'a hold_event list" where
  "hold_step Waiting Cancelled = (Draining, [CancelCallback])"
| "hold_step Waiting (Recv v) = (Holding v, [])"
| "hold_step Waiting SourceClosed = (Finished, [ReleaseSlot, CloseOut])"
| "hold_step (Holding v) Send = (Waiting, [Forward v])"
| "hold_step (Holding v) Cancelled = (Draining, [CancelCallback])"
| "hold_step Draining (Recv v) = (Draining, [Drained v])"
| "hold_step Draining SourceClosed = (Finished, [ReleaseSlot, CloseOut])"
| "hold_step s c = (s, [])"

fun hold :: "'a hold_state \<Rightarrow> 'a hold_choice list \<Rightarrow> 'a hold_state \<times> 'a hold_event list" where
  "hold s [] = (s, [])"
| "hold s (c # cs) = (let (s1, ev) = hold_step s c; (s2, evs) = hold s1 cs in (s2, ev @ evs))"

section \<open>Lemmas\<close>

lemma migrate_rule_keeps:
  "r_ID (snd (migrate_rule refs r)) = r_ID r" "r_Stage (snd (migrate_rule refs r)) = r_Stage r"
  "r_MaxConcurrent (snd (migrate_rule refs r)) = r_MaxConcurrent r" "r_Windows (snd (migrate_rule refs r)) = r_Windows r"
  "r_Provider (snd (migrate_rule refs r)) = r_Provider r" "r_AuthKind (snd (migrate_rule refs r)) = r_AuthKind r"
  by (simp_all add: migrate_rule_def Let_def split: sum.splits)

lemma effective_rule_legacy: "r_Account (effective_rule v r) = r_Account r" "r_Credential (effective_rule v r) = r_Credential r"
  "r_Provider (effective_rule v r) = r_Provider r" "r_AuthKind (effective_rule v r) = r_AuthKind r"
  by (simp_all add: effective_rule_def compileGrouping_def Let_def)

lemma migrate_rule_legacy:
  "fst (migrate_rule refs r) = [] \<Longrightarrow> r_Account (snd (migrate_rule refs r)) = '''' \<and> r_Credential (snd (migrate_rule refs r)) = '''' \<and>
     r_Scope (snd (migrate_rule refs r)) = ''custom''"
  by (auto simp: migrate_rule_def Let_def split: sum.splits)

lemma migrate_rule_selects:
  assumes "fst (migrate_rule refs r) = []"
  shows "r_Accounts (snd (migrate_rule refs r)) =
     (if r_Credential r \<noteq> '''' \<and> r_Credential r \<noteq> ''*'' then Some [r_Credential r]
      else if r_Account r \<noteq> '''' \<and> r_Account r \<noteq> ''*'' \<and> hd (old_refs r refs (r_Account r)) \<noteq> ''''
      then Some (old_refs r refs (r_Account r)) else None)"
proof -
  have one: "length xs = 1 \<Longrightarrow> [hd xs] = xs" for xs :: "string list" by (cases xs) auto
  show ?thesis
    using assms by (auto simp: migrate_rule_def Let_def one split: sum.splits if_splits)
qed

lemma Migrate_ready_valid: "m_Ready (Migrate cfg refs) \<Longrightarrow> c_Version (Effective cfg) < 3 \<Longrightarrow>
    Validate ((m_Config (Migrate cfg refs))\<lparr>c_Enabled := True\<rparr>) = None"
  by (auto simp: Migrate_def Let_def split: if_splits option.splits)

section \<open>Properties\<close>

text \<open>C10: A migration reports itself ready exactly when it raises no issue. A ready proposal for an older
  policy is a version 3 policy that validates when enabled, with the same rules in the same order:
  each keeps its name, stage, concurrency cap, windows, provider and auth kind, and no rule selects
  by a legacy account or credential any more.\<close>

theorem migrate_ready_sound:
  "(m_Ready (Migrate cfg refs) \<longleftrightarrow> m_Issues (Migrate cfg refs) = []) \<and>
   (m_Ready (Migrate cfg refs) \<and> c_Version (Effective cfg) < 3 \<longrightarrow>
      c_Version (m_Config (Migrate cfg refs)) = 3 \<and>
      Validate ((m_Config (Migrate cfg refs))\<lparr>c_Enabled := True\<rparr>) = None \<and>
      map (\<lambda>r. (r_ID r, r_Stage r, r_MaxConcurrent r, r_Windows r, r_Provider r, r_AuthKind r)) (c_Rules (m_Config (Migrate cfg refs))) =
      map (\<lambda>r. (r_ID r, r_Stage r, r_MaxConcurrent r, r_Windows r, r_Provider r, r_AuthKind r)) (c_Rules cfg) \<and>
      list_all (\<lambda>r. r_Account r = '''' \<and> r_Credential r = '''') (c_Rules (m_Config (Migrate cfg refs))))"
  (is "_ \<and> (_ \<longrightarrow> ?A \<and> ?B \<and> ?C \<and> ?D)")
proof -
  have a: "m_Ready (Migrate cfg refs) \<longleftrightarrow> m_Issues (Migrate cfg refs) = []"
    by (auto simp: Migrate_def Let_def split: option.splits)
  moreover have "?A \<and> ?B \<and> ?C \<and> ?D"
    if r: "m_Ready (Migrate cfg refs)" and v: "c_Version (Effective cfg) < 3"
  proof -
    let ?rows = "map (migrate_rule refs) (c_Rules (Effective cfg))"
    have iss: "concat (map fst ?rows) = []" using r v by (auto simp: Migrate_def Let_def split: if_splits)
    have c: "m_Config (Migrate cfg refs) = Effective ((Effective cfg)\<lparr>c_Version := 3, c_Rules := map snd ?rows\<rparr>)"
      using r v by (auto simp: Migrate_def Let_def split: if_splits option.splits)
    have vv: "effectiveVersion ((Effective cfg)\<lparr>c_Version := 3, c_Rules := rs\<rparr>) = 3" for rs by (simp add: effectiveVersion_def)
    have rules: "c_Rules (m_Config (Migrate cfg refs)) =
        map (\<lambda>r. effective_rule 3 (snd (migrate_rule refs (effective_rule (effectiveVersion cfg) r)))) (c_Rules cfg)"
      unfolding c by (simp add: Effective_def Let_def effectiveVersion_def)
    have leg: "r_Account (snd (migrate_rule refs r)) = '''' \<and> r_Credential (snd (migrate_rule refs r)) = ''''"
      if "r \<in> set (c_Rules (Effective cfg))" for r
      using migrate_rule_legacy[of refs r] iss that by auto
    have "?D" unfolding rules using leg by (auto simp: list_all_iff Effective_def Let_def effective_rule_legacy)
    moreover have "?C" unfolding rules by (simp add: migrate_rule_keeps effective_rule_legacy comp_def)
    moreover have "?B" using Migrate_ready_valid[OF r] v by simp
    moreover have "c_Version (m_Config (Migrate cfg refs)) = 3" unfolding c by (simp add: effectiveVersion_def)
    ultimately show ?thesis by simp
  qed
  ultimately show ?thesis by simp
qed


definition legacy_policy :: Config where
  "legacy_policy = sample_policy\<lparr>c_Version := 2, c_Rules := [blank_rule\<lparr>r_ID := ''k'', r_Scope := ''key'', r_MaxConcurrent := 2\<rparr>]\<rparr>"

theorem migrate_ready_sound_witness:
  "m_Ready (Migrate legacy_policy []) \<and> c_Version (m_Config (Migrate legacy_policy [])) = 3"
proof -
  have "m_Ready (Migrate legacy_policy [])" by code_simp
  moreover have "c_Version (Effective legacy_policy) < 3" by code_simp
  ultimately show ?thesis using migrate_ready_sound by blast
qed

text \<open>The values the loop took from the source and those it handed on.\<close>

fun received :: "'a hold_state \<Rightarrow> 'a hold_choice list \<Rightarrow> 'a list" where
  "received s [] = []"
| "received s (c # cs) = (case (s, c) of (Waiting, Recv v) \<Rightarrow> [v] | (Draining, Recv v) \<Rightarrow> [v] | _ \<Rightarrow> [])
     @ received (fst (hold_step s c)) cs"

fun forwarded :: "'a hold_event list \<Rightarrow> 'a list" where
  "forwarded [] = []"
| "forwarded (Forward v # evs) = v # forwarded evs"
| "forwarded (_ # evs) = forwarded evs"

definition in_hand :: "'a hold_state \<Rightarrow> 'a list" where
  "in_hand s = (case s of Holding v \<Rightarrow> [v] | _ \<Rightarrow> [])"

lemma forwarded_append: "forwarded (xs @ ys) = forwarded xs @ forwarded ys"
  by (induction xs rule: forwarded.induct) auto

lemma hold_Cons: "hold s (c # cs) = (fst (hold (fst (hold_step s c)) cs), snd (hold_step s c) @ snd (hold (fst (hold_step s c)) cs))"
  by (auto split: prod.splits)

lemma hold_not_waiting:
  "hold Finished cs = (Finished, [])" "forwarded (snd (hold Draining cs)) = []"
proof -
  show f: "hold Finished cs = (Finished, [])" for cs :: "'b hold_choice list" by (induction cs) auto
  show "forwarded (snd (hold Draining cs)) = []"
  proof (induction cs)
    case (Cons c cs)
    then show ?case by (cases c) (simp_all add: hold_Cons forwarded_append f del: hold.simps(2))
  qed simp
qed

lemma hold_prefix: "\<exists>ys. in_hand s @ received s cs = forwarded (snd (hold s cs)) @ ys"
proof (induction cs arbitrary: s)
  case (Cons c cs)
  obtain ys where ys: "in_hand (fst (hold_step s c)) @ received (fst (hold_step s c)) cs =
      forwarded (snd (hold (fst (hold_step s c)) cs)) @ ys" using Cons by blast
  show ?case
  proof (cases s)
    case Waiting
    with ys show ?thesis by (cases c) (auto simp: hold_Cons in_hand_def forwarded_append hold_not_waiting simp del: hold.simps)
  next
    case (Holding v)
    with ys show ?thesis by (cases c) (auto simp: hold_Cons in_hand_def forwarded_append hold_not_waiting simp del: hold.simps)
  next
    case Draining
    show ?thesis unfolding Draining hold_not_waiting(2) by simp
  next
    case Finished
    show ?thesis unfolding Finished hold_not_waiting(1) by simp
  qed
qed simp

lemma hold_release:
  "s \<noteq> Finished \<Longrightarrow>
    (if fst (hold s cs) = Finished
     then SourceClosed \<in> set cs \<and> (\<exists>evs. snd (hold s cs) = evs @ [ReleaseSlot, CloseOut] \<and> ReleaseSlot \<notin> set evs \<and> CloseOut \<notin> set evs)
     else ReleaseSlot \<notin> set (snd (hold s cs)) \<and> CloseOut \<notin> set (snd (hold s cs)))"
proof (induction cs arbitrary: s)
  case (Cons c cs)
  show ?case
  proof (cases "fst (hold_step s c) = Finished")
    case True
    then have "c = SourceClosed" "snd (hold_step s c) = [ReleaseSlot, CloseOut]" using Cons.prems by (cases s; cases c; simp)+
    with True show ?thesis by (auto simp: hold_Cons hold_not_waiting simp del: hold.simps)
  next
    case False
    have q: "ReleaseSlot \<notin> set (snd (hold_step s c)) \<and> CloseOut \<notin> set (snd (hold_step s c))"
      using False by (cases s; cases c; simp)
    note ih = Cons.IH[OF False]
    show ?thesis
    proof (cases "fst (hold (fst (hold_step s c)) cs) = Finished")
      case True
      then obtain evs where "snd (hold (fst (hold_step s c)) cs) = evs @ [ReleaseSlot, CloseOut]"
        "ReleaseSlot \<notin> set evs" "CloseOut \<notin> set evs" "SourceClosed \<in> set cs" using ih by auto
      with True q show ?thesis
        by (auto simp: hold_Cons simp del: hold.simps intro!: exI[of _ "snd (hold_step s c) @ evs"])
    next
      case no: False
      with ih q show ?thesis by (auto simp: hold_Cons simp del: hold.simps)
    qed
  qed
qed simp

text \<open>\<open>HoldChannel\<close> gives its slot back exactly once, after the source has closed and after everything
  else it does, then closes its output; until then, cancelled or not, the slot stays held. What
  the consumer receives is a prefix of what the source produced, in order.\<close>

theorem hold_channel_release_once:
  "(fst (hold Waiting cs) = Finished \<longrightarrow>
      SourceClosed \<in> set cs \<and>
      (\<exists>evs. snd (hold Waiting cs) = evs @ [ReleaseSlot, CloseOut] \<and> ReleaseSlot \<notin> set evs \<and> CloseOut \<notin> set evs)) \<and>
   (fst (hold Waiting cs) \<noteq> Finished \<longrightarrow> ReleaseSlot \<notin> set (snd (hold Waiting cs)) \<and> CloseOut \<notin> set (snd (hold Waiting cs))) \<and>
   (\<exists>ys. received Waiting cs = forwarded (snd (hold Waiting cs)) @ ys)"
  using hold_release[of Waiting cs] hold_prefix[of Waiting cs] by (auto simp: in_hand_def split: if_splits)

theorem hold_channel_release_once_witness:
  "fst (hold Waiting [Recv (1 :: nat), Send, Recv 2, Cancelled, Recv 3, SourceClosed]) = Finished \<and>
   SourceClosed \<in> set [Recv (1 :: nat), Send, Recv 2, Cancelled, Recv 3, SourceClosed]"
  using hold_channel_release_once[of "[Recv (1 :: nat), Send, Recv 2, Cancelled, Recv 3, SourceClosed]"] by simp

end
