(* ===== verification/UsageQueue.thy ===== *)
theory UsageQueue
  imports GoBase "HOL-Library.Word"
begin

text \<open>
  The usage and error queues of \<open>src/internal/redisqueue/queue.go\<close>: a slice with a moving
  head that keeps usage records for the retention window, and the subscribers, Go channels
  that take the records instead of the slice while there are any.

  Channels live in a store (a list, the index is the identity of the channel), because the
  receivers keep a channel after the queue has dropped it. A send on a closed channel and a
  second close of a channel panic in Go; here they are the value \<^const>\<open>None\<close>. The critical
  sections under \<open>q.mu\<close> are the steps of \<open>usage_step\<close>; the closes that \<open>clear\<close> and
  \<open>unsubscribe\<close> perform after the unlock are steps of their own, so that every interleaving
  of goroutines is a path of that relation.
\<close>

section \<open>Data\<close>

type_synonym payload = string

definition defaultRetentionSeconds :: int where
  "defaultRetentionSeconds = 60"

definition maxRetentionSeconds :: int where
  "maxRetentionSeconds = 3600"

definition usageSubscriberBuffer :: nat where
  "usageSubscriberBuffer = 256"

definition errorSubscriberBuffer :: nat where
  "errorSubscriberBuffer = 256"

definition usageSupportRefreshPayload :: payload where
  "usageSupportRefreshPayload = ''{\"support_refresh\":true}''"

definition usageRefreshPayload :: payload where
  "usageRefreshPayload = ''{\"refresh\":true}''"

record queueItem =
  enqueuedAt :: int
  payload :: payload

record channel =
  buffered :: "payload list"
  chan_cap :: nat
  chan_closed :: bool

record usage_queue =
  items :: "queueItem list"
  head_at :: nat
  subscribers :: "(64 word \<times> nat) list"
  nextSubscriberID :: "64 word"

definition empty_queue :: usage_queue where
  "empty_queue = \<lparr>items = [], head_at = 0, subscribers = [], nextSubscriberID = 0\<rparr>"

section \<open>Channels\<close>

definition make_chan :: "channel list \<Rightarrow> nat \<Rightarrow> channel list \<times> nat" where
  "make_chan chs n = (chs @ [\<lparr>buffered = [], chan_cap = n, chan_closed = False\<rparr>], length chs)"

text \<open>\<open>select { case c <- p: ... default: ... }\<close>: \<^const>\<open>None\<close> is the panic, the flag says
  whether the value was sent.\<close>

definition try_send :: "channel list \<Rightarrow> nat \<Rightarrow> payload \<Rightarrow> (channel list \<times> bool) option" where
  "try_send chs c p =
     (if c \<ge> length chs \<or> chan_closed (chs ! c) then None
      else if length (buffered (chs ! c)) < chan_cap (chs ! c)
      then Some (chs[c := (chs ! c)\<lparr>buffered := buffered (chs ! c) @ [p]\<rparr>], True)
      else Some (chs, False))"

definition close_chan :: "channel list \<Rightarrow> nat \<Rightarrow> channel list option" where
  "close_chan chs c =
     (if c \<ge> length chs \<or> chan_closed (chs ! c) then None
      else Some (chs[c := (chs ! c)\<lparr>chan_closed := True\<rparr>]))"

text \<open>A receive takes the oldest buffered value, also from a closed channel.\<close>

definition receive :: "channel list \<Rightarrow> nat \<Rightarrow> (channel list \<times> payload) option" where
  "receive chs c =
     (if c \<ge> length chs then None
      else case buffered (chs ! c) of
        [] \<Rightarrow> None
      | p # ps \<Rightarrow> Some (chs[c := (chs ! c)\<lparr>buffered := ps\<rparr>], p))"

section \<open>The queue\<close>

definition windowSeconds :: "int \<Rightarrow> int" where
  "windowSeconds retention = (if retention \<le> 0 then defaultRetentionSeconds else retention)"

definition cutoff :: "int \<Rightarrow> int \<Rightarrow> int" where
  "cutoff retention now = now - windowSeconds retention * 1000000000"

function prune_loop :: "int \<Rightarrow> queueItem list \<Rightarrow> nat \<Rightarrow> nat" where
  "prune_loop lim xs h =
     (if h < length xs \<and> enqueuedAt (xs ! h) < lim then prune_loop lim xs (h + 1) else h)"
  by pat_completeness auto
termination by (relation "measure (\<lambda>(_, xs, h). length xs - h)") auto

declare prune_loop.simps [simp del]

definition pruneLocked :: "int \<Rightarrow> int \<Rightarrow> usage_queue \<Rightarrow> usage_queue" where
  "pruneLocked retention now q =
     (if head_at q \<ge> length (items q) then q\<lparr>items := [], head_at := 0\<rparr>
      else q\<lparr>head_at := prune_loop (cutoff retention now) (items q) (head_at q)\<rparr>)"

definition maybeCompactLocked :: "usage_queue \<Rightarrow> usage_queue" where
  "maybeCompactLocked q =
     (if head_at q = 0 then q
      else if head_at q \<ge> length (items q) then q\<lparr>items := [], head_at := 0\<rparr>
      else if int (head_at q) < 1024 \<and> head_at q * 2 < length (items q) then q
      else q\<lparr>items := drop (head_at q) (items q), head_at := 0\<rparr>)"

definition enqueue :: "int \<Rightarrow> int \<Rightarrow> payload \<Rightarrow> usage_queue \<Rightarrow> usage_queue" where
  "enqueue retention now p q =
     (let q = pruneLocked retention now q;
          q = q\<lparr>items := items q @ [\<lparr>enqueuedAt = now, payload = p\<rparr>]\<rparr>
      in maybeCompactLocked q)"

definition popOldest :: "int \<Rightarrow> int \<Rightarrow> nat \<Rightarrow> usage_queue \<Rightarrow> payload list \<times> usage_queue" where
  "popOldest retention now cnt q =
     (let q = pruneLocked retention now q;
          available = int (length (items q)) - int (head_at q)
      in if available \<le> 0 then ([], q\<lparr>items := [], head_at := 0\<rparr>)
         else let cnt = min cnt (nat available);
                  out = map (\<lambda>i. payload (items q ! (head_at q + i))) [0..<cnt]
              in (out, maybeCompactLocked (q\<lparr>head_at := head_at q + cnt\<rparr>)))"

fun publish_loop :: "payload \<Rightarrow> (64 word \<times> nat) list \<Rightarrow> (64 word \<times> nat) list \<Rightarrow> channel list \<Rightarrow>
    ((64 word \<times> nat) list \<times> channel list) option" where
  "publish_loop p [] subs chs = Some (subs, chs)"
| "publish_loop p ((i, c) # rest) subs chs =
     (case try_send chs c p of
        None \<Rightarrow> None
      | Some (chs1, True) \<Rightarrow> publish_loop p rest subs chs1
      | Some (chs1, False) \<Rightarrow>
          (case close_chan chs1 c of
             None \<Rightarrow> None
           | Some chs2 \<Rightarrow> publish_loop p rest (AList.delete i subs) chs2))"

definition publishToSubscribers ::
  "payload \<Rightarrow> usage_queue \<Rightarrow> channel list \<Rightarrow> (bool \<times> usage_queue \<times> channel list) option" where
  "publishToSubscribers p q chs =
     (if subscribers q = [] then Some (False, q, chs)
      else map_option (\<lambda>(subs, chs'). (True, q\<lparr>subscribers := subs\<rparr>, chs'))
             (publish_loop p (subscribers q) (subscribers q) chs))"

text \<open>\<open>subscribe\<close>: the channel is made and gets its first payload before the lock is taken; the
  result is the channel and the id the unsubscribe closure holds. The buffers are never empty,
  so the send of the first payload cannot block.\<close>

definition subscribe :: "nat \<Rightarrow> payload \<Rightarrow> usage_queue \<Rightarrow> channel list \<Rightarrow>
    (nat \<times> 64 word \<times> usage_queue \<times> channel list) option" where
  "subscribe buffer initial q chs =
     (let (chs1, c) = make_chan chs buffer in
      case (if initial = [] then Some (chs1, True) else try_send chs1 c initial) of
        None \<Rightarrow> None
      | Some (chs2, _) \<Rightarrow>
          (let i = nextSubscriberID q + 1 in
           Some (c, i, q\<lparr>nextSubscriberID := i, subscribers := AList.update i c (subscribers q)\<rparr>, chs2)))"

text \<open>The locked parts of \<open>clear\<close> and \<open>unsubscribe\<close>: they hand back the channels to close.\<close>

definition clear_locked :: "usage_queue \<Rightarrow> nat list \<times> usage_queue" where
  "clear_locked q = (map snd (subscribers q), q\<lparr>items := [], head_at := 0, subscribers := []\<rparr>)"

definition unsubscribe_locked :: "64 word \<Rightarrow> usage_queue \<Rightarrow> nat list \<times> usage_queue" where
  "unsubscribe_locked i q =
     (case map_of (subscribers q) i of
        None \<Rightarrow> ([], q)
      | Some c \<Rightarrow> ([c], q\<lparr>subscribers := AList.delete i (subscribers q)\<rparr>))"

fun close_all :: "nat list \<Rightarrow> channel list \<Rightarrow> channel list option" where
  "close_all [] chs = Some chs"
| "close_all (c # cs) chs = (case close_chan chs c of None \<Rightarrow> None | Some chs' \<Rightarrow> close_all cs chs')"

definition clear :: "usage_queue \<Rightarrow> channel list \<Rightarrow> (usage_queue \<times> channel list) option" where
  "clear q chs = (let (cs, q') = clear_locked q in map_option (Pair q') (close_all cs chs))"

definition unsubscribe :: "64 word \<Rightarrow> usage_queue \<Rightarrow> channel list \<Rightarrow> (usage_queue \<times> channel list) option" where
  "unsubscribe i q chs = (let (cs, q') = unsubscribe_locked i q in map_option (Pair q') (close_all cs chs))"

section \<open>The package\<close>

datatype which_queue = UsageQ | ErrorQ

record usage_state =
  enabled :: bool
  retentionSeconds :: int
  global :: usage_queue
  errorGlobal :: usage_queue
  channels :: "channel list"

definition usage_init :: usage_state where
  "usage_init = \<lparr>enabled = False, retentionSeconds = defaultRetentionSeconds,
     global = empty_queue, errorGlobal = empty_queue, channels = []\<rparr>"

definition SetEnabled :: "bool \<Rightarrow> usage_state \<Rightarrow> usage_state option" where
  "SetEnabled v s =
     (let s = s\<lparr>enabled := v\<rparr> in
      if v then Some s
      else case clear (global s) (channels s) of
        None \<Rightarrow> None
      | Some (q, chs) \<Rightarrow>
          (case clear (errorGlobal s) chs of
             None \<Rightarrow> None
           | Some (e, chs') \<Rightarrow> Some (s\<lparr>global := q, errorGlobal := e, channels := chs'\<rparr>)))"

definition SetRetentionSeconds :: "int \<Rightarrow> usage_state \<Rightarrow> usage_state" where
  "SetRetentionSeconds value s =
     s\<lparr>retentionSeconds :=
        (if value \<le> 0 then defaultRetentionSeconds
         else if value > maxRetentionSeconds then maxRetentionSeconds else value)\<rparr>"

definition Enqueue :: "int \<Rightarrow> payload \<Rightarrow> usage_state \<Rightarrow> usage_state option" where
  "Enqueue now p s =
     (if \<not> enabled s then Some s
      else if p = [] then Some s
      else case publishToSubscribers p (global s) (channels s) of
        None \<Rightarrow> None
      | Some (True, q, chs) \<Rightarrow> Some (s\<lparr>global := q, channels := chs\<rparr>)
      | Some (False, q, chs) \<Rightarrow>
          Some (s\<lparr>global := enqueue (retentionSeconds s) now p q, channels := chs\<rparr>))"

definition EnqueueError :: "payload \<Rightarrow> usage_state \<Rightarrow> usage_state option" where
  "EnqueueError p s =
     (if \<not> enabled s then Some s
      else if p = [] then Some s
      else map_option (\<lambda>(_, q, chs). s\<lparr>errorGlobal := q, channels := chs\<rparr>)
             (publishToSubscribers p (errorGlobal s) (channels s)))"

definition PopOldest :: "int \<Rightarrow> int \<Rightarrow> usage_state \<Rightarrow> payload list \<times> usage_state" where
  "PopOldest now cnt s =
     (if \<not> enabled s then ([], s)
      else if cnt \<le> 0 then ([], s)
      else let (out, q) = popOldest (retentionSeconds s) now (nat cnt) (global s)
           in (out, s\<lparr>global := q\<rparr>))"

definition SubscribeUsage :: "usage_state \<Rightarrow> (nat \<times> 64 word \<times> usage_state) option" where
  "SubscribeUsage s =
     map_option (\<lambda>(c, i, q, chs). (c, i, s\<lparr>global := q, channels := chs\<rparr>))
       (subscribe usageSubscriberBuffer usageSupportRefreshPayload (global s) (channels s))"

definition SubscribeErrors :: "usage_state \<Rightarrow> (nat \<times> 64 word \<times> usage_state) option" where
  "SubscribeErrors s =
     map_option (\<lambda>(c, i, q, chs). (c, i, s\<lparr>errorGlobal := q, channels := chs\<rparr>))
       (subscribe errorSubscriberBuffer [] (errorGlobal s) (channels s))"

definition NotifyUsageRefresh :: "usage_state \<Rightarrow> usage_state option" where
  "NotifyUsageRefresh s =
     map_option (\<lambda>(_, q, chs). s\<lparr>global := q, channels := chs\<rparr>)
       (publishToSubscribers usageRefreshPayload (global s) (channels s))"

section \<open>First-in first-out contents\<close>

text \<open>What the slice and its head stand for: the records not yet popped.\<close>

definition contents :: "usage_queue \<Rightarrow> queueItem list" where
  "contents q = drop (head_at q) (items q)"

definition live :: "int \<Rightarrow> int \<Rightarrow> queueItem list \<Rightarrow> queueItem list" where
  "live retention now xs = dropWhile (\<lambda>x. enqueuedAt x < cutoff retention now) xs"

text \<open>The head is inside the slice, and the dead part in front of it is short.\<close>

definition slice_ok :: "usage_queue \<Rightarrow> bool" where
  "slice_ok q \<longleftrightarrow> head_at q = 0 \<or> (head_at q < 1024 \<and> head_at q * 2 < length (items q))"

lemma live_idem [simp]: "live r now (live r now xs) = live r now xs"
  by (simp add: live_def dropWhile_idem)



lemma prune_loop_drop: "drop (prune_loop lim xs h) xs = dropWhile (\<lambda>x. enqueuedAt x < lim) (drop h xs)"
proof (induction lim xs h rule: prune_loop.induct)
  case (1 lim xs h)
  show ?case
  proof (cases "h < length xs")
    case True
    then have "drop h xs = xs ! h # drop (h + 1) xs" by (simp add: Cons_nth_drop_Suc)
    with 1 True show ?thesis by (subst prune_loop.simps) auto
  next
    case False
    then show ?thesis by (subst prune_loop.simps) auto
  qed
qed

lemma contents_prune [simp]: "contents (pruneLocked r now q) = live r now (contents q)"
  by (simp add: contents_def pruneLocked_def live_def prune_loop_drop)

lemma contents_compact [simp]: "contents (maybeCompactLocked q) = contents q"
  by (simp add: contents_def maybeCompactLocked_def)

lemma slice_ok_compact: "slice_ok (maybeCompactLocked q)"
  by (simp add: slice_ok_def maybeCompactLocked_def)

lemma prune_subscribers [simp]:
  "subscribers (pruneLocked r now q) = subscribers q"
  "subscribers (maybeCompactLocked q) = subscribers q"
  by (simp_all add: pruneLocked_def maybeCompactLocked_def)

lemma enqueue_subscribers [simp]: "subscribers (enqueue r now p q) = subscribers q"
  by (simp add: enqueue_def Let_def)

lemma popOldest_subscribers [simp]: "subscribers (snd (popOldest r now n q)) = subscribers q"
  by (simp add: popOldest_def Let_def)

lemma prune_loop_le: "h \<le> length xs \<Longrightarrow> prune_loop lim xs h \<le> length xs"
proof (induction lim xs h rule: prune_loop.induct)
  case (1 lim xs h)
  then show ?case by (subst prune_loop.simps) auto
qed

lemma prune_head_le: "head_at (pruneLocked r now q) \<le> length (items (pruneLocked r now q))"
  by (simp add: pruneLocked_def prune_loop_le)

lemma contents_enqueue:
  "contents (enqueue r now p q) = live r now (contents q) @ [\<lparr>enqueuedAt = now, payload = p\<rparr>]"
proof -
  have "contents (s\<lparr>items := items s @ [x]\<rparr>) = contents s @ [x]" if "head_at s \<le> length (items s)" for s x
    using that by (simp add: contents_def)
  from this [OF prune_head_le [of r now q]] show ?thesis by (simp add: enqueue_def Let_def)
qed

lemma map_nth_drop:
  "n \<le> length xs - h \<Longrightarrow> map (\<lambda>i. f (xs ! (h + i))) [0..<n] = map f (take n (drop h xs))"
  by (rule nth_equalityI) auto

lemma take_min_length: "take (min n (length xs)) xs = take n xs"
  by (simp add: min_def)

lemma popOldest_spec:
  "fst (popOldest r now n q) = map payload (take n (live r now (contents q))) \<and>
   contents (snd (popOldest r now n q)) = drop n (live r now (contents q))"
proof -
  let ?q = "pruneLocked r now q"
  have c: "drop (head_at ?q) (items ?q) = live r now (contents q)"
    using contents_prune [of r now q] by (simp add: contents_def)
  then have l: "length (live r now (contents q)) = length (items ?q) - head_at ?q"
    by (metis length_drop)
  show ?thesis
  proof (cases "head_at ?q < length (items ?q)")
    case False
    then have e: "live r now (contents q) = []" using c by simp
    from False show ?thesis by (simp add: popOldest_def Let_def contents_def [of "?q\<lparr>items := _, head_at := _\<rparr>"] e)
  next
    case True
    let ?n = "min n (length (items ?q) - head_at ?q)"
    have av: "nat (int (length (items ?q)) - int (head_at ?q)) = length (items ?q) - head_at ?q"
      using True by simp
    have "popOldest r now n q =
        (map (\<lambda>i. payload (items ?q ! (head_at ?q + i))) [0..<?n],
         maybeCompactLocked (?q\<lparr>head_at := head_at ?q + ?n\<rparr>))"
      using True by (simp add: popOldest_def Let_def av)
    moreover have "map (\<lambda>i. payload (items ?q ! (head_at ?q + i))) [0..<?n] =
        map payload (take n (live r now (contents q)))"
      by (simp add: map_nth_drop c flip: l) (simp add: take_min_length)
    moreover have "contents (?q\<lparr>head_at := head_at ?q + ?n\<rparr>) = drop n (live r now (contents q))"
    proof -
      have "contents (?q\<lparr>head_at := head_at ?q + ?n\<rparr>) = drop ?n (drop (head_at ?q) (items ?q))"
        by (simp add: contents_def add.commute)
      then show ?thesis unfolding c by (simp add: min_def flip: l)
    qed
    ultimately show ?thesis by simp
  qed
qed

text \<open>What a client of a first-in first-out queue with expiry relies on, and what follows for a
  sequence of operations during which nothing expires: nothing is lost, doubled or reordered.\<close>

datatype 'p queue_op = Put int 'p | Take int nat

fun run_ops :: "(int \<Rightarrow> 'p \<Rightarrow> 'q \<Rightarrow> 'q) \<Rightarrow> (int \<Rightarrow> nat \<Rightarrow> 'q \<Rightarrow> 'p list \<times> 'q) \<Rightarrow> 'p queue_op list \<Rightarrow> 'q \<Rightarrow>
    'p list \<times> 'q" where
  "run_ops enq pop [] q = ([], q)"
| "run_ops enq pop (Put t p # os) q = run_ops enq pop os (enq t p q)"
| "run_ops enq pop (Take t n # os) q =
     (let (out, q1) = pop t n q; (outs, q2) = run_ops enq pop os q1 in (out @ outs, q2))"

fun op_time :: "'p queue_op \<Rightarrow> int" where
  "op_time (Put t p) = t"
| "op_time (Take t n) = t"

fun op_puts :: "'p queue_op list \<Rightarrow> (int \<times> 'p) list" where
  "op_puts [] = []"
| "op_puts (Put t p # os) = (t, p) # op_puts os"
| "op_puts (Take t n # os) = op_puts os"

locale expiring_fifo =
  fixes enq :: "int \<Rightarrow> 'p \<Rightarrow> 'q \<Rightarrow> 'q" and pop :: "int \<Rightarrow> nat \<Rightarrow> 'q \<Rightarrow> 'p list \<times> 'q"
    and model :: "'q \<Rightarrow> (int \<times> 'p) list" and expired :: "int \<Rightarrow> int \<Rightarrow> bool"
  assumes model_enq: "model (enq t p q) = dropWhile (\<lambda>x. expired t (fst x)) (model q) @ [(t, p)]"
    and pop_out: "fst (pop t n q) = map snd (take n (dropWhile (\<lambda>x. expired t (fst x)) (model q)))"
    and model_pop: "model (snd (pop t n q)) = drop n (dropWhile (\<lambda>x. expired t (fst x)) (model q))"
begin

lemma nothing_expires: "(\<forall>x\<in>set xs. \<not> expired t (fst x)) \<Longrightarrow> dropWhile (\<lambda>x. expired t (fst x)) xs = xs"
  by (cases xs) auto

lemma run_conserves:
  assumes "\<forall>t\<in>op_time ` set ops. \<forall>x\<in>set (model q @ op_puts ops). \<not> expired t (fst x)"
  shows "fst (run_ops enq pop ops q) @ map snd (model (snd (run_ops enq pop ops q))) =
     map snd (model q @ op_puts ops)"
  using assms
proof (induction ops arbitrary: q)
  case (Cons op ops)
  show ?case
  proof (cases op)
    case (Put t p)
    have "model (enq t p q) = model q @ [(t, p)]"
      using Cons.prems Put by (simp add: model_enq nothing_expires)
    moreover from this have "fst (run_ops enq pop ops (enq t p q)) @
        map snd (model (snd (run_ops enq pop ops (enq t p q)))) = map snd (model (enq t p q) @ op_puts ops)"
      using Cons.prems Put by (intro Cons.IH) auto
    ultimately show ?thesis using Put by simp
  next
    case (Take t n)
    obtain out q1 where q1: "pop t n q = (out, q1)" by (cases "pop t n q")
    have nx: "dropWhile (\<lambda>x. expired t (fst x)) (model q) = model q"
      using Cons.prems Take by (simp add: nothing_expires)
    have m: "model q1 = drop n (model q)" and out: "out = map snd (take n (model q))"
      using model_pop [of t n q] pop_out [of t n q] q1 nx by simp_all
    have "set (drop n (model q)) \<subseteq> set (model q)" by (rule set_drop_subset)
    then have "fst (run_ops enq pop ops q1) @ map snd (model (snd (run_ops enq pop ops q1))) =
        map snd (model q1 @ op_puts ops)"
      using Cons.prems Take m by (intro Cons.IH) auto
    then show ?thesis using Take q1
      by (simp add: case_prod_beta m out flip: map_append) (simp flip: append_assoc map_append)
  qed
qed simp

end

definition stamped :: "usage_queue \<Rightarrow> (int \<times> payload) list" where
  "stamped q = map (\<lambda>x. (enqueuedAt x, payload x)) (contents q)"

lemma stamped_live:
  "map (\<lambda>x. (enqueuedAt x, payload x)) (live r t xs) =
   dropWhile (\<lambda>x. fst x < cutoff r t) (map (\<lambda>x. (enqueuedAt x, payload x)) xs)"
  by (simp add: live_def dropWhile_map o_def)

interpretation usage_fifo: expiring_fifo "enqueue r" "popOldest r" stamped "\<lambda>t at. at < cutoff r t" for r
proof
  show "stamped (enqueue r t p q) = dropWhile (\<lambda>x. fst x < cutoff r t) (stamped q) @ [(t, p)]" for t p q
    by (simp add: stamped_def contents_enqueue stamped_live)
  show "fst (popOldest r t n q) = map snd (take n (dropWhile (\<lambda>x. fst x < cutoff r t) (stamped q)))" for t n q
    by (simp add: stamped_def popOldest_spec take_map flip: stamped_live)
  show "stamped (snd (popOldest r t n q)) = drop n (dropWhile (\<lambda>x. fst x < cutoff r t) (stamped q))" for t n q
    by (simp add: stamped_def popOldest_spec drop_map flip: stamped_live)
qed

text \<open>C12: A run of enqueues and pops on the usage queue during which no record leaves the
  retention window hands out the records in the order they came in: what the pops returned,
  followed by what is still queued, is what was queued at the start followed by what was put,
  with nothing lost, doubled or reordered by the moving head and the compaction.\<close>

theorem usage_queue_fifo:
  assumes "\<forall>t\<in>op_time ` set ops. \<forall>x\<in>set (stamped q @ op_puts ops). \<not> fst x < cutoff r t"
  shows "fst (run_ops (enqueue r) (popOldest r) ops q) @
      map payload (contents (snd (run_ops (enqueue r) (popOldest r) ops q))) =
    map payload (contents q) @ map snd (op_puts ops)"
  using usage_fifo.run_conserves [OF assms] by (simp add: stamped_def o_def)

definition sample_ops :: "payload queue_op list" where
  "sample_ops = [Put 10 ''a'', Put 12 ''b'', Take 13 1, Put 14 ''c'', Take 15 1]"

theorem usage_queue_fifo_witness:
  "fst (run_ops (enqueue 60) (popOldest 60) sample_ops empty_queue) @
      map payload (contents (snd (run_ops (enqueue 60) (popOldest 60) sample_ops empty_queue))) =
    map payload (contents empty_queue) @ map snd (op_puts sample_ops) \<and>
   op_puts sample_ops = [(10, ''a''), (12, ''b''), (14, ''c'')]"
proof -
  have "\<forall>t\<in>op_time ` set sample_ops. \<forall>x\<in>set (stamped empty_queue @ op_puts sample_ops).
      \<not> fst x < cutoff 60 t"
    by code_simp
  from usage_queue_fifo [OF this] show ?thesis by (simp add: sample_ops_def)
qed

section \<open>Publishing\<close>

definition has_room :: "channel \<Rightarrow> bool" where
  "has_room ch \<longleftrightarrow> length (buffered ch) < chan_cap ch"

text \<open>What a publication does to the channel of a subscriber: the payload goes to the end of the
  buffer, or the channel is closed when the buffer is full.\<close>

definition deliver :: "payload \<Rightarrow> channel \<Rightarrow> channel" where
  "deliver p ch = (if has_room ch then ch\<lparr>buffered := buffered ch @ [p]\<rparr> else ch\<lparr>chan_closed := True\<rparr>)"

definition deliver_to :: "payload \<Rightarrow> nat list \<Rightarrow> channel list \<Rightarrow> channel list" where
  "deliver_to p cs chs = map (\<lambda>k. if k \<in> set cs then deliver p (chs ! k) else chs ! k) [0..<length chs]"

definition open_chan :: "channel list \<Rightarrow> nat \<Rightarrow> bool" where
  "open_chan chs c \<longleftrightarrow> c < length chs \<and> \<not> chan_closed (chs ! c)"

lemma length_deliver_to [simp]: "length (deliver_to p cs chs) = length chs"
  by (simp add: deliver_to_def)

lemma nth_deliver_to:
  "k < length chs \<Longrightarrow> deliver_to p cs chs ! k = (if k \<in> set cs then deliver p (chs ! k) else chs ! k)"
  by (simp add: deliver_to_def)

lemma deliver_to_Nil [simp]: "deliver_to p [] chs = chs"
  by (simp add: deliver_to_def map_nth)

lemma deliver_to_Cons:
  "c < length chs \<Longrightarrow> c \<notin> set cs \<Longrightarrow> deliver_to p (c # cs) chs = deliver_to p cs (chs[c := deliver p (chs ! c)])"
  by (rule nth_equalityI) (auto simp: nth_deliver_to nth_list_update)

lemma publish_loop_spec:
  assumes "distinct (map snd rest)" and "\<forall>c\<in>snd ` set rest. open_chan chs c"
  shows "publish_loop p rest subs chs =
     Some (filter (\<lambda>(i, c). \<forall>(j, c')\<in>set rest. j = i \<longrightarrow> has_room (chs ! c')) subs,
           deliver_to p (map snd rest) chs)"
  using assms
proof (induction rest arbitrary: subs chs)
  case (Cons ic rest)
  obtain i c where ic: "ic = (i, c)" by (cases ic)
  let ?chs = "chs[c := deliver p (chs ! c)]"
  have c: "c < length chs" "\<not> chan_closed (chs ! c)" and nin: "c \<notin> set (map snd rest)"
    using Cons.prems ic by (auto simp: open_chan_def)
  have ih: "publish_loop p rest subs' ?chs =
      Some (filter (\<lambda>(i, c). \<forall>(j, c')\<in>set rest. j = i \<longrightarrow> has_room (chs ! c')) subs',
            deliver_to p (map snd rest) ?chs)" for subs'
  proof -
    have "\<forall>c\<in>snd ` set rest. open_chan ?chs c"
      using Cons.prems ic nin by (auto simp: open_chan_def nth_list_update)
    moreover have "(\<forall>(j, c')\<in>set rest. j = i \<longrightarrow> has_room (?chs ! c')) = (\<forall>(j, c')\<in>set rest. j = i \<longrightarrow> has_room (chs ! c'))" for i
      using nin by (intro ball_cong refl) (auto simp: image_iff intro!: arg_cong [where f = has_room] nth_list_update_neq)
    ultimately show ?thesis using Cons.IH [of ?chs subs'] Cons.prems(1) ic by simp
  qed
  have del: "deliver_to p (map snd (ic # rest)) chs = deliver_to p (map snd rest) ?chs"
    using deliver_to_Cons [OF c(1) nin] ic by simp
  show ?case
  proof (cases "has_room (chs ! c)")
    case True
    then have "publish_loop p (ic # rest) subs chs = publish_loop p rest subs ?chs"
      using c by (simp add: ic try_send_def deliver_def has_room_def)
    then show ?thesis unfolding ih del using True by (auto simp: ic intro!: filter_cong)
  next
    case False
    then have "publish_loop p (ic # rest) subs chs = publish_loop p rest (AList.delete i subs) ?chs"
      using c by (simp add: ic try_send_def close_chan_def deliver_def has_room_def)
    then show ?thesis unfolding ih del using False
      by (auto simp: ic AList.delete_eq intro!: filter_cong)
  qed
qed simp

lemma publish_spec:
  assumes "distinct (map snd (subscribers q))" and "keys_distinct (subscribers q)"
    and "\<forall>c\<in>snd ` set (subscribers q). open_chan chs c"
  shows "publishToSubscribers p q chs =
     Some (subscribers q \<noteq> [],
           q\<lparr>subscribers := filter (\<lambda>(i, c). has_room (chs ! c)) (subscribers q)\<rparr>,
           deliver_to p (map snd (subscribers q)) chs)"
proof -
  have "filter (\<lambda>(i, c). \<forall>(j, c')\<in>set (subscribers q). j = i \<longrightarrow> has_room (chs ! c')) (subscribers q) =
      filter (\<lambda>(i, c). has_room (chs ! c)) (subscribers q)"
  proof (rule filter_cong [OF refl])
    fix x assume x: "x \<in> set (subscribers q)"
    obtain i c where ic: "x = (i, c)" by (cases x)
    have "c' = c" if "(i, c') \<in> set (subscribers q)" for c'
      using eq_key_imp_eq_value [OF assms(2) that] x ic by auto
    then have "(\<forall>(j, c')\<in>set (subscribers q). j = i \<longrightarrow> has_room (chs ! c')) = has_room (chs ! c)"
      using x ic by fast
    then show "(\<lambda>(i, c). \<forall>(j, c')\<in>set (subscribers q). j = i \<longrightarrow> has_room (chs ! c')) x =
        (\<lambda>(i, c). has_room (chs ! c)) x"
      by (simp add: ic)
  qed
  then show ?thesis
    using publish_loop_spec [OF assms(1,3)] by (auto simp: publishToSubscribers_def)
qed

text \<open>A publication to the subscribers never panics while their channels are open and distinct,
  and it reaches every one of them: a subscriber whose buffer has room keeps its place and finds
  the payload at the end of its buffer, a subscriber whose buffer is full is dropped and its
  channel closed, no other channel changes, and the answer tells whether there was a subscriber
  at all (only then is the record not queued).\<close>

theorem publish_reaches_subscribers:
  assumes "distinct (map snd (subscribers q))" and "keys_distinct (subscribers q)"
    and "\<forall>c\<in>snd ` set (subscribers q). open_chan chs c"
  shows "publishToSubscribers p q chs =
     Some (subscribers q \<noteq> [],
           q\<lparr>subscribers := filter (\<lambda>(i, c). has_room (chs ! c)) (subscribers q)\<rparr>,
           deliver_to p (map snd (subscribers q)) chs)"
  using assms by (rule publish_spec)

definition sample_chans :: "channel list" where
  "sample_chans = [\<lparr>buffered = [''x''], chan_cap = 1, chan_closed = False\<rparr>,
                   \<lparr>buffered = [''x''], chan_cap = 2, chan_closed = False\<rparr>]"

definition sample_usage_queue :: usage_queue where
  "sample_usage_queue = \<lparr>items = [], head_at = 0, subscribers = [(1, 0), (2, 1)], nextSubscriberID = 2\<rparr>"

theorem publish_reaches_subscribers_witness:
  "publishToSubscribers ''y'' sample_usage_queue sample_chans =
     Some (True, sample_usage_queue\<lparr>subscribers := [(2, 1)]\<rparr>,
           [\<lparr>buffered = [''x''], chan_cap = 1, chan_closed = True\<rparr>,
            \<lparr>buffered = [''x'', ''y''], chan_cap = 2, chan_closed = False\<rparr>])"
proof -
  have "publishToSubscribers ''y'' sample_usage_queue sample_chans =
     Some (subscribers sample_usage_queue \<noteq> [],
           sample_usage_queue\<lparr>subscribers :=
             filter (\<lambda>(i, c). has_room (sample_chans ! c)) (subscribers sample_usage_queue)\<rparr>,
           deliver_to ''y'' (map snd (subscribers sample_usage_queue)) sample_chans)"
    by (rule publish_reaches_subscribers) (simp_all add: sample_usage_queue_def sample_chans_def open_chan_def)
  then show ?thesis
    by (simp add: sample_usage_queue_def sample_chans_def has_room_def deliver_to_def deliver_def)
qed

section \<open>Interleavings of the package's goroutines\<close>

text \<open>
  A step is one critical section, one close outside the lock, or one receive. The second part of
  the state holds the channels that a \<open>clear\<close> or an \<open>unsubscribe\<close> has taken out of a queue and
  not closed yet. \<open>Enqueue\<close> is a \<open>publish\<close> step followed, when it answered false, by an
  \<open>enqueue\<close> step; the relation allows either at any time.
\<close>

inductive usage_step :: "usage_state \<times> nat list \<Rightarrow> usage_state \<times> nat list \<Rightarrow> bool" where
  store_enabled: "usage_step (s, cl) (s\<lparr>enabled := v\<rparr>, cl)"
| store_retention: "usage_step (s, cl) (SetRetentionSeconds v s, cl)"
| publish_usage: "publishToSubscribers p (global s) (channels s) = Some (b, q, chs) \<Longrightarrow>
     usage_step (s, cl) (s\<lparr>global := q, channels := chs\<rparr>, cl)"
| publish_error: "publishToSubscribers p (errorGlobal s) (channels s) = Some (b, q, chs) \<Longrightarrow>
     usage_step (s, cl) (s\<lparr>errorGlobal := q, channels := chs\<rparr>, cl)"
| enqueue_usage: "usage_step (s, cl) (s\<lparr>global := enqueue (retentionSeconds s) now p (global s)\<rparr>, cl)"
| pop_usage: "usage_step (s, cl) (s\<lparr>global := snd (popOldest (retentionSeconds s) now n (global s))\<rparr>, cl)"
| subscribe_usage: "SubscribeUsage s = Some (c, i, s') \<Longrightarrow> usage_step (s, cl) (s', cl)"
| subscribe_errors: "SubscribeErrors s = Some (c, i, s') \<Longrightarrow> usage_step (s, cl) (s', cl)"
| clear_usage: "clear_locked (global s) = (cs, q) \<Longrightarrow> usage_step (s, cl) (s\<lparr>global := q\<rparr>, cs @ cl)"
| clear_errors: "clear_locked (errorGlobal s) = (cs, q) \<Longrightarrow> usage_step (s, cl) (s\<lparr>errorGlobal := q\<rparr>, cs @ cl)"
| unsubscribe_usage: "unsubscribe_locked i (global s) = (cs, q) \<Longrightarrow>
     usage_step (s, cl) (s\<lparr>global := q\<rparr>, cs @ cl)"
| unsubscribe_errors: "unsubscribe_locked i (errorGlobal s) = (cs, q) \<Longrightarrow>
     usage_step (s, cl) (s\<lparr>errorGlobal := q\<rparr>, cs @ cl)"
| close_one: "c \<in> set cl \<Longrightarrow> close_chan (channels s) c = Some chs \<Longrightarrow>
     usage_step (s, cl) (s\<lparr>channels := chs\<rparr>, remove1 c cl)"
| receive_one: "receive (channels s) c = Some (chs, p) \<Longrightarrow> usage_step (s, cl) (s\<lparr>channels := chs\<rparr>, cl)"

definition usage_start :: "usage_state \<times> nat list \<Rightarrow> bool" where
  "usage_start x \<longleftrightarrow> x = (usage_init, [])"

text \<open>Every channel a queue or a pending close refers to is open, and referred to once.\<close>

definition refs :: "usage_queue \<Rightarrow> nat multiset" where
  "refs q = mset (map snd (subscribers q))"

definition refs_ok :: "nat multiset \<Rightarrow> channel list \<Rightarrow> bool" where
  "refs_ok M chs \<longleftrightarrow> (\<forall>c\<in>#M. count M c \<le> 1 \<and> open_chan chs c)"

definition usage_inv :: "usage_state \<times> nat list \<Rightarrow> bool" where
  "usage_inv = (\<lambda>(s, cl).
     refs_ok (refs (global s) + refs (errorGlobal s) + mset cl) (channels s) \<and>
     keys_distinct (subscribers (global s)) \<and> keys_distinct (subscribers (errorGlobal s)) \<and>
     slice_ok (global s) \<and> slice_ok (errorGlobal s))"

lemma refs_ok_mono: "refs_ok M chs \<Longrightarrow> M' \<subseteq># M \<Longrightarrow> refs_ok M' chs"
  unfolding refs_ok_def by (meson mset_subset_eqD mset_subset_eq_count order_trans)

lemma refs_filter: "image_mset snd (filter_mset P M) \<subseteq># image_mset snd M"
  by (simp add: image_mset_subseteq_mono)

lemma refs_delete: "image_mset snd (mset (AList.delete i subs)) \<subseteq># image_mset snd (mset subs)"
  by (simp add: AList.delete_eq refs_filter)

lemma refs_unsubscribe:
  "map_of subs i = Some c \<Longrightarrow>
   add_mset c (image_mset snd (mset (AList.delete i subs))) \<subseteq># image_mset snd (mset subs)"
  by (induction subs) (auto simp: refs_delete add_mset_commute [of c] split: if_splits)

lemma refs_update:
  "image_mset snd (mset (AList.update i c subs)) \<subseteq># add_mset c (image_mset snd (mset subs))"
  by (induction subs) (auto simp: add_mset_commute [of c])

lemma refs_ok_add:
  "refs_ok M chs \<Longrightarrow> open_chan chs c \<Longrightarrow> c \<notin># M \<Longrightarrow> refs_ok (add_mset c M) chs"
  by (auto simp: refs_ok_def not_in_iff)

lemma refs_ok_chans:
  "refs_ok M chs \<Longrightarrow> (\<And>c. c \<in># M \<Longrightarrow> open_chan chs c \<Longrightarrow> open_chan chs' c) \<Longrightarrow> refs_ok M chs'"
  by (auto simp: refs_ok_def)

lemma refs_ok_distinct: "refs_ok (refs q + M) chs \<Longrightarrow> distinct (map snd (subscribers q))"
proof -
  assume ok: "refs_ok (refs q + M) chs"
  have "count (refs q) c = (if c \<in> set (map snd (subscribers q)) then 1 else 0)" for c
  proof (cases "c \<in># refs q")
    case True
    then have "c \<in># refs q + M" by simp
    then have "count (refs q + M) c \<le> 1" using ok by (simp only: refs_ok_def)
    then have "count (refs q) c \<le> 1" by simp
    moreover have "1 \<le> count (refs q) c" using True by simp
    ultimately have "count (refs q) c = 1" by (rule le_antisym)
    then show ?thesis using True by (auto simp: refs_def)
  qed (simp add: refs_def count_eq_zero_iff)
  then show ?thesis unfolding distinct_count_atmost_1 by (simp add: refs_def)
qed

lemma publish_defined:
  assumes "refs_ok (refs q + M) chs" and "keys_distinct (subscribers q)"
  shows "publishToSubscribers p q chs =
     Some (subscribers q \<noteq> [],
           q\<lparr>subscribers := filter (\<lambda>(i, c). has_room (chs ! c)) (subscribers q)\<rparr>,
           deliver_to p (map snd (subscribers q)) chs)"
  using refs_ok_distinct [OF assms(1)] assms(2)
proof (rule publish_spec)
  show "\<forall>c\<in>snd ` set (subscribers q). open_chan chs c"
    using assms(1) by (auto simp: refs_ok_def refs_def)
qed

lemma publish_keeps:
  assumes ok: "refs_ok (refs q + M) chs" and k: "keys_distinct (subscribers q)"
    and pub: "publishToSubscribers p q chs = Some (b, q', chs')"
  shows "refs_ok (refs q' + M) chs'" and "keys_distinct (subscribers q')" and "slice_ok q' = slice_ok q"
proof -
  let ?subs = "filter (\<lambda>(i, c). has_room (chs ! c)) (subscribers q)"
  have q': "q' = q\<lparr>subscribers := ?subs\<rparr>" and chs': "chs' = deliver_to p (map snd (subscribers q)) chs"
    using pub publish_defined [OF ok k, of p] by auto
  have sub: "refs q' \<subseteq># refs q" by (simp add: q' refs_def refs_filter)
  have "refs_ok (refs q' + M) chs" using refs_ok_mono [OF ok] sub by simp
  then show "refs_ok (refs q' + M) chs'"
  proof (rule refs_ok_chans)
    fix c assume c: "c \<in># refs q' + M" and op: "open_chan chs c"
    consider "c \<in># refs q'" | "c \<in># M" "c \<notin># refs q'" using c by auto
    then show "open_chan chs' c"
    proof cases
      case 1
      then have "has_room (chs ! c)" by (auto simp: q' refs_def)
      with op show ?thesis by (auto simp: open_chan_def chs' nth_deliver_to deliver_def)
    next
      case 2
      have "c \<notin># refs q"
      proof
        assume "c \<in># refs q"
        then have "count (refs q + M) c \<ge> 2"
          using 2(1) by (metis add_mono count_greater_eq_one_iff count_union one_add_one)
        moreover have "count (refs q + M) c \<le> 1"
          using ok \<open>c \<in># refs q\<close> unfolding refs_ok_def by (metis union_iff)
        ultimately show False by simp
      qed
      then have "c \<notin> set (map snd (subscribers q))" by (simp add: refs_def)
      with op show ?thesis by (simp add: open_chan_def chs' nth_deliver_to)
    qed
  qed
  show "keys_distinct (subscribers q')" using k by (simp add: q' keys_distinct_filter)
  show "slice_ok q' = slice_ok q" by (simp add: q' slice_ok_def)
qed

lemma subscribe_keeps:
  assumes ok: "refs_ok (refs q + M) chs" and sub: "subscribe n p q chs = Some (c, i, q', chs')"
    and k: "keys_distinct (subscribers q)"
  shows "refs_ok (refs q' + M) chs'" and "keys_distinct (subscribers q')" and "slice_ok q' = slice_ok q"
proof -
  have c: "c = length chs" and q': "q' = q\<lparr>nextSubscriberID := i, subscribers := AList.update i c (subscribers q)\<rparr>"
    and op: "\<And>d. open_chan chs d \<Longrightarrow> open_chan chs' d" "open_chan chs' c"
    using sub by (auto simp: subscribe_def make_chan_def try_send_def open_chan_def nth_append Let_def split: if_splits)
  have "c \<notin># refs q + M" using ok by (auto simp: refs_ok_def open_chan_def c)
  moreover have "refs_ok (refs q + M) chs'" using ok op(1) by (rule refs_ok_chans)
  ultimately have "refs_ok (add_mset c (refs q + M)) chs'" using op(2) by (intro refs_ok_add)
  moreover have "refs q' + M \<subseteq># add_mset c (refs q + M)"
    using refs_update [of i c "subscribers q"]
    by (simp add: q' refs_def flip: union_mset_add_mset_left)
  ultimately show "refs_ok (refs q' + M) chs'" by (rule refs_ok_mono)
  show "keys_distinct (subscribers q')" using k by (simp add: q' distinct_update)
  show "slice_ok q' = slice_ok q" by (simp add: q' slice_ok_def)
qed

lemma clear_keeps:
  assumes "clear_locked q = (cs, q')"
  shows "refs q' + mset cs = refs q" and "keys_distinct (subscribers q')" and "slice_ok q'"
  using assms by (auto simp: clear_locked_def refs_def slice_ok_def)

lemma unsubscribe_keeps:
  assumes "unsubscribe_locked i q = (cs, q')" and "keys_distinct (subscribers q)"
  shows "refs q' + mset cs \<subseteq># refs q" and "keys_distinct (subscribers q')" and "slice_ok q' = slice_ok q"
  using assms refs_unsubscribe [of "subscribers q" i]
  by (auto simp: unsubscribe_locked_def refs_def slice_ok_def distinct_delete split: option.splits)

lemma slice_ok_ops: "slice_ok (enqueue r now p q)" "slice_ok (snd (popOldest r now n q))"
  by (simp_all add: enqueue_def popOldest_def Let_def slice_ok_compact slice_ok_def [of "_\<lparr>items := _, head_at := _\<rparr>"])

lemma refs_ops [simp]: "refs (enqueue r now p q) = refs q" "refs (snd (popOldest r now n q)) = refs q"
  by (simp_all add: refs_def)

lemma close_keeps:
  assumes ok: "refs_ok M chs" and c: "c \<in># M" and cl: "close_chan chs c = Some chs'"
  shows "refs_ok (M - {#c#}) chs'"
proof (rule refs_ok_chans [of _ chs])
  show "refs_ok (M - {#c#}) chs" using refs_ok_mono [OF ok] by simp
  fix d assume d: "d \<in># M - {#c#}" and "open_chan chs d"
  have "count M c \<le> 1" using ok c by (auto simp: refs_ok_def)
  then have "d \<noteq> c" using d by (auto simp: count_greater_zero_iff [symmetric] simp del: count_greater_zero_iff)
  with \<open>open_chan chs d\<close> cl show "open_chan chs' d"
    by (auto simp: open_chan_def close_chan_def nth_list_update split: if_splits)
qed

lemma receive_keeps: "receive chs c = Some (chs', p) \<Longrightarrow> open_chan chs d \<Longrightarrow> open_chan chs' d"
  by (auto simp: receive_def open_chan_def nth_list_update split: if_splits list.splits)

inductive_simps usage_step_simps: "usage_step (s, cl) (s', cl')"

lemma usage_inv_step:
  assumes inv: "usage_inv (s, cl)" and st: "usage_step (s, cl) (s', cl')"
  shows "usage_inv (s', cl')"
proof -
  let ?M = "refs (errorGlobal s) + mset cl" and ?N = "refs (global s) + mset cl"
  have g: "refs_ok (refs (global s) + ?M) (channels s)" and e: "refs_ok (refs (errorGlobal s) + ?N) (channels s)"
    and k: "keys_distinct (subscribers (global s))" "keys_distinct (subscribers (errorGlobal s))"
    and sl: "slice_ok (global s)" "slice_ok (errorGlobal s)"
    using inv by (auto simp: usage_inv_def ac_simps)
  show ?thesis using st
  proof (cases rule: usage_step.cases)
    case (publish_usage p b q chs)
    with publish_keeps [OF g k(1), of p b q chs] k sl show ?thesis by (simp add: usage_inv_def ac_simps)
  next
    case (publish_error p b q chs)
    with publish_keeps [OF e k(2), of p b q chs] k sl show ?thesis by (simp add: usage_inv_def ac_simps)
  next
    case (subscribe_usage c i)
    then obtain q chs where "subscribe usageSubscriberBuffer usageSupportRefreshPayload (global s) (channels s) = Some (c, i, q, chs)"
      and "s' = s\<lparr>global := q, channels := chs\<rparr>" "cl' = cl" by (auto simp: SubscribeUsage_def)
    with subscribe_keeps [OF g _ k(1)] k sl show ?thesis by (fastforce simp: usage_inv_def ac_simps)
  next
    case (subscribe_errors c i)
    then obtain q chs where "subscribe errorSubscriberBuffer [] (errorGlobal s) (channels s) = Some (c, i, q, chs)"
      and "s' = s\<lparr>errorGlobal := q, channels := chs\<rparr>" "cl' = cl" by (auto simp: SubscribeErrors_def)
    with subscribe_keeps [OF e _ k(2)] k sl show ?thesis by (fastforce simp: usage_inv_def ac_simps)
  next
    case (clear_usage cs q)
    note c = clear_keeps [OF this(3)]
    have "refs_ok (refs q + mset cs + ?M) (channels s)" using g by (simp only: c(1))
    with clear_usage c(2,3) k sl show ?thesis by (simp add: usage_inv_def ac_simps)
  next
    case (clear_errors cs q)
    note c = clear_keeps [OF this(3)]
    have "refs_ok (refs q + mset cs + ?N) (channels s)" using e by (simp only: c(1))
    with clear_errors c(2,3) k sl show ?thesis by (simp add: usage_inv_def ac_simps)
  next
    case (unsubscribe_usage i cs q)
    note u = unsubscribe_keeps [OF this(3) k(1)]
    have "refs q + mset cs + ?M \<subseteq># refs (global s) + ?M" using u(1) by simp
    from refs_ok_mono [OF g this] unsubscribe_usage u k sl show ?thesis by (simp add: usage_inv_def ac_simps)
  next
    case (unsubscribe_errors i cs q)
    note u = unsubscribe_keeps [OF this(3) k(2)]
    have "refs q + mset cs + ?N \<subseteq># refs (errorGlobal s) + ?N" using u(1) by simp
    from refs_ok_mono [OF e this] unsubscribe_errors u k sl show ?thesis by (simp add: usage_inv_def ac_simps)
  next
    case (close_one c chs)
    have "refs_ok (refs (global s) + ?M - {#c#}) chs"
      using close_keeps [OF g _ close_one(4)] close_one(3) by simp
    with close_one k sl show ?thesis by (simp add: usage_inv_def multiset_diff_union_assoc ac_simps)
  next
    case (receive_one c chs p)
    with refs_ok_chans [OF g receive_keeps [OF receive_one(3)]] k sl show ?thesis
      by (simp add: usage_inv_def ac_simps)
  qed (use g k sl in \<open>simp_all add: usage_inv_def SetRetentionSeconds_def slice_ok_ops ac_simps\<close>)
qed

interpretation usage: inductive_invariant usage_start usage_step usage_inv
proof
  show "usage_inv s" if "usage_start s" for s
    using that by (simp add: usage_start_def usage_init_def usage_inv_def empty_queue_def refs_def refs_ok_def slice_ok_def)
  show "usage_inv t" if "usage_inv s" "usage_step s t" for s t
    using that usage_inv_step by (cases s, cases t) simp
qed

lemma close_all_defined:
  "refs_ok (mset cs + M) chs \<Longrightarrow> \<exists>chs'. close_all cs chs = Some chs' \<and> refs_ok M chs'"
proof (induction cs arbitrary: chs)
  case (Cons c cs)
  have "open_chan chs c" using Cons.prems by (simp add: refs_ok_def)
  then obtain chs1 where chs1: "close_chan chs c = Some chs1" by (auto simp: open_chan_def close_chan_def)
  have "refs_ok (mset cs + M) chs1" using close_keeps [OF Cons.prems _ chs1] by simp
  with Cons.IH chs1 show ?case by simp
qed simp

lemma SetEnabled_defined:
  assumes "usage_inv (s, cl)" shows "SetEnabled v s \<noteq> None"
proof -
  let ?cs = "map snd (subscribers (global s))" and ?es = "map snd (subscribers (errorGlobal s))"
  have "refs_ok (mset ?cs + (mset ?es + mset cl)) (channels s)"
    using assms by (simp add: usage_inv_def refs_def ac_simps)
  then obtain chs where chs: "close_all ?cs (channels s) = Some chs" "refs_ok (mset ?es + mset cl) chs"
    using close_all_defined by blast
  then obtain chs' where "close_all ?es chs = Some chs'" using close_all_defined by blast
  with chs(1) show ?thesis by (simp add: SetEnabled_def clear_def clear_locked_def Let_def)
qed

lemma slice_ok_space: "slice_ok q \<Longrightarrow> length (items q) \<le> 2 * length (contents q)"
  by (auto simp: slice_ok_def contents_def)

lemma subscribe_defined: "n > 0 \<Longrightarrow> subscribe n p q chs \<noteq> None"
  by (simp add: subscribe_def make_chan_def try_send_def nth_append Let_def)

text \<open>C11: However the goroutines of the package interleave (publications, enqueues, pops,
  subscriptions, cancelled subscriptions, \<open>SetEnabled(false)\<close>, receives, and the closes that
  happen after the lock is released), no send on a closed channel and no second close of a
  channel can happen: publications on both queues, every pending close, both subscriptions and
  \<open>SetEnabled\<close> go through. The slice never takes more than twice the room of the records it
  still holds.\<close>

theorem usage_channels_never_panic:
  assumes "reachable usage_start usage_step (s, cl)"
  shows "publishToSubscribers p (global s) (channels s) \<noteq> None \<and>
     publishToSubscribers p (errorGlobal s) (channels s) \<noteq> None \<and>
     (\<forall>c\<in>set cl. close_chan (channels s) c \<noteq> None) \<and>
     SubscribeUsage s \<noteq> None \<and> SubscribeErrors s \<noteq> None \<and> SetEnabled v s \<noteq> None \<and>
     length (items (global s)) \<le> 2 * length (contents (global s))"
proof -
  have inv: "usage_inv (s, cl)" using usage.reachable_inv [OF assms] .
  then have ok: "refs_ok (refs (global s) + (refs (errorGlobal s) + mset cl)) (channels s)"
    "refs_ok (refs (errorGlobal s) + (refs (global s) + mset cl)) (channels s)"
    and k: "keys_distinct (subscribers (global s))" "keys_distinct (subscribers (errorGlobal s))"
    by (auto simp: usage_inv_def ac_simps)
  have "close_chan (channels s) c \<noteq> None" if "c \<in> set cl" for c
  proof -
    have "open_chan (channels s) c" using ok(1) that by (simp add: refs_ok_def)
    then show ?thesis by (simp add: open_chan_def close_chan_def)
  qed
  moreover have "SubscribeUsage s \<noteq> None" "SubscribeErrors s \<noteq> None"
    unfolding SubscribeUsage_def SubscribeErrors_def option.map_disc_iff not_not
    by (simp_all only: subscribe_defined usageSubscriberBuffer_def errorSubscriberBuffer_def) simp_all
  moreover have "length (items (global s)) \<le> 2 * length (contents (global s))"
    using inv slice_ok_space by (auto simp: usage_inv_def)
  ultimately show ?thesis
    using publish_defined [OF ok(1) k(1)] publish_defined [OF ok(2) k(2)] SetEnabled_defined [OF inv] by simp
qed

definition sample_usage :: "usage_state \<times> nat list" where
  "sample_usage = (let s = snd (snd (the (SubscribeUsage usage_init))); (cs, q) = clear_locked (global s)
     in (s\<lparr>global := q\<rparr>, cs @ []))"

theorem usage_channels_never_panic_witness:
  "snd sample_usage = [0] \<and> close_chan (channels (fst sample_usage)) 0 \<noteq> None \<and>
   publishToSubscribers ''x'' (global (fst sample_usage)) (channels (fst sample_usage)) \<noteq> None"
proof -
  let ?s = "snd (snd (the (SubscribeUsage usage_init)))"
  have sub: "SubscribeUsage usage_init = Some (0, 1, ?s)" by code_simp
  have cl: "clear_locked (global ?s) = ([0], (global ?s)\<lparr>subscribers := []\<rparr>)" by code_simp
  have r0: "reachable usage_start usage_step (usage_init, [])" by (rule reach_init) (simp add: usage_start_def)
  have r1: "reachable usage_start usage_step (?s, [])"
    by (rule reach_step [OF r0]) (rule usage_step.subscribe_usage [OF sub])
  have r2: "reachable usage_start usage_step (?s\<lparr>global := (global ?s)\<lparr>subscribers := []\<rparr>\<rparr>, [0] @ [])"
    by (rule reach_step [OF r1]) (rule usage_step.clear_usage [OF cl])
  have eq: "sample_usage = (?s\<lparr>global := (global ?s)\<lparr>subscribers := []\<rparr>\<rparr>, [0] @ [])"
    unfolding sample_usage_def Let_def cl by simp
  from usage_channels_never_panic [OF r2, of "''x''" False] show ?thesis unfolding eq by simp
qed

end
