(* ===== verification/BoundedLRU.thy ===== *)
theory BoundedLRU
  imports GoBase
begin

text \<open>
  The bounded cache of \<open>src/internal/cache/bounded_lru.go\<close>: a Go map from keys to the elements
  of a \<open>container/list\<close> that is kept in the order of use. Elements have an identity (a number
  taken from a counter when the list makes the element), because the map points at elements and
  not at keys or positions. The eviction callback runs after the lock is released; the values it
  gets are the second result of the operations. \<open>GetOrAdd\<close> takes the value its \<open>create\<close> callback
  would return; the code calls it only on a miss, under the lock.
\<close>

section \<open>The list of elements\<close>

text \<open>What the cache uses of \<open>container/list\<close>: the front of the list is the head.\<close>

type_synonym ('k, 'v) element = "nat \<times> 'k \<times> 'v"

definition MoveToFront :: "nat \<Rightarrow> ('k, 'v) element list \<Rightarrow> ('k, 'v) element list" where
  "MoveToFront el xs = filter (\<lambda>(i, _). i = el) xs @ filter (\<lambda>(i, _). i \<noteq> el) xs"

definition list_Remove :: "nat \<Rightarrow> ('k, 'v) element list \<Rightarrow> ('k, 'v) element list" where
  "list_Remove el xs = filter (\<lambda>(i, _). i \<noteq> el) xs"

definition elem_value :: "nat \<Rightarrow> ('k, 'v) element list \<Rightarrow> 'v option" where
  "elem_value el xs = map_option snd (map_of xs el)"

section \<open>The cache\<close>

record ('k, 'v) boundedLRU =
  lru_capacity :: int
  entries :: "('k \<times> nat) list"
  order :: "('k, 'v) element list"
  next_element :: nat

definition NewBoundedLRU :: "int \<Rightarrow> ('k, 'v) boundedLRU" where
  "NewBoundedLRU capacity =
     \<lparr>lru_capacity = (if capacity < 1 then 1 else capacity), entries = [], order = [], next_element = 0\<rparr>"

definition evict_oldest :: "('k, 'v) boundedLRU \<Rightarrow> ('k \<times> 'v) list \<times> ('k, 'v) boundedLRU" where
  "evict_oldest c =
     (if int (length (order c)) > lru_capacity c then
        (let (el, k, v) = last (order c)
         in ([(k, v)], c\<lparr>entries := AList.delete k (entries c), order := list_Remove el (order c)\<rparr>))
      else ([], c))"

definition GetOrAdd :: "'k \<Rightarrow> 'v \<Rightarrow> ('k, 'v) boundedLRU \<Rightarrow> 'v option \<times> ('k \<times> 'v) list \<times> ('k, 'v) boundedLRU" where
  "GetOrAdd key created c =
     (case map_of (entries c) key of
        Some el \<Rightarrow> (elem_value el (order c), [], c\<lparr>order := MoveToFront el (order c)\<rparr>)
      | None \<Rightarrow>
          (let el = next_element c;
               (evicted, c') = evict_oldest (c\<lparr>order := (el, key, created) # order c,
                 entries := AList.update key el (entries c), next_element := el + 1\<rparr>)
           in (Some created, evicted, c')))"

definition lru_Get :: "'k \<Rightarrow> ('k, 'v) boundedLRU \<Rightarrow> 'v option \<times> ('k, 'v) boundedLRU" where
  "lru_Get key c =
     (case map_of (entries c) key of
        Some el \<Rightarrow> (elem_value el (order c), c\<lparr>order := MoveToFront el (order c)\<rparr>)
      | None \<Rightarrow> (None, c))"

definition lru_Delete :: "'k \<Rightarrow> ('k, 'v) boundedLRU \<Rightarrow> bool \<times> ('k \<times> 'v) list \<times> ('k, 'v) boundedLRU" where
  "lru_Delete key c =
     (case map_of (entries c) key of
        None \<Rightarrow> (False, [], c)
      | Some el \<Rightarrow>
          (True, (case map_of (order c) el of None \<Rightarrow> [] | Some kv \<Rightarrow> [kv]),
           c\<lparr>entries := AList.delete key (entries c), order := list_Remove el (order c)\<rparr>))"

definition lru_Len :: "('k, 'v) boundedLRU \<Rightarrow> nat" where
  "lru_Len c = length (entries c)"

section \<open>The abstract cache\<close>

text \<open>The cache as its clients see it: the bindings, the most recently used first.\<close>

definition bindings :: "('k, 'v) boundedLRU \<Rightarrow> ('k \<times> 'v) list" where
  "bindings c = map snd (order c)"

definition use_key :: "'k \<Rightarrow> ('k \<times> 'v) list \<Rightarrow> ('k \<times> 'v) list" where
  "use_key k xs = filter (\<lambda>(k', _). k' = k) xs @ filter (\<lambda>(k', _). k' \<noteq> k) xs"

definition lru_shape :: "('k, 'v) boundedLRU \<Rightarrow> bool" where
  "lru_shape c \<longleftrightarrow>
     distinct (map fst (order c)) \<and> distinct (map fst (bindings c)) \<and> keys_distinct (entries c) \<and>
     set (entries c) = (\<lambda>(el, k, v). (k, el)) ` set (order c) \<and>
     (\<forall>el\<in>fst ` set (order c). el < next_element c)"

definition lru_ok :: "('k, 'v) boundedLRU \<Rightarrow> bool" where
  "lru_ok c \<longleftrightarrow> lru_shape c \<and> int (length (order c)) \<le> lru_capacity c \<and> 1 \<le> lru_capacity c"

lemma lru_ok_new: "lru_ok (NewBoundedLRU n)"
  by (simp add: lru_ok_def lru_shape_def NewBoundedLRU_def bindings_def)

lemma bindings_new [simp]: "bindings (NewBoundedLRU n) = []"
  by (simp add: bindings_def NewBoundedLRU_def)

lemma entry_iff:
  assumes "lru_shape c"
  shows "map_of (entries c) k = Some el \<longleftrightarrow> (\<exists>v. (el, k, v) \<in> set (order c))"
proof -
  have "map_of (entries c) k = Some el \<longleftrightarrow> (k, el) \<in> set (entries c)"
    using assms by (simp add: lru_shape_def)
  also have "\<dots> \<longleftrightarrow> (\<exists>v. (el, k, v) \<in> set (order c))"
    using assms by (force simp: lru_shape_def)
  finally show ?thesis .
qed

lemma no_entry_iff: "lru_shape c \<Longrightarrow> map_of (entries c) k = None \<longleftrightarrow> k \<notin> fst ` set (bindings c)"
  by (simp add: map_of_eq_None_iff lru_shape_def bindings_def image_image case_prod_beta)

lemma same_element:
  assumes "lru_shape c" and "(el, k, v) \<in> set (order c)" and "(el', k', v') \<in> set (order c)"
  shows "el' = el \<longleftrightarrow> k' = k"
proof
  assume "el' = el"
  with assms show "k' = k" by (auto simp: lru_shape_def dest: eq_key_imp_eq_value)
next
  assume "k' = k"
  then have "map_of (entries c) k = Some el" "map_of (entries c) k = Some el'"
    using assms(2,3) by (auto simp: entry_iff [OF assms(1)])
  then show "el' = el" by simp
qed

lemma element_value:
  assumes "lru_shape c" and "(el, k, v) \<in> set (order c)"
  shows "map_of (order c) el = Some (k, v)" and "elem_value el (order c) = map_of (bindings c) k"
proof -
  show m: "map_of (order c) el = Some (k, v)" using assms by (simp add: lru_shape_def)
  have "(k, v) \<in> set (bindings c)" using assms(2) by (force simp: bindings_def)
  then have "map_of (bindings c) k = Some v" using assms(1) by (simp add: lru_shape_def)
  then show "elem_value el (order c) = map_of (bindings c) k" by (simp add: elem_value_def m)
qed

lemma filter_element:
  assumes "lru_shape c" and "(el, k, v) \<in> set (order c)"
  shows "map snd (filter (\<lambda>(i, _). i = el) (order c)) = filter (\<lambda>(k', _). k' = k) (bindings c)"
    and "map snd (filter (\<lambda>(i, _). i \<noteq> el) (order c)) = filter (\<lambda>(k', _). k' \<noteq> k) (bindings c)"
proof -
  have "(fst x = el) = (fst (snd x) = k)" if "x \<in> set (order c)" for x
    using same_element [OF assms, of "fst x" "fst (snd x)" "snd (snd x)"] that by simp
  then show "map snd (filter (\<lambda>(i, _). i = el) (order c)) = filter (\<lambda>(k', _). k' = k) (bindings c)"
    and "map snd (filter (\<lambda>(i, _). i \<noteq> el) (order c)) = filter (\<lambda>(k', _). k' \<noteq> k) (bindings c)"
    by (simp_all add: bindings_def filter_map o_def case_prod_beta cong: filter_cong)
qed

text \<open>Each operation refines its abstract counterpart and keeps the invariant.\<close>

lemma mset_front: "mset (filter P xs @ filter (\<lambda>x. \<not> P x) xs) = mset xs"
  by (induction xs) auto

lemma mset_MoveToFront: "mset (MoveToFront el xs) = mset xs"
  using mset_front [of "\<lambda>(i, _). i = el" xs] by (simp add: MoveToFront_def case_prod_beta)

lemma MoveToFront_facts:
  "set (MoveToFront el xs) = set xs" "length (MoveToFront el xs) = length xs"
  "distinct (map f (MoveToFront el xs)) = distinct (map f xs)"
proof -
  show "set (MoveToFront el xs) = set xs" using mset_MoveToFront [of el xs] by (rule mset_eq_setD)
  show "length (MoveToFront el xs) = length xs" using mset_MoveToFront [of el xs] by (rule mset_eq_length)
  have "mset (map f (MoveToFront el xs)) = mset (map f xs)" by (simp add: mset_MoveToFront)
  then show "distinct (map f (MoveToFront el xs)) = distinct (map f xs)" by (rule mset_eq_imp_distinct_iff)
qed

lemma move_ok:
  assumes ok: "lru_ok c" and el: "map_of (entries c) k = Some el"
  shows "lru_ok (c\<lparr>order := MoveToFront el (order c)\<rparr>)"
    and "bindings (c\<lparr>order := MoveToFront el (order c)\<rparr>) = use_key k (bindings c)"
    and "elem_value el (order c) = map_of (bindings c) k"
proof -
  have sh: "lru_shape c" using ok by (simp add: lru_ok_def)
  obtain v where v: "(el, k, v) \<in> set (order c)" using el entry_iff [OF sh] by blast
  show "bindings (c\<lparr>order := MoveToFront el (order c)\<rparr>) = use_key k (bindings c)"
    using filter_element [OF sh v] by (simp add: bindings_def [of "c\<lparr>order := _\<rparr>"] MoveToFront_def use_key_def)
  show "lru_ok (c\<lparr>order := MoveToFront el (order c)\<rparr>)"
    using ok by (simp add: lru_ok_def lru_shape_def bindings_def MoveToFront_facts)
  show "elem_value el (order c) = map_of (bindings c) k" using element_value(2) [OF sh v] .
qed

lemma without_absent:
  assumes "k \<notin> fst ` set xs"
  shows "filter (\<lambda>(i, _). i = k) xs = []" and "filter (\<lambda>(i, _). i \<noteq> k) xs = xs"
proof -
  have "\<forall>x\<in>set xs. fst x \<noteq> k" using assms by (metis imageI)
  then show "filter (\<lambda>(i, _). i = k) xs = []" and "filter (\<lambda>(i, _). i \<noteq> k) xs = xs"
    by (simp_all add: filter_empty_conv filter_id_conv case_prod_beta)
qed

lemma length_without_key:
  "keys_distinct xs \<Longrightarrow> (k, y) \<in> set xs \<Longrightarrow> Suc (length (filter (\<lambda>(i, _). i \<noteq> k) xs)) = length xs"
proof (induction xs)
  case (Cons x xs)
  show ?case
  proof (cases "fst x = k")
    case True
    then have "k \<notin> fst ` set xs" using Cons.prems(1) by auto
    then show ?thesis using True without_absent(2) [of k xs] by (cases x) simp
  next
    case False
    with Cons show ?thesis by (auto simp: case_prod_beta)
  qed
qed simp

lemma remove_shape:
  assumes sh: "lru_shape c" and el: "(el, k, v) \<in> set (order c)"
  shows "lru_shape (c\<lparr>entries := AList.delete k (entries c), order := list_Remove el (order c)\<rparr>)"
    and "bindings (c\<lparr>entries := AList.delete k (entries c), order := list_Remove el (order c)\<rparr>) =
      filter (\<lambda>(k', _). k' \<noteq> k) (bindings c)"
    and "Suc (length (list_Remove el (order c))) = length (order c)"
proof -
  let ?o = "list_Remove el (order c)"
  have same: "(fst x = el) = (fst (snd x) = k)" if "x \<in> set (order c)" for x
    using same_element [OF sh el, of "fst x" "fst (snd x)" "snd (snd x)"] that by simp
  show b: "bindings (c\<lparr>entries := AList.delete k (entries c), order := ?o\<rparr>) = filter (\<lambda>(k', _). k' \<noteq> k) (bindings c)"
    using filter_element(2) [OF sh el] by (simp add: bindings_def list_Remove_def)
  have "set (AList.delete k (entries c)) = (\<lambda>(el, k, v). (k, el)) ` set ?o"
    using sh same by (auto simp: lru_shape_def AList.delete_eq list_Remove_def case_prod_beta image_iff)
  moreover have "distinct (map fst ?o)" "distinct (map fst (map snd ?o))"
    using sh by (simp_all add: lru_shape_def list_Remove_def bindings_def distinct_map_filter)
  moreover have "\<forall>el\<in>fst ` set ?o. el < next_element c" using sh by (auto simp: lru_shape_def list_Remove_def)
  ultimately show "lru_shape (c\<lparr>entries := AList.delete k (entries c), order := ?o\<rparr>)"
    using sh by (simp add: lru_shape_def bindings_def distinct_delete)
  have "distinct (map fst (order c))" using sh by (simp add: lru_shape_def)
  then show "Suc (length ?o) = length (order c)" unfolding list_Remove_def by (rule length_without_key [OF _ el])
qed

lemma update_absent: "k \<notin> fst ` set al \<Longrightarrow> AList.update k v al = al @ [(k, v)]"
  by (induction al) auto

lemma add_shape:
  assumes sh: "lru_shape c" and new: "map_of (entries c) k = None"
  shows "lru_shape (c\<lparr>order := (next_element c, k, v) # order c,
      entries := AList.update k (next_element c) (entries c), next_element := next_element c + 1\<rparr>)"
proof -
  have "k \<notin> fst ` set (entries c)" using new by (simp add: map_of_eq_None_iff)
  then have u: "AList.update k (next_element c) (entries c) = entries c @ [(k, next_element c)]"
    by (rule update_absent)
  show ?thesis using sh no_entry_iff [OF sh, of k] new \<open>k \<notin> fst ` set (entries c)\<close>
    by (auto simp: lru_shape_def bindings_def u less_Suc_eq)
qed

lemma drop_last_binding:
  assumes "keys_distinct xs" and "xs \<noteq> []"
  shows "filter (\<lambda>(k', _). k' \<noteq> fst (last xs)) xs = butlast xs"
proof -
  have "xs = butlast xs @ [last xs]" using assms(2) by simp
  then have "distinct (map fst (butlast xs) @ [fst (last xs)])" using assms(1) by (metis list.simps(8,9) map_append)
  then have "\<forall>x\<in>set (butlast xs). fst x \<noteq> fst (last xs)" by (metis append_Cons distinct_append
      disjoint_iff image_eqI list.set_intros(1) list.set_map)
  then have "filter (\<lambda>(k', _). k' \<noteq> fst (last xs)) (butlast xs @ [last xs]) = butlast xs"
    by (simp add: case_prod_beta)
  then show ?thesis using assms(2) by simp
qed

lemma evict_spec:
  assumes sh: "lru_shape c" and len: "int (length (order c)) \<le> lru_capacity c + 1" and cap: "1 \<le> lru_capacity c"
    and ev: "evict_oldest c = (evicted, c')"
  shows "lru_ok c'" and "bindings c' = take (nat (lru_capacity c)) (bindings c)"
    and "evicted = drop (nat (lru_capacity c)) (bindings c)" and "lru_capacity c' = lru_capacity c"
proof -
  let ?n = "nat (lru_capacity c)"
  have blen: "length (bindings c) = length (order c)" by (simp add: bindings_def)
  have "lru_ok c' \<and> bindings c' = take ?n (bindings c) \<and> evicted = drop ?n (bindings c) \<and> lru_capacity c' = lru_capacity c"
  proof (cases "int (length (order c)) > lru_capacity c")
    case False
    then have "evicted = []" "c' = c" using ev by (auto simp: evict_oldest_def)
    with False sh cap blen show ?thesis by (simp add: lru_ok_def)
  next
    case True
    then have ne: "order c \<noteq> []" using cap by auto
    obtain el k v where l: "last (order c) = (el, k, v)" by (cases "last (order c)")
    then have el: "(el, k, v) \<in> set (order c)" using ne by (metis last_in_set)
    have n: "length (bindings c) = Suc ?n" using True len cap blen by linarith
    have bl: "last (bindings c) = (k, v)" using l ne by (simp add: bindings_def last_map)
    have "bindings c' = butlast (bindings c)"
    proof -
      have "bindings c \<noteq> []" using n by auto
      then have "filter (\<lambda>(k', _). k' \<noteq> k) (bindings c) = butlast (bindings c)"
        using drop_last_binding [of "bindings c"] sh bl by (simp add: lru_shape_def)
      with remove_shape(2) [OF sh el] ev True l show ?thesis by (auto simp: evict_oldest_def)
    qed
    moreover have "butlast (bindings c) = take ?n (bindings c)" using n by (simp add: butlast_conv_take)
    moreover have "drop ?n (bindings c) = [(k, v)]"
      using n bl by (metis append_butlast_last_id append_eq_conv_conj butlast_conv_take diff_Suc_1 length_0_conv
          length_butlast nat.distinct(1))
    moreover have "evicted = [(k, v)]" using ev True l by (simp add: evict_oldest_def)
    moreover have "lru_shape c'" "Suc (length (order c')) = length (order c)" "lru_capacity c' = lru_capacity c"
      using remove_shape(1,3) [OF sh el] ev True l by (auto simp: evict_oldest_def)
    ultimately show ?thesis using len cap by (simp add: lru_ok_def)
  qed
  then show "lru_ok c'" "bindings c' = take ?n (bindings c)" "evicted = drop ?n (bindings c)"
    "lru_capacity c' = lru_capacity c" by simp_all
qed

lemma singleton_filter:
  "keys_distinct xs \<Longrightarrow> (i, y) \<in> set xs \<Longrightarrow> map snd (filter (\<lambda>(j, _). j = i) xs) = [y]"
proof (induction xs)
  case (Cons x xs)
  show ?case
  proof (cases "fst x = i")
    case True
    then have "i \<notin> fst ` set xs" using Cons.prems(1) by auto
    then have "filter (\<lambda>(j, _). j = i) xs = []" by (rule without_absent)
    moreover have "x = (i, y)"
      using Cons.prems(2) True \<open>i \<notin> fst ` set xs\<close> by (cases x) (auto intro: rev_image_eqI)
    ultimately show ?thesis by simp
  next
    case False
    with Cons show ?thesis by auto
  qed
qed simp

section \<open>Bounded caches\<close>

text \<open>The interface: a cache is its list of bindings, most recently used first. The client lemmas
  follow a whole sequence of operations.\<close>

datatype ('k, 'v) cache_op = AddOp 'k 'v | GetOp 'k | DelOp 'k

fun cache_run ::
  "('k \<Rightarrow> 'v \<Rightarrow> 'c \<Rightarrow> 'v option \<times> ('k \<times> 'v) list \<times> 'c) \<Rightarrow> ('k \<Rightarrow> 'c \<Rightarrow> 'v option \<times> 'c) \<Rightarrow>
   ('k \<Rightarrow> 'c \<Rightarrow> bool \<times> ('k \<times> 'v) list \<times> 'c) \<Rightarrow> ('k, 'v) cache_op list \<Rightarrow> 'c \<Rightarrow>
   ('k \<times> 'v) list \<times> ('k \<times> 'v) list \<times> 'c" where
  "cache_run add get del [] c = ([], [], c)"
| "cache_run add get del (AddOp k v # os) c =
     (let (_, out, c1) = add k v c; (made, outs, c2) = cache_run add get del os c1
      in ((if fst (get k c) = None then [(k, v)] else []) @ made, out @ outs, c2))"
| "cache_run add get del (GetOp k # os) c = cache_run add get del os (snd (get k c))"
| "cache_run add get del (DelOp k # os) c =
     (let (_, out, c1) = del k c; (made, outs, c2) = cache_run add get del os c1 in (made, out @ outs, c2))"

text \<open>The keys in the order of their last use, the latest first.\<close>

definition recency :: "'k list \<Rightarrow> 'k list" where
  "recency ks = rev (remdups ks)"

lemma remdups_snoc: "remdups (ks @ [k]) = filter (\<lambda>k'. k' \<noteq> k) (remdups ks) @ [k]"
  by (induction ks) auto

lemma recency_snoc: "recency (ks @ [k]) = k # filter (\<lambda>k'. k' \<noteq> k) (recency ks)"
  by (simp add: recency_def remdups_snoc rev_filter)

lemma distinct_recency: "distinct (recency ks)"
  by (simp add: recency_def)

lemma length_without:
  "distinct xs \<Longrightarrow> k \<in> set xs \<Longrightarrow> Suc (length (filter (\<lambda>x. x \<noteq> k) xs)) = length xs"
  using length_without_key [of "map (\<lambda>x. (x, ())) xs" k "()"] by (simp add: filter_map o_def)

text \<open>Moving a key to the front and cutting off at the bound commute.\<close>

lemma take_touch:
  assumes "distinct ys"
  shows "take n (k # filter (\<lambda>x. x \<noteq> k) (take n ys)) = take n (k # filter (\<lambda>x. x \<noteq> k) ys)"
proof -
  have ys: "filter (\<lambda>x. x \<noteq> k) ys = filter (\<lambda>x. x \<noteq> k) (take n ys) @ filter (\<lambda>x. x \<noteq> k) (drop n ys)"
    by (metis append_take_drop_id filter_append)
  have "n - 1 \<le> length (filter (\<lambda>x. x \<noteq> k) (take n ys)) \<or> drop n ys = []"
  proof (cases "k \<in> set (take n ys)")
    case True
    then have "Suc (length (filter (\<lambda>x. x \<noteq> k) (take n ys))) = length (take n ys)"
      using assms by (intro length_without) auto
    then show ?thesis by (cases "length ys \<le> n") auto
  next
    case False
    then have "filter (\<lambda>x. x \<noteq> k) (take n ys) = take n ys" by (auto simp: filter_id_conv)
    then show ?thesis by (cases "length ys \<le> n") auto
  qed
  with ys show ?thesis by (cases n) auto
qed

lemma keys_use_key:
  assumes "keys_distinct xs" and "k \<in> fst ` set xs"
  shows "map fst (use_key k xs) = k # filter (\<lambda>x. x \<noteq> k) (map fst xs)"
proof -
  have f: "map fst (filter (\<lambda>(k', _). P k') xs) = filter P (map fst xs)" for P :: "'a \<Rightarrow> bool" and xs :: "('a \<times> 'b) list"
    by (induction xs) auto
  have "filter (\<lambda>x. x = k) ys = [k]" if "distinct ys" "k \<in> set ys" for ys :: "'a list"
    using that by (induction ys) (auto simp: filter_empty_conv)
  with assms show ?thesis by (simp add: use_key_def f)
qed

lemma mset_use_key: "mset (use_key k xs) = mset xs"
  using mset_front [of "\<lambda>(k', _). k' = k" xs] by (simp add: use_key_def case_prod_beta)

locale bounded_cache =
  fixes add :: "'k \<Rightarrow> 'v \<Rightarrow> 'c \<Rightarrow> 'v option \<times> ('k \<times> 'v) list \<times> 'c" and get :: "'k \<Rightarrow> 'c \<Rightarrow> 'v option \<times> 'c"
    and del :: "'k \<Rightarrow> 'c \<Rightarrow> bool \<times> ('k \<times> 'v) list \<times> 'c"
    and model :: "'c \<Rightarrow> ('k \<times> 'v) list" and valid :: "'c \<Rightarrow> bool" and bound :: "'c \<Rightarrow> nat"
  assumes model_ok: "valid c \<Longrightarrow> keys_distinct (model c) \<and> length (model c) \<le> bound c \<and> bound c > 0"
    and add_hit: "valid c \<Longrightarrow> k \<in> fst ` set (model c) \<Longrightarrow> add k v c = (r, out, c') \<Longrightarrow>
      valid c' \<and> bound c' = bound c \<and> r = map_of (model c) k \<and> out = [] \<and> model c' = use_key k (model c)"
    and add_miss: "valid c \<Longrightarrow> k \<notin> fst ` set (model c) \<Longrightarrow> add k v c = (r, out, c') \<Longrightarrow>
      valid c' \<and> bound c' = bound c \<and> r = Some v \<and> out = drop (bound c) ((k, v) # model c) \<and>
      model c' = take (bound c) ((k, v) # model c)"
    and get_spec: "valid c \<Longrightarrow> get k c = (r, c') \<Longrightarrow>
      valid c' \<and> bound c' = bound c \<and> r = map_of (model c) k \<and> model c' = use_key k (model c)"
    and del_spec: "valid c \<Longrightarrow> del k c = (b, out, c') \<Longrightarrow>
      valid c' \<and> bound c' = bound c \<and> (b \<longleftrightarrow> k \<in> fst ` set (model c)) \<and>
      out = filter (\<lambda>(k', _). k' = k) (model c) \<and> model c' = filter (\<lambda>(k', _). k' \<noteq> k) (model c)"
begin

lemma get_None: "valid c \<Longrightarrow> fst (get k c) = None \<longleftrightarrow> k \<notin> fst ` set (model c)"
  using get_spec [of c k] by (cases "get k c") (simp add: map_of_eq_None_iff)

lemma add_step:
  assumes "valid c" and "add k v c = (r, out, c1)"
  shows "valid c1 \<and> bound c1 = bound c \<and>
     mset (model c1) + mset out = mset (model c) + mset (if fst (get k c) = None then [(k, v)] else [])"
proof (cases "k \<in> fst ` set (model c)")
  case True
  with add_hit [OF assms(1) True assms(2)] show ?thesis by (simp add: get_None [OF assms(1)] mset_use_key)
next
  case False
  have "mset (take n xs) + mset (drop n xs) = mset xs" for n and xs :: "('k \<times> 'v) list"
    by (metis append_take_drop_id mset_append)
  with add_miss [OF assms(1) False assms(2)] False show ?thesis by (simp add: get_None [OF assms(1)])
qed

lemma run_spec:
  "valid c \<Longrightarrow> cache_run add get del ops c = (made, out, c') \<Longrightarrow>
   valid c' \<and> bound c' = bound c \<and> mset (model c') + mset out = mset (model c) + mset made"
proof (induction ops arbitrary: c made out)
  case (Cons op ops)
  show ?case
  proof (cases op)
    case (AddOp k v)
    obtain r o1 c1 where a: "add k v c = (r, o1, c1)" by (cases "add k v c")
    obtain m2 o2 where r: "cache_run add get del ops c1 = (m2, o2, c')" "made = (if fst (get k c) = None then [(k, v)] else []) @ m2"
      "out = o1 @ o2" using Cons.prems(2) AddOp a by (auto split: prod.splits)
    from add_step [OF Cons.prems(1) a] Cons.IH [OF _ r(1)] r(2,3) show ?thesis
      by (simp add: ac_simps)
  next
    case (GetOp k)
    obtain v c1 where g: "get k c = (v, c1)" by (cases "get k c")
    with Cons GetOp get_spec [OF Cons.prems(1) g] show ?thesis by (auto simp: mset_use_key)
  next
    case (DelOp k)
    obtain b o1 c1 where d: "del k c = (b, o1, c1)" by (cases "del k c")
    obtain o2 where r: "cache_run add get del ops c1 = (made, o2, c')" "out = o1 @ o2"
      using Cons.prems(2) DelOp d by (auto split: prod.splits)
    note s = del_spec [OF Cons.prems(1) d]
    have "mset (model c1) + mset o1 = mset (model c)"
      using s mset_front [of "\<lambda>(k', _). k' = k" "model c"] by (simp add: case_prod_beta add.commute)
    then have "mset (model c') + mset out = mset (model c) + mset made"
      using s Cons.IH [OF _ r(1)] r(2)
      by (metis (no_types, lifting) add.assoc add.commute mset_append)
    then show ?thesis using s Cons.IH [OF _ r(1)] by simp
  qed
qed simp

lemma add_keys:
  assumes "valid c" and "add k v c = (r, out, c1)" and ys: "map fst (model c) = take (bound c) ys" "distinct ys"
  shows "map fst (model c1) = take (bound c) (k # filter (\<lambda>x. x \<noteq> k) ys)"
proof -
  note mo = model_ok [OF assms(1)]
  have *: "take (bound c) (k # filter (\<lambda>x. x \<noteq> k) (map fst (model c))) = take (bound c) (k # filter (\<lambda>x. x \<noteq> k) ys)"
    unfolding ys(1) by (rule take_touch) (rule ys(2))
  show ?thesis
  proof (cases "k \<in> fst ` set (model c)")
    case True
    then have "map fst (model c1) = k # filter (\<lambda>x. x \<noteq> k) (map fst (model c))"
      using add_hit [OF assms(1) True assms(2)] mo by (simp add: keys_use_key)
    moreover have "length (k # filter (\<lambda>x. x \<noteq> k) (map fst (model c))) \<le> bound c"
      using length_without [of "map fst (model c)" k] True mo by simp
    ultimately show ?thesis using * by simp
  next
    case False
    then have "map fst (model c1) = take (bound c) (k # map fst (model c))"
      using add_miss [OF assms(1) False assms(2)] by (simp add: take_map [symmetric])
    moreover have "filter (\<lambda>x. x \<noteq> k) (map fst (model c)) = map fst (model c)"
      using False by (auto simp: filter_id_conv)
    ultimately show ?thesis using * by simp
  qed
qed

lemma run_recency:
  "valid c \<Longrightarrow> map fst (model c) = take (bound c) (recency ks) \<Longrightarrow>
   cache_run add get del (map (\<lambda>(k, v). AddOp k v) kvs) c = (made, out, c') \<Longrightarrow>
   map fst (model c') = take (bound c) (recency (ks @ map fst kvs))"
proof (induction kvs arbitrary: c ks made out)
  case (Cons kv kvs)
  obtain k v where kv: "kv = (k, v)" by (cases kv)
  obtain r o1 c1 where a: "add k v c = (r, o1, c1)" by (cases "add k v c")
  have s: "valid c1" "bound c1 = bound c" using add_step [OF Cons.prems(1) a] by simp_all
  have "map fst (model c1) = take (bound c1) (recency (ks @ [k]))"
    using add_keys [OF Cons.prems(1) a Cons.prems(2) distinct_recency] s by (simp add: recency_snoc)
  from Cons.IH [OF s(1) this] Cons.prems(3) kv a s(2) show ?case by (auto split: prod.splits)
qed simp

end

interpretation lru: bounded_cache GetOrAdd lru_Get lru_Delete bindings lru_ok "\<lambda>c. nat (lru_capacity c)"
proof
  fix c :: "('k, 'v) boundedLRU" and k v r out c' b
  assume ok: "lru_ok c"
  then have sh: "lru_shape c" and len: "int (length (order c)) \<le> lru_capacity c" and cap: "1 \<le> lru_capacity c"
    by (simp_all add: lru_ok_def)
  show "keys_distinct (bindings c) \<and> length (bindings c) \<le> nat (lru_capacity c) \<and> 0 < nat (lru_capacity c)"
    using sh len cap by (simp add: lru_shape_def bindings_def nat_le_iff le_nat_iff)
  have hit: "\<exists>el. map_of (entries c) k = Some el" if "k \<in> fst ` set (bindings c)"
    using no_entry_iff [OF sh, of k] that by blast
  show "lru_ok c' \<and> nat (lru_capacity c') = nat (lru_capacity c) \<and> r = map_of (bindings c) k \<and> out = [] \<and>
      bindings c' = use_key k (bindings c)"
    if "k \<in> fst ` set (bindings c)" "GetOrAdd k v c = (r, out, c')"
    using that hit move_ok [OF ok, of k] by (auto simp: GetOrAdd_def)
  show "lru_ok c' \<and> nat (lru_capacity c') = nat (lru_capacity c) \<and> r = Some v \<and>
      out = drop (nat (lru_capacity c)) ((k, v) # bindings c) \<and> bindings c' = take (nat (lru_capacity c)) ((k, v) # bindings c)"
    if "k \<notin> fst ` set (bindings c)" "GetOrAdd k v c = (r, out, c')"
  proof -
    have new: "map_of (entries c) k = None" using no_entry_iff [OF sh] that(1) by blast
    let ?c = "c\<lparr>order := (next_element c, k, v) # order c,
      entries := AList.update k (next_element c) (entries c), next_element := next_element c + 1\<rparr>"
    have "r = Some v" "evict_oldest ?c = (out, c')"
      using that(2) new by (auto simp: GetOrAdd_def Let_def split: prod.splits)
    with evict_spec [OF add_shape [OF sh new] _ _ this(2)] len cap show ?thesis by (simp add: bindings_def)
  qed
  show "lru_ok c' \<and> nat (lru_capacity c') = nat (lru_capacity c) \<and> r = map_of (bindings c) k \<and>
      bindings c' = use_key k (bindings c)" if "lru_Get k c = (r, c')"
  proof (cases "map_of (entries c) k")
    case None
    then have "k \<notin> fst ` set (bindings c)" using no_entry_iff [OF sh] by blast
    then have "use_key k (bindings c) = bindings c" "map_of (bindings c) k = None"
      by (simp_all add: use_key_def without_absent map_of_eq_None_iff)
    with that None ok show ?thesis by (simp add: lru_Get_def)
  next
    case (Some el)
    with that move_ok [OF ok Some] show ?thesis by (auto simp: lru_Get_def)
  qed
  show "lru_ok c' \<and> nat (lru_capacity c') = nat (lru_capacity c) \<and> b = (k \<in> fst ` set (bindings c)) \<and>
      out = filter (\<lambda>(k', _). k' = k) (bindings c) \<and> bindings c' = filter (\<lambda>(k', _). k' \<noteq> k) (bindings c)"
    if "lru_Delete k c = (b, out, c')"
  proof (cases "map_of (entries c) k")
    case None
    then have "k \<notin> fst ` set (bindings c)" using no_entry_iff [OF sh] by blast
    with that None ok show ?thesis by (simp add: lru_Delete_def without_absent)
  next
    case (Some el)
    then obtain v where el: "(el, k, v) \<in> set (order c)" using entry_iff [OF sh] by blast
    have "map snd (filter (\<lambda>(i, _). i = el) (order c)) = [(k, v)]"
      using el sh by (intro singleton_filter) (auto simp: lru_shape_def)
    then have "filter (\<lambda>(k', _). k' = k) (bindings c) = [(k, v)]" using filter_element(1) [OF sh el] by simp
    moreover have "k \<in> fst ` set (bindings c)" using el by (force simp: bindings_def)
    ultimately show ?thesis
      using that Some remove_shape [OF sh el] element_value(1) [OF sh el] len cap
      by (auto simp: lru_Delete_def lru_ok_def)
  qed
qed

text \<open>C13: Filling a fresh cache through \<open>GetOrAdd\<close> keeps exactly the most recently used keys: after
  any sequence of calls the cached keys are the last distinct keys used, the latest first, cut off
  at the capacity (at least one). So what is evicted is always the least recently used key.\<close>

theorem lru_keeps_most_recent:
  assumes "cache_run GetOrAdd lru_Get lru_Delete (map (\<lambda>(k, v). AddOp k v) kvs) (NewBoundedLRU n) = (made, out, c)"
  shows "map fst (bindings c) = take (nat (max 1 n)) (recency (map fst kvs))"
proof -
  have "map fst (bindings (NewBoundedLRU n :: ('a, 'b) boundedLRU)) =
      take (nat (lru_capacity (NewBoundedLRU n :: ('a, 'b) boundedLRU))) (recency [])"
    by (simp add: recency_def)
  from lru.run_recency [OF lru_ok_new this assms] show ?thesis
    by (simp add: NewBoundedLRU_def max_def split: if_splits)
qed

theorem lru_keeps_most_recent_witness:
  "map fst (bindings (snd (snd (cache_run GetOrAdd lru_Get lru_Delete
     (map (\<lambda>(k, v). AddOp k v) [(1::nat, ''a''), (2, ''b''), (1, ''c''), (3, ''d'')]) (NewBoundedLRU 2))))) = [3, 1]"
proof -
  obtain made out c where r: "cache_run GetOrAdd lru_Get lru_Delete
     (map (\<lambda>(k, v). AddOp k v) [(1::nat, ''a''), (2, ''b''), (1, ''c''), (3, ''d'')]) (NewBoundedLRU 2) = (made, out, c)"
    by (metis prod_cases3)
  show ?thesis unfolding r using lru_keeps_most_recent [OF r] by (simp add: recency_def eval_nat_numeral)
qed

text \<open>Whatever sequence of additions, lookups and deletions a cache goes through, it never holds
  more bindings than its capacity, the map and the list agree (\<open>Len\<close> is the number of bindings, and a
  lookup returns what the bindings say), and no value is lost: every value that was created is
  either still bound or has been handed to the eviction callback, each exactly once.\<close>

theorem lru_conserves_values:
  assumes "lru_ok c" and "cache_run GetOrAdd lru_Get lru_Delete ops c = (made, out, c')"
  shows "int (length (bindings c')) \<le> lru_capacity c' \<and> lru_Len c' = length (bindings c') \<and>
     fst (lru_Get k c') = map_of (bindings c') k \<and>
     mset (bindings c') + mset out = mset (bindings c) + mset made"
proof -
  have s: "lru_ok c'" "mset (bindings c') + mset out = mset (bindings c) + mset made"
    using lru.run_spec [OF assms] by simp_all
  obtain r c2 where g: "lru_Get k c' = (r, c2)" by (cases "lru_Get k c'")
  have "fst (lru_Get k c') = map_of (bindings c') k" using lru.get_spec [OF s(1) g] g by simp
  moreover have "lru_Len c' = length (bindings c')"
  proof -
    have sh: "lru_shape c'" using s(1) by (simp add: lru_ok_def)
    have "length (map fst (entries c')) = card (set (map fst (entries c')))"
      "length (map fst (bindings c')) = card (set (map fst (bindings c')))"
      using sh unfolding lru_shape_def by (metis distinct_card)+
    moreover have "set (map fst (entries c')) = set (map fst (bindings c'))"
      using sh by (simp add: lru_shape_def bindings_def image_image case_prod_beta)
    ultimately show ?thesis by (simp add: lru_Len_def)
  qed
  ultimately show ?thesis using s lru.model_ok [OF s(1)] by (simp add: lru_ok_def bindings_def)
qed


theorem lru_conserves_values_witness:
  "\<exists>made out c'. cache_run GetOrAdd lru_Get lru_Delete
       [AddOp (1::nat) ''a'', AddOp 2 ''b'', GetOp 1, AddOp 3 ''c'', DelOp 1] (NewBoundedLRU 2) = (made, out, c') \<and>
     lru_Len c' = 1 \<and> mset (bindings c') + mset out = {#(1, ''a''), (2, ''b''), (3, ''c'')#}"
proof -
  let ?ops = "[AddOp (1::nat) ''a'', AddOp 2 ''b'', GetOp 1, AddOp 3 ''c'', DelOp 1]"
  obtain made out c' where r: "cache_run GetOrAdd lru_Get lru_Delete ?ops (NewBoundedLRU 2) = (made, out, c')"
    by (metis prod_cases3)
  have "lru_Len (snd (snd (cache_run GetOrAdd lru_Get lru_Delete ?ops (NewBoundedLRU 2)))) = 1 \<and>
      fst (cache_run GetOrAdd lru_Get lru_Delete ?ops (NewBoundedLRU 2)) = [(1, ''a''), (2, ''b''), (3, ''c'')]"
    by code_simp
  then have "lru_Len c' = 1" "made = [(1, ''a''), (2, ''b''), (3, ''c'')]" unfolding r by simp_all
  then have "lru_Len c' = 1 \<and> mset (bindings c') + mset out = {#(1, ''a''), (2, ''b''), (3, ''c'')#}"
    using lru_conserves_values [OF lru_ok_new r] by simp
  with r show ?thesis by blast
qed

end
