(* ===== verification/ExecRegistry.thy ===== *)
theory ExecRegistry
  imports GoBase
begin

text \<open>
  The execution registry of \<open>src/sdk/cliproxy/executionregistry\<close> (\<open>registry.go\<close> and
  \<open>observation.go\<close>): it hands out dispatch tokens, turns them into execution scopes, closes the
  resources bound to scopes, numbers the releases of accounted scopes per credential and model,
  and drains itself at the end of a subscriber lifetime.

  The state holds the registry, the scopes that were ever installed (goroutines keep pointers to a
  scope after the registry has dropped it) and, for every goroutine that is inside one of the
  blocking calls, where it stands: \<open>EndWithRelease\<close> in the field \<open>ending\<close> of its scope,
  \<open>Drain\<close>, \<open>WaitPending\<close> and \<open>Close\<close> as program counters of their own. One step is one
  critical section, one atomic load or swap of \<open>state\<close>, one callback, or one wake-up. The
  compare-and-swap of \<open>state\<close> happens outside the mutex; a critical section reads \<open>state\<close> once,
  so a swap during the section is the same as one after it. Token numbers are natural numbers:
  the 64-bit counter does not wrap within the life of a process.
\<close>

section \<open>Data\<close>

datatype registry_error =
  ErrRegistryNotAccepting | ErrRegistryClosed | ErrInvalidPendingDispatch
| ErrInvalidExecutionResource | ErrExecutionResourceAlreadyBound

datatype reg_state = StateAccepting | StateDraining | StateClosed

record ScopeSpec =
  sp_RequestID :: string
  sp_CredentialID :: string
  sp_Model :: string
  sp_Kind :: string
  sp_StartedAt :: int
  sp_Accounted :: bool

text \<open>\<open>ReleaseGroup\<close> is the pair of credential and model.\<close>

type_synonym ReleaseGroup = "string \<times> string"

record ReleaseTicket =
  tk_Group :: ReleaseGroup
  tk_Sequence :: int
  tk_done :: nat

type_synonym ReleaseSink = "ReleaseGroup \<Rightarrow> int \<Rightarrow> ReleaseTicket option"

text \<open>A bound resource is named by a number. \<open>closeDone\<close> is nil, or open while the goroutine that
  closes the resource runs (before and after it has called the close function), or closed.\<close>

datatype close_state = NoClose | CloseSpawned nat | CloseCalled | CloseDone

text \<open>Where \<open>EndWithRelease\<close> stands inside \<open>ended.Do\<close>.\<close>

datatype end_phase =
  NotEnded | Deactivated | AwaitClose | ResourceClosed | Marked "ReleaseSink option" ReleaseGroup int
| SinkCalled "ReleaseTicket option" | TicketStored | is_Ended: Ended

record scope =
  sc_spec :: ScopeSpec
  sc_closeFn :: "nat option"
  sc_closeDone :: close_state
  sc_releaseTicket :: "ReleaseTicket option"
  sc_active :: bool
  sc_ending :: end_phase
  sc_sequence :: int

record registry =
  rg_state :: reg_state
  rg_next :: nat
  rg_snapshotRevision :: int
  rg_observedBarrier :: int
  rg_pendingBarrierSequence :: nat
  rg_publishedBarrier :: int
  rg_pending :: "nat list"
  rg_spent :: "nat list"
  rg_scopes :: "nat list"
  rg_heap :: "(nat \<times> scope) list"
  rg_releaseSequences :: "(ReleaseGroup \<times> int) list"
  rg_releaseSink :: "ReleaseSink option"
  rg_changed :: nat
  rg_closeStarted :: bool
  rg_closeFinished :: bool
  rg_bound :: "nat list"
  rg_closed :: "nat list"

text \<open>\<open>rg_spent\<close> lists the tokens whose \<open>once\<close> has fired; \<open>rg_changed\<close> is the identity of the
  channel that \<open>signalLocked\<close> replaces; \<open>rg_bound\<close> and \<open>rg_closed\<close> record the scopes for which a
  resource was bound and for which a close function was called.\<close>

definition New_registry :: registry where
  "New_registry = \<lparr>rg_state = StateAccepting, rg_next = 0, rg_snapshotRevision = 0, rg_observedBarrier = 0,
     rg_pendingBarrierSequence = 0, rg_publishedBarrier = 0, rg_pending = [], rg_spent = [], rg_scopes = [],
     rg_heap = [], rg_releaseSequences = [], rg_releaseSink = None, rg_changed = 0, rg_closeStarted = False,
     rg_closeFinished = False, rg_bound = [], rg_closed = []\<rparr>"

definition NewReleaseTicket :: "ReleaseGroup \<Rightarrow> int \<Rightarrow> nat option \<Rightarrow> ReleaseTicket option" where
  "NewReleaseTicket g sequence ch =
     (if sequence \<le> 0 \<or> ch = None then None
      else Some \<lparr>tk_Group = g, tk_Sequence = sequence, tk_done = the ch\<rparr>)"

section \<open>Dispatch tokens\<close>

definition signalLocked :: "registry \<Rightarrow> registry" where
  "signalLocked r = r\<lparr>rg_changed := rg_changed r + 1\<rparr>"

definition BeginDispatch :: "registry \<Rightarrow> (registry_error + nat) \<times> registry" where
  "BeginDispatch r =
     (if rg_state r \<noteq> StateAccepting then (Inl ErrRegistryNotAccepting, r)
      else let i = rg_next r + 1 in (Inr i, r\<lparr>rg_next := i, rg_pending := i # rg_pending r\<rparr>))"

definition drop_pending :: "nat \<Rightarrow> registry \<Rightarrow> registry" where
  "drop_pending i r = signalLocked (r\<lparr>rg_pending := removeAll i (rg_pending r)\<rparr>)"

definition spend :: "nat \<Rightarrow> registry \<Rightarrow> registry" where
  "spend i r = r\<lparr>rg_spent := (if i \<in> set (rg_spent r) then rg_spent r else i # rg_spent r)\<rparr>"

definition pending_End :: "nat \<Rightarrow> registry \<Rightarrow> registry" where
  "pending_End i r = (if i \<in> set (rg_spent r) then r else drop_pending i (spend i r))"

definition new_scope :: "ScopeSpec \<Rightarrow> scope" where
  "new_scope spec = \<lparr>sc_spec = spec, sc_closeFn = None, sc_closeDone = NoClose, sc_releaseTicket = None,
     sc_active = True, sc_ending = NotEnded, sc_sequence = 0\<rparr>"

definition Install :: "nat \<Rightarrow> ScopeSpec \<Rightarrow> registry \<Rightarrow> (registry_error + nat) \<times> registry" where
  "Install i spec r =
     (if rg_state r \<noteq> StateAccepting then (Inl ErrRegistryNotAccepting, drop_pending i (spend i r))
      else if i \<notin> set (rg_pending r) then (Inl ErrInvalidPendingDispatch, r)
      else (Inr i, let r = spend i r in
        signalLocked (r\<lparr>rg_pending := removeAll i (rg_pending r), rg_scopes := i # rg_scopes r,
          rg_heap := (i, new_scope spec) # rg_heap r\<rparr>)))"

section \<open>Releases\<close>

datatype raw_sink = NilSink | TicketSink ReleaseSink | PlainSink | OtherSink

definition sink_of :: "raw_sink \<Rightarrow> ReleaseSink option option" where
  "sink_of raw =
     (case raw of
        NilSink \<Rightarrow> Some None
      | TicketSink f \<Rightarrow> Some (Some f)
      | PlainSink \<Rightarrow> Some (Some (\<lambda>_ _. None))
      | OtherSink \<Rightarrow> None)"

text \<open>The second result is the sequence of calls the new sink gets.\<close>

definition SetReleaseSink :: "raw_sink \<Rightarrow> registry \<Rightarrow> registry \<times> (ReleaseGroup \<times> int) list" where
  "SetReleaseSink raw r =
     (case sink_of raw of
        None \<Rightarrow> (r, [])
      | Some sink \<Rightarrow>
          (r\<lparr>rg_releaseSink := sink\<rparr>,
           if sink = None then [] else filter (\<lambda>(_, n). n > 0) (rg_releaseSequences r)))"

definition sequence_of :: "registry \<Rightarrow> ReleaseGroup \<Rightarrow> int" where
  "sequence_of r g = (case map_of (rg_releaseSequences r) g of None \<Rightarrow> 0 | Some n \<Rightarrow> n)"

definition group_of :: "ScopeSpec \<Rightarrow> ReleaseGroup" where
  "group_of spec = (sp_CredentialID spec, sp_Model spec)"

definition markReleasedLocked :: "ScopeSpec \<Rightarrow> registry \<Rightarrow> (ReleaseSink option \<times> ReleaseGroup \<times> int) \<times> registry" where
  "markReleasedLocked spec r =
     (if \<not> sp_Accounted spec then ((None, ([], []), 0), r)
      else let g = group_of spec; n = sequence_of r g + 1
           in ((rg_releaseSink r, g, n), r\<lparr>rg_releaseSequences := AList.update g n (rg_releaseSequences r)\<rparr>))"

section \<open>Resources of a scope\<close>

definition upd_scope :: "nat \<Rightarrow> (scope \<Rightarrow> scope) \<Rightarrow> registry \<Rightarrow> registry" where
  "upd_scope i f r = r\<lparr>rg_heap := adjust i f (rg_heap r)\<rparr>"

definition Bind :: "nat \<Rightarrow> nat option \<Rightarrow> registry \<Rightarrow> registry_error option \<times> registry" where
  "Bind i closeFn r =
     (case (map_of (rg_heap r) i, closeFn) of
        (Some s, Some f) \<Rightarrow>
          if rg_state r \<noteq> StateAccepting \<or> \<not> sc_active s then (Some ErrRegistryNotAccepting, r)
          else if sc_closeFn s \<noteq> None \<or> sc_closeDone s \<noteq> NoClose then (Some ErrExecutionResourceAlreadyBound, r)
          else (None, (upd_scope i (\<lambda>s. s\<lparr>sc_closeFn := Some f\<rparr>) r)\<lparr>rg_bound := i # rg_bound r\<rparr>)
      | _ \<Rightarrow> (Some ErrInvalidExecutionResource, r))"

text \<open>The flag of \<open>startBoundResourceClose\<close> says whether there is a channel to wait for.\<close>

definition startBoundResourceClose :: "nat \<Rightarrow> registry \<Rightarrow> bool \<times> registry" where
  "startBoundResourceClose i r =
     (case map_of (rg_heap r) i of
        None \<Rightarrow> (False, r)
      | Some s \<Rightarrow>
          if sc_closeDone s \<noteq> NoClose then (True, r)
          else case sc_closeFn s of
              None \<Rightarrow> (False, r)
            | Some f \<Rightarrow> (True, upd_scope i (\<lambda>s. s\<lparr>sc_closeFn := None, sc_closeDone := CloseSpawned f\<rparr>) r))"

text \<open>The goroutine that \<open>startBoundResourceClose\<close> spawns: call the close function, then close the channel.\<close>

definition close_goroutine :: "nat \<Rightarrow> registry \<Rightarrow> registry option" where
  "close_goroutine i r =
     (case map_of (rg_heap r) i of
        None \<Rightarrow> None
      | Some s \<Rightarrow>
          (case sc_closeDone s of
             CloseSpawned f \<Rightarrow> Some ((upd_scope i (\<lambda>s. s\<lparr>sc_closeDone := CloseCalled\<rparr>) r)\<lparr>rg_closed := i # rg_closed r\<rparr>)
           | CloseCalled \<Rightarrow> Some (upd_scope i (\<lambda>s. s\<lparr>sc_closeDone := CloseDone\<rparr>) r)
           | _ \<Rightarrow> None))"

section \<open>The end of a scope\<close>

definition set_phase :: "nat \<Rightarrow> end_phase \<Rightarrow> registry \<Rightarrow> registry" where
  "set_phase i p r = upd_scope i (\<lambda>s. s\<lparr>sc_ending := p\<rparr>) r"

text \<open>One step of the goroutine that runs \<open>ended.Do\<close> for the scope; \<^const>\<open>None\<close> when it has to wait
  for the resource or has nothing left to do. A later caller of \<open>EndWithRelease\<close> waits for
  \<open>Ended\<close> and returns the stored ticket.\<close>

definition end_step :: "nat \<Rightarrow> registry \<Rightarrow> registry option" where
  "end_step i r =
     (case map_of (rg_heap r) i of
        None \<Rightarrow> None
      | Some s \<Rightarrow>
          (case sc_ending s of
             NotEnded \<Rightarrow> Some (upd_scope i (\<lambda>s. s\<lparr>sc_active := False, sc_ending := Deactivated\<rparr>) r)
           | Deactivated \<Rightarrow>
               (case startBoundResourceClose i r of
                  (True, r') \<Rightarrow> Some (set_phase i AwaitClose r')
                | (False, r') \<Rightarrow> Some (set_phase i ResourceClosed r'))
           | AwaitClose \<Rightarrow> (if sc_closeDone s = CloseDone then Some (set_phase i ResourceClosed r) else None)
           | ResourceClosed \<Rightarrow>
               (case markReleasedLocked (sc_spec s) r of
                  ((sink, g, n), r') \<Rightarrow>
                    Some (upd_scope i (\<lambda>s. s\<lparr>sc_ending := Marked sink g n, sc_sequence := n\<rparr>) r'))
           | Marked sink g n \<Rightarrow>
               Some (set_phase i (SinkCalled (if sink \<noteq> None \<and> n > 0 then the sink g n else None)) r)
           | SinkCalled t \<Rightarrow> Some (upd_scope i (\<lambda>s. s\<lparr>sc_ending := TicketStored, sc_releaseTicket := t\<rparr>) r)
           | TicketStored \<Rightarrow>
               Some (signalLocked ((set_phase i Ended r)\<lparr>rg_scopes := removeAll i (rg_scopes r)\<rparr>))
           | Ended \<Rightarrow> None))"

definition EndWithRelease_result :: "nat \<Rightarrow> registry \<Rightarrow> ReleaseTicket option option" where
  "EndWithRelease_result i r =
     (case map_of (rg_heap r) i of
        None \<Rightarrow> None
      | Some s \<Rightarrow> (case sc_ending s of Ended \<Rightarrow> Some (sc_releaseTicket s) | _ \<Rightarrow> None))"

section \<open>Waiting, draining, closing\<close>

datatype wait_pc = WpCheck | WpWaiting nat | WpReturned bool

definition wait_step :: "wait_pc \<Rightarrow> registry \<Rightarrow> wait_pc option" where
  "wait_step pc r =
     (case pc of
        WpCheck \<Rightarrow> Some (if rg_pending r = [] then WpReturned True else WpWaiting (rg_changed r))
      | WpWaiting g \<Rightarrow> if g \<noteq> rg_changed r then Some WpCheck else None
      | WpReturned _ \<Rightarrow> None)"

datatype drain_pc = DrStart | DrSnapshot | DrClosing "nat list" | DrCheck | DrWaiting nat | DrReturned bool

text \<open>\<open>DrReturned True\<close> is the result nil; the other returns are \<open>ErrRegistryClosed\<close> at the start
  and the error of the context while waiting.\<close>

definition drain_step :: "drain_pc \<Rightarrow> registry \<Rightarrow> (drain_pc \<times> registry) option" where
  "drain_step pc r =
     (case pc of
        DrStart \<Rightarrow>
          Some (if rg_state r = StateAccepting then (DrSnapshot, r\<lparr>rg_state := StateDraining\<rparr>)
                else if rg_state r = StateDraining then (DrSnapshot, r) else (DrReturned False, r))
      | DrSnapshot \<Rightarrow> Some (DrClosing (rg_scopes r), r)
      | DrClosing [] \<Rightarrow> Some (DrCheck, r)
      | DrClosing (i # js) \<Rightarrow> Some (DrClosing js, snd (startBoundResourceClose i r))
      | DrCheck \<Rightarrow>
          Some (if rg_pending r \<noteq> [] \<or> rg_scopes r \<noteq> [] then (DrWaiting (rg_changed r), r)
                else (DrReturned True, r\<lparr>rg_state := StateClosed\<rparr>))
      | DrWaiting g \<Rightarrow> if g \<noteq> rg_changed r then Some (DrCheck, r) else None
      | DrReturned _ \<Rightarrow> None)"

datatype close_pc = ClStart | ClSwap | ClSnapshot | ClClosing "nat list" | ClAwait nat "nat list" | ClJoin | ClReturned

definition close_step :: "close_pc \<Rightarrow> registry \<Rightarrow> (close_pc \<times> registry) option" where
  "close_step pc r =
     (case pc of
        ClStart \<Rightarrow>
          Some (if rg_closeStarted r then (ClJoin, r)
                else if rg_state r = StateClosed then (ClReturned, r)
                else (ClSwap, r\<lparr>rg_closeStarted := True\<rparr>))
      | ClSwap \<Rightarrow> Some (ClSnapshot, r\<lparr>rg_state := StateClosed\<rparr>)
      | ClSnapshot \<Rightarrow> Some (ClClosing (rg_scopes r), r)
      | ClClosing [] \<Rightarrow> Some (ClReturned, r\<lparr>rg_closeFinished := True\<rparr>)
      | ClClosing (i # js) \<Rightarrow>
          (case startBoundResourceClose i r of
             (True, r') \<Rightarrow> Some (ClAwait i js, r')
           | (False, r') \<Rightarrow> Some (ClClosing js, r'))
      | ClAwait i js \<Rightarrow>
          (case map_of (rg_heap r) i of
             Some s \<Rightarrow> if sc_closeDone s = CloseDone then Some (ClClosing js, r) else None
           | None \<Rightarrow> None)
      | ClJoin \<Rightarrow> if rg_closeFinished r then Some (ClReturned, r) else None
      | ClReturned \<Rightarrow> None)"

section \<open>Observation\<close>

record Observation =
  ob_RequestID :: string
  ob_CredentialID :: string
  ob_Model :: string
  ob_RequestKind :: string
  ob_StartedAt :: int
  ob_Accounted :: bool

record Freeze =
  fz_Revision :: int
  fz_BarrierRevision :: int
  fz_Executions :: "Observation list"

definition ObserveBarrier :: "int \<Rightarrow> registry \<Rightarrow> registry" where
  "ObserveBarrier revision r =
     (if revision \<le> 0 then r
      else if revision > rg_observedBarrier r
      then r\<lparr>rg_observedBarrier := revision, rg_pendingBarrierSequence := rg_next r\<rparr>
      else r)"

definition observation_of :: "ScopeSpec \<Rightarrow> Observation" where
  "observation_of spec = \<lparr>ob_RequestID = sp_RequestID spec, ob_CredentialID = sp_CredentialID spec,
     ob_Model = sp_Model spec, ob_RequestKind = sp_Kind spec, ob_StartedAt = sp_StartedAt spec,
     ob_Accounted = sp_Accounted spec\<rparr>"

definition FreezeInFlight :: "registry \<Rightarrow> Freeze \<times> registry" where
  "FreezeInFlight r =
     (let r = (if rg_observedBarrier r > rg_publishedBarrier r \<and>
                  \<not> list_ex (\<lambda>i. i \<le> rg_pendingBarrierSequence r) (rg_pending r)
               then r\<lparr>rg_publishedBarrier := rg_observedBarrier r\<rparr> else r);
          r = r\<lparr>rg_snapshotRevision := rg_snapshotRevision r + 1\<rparr>
      in (\<lparr>fz_Revision = rg_snapshotRevision r, fz_BarrierRevision = rg_publishedBarrier r,
           fz_Executions = map (\<lambda>i. observation_of (sc_spec (the (map_of (rg_heap r) i)))) (rg_scopes r)\<rparr>, r))"

section \<open>Interleavings\<close>

record reg_machine =
  mc_reg :: registry
  mc_waits :: "wait_pc list"
  mc_drains :: "drain_pc list"
  mc_closes :: "close_pc list"

text \<open>A token comes from \<open>BeginDispatch\<close>, so the calls on a token name one that was issued.\<close>

inductive reg_step :: "reg_machine \<Rightarrow> reg_machine \<Rightarrow> bool" where
  st_begin: "reg_step m (m\<lparr>mc_reg := snd (BeginDispatch (mc_reg m))\<rparr>)"
| st_end: "0 < i \<Longrightarrow> i \<le> rg_next (mc_reg m) \<Longrightarrow> reg_step m (m\<lparr>mc_reg := pending_End i (mc_reg m)\<rparr>)"
| st_install: "0 < i \<Longrightarrow> i \<le> rg_next (mc_reg m) \<Longrightarrow> reg_step m (m\<lparr>mc_reg := snd (Install i spec (mc_reg m))\<rparr>)"
| st_sink: "reg_step m (m\<lparr>mc_reg := fst (SetReleaseSink raw (mc_reg m))\<rparr>)"
| st_bind: "reg_step m (m\<lparr>mc_reg := snd (Bind i f (mc_reg m))\<rparr>)"
| st_close_goroutine: "close_goroutine i (mc_reg m) = Some r \<Longrightarrow> reg_step m (m\<lparr>mc_reg := r\<rparr>)"
| st_ending: "end_step i (mc_reg m) = Some r \<Longrightarrow> reg_step m (m\<lparr>mc_reg := r\<rparr>)"
| st_observe: "reg_step m (m\<lparr>mc_reg := ObserveBarrier b (mc_reg m)\<rparr>)"
| st_freeze: "reg_step m (m\<lparr>mc_reg := snd (FreezeInFlight (mc_reg m))\<rparr>)"
| st_wait_call: "reg_step m (m\<lparr>mc_waits := WpCheck # mc_waits m\<rparr>)"
| st_wait: "j < length (mc_waits m) \<Longrightarrow> wait_step (mc_waits m ! j) (mc_reg m) = Some pc \<Longrightarrow>
     reg_step m (m\<lparr>mc_waits := (mc_waits m)[j := pc]\<rparr>)"
| st_wait_cancel: "j < length (mc_waits m) \<Longrightarrow> mc_waits m ! j = WpWaiting g \<Longrightarrow>
     reg_step m (m\<lparr>mc_waits := (mc_waits m)[j := WpReturned False]\<rparr>)"
| st_drain_call: "reg_step m (m\<lparr>mc_drains := DrStart # mc_drains m\<rparr>)"
| st_drain: "j < length (mc_drains m) \<Longrightarrow> drain_step (mc_drains m ! j) (mc_reg m) = Some (pc, r) \<Longrightarrow>
     reg_step m (m\<lparr>mc_reg := r, mc_drains := (mc_drains m)[j := pc]\<rparr>)"
| st_drain_cancel: "j < length (mc_drains m) \<Longrightarrow> mc_drains m ! j = DrWaiting g \<Longrightarrow>
     reg_step m (m\<lparr>mc_drains := (mc_drains m)[j := DrReturned False]\<rparr>)"
| st_close_call: "reg_step m (m\<lparr>mc_closes := ClStart # mc_closes m\<rparr>)"
| st_close: "j < length (mc_closes m) \<Longrightarrow> close_step (mc_closes m ! j) (mc_reg m) = Some (pc, r) \<Longrightarrow>
     reg_step m (m\<lparr>mc_reg := r, mc_closes := (mc_closes m)[j := pc]\<rparr>)"

definition reg_start :: "reg_machine \<Rightarrow> bool" where
  "reg_start m \<longleftrightarrow> m = \<lparr>mc_reg = New_registry, mc_waits = [], mc_drains = [], mc_closes = []\<rparr>"

section \<open>What a step does to the registry\<close>

text \<open>The changes of the shared registry that the steps of the machine make, whoever makes them.\<close>

inductive reg_op :: "registry \<Rightarrow> registry \<Rightarrow> bool" where
  op_begin: "reg_op r (snd (BeginDispatch r))"
| op_end: "0 < i \<Longrightarrow> i \<le> rg_next r \<Longrightarrow> reg_op r (pending_End i r)"
| op_install: "0 < i \<Longrightarrow> i \<le> rg_next r \<Longrightarrow> reg_op r (snd (Install i spec r))"
| op_sink: "reg_op r (r\<lparr>rg_releaseSink := sink\<rparr>)"
| op_bind: "reg_op r (snd (Bind i f r))"
| op_start_close: "reg_op r (snd (startBoundResourceClose i r))"
| op_goroutine: "close_goroutine i r = Some r' \<Longrightarrow> reg_op r r'"
| op_ending: "end_step i r = Some r' \<Longrightarrow> reg_op r r'"
| op_observe: "reg_op r (ObserveBarrier b r)"
| op_freeze: "reg_op r (snd (FreezeInFlight r))"
| op_state: "st = StateClosed \<or> rg_state r = StateAccepting \<and> st = StateDraining \<Longrightarrow> reg_op r (r\<lparr>rg_state := st\<rparr>)"
| op_closing: "reg_op r (r\<lparr>rg_closeStarted := a, rg_closeFinished := b\<rparr>)"

lemma reg_op_refl: "reg_op r r"
  using op_closing [where r = r and a = "rg_closeStarted r" and b = "rg_closeFinished r"] by simp

lemma drain_step_op: "drain_step pc r = Some (pc', r') \<Longrightarrow> reg_op r r'"
  by (auto simp: drain_step_def intro: reg_op_refl op_state op_start_close split: drain_pc.splits list.splits if_splits)

lemma close_step_op: "close_step pc r = Some (pc', r') \<Longrightarrow> reg_op r r'"
proof (cases pc)
  case (ClClosing js)
  moreover assume "close_step pc r = Some (pc', r')"
  ultimately show ?thesis
    using op_start_close [of r "hd js"] op_closing [where r = r and a = "rg_closeStarted r" and b = True]
    by (auto simp: close_step_def split: list.splits prod.splits bool.splits)
next
  case ClStart
  moreover assume "close_step pc r = Some (pc', r')"
  ultimately show ?thesis
    using op_closing [where r = r and a = True and b = "rg_closeFinished r"] reg_op_refl [of r] by (auto simp: close_step_def split: if_splits)
qed (auto simp: close_step_def intro: reg_op_refl op_state split: option.splits if_splits)

lemma reg_step_op: "reg_step m m' \<Longrightarrow> reg_op (mc_reg m) (mc_reg m')"
proof (induction rule: reg_step.induct)
  case (st_sink m raw)
  have "fst (SetReleaseSink raw (mc_reg m)) = mc_reg m \<or>
      (\<exists>sink. fst (SetReleaseSink raw (mc_reg m)) = (mc_reg m)\<lparr>rg_releaseSink := sink\<rparr>)"
    by (auto simp: SetReleaseSink_def split: option.splits)
  then show ?case using op_sink reg_op_refl by auto
next
  case (st_drain j m pc r)
  then show ?case using drain_step_op by simp
next
  case (st_close j m pc r)
  then show ?case using close_step_op by simp
qed (auto intro: reg_op.intros reg_op_refl)

text \<open>The interfaces through which the facts about the registry are proved: a predicate that every
  change keeps is stable, whatever the goroutines do; one that also holds at the start holds in
  every reachable state.\<close>

locale registry_stable =
  fixes P :: "registry \<Rightarrow> bool"
  assumes op: "P r \<Longrightarrow> reg_op r r' \<Longrightarrow> P r'"
begin

lemma holds_on: "reg_step\<^sup>*\<^sup>* m m' \<Longrightarrow> P (mc_reg m) \<Longrightarrow> P (mc_reg m')"
  by (induction rule: rtranclp_induct) (auto intro: op reg_step_op)

end

locale registry_invariant = registry_stable +
  assumes start: "P New_registry"
begin

lemma holds: "reachable reg_start reg_step m \<Longrightarrow> P (mc_reg m)"
  by (induction rule: reachable.induct) (auto simp: reg_start_def start intro: op reg_step_op)

end

section \<open>Tokens and scopes\<close>

definition tokens_ok :: "registry \<Rightarrow> bool" where
  "tokens_ok r \<longleftrightarrow>
     distinct (rg_pending r) \<and> distinct (rg_scopes r) \<and> keys_distinct (rg_heap r) \<and>
     set (rg_pending r) \<inter> set (rg_spent r) = {} \<and>
     set (rg_pending r) \<union> set (rg_spent r) = {0<..rg_next r} \<and>
     fst ` set (rg_heap r) \<subseteq> set (rg_spent r) \<and>
     (\<forall>i. i \<in> set (rg_scopes r) \<longleftrightarrow> (\<exists>s. map_of (rg_heap r) i = Some s \<and> \<not> is_Ended (sc_ending s)))"

lemmas reg_defs = BeginDispatch_def pending_End_def drop_pending_def spend_def signalLocked_def Install_def
  Bind_def startBoundResourceClose_def close_goroutine_def end_step_def set_phase_def upd_scope_def
  ObserveBarrier_def FreezeInFlight_def markReleasedLocked_def Let_def

text \<open>Changes of the heap that leave the tokens alone.\<close>

lemma tokens_ok_frame:
  assumes "tokens_ok r" and "rg_pending r' = rg_pending r" "rg_spent r' = rg_spent r" "rg_next r' = rg_next r"
    "rg_scopes r' = rg_scopes r" "map fst (rg_heap r') = map fst (rg_heap r)"
    and "\<And>i s. map_of (rg_heap r) i = Some s \<Longrightarrow> \<exists>s'. map_of (rg_heap r') i = Some s' \<and> is_Ended (sc_ending s') = is_Ended (sc_ending s)"
  shows "tokens_ok r'"
proof -
  have none: "map_of (rg_heap r') i = None \<longleftrightarrow> map_of (rg_heap r) i = None" for i
    using assms(6) by (metis list.set_map map_of_eq_None_iff)
  have "(\<exists>s. map_of (rg_heap r') i = Some s \<and> \<not> is_Ended (sc_ending s)) =
      (\<exists>s. map_of (rg_heap r) i = Some s \<and> \<not> is_Ended (sc_ending s))" for i
    using assms(7) [of i] none [of i] by (cases "map_of (rg_heap r) i") auto
  moreover have "fst ` set (rg_heap r') = fst ` set (rg_heap r)" using assms(6) by (metis list.set_map)
  ultimately show ?thesis using assms by (simp add: tokens_ok_def)
qed

lemma tokens_ok_adjust:
  assumes "tokens_ok r" and "\<And>s. map_of (rg_heap r) i = Some s \<Longrightarrow> is_Ended (sc_ending (f s)) = is_Ended (sc_ending s)"
  shows "tokens_ok (upd_scope i f r)"
  using assms(1) by (rule tokens_ok_frame) (use assms(2) in \<open>auto simp: upd_scope_def\<close>)

lemma tokens_ok_start_close:
  "tokens_ok r \<Longrightarrow> tokens_ok (snd (startBoundResourceClose i r))"
  by (auto simp: startBoundResourceClose_def intro!: tokens_ok_adjust split: option.splits)

lemma start_close_frame:
  "startBoundResourceClose i r = (b, r') \<Longrightarrow> map_of (rg_heap r) i = Some s \<Longrightarrow>
   \<exists>s'. map_of (rg_heap r') i = Some s' \<and> sc_ending s' = sc_ending s"
  by (auto simp: startBoundResourceClose_def upd_scope_def split: option.splits if_splits)

lemma tokens_ok_simps:
  "tokens_ok (r\<lparr>rg_releaseSink := a\<rparr>) = tokens_ok r" "tokens_ok (r\<lparr>rg_state := b\<rparr>) = tokens_ok r"
  "tokens_ok (r\<lparr>rg_closeStarted := c\<rparr>) = tokens_ok r" "tokens_ok (r\<lparr>rg_closeFinished := d\<rparr>) = tokens_ok r"
  "tokens_ok (r\<lparr>rg_changed := n\<rparr>) = tokens_ok r" "tokens_ok (r\<lparr>rg_bound := l\<rparr>) = tokens_ok r"
  "tokens_ok (r\<lparr>rg_closed := l\<rparr>) = tokens_ok r" "tokens_ok (r\<lparr>rg_releaseSequences := q\<rparr>) = tokens_ok r"
  "tokens_ok (r\<lparr>rg_observedBarrier := x\<rparr>) = tokens_ok r" "tokens_ok (r\<lparr>rg_publishedBarrier := x\<rparr>) = tokens_ok r"
  "tokens_ok (r\<lparr>rg_pendingBarrierSequence := n\<rparr>) = tokens_ok r" "tokens_ok (r\<lparr>rg_snapshotRevision := x\<rparr>) = tokens_ok r"
  by (simp_all add: tokens_ok_def)

lemma tokens_ok_end_step:
  assumes ok: "tokens_ok r" and st: "end_step i r = Some r'"
  shows "tokens_ok r'"
proof -
  obtain s where s: "map_of (rg_heap r) i = Some s" using st by (auto simp: end_step_def split: option.splits)
  show ?thesis
  proof (cases "sc_ending s")
    case Deactivated
    obtain b r1 where b: "startBoundResourceClose i r = (b, r1)" by (cases "startBoundResourceClose i r")
    have r1: "tokens_ok r1" using tokens_ok_start_close [OF ok, of i] b by simp
    obtain s1 where s1: "map_of (rg_heap r1) i = Some s1" "sc_ending s1 = Deactivated"
      using start_close_frame [OF b s] Deactivated by auto
    have "tokens_ok (set_phase i AwaitClose r1)" "tokens_ok (set_phase i ResourceClosed r1)"
      using s1 by (auto simp: set_phase_def intro!: tokens_ok_adjust [OF r1])
    with st s Deactivated b show ?thesis by (cases b) (auto simp: end_step_def)
  next
    case TicketStored
    then have r': "r' = signalLocked ((set_phase i Ended r)\<lparr>rg_scopes := removeAll i (rg_scopes r)\<rparr>)"
      using st s by (simp add: end_step_def)
    have "fst ` set (adjust i f (rg_heap r)) = fst ` set (rg_heap r)" for f
      by (metis fst_adjust list.set_map)
    then show ?thesis using ok s unfolding r' tokens_ok_def
      by (simp add: signalLocked_def set_phase_def upd_scope_def distinct_removeAll)
  next
    case ResourceClosed
    obtain sink g n r1 where m: "markReleasedLocked (sc_spec s) r = ((sink, g, n), r1)" by (metis prod_cases3 surj_pair)
    then have "tokens_ok r1" "rg_heap r1 = rg_heap r"
      using ok by (auto simp: markReleasedLocked_def Let_def tokens_ok_simps split: if_splits)
    with st s ResourceClosed m show ?thesis by (auto simp: end_step_def intro!: tokens_ok_adjust)
  qed (use st s ok in \<open>auto simp: end_step_def set_phase_def intro!: tokens_ok_adjust split: if_splits\<close>)
qed

interpretation tokens: registry_invariant tokens_ok
proof
  show "tokens_ok New_registry" by (simp add: tokens_ok_def New_registry_def)
  show "tokens_ok r'" if ok: "tokens_ok r" and "reg_op r r'" for r r'
    using that(2)
  proof (cases rule: reg_op.cases)
    case op_begin
    have "set (rg_pending r) \<union> set (rg_spent r) = {0<..rg_next r}" using ok by (simp add: tokens_ok_def)
    then have "Suc (rg_next r) \<notin> set (rg_pending r) \<union> set (rg_spent r)" by simp
    then have "Suc (rg_next r) \<notin> set (rg_pending r)" "Suc (rg_next r) \<notin> set (rg_spent r)" by simp_all
    with ok op_begin show ?thesis by (auto simp: tokens_ok_def BeginDispatch_def Let_def)
  next
    case (op_end i)
    with ok show ?thesis
      by (auto simp: tokens_ok_def pending_End_def drop_pending_def spend_def signalLocked_def distinct_removeAll)
  next
    case (op_install i spec)
    with ok show ?thesis
      by (auto simp: tokens_ok_def Install_def drop_pending_def spend_def signalLocked_def Let_def distinct_removeAll new_scope_def)
  next
    case (op_bind i f)
    with ok show ?thesis
      by (auto simp: Bind_def tokens_ok_simps intro!: tokens_ok_adjust split: option.splits)
  next
    case (op_start_close i)
    with ok tokens_ok_start_close show ?thesis by simp
  next
    case (op_goroutine i)
    with ok show ?thesis
      by (auto simp: close_goroutine_def tokens_ok_simps intro!: tokens_ok_adjust split: option.splits close_state.splits)
  next
    case (op_ending i)
    with ok tokens_ok_end_step show ?thesis by simp
  qed (use ok in \<open>auto simp: tokens_ok_simps ObserveBarrier_def FreezeInFlight_def Let_def\<close>)
qed

section \<open>Resources are closed exactly once\<close>

definition called :: "close_state \<Rightarrow> bool" where
  "called c \<longleftrightarrow> c = CloseCalled \<or> c = CloseDone"

definition has_resource :: "scope \<Rightarrow> bool" where
  "has_resource s \<longleftrightarrow> sc_closeFn s \<noteq> None \<or> sc_closeDone s \<noteq> NoClose"

definition phase_ok :: "scope \<Rightarrow> bool" where
  "phase_ok s \<longleftrightarrow>
     (case sc_ending s of
        NotEnded \<Rightarrow> True
      | Deactivated \<Rightarrow> \<not> sc_active s
      | AwaitClose \<Rightarrow> \<not> sc_active s \<and> sc_closeFn s = None \<and> sc_closeDone s \<noteq> NoClose
      | _ \<Rightarrow> \<not> sc_active s \<and> sc_closeFn s = None \<and> (sc_closeDone s = NoClose \<or> sc_closeDone s = CloseDone))"

text \<open>A scope whose resource was bound \<open>b\<close> times and closed \<open>c\<close> times.\<close>

definition resource_ok :: "nat \<Rightarrow> nat \<Rightarrow> scope \<Rightarrow> bool" where
  "resource_ok b c s \<longleftrightarrow>
     b = of_bool (has_resource s) \<and> c = of_bool (called (sc_closeDone s)) \<and>
     (sc_closeFn s \<noteq> None \<longrightarrow> sc_closeDone s = NoClose) \<and> phase_ok s"

fun resource_entry :: "nat \<Rightarrow> nat \<Rightarrow> scope option \<Rightarrow> bool" where
  "resource_entry b c None \<longleftrightarrow> b = 0 \<and> c = 0"
| "resource_entry b c (Some s) \<longleftrightarrow> resource_ok b c s"

definition resources_ok :: "registry \<Rightarrow> bool" where
  "resources_ok r \<longleftrightarrow>
     (\<forall>i. resource_entry (count_list (rg_bound r) i) (count_list (rg_closed r) i) (map_of (rg_heap r) i))"

lemmas resource_defs = resource_ok_def has_resource_def called_def phase_ok_def

lemma resources_ok_scope:
  "resources_ok r \<Longrightarrow> map_of (rg_heap r) i = Some s \<Longrightarrow>
   resource_ok (count_list (rg_bound r) i) (count_list (rg_closed r) i) s"
  unfolding resources_ok_def by (metis resource_entry.simps(2))

text \<open>A change of one scope, with what it adds to the records of bound and closed resources.\<close>

lemma resources_ok_update:
  assumes ok: "resources_ok r" and s: "map_of (rg_heap r) i = Some s"
    and h: "rg_heap r' = adjust i f (rg_heap r)"
    and b: "\<And>j. j \<noteq> i \<Longrightarrow> count_list (rg_bound r') j = count_list (rg_bound r) j"
    and c: "\<And>j. j \<noteq> i \<Longrightarrow> count_list (rg_closed r') j = count_list (rg_closed r) j"
    and f: "resource_ok (count_list (rg_bound r') i) (count_list (rg_closed r') i) (f s)"
  shows "resources_ok r'"
  unfolding resources_ok_def
proof
  fix j
  show "resource_entry (count_list (rg_bound r') j) (count_list (rg_closed r') j) (map_of (rg_heap r') j)"
  proof (cases "j = i")
    case True
    with s f h show ?thesis by simp
  next
    case False
    with ok h b c show ?thesis by (simp add: resources_ok_def)
  qed
qed

lemma resources_ok_upd:
  assumes "resources_ok r" and "map_of (rg_heap r) i = Some s"
    and "resource_ok (count_list (rg_bound r) i) (count_list (rg_closed r) i) (f s)"
  shows "resources_ok (upd_scope i f r)"
  using assms by (intro resources_ok_update [OF assms(1,2)]) (auto simp: upd_scope_def)

lemma resources_ok_frame:
  "resources_ok r \<Longrightarrow> rg_heap r' = rg_heap r \<Longrightarrow> rg_bound r' = rg_bound r \<Longrightarrow> rg_closed r' = rg_closed r \<Longrightarrow>
   resources_ok r'"
  by (simp add: resources_ok_def)

lemma resources_ok_start_close:
  assumes ok: "resources_ok r" shows "resources_ok (snd (startBoundResourceClose i r))"
proof (cases "map_of (rg_heap r) i")
  case (Some s)
  note s = resources_ok_scope [OF ok Some]
  show ?thesis
  proof (cases "sc_closeDone s = NoClose \<and> sc_closeFn s \<noteq> None")
    case True
    then obtain f where f: "sc_closeFn s = Some f" by blast
    have "resource_ok (count_list (rg_bound r) i) (count_list (rg_closed r) i)
        (s\<lparr>sc_closeFn := None, sc_closeDone := CloseSpawned f\<rparr>)"
      using s True by (auto simp: resource_defs split: end_phase.splits)
    from resources_ok_upd [where f = "\<lambda>s. s\<lparr>sc_closeFn := None, sc_closeDone := CloseSpawned f\<rparr>", OF ok Some this]
    show ?thesis using True f Some by (simp add: startBoundResourceClose_def)
  qed (use ok Some in \<open>auto simp: startBoundResourceClose_def split: option.splits\<close>)
qed (use ok in \<open>simp add: startBoundResourceClose_def\<close>)

lemma start_close_result:
  assumes "startBoundResourceClose i r = (b, r')" and s: "map_of (rg_heap r) i = Some s"
  shows "\<exists>s'. map_of (rg_heap r') i = Some s' \<and> sc_ending s' = sc_ending s \<and> sc_active s' = sc_active s \<and>
     sc_spec s' = sc_spec s \<and> sc_sequence s' = sc_sequence s \<and>
     (resource_ok x y s \<longrightarrow> sc_closeFn s' = None \<and> b = (sc_closeDone s' \<noteq> NoClose))"
  using assms by (auto simp: startBoundResourceClose_def upd_scope_def resource_ok_def split: option.splits if_splits)

lemma resources_ok_end_step:
  assumes ok: "resources_ok r" and st: "end_step i r = Some r'"
  shows "resources_ok r'"
proof -
  obtain s where s: "map_of (rg_heap r) i = Some s" using st by (auto simp: end_step_def split: option.splits)
  note sok = resources_ok_scope [OF ok s]
  have upd: "resources_ok (upd_scope i f r)"
    if "resource_ok (count_list (rg_bound r) i) (count_list (rg_closed r) i) (f s)" for f
    using resources_ok_upd [where f = f, OF ok s that] .
  show ?thesis
  proof (cases "sc_ending s")
    case Deactivated
    obtain b r1 where b: "startBoundResourceClose i r = (b, r1)" by (cases "startBoundResourceClose i r")
    have r1: "resources_ok r1" using resources_ok_start_close [OF ok, of i] b by simp
    obtain s1 where s1: "map_of (rg_heap r1) i = Some s1" "sc_ending s1 = Deactivated" "sc_closeFn s1 = None"
        "b = (sc_closeDone s1 \<noteq> NoClose)"
      using start_close_result [OF b s] sok Deactivated by metis
    have "resources_ok (set_phase i (if b then AwaitClose else ResourceClosed) r1)"
      unfolding set_phase_def using resources_ok_scope [OF r1 s1(1)] s1(2-4)
      by (intro resources_ok_upd [OF r1 s1(1)]) (auto simp: resource_defs)
    with st s Deactivated b show ?thesis by (cases b) (auto simp: end_step_def)
  next
    case TicketStored
    then have r': "r' = signalLocked ((set_phase i Ended r)\<lparr>rg_scopes := removeAll i (rg_scopes r)\<rparr>)"
      using st s by (simp add: end_step_def)
    have "resources_ok (set_phase i Ended r)"
      unfolding set_phase_def using sok TicketStored by (intro upd) (auto simp: resource_defs)
    then show ?thesis by (rule resources_ok_frame) (simp_all add: r' signalLocked_def)
  next
    case ResourceClosed
    obtain sink g n r1 where m: "markReleasedLocked (sc_spec s) r = ((sink, g, n), r1)" by (metis prod_cases3 surj_pair)
    then have h: "rg_heap r1 = rg_heap r" "rg_bound r1 = rg_bound r" "rg_closed r1 = rg_closed r"
      by (auto simp: markReleasedLocked_def Let_def split: if_splits)
    then have r1: "resources_ok r1" using ok by (intro resources_ok_frame [OF ok])
    have "resources_ok (upd_scope i (\<lambda>s. s\<lparr>sc_ending := Marked sink g n, sc_sequence := n\<rparr>) r1)"
      using sok ResourceClosed s h by (intro resources_ok_upd [OF r1]) (auto simp: resource_defs)
    with st s ResourceClosed m show ?thesis by (simp add: end_step_def)
  qed (use st s sok in \<open>auto simp: end_step_def set_phase_def resource_defs intro!: upd split: if_splits\<close>)
qed

lemma count_list_new: "j \<noteq> i \<Longrightarrow> count_list (i # xs) j = count_list xs j"
  by simp

interpretation resources: registry_invariant "\<lambda>r. tokens_ok r \<and> resources_ok r"
proof
  show "tokens_ok New_registry \<and> resources_ok New_registry"
    using tokens.start by (simp add: resources_ok_def New_registry_def)
  show "tokens_ok r' \<and> resources_ok r'" if ok: "tokens_ok r \<and> resources_ok r" and st: "reg_op r r'" for r r'
  proof
    show "tokens_ok r'" using tokens.op ok st by blast
    have rok: "resources_ok r" using ok by simp
    show "resources_ok r'" using st
    proof (cases rule: reg_op.cases)
      case (op_install i spec)
      show ?thesis
      proof (cases "rg_state r = StateAccepting \<and> i \<in> set (rg_pending r)")
        case True
        then have "i \<notin> fst ` set (rg_heap r)" using ok by (auto simp: tokens_ok_def)
        then have "map_of (rg_heap r) i = None" by (simp add: map_of_eq_None_iff)
        then have "count_list (rg_bound r) i = 0" "count_list (rg_closed r) i = 0"
          using rok unfolding resources_ok_def by (metis resource_entry.simps(1))+
        moreover have "rg_heap r' = (i, new_scope spec) # rg_heap r" "rg_bound r' = rg_bound r" "rg_closed r' = rg_closed r"
          using op_install True by (simp_all add: Install_def spend_def signalLocked_def Let_def)
        ultimately show ?thesis using rok
          by (simp add: resources_ok_def resource_defs new_scope_def)
      qed (use op_install in \<open>auto simp: Install_def spend_def signalLocked_def drop_pending_def intro!: resources_ok_frame [OF rok]\<close>)
    next
      case (op_bind i f)
      show ?thesis
      proof (cases "fst (Bind i f r)")
        case None
        then obtain s g where b: "map_of (rg_heap r) i = Some s" "f = Some g" "sc_active s" "sc_closeFn s = None"
            "sc_closeDone s = NoClose" "r' = (upd_scope i (\<lambda>s. s\<lparr>sc_closeFn := Some g\<rparr>) r)\<lparr>rg_bound := i # rg_bound r\<rparr>"
          using op_bind by (auto simp: Bind_def split: option.splits if_splits)
        have "resource_ok (count_list (i # rg_bound r) i) (count_list (rg_closed r) i) (s\<lparr>sc_closeFn := Some g\<rparr>)"
          using b(3-5) resources_ok_scope [OF rok b(1)] by (auto simp: resource_defs split: end_phase.splits)
        with b(6) show ?thesis by (auto simp: upd_scope_def intro!: resources_ok_update [OF rok b(1)])
      next
        case (Some e)
        then have "r' = r" using op_bind by (auto simp: Bind_def split: option.splits if_splits)
        then show ?thesis using rok by simp
      qed
    next
      case (op_start_close i)
      then show ?thesis using resources_ok_start_close rok by simp
    next
      case (op_goroutine i)
      then obtain s where s: "map_of (rg_heap r) i = Some s" by (auto simp: close_goroutine_def split: option.splits)
      note sok = resources_ok_scope [OF rok s]
      show ?thesis
      proof (cases "sc_closeDone s")
        case (CloseSpawned f)
        then have "r' = (upd_scope i (\<lambda>s. s\<lparr>sc_closeDone := CloseCalled\<rparr>) r)\<lparr>rg_closed := i # rg_closed r\<rparr>"
          using op_goroutine s by (simp add: close_goroutine_def)
        moreover have "resource_ok (count_list (rg_bound r) i) (count_list (i # rg_closed r) i) (s\<lparr>sc_closeDone := CloseCalled\<rparr>)"
          using CloseSpawned sok by (auto simp: resource_defs split: end_phase.splits)
        ultimately show ?thesis by (auto simp: upd_scope_def intro!: resources_ok_update [OF rok s])
      next
        case CloseCalled
        then have "r' = upd_scope i (\<lambda>s. s\<lparr>sc_closeDone := CloseDone\<rparr>) r"
          using op_goroutine s by (simp add: close_goroutine_def)
        then show ?thesis using CloseCalled sok
          by (auto simp: resource_defs intro!: resources_ok_upd [OF rok s] split: end_phase.splits)
      qed (use op_goroutine s in \<open>simp_all add: close_goroutine_def\<close>)
    next
      case (op_ending i)
      then show ?thesis using resources_ok_end_step rok by simp
    qed (auto simp: BeginDispatch_def pending_End_def drop_pending_def spend_def signalLocked_def ObserveBarrier_def
          FreezeInFlight_def Let_def intro!: resources_ok_frame [OF rok])
  qed
qed

end
