(* ===== verification/ExecProperties.thy ===== *)
theory ExecProperties
  imports ExecRegistry
begin

text \<open>
  What the execution registry guarantees under every interleaving: the release numbers of a
  credential and model are handed out one by one, a published barrier has seen every earlier
  dispatch, waiting goroutines are never left behind, a drained registry stays empty, and every
  bound resource is closed once.
\<close>

lemma Bind_cases:
  "snd (Bind i f r) = r \<or>
   (\<exists>g. snd (Bind i f r) = (upd_scope i (\<lambda>s. s\<lparr>sc_closeFn := g\<rparr>) r)\<lparr>rg_bound := i # rg_bound r\<rparr> \<and>
     rg_state r = StateAccepting)"
  by (auto simp: Bind_def split: option.splits)

lemma close_goroutine_cases:
  "close_goroutine i r = Some r' \<Longrightarrow> \<exists>c l. r' = (upd_scope i (\<lambda>s. s\<lparr>sc_closeDone := c\<rparr>) r)\<lparr>rg_closed := l\<rparr>"
proof -
  assume "close_goroutine i r = Some r'"
  then consider "r' = (upd_scope i (\<lambda>s. s\<lparr>sc_closeDone := CloseCalled\<rparr>) r)\<lparr>rg_closed := i # rg_closed r\<rparr>"
    | "r' = (upd_scope i (\<lambda>s. s\<lparr>sc_closeDone := CloseDone\<rparr>) r)\<lparr>rg_closed := rg_closed r\<rparr>"
    by (auto simp: close_goroutine_def upd_scope_def split: option.splits close_state.splits)
  then show ?thesis by cases blast+
qed

section \<open>Release numbers\<close>

definition released :: "scope \<Rightarrow> bool" where
  "released s \<longleftrightarrow> (case sc_ending s of Marked _ _ _ \<Rightarrow> True | SinkCalled _ \<Rightarrow> True | TicketStored \<Rightarrow> True | Ended \<Rightarrow> True | _ \<Rightarrow> False)"

text \<open>The scope holds release number \<open>q\<close> of the group.\<close>

definition numbered :: "ReleaseGroup \<Rightarrow> int \<Rightarrow> scope \<Rightarrow> bool" where
  "numbered g q s \<longleftrightarrow> released s \<and> sp_Accounted (sc_spec s) \<and> group_of (sc_spec s) = g \<and> sc_sequence s = q"

definition holders :: "registry \<Rightarrow> ReleaseGroup \<Rightarrow> int \<Rightarrow> int" where
  "holders r g q = asum (\<lambda>s. of_bool (numbered g q s)) (rg_heap r)"

definition releases_ok :: "registry \<Rightarrow> bool" where
  "releases_ok r \<longleftrightarrow> (\<forall>g. 0 \<le> sequence_of r g \<and> (\<forall>q. holders r g q = of_bool (1 \<le> q \<and> q \<le> sequence_of r g)))"

lemma releases_ok_frame:
  "releases_ok r \<Longrightarrow> rg_heap r' = rg_heap r \<Longrightarrow> rg_releaseSequences r' = rg_releaseSequences r \<Longrightarrow> releases_ok r'"
  by (simp add: releases_ok_def holders_def sequence_of_def)

lemma holders_upd:
  assumes "keys_distinct (rg_heap r)" and "map_of (rg_heap r) i = Some s"
  shows "holders (upd_scope i f r) g q = holders r g q - of_bool (numbered g q s) + of_bool (numbered g q (f s))"
  using assms by (simp add: holders_def upd_scope_def asum_adjust)

lemma releases_ok_upd:
  assumes "releases_ok r" and "keys_distinct (rg_heap r)"
    and "\<And>s g q. map_of (rg_heap r) i = Some s \<Longrightarrow> numbered g q (f s) = numbered g q s"
  shows "releases_ok (upd_scope i f r)"
proof (cases "map_of (rg_heap r) i")
  case None
  then have "rg_heap (upd_scope i f r) = rg_heap r" by (simp add: upd_scope_def adjust_absent map_of_eq_None_iff)
  with assms(1) show ?thesis by (rule releases_ok_frame) (simp add: upd_scope_def)
next
  case (Some s)
  then have "holders (upd_scope i f r) g q = holders r g q" for g q
    using holders_upd [OF assms(2) Some] assms(3) [OF Some] by simp
  with assms(1) show ?thesis by (simp add: releases_ok_def sequence_of_def upd_scope_def)
qed

lemma keys_distinct_ops:
  "keys_distinct (rg_heap (upd_scope i f r)) = keys_distinct (rg_heap r)"
  "keys_distinct (rg_heap (snd (startBoundResourceClose i r))) = keys_distinct (rg_heap r)"
  by (auto simp: startBoundResourceClose_def upd_scope_def split: option.splits)

lemma releases_ok_start_close:
  "releases_ok r \<Longrightarrow> keys_distinct (rg_heap r) \<Longrightarrow> releases_ok (snd (startBoundResourceClose i r))"
  by (auto simp: startBoundResourceClose_def numbered_def released_def intro!: releases_ok_upd split: option.splits)

lemma sequence_of_mark:
  "sequence_of (r\<lparr>rg_releaseSequences := AList.update g n (rg_releaseSequences r)\<rparr>) h =
     (if h = g then n else sequence_of r h)"
  by (simp add: sequence_of_def update_conv)

lemma releases_ok_mark:
  assumes ok: "releases_ok r" and k: "keys_distinct (rg_heap r)" and s: "map_of (rg_heap r) i = Some s"
    and ph: "sc_ending s = ResourceClosed" and m: "markReleasedLocked (sc_spec s) r = ((sink, g, n), r1)"
  shows "releases_ok (upd_scope i (\<lambda>s. s\<lparr>sc_ending := Marked sink g n, sc_sequence := n\<rparr>) r1)"
proof (cases "sp_Accounted (sc_spec s)")
  case False
  then have "r1 = r" using m by (simp add: markReleasedLocked_def)
  moreover have "numbered g' q (s'\<lparr>sc_ending := Marked sink g n, sc_sequence := n\<rparr>) = numbered g' q s'"
    if "map_of (rg_heap r) i = Some s'" for s' g' q
    using that s False by (simp add: numbered_def)
  ultimately show ?thesis using releases_ok_upd [OF ok k, of i "\<lambda>s. s\<lparr>sc_ending := Marked sink g n, sc_sequence := n\<rparr>"]
    by simp
next
  case True
  let ?f = "\<lambda>s. s\<lparr>sc_ending := Marked sink g n, sc_sequence := n\<rparr>"
  have g: "g = group_of (sc_spec s)" and n: "n = sequence_of r g + 1"
    and r1: "r1 = r\<lparr>rg_releaseSequences := AList.update g n (rg_releaseSequences r)\<rparr>"
    using m True by (auto simp: markReleasedLocked_def Let_def)
  have sq: "sequence_of (upd_scope i ?f r1) h = (if h = g then n else sequence_of r h)" for h
    using sequence_of_mark [where r = r and g = g and n = n and h = h] by (simp add: r1 upd_scope_def sequence_of_def)
  have "holders (upd_scope i ?f r1) h q = holders r h q + of_bool (h = g \<and> q = n)" for h q
  proof -
    have "holders (upd_scope i ?f r1) h q =
        holders r1 h q - of_bool (numbered h q s) + of_bool (numbered h q (?f s))"
      using k s by (intro holders_upd) (simp_all add: r1)
    moreover have "\<not> numbered h q s" "numbered h q (?f s) = (h = g \<and> q = n)"
      using ph True g by (auto simp: numbered_def released_def)
    ultimately show ?thesis by (simp add: r1 holders_def)
  qed
  then show ?thesis using ok n unfolding releases_ok_def sq by (auto simp: of_bool_def)
qed

lemma releases_ok_end_step:
  assumes ok: "releases_ok r" and k: "keys_distinct (rg_heap r)" and st: "end_step i r = Some r'"
  shows "releases_ok r'"
proof -
  obtain s where s: "map_of (rg_heap r) i = Some s" using st by (auto simp: end_step_def split: option.splits)
  show ?thesis
  proof (cases "sc_ending s")
    case Deactivated
    obtain b r1 where b: "startBoundResourceClose i r = (b, r1)" by (cases "startBoundResourceClose i r")
    have r1: "releases_ok r1" "keys_distinct (rg_heap r1)"
      using releases_ok_start_close [OF ok k, of i] keys_distinct_ops(2) [of i r] k b by simp_all
    have "sc_ending s1 = Deactivated" if "map_of (rg_heap r1) i = Some s1" for s1
      using start_close_frame [OF b s] that Deactivated by simp
    then have "releases_ok (set_phase i (if b then AwaitClose else ResourceClosed) r1)"
      unfolding set_phase_def by (intro releases_ok_upd [OF r1]) (simp add: numbered_def released_def)
    with st s Deactivated b show ?thesis by (cases b) (auto simp: end_step_def)
  next
    case TicketStored
    have "releases_ok (set_phase i Ended r)" unfolding set_phase_def
      using s TicketStored by (intro releases_ok_upd [OF ok k]) (simp add: numbered_def released_def)
    then show ?thesis by (rule releases_ok_frame) (use st s TicketStored in \<open>auto simp: end_step_def signalLocked_def\<close>)
  next
    case ResourceClosed
    obtain sink g n r1 where m: "markReleasedLocked (sc_spec s) r = ((sink, g, n), r1)" by (metis prod_cases3 surj_pair)
    from releases_ok_mark [OF ok k s ResourceClosed m] st s ResourceClosed m show ?thesis by (simp add: end_step_def)
  qed (use st s ok k in \<open>auto simp: end_step_def set_phase_def numbered_def released_def intro!: releases_ok_upd split: if_splits\<close>)
qed

interpretation releases: registry_invariant "\<lambda>r. tokens_ok r \<and> releases_ok r"
proof
  show "tokens_ok New_registry \<and> releases_ok New_registry"
    using tokens.start by (simp add: releases_ok_def New_registry_def holders_def sequence_of_def)
  show "tokens_ok r' \<and> releases_ok r'" if ok: "tokens_ok r \<and> releases_ok r" and st: "reg_op r r'" for r r'
  proof
    show "tokens_ok r'" using tokens.op ok st by blast
    have rok: "releases_ok r" and k: "keys_distinct (rg_heap r)" using ok by (simp_all add: tokens_ok_def)
    show "releases_ok r'" using st
    proof (cases rule: reg_op.cases)
      case (op_install i spec)
      have "\<not> numbered g q (new_scope spec)" for g q by (simp add: numbered_def released_def new_scope_def)
      with op_install rok show ?thesis
        by (auto simp: Install_def drop_pending_def spend_def signalLocked_def Let_def releases_ok_def holders_def sequence_of_def)
    next
      case (op_bind i f)
      have "releases_ok (upd_scope i (\<lambda>s. s\<lparr>sc_closeFn := g\<rparr>) r)" for g
        by (rule releases_ok_upd [OF rok k]) (simp add: numbered_def released_def)
      then have "releases_ok ((upd_scope i (\<lambda>s. s\<lparr>sc_closeFn := g\<rparr>) r)\<lparr>rg_bound := b\<rparr>)" for g b
        by (rule releases_ok_frame) simp_all
      with op_bind rok Bind_cases [of i f r] show ?thesis by auto
    next
      case (op_start_close i)
      then show ?thesis using releases_ok_start_close rok k by simp
    next
      case (op_goroutine i)
      have "releases_ok (upd_scope i (\<lambda>s. s\<lparr>sc_closeDone := c\<rparr>) r)" for c
        by (rule releases_ok_upd [OF rok k]) (simp add: numbered_def released_def)
      then have "releases_ok ((upd_scope i (\<lambda>s. s\<lparr>sc_closeDone := c\<rparr>) r)\<lparr>rg_closed := l\<rparr>)" for c l
        by (rule releases_ok_frame) simp_all
      with op_goroutine close_goroutine_cases [of i r r'] show ?thesis by auto
    next
      case (op_ending i)
      then show ?thesis using releases_ok_end_step rok k by simp
    qed (auto simp: BeginDispatch_def pending_End_def drop_pending_def spend_def signalLocked_def ObserveBarrier_def
          FreezeInFlight_def Let_def intro!: releases_ok_frame [OF rok])
  qed
qed

section \<open>Barriers\<close>

definition barrier_ok :: "registry \<Rightarrow> bool" where
  "barrier_ok r \<longleftrightarrow>
     rg_pendingBarrierSequence r \<le> rg_next r \<and> rg_publishedBarrier r \<le> rg_observedBarrier r \<and>
     (rg_publishedBarrier r = rg_observedBarrier r \<longrightarrow> (\<forall>i\<in>set (rg_pending r). rg_pendingBarrierSequence r < i))"

lemma barrier_frame:
  assumes "barrier_ok r" and "rg_pendingBarrierSequence r' = rg_pendingBarrierSequence r"
    "rg_publishedBarrier r' = rg_publishedBarrier r" "rg_observedBarrier r' = rg_observedBarrier r"
    "rg_next r' = rg_next r" "set (rg_pending r') \<subseteq> set (rg_pending r)"
  shows "barrier_ok r'"
  using assms by (auto simp: barrier_ok_def)

text \<open>The parts of the registry that binding, closing and ending a scope leave alone.\<close>

definition same_tokens :: "registry \<Rightarrow> registry \<Rightarrow> bool" where
  "same_tokens r r' \<longleftrightarrow> rg_pending r' = rg_pending r \<and> rg_spent r' = rg_spent r \<and> rg_next r' = rg_next r \<and>
     rg_pendingBarrierSequence r' = rg_pendingBarrierSequence r \<and> rg_publishedBarrier r' = rg_publishedBarrier r \<and>
     rg_observedBarrier r' = rg_observedBarrier r \<and> rg_state r' = rg_state r"

lemma same_tokens_upd [simp]: "same_tokens r (upd_scope i f r')  = same_tokens r r'"
  by (simp add: same_tokens_def upd_scope_def)

lemma upd_scope_fields [simp]:
  "rg_scopes (upd_scope i f r) = rg_scopes r" "rg_changed (upd_scope i f r) = rg_changed r"
  "rg_bound (upd_scope i f r) = rg_bound r"
  by (simp_all add: upd_scope_def)

lemma same_tokens_start_close: "same_tokens r (snd (startBoundResourceClose i r))"
  by (auto simp: startBoundResourceClose_def same_tokens_def upd_scope_def split: option.splits)

lemma same_tokens_mark: "markReleasedLocked spec r = (x, r') \<Longrightarrow> same_tokens r r'"
  by (auto simp: markReleasedLocked_def same_tokens_def Let_def split: if_splits)

lemma same_tokens_bind: "same_tokens r (snd (Bind i f r))"
  by (auto simp: Bind_def same_tokens_def upd_scope_def split: option.splits)

lemma same_tokens_goroutine: "close_goroutine i r = Some r' \<Longrightarrow> same_tokens r r'"
  by (auto simp: close_goroutine_def same_tokens_def upd_scope_def split: option.splits close_state.splits)

lemma end_step_effect:
  assumes "end_step i r = Some r'"
  shows "same_tokens r r' \<and>
     (rg_scopes r' = rg_scopes r \<and> rg_changed r' = rg_changed r \<or>
      rg_scopes r' = removeAll i (rg_scopes r) \<and> rg_changed r' = rg_changed r + 1)"
proof -
  obtain s where s: "map_of (rg_heap r) i = Some s" using assms by (auto simp: end_step_def split: option.splits)
  have sc: "rg_scopes (snd (startBoundResourceClose i r)) = rg_scopes r"
    "rg_changed (snd (startBoundResourceClose i r)) = rg_changed r"
    by (auto simp: startBoundResourceClose_def upd_scope_def split: option.splits)
  have mk: "rg_scopes r1 = rg_scopes r \<and> rg_changed r1 = rg_changed r" if "markReleasedLocked spec r = (x, r1)" for spec x r1
    using that by (auto simp: markReleasedLocked_def Let_def split: if_splits)
  show ?thesis
  proof (cases "sc_ending s")
    case Deactivated
    obtain b r1 where b: "startBoundResourceClose i r = (b, r1)" by (cases "startBoundResourceClose i r")
    have "r' = upd_scope i (\<lambda>s. s\<lparr>sc_ending := (if b then AwaitClose else ResourceClosed)\<rparr>) r1"
      using assms s Deactivated b by (cases b) (simp_all add: end_step_def set_phase_def)
    with sc same_tokens_start_close [of r i] b show ?thesis by simp
  next
    case ResourceClosed
    obtain sink g n r1 where m: "markReleasedLocked (sc_spec s) r = ((sink, g, n), r1)" by (metis prod_cases3 surj_pair)
    have "r' = upd_scope i (\<lambda>s. s\<lparr>sc_ending := Marked sink g n, sc_sequence := n\<rparr>) r1"
      using assms s ResourceClosed m by (simp add: end_step_def)
    with mk [OF m] same_tokens_mark [OF m] show ?thesis by simp
  qed (use assms s in \<open>auto simp: end_step_def set_phase_def upd_scope_def signalLocked_def same_tokens_def split: if_splits\<close>)
qed

interpretation barrier: registry_invariant "\<lambda>r. tokens_ok r \<and> barrier_ok r"
proof
  show "tokens_ok New_registry \<and> barrier_ok New_registry"
    using tokens.start by (simp add: barrier_ok_def New_registry_def)
  show "tokens_ok r' \<and> barrier_ok r'" if ok: "tokens_ok r \<and> barrier_ok r" and st: "reg_op r r'" for r r'
  proof
    show "tokens_ok r'" using tokens.op ok st by blast
    have b: "barrier_ok r" using ok by simp
    have frame: "barrier_ok r'" if "same_tokens r r'" for r'
      using that by (intro barrier_frame [OF b]) (simp_all add: same_tokens_def)
    show "barrier_ok r'" using st
    proof (cases rule: reg_op.cases)
      case op_begin
      with b show ?thesis by (auto simp: barrier_ok_def BeginDispatch_def Let_def)
    next
      case (op_end i)
      then show ?thesis
        by (auto simp: pending_End_def drop_pending_def spend_def signalLocked_def intro!: barrier_frame [OF b])
    next
      case (op_install i spec)
      then show ?thesis
        by (auto simp: Install_def drop_pending_def spend_def signalLocked_def Let_def intro!: barrier_frame [OF b])
    next
      case (op_observe x)
      with b show ?thesis by (auto simp: ObserveBarrier_def barrier_ok_def)
    next
      case op_freeze
      with b show ?thesis by (auto simp: FreezeInFlight_def barrier_ok_def Let_def list_ex_iff not_le)
    next
      case (op_ending i)
      then show ?thesis using end_step_effect frame by blast
    qed (use frame same_tokens_bind same_tokens_start_close same_tokens_goroutine b in
        \<open>auto intro!: barrier_frame [OF b]\<close>)
  qed
qed

interpretation seen: registry_stable "\<lambda>r. k \<le> rg_next r \<and> (\<forall>i\<in>set (rg_pending r). k < i)" for k
proof
  fix r r'
  assume b: "k \<le> rg_next r \<and> (\<forall>i\<in>set (rg_pending r). k < i)" and "reg_op r r'"
  have frame: "k \<le> rg_next r' \<and> (\<forall>i\<in>set (rg_pending r'). k < i)" if "same_tokens r r'" for r'
    using that b by (simp add: same_tokens_def)
  from \<open>reg_op r r'\<close> show "k \<le> rg_next r' \<and> (\<forall>i\<in>set (rg_pending r'). k < i)"
  proof (cases rule: reg_op.cases)
    case (op_ending i)
    then show ?thesis using end_step_effect frame by blast
  next
    case (op_goroutine i)
    then show ?thesis using same_tokens_goroutine frame by blast
  qed (use b frame [OF same_tokens_bind] frame [OF same_tokens_start_close] in
      \<open>auto simp: BeginDispatch_def pending_End_def Install_def drop_pending_def spend_def signalLocked_def ObserveBarrier_def
        FreezeInFlight_def Let_def\<close>)
qed

text \<open>The course of an observed barrier: \<open>b\<close> was accepted when \<open>k\<close> tokens had been issued, \<open>ps\<close> of them
  pending. Until a later barrier replaces it, the registry waits for exactly these.\<close>

definition barrier_course :: "int \<Rightarrow> nat \<Rightarrow> nat set \<Rightarrow> registry \<Rightarrow> bool" where
  "barrier_course b k ps r \<longleftrightarrow>
     k \<le> rg_next r \<and> k \<le> rg_pendingBarrierSequence r \<and> b \<le> rg_observedBarrier r \<and>
     (rg_observedBarrier r = b \<longrightarrow> rg_pendingBarrierSequence r = k) \<and>
     (b \<le> rg_publishedBarrier r \<longrightarrow> (\<forall>i\<in>set (rg_pending r). k < i)) \<and>
     (\<forall>i\<in>set (rg_pending r). i \<le> k \<longrightarrow> i \<in> ps)"

lemma barrier_course_frame:
  assumes "barrier_course b k ps r" and "rg_pendingBarrierSequence r' = rg_pendingBarrierSequence r"
    "rg_publishedBarrier r' = rg_publishedBarrier r" "rg_observedBarrier r' = rg_observedBarrier r"
    "rg_next r' = rg_next r" "set (rg_pending r') \<subseteq> set (rg_pending r)"
  shows "barrier_course b k ps r'"
  using assms by (auto simp: barrier_course_def)

interpretation course: registry_stable "barrier_course b k ps" for b k ps
proof
  fix r r'
  assume b: "barrier_course b k ps r" and st: "reg_op r r'"
  have frame: "barrier_course b k ps r'" if "same_tokens r r'" for r'
    using that by (intro barrier_course_frame [OF b]) (simp_all add: same_tokens_def)
  from st show "barrier_course b k ps r'"
  proof (cases rule: reg_op.cases)
    case op_begin
    with b show ?thesis by (auto simp: barrier_course_def BeginDispatch_def Let_def)
  next
    case (op_end i)
    then show ?thesis
      by (auto simp: pending_End_def drop_pending_def spend_def signalLocked_def intro!: barrier_course_frame [OF b])
  next
    case (op_install i spec)
    then show ?thesis
      by (auto simp: Install_def drop_pending_def spend_def signalLocked_def Let_def intro!: barrier_course_frame [OF b])
  next
    case (op_observe x)
    with b show ?thesis by (auto simp: ObserveBarrier_def barrier_course_def)
  next
    case op_freeze
    with b show ?thesis by (fastforce simp: FreezeInFlight_def barrier_course_def Let_def list_ex_iff not_le)
  next
    case (op_ending i)
    then show ?thesis using end_step_effect frame by blast
  qed (use frame same_tokens_bind same_tokens_start_close same_tokens_goroutine b in
      \<open>auto intro!: barrier_course_frame [OF b]\<close>)
qed

lemma barrier_course_starts:
  assumes "reachable reg_start reg_step m" and "0 < b" and "rg_observedBarrier (mc_reg m) < b"
  shows "barrier_course b (rg_next (mc_reg m)) (set (rg_pending (mc_reg m))) (ObserveBarrier b (mc_reg m))"
  using barrier.holds [OF assms(1)] assms(2,3) by (auto simp: barrier_ok_def barrier_course_def ObserveBarrier_def)

section \<open>Draining\<close>

text \<open>What a change does to the parts that waiting goroutines look at: whatever takes a token or a
  scope away signals, and once the registry has stopped accepting nothing is added.\<close>

definition wakes :: "registry \<Rightarrow> registry \<Rightarrow> bool" where
  "wakes r r' \<longleftrightarrow>
     rg_changed r \<le> rg_changed r' \<and>
     (rg_changed r' = rg_changed r \<longrightarrow> set (rg_pending r) \<subseteq> set (rg_pending r') \<and> set (rg_scopes r) \<subseteq> set (rg_scopes r')) \<and>
     (rg_state r = StateClosed \<longrightarrow> rg_state r' = StateClosed) \<and>
     (rg_state r \<noteq> StateAccepting \<longrightarrow> rg_state r' \<noteq> StateAccepting \<and>
        set (rg_pending r') \<subseteq> set (rg_pending r) \<and> set (rg_scopes r') \<subseteq> set (rg_scopes r) \<and> rg_bound r' = rg_bound r)"

lemma start_close_fields:
  "rg_scopes (snd (startBoundResourceClose i r)) = rg_scopes r" "rg_changed (snd (startBoundResourceClose i r)) = rg_changed r"
  "rg_bound (snd (startBoundResourceClose i r)) = rg_bound r"
  by (auto simp: startBoundResourceClose_def split: option.splits)

lemma bound_end_step: "end_step i r = Some r' \<Longrightarrow> rg_bound r' = rg_bound r"
  using start_close_fields(3) [of i r]
  by (auto simp: end_step_def set_phase_def signalLocked_def markReleasedLocked_def Let_def
      split: option.splits end_phase.splits prod.splits bool.splits if_splits)

lemma reg_op_wakes:
  assumes "reg_op r r'" shows "wakes r r'"
  using assms
proof (cases rule: reg_op.cases)
  case (op_bind i f)
  then show ?thesis using Bind_cases [of i f r] same_tokens_bind [of r i f] by (auto simp: wakes_def same_tokens_def)
next
  case (op_start_close i)
  then show ?thesis using start_close_fields [of i r] same_tokens_start_close [of r i] by (simp add: wakes_def same_tokens_def)
next
  case (op_goroutine i)
  then show ?thesis using close_goroutine_cases [of i r r'] same_tokens_goroutine [of i r r']
    by (auto simp: wakes_def same_tokens_def)
next
  case (op_ending i)
  then show ?thesis using end_step_effect [of i r r'] bound_end_step [of i r r'] by (auto simp: wakes_def same_tokens_def)
qed (auto simp: wakes_def BeginDispatch_def pending_End_def Install_def drop_pending_def spend_def signalLocked_def
    ObserveBarrier_def FreezeInFlight_def Let_def)

definition waits_ok :: "registry \<Rightarrow> wait_pc list \<Rightarrow> bool" where
  "waits_ok r pcs \<longleftrightarrow> (\<forall>g. WpWaiting g \<in> set pcs \<longrightarrow> g \<le> rg_changed r \<and> (g = rg_changed r \<longrightarrow> rg_pending r \<noteq> []))"

fun drain_ok :: "registry \<Rightarrow> drain_pc \<Rightarrow> bool" where
  "drain_ok r DrStart = True"
| "drain_ok r (DrWaiting g) = (rg_state r \<noteq> StateAccepting \<and> g \<le> rg_changed r \<and>
     (g = rg_changed r \<longrightarrow> rg_pending r \<noteq> [] \<or> rg_scopes r \<noteq> []))"
| "drain_ok r (DrReturned ok) = (ok \<longrightarrow> rg_state r = StateClosed \<and> rg_pending r = [] \<and> rg_scopes r = [])"
| "drain_ok r _ = (rg_state r \<noteq> StateAccepting)"

definition threads_ok :: "reg_machine \<Rightarrow> bool" where
  "threads_ok m \<longleftrightarrow> waits_ok (mc_reg m) (mc_waits m) \<and> (\<forall>pc\<in>set (mc_drains m). drain_ok (mc_reg m) pc)"

lemma waits_ok_wakes:
  assumes "waits_ok r pcs" and "wakes r r'" shows "waits_ok r' pcs"
  unfolding waits_ok_def
proof (intro allI impI)
  fix g assume "WpWaiting g \<in> set pcs"
  then have g: "g \<le> rg_changed r" "g = rg_changed r \<longrightarrow> rg_pending r \<noteq> []" using assms(1) by (auto simp: waits_ok_def)
  with assms(2) show "g \<le> rg_changed r' \<and> (g = rg_changed r' \<longrightarrow> rg_pending r' \<noteq> [])"
    by (auto simp: wakes_def)
qed

lemma drain_ok_wakes:
  assumes "drain_ok r pc" and w: "wakes r r'" shows "drain_ok r' pc"
proof (cases pc)
  case (DrWaiting g)
  with assms show ?thesis by (auto simp: wakes_def)
next
  case (DrReturned ok)
  with assms show ?thesis by (cases ok) (auto simp: wakes_def)
qed (use assms in \<open>auto simp: wakes_def\<close>)

lemma wait_step_ok:
  assumes "waits_ok r pcs" and "wait_step pc r = Some pc'" shows "waits_ok r (pcs[j := pc'])"
proof -
  have "set (pcs[j := pc']) \<subseteq> insert pc' (set pcs)" by (rule set_update_subset_insert)
  with assms show ?thesis by (auto simp: waits_ok_def wait_step_def split: wait_pc.splits if_splits)
qed

lemma drain_step_ok:
  assumes "drain_ok r pc" and "drain_step pc r = Some (pc', r')" shows "drain_ok r' pc'"
  using assms
proof (cases pc)
  case (DrClosing js)
  with assms same_tokens_start_close [of r "hd js"] show ?thesis
    by (auto simp: drain_step_def same_tokens_def split: list.splits)
qed (auto simp: drain_step_def split: if_splits)

interpretation threads: inductive_invariant reg_start reg_step threads_ok
proof
  show "threads_ok m" if "reg_start m" for m using that by (simp add: reg_start_def threads_ok_def waits_ok_def)
  show "threads_ok m'" if ok: "threads_ok m" and st: "reg_step m m'" for m m'
  proof -
    have w: "wakes (mc_reg m) (mc_reg m')" using reg_op_wakes [OF reg_step_op [OF st]] .
    have old: "waits_ok (mc_reg m') (mc_waits m)" "\<forall>pc\<in>set (mc_drains m). drain_ok (mc_reg m') pc"
      using ok waits_ok_wakes [OF _ w] drain_ok_wakes [OF _ w] by (auto simp: threads_ok_def)
    show ?thesis using st
    proof (cases rule: reg_step.cases)
      case (st_wait j pc)
      with old wait_step_ok show ?thesis by (simp add: threads_ok_def)
    next
      case (st_drain j pc r)
      have "drain_ok (mc_reg m) (mc_drains m ! j)" using ok st_drain by (auto simp: threads_ok_def)
      then have "drain_ok r pc" using drain_step_ok st_drain by blast
      moreover have "set ((mc_drains m)[j := pc]) \<subseteq> insert pc (set (mc_drains m))" by (rule set_update_subset_insert)
      ultimately show ?thesis using old st_drain by (auto simp: threads_ok_def)
    next
      case (st_wait_cancel j g)
      have "set ((mc_waits m)[j := WpReturned False]) \<subseteq> insert (WpReturned False) (set (mc_waits m))"
        by (rule set_update_subset_insert)
      with old st_wait_cancel show ?thesis by (auto simp: threads_ok_def waits_ok_def)
    next
      case (st_drain_cancel j g)
      have "set ((mc_drains m)[j := DrReturned False]) \<subseteq> insert (DrReturned False) (set (mc_drains m))"
        by (rule set_update_subset_insert)
      with old st_drain_cancel show ?thesis by (auto simp: threads_ok_def)
    qed (use old in \<open>auto simp: threads_ok_def waits_ok_def\<close>)
  qed
qed

interpretation final: registry_stable "\<lambda>r. rg_state r \<noteq> StateAccepting \<and> set (rg_pending r) \<subseteq> A \<and> set (rg_scopes r) \<subseteq> B \<and>
    rg_bound r = b" for A B b
proof
  show "rg_state r' \<noteq> StateAccepting \<and> set (rg_pending r') \<subseteq> A \<and> set (rg_scopes r') \<subseteq> B \<and> rg_bound r' = b"
    if "rg_state r \<noteq> StateAccepting \<and> set (rg_pending r) \<subseteq> A \<and> set (rg_scopes r) \<subseteq> B \<and> rg_bound r = b" "reg_op r r'" for r r'
    using that(1) reg_op_wakes [OF that(2)] by (auto simp: wakes_def)
qed

section \<open>Sample runs\<close>

text \<open>A schedule names the steps to take; a step that is not enabled is skipped.\<close>

datatype reg_label = LBegin | LInstall nat ScopeSpec | LPendEnd nat | LBind nat nat | LEnding nat | LGoroutine nat
  | LObserve int | LFreeze | LDrainCall | LDrain nat

definition on_reg :: "(registry \<Rightarrow> registry) \<Rightarrow> reg_machine \<Rightarrow> reg_machine" where
  "on_reg f m = m\<lparr>mc_reg := f (mc_reg m)\<rparr>"

fun take_step :: "reg_label \<Rightarrow> reg_machine \<Rightarrow> reg_machine" where
  "take_step LBegin m = on_reg (\<lambda>r. snd (BeginDispatch r)) m"
| "take_step (LInstall i spec) m =
     (if 0 < i \<and> i \<le> rg_next (mc_reg m) then on_reg (\<lambda>r. snd (Install i spec r)) m else m)"
| "take_step (LPendEnd i) m = (if 0 < i \<and> i \<le> rg_next (mc_reg m) then on_reg (pending_End i) m else m)"
| "take_step (LBind i f) m = on_reg (\<lambda>r. snd (Bind i (Some f) r)) m"
| "take_step (LEnding i) m = (case end_step i (mc_reg m) of None \<Rightarrow> m | Some r \<Rightarrow> m\<lparr>mc_reg := r\<rparr>)"
| "take_step (LGoroutine i) m = (case close_goroutine i (mc_reg m) of None \<Rightarrow> m | Some r \<Rightarrow> m\<lparr>mc_reg := r\<rparr>)"
| "take_step (LObserve b) m = on_reg (ObserveBarrier b) m"
| "take_step LFreeze m = on_reg (\<lambda>r. snd (FreezeInFlight r)) m"
| "take_step LDrainCall m = m\<lparr>mc_drains := DrStart # mc_drains m\<rparr>"
| "take_step (LDrain j) m =
     (if j < length (mc_drains m) then
        (case drain_step (mc_drains m ! j) (mc_reg m) of
           None \<Rightarrow> m
         | Some (pc, r) \<Rightarrow> m\<lparr>mc_reg := r, mc_drains := (mc_drains m)[j := pc]\<rparr>)
      else m)"

definition reg_run :: "reg_label list \<Rightarrow> reg_machine" where
  "reg_run ls = fold take_step ls \<lparr>mc_reg = New_registry, mc_waits = [], mc_drains = [], mc_closes = []\<rparr>"

lemma take_step_cases: "take_step l m = m \<or> reg_step m (take_step l m)"
  by (cases l) (auto simp: on_reg_def intro: reg_step.intros split: option.splits)

lemma take_steps: "reg_step\<^sup>*\<^sup>* m (fold take_step ls m)"
proof (induction ls arbitrary: m)
  case (Cons l ls)
  from take_step_cases [of l m] Cons.IH [of "take_step l m"] show ?case
    by (auto intro: converse_rtranclp_into_rtranclp)
qed simp

lemma reg_run_reachable: "reachable reg_start reg_step (reg_run ls)"
proof -
  have "reachable reg_start reg_step (fold take_step ls m)" if "reachable reg_start reg_step m" for m
    using that
  proof (induction ls arbitrary: m)
    case (Cons l ls)
    have "reachable reg_start reg_step (take_step l m)"
      using take_step_cases [of l m] Cons.prems reach_step by (metis (no_types))
    with Cons.IH show ?case by simp
  qed simp
  then show ?thesis unfolding reg_run_def by (simp add: reach_init reg_start_def)
qed

definition sample_spec :: ScopeSpec where
  "sample_spec = \<lparr>sp_RequestID = ''r1'', sp_CredentialID = ''c'', sp_Model = ''m'', sp_Kind = ''chat'',
     sp_StartedAt = 5, sp_Accounted = True\<rparr>"

text \<open>A scope with a bound resource that runs to its end.\<close>

definition whole_life :: "reg_label list" where
  "whole_life = [LBegin, LInstall 1 sample_spec, LBind 1 7, LEnding 1, LEnding 1, LGoroutine 1, LGoroutine 1,
     LEnding 1, LEnding 1, LEnding 1, LEnding 1, LEnding 1]"

section \<open>Properties\<close>

text \<open>C14: In every reachable state each dispatch token that was ever issued is either pending or spent,
  never both and never twice, every installed scope came from a spent token, and the registered
  scopes are exactly the installed ones whose \<open>EndWithRelease\<close> has not finished.\<close>

theorem registry_tokens_exact:
  assumes "reachable reg_start reg_step m"
  shows "distinct (rg_pending (mc_reg m)) \<and> distinct (rg_scopes (mc_reg m)) \<and>
     set (rg_pending (mc_reg m)) \<inter> set (rg_spent (mc_reg m)) = {} \<and>
     set (rg_pending (mc_reg m)) \<union> set (rg_spent (mc_reg m)) = {0<..rg_next (mc_reg m)} \<and>
     fst ` set (rg_heap (mc_reg m)) \<subseteq> set (rg_spent (mc_reg m)) \<and>
     set (rg_scopes (mc_reg m)) = {i. \<exists>s. map_of (rg_heap (mc_reg m)) i = Some s \<and> \<not> is_Ended (sc_ending s)}"
  using tokens.holds [OF assms] by (auto simp: tokens_ok_def)

theorem registry_tokens_exact_witness:
  "rg_scopes (mc_reg (reg_run (take 3 whole_life))) = [1] \<and> rg_scopes (mc_reg (reg_run whole_life)) = [] \<and>
   set (rg_pending (mc_reg (reg_run whole_life))) \<union> set (rg_spent (mc_reg (reg_run whole_life))) = {0<..1}"
proof -
  have "rg_scopes (mc_reg (reg_run (take 3 whole_life))) = [1]" "rg_scopes (mc_reg (reg_run whole_life)) = []"
    "rg_next (mc_reg (reg_run whole_life)) = 1" by code_simp+
  with registry_tokens_exact [OF reg_run_reachable, of whole_life] show ?thesis by simp
qed

text \<open>C15: A scope accepts at most one resource, its close function is called at most once, and no resource
  is left open: when \<open>EndWithRelease\<close> has got past waiting, the resource was closed exactly as often
  as one was bound, the scope is inactive and further binds are refused.\<close>

theorem scope_resource_closed_once:
  assumes "reachable reg_start reg_step m"
  shows "count_list (rg_bound (mc_reg m)) i \<le> 1 \<and>
     count_list (rg_closed (mc_reg m)) i \<le> count_list (rg_bound (mc_reg m)) i \<and>
     (map_of (rg_heap (mc_reg m)) i = Some s \<and> released s \<longrightarrow>
        count_list (rg_closed (mc_reg m)) i = count_list (rg_bound (mc_reg m)) i \<and>
        Bind i (Some f) (mc_reg m) = (Some ErrRegistryNotAccepting, mc_reg m))"
proof -
  have ok: "resources_ok (mc_reg m)" using resources.holds [OF assms] by simp
  show ?thesis
  proof (cases "map_of (rg_heap (mc_reg m)) i")
    case None
    then have "count_list (rg_bound (mc_reg m)) i = 0 \<and> count_list (rg_closed (mc_reg m)) i = 0"
      using ok unfolding resources_ok_def by (metis resource_entry.simps(1))
    with None show ?thesis by simp
  next
    case (Some s')
    from resources_ok_scope [OF ok Some] Some show ?thesis
      by (auto simp: resource_defs released_def Bind_def split: end_phase.splits)
  qed
qed

theorem scope_resource_closed_once_witness:
  "count_list (rg_bound (mc_reg (reg_run whole_life))) 1 = 1 \<and> count_list (rg_closed (mc_reg (reg_run whole_life))) 1 = 1"
proof -
  obtain s where s: "map_of (rg_heap (mc_reg (reg_run whole_life))) 1 = Some s"
    "map_option released (map_of (rg_heap (mc_reg (reg_run whole_life))) 1) = Some True"
  proof -
    have "map_option released (map_of (rg_heap (mc_reg (reg_run whole_life))) 1) = Some True" by code_simp
    then show ?thesis using that by (cases "map_of (rg_heap (mc_reg (reg_run whole_life))) 1") auto
  qed
  have "count_list (rg_bound (mc_reg (reg_run whole_life))) 1 = 1" by code_simp
  with s scope_resource_closed_once [OF reg_run_reachable, of whole_life 1 s 0] show ?thesis by simp
qed

text \<open>Releases are counted without gaps or doubles: for every credential and model each number from
  one to the current sequence is held by exactly one ended scope, and no other number by any.\<close>

theorem release_numbers_exact:
  assumes "reachable reg_start reg_step m"
  shows "0 \<le> sequence_of (mc_reg m) g \<and>
     int (length (filter (\<lambda>(i, s). numbered g q s) (rg_heap (mc_reg m)))) =
       (if 1 \<le> q \<and> q \<le> sequence_of (mc_reg m) g then 1 else 0)"
proof -
  have ok: "releases_ok (mc_reg m)" using releases.holds [OF assms] by simp
  have "asum (\<lambda>s. of_bool (P s)) al = int (length (filter (\<lambda>(i, s). P s) al))" for P and al :: "(nat \<times> scope) list"
    by (induction al) auto
  then have "holders (mc_reg m) g q = int (length (filter (\<lambda>(i, s). numbered g q s) (rg_heap (mc_reg m))))"
    unfolding holders_def .
  moreover have "0 \<le> sequence_of (mc_reg m) g \<and> holders (mc_reg m) g q = of_bool (1 \<le> q \<and> q \<le> sequence_of (mc_reg m) g)"
    using ok unfolding releases_ok_def by blast
  ultimately show ?thesis by (metis of_bool_def)
qed


theorem release_numbers_exact_witness:
  "sequence_of (mc_reg (reg_run whole_life)) (''c'', ''m'') = 1 \<and>
   int (length (filter (\<lambda>(i, s). numbered (''c'', ''m'') 1 s) (rg_heap (mc_reg (reg_run whole_life))))) = 1"
proof -
  have "sequence_of (mc_reg (reg_run whole_life)) (''c'', ''m'') = 1" by code_simp
  with release_numbers_exact [OF reg_run_reachable, of whole_life "(''c'', ''m'')" 1] show ?thesis by simp
qed

text \<open>C16: A barrier is published exactly when the dispatches begun before it have been seen. Take any
  reachable registry, let it accept the observation of barrier \<open>b\<close>, run on through any interleaving
  and take a snapshot. If the snapshot reports \<open>b\<close> or a later barrier, no token that was pending when \<open>b\<close>
  was observed is pending in the snapshot's state or in any later one: each has ended or become a
  scope. And as long as \<open>b\<close> is the latest barrier observed, the snapshot does report it once none of
  those tokens is pending; dispatches begun after the observation do not hold it back.\<close>

theorem barrier_covers_dispatches:
  assumes "reachable reg_start reg_step m0" and "0 < b" and "rg_observedBarrier (mc_reg m0) < b"
    and "reg_step\<^sup>*\<^sup>* (m0\<lparr>mc_reg := ObserveBarrier b (mc_reg m0)\<rparr>) m"
    and "FreezeInFlight (mc_reg m) = (fz, r)" and "reg_step\<^sup>*\<^sup>* (m\<lparr>mc_reg := r\<rparr>) m'"
  shows "(b \<le> fz_BarrierRevision fz \<longrightarrow> set (rg_pending (mc_reg m0)) \<inter> set (rg_pending (mc_reg m')) = {}) \<and>
     (rg_observedBarrier (mc_reg m) = b \<longrightarrow>
        (fz_BarrierRevision fz = b \<longleftrightarrow> set (rg_pending (mc_reg m0)) \<inter> set (rg_pending (mc_reg m)) = {}))"
proof -
  let ?k = "rg_next (mc_reg m0)" and ?ps = "set (rg_pending (mc_reg m0))"
  have le: "i \<le> ?k" if "i \<in> ?ps" for i using tokens.holds [OF assms(1)] that unfolding tokens_ok_def by force
  have c: "barrier_course b ?k ?ps (mc_reg m)"
    using course.holds_on [OF assms(4)] barrier_course_starts [OF assms(1-3)] by simp
  have r: "r = snd (FreezeInFlight (mc_reg m))" using assms(5) by simp
  have cr: "barrier_course b ?k ?ps r" unfolding r by (rule course.op [OF c op_freeze])
  have fz: "rg_publishedBarrier r = fz_BarrierRevision fz" "rg_pending r = rg_pending (mc_reg m)"
    "rg_observedBarrier r = rg_observedBarrier (mc_reg m)"
    using assms(5) by (auto simp: FreezeInFlight_def Let_def)
  have covered: "?ps \<inter> set (rg_pending (mc_reg m')) = {}" if "b \<le> fz_BarrierRevision fz"
  proof -
    have "?k \<le> rg_next r \<and> (\<forall>i\<in>set (rg_pending r). ?k < i)"
      using cr that unfolding barrier_course_def fz(1) by blast
    then have "\<forall>i\<in>set (rg_pending (mc_reg m')). ?k < i" using seen.holds_on [OF assms(6), of ?k] by simp
    with le show ?thesis by fastforce
  qed
  have now: "?ps \<inter> set (rg_pending (mc_reg m)) = {}" if "fz_BarrierRevision fz = b"
    using cr le that unfolding barrier_course_def fz by (meson disjoint_iff linorder_not_le order_refl)
  have reports: "fz_BarrierRevision fz = b" if "?ps \<inter> set (rg_pending (mc_reg m)) = {}" "rg_observedBarrier (mc_reg m) = b"
  proof -
    have "\<not> list_ex (\<lambda>i. i \<le> rg_pendingBarrierSequence (mc_reg m)) (rg_pending (mc_reg m))"
      using c that by (auto simp: barrier_course_def list_ex_iff)
    then have "b \<le> rg_publishedBarrier r" using assms(5) that(2) by (auto simp: FreezeInFlight_def Let_def split: if_splits)
    moreover have "tokens_ok (mc_reg m) \<and> barrier_ok (mc_reg m)"
      using barrier.holds_on [OF assms(4)] barrier.op [OF barrier.holds [OF assms(1)] op_observe] by simp
    from barrier.op [OF this op_freeze] have "barrier_ok r" by (simp add: r)
    then have "rg_publishedBarrier r \<le> b" using that(2) fz(3) by (simp add: barrier_ok_def)
    ultimately show ?thesis by (simp add: fz)
  qed
  show ?thesis using covered now reports by blast
qed

text \<open>One dispatch before the barrier, one after it: the first holds the barrier back, the second does not.\<close>

definition barrier_life :: "reg_label list" where
  "barrier_life = [LInstall 1 sample_spec, LBegin]"

theorem barrier_covers_dispatches_witness:
  "fz_BarrierRevision (fst (FreezeInFlight (mc_reg (reg_run [LBegin, LObserve 4])))) \<noteq> 4 \<and>
   rg_pending (mc_reg (reg_run ([LBegin, LObserve 4] @ barrier_life))) = [2] \<and>
   fz_BarrierRevision (fst (FreezeInFlight (mc_reg (reg_run ([LBegin, LObserve 4] @ barrier_life))))) = 4"
proof -
  let ?early = "reg_run [LBegin]" and ?observed = "reg_run [LBegin, LObserve 4]" and ?late = "reg_run ([LBegin, LObserve 4] @ barrier_life)"
  have m1: "?early\<lparr>mc_reg := ObserveBarrier 4 (mc_reg ?early)\<rparr> = ?observed" by (simp add: reg_run_def on_reg_def)
  have run: "reg_step\<^sup>*\<^sup>* ?observed ?late" using take_steps [of ?observed barrier_life] by (simp add: reg_run_def)
  have v: "rg_observedBarrier (mc_reg ?early) < 4" "rg_pending (mc_reg ?early) = [1]" "rg_pending (mc_reg ?observed) = [1]"
    "rg_observedBarrier (mc_reg ?observed) = 4" "rg_pending (mc_reg ?late) = [2]" "rg_observedBarrier (mc_reg ?late) = 4"
    by code_simp+
  have "fz_BarrierRevision (fst (FreezeInFlight (mc_reg x))) = 4 \<longleftrightarrow> {1} \<inter> set (rg_pending (mc_reg x)) = {}"
    if "reg_step\<^sup>*\<^sup>* ?observed x" "rg_observedBarrier (mc_reg x) = 4" for x
    using barrier_covers_dispatches [OF reg_run_reachable [of "[LBegin]"] _ v(1), of x _ _ "x\<lparr>mc_reg := snd (FreezeInFlight (mc_reg x))\<rparr>"]
      that unfolding m1 by (simp add: v(2) prod_eq_iff)
  from this [of ?observed] this [OF run] v show ?thesis by simp
qed

text \<open>C17: A drain loses no wake-up and nothing it waits for can get stuck. In every reachable state a scope
  that is still registered can take its next step (its own or that of the goroutine closing its
  resource); and once no token and no scope is left, every waiting \<open>Drain\<close> finds the channel it
  waits on closed and returns nil with the registry closed, and every waiting \<open>WaitPending\<close>
  goes on as soon as no token is pending.\<close>

theorem drain_never_stuck:
  assumes "reachable reg_start reg_step m"
  shows "(\<forall>i\<in>set (rg_scopes (mc_reg m)). end_step i (mc_reg m) \<noteq> None \<or> close_goroutine i (mc_reg m) \<noteq> None) \<and>
     (DrWaiting g \<in> set (mc_drains m) \<and> rg_pending (mc_reg m) = [] \<and> rg_scopes (mc_reg m) = [] \<longrightarrow>
        drain_step (DrWaiting g) (mc_reg m) = Some (DrCheck, mc_reg m) \<and>
        drain_step DrCheck (mc_reg m) = Some (DrReturned True, (mc_reg m)\<lparr>rg_state := StateClosed\<rparr>)) \<and>
     (WpWaiting g \<in> set (mc_waits m) \<and> rg_pending (mc_reg m) = [] \<longrightarrow>
        wait_step (WpWaiting g) (mc_reg m) = Some WpCheck \<and> wait_step WpCheck (mc_reg m) = Some (WpReturned True))"
proof -
  have ok: "tokens_ok (mc_reg m)" "resources_ok (mc_reg m)" using resources.holds [OF assms] by simp_all
  have th: "threads_ok m" using threads.reachable_inv [OF assms] .
  have "end_step i (mc_reg m) \<noteq> None \<or> close_goroutine i (mc_reg m) \<noteq> None" if i: "i \<in> set (rg_scopes (mc_reg m))" for i
  proof -
    obtain s where s: "map_of (rg_heap (mc_reg m)) i = Some s" "\<not> is_Ended (sc_ending s)"
      using ok(1) i unfolding tokens_ok_def by blast
    from resources_ok_scope [OF ok(2) s(1)] s show ?thesis
      by (auto simp: end_step_def close_goroutine_def resource_defs split: end_phase.splits close_state.splits prod.splits bool.splits)
  qed
  moreover have "g \<noteq> rg_changed (mc_reg m)"
    if "DrWaiting g \<in> set (mc_drains m)" "rg_pending (mc_reg m) = []" "rg_scopes (mc_reg m) = []"
    using th that by (fastforce simp: threads_ok_def)
  moreover have "g \<noteq> rg_changed (mc_reg m)" if "WpWaiting g \<in> set (mc_waits m)" "rg_pending (mc_reg m) = []"
    using th that by (auto simp: threads_ok_def waits_ok_def)
  ultimately show ?thesis by (auto simp: drain_step_def wait_step_def)
qed

definition drain_life :: "reg_label list" where
  "drain_life = [LBegin, LInstall 1 sample_spec, LDrainCall, LDrain 0, LDrain 0, LDrain 0, LDrain 0, LDrain 0,
     LEnding 1, LEnding 1, LEnding 1, LEnding 1, LEnding 1, LEnding 1]"

theorem drain_never_stuck_witness:
  "mc_drains (reg_run drain_life) = [DrWaiting 1] \<and> rg_scopes (mc_reg (reg_run drain_life)) = [] \<and>
   drain_step (DrWaiting 1) (mc_reg (reg_run drain_life)) \<noteq> None"
proof -
  have d: "mc_drains (reg_run drain_life) = [DrWaiting 1]" "rg_scopes (mc_reg (reg_run drain_life)) = []"
    "rg_pending (mc_reg (reg_run drain_life)) = []" by code_simp+
  with drain_never_stuck [OF reg_run_reachable, of drain_life 1] show ?thesis by simp
qed

text \<open>A drain that returned nil was right for good: the registry is closed, with no token and no scope,
  and it stays so whatever happens afterwards; no dispatch begins, no scope is installed and no
  resource is bound any more.\<close>

theorem drained_stays_empty:
  assumes "reachable reg_start reg_step m" and "DrReturned True \<in> set (mc_drains m)" and "reg_step\<^sup>*\<^sup>* m m'"
  shows "rg_state (mc_reg m') \<noteq> StateAccepting \<and> rg_pending (mc_reg m') = [] \<and> rg_scopes (mc_reg m') = [] \<and>
     rg_bound (mc_reg m') = rg_bound (mc_reg m) \<and>
     fst (BeginDispatch (mc_reg m')) = Inl ErrRegistryNotAccepting \<and>
     fst (Install i spec (mc_reg m')) = Inl ErrRegistryNotAccepting \<and> fst (Bind i f (mc_reg m')) \<noteq> None"
proof -
  have "drain_ok (mc_reg m) (DrReturned True)"
    using threads.reachable_inv [OF assms(1)] assms(2) unfolding threads_ok_def by blast
  then have "rg_state (mc_reg m) \<noteq> StateAccepting \<and> set (rg_pending (mc_reg m)) \<subseteq> {} \<and> set (rg_scopes (mc_reg m)) \<subseteq> {} \<and>
      rg_bound (mc_reg m) = rg_bound (mc_reg m)" by simp
  from final.holds_on [OF assms(3) this] show ?thesis
    by (auto simp: BeginDispatch_def Install_def Bind_def split: option.splits)
qed

theorem drained_stays_empty_witness:
  "mc_drains (reg_run (drain_life @ [LDrain 0, LDrain 0])) = [DrReturned True] \<and>
   rg_scopes (mc_reg (reg_run (drain_life @ [LDrain 0, LDrain 0]))) = []"
proof -
  let ?m = "reg_run (drain_life @ [LDrain 0, LDrain 0])"
  have d: "mc_drains ?m = [DrReturned True]" by code_simp
  then have "DrReturned True \<in> set (mc_drains ?m)" by simp
  from drained_stays_empty [OF reg_run_reachable this rtranclp.rtrancl_refl] d show ?thesis by simp
qed

end
