(* ===== verification/SmoothWeighted.thy ===== *)
theory SmoothWeighted
  imports GoBase
begin

text \<open>
  Smooth weighted round-robin, the arithmetic shared by the scheduler
  (\<open>src/sdk/cliproxy/auth/scheduler.go\<close>) and the weighted selector
  (\<open>src/sdk/cliproxy/auth/selector.go\<close>): saturating 64-bit addition, the credit state with its
  configured weights, and one selection. A Go map is an association list; reading an absent key
  gives zero, and a nil map is the empty list (no code here tells them apart).
\<close>

section \<open>Saturating addition\<close>

definition MaxInt64 :: int where
  "MaxInt64 = 9223372036854775807"

definition MinInt64 :: int where
  "MinInt64 = - 9223372036854775808"

definition saturatingAddInt64 :: "int \<Rightarrow> int \<Rightarrow> int" where
  "saturatingAddInt64 value delta =
     (if delta > 0 \<and> value > MaxInt64 - delta then MaxInt64
      else if delta < 0 \<and> value < MinInt64 - delta then MinInt64
      else value + delta)"

lemma saturating_clamps:
  "MinInt64 \<le> v \<Longrightarrow> v \<le> MaxInt64 \<Longrightarrow> MinInt64 \<le> d \<Longrightarrow> d \<le> MaxInt64 \<Longrightarrow>
   saturatingAddInt64 v d = max MinInt64 (min MaxInt64 (v + d))"
  by (auto simp: saturatingAddInt64_def MinInt64_def MaxInt64_def)

lemma saturating_exact: "MinInt64 \<le> v + d \<Longrightarrow> v + d \<le> MaxInt64 \<Longrightarrow> saturatingAddInt64 v d = v + d"
  by (auto simp: saturatingAddInt64_def)

section \<open>Credits\<close>

record smoothWeightedState =
  sw_current :: "(string \<times> int) list"
  sw_weights :: "(string \<times> int) list"

definition no_credits :: smoothWeightedState where
  "no_credits = \<lparr>sw_current = [], sw_weights = []\<rparr>"

definition at_key :: "(string \<times> int) list \<Rightarrow> string \<Rightarrow> int" where
  "at_key m k = (case map_of m k of None \<Rightarrow> 0 | Some v \<Rightarrow> v)"

definition maxSmoothWeightedStateEntries :: nat where
  "maxSmoothWeightedStateEntries = 1024"

definition weightsConfigChanged :: "(string \<times> int) list \<Rightarrow> (string \<times> int) list \<Rightarrow> bool" where
  "weightsConfigChanged left right =
     (left \<noteq> [] \<and> list_ex (\<lambda>(i, w). case map_of left i of None \<Rightarrow> False | Some p \<Rightarrow> p \<noteq> w) right)"

definition pruneStale :: "(string \<times> int) list \<Rightarrow> smoothWeightedState \<Rightarrow> smoothWeightedState" where
  "pruneStale weights s =
     (if int (length (sw_current s)) \<le> int maxSmoothWeightedStateEntries \<and>
         int (length (sw_weights s)) \<le> int maxSmoothWeightedStateEntries
      then s
      else s\<lparr>sw_current := filter (\<lambda>(i, _). map_of weights i \<noteq> None) (sw_current s),
             sw_weights := filter (\<lambda>(i, _). map_of weights i \<noteq> None) (sw_weights s)\<rparr>)"

definition prepare :: "(string \<times> int) list \<Rightarrow> smoothWeightedState \<Rightarrow> smoothWeightedState" where
  "prepare weights s =
     (let s = (if weightsConfigChanged (sw_weights s) weights then s\<lparr>sw_current := []\<rparr> else s);
          s = s\<lparr>sw_weights := fold (\<lambda>(i, w). AList.update i w) weights (sw_weights s)\<rparr>
      in pruneStale weights s)"

section \<open>One selection\<close>

text \<open>The loop over the candidates. The arguments are how a candidate is named, its weight, and
  whether the request may use it; candidates that may not be used and those without a positive
  weight are skipped.\<close>

fun smooth_loop :: "('e \<Rightarrow> string) \<Rightarrow> ('e \<Rightarrow> int) \<Rightarrow> ('e \<Rightarrow> bool) \<Rightarrow> 'e list \<Rightarrow>
    (string \<times> int) list \<Rightarrow> 'e option \<Rightarrow> int \<Rightarrow> int \<Rightarrow> (string \<times> int) list \<times> 'e option \<times> int" where
  "smooth_loop ident weight ok [] cur picked pickedCurrent tot = (cur, picked, tot)"
| "smooth_loop ident weight ok (e # es) cur picked pickedCurrent tot =
     (if weight e \<le> 0 \<or> \<not> ok e then smooth_loop ident weight ok es cur picked pickedCurrent tot
      else let c = saturatingAddInt64 (at_key cur (ident e)) (weight e);
               cur' = AList.update (ident e) c cur;
               tot' = saturatingAddInt64 tot (weight e)
           in if picked = None \<or> c > pickedCurrent
              then smooth_loop ident weight ok es cur' (Some e) c tot'
              else smooth_loop ident weight ok es cur' picked pickedCurrent tot')"

definition pick_smooth :: "('e \<Rightarrow> string) \<Rightarrow> ('e \<Rightarrow> int) \<Rightarrow> ('e \<Rightarrow> bool) \<Rightarrow> 'e list \<Rightarrow>
    (string \<times> int) list \<Rightarrow> 'e option \<times> (string \<times> int) list" where
  "pick_smooth ident weight ok es cur =
     (case smooth_loop ident weight ok es cur None 0 0 of
        (cur', None, _) \<Rightarrow> (None, cur')
      | (cur', Some e, tot) \<Rightarrow>
          (Some e, AList.update (ident e) (saturatingAddInt64 (at_key cur' (ident e)) (- tot)) cur'))"

section \<open>What one selection does\<close>

definition usable :: "('e \<Rightarrow> int) \<Rightarrow> ('e \<Rightarrow> bool) \<Rightarrow> 'e list \<Rightarrow> 'e list" where
  "usable weight ok es = filter (\<lambda>e. weight e > 0 \<and> ok e) es"

definition weight_sum :: "('e \<Rightarrow> int) \<Rightarrow> 'e list \<Rightarrow> int" where
  "weight_sum weight es = sum_list (map weight es)"

lemma at_key_update [simp]: "at_key (AList.update k v m) k' = (if k' = k then v else at_key m k')"
  by (simp add: at_key_def update_conv)

lemma usable_simps [simp]:
  "usable weight ok [] = []"
  "usable weight ok (e # es) = (if weight e > 0 \<and> ok e then e # usable weight ok es else usable weight ok es)"
  by (simp_all add: usable_def)

lemma weight_sum_simps [simp]: "weight_sum weight [] = 0" "weight_sum weight (e # es) = weight e + weight_sum weight es"
  by (simp_all add: weight_sum_def)

lemma weight_sum_nonneg: "0 \<le> weight_sum weight (usable weight ok es)"
  by (induction es) auto

text \<open>The first candidate with the largest value.\<close>

fun best :: "('e \<Rightarrow> int) \<Rightarrow> 'e list \<Rightarrow> 'e option \<Rightarrow> int \<Rightarrow> 'e option" where
  "best f [] p pc = p"
| "best f (e # es) p pc = (if p = None \<or> f e > pc then best f es (Some e) (f e) else best f es p pc)"

lemma best_cong: "(\<And>e. e \<in> set es \<Longrightarrow> f e = g e) \<Longrightarrow> best f es p pc = best g es p pc"
  by (induction es arbitrary: p pc) auto

lemma best_Some: "\<exists>e\<in>insert p (set es). best f es (Some p) (f p) = Some e \<and> (\<forall>x\<in>insert p (set es). f x \<le> f e)"
proof (induction es arbitrary: p)
  case (Cons a es)
  show ?case
  proof (cases "f a > f p")
    case True
    from Cons [of a] obtain e where "e \<in> insert a (set es)" "best f es (Some a) (f a) = Some e" "\<forall>x\<in>insert a (set es). f x \<le> f e"
      by blast
    with True show ?thesis by (intro bexI [of _ e]) auto
  next
    case False
    from Cons [of p] obtain e where "e \<in> insert p (set es)" "best f es (Some p) (f p) = Some e" "\<forall>x\<in>insert p (set es). f x \<le> f e"
      by blast
    with False show ?thesis by (intro bexI [of _ e]) auto
  qed
qed simp

lemma best_None:
  "es \<noteq> [] \<Longrightarrow> \<exists>e\<in>set es. best f es None pc = Some e \<and> (\<forall>x\<in>set es. f x \<le> f e)"
  using best_Some [of "hd es" "tl es" f] by (cases es) auto

text \<open>Without saturation every usable candidate gains its weight and the first one with the most
  credit is picked.\<close>

lemma smooth_loop_spec:
  assumes "distinct (map ident (usable weight ok es))"
    and "\<forall>e\<in>set (usable weight ok es). MinInt64 \<le> at_key cur (ident e) \<and> at_key cur (ident e) + weight e \<le> MaxInt64"
    and "0 \<le> tot" and "tot + weight_sum weight (usable weight ok es) \<le> MaxInt64"
  shows "\<exists>cur'. smooth_loop ident weight ok es cur picked pc tot =
       (cur', best (\<lambda>e. at_key cur (ident e) + weight e) (usable weight ok es) picked pc,
        tot + weight_sum weight (usable weight ok es)) \<and>
     (\<forall>e\<in>set (usable weight ok es). at_key cur' (ident e) = at_key cur (ident e) + weight e) \<and>
     (\<forall>i. i \<notin> ident ` set (usable weight ok es) \<longrightarrow> at_key cur' i = at_key cur i)"
  using assms
proof (induction es arbitrary: cur picked pc tot)
  case (Cons e es)
  show ?case
  proof (cases "weight e > 0 \<and> ok e")
    case False
    with Cons show ?thesis by (auto simp: not_less)
  next
    case True
    let ?U = "usable weight ok es" and ?c = "at_key cur (ident e) + weight e"
    let ?cur = "AList.update (ident e) ?c cur" and ?t = "tot + weight e"
    have c: "saturatingAddInt64 (at_key cur (ident e)) (weight e) = ?c"
      using Cons.prems(2) True by (intro saturating_exact) auto
    have s0: "0 \<le> weight_sum weight ?U" by (rule weight_sum_nonneg)
    have t: "saturatingAddInt64 tot (weight e) = ?t"
      using Cons.prems(3,4) True s0 by (intro saturating_exact) (auto simp: MinInt64_def)
    have "ident e \<notin> ident ` set ?U" using Cons.prems(1) True by simp
    then have ne: "ident x \<noteq> ident e" if "x \<in> set ?U" for x using that by (metis imageI)
    have pre: "distinct (map ident ?U)"
      "\<forall>x\<in>set ?U. MinInt64 \<le> at_key ?cur (ident x) \<and> at_key ?cur (ident x) + weight x \<le> MaxInt64"
      "0 \<le> ?t" "?t + weight_sum weight ?U \<le> MaxInt64"
      using Cons.prems True ne by auto
    have b: "best (\<lambda>x. at_key ?cur (ident x) + weight x) ?U p q = best (\<lambda>x. at_key cur (ident x) + weight x) ?U p q" for p q
      using ne by (intro best_cong) auto
    define p' pc' where "p' = (if picked = None \<or> ?c > pc then Some e else picked)"
      and "pc' = (if picked = None \<or> ?c > pc then ?c else pc)"
    have step: "smooth_loop ident weight ok (e # es) cur picked pc tot = smooth_loop ident weight ok es ?cur p' pc' ?t"
      using True c t by (simp add: p'_def pc'_def Let_def)
    from Cons.IH [OF pre, of p' pc'] obtain cur' where
      cur': "smooth_loop ident weight ok es ?cur p' pc' ?t =
         (cur', best (\<lambda>x. at_key cur (ident x) + weight x) ?U p' pc', ?t + weight_sum weight ?U)"
      "\<forall>x\<in>set ?U. at_key cur' (ident x) = at_key ?cur (ident x) + weight x"
      "\<forall>i. i \<notin> ident ` set ?U \<longrightarrow> at_key cur' i = at_key ?cur i"
      unfolding b by blast
    have "at_key cur' (ident e) = ?c" using cur'(3) ne by (metis at_key_update imageE)
    moreover have "at_key cur' (ident x) = at_key cur (ident x) + weight x" if "x \<in> set ?U" for x
      using cur'(2) ne that by simp
    moreover have "at_key cur' i = at_key cur i" if "i \<notin> ident ` set ?U" "i \<noteq> ident e" for i
      using cur'(3) that by simp
    moreover have "best (\<lambda>x. at_key cur (ident x) + weight x) ?U p' pc' =
        best (\<lambda>x. at_key cur (ident x) + weight x) (e # ?U) picked pc"
      by (simp add: p'_def pc'_def)
    ultimately show ?thesis using True step cur'(1) by (intro exI [of _ cur']) (simp add: add.assoc)
  qed
qed simp

lemma pick_smooth_spec:
  assumes "distinct (map ident (usable weight ok es))" and "usable weight ok es \<noteq> []"
    and "\<forall>e\<in>set (usable weight ok es). MinInt64 \<le> at_key cur (ident e) \<and> at_key cur (ident e) + weight e \<le> MaxInt64"
    and "weight_sum weight (usable weight ok es) \<le> MaxInt64"
    and low: "\<forall>e\<in>set (usable weight ok es). MinInt64 \<le> at_key cur (ident e) + weight e - weight_sum weight (usable weight ok es)"
  shows "\<exists>e cur'. pick_smooth ident weight ok es cur = (Some e, cur') \<and> e \<in> set (usable weight ok es) \<and>
     (\<forall>x\<in>set (usable weight ok es). at_key cur (ident x) + weight x \<le> at_key cur (ident e) + weight e) \<and>
     (\<forall>x\<in>set (usable weight ok es). at_key cur' (ident x) =
        at_key cur (ident x) + weight x - (if ident x = ident e then weight_sum weight (usable weight ok es) else 0))"
proof -
  let ?U = "usable weight ok es" and ?W = "weight_sum weight (usable weight ok es)"
  obtain cur1 where l: "smooth_loop ident weight ok es cur None 0 0 =
       (cur1, best (\<lambda>e. at_key cur (ident e) + weight e) ?U None 0, ?W)"
     "\<forall>e\<in>set ?U. at_key cur1 (ident e) = at_key cur (ident e) + weight e"
    using smooth_loop_spec [OF assms(1,3), of 0 None 0] assms(4) by auto
  obtain e where e: "e \<in> set ?U" "best (\<lambda>e. at_key cur (ident e) + weight e) ?U None 0 = Some e"
     "\<forall>x\<in>set ?U. at_key cur (ident x) + weight x \<le> at_key cur (ident e) + weight e"
    using best_None [OF assms(2), of "\<lambda>e. at_key cur (ident e) + weight e" 0] by blast
  have W: "0 \<le> ?W" by (rule weight_sum_nonneg)
  have "saturatingAddInt64 (at_key cur1 (ident e)) (- ?W) = at_key cur (ident e) + weight e - ?W"
    using l(2) e(1) low W assms(3) by (subst saturating_exact) force+
  then have "pick_smooth ident weight ok es cur =
      (Some e, AList.update (ident e) (at_key cur (ident e) + weight e - ?W) cur1)"
    by (simp add: pick_smooth_def l(1) e(2))
  moreover have "x = e" if "x \<in> set ?U" "ident x = ident e" for x
    using assms(1) e(1) that by (simp add: distinct_map inj_on_def)
  ultimately show ?thesis using e l(2)
    by (intro exI [of _ e] exI [of _ "AList.update (ident e) (at_key cur (ident e) + weight e - ?W) cur1"]) auto
qed

section \<open>Fairness\<close>

text \<open>The candidates picked in a row, with the credits left behind.\<close>

fun smooth_run :: "('e \<Rightarrow> string) \<Rightarrow> ('e \<Rightarrow> int) \<Rightarrow> ('e \<Rightarrow> bool) \<Rightarrow> 'e list \<Rightarrow> nat \<Rightarrow>
    (string \<times> int) list \<Rightarrow> 'e option list \<times> (string \<times> int) list" where
  "smooth_run ident weight ok es 0 cur = ([], cur)"
| "smooth_run ident weight ok es (Suc n) cur =
     (let (p, cur1) = pick_smooth ident weight ok es cur; (ps, cur2) = smooth_run ident weight ok es n cur1
      in (p # ps, cur2))"

text \<open>The account after \<open>n\<close> selections of which \<open>c i\<close> went to candidate \<open>i\<close>.\<close>

definition account :: "('e \<Rightarrow> string) \<Rightarrow> ('e \<Rightarrow> int) \<Rightarrow> 'e list \<Rightarrow> nat \<Rightarrow> ('e \<Rightarrow> nat) \<Rightarrow> (string \<times> int) list \<Rightarrow> bool" where
  "account ident weight U n c cur \<longleftrightarrow>
     (\<forall>e\<in>set U. at_key cur (ident e) = int n * weight e - int (c e) * weight_sum weight U \<and>
        - weight_sum weight U < at_key cur (ident e)) \<and>
     sum_list (map c U) = n"

lemma account_at:
  assumes "account ident weight U n c cur" and "e \<in> set U"
  shows "at_key cur (ident e) = int n * weight e - int (c e) * weight_sum weight U"
    and "- weight_sum weight U < at_key cur (ident e)"
  using assms unfolding account_def by blast+

lemma sum_list_int: "sum_list (map (\<lambda>e. int (c e)) U) = int (sum_list (map c U))"
  by (induction U) auto

lemma sum_list_linear:
  "sum_list (map (\<lambda>e. a * f e - g e * (b::int)) U) = a * sum_list (map f U) - sum_list (map g U) * b"
  by (induction U) (auto simp: algebra_simps)

lemma account_sum_zero:
  assumes "account ident weight U n c cur"
  shows "sum_list (map (\<lambda>e. at_key cur (ident e)) U) = 0"
proof -
  let ?W = "weight_sum weight U"
  have "map (\<lambda>e. at_key cur (ident e)) U = map (\<lambda>e. int n * weight e - int (c e) * ?W) U"
    using assms by (auto simp: account_def)
  then have "sum_list (map (\<lambda>e. at_key cur (ident e)) U) = int n * ?W - int n * ?W"
    using assms by (simp only: sum_list_linear sum_list_int) (simp add: account_def weight_sum_def)
  then show ?thesis by simp
qed

lemma sum_list_member_le:
  "(\<forall>x\<in>set xs. 0 \<le> f x) \<Longrightarrow> e \<in> set xs \<Longrightarrow> f e \<le> (sum_list (map f xs) :: int)"
proof (induction xs)
  case (Cons a xs)
  have "0 \<le> sum_list (map f xs)" using Cons.prems(1) by (intro sum_list_nonneg) auto
  with Cons show ?case by auto
qed simp

lemma account_upper:
  assumes ac: "account ident weight U n c cur" and e: "e \<in> set U"
  shows "at_key cur (ident e) + weight_sum weight U \<le> int (length U) * weight_sum weight U"
proof -
  let ?W = "weight_sum weight U"
  have "at_key cur (ident e) + ?W \<le> sum_list (map (\<lambda>e. at_key cur (ident e) + ?W) U)"
    using ac e by (intro sum_list_member_le) (force simp: account_def)+
  also have "\<dots> = sum_list (map (\<lambda>e. at_key cur (ident e)) U) + int (length U) * ?W"
    by (simp add: sum_list_addf sum_list_triv)
  finally show ?thesis using account_sum_zero [OF ac] by simp
qed

lemma sum_pos_member: "0 < (sum_list (map f xs) :: int) \<Longrightarrow> \<exists>x\<in>set xs. 0 < f x"
  by (induction xs) (auto, force)

lemma weight_le_sum: "\<forall>x\<in>set U. 0 < weight x \<Longrightarrow> e \<in> set U \<Longrightarrow> weight e \<le> weight_sum weight U"
  unfolding weight_sum_def by (rule sum_list_member_le) auto

lemma account_step:
  assumes ac: "account ident weight U n c cur" and U: "U = usable weight ok es" "U \<noteq> []" "distinct (map ident U)"
    and cap: "2 * int (length U) * weight_sum weight U \<le> MaxInt64"
  shows "\<exists>e cur'. pick_smooth ident weight ok es cur = (Some e, cur') \<and> e \<in> set U \<and>
     account ident weight U (Suc n) (c(e := Suc (c e))) cur'"
proof -
  let ?W = "weight_sum weight U"
  have pos: "\<forall>x\<in>set U. 0 < weight x" by (auto simp: U(1) usable_def)
  have "hd U \<in> set U" using U(2) by simp
  with pos weight_le_sum [OF pos, of "hd U"] have W: "0 < ?W" by force
  have len: "1 \<le> int (length U)" using U(2) by (cases U) auto
  have lW: "?W \<le> int (length U) * ?W" using len W by (simp add: mult_le_cancel_right1)
  have up: "at_key cur (ident e) + weight e \<le> MaxInt64" "MinInt64 \<le> at_key cur (ident e)"
    "MinInt64 \<le> at_key cur (ident e) + weight e - ?W" if e: "e \<in> set U" for e
  proof -
    have "weight e \<le> ?W" "0 < weight e" using weight_le_sum [OF pos e] pos e by auto
    moreover have "at_key cur (ident e) + ?W \<le> int (length U) * ?W" using account_upper [OF ac e] .
    moreover have "- ?W < at_key cur (ident e)" by (rule account_at(2) [OF ac e])
    moreover have "2 * (int (length U) * ?W) \<le> MaxInt64" using cap by (simp add: mult.assoc)
    moreover have "MinInt64 = - MaxInt64 - 1" by (simp add: MinInt64_def MaxInt64_def)
    ultimately show "at_key cur (ident e) + weight e \<le> MaxInt64" "MinInt64 \<le> at_key cur (ident e)"
      "MinInt64 \<le> at_key cur (ident e) + weight e - ?W" using lW W by linarith+
  qed
  have "2 * (int (length U) * ?W) \<le> MaxInt64" using cap by (simp only: mult.assoc)
  then have "?W \<le> MaxInt64" using lW W by linarith
  then obtain e cur' where p: "pick_smooth ident weight ok es cur = (Some e, cur')" "e \<in> set U"
     "\<forall>x\<in>set U. at_key cur (ident x) + weight x \<le> at_key cur (ident e) + weight e"
     "\<forall>x\<in>set U. at_key cur' (ident x) = at_key cur (ident x) + weight x - (if ident x = ident e then ?W else 0)"
    using pick_smooth_spec [of ident weight ok es cur] U up unfolding U(1) [symmetric] by blast
  have inj: "x = e" if "x \<in> set U" "ident x = ident e" for x
    using U(3) p(2) that by (simp add: distinct_map inj_on_def)
  have "sum_list (map (\<lambda>e. at_key cur (ident e) + weight e) U) = ?W"
    using account_sum_zero [OF ac] by (simp add: sum_list_addf weight_sum_def)
  then obtain x where "x \<in> set U" "0 < at_key cur (ident x) + weight x"
    using W sum_pos_member [of "\<lambda>e. at_key cur (ident e) + weight e" U] by auto
  then have e0: "0 < at_key cur (ident e) + weight e" using p(3) by (meson less_le_trans)
  have "at_key cur' (ident x) = int (Suc n) * weight x - int ((c(e := Suc (c e))) x) * ?W \<and> - ?W < at_key cur' (ident x)"
    if x: "x \<in> set U" for x
  proof (cases "x = e")
    case True
    have "at_key cur' (ident e) = at_key cur (ident e) + weight e - ?W" using bspec [OF p(4) p(2)] by simp
    with True account_at(1) [OF ac x] e0 show ?thesis by (simp add: algebra_simps)
  next
    case False
    then have "ident x \<noteq> ident e" using inj x by blast
    moreover have "0 < weight x" using pos x by blast
    ultimately show ?thesis using False bspec [OF p(4) x] account_at [OF ac x] by (simp add: algebra_simps)
  qed
  moreover have "sum_list (map (c(e := Suc (c e))) U) = Suc n"
  proof -
    have "sum_list (map (c(e := Suc (c e))) V) = sum_list (map c V) + (if e \<in> set V then 1 else 0)" if "distinct V" for V
      using that by (induction V) auto
    moreover have "distinct U" using U(3) by (simp add: distinct_map)
    ultimately show ?thesis using p(2) ac by (simp add: account_def)
  qed
  ultimately have "account ident weight U (Suc n) (c(e := Suc (c e))) cur'" unfolding account_def by blast
  with p(1,2) show ?thesis by blast
qed

lemma run_account:
  assumes "account ident weight U n c cur" and "U = usable weight ok es" "U \<noteq> []" "distinct (map ident U)"
    and "2 * int (length U) * weight_sum weight U \<le> MaxInt64"
  shows "\<exists>ps cur'. smooth_run ident weight ok es k cur = (map Some ps, cur') \<and> length ps = k \<and> set ps \<subseteq> set U \<and>
     account ident weight U (n + k) (\<lambda>e. c e + count_list ps e) cur'"
  using assms(1)
proof (induction k arbitrary: n c cur)
  case (Suc k)
  obtain e cur1 where e: "pick_smooth ident weight ok es cur = (Some e, cur1)" "e \<in> set U"
     "account ident weight U (Suc n) (c(e := Suc (c e))) cur1"
    using account_step [OF Suc.prems assms(2-5)] by blast
  from Suc.IH [OF e(3)] obtain ps cur' where ps: "smooth_run ident weight ok es k cur1 = (map Some ps, cur')"
     "length ps = k" "set ps \<subseteq> set U" "account ident weight U (Suc n + k) (\<lambda>x. (c(e := Suc (c e))) x + count_list ps x) cur'"
    by blast
  have "(\<lambda>x. (c(e := Suc (c e))) x + count_list ps x) = (\<lambda>x. c x + count_list (e # ps) x)" by auto
  with ps e show ?case by (intro exI [of _ "e # ps"] exI [of _ cur']) simp
qed simp

lemma account_start:
  assumes "U \<noteq> []" and "\<forall>e\<in>set U. 0 < weight e" and "\<forall>e\<in>set U. at_key cur (ident e) = 0"
  shows "account ident weight U 0 (\<lambda>_. 0) cur"
proof -
  have "hd U \<in> set U" using assms(1) by simp
  then have "0 < weight_sum weight U" using weight_le_sum [OF assms(2), of "hd U"] assms(2) by force
  moreover have "sum_list (map (\<lambda>_. 0::nat) U) = 0" by (induction U) auto
  ultimately show ?thesis using assms by (simp add: account_def)
qed

text \<open>Never more than one selection ahead of its share; so after a full cycle everyone is even.\<close>

lemma account_cycle:
  assumes ac: "account ident weight U n c cur" and n: "int n = weight_sum weight U" and U: "U \<noteq> []"
    and pos: "\<forall>e\<in>set U. 0 < weight e" and e: "e \<in> set U"
  shows "int (c e) = weight e"
proof -
  let ?W = "weight_sum weight U"
  have W: "0 < ?W" using weight_le_sum [OF pos e] pos e by force
  have le: "0 \<le> weight x - int (c x)" if x: "x \<in> set U" for x
  proof -
    have "int n * weight x - int (c x) * ?W > - ?W" using account_at [OF ac x] by linarith
    then have "(weight x - int (c x) + 1) * ?W > 0" using n by (simp add: algebra_simps)
    then have "weight x - int (c x) + 1 > 0" using W by (simp add: zero_less_mult_iff)
    then show ?thesis by simp
  qed
  have "sum_list (map (\<lambda>x. weight x - int (c x)) U) = ?W - int n"
    using ac by (simp add: sum_list_subtractf weight_sum_def sum_list_int account_def)
  then have "sum_list (map (\<lambda>x. weight x - int (c x)) U) = 0" using n by simp
  moreover have "weight e - int (c e) \<le> sum_list (map (\<lambda>x. weight x - int (c x)) U)"
    using le e by (intro sum_list_member_le) auto
  ultimately show ?thesis using le [OF e] by simp
qed

text \<open>C18: Smooth weighted round-robin is exactly proportional. Whatever set of candidates with positive
  weights a request may use, as long as twice their number times the total weight fits into 64
  bits: starting without credits, every prefix of selections gives no candidate as much as one
  selection more than its share, and after as many selections as the total weight every candidate
  was selected exactly as often as its weight says, with all credits back at zero.\<close>

theorem weighted_cycle_exact:
  assumes "usable weight ok es \<noteq> []" and "distinct (map ident (usable weight ok es))"
    and "2 * int (length (usable weight ok es)) * weight_sum weight (usable weight ok es) \<le> MaxInt64"
    and "\<forall>e\<in>set (usable weight ok es). at_key cur (ident e) = 0"
    and "e \<in> set (usable weight ok es)"
  shows "int (count_list (fst (smooth_run ident weight ok es k cur)) (Some e)) * weight_sum weight (usable weight ok es)
       < int k * weight e + weight_sum weight (usable weight ok es) \<and>
     (int k = weight_sum weight (usable weight ok es) \<longrightarrow>
        int (count_list (fst (smooth_run ident weight ok es k cur)) (Some e)) = weight e \<and>
        at_key (snd (smooth_run ident weight ok es k cur)) (ident e) = 0)"
proof -
  let ?U = "usable weight ok es"
  have pos: "\<forall>e\<in>set ?U. 0 < weight e" by (auto simp: usable_def)
  obtain ps cur' where r: "smooth_run ident weight ok es k cur = (map Some ps, cur')"
    and ac: "account ident weight ?U k (count_list ps) cur'"
    using run_account [OF account_start [OF assms(1) pos assms(4)] refl assms(1-3), of k] by auto
  have cnt: "count_list (map Some ps) (Some e) = count_list ps e" by (induction ps) auto
  have "int (count_list ps e) = weight e" if "int k = weight_sum weight ?U"
    using account_cycle [OF ac that assms(1) pos assms(5)] .
  moreover have "at_key cur' (ident e) = int k * weight e - int (count_list ps e) * weight_sum weight ?U"
    "- weight_sum weight ?U < at_key cur' (ident e)" using account_at [OF ac assms(5)] by simp_all
  ultimately show ?thesis by (simp add: r cnt)
qed

theorem weighted_cycle_exact_witness:
  "count_list (fst (smooth_run fst snd (\<lambda>_. True) [(''a'', 2), (''b'', 1), (''z'', 0)] 3 [])) (Some (''a'', 2)) = 2"
proof -
  let ?es = "[(''a'', 2), (''b'', 1), (''z'', 0)] :: (string \<times> int) list"
  have u: "usable snd (\<lambda>_. True) ?es = [(''a'', 2), (''b'', 1)]" by simp
  from weighted_cycle_exact [of snd "\<lambda>_. True" ?es fst "[]" "(''a'', 2)" 3] show ?thesis
    unfolding u by (simp add: MaxInt64_def at_key_def)
qed

end
