(* ===== verification/AuthState.thy ===== *)
theory AuthState
  imports GoBase Complex_Main
begin

text \<open>
  What the credential scheduler reads of a credential: the record \<open>Auth\<close>
  (\<open>src/sdk/cliproxy/auth/types.go\<close>), its provider key, priority, weight and websocket flag
  (\<open>selector.go\<close>, \<open>conductor_execution.go\<close>, \<open>weight.go\<close>, \<open>src/internal/credentialweight\<close>), the
  name of a model without its thinking suffix (\<open>src/internal/thinking/suffix.go\<close>), and whether
  the credential is blocked for a model at a time (\<open>isAuthBlockedForModel\<close> in \<open>selector.go\<close>).

  Two parts of a credential are kept abstract: the expiry of the access token
  (\<open>AccessTokenExpirationTime\<close>, which decodes a JWT) is the field \<open>au_tokenExpiry\<close> that holds its
  answer, and everything the scheduler never reads is the field \<open>au_rest\<close> of a type parameter.
\<close>

section \<open>Numbers and truth values in strings\<close>

text \<open>\<open>strconv.ParseInt(s, 10, 64)\<close>, \<open>strconv.FormatInt(n, 10)\<close> and \<open>strconv.ParseBool\<close>.\<close>

definition ParseInt :: "string \<Rightarrow> int option" where
  "ParseInt s =
     (let (neg, ds) = (case s of [] \<Rightarrow> (False, [])
                         | c # cs \<Rightarrow> if c = CHR ''-'' then (True, cs) else if c = CHR ''+'' then (False, cs) else (False, s));
          n = (if neg then - int (read_nat ds) else int (read_nat ds))
      in if ds = [] \<or> \<not> list_all is_digit ds \<or> n < - (2 ^ 63) \<or> n \<ge> 2 ^ 63 then None else Some n)"

definition FormatInt :: "int \<Rightarrow> string" where
  "FormatInt n = (if n < 0 then CHR ''-'' # itoa (nat (- n)) else itoa (nat n))"

definition ParseBool :: "string \<Rightarrow> bool option" where
  "ParseBool s =
     (if s \<in> set [''1'', ''t'', ''T'', ''true'', ''TRUE'', ''True''] then Some True
      else if s \<in> set [''0'', ''f'', ''F'', ''false'', ''FALSE'', ''False''] then Some False else None)"

text \<open>The values of type \<open>any\<close> in the metadata of a credential, by the cases the sources
  distinguish: signed and unsigned integers of every width, floating-point numbers, \<open>json.Number\<close>,
  strings, truth values, nil, and anything else.\<close>

datatype go_float = FNaN | FInf | FNum rat

datatype go_value = VInt int | VUint nat | VFloat go_float | VNumber string | VString string | VBool bool | VNil | VOther

section \<open>Credentials\<close>

record Error =
  er_Code :: string
  er_Message :: string
  er_Retryable :: bool
  er_HTTPStatus :: int

record QuotaState =
  qs_Exceeded :: bool
  qs_Reason :: string
  qs_NextRecoverAt :: gtime

record ModelState =
  mo_Status :: string
  mo_StatusMessage :: string
  mo_Unavailable :: bool
  mo_NextRetryAfter :: gtime
  mo_LastError :: "Error option"
  mo_Quota :: QuotaState
  mo_UpdatedAt :: gtime

record 'x Auth =
  au_ID :: string
  au_RegistrationEpoch :: nat
  au_Generation :: nat
  au_Provider :: string
  au_Label :: string
  au_Status :: string
  au_StatusMessage :: string
  au_Disabled :: bool
  au_Unavailable :: bool
  au_Attributes :: "(string \<times> string) list"
  au_Metadata :: "(string \<times> go_value) list"
  au_Quota :: QuotaState
  au_LastError :: "Error option"
  au_UpdatedAt :: gtime
  au_NextRefreshAfter :: gtime
  au_NextRetryAfter :: gtime
  au_ModelStates :: "(string \<times> ModelState option) list"
  au_tokenExpiry :: "gtime option"
  au_rest :: 'x

abbreviation StatusDisabled :: string where "StatusDisabled \<equiv> ''disabled''"
abbreviation StatusError :: string where "StatusError \<equiv> ''error''"

text \<open>Reading a key of a map of strings: the empty string when it is absent.\<close>

definition attr :: "(string \<times> string) list \<Rightarrow> string \<Rightarrow> string" where
  "attr m k = (case map_of m k of None \<Rightarrow> [] | Some v \<Rightarrow> v)"

section \<open>Weights\<close>

definition weight_Max :: int where
  "weight_Max = 1000000"

definition weight_Default :: int where
  "weight_Default = 1"

definition Normalize :: "int \<Rightarrow> int option" where
  "Normalize w = (if w \<le> 0 then Some 0 else if w > weight_Max then None else Some w)"

definition ParseString :: "string \<Rightarrow> int option" where
  "ParseString raw =
     (let raw = TrimSpace raw
      in if raw = [] then Some weight_Default
         else case ParseInt raw of None \<Rightarrow> None | Some w \<Rightarrow> Normalize w)"

fun ParseValue :: "go_value \<Rightarrow> int option" where
  "ParseValue (VInt n) = Normalize n"
| "ParseValue (VUint n) = (if int n > weight_Max then None else Some (int n))"
| "ParseValue (VFloat FNaN) = None"
| "ParseValue (VFloat FInf) = None"
| "ParseValue (VFloat (FNum q)) =
     (if of_int \<lfloor>q\<rfloor> \<noteq> q then None
      else if q \<le> 0 then Some 0
      else if q > of_int weight_Max then None
      else Some \<lfloor>q\<rfloor>)"
| "ParseValue (VNumber s) = (case ParseInt s of None \<Rightarrow> None | Some w \<Rightarrow> Normalize w)"
| "ParseValue (VString s) = ParseString s"
| "ParseValue (VBool _) = None"
| "ParseValue VNil = None"
| "ParseValue VOther = None"

definition authWeight :: "'x Auth \<Rightarrow> int" where
  "authWeight a =
     (case map_of (au_Attributes a) ''weight'' of
        Some raw \<Rightarrow>
          if TrimSpace raw \<noteq> [] then (case ParseString raw of None \<Rightarrow> 0 | Some w \<Rightarrow> w)
          else (case map_of (au_Metadata a) ''weight'' of
                  Some v \<Rightarrow> (case ParseValue v of None \<Rightarrow> 0 | Some w \<Rightarrow> w)
                | None \<Rightarrow> weight_Default)
      | None \<Rightarrow>
          (case map_of (au_Metadata a) ''weight'' of
             Some v \<Rightarrow> (case ParseValue v of None \<Rightarrow> 0 | Some w \<Rightarrow> w)
           | None \<Rightarrow> weight_Default))"

definition ValidateAuthWeight :: "'x Auth \<Rightarrow> bool" where
  "ValidateAuthWeight a \<longleftrightarrow>
     (case map_of (au_Attributes a) ''weight'' of None \<Rightarrow> True | Some raw \<Rightarrow> ParseString raw \<noteq> None) \<and>
     (case map_of (au_Metadata a) ''weight'' of None \<Rightarrow> True | Some v \<Rightarrow> ParseValue v \<noteq> None)"

text \<open>The answer is \<^const>\<open>None\<close> where the source returns an error.\<close>

definition ApplyAuthWeightMetadata :: "'x Auth \<Rightarrow> (string \<times> go_value) list \<Rightarrow> 'x Auth option" where
  "ApplyAuthWeightMetadata a metadata =
     (if \<not> ValidateAuthWeight a then None
      else case map_of metadata ''weight'' of
          None \<Rightarrow> Some a
        | Some raw \<Rightarrow>
            (case ParseValue raw of
               None \<Rightarrow> None
             | Some w \<Rightarrow> Some (a\<lparr>au_Attributes := AList.update ''weight'' (FormatInt w) (au_Attributes a)\<rparr>)))"

section \<open>Priority, transport, provider\<close>

definition authPriority :: "'x Auth \<Rightarrow> int" where
  "authPriority a =
     (let raw = TrimSpace (attr (au_Attributes a) ''priority'')
      in if raw = [] then 0 else case ParseInt raw of None \<Rightarrow> 0 | Some n \<Rightarrow> n)"

definition metadata_websockets :: "(string \<times> go_value) list \<Rightarrow> bool" where
  "metadata_websockets m =
     (case map_of m ''websockets'' of
        Some (VBool b) \<Rightarrow> b
      | Some (VString s) \<Rightarrow> (case ParseBool (TrimSpace s) of Some b \<Rightarrow> b | None \<Rightarrow> False)
      | _ \<Rightarrow> False)"

definition authWebsocketsEnabled :: "'x Auth \<Rightarrow> bool" where
  "authWebsocketsEnabled a =
     (let raw = TrimSpace (attr (au_Attributes a) ''websockets'')
      in if raw = [] then metadata_websockets (au_Metadata a)
         else case ParseBool raw of Some b \<Rightarrow> b | None \<Rightarrow> metadata_websockets (au_Metadata a))"

definition OpenAICompatibleProviderKey :: "string \<Rightarrow> string" where
  "OpenAICompatibleProviderKey name =
     (let name = ToLower (TrimSpace name)
      in if name = [] then ''openai-compatibility''
         else if name = ''openai-compatibility'' \<or> HasPrefix name ''openai-compatible-'' then name
         else ''openai-compatible-'' @ name)"

definition canonicalSchedulingProvider :: "string \<Rightarrow> string" where
  "canonicalSchedulingProvider key =
     (let lower = ToLower (TrimSpace key)
      in if lower = ''kimi.com'' then ''kimi'' else if lower = ''kimi.ai'' then ''kimi-ai'' else lower)"

definition executorKeyFromAuth :: "'x Auth \<Rightarrow> string" where
  "executorKeyFromAuth a =
     (let providerKey = TrimSpace (attr (au_Attributes a) ''provider_key'');
          compatName = TrimSpace (attr (au_Attributes a) ''compat_name'')
      in if compatName \<noteq> [] then OpenAICompatibleProviderKey (if providerKey = [] then compatName else providerKey)
         else if EqualFold (TrimSpace (au_Provider a)) ''openai-compatibility''
         then (let providerKey = TrimSpace (au_Label a)
               in OpenAICompatibleProviderKey (if providerKey = [] then ''openai-compatibility'' else providerKey))
         else let provider = ToLower (TrimSpace (au_Provider a))
              in if provider = ''kimi.com'' then ''kimi'' else if provider = ''kimi.ai'' then ''kimi-ai'' else provider)"

section \<open>Model names\<close>

record SuffixResult =
  sr_ModelName :: string
  sr_HasSuffix :: bool
  sr_RawSuffix :: string

text \<open>\<open>strings.LastIndex\<close> for a single character.\<close>

definition LastIndex :: "string \<Rightarrow> char \<Rightarrow> nat option" where
  "LastIndex s c = (if c \<in> set s then Some (length s - 1 - length (takeWhile (\<lambda>x. x \<noteq> c) (rev s))) else None)"

definition ParseSuffix :: "string \<Rightarrow> SuffixResult" where
  "ParseSuffix model =
     (case LastIndex model (CHR ''('') of
        None \<Rightarrow> \<lparr>sr_ModelName = model, sr_HasSuffix = False, sr_RawSuffix = []\<rparr>
      | Some lastOpen \<Rightarrow>
          if \<not> HasSuffix model '')'' then \<lparr>sr_ModelName = model, sr_HasSuffix = False, sr_RawSuffix = []\<rparr>
          else \<lparr>sr_ModelName = take lastOpen model, sr_HasSuffix = True,
                sr_RawSuffix = take (length model - 1 - (lastOpen + 1)) (drop (lastOpen + 1) model)\<rparr>)"

definition canonicalModelKey :: "string \<Rightarrow> string" where
  "canonicalModelKey model =
     (let model = TrimSpace model
      in if model = [] then []
         else let modelName = TrimSpace (sr_ModelName (ParseSuffix model))
              in if modelName = [] then model else modelName)"

definition modelStateMatchesRoute :: "string \<Rightarrow> string \<Rightarrow> string \<Rightarrow> bool" where
  "modelStateMatchesRoute provider stateModel routeModel =
     (let stateModel = TrimSpace stateModel; routeModel = TrimSpace routeModel
      in if stateModel = [] \<or> routeModel = [] then False
         else if \<not> EqualFold (TrimSpace provider) ''codex''
         then canonicalModelKey stateModel = canonicalModelKey routeModel
         else let stateBase = canonicalModelKey stateModel
              in if \<not> EqualFold stateModel stateBase then EqualFold stateModel routeModel
                 else EqualFold stateBase (canonicalModelKey routeModel))"

section \<open>Blocked credentials\<close>

datatype blockReason = blockReasonNone | blockReasonCooldown | blockReasonDisabled | blockReasonOther

type_synonym verdict = "bool \<times> blockReason \<times> gtime"

definition hasUnauthorizedAuthFailure :: "'x Auth \<Rightarrow> bool" where
  "hasUnauthorizedAuthFailure a =
     (case au_LastError a of
        None \<Rightarrow> False
      | Some e \<Rightarrow>
          au_Unavailable a \<and> au_Status a = StatusError \<and> au_NextRefreshAfter a = 0 \<and> au_NextRetryAfter a = 0 \<and>
          (er_HTTPStatus e = 401 \<or> EqualFold (er_Code e) ''unauthorized''))"

definition token_expired :: "'x Auth \<Rightarrow> gtime \<Rightarrow> bool" where
  "token_expired a now = (case au_tokenExpiry a of None \<Rightarrow> False | Some expiry \<Rightarrow> expiry \<noteq> 0 \<and> \<not> expiry > now)"

definition next_after :: "gtime \<Rightarrow> gtime list \<Rightarrow> gtime" where
  "next_after now candidates =
     fold (\<lambda>candidate n. if candidate > now \<and> (n = 0 \<or> candidate > n) then candidate else n) candidates 0"

definition availabilityBlock :: "bool \<Rightarrow> bool \<Rightarrow> gtime \<Rightarrow> gtime \<Rightarrow> gtime \<Rightarrow> verdict" where
  "availabilityBlock unavailable quotaExceeded nextRetryAfter nextRecoverAt now =
     (if \<not> unavailable \<and> \<not> quotaExceeded then (False, blockReasonNone, 0)
      else let hasRecoveryTime = (nextRetryAfter \<noteq> 0 \<or> nextRecoverAt \<noteq> 0);
               n = next_after now [nextRetryAfter, nextRecoverAt]
           in if n \<noteq> 0 then (True, if quotaExceeded then blockReasonCooldown else blockReasonOther, n)
              else if hasRecoveryTime then (False, blockReasonNone, 0)
              else (True, blockReasonOther, 0))"

definition state_block :: "ModelState \<Rightarrow> gtime \<Rightarrow> verdict" where
  "state_block st now = availabilityBlock (mo_Unavailable st) (qs_Exceeded (mo_Quota st)) (mo_NextRetryAfter st)
     (qs_NextRecoverAt (mo_Quota st)) now"

text \<open>The loop over \<open>auth.ModelStates\<close> with the locals \<open>matched\<close>, \<open>blocked\<close>, \<open>blockedReason\<close> and \<open>nextRetry\<close>.\<close>

fun block_loop :: "string \<Rightarrow> string \<Rightarrow> gtime \<Rightarrow> (string \<times> ModelState option) list \<Rightarrow> bool \<Rightarrow> verdict \<Rightarrow> verdict" where
  "block_loop provider model now [] matched v = (if matched then v else (False, blockReasonNone, 0))"
| "block_loop provider model now ((stateModel, None) # sts) matched v = block_loop provider model now sts matched v"
| "block_loop provider model now ((stateModel, Some st) # sts) matched (blocked, blockedReason, nextRetry) =
     (if \<not> modelStateMatchesRoute provider stateModel model
      then block_loop provider model now sts matched (blocked, blockedReason, nextRetry)
      else if mo_Status st = StatusDisabled then (True, blockReasonDisabled, 0)
      else case state_block st now of (stateBlocked, reason, n) \<Rightarrow>
        if \<not> stateBlocked then block_loop provider model now sts True (blocked, blockedReason, nextRetry)
        else if n = 0 then (True, reason, 0)
        else if \<not> blocked \<or> n > nextRetry \<or> (n = nextRetry \<and> reason = blockReasonCooldown)
        then block_loop provider model now sts True (True, reason, n)
        else block_loop provider model now sts True (blocked, blockedReason, nextRetry))"

definition isAuthBlockedForModel :: "'x Auth \<Rightarrow> string \<Rightarrow> gtime \<Rightarrow> verdict" where
  "isAuthBlockedForModel a model now =
     (if au_Disabled a \<or> au_Status a = StatusDisabled then (True, blockReasonDisabled, 0)
      else if hasUnauthorizedAuthFailure a then (True, blockReasonOther, 0)
      else if token_expired a now then (True, blockReasonOther, 0)
      else if qs_Exceeded (au_Quota a) \<and> qs_Reason (au_Quota a) = ''credential_quota'' \<and> qs_NextRecoverAt (au_Quota a) > now
      then (True, blockReasonCooldown, qs_NextRecoverAt (au_Quota a))
      else if model \<noteq> []
      then (if au_ModelStates a \<noteq> []
            then block_loop (au_Provider a) model now (au_ModelStates a) False (False, blockReasonNone, 0)
            else availabilityBlock (au_Unavailable a) (qs_Exceeded (au_Quota a)) (au_NextRetryAfter a)
                   (qs_NextRecoverAt (au_Quota a)) now)
      else availabilityBlock (au_Unavailable a)
             (if au_ModelStates a \<noteq> [] \<and> qs_Reason (au_Quota a) \<noteq> ''credential_quota'' \<and> \<not> au_Unavailable a then False
              else qs_Exceeded (au_Quota a))
             (au_NextRetryAfter a) (qs_NextRecoverAt (au_Quota a)) now)"

definition isCredentialBlocked :: "'x Auth \<Rightarrow> nat \<Rightarrow> gtime \<Rightarrow> bool" where
  "isCredentialBlocked a supportedModelCount now =
     (if au_Disabled a \<or> au_Status a = StatusDisabled then True
      else if hasUnauthorizedAuthFailure a then True
      else if token_expired a now then True
      else if qs_Exceeded (au_Quota a) \<and> qs_Reason (au_Quota a) = ''credential_quota'' \<and> qs_NextRecoverAt (au_Quota a) > now then True
      else if au_ModelStates a = []
      then au_Unavailable a \<or> qs_Exceeded (au_Quota a) \<or> (au_NextRetryAfter a \<noteq> 0 \<and> au_NextRetryAfter a > now)
      else if supportedModelCount > 0 \<and> length (au_ModelStates a) < supportedModelCount then False
      else au_Unavailable a)"

section \<open>Weights stay small\<close>

lemma normalize_range: "Normalize w = Some n \<Longrightarrow> 0 \<le> n \<and> n \<le> weight_Max"
  by (auto simp: Normalize_def weight_Max_def split: if_splits)

lemma parse_string_range: "ParseString s = Some n \<Longrightarrow> 0 \<le> n \<and> n \<le> weight_Max"
  using normalize_range by (auto simp: ParseString_def Let_def weight_Default_def weight_Max_def split: if_splits option.splits)

lemma parse_value_range: "ParseValue v = Some n \<Longrightarrow> 0 \<le> n \<and> n \<le> weight_Max"
proof (induction v rule: ParseValue.induct)
  case (5 q)
  then have "of_int n = q" "0 \<le> q" "q \<le> of_int weight_Max" if "q > 0"
    using that by (auto split: if_splits)
  with 5 show ?case by (cases "q > 0") (auto simp: weight_Max_def split: if_splits)
qed (auto simp: weight_Max_def parse_string_range [unfolded weight_Max_def] normalize_range [unfolded weight_Max_def]
  split: if_splits option.splits)

lemma auth_weight_range: "0 \<le> authWeight a \<and> authWeight a \<le> weight_Max"
  using parse_string_range parse_value_range
  by (auto simp: authWeight_def weight_Default_def weight_Max_def split: option.splits)

text \<open>Printing a number and parsing it again.\<close>

lemma digits_not_sign: "is_digit c \<Longrightarrow> c \<noteq> CHR ''-'' \<and> c \<noteq> CHR ''+'' \<and> \<not> is_space c"
  by (auto simp: is_digit_def is_space_def Let_def)

lemma parse_format: "0 \<le> n \<Longrightarrow> n < 2 ^ 63 \<Longrightarrow> ParseInt (FormatInt n) = Some n"
proof -
  assume n: "0 \<le> n" "n < 2 ^ 63"
  obtain c cs where i: "itoa (nat n) = c # cs" using itoa_nonempty by (cases "itoa (nat n)") auto
  then have "is_digit c" and d: "list_all is_digit (c # cs)" using itoa_digits [of "nat n"] by auto
  moreover have "read_nat (c # cs) = nat n" using read_nat_itoa [of "nat n"] i by simp
  ultimately show ?thesis using n i digits_not_sign [of c] by (simp add: ParseInt_def FormatInt_def)
qed

lemma trim_digits: "list_all is_digit s \<Longrightarrow> TrimSpace s = s"
proof -
  assume d: "list_all is_digit s"
  have keep: "dropWhile is_space xs = xs" if "list_all is_digit xs" for xs
    using that by (cases xs) (auto dest: digits_not_sign)
  then show ?thesis using d by (simp add: TrimSpace_def list_all_rev)
qed

lemma parse_string_format: "0 \<le> n \<Longrightarrow> n \<le> weight_Max \<Longrightarrow> ParseString (FormatInt n) = Some n"
  using parse_format [of n] itoa_nonempty [of "nat n"] trim_digits [OF itoa_digits, of "nat n"]
  by (auto simp: ParseString_def Let_def weight_Max_def Normalize_def FormatInt_def)

text \<open>A weight from the metadata of an auth file survives being written into the attributes: when
  \<open>ApplyAuthWeightMetadata\<close> accepts the file, the scheduler reads exactly the parsed weight back from
  the credential, and whatever it reads lies between 0 and one million, so that sums of weights stay
  far from the 64-bit bound.\<close>

theorem weight_metadata_roundtrip:
  assumes "ApplyAuthWeightMetadata a metadata = Some b" and "map_of metadata ''weight'' = Some raw"
  shows "ParseValue raw = Some (authWeight b) \<and> 0 \<le> authWeight b \<and> authWeight b \<le> weight_Max"
proof -
  from assms obtain w where w: "ParseValue raw = Some w"
      and b: "b = a\<lparr>au_Attributes := AList.update ''weight'' (FormatInt w) (au_Attributes a)\<rparr>"
    by (auto simp: ApplyAuthWeightMetadata_def split: if_splits option.splits)
  have "0 \<le> w" "w \<le> weight_Max" using parse_value_range [OF w] by auto
  then have f: "ParseString (FormatInt w) = Some w" by (rule parse_string_format)
  have "TrimSpace (FormatInt w) \<noteq> []"
    using \<open>0 \<le> w\<close> trim_digits [OF itoa_digits, of "nat w"] itoa_nonempty by (simp add: FormatInt_def)
  then have "authWeight b = w" using f by (simp add: b authWeight_def update_conv')
  with w auth_weight_range [of b] show ?thesis by simp
qed

text \<open>A credential to try the definitions on.\<close>

definition plain_auth :: "string \<Rightarrow> unit Auth" where
  "plain_auth i = \<lparr>au_ID = i, au_RegistrationEpoch = 1, au_Generation = 1, au_Provider = ''Gemini'', au_Label = [],
     au_Status = ''active'', au_StatusMessage = [], au_Disabled = False, au_Unavailable = False, au_Attributes = [],
     au_Metadata = [], au_Quota = \<lparr>qs_Exceeded = False, qs_Reason = [], qs_NextRecoverAt = 0\<rparr>, au_LastError = None,
     au_UpdatedAt = 0, au_NextRefreshAfter = 0, au_NextRetryAfter = 0, au_ModelStates = [], au_tokenExpiry = None, au_rest = ()\<rparr>"

lemma weight_metadata_roundtrip_witness:
  "\<exists>b. ApplyAuthWeightMetadata (plain_auth ''a'') [(''weight'', VFloat (FNum 5))] = Some b \<and>
     ParseValue (VFloat (FNum 5)) = Some (authWeight b) \<and> authWeight b = 5"
proof -
  let ?m = "[(''weight'', VFloat (FNum 5))]"
  have p: "ParseValue (VFloat (FNum 5)) = Some 5" by (simp add: weight_Max_def)
  obtain b where b: "ApplyAuthWeightMetadata (plain_auth ''a'') ?m = Some b"
    using p by (simp add: ApplyAuthWeightMetadata_def ValidateAuthWeight_def plain_auth_def)
  have "ParseValue (VFloat (FNum 5)) = Some (authWeight b)"
    using weight_metadata_roundtrip [OF b, of "VFloat (FNum 5)"] by simp
  with b p show ?thesis by simp
qed

section \<open>The verdict over the model states\<close>

text \<open>The states that count for the model, and those that decide at once.\<close>

fun relevant :: "string \<Rightarrow> string \<Rightarrow> (string \<times> ModelState option) list \<Rightarrow> ModelState list" where
  "relevant provider model [] = []"
| "relevant provider model ((k, None) # sts) = relevant provider model sts"
| "relevant provider model ((k, Some st) # sts) =
     (if modelStateMatchesRoute provider k model then st # relevant provider model sts else relevant provider model sts)"

definition decisive :: "gtime \<Rightarrow> ModelState \<Rightarrow> bool" where
  "decisive now st \<longleftrightarrow> mo_Status st = StatusDisabled \<or> (fst (state_block st now) \<and> snd (snd (state_block st now)) = 0)"

definition decision :: "ModelState \<Rightarrow> verdict" where
  "decision st = (True, if mo_Status st = StatusDisabled then blockReasonDisabled else blockReasonOther, 0)"

text \<open>The verdict that the remaining states have to come to: the latest retry time, and a cooldown
  when one of the latest is a cooldown.\<close>

definition latest :: "verdict set \<Rightarrow> verdict \<Rightarrow> bool" where
  "latest V v \<longleftrightarrow>
     (if \<exists>w\<in>V. fst w
      then v \<in> V \<and> fst v \<and> (\<forall>w\<in>V. fst w \<longrightarrow> snd (snd w) \<le> snd (snd v) \<and>
             (snd (snd w) = snd (snd v) \<and> fst (snd w) = blockReasonCooldown \<longrightarrow> fst (snd v) = blockReasonCooldown))
      else v = (False, blockReasonNone, 0))"

lemma availability_cases:
  "availabilityBlock u q retry recover now = (b, r, n) \<Longrightarrow> \<not> b \<and> r = blockReasonNone \<and> n = 0 \<or>
     b \<and> n = 0 \<and> r = blockReasonOther \<or> b \<and> n \<noteq> 0 \<and> r \<in> {blockReasonCooldown, blockReasonOther}"
  by (auto simp: availabilityBlock_def Let_def split: if_splits)

lemma state_block_cases:
  "state_block st now = (b, r, n) \<Longrightarrow> \<not> b \<and> r = blockReasonNone \<and> n = 0 \<or>
     b \<and> n = 0 \<and> r = blockReasonOther \<or> b \<and> n \<noteq> 0 \<and> r \<in> {blockReasonCooldown, blockReasonOther}"
  unfolding state_block_def by (rule availability_cases)

lemma latest_bound:
  assumes "latest V v" and "w \<in> V" and "fst w"
  shows "v \<in> V" "fst v" "snd (snd w) \<le> snd (snd v)"
    "snd (snd w) = snd (snd v) \<Longrightarrow> fst (snd w) = blockReasonCooldown \<Longrightarrow> fst (snd v) = blockReasonCooldown"
proof -
  have "\<exists>x\<in>V. fst x" using assms(2,3) by blast
  with assms(1) have l: "v \<in> V \<and> fst v \<and> (\<forall>w\<in>V. fst w \<longrightarrow> snd (snd w) \<le> snd (snd v) \<and>
      (snd (snd w) = snd (snd v) \<and> fst (snd w) = blockReasonCooldown \<longrightarrow> fst (snd v) = blockReasonCooldown))"
    by (simp add: latest_def)
  then show "v \<in> V" "fst v" by simp_all
  from l [THEN conjunct2, THEN conjunct2, rule_format, OF assms(2,3)]
  show "snd (snd w) \<le> snd (snd v)"
    "snd (snd w) = snd (snd v) \<Longrightarrow> fst (snd w) = blockReasonCooldown \<Longrightarrow> fst (snd v) = blockReasonCooldown" by simp_all
qed

lemma latest_unique:
  assumes v: "latest V v" and w: "latest V w"
    and reasons: "\<And>x. x \<in> V \<Longrightarrow> fst x \<Longrightarrow> fst (snd x) \<in> {blockReasonCooldown, blockReasonOther}"
  shows "v = w"
proof (cases "\<exists>x\<in>V. fst x")
  case True
  then obtain x where x: "x \<in> V" "fst x" by blast
  note v' = latest_bound(1,2) [OF v x] and w' = latest_bound(1,2) [OF w x]
  have "snd (snd v) = snd (snd w)" using latest_bound(3) [OF v w'] latest_bound(3) [OF w v'] by simp
  moreover from this have "fst (snd v) = blockReasonCooldown \<longleftrightarrow> fst (snd w) = blockReasonCooldown"
    using latest_bound(4) [OF v w'] latest_bound(4) [OF w v'] by argo
  moreover note reasons [OF v'] reasons [OF w']
  ultimately show ?thesis using v' w' by (auto simp: prod_eq_iff)
next
  case False
  with v w show ?thesis by (simp add: latest_def)
qed

lemma loop_decides:
  "find (decisive now) (relevant p m sts) = Some st \<Longrightarrow> block_loop p m now sts matched v = decision st"
proof (induction sts arbitrary: matched v)
  case (Cons x sts)
  obtain k o' where x: "x = (k, o')" by (cases x)
  show ?case
  proof (cases o')
    case None
    then show ?thesis using Cons x by simp
  next
    case (Some st')
    obtain b r n where v: "v = (b, r, n)" by (cases v)
    obtain b' r' n' where sb: "state_block st' now = (b', r', n')" by (metis prod_cases3)
    show ?thesis
    proof (cases "modelStateMatchesRoute p k m \<and> decisive now st'")
      case True
      then have "st = st'" using Cons.prems x Some by simp
      then show ?thesis using True x Some v sb state_block_cases [OF sb] by (auto simp: decisive_def decision_def)
    next
      case False
      then have "find (decisive now) (relevant p m sts) = Some st"
        using Cons.prems x Some by (simp split: if_splits)
      then have "block_loop p m now sts matched' v' = decision st" for matched' v' by (rule Cons.IH)
      then show ?thesis using False x Some v sb by (simp add: decisive_def)
    qed
  qed
qed simp

text \<open>The comparison of the loop, for a verdict that is to be merged into the current one.\<close>

definition beats :: "verdict \<Rightarrow> verdict \<Rightarrow> bool" where
  "beats w v \<longleftrightarrow> \<not> fst v \<or> snd (snd w) > snd (snd v) \<or> (snd (snd w) = snd (snd v) \<and> fst (snd w) = blockReasonCooldown)"

lemma latest_skip: "latest V v \<Longrightarrow> \<not> fst w \<Longrightarrow> latest (insert w V) v"
  by (auto simp: latest_def)

lemma latest_replace:
  assumes "latest V v" and "fst w" and "beats w v"
  shows "latest (insert w V) w"
proof -
  have "snd (snd x) \<le> snd (snd w) \<and> (snd (snd x) = snd (snd w) \<and> fst (snd x) = blockReasonCooldown \<longrightarrow> fst (snd w) = blockReasonCooldown)"
    if "x \<in> V" "fst x" for x
    using latest_bound(2,3,4) [OF assms(1) that] assms(3) unfolding beats_def by linarith
  then show ?thesis using assms(2) by (auto simp: latest_def)
qed

lemma latest_keep:
  assumes "latest V v" and "fst w" and "\<not> beats w v"
  shows "latest (insert w V) v"
proof -
  have "fst v" using assms(3) by (simp add: beats_def)
  then have "\<exists>x\<in>V. fst x" using assms(1) by (auto simp: latest_def split: if_splits)
  then obtain x where x: "x \<in> V" "fst x" by blast
  note v = latest_bound(1,2) [OF assms(1) x]
  have "snd (snd y) \<le> snd (snd v) \<and> (snd (snd y) = snd (snd v) \<and> fst (snd y) = blockReasonCooldown \<longrightarrow> fst (snd v) = blockReasonCooldown)"
    if "y \<in> insert w V" "fst y" for y
    using that latest_bound(3,4) [OF assms(1), of y] assms(3) by (auto simp: beats_def)
  then show ?thesis using v by (auto simp: latest_def)
qed

lemma loop_latest:
  assumes "find (decisive now) (relevant p m sts) = None" and "latest V v"
    and "\<not> matched \<Longrightarrow> v = (False, blockReasonNone, 0)"
  shows "latest (V \<union> (\<lambda>st. state_block st now) ` set (relevant p m sts)) (block_loop p m now sts matched v)"
  using assms
proof (induction sts arbitrary: V matched v)
  case (Cons x sts)
  obtain k o' where x: "x = (k, o')" by (cases x)
  show ?case
  proof (cases "case o' of None \<Rightarrow> True | Some st' \<Rightarrow> \<not> modelStateMatchesRoute p k m")
    case True
    obtain b r n where v: "v = (b, r, n)" by (cases v)
    show ?thesis using True Cons.prems Cons.IH [of V v matched] x v by (cases o') simp_all
  next
    case False
    then obtain st where st: "o' = Some st" and mt: "modelStateMatchesRoute p k m" by (cases o') auto
    let ?w = "state_block st now"
    have nd: "\<not> decisive now st" and rest: "find (decisive now) (relevant p m sts) = None"
      using Cons.prems(1) x st mt by (auto split: if_splits)
    obtain b r n where v: "v = (b, r, n)" by (cases v)
    obtain b' r' n' where w: "?w = (b', r', n')" by (metis prod_cases3)
    let ?v = "if b' \<and> beats ?w v then ?w else v"
    have step: "block_loop p m now (x # sts) matched v = block_loop p m now sts True ?v"
      using nd x st mt v w by (simp add: decisive_def beats_def)
    have "latest (insert ?w V) ?v"
      using latest_skip [OF Cons.prems(2), of ?w] latest_replace [OF Cons.prems(2), of ?w] latest_keep [OF Cons.prems(2), of ?w] w
      by (cases b') auto
    from Cons.IH [OF rest this, of True] show ?thesis using step x st mt by (simp add: insert_commute)
  qed
next
  case Nil
  then show ?case by (cases matched) simp_all
qed

lemma loop_spec:
  "case find (decisive now) (relevant p m sts) of
     Some st \<Rightarrow> block_loop p m now sts False (False, blockReasonNone, 0) = decision st
   | None \<Rightarrow> latest ((\<lambda>st. state_block st now) ` set (relevant p m sts)) (block_loop p m now sts False (False, blockReasonNone, 0))"
  using loop_decides loop_latest [of now p m sts "{}" "(False, blockReasonNone, 0)" False]
  by (auto simp: latest_def split: option.splits)


lemma set_relevant: "set (relevant p m sts) = {st. \<exists>k. (k, Some st) \<in> set sts \<and> modelStateMatchesRoute p k m}"
  by (induction p m sts rule: relevant.induct) auto

lemma find_same_set:
  assumes "set xs = set ys"
  shows "find P xs = None \<longleftrightarrow> find P ys = None"
  using assms by (auto simp: find_None_iff)

lemma loop_order:
  fixes p m now
  assumes "mset xs = mset ys"
  defines "f \<equiv> \<lambda>sts. block_loop p m now sts False (False, blockReasonNone, 0)"
  shows "fst (f xs) = fst (f ys)" and "snd (snd (f xs)) = snd (snd (f ys))"
    and "\<forall>st\<in>set (relevant p m xs). mo_Status st \<noteq> StatusDisabled \<Longrightarrow> f xs = f ys"
proof -
  have R: "set (relevant p m xs) = set (relevant p m ys)" using mset_eq_setD [OF assms(1)] by (simp add: set_relevant)
  let ?V = "(\<lambda>st. state_block st now) ` set (relevant p m xs)"
  have none: "find (decisive now) (relevant p m xs) = None \<longleftrightarrow> find (decisive now) (relevant p m ys) = None"
    using R by (rule find_same_set)
  have same: "f xs = f ys" if n: "find (decisive now) (relevant p m xs) = None"
  proof -
    have "latest ?V (f xs)" using loop_spec [of now p m xs] n by (simp add: f_def)
    moreover have "latest ?V (f ys)" using loop_spec [of now p m ys] n none R by (simp add: f_def)
    moreover have "fst (snd x) \<in> {blockReasonCooldown, blockReasonOther}" if "x \<in> ?V" "fst x" for x
      using that state_block_cases [of _ now] by (cases x) (auto, metis)
    ultimately show ?thesis by (rule latest_unique)
  qed
  have dec: "\<exists>a\<in>set (relevant p m xs). \<exists>b\<in>set (relevant p m xs). f xs = decision a \<and> f ys = decision b"
    if n: "find (decisive now) (relevant p m xs) \<noteq> None"
  proof -
    obtain a b where ab: "find (decisive now) (relevant p m xs) = Some a" "find (decisive now) (relevant p m ys) = Some b"
      using n none by auto
    then have "a \<in> set (relevant p m xs)" "b \<in> set (relevant p m ys)" by (auto simp: find_Some_iff)
    moreover have "f xs = decision a" "f ys = decision b"
      using loop_decides [OF ab(1)] loop_decides [OF ab(2)] by (simp_all add: f_def)
    ultimately show ?thesis using R by auto
  qed
  show "fst (f xs) = fst (f ys)" "snd (snd (f xs)) = snd (snd (f ys))"
    using same dec by (cases "find (decisive now) (relevant p m xs) = None"; auto simp: decision_def)+
  show "f xs = f ys" if "\<forall>st\<in>set (relevant p m xs). mo_Status st \<noteq> StatusDisabled"
    using that same dec by (cases "find (decisive now) (relevant p m xs) = None") (auto simp: decision_def)
qed

section \<open>The verdict as time passes\<close>

text \<open>How a verdict may change from an earlier to a later time: never from free to blocked, a block
  without retry time stays, a block with one is the same before that time and gone after it.\<close>

definition ages :: "gtime \<Rightarrow> verdict \<Rightarrow> verdict \<Rightarrow> bool" where
  "ages t v w \<longleftrightarrow>
     (if \<not> fst v then w = (False, blockReasonNone, 0)
      else if snd (snd v) = 0 then w = v
      else if t < snd (snd v) then w = v
      else w = (False, blockReasonNone, 0))"

lemma next_after_two:
  assumes "0 \<le> now"
  shows "next_after now [a, b] = (if a > now then (if b > a then b else a) else if b > now then b else 0)"
  using assms by (simp add: next_after_def)

lemma availability_ages:
  assumes "0 \<le> s" and "s \<le> t"
  shows "ages t (availabilityBlock u q retry recover s) (availabilityBlock u q retry recover t)"
  using assms by (auto simp: ages_def availabilityBlock_def Let_def next_after_two)

lemma state_ages: "0 \<le> s \<Longrightarrow> s \<le> t \<Longrightarrow> ages t (state_block st s) (state_block st t)"
  unfolding state_block_def by (rule availability_ages)

lemma decisive_ages:
  assumes "0 \<le> s" and "s \<le> t"
  shows "decisive t = decisive s"
proof
  fix st
  show "decisive t st = decisive s st" using state_ages [OF assms, of st] by (auto simp: decisive_def ages_def split: if_splits)
qed

lemma latest_ages:
  fixes f g :: "'a \<Rightarrow> verdict"
  assumes v: "latest (f ` S) v" and w: "latest (g ` S) w" and age: "\<And>x. x \<in> S \<Longrightarrow> ages t (f x) (g x)"
    and nz: "\<And>x. x \<in> S \<Longrightarrow> fst (f x) \<Longrightarrow> snd (snd (f x)) \<noteq> 0"
    and reasons: "\<And>x. x \<in> S \<Longrightarrow> fst (g x) \<Longrightarrow> fst (snd (g x)) \<in> {blockReasonCooldown, blockReasonOther}"
  shows "ages t v w"
proof -
  have earlier: "fst (f x) \<and> f x = g x \<and> t < snd (snd (f x))" if "x \<in> S" "fst (g x)" for x
    using age [OF that(1)] nz [OF that(1)] that(2) by (auto simp: ages_def split: if_splits)
  show ?thesis
  proof (cases "fst v \<and> t < snd (snd v)")
    case True
    then obtain x where x: "x \<in> S" "v = f x" using v by (auto simp: latest_def split: if_splits)
    then have "g x = v" using age [OF x(1)] True nz [OF x(1)] by (auto simp: ages_def split: if_splits)
    then have mem: "v \<in> g ` S" using x by force
    have "snd (snd y) \<le> snd (snd v) \<and> (snd (snd y) = snd (snd v) \<and> fst (snd y) = blockReasonCooldown \<longrightarrow> fst (snd v) = blockReasonCooldown)"
      if y: "y \<in> g ` S" "fst y" for y
    proof -
      obtain z where z: "z \<in> S" "y = g z" using y(1) by blast
      with earlier [of z] y(2) have "y \<in> f ` S" by force
      then show ?thesis using latest_bound(3,4) [OF v _ y(2)] by blast
    qed
    then have "latest (g ` S) v" using mem True by (auto simp: latest_def)
    then have "v = w" using w by (rule latest_unique) (use reasons in \<open>elim imageE, simp\<close>)
    then show ?thesis using True by (simp add: ages_def)
  next
    case False
    have "\<not> fst (g x)" if "x \<in> S" for x
      using earlier [OF that] latest_bound(2,3) [OF v, of "f x"] that False by force
    then have "w = (False, blockReasonNone, 0)" using w by (auto simp: latest_def)
    moreover have "snd (snd v) \<noteq> 0" if "fst v" using v that nz by (auto simp: latest_def split: if_splits)
    ultimately show ?thesis using False by (auto simp: ages_def)
  qed
qed

lemma loop_ages:
  assumes "0 \<le> s" and "s \<le> t"
  shows "ages t (block_loop p m s sts False (False, blockReasonNone, 0)) (block_loop p m t sts False (False, blockReasonNone, 0))"
proof (cases "find (decisive s) (relevant p m sts)")
  case None
  let ?S = "set (relevant p m sts)"
  have nd: "\<not> decisive s st" if "st \<in> ?S" for st using None that by (auto simp: find_None_iff)
  have "latest ((\<lambda>st. state_block st s) ` ?S) (block_loop p m s sts False (False, blockReasonNone, 0))"
    and "latest ((\<lambda>st. state_block st t) ` ?S) (block_loop p m t sts False (False, blockReasonNone, 0))"
    using loop_spec [of s p m sts] loop_spec [of t p m sts] None decisive_ages [OF assms] by simp_all
  then show ?thesis
  proof (rule latest_ages)
    show "ages t (state_block st s) (state_block st t)" for st by (rule state_ages [OF assms])
    show "snd (snd (state_block st s)) \<noteq> 0" if "st \<in> ?S" "fst (state_block st s)" for st
      using nd [OF that(1)] that(2) by (simp add: decisive_def)
    show "fst (snd (state_block st t)) \<in> {blockReasonCooldown, blockReasonOther}" if "fst (state_block st t)" for st
      using that state_block_cases [of st t] by (cases "state_block st t") auto
  qed
next
  case (Some st)
  then show ?thesis using loop_decides [OF Some] loop_decides [of t p m sts st] decisive_ages [OF assms]
    by (simp add: ages_def decision_def)
qed

text \<open>What decides when neither the status nor the token nor a credential-wide quota does.\<close>

definition rest_verdict :: "'x Auth \<Rightarrow> string \<Rightarrow> gtime \<Rightarrow> verdict" where
  "rest_verdict a m now =
     (if m \<noteq> [] \<and> au_ModelStates a \<noteq> []
      then block_loop (au_Provider a) m now (au_ModelStates a) False (False, blockReasonNone, 0)
      else availabilityBlock (au_Unavailable a)
             (if m = [] \<and> au_ModelStates a \<noteq> [] \<and> qs_Reason (au_Quota a) \<noteq> ''credential_quota'' \<and> \<not> au_Unavailable a then False
              else qs_Exceeded (au_Quota a)) (au_NextRetryAfter a) (qs_NextRecoverAt (au_Quota a)) now)"

definition credential_quota :: "'x Auth \<Rightarrow> gtime \<Rightarrow> bool" where
  "credential_quota a now \<longleftrightarrow>
     qs_Exceeded (au_Quota a) \<and> qs_Reason (au_Quota a) = ''credential_quota'' \<and> qs_NextRecoverAt (au_Quota a) > now"

lemma verdict_split:
  "isAuthBlockedForModel a m now =
     (if au_Disabled a \<or> au_Status a = StatusDisabled then (True, blockReasonDisabled, 0)
      else if hasUnauthorizedAuthFailure a \<or> token_expired a now then (True, blockReasonOther, 0)
      else if credential_quota a now then (True, blockReasonCooldown, qs_NextRecoverAt (au_Quota a))
      else rest_verdict a m now)"
  by (auto simp: isAuthBlockedForModel_def rest_verdict_def credential_quota_def)

lemma rest_ages: "0 \<le> s \<Longrightarrow> s \<le> t \<Longrightarrow> ages t (rest_verdict a m s) (rest_verdict a m t)"
  by (simp add: rest_verdict_def loop_ages availability_ages del: if_split)

lemma rest_cases:
  obtains (walk) p k sts where "rest_verdict a m t = block_loop p k t sts False (False, blockReasonNone, 0)"
  | (avail) u q retry recover where "rest_verdict a m t = availabilityBlock u q retry recover t"
proof (cases "m \<noteq> [] \<and> au_ModelStates a \<noteq> []")
  case True
  then show ?thesis by (intro walk) (simp add: rest_verdict_def)
next
  case False
  then show ?thesis by (intro avail) (simp only: rest_verdict_def if_False)
qed

lemma rest_not_blocked: "\<not> fst (rest_verdict a m t) \<Longrightarrow> snd (snd (rest_verdict a m t)) = 0"
proof -
  have "\<not> fst (availabilityBlock u q retry recover t) \<Longrightarrow> snd (snd (availabilityBlock u q retry recover t)) = 0" for u q retry recover
    using availability_cases [of u q retry recover t] by (cases "availabilityBlock u q retry recover t") auto
  moreover have "\<not> fst (block_loop p k t sts False (False, blockReasonNone, 0)) \<Longrightarrow>
      snd (snd (block_loop p k t sts False (False, blockReasonNone, 0))) = 0" for p k sts
    using loop_spec [of t p k sts] by (auto simp: decision_def latest_def split: option.splits if_splits)
  ultimately show "\<not> fst (rest_verdict a m t) \<Longrightarrow> snd (snd (rest_verdict a m t)) = 0"
    by (cases rule: rest_cases [of a m t]) auto
qed

text \<open>For a credential whose token has not expired: the verdict ages as above, except that after the
  end of a credential-wide quota the other reasons decide.\<close>

lemma verdict_ages:
  fixes m
  assumes "0 \<le> s" and "s \<le> t" and "\<not> token_expired a t"
  defines "v \<equiv> isAuthBlockedForModel a m s" and "w \<equiv> isAuthBlockedForModel a m t"
  shows "ages t v w \<or> (fst v \<and> snd (snd v) \<noteq> 0 \<and> snd (snd v) \<le> t)"
proof -
  have te: "\<not> token_expired a s" using assms(2,3) by (auto simp: token_expired_def split: option.splits)
  have "\<not> credential_quota a t" if "\<not> credential_quota a s" using that assms(2) by (auto simp: credential_quota_def)
  then show ?thesis using te assms(1-3) rest_ages [OF assms(1,2), of a m]
    by (auto simp: v_def w_def verdict_split ages_def credential_quota_def)
qed

lemma expired_blocks: "token_expired a t \<Longrightarrow> fst (isAuthBlockedForModel a m t)"
  by (simp add: isAuthBlockedForModel_def)

lemma not_blocked_no_retry: "\<not> fst (isAuthBlockedForModel a m t) \<Longrightarrow> snd (snd (isAuthBlockedForModel a m t)) = 0"
  using rest_not_blocked by (auto simp: verdict_split split: if_splits)

text \<open>The verdict on a credential does not depend on the order in which Go walks the map of its
  model states: whether it is blocked and until when is the same for every order, and so is the
  reason unless one of the states of the model is disabled.\<close>

theorem block_order_irrelevant:
  assumes "mset xs = mset ys"
  shows "fst (isAuthBlockedForModel (a\<lparr>au_ModelStates := xs\<rparr>) m now) = fst (isAuthBlockedForModel (a\<lparr>au_ModelStates := ys\<rparr>) m now) \<and>
     snd (snd (isAuthBlockedForModel (a\<lparr>au_ModelStates := xs\<rparr>) m now)) = snd (snd (isAuthBlockedForModel (a\<lparr>au_ModelStates := ys\<rparr>) m now)) \<and>
     (list_all (\<lambda>st. mo_Status st \<noteq> StatusDisabled) (relevant (au_Provider a) m xs) \<longrightarrow>
        isAuthBlockedForModel (a\<lparr>au_ModelStates := xs\<rparr>) m now = isAuthBlockedForModel (a\<lparr>au_ModelStates := ys\<rparr>) m now)"
proof -
  have e: "xs = [] \<longleftrightarrow> ys = []" using assms by (metis mset.simps(1) mset_zero_iff)
  have u: "hasUnauthorizedAuthFailure (a\<lparr>au_ModelStates := zs\<rparr>) = hasUnauthorizedAuthFailure a"
      "token_expired (a\<lparr>au_ModelStates := zs\<rparr>) now = token_expired a now" for zs
    by (simp_all add: hasUnauthorizedAuthFailure_def token_expired_def split: option.splits)
  note lo = loop_order [OF assms, of "au_Provider a" m now]
  show ?thesis using e u lo by (simp add: isAuthBlockedForModel_def list_all_iff)
qed

text \<open>A quota cooldown until 90 and an outage until 120 of the same model, walked in both orders.\<close>

definition busy_state :: "bool \<Rightarrow> gtime \<Rightarrow> ModelState" where
  "busy_state quota t = \<lparr>mo_Status = StatusError, mo_StatusMessage = [], mo_Unavailable = True, mo_NextRetryAfter = t,
     mo_LastError = None, mo_Quota = \<lparr>qs_Exceeded = quota, qs_Reason = ''quota'', qs_NextRecoverAt = 0\<rparr>, mo_UpdatedAt = 1\<rparr>"

lemma block_order_irrelevant_witness:
  "isAuthBlockedForModel ((plain_auth ''a'')\<lparr>au_ModelStates := [(''m(8)'', Some (busy_state True 90)), (''m'', Some (busy_state False 120))]\<rparr>) ''m'' 50 =
     (True, blockReasonOther, 120) \<and>
   isAuthBlockedForModel ((plain_auth ''a'')\<lparr>au_ModelStates := [(''m'', Some (busy_state False 120)), (''m(8)'', Some (busy_state True 90))]\<rparr>) ''m'' 50 =
     (True, blockReasonOther, 120)"
proof -
  let ?x = "[(''m(8)'', Some (busy_state True 90)), (''m'', Some (busy_state False 120))]"
  let ?y = "[(''m'', Some (busy_state False 120)), (''m(8)'', Some (busy_state True 90))]"
  have k: "canonicalModelKey ''m(8)'' = ''m''" "canonicalModelKey ''m'' = ''m''" by code_simp+
  have t: "TrimSpace ''m(8)'' = ''m(8)''" "TrimSpace ''m'' = ''m''" "EqualFold (TrimSpace ''Gemini'') ''codex'' = False" by code_simp+
  have p: "au_Provider (plain_auth ''a'') = ''Gemini''" by (simp add: plain_auth_def)
  have r: "relevant ''Gemini'' ''m'' ?x = [busy_state True 90, busy_state False 120]"
    by (simp add: modelStateMatchesRoute_def k t)
  have x: "isAuthBlockedForModel ((plain_auth ''a'')\<lparr>au_ModelStates := ?x\<rparr>) ''m'' 50 = (True, blockReasonOther, 120)"
    by (simp add: isAuthBlockedForModel_def plain_auth_def hasUnauthorizedAuthFailure_def token_expired_def
        modelStateMatchesRoute_def k t busy_state_def state_block_def availabilityBlock_def next_after_def)
  show ?thesis using x block_order_irrelevant [of ?x ?y "plain_auth ''a''" "''m''" 50] r p by (simp add: busy_state_def)
qed

end
