(* ===== verification/ReadyView.thy ===== *)
theory ReadyView
  imports SmoothWeighted AuthState
begin

text \<open>
  The ready views of the credential scheduler (\<open>src/sdk/cliproxy/auth/scheduler.go\<close>): the
  credentials of one priority in the order of their ids, the cursor of the round-robin, the
  credits of the weighted round-robin, and the three ways to pick from a view.

  A view holds pointers to the entries of its shard, so a change of an entry shows in the view at
  once. Here a view holds the ids, and the functions take the entries they point to as an
  argument.
\<close>

section \<open>Data\<close>

datatype schedulerStrategy = StrategyCurrent | StrategyCustom | StrategyRoundRobin | StrategyFillFirst | StrategyWeightedRoundRobin

datatype scheduledState = StateReady | StateCooldown | StateBlocked | StateDisabled

record 'x scheduledAuthMeta =
  me_auth :: "'x Auth"
  me_providerKey :: string
  me_priority :: int
  me_weight :: int
  me_websocketEnabled :: bool
  me_supportedModelSet :: "string list option"
  me_registryEpoch :: nat

text \<open>\<open>entry.auth\<close> is always \<open>entry.meta.auth\<close>, so an entry holds the metadata only.\<close>

record 'x scheduledAuth =
  en_meta :: "'x scheduledAuthMeta"
  en_state :: scheduledState
  en_nextRetryAt :: int

record readyView =
  rv_flat :: "string list"
  rv_lastPicked :: string
  rv_weightedState :: smoothWeightedState

type_synonym 'x entries = "(string \<times> 'x scheduledAuth) list"
type_synonym 'x predicate = "'x scheduledAuth \<Rightarrow> bool"

text \<open>The entry a pointer of a view leads to satisfies the predicate; a nil pointer does not.\<close>

definition entry_ok :: "'x entries \<Rightarrow> 'x predicate \<Rightarrow> string \<Rightarrow> bool" where
  "entry_ok es pred i = (case map_of es i of None \<Rightarrow> False | Some e \<Rightarrow> pred e)"

definition entry_weight :: "'x entries \<Rightarrow> string \<Rightarrow> int" where
  "entry_weight es i = (case map_of es i of None \<Rightarrow> 0 | Some e \<Rightarrow> me_weight (en_meta e))"

section \<open>Building a view\<close>

definition buildReadyView :: "string list \<Rightarrow> readyView" where
  "buildReadyView ids = \<lparr>rv_flat = ids, rv_lastPicked = [], rv_weightedState = no_credits\<rparr>"

definition scheduledWeightVectorMatching :: "'x entries \<Rightarrow> 'x predicate \<Rightarrow> string list \<Rightarrow> (string \<times> int) list" where
  "scheduledWeightVectorMatching es pred ids =
     fold (\<lambda>i. AList.update i (entry_weight es i)) (filter (\<lambda>i. entry_weight es i > 0 \<and> entry_ok es pred i) ids) []"

definition scheduledWeightVector :: "'x entries \<Rightarrow> string list \<Rightarrow> (string \<times> int) list" where
  "scheduledWeightVector es ids = scheduledWeightVectorMatching es (\<lambda>_. True) ids"

record readyViewCursorState =
  cs_lastPicked :: string
  cs_weightedState :: smoothWeightedState

definition snapshotReadyViewCursors :: "readyView \<Rightarrow> readyViewCursorState" where
  "snapshotReadyViewCursors v = \<lparr>cs_lastPicked = rv_lastPicked v, cs_weightedState = rv_weightedState v\<rparr>"

definition restoreReadyViewCursors :: "'x entries \<Rightarrow> readyViewCursorState \<Rightarrow> readyView \<Rightarrow> readyView" where
  "restoreReadyViewCursors es st v =
     (let v = v\<lparr>rv_lastPicked := cs_lastPicked st\<rparr>;
          weights = scheduledWeightVector es (rv_flat v);
          old = cs_weightedState st
      in if sw_current old = [] \<or> weightsConfigChanged (sw_weights old) weights then v
         else v\<lparr>rv_weightedState :=
            \<lparr>sw_current = fold (\<lambda>i cur. case map_of (sw_current old) i of None \<Rightarrow> cur | Some c \<Rightarrow> AList.update i c cur)
                (filter (\<lambda>i. map_of es i \<noteq> None) (rv_flat v)) [],
             sw_weights = weights\<rparr>\<rparr>)"

section \<open>Picking\<close>

definition pickFirst :: "'x entries \<Rightarrow> 'x predicate \<Rightarrow> readyView \<Rightarrow> string option" where
  "pickFirst es pred v = find (entry_ok es pred) (rv_flat v)"

definition scheduledSuccessorIndex :: "string list \<Rightarrow> string \<Rightarrow> nat" where
  "scheduledSuccessorIndex ids lastID =
     (if lastID = [] then 0
      else let index = sort_Search (length ids) (\<lambda>i. ids ! i > lastID)
           in if index \<ge> length ids then 0 else index)"

definition pickRoundRobin :: "'x entries \<Rightarrow> 'x predicate \<Rightarrow> readyView \<Rightarrow> string option \<times> readyView" where
  "pickRoundRobin es pred v =
     (let ids = rv_flat v; start = scheduledSuccessorIndex ids (rv_lastPicked v)
      in case find (\<lambda>offset. entry_ok es pred (ids ! ((start + offset) mod length ids))) [0..<length ids] of
           None \<Rightarrow> (None, v)
         | Some offset \<Rightarrow>
             (let i = ids ! ((start + offset) mod length ids) in (Some i, v\<lparr>rv_lastPicked := i\<rparr>)))"

definition pickSmoothWeightedScheduled ::
  "'x entries \<Rightarrow> 'x predicate \<Rightarrow> string list \<Rightarrow> (string \<times> int) list \<Rightarrow> string option \<times> (string \<times> int) list" where
  "pickSmoothWeightedScheduled es pred ids current =
     pick_smooth (\<lambda>i. i) (entry_weight es) (entry_ok es pred) ids current"

definition pickWeighted :: "'x entries \<Rightarrow> 'x predicate \<Rightarrow> readyView \<Rightarrow> string option \<times> readyView" where
  "pickWeighted es pred v =
     (if rv_flat v = [] then (None, v)
      else let st = prepare (scheduledWeightVectorMatching es pred (rv_flat v)) (rv_weightedState v);
               (picked, cur) = pickSmoothWeightedScheduled es pred (rv_flat v) (sw_current st)
           in (picked, v\<lparr>rv_weightedState := st\<lparr>sw_current := cur\<rparr>\<rparr>))"

section \<open>The contract of a pick\<close>

text \<open>What the shard relies on: a pick answers with a usable entry of the view, it finds one whenever
  there is one, and it moves nothing but the cursors.\<close>

locale ready_picker =
  fixes pick :: "'x entries \<Rightarrow> 'x predicate \<Rightarrow> readyView \<Rightarrow> string option \<times> readyView"
    and eligible :: "'x entries \<Rightarrow> 'x predicate \<Rightarrow> string \<Rightarrow> bool"
  assumes pick_member: "pick es pred v = (Some i, v') \<Longrightarrow> i \<in> set (rv_flat v) \<and> eligible es pred i"
    and pick_complete: "pick es pred v = (None, v') \<Longrightarrow> i \<in> set (rv_flat v) \<Longrightarrow> \<not> eligible es pred i"
    and pick_flat: "pick es pred v = (r, v') \<Longrightarrow> rv_flat v' = rv_flat v"
begin

lemma pick_some_iff: "fst (pick es pred v) \<noteq> None \<longleftrightarrow> (\<exists>i\<in>set (rv_flat v). eligible es pred i)"
proof (cases "pick es pred v")
  case (Pair r v')
  then show ?thesis using pick_member [of es pred v _ v'] pick_complete [of es pred v v'] by (cases r) auto
qed

lemma flat_kept: "rv_flat (snd (pick es pred v)) = rv_flat v"
  using pick_flat [of es pred v] by (cases "pick es pred v") simp

end

lemma find_Some_member: "find P xs = Some x \<Longrightarrow> x \<in> set xs \<and> P x"
  by (induction xs) (auto split: if_splits)

lemma find_None_none: "find P xs = None \<Longrightarrow> x \<in> set xs \<Longrightarrow> \<not> P x"
  by (induction xs) (auto split: if_splits)

interpretation first_picker: ready_picker "\<lambda>es pred v. (pickFirst es pred v, v)" entry_ok
  by unfold_locales (auto simp: pickFirst_def dest: find_Some_member find_None_none)

text \<open>Every position of the ring is visited once from any start.\<close>

lemma ring_positions: "s < n \<Longrightarrow> k < n \<Longrightarrow> \<exists>offset\<in>set [0..<n]. (s + offset) mod n = k"
proof -
  assume s: "s < n" "k < n"
  show ?thesis
  proof (cases "s \<le> k")
    case True
    with s show ?thesis by (intro bexI [of _ "k - s"]) auto
  next
    case False
    with s show ?thesis by (intro bexI [of _ "n + k - s"]) auto
  qed
qed

lemma successor_index_less: "ids \<noteq> [] \<Longrightarrow> scheduledSuccessorIndex ids lastID < length ids"
  by (auto simp: scheduledSuccessorIndex_def Let_def)

interpretation robin_picker: ready_picker pickRoundRobin entry_ok
proof
  fix es :: "'x entries" and pred and v :: readyView and r v' i
  show "rv_flat v' = rv_flat v" if "pickRoundRobin es pred v = (r, v')"
    using that by (auto simp: pickRoundRobin_def Let_def split: option.splits)
  show "i \<in> set (rv_flat v) \<and> entry_ok es pred i" if p: "pickRoundRobin es pred v = (Some i, v')"
  proof -
    let ?n = "length (rv_flat v)"
    obtain offset where o: "find (\<lambda>offset. entry_ok es pred (rv_flat v ! ((scheduledSuccessorIndex (rv_flat v) (rv_lastPicked v) + offset) mod ?n)))
        [0..<?n] = Some offset" "i = rv_flat v ! ((scheduledSuccessorIndex (rv_flat v) (rv_lastPicked v) + offset) mod ?n)"
      using p by (auto simp: pickRoundRobin_def Let_def split: option.splits)
    from find_Some_member [OF o(1)] o(2) show ?thesis by (auto intro!: nth_mem mod_less_divisor)
  qed
  show "\<not> entry_ok es pred i" if p: "pickRoundRobin es pred v = (None, v')" and i: "i \<in> set (rv_flat v)"
  proof -
    let ?ids = "rv_flat v" and ?n = "length (rv_flat v)"
    let ?s = "scheduledSuccessorIndex ?ids (rv_lastPicked v)"
    obtain k where k: "k < ?n" "?ids ! k = i" using i by (auto simp: in_set_conv_nth)
    have "?s < ?n" using successor_index_less [of ?ids] i by (cases ?ids) auto
    then obtain offset where "offset \<in> set [0..<?n]" "(?s + offset) mod ?n = k" using ring_positions k(1) by blast
    moreover have "find (\<lambda>offset. entry_ok es pred (?ids ! ((?s + offset) mod ?n))) [0..<?n] = None"
      using p by (auto simp: pickRoundRobin_def Let_def split: option.splits)
    ultimately show ?thesis using find_None_none k(2) by fastforce
  qed
qed

lemma loop_picked_None:
  "fst (snd (smooth_loop ident weight ok es cur picked pc tot)) = None \<longleftrightarrow> picked = None \<and> usable weight ok es = []"
  by (induction es arbitrary: cur picked pc tot) (auto simp: Let_def not_less simp del: not_None_eq)

lemma loop_picked_member:
  "fst (snd (smooth_loop ident weight ok es cur picked pc tot)) = Some e \<Longrightarrow> picked = Some e \<or> e \<in> set (usable weight ok es)"
  by (induction es arbitrary: cur picked pc tot) (auto simp: Let_def not_less split: if_splits)

lemma pick_smooth_choice:
  "fst (pick_smooth ident weight ok es cur) = fst (snd (smooth_loop ident weight ok es cur None 0 0))"
  by (auto simp: pick_smooth_def split: prod.splits option.splits)

interpretation weighted_picker: ready_picker pickWeighted "\<lambda>es pred i. entry_weight es i > 0 \<and> entry_ok es pred i"
proof
  fix es :: "'x entries" and pred and v :: readyView and r v' i
  let ?cur = "sw_current (prepare (scheduledWeightVectorMatching es pred (rv_flat v)) (rv_weightedState v))"
  have r: "r = fst (pick_smooth (\<lambda>i. i) (entry_weight es) (entry_ok es pred) (rv_flat v) ?cur)"
    if "pickWeighted es pred v = (r, v')" "rv_flat v \<noteq> []" for r v'
    using that by (auto simp: pickWeighted_def pickSmoothWeightedScheduled_def Let_def split: prod.splits)
  show "rv_flat v' = rv_flat v" if "pickWeighted es pred v = (r, v')"
    using that by (auto simp: pickWeighted_def Let_def split: if_splits prod.splits)
  show "i \<in> set (rv_flat v) \<and> entry_weight es i > 0 \<and> entry_ok es pred i" if p: "pickWeighted es pred v = (Some i, v')"
  proof -
    have "rv_flat v \<noteq> []" using p by (auto simp: pickWeighted_def)
    from r [OF p this] have "fst (snd (smooth_loop (\<lambda>i. i) (entry_weight es) (entry_ok es pred) (rv_flat v) ?cur None 0 0)) = Some i"
      by (simp add: pick_smooth_choice)
    from loop_picked_member [OF this] have "i \<in> set (usable (entry_weight es) (entry_ok es pred) (rv_flat v))" by simp
    then show ?thesis by (auto simp: usable_def)
  qed
  show "\<not> (entry_weight es i > 0 \<and> entry_ok es pred i)"
    if p: "pickWeighted es pred v = (None, v')" and i: "i \<in> set (rv_flat v)"
  proof -
    have "rv_flat v \<noteq> []" using i by auto
    from r [OF p this] have "usable (entry_weight es) (entry_ok es pred) (rv_flat v) = []"
      by (metis loop_picked_None pick_smooth_choice)
    then show ?thesis using i by (auto simp: usable_def filter_empty_conv)
  qed
qed

section \<open>Round robin\<close>

text \<open>The usable entries of a view, in order.\<close>

definition choices :: "'x entries \<Rightarrow> 'x predicate \<Rightarrow> readyView \<Rightarrow> string list" where
  "choices es pred v = filter (entry_ok es pred) (rv_flat v)"

definition view_sorted :: "readyView \<Rightarrow> bool" where
  "view_sorted v \<longleftrightarrow> sorted (rv_flat v) \<and> distinct (rv_flat v) \<and> [] \<notin> set (rv_flat v)"

text \<open>How many usable entries are not after the last pick.\<close>

definition turn :: "string list \<Rightarrow> string \<Rightarrow> nat" where
  "turn ids lastID = length (filter (\<lambda>i. \<not> lastID < i) ids)"

lemma find_filter: "find P xs = (case filter P xs of [] \<Rightarrow> None | x # _ \<Rightarrow> Some x)"
  by (induction xs) auto

lemma find_map: "find P (map f xs) = map_option f (find (\<lambda>x. P (f x)) xs)"
  by (induction xs) auto

lemma ring_rotate: "map (\<lambda>offset. xs ! ((s + offset) mod length xs)) [0..<length xs] = rotate s xs"
  by (rule nth_equalityI) (simp_all add: nth_rotate)

lemma sorted_split:
  assumes "sorted xs"
  shows "filter (\<lambda>i. \<not> l < i) xs = take (turn xs l) xs" and "filter (\<lambda>i. l < i) xs = drop (turn xs l) xs"
proof -
  have "filter (\<lambda>i. \<not> l < i) xs @ filter (\<lambda>i. l < i) xs = xs"
    using assms
  proof (induction xs)
    case (Cons x xs)
    show ?case
    proof (cases "l < x")
      case True
      then have "\<forall>y\<in>set xs. l < y" using Cons.prems by (auto intro: less_le_trans)
      then have "filter (\<lambda>i. \<not> l < i) xs = []" "filter (\<lambda>i. l < i) xs = xs" by (auto simp: filter_empty_conv filter_id_conv)
      with True show ?thesis by simp
    next
      case False
      with Cons show ?thesis by simp
    qed
  qed simp
  then show "filter (\<lambda>i. \<not> l < i) xs = take (turn xs l) xs" and "filter (\<lambda>i. l < i) xs = drop (turn xs l) xs"
    unfolding turn_def by (metis append_eq_conv_conj)+
qed

lemma successor_rotates:
  assumes "view_sorted v"
  shows "rotate (scheduledSuccessorIndex (rv_flat v) l) (rv_flat v) =
     filter (\<lambda>i. l < i) (rv_flat v) @ filter (\<lambda>i. \<not> l < i) (rv_flat v)"
proof -
  let ?ids = "rv_flat v"
  have srt: "sorted ?ids" using assms by (simp add: view_sorted_def)
  show ?thesis
  proof (cases "l = []")
    case True
    have "[] < i" if "i \<in> set ?ids" for i using assms that by (cases i) (auto simp: view_sorted_def)
    then have "filter (\<lambda>i. l < i) ?ids = ?ids" "filter (\<lambda>i. \<not> l < i) ?ids = []"
      using True by (auto simp: filter_id_conv filter_empty_conv)
    with True show ?thesis by (simp add: scheduledSuccessorIndex_def)
  next
    case False
    let ?k = "sort_Search (length ?ids) (\<lambda>i. l < ?ids ! i)"
    have mono: "l < ?ids ! b" if "a \<le> b" "b < length ?ids" "l < ?ids ! a" for a b
      using sorted_nth_mono [OF srt that(1,2)] that(3) by (rule less_le_trans [rotated])
    note sp = sort_Search_split [of ?ids "\<lambda>i. l < i", OF mono]
    show ?thesis
    proof (cases "?k < length ?ids")
      case True
      then have "rotate ?k ?ids = drop ?k ?ids @ take ?k ?ids" by (simp add: rotate_drop_take)
      with True False sp show ?thesis by (simp add: scheduledSuccessorIndex_def)
    next
      case nk: False
      then have "filter (\<lambda>i. l < i) ?ids = []" "filter (\<lambda>i. \<not> l < i) ?ids = ?ids" using sp by auto
      with nk False show ?thesis by (simp add: scheduledSuccessorIndex_def)
    qed
  qed
qed

text \<open>Round robin takes the next usable entry after the last pick and wraps around.\<close>

lemma robin_next:
  assumes v: "view_sorted v" and ne: "choices es pred v \<noteq> []"
  defines "E \<equiv> choices es pred v"
  defines "p \<equiv> E ! (turn E (rv_lastPicked v) mod length E)"
  shows "pickRoundRobin es pred v = (Some p, v\<lparr>rv_lastPicked := p\<rparr>)" and "turn E p = Suc (turn E (rv_lastPicked v) mod length E)"
proof -
  let ?ids = "rv_flat v" and ?l = "rv_lastPicked v" and ?ok = "entry_ok es pred"
  let ?s = "scheduledSuccessorIndex ?ids ?l" and ?n = "length ?ids"
  have srt: "sorted E" "distinct E" using v sorted_wrt_filter by (auto simp: E_def choices_def view_sorted_def)
  have "filter ?ok (rotate ?s ?ids) = filter (\<lambda>i. ?l < i) E @ filter (\<lambda>i. \<not> ?l < i) E"
    unfolding successor_rotates [OF v] by (simp add: E_def choices_def conj_commute)
  also have "\<dots> = drop (turn E ?l) E @ take (turn E ?l) E" using sorted_split [OF srt(1), of ?l] by simp
  finally have f: "filter ?ok (rotate ?s ?ids) = drop (turn E ?l) E @ take (turn E ?l) E" .
  have tl: "turn E ?l \<le> length E" by (simp add: turn_def)
  have E: "E \<noteq> []" using ne by (simp add: E_def)
  have "drop (turn E ?l) E @ take (turn E ?l) E = p # tl (drop (turn E ?l) E @ take (turn E ?l) E)"
  proof (cases "turn E ?l < length E")
    case True
    then show ?thesis by (simp add: p_def Cons_nth_drop_Suc [symmetric])
  next
    case False
    then have "turn E ?l = length E" using tl by simp
    then show ?thesis using E by (simp add: p_def hd_conv_nth [symmetric])
  qed
  then have "find ?ok (rotate ?s ?ids) = Some p" unfolding find_filter f by (metis list.simps(5))
  then have "map_option (\<lambda>offset. ?ids ! ((?s + offset) mod ?n)) (find (\<lambda>offset. ?ok (?ids ! ((?s + offset) mod ?n))) [0..<?n]) = Some p"
    unfolding ring_rotate [symmetric] find_map .
  then show "pickRoundRobin es pred v = (Some p, v\<lparr>rv_lastPicked := p\<rparr>)"
    by (auto simp: pickRoundRobin_def Let_def)
  let ?j = "turn E ?l mod length E"
  have j: "?j < length E" using E by simp
  have strict: "E ! a < E ! b" if "a < b" "b < length E" for a b
    using srt that by (metis sorted_wrt_nth_less strict_sorted_iff)
  have "filter (\<lambda>i. \<not> p < i) (take (Suc ?j) E) = take (Suc ?j) E"
    using strict j by (auto simp: filter_id_conv p_def in_set_conv_nth less_Suc_eq not_less_iff_gr_or_eq)
  moreover have "filter (\<lambda>i. \<not> p < i) (drop (Suc ?j) E) = []"
    using strict j by (auto simp: filter_empty_conv p_def in_set_conv_nth)
  moreover have "filter (\<lambda>i. \<not> p < i) E = filter (\<lambda>i. \<not> p < i) (take (Suc ?j) E) @ filter (\<lambda>i. \<not> p < i) (drop (Suc ?j) E)"
    by (metis append_take_drop_id filter_append)
  ultimately have "filter (\<lambda>i. \<not> p < i) E = take (Suc ?j) E" by simp
  then show "turn E p = Suc ?j" using j by (simp add: turn_def)
qed

fun robin_run :: "'x entries \<Rightarrow> 'x predicate \<Rightarrow> nat \<Rightarrow> readyView \<Rightarrow> string option list \<times> readyView" where
  "robin_run es pred 0 v = ([], v)"
| "robin_run es pred (Suc n) v =
     (let (p, v1) = pickRoundRobin es pred v; (ps, v2) = robin_run es pred n v1 in (p # ps, v2))"

lemma robin_run_spec:
  assumes "view_sorted v" and "choices es pred v \<noteq> []"
  shows "fst (robin_run es pred n v) =
     map (\<lambda>m. Some (choices es pred v ! ((turn (choices es pred v) (rv_lastPicked v) + m) mod length (choices es pred v)))) [0..<n]"
  using assms
proof (induction n arbitrary: v)
  case (Suc n)
  let ?E = "choices es pred v"
  let ?t = "turn ?E (rv_lastPicked v)"
  let ?p = "?E ! (?t mod length ?E)"
  let ?v = "v\<lparr>rv_lastPicked := ?p\<rparr>"
  note st = robin_next [OF Suc.prems]
  have E: "choices es pred ?v = ?E" by (simp add: choices_def)
  have "fst (robin_run es pred n ?v) =
      map (\<lambda>m. Some (?E ! ((Suc (?t mod length ?E) + m) mod length ?E))) [0..<n]"
    using Suc.IH [of ?v] Suc.prems st(2) E by (simp add: view_sorted_def)
  moreover have "(Suc (?t mod length ?E) + m) mod length ?E = (?t + Suc m) mod length ?E" for m
    by (metis add_Suc_shift mod_add_left_eq)
  ultimately have "fst (robin_run es pred n ?v) = map (\<lambda>m. Some (?E ! ((?t + Suc m) mod length ?E))) [0..<n]" by simp
  then show ?case using st(1) by (simp add: case_prod_beta upt_conv_Cons map_Suc_upt [symmetric] del: upt_Suc)
qed simp

text \<open>C19: Round robin is fair whatever subset of the credentials a request may use: in as many picks as
  there are usable entries in the view, every usable entry is picked exactly once, in the order of
  their ids, starting after the credential picked last (also when that one is gone or not usable).\<close>

theorem round_robin_cycle:
  assumes "view_sorted v" and "choices es pred v \<noteq> []"
  shows "fst (robin_run es pred (length (choices es pred v)) v) =
     map Some (rotate (turn (choices es pred v) (rv_lastPicked v)) (choices es pred v))"
proof -
  let ?E = "choices es pred v" and ?t = "turn (choices es pred v) (rv_lastPicked v)"
  have "map Some (rotate ?t ?E) = map Some (map (\<lambda>m. ?E ! ((?t + m) mod length ?E)) [0..<length ?E])"
    by (simp only: ring_rotate)
  then show ?thesis using robin_run_spec [OF assms] by simp
qed

text \<open>Three credentials of one priority, the second of them excluded by the request.\<close>

definition sample_entry :: "string \<Rightarrow> int \<Rightarrow> unit scheduledAuth" where
  "sample_entry i w = \<lparr>en_meta = \<lparr>me_auth = plain_auth i, me_providerKey = ''gemini'', me_priority = 0, me_weight = w,
       me_websocketEnabled = False, me_supportedModelSet = None, me_registryEpoch = 1\<rparr>, en_state = StateReady, en_nextRetryAt = 0\<rparr>"

lemma round_robin_cycle_witness:
  "fst (robin_run [(''a'', sample_entry ''a'' 1), (''b'', sample_entry ''b'' 0), (''c'', sample_entry ''c'' 1)]
       (\<lambda>e. me_weight (en_meta e) > 0) 2 ((buildReadyView [''a'', ''b'', ''c''])\<lparr>rv_lastPicked := ''b''\<rparr>)) = [Some ''c'', Some ''a'']"
proof -
  let ?es = "[(''a'', sample_entry ''a'' 1), (''b'', sample_entry ''b'' 0), (''c'', sample_entry ''c'' 1)]"
  let ?p = "\<lambda>e :: unit scheduledAuth. me_weight (en_meta e) > 0"
  let ?v = "(buildReadyView [''a'', ''b'', ''c''])\<lparr>rv_lastPicked := ''b''\<rparr>"
  have E: "choices ?es ?p ?v = [''a'', ''c'']"
    by (simp add: choices_def entry_ok_def sample_entry_def buildReadyView_def)
  have v: "view_sorted ?v" by (simp add: view_sorted_def buildReadyView_def)
  have "turn [''a'', ''c''] ''b'' = 1" by (simp add: turn_def)
  then show ?thesis using round_robin_cycle [of ?v ?es ?p, OF v] by (simp only: E) (simp add: numeral_2_eq_2 buildReadyView_def del: robin_run.simps)
qed

end
