(* ===== verification/ModelShard.thy ===== *)
theory ModelShard
  imports ReadyView "HOL-Library.Product_Lexorder"
begin

text \<open>
  The shard of one model of one provider (\<open>modelScheduler\<close> in \<open>src/sdk/cliproxy/auth/scheduler.go\<close>):
  the entries of the credentials that support the model, the ready views by priority, the blocked
  entries in the order of their retry times, and the errors it answers with.

  The maps of the source hold pointers to entries, and the views and the blocked list hold the same
  pointers. Here the entries are stored under their ids and the other structures hold the ids;
  \<open>upsertEntryLocked\<close> is the only place that adds an entry and it does so under the id of its
  credential. \<open>time.Now()\<close> is an argument of the operations that read the clock.
\<close>

section \<open>State\<close>

record readyBucket =
  rb_all :: readyView
  rb_ws :: readyView

record 'x modelScheduler =
  ms_modelKey :: string
  ms_entries :: "'x entries"
  ms_priorityOrder :: "int list"
  ms_readyByPriority :: "(int \<times> readyBucket) list"
  ms_blocked :: "string list"

definition new_shard :: "string \<Rightarrow> 'x modelScheduler" where
  "new_shard k = \<lparr>ms_modelKey = k, ms_entries = [], ms_priorityOrder = [], ms_readyByPriority = [], ms_blocked = []\<rparr>"

abbreviation entry_priority :: "'x scheduledAuth \<Rightarrow> int" where
  "entry_priority e \<equiv> me_priority (en_meta e)"

abbreviation entry_auth :: "'x scheduledAuth \<Rightarrow> 'x Auth" where
  "entry_auth e \<equiv> me_auth (en_meta e)"

section \<open>The indexes\<close>

record readyBucketCursorState =
  bc_all :: readyViewCursorState
  bc_ws :: readyViewCursorState

definition snapshot_bucket :: "readyBucket \<Rightarrow> readyBucketCursorState" where
  "snapshot_bucket b = \<lparr>bc_all = snapshotReadyViewCursors (rb_all b), bc_ws = snapshotReadyViewCursors (rb_ws b)\<rparr>"

definition buildReadyBucket :: "'x entries \<Rightarrow> string list \<Rightarrow> readyBucket" where
  "buildReadyBucket es ids =
     \<lparr>rb_all = buildReadyView ids,
      rb_ws = buildReadyView (filter (\<lambda>i. case map_of es i of None \<Rightarrow> False | Some e \<Rightarrow> me_websocketEnabled (en_meta e)) ids)\<rparr>"

definition ready_ids :: "'x entries \<Rightarrow> int \<Rightarrow> string list" where
  "ready_ids es p = sort (map fst (filter (\<lambda>(i, e). en_state e = StateReady \<and> entry_priority e = p) es))"

definition ready_priorities :: "'x entries \<Rightarrow> int list" where
  "ready_priorities es = remdups (map (\<lambda>(i, e). entry_priority e) (filter (\<lambda>(i, e). en_state e = StateReady) es))"

definition blocked_key :: "string \<times> 'x scheduledAuth \<Rightarrow> bool \<times> gtime \<times> string" where
  "blocked_key = (\<lambda>(i, e). (en_nextRetryAt e = 0, en_nextRetryAt e, i))"

definition blocked_ids :: "'x entries \<Rightarrow> string list" where
  "blocked_ids es = map fst (sort_key blocked_key (filter (\<lambda>(i, e). en_state e = StateCooldown \<or> en_state e = StateBlocked) es))"

definition rebuilt_bucket :: "'x entries \<Rightarrow> (int \<times> readyBucket) list \<Rightarrow> int \<Rightarrow> readyBucket" where
  "rebuilt_bucket es old p =
     (let bucket = buildReadyBucket es (ready_ids es p)
      in case map_of old p of
           None \<Rightarrow> bucket
         | Some b \<Rightarrow>
             (let st = snapshot_bucket b
              in bucket\<lparr>rb_all := restoreReadyViewCursors es (bc_all st) (rb_all bucket),
                        rb_ws := restoreReadyViewCursors es (bc_ws st) (rb_ws bucket)\<rparr>))"

definition rebuildIndexesLocked :: "'x modelScheduler \<Rightarrow> 'x modelScheduler" where
  "rebuildIndexesLocked m =
     (let es = ms_entries m; ps = ready_priorities es
      in m\<lparr>ms_readyByPriority := map (\<lambda>p. (p, rebuilt_bucket es (ms_readyByPriority m) p)) ps,
           ms_priorityOrder := rev (sort ps),
           ms_blocked := blocked_ids es\<rparr>)"

section \<open>Entries\<close>

definition supportsModel :: "'x scheduledAuthMeta \<Rightarrow> string \<Rightarrow> bool" where
  "supportsModel me modelKey =
     (let modelKey = canonicalModelKey modelKey
      in if modelKey = [] then True
         else case me_supportedModelSet me of None \<Rightarrow> False | Some ks \<Rightarrow> modelKey \<in> set ks)"

definition classify :: "verdict \<Rightarrow> scheduledState \<times> gtime" where
  "classify v =
     (case v of (blocked, reason, n) \<Rightarrow>
        if \<not> blocked then (StateReady, 0)
        else if reason = blockReasonCooldown then (StateCooldown, n)
        else if reason = blockReasonDisabled then (StateDisabled, 0)
        else (StateBlocked, n))"

definition with_verdict :: "verdict \<Rightarrow> 'x scheduledAuth \<Rightarrow> 'x scheduledAuth" where
  "with_verdict v e = e\<lparr>en_state := fst (classify v), en_nextRetryAt := snd (classify v)\<rparr>"

definition entry_verdict :: "string \<Rightarrow> gtime \<Rightarrow> 'x scheduledAuth \<Rightarrow> verdict" where
  "entry_verdict modelKey now e = isAuthBlockedForModel (entry_auth e) modelKey now"

definition new_entry :: "'x scheduledAuthMeta \<Rightarrow> 'x scheduledAuth" where
  "new_entry me = \<lparr>en_meta = me, en_state = StateReady, en_nextRetryAt = 0\<rparr>"

definition upsertEntryLocked :: "'x scheduledAuthMeta \<Rightarrow> gtime \<Rightarrow> 'x modelScheduler \<Rightarrow> 'x modelScheduler" where
  "upsertEntryLocked me now m =
     (let i = au_ID (me_auth me);
          old = map_of (ms_entries m) i;
          e = with_verdict (entry_verdict (ms_modelKey m) now (new_entry me)) (new_entry me);
          m' = m\<lparr>ms_entries := AList.update i e (ms_entries m)\<rparr>
      in case old of
           None \<Rightarrow> rebuildIndexesLocked m'
         | Some o' \<Rightarrow>
             if en_state o' = en_state e \<and> en_nextRetryAt o' = en_nextRetryAt e \<and>
                entry_priority o' = me_priority me \<and> me_websocketEnabled (en_meta o') = me_websocketEnabled me
             then m' else rebuildIndexesLocked m')"

definition removeEntryLocked :: "string \<Rightarrow> 'x modelScheduler \<Rightarrow> 'x modelScheduler" where
  "removeEntryLocked i m =
     (if i = [] \<or> map_of (ms_entries m) i = None then m
      else rebuildIndexesLocked (m\<lparr>ms_entries := AList.delete i (ms_entries m)\<rparr>))"

text \<open>The flag says whether an entry has changed.\<close>

definition demote_entry :: "string \<Rightarrow> gtime \<Rightarrow> 'x scheduledAuth \<Rightarrow> bool \<times> 'x scheduledAuth" where
  "demote_entry modelKey now e =
     (if en_state e = StateReady \<and> token_expired (entry_auth e) now \<and> fst (entry_verdict modelKey now e)
      then (True, with_verdict (entry_verdict modelKey now e) e) else (False, e))"

definition demoteExpiredTokensLocked :: "gtime \<Rightarrow> 'x modelScheduler \<Rightarrow> bool \<times> 'x modelScheduler" where
  "demoteExpiredTokensLocked now m =
     (list_ex (\<lambda>(i, e). fst (demote_entry (ms_modelKey m) now e)) (ms_entries m),
      m\<lparr>ms_entries := map_vals (\<lambda>e. snd (demote_entry (ms_modelKey m) now e)) (ms_entries m)\<rparr>)"

definition retry_due :: "gtime \<Rightarrow> 'x scheduledAuth \<Rightarrow> bool" where
  "retry_due now e \<longleftrightarrow> \<not> (en_nextRetryAt e = 0 \<or> en_nextRetryAt e > now)"

fun promote_loop :: "string \<Rightarrow> gtime \<Rightarrow> string list \<Rightarrow> bool \<Rightarrow> 'x entries \<Rightarrow> bool \<times> 'x entries" where
  "promote_loop modelKey now [] changed es = (changed, es)"
| "promote_loop modelKey now (i # ids) changed es =
     (case map_of es i of
        None \<Rightarrow> promote_loop modelKey now ids changed es
      | Some e \<Rightarrow>
          if \<not> retry_due now e then promote_loop modelKey now ids changed es
          else promote_loop modelKey now ids True (AList.update i (with_verdict (entry_verdict modelKey now e) e) es))"

definition promoteExpiredLocked :: "gtime \<Rightarrow> 'x modelScheduler \<Rightarrow> 'x modelScheduler" where
  "promoteExpiredLocked now m =
     (let (changed, m) = demoteExpiredTokensLocked now m;
          (changed, es) = promote_loop (ms_modelKey m) now (ms_blocked m) changed (ms_entries m);
          m = m\<lparr>ms_entries := es\<rparr>
      in if changed then rebuildIndexesLocked m else m)"

section \<open>Picking from a shard\<close>

definition bucket_has :: "'x modelScheduler \<Rightarrow> (readyBucket \<Rightarrow> readyView) \<Rightarrow> 'x predicate \<Rightarrow> int \<Rightarrow> bool" where
  "bucket_has m view pred p =
     (case map_of (ms_readyByPriority m) p of
        None \<Rightarrow> False
      | Some b \<Rightarrow> pickFirst (ms_entries m) pred (view b) \<noteq> None)"

definition highestReadyPriorityLocked :: "bool \<Rightarrow> 'x predicate \<Rightarrow> 'x modelScheduler \<Rightarrow> int option" where
  "highestReadyPriorityLocked preferWebsocket pred m =
     (case (if preferWebsocket then find (bucket_has m rb_ws pred) (ms_priorityOrder m) else None) of
        Some p \<Rightarrow> Some p
      | None \<Rightarrow> find (bucket_has m rb_all pred) (ms_priorityOrder m))"

definition strategy_pick :: "schedulerStrategy \<Rightarrow> 'x entries \<Rightarrow> 'x predicate \<Rightarrow> readyView \<Rightarrow> string option \<times> readyView" where
  "strategy_pick strategy es pred v =
     (case strategy of
        StrategyFillFirst \<Rightarrow> (pickFirst es pred v, v)
      | StrategyWeightedRoundRobin \<Rightarrow> pickWeighted es pred v
      | _ \<Rightarrow> pickRoundRobin es pred v)"

definition pickReadyAtPriorityLocked ::
  "bool \<Rightarrow> int \<Rightarrow> schedulerStrategy \<Rightarrow> 'x predicate \<Rightarrow> 'x modelScheduler \<Rightarrow> 'x Auth option \<times> 'x modelScheduler" where
  "pickReadyAtPriorityLocked preferWebsocket priority strategy pred m =
     (case map_of (ms_readyByPriority m) priority of
        None \<Rightarrow> (None, m)
      | Some b \<Rightarrow>
          (let es = ms_entries m; ws = preferWebsocket \<and> pickFirst es pred (rb_ws b) \<noteq> None;
               (picked, v) = strategy_pick strategy es pred (if ws then rb_ws b else rb_all b);
               b' = (if ws then b\<lparr>rb_ws := v\<rparr> else b\<lparr>rb_all := v\<rparr>)
           in (map_option (\<lambda>i. entry_auth (the (map_of es i))) picked,
               m\<lparr>ms_readyByPriority := AList.update priority b' (ms_readyByPriority m)\<rparr>)))"

definition pickReadyLocked ::
  "bool \<Rightarrow> schedulerStrategy \<Rightarrow> 'x predicate \<Rightarrow> gtime \<Rightarrow> 'x modelScheduler \<Rightarrow> 'x Auth option \<times> 'x modelScheduler" where
  "pickReadyLocked preferWebsocket strategy pred now m =
     (let m = promoteExpiredLocked now m
      in case highestReadyPriorityLocked preferWebsocket pred m of
           None \<Rightarrow> (None, m)
         | Some p \<Rightarrow> pickReadyAtPriorityLocked preferWebsocket p strategy pred m)"

definition readyCountAtPriorityLocked :: "bool \<Rightarrow> int \<Rightarrow> 'x predicate \<Rightarrow> 'x modelScheduler \<Rightarrow> nat" where
  "readyCountAtPriorityLocked preferWebsocket priority pred m =
     (case map_of (ms_readyByPriority m) priority of
        None \<Rightarrow> 0
      | Some b \<Rightarrow>
          (let es = ms_entries m; v = (if preferWebsocket \<and> pickFirst es pred (rb_ws b) \<noteq> None then rb_ws b else rb_all b)
           in length (filter (entry_ok es pred) (rv_flat v))))"

section \<open>Why nothing can be picked\<close>

text \<open>The summary counts the candidates of the request, those in a cooldown and those that the provider
  rejected, and finds the earliest retry time (0 when there is none).\<close>

definition summary_step :: "'x scheduledAuth \<Rightarrow> nat \<times> nat \<times> nat \<times> gtime \<Rightarrow> nat \<times> nat \<times> nat \<times> gtime" where
  "summary_step e = (\<lambda>(candidates, cooldownCount, unauthorizedCount, earliest).
     (candidates + 1,
      cooldownCount + (if en_state e = StateCooldown then 1 else 0),
      unauthorizedCount + (if hasUnauthorizedAuthFailure (entry_auth e) then 1 else 0),
      if (en_state e = StateCooldown \<or> en_state e = StateBlocked) \<and> en_nextRetryAt e \<noteq> 0 \<and>
         (earliest = 0 \<or> en_nextRetryAt e < earliest)
      then en_nextRetryAt e else earliest))"

definition availabilitySummaryLocked :: "'x predicate \<Rightarrow> 'x modelScheduler \<Rightarrow> nat \<times> nat \<times> nat \<times> gtime" where
  "availabilitySummaryLocked pred m = fold (\<lambda>(i, e) s. if pred e then summary_step e s else s) (ms_entries m) (0, 0, 0, 0)"

datatype cause = CauseError Error | CauseMessage string

definition error_or_message :: "Error option \<Rightarrow> string \<Rightarrow> cause option" where
  "error_or_message err msg =
     (case err of Some e \<Rightarrow> Some (CauseError e) | None \<Rightarrow> if TrimSpace msg \<noteq> [] then Some (CauseMessage msg) else None)"

text \<open>An error with the time it was recorded and the credential it belongs to; the later one wins, of
  two at the same time the one of the credential with the greater id.\<close>

type_synonym dated = "cause \<times> gtime \<times> string"

definition newer :: "cause option \<Rightarrow> gtime \<Rightarrow> string \<Rightarrow> dated option \<Rightarrow> dated option" where
  "newer cur curTime i known =
     (case cur of
        None \<Rightarrow> known
      | Some c \<Rightarrow>
          (case known of
             None \<Rightarrow> Some (c, curTime, i)
           | Some (_, t, j) \<Rightarrow> if curTime > t \<or> (curTime = t \<and> i > j) then Some (c, curTime, i) else known))"

definition state_of_model :: "'x Auth \<Rightarrow> string \<Rightarrow> ModelState option" where
  "state_of_model a model =
     (case map_of (au_ModelStates a) model of
        Some (Some st) \<Rightarrow> Some st
      | _ \<Rightarrow> (case map_of (au_ModelStates a) (canonicalModelKey model) of Some (Some st) \<Rightarrow> Some st | _ \<Rightarrow> None))"

definition candidate_step :: "string \<Rightarrow> 'x scheduledAuth \<Rightarrow> dated option \<times> dated option \<Rightarrow> dated option \<times> dated option" where
  "candidate_step model e = (\<lambda>(modelErr, authErr).
     (let a = entry_auth e;
          (curModelErr, curModelTime) =
            (case state_of_model a model of
               None \<Rightarrow> (None, 0)
             | Some st \<Rightarrow> (error_or_message (mo_LastError st) (mo_StatusMessage st), mo_UpdatedAt st));
          curModelTime = (if curModelTime = 0 then au_UpdatedAt a else curModelTime)
      in (newer curModelErr curModelTime (au_ID a) modelErr,
          newer (error_or_message (au_LastError a) (au_StatusMessage a)) (au_UpdatedAt a) (au_ID a) authErr)))"

definition candidateErrorsLocked :: "string \<Rightarrow> 'x predicate \<Rightarrow> 'x modelScheduler \<Rightarrow> dated option \<times> dated option" where
  "candidateErrorsLocked model pred m = fold (\<lambda>(i, e) s. if pred e then candidate_step model e s else s) (ms_entries m) (None, None)"

definition latestCandidateErrorWithTimeLocked :: "string \<Rightarrow> 'x predicate \<Rightarrow> 'x modelScheduler \<Rightarrow> dated option" where
  "latestCandidateErrorWithTimeLocked model pred m =
     (case candidateErrorsLocked model pred m of (modelErr, authErr) \<Rightarrow> if modelErr \<noteq> None then modelErr else authErr)"

datatype schedule_error =
  PlainError Error "cause option"
| ModelCooldownError string string gdur "cause option"
| TerminalAuthError Error "cause option"
| AuthUnavailableError Error gdur "cause option"

definition authError :: "string \<Rightarrow> string \<Rightarrow> int \<Rightarrow> bool \<Rightarrow> Error" where
  "authError code message status retryable = \<lparr>er_Code = code, er_Message = message, er_Retryable = retryable, er_HTTPStatus = status\<rparr>"

definition auth_not_found :: "cause option \<Rightarrow> schedule_error" where
  "auth_not_found c = PlainError (authError ''auth_not_found'' ''no auth available'' 0 False) c"

definition newModelCooldownErrorWithCause :: "string \<Rightarrow> string \<Rightarrow> gdur \<Rightarrow> cause option \<Rightarrow> schedule_error" where
  "newModelCooldownErrorWithCause model provider resetIn c = ModelCooldownError model provider (if resetIn < 0 then 0 else resetIn) c"

definition newAuthUnavailableErrorWithCause :: "gtime \<Rightarrow> gtime \<Rightarrow> cause option \<Rightarrow> schedule_error" where
  "newAuthUnavailableErrorWithCause n now c =
     (if n > now then AuthUnavailableError (authError ''auth_unavailable'' ''no auth available'' 503 True) (time_sub n now) c
      else PlainError (authError ''auth_unavailable'' ''no auth available'' 0 False) c)"

text \<open>The tail that \<open>unavailableErrorLocked\<close> and \<open>mixedUnavailableErrorLocked\<close> share.\<close>

definition classified_error ::
  "string \<Rightarrow> string \<Rightarrow> gtime \<Rightarrow> nat \<times> nat \<times> nat \<times> gtime \<Rightarrow> cause option \<Rightarrow> cause option \<Rightarrow> schedule_error" where
  "classified_error provider model now summary authErr lastCandidateErr =
     (case summary of (candidates, cooldownCount, unauthorizedCount, earliest) \<Rightarrow>
        if candidates = 0 then auth_not_found lastCandidateErr
        else if cooldownCount = candidates \<and> earliest \<noteq> 0
        then (let resetIn = time_sub earliest now
              in newModelCooldownErrorWithCause model provider (if resetIn < 0 then 0 else resetIn) lastCandidateErr)
        else if unauthorizedCount = candidates
        then TerminalAuthError (authError ''auth_unavailable'' ''no auth available'' 503 False)
               (if authErr = None then lastCandidateErr else authErr)
        else newAuthUnavailableErrorWithCause earliest now lastCandidateErr)"

definition unavailableErrorLocked :: "string \<Rightarrow> string \<Rightarrow> 'x predicate \<Rightarrow> gtime \<Rightarrow> 'x modelScheduler \<Rightarrow> schedule_error" where
  "unavailableErrorLocked provider model pred now m =
     classified_error (if provider = ''mixed'' then [] else provider) model now (availabilitySummaryLocked pred m)
       (map_option fst (snd (candidateErrorsLocked model pred m)))
       (map_option fst (latestCandidateErrorWithTimeLocked model pred m))"

end
