(* ===== verification/AuthScheduler.thy ===== *)
theory AuthScheduler
  imports ModelShard
begin

text \<open>
  The credential scheduler (\<open>authScheduler\<close> and \<open>providerScheduler\<close> in
  \<open>src/sdk/cliproxy/auth/scheduler.go\<close>): the credentials by provider with their model shards, the
  newest generation seen of every credential, and the picks for one and for several providers.

  Every operation runs under the scheduler's mutex, so the operations are functions on the state.
  What the scheduler asks the global model registry is the argument \<open>registry_view\<close>; the readings of
  the clock are arguments; the request is a record with the outcome of the eligibility check of the
  source (\<open>authSelectionEligibility.allows\<close>), the pinned credential and the transport.
\<close>

section \<open>State\<close>

record 'x providerScheduler =
  ps_providerKey :: string
  ps_auths :: "(string \<times> 'x scheduledAuthMeta) list"
  ps_modelShards :: "(string \<times> 'x modelScheduler) list"

record scheduledGenerationMeta =
  gm_epoch :: nat
  gm_generation :: nat
  gm_updatedAt :: gtime

record 'x authScheduler =
  as_strategy :: schedulerStrategy
  as_providers :: "(string \<times> 'x providerScheduler) list"
  as_authProviders :: "(string \<times> string) list"
  as_authGenerations :: "(string \<times> scheduledGenerationMeta) list"
  as_mixedCursors :: "(string \<times> nat) list"
  as_mixedWeightedStates :: "(string \<times> smoothWeightedState) list"

record registry_view =
  rw_epoch :: "string \<Rightarrow> nat"
  rw_models :: "string \<Rightarrow> string option list"

datatype selector = NilSelector | RoundRobinSelector | FillFirstSelector | WeightedRoundRobinSelector | OtherSelector

fun selectorStrategy :: "selector \<Rightarrow> schedulerStrategy" where
  "selectorStrategy FillFirstSelector = StrategyFillFirst"
| "selectorStrategy WeightedRoundRobinSelector = StrategyWeightedRoundRobin"
| "selectorStrategy NilSelector = StrategyRoundRobin"
| "selectorStrategy RoundRobinSelector = StrategyRoundRobin"
| "selectorStrategy OtherSelector = StrategyCustom"

definition newAuthScheduler :: "selector \<Rightarrow> 'x authScheduler" where
  "newAuthScheduler sel = \<lparr>as_strategy = selectorStrategy sel, as_providers = [], as_authProviders = [],
     as_authGenerations = [], as_mixedCursors = [], as_mixedWeightedStates = []\<rparr>"

definition setSelector :: "selector \<Rightarrow> 'x authScheduler \<Rightarrow> 'x authScheduler" where
  "setSelector sel s = s\<lparr>as_strategy := selectorStrategy sel, as_mixedCursors := [], as_mixedWeightedStates := []\<rparr>"

section \<open>One provider\<close>

definition supportedModelSetForAuth :: "registry_view \<Rightarrow> string \<Rightarrow> string list option" where
  "supportedModelSetForAuth rw authID =
     (let authID = TrimSpace authID
      in if authID = [] \<or> rw_models rw authID = [] then None
         else Some (remdups (filter (\<lambda>k. k \<noteq> [])
           (concat (map (\<lambda>m. case m of None \<Rightarrow> [] | Some i \<Rightarrow> [canonicalModelKey i]) (rw_models rw authID))))))"

definition buildScheduledAuthMetaWithModelSet :: "'x Auth \<Rightarrow> string list option \<Rightarrow> nat \<Rightarrow> 'x scheduledAuthMeta" where
  "buildScheduledAuthMetaWithModelSet a modelSet regEpoch =
     \<lparr>me_auth = a, me_providerKey = executorKeyFromAuth a, me_priority = authPriority a, me_weight = authWeight a,
      me_websocketEnabled = authWebsocketsEnabled a, me_supportedModelSet = modelSet, me_registryEpoch = regEpoch\<rparr>"

text \<open>What an update of a credential does to one shard.\<close>

definition sync_shard :: "'x scheduledAuthMeta \<Rightarrow> gtime \<Rightarrow> string \<Rightarrow> 'x modelScheduler \<Rightarrow> 'x modelScheduler" where
  "sync_shard me now modelKey shard =
     (if \<not> supportsModel me modelKey then removeEntryLocked (au_ID (me_auth me)) shard else upsertEntryLocked me now shard)"

fun target_loop :: "'x scheduledAuthMeta \<Rightarrow> gtime \<Rightarrow> string list \<Rightarrow> string list \<Rightarrow>
    (string \<times> 'x modelScheduler) list \<Rightarrow> (string \<times> 'x modelScheduler) list" where
  "target_loop me now seen [] shards = shards"
| "target_loop me now seen (m # ms) shards =
     (let modelKey = canonicalModelKey m
      in if modelKey \<in> set seen then target_loop me now seen ms shards
         else target_loop me now (modelKey # seen) ms (adjust modelKey (sync_shard me now modelKey) shards))"

definition updateTargetShardsLocked :: "'x scheduledAuthMeta \<Rightarrow> string list \<Rightarrow> gtime \<Rightarrow> 'x providerScheduler \<Rightarrow> 'x providerScheduler" where
  "updateTargetShardsLocked me targetModels now p =
     p\<lparr>ps_modelShards := target_loop me now [] targetModels (adjust [] (sync_shard me now []) (ps_modelShards p))\<rparr>"

definition upsertAuthForModelsLocked ::
  "'x scheduledAuthMeta \<Rightarrow> string list \<Rightarrow> bool \<Rightarrow> gtime \<Rightarrow> 'x providerScheduler \<Rightarrow> 'x providerScheduler" where
  "upsertAuthForModelsLocked me targetModels credentialScoped now p =
     (let p = p\<lparr>ps_auths := AList.update (au_ID (me_auth me)) me (ps_auths p)\<rparr>
      in if credentialScoped \<or> targetModels = []
         then p\<lparr>ps_modelShards := map (\<lambda>(k, shard). (k, sync_shard me now k shard)) (ps_modelShards p)\<rparr>
         else updateTargetShardsLocked me targetModels now p)"

definition provider_removeAuthLocked :: "string \<Rightarrow> 'x providerScheduler \<Rightarrow> 'x providerScheduler" where
  "provider_removeAuthLocked authID p =
     (if authID = [] then p
      else p\<lparr>ps_auths := AList.delete authID (ps_auths p),
             ps_modelShards := map_vals (removeEntryLocked authID) (ps_modelShards p)\<rparr>)"

definition built_shard :: "string \<Rightarrow> gtime \<Rightarrow> (string \<times> 'x scheduledAuthMeta) list \<Rightarrow> 'x modelScheduler" where
  "built_shard modelKey now auths =
     fold (\<lambda>(i, me) shard. if \<not> supportsModel me modelKey then shard else upsertEntryLocked me now shard) auths (new_shard modelKey)"

text \<open>The shard for a model, refreshed or built from the provider's credentials.\<close>

definition ensureModelLocked :: "string \<Rightarrow> gtime \<Rightarrow> 'x providerScheduler \<Rightarrow> 'x modelScheduler \<times> 'x providerScheduler" where
  "ensureModelLocked model now p =
     (let modelKey = canonicalModelKey model;
          shard = (case map_of (ps_modelShards p) modelKey of
                     Some shard \<Rightarrow> promoteExpiredLocked now shard
                   | None \<Rightarrow> built_shard modelKey now (ps_auths p))
      in (shard, p\<lparr>ps_modelShards := AList.update modelKey shard (ps_modelShards p)\<rparr>))"

section \<open>Credentials come and go\<close>

definition new_provider :: "string \<Rightarrow> 'x providerScheduler" where
  "new_provider k = \<lparr>ps_providerKey = k, ps_auths = [], ps_modelShards = []\<rparr>"

definition ensureProviderLocked :: "string \<Rightarrow> 'x authScheduler \<Rightarrow> 'x providerScheduler" where
  "ensureProviderLocked k s = (case map_of (as_providers s) k of None \<Rightarrow> new_provider k | Some p \<Rightarrow> p)"

definition set_provider :: "string \<Rightarrow> 'x providerScheduler \<Rightarrow> 'x authScheduler \<Rightarrow> 'x authScheduler" where
  "set_provider k p s = s\<lparr>as_providers := AList.update k p (as_providers s)\<rparr>"

definition isSchedulableAuth :: "'x Auth \<Rightarrow> (string \<times> string) option" where
  "isSchedulableAuth a =
     (let authID = TrimSpace (au_ID a); providerKey = executorKeyFromAuth a
      in if au_Disabled a \<or> au_Status a = StatusDisabled \<or> authID = [] \<or> providerKey = [] then None
         else Some (authID, providerKey))"

definition isStaleScheduledAuth :: "string \<Rightarrow> nat \<Rightarrow> nat \<Rightarrow> gtime \<Rightarrow> 'x authScheduler \<Rightarrow> bool" where
  "isStaleScheduledAuth authID incomingEpoch incomingGen incomingUpdatedAt s =
     (case map_of (as_authGenerations s) authID of
        None \<Rightarrow> False
      | Some existing \<Rightarrow>
          gm_epoch existing > incomingEpoch \<or>
          (gm_epoch existing = incomingEpoch \<and>
            (gm_generation existing > incomingGen \<or>
             (gm_generation existing = incomingGen \<and> gm_updatedAt existing > incomingUpdatedAt))))"

definition set_generation :: "string \<Rightarrow> nat \<Rightarrow> nat \<Rightarrow> gtime \<Rightarrow> 'x authScheduler \<Rightarrow> 'x authScheduler" where
  "set_generation authID e g t s =
     s\<lparr>as_authGenerations := AList.update authID \<lparr>gm_epoch = e, gm_generation = g, gm_updatedAt = t\<rparr> (as_authGenerations s)\<rparr>"

definition removeAuthFromProvidersLocked :: "string \<Rightarrow> 'x authScheduler \<Rightarrow> 'x authScheduler" where
  "removeAuthFromProvidersLocked authID s =
     (let providerKey = attr (as_authProviders s) authID
      in if providerKey = [] then s
         else s\<lparr>as_providers := adjust providerKey (provider_removeAuthLocked authID) (as_providers s),
                as_authProviders := AList.delete authID (as_authProviders s)\<rparr>)"

definition recordRemovalTombstoneLocked :: "string \<Rightarrow> nat \<Rightarrow> gtime \<Rightarrow> 'x authScheduler \<Rightarrow> 'x authScheduler" where
  "recordRemovalTombstoneLocked authID tombstoneEpoch now s =
     (if authID = [] then s
      else case map_of (as_authGenerations s) authID of
          Some existing \<Rightarrow>
            if tombstoneEpoch < gm_epoch existing then s
            else removeAuthFromProvidersLocked authID (set_generation authID tombstoneEpoch 0 now s)
        | None \<Rightarrow> removeAuthFromProvidersLocked authID (set_generation authID tombstoneEpoch 0 now s))"

definition RecordRemovalTombstone :: "string \<Rightarrow> nat \<Rightarrow> gtime \<Rightarrow> 'x authScheduler \<Rightarrow> 'x authScheduler" where
  "RecordRemovalTombstone authID tombstoneEpoch now s = recordRemovalTombstoneLocked (TrimSpace authID) tombstoneEpoch now s"

definition removeAuthLocked :: "string \<Rightarrow> gtime \<Rightarrow> 'x authScheduler \<Rightarrow> 'x authScheduler" where
  "removeAuthLocked authID now s =
     (if authID = [] then s
      else let epoch = (case map_of (as_authGenerations s) authID of None \<Rightarrow> 1 | Some existing \<Rightarrow> gm_epoch existing + 1)
           in removeAuthFromProvidersLocked authID (set_generation authID epoch 0 now s))"

definition removeAuth :: "string \<Rightarrow> gtime \<Rightarrow> 'x authScheduler \<Rightarrow> 'x authScheduler" where
  "removeAuth authID now s = removeAuthLocked (TrimSpace authID) now s"

definition ResetAuthGeneration :: "string \<Rightarrow> 'x authScheduler \<Rightarrow> 'x authScheduler" where
  "ResetAuthGeneration authID s =
     (let authID = TrimSpace authID
      in if authID = [] then s else s\<lparr>as_authGenerations := AList.delete authID (as_authGenerations s)\<rparr>)"

text \<open>A credential that changes its provider leaves the previous one.\<close>

definition leave_previous :: "string \<Rightarrow> string \<Rightarrow> 'x authScheduler \<Rightarrow> 'x authScheduler" where
  "leave_previous authID providerKey s =
     (let previousProvider = attr (as_authProviders s) authID
      in if previousProvider \<noteq> [] \<and> previousProvider \<noteq> providerKey
         then s\<lparr>as_providers := adjust previousProvider (provider_removeAuthLocked authID) (as_providers s)\<rparr>
         else s)"

text \<open>The last steps of the three upserts: the metadata goes to the provider and its shards.\<close>

definition place_auth ::
  "string \<Rightarrow> string \<Rightarrow> 'x scheduledAuthMeta \<Rightarrow> string list \<Rightarrow> bool \<Rightarrow> gtime \<Rightarrow> 'x authScheduler \<Rightarrow> 'x authScheduler" where
  "place_auth authID providerKey me targetModels credentialScoped now s =
     set_provider providerKey (upsertAuthForModelsLocked me targetModels credentialScoped now (ensureProviderLocked providerKey s))
       (s\<lparr>as_authProviders := AList.update authID providerKey (as_authProviders s)\<rparr>)"

definition unschedulable :: "'x Auth \<Rightarrow> bool" where
  "unschedulable a \<longleftrightarrow> executorKeyFromAuth a = [] \<or> au_Disabled a \<or> au_Status a = StatusDisabled"

definition upsertAuthLifecycleLocked :: "registry_view \<Rightarrow> 'x Auth \<Rightarrow> gtime \<Rightarrow> 'x authScheduler \<Rightarrow> 'x authScheduler" where
  "upsertAuthLifecycleLocked rw a now s =
     (let authID = TrimSpace (au_ID a)
      in if authID = [] then s
         else if isStaleScheduledAuth authID (au_RegistrationEpoch a) (au_Generation a) (au_UpdatedAt a) s then s
         else let s = set_generation authID (au_RegistrationEpoch a) (au_Generation a) (au_UpdatedAt a) s;
                  providerKey = executorKeyFromAuth a
              in if unschedulable a then removeAuthFromProvidersLocked authID s
                 else place_auth authID providerKey
                   (buildScheduledAuthMetaWithModelSet a (supportedModelSetForAuth rw (au_ID a)) (rw_epoch rw authID))
                   [] True now (leave_previous authID providerKey s))"

text \<open>A stale result still brings the shards in its scope up to the newest recorded state.\<close>

definition refresh_latest :: "string \<Rightarrow> string \<Rightarrow> string list \<Rightarrow> bool \<Rightarrow> gtime \<Rightarrow> 'x authScheduler \<Rightarrow> 'x authScheduler" where
  "refresh_latest authID providerKey targetModels credentialScoped now s =
     (case (if providerKey = [] then None else map_of (as_providers s) providerKey) of
        None \<Rightarrow> s
      | Some p \<Rightarrow>
          (case map_of (ps_auths p) authID of
             None \<Rightarrow> s
           | Some latestMeta \<Rightarrow> set_provider providerKey (upsertAuthForModelsLocked latestMeta targetModels credentialScoped now p) s))"

text \<open>The models the existing metadata may be trusted for; \<^const>\<open>None\<close> when they have to be read again.\<close>

definition cached_models :: "nat \<Rightarrow> 'x scheduledAuthMeta option \<Rightarrow> string list option" where
  "cached_models currentRegEpoch existingMeta =
     (case existingMeta of
        None \<Rightarrow> None
      | Some em \<Rightarrow> if me_registryEpoch em = currentRegEpoch then me_supportedModelSet em else None)"

definition place_result ::
  "registry_view \<Rightarrow> 'x Auth \<Rightarrow> string \<Rightarrow> string \<Rightarrow> string list \<Rightarrow> bool \<Rightarrow> gtime \<Rightarrow> 'x authScheduler \<Rightarrow> 'x authScheduler" where
  "place_result rw a authID providerKey targetModels credentialScoped now s =
     (let currentRegEpoch = rw_epoch rw authID;
          existingMeta = map_of (ps_auths (ensureProviderLocked providerKey s)) authID;
          modelSetChanged = (cached_models currentRegEpoch existingMeta = None);
          modelSet = (if modelSetChanged then supportedModelSetForAuth rw (au_ID a) else cached_models currentRegEpoch existingMeta);
          me = buildScheduledAuthMetaWithModelSet a modelSet currentRegEpoch;
          modelCount = (case modelSet of None \<Rightarrow> 0 | Some ks \<Rightarrow> length ks);
          wasBlocked = (case existingMeta of None \<Rightarrow> False | Some em \<Rightarrow> isCredentialBlocked (me_auth em) modelCount now);
          isBlocked = isCredentialBlocked a modelCount now
      in if modelSetChanged \<or> credentialScoped \<or> wasBlocked \<noteq> isBlocked \<or> targetModels = []
         then place_auth authID providerKey me [] True now s
         else place_auth authID providerKey me targetModels credentialScoped now s)"

definition upsertAuthResultLocked ::
  "registry_view \<Rightarrow> 'x Auth \<Rightarrow> string list \<Rightarrow> bool \<Rightarrow> gtime \<Rightarrow> 'x authScheduler \<Rightarrow> 'x authScheduler" where
  "upsertAuthResultLocked rw a targetModels credentialScoped now s =
     (let authID = TrimSpace (au_ID a); providerKey = executorKeyFromAuth a
      in if authID = [] then s
         else if isStaleScheduledAuth authID (au_RegistrationEpoch a) (au_Generation a) (au_UpdatedAt a) s
         then refresh_latest authID providerKey targetModels credentialScoped now s
         else let s = set_generation authID (au_RegistrationEpoch a) (au_Generation a) (au_UpdatedAt a) s
              in if unschedulable a then removeAuthFromProvidersLocked authID s
                 else place_result rw a authID providerKey targetModels credentialScoped now (leave_previous authID providerKey s))"

section \<open>Rebuilding\<close>

definition existing_metas :: "'x authScheduler \<Rightarrow> (string \<times> 'x scheduledAuthMeta) list" where
  "existing_metas s = fold (\<lambda>(k, p) m. fold (\<lambda>(i, me) m. AList.update i me m) (ps_auths p) m) (as_providers s) []"

text \<open>The snapshot to schedule: the incoming one, or the one the scheduler already has when that is of
  a later generation of the same registration (none when that one is gone or disabled).\<close>

definition chosen_auth :: "'x Auth \<Rightarrow> scheduledGenerationMeta option \<Rightarrow> 'x scheduledAuthMeta option \<Rightarrow> 'x Auth option" where
  "chosen_auth a known existingMeta =
     (case known of
        None \<Rightarrow> Some a
      | Some g \<Rightarrow>
          if gm_epoch g = au_RegistrationEpoch a \<and> gm_generation g > au_Generation a
          then (case existingMeta of
                  None \<Rightarrow> None
                | Some me \<Rightarrow>
                    if au_Disabled (me_auth me) \<or> au_Status (me_auth me) = StatusDisabled then None else Some (me_auth me))
          else Some a)"

definition effective_generation :: "'x Auth \<Rightarrow> scheduledGenerationMeta option \<Rightarrow> nat \<times> gtime" where
  "effective_generation b known =
     (case known of
        None \<Rightarrow> (au_Generation b, au_UpdatedAt b)
      | Some e \<Rightarrow>
          if gm_epoch e = au_RegistrationEpoch b \<and> gm_generation e > au_Generation b
          then (gm_generation e, if gm_updatedAt e > au_UpdatedAt b then gm_updatedAt e else au_UpdatedAt b)
          else (au_Generation b, au_UpdatedAt b))"

definition place_rebuilt :: "registry_view \<Rightarrow> 'x Auth \<Rightarrow> string \<Rightarrow> gtime \<Rightarrow> 'x authScheduler \<Rightarrow> 'x authScheduler" where
  "place_rebuilt rw b authID now s =
     (if unschedulable b then removeAuthFromProvidersLocked authID s
      else let (g, t) = effective_generation b (map_of (as_authGenerations s) authID);
               providerKey = executorKeyFromAuth b
           in place_auth authID providerKey
                (buildScheduledAuthMetaWithModelSet b (supportedModelSetForAuth rw (au_ID b)) (rw_epoch rw authID))
                [] True now (leave_previous authID providerKey (set_generation authID (au_RegistrationEpoch b) g t s)))"

definition upsertAuthRebuildLocked ::
  "registry_view \<Rightarrow> 'x Auth \<Rightarrow> (string \<times> 'x scheduledAuthMeta) list \<Rightarrow> gtime \<Rightarrow> 'x authScheduler \<Rightarrow> 'x authScheduler" where
  "upsertAuthRebuildLocked rw a metas now s =
     (let authID = TrimSpace (au_ID a); known = map_of (as_authGenerations s) authID
      in if authID = [] \<or> (case known of None \<Rightarrow> False | Some g \<Rightarrow> gm_epoch g > au_RegistrationEpoch a) then s
         else case chosen_auth a known (map_of metas authID) of
             None \<Rightarrow> s
           | Some b \<Rightarrow> place_rebuilt rw b authID now s)"

definition rebuild :: "registry_view \<Rightarrow> 'x Auth list \<Rightarrow> gtime \<Rightarrow> 'x authScheduler \<Rightarrow> 'x authScheduler" where
  "rebuild rw auths now s =
     (let metas = existing_metas s
      in fold (\<lambda>a. upsertAuthRebuildLocked rw a metas now) auths
           (s\<lparr>as_providers := [], as_authProviders := [], as_mixedCursors := [], as_mixedWeightedStates := []\<rparr>))"

definition out_of_sync :: "registry_view \<Rightarrow> 'x authScheduler \<Rightarrow> 'x Auth \<Rightarrow> bool" where
  "out_of_sync rw s a =
     (case isSchedulableAuth a of
        None \<Rightarrow> TrimSpace (au_ID a) \<noteq> [] \<and> map_of (as_authProviders s) (TrimSpace (au_ID a)) \<noteq> None
      | Some (authID, providerKey) \<Rightarrow>
          attr (as_authProviders s) authID \<noteq> providerKey \<or>
          (case map_of (as_providers s) providerKey of
             None \<Rightarrow> True
           | Some p \<Rightarrow>
               (case map_of (ps_auths p) authID of
                  None \<Rightarrow> True
                | Some me \<Rightarrow>
                    (case map_of (as_authGenerations s) authID of
                       None \<Rightarrow> True
                     | Some g \<Rightarrow> gm_epoch g \<noteq> au_RegistrationEpoch a) \<or>
                    me_registryEpoch me \<noteq> rw_epoch rw authID)))"

definition needsSyncFromMapLocked :: "registry_view \<Rightarrow> 'x Auth list \<Rightarrow> 'x authScheduler \<Rightarrow> bool" where
  "needsSyncFromMapLocked rw auths s \<longleftrightarrow>
     length (filter (\<lambda>a. isSchedulableAuth a \<noteq> None) auths) \<noteq> length (as_authProviders s) \<or>
     list_ex (out_of_sync rw s) auths"

section \<open>Requests\<close>

record 'x request =
  rq_allows :: "'x Auth \<Rightarrow> bool"
  rq_pinned :: string
  rq_downstreamWebsocket :: bool

definition scheduledAuthPredicate :: "'x request \<Rightarrow> string list \<Rightarrow> string \<Rightarrow> bool \<Rightarrow> 'x predicate" where
  "scheduledAuthPredicate rq tried pinnedAuthID requirePositiveWeight e \<longleftrightarrow>
     rq_allows rq (entry_auth e) \<and> (requirePositiveWeight \<longrightarrow> me_weight (en_meta e) > 0) \<and>
     (pinnedAuthID \<noteq> [] \<longrightarrow> au_ID (entry_auth e) = pinnedAuthID) \<and> au_ID (entry_auth e) \<notin> set tried"

definition providerPrefersWebsocketTransport :: "string \<Rightarrow> bool" where
  "providerPrefersWebsocketTransport providerKey \<longleftrightarrow> ToLower (TrimSpace providerKey) \<in> set [''codex'', ''xai'']"

fun normalize_loop :: "string list \<Rightarrow> string list \<Rightarrow> string list" where
  "normalize_loop seen [] = []"
| "normalize_loop seen (p # ps) =
     (let providerKey = canonicalSchedulingProvider p
      in if providerKey = [] \<or> providerKey \<in> set seen then normalize_loop seen ps
         else providerKey # normalize_loop (providerKey # seen) ps)"

definition normalizeProviderKeys :: "string list \<Rightarrow> string list" where
  "normalizeProviderKeys providers = normalize_loop [] providers"

definition containsProvider :: "string list \<Rightarrow> string \<Rightarrow> bool" where
  "containsProvider providers p \<longleftrightarrow> list_ex (\<lambda>c. c = p) providers"

definition effective_strategy :: "schedulerStrategy \<Rightarrow> 'x authScheduler \<Rightarrow> schedulerStrategy" where
  "effective_strategy strategy s = (if strategy = StrategyCurrent then as_strategy s else strategy)"

text \<open>Writing a shard back: the source holds a pointer to it.\<close>

definition set_shard :: "string \<Rightarrow> string \<Rightarrow> 'x modelScheduler \<Rightarrow> 'x authScheduler \<Rightarrow> 'x authScheduler" where
  "set_shard providerKey modelKey shard s =
     s\<lparr>as_providers := adjust providerKey
         (\<lambda>p. p\<lparr>ps_modelShards := AList.update modelKey shard (ps_modelShards p)\<rparr>) (as_providers s)\<rparr>"

definition ensure_shard :: "string \<Rightarrow> string \<Rightarrow> gtime \<Rightarrow> 'x authScheduler \<Rightarrow> 'x modelScheduler option \<times> 'x authScheduler" where
  "ensure_shard providerKey model now s =
     (case map_of (as_providers s) providerKey of
        None \<Rightarrow> (None, s)
      | Some p \<Rightarrow>
          (let shard = fst (ensureModelLocked model now p)
           in (Some shard, set_shard providerKey (canonicalModelKey model) shard s)))"

text \<open>The three clock readings are those of \<open>ensureModelLocked\<close>, \<open>pickReadyLocked\<close> and
  \<open>unavailableErrorLocked\<close>. The answer carries the credential and its provider.\<close>

definition pickSingleWithStrategy ::
  "string \<Rightarrow> string \<Rightarrow> 'x request \<Rightarrow> string list \<Rightarrow> schedulerStrategy \<Rightarrow> gtime \<times> gtime \<times> gtime \<Rightarrow> 'x authScheduler \<Rightarrow>
     (schedule_error + 'x Auth) \<times> 'x authScheduler" where
  "pickSingleWithStrategy provider model rq tried strategy clock s =
     (case clock of (t1, t2, t3) \<Rightarrow>
        let providerKey = canonicalSchedulingProvider provider;
            modelKey = canonicalModelKey model;
            preferWebsocket = (rq_downstreamWebsocket rq \<and> providerPrefersWebsocketTransport providerKey \<and> rq_pinned rq = []);
            strategy = effective_strategy strategy s
        in case ensure_shard providerKey modelKey t1 s of
             (None, s) \<Rightarrow> (Inl (auth_not_found None), s)
           | (Some shard, s) \<Rightarrow>
               (let pred = scheduledAuthPredicate rq tried (rq_pinned rq) (strategy = StrategyWeightedRoundRobin);
                    (picked, shard) = pickReadyLocked preferWebsocket strategy pred t2 shard;
                    s = set_shard providerKey (canonicalModelKey modelKey) shard s
                in case picked of
                     Some a \<Rightarrow> (Inr a, s)
                   | None \<Rightarrow> (Inl (unavailableErrorLocked provider model pred t3 shard), s)))"

section \<open>Several providers\<close>

fun shard_at :: "'x authScheduler \<Rightarrow> string \<Rightarrow> string \<Rightarrow> 'x modelScheduler option" where
  "shard_at s modelKey providerKey =
     (case map_of (as_providers s) providerKey of None \<Rightarrow> None | Some p \<Rightarrow> map_of (ps_modelShards p) modelKey)"

text \<open>The first loop: every provider's shard is refreshed, the best priority found.\<close>

fun mixed_scan :: "string list \<Rightarrow> string \<Rightarrow> gtime \<Rightarrow> 'x predicate \<Rightarrow> int option \<Rightarrow> 'x authScheduler \<Rightarrow> int option \<times> 'x authScheduler" where
  "mixed_scan [] modelKey now pred found s = (found, s)"
| "mixed_scan (k # ks) modelKey now pred found s =
     (case ensure_shard k modelKey now s of
        (None, s) \<Rightarrow> mixed_scan ks modelKey now pred found s
      | (Some shard, s) \<Rightarrow>
          (case highestReadyPriorityLocked False pred shard of
             None \<Rightarrow> mixed_scan ks modelKey now pred found s
           | Some p \<Rightarrow>
               mixed_scan ks modelKey now pred
                 (case found of None \<Rightarrow> Some p | Some q \<Rightarrow> Some (if p > q then p else q)) s))"

text \<open>Picking at a priority from the shard of a provider.\<close>

definition mixed_pick_at :: "string \<Rightarrow> string \<Rightarrow> int \<Rightarrow> schedulerStrategy \<Rightarrow> 'x predicate \<Rightarrow> 'x authScheduler \<Rightarrow> 'x Auth option \<times> 'x authScheduler" where
  "mixed_pick_at providerKey modelKey priority strategy pred s =
     (case shard_at s modelKey providerKey of
        None \<Rightarrow> (None, s)
      | Some shard \<Rightarrow>
          (case pickReadyAtPriorityLocked False priority strategy pred shard of
             (picked, shard) \<Rightarrow> (picked, set_shard providerKey modelKey shard s)))"

fun mixed_fill_first :: "string list \<Rightarrow> string \<Rightarrow> int \<Rightarrow> 'x predicate \<Rightarrow> 'x authScheduler \<Rightarrow> ('x Auth \<times> string) option \<times> 'x authScheduler" where
  "mixed_fill_first [] modelKey priority pred s = (None, s)"
| "mixed_fill_first (k # ks) modelKey priority pred s =
     (case mixed_pick_at k modelKey priority StrategyFillFirst pred s of
        (Some a, s) \<Rightarrow> (Some (a, k), s)
      | (None, s) \<Rightarrow> mixed_fill_first ks modelKey priority pred s)"

definition bucket_entries :: "'x modelScheduler \<Rightarrow> int \<Rightarrow> 'x entries" where
  "bucket_entries shard priority =
     (case map_of (ms_readyByPriority shard) priority of
        None \<Rightarrow> []
      | Some b \<Rightarrow> concat (map (\<lambda>i. case map_of (ms_entries shard) i of None \<Rightarrow> [] | Some e \<Rightarrow> [(i, e)]) (rv_flat (rb_all b))))"

definition mixed_weighted :: "string \<Rightarrow> 'x entries \<Rightarrow> 'x predicate \<Rightarrow> 'x authScheduler \<Rightarrow> ('x Auth \<times> string) option \<times> 'x authScheduler" where
  "mixed_weighted cursorKey entries pred s =
     (let es = sort_key fst entries;
          state = (case map_of (as_mixedWeightedStates s) cursorKey of None \<Rightarrow> no_credits | Some st \<Rightarrow> st);
          weights = fold (\<lambda>(i, e). AList.update i (me_weight (en_meta e))) (filter (\<lambda>(i, e). me_weight (en_meta e) > 0 \<and> pred e) es) [];
          state = prepare weights state;
          (picked, cur) = pick_smooth fst (\<lambda>(i, e). me_weight (en_meta e)) (\<lambda>(i, e). pred e) es (sw_current state)
      in (map_option (\<lambda>(i, e). (entry_auth e, me_providerKey (en_meta e))) picked,
          s\<lparr>as_mixedWeightedStates := AList.update cursorKey (state\<lparr>sw_current := cur\<rparr>) (as_mixedWeightedStates s)\<rparr>))"

text \<open>The round robin over the providers: provider \<open>j\<close> owns as many slots as it has ready candidates.\<close>

definition segment_end :: "nat list \<Rightarrow> nat \<Rightarrow> nat" where
  "segment_end weights j = sum_list (take (Suc j) weights)"

definition segment_start :: "nat list \<Rightarrow> nat \<Rightarrow> nat" where
  "segment_start weights j = sum_list (take j weights)"

fun mixed_robin_loop :: "string list \<Rightarrow> nat list \<Rightarrow> nat \<Rightarrow> nat \<Rightarrow> string \<Rightarrow> int \<Rightarrow> 'x predicate \<Rightarrow> string \<Rightarrow> nat list \<Rightarrow> 'x authScheduler \<Rightarrow>
    ('x Auth \<times> string) option \<times> 'x authScheduler" where
  "mixed_robin_loop ks weights start startSlot modelKey priority pred cursorKey [] s = (None, s)"
| "mixed_robin_loop ks weights start startSlot modelKey priority pred cursorKey (offset # os) s =
     (let j = (start + offset) mod length ks
      in if weights ! j = 0 then mixed_robin_loop ks weights start startSlot modelKey priority pred cursorKey os s
         else case mixed_pick_at (ks ! j) modelKey priority StrategyRoundRobin pred s of
             (None, s) \<Rightarrow> mixed_robin_loop ks weights start startSlot modelKey priority pred cursorKey os s
           | (Some a, s) \<Rightarrow>
               (Some (a, ks ! j),
                s\<lparr>as_mixedCursors := AList.update cursorKey ((if j = start then startSlot else segment_start weights j) + 1) (as_mixedCursors s)\<rparr>))"

definition mixed_robin :: "string list \<Rightarrow> string \<Rightarrow> int \<Rightarrow> 'x predicate \<Rightarrow> string \<Rightarrow> 'x authScheduler \<Rightarrow> ('x Auth \<times> string) option \<times> 'x authScheduler" where
  "mixed_robin ks modelKey priority pred cursorKey s =
     (let weights = map (\<lambda>k. case shard_at s modelKey k of None \<Rightarrow> 0 | Some shard \<Rightarrow> readyCountAtPriorityLocked False priority pred shard) ks;
          allSlots = sum_list weights
      in if allSlots = 0 then (None, s)
         else let startSlot = (case map_of (as_mixedCursors s) cursorKey of None \<Rightarrow> 0 | Some c \<Rightarrow> c) mod allSlots
              in case find (\<lambda>j. weights ! j \<noteq> 0 \<and> startSlot < segment_end weights j) [0..<length ks] of
                   None \<Rightarrow> (None, s)
                 | Some start \<Rightarrow> mixed_robin_loop ks weights start startSlot modelKey priority pred cursorKey [0..<length ks] s)"

text \<open>The summary over several providers; the shards are refreshed once more.\<close>

definition merge_summary :: "nat \<times> nat \<times> nat \<times> gtime \<Rightarrow> nat \<times> nat \<times> nat \<times> gtime \<Rightarrow> nat \<times> nat \<times> nat \<times> gtime" where
  "merge_summary = (\<lambda>(n, c, u, e) (n', c', u', e'). (n + n', c + c', u + u', if e' \<noteq> 0 \<and> (e = 0 \<or> e' < e) then e' else e))"

definition merge_dated :: "dated option \<Rightarrow> dated option \<Rightarrow> dated option" where
  "merge_dated known d = (case d of None \<Rightarrow> known | Some (c, t, i) \<Rightarrow> newer (Some c) t i known)"

fun mixed_summary :: "string list \<Rightarrow> string \<Rightarrow> 'x predicate \<Rightarrow> gtime \<Rightarrow>
    (nat \<times> nat \<times> nat \<times> gtime) \<times> dated option \<times> dated option \<Rightarrow> 'x authScheduler \<Rightarrow>
    ((nat \<times> nat \<times> nat \<times> gtime) \<times> dated option \<times> dated option) \<times> 'x authScheduler" where
  "mixed_summary [] model pred now acc s = (acc, s)"
| "mixed_summary (k # ks) model pred now (summary, modelErr, authErr) s =
     (case ensure_shard k (canonicalModelKey model) now s of
        (None, s) \<Rightarrow> mixed_summary ks model pred now (summary, modelErr, authErr) s
      | (Some shard, s) \<Rightarrow>
          (case candidateErrorsLocked model pred shard of (candModel, candAuth) \<Rightarrow>
             mixed_summary ks model pred now
               (merge_summary summary (availabilitySummaryLocked pred shard), merge_dated modelErr candModel, merge_dated authErr candAuth) s))"

definition mixedUnavailableErrorLocked :: "string list \<Rightarrow> string \<Rightarrow> 'x predicate \<Rightarrow> gtime \<Rightarrow> 'x authScheduler \<Rightarrow> schedule_error \<times> 'x authScheduler" where
  "mixedUnavailableErrorLocked ks model pred now s =
     (case mixed_summary ks model pred now ((0, 0, 0, 0), None, None) s of
        ((summary, modelErr, authErr), s) \<Rightarrow>
          (classified_error [] model now summary (map_option fst authErr)
             (map_option fst (if modelErr \<noteq> None then modelErr else authErr)), s))"

definition mixed_pinned ::
  "string list \<Rightarrow> string \<Rightarrow> 'x request \<Rightarrow> string list \<Rightarrow> schedulerStrategy \<Rightarrow> gtime \<times> gtime \<times> gtime \<Rightarrow> 'x authScheduler \<Rightarrow>
     (schedule_error + 'x Auth \<times> string) \<times> 'x authScheduler" where
  "mixed_pinned ks model rq tried strategy clock s =
     (case clock of (t1, t2, t3) \<Rightarrow>
        let providerKey = attr (as_authProviders s) (rq_pinned rq)
        in if providerKey = [] \<or> \<not> containsProvider ks providerKey then (Inl (auth_not_found None), s)
           else case ensure_shard providerKey (canonicalModelKey model) t1 s of
               (None, s) \<Rightarrow> (Inl (auth_not_found None), s)
             | (Some shard, s) \<Rightarrow>
                 (let pred = scheduledAuthPredicate rq tried (rq_pinned rq) (strategy = StrategyWeightedRoundRobin);
                      (picked, shard) = pickReadyLocked False strategy pred t2 shard;
                      s = set_shard providerKey (canonicalModelKey (canonicalModelKey model)) shard s
                  in case picked of
                       Some a \<Rightarrow> (Inr (a, providerKey), s)
                     | None \<Rightarrow> (Inl (unavailableErrorLocked ''mixed'' model pred t3 shard), s)))"

definition JoinComma :: "string list \<Rightarrow> string" where
  "JoinComma ks = concat (case ks of [] \<Rightarrow> [] | k # r \<Rightarrow> k # map (\<lambda>x. CHR '','' # x) r)"

text \<open>The pick at the best priority, by strategy.\<close>

definition mixed_choice ::
  "string list \<Rightarrow> string \<Rightarrow> string \<Rightarrow> schedulerStrategy \<Rightarrow> 'x predicate \<Rightarrow> int option \<Rightarrow> 'x authScheduler \<Rightarrow>
     ('x Auth \<times> string) option \<times> 'x authScheduler" where
  "mixed_choice ks modelKey cursorKey strategy pred found s =
     (case found of
        None \<Rightarrow> (None, s)
      | Some priority \<Rightarrow>
          if strategy = StrategyFillFirst then mixed_fill_first ks modelKey priority pred s
          else if strategy = StrategyWeightedRoundRobin
          then mixed_weighted cursorKey
            (concat (map (\<lambda>k. case shard_at s modelKey k of None \<Rightarrow> [] | Some shard \<Rightarrow> bucket_entries shard priority) ks)) pred s
          else mixed_robin ks modelKey priority pred cursorKey s)"

definition mixed_open ::
  "string list \<Rightarrow> string \<Rightarrow> 'x request \<Rightarrow> string list \<Rightarrow> schedulerStrategy \<Rightarrow> gtime \<times> gtime \<times> gtime \<Rightarrow> 'x authScheduler \<Rightarrow>
     (schedule_error + 'x Auth \<times> string) \<times> 'x authScheduler" where
  "mixed_open ks model rq tried strategy clock s =
     (case clock of (t1, t2, t3) \<Rightarrow>
        let pred = scheduledAuthPredicate rq tried [] (strategy = StrategyWeightedRoundRobin);
            modelKey = canonicalModelKey model;
            (found, s) = mixed_scan ks modelKey t1 pred None s;
            (picked, s) = mixed_choice ks (canonicalModelKey modelKey) (JoinComma ks @ '':'' @ modelKey) strategy pred found s
        in case picked of
             Some r \<Rightarrow> (Inr r, s)
           | None \<Rightarrow> (case mixedUnavailableErrorLocked ks model pred t3 s of (e, s) \<Rightarrow> (Inl e, s)))"

definition pickMixedWithStrategy ::
  "string list \<Rightarrow> string \<Rightarrow> 'x request \<Rightarrow> string list \<Rightarrow> schedulerStrategy \<Rightarrow> gtime \<times> gtime \<times> gtime \<Rightarrow> 'x authScheduler \<Rightarrow>
     (schedule_error + 'x Auth \<times> string) \<times> 'x authScheduler" where
  "pickMixedWithStrategy providers model rq tried strategy clock s =
     (case normalizeProviderKeys providers of
        [] \<Rightarrow> (Inl (PlainError (authError ''provider_not_found'' ''no provider supplied'' 0 False) None), s)
      | [k] \<Rightarrow>
          (case pickSingleWithStrategy k model rq tried strategy clock s of
             (Inl e, s) \<Rightarrow> (Inl e, s)
           | (Inr a, s) \<Rightarrow> (Inr (a, k), s))
      | ks \<Rightarrow>
          if rq_pinned rq \<noteq> [] then mixed_pinned ks model rq tried (effective_strategy strategy s) clock s
          else mixed_open ks model rq tried (effective_strategy strategy s) clock s)"

end
