(* ===== verification/ShardProperties.thy ===== *)
theory ShardProperties
  imports ModelShard
begin

text \<open>
  What the shard of a model guarantees: its indexes always describe its entries, re-evaluating only
  the entries whose retry time has come (and the ready ones whose token has expired) finds exactly
  the entries that are free now, a pick takes the best of them, and the error says why there is none.
\<close>

section \<open>Indexes\<close>

definition entries_ok :: "'x entries \<Rightarrow> bool" where
  "entries_ok es \<longleftrightarrow> keys_distinct es \<and> (\<forall>i e. map_of es i = Some e \<longrightarrow> i \<noteq> [] \<and> au_ID (entry_auth e) = i)"

abbreviation entry_ws :: "'x entries \<Rightarrow> string \<Rightarrow> bool" where
  "entry_ws es \<equiv> entry_ok es (\<lambda>e. me_websocketEnabled (en_meta e))"

definition bucket_exact :: "'x entries \<Rightarrow> int \<Rightarrow> readyBucket \<Rightarrow> bool" where
  "bucket_exact es p b \<longleftrightarrow> rv_flat (rb_all b) = ready_ids es p \<and> rv_flat (rb_ws b) = filter (entry_ws es) (ready_ids es p)"

fun bucket_option_exact :: "'x entries \<Rightarrow> int \<Rightarrow> readyBucket option \<Rightarrow> bool" where
  "bucket_option_exact es p None = (p \<notin> set (ready_priorities es))"
| "bucket_option_exact es p (Some b) = (p \<in> set (ready_priorities es) \<and> bucket_exact es p b)"

definition indexed :: "'x modelScheduler \<Rightarrow> bool" where
  "indexed m \<longleftrightarrow> entries_ok (ms_entries m) \<and> ms_priorityOrder m = rev (sort (ready_priorities (ms_entries m))) \<and>
     ms_blocked m = blocked_ids (ms_entries m) \<and>
     (\<forall>p. bucket_option_exact (ms_entries m) p (map_of (ms_readyByPriority m) p))"

lemma map_of_tabulate: "map_of (map (\<lambda>k. (k, f k)) ks) k = (if k \<in> set ks then Some (f k) else None)"
  by (induction ks) auto

lemma flat_restore [simp]: "rv_flat (restoreReadyViewCursors es st v) = rv_flat v"
  by (simp add: restoreReadyViewCursors_def Let_def)

lemma flat_build [simp]: "rv_flat (buildReadyView ids) = ids"
  by (simp add: buildReadyView_def)

lemma build_bucket: "buildReadyBucket es ids = \<lparr>rb_all = buildReadyView ids, rb_ws = buildReadyView (filter (entry_ws es) ids)\<rparr>"
  by (simp add: buildReadyBucket_def entry_ok_def [abs_def])

lemma rebuilt_bucket_exact: "bucket_exact es p (rebuilt_bucket es old p)"
  by (auto simp: bucket_exact_def rebuilt_bucket_def build_bucket Let_def split: option.splits)

lemma rebuild_entries [simp]: "ms_entries (rebuildIndexesLocked m) = ms_entries m" "ms_modelKey (rebuildIndexesLocked m) = ms_modelKey m"
  by (simp_all add: rebuildIndexesLocked_def Let_def)

lemma rebuild_indexed: "entries_ok (ms_entries m) \<Longrightarrow> indexed (rebuildIndexesLocked m)"
  by (simp add: indexed_def) (simp add: rebuildIndexesLocked_def Let_def map_of_tabulate rebuilt_bucket_exact)

text \<open>The indexes depend on this much of the entries only.\<close>

definition shape :: "string \<times> 'x scheduledAuth \<Rightarrow> string \<times> scheduledState \<times> gtime \<times> int \<times> bool" where
  "shape = (\<lambda>(i, e). (i, en_state e, en_nextRetryAt e, entry_priority e, me_websocketEnabled (en_meta e)))"

lemma ready_ids_shape:
  "ready_ids es p = sort (map fst (filter (\<lambda>(i, st, n, q, w). st = StateReady \<and> q = p) (map shape es)))"
  by (simp add: ready_ids_def filter_map o_def shape_def case_prod_unfold)

lemma ready_priorities_shape:
  "ready_priorities es = remdups (map (\<lambda>(i, st, n, q, w). q) (filter (\<lambda>(i, st, n, q, w). st = StateReady) (map shape es)))"
  by (simp add: ready_priorities_def filter_map o_def shape_def case_prod_unfold)

lemma sort_key_map: "map f (sort_key (\<lambda>x. g (f x)) xs) = sort_key g (map f xs)"
proof -
  have "map f (insort_key (\<lambda>x. g (f x)) x ys) = insort_key g (f x) (map f ys)" for x ys by (induction ys) auto
  then show ?thesis by (induction xs) (simp_all)
qed

lemma blocked_ids_shape:
  "blocked_ids es = map fst (sort_key (\<lambda>(i, st, n, q, w). (n = 0, n, i))
     (filter (\<lambda>(i, st, n, q, w). st = StateCooldown \<or> st = StateBlocked) (map shape es)))"
proof -
  have "blocked_ids es = map fst (map shape (sort_key (\<lambda>x. (\<lambda>(i, st, n, q, w). (n = 0, n, i)) (shape x))
      (filter (\<lambda>(i, e). en_state e = StateCooldown \<or> en_state e = StateBlocked) es)))"
    by (simp add: blocked_ids_def blocked_key_def shape_def o_def case_prod_unfold)
  then show ?thesis unfolding sort_key_map by (simp add: filter_map o_def shape_def case_prod_unfold)
qed

lemma entry_ws_shape: "entry_ws es i = (case map_of (map shape es) i of None \<Rightarrow> False | Some (st, n, q, w) \<Rightarrow> w)"
  by (induction es) (auto simp: entry_ok_def shape_def)

lemma shape_indexed:
  assumes "map shape es = map shape (ms_entries m)" and "indexed m" and "entries_ok es"
  shows "indexed (m\<lparr>ms_entries := es\<rparr>)"
proof -
  have "ready_ids es = ready_ids (ms_entries m)" "ready_priorities es = ready_priorities (ms_entries m)"
      "blocked_ids es = blocked_ids (ms_entries m)" "entry_ws es = entry_ws (ms_entries m)"
    using assms(1) by (auto simp: ready_ids_shape ready_priorities_shape blocked_ids_shape entry_ws_shape)
  moreover have "bucket_option_exact es p o' = bucket_option_exact (ms_entries m) p o'" for p o'
    by (cases o') (simp_all add: calculation bucket_exact_def)
  ultimately show ?thesis using assms(2,3) by (simp add: indexed_def)
qed

section \<open>Every operation keeps the indexes\<close>

lemma entries_ok_update:
  assumes "entries_ok es" and "au_ID (entry_auth e) = i" and "i \<noteq> []"
  shows "entries_ok (AList.update i e es)"
  using assms by (auto simp: entries_ok_def distinct_update update_conv')

lemma update_shape:
  assumes "keys_distinct es" and "map_of es i = Some o'" and "shape (i, e) = shape (i, o')"
  shows "map shape (AList.update i e es) = map shape es"
  using assms by (induction es) (auto simp: shape_def)

lemma upsert_entries: "ms_entries (upsertEntryLocked me now m) =
    AList.update (au_ID (me_auth me)) (with_verdict (entry_verdict (ms_modelKey m) now (new_entry me)) (new_entry me)) (ms_entries m)"
  and upsert_key: "ms_modelKey (upsertEntryLocked me now m) = ms_modelKey m"
  by (auto simp: upsertEntryLocked_def Let_def split: option.splits)

lemma with_verdict_meta [simp]: "en_meta (with_verdict v e) = en_meta e"
  by (simp add: with_verdict_def)

lemma upsert_indexed:
  assumes m: "indexed m" and i: "au_ID (me_auth me) \<noteq> []"
  shows "indexed (upsertEntryLocked me now m)"
proof -
  let ?i = "au_ID (me_auth me)" and ?e = "with_verdict (entry_verdict (ms_modelKey m) now (new_entry me)) (new_entry me)"
  have ok: "entries_ok (AList.update ?i ?e (ms_entries m))"
    using m i by (intro entries_ok_update) (auto simp: indexed_def new_entry_def)
  then have re: "indexed (rebuildIndexesLocked (m\<lparr>ms_entries := AList.update ?i ?e (ms_entries m)\<rparr>))"
    by (intro rebuild_indexed) simp
  have keep: "indexed (m\<lparr>ms_entries := AList.update ?i ?e (ms_entries m)\<rparr>)"
    if "map_of (ms_entries m) ?i = Some o'" "shape (?i, ?e) = shape (?i, o')" for o'
    using update_shape [OF _ that] m ok by (intro shape_indexed) (auto simp: indexed_def entries_ok_def)
  show ?thesis
    using re keep by (auto simp: upsertEntryLocked_def Let_def shape_def new_entry_def split: option.splits)
qed

lemma remove_indexed: "indexed m \<Longrightarrow> indexed (removeEntryLocked i m)"
proof -
  assume m: "indexed m"
  have "entries_ok (AList.delete i (ms_entries m))" using m by (auto simp: indexed_def entries_ok_def map_of_delete_cases)
  then show ?thesis using m by (auto simp: removeEntryLocked_def intro: rebuild_indexed)
qed

text \<open>What one refresh does to an entry.\<close>

definition refresh_entry :: "string \<Rightarrow> gtime \<Rightarrow> 'x scheduledAuth \<Rightarrow> 'x scheduledAuth" where
  "refresh_entry k now e =
     (if en_state e = StateReady then snd (demote_entry k now e)
      else if (en_state e = StateCooldown \<or> en_state e = StateBlocked) \<and> retry_due now e
      then with_verdict (entry_verdict k now e) e else e)"

lemma refresh_meta [simp]: "en_meta (refresh_entry k now e) = en_meta e"
  by (simp add: refresh_entry_def demote_entry_def)

lemma promote_loop_keys: "map fst (snd (promote_loop k now ids ch es)) = map fst es"
proof (induction k now ids ch es rule: promote_loop.induct)
  case (2 k now i ids ch es)
  then show ?case by (auto simp: update_keys dest: map_of_SomeD split: option.splits) (metis fst_conv image_eqI map_of_SomeD)+
qed simp

lemma promote_loop_entry:
  "distinct ids \<Longrightarrow> map_of (snd (promote_loop k now ids ch es)) i =
     map_option (\<lambda>e. if i \<in> set ids \<and> retry_due now e then with_verdict (entry_verdict k now e) e else e) (map_of es i)"
proof (induction ids arbitrary: ch es)
  case (Cons j ids)
  then show ?case by (cases "map_of es j"; cases "i = j") (auto simp: update_conv')
qed (simp add: option.map_ident)

lemma promote_loop_true: "fst (promote_loop k now ids True es)"
  by (induction ids arbitrary: es) (auto split: option.splits)

lemma promote_loop_unchanged: "\<not> fst (promote_loop k now ids ch es) \<Longrightarrow> promote_loop k now ids ch es = (False, es) \<and> \<not> ch"
  by (induction ids arbitrary: ch) (auto simp: promote_loop_true split: option.splits)

lemma demote_unchanged: "\<not> fst (demoteExpiredTokensLocked now m) \<Longrightarrow> snd (demoteExpiredTokensLocked now m) = m"
proof -
  assume "\<not> fst (demoteExpiredTokensLocked now m)"
  then have "\<forall>(i, e)\<in>set (ms_entries m). snd (demote_entry (ms_modelKey m) now e) = e"
    by (auto simp: demoteExpiredTokensLocked_def list_ex_iff demote_entry_def split: if_splits)
  then have "map_vals (\<lambda>e. snd (demote_entry (ms_modelKey m) now e)) (ms_entries m) = ms_entries m"
    by (auto simp: map_vals_def intro: map_idI)
  then show ?thesis by (simp add: demoteExpiredTokensLocked_def)
qed

lemma set_blocked_ids:
  "keys_distinct es \<Longrightarrow> set (blocked_ids es) = {i. \<exists>e. map_of es i = Some e \<and> (en_state e = StateCooldown \<or> en_state e = StateBlocked)}"
  by (force simp: blocked_ids_def)

lemma distinct_sort_key_fst: "distinct (map fst xs) \<Longrightarrow> distinct (map fst (sort_key f xs))"
  by (simp add: distinct_map) 

lemma distinct_blocked_ids: "keys_distinct es \<Longrightarrow> distinct (blocked_ids es)"
  unfolding blocked_ids_def by (intro distinct_sort_key_fst keys_distinct_filter)

lemma set_ready_ids:
  "keys_distinct es \<Longrightarrow> set (ready_ids es p) = {i. \<exists>e. map_of es i = Some e \<and> en_state e = StateReady \<and> entry_priority e = p}"
  by (force simp: ready_ids_def)

lemma sorted_ready_ids: "keys_distinct es \<Longrightarrow> sorted (ready_ids es p) \<and> distinct (ready_ids es p)"
  unfolding ready_ids_def by (simp add: keys_distinct_filter)

text \<open>A refresh of the shard is the refresh of each of its entries.\<close>

definition refreshed :: "gtime \<Rightarrow> 'x modelScheduler \<Rightarrow> 'x entries" where
  "refreshed now m = snd (promote_loop (ms_modelKey m) now (ms_blocked m) (fst (demoteExpiredTokensLocked now m))
     (ms_entries (snd (demoteExpiredTokensLocked now m))))"

lemma demote_simps [simp]:
  "ms_modelKey (snd (demoteExpiredTokensLocked now m)) = ms_modelKey m"
  "ms_blocked (snd (demoteExpiredTokensLocked now m)) = ms_blocked m"
  "ms_entries (snd (demoteExpiredTokensLocked now m)) = map_vals (\<lambda>e. snd (demote_entry (ms_modelKey m) now e)) (ms_entries m)"
  by (simp_all add: demoteExpiredTokensLocked_def)

lemma promote_entries [simp]:
  "ms_entries (promoteExpiredLocked now m) = refreshed now m" "ms_modelKey (promoteExpiredLocked now m) = ms_modelKey m"
  by (auto simp: promoteExpiredLocked_def refreshed_def Let_def case_prod_unfold)

lemma refreshed_entry:
  assumes "indexed m"
  shows "map_of (refreshed now m) i = map_option (refresh_entry (ms_modelKey m) now) (map_of (ms_entries m) i)"
proof -
  have kd: "keys_distinct (ms_entries m)" and bl: "ms_blocked m = blocked_ids (ms_entries m)"
    using assms by (auto simp: indexed_def entries_ok_def)
  have "map_of (refreshed now m) i = map_option (\<lambda>e. if i \<in> set (ms_blocked m) \<and> retry_due now e
      then with_verdict (entry_verdict (ms_modelKey m) now e) e else e)
      (map_option (\<lambda>e. snd (demote_entry (ms_modelKey m) now e)) (map_of (ms_entries m) i))"
    using distinct_blocked_ids [OF kd] by (simp add: refreshed_def promote_loop_entry bl)
  then show ?thesis
    by (cases "map_of (ms_entries m) i") (auto simp: bl set_blocked_ids [OF kd] refresh_entry_def demote_entry_def)
qed

lemma refreshed_ok: "indexed m \<Longrightarrow> entries_ok (refreshed now m)"
proof -
  assume m: "indexed m"
  have "map fst (refreshed now m) = map fst (ms_entries m)" by (simp add: refreshed_def promote_loop_keys)
  moreover have "entries_ok (ms_entries m)" using m by (simp add: indexed_def)
  ultimately show ?thesis using refreshed_entry [OF m] unfolding entries_ok_def by (auto simp del: map_of_eq_Some_iff)
qed

lemma promote_indexed:
  assumes m: "indexed m"
  shows "indexed (promoteExpiredLocked now m)"
proof (cases "fst (promote_loop (ms_modelKey m) now (ms_blocked m) (fst (demoteExpiredTokensLocked now m))
     (ms_entries (snd (demoteExpiredTokensLocked now m))))")
  case True
  then show ?thesis using refreshed_ok [OF m, of now]
    by (auto simp: promoteExpiredLocked_def Let_def case_prod_unfold refreshed_def intro!: rebuild_indexed)
next
  case False
  note un = promote_loop_unchanged [OF False]
  then have d: "fst (demoteExpiredTokensLocked now m) = False" "snd (demoteExpiredTokensLocked now m) = m"
    using demote_unchanged by auto
  have "promote_loop (ms_modelKey m) now (ms_blocked m) False (ms_entries m) = (False, ms_entries m)" using un unfolding d by blast
  then have "promoteExpiredLocked now m = m" by (simp add: promoteExpiredLocked_def Let_def case_prod_unfold d)
  with m show ?thesis by simp
qed

lemma strategy_flat: "rv_flat (snd (strategy_pick strategy es pred v)) = rv_flat v"
  using robin_picker.flat_kept weighted_picker.flat_kept by (cases strategy) (auto simp: strategy_pick_def)

lemma pick_at_indexed:
  assumes m: "indexed m"
  shows "indexed (snd (pickReadyAtPriorityLocked ws p strategy pred m))"
    "ms_entries (snd (pickReadyAtPriorityLocked ws p strategy pred m)) = ms_entries m"
    "ms_modelKey (snd (pickReadyAtPriorityLocked ws p strategy pred m)) = ms_modelKey m"
proof -
  show e: "ms_entries (snd (pickReadyAtPriorityLocked ws p strategy pred m)) = ms_entries m"
    "ms_modelKey (snd (pickReadyAtPriorityLocked ws p strategy pred m)) = ms_modelKey m"
    by (auto simp: pickReadyAtPriorityLocked_def Let_def case_prod_unfold split: option.splits)
  show "indexed (snd (pickReadyAtPriorityLocked ws p strategy pred m))"
  proof (cases "map_of (ms_readyByPriority m) p")
    case (Some b)
    define w where "w \<longleftrightarrow> ws \<and> pickFirst (ms_entries m) pred (rb_ws b) \<noteq> None"
    define b' where "b' = (let v = snd (strategy_pick strategy (ms_entries m) pred (if w then rb_ws b else rb_all b))
      in if w then b\<lparr>rb_ws := v\<rparr> else b\<lparr>rb_all := v\<rparr>)"
    have bx: "bucket_option_exact (ms_entries m) p (Some b)" using m Some unfolding indexed_def by metis
    have "bucket_option_exact (ms_entries m) p (Some b')"
      using bx by (simp add: b'_def bucket_exact_def strategy_flat Let_def)
    moreover have "snd (pickReadyAtPriorityLocked ws p strategy pred m) = m\<lparr>ms_readyByPriority := AList.update p b' (ms_readyByPriority m)\<rparr>"
      using Some unfolding pickReadyAtPriorityLocked_def w_def [symmetric] by (simp add: b'_def w_def Let_def case_prod_unfold)
    ultimately show ?thesis using m by (simp add: indexed_def update_conv')
  next
    case None
    with m show ?thesis by (simp add: pickReadyAtPriorityLocked_def)
  qed
qed

lemma pick_ready_indexed:
  assumes m: "indexed m"
  shows "indexed (snd (pickReadyLocked ws strategy pred now m))"
    "ms_entries (snd (pickReadyLocked ws strategy pred now m)) = refreshed now m"
    "ms_modelKey (snd (pickReadyLocked ws strategy pred now m)) = ms_modelKey m"
  using promote_indexed [OF m, of now] pick_at_indexed [OF promote_indexed [OF m, of now]]
  by (auto simp: pickReadyLocked_def Let_def split: option.splits)

section \<open>Ready means free\<close>

text \<open>Every entry carries the verdict on its credential at some time up to now.\<close>

definition judged :: "string \<Rightarrow> gtime \<Rightarrow> 'x scheduledAuth \<Rightarrow> bool" where
  "judged k now e \<longleftrightarrow> (\<exists>s. 0 \<le> s \<and> s \<le> now \<and> en_state e = fst (classify (entry_verdict k s e)) \<and>
     en_nextRetryAt e = snd (classify (entry_verdict k s e)))"

lemma rest_disabled: "fst (snd (rest_verdict a m t)) = blockReasonDisabled \<Longrightarrow> snd (snd (rest_verdict a m t)) = 0"
proof -
  have "fst (snd (availabilityBlock u q retry recover t)) \<noteq> blockReasonDisabled" for u q retry recover
    using availability_cases [of u q retry recover t] by (cases "availabilityBlock u q retry recover t") auto
  moreover have "snd (snd (block_loop p k t sts False (False, blockReasonNone, 0))) = 0"
    if d: "fst (snd (block_loop p k t sts False (False, blockReasonNone, 0))) = blockReasonDisabled" for p k sts
  proof (cases "find (decisive t) (relevant p k sts)")
    case None
    then have l: "latest ((\<lambda>st. state_block st t) ` set (relevant p k sts)) (block_loop p k t sts False (False, blockReasonNone, 0))"
      using loop_spec [of t p k sts] by simp
    have "fst (snd (state_block st t)) \<noteq> blockReasonDisabled" for st
      using state_block_cases [of st t] by (cases "state_block st t") auto
    then show ?thesis using l d by (auto simp: latest_def split: if_splits)
  qed (simp add: loop_decides decision_def)
  ultimately show "fst (snd (rest_verdict a m t)) = blockReasonDisabled \<Longrightarrow> ?thesis"
    by (cases rule: rest_cases [of a m t]) auto
qed

lemma verdict_disabled: "fst (snd (isAuthBlockedForModel a m t)) = blockReasonDisabled \<Longrightarrow> snd (snd (isAuthBlockedForModel a m t)) = 0"
  using rest_disabled by (auto simp: verdict_split split: if_splits)

text \<open>The state and retry time of an entry that carries a verdict.\<close>

lemma classify_ready: "fst (classify v) = StateReady \<longleftrightarrow> \<not> fst v"
  by (cases v) (auto simp: classify_def)

lemma classify_retry:
  "fst v \<Longrightarrow> (fst (snd v) = blockReasonDisabled \<Longrightarrow> snd (snd v) = 0) \<Longrightarrow> snd (classify v) = snd (snd v)"
  by (cases v) (auto simp: classify_def)

lemma classify_queued: "fst v \<Longrightarrow> snd (snd v) \<noteq> 0 \<Longrightarrow> snd (classify v) \<noteq> 0 \<Longrightarrow>
    fst (classify v) = StateCooldown \<or> fst (classify v) = StateBlocked"
  by (cases v) (auto simp: classify_def split: if_splits)

lemma with_verdict_simps [simp]:
  "en_state (with_verdict v e) = fst (classify v)" "en_nextRetryAt (with_verdict v e) = snd (classify v)"
  "entry_verdict k t (with_verdict v e) = entry_verdict k t e"
  by (simp_all add: with_verdict_def entry_verdict_def)

lemma judged_now: "0 \<le> now \<Longrightarrow> judged k now (with_verdict (entry_verdict k now e) e)"
  by (auto simp: judged_def)

lemma judged_later: "judged k s e \<Longrightarrow> s \<le> t \<Longrightarrow> judged k t e"
  by (meson judged_def order_trans)

lemma refresh_judged: "judged k s e \<Longrightarrow> 0 \<le> s \<Longrightarrow> s \<le> t \<Longrightarrow> judged k t (refresh_entry k t e)"
  using judged_now [of t k e] judged_later [of k s e t] by (auto simp: refresh_entry_def demote_entry_def)

lemma refresh_decides:
  assumes j: "judged k s e" and st: "s \<le> t"
  shows "en_state (refresh_entry k t e) = StateReady \<longleftrightarrow> \<not> fst (entry_verdict k t e)"
proof -
  obtain r where r: "0 \<le> r" "r \<le> s" "en_state e = fst (classify (entry_verdict k r e))"
      "en_nextRetryAt e = snd (classify (entry_verdict k r e))"
    using j by (auto simp: judged_def)
  let ?v = "entry_verdict k r e" and ?w = "entry_verdict k t e"
  have rt: "r \<le> t" using r st by simp
  have ages: "ages t ?v ?w \<or> (fst ?v \<and> snd (snd ?v) \<noteq> 0 \<and> snd (snd ?v) \<le> t)" if "\<not> token_expired (entry_auth e) t"
    using verdict_ages [OF r(1) rt that] by (simp add: entry_verdict_def)
  have expired: "fst ?w" if "token_expired (entry_auth e) t" using expired_blocks [OF that] by (simp add: entry_verdict_def)
  show ?thesis
  proof (cases "fst ?v")
    case False
    then have "en_state e = StateReady" using r(3) classify_ready by simp
    then show ?thesis using ages expired False
      by (auto simp: refresh_entry_def demote_entry_def classify_ready ages_def)
  next
    case True
    then have nr: "en_state e \<noteq> StateReady" using r(3) classify_ready by simp
    have "snd (snd ?v) = 0" if "fst (snd ?v) = blockReasonDisabled"
      using verdict_disabled [of "entry_auth e" k r] that by (simp add: entry_verdict_def)
    then have n: "en_nextRetryAt e = snd (snd ?v)" using classify_retry [OF True] r(4) by simp
    show ?thesis
    proof (cases "retry_due t e")
      case due: True
      then have "en_state e = StateCooldown \<or> en_state e = StateBlocked"
        using classify_queued [OF True] n r(3,4) by (auto simp: retry_due_def)
      then show ?thesis using due nr by (auto simp: refresh_entry_def classify_ready)
    next
      case False
      then have "fst ?w" using ages expired True n
        by (cases "token_expired (entry_auth e) t") (auto simp: ages_def retry_due_def split: if_splits)
      then show ?thesis using False nr by (simp add: refresh_entry_def)
    qed
  qed
qed

section \<open>The life of a shard\<close>

text \<open>The clock and the shard: time passes, and the scheduler calls the operations.\<close>

inductive shard_step :: "gtime \<times> 'x modelScheduler \<Rightarrow> gtime \<times> 'x modelScheduler \<Rightarrow> bool" where
  sh_tick: "s \<le> t \<Longrightarrow> shard_step (s, m) (t, m)"
| sh_upsert: "au_ID (me_auth me) \<noteq> [] \<Longrightarrow> shard_step (t, m) (t, upsertEntryLocked me t m)"
| sh_remove: "shard_step (t, m) (t, removeEntryLocked i m)"
| sh_promote: "shard_step (t, m) (t, promoteExpiredLocked t m)"
| sh_pick: "shard_step (t, m) (t, snd (pickReadyLocked ws strategy pred t m))"
| sh_pick_at: "shard_step (t, m) (t, snd (pickReadyAtPriorityLocked ws p strategy pred m))"

definition shard_start :: "gtime \<times> 'x modelScheduler \<Rightarrow> bool" where
  "shard_start = (\<lambda>(t, m). 0 \<le> t \<and> m = new_shard (ms_modelKey m))"

definition shard_ok :: "gtime \<times> 'x modelScheduler \<Rightarrow> bool" where
  "shard_ok = (\<lambda>(t, m). 0 \<le> t \<and> indexed m \<and> (\<forall>i e. map_of (ms_entries m) i = Some e \<longrightarrow> judged (ms_modelKey m) t e))"

lemma new_shard_indexed: "indexed (new_shard k)"
  by (simp add: indexed_def new_shard_def entries_ok_def ready_priorities_def blocked_ids_def)

lemma removed_entries: "map_of (ms_entries (removeEntryLocked i m)) j = Some e \<Longrightarrow> map_of (ms_entries m) j = Some e"
  by (auto simp: removeEntryLocked_def map_of_delete_cases split: if_splits)

lemma removed_key: "ms_modelKey (removeEntryLocked i m) = ms_modelKey m"
  by (simp add: removeEntryLocked_def)

lemma refreshed_judged:
  assumes "shard_ok (s, m)" and "s \<le> t" and "map_of (refreshed t m) i = Some e"
  shows "judged (ms_modelKey m) t e"
proof -
  have m: "indexed m" using assms(1) by (simp add: shard_ok_def)
  obtain o' where o: "map_of (ms_entries m) i = Some o'" "e = refresh_entry (ms_modelKey m) t o'"
    using assms(3) unfolding refreshed_entry [OF m] by auto
  then show ?thesis using refresh_judged [OF _ _ assms(2), of "ms_modelKey m" o'] assms(1) by (simp add: shard_ok_def)
qed

lemma shard_step_ok: "shard_step x y \<Longrightarrow> shard_ok x \<Longrightarrow> shard_ok y"
proof (induction rule: shard_step.induct)
  case (sh_tick s t m)
  then show ?case using judged_later by (fastforce simp: shard_ok_def)
next
  case (sh_upsert me t m)
  then show ?case using upsert_indexed judged_now [of t "ms_modelKey m" "new_entry me"]
    by (auto simp: shard_ok_def upsert_entries upsert_key update_conv' split: if_splits)
next
  case (sh_remove t m i)
  then show ?case using remove_indexed removed_entries by (fastforce simp: shard_ok_def removed_key)
next
  case (sh_promote t m)
  then show ?case using refreshed_judged [OF sh_promote, of t] promote_indexed by (auto simp: shard_ok_def)
next
  case (sh_pick t m ws strategy pred)
  then have "indexed m" by (simp add: shard_ok_def)
  note pick_ready_indexed [OF this, of ws strategy pred t]
  then show ?case using refreshed_judged [OF sh_pick, of t] sh_pick by (simp add: shard_ok_def)
next
  case (sh_pick_at t m ws p strategy pred)
  then have "indexed m" by (simp add: shard_ok_def)
  note pick_at_indexed [OF this, of ws p strategy pred]
  then show ?case using sh_pick_at by (simp add: shard_ok_def)
qed

interpretation shard: inductive_invariant "shard_start :: gtime \<times> 'x modelScheduler \<Rightarrow> bool" shard_step shard_ok
proof
  fix x :: "gtime \<times> 'x modelScheduler"
  assume "shard_start x"
  then obtain t k where "x = (t, new_shard k)" "0 \<le> t" by (auto simp: shard_start_def)
  then show "shard_ok x" using new_shard_indexed by (simp add: shard_ok_def) (simp add: new_shard_def)
qed (rule shard_step_ok)

lemma ready_means_free:
  assumes "shard_ok (s, m)" and "s \<le> t" and "map_of (refreshed t m) i = Some e"
  shows "en_state e = StateReady \<longleftrightarrow> \<not> fst (entry_verdict (ms_modelKey m) t e)"
proof -
  have m: "indexed m" using assms(1) by (simp add: shard_ok_def)
  obtain o' where o: "map_of (ms_entries m) i = Some o'" "e = refresh_entry (ms_modelKey m) t o'"
    using assms(3) unfolding refreshed_entry [OF m] by auto
  have "judged (ms_modelKey m) s o'" using assms(1) o(1) by (simp add: shard_ok_def)
  from refresh_decides [OF this assms(2)] show ?thesis by (simp add: o(2) entry_verdict_def)
qed

lemma in_bucket:
  assumes "indexed m"
  shows "(\<exists>b. map_of (ms_readyByPriority m) p = Some b \<and> i \<in> set (rv_flat (rb_all b))) \<longleftrightarrow>
     (\<exists>e. map_of (ms_entries m) i = Some e \<and> en_state e = StateReady \<and> entry_priority e = p)"
proof -
  have kd: "keys_distinct (ms_entries m)" and bx: "bucket_option_exact (ms_entries m) p (map_of (ms_readyByPriority m) p)"
    using assms by (auto simp: indexed_def entries_ok_def)
  have ps: "p \<in> set (ready_priorities (ms_entries m)) \<longleftrightarrow> (\<exists>i. i \<in> set (ready_ids (ms_entries m) p))"
    by (force simp: ready_priorities_def ready_ids_def)
  show ?thesis using bx ps set_ready_ids [OF kd, of p]
    by (cases "map_of (ms_readyByPriority m) p") (auto simp: bucket_exact_def)
qed

text \<open>C22: Whatever happened to a shard before, after a refresh its ready views list exactly the
  credentials that are free: the shard re-evaluates only the blocked entries whose retry time has
  come and the ready ones whose token has expired, and this gives the same ready views as evaluating
  \<open>isAuthBlockedForModel\<close> for every entry, each credential under its own priority.\<close>

theorem shard_ready_exact:
  assumes "reachable shard_start shard_step (s, m)" and "s \<le> t"
  shows "(\<exists>b. map_of (ms_readyByPriority (promoteExpiredLocked t m)) p = Some b \<and> i \<in> set (rv_flat (rb_all b))) \<longleftrightarrow>
     (\<exists>e. map_of (ms_entries m) i = Some e \<and> \<not> fst (isAuthBlockedForModel (entry_auth e) (ms_modelKey m) t) \<and> entry_priority e = p)"
proof -
  have ok: "shard_ok (s, m)" using assms(1) by (rule shard.reachable_inv)
  then have m: "indexed m" by (simp add: shard_ok_def)
  note free = ready_means_free [OF ok assms(2)]
  show ?thesis unfolding in_bucket [OF promote_indexed [OF m]] promote_entries
    using refreshed_entry [OF m, of t i] free [of i] by (auto simp: entry_verdict_def)
qed

lemma reach_upsert:
  "reachable shard_start shard_step (t, m) \<Longrightarrow> au_ID (me_auth me) \<noteq> [] \<Longrightarrow> reachable shard_start shard_step (t, upsertEntryLocked me t m)"
  by (erule reach_step) (rule sh_upsert)

text \<open>A credential whose model is in a cooldown until 90, scheduled at 10.\<close>

definition cooling_meta :: "string \<Rightarrow> int \<Rightarrow> bool \<Rightarrow> gtime \<Rightarrow> unit scheduledAuthMeta" where
  "cooling_meta i p ws t = \<lparr>me_auth = (plain_auth i)\<lparr>au_Unavailable := True, au_NextRetryAfter := t\<rparr>, me_providerKey = ''gemini'',
     me_priority = p, me_weight = 1, me_websocketEnabled = ws, me_supportedModelSet = Some [''m''], me_registryEpoch = 1\<rparr>"

lemma cooling_verdict: "0 \<le> now \<Longrightarrow>
    entry_verdict ''m'' now e = (if t > now \<or> t = 0 then (True, blockReasonOther, t) else (False, blockReasonNone, 0))"
  if "en_meta e = cooling_meta i p ws t"
  using that by (auto simp: entry_verdict_def cooling_meta_def plain_auth_def isAuthBlockedForModel_def hasUnauthorizedAuthFailure_def
    token_expired_def availabilityBlock_def next_after_two)

lemma shard_ready_exact_witness:
  "\<exists>b. map_of (ms_readyByPriority (promoteExpiredLocked 100 (upsertEntryLocked (cooling_meta ''a'' 5 False 90) 10 (new_shard ''m'')))) 5 = Some b \<and>
     ''a'' \<in> set (rv_flat (rb_all b))"
proof -
  let ?me = "cooling_meta ''a'' 5 False 90" and ?n = "new_shard ''m'' :: unit modelScheduler"
  let ?m = "upsertEntryLocked ?me 10 ?n"
  have r: "reachable shard_start shard_step (10, ?m)"
    by (intro reach_upsert reach_init) (simp_all add: shard_start_def new_shard_def cooling_meta_def plain_auth_def)
  let ?e = "with_verdict (entry_verdict ''m'' 10 (new_entry ?me)) (new_entry ?me)"
  have e: "map_of (ms_entries ?m) ''a'' = Some ?e" and k: "ms_modelKey ?m = ''m''"
    by (simp_all add: upsert_entries upsert_key) (simp_all add: new_shard_def cooling_meta_def plain_auth_def)
  have "en_meta ?e = ?me" by (simp add: new_entry_def)
  from cooling_verdict [OF this, of 100] have "\<not> fst (isAuthBlockedForModel (entry_auth ?e) ''m'' 100)"
    by (simp add: entry_verdict_def)
  moreover have "entry_priority ?e = 5" by (simp add: new_entry_def cooling_meta_def)
  ultimately show ?thesis using shard_ready_exact [OF r, of 100 5 "''a''"] e k by simp
qed

section \<open>The best free credential\<close>

text \<open>The entries a request may use now, and those of them a request that prefers websockets takes.\<close>

definition candidates :: "'x predicate \<Rightarrow> gtime \<Rightarrow> 'x modelScheduler \<Rightarrow> 'x scheduledAuth list" where
  "candidates pred now m = map snd (filter (\<lambda>(i, e). pred e \<and> \<not> fst (isAuthBlockedForModel (entry_auth e) (ms_modelKey m) now)) (ms_entries m))"

definition preferred :: "bool \<Rightarrow> 'x scheduledAuth list \<Rightarrow> 'x scheduledAuth list" where
  "preferred ws cs = (if ws \<and> list_ex (\<lambda>e. me_websocketEnabled (en_meta e)) cs then filter (\<lambda>e. me_websocketEnabled (en_meta e)) cs else cs)"

lemma find_greatest:
  "find P (rev (sort ps)) = Some p \<Longrightarrow> p \<in> set ps \<and> P p \<and> (\<forall>q\<in>set ps. P q \<longrightarrow> q \<le> (p :: int))"
proof -
  assume f: "find P (rev (sort ps)) = Some p"
  have "P p \<and> p \<in> set (rev (sort ps)) \<and> (\<forall>q\<in>set (rev (sort ps)). P q \<longrightarrow> q \<le> p)"
    if "sorted_wrt (\<ge>) xs" "find P xs = Some p" "xs = rev (sort ps)" for xs
    using that(1,2) unfolding that(3) [symmetric] by (induction xs) (auto split: if_splits)
  moreover have "sorted_wrt (\<ge>) (rev (sort ps))" by (simp add: sorted_wrt_rev)
  ultimately show ?thesis using f by simp
qed

lemma find_nothing: "find P (rev (sort ps)) = None \<longleftrightarrow> (\<forall>q\<in>set ps. \<not> P q)"
  by (auto simp: find_None_iff)

lemma strategy_member: "fst (strategy_pick strategy es pred v) = Some i \<Longrightarrow> i \<in> set (rv_flat v) \<and> entry_ok es pred i"
  using first_picker.pick_member [of es pred v i v] robin_picker.pick_member [of es pred v i "snd (pickRoundRobin es pred v)"]
    weighted_picker.pick_member [of es pred v i "snd (pickWeighted es pred v)"]
  by (cases strategy) (auto simp: strategy_pick_def prod_eq_iff)

definition weights_ok :: "schedulerStrategy \<Rightarrow> 'x predicate \<Rightarrow> bool" where
  "weights_ok strategy pred \<longleftrightarrow> (strategy = StrategyWeightedRoundRobin \<longrightarrow> (\<forall>e. pred e \<longrightarrow> me_weight (en_meta e) > 0))"

lemma strategy_some:
  assumes "weights_ok strategy pred" and "i \<in> set (rv_flat v)" and "entry_ok es pred i"
  shows "fst (strategy_pick strategy es pred v) \<noteq> None"
proof -
  have "entry_weight es i > 0" if "strategy = StrategyWeightedRoundRobin"
    using assms(1,3) that by (auto simp: weights_ok_def entry_ok_def entry_weight_def split: option.splits)
  then show ?thesis
    using assms(2,3) first_picker.pick_some_iff [of es pred v] robin_picker.pick_some_iff [of es pred v]
      weighted_picker.pick_some_iff [of es pred v]
    by (cases strategy) (auto simp: strategy_pick_def)
qed

definition ready_entries :: "'x predicate \<Rightarrow> 'x modelScheduler \<Rightarrow> 'x scheduledAuth list" where
  "ready_entries pred m = map snd (filter (\<lambda>(i, e). pred e \<and> en_state e = StateReady) (ms_entries m))"

lemma ready_entriesI: "map_of (ms_entries m) i = Some e \<Longrightarrow> pred e \<Longrightarrow> en_state e = StateReady \<Longrightarrow> e \<in> set (ready_entries pred m)"
  by (force simp: ready_entries_def dest: map_of_SomeD)

lemma ready_entriesE:
  assumes "indexed m" and "e \<in> set (ready_entries pred m)"
  obtains i where "map_of (ms_entries m) i = Some e" "pred e" "en_state e = StateReady" "i \<in> set (ready_ids (ms_entries m) (entry_priority e))"
proof -
  have kd: "keys_distinct (ms_entries m)" using assms(1) by (simp add: indexed_def entries_ok_def)
  obtain i where i: "(i, e) \<in> set (ms_entries m)" "pred e" "en_state e = StateReady" using assms(2) by (auto simp: ready_entries_def)
  then have "map_of (ms_entries m) i = Some e" using kd by simp
  with i that show thesis by (simp add: set_ready_ids [OF kd])
qed

lemma bucket_of:
  assumes "indexed m" and "map_of (ms_readyByPriority m) p = Some b"
  shows "rv_flat (rb_all b) = ready_ids (ms_entries m) p" "rv_flat (rb_ws b) = filter (entry_ws (ms_entries m)) (ready_ids (ms_entries m) p)"
proof -
  have "bucket_option_exact (ms_entries m) p (map_of (ms_readyByPriority m) p)" using assms(1) by (simp add: indexed_def)
  then show "rv_flat (rb_all b) = ready_ids (ms_entries m) p" "rv_flat (rb_ws b) = filter (entry_ws (ms_entries m)) (ready_ids (ms_entries m) p)"
    using assms(2) by (simp_all add: bucket_exact_def)
qed

lemma ready_bucket:
  assumes "indexed m" and "e \<in> set (ready_entries pred m)"
  shows "entry_priority e \<in> set (ready_priorities (ms_entries m)) \<and> (\<exists>b. map_of (ms_readyByPriority m) (entry_priority e) = Some b)"
proof -
  obtain i where i: "map_of (ms_entries m) i = Some e" "en_state e = StateReady" using assms by (rule ready_entriesE)
  then have p: "entry_priority e \<in> set (ready_priorities (ms_entries m))"
    by (force simp: ready_priorities_def dest: map_of_SomeD)
  moreover have "bucket_option_exact (ms_entries m) (entry_priority e) (map_of (ms_readyByPriority m) (entry_priority e))"
    using assms(1) by (simp add: indexed_def)
  ultimately show ?thesis by (cases "map_of (ms_readyByPriority m) (entry_priority e)") auto
qed

lemma view_pick:
  assumes m: "indexed m" and p: "i \<in> set (ready_ids (ms_entries m) p)" and ok: "entry_ok (ms_entries m) pred i"
  obtains e where "map_of (ms_entries m) i = Some e" "e \<in> set (ready_entries pred m)" "entry_priority e = p"
proof -
  have kd: "keys_distinct (ms_entries m)" using m by (simp add: indexed_def entries_ok_def)
  obtain e where e: "map_of (ms_entries m) i = Some e" "en_state e = StateReady" "entry_priority e = p"
    using p by (auto simp: set_ready_ids [OF kd])
  then have "pred e" using ok by (simp add: entry_ok_def)
  with e show thesis using ready_entriesI that by blast
qed

lemma first_iff: "pickFirst es pred v \<noteq> None \<longleftrightarrow> (\<exists>i\<in>set (rv_flat v). entry_ok es pred i)"
  using first_picker.pick_some_iff [of es pred v] by simp

lemma bucket_has_all:
  assumes m: "indexed m"
  shows "bucket_has m rb_all pred p \<longleftrightarrow> (\<exists>e\<in>set (ready_entries pred m). entry_priority e = p)"
proof
  assume "bucket_has m rb_all pred p"
  then obtain b i where b: "map_of (ms_readyByPriority m) p = Some b" "i \<in> set (rv_flat (rb_all b))" "entry_ok (ms_entries m) pred i"
    unfolding bucket_has_def first_iff by (auto split: option.splits)
  then show "\<exists>e\<in>set (ready_entries pred m). entry_priority e = p"
    using view_pick [OF m] unfolding bucket_of [OF m b(1)] by metis
next
  assume "\<exists>e\<in>set (ready_entries pred m). entry_priority e = p"
  then obtain e where e: "e \<in> set (ready_entries pred m)" "entry_priority e = p" by blast
  obtain i where i: "map_of (ms_entries m) i = Some e" "pred e" "i \<in> set (ready_ids (ms_entries m) (entry_priority e))"
    using m e(1) by (rule ready_entriesE)
  obtain b where b: "map_of (ms_readyByPriority m) p = Some b" using ready_bucket [OF m e(1)] e(2) by auto
  show "bucket_has m rb_all pred p"
    unfolding bucket_has_def first_iff using i e(2) b by (auto simp: bucket_of [OF m b] entry_ok_def intro!: bexI [of _ i])
qed

lemma bucket_has_ws:
  assumes m: "indexed m"
  shows "bucket_has m rb_ws pred p \<longleftrightarrow> (\<exists>e\<in>set (ready_entries pred m). entry_priority e = p \<and> me_websocketEnabled (en_meta e))"
proof
  assume "bucket_has m rb_ws pred p"
  then obtain b i where b: "map_of (ms_readyByPriority m) p = Some b" "i \<in> set (rv_flat (rb_ws b))" "entry_ok (ms_entries m) pred i"
    unfolding bucket_has_def first_iff by (auto split: option.splits)
  then have i: "i \<in> set (ready_ids (ms_entries m) p)" "entry_ws (ms_entries m) i" by (auto simp: bucket_of [OF m b(1)])
  obtain e where "map_of (ms_entries m) i = Some e" "e \<in> set (ready_entries pred m)" "entry_priority e = p"
    using m i(1) b(3) by (rule view_pick)
  then show "\<exists>e\<in>set (ready_entries pred m). entry_priority e = p \<and> me_websocketEnabled (en_meta e)"
    using i(2) by (auto simp: entry_ok_def)
next
  assume "\<exists>e\<in>set (ready_entries pred m). entry_priority e = p \<and> me_websocketEnabled (en_meta e)"
  then obtain e where e: "e \<in> set (ready_entries pred m)" "entry_priority e = p" "me_websocketEnabled (en_meta e)" by blast
  obtain i where i: "map_of (ms_entries m) i = Some e" "pred e" "i \<in> set (ready_ids (ms_entries m) (entry_priority e))"
    using m e(1) by (rule ready_entriesE)
  obtain b where b: "map_of (ms_readyByPriority m) p = Some b" using ready_bucket [OF m e(1)] e(2) by auto
  show "bucket_has m rb_ws pred p"
    unfolding bucket_has_def first_iff using i e(2,3) b by (auto simp: bucket_of [OF m b] entry_ok_def intro!: bexI [of _ i])
qed

text \<open>The pick at the priority that was found.\<close>

lemma pick_at_best:
  assumes m: "indexed m" and w: "weights_ok strategy pred"
    and e0: "e0 \<in> set (ready_entries pred m)" "entry_priority e0 = p"
    and ws: "ws \<and> list_ex (\<lambda>e. me_websocketEnabled (en_meta e)) (ready_entries pred m) \<Longrightarrow> me_websocketEnabled (en_meta e0)"
  shows "\<exists>e\<in>set (preferred ws (ready_entries pred m)). entry_priority e = p \<and>
     fst (pickReadyAtPriorityLocked ws p strategy pred m) = Some (entry_auth e)"
proof -
  let ?es = "ms_entries m"
  obtain b where b: "map_of (ms_readyByPriority m) p = Some b" using ready_bucket [OF m e0(1)] e0(2) by auto
  obtain i0 where i0: "map_of ?es i0 = Some e0" "pred e0" "i0 \<in> set (ready_ids ?es (entry_priority e0))"
    using m e0(1) by (rule ready_entriesE)
  define u where "u \<longleftrightarrow> ws \<and> pickFirst ?es pred (rb_ws b) \<noteq> None"
  define v where "v = (if u then rb_ws b else rb_all b)"
  have has: "pickFirst ?es pred (rb_ws b) \<noteq> None \<longleftrightarrow> bucket_has m rb_ws pred p" using b by (simp add: bucket_has_def)
  have u: "u \<longleftrightarrow> ws \<and> list_ex (\<lambda>e. me_websocketEnabled (en_meta e)) (ready_entries pred m)"
    unfolding u_def has bucket_has_ws [OF m] using e0 ws by (auto simp: list_ex_iff)
  then have pr: "preferred ws (ready_entries pred m) =
      (if u then filter (\<lambda>e. me_websocketEnabled (en_meta e)) (ready_entries pred m) else ready_entries pred m)"
    by (simp add: preferred_def)
  have "i0 \<in> set (rv_flat v)" using i0 e0(2) ws u by (auto simp: v_def bucket_of [OF m b] entry_ok_def)
  then have "fst (strategy_pick strategy ?es pred v) \<noteq> None"
    using i0 by (intro strategy_some [OF w]) (auto simp: entry_ok_def)
  then obtain i where i: "fst (strategy_pick strategy ?es pred v) = Some i" by blast
  note mem = strategy_member [OF i]
  then have "i \<in> set (ready_ids ?es p)" by (auto simp: v_def bucket_of [OF m b] split: if_splits)
  then obtain e where e: "map_of ?es i = Some e" "e \<in> set (ready_entries pred m)" "entry_priority e = p"
    using m mem by (elim view_pick) auto
  have "me_websocketEnabled (en_meta e)" if u using that mem e(1) by (auto simp: v_def bucket_of [OF m b] entry_ok_def)
  then have "e \<in> set (preferred ws (ready_entries pred m))" using e(2) by (simp add: pr)
  moreover have "fst (pickReadyAtPriorityLocked ws p strategy pred m) = Some (entry_auth e)"
    using b i e(1) by (auto simp: pickReadyAtPriorityLocked_def Let_def case_prod_unfold v_def u_def split: if_splits)
  ultimately show ?thesis using e(3) by blast
qed

lemma highest_best:
  assumes m: "indexed m"
  shows "case highestReadyPriorityLocked ws pred m of
     None \<Rightarrow> ready_entries pred m = []
   | Some p \<Rightarrow> \<exists>e\<in>set (preferred ws (ready_entries pred m)). entry_priority e = p \<and>
       (\<forall>c\<in>set (preferred ws (ready_entries pred m)). entry_priority c \<le> p)"
proof -
  let ?R = "ready_entries pred m" and ?ps = "ready_priorities (ms_entries m)"
  let ?w = "\<lambda>e. me_websocketEnabled (en_meta e)"
  have po: "ms_priorityOrder m = rev (sort ?ps)" using m by (simp add: indexed_def)
  have in_ps: "entry_priority e \<in> set ?ps" if "e \<in> set ?R" for e using ready_bucket [OF m that] by simp
  show ?thesis
  proof (cases "ws \<and> list_ex ?w ?R")
    case True
    then obtain c where c: "c \<in> set ?R" "?w c" by (auto simp: list_ex_iff)
    then obtain p where p: "find (bucket_has m rb_ws pred) (rev (sort ?ps)) = Some p"
      using find_nothing [of "bucket_has m rb_ws pred" ?ps] in_ps [OF c(1)] bucket_has_ws [OF m, of pred "entry_priority c"] by blast
    have "\<exists>e\<in>set (filter ?w ?R). entry_priority e = p \<and> (\<forall>c\<in>set (filter ?w ?R). entry_priority c \<le> p)"
      using find_greatest [OF p] in_ps by (auto simp: bucket_has_ws [OF m])
    with True p show ?thesis by (simp add: highestReadyPriorityLocked_def po preferred_def)
  next
    case False
    have none: "find (bucket_has m rb_ws pred) (rev (sort ?ps)) = None" if ws
      using that False unfolding find_nothing bucket_has_ws [OF m] by (auto simp: list_ex_iff)
    have h: "highestReadyPriorityLocked ws pred m = find (bucket_has m rb_all pred) (rev (sort ?ps))"
      using none by (simp add: highestReadyPriorityLocked_def po)
    have pr: "preferred ws ?R = ?R" using False by (auto simp: preferred_def)
    show ?thesis
    proof (cases "find (bucket_has m rb_all pred) (rev (sort ?ps))")
      case None
      then have "e \<notin> set ?R" for e using in_ps [of e] unfolding find_nothing bucket_has_all [OF m] by auto
      then have "?R = []" by (cases ?R) auto
      then show ?thesis using None h by simp
    next
      case (Some p)
      then show ?thesis using find_greatest [OF Some] in_ps h pr by (auto simp: bucket_has_all [OF m])
    qed
  qed
qed

lemma pick_ready_best:
  assumes ok: "shard_ok (s, m)" and "s \<le> t" and "weights_ok strategy pred"
  shows "case pickReadyLocked ws strategy pred t m of
     (None, m') \<Rightarrow> candidates pred t m' = []
   | (Some a, m') \<Rightarrow> \<exists>e\<in>set (preferred ws (candidates pred t m')). a = entry_auth e \<and>
       list_all (\<lambda>c. entry_priority c \<le> entry_priority e) (preferred ws (candidates pred t m'))"
proof -
  have m: "indexed m" using ok by (simp add: shard_ok_def)
  let ?M = "promoteExpiredLocked t m" and ?m' = "snd (pickReadyLocked ws strategy pred t m)"
  have M: "indexed ?M" using m by (rule promote_indexed)
  have "candidates pred t ?m' = ready_entries pred ?M"
  proof -
    have "(pred e \<and> \<not> fst (isAuthBlockedForModel (entry_auth e) (ms_modelKey m) t)) = (pred e \<and> en_state e = StateReady)"
      if "(i, e) \<in> set (refreshed t m)" for i e
      using ready_means_free [OF ok assms(2), of i e] that refreshed_ok [OF m, of t]
      by (simp add: entries_ok_def entry_verdict_def)
    then show ?thesis unfolding candidates_def ready_entries_def pick_ready_indexed(2,3) [OF m] promote_entries
      by (intro arg_cong [where f = "map snd"] filter_cong) auto
  qed
  note C = this and hb = highest_best [OF M, where ws = ws and pred = pred]
  show ?thesis
  proof (cases "highestReadyPriorityLocked ws pred ?M")
    case None
    then have "pickReadyLocked ws strategy pred t m = (None, ?M)" by (simp add: pickReadyLocked_def)
    then show ?thesis using hb None C by simp
  next
    case (Some p)
    then have pk: "pickReadyLocked ws strategy pred t m = pickReadyAtPriorityLocked ws p strategy pred ?M"
      by (simp add: pickReadyLocked_def)
    obtain e0 where e0: "e0 \<in> set (preferred ws (ready_entries pred ?M))" "entry_priority e0 = p"
        and top: "\<forall>c\<in>set (preferred ws (ready_entries pred ?M)). entry_priority c \<le> p"
      using hb Some by auto
    have "\<exists>e\<in>set (preferred ws (ready_entries pred ?M)). entry_priority e = p \<and>
        fst (pickReadyAtPriorityLocked ws p strategy pred ?M) = Some (entry_auth e)"
      using e0 by (intro pick_at_best [OF M assms(3), of e0]) (auto simp: preferred_def split: if_splits)
    then show ?thesis using pk C top by (cases "pickReadyAtPriorityLocked ws p strategy pred ?M") (auto simp: list_all_iff)
  qed
qed

text \<open>A pick takes the best credential there is. After any history of the shard and at any later time,
  with \<open>C\<close> the entries that the request may use and that are free at that time (only those with
  websockets when the request prefers them and there is one): the pick fails exactly when \<open>C\<close> is empty,
  and otherwise answers with a credential of \<open>C\<close> of the highest priority in \<open>C\<close>, whatever the strategy.\<close>

theorem shard_pick_best:
  assumes "reachable shard_start shard_step (s, m)" and "s \<le> t" and "weights_ok strategy pred"
  shows "case pickReadyLocked ws strategy pred t m of
     (None, m') \<Rightarrow> candidates pred t m' = []
   | (Some a, m') \<Rightarrow> \<exists>e\<in>set (preferred ws (candidates pred t m')). a = entry_auth e \<and>
       list_all (\<lambda>c. entry_priority c \<le> entry_priority e) (preferred ws (candidates pred t m'))"
  using shard.reachable_inv [OF assms(1)] assms(2,3) by (rule pick_ready_best)

text \<open>Three credentials at time 10: one with priority 9 in a cooldown, one with priority 5, one with
  priority 3 and websockets.\<close>

lemma shard_pick_best_witness:
  "case pickReadyLocked True StrategyRoundRobin (\<lambda>_. True) 10
       (upsertEntryLocked (cooling_meta ''c'' 3 True 5) 10 (upsertEntryLocked (cooling_meta ''b'' 5 False 5) 10
         (upsertEntryLocked (cooling_meta ''a'' 9 False 90) 10 (new_shard ''m'')))) of
     (None, m') \<Rightarrow> False | (Some a, m') \<Rightarrow> au_ID a = ''c''"
proof -
  let ?n = "new_shard ''m'' :: unit modelScheduler"
  let ?m1 = "upsertEntryLocked (cooling_meta ''a'' 9 False 90) 10 ?n"
  let ?m2 = "upsertEntryLocked (cooling_meta ''b'' 5 False 5) 10 ?m1"
  let ?m = "upsertEntryLocked (cooling_meta ''c'' 3 True 5) 10 ?m2"
  let ?pick = "pickReadyLocked True StrategyRoundRobin (\<lambda>_. True) 10 ?m"
  have id: "au_ID (me_auth (cooling_meta i p w t)) = i" for i p w t by (simp add: cooling_meta_def plain_auth_def)
  have r: "reachable shard_start shard_step (10, ?m)"
    by (intro reach_upsert reach_init) (simp_all add: id shard_start_def new_shard_def)
  then have m: "indexed ?m" using shard.reachable_inv by (fastforce simp: shard_ok_def)
  have k: "ms_modelKey ?n = ''m''" "ms_entries ?n = []" by (simp_all add: new_shard_def)
  have metas: "map (en_meta \<circ> snd) (ms_entries ?m) = [cooling_meta ''a'' 9 False 90, cooling_meta ''b'' 5 False 5, cooling_meta ''c'' 3 True 5]"
    and keys: "map fst (ms_entries ?m) = [''a'', ''b'', ''c'']" and mk: "ms_modelKey ?m = ''m''"
    by (simp_all add: upsert_entries upsert_key k id new_entry_def)
  have c: "en_meta e \<in> {cooling_meta ''b'' 5 False 5, cooling_meta ''c'' 3 True 5}"
    if cand: "e \<in> set (candidates (\<lambda>_. True) 10 (snd ?pick))" for e
  proof -
    obtain i where i: "(i, e) \<in> set (refreshed 10 ?m)" and free: "\<not> fst (isAuthBlockedForModel (entry_auth e) ''m'' 10)"
      using cand by (auto simp: candidates_def pick_ready_indexed [OF m] mk)
    then have "map_of (refreshed 10 ?m) i = Some e" using refreshed_ok [OF m, of 10] by (simp add: entries_ok_def)
    then obtain o' where "(i, o') \<in> set (ms_entries ?m)" "en_meta e = en_meta o'"
      unfolding refreshed_entry [OF m] by (auto dest: map_of_SomeD)
    then have "en_meta e \<in> set (map (en_meta \<circ> snd) (ms_entries ?m))" by force
    moreover have "en_meta e \<noteq> cooling_meta ''a'' 9 False 90" using free cooling_verdict [of e "''a''" 9 False 90 10] by (auto simp: entry_verdict_def)
    ultimately show ?thesis unfolding metas by simp
  qed
  have "\<exists>e\<in>set (candidates (\<lambda>_. True) 10 (snd ?pick)). en_meta e = cooling_meta ''c'' 3 True 5"
  proof -
    have "map_of (ms_entries ?m) ''c'' = Some (with_verdict (entry_verdict ''m'' 10 (new_entry (cooling_meta ''c'' 3 True 5))) (new_entry (cooling_meta ''c'' 3 True 5)))"
      by (simp add: upsert_entries upsert_key k id)
    then obtain e where e: "map_of (refreshed 10 ?m) ''c'' = Some e" "en_meta e = cooling_meta ''c'' 3 True 5"
      by (simp add: refreshed_entry [OF m] new_entry_def)
    then have "(''c'', e) \<in> set (refreshed 10 ?m)" by (auto dest: map_of_SomeD)
    moreover have "\<not> fst (isAuthBlockedForModel (entry_auth e) ''m'' 10)"
      using cooling_verdict [OF e(2), of 10] by (simp add: entry_verdict_def)
    ultimately show ?thesis using e(2) by (force simp: candidates_def pick_ready_indexed [OF m] mk)
  qed
  then obtain e where e: "e \<in> set (candidates (\<lambda>_. True) 10 (snd ?pick))" "en_meta e = cooling_meta ''c'' 3 True 5" by blast
  then have p: "preferred True (candidates (\<lambda>_. True) 10 (snd ?pick)) =
      filter (\<lambda>e. me_websocketEnabled (en_meta e)) (candidates (\<lambda>_. True) 10 (snd ?pick))"
    by (auto simp: preferred_def list_ex_iff cooling_meta_def)
  have w: "weights_ok StrategyRoundRobin (\<lambda>_. True)" by (simp add: weights_ok_def)
  note best = shard_pick_best [OF r order_refl w, of True]
  show ?thesis
  proof (cases ?pick)
    case (Pair o' m')
    show ?thesis
    proof (cases o')
      case None
      then show ?thesis using best e(1) Pair by auto
    next
      case (Some a)
      then obtain x where x: "x \<in> set (preferred True (candidates (\<lambda>_. True) 10 (snd ?pick)))" "a = entry_auth x"
        using best Pair by auto
      have "\<not> me_websocketEnabled (cooling_meta ''b'' 5 False 5)" by (simp add: cooling_meta_def)
      then have "en_meta x = cooling_meta ''c'' 3 True 5" using x(1) c [of x] unfolding p by auto
      then show ?thesis using x(2) Some Pair id by simp
    qed
  qed
qed


end
