(* ===== verification/SchedulerProperties.thy ===== *)
theory SchedulerProperties
  imports AuthScheduler ShardProperties
begin

text \<open>
  The invariant of the credential scheduler, kept by every operation: every credential belongs to one
  provider, and each shard holds exactly the provider's credentials that support its model.
\<close>

section \<open>Providers\<close>

definition shard_fits :: "'x providerScheduler \<Rightarrow> string \<Rightarrow> 'x modelScheduler \<Rightarrow> bool" where
  "shard_fits p mk sh \<longleftrightarrow> ms_modelKey sh = mk \<and>
     (\<forall>i. map_of (ms_entries sh) i \<noteq> None \<longleftrightarrow> (\<exists>me. map_of (ps_auths p) i = Some me \<and> supportsModel me mk))"

definition provider_ok :: "gtime \<Rightarrow> 'x providerScheduler \<Rightarrow> bool" where
  "provider_ok now p \<longleftrightarrow> keys_distinct (ps_auths p) \<and> (\<forall>i me. map_of (ps_auths p) i = Some me \<longrightarrow> au_ID (me_auth me) = i \<and> i \<noteq> []) \<and>
     (\<forall>mk sh. map_of (ps_modelShards p) mk = Some sh \<longrightarrow> shard_ok (now, sh) \<and> shard_fits p mk sh)"

lemma provider_ids: "provider_ok now p \<Longrightarrow> map_of (ps_auths p) i = Some me \<Longrightarrow> au_ID (me_auth me) = i \<and> i \<noteq> []"
  by (simp add: provider_ok_def)

lemma provider_shards: "provider_ok now p \<Longrightarrow> map_of (ps_modelShards p) k = Some sh \<Longrightarrow> shard_ok (now, sh) \<and> shard_fits p k sh"
  by (simp add: provider_ok_def)

lemma provider_distinct: "provider_ok now p \<Longrightarrow> keys_distinct (ps_auths p)"
  by (simp add: provider_ok_def)

lemma provider_okI:
  "keys_distinct (ps_auths p) \<Longrightarrow> (\<And>i me. map_of (ps_auths p) i = Some me \<Longrightarrow> au_ID (me_auth me) = i \<and> i \<noteq> []) \<Longrightarrow>
   (\<And>k sh. map_of (ps_modelShards p) k = Some sh \<Longrightarrow> shard_ok (now, sh) \<and> shard_fits p k sh) \<Longrightarrow> provider_ok now p"
  by (simp add: provider_ok_def)

lemma shard_ok_mono: "shard_ok (s, sh) \<Longrightarrow> s \<le> t \<Longrightarrow> shard_ok (t, sh)"
  using shard_step_ok sh_tick by blast

lemma provider_ok_mono: "provider_ok s p \<Longrightarrow> s \<le> t \<Longrightarrow> provider_ok t p"
  using shard_ok_mono unfolding provider_ok_def by blast

lemma sync_shard_ok:
  "shard_ok (now, sh) \<Longrightarrow> au_ID (me_auth me) \<noteq> [] \<Longrightarrow> shard_ok (now, sync_shard me now k sh)"
  by (auto simp: sync_shard_def intro: shard_step_ok sh_upsert sh_remove)

lemma sync_shard_key [simp]: "ms_modelKey (sync_shard me now k sh) = ms_modelKey sh"
  by (simp add: sync_shard_def upsert_key removed_key)

lemma remove_entries_dom: "i \<noteq> [] \<Longrightarrow> map_of (ms_entries (removeEntryLocked i sh)) j \<noteq> None \<longleftrightarrow> j \<noteq> i \<and> map_of (ms_entries sh) j \<noteq> None"
  by (auto simp: removeEntryLocked_def map_of_delete_cases)

lemma sync_shard_dom:
  "au_ID (me_auth me) \<noteq> [] \<Longrightarrow> map_of (ms_entries (sync_shard me now k sh)) j \<noteq> None \<longleftrightarrow>
     (if j = au_ID (me_auth me) then supportsModel me k else map_of (ms_entries sh) j \<noteq> None)"
  using remove_entries_dom [of "au_ID (me_auth me)" sh j]
  by (auto simp: sync_shard_def upsert_entries update_conv')

lemma sync_shard_fits:
  assumes "shard_fits p k sh" and "au_ID (me_auth me) \<noteq> []"
  shows "shard_fits (p\<lparr>ps_auths := AList.update (au_ID (me_auth me)) me (ps_auths p), ps_modelShards := x\<rparr>) k (sync_shard me now k sh)"
  using assms sync_shard_dom [OF assms(2), of now k sh] by (auto simp: shard_fits_def update_conv')

lemma map_of_map_keyed: "map_of (map (\<lambda>(k, v). (k, f k v)) al) k = map_option (f k) (map_of al k)"
  by (induction al) auto

lemma upsert_all_ok:
  assumes p: "provider_ok now p" and i: "au_ID (me_auth me) \<noteq> []" and all: "cs \<or> targets = []"
  shows "provider_ok now (upsertAuthForModelsLocked me targets cs now p)"
  using p i sync_shard_ok [of now _ me] sync_shard_fits [of p _ _ me]
  by (auto simp: upsertAuthForModelsLocked_def all provider_ok_def map_of_map_keyed update_conv' distinct_update)

text \<open>When the models of the credential stay the same, the shards that are left alone still fit.\<close>

lemma adjust_shards_ok:
  assumes sh: "\<And>k sh. map_of shards k = Some sh \<Longrightarrow> shard_ok (now, sh) \<and> shard_fits p k sh"
    and me: "map_of (ps_auths p) (au_ID (me_auth me)) = Some me" and i: "au_ID (me_auth me) \<noteq> []"
    and k: "map_of (adjust mk (sync_shard me now mk) shards) k = Some sh"
  shows "shard_ok (now, sh) \<and> shard_fits p k sh"
proof -
  have fits: "shard_fits p k' (sync_shard me now k' sh')" if "shard_fits p k' sh'" for k' sh'
    using that me sync_shard_dom [OF i, of now k' sh'] by (auto simp: shard_fits_def)
  show ?thesis
  proof (cases "k = mk")
    case True
    then obtain z where z: "map_of shards mk = Some z" "sh = sync_shard me now mk z" using k by auto
    with sh [OF z(1)] fits [of mk z] sync_shard_ok [OF _ i, of now z mk] True show ?thesis by simp
  qed (use k sh in simp)
qed

lemma target_loop_ok:
  assumes "\<And>k sh. map_of shards k = Some sh \<Longrightarrow> shard_ok (now, sh) \<and> shard_fits p k sh"
    and "map_of (ps_auths p) (au_ID (me_auth me)) = Some me" and "au_ID (me_auth me) \<noteq> []"
    and "map_of (target_loop me now seen ms shards) k = Some sh"
  shows "shard_ok (now, sh) \<and> shard_fits p k sh"
  using assms
proof (induction me now seen ms shards rule: target_loop.induct)
  case (2 me now seen m ms shards)
  let ?k = "canonicalModelKey m"
  show ?case
  proof (cases "?k \<in> set seen")
    case True
    with 2 show ?thesis by simp
  next
    case False
    have "shard_ok (now, sh) \<and> shard_fits p k sh" if "map_of (adjust ?k (sync_shard me now ?k) shards) k = Some sh" for k sh
      using that by (intro adjust_shards_ok [OF 2(3,4,5)])
    with False 2 show ?thesis by (simp add: Let_def)
  qed
qed simp

lemma supports_same: "me_supportedModelSet a = me_supportedModelSet b \<Longrightarrow> supportsModel a k = supportsModel b k"
  by (simp add: supportsModel_def)

lemma upsert_target_ok:
  assumes p: "provider_ok now p" and i: "au_ID (me_auth me) \<noteq> []"
    and old: "map_of (ps_auths p) (au_ID (me_auth me)) = Some o'" "me_supportedModelSet o' = me_supportedModelSet me"
  shows "provider_ok now (upsertAuthForModelsLocked me targets cs now p)"
proof (cases "cs \<or> targets = []")
  case True
  with p i show ?thesis by (rule upsert_all_ok)
next
  case False
  let ?p = "p\<lparr>ps_auths := AList.update (au_ID (me_auth me)) me (ps_auths p)\<rparr>"
  have sh: "shard_ok (now, sh) \<and> shard_fits ?p k sh" if "map_of (ps_modelShards p) k = Some sh" for k sh
    using provider_shards [OF p that] old supports_same [OF old(2)] unfolding shard_fits_def by (auto simp: update_conv')
  have me: "map_of (ps_auths ?p) (au_ID (me_auth me)) = Some me" by (simp add: update_conv')
  have adj: "shard_ok (now, sh) \<and> shard_fits ?p k sh"
    if s: "map_of (adjust [] (sync_shard me now []) (ps_modelShards p)) k = Some sh" for k sh
    by (rule adjust_shards_ok [where shards = "ps_modelShards p" and mk = "[]", OF _ me i s]) (rule sh)
  have a: "shard_ok (now, sh) \<and> shard_fits ?p k sh"
    if s: "map_of (target_loop me now [] targets (adjust [] (sync_shard me now []) (ps_modelShards p))) k = Some sh" for k sh
    by (rule target_loop_ok [OF _ me i s]) (rule adj)
  have fits: "shard_fits (?p\<lparr>ps_modelShards := x\<rparr>) k sh = shard_fits ?p k sh" for x k sh by (simp add: shard_fits_def)
  have eq: "upsertAuthForModelsLocked me targets cs now p =
      ?p\<lparr>ps_modelShards := target_loop me now [] targets (adjust [] (sync_shard me now []) (ps_modelShards p))\<rparr>"
    using False by (simp add: upsertAuthForModelsLocked_def updateTargetShardsLocked_def)
  have au: "au_ID (me_auth x) = j \<and> j \<noteq> []" if "map_of (ps_auths ?p) j = Some x" for j x
  proof (cases "j = au_ID (me_auth me)")
    case False
    then have "map_of (ps_auths p) j = Some x" using that by (simp add: update_conv')
    then show ?thesis by (rule provider_ids [OF p])
  qed (use that i in \<open>simp add: update_conv'\<close>)
  show ?thesis unfolding eq
  proof (rule provider_okI)
    show "keys_distinct (ps_auths (?p\<lparr>ps_modelShards := target_loop me now [] targets (adjust [] (sync_shard me now []) (ps_modelShards p))\<rparr>))"
      using provider_distinct [OF p] by (simp add: distinct_update)
  next
    fix j x assume "map_of (ps_auths (?p\<lparr>ps_modelShards := target_loop me now [] targets (adjust [] (sync_shard me now []) (ps_modelShards p))\<rparr>)) j = Some x"
    then show "au_ID (me_auth x) = j \<and> j \<noteq> []" by (intro au) simp
  next
    fix k sh assume "map_of (ps_modelShards (?p\<lparr>ps_modelShards := target_loop me now [] targets (adjust [] (sync_shard me now []) (ps_modelShards p))\<rparr>)) k = Some sh"
    then show "shard_ok (now, sh) \<and> shard_fits (?p\<lparr>ps_modelShards := target_loop me now [] targets (adjust [] (sync_shard me now []) (ps_modelShards p))\<rparr>) k sh"
      unfolding fits by (intro a) simp
  qed
qed

lemma upsert_auths [simp]: "ps_auths (upsertAuthForModelsLocked me targets cs now p) = AList.update (au_ID (me_auth me)) me (ps_auths p)"
  by (simp add: upsertAuthForModelsLocked_def updateTargetShardsLocked_def Let_def)

lemma provider_remove_ok:
  assumes "provider_ok now p"
  shows "provider_ok now (provider_removeAuthLocked i p)"
proof (cases "i = []")
  case False
  have "shard_ok (now, removeEntryLocked i sh) \<and>
      shard_fits (p\<lparr>ps_auths := AList.delete i (ps_auths p), ps_modelShards := x\<rparr>) k (removeEntryLocked i sh)"
    if "map_of (ps_modelShards p) k = Some sh" for k sh x
    using provider_shards [OF assms that] remove_entries_dom [OF False, of sh] shard_step_ok [OF sh_remove, of now sh i]
    unfolding shard_fits_def by (auto simp: removed_key map_of_delete_cases)
  moreover have "au_ID (me_auth me) = j \<and> j \<noteq> []" if "map_of (AList.delete i (ps_auths p)) j = Some me" for j me
    using provider_ids [OF assms] that by (auto simp: map_of_delete_cases split: if_splits)
  ultimately show ?thesis using False provider_distinct [OF assms] by (intro provider_okI) (auto simp: provider_removeAuthLocked_def)
qed (use assms in \<open>simp add: provider_removeAuthLocked_def\<close>)

lemma provider_remove_auths: "i \<noteq> [] \<Longrightarrow> ps_auths (provider_removeAuthLocked i p) = AList.delete i (ps_auths p)"
  by (simp add: provider_removeAuthLocked_def)

lemma refreshed_dom: "indexed m \<Longrightarrow> map_of (refreshed t m) i \<noteq> None \<longleftrightarrow> map_of (ms_entries m) i \<noteq> None"
  by (simp add: refreshed_entry)

text \<open>The shard built from scratch.\<close>

lemma build_fold:
  fixes k
  assumes "\<And>i me. (i, me) \<in> set auths \<Longrightarrow> au_ID (me_auth me) = i \<and> i \<noteq> []" and "shard_ok (now, sh)"
  defines "sh' \<equiv> fold (\<lambda>(i, me) sh. if \<not> supportsModel me k then sh else upsertEntryLocked me now sh) auths sh"
  shows "shard_ok (now, sh') \<and> ms_modelKey sh' = ms_modelKey sh \<and>
     (\<forall>i. map_of (ms_entries sh') i \<noteq> None \<longleftrightarrow> map_of (ms_entries sh) i \<noteq> None \<or> (\<exists>me. (i, me) \<in> set auths \<and> supportsModel me k))"
  using assms(1,2) unfolding sh'_def
proof (induction auths arbitrary: sh)
  case (Cons a auths)
  obtain i me where a: "a = (i, me)" by (cases a)
  have i: "au_ID (me_auth me) = i" "i \<noteq> []" using Cons.prems(1) [of i me] a by simp_all
  let ?sh = "if \<not> supportsModel me k then sh else upsertEntryLocked me now sh"
  have "shard_ok (now, ?sh)" using Cons.prems(2) i shard_step_ok [OF sh_upsert, of me now sh] by simp
  moreover have "ms_modelKey ?sh = ms_modelKey sh" by (simp add: upsert_key)
  moreover have "map_of (ms_entries ?sh) j \<noteq> None \<longleftrightarrow> map_of (ms_entries sh) j \<noteq> None \<or> (j = i \<and> supportsModel me k)" for j
    using i by (auto simp: upsert_entries update_conv')
  moreover have "au_ID (me_auth x) = j \<and> j \<noteq> []" if "(j, x) \<in> set auths" for j x using Cons.prems(1) [of j x] that by simp
  moreover note Cons.IH [of ?sh]
  moreover have "(\<exists>x. (j, x) \<in> set (a # auths) \<and> supportsModel x k) \<longleftrightarrow> (j = i \<and> supportsModel me k) \<or> (\<exists>x. (j, x) \<in> set auths \<and> supportsModel x k)" for j
    using a by auto
  moreover have "fold (\<lambda>(i, me) sh. if \<not> supportsModel me k then sh else upsertEntryLocked me now sh) (a # auths) sh =
      fold (\<lambda>(i, me) sh. if \<not> supportsModel me k then sh else upsertEntryLocked me now sh) auths ?sh" by (simp add: a)
  ultimately show ?case by (simp only: simp_thms) blast
qed simp

lemma new_shard_ok: "0 \<le> t \<Longrightarrow> shard_ok (t, new_shard k)"
  by (rule shard.init_inv) (simp add: shard_start_def new_shard_def)

lemma ensure_model_ok:
  fixes model
  assumes p: "provider_ok s p" and t: "s \<le> t" "0 \<le> t"
  defines "sh \<equiv> fst (ensureModelLocked model t p)"
  shows "shard_ok (t, sh) \<and> shard_fits p (canonicalModelKey model) sh"
proof (cases "map_of (ps_modelShards p) (canonicalModelKey model)")
  case None
  have ids: "au_ID (me_auth me) = i \<and> i \<noteq> []" if "(i, me) \<in> set (ps_auths p)" for i me
    using provider_ids [OF p, of i me] that provider_distinct [OF p] by simp
  have sh: "sh = built_shard (canonicalModelKey model) t (ps_auths p)"
    using None by (simp add: sh_def ensureModelLocked_def Let_def)
  from build_fold [where k = "canonicalModelKey model", OF ids new_shard_ok [OF t(2), where k = "canonicalModelKey model"]]
  have "shard_ok (t, sh) \<and> ms_modelKey sh = canonicalModelKey model \<and>
      (\<forall>i. map_of (ms_entries sh) i \<noteq> None \<longleftrightarrow> (\<exists>me. (i, me) \<in> set (ps_auths p) \<and> supportsModel me (canonicalModelKey model)))"
    unfolding sh built_shard_def by (simp add: new_shard_def)
  then show ?thesis using provider_distinct [OF p] by (simp add: shard_fits_def)
next
  case (Some o')
  then have sh: "sh = promoteExpiredLocked t o'" by (simp add: sh_def ensureModelLocked_def Let_def)
  have o': "shard_ok (s, o')" "shard_fits p (canonicalModelKey model) o'" using provider_shards [OF p Some] by simp_all
  have ok: "shard_ok (t, o')" using o'(1) t(1) by (rule shard_ok_mono)
  then have "shard_ok (t, sh)" unfolding sh by (rule shard_step_ok [OF sh_promote])
  moreover have ix: "indexed o'" using o'(1) by (simp add: shard_ok_def)
  have "shard_fits p (canonicalModelKey model) sh"
    using o'(2) unfolding sh shard_fits_def promote_entries refreshed_dom [OF ix] .
  ultimately show ?thesis by simp
qed

lemma put_shard_ok:
  assumes p: "provider_ok t p" and sh: "shard_ok (t, sh)" "shard_fits p k sh"
  shows "provider_ok t (p\<lparr>ps_modelShards := AList.update k sh (ps_modelShards p)\<rparr>)"
proof (rule provider_okI)
  fix j x assume "map_of (ps_auths (p\<lparr>ps_modelShards := AList.update k sh (ps_modelShards p)\<rparr>)) j = Some x"
  then show "au_ID (me_auth x) = j \<and> j \<noteq> []" by (intro provider_ids [OF p]) simp
next
  fix k' sh' assume "map_of (ps_modelShards (p\<lparr>ps_modelShards := AList.update k sh (ps_modelShards p)\<rparr>)) k' = Some sh'"
  then have "if k' = k then sh' = sh else map_of (ps_modelShards p) k' = Some sh'" by (auto simp: update_conv' split: if_splits)
  moreover have "shard_fits (p\<lparr>ps_modelShards := x\<rparr>) k' sh' = shard_fits p k' sh'" for x by (simp add: shard_fits_def)
  ultimately show "shard_ok (t, sh') \<and> shard_fits (p\<lparr>ps_modelShards := AList.update k sh (ps_modelShards p)\<rparr>) k' sh'"
    using sh provider_shards [OF p, of k' sh'] by (simp split: if_splits)
qed (use provider_distinct [OF p] in simp)

lemma pick_ready_ok:
  assumes "shard_ok (t, sh)" and "t \<le> t'" and "shard_fits p k sh"
  shows "shard_ok (t', snd (pickReadyLocked ws strategy pred t' sh)) \<and> shard_fits p k (snd (pickReadyLocked ws strategy pred t' sh))"
proof -
  have "indexed sh" using assms(1) by (simp add: shard_ok_def)
  note pick_ready_indexed [OF this, of ws strategy pred t'] refreshed_dom [OF this, of t']
  then show ?thesis using shard_step_ok [OF sh_pick [of t' sh ws strategy pred] shard_ok_mono [OF assms(1,2)]] assms(3)
    by (simp add: shard_fits_def)
qed

lemma pick_at_ok:
  assumes "shard_ok (t, sh)" and "shard_fits p k sh"
  shows "shard_ok (t, snd (pickReadyAtPriorityLocked ws q strategy pred sh)) \<and> shard_fits p k (snd (pickReadyAtPriorityLocked ws q strategy pred sh))"
proof -
  have "indexed sh" using assms(1) by (simp add: shard_ok_def)
  note pick_at_indexed [OF this, of ws q strategy pred]
  then show ?thesis using shard_step_ok [OF sh_pick_at [of t sh ws q strategy pred] assms(1)] assms(2) by (simp add: shard_fits_def)
qed

section \<open>The scheduler\<close>

text \<open>Provider \<open>k\<close> holds exactly the credentials that are assigned to it.\<close>

definition provider_fits :: "gtime \<Rightarrow> 'x authScheduler \<Rightarrow> string \<Rightarrow> 'x providerScheduler \<Rightarrow> bool" where
  "provider_fits now s k p \<longleftrightarrow> provider_ok now p \<and>
     (\<forall>i. map_of (ps_auths p) i \<noteq> None \<longleftrightarrow> map_of (as_authProviders s) i = Some k)"

definition sched_ok :: "gtime \<times> 'x authScheduler \<Rightarrow> bool" where
  "sched_ok = (\<lambda>(now, s). 0 \<le> now \<and> keys_distinct (as_providers s) \<and>
     (\<forall>k p. map_of (as_providers s) k = Some p \<longrightarrow> provider_fits now s k p) \<and>
     (\<forall>i k. map_of (as_authProviders s) i = Some k \<longrightarrow> k \<noteq> [] \<and> map_of (as_providers s) k \<noteq> None))"

lemma sched_okD:
  assumes "sched_ok (now, s)"
  shows "0 \<le> now" "keys_distinct (as_providers s)"
    "map_of (as_providers s) k = Some p \<Longrightarrow> provider_fits now s k p"
    "map_of (as_authProviders s) i = Some k \<Longrightarrow> k \<noteq> [] \<and> map_of (as_providers s) k \<noteq> None"
  using assms by (auto simp: sched_ok_def)

lemma sched_okI:
  assumes "0 \<le> now" and "keys_distinct (as_providers s)"
    and "\<And>k p. map_of (as_providers s) k = Some p \<Longrightarrow> provider_fits now s k p"
    and "\<And>i k. map_of (as_authProviders s) i = Some k \<Longrightarrow> k \<noteq> [] \<and> map_of (as_providers s) k \<noteq> None"
  shows "sched_ok (now, s)"
  using assms by (simp add: sched_ok_def)

lemma sched_ok_cong:
  "sched_ok (now, s) \<Longrightarrow> as_providers s' = as_providers s \<Longrightarrow> as_authProviders s' = as_authProviders s \<Longrightarrow> sched_ok (now, s')"
  by (simp add: sched_ok_def provider_fits_def del: map_of_eq_Some_iff)

lemma sched_ok_mono: "sched_ok (s, x) \<Longrightarrow> s \<le> t \<Longrightarrow> sched_ok (t, x)"
  using provider_ok_mono by (fastforce simp: sched_ok_def provider_fits_def)

lemma attr_assigned:
  assumes "sched_ok (now, s)"
  shows "attr (as_authProviders s) i = [] \<longleftrightarrow> map_of (as_authProviders s) i = None"
    "attr (as_authProviders s) i = k \<Longrightarrow> k \<noteq> [] \<Longrightarrow> map_of (as_authProviders s) i = Some k"
  using sched_okD(4) [OF assms, of i] by (auto simp: attr_def split: option.splits)

lemma unassign_ok:
  assumes ok: "sched_ok (now, s)" and i: "i \<noteq> []"
  shows "sched_ok (now, removeAuthFromProvidersLocked i s)"
proof (cases "map_of (as_authProviders s) i")
  case None
  then show ?thesis using ok by (simp add: removeAuthFromProvidersLocked_def attr_def)
next
  case (Some k)
  have k: "k \<noteq> []" using sched_okD(4) [OF ok Some] by simp
  have eq: "removeAuthFromProvidersLocked i s = s\<lparr>as_providers := adjust k (provider_removeAuthLocked i) (as_providers s),
      as_authProviders := AList.delete i (as_authProviders s)\<rparr>"
    using Some k by (simp add: removeAuthFromProvidersLocked_def attr_def)
  show ?thesis unfolding eq
  proof (rule sched_okI)
    fix k' p'
    assume "map_of (as_providers (s\<lparr>as_providers := adjust k (provider_removeAuthLocked i) (as_providers s),
        as_authProviders := AList.delete i (as_authProviders s)\<rparr>)) k' = Some p'"
    then obtain p where p: "map_of (as_providers s) k' = Some p" "p' = (if k' = k then provider_removeAuthLocked i p else p)"
      by (auto split: if_splits)
    note f = sched_okD(3) [OF ok p(1)]
    then show "provider_fits now (s\<lparr>as_providers := adjust k (provider_removeAuthLocked i) (as_providers s),
        as_authProviders := AList.delete i (as_authProviders s)\<rparr>) k' p'"
      using p(2) provider_remove_ok [of now p i] Some
      by (auto simp: provider_fits_def provider_remove_auths [OF i] map_of_delete_cases)
  next
    fix j k'
    assume "map_of (as_authProviders (s\<lparr>as_providers := adjust k (provider_removeAuthLocked i) (as_providers s),
        as_authProviders := AList.delete i (as_authProviders s)\<rparr>)) j = Some k'"
    then have "map_of (as_authProviders s) j = Some k'" by (simp add: map_of_delete_cases split: if_splits)
    from sched_okD(4) [OF ok this] show "k' \<noteq> [] \<and> map_of (as_providers (s\<lparr>as_providers := adjust k (provider_removeAuthLocked i) (as_providers s),
        as_authProviders := AList.delete i (as_authProviders s)\<rparr>)) k' \<noteq> None" by auto
  qed (use sched_okD(1,2) [OF ok] in simp_all)
qed

text \<open>The provider a credential goes to, after it has left the previous one.\<close>

lemma leave_simps [simp]:
  "as_authProviders (leave_previous i k s) = as_authProviders s"
  "as_authGenerations (leave_previous i k s) = as_authGenerations s"
  by (simp_all add: leave_previous_def Let_def)

lemma leave_providers:
  assumes ok: "sched_ok (now, s)" and i: "i \<noteq> []"
  shows "map_of (as_providers (leave_previous i k s)) k' =
     map_option (\<lambda>p. if k' \<noteq> k \<and> map_of (as_authProviders s) i = Some k' then provider_removeAuthLocked i p else p) (map_of (as_providers s) k')"
  using attr_assigned [OF ok, of i] sched_okD(4) [OF ok, of i]
  by (cases "map_of (as_authProviders s) i") (auto simp: leave_previous_def Let_def attr_def option.map_ident)

lemma ensured_provider_ok:
  fixes k
  assumes ok: "sched_ok (now, s)" and i: "i \<noteq> []"
  defines "p \<equiv> ensureProviderLocked k (leave_previous i k s)"
  shows "provider_ok now p" and "map_of (ps_auths p) j \<noteq> None \<longleftrightarrow> map_of (as_authProviders s) j = Some k"
proof -
  have "map_of (as_providers (leave_previous i k s)) k = map_of (as_providers s) k"
    by (simp add: leave_providers [OF ok i] option.map_ident)
  then have p: "p = (case map_of (as_providers s) k of None \<Rightarrow> new_provider k | Some p \<Rightarrow> p)"
    by (simp add: p_def ensureProviderLocked_def)
  have "provider_ok now p \<and> (\<forall>j. map_of (ps_auths p) j \<noteq> None \<longleftrightarrow> map_of (as_authProviders s) j = Some k)"
  proof (cases "map_of (as_providers s) k")
    case None
    then show ?thesis using sched_okD(4) [OF ok, where k = k] by (auto simp: p new_provider_def provider_ok_def)
  next
    case (Some q)
    then show ?thesis using sched_okD(3) [OF ok Some] unfolding p provider_fits_def by simp
  qed
  then show "provider_ok now p" "map_of (ps_auths p) j \<noteq> None \<longleftrightarrow> map_of (as_authProviders s) j = Some k" by blast+
qed

lemma place_ok:
  assumes ok: "sched_ok (now, s)" and i: "au_ID (me_auth me) = i" "i \<noteq> []" and k: "k \<noteq> []"
    and models: "cs \<or> targets = [] \<or> (\<exists>o'. map_of (ps_auths (ensureProviderLocked k (leave_previous i k s))) i = Some o' \<and>
      me_supportedModelSet o' = me_supportedModelSet me)"
  shows "sched_ok (now, place_auth i k me targets cs now (leave_previous i k s))"
proof -
  let ?l = "leave_previous i k s" and ?p = "ensureProviderLocked k (leave_previous i k s)"
  let ?P = "upsertAuthForModelsLocked me targets cs now ?p"
  note ep = ensured_provider_ok [OF ok i(2), of k]
  have P: "provider_ok now ?P"
    using models upsert_all_ok [OF ep(1), of me cs targets] upsert_target_ok [OF ep(1), of me _ targets cs] i by blast
  have Pa: "map_of (ps_auths ?P) j \<noteq> None \<longleftrightarrow> j = i \<or> map_of (as_authProviders s) j = Some k" for j
    using ep(2) [of j] i(1) by (simp add: update_conv')
  have pl: "as_providers (place_auth i k me targets cs now ?l) = AList.update k ?P (as_providers ?l)"
      "as_authProviders (place_auth i k me targets cs now ?l) = AList.update i k (as_authProviders s)"
    by (simp_all add: place_auth_def set_provider_def)
  have old: "map_of (as_providers ?l) k' = map_option (\<lambda>p. if k' \<noteq> k \<and> map_of (as_authProviders s) i = Some k'
      then provider_removeAuthLocked i p else p) (map_of (as_providers s) k')" for k'
    by (rule leave_providers [OF ok i(2)])
  show ?thesis
  proof (rule sched_okI)
    fix k' p' assume p': "map_of (as_providers (place_auth i k me targets cs now ?l)) k' = Some p'"
    show "provider_fits now (place_auth i k me targets cs now ?l) k' p'"
    proof (cases "k' = k")
      case True
      then have "p' = ?P" using p' by (simp add: pl update_conv')
      with True P Pa show ?thesis by (simp add: provider_fits_def pl update_conv' del: upsert_auths)
    next
      case False
      then obtain q where q: "map_of (as_providers s) k' = Some q"
          "p' = (if map_of (as_authProviders s) i = Some k' then provider_removeAuthLocked i q else q)"
        using p' by (auto simp: pl update_conv' old)
      note f = sched_okD(3) [OF ok q(1), unfolded provider_fits_def]
      have "map_of (ps_auths p') j \<noteq> None \<longleftrightarrow> j \<noteq> i \<and> map_of (as_authProviders s) j = Some k'" for j
        using f [THEN conjunct2, rule_format, of j] q(2) provider_remove_auths [OF i(2), of q]
        by (cases "j = i") (auto simp: map_of_delete_cases)
      then show ?thesis using f q(2) False provider_remove_ok [of now q i] by (simp add: provider_fits_def pl update_conv')
    qed
  next
    fix j k' assume "map_of (as_authProviders (place_auth i k me targets cs now ?l)) j = Some k'"
    then have "k' = k \<or> map_of (as_authProviders s) j = Some k'" by (auto simp: pl update_conv' split: if_splits)
    then show "k' \<noteq> [] \<and> map_of (as_providers (place_auth i k me targets cs now ?l)) k' \<noteq> None"
      using k sched_okD(4) [OF ok, of j k'] by (auto simp: pl update_conv' old)
  next
    have "keys_distinct (as_providers ?l)" using sched_okD(2) [OF ok] by (simp add: leave_previous_def Let_def)
    then show "keys_distinct (as_providers (place_auth i k me targets cs now ?l))" by (simp add: pl distinct_update)
  qed (rule sched_okD(1) [OF ok])
qed

lemma put_provider_ok:
  assumes ok: "sched_ok (now, s)" and p: "map_of (as_providers s) k = Some p" and p': "provider_ok now p'"
    and dom: "\<And>i. map_of (ps_auths p') i \<noteq> None \<longleftrightarrow> map_of (ps_auths p) i \<noteq> None"
  shows "sched_ok (now, set_provider k p' s)"
proof (rule sched_okI)
  fix k' q assume q: "map_of (as_providers (set_provider k p' s)) k' = Some q"
  show "provider_fits now (set_provider k p' s) k' q"
  proof (cases "k' = k")
    case True
    then have "q = p'" using q by (simp add: set_provider_def update_conv')
    then show ?thesis using sched_okD(3) [OF ok p] True p' dom unfolding provider_fits_def by (simp add: set_provider_def)
  next
    case False
    then show ?thesis using q sched_okD(3) [OF ok, of k' q] by (simp add: set_provider_def update_conv' provider_fits_def)
  qed
next
  fix i k' assume "map_of (as_authProviders (set_provider k p' s)) i = Some k'"
  then show "k' \<noteq> [] \<and> map_of (as_providers (set_provider k p' s)) k' \<noteq> None"
    using sched_okD(4) [OF ok, of i k'] by (auto simp: set_provider_def update_conv')
qed (use sched_okD(1,2) [OF ok] in \<open>simp_all add: set_provider_def distinct_update\<close>)

lemma generation_ok: "sched_ok (now, s) \<Longrightarrow> sched_ok (now, set_generation i e g t s)"
  by (erule sched_ok_cong) (simp_all add: set_generation_def)

lemma built_id [simp]: "me_auth (buildScheduledAuthMetaWithModelSet a ms e) = a"
  "me_supportedModelSet (buildScheduledAuthMetaWithModelSet a ms e) = ms"
  by (simp_all add: buildScheduledAuthMetaWithModelSet_def)

definition trimmed :: "'x Auth \<Rightarrow> bool" where
  "trimmed a \<longleftrightarrow> TrimSpace (au_ID a) = au_ID a"

lemma lifecycle_ok:
  assumes ok: "sched_ok (now, s)" and a: "trimmed a"
  shows "sched_ok (now, upsertAuthLifecycleLocked rw a now s)"
proof -
  let ?g = "set_generation (au_ID a) (au_RegistrationEpoch a) (au_Generation a) (au_UpdatedAt a) s"
  have g: "sched_ok (now, ?g)" using ok by (rule generation_ok)
  have "sched_ok (now, place_auth (au_ID a) (executorKeyFromAuth a) (buildScheduledAuthMetaWithModelSet a ms e) [] True now
      (leave_previous (au_ID a) (executorKeyFromAuth a) ?g))" if "au_ID a \<noteq> []" "\<not> unschedulable a" for ms e
    using that by (intro place_ok [OF g]) (auto simp: unschedulable_def)
  then show ?thesis using ok a unassign_ok [OF g, of "au_ID a"]
    unfolding upsertAuthLifecycleLocked_def trimmed_def Let_def by (auto split del: if_split split: if_splits)
qed

lemma refresh_latest_ok:
  assumes ok: "sched_ok (now, s)"
  shows "sched_ok (now, refresh_latest i k targets cs now s)"
proof (cases "\<exists>p me. k \<noteq> [] \<and> map_of (as_providers s) k = Some p \<and> map_of (ps_auths p) i = Some me")
  case True
  then obtain p me where p: "k \<noteq> []" "map_of (as_providers s) k = Some p" and me: "map_of (ps_auths p) i = Some me" by blast
  have pk: "provider_ok now p" using sched_okD(3) [OF ok p(2)] by (simp add: provider_fits_def)
  note ids = provider_ids [OF pk me]
  have "sched_ok (now, set_provider k (upsertAuthForModelsLocked me targets cs now p) s)"
  proof (rule put_provider_ok [OF ok p(2)])
    show "provider_ok now (upsertAuthForModelsLocked me targets cs now p)"
      using ids me by (intro upsert_target_ok [OF pk]) auto
    show "map_of (ps_auths (upsertAuthForModelsLocked me targets cs now p)) j \<noteq> None \<longleftrightarrow> map_of (ps_auths p) j \<noteq> None" for j
      using ids me by (simp add: update_conv')
  qed
  then show ?thesis using p me by (simp add: refresh_latest_def)
next
  case False
  then have "refresh_latest i k targets cs now s = s" by (auto simp: refresh_latest_def split: option.splits if_splits)
  then show ?thesis using ok by simp
qed

lemma place_result_ok:
  assumes ok: "sched_ok (now, s)" and i: "au_ID a = i" "i \<noteq> []" and k: "k \<noteq> []"
  shows "sched_ok (now, place_result rw a i k targets cs now (leave_previous i k s))"
proof -
  let ?em = "map_of (ps_auths (ensureProviderLocked k (leave_previous i k s))) i"
  let ?c = "cached_models (rw_epoch rw i) ?em"
  have all: "sched_ok (now, place_auth i k (buildScheduledAuthMetaWithModelSet a ms e) [] True now (leave_previous i k s))" for ms e
    using i k by (intro place_ok [OF ok]) auto
  have target: "sched_ok (now, place_auth i k (buildScheduledAuthMetaWithModelSet a ?c e) targets cs now (leave_previous i k s))"
    if "?c \<noteq> None" for e
    using that i k by (intro place_ok [OF ok]) (auto simp: cached_models_def split: option.splits if_splits)
  show ?thesis
  proof (cases "?c = None")
    case True
    then show ?thesis using all by (simp add: place_result_def Let_def)
  next
    case False
    from target [OF False] all show ?thesis by (cases cs) (simp_all add: place_result_def Let_def False)
  qed
qed

lemma result_ok:
  assumes ok: "sched_ok (now, s)" and a: "trimmed a"
  shows "sched_ok (now, upsertAuthResultLocked rw a targets cs now s)"
proof -
  let ?g = "set_generation (au_ID a) (au_RegistrationEpoch a) (au_Generation a) (au_UpdatedAt a) s"
  have g: "sched_ok (now, ?g)" using ok by (rule generation_ok)
  have "sched_ok (now, place_result rw a (au_ID a) (executorKeyFromAuth a) targets cs now (leave_previous (au_ID a) (executorKeyFromAuth a) ?g))"
    if "au_ID a \<noteq> []" "\<not> unschedulable a"
    using that by (intro place_result_ok [OF g]) (auto simp: unschedulable_def)
  then show ?thesis using a ok unassign_ok [OF g, of "au_ID a"] refresh_latest_ok [OF ok]
    unfolding upsertAuthResultLocked_def trimmed_def Let_def by (auto split del: if_split split: if_splits)
qed

text \<open>A rebuild starts from nothing and keeps the credentials it knows better.\<close>

lemma place_rebuilt_ok:
  assumes ok: "sched_ok (now, s)" and i: "au_ID b = i" "i \<noteq> []"
  shows "sched_ok (now, place_rebuilt rw b i now s)"
proof -
  have "sched_ok (now, place_auth i (executorKeyFromAuth b) (buildScheduledAuthMetaWithModelSet b ms e) [] True now
      (leave_previous i (executorKeyFromAuth b) (set_generation i n g t s)))" if "\<not> unschedulable b" for ms e n g t
    using that i by (intro place_ok [OF generation_ok [OF ok]]) (auto simp: unschedulable_def)
  then show ?thesis using unassign_ok [OF ok i(2)] by (simp add: place_rebuilt_def Let_def split: prod.split)
qed

lemma rebuild_one_ok:
  assumes ok: "sched_ok (now, s)" and a: "trimmed a"
    and metas: "\<And>i me. map_of metas i = Some me \<Longrightarrow> au_ID (me_auth me) = i"
  shows "sched_ok (now, upsertAuthRebuildLocked rw a metas now s)"
proof (cases "au_ID a = [] \<or> chosen_auth a (map_of (as_authGenerations s) (au_ID a)) (map_of metas (au_ID a)) = None")
  case True
  then show ?thesis using ok a by (auto simp: upsertAuthRebuildLocked_def trimmed_def Let_def)
next
  case False
  then obtain b where b: "chosen_auth a (map_of (as_authGenerations s) (au_ID a)) (map_of metas (au_ID a)) = Some b" by blast
  then have "au_ID b = au_ID a"
    using metas [of "au_ID a"] by (auto simp: chosen_auth_def split: option.splits if_splits)
  then have "sched_ok (now, place_rebuilt rw b (au_ID a) now s)" using False by (intro place_rebuilt_ok [OF ok]) auto
  then show ?thesis using ok a b False by (simp add: upsertAuthRebuildLocked_def trimmed_def Let_def)
qed

lemma fold_update_in: "map_of (fold (\<lambda>(i, v). AList.update i v) kvs m) i = Some v \<Longrightarrow> (i, v) \<in> set kvs \<or> map_of m i = Some v"
proof (induction kvs arbitrary: m)
  case (Cons x kvs)
  from Cons.prems Cons.IH [of "AList.update (fst x) (snd x) m"] show ?case
    by (cases x) (auto simp: update_conv' split: if_splits)
qed simp

lemma existing_metas_ids:
  assumes ok: "sched_ok (now, s)" and "map_of (existing_metas s) i = Some me"
  shows "au_ID (me_auth me) = i"
proof -
  have inner: "(\<lambda>(k, p) m. fold (\<lambda>(i, me) m. AList.update i me m) (ps_auths p) m) =
      (\<lambda>(k :: string, p :: 'a providerScheduler) m. fold (\<lambda>(i, me). AList.update i me) (ps_auths p) m)" by simp
  have "\<exists>(k, p)\<in>set ps. (i, me) \<in> set (ps_auths p)"
    if "map_of (fold (\<lambda>(k, p) m. fold (\<lambda>(i, me). AList.update i me) (ps_auths p) m) ps m) i = Some me" "map_of m i \<noteq> Some me"
    for ps :: "(string \<times> 'a providerScheduler) list" and m
    using that
  proof (induction ps arbitrary: m)
    case (Cons x ps)
    let ?m = "fold (\<lambda>(i, me). AList.update i me) (ps_auths (snd x)) m"
    have f: "map_of (fold (\<lambda>(k, p) m. fold (\<lambda>(i, me). AList.update i me) (ps_auths p) m) ps ?m) i = Some me"
      using Cons.prems(1) by (cases x) simp
    show ?case
    proof (cases "map_of ?m i = Some me")
      case True
      then have "(i, me) \<in> set (ps_auths (snd x))" using fold_update_in [OF True] Cons.prems(2) by simp
      then show ?thesis by (cases x) auto
    next
      case False
      from Cons.IH [OF f False] show ?thesis by simp
    qed
  qed simp
  from this [of "as_providers s" "[]"] obtain k p where p: "(k, p) \<in> set (as_providers s)" "(i, me) \<in> set (ps_auths p)"
    using assms(2) by (auto simp: existing_metas_def)
  have "map_of (as_providers s) k = Some p" using p(1) sched_okD(2) [OF ok] by simp
  then have pk: "provider_ok now p" using sched_okD(3) [OF ok] by (simp add: provider_fits_def)
  then have "map_of (ps_auths p) i = Some me" using p(2) provider_distinct [OF pk] by simp
  then show ?thesis using provider_ids [OF pk] by simp
qed


lemma empty_ok: "0 \<le> now \<Longrightarrow> as_providers s = [] \<Longrightarrow> as_authProviders s = [] \<Longrightarrow> sched_ok (now, s)"
  by (simp add: sched_ok_def)

lemma rebuild_ok:
  assumes ok: "sched_ok (now, s)" and auths: "list_all trimmed auths"
  shows "sched_ok (now, rebuild rw auths now s)"
proof -
  note ids = existing_metas_ids [OF ok]
  have "sched_ok (now, fold (\<lambda>a. upsertAuthRebuildLocked rw a (existing_metas s) now) as x)"
    if "sched_ok (now, x)" "list_all trimmed as" for as x
    using that by (induction as arbitrary: x) (auto intro: rebuild_one_ok ids)
  then show ?thesis using auths sched_okD(1) [OF ok] by (simp add: rebuild_def Let_def empty_ok)
qed

text \<open>The picks.\<close>

lemma set_shard_ok:
  assumes ok: "sched_ok (now, s)" and p: "map_of (as_providers s) k = Some p"
    and sh: "shard_ok (now, sh)" "shard_fits p mk sh"
  shows "sched_ok (now, set_shard k mk sh s)"
proof -
  have "as_providers (set_shard k mk sh s) = adjust k (\<lambda>p. p\<lparr>ps_modelShards := AList.update mk sh (ps_modelShards p)\<rparr>) (as_providers s)"
    by (simp add: set_shard_def)
  have pk: "provider_ok now p" using sched_okD(3) [OF ok p] by (simp add: provider_fits_def)
  show ?thesis
  proof (rule sched_okI)
    fix k' q assume q: "map_of (as_providers (set_shard k mk sh s)) k' = Some q"
    show "provider_fits now (set_shard k mk sh s) k' q"
    proof (cases "k' = k")
      case True
      then have "q = p\<lparr>ps_modelShards := AList.update mk sh (ps_modelShards p)\<rparr>" using q p by (simp add: set_shard_def)
      then show ?thesis using sched_okD(3) [OF ok p] True put_shard_ok [OF pk sh] by (simp add: set_shard_def provider_fits_def)
    next
      case False
      then show ?thesis using q sched_okD(3) [OF ok, of k' q] by (simp add: set_shard_def provider_fits_def)
    qed
  next
    fix i k' assume "map_of (as_authProviders (set_shard k mk sh s)) i = Some k'"
    then show "k' \<noteq> [] \<and> map_of (as_providers (set_shard k mk sh s)) k' \<noteq> None"
      using sched_okD(4) [OF ok, of i k'] by (auto simp: set_shard_def)
  qed (use sched_okD(1,2) [OF ok] in \<open>simp_all add: set_shard_def\<close>)
qed

text \<open>What a pick has in hand once the shard is there: the shard is sound and fits its provider.\<close>

lemma ensure_shard_ok:
  assumes ok: "sched_ok (now, s)" and t: "now \<le> t" and e: "ensure_shard k model t s = (r, s')"
  shows "sched_ok (t, s')" and "as_authProviders s' = as_authProviders s"
    and "r = Some sh \<Longrightarrow> \<exists>p. map_of (as_providers s') k = Some p \<and> shard_at s' (canonicalModelKey model) k = Some sh \<and>
       shard_ok (t, sh) \<and> shard_fits p (canonicalModelKey model) sh"
    and "r = None \<Longrightarrow> map_of (as_providers s) k = None \<and> s' = s"
proof -
  have okt: "sched_ok (t, s)" using ok t by (rule sched_ok_mono)
  have t0: "0 \<le> t" using sched_okD(1) [OF okt] .
  have "sched_ok (t, s') \<and> as_authProviders s' = as_authProviders s \<and>
      (case r of None \<Rightarrow> map_of (as_providers s) k = None \<and> s' = s
       | Some sh \<Rightarrow> \<exists>p. map_of (as_providers s') k = Some p \<and> shard_at s' (canonicalModelKey model) k = Some sh \<and>
           shard_ok (t, sh) \<and> shard_fits p (canonicalModelKey model) sh)"
  proof (cases "map_of (as_providers s) k")
    case None
    then show ?thesis using e okt by (auto simp: ensure_shard_def)
  next
    case (Some p)
    let ?sh = "fst (ensureModelLocked model t p)" and ?k = "canonicalModelKey model"
    have pk: "provider_ok now p" using sched_okD(3) [OF ok Some] by (simp add: provider_fits_def)
    note sh = ensure_model_ok [OF pk t t0, of model]
    have s': "s' = set_shard k ?k ?sh s" "r = Some ?sh" using e Some by (auto simp: ensure_shard_def Let_def)
    have "sched_ok (t, s')" unfolding s' by (rule set_shard_ok [OF okt Some]) (use sh in auto)
    moreover have "shard_fits (p\<lparr>ps_modelShards := x\<rparr>) ?k ?sh" for x using sh by (simp add: shard_fits_def)
    ultimately show ?thesis using sh Some by (simp add: s' set_shard_def update_conv')
  qed
  then show "sched_ok (t, s')" "as_authProviders s' = as_authProviders s"
    "r = Some sh \<Longrightarrow> \<exists>p. map_of (as_providers s') k = Some p \<and> shard_at s' (canonicalModelKey model) k = Some sh \<and>
       shard_ok (t, sh) \<and> shard_fits p (canonicalModelKey model) sh"
    "r = None \<Longrightarrow> map_of (as_providers s) k = None \<and> s' = s" by (auto split: option.splits)
qed

lemma set_shard_simps [simp]:
  "as_authProviders (set_shard k mk sh s) = as_authProviders s"
  "as_authGenerations (set_shard k mk sh s) = as_authGenerations s"
  by (simp_all add: set_shard_def)

lemma set_shard_at:
  "map_of (as_providers s) k = Some p \<Longrightarrow> shard_at (set_shard k mk sh s) mk k = Some sh"
  by (simp add: set_shard_def update_conv')

text \<open>One pick from the shard of a provider, with the shard written back.\<close>

lemma shard_pick_ok:
  assumes ok: "sched_ok (t, s)" and p: "map_of (as_providers s) k = Some p" and sh: "shard_ok (t, sh)" "shard_fits p mk sh"
    and t: "t \<le> t'"
  shows "sched_ok (t', set_shard k mk (snd (pickReadyLocked ws strategy pred t' sh)) s)"
  using pick_ready_ok [OF sh(1) t sh(2), of ws strategy pred] set_shard_ok [OF sched_ok_mono [OF ok t] p] by blast

lemma single_ok:
  assumes ok: "sched_ok (now, s)" and t: "now \<le> t1" "t1 \<le> t2"
  shows "sched_ok (t2, snd (pickSingleWithStrategy provider model rq tried strategy (t1, t2, t3) s))"
proof -
  let ?k = "canonicalSchedulingProvider provider" and ?m = "canonicalModelKey model"
  obtain r s1 where e: "ensure_shard ?k ?m t1 s = (r, s1)" by (metis surj_pair)
  note en = ensure_shard_ok [OF ok t(1) e]
  show ?thesis
  proof (cases r)
    case None
    then show ?thesis using e en(1) sched_ok_mono [OF _ t(2)] by (simp add: pickSingleWithStrategy_def Let_def)
  next
    case (Some sh)
    then obtain p where p: "map_of (as_providers s1) ?k = Some p" "shard_ok (t1, sh)" "shard_fits p (canonicalModelKey ?m) sh"
      using en(3) by blast
    show ?thesis using shard_pick_ok [OF en(1) p t(2)] e Some
      by (simp add: pickSingleWithStrategy_def Let_def case_prod_unfold split: option.split)
  qed
qed

lemma mixed_pick_at_ok:
  assumes ok: "sched_ok (t, s)"
  shows "sched_ok (t, snd (mixed_pick_at k mk q strategy pred s))"
proof (cases "shard_at s mk k")
  case None
  then show ?thesis using ok by (simp add: mixed_pick_at_def)
next
  case (Some sh)
  then obtain p where p: "map_of (as_providers s) k = Some p" "map_of (ps_modelShards p) mk = Some sh" by (auto split: option.splits)
  have "provider_ok t p" using sched_okD(3) [OF ok p(1)] by (simp add: provider_fits_def)
  then have sh: "shard_ok (t, sh)" "shard_fits p mk sh" using provider_shards p(2) by blast+
  from pick_at_ok [OF sh, of False q strategy pred] show ?thesis
    using set_shard_ok [OF ok p(1), of "snd (pickReadyAtPriorityLocked False q strategy pred sh)" mk] Some
    by (simp add: mixed_pick_at_def case_prod_unfold)
qed

lemma mixed_scan_ok:
  "sched_ok (now, s) \<Longrightarrow> now \<le> t \<Longrightarrow> sched_ok (t, snd (mixed_scan ks mk t pred found s))"
proof (induction ks arbitrary: now found s)
  case Nil
  then show ?case using sched_ok_mono by simp
next
  case (Cons k ks)
  obtain r s1 where e: "ensure_shard k mk t s = (r, s1)" by (metis surj_pair)
  have s1: "sched_ok (t, s1)" by (rule ensure_shard_ok(1) [OF Cons.prems e])
  show ?case using Cons.IH [OF s1 order_refl] e by (auto split: option.split)
qed

lemma mixed_fill_ok: "sched_ok (t, s) \<Longrightarrow> sched_ok (t, snd (mixed_fill_first ks mk q pred s))"
proof (induction ks arbitrary: s)
  case (Cons k ks)
  obtain r s1 where e: "mixed_pick_at k mk q StrategyFillFirst pred s = (r, s1)" by (metis surj_pair)
  have "sched_ok (t, s1)" using mixed_pick_at_ok [OF Cons.prems, of k mk q StrategyFillFirst pred] e by simp
  then show ?case using Cons.IH e by (auto split: option.split)
qed simp

lemma mixed_robin_ok: "sched_ok (t, s) \<Longrightarrow> sched_ok (t, snd (mixed_robin_loop ks weights start slot mk q pred ck os s))"
proof (induction os arbitrary: s)
  case (Cons off os)
  let ?j = "(start + off) mod length ks"
  obtain r s1 where e: "mixed_pick_at (ks ! ?j) mk q StrategyRoundRobin pred s = (r, s1)" by (metis surj_pair)
  have s1: "sched_ok (t, s1)" using mixed_pick_at_ok [OF Cons.prems, of "ks ! ?j" mk q StrategyRoundRobin pred] e by simp
  then have "sched_ok (t, s1\<lparr>as_mixedCursors := x\<rparr>)" for x by (rule sched_ok_cong) simp_all
  then show ?case using Cons.IH [OF s1] Cons.IH [OF Cons.prems] e by (auto simp: Let_def split: option.split)
qed simp

lemma mixed_summary_ok:
  "sched_ok (now, s) \<Longrightarrow> now \<le> t \<Longrightarrow> sched_ok (t, snd (mixed_summary ks model pred t acc s))"
proof (induction ks model pred t acc s arbitrary: now rule: mixed_summary.induct)
  case (1 model pred t acc s)
  then show ?case using sched_ok_mono by simp
next
  case (2 k ks model pred t summary modelErr authErr s)
  obtain r s1 where e: "ensure_shard k (canonicalModelKey model) t s = (r, s1)" by (metis surj_pair)
  have s1: "sched_ok (t, s1)" by (rule ensure_shard_ok(1) [OF 2(3,4) e])
  show ?case
  proof (cases r)
    case None
    then show ?thesis using 2(1) [OF e [symmetric, unfolded None] refl s1 order_refl] e by simp
  next
    case (Some sh)
    obtain cm ca where c: "candidateErrorsLocked model pred sh = (cm, ca)" by (metis surj_pair)
    show ?thesis using 2(2) [OF e [symmetric] Some c [symmetric] s1 order_refl] e Some c by simp
  qed
qed

lemma mixed_pinned_ok:
  assumes ok: "sched_ok (now, s)" and t: "now \<le> t1" "t1 \<le> t2"
  shows "sched_ok (t2, snd (mixed_pinned ks model rq tried strategy (t1, t2, t3) s))"
proof -
  let ?k = "attr (as_authProviders s) (rq_pinned rq)" and ?m = "canonicalModelKey model"
  have s2: "sched_ok (t2, s)" using sched_ok_mono [OF ok] t by simp
  obtain r s1 where e: "ensure_shard ?k ?m t1 s = (r, s1)" by (metis surj_pair)
  note en = ensure_shard_ok [OF ok t(1) e]
  show ?thesis
  proof (cases r)
    case None
    then show ?thesis using e s2 sched_ok_mono [OF en(1) t(2)] by (simp add: mixed_pinned_def Let_def)
  next
    case (Some sh)
    then obtain p where p: "map_of (as_providers s1) ?k = Some p" "shard_ok (t1, sh)" "shard_fits p (canonicalModelKey ?m) sh"
      using en(3) by blast
    show ?thesis using shard_pick_ok [OF en(1) p t(2)] s2 e Some
      by (simp add: mixed_pinned_def Let_def case_prod_unfold split: option.split)
  qed
qed

lemma mixed_choice_ok:
  assumes s: "sched_ok (t, s)"
  shows "sched_ok (t, snd (mixed_choice ks mk ck strategy pred found s))"
proof -
  have w: "sched_ok (t, snd (mixed_weighted ck es pred s))" for es
    using s by (rule sched_ok_cong) (simp_all add: mixed_weighted_def Let_def case_prod_unfold)
  have r: "sched_ok (t, snd (mixed_robin ks mk q pred ck s))" for q
    using s mixed_robin_ok [OF s] by (auto simp: mixed_robin_def Let_def split: option.split)
  show ?thesis using s w r mixed_fill_ok [OF s] by (cases found) (simp_all add: mixed_choice_def)
qed

lemma mixed_open_split:
  assumes "mixed_scan ks (canonicalModelKey model) t1 pred None s = (found, s1)"
    and "mixed_choice ks (canonicalModelKey (canonicalModelKey model)) (JoinComma ks @ '':'' @ canonicalModelKey model) strategy pred found s1 = (picked, s2)"
    and "pred = scheduledAuthPredicate rq tried [] (strategy = StrategyWeightedRoundRobin)"
  shows "mixed_open ks model rq tried strategy (t1, t2, t3) s =
     (case picked of Some r \<Rightarrow> (Inr r, s2)
      | None \<Rightarrow> (Inl (fst (mixedUnavailableErrorLocked ks model pred t3 s2)), snd (mixedUnavailableErrorLocked ks model pred t3 s2)))"
  using assms by (simp add: mixed_open_def Let_def split: option.split prod.split)

lemma mixed_open_ok:
  assumes ok: "sched_ok (now, s)" and t: "now \<le> t1" "t1 \<le> t3"
  shows "sched_ok (t3, snd (mixed_open ks model rq tried strategy (t1, t2, t3) s))"
proof -
  let ?pred = "scheduledAuthPredicate rq tried [] (strategy = StrategyWeightedRoundRobin)"
  obtain found s1 where sc: "mixed_scan ks (canonicalModelKey model) t1 ?pred None s = (found, s1)" by (metis surj_pair)
  obtain picked s2 where ch: "mixed_choice ks (canonicalModelKey (canonicalModelKey model)) (JoinComma ks @ '':'' @ canonicalModelKey model)
      strategy ?pred found s1 = (picked, s2)" by (metis surj_pair)
  have s1: "sched_ok (t1, s1)" using mixed_scan_ok [OF ok t(1), of ks "canonicalModelKey model" ?pred None] sc by simp
  have s2: "sched_ok (t1, s2)" using mixed_choice_ok [OF s1] ch by (metis snd_conv)
  have u: "sched_ok (t3, snd (mixedUnavailableErrorLocked ks model ?pred t3 s2))"
    using mixed_summary_ok [OF s2 t(2), of ks model ?pred "((0, 0, 0, 0), None, None)"]
    by (simp add: mixedUnavailableErrorLocked_def case_prod_unfold)
  then show ?thesis using sched_ok_mono [OF s2 t(2)] unfolding mixed_open_split [OF sc ch refl] by (cases picked) simp_all
qed

lemma mixed_ok:
  assumes ok: "sched_ok (now, s)" and t: "now \<le> t1" "t1 \<le> t2" "t2 \<le> t3"
  shows "sched_ok (t3, snd (pickMixedWithStrategy providers model rq tried strategy (t1, t2, t3) s))"
proof -
  have s3: "sched_ok (t3, s)" using sched_ok_mono [OF ok] t by simp
  have single: "sched_ok (t3, snd (pickSingleWithStrategy k model rq tried strategy (t1, t2, t3) s))" for k
    using sched_ok_mono [OF single_ok [OF ok t(1,2)] t(3)] .
  have pinned: "sched_ok (t3, snd (mixed_pinned ks model rq tried st (t1, t2, t3) s))" for ks st
    using sched_ok_mono [OF mixed_pinned_ok [OF ok t(1,2)] t(3)] .
  have open': "sched_ok (t3, snd (mixed_open ks model rq tried st (t1, t2, t3) s))" for ks st
    using t by (intro mixed_open_ok [OF ok]) auto
  have one: "snd (case x of (Inl e, s) \<Rightarrow> (Inl e, s) | (Inr a, s) \<Rightarrow> (Inr (a, k), s)) = snd x"
    for x :: "(schedule_error + 'a Auth) \<times> 'a authScheduler" and k :: string
    by (cases x; cases "fst x") auto
  show ?thesis using s3 single pinned open' unfolding pickMixedWithStrategy_def
    by (simp add: one split: list.split)
qed

section \<open>The life of a scheduler\<close>

text \<open>Credential ids without surrounding white space; the scheduler stores a credential under its id
  and removes it under the trimmed id.\<close>

inductive sched_step :: "gtime \<times> 'x authScheduler \<Rightarrow> gtime \<times> 'x authScheduler \<Rightarrow> bool" where
  sc_tick: "s \<le> t \<Longrightarrow> sched_step (s, x) (t, x)"
| sc_selector: "sched_step (t, x) (t, setSelector sel x)"
| sc_lifecycle: "trimmed a \<Longrightarrow> sched_step (t, x) (t, upsertAuthLifecycleLocked rw a t x)"
| sc_result: "trimmed a \<Longrightarrow> sched_step (t, x) (t, upsertAuthResultLocked rw a targets cs t x)"
| sc_rebuild: "list_all trimmed auths \<Longrightarrow> sched_step (t, x) (t, rebuild rw auths t x)"
| sc_tombstone: "sched_step (t, x) (t, RecordRemovalTombstone i e t x)"
| sc_remove: "sched_step (t, x) (t, removeAuth i t x)"
| sc_reset: "sched_step (t, x) (t, ResetAuthGeneration i x)"
| sc_single: "t \<le> t1 \<Longrightarrow> t1 \<le> t2 \<Longrightarrow> t2 \<le> t3 \<Longrightarrow>
     sched_step (t, x) (t3, snd (pickSingleWithStrategy provider model rq tried strategy (t1, t2, t3) x))"
| sc_mixed: "t \<le> t1 \<Longrightarrow> t1 \<le> t2 \<Longrightarrow> t2 \<le> t3 \<Longrightarrow>
     sched_step (t, x) (t3, snd (pickMixedWithStrategy providers model rq tried strategy (t1, t2, t3) x))"

definition sched_start :: "gtime \<times> 'x authScheduler \<Rightarrow> bool" where
  "sched_start = (\<lambda>(t, x). 0 \<le> t \<and> (\<exists>sel. x = newAuthScheduler sel))"

lemma tombstone_ok: "sched_ok (t, x) \<Longrightarrow> sched_ok (t, RecordRemovalTombstone i e t' x)"
  using unassign_ok [OF generation_ok, of t x] 
  by (auto simp: RecordRemovalTombstone_def recordRemovalTombstoneLocked_def split: option.split)

lemma remove_ok: "sched_ok (t, x) \<Longrightarrow> sched_ok (t, removeAuth i t' x)"
  using unassign_ok [OF generation_ok, of t x] by (auto simp: removeAuth_def removeAuthLocked_def Let_def)

lemma sched_step_ok: "sched_step y z \<Longrightarrow> sched_ok y \<Longrightarrow> sched_ok z"
proof (induction rule: sched_step.induct)
  case (sc_tick s t x)
  then show ?case using sched_ok_mono by blast
next
  case (sc_selector t x sel)
  then show ?case by (rule sched_ok_cong) (simp_all add: setSelector_def)
next
  case (sc_reset t x i)
  then show ?case by (rule sched_ok_cong) (simp_all add: ResetAuthGeneration_def Let_def)
next
  case (sc_single t t1 t2 t3 x provider model rq tried strategy)
  then show ?case using sched_ok_mono [OF single_ok] by blast
qed (simp_all add: lifecycle_ok result_ok rebuild_ok tombstone_ok remove_ok mixed_ok)

interpretation scheduler: inductive_invariant "sched_start :: gtime \<times> 'x authScheduler \<Rightarrow> bool" sched_step sched_ok
  by unfold_locales (auto simp: sched_start_def newAuthScheduler_def intro: empty_ok sched_step_ok)

section \<open>The best credential of a provider\<close>

lemma predicate_weights: "weights_ok strategy (scheduledAuthPredicate rq tried pin (strategy = StrategyWeightedRoundRobin))"
  by (simp add: weights_ok_def scheduledAuthPredicate_def)

lemma candidate_registered:
  assumes "shard_ok (t, sh)" and "shard_fits p mk sh" and "e \<in> set (preferred ws (candidates pred u sh))"
  shows "map_of (ps_auths p) (au_ID (entry_auth e)) \<noteq> None"
proof -
  have "e \<in> set (candidates pred u sh)" using assms(3) by (auto simp: preferred_def split: if_splits)
  then obtain i where i: "(i, e) \<in> set (ms_entries sh)" by (auto simp: candidates_def)
  have "entries_ok (ms_entries sh)" using assms(1) by (simp add: shard_ok_def indexed_def)
  then have "map_of (ms_entries sh) i = Some e" "au_ID (entry_auth e) = i" using i unfolding entries_ok_def by auto
  then show ?thesis using assms(2) by (auto simp: shard_fits_def)
qed

text \<open>One credential of Gemini for the model \<open>m\<close>.\<close>

definition sample_view :: registry_view where
  "sample_view = \<lparr>rw_epoch = (\<lambda>_. 1), rw_models = (\<lambda>_. [Some ''m''])\<rparr>"

definition sample_request :: "unit request" where
  "sample_request = \<lparr>rq_allows = (\<lambda>_. True), rq_pinned = [], rq_downstreamWebsocket = False\<rparr>"

definition sample_scheduler :: "unit authScheduler" where
  "sample_scheduler = upsertAuthLifecycleLocked sample_view (plain_auth ''a'') 3 (newAuthScheduler RoundRobinSelector)"

lemma trimmed_plain: "trimmed (plain_auth ''a'')"
proof -
  have "TrimSpace ''a'' = ''a''" by code_simp
  then show ?thesis by (simp add: trimmed_def plain_auth_def)
qed

lemma sample_reachable: "reachable sched_start sched_step (3, sample_scheduler)"
proof -
  have "reachable sched_start sched_step (3, newAuthScheduler RoundRobinSelector :: unit authScheduler)"
    by (rule reach_init) (auto simp: sched_start_def)
  then show ?thesis unfolding sample_scheduler_def by (rule reach_step) (rule sc_lifecycle [OF trimmed_plain])
qed

end
