(* ===== verification/SchedulerRemoval.thy ===== *)
theory SchedulerRemoval
  imports SchedulerProperties
begin

text \<open>
  Tombstones: once a credential is removed from the scheduler, snapshots of an earlier registration that
  are still on their way (results of running requests, rebuilds from an old list) do not bring it back.
\<close>

section \<open>Removed credentials\<close>

text \<open>The steps that bring no snapshot of credential \<open>i\<close> of registration \<open>e\<close> or later and do not forget
  its tombstone.\<close>

definition before :: "string \<Rightarrow> nat \<Rightarrow> 'x Auth \<Rightarrow> bool" where
  "before i e a \<longleftrightarrow> trimmed a \<and> (au_ID a = i \<longrightarrow> au_RegistrationEpoch a < e)"

inductive old_step :: "string \<Rightarrow> nat \<Rightarrow> gtime \<times> 'x authScheduler \<Rightarrow> gtime \<times> 'x authScheduler \<Rightarrow> bool" for i e where
  ol_tick: "s \<le> t \<Longrightarrow> old_step i e (s, x) (t, x)"
| ol_selector: "old_step i e (t, x) (t, setSelector sel x)"
| ol_lifecycle: "before i e a \<Longrightarrow> old_step i e (t, x) (t, upsertAuthLifecycleLocked rw a t x)"
| ol_result: "before i e a \<Longrightarrow> old_step i e (t, x) (t, upsertAuthResultLocked rw a targets cs t x)"
| ol_rebuild: "list_all (before i e) auths \<Longrightarrow> old_step i e (t, x) (t, rebuild rw auths t x)"
| ol_tombstone: "old_step i e (t, x) (t, RecordRemovalTombstone j n t x)"
| ol_remove: "old_step i e (t, x) (t, removeAuth j t x)"
| ol_reset: "TrimSpace j \<noteq> i \<Longrightarrow> old_step i e (t, x) (t, ResetAuthGeneration j x)"
| ol_single: "t \<le> t1 \<Longrightarrow> t1 \<le> t2 \<Longrightarrow> t2 \<le> t3 \<Longrightarrow>
     old_step i e (t, x) (t3, snd (pickSingleWithStrategy provider model rq tried strategy (t1, t2, t3) x))"
| ol_mixed: "t \<le> t1 \<Longrightarrow> t1 \<le> t2 \<Longrightarrow> t2 \<le> t3 \<Longrightarrow>
     old_step i e (t, x) (t3, snd (pickMixedWithStrategy providers model rq tried strategy (t1, t2, t3) x))"

lemma old_is_step: "old_step i e y z \<Longrightarrow> sched_step y z"
  by (induction rule: old_step.induct) (auto intro: sched_step.intros simp: before_def list_all_iff)

text \<open>What the tombstone looks like, and what leaves it alone.\<close>

definition gone :: "string \<Rightarrow> nat \<Rightarrow> 'x authScheduler \<Rightarrow> bool" where
  "gone i e x \<longleftrightarrow> map_of (as_authProviders x) i = None \<and>
     (case map_of (as_authGenerations x) i of None \<Rightarrow> False | Some g \<Rightarrow> e \<le> gm_epoch g)"

definition same_books :: "'x authScheduler \<Rightarrow> 'x authScheduler \<Rightarrow> bool" where
  "same_books x y \<longleftrightarrow> as_authProviders y = as_authProviders x \<and> as_authGenerations y = as_authGenerations x"

lemma same_books_trans: "same_books x y \<Longrightarrow> same_books y z \<Longrightarrow> same_books x z"
  by (simp add: same_books_def)

lemma same_books_refl [simp]: "same_books x x"
  by (simp add: same_books_def)

lemma gone_same: "gone i e x \<Longrightarrow> same_books x y \<Longrightarrow> gone i e y"
  by (simp add: gone_def same_books_def)

lemma ensure_books: "same_books x (snd (ensure_shard k m t x))"
  by (auto simp: ensure_shard_def same_books_def Let_def split: option.split)

lemma set_shard_books: "same_books x (set_shard k m sh x)"
  by (simp add: same_books_def)

lemma single_books: "same_books x (snd (pickSingleWithStrategy provider model rq tried strategy clock x))"
proof -
  obtain t1 t2 t3 where c: "clock = (t1, t2, t3)" by (metis prod_cases3)
  let ?e = "ensure_shard (canonicalSchedulingProvider provider) (canonicalModelKey model) t1 x"
  have "same_books (snd ?e) (snd (pickSingleWithStrategy provider model rq tried strategy clock x))"
    by (cases ?e; cases "fst ?e") (auto simp: pickSingleWithStrategy_def c Let_def case_prod_unfold set_shard_books split: option.split)
  then show ?thesis using ensure_books same_books_trans by blast
qed

lemma pick_at_books: "same_books x (snd (mixed_pick_at k mk q strategy pred x))"
  by (auto simp: mixed_pick_at_def case_prod_unfold set_shard_books split: option.split)

lemma scan_books: "same_books x (snd (mixed_scan ks mk t pred found x))"
proof (induction ks arbitrary: found x)
  case (Cons k ks)
  obtain r x1 where e: "ensure_shard k mk t x = (r, x1)" by (metis surj_pair)
  have "same_books x x1" using ensure_books [of x k mk t] e by simp
  then have "same_books x (snd (mixed_scan ks mk t pred f x1))" for f using Cons.IH by (rule same_books_trans)
  then show ?case using e by (auto split: option.split)
qed simp

lemma fill_books: "same_books x (snd (mixed_fill_first ks mk q pred x))"
proof (induction ks arbitrary: x)
  case (Cons k ks)
  obtain r x1 where e: "mixed_pick_at k mk q StrategyFillFirst pred x = (r, x1)" by (metis surj_pair)
  have "same_books x x1" using pick_at_books [of x k mk q StrategyFillFirst pred] e by simp
  then have "same_books x (snd (mixed_fill_first ks mk q pred x1))" using Cons.IH by (rule same_books_trans)
  then show ?case using e \<open>same_books x x1\<close> by (auto split: option.split)
qed simp

lemma robin_books: "same_books x (snd (mixed_robin_loop ks weights start slot mk q pred ck os x))"
proof (induction os arbitrary: x)
  case (Cons off os)
  let ?j = "(start + off) mod length ks"
  obtain r x1 where e: "mixed_pick_at (ks ! ?j) mk q StrategyRoundRobin pred x = (r, x1)" by (metis surj_pair)
  have x1: "same_books x x1" using pick_at_books [of x "ks ! ?j" mk q StrategyRoundRobin pred] e by simp
  then have "same_books x (x1\<lparr>as_mixedCursors := y\<rparr>)" for y by (simp add: same_books_def)
  then show ?case using Cons.IH [of x1] Cons.IH [of x] e same_books_trans [OF x1] by (auto simp: Let_def split: option.split)
qed simp

lemma summary_books: "same_books x (snd (mixed_summary ks model pred t acc x))"
proof (induction ks arbitrary: acc x)
  case (Cons k ks)
  obtain r x1 where e: "ensure_shard k (canonicalModelKey model) t x = (r, x1)" by (metis surj_pair)
  have "same_books x x1" using ensure_books [of x k "canonicalModelKey model" t] e by simp
  then have b: "same_books x (snd (mixed_summary ks model pred t a x1))" for a using Cons.IH by (rule same_books_trans)
  obtain summary m a where "acc = (summary, m, a)" by (metis prod_cases3)
  then show ?case using e b by (cases r) (simp_all add: case_prod_unfold)
qed simp

lemma choice_books: "same_books x (snd (mixed_choice ks mk ck strategy pred found x))"
proof -
  have "same_books x (snd (mixed_weighted ck es pred x))" for es
    by (simp add: same_books_def mixed_weighted_def Let_def case_prod_unfold)
  moreover have "same_books x (snd (mixed_robin ks mk q pred ck x))" for q
    by (auto simp: mixed_robin_def Let_def robin_books split: option.split)
  ultimately show ?thesis by (cases found) (simp_all add: mixed_choice_def fill_books)
qed

lemma open_books: "same_books x (snd (mixed_open ks model rq tried strategy (t1, t2, t3) x))"
proof -
  let ?pred = "scheduledAuthPredicate rq tried [] (strategy = StrategyWeightedRoundRobin)"
  obtain found x1 where sc: "mixed_scan ks (canonicalModelKey model) t1 ?pred None x = (found, x1)" by (metis surj_pair)
  obtain picked x2 where ch: "mixed_choice ks (canonicalModelKey (canonicalModelKey model)) (JoinComma ks @ '':'' @ canonicalModelKey model)
      strategy ?pred found x1 = (picked, x2)" by (metis surj_pair)
  have "same_books x x1" using scan_books [of x ks "canonicalModelKey model" t1 ?pred None] sc by simp
  moreover have "same_books x1 x2" using choice_books [of x1] ch by (metis snd_conv)
  moreover have "same_books x2 (snd (mixedUnavailableErrorLocked ks model ?pred t3 x2))"
    using summary_books [of x2] by (simp add: mixedUnavailableErrorLocked_def case_prod_unfold)
  ultimately show ?thesis unfolding mixed_open_split [OF sc ch refl] by (cases picked) (auto intro: same_books_trans)
qed

lemma pinned_books: "same_books x (snd (mixed_pinned ks model rq tried strategy (t1, t2, t3) x))"
proof -
  let ?e = "ensure_shard (attr (as_authProviders x) (rq_pinned rq)) (canonicalModelKey model) t1 x"
  have "same_books x (snd ?e)" by (rule ensure_books)
  then show ?thesis
    by (cases ?e; cases "fst ?e")
      (auto simp: mixed_pinned_def Let_def case_prod_unfold intro: same_books_trans set_shard_books split: option.split)
qed

lemma mixed_books: "same_books x (snd (pickMixedWithStrategy providers model rq tried strategy (t1, t2, t3) x))"
proof -
  have one: "snd (case y of (Inl e, s) \<Rightarrow> (Inl e, s) | (Inr a, s) \<Rightarrow> (Inr (a, k), s)) = snd y"
    for y :: "(schedule_error + 'a Auth) \<times> 'a authScheduler" and k :: string
    by (cases y; cases "fst y") auto
  show ?thesis unfolding pickMixedWithStrategy_def
    by (simp add: one single_books pinned_books open_books split: list.split)
qed

lemma place_books:
  "as_authGenerations (place_auth i k me targets cs now x) = as_authGenerations x"
  "as_authProviders (place_auth i k me targets cs now x) = AList.update i k (as_authProviders x)"
  by (simp_all add: place_auth_def set_provider_def)

lemma unassign_books:
  "as_authGenerations (removeAuthFromProvidersLocked i x) = as_authGenerations x"
  "map_of (as_authProviders (removeAuthFromProvidersLocked i x)) j = (if j = i \<and> attr (as_authProviders x) i \<noteq> [] then None else map_of (as_authProviders x) j)"
  by (simp_all add: removeAuthFromProvidersLocked_def Let_def map_of_delete_cases)

lemma generation_books:
  "as_authProviders (set_generation i e g t x) = as_authProviders x"
  "map_of (as_authGenerations (set_generation i e g t x)) j =
     (if j = i then Some \<lparr>gm_epoch = e, gm_generation = g, gm_updatedAt = t\<rparr> else map_of (as_authGenerations x) j)"
  by (simp_all add: set_generation_def update_conv')

lemma place_result_books:
  "as_authGenerations (place_result rw a i k targets cs now x) = as_authGenerations x"
  "as_authProviders (place_result rw a i k targets cs now x) = AList.update i k (as_authProviders x)"
  by (simp_all add: place_result_def Let_def place_books)

lemmas books = place_books place_result_books unassign_books generation_books

lemma gone_stale: "gone i e x \<Longrightarrow> n < e \<Longrightarrow> isStaleScheduledAuth i n g t x"
  by (auto simp: gone_def isStaleScheduledAuth_def split: option.splits)

lemma gone_other:
  assumes "gone i e x" and "map_of (as_authProviders y) i = map_of (as_authProviders x) i"
    and "map_of (as_authGenerations y) i = map_of (as_authGenerations x) i"
  shows "gone i e y"
  using assms by (simp add: gone_def)

lemma lifecycle_gone: "gone i e x \<Longrightarrow> before i e a \<Longrightarrow> gone i e (upsertAuthLifecycleLocked rw a t x)"
proof (cases "au_ID a = i")
  case True
  assume "gone i e x" "before i e a"
  then show ?thesis using gone_stale [of i e x "au_RegistrationEpoch a"] True
    by (auto simp: upsertAuthLifecycleLocked_def before_def trimmed_def Let_def)
next
  case False
  assume "gone i e x" "before i e a"
  then show ?thesis using False
    by (auto simp: upsertAuthLifecycleLocked_def before_def trimmed_def Let_def books update_conv' intro: gone_other)
qed

lemma result_gone: "gone i e x \<Longrightarrow> before i e a \<Longrightarrow> gone i e (upsertAuthResultLocked rw a targets cs t x)"
proof (cases "au_ID a = i")
  case True
  assume g: "gone i e x" and b: "before i e a"
  have "same_books x (refresh_latest i k targets cs t x)" for k
    by (auto simp: refresh_latest_def same_books_def set_provider_def split: option.split)
  then show ?thesis using gone_stale [of i e x "au_RegistrationEpoch a"] True g b gone_same [OF g]
    by (auto simp: upsertAuthResultLocked_def before_def trimmed_def Let_def)
next
  case False
  assume "gone i e x" "before i e a"
  moreover have "same_books x (refresh_latest (au_ID a) k targets cs t x)" for k
    by (auto simp: refresh_latest_def same_books_def set_provider_def split: option.split)
  ultimately show ?thesis using False
    by (auto simp: upsertAuthResultLocked_def before_def trimmed_def Let_def books update_conv' intro: gone_other gone_same)
qed

lemma rebuild_one_gone: "gone i e x \<Longrightarrow> before i e a \<Longrightarrow> gone i e (upsertAuthRebuildLocked rw a metas t x)"
proof (cases "au_ID a = i")
  case True
  assume "gone i e x" "before i e a"
  then show ?thesis using True
    by (auto simp: upsertAuthRebuildLocked_def before_def trimmed_def Let_def gone_def split: option.splits)
next
  case False
  assume "gone i e x" "before i e a"
  then show ?thesis using False
    by (auto simp: upsertAuthRebuildLocked_def place_rebuilt_def before_def trimmed_def Let_def books update_conv'
      intro: gone_other split: option.split prod.split)
qed

lemma rebuild_gone: "gone i e x \<Longrightarrow> list_all (before i e) auths \<Longrightarrow> gone i e (rebuild rw auths t x)"
proof -
  assume g: "gone i e x" and b: "list_all (before i e) auths"
  have "gone i e (fold (\<lambda>a. upsertAuthRebuildLocked rw a metas t) as y)" if "gone i e y" "list_all (before i e) as" for as y metas
    using that by (induction as arbitrary: y) (auto intro: rebuild_one_gone)
  moreover have "gone i e (x\<lparr>as_providers := [], as_authProviders := [], as_mixedCursors := [], as_mixedWeightedStates := []\<rparr>)"
    using g by (simp add: gone_def)
  ultimately show ?thesis using b by (simp add: rebuild_def Let_def)
qed

lemma tombstone_gone: "gone i e x \<Longrightarrow> gone i e (RecordRemovalTombstone j n t x)"
  by (auto simp: RecordRemovalTombstone_def recordRemovalTombstoneLocked_def gone_def books split: option.splits)

lemma remove_gone: "gone i e x \<Longrightarrow> gone i e (removeAuth j t x)"
  by (auto simp: removeAuth_def removeAuthLocked_def gone_def books Let_def split: option.splits)

lemma old_step_gone: "old_step i e y z \<Longrightarrow> gone i e (snd y) \<Longrightarrow> gone i e (snd z)"
proof (induction rule: old_step.induct)
  case (ol_selector t x sel)
  then show ?case by (simp add: setSelector_def gone_def)
next
  case (ol_reset j t x)
  then show ?case by (auto simp: ResetAuthGeneration_def gone_def map_of_delete_cases Let_def)
next
  case (ol_single t t1 t2 t3 x provider model rq tried strategy)
  then show ?case using gone_same [OF _ single_books] by simp
next
  case (ol_mixed t t1 t2 t3 x providers model rq tried strategy)
  then show ?case using gone_same [OF _ mixed_books] by simp
qed (simp_all add: lifecycle_gone result_gone rebuild_gone tombstone_gone remove_gone)

text \<open>Nothing of the scheduler holds the credential.\<close>

definition absent :: "string \<Rightarrow> 'x authScheduler \<Rightarrow> bool" where
  "absent i x \<longleftrightarrow> map_of (as_authProviders x) i = None \<and>
     (\<forall>k p. map_of (as_providers x) k = Some p \<longrightarrow> map_of (ps_auths p) i = None \<and>
        (\<forall>mk sh. map_of (ps_modelShards p) mk = Some sh \<longrightarrow> map_of (ms_entries sh) i = None))"

lemma gone_absent:
  assumes ok: "sched_ok (t, x)" and g: "map_of (as_authProviders x) i = None"
  shows "absent i x"
proof -
  have "map_of (ps_auths p) i = None \<and> (\<forall>mk sh. map_of (ps_modelShards p) mk = Some sh \<longrightarrow> map_of (ms_entries sh) i = None)"
    if p: "map_of (as_providers x) k = Some p" for k p
  proof -
    have f: "provider_fits t x k p" using sched_okD(3) [OF ok p] .
    then have "map_of (ps_auths p) i \<noteq> None \<longleftrightarrow> map_of (as_authProviders x) i = Some k" by (simp add: provider_fits_def)
    then have "map_of (ps_auths p) i = None" using g by (cases "map_of (ps_auths p) i") auto
    moreover have "shard_fits p mk sh" if "map_of (ps_modelShards p) mk = Some sh" for mk sh
      using f that provider_shards by (auto simp: provider_fits_def)
    moreover have "map_of (ms_entries sh) i = None" if s: "shard_fits p mk sh" and n: "map_of (ps_auths p) i = None" for mk sh
    proof -
      have "map_of (ms_entries sh) i \<noteq> None \<longleftrightarrow> (\<exists>me. map_of (ps_auths p) i = Some me \<and> supportsModel me mk)"
        using s unfolding shard_fits_def by blast
      then show ?thesis using n by (cases "map_of (ms_entries sh) i") simp_all
    qed
    ultimately show ?thesis by blast
  qed
  then show ?thesis using g by (auto simp: absent_def)
qed

lemma removeAuth_gone:
  assumes ok: "sched_ok (t, x)" and i: "TrimSpace i = i" "i \<noteq> []"
  shows "gone i (case map_of (as_authGenerations x) i of None \<Rightarrow> 1 | Some g \<Rightarrow> gm_epoch g + 1) (removeAuth i t x)"
  using i attr_assigned(1) [OF generation_ok [OF ok], of i]
  by (auto simp: removeAuth_def removeAuthLocked_def gone_def books Let_def split: option.splits)

text \<open>C21: A credential that was removed stays removed. After \<open>removeAuth\<close>, however the remaining work goes
  on (time passes, results of other and of earlier requests arrive, the scheduler is rebuilt from a list,
  credentials come and go, picks are made), as long as no snapshot of a newer registration of this
  credential arrives and its tombstone is not reset, it is in no provider and in no model shard, so
  that no pick can answer with it.\<close>

theorem removed_stays_removed:
  assumes "reachable sched_start sched_step (t, x)" and "TrimSpace i = i" and "i \<noteq> []"
    and "(old_step i (case map_of (as_authGenerations x) i of None \<Rightarrow> 1 | Some g \<Rightarrow> gm_epoch g + 1))\<^sup>*\<^sup>* (t, removeAuth i t x) (t', y)"
  shows "absent i y"
proof -
  have ok: "sched_ok (t, x)" using assms(1) by (rule scheduler.reachable_inv)
  let ?e = "case map_of (as_authGenerations x) i of None \<Rightarrow> 1 | Some g \<Rightarrow> gm_epoch g + 1"
  have "sched_ok (snd2, snd z) \<and> gone i ?e (snd z)" if "(old_step i ?e)\<^sup>*\<^sup>* (t, removeAuth i t x) z" "snd2 = fst z" for z snd2
    using that
  proof (induction arbitrary: snd2 rule: rtranclp_induct)
    case base
    then show ?case using remove_ok [OF ok] removeAuth_gone [OF ok assms(2,3)] by simp
  next
    case (step u v)
    then show ?case using sched_step_ok [OF old_is_step [OF step(2)]] old_step_gone [OF step(2)] by simp
  qed
  from this [OF assms(4) refl] show ?thesis using gone_absent by (auto simp: gone_def)
qed

lemma removed_stays_removed_witness:
  "absent ''a'' (upsertAuthLifecycleLocked sample_view (plain_auth ''a'') 9 (removeAuth ''a'' 3 sample_scheduler))"
proof -
  have i: "TrimSpace ''a'' = ''a''" by code_simp
  have "map_option gm_epoch (map_of (as_authGenerations sample_scheduler) ''a'') = Some 1"
    by code_simp
  then obtain g where g: "map_of (as_authGenerations sample_scheduler) ''a'' = Some g" "gm_epoch g = 1" by auto
  have p: "au_RegistrationEpoch (plain_auth ''a'' :: unit Auth) = 1" by (simp add: plain_auth_def)
  let ?e = "case map_of (as_authGenerations sample_scheduler) ''a'' of None \<Rightarrow> 1 | Some g \<Rightarrow> gm_epoch g + 1"
  have "before ''a'' ?e (plain_auth ''a'' :: unit Auth)" using trimmed_plain by (simp add: before_def g p)
  then have "old_step ''a'' ?e (9, removeAuth ''a'' 3 sample_scheduler)
      (9, upsertAuthLifecycleLocked sample_view (plain_auth ''a'') 9 (removeAuth ''a'' 3 sample_scheduler))"
    by (rule ol_lifecycle)
  moreover have "old_step ''a'' ?e (3, removeAuth ''a'' 3 sample_scheduler) (9, removeAuth ''a'' 3 sample_scheduler)"
    by (rule ol_tick) simp
  ultimately have "(old_step ''a'' ?e)\<^sup>*\<^sup>* (3, removeAuth ''a'' 3 sample_scheduler)
      (9, upsertAuthLifecycleLocked sample_view (plain_auth ''a'') 9 (removeAuth ''a'' 3 sample_scheduler))"
    by (meson converse_rtranclp_into_rtranclp r_into_rtranclp)
  then show ?thesis using removed_stays_removed [OF sample_reachable i] by simp
qed

end
