(* ===== verification/SchedulerFreshness.thy ===== *)
theory SchedulerFreshness
  imports SchedulerProperties
begin

text \<open>
  By which snapshot of a credential a pick judges. A shard keeps its own reference to the metadata of
  a credential, and a result only brings the shards of the models it names up to date
  (\<open>updateTargetShardsLocked\<close> in \<open>src/sdk/cliproxy/auth/scheduler.go\<close>), so what a shard shows may be
  older than what the provider has recorded. The runs of the scheduler are followed here together with
  a history of the recorded metadata, and a shard never shows a snapshot older than the last update
  that concerned its model.
\<close>

section \<open>What is recorded and what is shown\<close>

text \<open>The newest metadata of a credential, at the provider it is assigned to.\<close>

definition newest :: "'x authScheduler \<Rightarrow> string \<Rightarrow> 'x scheduledAuthMeta option" where
  "newest x i =
     (case map_of (as_authProviders x) i of
        None \<Rightarrow> None
      | Some k \<Rightarrow> (case map_of (as_providers x) k of None \<Rightarrow> None | Some p \<Rightarrow> map_of (ps_auths p) i))"

text \<open>The metadata the shard of a model refers to.\<close>

definition shard_shows :: "'x modelScheduler \<Rightarrow> string \<Rightarrow> 'x scheduledAuthMeta option" where
  "shard_shows sh i = map_option en_meta (map_of (ms_entries sh) i)"

definition provider_shows :: "'x providerScheduler \<Rightarrow> string \<Rightarrow> string \<Rightarrow> 'x scheduledAuthMeta option" where
  "provider_shows p mk i = (case map_of (ps_modelShards p) mk of None \<Rightarrow> None | Some sh \<Rightarrow> shard_shows sh i)"

definition shown :: "'x authScheduler \<Rightarrow> string \<Rightarrow> string \<Rightarrow> string \<Rightarrow> 'x scheduledAuthMeta option" where
  "shown x k mk i = (case map_of (as_providers x) k of None \<Rightarrow> None | Some p \<Rightarrow> provider_shows p mk i)"

text \<open>A change of the scheduler that concerns the models and credentials in \<open>sc\<close>: afterwards a shard shows the
  newest metadata, or what it showed before if it was not concerned.\<close>

definition brought_up_to_date :: "(string \<Rightarrow> string \<Rightarrow> bool) \<Rightarrow> 'x authScheduler \<Rightarrow> 'x authScheduler \<Rightarrow> bool" where
  "brought_up_to_date sc x x' \<longleftrightarrow>
     (\<forall>k mk i me. shown x' k mk i = Some me \<longrightarrow> newest x' i = Some me \<or> \<not> sc mk i \<and> shown x k mk i = Some me)"



lemma follows_cong: "as_providers y = as_providers x \<Longrightarrow> brought_up_to_date sc x x' \<Longrightarrow> brought_up_to_date sc y x'"
  by (simp add: brought_up_to_date_def shown_def)

text \<open>A change that concerns nobody and leaves the recorded metadata alone.\<close>

definition keeps_records :: "'x authScheduler \<Rightarrow> 'x authScheduler \<Rightarrow> bool" where
  "keeps_records x x' \<longleftrightarrow> newest x' = newest x \<and> brought_up_to_date (\<lambda>_ _. False) x x'"

lemma quiet_refl [simp]: "keeps_records x x"
  by (simp add: keeps_records_def brought_up_to_date_def)





section \<open>Updates\<close>

definition addresses :: "string list \<Rightarrow> bool \<Rightarrow> string \<Rightarrow> bool" where
  "addresses targets cs mk \<longleftrightarrow> cs \<or> targets = [] \<or> mk = [] \<or> mk \<in> canonicalModelKey ` set targets"








text \<open>The operations of the scheduler, and which models and credentials they concern.\<close>

lemma set_generation_shown [simp]: "shown (set_generation i e g t s) = shown s" "newest (set_generation i e g t s) = newest s"
  by (simp_all add: fun_eq_iff shown_def newest_def set_generation_def cong: option.case_cong)

lemma set_generation_follows [simp]: "brought_up_to_date sc (set_generation i e g t s) x' = brought_up_to_date sc s x'"
  by (simp add: brought_up_to_date_def)

lemma follows_shown: "shown y = shown x \<Longrightarrow> brought_up_to_date sc x x' = brought_up_to_date sc y x'"
  by (simp add: brought_up_to_date_def)



text \<open>Whether a result changes the availability of the credential as a whole.\<close>

definition availability_changes :: "'x Auth \<Rightarrow> gtime \<Rightarrow> 'x authScheduler \<Rightarrow> bool" where
  "availability_changes a now x \<longleftrightarrow>
     (case newest x (au_ID a) of
        None \<Rightarrow> True
      | Some em \<Rightarrow>
          (let n = (case me_supportedModelSet em of None \<Rightarrow> 0 | Some ks \<Rightarrow> length ks)
           in isCredentialBlocked (me_auth em) n now \<noteq> isCredentialBlocked a n now))"


text \<open>The scope of a result. A snapshot that is not older than the newest one concerns the models it names, and
  all models when it names none, is scoped to the credential, or changes the availability of the
  credential as a whole. An older one makes the shards of the models it names catch up with the newest.\<close>

definition result_scope :: "'x Auth \<Rightarrow> string list \<Rightarrow> bool \<Rightarrow> gtime \<Rightarrow> 'x authScheduler \<Rightarrow> string \<Rightarrow> bool" where
  "result_scope a targets cs now x mk \<longleftrightarrow>
     (if isStaleScheduledAuth (au_ID a) (au_RegistrationEpoch a) (au_Generation a) (au_UpdatedAt a) x
      then map_of (as_authProviders x) (au_ID a) = Some (executorKeyFromAuth a) \<and> addresses targets cs mk
      else addresses targets cs mk \<or> availability_changes a now x)"









section \<open>Picks\<close>

















section \<open>Runs with a history\<close>

text \<open>The steps of the scheduler with the models and credentials they concern.\<close>

inductive scoped_step :: "(string \<Rightarrow> string \<Rightarrow> bool) \<Rightarrow> gtime \<times> 'x authScheduler \<Rightarrow> gtime \<times> 'x authScheduler \<Rightarrow> bool" where
  sp_lifecycle: "trimmed a \<Longrightarrow> scoped_step
     (\<lambda>mk i. i = au_ID a \<and> \<not> isStaleScheduledAuth (au_ID a) (au_RegistrationEpoch a) (au_Generation a) (au_UpdatedAt a) x)
     (t, x) (t, upsertAuthLifecycleLocked rw a t x)"
| sp_result: "trimmed a \<Longrightarrow> scoped_step (\<lambda>mk i. i = au_ID a \<and> result_scope a targets cs t x mk)
     (t, x) (t, upsertAuthResultLocked rw a targets cs t x)"
| sp_rebuild: "list_all trimmed auths \<Longrightarrow> scoped_step (\<lambda>_ _. True) (t, x) (t, rebuild rw auths t x)"
| sp_tick: "s \<le> t \<Longrightarrow> scoped_step (\<lambda>_ _. False) (s, x) (t, x)"
| sp_selector: "scoped_step (\<lambda>_ _. False) (t, x) (t, setSelector sel x)"
| sp_tombstone: "scoped_step (\<lambda>_ _. False) (t, x) (t, RecordRemovalTombstone i e t x)"
| sp_remove: "scoped_step (\<lambda>_ _. False) (t, x) (t, removeAuth i t x)"
| sp_reset: "scoped_step (\<lambda>_ _. False) (t, x) (t, ResetAuthGeneration i x)"
| sp_single: "t \<le> t1 \<Longrightarrow> t1 \<le> t2 \<Longrightarrow> t2 \<le> t3 \<Longrightarrow> scoped_step (\<lambda>_ _. False)
     (t, x) (t3, snd (pickSingleWithStrategy provider model rq tried strategy (t1, t2, t3) x))"
| sp_mixed: "t \<le> t1 \<Longrightarrow> t1 \<le> t2 \<Longrightarrow> t2 \<le> t3 \<Longrightarrow> scoped_step (\<lambda>_ _. False)
     (t, x) (t3, snd (pickMixedWithStrategy providers model rq tried strategy (t1, t2, t3) x))"

lemma scoped_step_iff: "(\<exists>sc. scoped_step sc y z) \<longleftrightarrow> sched_step y z"
proof
  show "sched_step y z" if "\<exists>sc. scoped_step sc y z" using that by (auto elim!: scoped_step.cases intro: sched_step.intros)
  show "\<exists>sc. scoped_step sc y z" if "sched_step y z" using that by cases (blast intro: scoped_step.intros)+
qed

text \<open>For every model and credential: the metadata recorded since the last update that concerned them, that one
  included. A credential that is not registered has none.\<close>

type_synonym 'x records = "string \<Rightarrow> string \<Rightarrow> 'x scheduledAuthMeta set"

definition record_step :: "(string \<Rightarrow> string \<Rightarrow> bool) \<Rightarrow> 'x authScheduler \<Rightarrow> 'x records \<Rightarrow> 'x records" where
  "record_step sc x' h mk i =
     (case newest x' i of None \<Rightarrow> {} | Some me \<Rightarrow> if sc mk i then {me} else insert me (h mk i))"

inductive tracked_step :: "(gtime \<times> 'x authScheduler) \<times> 'x records \<Rightarrow> (gtime \<times> 'x authScheduler) \<times> 'x records \<Rightarrow> bool" where
  tracked: "scoped_step sc y (t, x) \<Longrightarrow> tracked_step (y, h) ((t, x), record_step sc x h)"

definition tracked_start :: "(gtime \<times> 'x authScheduler) \<times> 'x records \<Rightarrow> bool" where
  "tracked_start = (\<lambda>(y, h). sched_start y \<and> h = (\<lambda>_ _. {}))"

text \<open>The history only watches: every run of the scheduler is such a run.\<close>

lemma tracked_reachable: "reachable sched_start sched_step y \<Longrightarrow> \<exists>h. reachable tracked_start tracked_step (y, h)"
proof (induction rule: reachable.induct)
  case (reach_init y)
  then show ?case using reachable.reach_init [of tracked_start "(y, \<lambda>_ _. {})"] by (auto simp: tracked_start_def)
next
  case (reach_step y z)
  then obtain h sc where h: "reachable tracked_start tracked_step (y, h)" "scoped_step sc y z" using scoped_step_iff by metis
  obtain t x where z: "z = (t, x)" by (cases z)
  from reachable.reach_step [OF h(1) tracked [OF h(2) [unfolded z]]] show ?case unfolding z by blast
qed








section \<open>The best credential of a provider\<close>







end
