(* ===== verification/SessionCache.thy ===== *)
theory SessionCache
  imports GoBase
begin

text \<open>
  The session cache of \<open>src/sdk/cliproxy/auth/session_cache.go\<close>: which credential a session is bound to,
  under every identifier (alias) the session is known by, with a time to live, a bound on the number
  of aliases and the order of the selections.

  The source keeps the same groups four times: by alias (\<open>entries\<close>), by first alias (\<open>groups\<close>), in a
  \<open>container/list\<close> for the eviction with a map from first aliases to list elements, and by session
  (\<open>sessionGroups\<close>). An element of the list has an identity, a number from a counter. Maps are nil until
  \<open>ensureInitializedLocked\<close>; a nil map reads like an empty one, and both are the empty list. Every
  operation runs under the lock except \<open>Get\<close>, which takes it again for an entry it found expired; the
  two sections are two functions. Readings of the clock are arguments. The eviction loop may run
  forever on a state whose parts do not fit together, so its value is an option.
\<close>

section \<open>State\<close>

record sessionBinding =
  bd_sessionID :: string
  bd_provider :: string
  bd_sequence :: nat

record sessionEntry =
  sn_authID :: string
  sn_expiresAt :: gtime
  sn_aliases :: "string list"
  sn_binding :: sessionBinding

record SessionCache =
  ca_entries :: "(string \<times> sessionEntry) list"
  ca_groups :: "(string \<times> sessionEntry) list"
  ca_evictionOrder :: "(nat \<times> string) list"
  ca_evictionElements :: "(string \<times> nat) list"
  ca_nextElement :: nat
  ca_maxEntries :: int
  ca_ttl :: gdur
  ca_sessionGroups :: "(string \<times> string list) list"
  ca_bindingSequence :: nat

definition maxStableSessionAliases :: nat where
  "maxStableSessionAliases = 64"

definition defaultMaxSessionEntries :: int where
  "defaultMaxSessionEntries = 65536"

definition NewSessionCacheWithCapacity :: "gdur \<Rightarrow> int \<Rightarrow> SessionCache" where
  "NewSessionCacheWithCapacity ttl maxEntries =
     \<lparr>ca_entries = [], ca_groups = [], ca_evictionOrder = [], ca_evictionElements = [], ca_nextElement = 0,
      ca_maxEntries = (if maxEntries \<le> 0 then defaultMaxSessionEntries else maxEntries),
      ca_ttl = (if ttl \<le> 0 then 1800 * sec_ns else ttl), ca_sessionGroups = [], ca_bindingSequence = 0\<rparr>"

section \<open>Aliases\<close>

definition sameSessionEntryGroup :: "sessionEntry \<Rightarrow> sessionEntry \<Rightarrow> bool" where
  "sameSessionEntryGroup l r \<longleftrightarrow>
     sn_authID l = sn_authID r \<and> sn_expiresAt l = sn_expiresAt r \<and> sn_aliases l = sn_aliases r"

definition isLocalPromptCacheSessionAlias :: "string \<Rightarrow> bool" where
  "isLocalPromptCacheSessionAlias alias =
     (if HasPrefix alias ''pck:'' then True
      else case CutStr alias ''::'' of None \<Rightarrow> False | Some (_, sessionAndModel) \<Rightarrow> HasPrefix sessionAndModel ''pck:'')"

fun compact_loop :: "(string \<Rightarrow> bool) \<Rightarrow> bool \<Rightarrow> nat \<Rightarrow> string list \<Rightarrow> string list" where
  "compact_loop isPromptCacheAlias hasPromptCacheKey stableAliases [] = []"
| "compact_loop isPromptCacheAlias hasPromptCacheKey stableAliases (a # as) =
     (if isPromptCacheAlias a
      then (if hasPromptCacheKey then compact_loop isPromptCacheAlias hasPromptCacheKey stableAliases as
            else a # compact_loop isPromptCacheAlias True stableAliases as)
      else if stableAliases \<ge> maxStableSessionAliases then compact_loop isPromptCacheAlias hasPromptCacheKey stableAliases as
      else a # compact_loop isPromptCacheAlias hasPromptCacheKey (Suc stableAliases) as)"

definition compactSessionAliasesWith :: "(string \<Rightarrow> bool) \<Rightarrow> string list \<Rightarrow> string list" where
  "compactSessionAliasesWith isPromptCacheAlias as = compact_loop isPromptCacheAlias False 0 as"

definition compactSessionAliases :: "string list \<Rightarrow> string list" where
  "compactSessionAliases as = compactSessionAliasesWith isLocalPromptCacheSessionAlias as"

fun merge_loop :: "string list \<Rightarrow> string list \<Rightarrow> string list" where
  "merge_loop seen [] = []"
| "merge_loop seen (a # as) =
     (if a = [] \<or> a \<in> set seen then merge_loop seen as else a # merge_loop (a # seen) as)"

definition mergeSessionAliases :: "string list \<Rightarrow> string list \<Rightarrow> string list" where
  "mergeSessionAliases existing candidates = merge_loop [] (existing @ candidates)"

section \<open>Groups\<close>

definition drop_from_session :: "string \<Rightarrow> string \<Rightarrow> (string \<times> string list) list \<Rightarrow> (string \<times> string list) list" where
  "drop_from_session s k sg =
     (case map_of sg s of
        None \<Rightarrow> sg
      | Some ks \<Rightarrow> (let ks = removeAll k ks in if ks = [] then AList.delete s sg else AList.update s ks sg))"

definition drop_element :: "string \<Rightarrow> SessionCache \<Rightarrow> SessionCache" where
  "drop_element k c =
     (case map_of (ca_evictionElements c) k of
        None \<Rightarrow> c
      | Some el \<Rightarrow> c\<lparr>ca_evictionOrder := filter (\<lambda>(i, _). i \<noteq> el) (ca_evictionOrder c),
                     ca_evictionElements := AList.delete k (ca_evictionElements c)\<rparr>)"

definition drop_group :: "sessionEntry \<Rightarrow> SessionCache \<Rightarrow> SessionCache" where
  "drop_group e c =
     (let k = hd (sn_aliases e)
      in case map_of (ca_groups c) k of
           None \<Rightarrow> c
         | Some currentGroup \<Rightarrow>
             if \<not> sameSessionEntryGroup currentGroup e then c
             else drop_element k (c\<lparr>ca_groups := AList.delete k (ca_groups c),
                                   ca_sessionGroups := drop_from_session (bd_sessionID (sn_binding e)) k (ca_sessionGroups c)\<rparr>))"

definition drop_alias :: "sessionEntry \<Rightarrow> string \<Rightarrow> (string \<times> sessionEntry) list \<Rightarrow> (string \<times> sessionEntry) list" where
  "drop_alias e a es =
     (case map_of es a of
        None \<Rightarrow> es
      | Some cur \<Rightarrow> if sameSessionEntryGroup cur e then AList.delete a es else es)"

definition removeAliasGroupLocked :: "sessionEntry \<Rightarrow> SessionCache \<Rightarrow> SessionCache" where
  "removeAliasGroupLocked e c =
     (if sn_aliases e = [] then c
      else let c = drop_group e c in c\<lparr>ca_entries := fold (drop_alias e) (sn_aliases e) (ca_entries c)\<rparr>)"

partial_function (option) evictExcessLocked :: "SessionCache \<Rightarrow> SessionCache option" where
  [code]: "evictExcessLocked c =
     (if \<not> int (length (ca_entries c)) > ca_maxEntries c then Some c
      else case ca_evictionOrder c of
          [] \<Rightarrow> Some c
        | (el, primaryKey) # _ \<Rightarrow>
            (case map_of (ca_groups c) primaryKey of
               None \<Rightarrow> evictExcessLocked (c\<lparr>ca_evictionOrder := filter (\<lambda>(i, _). i \<noteq> el) (ca_evictionOrder c),
                                            ca_evictionElements := AList.delete primaryKey (ca_evictionElements c)\<rparr>)
             | Some g \<Rightarrow> evictExcessLocked (removeAliasGroupLocked g c)))"

definition add_to_session :: "string \<Rightarrow> sessionBinding \<Rightarrow> (string \<times> string list) list \<Rightarrow> (string \<times> string list) list" where
  "add_to_session k b sg =
     (if bd_sequence b = 0 then sg
      else AList.update (bd_sessionID b)
        (case map_of sg (bd_sessionID b) of None \<Rightarrow> [k] | Some ks \<Rightarrow> List.insert k ks) sg)"

definition add_group :: "sessionEntry \<Rightarrow> SessionCache \<Rightarrow> SessionCache" where
  "add_group e c =
     (let k = hd (sn_aliases e)
      in c\<lparr>ca_groups := AList.update k e (ca_groups c),
           ca_sessionGroups := add_to_session k (sn_binding e) (ca_sessionGroups c),
           ca_entries := fold (\<lambda>a. AList.update a e) (sn_aliases e) (ca_entries c),
           ca_evictionOrder := ca_evictionOrder c @ [(ca_nextElement c, k)],
           ca_evictionElements := AList.update k (ca_nextElement c) (ca_evictionElements c),
           ca_nextElement := Suc (ca_nextElement c)\<rparr>)"

definition replaceAliasGroupsLocked ::
  "string \<Rightarrow> gtime \<Rightarrow> string list \<Rightarrow> sessionBinding \<Rightarrow> sessionEntry list \<Rightarrow> SessionCache \<Rightarrow> SessionCache option" where
  "replaceAliasGroupsLocked authID expiresAt as b previousGroups c =
     (let c = fold removeAliasGroupLocked previousGroups c
      in if as = [] then Some c
         else let c = (case map_of (ca_groups c) (hd as) of None \<Rightarrow> c | Some existing \<Rightarrow> removeAliasGroupLocked existing c);
                  c = add_group \<lparr>sn_authID = authID, sn_expiresAt = expiresAt, sn_aliases = as, sn_binding = b\<rparr> c
              in if ca_maxEntries c > 0 \<and> int (length (ca_entries c)) > ca_maxEntries c then evictExcessLocked c else Some c)"

section \<open>Operations\<close>

text \<open>The section of \<open>Get\<close> under the read lock answers or finds an expired entry; the section under the
  write lock looks again.\<close>

definition Get_read :: "string \<Rightarrow> gtime \<Rightarrow> SessionCache \<Rightarrow> string option" where
  "Get_read sessionID now c =
     (if sessionID = [] then None
      else case map_of (ca_entries c) sessionID of
          None \<Rightarrow> None
        | Some e \<Rightarrow> if now < sn_expiresAt e then Some (sn_authID e) else None)"

definition Get_expired :: "string \<Rightarrow> gtime \<Rightarrow> SessionCache \<Rightarrow> string option \<times> SessionCache" where
  "Get_expired sessionID now c =
     (case map_of (ca_entries c) sessionID of
        None \<Rightarrow> (None, c)
      | Some e \<Rightarrow> if now < sn_expiresAt e then (Some (sn_authID e), c) else (None, removeAliasGroupLocked e c))"

definition GetAndRefresh :: "string \<Rightarrow> gtime \<Rightarrow> SessionCache \<Rightarrow> (string option \<times> SessionCache) option" where
  "GetAndRefresh sessionID now c =
     (if sessionID = [] then Some (None, c)
      else case map_of (ca_entries c) sessionID of
          None \<Rightarrow> Some (None, c)
        | Some e \<Rightarrow>
            if \<not> now < sn_expiresAt e then Some (None, removeAliasGroupLocked e c)
            else map_option (Pair (Some (sn_authID e)))
                   (replaceAliasGroupsLocked (sn_authID e) (now + ca_ttl c)
                      (compactSessionAliases (mergeSessionAliases [sessionID] (sn_aliases e))) (sn_binding e) [e] c))"

fun collect_groups :: "gtime \<Rightarrow> string list \<Rightarrow> string list \<Rightarrow> sessionEntry list \<Rightarrow> SessionCache \<Rightarrow>
    string list \<times> sessionEntry list \<times> SessionCache" where
  "collect_groups now [] as previousGroups c = (as, previousGroups, c)"
| "collect_groups now (i # ids) as previousGroups c =
     (case map_of (ca_entries c) i of
        None \<Rightarrow> collect_groups now ids as previousGroups c
      | Some e \<Rightarrow>
          if \<not> now < sn_expiresAt e then collect_groups now ids as previousGroups (removeAliasGroupLocked e c)
          else collect_groups now ids (mergeSessionAliases as (sn_aliases e)) (previousGroups @ [e]) c)"

definition newest_binding :: "sessionEntry list \<Rightarrow> sessionBinding \<Rightarrow> sessionBinding" where
  "newest_binding previousGroups b =
     fold (\<lambda>p b. if bd_sequence (sn_binding p) > bd_sequence b then sn_binding p else b) previousGroups b"

definition setAliases :: "string \<Rightarrow> sessionBinding \<Rightarrow> string list \<Rightarrow> gtime \<Rightarrow> SessionCache \<Rightarrow> SessionCache option" where
  "setAliases authID b sessionIDs now c =
     (if authID = [] then Some c
      else case collect_groups now sessionIDs (mergeSessionAliases [] sessionIDs) [] c of (as, previousGroups, c) \<Rightarrow>
        (let as = compactSessionAliases as
         in if as = [] then Some c
            else if bd_sessionID b \<noteq> [] \<and> bd_provider b \<noteq> []
            then (let s = Suc (ca_bindingSequence c)
                  in replaceAliasGroupsLocked authID (now + ca_ttl c) as (b\<lparr>bd_sequence := s\<rparr>) previousGroups
                       (c\<lparr>ca_bindingSequence := s\<rparr>))
            else replaceAliasGroupsLocked authID (now + ca_ttl c) as (newest_binding previousGroups b) previousGroups c))"

definition no_binding :: sessionBinding where
  "no_binding = \<lparr>bd_sessionID = [], bd_provider = [], bd_sequence = 0\<rparr>"

definition SetAliases :: "string \<Rightarrow> string list \<Rightarrow> gtime \<Rightarrow> SessionCache \<Rightarrow> SessionCache option" where
  "SetAliases authID sessionIDs now c = setAliases authID no_binding sessionIDs now c"

definition setSessionAliases :: "string \<Rightarrow> string \<Rightarrow> string \<Rightarrow> string list \<Rightarrow> gtime \<Rightarrow> SessionCache \<Rightarrow> SessionCache option" where
  "setSessionAliases authID provider sessionID keys now c =
     setAliases authID \<lparr>bd_sessionID = sessionID, bd_provider = provider, bd_sequence = 0\<rparr> keys now c"

definition no_entry :: sessionEntry where
  "no_entry = \<lparr>sn_authID = [], sn_expiresAt = 0, sn_aliases = [], sn_binding = no_binding\<rparr>"

definition latestSessionAuth :: "string \<Rightarrow> string list \<Rightarrow> gtime \<Rightarrow> SessionCache \<Rightarrow> string" where
  "latestSessionAuth sessionID providers now c =
     (if sessionID = [] \<or> providers = [] then []
      else sn_authID (fold (\<lambda>k latest.
          let e = (case map_of (ca_groups c) k of None \<Rightarrow> no_entry | Some g \<Rightarrow> g)
          in if bd_provider (sn_binding e) \<notin> set providers \<or> \<not> now < sn_expiresAt e then latest
             else if bd_sequence (sn_binding e) > bd_sequence (sn_binding latest) then e else latest)
        (case map_of (ca_sessionGroups c) sessionID of None \<Rightarrow> [] | Some ks \<Rightarrow> ks) no_entry))"

definition Touch :: "string \<Rightarrow> string \<Rightarrow> gtime \<Rightarrow> SessionCache \<Rightarrow> (bool \<times> SessionCache) option" where
  "Touch sessionID expectedAuthID now c =
     (if sessionID = [] \<or> expectedAuthID = [] then Some (False, c)
      else case map_of (ca_entries c) sessionID of
          None \<Rightarrow> Some (False, c)
        | Some e \<Rightarrow>
            if sn_authID e \<noteq> expectedAuthID \<or> \<not> now < sn_expiresAt e then Some (False, c)
            else map_option (Pair True)
                   (replaceAliasGroupsLocked expectedAuthID (now + ca_ttl c)
                      (compactSessionAliases (mergeSessionAliases [sessionID] (sn_aliases e))) (sn_binding e) [e] c))"

definition drop_one_alias :: "string \<Rightarrow> sessionEntry \<Rightarrow> SessionCache \<Rightarrow> SessionCache option" where
  "drop_one_alias sessionID e c =
     (let c = removeAliasGroupLocked e c; surviving = filter (\<lambda>a. a \<noteq> sessionID) (sn_aliases e)
      in if surviving \<noteq> [] then replaceAliasGroupsLocked (sn_authID e) (sn_expiresAt e) surviving (sn_binding e) [] c
         else Some c)"

definition CompareAndDelete :: "string \<Rightarrow> string \<Rightarrow> SessionCache \<Rightarrow> (bool \<times> SessionCache) option" where
  "CompareAndDelete sessionID expectedAuthID c =
     (if sessionID = [] \<or> expectedAuthID = [] then Some (False, c)
      else case map_of (ca_entries c) sessionID of
          None \<Rightarrow> Some (False, c)
        | Some e \<Rightarrow> if sn_authID e \<noteq> expectedAuthID then Some (False, c) else map_option (Pair True) (drop_one_alias sessionID e c))"

definition Invalidate :: "string \<Rightarrow> SessionCache \<Rightarrow> SessionCache option" where
  "Invalidate sessionID c =
     (if sessionID = [] then Some c
      else case map_of (ca_entries c) sessionID of None \<Rightarrow> Some c | Some e \<Rightarrow> drop_one_alias sessionID e c)"

definition InvalidateAuth :: "string \<Rightarrow> SessionCache \<Rightarrow> SessionCache" where
  "InvalidateAuth authID c =
     (if authID = [] then c
      else fold removeAliasGroupLocked (filter (\<lambda>g. sn_authID g = authID) (map snd (ca_groups c))) c)"

definition cache_cleanup :: "gtime \<Rightarrow> SessionCache \<Rightarrow> SessionCache" where
  "cache_cleanup now c = fold removeAliasGroupLocked (filter (\<lambda>g. \<not> now < sn_expiresAt g) (map snd (ca_groups c))) c"

definition cache_Len :: "SessionCache \<Rightarrow> nat" where
  "cache_Len c = length (ca_entries c)"

end
