(* ===== verification/SessionProperties.thy ===== *)
theory SessionProperties
  imports SessionCache
begin

text \<open>
  What the session cache guarantees: its four tables always describe one list of groups, oldest first,
  with disjoint aliases; every operation returns and acts on that list as a plain specification says;
  the eviction drops no more groups than it must; and the latest selection of a session is found
  whatever the order of the maps.
\<close>

section \<open>Groups with disjoint aliases\<close>

abbreviation primary :: "sessionEntry \<Rightarrow> string" where
  "primary g \<equiv> hd (sn_aliases g)"

definition holder :: "string \<Rightarrow> sessionEntry list \<Rightarrow> sessionEntry option" where
  "holder a L = find (\<lambda>g. a \<in> set (sn_aliases g)) L"

definition alias_total :: "sessionEntry list \<Rightarrow> nat" where
  "alias_total L = sum_list (map (\<lambda>g. length (sn_aliases g)) L)"

fun trim :: "int \<Rightarrow> sessionEntry list \<Rightarrow> sessionEntry list" where
  "trim n [] = []"
| "trim n (g # L) = (if int (alias_total (g # L)) > n then trim n L else g # L)"

definition well_grouped :: "sessionEntry list \<Rightarrow> bool" where
  "well_grouped L \<longleftrightarrow> distinct (concat (map sn_aliases L)) \<and> (\<forall>g\<in>set L. sn_aliases g \<noteq> [])"

lemma holder_Some: "holder a L = Some g \<Longrightarrow> g \<in> set L \<and> a \<in> set (sn_aliases g)"
  by (auto simp: holder_def find_Some_iff)

lemma holder_None: "holder a L = None \<longleftrightarrow> (\<forall>g\<in>set L. a \<notin> set (sn_aliases g))"
  by (auto simp: holder_def find_None_iff)

lemma well_grouped_Cons:
  "well_grouped (g # L) \<longleftrightarrow> sn_aliases g \<noteq> [] \<and> distinct (sn_aliases g) \<and> well_grouped L \<and>
     (\<forall>a\<in>set (sn_aliases g). holder a L = None)"
  by (auto simp: well_grouped_def holder_None)

lemma same_holder: "well_grouped L \<Longrightarrow> g \<in> set L \<Longrightarrow> h \<in> set L \<Longrightarrow> a \<in> set (sn_aliases g) \<Longrightarrow> a \<in> set (sn_aliases h) \<Longrightarrow> g = h"
  by (induction L) (auto simp: well_grouped_Cons holder_None)

lemma holder_iff: "well_grouped L \<Longrightarrow> holder a L = Some g \<longleftrightarrow> g \<in> set L \<and> a \<in> set (sn_aliases g)"
proof
  assume w: "well_grouped L" and g: "g \<in> set L \<and> a \<in> set (sn_aliases g)"
  then obtain h where "holder a L = Some h" using holder_None [of a L] by (cases "holder a L") auto
  with w g show "holder a L = Some g" using holder_Some [of a L h] same_holder [of L g h a] by auto
qed (rule holder_Some)

lemma grouped_aliases: "well_grouped L \<Longrightarrow> g \<in> set L \<Longrightarrow> sn_aliases g \<noteq> [] \<and> distinct (sn_aliases g) \<and> primary g \<in> set (sn_aliases g)"
  by (induction L) (auto simp: well_grouped_Cons)

lemma grouped_filter: "well_grouped L \<Longrightarrow> well_grouped (filter P L)"
  by (induction L) (auto simp: well_grouped_Cons holder_None)

lemma grouped_snoc:
  "well_grouped L \<Longrightarrow> sn_aliases e \<noteq> [] \<Longrightarrow> distinct (sn_aliases e) \<Longrightarrow> (\<forall>a\<in>set (sn_aliases e). holder a L = None) \<Longrightarrow>
   well_grouped (L @ [e])"
  by (auto simp: well_grouped_def holder_None)

lemma find_primary: "well_grouped L \<Longrightarrow> find (\<lambda>g. primary g = k) L = Some g \<longleftrightarrow> g \<in> set L \<and> primary g = k"
proof
  assume w: "well_grouped L" and g: "g \<in> set L \<and> primary g = k"
  then obtain h where h: "find (\<lambda>g. primary g = k) L = Some h" by (cases "find (\<lambda>g. primary g = k) L") (auto simp: find_None_iff)
  then have "h \<in> set L" "primary h = k" by (auto simp: find_Some_iff)
  with w g same_holder [of L g h k] grouped_aliases [of L g] grouped_aliases [of L h] h
  show "find (\<lambda>g. primary g = k) L = Some g" by auto
qed (auto simp: find_Some_iff)

lemma find_primary_None: "find (\<lambda>g. primary g = k) L = None \<longleftrightarrow> (\<forall>g\<in>set L. primary g \<noteq> k)"
  by (auto simp: find_None_iff)

lemma grouped_distinct: "well_grouped L \<Longrightarrow> distinct L \<and> distinct (map primary L)"
proof (induction L)
  case (Cons g L)
  then have w: "well_grouped L" and g: "primary g \<in> set (sn_aliases g)" and
    n: "\<And>a h. a \<in> set (sn_aliases g) \<Longrightarrow> h \<in> set L \<Longrightarrow> a \<notin> set (sn_aliases h)"
    by (auto simp: well_grouped_Cons holder_None)
  have "primary g \<noteq> primary h" if "h \<in> set L" for h
    using n [OF g that] grouped_aliases [OF w that] by auto
  with Cons.IH [OF w] show ?case by auto
qed simp

section \<open>The tables\<close>

definition tables_ok :: "sessionEntry list \<Rightarrow> SessionCache \<Rightarrow> bool" where
  "tables_ok L c \<longleftrightarrow> keys_distinct (ca_entries c) \<and> keys_distinct (ca_groups c) \<and>
     (\<forall>a. map_of (ca_entries c) a = holder a L) \<and> (\<forall>k. map_of (ca_groups c) k = find (\<lambda>g. primary g = k) L)"

definition order_ok :: "sessionEntry list \<Rightarrow> SessionCache \<Rightarrow> bool" where
  "order_ok L c \<longleftrightarrow> map snd (ca_evictionOrder c) = map primary L \<and> distinct (map fst (ca_evictionOrder c)) \<and>
     (\<forall>x\<in>set (ca_evictionOrder c). fst x < ca_nextElement c) \<and>
     (\<forall>k i. map_of (ca_evictionElements c) k = Some i \<longleftrightarrow> (i, k) \<in> set (ca_evictionOrder c))"

definition session_keys :: "string \<Rightarrow> sessionEntry list \<Rightarrow> string set" where
  "session_keys s L = primary ` {g \<in> set L. bd_sequence (sn_binding g) \<noteq> 0 \<and> bd_sessionID (sn_binding g) = s}"

definition sessions_ok :: "sessionEntry list \<Rightarrow> SessionCache \<Rightarrow> bool" where
  "sessions_ok L c \<longleftrightarrow>
     (\<forall>s. case map_of (ca_sessionGroups c) s of
            None \<Rightarrow> session_keys s L = {}
          | Some ks \<Rightarrow> ks \<noteq> [] \<and> set ks = session_keys s L)"

definition session_rel :: "sessionEntry list \<Rightarrow> SessionCache \<Rightarrow> bool" where
  "session_rel L c \<longleftrightarrow> well_grouped L \<and> tables_ok L c \<and> order_ok L c \<and> sessions_ok L c"

text \<open>The settings and the counter of selections are no concern of the tables.\<close>

definition same_settings :: "SessionCache \<Rightarrow> SessionCache \<Rightarrow> bool" where
  "same_settings c d \<longleftrightarrow> ca_maxEntries d = ca_maxEntries c \<and> ca_ttl d = ca_ttl c \<and> ca_bindingSequence d = ca_bindingSequence c"

lemma same_settings_refl [simp]: "same_settings c c"
  by (simp add: same_settings_def)

lemma same_settings_trans: "same_settings c d \<Longrightarrow> same_settings d e \<Longrightarrow> same_settings c e"
  by (simp add: same_settings_def)

lemma rel_entry:
  assumes "session_rel L c"
  shows "map_of (ca_entries c) a = holder a L"
  using assms by (simp add: session_rel_def tables_ok_def)

lemma rel_group:
  assumes "session_rel L c"
  shows "map_of (ca_groups c) k = find (\<lambda>g. primary g = k) L"
  using assms by (simp add: session_rel_def tables_ok_def)

lemma rel_length:
  assumes "session_rel L c"
  shows "length (ca_entries c) = alias_total L"
proof -
  have w: "well_grouped L" and k: "keys_distinct (ca_entries c)" using assms by (auto simp: session_rel_def tables_ok_def)
  have "set (map fst (ca_entries c)) = {a. map_of (ca_entries c) a \<noteq> None}" by (auto simp: map_of_eq_None_iff)
  also have "\<dots> = set (concat (map sn_aliases L))" by (auto simp: rel_entry [OF assms] holder_None)
  finally have "card (set (map fst (ca_entries c))) = card (set (concat (map sn_aliases L)))" by simp
  moreover have "card (set (map fst (ca_entries c))) = length (ca_entries c)" using distinct_card [OF k] by simp
  moreover have "card (set (concat (map sn_aliases L))) = length (concat (map sn_aliases L))"
    using w by (intro distinct_card) (simp add: well_grouped_def)
  ultimately show ?thesis by (simp add: alias_total_def length_concat comp_def)
qed

section \<open>Removing a group\<close>

lemma same_group_refl [simp]: "sameSessionEntryGroup g g"
  by (simp add: sameSessionEntryGroup_def)

lemma drop_aliases_map:
  "keys_distinct es \<Longrightarrow> distinct as \<Longrightarrow> (\<forall>a\<in>set as. map_of es a = Some g) \<Longrightarrow>
   keys_distinct (fold (drop_alias g) as es) \<and>
   (\<forall>a. map_of (fold (drop_alias g) as es) a = (if a \<in> set as then None else map_of es a))"
proof (induction as arbitrary: es)
  case (Cons b as)
  let ?es = "AList.delete b es"
  have b: "map_of es b = Some g" using Cons.prems by (simp del: map_of_eq_Some_iff)
  have d: "drop_alias g b es = ?es" by (simp add: drop_alias_def b del: map_of_eq_Some_iff)
  have "\<forall>a\<in>set as. map_of ?es a = Some g" using Cons.prems by (auto simp: map_of_delete_cases)
  then have "keys_distinct (fold (drop_alias g) as ?es) \<and>
     (\<forall>a. map_of (fold (drop_alias g) as ?es) a = (if a \<in> set as then None else map_of ?es a))"
    using Cons.IH [of ?es] Cons.prems by simp
  then show ?case unfolding fold_simps comp_def d by (simp add: map_of_delete_cases)
qed simp

lemma holder_removeAll: "well_grouped L \<Longrightarrow> g \<in> set L \<Longrightarrow> holder a (removeAll g L) = (if a \<in> set (sn_aliases g) then None else holder a L)"
proof (cases "a \<in> set (sn_aliases g)")
  case True
  assume "well_grouped L" "g \<in> set L"
  with True have "h = g" if "h \<in> set L" "a \<in> set (sn_aliases h)" for h
    using same_holder that by blast
  then have "holder a (removeAll g L) = None" by (auto simp: holder_None)
  with True show ?thesis by simp
next
  case False
  then show ?thesis by (induction L) (auto simp: holder_def)
qed

lemma primary_removeAll:
  assumes "well_grouped L" "g \<in> set L"
  shows "find (\<lambda>h. primary h = k) (removeAll g L) = (if k = primary g then None else find (\<lambda>h. primary h = k) L)"
proof (cases "k = primary g")
  case True
  have "h = g" if "h \<in> set L" "primary h = primary g" for h
    using same_holder [OF assms(1) that(1) assms(2), of "primary g"] grouped_aliases [OF assms(1) that(1)] grouped_aliases [OF assms] that
    by auto
  with True show ?thesis by (auto simp: find_None_iff)
next
  case False
  then show ?thesis by (induction L) auto
qed

lemma grouped_removeAll: "well_grouped L \<Longrightarrow> well_grouped (removeAll g L)"
  by (simp add: removeAll_filter_not_eq grouped_filter)

lemma element_of:
  assumes w: "well_grouped L" and o': "order_ok L c" and g: "g \<in> set L"
  obtains i where "map_of (ca_evictionElements c) (primary g) = Some i" "(i, primary g) \<in> set (ca_evictionOrder c)"
proof -
  have "primary g \<in> snd ` set (ca_evictionOrder c)"
    using o' g by (metis (no_types, lifting) image_eqI list.set_map order_ok_def)
  then obtain i where "(i, primary g) \<in> set (ca_evictionOrder c)" by auto
  with o' that show ?thesis by (simp add: order_ok_def)
qed

lemma filter_by_key:
  "distinct (map fst xs) \<Longrightarrow> distinct (map snd xs) \<Longrightarrow> (i, k) \<in> set xs \<Longrightarrow> filter (\<lambda>(j, _). j \<noteq> i) xs = filter (\<lambda>(_, l). l \<noteq> k) xs"
  by (rule filter_cong) (auto simp: distinct_map inj_on_def, (metis fst_conv snd_conv)+)

lemma map_snd_filter: "map snd (filter (\<lambda>(_, l). l \<noteq> k) xs) = filter (\<lambda>l. l \<noteq> k) (map snd xs)"
  by (induction xs) auto

lemma map_primary_remove:
  assumes "well_grouped L" "g \<in> set L"
  shows "map primary (removeAll g L) = filter (\<lambda>l. l \<noteq> primary g) (map primary L)"
proof -
  have "h = g \<longleftrightarrow> primary h = primary g" if "h \<in> set L" for h
    using find_primary [OF assms(1), of "primary g" h] find_primary [OF assms(1), of "primary g" g] that assms(2) by auto
  then have "filter (\<lambda>h. h \<noteq> g) L = filter (\<lambda>h. primary h \<noteq> primary g) L" by (intro filter_cong) auto
  then show ?thesis by (simp add: removeAll_filter_not_eq filter_map comp_def eq_commute [of g])
qed

lemma session_keys_remove:
  assumes "well_grouped L" "g \<in> set L"
  shows "session_keys s (removeAll g L) =
     (if s = bd_sessionID (sn_binding g) then session_keys s L - {primary g} else session_keys s L)"
proof -
  have p: "h = g" if "h \<in> set L" "primary h = primary g" for h
    using find_primary [OF assms(1), of "primary g" h] find_primary [OF assms(1), of "primary g" g] that assms(2) by auto
  let ?S = "\<lambda>L. {h \<in> set L. bd_sequence (sn_binding h) \<noteq> 0 \<and> bd_sessionID (sn_binding h) = s}"
  show ?thesis
  proof (cases "s = bd_sessionID (sn_binding g)")
    case True
    have "primary ` ?S (removeAll g L) = primary ` ?S L - {primary g}" using p by auto
    with True show ?thesis by (simp add: session_keys_def)
  next
    case False
    then have "?S (removeAll g L) = ?S L" by auto
    with False show ?thesis by (simp add: session_keys_def)
  qed
qed

lemma drop_from_session_ok:
  assumes w: "well_grouped L" and g: "g \<in> set L" and s: "sessions_ok L c"
  shows "case map_of (drop_from_session (bd_sessionID (sn_binding g)) (primary g) (ca_sessionGroups c)) s of
       None \<Rightarrow> session_keys s (removeAll g L) = {}
     | Some ks \<Rightarrow> ks \<noteq> [] \<and> set ks = session_keys s (removeAll g L)"
proof -
  let ?s = "bd_sessionID (sn_binding g)"
  have k: "case map_of (ca_sessionGroups c) t of None \<Rightarrow> session_keys t L = {} | Some ks \<Rightarrow> ks \<noteq> [] \<and> set ks = session_keys t L" for t
    using s by (auto simp: sessions_ok_def)
  show ?thesis
  proof (cases "map_of (ca_sessionGroups c) ?s")
    case None
    then show ?thesis using k [of s] k [of ?s] by (auto simp: drop_from_session_def session_keys_remove [OF w g] split: option.splits)
  next
    case (Some ks)
    then have ks: "set ks = session_keys ?s L" using k [of ?s] by simp
    have e: "removeAll (primary g) ks = [] \<longleftrightarrow> set ks - {primary g} = {}" by (metis set_empty set_removeAll)
    show ?thesis
    proof (cases "s = ?s")
      case True
      then show ?thesis using ks Some e
        by (simp add: drop_from_session_def session_keys_remove [OF w g] map_of_delete_cases update_conv' Let_def)
    next
      case False
      then show ?thesis using Some k [of s]
        by (simp add: drop_from_session_def session_keys_remove [OF w g] map_of_delete_cases update_conv' Let_def split: option.splits)
    qed
  qed
qed

lemma remove_rel:
  assumes r: "session_rel L c" and g: "g \<in> set L"
  shows "session_rel (removeAll g L) (removeAliasGroupLocked g c)" and "same_settings c (removeAliasGroupLocked g c)"
proof -
  have w: "well_grouped L" and t: "tables_ok L c" and o': "order_ok L c" and s: "sessions_ok L c"
    using r by (auto simp: session_rel_def)
  have ga: "sn_aliases g \<noteq> []" "distinct (sn_aliases g)" using grouped_aliases [OF w g] by auto
  have m: "map_of (ca_groups c) (primary g) = Some g" by (simp only: rel_group [OF r] find_primary [OF w] g)
  obtain i where i: "map_of (ca_evictionElements c) (primary g) = Some i" "(i, primary g) \<in> set (ca_evictionOrder c)"
    using element_of [OF w o' g] by blast
  let ?c = "c\<lparr>ca_groups := AList.delete (primary g) (ca_groups c),
     ca_sessionGroups := drop_from_session (bd_sessionID (sn_binding g)) (primary g) (ca_sessionGroups c),
     ca_evictionOrder := filter (\<lambda>(j, _). j \<noteq> i) (ca_evictionOrder c),
     ca_evictionElements := AList.delete (primary g) (ca_evictionElements c),
     ca_entries := fold (drop_alias g) (sn_aliases g) (ca_entries c)\<rparr>"
  have c: "removeAliasGroupLocked g c = ?c"
    using ga by (simp add: removeAliasGroupLocked_def drop_group_def drop_element_def m i(1) Let_def del: map_of_eq_Some_iff)
  have a: "\<forall>a\<in>set (sn_aliases g). map_of (ca_entries c) a = Some g"
    using holder_iff [OF w] g by (simp add: rel_entry [OF r])
  have "tables_ok (removeAll g L) ?c"
    using drop_aliases_map [OF _ ga(2) a] t
    by (simp add: tables_ok_def holder_removeAll [OF w g] primary_removeAll [OF w g] map_of_delete_cases)
  moreover have "order_ok (removeAll g L) ?c"
  proof -
    have d: "distinct (map fst (ca_evictionOrder c))" "map snd (ca_evictionOrder c) = map primary L"
      using o' by (auto simp: order_ok_def)
    then have f: "filter (\<lambda>(j, _). j \<noteq> i) (ca_evictionOrder c) = filter (\<lambda>(_, l). l \<noteq> primary g) (ca_evictionOrder c)"
      using filter_by_key [OF d(1) _ i(2)] grouped_distinct [OF w] by simp
    show ?thesis
      using o' by (auto simp: order_ok_def f map_snd_filter d map_primary_remove [OF w g] map_of_delete_cases distinct_map_filter)
  qed
  moreover have "sessions_ok (removeAll g L) ?c"
    using drop_from_session_ok [OF w g s] by (simp add: sessions_ok_def)
  ultimately show "session_rel (removeAll g L) (removeAliasGroupLocked g c)"
    unfolding c by (simp add: session_rel_def grouped_removeAll [OF w])
  show "same_settings c (removeAliasGroupLocked g c)" unfolding c by (simp add: same_settings_def)
qed

definition foreign :: "sessionEntry \<Rightarrow> sessionEntry list \<Rightarrow> bool" where
  "foreign g L \<longleftrightarrow> sn_aliases g \<noteq> [] \<and> (\<forall>a\<in>set (sn_aliases g). holder a L = None)"

lemma remove_foreign:
  assumes r: "session_rel L c" and f: "foreign g L"
  shows "removeAliasGroupLocked g c = c"
proof -
  have w: "well_grouped L" using r by (simp add: session_rel_def)
  have "find (\<lambda>h. primary h = primary g) L = None"
  proof (unfold find_None_iff, clarsimp)
    fix h assume "h \<in> set L" "primary h = primary g"
    with grouped_aliases [OF w, of h] f show False by (auto simp: foreign_def holder_None)
  qed
  then have "drop_group g c = c" by (simp add: drop_group_def rel_group [OF r] Let_def)
  moreover have "fold (drop_alias g) as (ca_entries c) = ca_entries c" if "set as \<subseteq> set (sn_aliases g)" for as
    using that f by (induction as) (auto simp: drop_alias_def rel_entry [OF r] foreign_def)
  ultimately show ?thesis by (simp add: removeAliasGroupLocked_def Let_def)
qed

lemma remove_groups_rel:
  assumes "session_rel L c" and "\<forall>g\<in>set gs. g \<in> set L \<or> foreign g L"
  shows "session_rel (filter (\<lambda>h. h \<notin> set gs) L) (fold removeAliasGroupLocked gs c) \<and>
     same_settings c (fold removeAliasGroupLocked gs c)"
  using assms
proof (induction gs arbitrary: L c)
  case (Cons g gs)
  have w: "well_grouped L" using Cons.prems(1) by (simp add: session_rel_def)
  show ?case
  proof (cases "g \<in> set L")
    case True
    let ?L = "removeAll g L"
    have fg: "foreign g ?L" using grouped_aliases [OF w True] by (auto simp: foreign_def holder_removeAll [OF w True])
    have "h \<in> set ?L \<or> foreign h ?L" if "h \<in> set gs" for h
      using Cons.prems(2) that fg by (cases "h = g") (auto simp: foreign_def holder_removeAll [OF w True])
    moreover have "filter (\<lambda>h. h \<notin> set gs) ?L = filter (\<lambda>h. h \<notin> set (g # gs)) L"
      by (induction L) auto
    ultimately show ?thesis
      using Cons.IH [OF remove_rel(1) [OF Cons.prems(1) True]] same_settings_trans [OF remove_rel(2) [OF Cons.prems(1) True]]
      by simp
  next
    case False
    then have "removeAliasGroupLocked g c = c" using remove_foreign [OF Cons.prems(1)] Cons.prems(2) by simp
    moreover have "filter (\<lambda>h. h \<notin> set (g # gs)) L = filter (\<lambda>h. h \<notin> set gs) L" using False by (intro filter_cong) auto
    ultimately show ?thesis using Cons.IH [OF Cons.prems(1)] Cons.prems(2) by simp
  qed
qed simp

section \<open>Adding a group and evicting\<close>

lemma update_aliases_map:
  "keys_distinct es \<Longrightarrow> keys_distinct (fold (\<lambda>a. AList.update a e) as es) \<and>
   (\<forall>a. map_of (fold (\<lambda>a. AList.update a e) as es) a = (if a \<in> set as then Some e else map_of es a))"
proof (induction as arbitrary: es)
  case (Cons b as)
  have "keys_distinct (AList.update b e es)" using Cons.prems by (rule distinct_update)
  from Cons.IH [OF this] show ?case by (simp add: update_conv')
qed simp

lemma foreign_no_primary:
  assumes w: "well_grouped L" and f: "foreign e L"
  shows "\<forall>h\<in>set L. primary h \<noteq> primary e"
proof
  fix h assume h: "h \<in> set L"
  have "primary e \<in> set (sn_aliases e)" using f by (simp add: foreign_def)
  with f h grouped_aliases [OF w h] show "primary h \<noteq> primary e" by (auto simp: foreign_def holder_None)
qed

lemma holder_append: "holder a (L @ [e]) = (case holder a L of Some g \<Rightarrow> Some g | None \<Rightarrow> if a \<in> set (sn_aliases e) then Some e else None)"
  by (induction L) (auto simp: holder_def)

lemma find_append_primary:
  "find (\<lambda>g. primary g = k) (L @ [e]) =
     (case find (\<lambda>g. primary g = k) L of Some g \<Rightarrow> Some g | None \<Rightarrow> if primary e = k then Some e else None)"
  by (induction L) auto

lemma session_keys_append:
  "session_keys s (L @ [e]) = session_keys s L \<union>
     (if bd_sequence (sn_binding e) \<noteq> 0 \<and> bd_sessionID (sn_binding e) = s then {primary e} else {})"
  by (auto simp: session_keys_def)

lemma add_to_session_ok:
  assumes "sessions_ok L c"
  shows "case map_of (add_to_session (primary e) (sn_binding e) (ca_sessionGroups c)) s of
       None \<Rightarrow> session_keys s (L @ [e]) = {}
     | Some ks \<Rightarrow> ks \<noteq> [] \<and> set ks = session_keys s (L @ [e])"
proof -
  have k: "case map_of (ca_sessionGroups c) t of None \<Rightarrow> session_keys t L = {} | Some ks \<Rightarrow> ks \<noteq> [] \<and> set ks = session_keys t L" for t
    using assms by (auto simp: sessions_ok_def)
  show ?thesis
  proof (cases "bd_sequence (sn_binding e) \<noteq> 0 \<and> bd_sessionID (sn_binding e) = s")
    case True
    then show ?thesis using k [of s]
      by (cases "map_of (ca_sessionGroups c) s") (simp_all add: add_to_session_def session_keys_append update_conv' List.insert_def insert_absorb)
  next
    case False
    then have "map_of (add_to_session (primary e) (sn_binding e) (ca_sessionGroups c)) s = map_of (ca_sessionGroups c) s"
      by (auto simp: add_to_session_def update_conv')
    moreover have "session_keys s (L @ [e]) = session_keys s L" using False by (auto simp: session_keys_append)
    ultimately show ?thesis using k [of s] by (simp split: option.splits)
  qed
qed

lemma add_rel:
  assumes r: "session_rel L c" and f: "foreign e L" and d: "distinct (sn_aliases e)"
  shows "session_rel (L @ [e]) (add_group e c)" and "same_settings c (add_group e c)"
proof -
  have w: "well_grouped L" and t: "tables_ok L c" and o': "order_ok L c" and s: "sessions_ok L c"
    using r by (auto simp: session_rel_def)
  have n: "\<forall>a\<in>set (sn_aliases e). holder a L = None" "sn_aliases e \<noteq> []" using f by (auto simp: foreign_def)
  have p: "find (\<lambda>g. primary g = primary e) L = None" using foreign_no_primary [OF w f] by (simp add: find_None_iff)
  have "tables_ok (L @ [e]) (add_group e c)"
  proof -
    have "map_of (ca_entries (add_group e c)) a = holder a (L @ [e])" for a
      using t n by (auto simp: add_group_def Let_def update_aliases_map tables_ok_def holder_append split: option.split)
    moreover have "map_of (ca_groups (add_group e c)) k = find (\<lambda>g. primary g = k) (L @ [e])" for k
      using t p by (auto simp: add_group_def Let_def update_conv' tables_ok_def find_append_primary split: option.split)
    ultimately show ?thesis
      using t by (simp add: tables_ok_def) (simp add: add_group_def Let_def update_aliases_map distinct_update)
  qed
  moreover have "order_ok (L @ [e]) (add_group e c)"
  proof -
    have "primary e \<notin> set (map snd (ca_evictionOrder c))"
      using o' foreign_no_primary [OF w f] by (simp add: order_ok_def) (metis (no_types, lifting) imageE list.set_map)
    moreover have "ca_nextElement c \<notin> set (map fst (ca_evictionOrder c))" using o' by (auto simp: order_ok_def)
    moreover have "map_of (AList.update (primary e) (ca_nextElement c) (ca_evictionElements c)) k = Some i \<longleftrightarrow>
        (i, k) \<in> set (ca_evictionOrder c @ [(ca_nextElement c, primary e)])" for k i
    proof (cases "k = primary e")
      case True
      then have "(i, k) \<notin> set (ca_evictionOrder c)" using calculation(1) by (metis image_eqI list.set_map snd_conv)
      with True show ?thesis by (auto simp: update_conv')
    next
      case False
      then show ?thesis using o' by (simp add: update_conv' order_ok_def)
    qed
    moreover have "\<forall>x\<in>set (ca_evictionOrder c). fst x < Suc (ca_nextElement c)" using o' by (auto simp: order_ok_def less_Suc_eq)
    ultimately show ?thesis
      using o' by (simp add: order_ok_def add_group_def Let_def)
  qed
  moreover have "sessions_ok (L @ [e]) (add_group e c)"
    using add_to_session_ok [OF s] by (simp add: sessions_ok_def add_group_def Let_def)
  ultimately show "session_rel (L @ [e]) (add_group e c)"
    using grouped_snoc [OF w n(2) d n(1)] by (simp add: session_rel_def)
  show "same_settings c (add_group e c)" by (simp add: same_settings_def add_group_def Let_def)
qed

lemma evict_rel:
  "session_rel L c \<Longrightarrow> \<exists>c'. evictExcessLocked c = Some c' \<and> session_rel (trim (ca_maxEntries c) L) c' \<and> same_settings c c'"
proof (induction L arbitrary: c)
  case Nil
  then have "ca_evictionOrder c = []" by (simp add: session_rel_def order_ok_def)
  then have "evictExcessLocked c = Some c" by (subst evictExcessLocked.simps) simp
  with Nil show ?case by simp
next
  case (Cons g L)
  show ?case
  proof (cases "int (alias_total (g # L)) > ca_maxEntries c")
    case False
    then have "evictExcessLocked c = Some c" by (subst evictExcessLocked.simps) (simp add: rel_length [OF Cons.prems])
    with False Cons.prems show ?thesis by simp
  next
    case True
    have w: "well_grouped (g # L)" using Cons.prems by (simp add: session_rel_def)
    obtain i rest where o': "ca_evictionOrder c = (i, primary g) # rest"
      using Cons.prems by (cases "ca_evictionOrder c") (auto simp: session_rel_def order_ok_def)
    have g: "map_of (ca_groups c) (primary g) = Some g" by (simp add: rel_group [OF Cons.prems])
    have "removeAll g (g # L) = L" using grouped_distinct [OF w] by (simp add: removeAll_id)
    then have r: "session_rel L (removeAliasGroupLocked g c)" "same_settings c (removeAliasGroupLocked g c)"
      using remove_rel [OF Cons.prems, of g] by auto
    then obtain c' where c': "evictExcessLocked (removeAliasGroupLocked g c) = Some c'"
      "session_rel (trim (ca_maxEntries c) L) c'" "same_settings (removeAliasGroupLocked g c) c'"
      using Cons.IH [OF r(1)] by (auto simp: same_settings_def)
    have "evictExcessLocked c = evictExcessLocked (removeAliasGroupLocked g c)"
      using True by (subst evictExcessLocked.simps) (simp add: rel_length [OF Cons.prems] o' g del: map_of_eq_Some_iff)
    with c' r(2) True show ?thesis using same_settings_trans by auto
  qed
qed

lemma trim_small: "int (alias_total L) \<le> n \<Longrightarrow> trim n L = L"
  by (cases L) auto

lemma replace_rel:
  assumes r: "session_rel L c" and p: "set prev \<subseteq> set L" and d: "distinct as"
    and f: "\<forall>a\<in>set as. holder a (filter (\<lambda>h. h \<notin> set prev) L) = None" and m: "ca_maxEntries c > 0"
  shows "\<exists>c'. replaceAliasGroupsLocked authID t as b prev c = Some c' \<and> same_settings c c' \<and>
     session_rel (if as = [] then filter (\<lambda>h. h \<notin> set prev) L
       else trim (ca_maxEntries c) (filter (\<lambda>h. h \<notin> set prev) L @ [\<lparr>sn_authID = authID, sn_expiresAt = t, sn_aliases = as, sn_binding = b\<rparr>])) c'"
proof -
  let ?L = "filter (\<lambda>h. h \<notin> set prev) L" and ?c = "fold removeAliasGroupLocked prev c"
  let ?e = "\<lparr>sn_authID = authID, sn_expiresAt = t, sn_aliases = as, sn_binding = b\<rparr>"
  have r1: "session_rel ?L ?c" "same_settings c ?c" using remove_groups_rel [OF r, of prev] p by auto
  show ?thesis
  proof (cases "as = []")
    case True
    with r1 show ?thesis by (simp add: replaceAliasGroupsLocked_def Let_def)
  next
    case False
    then have fe: "foreign ?e ?L" using f by (simp add: foreign_def)
    have w: "well_grouped ?L" using r1(1) by (simp add: session_rel_def)
    have "find (\<lambda>g. primary g = hd as) ?L = None" using foreign_no_primary [OF w fe] by (auto simp: find_None_iff)
    then have n: "map_of (ca_groups ?c) (hd as) = None" by (simp only: rel_group [OF r1(1)])
    let ?d = "add_group ?e ?c"
    have r2: "session_rel (?L @ [?e]) ?d" "same_settings ?c ?d" using add_rel [OF r1(1) fe] d by auto
    have s: "same_settings c ?d" using r1(2) r2(2) by (rule same_settings_trans)
    then have mx: "ca_maxEntries ?d = ca_maxEntries c" by (simp add: same_settings_def)
    have e: "replaceAliasGroupsLocked authID t as b prev c =
        (if int (alias_total (?L @ [?e])) > ca_maxEntries c then evictExcessLocked ?d else Some ?d)"
      using False m by (simp add: replaceAliasGroupsLocked_def Let_def n mx rel_length [OF r2(1)])
    show ?thesis
    proof (cases "int (alias_total (?L @ [?e])) > ca_maxEntries c")
      case True
      from evict_rel [OF r2(1)] obtain c' where "evictExcessLocked ?d = Some c'"
        "session_rel (trim (ca_maxEntries c) (?L @ [?e])) c'" "same_settings ?d c'" by (auto simp: mx)
      with True e False s show ?thesis using same_settings_trans [OF s] by auto
    next
      case False
      with e \<open>as \<noteq> []\<close> r2(1) s show ?thesis by (simp add: trim_small)
    qed
  qed
qed

section \<open>Aliases stay distinct\<close>

lemma merge_loop_props: "distinct (merge_loop seen as) \<and> set (merge_loop seen as) = set as - set seen - {[]}"
  by (induction seen as rule: merge_loop.induct) auto

lemma merge_props: "distinct (mergeSessionAliases es cs) \<and> set (mergeSessionAliases es cs) = (set es \<union> set cs) - {[]}"
  by (simp add: mergeSessionAliases_def merge_loop_props)

lemma compact_loop_props: "set (compact_loop p h n as) \<subseteq> set as \<and> (distinct as \<longrightarrow> distinct (compact_loop p h n as))"
proof (induction as arbitrary: h n)
  case (Cons a as)
  have i: "set (compact_loop p k m as) \<subseteq> set as" "distinct as \<longrightarrow> distinct (compact_loop p k m as)" for k m
    using Cons.IH by auto
  show ?case using i [of h n] i [of True n] i [of h "Suc n"] by auto
qed simp

lemma compact_props:
  "set (compactSessionAliases as) \<subseteq> set as" "distinct as \<Longrightarrow> distinct (compactSessionAliases as)"
  using compact_loop_props [of isLocalPromptCacheSessionAlias False 0 as]
  by (auto simp: compactSessionAliases_def compactSessionAliasesWith_def)

lemma compact_Nil: "compactSessionAliases as = [] \<longleftrightarrow> as = []"
  by (cases as) (auto simp: compactSessionAliases_def compactSessionAliasesWith_def maxStableSessionAliases_def)

text \<open>At most 64 identifiers of a session are remembered besides one prompt-cache key.\<close>

lemma compact_loop_length:
  "length (compact_loop p h n as) \<le> (if h then 0 else 1) + (maxStableSessionAliases - n)"
proof (induction p h n as rule: compact_loop.induct)
  case (2 p h n a as)
  then show ?case by (cases "p a"; cases h; cases "n \<ge> maxStableSessionAliases") auto
qed simp

lemma compact_length: "length (compactSessionAliases as) \<le> 65"
  using compact_loop_length [of isLocalPromptCacheSessionAlias False 0 as]
  by (simp add: compactSessionAliases_def compactSessionAliasesWith_def maxStableSessionAliases_def)

section \<open>The specification\<close>

text \<open>A list of groups, the least recently used first, and the number of selections so far.\<close>

datatype session_op =
  ReadSession string
| ExpireSession string
| RefreshSession string
| BindSession string string string "string list"
| TouchSession string string
| DeleteSession string string
| InvalidateSession string
| InvalidateCredential string
| Cleanup

datatype session_answer = Credential "string option" | Flag bool | Done

definition renewed :: "string \<Rightarrow> gtime \<Rightarrow> sessionEntry \<Rightarrow> sessionEntry" where
  "renewed i t g = g\<lparr>sn_expiresAt := t, sn_aliases := compactSessionAliases (mergeSessionAliases [i] (sn_aliases g))\<rparr>"

definition renew :: "string \<Rightarrow> gtime \<Rightarrow> int \<Rightarrow> sessionEntry \<Rightarrow> sessionEntry list \<Rightarrow> sessionEntry list" where
  "renew i t n g L = trim n (removeAll g L @ [renewed i t g])"

definition without_alias :: "string \<Rightarrow> int \<Rightarrow> sessionEntry \<Rightarrow> sessionEntry list \<Rightarrow> sessionEntry list" where
  "without_alias i n g L =
     (let as = filter (\<lambda>a. a \<noteq> i) (sn_aliases g)
      in if as = [] then removeAll g L else trim n (removeAll g L @ [g\<lparr>sn_aliases := as\<rparr>]))"

definition live_holders :: "gtime \<Rightarrow> string list \<Rightarrow> sessionEntry list \<Rightarrow> sessionEntry list" where
  "live_holders now ids L =
     concat (map (\<lambda>i. case holder i L of None \<Rightarrow> [] | Some g \<Rightarrow> if now < sn_expiresAt g then [g] else []) ids)"

definition unexpired :: "gtime \<Rightarrow> string list \<Rightarrow> sessionEntry list \<Rightarrow> sessionEntry list" where
  "unexpired now ids L = filter (\<lambda>g. (\<exists>i\<in>set ids. i \<in> set (sn_aliases g)) \<longrightarrow> now < sn_expiresAt g) L"

definition bind_spec :: "gdur \<Rightarrow> int \<Rightarrow> string \<Rightarrow> string \<Rightarrow> string \<Rightarrow> string list \<Rightarrow> gtime \<Rightarrow>
    sessionEntry list \<times> nat \<Rightarrow> sessionEntry list \<times> nat" where
  "bind_spec ttl n authID provider sessionID keys now = (\<lambda>(L, s).
     if authID = [] then (L, s)
     else let prev = live_holders now keys L;
              as = compactSessionAliases (fold (\<lambda>g as. mergeSessionAliases as (sn_aliases g)) prev (mergeSessionAliases [] keys));
              b = \<lparr>bd_sessionID = sessionID, bd_provider = provider, bd_sequence = 0\<rparr>;
              selection = (sessionID \<noteq> [] \<and> provider \<noteq> []);
              b' = (if selection then b\<lparr>bd_sequence := Suc s\<rparr> else newest_binding prev b)
          in if as = [] then (unexpired now keys L, s)
             else (trim n (filter (\<lambda>h. h \<notin> set prev) (unexpired now keys L) @
                     [\<lparr>sn_authID = authID, sn_expiresAt = now + ttl, sn_aliases = as, sn_binding = b'\<rparr>]),
                   if selection then Suc s else s))"

fun session_spec :: "gdur \<Rightarrow> int \<Rightarrow> session_op \<Rightarrow> gtime \<Rightarrow> sessionEntry list \<times> nat \<Rightarrow> session_answer \<times> sessionEntry list \<times> nat" where
  "session_spec ttl n (ReadSession i) now (L, s) =
     (Credential (case holder i L of None \<Rightarrow> None | Some g \<Rightarrow> if i \<noteq> [] \<and> now < sn_expiresAt g then Some (sn_authID g) else None), L, s)"
| "session_spec ttl n (ExpireSession i) now (L, s) =
     (case holder i L of
        None \<Rightarrow> (Credential None, L, s)
      | Some g \<Rightarrow> if now < sn_expiresAt g then (Credential (Some (sn_authID g)), L, s) else (Credential None, removeAll g L, s))"
| "session_spec ttl n (RefreshSession i) now (L, s) =
     (case (if i = [] then None else holder i L) of
        None \<Rightarrow> (Credential None, L, s)
      | Some g \<Rightarrow> if now < sn_expiresAt g then (Credential (Some (sn_authID g)), renew i (now + ttl) n g L, s)
                  else (Credential None, removeAll g L, s))"
| "session_spec ttl n (BindSession authID provider sessionID keys) now (L, s) =
     (Done, bind_spec ttl n authID provider sessionID keys now (L, s))"
| "session_spec ttl n (TouchSession i authID) now (L, s) =
     (case (if i = [] \<or> authID = [] then None else holder i L) of
        None \<Rightarrow> (Flag False, L, s)
      | Some g \<Rightarrow> if sn_authID g = authID \<and> now < sn_expiresAt g then (Flag True, renew i (now + ttl) n g L, s) else (Flag False, L, s))"
| "session_spec ttl n (DeleteSession i authID) now (L, s) =
     (case (if i = [] \<or> authID = [] then None else holder i L) of
        None \<Rightarrow> (Flag False, L, s)
      | Some g \<Rightarrow> if sn_authID g = authID then (Flag True, without_alias i n g L, s) else (Flag False, L, s))"
| "session_spec ttl n (InvalidateSession i) now (L, s) =
     (Done, (case (if i = [] then None else holder i L) of None \<Rightarrow> L | Some g \<Rightarrow> without_alias i n g L), s)"
| "session_spec ttl n (InvalidateCredential authID) now (L, s) = (Done, if authID = [] then L else filter (\<lambda>g. sn_authID g \<noteq> authID) L, s)"
| "session_spec ttl n Cleanup now (L, s) = (Done, filter (\<lambda>g. now < sn_expiresAt g) L, s)"

text \<open>The operations of the cache under the same names.\<close>

fun session_run :: "session_op \<Rightarrow> gtime \<Rightarrow> SessionCache \<Rightarrow> (session_answer \<times> SessionCache) option" where
  "session_run (ReadSession i) now c = Some (Credential (Get_read i now c), c)"
| "session_run (ExpireSession i) now c = Some (apfst Credential (Get_expired i now c))"
| "session_run (RefreshSession i) now c = map_option (apfst Credential) (GetAndRefresh i now c)"
| "session_run (BindSession authID provider sessionID keys) now c = map_option (Pair Done) (setSessionAliases authID provider sessionID keys now c)"
| "session_run (TouchSession i authID) now c = map_option (apfst Flag) (Touch i authID now c)"
| "session_run (DeleteSession i authID) now c = map_option (apfst Flag) (CompareAndDelete i authID c)"
| "session_run (InvalidateSession i) now c = map_option (Pair Done) (Invalidate i c)"
| "session_run (InvalidateCredential authID) now c = Some (Done, InvalidateAuth authID c)"
| "session_run Cleanup now c = Some (Done, cache_cleanup now c)"

section \<open>The cache implements the specification\<close>

definition session_state :: "sessionEntry list \<times> nat \<Rightarrow> SessionCache \<Rightarrow> bool" where
  "session_state = (\<lambda>(L, s) c. session_rel L c \<and> ca_bindingSequence c = s \<and> ca_maxEntries c > 0)"

lemma entry_renewed:
  "\<lparr>sn_authID = sn_authID g, sn_expiresAt = t, sn_aliases = as, sn_binding = sn_binding g\<rparr> = g\<lparr>sn_expiresAt := t, sn_aliases := as\<rparr>"
  by (cases g) simp

lemma entry_shortened:
  "\<lparr>sn_authID = sn_authID g, sn_expiresAt = sn_expiresAt g, sn_aliases = as, sn_binding = sn_binding g\<rparr> = g\<lparr>sn_aliases := as\<rparr>"
  by (cases g) simp

lemma renew_rel:
  assumes r: "session_rel L c" and m: "ca_maxEntries c > 0" and g: "holder i L = Some g" and a: "authID = sn_authID g" and i: "i \<noteq> []"
  shows "\<exists>c'. replaceAliasGroupsLocked authID t (compactSessionAliases (mergeSessionAliases [i] (sn_aliases g))) (sn_binding g) [g] c = Some c' \<and>
     same_settings c c' \<and> session_rel (renew i t (ca_maxEntries c) g L) c'"
proof -
  let ?as = "compactSessionAliases (mergeSessionAliases [i] (sn_aliases g))"
  have w: "well_grouped L" using r by (simp add: session_rel_def)
  have gL: "g \<in> set L" "i \<in> set (sn_aliases g)" using holder_Some [OF g] by auto
  have as: "set ?as \<subseteq> set (sn_aliases g)"
    using compact_props(1) [of "mergeSessionAliases [i] (sn_aliases g)"] merge_props [of "[i]" "sn_aliases g"] gL(2) by auto
  have "i \<in> set (mergeSessionAliases [i] (sn_aliases g))" using i by (simp add: merge_props)
  then have ne: "?as \<noteq> []" unfolding compact_Nil by (metis empty_iff empty_set)
  have f: "filter (\<lambda>h. h \<notin> set [g]) L = removeAll g L" by (induction L) auto
  have "\<forall>a\<in>set ?as. holder a (filter (\<lambda>h. h \<notin> set [g]) L) = None"
    unfolding f using as by (auto simp: holder_removeAll [OF w gL(1)])
  from replace_rel [OF r _ _ this m, of authID t "sn_binding g"] gL ne
  show ?thesis unfolding f by (simp add: compact_props(2) merge_props renew_def renewed_def a entry_renewed)
qed

lemma without_rel:
  assumes r: "session_rel L c" and m: "ca_maxEntries c > 0" and g: "holder i L = Some g"
  shows "\<exists>c'. drop_one_alias i g c = Some c' \<and> same_settings c c' \<and> session_rel (without_alias i (ca_maxEntries c) g L) c'"
proof -
  let ?as = "filter (\<lambda>a. a \<noteq> i) (sn_aliases g)" and ?c = "removeAliasGroupLocked g c"
  have w: "well_grouped L" using r by (simp add: session_rel_def)
  have gL: "g \<in> set L" using holder_Some [OF g] by simp
  have r1: "session_rel (removeAll g L) ?c" and s1: "same_settings c ?c" using remove_rel [OF r gL] .
  show ?thesis
  proof (cases "?as = []")
    case True
    with r1 s1 show ?thesis by (simp add: drop_one_alias_def without_alias_def Let_def)
  next
    case False
    have "\<forall>a\<in>set ?as. holder a (filter (\<lambda>h. h \<notin> set []) (removeAll g L)) = None"
      by (auto simp: holder_removeAll [OF w gL])
    from replace_rel [OF r1 _ _ this, of "sn_authID g" "sn_expiresAt g" "sn_binding g"] s1 m grouped_aliases [OF w gL]
    obtain c' where "replaceAliasGroupsLocked (sn_authID g) (sn_expiresAt g) ?as (sn_binding g) [] ?c = Some c'" "same_settings ?c c'"
      "session_rel (trim (ca_maxEntries c) (removeAll g L @ [g\<lparr>sn_aliases := ?as\<rparr>])) c'"
      using False by (auto simp: same_settings_def entry_shortened)
    with False s1 show ?thesis using same_settings_trans by (auto simp: drop_one_alias_def without_alias_def Let_def)
  qed
qed

text \<open>The loop of \<open>setAliases\<close>: expired groups go at once, live ones are collected.\<close>

lemma unexpired_Cons:
  assumes "well_grouped L"
  shows "unexpired now (i # ids) L = unexpired now ids (case holder i L of None \<Rightarrow> L | Some g \<Rightarrow> if now < sn_expiresAt g then L else removeAll g L)"
proof (cases "holder i L")
  case None
  then have "unexpired now (i # ids) L = unexpired now ids L" by (auto simp: unexpired_def holder_None intro!: filter_cong)
  with None show ?thesis by simp
next
  case (Some g)
  then have g: "g \<in> set L" "i \<in> set (sn_aliases g)" using holder_Some by auto
  have i: "i \<in> set (sn_aliases h) \<longleftrightarrow> h = g" if "h \<in> set L" for h using same_holder [OF assms that g(1)] g by auto
  show ?thesis
  proof (cases "now < sn_expiresAt g")
    case True
    then have "unexpired now (i # ids) L = unexpired now ids L" using i by (auto simp: unexpired_def intro!: filter_cong)
    with Some True show ?thesis by simp
  next
    case False
    then have "unexpired now (i # ids) L = unexpired now ids (removeAll g L)"
      using i by (auto simp: unexpired_def removeAll_filter_not_eq intro!: filter_cong)
    with Some False show ?thesis by simp
  qed
qed

lemma live_holders_remove:
  assumes "well_grouped L" "g \<in> set L" "\<not> now < sn_expiresAt g"
  shows "live_holders now ids (removeAll g L) = live_holders now ids L"
proof -
  have "(case holder i (removeAll g L) of None \<Rightarrow> [] | Some g \<Rightarrow> if now < sn_expiresAt g then [g] else []) =
      (case holder i L of None \<Rightarrow> [] | Some g \<Rightarrow> if now < sn_expiresAt g then [g] else [])" for i
    using assms holder_iff [OF assms(1), of i g] by (auto simp: holder_removeAll split: option.splits)
  then show ?thesis by (simp add: live_holders_def)
qed

lemma collect_rel:
  assumes "session_rel L c"
  shows "\<exists>c'. collect_groups now ids as prev c =
       (fold (\<lambda>g as. mergeSessionAliases as (sn_aliases g)) (live_holders now ids L) as, prev @ live_holders now ids L, c') \<and>
     session_rel (unexpired now ids L) c' \<and> same_settings c c'"
  using assms
proof (induction ids arbitrary: as prev L c)
  case Nil
  then show ?case by (simp add: live_holders_def unexpired_def)
next
  case (Cons i ids)
  have w: "well_grouped L" using Cons.prems by (simp add: session_rel_def)
  have e: "map_of (ca_entries c) i = holder i L" by (rule rel_entry [OF Cons.prems])
  show ?case
  proof (cases "holder i L")
    case None
    then show ?thesis using Cons.IH [OF Cons.prems, of as prev] by (simp add: e unexpired_Cons [OF w] live_holders_def)
  next
    case (Some g)
    then have g: "g \<in> set L" using holder_Some by auto
    show ?thesis
    proof (cases "now < sn_expiresAt g")
      case True
      then show ?thesis
        using Some Cons.IH [OF Cons.prems, of "mergeSessionAliases as (sn_aliases g)" "prev @ [g]"]
        by (simp add: e unexpired_Cons [OF w] live_holders_def)
    next
      case False
      have r: "session_rel (removeAll g L) (removeAliasGroupLocked g c)" "same_settings c (removeAliasGroupLocked g c)"
        using remove_rel [OF Cons.prems g] .
      have l: "live_holders now (i # ids) L = live_holders now ids (removeAll g L)"
        using Some False by (simp add: live_holders_remove [OF w g False]) (simp add: live_holders_def)
      show ?thesis
        using Some False Cons.IH [OF r(1), of as prev] same_settings_trans [OF r(2)]
        by (auto simp: e unexpired_Cons [OF w] l)
    qed
  qed
qed

lemma fold_merge_set:
  "set (fold (\<lambda>g as. mergeSessionAliases as (sn_aliases g)) gs as) \<subseteq> set as \<union> (\<Union>g\<in>set gs. set (sn_aliases g)) \<and>
   (distinct as \<longrightarrow> distinct (fold (\<lambda>g as. mergeSessionAliases as (sn_aliases g)) gs as))"
proof (induction gs arbitrary: as)
  case (Cons g gs)
  have m: "set (mergeSessionAliases as (sn_aliases g)) \<subseteq> set as \<union> set (sn_aliases g)" "distinct (mergeSessionAliases as (sn_aliases g))"
    by (auto simp: merge_props)
  show ?case using Cons.IH [of "mergeSessionAliases as (sn_aliases g)"] m by auto
qed simp

lemma set_live_holders:
  assumes "well_grouped L"
  shows "set (live_holders now ids L) = {g \<in> set L. now < sn_expiresAt g \<and> (\<exists>i\<in>set ids. i \<in> set (sn_aliases g))}"
proof -
  have "set (case holder i L of None \<Rightarrow> [] | Some g \<Rightarrow> if now < sn_expiresAt g then [g] else []) =
      {g \<in> set L. now < sn_expiresAt g \<and> i \<in> set (sn_aliases g)}" for i
  proof (cases "holder i L")
    case None
    then have "\<forall>g\<in>set L. i \<notin> set (sn_aliases g)" by (simp add: holder_None)
    with None show ?thesis by auto
  next
    case (Some g)
    then have g: "g \<in> set L" "i \<in> set (sn_aliases g)" using holder_Some by auto
    have "(h \<in> set L \<and> now < sn_expiresAt h \<and> i \<in> set (sn_aliases h)) \<longleftrightarrow> (h = g \<and> now < sn_expiresAt g)" for h
      using same_holder [OF assms _ g(1) _ g(2), of h] g by blast
    with Some show ?thesis by simp
  qed
  then show ?thesis by (auto simp: live_holders_def)
qed

lemma bind_rel:
  assumes st: "session_state (L, s) c"
  shows "\<exists>c'. setSessionAliases authID provider sessionID keys now c = Some c' \<and> ca_maxEntries c' = ca_maxEntries c \<and> ca_ttl c' = ca_ttl c \<and>
     session_state (bind_spec (ca_ttl c) (ca_maxEntries c) authID provider sessionID keys now (L, s)) c'"
proof (cases "authID = []")
  case True
  with st show ?thesis by (simp add: setSessionAliases_def setAliases_def bind_spec_def)
next
  case False
  have r: "session_rel L c" and s: "ca_bindingSequence c = s" and m: "ca_maxEntries c > 0" using st by (auto simp: session_state_def)
  have w: "well_grouped L" using r by (simp add: session_rel_def)
  let ?prev = "live_holders now keys L" and ?U = "unexpired now keys L"
  let ?as = "compactSessionAliases (fold (\<lambda>g as. mergeSessionAliases as (sn_aliases g)) ?prev (mergeSessionAliases [] keys))"
  obtain d where d: "collect_groups now keys (mergeSessionAliases [] keys) [] c =
      (fold (\<lambda>g as. mergeSessionAliases as (sn_aliases g)) ?prev (mergeSessionAliases [] keys), ?prev, d)"
      "session_rel ?U d" "same_settings c d"
    using collect_rel [OF r, of now keys "mergeSessionAliases [] keys" "[]"] by auto
  have ds: "ca_bindingSequence d = s" "ca_maxEntries d = ca_maxEntries c" "ca_ttl d = ca_ttl c"
    using d(3) s by (auto simp: same_settings_def)
  have U: "g \<in> set ?U \<longleftrightarrow> g \<in> set L \<and> ((\<exists>i\<in>set keys. i \<in> set (sn_aliases g)) \<longrightarrow> now < sn_expiresAt g)" for g
    by (simp add: unexpired_def)
  have P: "set ?prev = {g \<in> set L. now < sn_expiresAt g \<and> (\<exists>i\<in>set keys. i \<in> set (sn_aliases g))}" by (rule set_live_holders [OF w])
  have sub: "set ?prev \<subseteq> set ?U" by (auto simp: P U)
  have fm: "set (fold (\<lambda>g as. mergeSessionAliases as (sn_aliases g)) ?prev (mergeSessionAliases [] keys)) \<subseteq>
      set keys \<union> (\<Union>g\<in>set ?prev. set (sn_aliases g))"
    "distinct (fold (\<lambda>g as. mergeSessionAliases as (sn_aliases g)) ?prev (mergeSessionAliases [] keys))"
    using fold_merge_set [of ?prev "mergeSessionAliases [] keys"] merge_props [of "[]" keys] by auto
  have free: "\<forall>a\<in>set ?as. holder a (filter (\<lambda>h. h \<notin> set ?prev) ?U) = None"
  proof
    fix a assume "a \<in> set ?as"
    then have "a \<in> set keys \<union> (\<Union>g\<in>set ?prev. set (sn_aliases g))" using compact_props(1) fm(1) by blast
    then show "holder a (filter (\<lambda>h. h \<notin> set ?prev) ?U) = None"
    proof
      assume "a \<in> set keys"
      then show ?thesis by (auto simp: holder_None U P)
    next
      assume "a \<in> (\<Union>g\<in>set ?prev. set (sn_aliases g))"
      then obtain g where g: "g \<in> set ?prev" "a \<in> set (sn_aliases g)" by blast
      then have "g \<in> set L" by (simp add: P)
      then have "h = g" if "h \<in> set L" "a \<in> set (sn_aliases h)" for h using same_holder [OF w] that g(2) by blast
      with g show ?thesis by (auto simp: holder_None U)
    qed
  qed
  have dist: "distinct ?as" using fm(2) by (rule compact_props(2))
  show ?thesis
  proof (cases "?as = []")
    case True
    then show ?thesis using False d ds m by (simp add: setSessionAliases_def setAliases_def bind_spec_def Let_def session_state_def)
  next
    case ne: False
    show ?thesis
    proof (cases "sessionID \<noteq> [] \<and> provider \<noteq> []")
      case True
      let ?d = "d\<lparr>ca_bindingSequence := Suc s\<rparr>" and ?b = "\<lparr>bd_sessionID = sessionID, bd_provider = provider, bd_sequence = Suc s\<rparr>"
      have "session_rel ?U ?d" using d(2) by (simp add: session_rel_def tables_ok_def order_ok_def sessions_ok_def)
      from replace_rel [OF this sub dist free, of authID "now + ca_ttl c" ?b] ne m ds
      obtain c' where "replaceAliasGroupsLocked authID (now + ca_ttl c) ?as ?b ?prev ?d = Some c'" "same_settings ?d c'"
        "session_rel (trim (ca_maxEntries c) (filter (\<lambda>h. h \<notin> set ?prev) ?U @
           [\<lparr>sn_authID = authID, sn_expiresAt = now + ca_ttl c, sn_aliases = ?as, sn_binding = ?b\<rparr>])) c'" by auto
      then show ?thesis using True False ne d ds m
        by (simp add: setSessionAliases_def setAliases_def bind_spec_def Let_def session_state_def same_settings_def)
    next
      case nosel: False
      let ?b = "newest_binding ?prev \<lparr>bd_sessionID = sessionID, bd_provider = provider, bd_sequence = 0\<rparr>"
      from replace_rel [OF d(2) sub dist free, of authID "now + ca_ttl c" ?b] ne m ds
      obtain c' where "replaceAliasGroupsLocked authID (now + ca_ttl c) ?as ?b ?prev d = Some c'" "same_settings d c'"
        "session_rel (trim (ca_maxEntries c) (filter (\<lambda>h. h \<notin> set ?prev) ?U @
           [\<lparr>sn_authID = authID, sn_expiresAt = now + ca_ttl c, sn_aliases = ?as, sn_binding = ?b\<rparr>])) c'" by auto
      moreover have "sessionID = [] \<or> provider = []" using nosel by auto
      ultimately show ?thesis using False ne d ds m
        by (elim disjE) (simp_all add: setSessionAliases_def setAliases_def bind_spec_def Let_def session_state_def same_settings_def)
    qed
  qed
qed

lemma remove_groups_where:
  assumes "session_rel L c"
  shows "session_rel (filter (\<lambda>g. \<not> P g) L) (fold removeAliasGroupLocked (filter P (map snd (ca_groups c))) c) \<and>
     same_settings c (fold removeAliasGroupLocked (filter P (map snd (ca_groups c))) c)"
proof -
  have w: "well_grouped L" and k: "keys_distinct (ca_groups c)" using assms by (auto simp: session_rel_def tables_ok_def)
  have "g \<in> set (map snd (ca_groups c)) \<longleftrightarrow> (\<exists>k. map_of (ca_groups c) k = Some g)" for g
    using map_of_eq_Some_iff [OF k] by force
  then have s: "set (map snd (ca_groups c)) = set L" using find_primary [OF w] by (auto simp: rel_group [OF assms] simp del: set_map)
  then have f: "filter (\<lambda>h. h \<notin> set (filter P (map snd (ca_groups c)))) L = filter (\<lambda>g. \<not> P g) L"
    by (intro filter_cong) (auto simp del: set_map)
  have "\<forall>g\<in>set (filter P (map snd (ca_groups c))). g \<in> set L \<or> foreign g L" using s by (auto simp del: set_map)
  from remove_groups_rel [OF assms this] show ?thesis unfolding f .
qed

text \<open>Every operation returns, answers as specified, and leaves the specified groups.\<close>

lemma session_simulates:
  assumes st: "session_state (L, s) c"
  shows "\<exists>r L' s' c'. session_run op now c = Some (r, c') \<and> session_spec (ca_ttl c) (ca_maxEntries c) op now (L, s) = (r, L', s') \<and>
     session_state (L', s') c' \<and> ca_maxEntries c' = ca_maxEntries c \<and> ca_ttl c' = ca_ttl c"
proof -
  have r: "session_rel L c" and q: "ca_bindingSequence c = s" and m: "ca_maxEntries c > 0" using st by (auto simp: session_state_def)
  have e: "map_of (ca_entries c) i = holder i L" for i by (rule rel_entry [OF r])
  have keep: "session_state (L', s) c' \<and> ca_maxEntries c' = ca_maxEntries c \<and> ca_ttl c' = ca_ttl c"
    if "session_rel L' c'" "same_settings c c'" for L' c' using that q m by (auto simp: session_state_def same_settings_def)
  show ?thesis
  proof (cases op)
    case (ReadSession i)
    then show ?thesis using st by (auto simp: Get_read_def e split: option.split)
  next
    case (ExpireSession i)
    show ?thesis
    proof (cases "holder i L")
      case None
      with ExpireSession st show ?thesis by (simp add: Get_expired_def e)
    next
      case (Some g)
      with ExpireSession st keep [OF remove_rel [OF r]] holder_Some [OF Some] show ?thesis by (simp add: Get_expired_def e)
    qed
  next
    case (RefreshSession i)
    show ?thesis
    proof (cases "i = [] \<or> holder i L = None")
      case True
      with RefreshSession st show ?thesis by (auto simp: GetAndRefresh_def e)
    next
      case False
      then obtain g where g: "holder i L = Some g" "i \<noteq> []" by auto
      with RefreshSession keep [OF remove_rel [OF r]] holder_Some [OF g(1)] renew_rel [OF r m g(1) refl g(2), of "now + ca_ttl c"] keep
      show ?thesis by (cases "now < sn_expiresAt g") (auto simp: GetAndRefresh_def e)
    qed
  next
    case (BindSession authID provider sessionID keys)
    then show ?thesis using bind_rel [OF st, of authID provider sessionID keys now]
      by (cases "bind_spec (ca_ttl c) (ca_maxEntries c) authID provider sessionID keys now (L, s)") auto
  next
    case (TouchSession i authID)
    show ?thesis
    proof (cases "i = [] \<or> authID = [] \<or> holder i L = None")
      case True
      then have "Touch i authID now c = Some (False, c)"
        "session_spec (ca_ttl c) (ca_maxEntries c) op now (L, s) = (Flag False, L, s)" using TouchSession by (auto simp: Touch_def e)
      with TouchSession st show ?thesis by simp
    next
      case False
      then obtain g where g: "holder i L = Some g" "i \<noteq> []" "authID \<noteq> []" by auto
      with TouchSession st renew_rel [OF r m g(1) _ g(2), of authID "now + ca_ttl c"] keep
      show ?thesis by (cases "sn_authID g = authID \<and> now < sn_expiresAt g") (auto simp: Touch_def e)
    qed
  next
    case (DeleteSession i authID)
    show ?thesis
    proof (cases "i = [] \<or> authID = [] \<or> holder i L = None")
      case True
      then have "CompareAndDelete i authID c = Some (False, c)"
        "session_spec (ca_ttl c) (ca_maxEntries c) op now (L, s) = (Flag False, L, s)" using DeleteSession by (auto simp: CompareAndDelete_def e)
      with DeleteSession st show ?thesis by simp
    next
      case False
      then obtain g where g: "holder i L = Some g" "i \<noteq> []" "authID \<noteq> []" by auto
      with DeleteSession st without_rel [OF r m g(1)] keep
      show ?thesis by (cases "sn_authID g = authID") (auto simp: CompareAndDelete_def e)
    qed
  next
    case (InvalidateSession i)
    show ?thesis
    proof (cases "i = [] \<or> holder i L = None")
      case True
      with InvalidateSession st show ?thesis by (auto simp: Invalidate_def e)
    next
      case False
      then obtain g where g: "holder i L = Some g" "i \<noteq> []" by auto
      with InvalidateSession without_rel [OF r m g(1)] keep show ?thesis by (auto simp: Invalidate_def e)
    qed
  next
    case (InvalidateCredential authID)
    then show ?thesis using st remove_groups_where [OF r, of "\<lambda>g. sn_authID g = authID"] keep
      by (cases "authID = []") (auto simp: InvalidateAuth_def)
  next
    case Cleanup
    then show ?thesis using remove_groups_where [OF r, of "\<lambda>g. \<not> now < sn_expiresAt g"] keep by (auto simp: cache_cleanup_def)
  qed
qed

section \<open>Bounds and the numbers of the selections\<close>

definition sequence :: "sessionEntry \<Rightarrow> nat" where
  "sequence g = bd_sequence (sn_binding g)"

definition spec_ok :: "int \<Rightarrow> sessionEntry list \<times> nat \<Rightarrow> bool" where
  "spec_ok n = (\<lambda>(L, s). int (alias_total L) \<le> n \<and> (\<forall>g\<in>set L. sequence g \<le> s \<and> length (sn_aliases g) \<le> 65) \<and>
     (\<forall>g\<in>set L. \<forall>h\<in>set L. sequence g = sequence h \<and> sequence g \<noteq> 0 \<longrightarrow> g = h))"

lemma alias_total_simps [simp]: "alias_total [] = 0" "alias_total (g # L) = length (sn_aliases g) + alias_total L"
  "alias_total (L @ M) = alias_total L + alias_total M"
  by (simp_all add: alias_total_def)

lemma alias_total_filter: "alias_total (filter P L) \<le> alias_total L"
  by (induction L) auto

lemma alias_total_removeAll: "alias_total (removeAll g L) \<le> alias_total L"
  by (simp add: removeAll_filter_not_eq alias_total_filter)

lemma trim_total: "0 \<le> n \<Longrightarrow> int (alias_total (trim n L)) \<le> n"
  by (induction L) auto

lemma trim_suffix: "\<exists>M. L = M @ trim n L"
  by (induction L) (auto, metis append_Cons)

lemma set_trim: "set (trim n L) \<subseteq> set L"
  using trim_suffix [of L n] by (metis Un_upper2 set_append)

lemma trim_keeps_last: "int (length (sn_aliases e)) \<le> n \<Longrightarrow> \<exists>M. trim n (L @ [e]) = M @ [e]"
  by (induction L) auto

lemma spec_okD:
  assumes "spec_ok n (L, s)"
  shows "int (alias_total L) \<le> n" "g \<in> set L \<Longrightarrow> sequence g \<le> s" "g \<in> set L \<Longrightarrow> length (sn_aliases g) \<le> 65"
    "g \<in> set L \<Longrightarrow> h \<in> set L \<Longrightarrow> sequence g = sequence h \<Longrightarrow> sequence g \<noteq> 0 \<Longrightarrow> g = h"
  using assms by (simp_all add: spec_ok_def)

lemma spec_ok_sub: "spec_ok n (L, s) \<Longrightarrow> set M \<subseteq> set L \<Longrightarrow> int (alias_total M) \<le> n \<Longrightarrow> spec_ok n (M, s)"
  by (auto simp: spec_ok_def)

lemma spec_ok_filter:
  assumes "spec_ok n (L, s)"
  shows "spec_ok n (filter P L, s)"
  using alias_total_filter [of P L] spec_okD(1) [OF assms] by (intro spec_ok_sub [OF assms]) auto

lemma spec_ok_removeAll: "spec_ok n (L, s) \<Longrightarrow> spec_ok n (removeAll g L, s)"
  by (simp add: removeAll_filter_not_eq spec_ok_filter)

lemma spec_ok_put:
  assumes L: "spec_ok n (L, s)" and M: "set M \<subseteq> set L" and e: "sequence e \<le> s'" "s \<le> s'" "length (sn_aliases e) \<le> 65"
    and f: "sequence e \<noteq> 0 \<longrightarrow> (\<forall>h\<in>set M. sequence h \<noteq> sequence e)" and n: "0 \<le> n"
  shows "spec_ok n (trim n (M @ [e]), s')"
proof -
  have "sequence g \<le> s \<and> length (sn_aliases g) \<le> 65" if "g \<in> set M" for g
    using that L M by (auto simp: spec_ok_def)
  then have "sequence g \<le> s' \<and> length (sn_aliases g) \<le> 65" if "g \<in> set M" for g
    using that e(2) le_trans by blast
  then have "sequence g \<le> s' \<and> length (sn_aliases g) \<le> 65" if "g \<in> set (M @ [e])" for g
    using that e(1,3) by auto
  moreover have "g = h" if "g \<in> set (M @ [e])" "h \<in> set (M @ [e])" "sequence g = sequence h" "sequence g \<noteq> 0" for g h
    using that L M f by (auto simp: spec_ok_def) (metis subsetD)+
  ultimately show ?thesis using trim_total [OF n, of "M @ [e]"] set_trim [of n "M @ [e]"] unfolding spec_ok_def by blast
qed

lemma newest_member: "newest_binding gs b = b \<or> (\<exists>g\<in>set gs. newest_binding gs b = sn_binding g)"
  by (induction gs arbitrary: b) (auto simp: newest_binding_def)

lemma removed_sequence:
  assumes "spec_ok n (L, s)" "g \<in> set L" "sequence g \<noteq> 0" "h \<in> set L" "h \<noteq> g"
  shows "sequence h \<noteq> sequence g"
  using assms by (auto simp: spec_ok_def)

lemma spec_ok_bind:
  assumes L: "spec_ok n (L, s)" and w: "well_grouped L" and n: "0 \<le> n"
  shows "spec_ok n (bind_spec ttl n authID provider sessionID keys now (L, s))"
proof -
  let ?U = "unexpired now keys L" and ?prev = "live_holders now keys L" and ?b = "\<lparr>bd_sessionID = sessionID, bd_provider = provider, bd_sequence = 0\<rparr>"
  let ?as = "compactSessionAliases (fold (\<lambda>g as. mergeSessionAliases as (sn_aliases g)) ?prev (mergeSessionAliases [] keys))"
  let ?M = "filter (\<lambda>h. h \<notin> set ?prev) ?U"
  have U: "spec_ok n (?U, s)" unfolding unexpired_def by (rule spec_ok_filter [OF L])
  have M: "set ?M \<subseteq> set L" by (auto simp: unexpired_def)
  have prev: "set ?prev \<subseteq> set L" by (auto simp: set_live_holders [OF w])
  have new: "spec_ok n (trim n (?M @ [\<lparr>sn_authID = authID, sn_expiresAt = now + ttl, sn_aliases = ?as, sn_binding = ?b\<lparr>bd_sequence := Suc s\<rparr>\<rparr>]), Suc s)"
  proof (rule spec_ok_put [OF L M _ _ _ _ n])
    have "\<forall>h\<in>set ?M. sequence h \<noteq> Suc s" using M L by (fastforce simp: spec_ok_def)
    then show "sequence \<lparr>sn_authID = authID, sn_expiresAt = now + ttl, sn_aliases = ?as, sn_binding = ?b\<lparr>bd_sequence := Suc s\<rparr>\<rparr> \<noteq> 0 \<longrightarrow>
      (\<forall>h\<in>set ?M. sequence h \<noteq> sequence \<lparr>sn_authID = authID, sn_expiresAt = now + ttl, sn_aliases = ?as, sn_binding = ?b\<lparr>bd_sequence := Suc s\<rparr>\<rparr>)"
      by (auto simp: sequence_def)
  qed (simp_all add: compact_length sequence_def)
  have old: "spec_ok n (trim n (?M @ [\<lparr>sn_authID = authID, sn_expiresAt = now + ttl, sn_aliases = ?as, sn_binding = newest_binding ?prev ?b\<rparr>]), s)"
  proof (rule spec_ok_put [OF L M _ _ _ _ n])
    let ?e = "\<lparr>sn_authID = authID, sn_expiresAt = now + ttl, sn_aliases = ?as, sn_binding = newest_binding ?prev ?b\<rparr>"
    have e: "sequence ?e = 0 \<or> (\<exists>g\<in>set ?prev. sequence ?e = sequence g)"
      using newest_member [of ?prev ?b] by (auto simp: sequence_def)
    then show "sequence ?e \<le> s"
    proof
      assume "\<exists>g\<in>set ?prev. sequence ?e = sequence g"
      then obtain g where "g \<in> set ?prev" "sequence ?e = sequence g" ..
      then show ?thesis using prev spec_okD(2) [OF L, of g] by auto
    qed simp
    show "sequence ?e \<noteq> 0 \<longrightarrow> (\<forall>h\<in>set ?M. sequence h \<noteq> sequence ?e)"
    proof (intro impI ballI)
      fix h assume z: "sequence ?e \<noteq> 0" and h: "h \<in> set ?M"
      then obtain g where "g \<in> set ?prev" "sequence ?e = sequence g" using e by auto
      with z h prev M show "sequence h \<noteq> sequence ?e" using removed_sequence [OF L, of g h] by auto
    qed
  qed (simp_all add: compact_length)
  show ?thesis
  proof (cases "sessionID \<noteq> [] \<and> provider \<noteq> []")
    case True
    then show ?thesis using L U new by (simp add: bind_spec_def Let_def)
  next
    case False
    then have "sessionID = [] \<or> provider = []" by auto
    then show ?thesis using L U old by (elim disjE) (simp_all add: bind_spec_def Let_def)
  qed
qed

lemma spec_ok_renew:
  assumes L: "spec_ok n (L, s)" and g: "g \<in> set L" and n: "0 \<le> n"
  shows "spec_ok n (renew i t n g L, s)"
proof -
  have M: "set (removeAll g L) \<subseteq> set L" by auto
  have e: "sequence (renewed i t g) = sequence g" "length (sn_aliases (renewed i t g)) \<le> 65"
    by (simp_all add: sequence_def renewed_def compact_length)
  show ?thesis unfolding renew_def
    using e removed_sequence [OF L g] spec_okD(2) [OF L g] by (intro spec_ok_put [OF L M _ _ _ _ n]) simp_all
qed

lemma spec_ok_without:
  assumes L: "spec_ok n (L, s)" and g: "g \<in> set L" and n: "0 \<le> n"
  shows "spec_ok n (without_alias i n g L, s)"
proof -
  let ?e = "g\<lparr>sn_aliases := filter (\<lambda>a. a \<noteq> i) (sn_aliases g)\<rparr>"
  have M: "set (removeAll g L) \<subseteq> set L" by auto
  have "length (filter (\<lambda>a. a \<noteq> i) (sn_aliases g)) \<le> length (sn_aliases g)" by (rule length_filter_le)
  then have l: "length (filter (\<lambda>a. a \<noteq> i) (sn_aliases g)) \<le> 65" using spec_okD(3) [OF L g] by (rule le_trans)
  have e: "sequence ?e = sequence g" "length (sn_aliases ?e) \<le> 65" using l by (simp_all add: sequence_def)
  have "int (alias_total (removeAll g L)) \<le> n" using spec_okD(1) [OF L] alias_total_removeAll [of g L] by linarith
  moreover have "spec_ok n (trim n (removeAll g L @ [?e]), s)"
    using e removed_sequence [OF L g] spec_okD(2) [OF L g] by (intro spec_ok_put [OF L M _ _ _ _ n]) simp_all
  ultimately show ?thesis using spec_ok_sub [OF L M] by (simp add: without_alias_def Let_def)
qed

lemma spec_ok_step:
  assumes "spec_ok n (L, s)" "well_grouped L" "0 \<le> n" "session_spec ttl n op now (L, s) = (r, L', s')"
  shows "spec_ok n (L', s')"
proof (cases op)
  case (BindSession authID provider sessionID keys)
  then show ?thesis using assms(4) spec_ok_bind [OF assms(1-3), of ttl authID provider sessionID keys now] by simp
qed (use assms(1,4) spec_ok_removeAll [OF assms(1)] spec_ok_filter [OF assms(1)] spec_ok_renew [OF assms(1) _ assms(3)]
    spec_ok_without [OF assms(1) _ assms(3)] in \<open>auto split: option.splits if_splits dest!: holder_Some\<close>)

section \<open>Every history of the cache\<close>

inductive session_step :: "SessionCache \<Rightarrow> SessionCache \<Rightarrow> bool" where
  session_op: "session_run op now c = Some (r, c') \<Longrightarrow> session_step c c'"

definition session_start :: "SessionCache \<Rightarrow> bool" where
  "session_start c \<longleftrightarrow> (\<exists>ttl n. c = NewSessionCacheWithCapacity ttl n)"

definition session_groups :: "SessionCache \<Rightarrow> sessionEntry list" where
  "session_groups c = map (\<lambda>(i, k). the (map_of (ca_groups c) k)) (ca_evictionOrder c)"

definition session_inv :: "SessionCache \<Rightarrow> bool" where
  "session_inv c \<longleftrightarrow> session_state (session_groups c, ca_bindingSequence c) c \<and>
     spec_ok (ca_maxEntries c) (session_groups c, ca_bindingSequence c)"

lemma groups_of_rel:
  assumes "session_rel L c"
  shows "session_groups c = L"
proof -
  have w: "well_grouped L" and o': "map snd (ca_evictionOrder c) = map primary L"
    using assms by (auto simp: session_rel_def order_ok_def)
  have "session_groups c = map (\<lambda>k. the (map_of (ca_groups c) k)) (map snd (ca_evictionOrder c))"
    by (simp add: session_groups_def comp_def case_prod_unfold)
  also have "\<dots> = map (\<lambda>g. the (find (\<lambda>h. primary h = primary g) L)) L" by (simp add: o' rel_group [OF assms])
  also have "\<dots> = L" by (intro map_idI) (simp add: find_primary [OF w, THEN iffD2])
  finally show ?thesis .
qed

lemma session_state_groups: "session_state (L, s) c \<Longrightarrow> session_groups c = L \<and> ca_bindingSequence c = s"
  using groups_of_rel by (auto simp: session_state_def)

lemma session_run_spec:
  assumes "session_inv c"
  shows "\<exists>r c'. session_run op now c = Some (r, c') \<and> session_inv c' \<and>
     session_spec (ca_ttl c) (ca_maxEntries c) op now (session_groups c, ca_bindingSequence c) =
       (r, session_groups c', ca_bindingSequence c')"
proof -
  have st: "session_state (session_groups c, ca_bindingSequence c) c" and ok: "spec_ok (ca_maxEntries c) (session_groups c, ca_bindingSequence c)"
    using assms by (auto simp: session_inv_def)
  from session_simulates [OF st, of op now] obtain r L' s' c' where
    c': "session_run op now c = Some (r, c')" "session_spec (ca_ttl c) (ca_maxEntries c) op now (session_groups c, ca_bindingSequence c) = (r, L', s')"
      "session_state (L', s') c'" "ca_maxEntries c' = ca_maxEntries c" by blast
  have "well_grouped (session_groups c)" "0 \<le> ca_maxEntries c" using st by (auto simp: session_state_def session_rel_def)
  with spec_ok_step [OF ok _ _ c'(2)] have "spec_ok (ca_maxEntries c) (L', s')" by blast
  with c' session_state_groups [OF c'(3)] show ?thesis by (auto simp: session_inv_def)
qed

interpretation sessions: inductive_invariant session_start session_step session_inv
proof
  fix c assume "session_start c"
  then obtain ttl n where c: "c = NewSessionCacheWithCapacity ttl n" by (auto simp: session_start_def)
  have "session_rel [] c"
    by (simp add: c NewSessionCacheWithCapacity_def session_rel_def well_grouped_def tables_ok_def order_ok_def sessions_ok_def
        holder_def session_keys_def)
  moreover have "ca_maxEntries c > 0" by (simp add: c NewSessionCacheWithCapacity_def defaultMaxSessionEntries_def)
  ultimately show "session_inv c" using groups_of_rel [of "[]" c] by (simp add: session_inv_def session_state_def spec_ok_def)
next
  fix c c' assume "session_inv c" "session_step c c'"
  then show "session_inv c'" using session_run_spec [of c] by (auto elim!: session_step.cases) (metis option.inject prod.inject)
qed

section \<open>Properties\<close>

definition cache_consistent :: "SessionCache \<Rightarrow> bool" where
  "cache_consistent c \<longleftrightarrow>
     int (cache_Len c) \<le> ca_maxEntries c \<and>
     (\<forall>a e. map_of (ca_entries c) a = Some e \<longleftrightarrow> (\<exists>k. map_of (ca_groups c) k = Some e) \<and> a \<in> set (sn_aliases e)) \<and>
     (\<forall>k g. map_of (ca_groups c) k = Some g \<longrightarrow>
        sn_aliases g \<noteq> [] \<and> hd (sn_aliases g) = k \<and> distinct (sn_aliases g) \<and> length (sn_aliases g) \<le> 65) \<and>
     distinct (map snd (ca_evictionOrder c)) \<and> set (map snd (ca_evictionOrder c)) = {k. map_of (ca_groups c) k \<noteq> None} \<and>
     (\<forall>s k. (\<exists>ks. map_of (ca_sessionGroups c) s = Some ks \<and> k \<in> set ks) \<longleftrightarrow>
        (\<exists>g. map_of (ca_groups c) k = Some g \<and> bd_sequence (sn_binding g) \<noteq> 0 \<and> bd_sessionID (sn_binding g) = s))"

lemma inv_consistent:
  assumes "session_inv c"
  shows "cache_consistent c"
proof -
  let ?L = "session_groups c"
  have r: "session_rel ?L c" and ok: "spec_ok (ca_maxEntries c) (?L, ca_bindingSequence c)"
    using assms by (auto simp: session_inv_def session_state_def)
  then have w: "well_grouped ?L" and o': "map snd (ca_evictionOrder c) = map primary ?L" and s: "sessions_ok ?L c"
    by (auto simp: session_rel_def order_ok_def)
  have G: "map_of (ca_groups c) k = Some g \<longleftrightarrow> g \<in> set ?L \<and> primary g = k" for k g
    using find_primary [OF w] by (simp add: rel_group [OF r])
  have "int (cache_Len c) \<le> ca_maxEntries c" using spec_okD(1) [OF ok] by (simp add: cache_Len_def rel_length [OF r])
  moreover have "map_of (ca_entries c) a = Some e \<longleftrightarrow> (\<exists>k. map_of (ca_groups c) k = Some e) \<and> a \<in> set (sn_aliases e)" for a e
    using holder_iff [OF w] by (simp add: G rel_entry [OF r])
  moreover have "sn_aliases g \<noteq> [] \<and> hd (sn_aliases g) = k \<and> distinct (sn_aliases g) \<and> length (sn_aliases g) \<le> 65"
    if "map_of (ca_groups c) k = Some g" for k g
    using that grouped_aliases [OF w, of g] spec_okD(3) [OF ok, of g] by (simp add: G)
  moreover have "distinct (map snd (ca_evictionOrder c))" using grouped_distinct [OF w] by (simp only: o')
  moreover have "set (map snd (ca_evictionOrder c)) = {k. map_of (ca_groups c) k \<noteq> None}"
    unfolding o' by (auto simp: rel_group [OF r] find_primary_None)
  moreover have "(\<exists>ks. map_of (ca_sessionGroups c) t = Some ks \<and> k \<in> set ks) \<longleftrightarrow>
      (\<exists>g. map_of (ca_groups c) k = Some g \<and> bd_sequence (sn_binding g) \<noteq> 0 \<and> bd_sessionID (sn_binding g) = t)" for t k
  proof -
    have "(\<exists>ks. map_of (ca_sessionGroups c) t = Some ks \<and> k \<in> set ks) \<longleftrightarrow> k \<in> session_keys t ?L"
      using s [unfolded sessions_ok_def, rule_format, of t] by (cases "map_of (ca_sessionGroups c) t") auto
    then show ?thesis by (auto simp: session_keys_def G)
  qed
  ultimately show ?thesis unfolding cache_consistent_def by blast
qed

text \<open>C38: The tables of the session cache always agree. After any history of operations, the number of
  aliases is within the bound, an alias leads to a credential exactly when it belongs to one of the groups, every
  group is filed under its first alias, has no alias twice and at most 65 of them, the eviction
  list holds every group once and nothing else, and the index by session holds exactly the groups
  that a selection of the session has left.\<close>

theorem session_cache_consistent:
  assumes "reachable session_start session_step c"
  shows "cache_consistent c"
  using inv_consistent [OF sessions.reachable_inv [OF assms]] .

definition sample_cache :: SessionCache where
  "sample_cache = the (setSessionAliases ''cred'' ''codex'' ''s1'' [''codex::a'', ''codex::b''] 10 (NewSessionCacheWithCapacity 100 70))"

lemma sample_cache_run:
  "setSessionAliases ''cred'' ''codex'' ''s1'' [''codex::a'', ''codex::b''] 10 (NewSessionCacheWithCapacity 100 70) = Some sample_cache"
proof -
  let ?c = "NewSessionCacheWithCapacity 100 70"
  have "session_inv ?c" by (rule sessions.init_inv) (auto simp: session_start_def)
  from session_run_spec [OF this, of "BindSession ''cred'' ''codex'' ''s1'' [''codex::a'', ''codex::b'']" 10]
  show ?thesis by (auto simp: sample_cache_def)
qed

lemma sample_cache_reachable: "reachable session_start session_step sample_cache"
proof -
  have "reachable session_start session_step (NewSessionCacheWithCapacity 100 70)"
    by (rule reach_init) (auto simp: session_start_def)
  then show ?thesis by (rule reach_step) (rule session_op [of "BindSession ''cred'' ''codex'' ''s1'' [''codex::a'', ''codex::b'']" 10 _ Done], simp add: sample_cache_run)
qed

lemma session_cache_consistent_witness: "cache_consistent sample_cache"
  using session_cache_consistent [OF sample_cache_reachable] .

text \<open>C39: The session cache implements a plain list of groups in the order of their last use. In every
  state it reaches, every operation returns (the eviction loop ends), answers what the specification
  answers, and leaves exactly the groups, in exactly the order, and the selection number that the
  specification leaves: refreshing and binding move a group to the end, merge the groups that share
  an identifier, and drop as many of the oldest groups as the bound requires.\<close>

theorem session_cache_refines:
  assumes "reachable session_start session_step c"
  shows "\<exists>r c'. session_run op now c = Some (r, c') \<and>
     session_spec (ca_ttl c) (ca_maxEntries c) op now (session_groups c, ca_bindingSequence c) =
       (r, session_groups c', ca_bindingSequence c')"
  using session_run_spec [OF sessions.reachable_inv [OF assms]] by blast

lemma session_cache_refines_witness:
  "\<exists>r c'. session_run (TouchSession ''codex::b'' ''cred'') 50 sample_cache = Some (r, c') \<and>
     session_spec (ca_ttl sample_cache) (ca_maxEntries sample_cache) (TouchSession ''codex::b'' ''cred'') 50
       (session_groups sample_cache, ca_bindingSequence sample_cache) = (r, session_groups c', ca_bindingSequence c')"
  using session_cache_refines [OF sample_cache_reachable] .

lemma trim_drop: "\<exists>n. trim m L = drop n L \<and> (\<forall>i<n. int (alias_total (drop i L)) > m)"
proof (induction L)
  case (Cons g L)
  show ?case
  proof (cases "int (alias_total (g # L)) > m")
    case True
    obtain n where n: "trim m L = drop n L" "\<forall>i<n. int (alias_total (drop i L)) > m" using Cons by blast
    have "\<forall>i<Suc n. int (alias_total (drop i (g # L))) > m" using True n(2) by (auto simp: less_Suc_eq_0_disj)
    with True n(1) show ?thesis by (intro exI [of _ "Suc n"]) simp
  next
    case False
    then show ?thesis by (intro exI [of _ 0]) simp
  qed
qed (intro exI [of _ 0], simp)

text \<open>C40: The eviction loop ends and takes no more than it must. Whatever group with fresh aliases is added
  to a reachable cache, \<open>evictExcessLocked\<close> returns, the number of aliases is then within the bound,
  and the groups that are left are the most recently used ones: with one group fewer evicted the bound would
  be exceeded.\<close>

theorem session_eviction_ends:
  assumes "reachable session_start session_step c"
    and "sn_aliases e \<noteq> []" and "distinct (sn_aliases e)" and "\<forall>a\<in>set (sn_aliases e). map_of (ca_entries c) a = None"
  shows "\<exists>c' n. evictExcessLocked (add_group e c) = Some c' \<and> int (cache_Len c') \<le> ca_maxEntries c \<and>
     session_groups c' = drop n (session_groups c @ [e]) \<and>
     (\<forall>i<n. int (alias_total (drop i (session_groups c @ [e]))) > ca_maxEntries c)"
proof -
  have r: "session_rel (session_groups c) c" and m: "ca_maxEntries c > 0"
    using sessions.reachable_inv [OF assms(1)] by (auto simp: session_inv_def session_state_def)
  have "foreign e (session_groups c)" using assms(2,4) by (simp add: foreign_def rel_entry [OF r])
  from add_rel [OF r this assms(3)] have a: "session_rel (session_groups c @ [e]) (add_group e c)" "ca_maxEntries (add_group e c) = ca_maxEntries c"
    by (auto simp: same_settings_def)
  from evict_rel [OF a(1)] obtain c' where c': "evictExcessLocked (add_group e c) = Some c'"
    "session_rel (trim (ca_maxEntries c) (session_groups c @ [e])) c'" by (auto simp: a(2))
  then have "int (cache_Len c') \<le> ca_maxEntries c"
    using trim_total [of "ca_maxEntries c" "session_groups c @ [e]"] m by (simp add: cache_Len_def rel_length)
  with c'(1) groups_of_rel [OF c'(2)] trim_drop [of "ca_maxEntries c" "session_groups c @ [e]"] show ?thesis by metis
qed

lemma session_eviction_ends_witness:
  "\<exists>c' n. evictExcessLocked (add_group \<lparr>sn_authID = ''x'', sn_expiresAt = 9, sn_aliases = [''new''], sn_binding = no_binding\<rparr> sample_cache) = Some c' \<and>
     int (cache_Len c') \<le> ca_maxEntries sample_cache \<and>
     session_groups c' = drop n (session_groups sample_cache @ [\<lparr>sn_authID = ''x'', sn_expiresAt = 9, sn_aliases = [''new''], sn_binding = no_binding\<rparr>]) \<and>
     (\<forall>i<n. int (alias_total (drop i (session_groups sample_cache @
       [\<lparr>sn_authID = ''x'', sn_expiresAt = 9, sn_aliases = [''new''], sn_binding = no_binding\<rparr>]))) > ca_maxEntries sample_cache)"
proof -
  have "map_of (ca_entries sample_cache) ''new'' = None" by code_simp
  then show ?thesis by (intro session_eviction_ends [OF sample_cache_reachable]) simp_all
qed

section \<open>Looking a binding up again\<close>

lemma merge_keeps_first: "k \<noteq> [] \<Longrightarrow> \<exists>as. mergeSessionAliases (k # es) cs = k # as"
  by (simp add: mergeSessionAliases_def)

lemma fold_merge_first: "k \<noteq> [] \<Longrightarrow> \<exists>bs. fold (\<lambda>g as. mergeSessionAliases as (sn_aliases g)) gs (k # as) = k # bs"
proof (induction gs arbitrary: as)
  case (Cons g gs)
  then show ?case using merge_keeps_first [of k as "sn_aliases g"] by fastforce
qed simp

lemma compact_keeps_first: "\<exists>bs. compactSessionAliases (k # as) = k # bs"
  by (simp add: compactSessionAliases_def compactSessionAliasesWith_def maxStableSessionAliases_def)

lemma latest_fold:
  assumes "\<forall>k\<in>set ks. ent k = g \<or> bd_sequence (sn_binding (ent k)) < bd_sequence (sn_binding g)"
    and "x = g \<or> bd_sequence (sn_binding x) < bd_sequence (sn_binding g)" and "\<not> bad g"
    and "x = g \<or> (\<exists>k\<in>set ks. ent k = g)"
  shows "fold (\<lambda>k x. let e = ent k in if bad e then x else if bd_sequence (sn_binding e) > bd_sequence (sn_binding x) then e else x) ks x = g"
  using assms
proof (induction ks arbitrary: x)
  case (Cons k ks)
  let ?y = "let e = ent k in if bad e then x else if bd_sequence (sn_binding e) > bd_sequence (sn_binding x) then e else x"
  have k: "ent k = g \<or> bd_sequence (sn_binding (ent k)) < bd_sequence (sn_binding g)" using Cons.prems(1) by simp
  have y: "?y = g \<or> bd_sequence (sn_binding ?y) < bd_sequence (sn_binding g)" using k Cons.prems(2) by (auto simp: Let_def)
  have z: "?y = g \<or> (\<exists>k\<in>set ks. ent k = g)" using k Cons.prems(2-4) by (auto simp: Let_def)
  have a: "\<forall>k\<in>set ks. ent k = g \<or> bd_sequence (sn_binding (ent k)) < bd_sequence (sn_binding g)" using Cons.prems(1) by simp
  show ?case using Cons.IH [OF a y Cons.prems(3) z] by simp
qed simp

lemma latest_of_group:
  assumes inv: "session_inv c" and g: "g \<in> set (session_groups c)" and s: "bd_sessionID (sn_binding g) = sid" "sid \<noteq> []"
    and n: "bd_sequence (sn_binding g) \<noteq> 0" and p: "bd_provider (sn_binding g) \<in> set ps" and t: "t < sn_expiresAt g"
    and top: "\<forall>h\<in>set (session_groups c). h = g \<or> sequence h < sequence g"
  shows "latestSessionAuth sid ps t c = sn_authID g"
proof -
  let ?L = "session_groups c"
  have r: "session_rel ?L c" using inv by (auto simp: session_inv_def session_state_def)
  then have w: "well_grouped ?L" and so: "sessions_ok ?L c" by (auto simp: session_rel_def)
  have G: "map_of (ca_groups c) k = Some h \<longleftrightarrow> h \<in> set ?L \<and> primary h = k" for k h
    using find_primary [OF w] by (simp add: rel_group [OF r])
  have k: "primary g \<in> session_keys sid ?L" using g s n by (auto simp: session_keys_def)
  then obtain ks where ks: "map_of (ca_sessionGroups c) sid = Some ks" "set ks = session_keys sid ?L"
    using so [unfolded sessions_ok_def, rule_format, of sid] by (cases "map_of (ca_sessionGroups c) sid") auto
  let ?ent = "\<lambda>k. case map_of (ca_groups c) k of None \<Rightarrow> no_entry | Some h \<Rightarrow> h"
  have ent: "?ent (primary h) = h" if "h \<in> set ?L" for h using that G [of "primary h" h] by simp
  have all: "\<forall>k\<in>set ks. ?ent k = g \<or> bd_sequence (sn_binding (?ent k)) < bd_sequence (sn_binding g)"
  proof
    fix k' assume "k' \<in> set ks"
    then obtain h where h: "h \<in> set ?L" "k' = primary h" unfolding ks(2) session_keys_def by blast
    with ent [OF h(1)] top show "?ent k' = g \<or> bd_sequence (sn_binding (?ent k')) < bd_sequence (sn_binding g)"
      by (auto simp: sequence_def)
  qed
  have some: "\<exists>k\<in>set ks. ?ent k = g" using k ks(2) ent [OF g] by blast
  have "ps \<noteq> []" using p by auto
  with latest_fold [OF all _ _ disjI2 [OF some], of no_entry "\<lambda>e. bd_provider (sn_binding e) \<notin> set ps \<or> \<not> t < sn_expiresAt e"]
  show ?thesis using s(2) n p t by (simp add: latestSessionAuth_def ks(1) no_entry_def no_binding_def)
qed

lemma bound_group:
  assumes inv: "session_inv c" and set: "setSessionAliases authID provider sid (k # keys) now c = Some c'"
    and a: "authID \<noteq> []" "k \<noteq> []" and m: "65 \<le> ca_maxEntries c"
  obtains e where "session_inv c'" "e \<in> set (session_groups c')" "sn_authID e = authID" "sn_expiresAt e = now + ca_ttl c" "k \<in> set (sn_aliases e)"
    "sid \<noteq> [] \<and> provider \<noteq> [] \<Longrightarrow> sn_binding e = \<lparr>bd_sessionID = sid, bd_provider = provider, bd_sequence = Suc (ca_bindingSequence c)\<rparr> \<and>
       (\<forall>h\<in>set (session_groups c'). h = e \<or> sequence h < sequence e)"
proof -
  let ?L = "session_groups c" and ?s = "ca_bindingSequence c"
  let ?prev = "live_holders now (k # keys) ?L"
  let ?as = "compactSessionAliases (fold (\<lambda>g as. mergeSessionAliases as (sn_aliases g)) ?prev (mergeSessionAliases [] (k # keys)))"
  let ?b0 = "\<lparr>bd_sessionID = sid, bd_provider = provider, bd_sequence = 0\<rparr>"
  let ?b = "if sid \<noteq> [] \<and> provider \<noteq> [] then ?b0\<lparr>bd_sequence := Suc ?s\<rparr> else newest_binding ?prev ?b0"
  let ?e = "\<lparr>sn_authID = authID, sn_expiresAt = now + ca_ttl c, sn_aliases = ?as, sn_binding = ?b\<rparr>"
  let ?M = "filter (\<lambda>h. h \<notin> set ?prev) (unexpired now (k # keys) ?L)"
  from session_run_spec [OF inv, of "BindSession authID provider sid (k # keys)" now] set
  have i: "session_inv c'" and sp: "bind_spec (ca_ttl c) (ca_maxEntries c) authID provider sid (k # keys) now (?L, ?s) = (session_groups c', ca_bindingSequence c')"
    by auto
  obtain bs where "mergeSessionAliases [] (k # keys) = k # bs" using a(2) by (simp add: mergeSessionAliases_def)
  moreover obtain ds where "fold (\<lambda>g as. mergeSessionAliases as (sn_aliases g)) ?prev (k # bs) = k # ds"
    using fold_merge_first [OF a(2), of ?prev bs] by blast
  moreover obtain cs where "compactSessionAliases (k # ds) = k # cs" using compact_keeps_first by blast
  ultimately have as: "?as = k # cs" by simp
  have L': "session_groups c' = trim (ca_maxEntries c) (?M @ [?e])"
    using sp a(1) as unfolding bind_spec_def Let_def by (simp add: split: if_splits)
  have "int (length (sn_aliases ?e)) \<le> ca_maxEntries c"
    using compact_length [of "fold (\<lambda>g as. mergeSessionAliases as (sn_aliases g)) ?prev (mergeSessionAliases [] (k # keys))"] m by simp
  from trim_keeps_last [OF this] have e: "?e \<in> set (session_groups c')" unfolding L' by (metis in_set_conv_decomp)
  have ok: "spec_ok (ca_maxEntries c) (?L, ?s)" using inv by (simp add: session_inv_def)
  have top: "h = ?e \<or> sequence h \<le> ?s" if "h \<in> set (session_groups c')" for h
  proof -
    have "h \<in> set ?L \<or> h = ?e" using that set_trim [of "ca_maxEntries c" "?M @ [?e]"] unfolding L' by (auto simp: unexpired_def)
    then show ?thesis using spec_okD(2) [OF ok] by blast
  qed
  show thesis
  proof (rule that [OF i e])
    show "k \<in> set (sn_aliases ?e)" using as by simp
    assume sel: "sid \<noteq> [] \<and> provider \<noteq> []"
    then have b: "?b = \<lparr>bd_sessionID = sid, bd_provider = provider, bd_sequence = Suc ?s\<rparr>" by simp
    have "sequence ?e = Suc ?s" unfolding sequence_def b by simp
    with b top show "sn_binding ?e = \<lparr>bd_sessionID = sid, bd_provider = provider, bd_sequence = Suc ?s\<rparr> \<and>
       (\<forall>h\<in>set (session_groups c'). h = ?e \<or> sequence h < sequence ?e)" by fastforce
  qed simp_all
qed

text \<open>A binding is found again. After a session is bound to a credential under some identifiers (in any
  reachable cache that has room for one group), the first identifier leads to that credential for the
  whole time to live, and if the binding records a selection of a session at a provider, that
  credential is the latest one selected for the session on any set of providers with this one.\<close>

theorem session_bind_lookup:
  assumes "reachable session_start session_step c"
    and "setSessionAliases authID provider sid (k # keys) now c = Some c'"
    and "authID \<noteq> []" and "k \<noteq> []" and "65 \<le> ca_maxEntries c" and "t < now + ca_ttl c"
  shows "Get_read k t c' = Some authID \<and>
     (sid \<noteq> [] \<and> provider \<noteq> [] \<and> provider \<in> set ps \<longrightarrow> latestSessionAuth sid ps t c' = authID)"
proof -
  obtain e where e: "session_inv c'" "e \<in> set (session_groups c')" "sn_authID e = authID" "sn_expiresAt e = now + ca_ttl c" "k \<in> set (sn_aliases e)"
    "sid \<noteq> [] \<and> provider \<noteq> [] \<Longrightarrow> sn_binding e = \<lparr>bd_sessionID = sid, bd_provider = provider, bd_sequence = Suc (ca_bindingSequence c)\<rparr> \<and>
       (\<forall>h\<in>set (session_groups c'). h = e \<or> sequence h < sequence e)"
    using bound_group [OF sessions.reachable_inv [OF assms(1)] assms(2-5)] by metis
  have r: "session_rel (session_groups c') c'" using e(1) by (auto simp: session_inv_def session_state_def)
  then have "well_grouped (session_groups c')" by (simp add: session_rel_def)
  then have "map_of (ca_entries c') k = Some e" using holder_iff e(2,5) by (simp only: rel_entry [OF r])
  then have "Get_read k t c' = Some authID" using assms(4,6) e(3,4) by (simp add: Get_read_def del: map_of_eq_Some_iff)
  moreover have "latestSessionAuth sid ps t c' = authID" if s: "sid \<noteq> [] \<and> provider \<noteq> [] \<and> provider \<in> set ps"
    using e(6) s assms(6) e(3,4) latest_of_group [OF e(1,2), of sid ps t] by simp
  ultimately show ?thesis by blast
qed

lemma session_bind_lookup_witness:
  "Get_read ''codex::a'' 100 sample_cache = Some ''cred'' \<and> latestSessionAuth ''s1'' [''gemini'', ''codex''] 100 sample_cache = ''cred''"
proof -
  have "reachable session_start session_step (NewSessionCacheWithCapacity 100 70)"
    by (rule reach_init) (auto simp: session_start_def)
  from session_bind_lookup [OF this sample_cache_run, of 100 "[''gemini'', ''codex'']"] show ?thesis
    by (simp add: NewSessionCacheWithCapacity_def)
qed

end
