(* ===== verification/ModelRegistry.thy ===== *)
theory ModelRegistry
  imports GoBase
begin

text \<open>
  The model registry of \<open>src/internal/registry/model_registry.go\<close>: which clients (credentials) offer
  which models, how many bindings a model has in all and per provider, which clients are over quota
  or suspended, an index of the clients that offer web search, and the cache of the available models.

  A model's metadata is the record \<open>ModelInfo\<close> with the fields the registry itself reads or writes
  and the rest as a type parameter. A registration is a value under its model's identifier; the source
  changes it through a pointer taken from the map. Nil maps read like empty ones. The loops over the
  local count maps of \<open>registerClientLocked\<close> run in the order of the identifiers' first occurrence; each
  round touches the registration of its own identifier only. The cache keeps the metadata
  that \<open>convertModelToMap\<close>, a pure function that never answers nil for a model, would turn into
  the answer. Hooks run asynchronously on copies and log lines are left out.
\<close>

section \<open>State\<close>

record NativeCapabilities =
  nc_WebSearch :: "bool option"
  nc_WebSearchReplay :: string
  nc_ToolSearch :: "bool option"

record 'm ModelInfo =
  mi_ID :: string
  mi_SupportsWebSearch :: bool
  mi_NativeCapabilities :: "NativeCapabilities option"
  mi_rest :: 'm

record 'm ModelRegistration =
  mr_Info :: "'m ModelInfo"
  mr_InfoByProvider :: "(string \<times> 'm ModelInfo) list"
  mr_Count :: int
  mr_LastUpdated :: gtime
  mr_QuotaExceededClients :: "(string \<times> gtime) list"
  mr_Providers :: "(string \<times> int) list"
  mr_SuspendedClients :: "(string \<times> string) list"

record 'm availableModelsCacheEntry =
  ac_models :: "'m ModelInfo list"
  ac_expiresAt :: gtime

record 'm ModelRegistry =
  gr_models :: "(string \<times> 'm ModelRegistration) list"
  gr_clientModels :: "(string \<times> string list) list"
  gr_clientModelInfos :: "(string \<times> (string \<times> 'm ModelInfo) list) list"
  gr_clientProviders :: "(string \<times> string) list"
  gr_clientEpochs :: "(string \<times> nat) list"
  gr_clientGenerations :: "(string \<times> nat) list"
  gr_availableModelsCache :: "(string \<times> 'm availableModelsCacheEntry) list"
  gr_webSearchClientCounts :: "(string \<times> int) list"
  gr_webSearchProviderCounts :: "(string \<times> (string \<times> int) list) list"
  gr_generation :: nat
  gr_registrationEpoch :: nat

text \<open>The registry as \<open>GetGlobalRegistry\<close> makes it.\<close>

definition new_registry :: "'m ModelRegistry" where
  "new_registry = \<lparr>gr_models = [], gr_clientModels = [], gr_clientModelInfos = [], gr_clientProviders = [], gr_clientEpochs = [],
     gr_clientGenerations = [], gr_availableModelsCache = [], gr_webSearchClientCounts = [], gr_webSearchProviderCounts = [],
     gr_generation = 0, gr_registrationEpoch = 0\<rparr>"

definition modelQuotaExceededWindow :: gdur where
  "modelQuotaExceededWindow = 300 * sec_ns"

text \<open>Reading a map of numbers, of lists, of maps: zero or empty when the key is absent.\<close>

definition count_at :: "('k \<times> 'v::zero) list \<Rightarrow> 'k \<Rightarrow> 'v" where
  "count_at m k = (case map_of m k of None \<Rightarrow> 0 | Some n \<Rightarrow> n)"

definition list_at :: "('k \<times> 'v list) list \<Rightarrow> 'k \<Rightarrow> 'v list" where
  "list_at m k = (case map_of m k of None \<Rightarrow> [] | Some xs \<Rightarrow> xs)"

definition own_web :: "'m ModelRegistry \<Rightarrow> string \<Rightarrow> string \<Rightarrow> bool" where
  "own_web r clientID modelID =
     (case map_of (list_at (gr_clientModelInfos r) clientID) modelID of None \<Rightarrow> False | Some info \<Rightarrow> mi_SupportsWebSearch info)"

definition set_web :: "bool \<Rightarrow> 'm ModelInfo \<Rightarrow> 'm ModelInfo" where
  "set_web b info = info\<lparr>mi_SupportsWebSearch := b\<rparr>"

fun uniq :: "'a list \<Rightarrow> 'a list" where
  "uniq [] = []"
| "uniq (x # xs) = x # filter (\<lambda>y. y \<noteq> x) (uniq xs)"

definition invalidateAvailableModelsCacheLocked :: "'m ModelRegistry \<Rightarrow> 'm ModelRegistry" where
  "invalidateAvailableModelsCacheLocked r = r\<lparr>gr_generation := Suc (gr_generation r), gr_availableModelsCache := []\<rparr>"

section \<open>The web-search index\<close>

definition hasClientSupportingWebSearchLocked :: "string \<Rightarrow> string \<Rightarrow> string \<Rightarrow> 'm ModelRegistry \<Rightarrow> bool" where
  "hasClientSupportingWebSearchLocked modelID provider excludeClientID r =
     (if provider \<noteq> []
      then (let n = count_at (list_at (gr_webSearchProviderCounts r) modelID) provider
            in if n \<le> 0 then False
               else (if list_at (gr_clientProviders r) excludeClientID = provider \<and> own_web r excludeClientID modelID then n - 1 else n) > 0)
      else (let n = count_at (gr_webSearchClientCounts r) modelID
            in if n \<le> 0 then False else (if own_web r excludeClientID modelID then n - 1 else n) > 0))"

definition incrementWebSearchCountLocked :: "string \<Rightarrow> string \<Rightarrow> 'm ModelRegistry \<Rightarrow> 'm ModelRegistry" where
  "incrementWebSearchCountLocked modelID provider r =
     (if modelID = [] then r
      else let counts = gr_webSearchClientCounts r;
               r = r\<lparr>gr_webSearchClientCounts := AList.update modelID (count_at counts modelID + 1) counts\<rparr>
           in if provider = [] then r
              else let cs = list_at (gr_webSearchProviderCounts r) modelID
                   in r\<lparr>gr_webSearchProviderCounts :=
                          AList.update modelID (AList.update provider (count_at cs provider + 1) cs) (gr_webSearchProviderCounts r)\<rparr>)"

definition decremented :: "string \<Rightarrow> (string \<times> int) list \<Rightarrow> (string \<times> int) list" where
  "decremented k counts = (if count_at counts k > 1 then AList.update k (count_at counts k - 1) counts else AList.delete k counts)"

definition decrementWebSearchCountLocked :: "string \<Rightarrow> string \<Rightarrow> 'm ModelRegistry \<Rightarrow> 'm ModelRegistry" where
  "decrementWebSearchCountLocked modelID provider r =
     (if modelID = [] then r
      else let r = r\<lparr>gr_webSearchClientCounts := decremented modelID (gr_webSearchClientCounts r)\<rparr>
           in if provider = [] then r
              else case map_of (gr_webSearchProviderCounts r) modelID of
                  None \<Rightarrow> r
                | Some cs \<Rightarrow>
                    (let cs = decremented provider cs
                     in r\<lparr>gr_webSearchProviderCounts :=
                            (if cs = [] then AList.delete modelID (gr_webSearchProviderCounts r)
                             else AList.update modelID cs (gr_webSearchProviderCounts r))\<rparr>))"

definition dropClientWebSearchCountsLocked :: "string \<Rightarrow> 'm ModelRegistry \<Rightarrow> 'm ModelRegistry" where
  "dropClientWebSearchCountsLocked clientID r =
     (let provider = list_at (gr_clientProviders r) clientID
      in fold (\<lambda>(modelID, info) r. if mi_SupportsWebSearch info then decrementWebSearchCountLocked modelID provider r else r)
           (list_at (gr_clientModelInfos r) clientID) r)"

definition addClientWebSearchCountsLocked :: "string \<Rightarrow> 'm ModelRegistry \<Rightarrow> 'm ModelRegistry" where
  "addClientWebSearchCountsLocked clientID r =
     (let provider = list_at (gr_clientProviders r) clientID
      in fold (\<lambda>(modelID, info) r. if mi_SupportsWebSearch info then incrementWebSearchCountLocked modelID provider r else r)
           (list_at (gr_clientModelInfos r) clientID) r)"

text \<open>Writing the aggregate web-search flags of a registration anew.\<close>

definition refresh_web :: "string \<Rightarrow> string \<Rightarrow> string \<Rightarrow> 'm ModelRegistry \<Rightarrow> 'm ModelRegistration \<Rightarrow> 'm ModelRegistration" where
  "refresh_web modelID provider excludeClientID r g =
     g\<lparr>mr_Info := set_web (hasClientSupportingWebSearchLocked modelID [] excludeClientID r) (mr_Info g),
       mr_InfoByProvider := (if provider = [] then mr_InfoByProvider g
         else adjust provider (set_web (hasClientSupportingWebSearchLocked modelID provider excludeClientID r)) (mr_InfoByProvider g))\<rparr>"

definition clearOrphanedClientModelInfosLocked :: "string \<Rightarrow> 'm ModelRegistry \<Rightarrow> 'm ModelRegistry" where
  "clearOrphanedClientModelInfosLocked clientID r =
     (let provider = list_at (gr_clientProviders r) clientID;
          r = fold (\<lambda>(modelID, info) r. r\<lparr>gr_models := adjust modelID (refresh_web modelID provider clientID r) (gr_models r)\<rparr>)
                (list_at (gr_clientModelInfos r) clientID) r;
          r = dropClientWebSearchCountsLocked clientID r
      in r\<lparr>gr_clientModelInfos := AList.delete clientID (gr_clientModelInfos r)\<rparr>)"

section \<open>Bindings of one model\<close>

definition addModelRegistration :: "string \<Rightarrow> string \<Rightarrow> 'm ModelInfo \<Rightarrow> gtime \<Rightarrow> string \<Rightarrow> 'm ModelRegistry \<Rightarrow> 'm ModelRegistry" where
  "addModelRegistration modelID provider model now excludeClientID r =
     (if modelID = [] then r
      else case map_of (gr_models r) modelID of
          Some existing \<Rightarrow>
            (let hasWebSearch = (mi_SupportsWebSearch model \<or> hasClientSupportingWebSearchLocked modelID [] excludeClientID r);
                 existing = existing\<lparr>mr_Count := mr_Count existing + 1, mr_LastUpdated := now, mr_Info := set_web hasWebSearch model\<rparr>;
                 hasProvWebSearch = (mi_SupportsWebSearch model \<or> hasClientSupportingWebSearchLocked modelID provider excludeClientID r);
                 existing = (if provider = [] then existing
                   else existing\<lparr>mr_Providers := AList.update provider (count_at (mr_Providers existing) provider + 1) (mr_Providers existing),
                                 mr_InfoByProvider := AList.update provider (set_web hasProvWebSearch model) (mr_InfoByProvider existing)\<rparr>)
             in r\<lparr>gr_models := AList.update modelID existing (gr_models r)\<rparr>)
        | None \<Rightarrow>
            r\<lparr>gr_models := AList.update modelID
                \<lparr>mr_Info = model, mr_InfoByProvider = (if provider = [] then [] else [(provider, model)]), mr_Count = 1, mr_LastUpdated = now,
                 mr_QuotaExceededClients = [], mr_Providers = (if provider = [] then [] else [(provider, 1)]), mr_SuspendedClients = []\<rparr>
                (gr_models r)\<rparr>)"

text \<open>One binding of a provider less: the provider leaves the registration with its last binding.\<close>

definition drop_provider :: "string \<Rightarrow> int \<Rightarrow> 'm ModelRegistration \<Rightarrow> 'm ModelRegistration" where
  "drop_provider provider n g =
     (case map_of (mr_Providers g) provider of
        None \<Rightarrow> g
      | Some m \<Rightarrow>
          if m \<le> n then g\<lparr>mr_Providers := AList.delete provider (mr_Providers g), mr_InfoByProvider := AList.delete provider (mr_InfoByProvider g)\<rparr>
          else g\<lparr>mr_Providers := AList.update provider (m - n) (mr_Providers g)\<rparr>)"

definition forget_client :: "string \<Rightarrow> 'm ModelRegistration \<Rightarrow> 'm ModelRegistration" where
  "forget_client clientID g =
     g\<lparr>mr_QuotaExceededClients := AList.delete clientID (mr_QuotaExceededClients g),
       mr_SuspendedClients := AList.delete clientID (mr_SuspendedClients g)\<rparr>"

definition removeModelRegistration :: "string \<Rightarrow> string \<Rightarrow> string \<Rightarrow> gtime \<Rightarrow> bool \<Rightarrow> 'm ModelRegistry \<Rightarrow> 'm ModelRegistry" where
  "removeModelRegistration clientID modelID provider now preserveState r =
     (case map_of (gr_models r) modelID of
        None \<Rightarrow> r
      | Some g \<Rightarrow>
          (let g = g\<lparr>mr_Count := mr_Count g - 1, mr_LastUpdated := now\<rparr>;
               g = (if preserveState then g else forget_client clientID g);
               g = (if mr_Count g < 0 then g\<lparr>mr_Count := 0\<rparr> else g);
               g = (if provider = [] then g else drop_provider provider 1 g)
           in if mr_Count g \<le> 0 then r\<lparr>gr_models := AList.delete modelID (gr_models r)\<rparr>
              else r\<lparr>gr_models := AList.update modelID (refresh_web modelID provider clientID r g) (gr_models r)\<rparr>))"

section \<open>Clients\<close>

definition unregister_model :: "string \<Rightarrow> string \<Rightarrow> gtime \<Rightarrow> string \<Rightarrow> 'm ModelRegistry \<Rightarrow> 'm ModelRegistry" where
  "unregister_model clientID provider now modelID r =
     (case map_of (gr_models r) modelID of
        None \<Rightarrow> r
      | Some g \<Rightarrow>
          (let g = forget_client clientID (g\<lparr>mr_Count := mr_Count g - 1, mr_LastUpdated := now\<rparr>);
               g = (if provider = [] then g else drop_provider provider 1 g)
           in if mr_Count g \<le> 0 then r\<lparr>gr_models := AList.delete modelID (gr_models r)\<rparr>
              else r\<lparr>gr_models := AList.update modelID (refresh_web modelID provider clientID r g) (gr_models r)\<rparr>))"

text \<open>\<open>clientProviders\<close> never holds an empty provider, so a provider is present exactly when it is not empty.\<close>

definition unregisterClientInternal :: "string \<Rightarrow> gtime \<Rightarrow> 'm ModelRegistry \<Rightarrow> 'm ModelRegistry" where
  "unregisterClientInternal clientID now r =
     (let r = r\<lparr>gr_clientEpochs := AList.update clientID (count_at (gr_clientEpochs r) clientID + 1) (gr_clientEpochs r),
                gr_clientGenerations := AList.update clientID (count_at (gr_clientGenerations r) clientID + 1) (gr_clientGenerations r),
                gr_registrationEpoch := Suc (gr_registrationEpoch r)\<rparr>
      in case map_of (gr_clientModels r) clientID of
           None \<Rightarrow>
             (let r = clearOrphanedClientModelInfosLocked clientID r
              in r\<lparr>gr_clientProviders := AList.delete clientID (gr_clientProviders r)\<rparr>)
         | Some models \<Rightarrow>
             (let r = fold (unregister_model clientID (list_at (gr_clientProviders r) clientID) now) models r;
                  r = dropClientWebSearchCountsLocked clientID r
              in r\<lparr>gr_clientModels := AList.delete clientID (gr_clientModels r),
                   gr_clientModelInfos := AList.delete clientID (gr_clientModelInfos r),
                   gr_clientProviders := AList.delete clientID (gr_clientProviders r)\<rparr>))"

definition UnregisterClient :: "string \<Rightarrow> gtime \<Rightarrow> 'm ModelRegistry \<Rightarrow> 'm ModelRegistry" where
  "UnregisterClient clientID now r = invalidateAvailableModelsCacheLocked (unregisterClientInternal clientID now r)"

text \<open>The models of a registration request: nil entries and entries without an identifier are skipped,
  of several entries for one model the first counts.\<close>

definition given_models :: "'m ModelInfo option list \<Rightarrow> 'm ModelInfo list" where
  "given_models models = filter (\<lambda>m. mi_ID m \<noteq> []) (List.map_filter (\<lambda>m. m) models)"

definition new_models :: "'m ModelInfo list \<Rightarrow> (string \<times> 'm ModelInfo) list" where
  "new_models ms = map (\<lambda>i. (i, the (map_of (map (\<lambda>m. (mi_ID m, m)) ms) i))) (uniq (map mi_ID ms))"

text \<open>What the hook of a registration is told: every model once, in the order of the request.\<close>

fun unique_loop :: "string list \<Rightarrow> 'm ModelInfo option list \<Rightarrow> 'm ModelInfo list" where
  "unique_loop seen [] = []"
| "unique_loop seen (None # models) = unique_loop seen models"
| "unique_loop seen (Some model # models) =
     (if mi_ID model = [] \<or> mi_ID model \<in> set seen then unique_loop seen models
      else model # unique_loop (mi_ID model # seen) models)"

definition cloneModelInfosUnique :: "'m ModelInfo option list \<Rightarrow> 'm ModelInfo list" where
  "cloneModelInfosUnique models = unique_loop [] models"

definition set_client :: "string \<Rightarrow> string \<Rightarrow> 'm ModelInfo list \<Rightarrow> 'm ModelRegistry \<Rightarrow> 'm ModelRegistry" where
  "set_client clientID provider ms r =
     r\<lparr>gr_clientModels := AList.update clientID (map mi_ID ms) (gr_clientModels r),
       gr_clientModelInfos := AList.update clientID (new_models ms) (gr_clientModelInfos r),
       gr_clientProviders := (if provider \<noteq> [] then AList.update clientID provider (gr_clientProviders r)
                              else AList.delete clientID (gr_clientProviders r))\<rparr>"

definition register_new :: "string \<Rightarrow> string \<Rightarrow> 'm ModelInfo list \<Rightarrow> gtime \<Rightarrow> 'm ModelRegistry \<Rightarrow> 'm ModelRegistry" where
  "register_new clientID provider ms now r =
     (let r = clearOrphanedClientModelInfosLocked clientID r;
          r = fold (\<lambda>i. addModelRegistration i provider (the (map_of (new_models ms) i)) now clientID) (map mi_ID ms) r
      in addClientWebSearchCountsLocked clientID (set_client clientID provider ms r))"

text \<open>The reconciliation with an earlier registration of the client, in the order of the code.\<close>

definition move_provider :: "string \<Rightarrow> string \<Rightarrow> string list \<Rightarrow> string list \<Rightarrow> string \<Rightarrow> 'm ModelRegistry \<Rightarrow> 'm ModelRegistry" where
  "move_provider clientID oldProvider olds news i r =
     (let oldCount = count_list olds i; toRemove = min (count_list news i) oldCount
      in if oldCount = 0 then r
         else case map_of (gr_models r) i of
             None \<Rightarrow> r
           | Some g \<Rightarrow>
               (let h = drop_provider oldProvider (int toRemove) g
                in r\<lparr>gr_models := AList.update i
                      (if map_of (mr_Providers h) oldProvider = None then h
                       else h\<lparr>mr_InfoByProvider :=
                         adjust oldProvider (set_web (hasClientSupportingWebSearchLocked i oldProvider clientID r)) (mr_InfoByProvider h)\<rparr>)
                      (gr_models r)\<rparr>))"

definition refreshed_registration ::
  "string \<Rightarrow> string \<Rightarrow> string \<Rightarrow> string list \<Rightarrow> string list \<Rightarrow> bool \<Rightarrow> 'm ModelInfo \<Rightarrow> gtime \<Rightarrow> string \<Rightarrow> 'm ModelRegistry \<Rightarrow>
     'm ModelRegistration \<Rightarrow> 'm ModelRegistration" where
  "refreshed_registration clientID oldProvider provider olds news preserveState model now i r g =
     (let providerChanged = (oldProvider \<noteq> provider);
          g = g\<lparr>mr_Info := set_web (mi_SupportsWebSearch model \<or> hasClientSupportingWebSearchLocked i [] clientID r) model\<rparr>;
          g = (if provider = [] then g
               else g\<lparr>mr_InfoByProvider := AList.update provider
                        (set_web (mi_SupportsWebSearch model \<or> hasClientSupportingWebSearchLocked i provider clientID r) model) (mr_InfoByProvider g)\<rparr>);
          g = (if providerChanged \<and> oldProvider \<noteq> []
               then g\<lparr>mr_InfoByProvider := adjust oldProvider (set_web (hasClientSupportingWebSearchLocked i oldProvider clientID r)) (mr_InfoByProvider g)\<rparr>
               else g);
          g = g\<lparr>mr_LastUpdated := now\<rparr>;
          g = (if \<not> preserveState \<or> providerChanged \<or> count_list olds i = 0 then forget_client clientID g else g);
          overlapCount = min (count_list news i) (count_list olds i)
      in if providerChanged \<and> provider \<noteq> [] \<and> overlapCount > 0
         then g\<lparr>mr_Providers := AList.update provider (count_at (mr_Providers g) provider + int overlapCount) (mr_Providers g)\<rparr>
         else g)"

definition reconcile :: "string \<Rightarrow> string \<Rightarrow> 'm ModelInfo list \<Rightarrow> bool \<Rightarrow> string list \<Rightarrow> gtime \<Rightarrow> 'm ModelRegistry \<Rightarrow> 'm ModelRegistry" where
  "reconcile clientID provider ms preserveState olds now r =
     (let news = map mi_ID ms; uniqueModelIDs = uniq news; oldIDs = uniq olds;
          oldProvider = list_at (gr_clientProviders r) clientID;
          providerChanged = (oldProvider \<noteq> provider);
          r = (if providerChanged \<and> oldProvider \<noteq> [] then fold (move_provider clientID oldProvider olds news) uniqueModelIDs r else r);
          r = fold (\<lambda>i. removeModelRegistration clientID i oldProvider now False ^^ count_list olds i)
                (filter (\<lambda>i. count_list news i = 0) oldIDs) r;
          r = fold (\<lambda>i. removeModelRegistration clientID i oldProvider now (preserveState \<and> \<not> providerChanged) ^^ (count_list olds i - count_list news i))
                (filter (\<lambda>i. count_list news i \<noteq> 0) oldIDs) r;
          r = fold (\<lambda>i. addModelRegistration i provider (the (map_of (new_models ms) i)) now clientID ^^ (count_list news i - count_list olds i))
                uniqueModelIDs r;
          r = fold (\<lambda>i r. r\<lparr>gr_models := adjust i (refreshed_registration clientID oldProvider provider olds news preserveState
                (the (map_of (new_models ms) i)) now i r) (gr_models r)\<rparr>) uniqueModelIDs r;
          r = dropClientWebSearchCountsLocked clientID r
      in addClientWebSearchCountsLocked clientID (set_client clientID provider ms r))"

definition registerClientLocked :: "string \<Rightarrow> string \<Rightarrow> 'm ModelInfo option list \<Rightarrow> bool \<Rightarrow> gtime \<Rightarrow> 'm ModelRegistry \<Rightarrow> 'm ModelRegistry" where
  "registerClientLocked clientID clientProvider models preserveState now r =
     (let provider = ToLower clientProvider; ms = given_models models
      in if ms = []
         then (let r = unregisterClientInternal clientID now r
               in invalidateAvailableModelsCacheLocked
                    (r\<lparr>gr_clientModels := AList.delete clientID (gr_clientModels r),
                       gr_clientModelInfos := AList.delete clientID (gr_clientModelInfos r),
                       gr_clientProviders := AList.delete clientID (gr_clientProviders r)\<rparr>))
         else let existing = map_of (gr_clientModels r) clientID;
                  providerChanged = (list_at (gr_clientProviders r) clientID \<noteq> provider);
                  r = r\<lparr>gr_clientEpochs := AList.update clientID (count_at (gr_clientEpochs r) clientID + 1) (gr_clientEpochs r)\<rparr>;
                  r = (if \<not> preserveState \<or> existing = None \<or> providerChanged
                       then r\<lparr>gr_clientGenerations := AList.update clientID 0 (gr_clientGenerations r)\<rparr> else r);
                  r = r\<lparr>gr_registrationEpoch := Suc (gr_registrationEpoch r)\<rparr>
              in invalidateAvailableModelsCacheLocked
                   (case existing of
                      None \<Rightarrow> register_new clientID provider ms now r
                    | Some olds \<Rightarrow> reconcile clientID provider ms preserveState olds now r))"

definition RegisterClient :: "string \<Rightarrow> string \<Rightarrow> 'm ModelInfo option list \<Rightarrow> gtime \<Rightarrow> 'm ModelRegistry \<Rightarrow> 'm ModelRegistry" where
  "RegisterClient clientID clientProvider models now r = registerClientLocked clientID clientProvider models False now r"

text \<open>The fences: \<open>publish\<close> is the answer of the caller's function, \<^const>\<open>None\<close> when there is none.\<close>

definition fence_open :: "string \<Rightarrow> nat \<Rightarrow> bool option \<Rightarrow> 'm ModelRegistry \<Rightarrow> bool" where
  "fence_open clientID expectedEpoch publish r \<longleftrightarrow> count_at (gr_clientEpochs r) clientID = expectedEpoch \<and> publish = Some True"

definition RegisterClientIfEpochCurrent ::
  "string \<Rightarrow> string \<Rightarrow> nat \<Rightarrow> 'm ModelInfo option list \<Rightarrow> bool option \<Rightarrow> gtime \<Rightarrow> 'm ModelRegistry \<Rightarrow> bool \<times> 'm ModelRegistry" where
  "RegisterClientIfEpochCurrent clientID clientProvider expectedEpoch models publish now r =
     (if fence_open clientID expectedEpoch publish r then (True, registerClientLocked clientID clientProvider models False now r) else (False, r))"

definition UnregisterClientIfEpochCurrent :: "string \<Rightarrow> nat \<Rightarrow> bool option \<Rightarrow> gtime \<Rightarrow> 'm ModelRegistry \<Rightarrow> bool \<times> 'm ModelRegistry" where
  "UnregisterClientIfEpochCurrent clientID expectedEpoch publish now r =
     (if fence_open clientID expectedEpoch publish r
      then (True, invalidateAvailableModelsCacheLocked (unregisterClientInternal clientID now r)) else (False, r))"

definition ReplaceClientModels ::
  "string \<Rightarrow> string \<Rightarrow> nat \<Rightarrow> 'm ModelInfo option list \<Rightarrow> gtime \<Rightarrow> 'm ModelRegistry \<Rightarrow> (nat \<times> bool) \<times> 'm ModelRegistry" where
  "ReplaceClientModels clientID clientProvider expectedEpoch models now r =
     (if count_at (gr_clientEpochs r) clientID \<noteq> expectedEpoch then ((0, False), r)
      else let r = registerClientLocked clientID clientProvider models True now r
           in ((count_at (gr_clientEpochs r) clientID, True), r))"

end
