(* ===== verification/ModelAvailability.thy ===== *)
theory ModelAvailability
  imports ModelRegistry "HOL-Library.Product_Lexorder"
begin

text \<open>
  Availability in the model registry (\<open>src/internal/registry/model_registry.go\<close>): quota marks and
  suspensions of a client for a model, the projections of a credential's state onto its models with
  their fences, changes of capabilities, and the questions the rest of the program asks. Every
  operation runs under the registry's lock; readings of the clock are arguments.
\<close>

section \<open>Quota and suspension\<close>

definition upd_registration :: "string \<Rightarrow> ('m ModelRegistration \<Rightarrow> 'm ModelRegistration) \<Rightarrow> 'm ModelRegistry \<Rightarrow> 'm ModelRegistry" where
  "upd_registration i f r = r\<lparr>gr_models := adjust i f (gr_models r)\<rparr>"

definition SetModelQuotaExceeded :: "string \<Rightarrow> string \<Rightarrow> gtime \<Rightarrow> 'm ModelRegistry \<Rightarrow> 'm ModelRegistry" where
  "SetModelQuotaExceeded clientID modelID now r =
     (case map_of (gr_models r) modelID of
        None \<Rightarrow> r
      | Some _ \<Rightarrow> invalidateAvailableModelsCacheLocked
          (upd_registration modelID (\<lambda>g. g\<lparr>mr_QuotaExceededClients := AList.update clientID now (mr_QuotaExceededClients g)\<rparr>) r))"

definition ClearModelQuotaExceeded :: "string \<Rightarrow> string \<Rightarrow> 'm ModelRegistry \<Rightarrow> 'm ModelRegistry" where
  "ClearModelQuotaExceeded clientID modelID r =
     (case map_of (gr_models r) modelID of
        None \<Rightarrow> r
      | Some _ \<Rightarrow> invalidateAvailableModelsCacheLocked
          (upd_registration modelID (\<lambda>g. g\<lparr>mr_QuotaExceededClients := AList.delete clientID (mr_QuotaExceededClients g)\<rparr>) r))"

text \<open>What \<open>ClearClientQuotaState\<close> does to one registration, with the number of marks it cleared.\<close>

definition clear_quota :: "string \<Rightarrow> gtime \<Rightarrow> 'm ModelRegistration \<Rightarrow> nat \<times> 'm ModelRegistration" where
  "clear_quota clientID now g =
     (let marked = map_of (mr_QuotaExceededClients g) clientID \<noteq> None;
          suspended = (case map_of (mr_SuspendedClients g) clientID of
                         None \<Rightarrow> False | Some reason \<Rightarrow> EqualFold (TrimSpace reason) ''quota'');
          g = (if marked then g\<lparr>mr_QuotaExceededClients := AList.delete clientID (mr_QuotaExceededClients g)\<rparr> else g);
          g = (if suspended then g\<lparr>mr_SuspendedClients := AList.delete clientID (mr_SuspendedClients g)\<rparr> else g);
          g = (if marked \<or> suspended then g\<lparr>mr_LastUpdated := now\<rparr> else g)
      in ((if marked then 1 else 0) + (if suspended then 1 else 0), g))"

definition ClearClientQuotaState :: "string \<Rightarrow> gtime \<Rightarrow> 'm ModelRegistry \<Rightarrow> nat \<times> 'm ModelRegistry" where
  "ClearClientQuotaState clientID now r =
     (let clientID = TrimSpace clientID
      in if clientID = [] then (0, r)
         else let cleared = sum_list (map (\<lambda>(i, g). fst (clear_quota clientID now g)) (gr_models r));
                  r = r\<lparr>gr_models := map_vals (\<lambda>g. snd (clear_quota clientID now g)) (gr_models r)\<rparr>
              in (cleared, if cleared > 0 then invalidateAvailableModelsCacheLocked r else r))"

definition SuspendClientModel :: "string \<Rightarrow> string \<Rightarrow> string \<Rightarrow> gtime \<Rightarrow> 'm ModelRegistry \<Rightarrow> 'm ModelRegistry" where
  "SuspendClientModel clientID modelID reason now r =
     (if clientID = [] \<or> modelID = [] then r
      else case map_of (gr_models r) modelID of
          None \<Rightarrow> r
        | Some g \<Rightarrow>
            if map_of (mr_SuspendedClients g) clientID \<noteq> None then r
            else invalidateAvailableModelsCacheLocked
              (upd_registration modelID (\<lambda>g. g\<lparr>mr_SuspendedClients := AList.update clientID reason (mr_SuspendedClients g), mr_LastUpdated := now\<rparr>) r))"

definition ResumeClientModel :: "string \<Rightarrow> string \<Rightarrow> gtime \<Rightarrow> 'm ModelRegistry \<Rightarrow> 'm ModelRegistry" where
  "ResumeClientModel clientID modelID now r =
     (if clientID = [] \<or> modelID = [] then r
      else case map_of (gr_models r) modelID of
          None \<Rightarrow> r
        | Some g \<Rightarrow>
            if map_of (mr_SuspendedClients g) clientID = None then r
            else invalidateAvailableModelsCacheLocked
              (upd_registration modelID (\<lambda>g. g\<lparr>mr_SuspendedClients := AList.delete clientID (mr_SuspendedClients g), mr_LastUpdated := now\<rparr>) r))"

definition expired_mark :: "gtime \<Rightarrow> gtime \<Rightarrow> bool" where
  "expired_mark now quotaTime \<longleftrightarrow> time_sub now quotaTime \<ge> modelQuotaExceededWindow"

definition CleanupExpiredQuotas :: "gtime \<Rightarrow> 'm ModelRegistry \<Rightarrow> 'm ModelRegistry" where
  "CleanupExpiredQuotas now r =
     (let invalidated = list_ex (\<lambda>(i, g). list_ex (\<lambda>(c, t). expired_mark now t) (mr_QuotaExceededClients g)) (gr_models r);
          r = r\<lparr>gr_models := map_vals (\<lambda>g. g\<lparr>mr_QuotaExceededClients := filter (\<lambda>(c, t). \<not> expired_mark now t) (mr_QuotaExceededClients g)\<rparr>) (gr_models r)\<rparr>
      in if invalidated then invalidateAvailableModelsCacheLocked r else r)"

section \<open>Projections\<close>

record ClientModelProjection =
  pj_ModelID :: string
  pj_Suspended :: bool
  pj_SuspendReason :: string
  pj_QuotaExceeded :: bool

definition project_suspension :: "string \<Rightarrow> ClientModelProjection \<Rightarrow> gtime \<Rightarrow> 'm ModelRegistration \<Rightarrow> bool \<times> 'm ModelRegistration" where
  "project_suspension clientID proj now g =
     (if pj_Suspended proj
      then (if map_of (mr_SuspendedClients g) clientID = Some (pj_SuspendReason proj) then (False, g)
            else (True, g\<lparr>mr_SuspendedClients := AList.update clientID (pj_SuspendReason proj) (mr_SuspendedClients g), mr_LastUpdated := now\<rparr>))
      else if map_of (mr_SuspendedClients g) clientID = None then (False, g)
      else (True, g\<lparr>mr_SuspendedClients := AList.delete clientID (mr_SuspendedClients g), mr_LastUpdated := now\<rparr>))"

definition project_quota :: "string \<Rightarrow> ClientModelProjection \<Rightarrow> gtime \<Rightarrow> 'm ModelRegistration \<Rightarrow> bool \<times> 'm ModelRegistration" where
  "project_quota clientID proj now g =
     (if pj_QuotaExceeded proj = (map_of (mr_QuotaExceededClients g) clientID \<noteq> None) then (False, g)
      else (True, g\<lparr>mr_QuotaExceededClients := (if pj_QuotaExceeded proj then AList.update clientID now (mr_QuotaExceededClients g)
                                                else AList.delete clientID (mr_QuotaExceededClients g)), mr_LastUpdated := now\<rparr>))"

fun project_loop :: "string \<Rightarrow> string list \<Rightarrow> gtime \<Rightarrow> ClientModelProjection list \<Rightarrow> bool \<Rightarrow> 'm ModelRegistry \<Rightarrow> bool \<times> 'm ModelRegistry" where
  "project_loop clientID registered now [] changed r = (changed, r)"
| "project_loop clientID registered now (proj # ps) changed r =
     (let modelID = TrimSpace (pj_ModelID proj)
      in if modelID = [] \<or> modelID \<notin> set registered then project_loop clientID registered now ps changed r
         else case map_of (gr_models r) modelID of
             None \<Rightarrow> project_loop clientID registered now ps changed r
           | Some g \<Rightarrow>
               (let (c1, g) = project_suspension clientID proj now g; (c2, g) = project_quota clientID proj now g
                in project_loop clientID registered now ps (changed \<or> c1 \<or> c2)
                     (r\<lparr>gr_models := AList.update modelID g (gr_models r)\<rparr>)))"

definition ApplyClientModelProjections ::
  "string \<Rightarrow> nat \<Rightarrow> nat \<Rightarrow> ClientModelProjection list \<Rightarrow> gtime \<Rightarrow> 'm ModelRegistry \<Rightarrow> bool \<times> 'm ModelRegistry" where
  "ApplyClientModelProjections clientID epoch generation projections now r =
     (let clientID = TrimSpace clientID;
          models = list_at (gr_clientModels r) clientID;
          registered = filter (\<lambda>m. m \<noteq> []) (map TrimSpace models);
          valid = list_ex (\<lambda>proj. let modelID = TrimSpace (pj_ModelID proj)
            in modelID \<noteq> [] \<and> modelID \<in> set registered \<and> map_of (gr_models r) modelID \<noteq> None) projections
      in if clientID = [] \<or> models = [] \<or> epoch \<noteq> count_at (gr_clientEpochs r) clientID \<or>
            generation < count_at (gr_clientGenerations r) clientID \<or> \<not> valid
         then (False, r)
         else let r = r\<lparr>gr_clientGenerations := AList.update clientID generation (gr_clientGenerations r)\<rparr>;
                  (changed, r) = project_loop clientID registered now projections False r
              in (True, if changed then invalidateAvailableModelsCacheLocked r else r))"

text \<open>The callback sees each of the client's own infos; the aggregates of the model follow.\<close>

definition apply_capability :: "(string \<Rightarrow> 'm ModelInfo \<Rightarrow> 'm ModelInfo) \<Rightarrow> string \<Rightarrow> string \<Rightarrow> string \<times> 'm ModelInfo \<Rightarrow> 'm ModelRegistry \<Rightarrow> 'm ModelRegistry" where
  "apply_capability mutate clientID provider = (\<lambda>(i, info) r.
     let info = mutate i info;
         r = r\<lparr>gr_clientModelInfos := adjust clientID (adjust i (\<lambda>_. info)) (gr_clientModelInfos r)\<rparr>;
         r = (if mi_SupportsWebSearch info then incrementWebSearchCountLocked i provider r else r);
         web = hasClientSupportingWebSearchLocked i [] [] r;
         provWeb = hasClientSupportingWebSearchLocked i provider [] r
     in upd_registration i (\<lambda>g. g\<lparr>mr_Info := set_web web (mr_Info g),
          mr_InfoByProvider := (if provider = [] then mr_InfoByProvider g else adjust provider (set_web provWeb) (mr_InfoByProvider g))\<rparr>) r)"

definition ApplyClientModelCapabilities ::
  "string \<Rightarrow> nat \<Rightarrow> (string \<Rightarrow> 'm ModelInfo \<Rightarrow> 'm ModelInfo) \<Rightarrow> 'm ModelRegistry \<Rightarrow> bool \<times> 'm ModelRegistry" where
  "ApplyClientModelCapabilities clientID expectedEpoch mutate r =
     (let clientID = TrimSpace clientID; infos = list_at (gr_clientModelInfos r) clientID
      in if clientID = [] \<or> count_at (gr_clientEpochs r) clientID \<noteq> expectedEpoch \<or> infos = [] then (False, r)
         else let provider = list_at (gr_clientProviders r) clientID;
                  r = dropClientWebSearchCountsLocked clientID r;
                  r = fold (apply_capability mutate clientID provider) infos r
              in (True, invalidateAvailableModelsCacheLocked r))"

section \<open>Questions\<close>

definition isQuotaSuspension :: "string \<Rightarrow> bool" where
  "isQuotaSuspension reason \<longleftrightarrow> EqualFold reason ''quota'' \<or> EqualFold reason ''credential_quota''"

definition quota_active :: "gtime \<Rightarrow> gtime \<Rightarrow> bool" where
  "quota_active now quotaTime \<longleftrightarrow> now < quotaTime + modelQuotaExceededWindow"

definition earliest_recovery :: "gtime \<Rightarrow> (string \<times> gtime) list \<Rightarrow> gtime" where
  "earliest_recovery now marks =
     fold (\<lambda>(c, t) e. let recoveryAt = t + modelQuotaExceededWindow
        in if now < recoveryAt \<and> (e = 0 \<or> recoveryAt < e) then recoveryAt else e) marks 0"

definition modelRegistrationAvailability :: "gtime \<Rightarrow> 'm ModelRegistration \<Rightarrow> bool \<times> gtime" where
  "modelRegistrationAvailability now g =
     (let availableClients = mr_Count g;
          expiredClients = length (filter (\<lambda>(c, t). quota_active now t) (mr_QuotaExceededClients g));
          quotaAndSuspended = length (filter (\<lambda>(c, reason). case map_of (mr_QuotaExceededClients g) c of
            None \<Rightarrow> False | Some t \<Rightarrow> quota_active now t) (mr_SuspendedClients g));
          cooldownSuspended = length (filter (\<lambda>(c, reason). isQuotaSuspension reason) (mr_SuspendedClients g));
          otherSuspended = length (filter (\<lambda>(c, reason). \<not> isQuotaSuspension reason) (mr_SuspendedClients g));
          effectiveClients = max 0 (availableClients - int expiredClients - int cooldownSuspended - int otherSuspended + int quotaAndSuspended)
      in (effectiveClients > 0 \<or> (availableClients > 0 \<and> (expiredClients > 0 \<or> cooldownSuspended > 0) \<and> otherSuspended = 0),
          earliest_recovery now (mr_QuotaExceededClients g)))"

definition buildAvailableModelsLocked :: "gtime \<Rightarrow> 'm ModelRegistry \<Rightarrow> 'm ModelInfo list \<times> gtime" where
  "buildAvailableModelsLocked now r =
     (map (\<lambda>(i, g). mr_Info g) (filter (\<lambda>(i, g). fst (modelRegistrationAvailability now g)) (gr_models r)),
      fold (\<lambda>(i, g) e. let t = snd (modelRegistrationAvailability now g) in if t \<noteq> 0 \<and> (e = 0 \<or> t < e) then t else e) (gr_models r) 0)"

definition cache_hit :: "gtime \<Rightarrow> 'm availableModelsCacheEntry \<Rightarrow> bool" where
  "cache_hit now e \<longleftrightarrow> ac_expiresAt e = 0 \<or> now < ac_expiresAt e"

definition GetAvailableModels :: "string \<Rightarrow> gtime \<Rightarrow> 'm ModelRegistry \<Rightarrow> 'm ModelInfo list \<times> 'm ModelRegistry" where
  "GetAvailableModels handlerType now r =
     (case map_of (gr_availableModelsCache r) handlerType of
        Some e \<Rightarrow>
          if cache_hit now e then (ac_models e, r)
          else (case buildAvailableModelsLocked now r of (models, expiresAt) \<Rightarrow>
            (models, r\<lparr>gr_availableModelsCache := AList.update handlerType \<lparr>ac_models = models, ac_expiresAt = expiresAt\<rparr> (gr_availableModelsCache r)\<rparr>))
      | None \<Rightarrow>
          (case buildAvailableModelsLocked now r of (models, expiresAt) \<Rightarrow>
            (models, r\<lparr>gr_availableModelsCache := AList.update handlerType \<lparr>ac_models = models, ac_expiresAt = expiresAt\<rparr> (gr_availableModelsCache r)\<rparr>)))"

definition ClientSupportsModel :: "string \<Rightarrow> string \<Rightarrow> 'm ModelRegistry \<Rightarrow> bool" where
  "ClientSupportsModel clientID modelID r =
     (let clientID = TrimSpace clientID; modelID = TrimSpace modelID
      in clientID \<noteq> [] \<and> modelID \<noteq> [] \<and> list_ex (\<lambda>i. EqualFold (TrimSpace i) modelID) (list_at (gr_clientModels r) clientID))"

definition IsModelSuspendedForClient :: "string \<Rightarrow> string \<Rightarrow> 'm ModelRegistry \<Rightarrow> bool" where
  "IsModelSuspendedForClient clientID modelID r =
     (let clientID = TrimSpace clientID; modelID = TrimSpace modelID
      in clientID \<noteq> [] \<and> modelID \<noteq> [] \<and>
         (case map_of (gr_models r) modelID of None \<Rightarrow> False | Some g \<Rightarrow> map_of (mr_SuspendedClients g) clientID \<noteq> None))"

definition IsModelQuotaExceededForClient :: "string \<Rightarrow> string \<Rightarrow> 'm ModelRegistry \<Rightarrow> bool" where
  "IsModelQuotaExceededForClient clientID modelID r =
     (let clientID = TrimSpace clientID; modelID = TrimSpace modelID
      in clientID \<noteq> [] \<and> modelID \<noteq> [] \<and>
         (case map_of (gr_models r) modelID of None \<Rightarrow> False | Some g \<Rightarrow> map_of (mr_QuotaExceededClients g) clientID \<noteq> None))"

definition GetModelCount :: "string \<Rightarrow> gtime \<Rightarrow> 'm ModelRegistry \<Rightarrow> int" where
  "GetModelCount modelID now r =
     (case map_of (gr_models r) modelID of
        None \<Rightarrow> 0
      | Some g \<Rightarrow>
          (let expiredClients = length (filter (\<lambda>(c, t). \<not> expired_mark now t) (mr_QuotaExceededClients g));
               suspendedClients = length (filter (\<lambda>(c, reason). case map_of (mr_QuotaExceededClients g) c of
                 None \<Rightarrow> True | Some t \<Rightarrow> \<not> quota_active now t) (mr_SuspendedClients g))
           in max 0 (mr_Count g - int expiredClients - int suspendedClients)))"

definition GetModelProviders :: "string \<Rightarrow> 'm ModelRegistry \<Rightarrow> string list" where
  "GetModelProviders modelID r =
     (case map_of (gr_models r) modelID of
        None \<Rightarrow> []
      | Some g \<Rightarrow> map fst (sort_key (\<lambda>(name, n). (- n, name)) (filter (\<lambda>(name, n). n > 0) (mr_Providers g))))"

definition GetModelInfo :: "string \<Rightarrow> string \<Rightarrow> 'm ModelRegistry \<Rightarrow> 'm ModelInfo option" where
  "GetModelInfo modelID provider r =
     (case map_of (gr_models r) modelID of
        None \<Rightarrow> None
      | Some g \<Rightarrow>
          if provider \<noteq> [] \<and> count_at (mr_Providers g) provider > 0
          then (case map_of (mr_InfoByProvider g) provider of Some info \<Rightarrow> Some info | None \<Rightarrow> Some (mr_Info g))
          else Some (mr_Info g))"

definition GetModelsAndEpochForClient :: "string \<Rightarrow> 'm ModelRegistry \<Rightarrow> 'm ModelInfo list \<times> nat" where
  "GetModelsAndEpochForClient clientID r =
     (List.map_filter (\<lambda>i. case map_of (list_at (gr_clientModelInfos r) clientID) i of
          Some info \<Rightarrow> Some info
        | None \<Rightarrow> map_option mr_Info (map_of (gr_models r) i)) (uniq (list_at (gr_clientModels r) clientID)),
      count_at (gr_clientEpochs r) clientID)"

definition GetModelsForClient :: "string \<Rightarrow> 'm ModelRegistry \<Rightarrow> 'm ModelInfo list" where
  "GetModelsForClient clientID r = fst (GetModelsAndEpochForClient clientID r)"

definition ClientRegistrationEpoch :: "string \<Rightarrow> 'm ModelRegistry \<Rightarrow> nat" where
  "ClientRegistrationEpoch clientID r = count_at (gr_clientEpochs r) clientID"

definition GetGeneration :: "'m ModelRegistry \<Rightarrow> nat" where
  "GetGeneration r = gr_generation r"

definition RegistrationEpoch :: "'m ModelRegistry \<Rightarrow> nat" where
  "RegistrationEpoch r = gr_registrationEpoch r"

text \<open>\<open>sort.Slice\<close> leaves the order of equal elements open; the model keeps it.\<close>

definition GetAvailableModelInfos :: "gtime \<Rightarrow> 'm ModelRegistry \<Rightarrow> 'm ModelInfo list" where
  "GetAvailableModelInfos now r = sort_key (\<lambda>info. TrimSpace (mi_ID info))
     (map (\<lambda>(i, g). mr_Info g) (filter (\<lambda>(i, g). fst (modelRegistrationAvailability now g)) (gr_models r)))"

section \<open>Models of a provider\<close>

text \<open>One binding of a client of the provider: the count and, while there is none yet, the metadata.\<close>

definition provider_model_round ::
  "'m ModelRegistry \<Rightarrow> string \<Rightarrow> string \<Rightarrow> (string \<times> int \<times> 'm ModelInfo option) list \<Rightarrow> (string \<times> int \<times> 'm ModelInfo option) list" where
  "provider_model_round r clientID boundID acc =
     (let modelID = TrimSpace boundID
      in if modelID = [] then acc
         else let entry = (case map_of acc modelID of None \<Rightarrow> (0, None) | Some e \<Rightarrow> e);
                  info = (case snd entry of
                            Some info \<Rightarrow> Some info
                          | None \<Rightarrow> (case map_of (list_at (gr_clientModelInfos r) clientID) modelID of
                                        Some info \<Rightarrow> Some info
                                      | None \<Rightarrow> map_option mr_Info (map_of (gr_models r) modelID)))
              in AList.update modelID (fst entry + 1, info) acc)"

definition provider_models :: "string \<Rightarrow> 'm ModelRegistry \<Rightarrow> (string \<times> int \<times> 'm ModelInfo option) list" where
  "provider_models provider r =
     fold (\<lambda>(clientID, clientProvider) acc.
         if clientProvider \<noteq> provider then acc else fold (provider_model_round r clientID) (list_at (gr_clientModels r) clientID) acc)
       (gr_clientProviders r) []"

definition provider_available :: "string \<Rightarrow> gtime \<Rightarrow> 'm ModelRegistry \<Rightarrow> string \<Rightarrow> int \<Rightarrow> bool" where
  "provider_available provider now r modelID availableClients =
     (let marks = (case map_of (gr_models r) modelID of None \<Rightarrow> [] | Some g \<Rightarrow> mr_QuotaExceededClients g);
          suspended = (case map_of (gr_models r) modelID of None \<Rightarrow> [] | Some g \<Rightarrow> mr_SuspendedClients g);
          own = (\<lambda>c. c \<noteq> [] \<and> map_of (gr_clientProviders r) c = Some provider);
          expiredClients = length (filter (\<lambda>(c, t). own c \<and> \<not> expired_mark now t) marks);
          quotaAndSuspended = length (filter (\<lambda>(c, reason). own c \<and> (case map_of marks c of None \<Rightarrow> False | Some t \<Rightarrow> quota_active now t)) suspended);
          cooldownSuspended = length (filter (\<lambda>(c, reason). own c \<and> isQuotaSuspension reason) suspended);
          otherSuspended = length (filter (\<lambda>(c, reason). own c \<and> \<not> isQuotaSuspension reason) suspended);
          effectiveClients = max 0 (availableClients - int expiredClients - int cooldownSuspended - int otherSuspended + int quotaAndSuspended)
      in effectiveClients > 0 \<or> (availableClients > 0 \<and> (expiredClients > 0 \<or> cooldownSuspended > 0) \<and> otherSuspended = 0))"

definition GetAvailableModelsByProvider :: "string \<Rightarrow> gtime \<Rightarrow> 'm ModelRegistry \<Rightarrow> 'm ModelInfo list" where
  "GetAvailableModelsByProvider name now r =
     (let provider = ToLower (TrimSpace name)
      in if provider = [] then []
         else List.map_filter (\<lambda>(modelID, n, info).
             if n > 0 \<and> provider_available provider now r modelID n
             then (case info of Some info \<Rightarrow> Some info | None \<Rightarrow> map_option mr_Info (map_of (gr_models r) modelID))
             else None) (provider_models provider r))"

section \<open>Native web search\<close>

record NativeCapabilityRoute =
  rt_Provider :: string
  rt_NativeCapabilities :: "NativeCapabilities option"

definition responsesWebSearchProviderPathSupport :: "string \<Rightarrow> bool option" where
  "responsesWebSearchProviderPathSupport name =
     (let provider = ToLower (TrimSpace name)
      in if provider \<in> {''codex'', ''xai'', ''claude'', ''antigravity''} then Some True
         else if provider \<in> {''openai'', ''openai-compatibility'', ''gemini'', ''aistudio'', ''vertex'', ''kimi'', ''kimi-ai'', ''kimi.ai'',
                             ''kimi.com'', ''interactions'', ''gemini-interactions''} then Some False
         else if HasPrefix provider ''openai-compatible-'' then Some False
         else None)"

definition native_web :: "NativeCapabilityRoute \<Rightarrow> bool option" where
  "native_web route = (case rt_NativeCapabilities route of None \<Rightarrow> None | Some nc \<Rightarrow> nc_WebSearch nc)"

fun resolve_loop :: "bool \<Rightarrow> NativeCapabilityRoute list \<Rightarrow> bool option" where
  "resolve_loop hasUnknown [] = (if hasUnknown then None else Some True)"
| "resolve_loop hasUnknown (route # routes) =
     (if native_web route = Some False then Some False
      else case responsesWebSearchProviderPathSupport (rt_Provider route) of
          None \<Rightarrow> resolve_loop True routes
        | Some pathSupport \<Rightarrow>
            if \<not> pathSupport then Some False else resolve_loop (hasUnknown \<or> native_web route = None) routes)"

definition ResolveResponsesWebSearchCapability :: "NativeCapabilityRoute list \<Rightarrow> bool option" where
  "ResolveResponsesWebSearchCapability routes = (if routes = [] then None else resolve_loop False routes)"

definition capability_routes :: "string \<Rightarrow> 'm ModelRegistry \<Rightarrow> NativeCapabilityRoute list" where
  "capability_routes modelID r =
     concat (map (\<lambda>(clientID, modelIDs). map (\<lambda>registeredID.
         \<lparr>rt_Provider = list_at (gr_clientProviders r) clientID,
          rt_NativeCapabilities = (case map_of (list_at (gr_clientModelInfos r) clientID) registeredID of
             None \<Rightarrow> None | Some info \<Rightarrow> mi_NativeCapabilities info)\<rparr>)
       (filter (\<lambda>registeredID. TrimSpace registeredID = modelID) modelIDs)) (gr_clientModels r))"

definition GetResponsesWebSearchCapability :: "string \<Rightarrow> 'm ModelRegistry \<Rightarrow> bool option" where
  "GetResponsesWebSearchCapability name r =
     (let modelID = TrimSpace name in if modelID = [] then None else ResolveResponsesWebSearchCapability (capability_routes modelID r))"

end
