(* ===== verification/RegistryBindings.thy ===== *)
theory RegistryBindings
  imports ModelAvailability
begin

text \<open>
  The loops of the model registry seen one model at a time. Every round of the loops of
  \<open>registerClientLocked\<close> and \<open>unregisterClientInternal\<close> rewrites the registration of its own model only
  and reads nothing the loops write, so that the registration of a model after the loops is a
  function of its registration before them (\<open>changes_model\<close>, \<open>changes_fold\<close>). \<open>reg_ok\<close> says what a
  registration has to record; the lemmas follow it through a removal, an addition, a move to
  another provider and a refresh.
\<close>

named_theorems reg_views \<open>what the operations of the registry leave alone and what they write\<close>

section \<open>Reading maps\<close>

lemma count_at_update [simp, reg_views]: "count_at (AList.update k v m) k' = (if k' = k then v else count_at m k')"
  by (simp add: count_at_def update_conv')

lemma count_at_delete [simp, reg_views]: "count_at (AList.delete k m) k' = (if k' = k then 0 else count_at m k')"
  by (simp add: count_at_def delete_conv')

lemma list_at_update [simp, reg_views]: "list_at (AList.update k v m) k' = (if k' = k then v else list_at m k')"
  by (simp add: list_at_def update_conv')

lemma list_at_delete [simp, reg_views]: "list_at (AList.delete k m) k' = (if k' = k then [] else list_at m k')"
  by (simp add: list_at_def delete_conv')

lemma list_at_adjust: "list_at (adjust k f m) k' = (if k' = k \<and> map_of m k \<noteq> None then f (list_at m k) else list_at m k')"
  by (auto simp: list_at_def split: option.splits)

lemma count_at_Nil [simp]: "count_at [] k = 0"
  by (simp add: count_at_def)

lemma list_at_Nil [simp]: "list_at [] k = []"
  by (simp add: list_at_def)

lemma set_uniq [simp]: "set (uniq xs) = set xs"
  by (induction xs) auto

lemma distinct_uniq [simp]: "distinct (uniq xs)"
  by (induction xs) auto

lemma count_list_distinct_if: "distinct xs \<Longrightarrow> count_list xs x = (if x \<in> set xs then 1 else 0)"
  by (induction xs) auto

lemma set_web_sel [simp]: "mi_SupportsWebSearch (set_web b info) = b" "mi_ID (set_web b info) = mi_ID info"
  by (simp_all add: set_web_def)

section \<open>One model at a time\<close>

definition only_models :: "'m ModelRegistry \<Rightarrow> 'm ModelRegistry \<Rightarrow> bool" where
  "only_models r r' \<longleftrightarrow> r' = r\<lparr>gr_models := gr_models r'\<rparr>"

definition changes_model ::
  "string \<Rightarrow> ('m ModelRegistration option \<Rightarrow> 'm ModelRegistration option) \<Rightarrow> 'm ModelRegistry \<Rightarrow> 'm ModelRegistry \<Rightarrow> bool" where
  "changes_model i f r r' \<longleftrightarrow> only_models r r' \<and> map_of (gr_models r') = (map_of (gr_models r))(i := f (map_of (gr_models r) i))"

lemma only_models_refl [simp]: "only_models r r"
  by (simp add: only_models_def)

lemma only_models_upd [simp]: "only_models r (r\<lparr>gr_models := ms\<rparr>)"
  by (simp add: only_models_def)

lemma only_models_trans [trans]: "only_models r s \<Longrightarrow> only_models s t \<Longrightarrow> only_models r t"
  unfolding only_models_def by (cases r, cases s, cases t) simp

lemma only_modelsE:
  assumes "only_models r r'"
  obtains ms where "r' = r\<lparr>gr_models := ms\<rparr>"
  using assms unfolding only_models_def by metis

lemma own_web_models [simp, reg_views]: "own_web (r\<lparr>gr_models := ms\<rparr>) c i = own_web r c i"
  by (simp add: own_web_def)

lemma has_web_models [simp, reg_views]:
  "hasClientSupportingWebSearchLocked i p c (r\<lparr>gr_models := ms\<rparr>) = hasClientSupportingWebSearchLocked i p c r"
  by (simp add: hasClientSupportingWebSearchLocked_def)

lemma has_web_only_models: "only_models r r' \<Longrightarrow> hasClientSupportingWebSearchLocked i p c r' = hasClientSupportingWebSearchLocked i p c r"
  by (metis only_modelsE has_web_models)

lemma changes_id: "f (map_of (gr_models r) i) = map_of (gr_models r) i \<Longrightarrow> changes_model i f r r"
  by (auto simp: changes_model_def)

lemma changes_update:
  "f (map_of (gr_models r) i) = Some g \<Longrightarrow> changes_model i f r (r\<lparr>gr_models := AList.update i g (gr_models r)\<rparr>)"
  by (auto simp: changes_model_def update_conv')

lemma changes_delete:
  "f (map_of (gr_models r) i) = None \<Longrightarrow> changes_model i f r (r\<lparr>gr_models := AList.delete i (gr_models r)\<rparr>)"
  by (auto simp: changes_model_def delete_conv')

lemma changes_adjust: "changes_model i (map_option h) r (r\<lparr>gr_models := adjust i h (gr_models r)\<rparr>)"
  by (auto simp: changes_model_def fun_eq_iff)

lemmas changes_intros = changes_id changes_update changes_delete changes_adjust

lemma changes_fold:
  assumes "\<And>i r'. i \<in> set xs \<Longrightarrow> only_models r r' \<Longrightarrow> changes_model i (f i) r' (op i r')"
  shows "only_models r (fold op xs r) \<and> map_of (gr_models (fold op xs r)) j = (f j ^^ count_list xs j) (map_of (gr_models r) j)"
  using assms
proof (induction xs arbitrary: r)
  case (Cons x xs)
  have x: "changes_model x (f x) r (op x r)" using Cons.prems[of x r] by simp
  then have o: "only_models r (op x r)" by (simp add: changes_model_def)
  have IH: "only_models (op x r) (fold op xs (op x r)) \<and>
      map_of (gr_models (fold op xs (op x r))) j = (f j ^^ count_list xs j) (map_of (gr_models (op x r)) j)"
    using Cons.IH[of "op x r"] Cons.prems only_models_trans[OF o] by simp
  show ?case
    using IH x only_models_trans[OF o] by (auto simp: changes_model_def funpow_swap1)
qed simp

lemma changes_funpow:
  assumes "\<And>r'. only_models r r' \<Longrightarrow> changes_model i f r' (op r')"
  shows "changes_model i (f ^^ n) r ((op ^^ n) r)"
proof (induction n)
  case 0
  then show ?case by (simp add: changes_id)
next
  case (Suc n)
  then have o: "only_models r ((op ^^ n) r)" by (simp add: changes_model_def)
  from assms[OF o] Suc show ?case
    by (auto simp: changes_model_def intro: only_models_trans)
qed

section \<open>The rounds of the loops as functions of one registration\<close>

definition web_flags :: "string \<Rightarrow> bool \<Rightarrow> bool \<Rightarrow> 'm ModelRegistration \<Rightarrow> 'm ModelRegistration" where
  "web_flags p w v g = g\<lparr>mr_Info := set_web w (mr_Info g),
     mr_InfoByProvider := (if p = [] then mr_InfoByProvider g else adjust p (set_web v) (mr_InfoByProvider g))\<rparr>"

definition rm_one ::
  "string \<Rightarrow> string \<Rightarrow> gtime \<Rightarrow> bool \<Rightarrow> bool \<Rightarrow> bool \<Rightarrow> 'm ModelRegistration option \<Rightarrow> 'm ModelRegistration option" where
  "rm_one c p now keep w v go = (case go of None \<Rightarrow> None
     | Some g \<Rightarrow> (let g = g\<lparr>mr_Count := max 0 (mr_Count g - 1), mr_LastUpdated := now\<rparr>;
                      g = (if keep then g else forget_client c g);
                      g = (if p = [] then g else drop_provider p 1 g)
                  in if mr_Count g \<le> 0 then None else Some (web_flags p w v g)))"

definition add_one ::
  "string \<Rightarrow> 'm ModelInfo \<Rightarrow> gtime \<Rightarrow> bool \<Rightarrow> bool \<Rightarrow> 'm ModelRegistration option \<Rightarrow> 'm ModelRegistration option" where
  "add_one p model now w v go = Some (case go of
     None \<Rightarrow> \<lparr>mr_Info = model, mr_InfoByProvider = (if p = [] then [] else [(p, model)]), mr_Count = 1, mr_LastUpdated = now,
              mr_QuotaExceededClients = [], mr_Providers = (if p = [] then [] else [(p, 1)]), mr_SuspendedClients = []\<rparr>
   | Some g \<Rightarrow>
       (let g = g\<lparr>mr_Count := mr_Count g + 1, mr_LastUpdated := now, mr_Info := set_web (mi_SupportsWebSearch model \<or> w) model\<rparr>
        in if p = [] then g
           else g\<lparr>mr_Providers := AList.update p (count_at (mr_Providers g) p + 1) (mr_Providers g),
                  mr_InfoByProvider := AList.update p (set_web (mi_SupportsWebSearch model \<or> v) model) (mr_InfoByProvider g)\<rparr>))"

definition move_one :: "string \<Rightarrow> int \<Rightarrow> bool \<Rightarrow> 'm ModelRegistration option \<Rightarrow> 'm ModelRegistration option" where
  "move_one p n v = map_option (\<lambda>g. let h = drop_provider p n g
     in if map_of (mr_Providers h) p = None then h else h\<lparr>mr_InfoByProvider := adjust p (set_web v) (mr_InfoByProvider h)\<rparr>)"

lemma drop_provider_sel [simp]:
  "mr_Count (drop_provider p n g) = mr_Count g" "mr_Info (drop_provider p n g) = mr_Info g"
  by (auto simp: drop_provider_def split: option.splits)

lemma forget_client_sel [simp]:
  "mr_Count (forget_client c g) = mr_Count g" "mr_Info (forget_client c g) = mr_Info g"
  "mr_Providers (forget_client c g) = mr_Providers g" "mr_InfoByProvider (forget_client c g) = mr_InfoByProvider g"
  by (simp_all add: forget_client_def)

lemma removeModelRegistration_changes:
  "changes_model i (rm_one c p now keep (hasClientSupportingWebSearchLocked i [] c r) (hasClientSupportingWebSearchLocked i p c r))
     r (removeModelRegistration c i p now keep r)"
  unfolding removeModelRegistration_def
  by (cases "map_of (gr_models r) i")
     (auto simp: Let_def rm_one_def refresh_web_def web_flags_def max_def intro!: changes_intros split: if_splits)

text \<open>A round of \<open>unregisterClientInternal\<close> does what \<open>removeModelRegistration\<close> does without keeping state.\<close>

lemma unregister_model_eq: "unregister_model c p now i r = removeModelRegistration c i p now False r"
proof (cases "map_of (gr_models r) i")
  case (Some g)
  show ?thesis
  proof (cases "mr_Count g < 1")
    case True
    then show ?thesis using Some by (simp add: unregister_model_def removeModelRegistration_def Let_def)
  next
    case False
    then show ?thesis using Some by (simp add: unregister_model_def removeModelRegistration_def Let_def)
  qed
qed (simp add: unregister_model_def removeModelRegistration_def)

lemma addModelRegistration_changes:
  "i \<noteq> [] \<Longrightarrow> changes_model i (add_one p model now (hasClientSupportingWebSearchLocked i [] c r) (hasClientSupportingWebSearchLocked i p c r))
     r (addModelRegistration i p model now c r)"
  unfolding addModelRegistration_def
  by (cases "map_of (gr_models r) i") (auto simp: Let_def add_one_def intro!: changes_intros)

lemma move_provider_changes:
  "changes_model i (if count_list olds i = 0 then id else move_one oldP (int (min (count_list news i) (count_list olds i)))
       (hasClientSupportingWebSearchLocked i oldP c r)) r (move_provider c oldP olds news i r)"
  unfolding move_provider_def Let_def
  by (cases "map_of (gr_models r) i") (auto simp: move_one_def Let_def intro!: changes_intros)



text \<open>The last loop writes a registration by a function that reads the registry for the web-search
  index only.\<close>

lemma refreshed_registration_only_models:
  "only_models r r' \<Longrightarrow> refreshed_registration c oldP p olds news keep model now i r' g = refreshed_registration c oldP p olds news keep model now i r g"
  unfolding refreshed_registration_def by (simp only: has_web_only_models)

section \<open>What a registration has to record\<close>

text \<open>\<open>K\<close> bindings in all, \<open>P p\<close> of them by clients of the provider \<open>p\<close>, web search offered by some client
  (\<open>W\<close>) and by some client of the provider \<open>p\<close> (\<open>V p\<close>). Clients without a provider count in \<open>K\<close> only.\<close>

definition prov_ok :: "(string \<Rightarrow> int) \<Rightarrow> (string \<Rightarrow> bool) \<Rightarrow> 'm ModelRegistration \<Rightarrow> bool" where
  "prov_ok P V g \<longleftrightarrow> keys_distinct (mr_Providers g) \<and>
     (\<forall>p. map_of (mr_Providers g) p = (if p = [] \<or> P p = 0 then None else Some (P p))) \<and>
     (\<forall>p. map_of (mr_InfoByProvider g) p = None \<longleftrightarrow> p = [] \<or> P p = 0) \<and>
     (\<forall>p info. map_of (mr_InfoByProvider g) p = Some info \<longrightarrow> mi_SupportsWebSearch info = V p)"

definition reg_ok :: "int \<Rightarrow> (string \<Rightarrow> int) \<Rightarrow> bool \<Rightarrow> (string \<Rightarrow> bool) \<Rightarrow> 'm ModelRegistration option \<Rightarrow> bool" where
  "reg_ok K P W V go = (case go of
     None \<Rightarrow> K = 0 \<and> (\<forall>p. p \<noteq> [] \<longrightarrow> P p = 0)
   | Some g \<Rightarrow> K > 0 \<and> mr_Count g = K \<and> mi_SupportsWebSearch (mr_Info g) = W \<and> prov_ok P V g)"

lemma reg_ok_None [simp]: "reg_ok K P W V None \<longleftrightarrow> K = 0 \<and> (\<forall>p. p \<noteq> [] \<longrightarrow> P p = 0)"
  by (simp add: reg_ok_def)

lemma reg_ok_Some: "reg_ok K P W V (Some g) \<longleftrightarrow> K > 0 \<and> mr_Count g = K \<and> mi_SupportsWebSearch (mr_Info g) = W \<and> prov_ok P V g"
  by (simp add: reg_ok_def)

lemma prov_ok_cong: "mr_Providers g = mr_Providers h \<Longrightarrow> mr_InfoByProvider g = mr_InfoByProvider h \<Longrightarrow> prov_ok P V g = prov_ok P V h"
  by (simp add: prov_ok_def)

lemma prov_ok_irrelevant: "prov_ok P V g \<Longrightarrow> (\<And>p. p \<noteq> [] \<Longrightarrow> P' p = P p) \<Longrightarrow> (\<And>p. p \<noteq> [] \<Longrightarrow> V' p = V p) \<Longrightarrow> prov_ok P' V' g"
  unfolding prov_ok_def by (metis option.distinct(1))

lemma prov_ok_drop:
  assumes "prov_ok P V g" "p \<noteq> []" "0 < n" "n \<le> P p"
  shows "prov_ok (P(p := P p - n)) V (drop_provider p n g)"
proof -
  have m: "map_of (mr_Providers g) p = Some (P p)" using assms by (auto simp: prov_ok_def)
  show ?thesis
  proof (cases "P p = n")
    case True
    then show ?thesis using assms m by (auto simp: prov_ok_def drop_provider_def delete_conv')
  next
    case False
    then show ?thesis using assms m by (auto simp: prov_ok_def drop_provider_def update_conv' distinct_update)
  qed
qed

lemma prov_ok_adjust:
  assumes "prov_ok P V g"
  shows "prov_ok P (V(p := v)) (g\<lparr>mr_InfoByProvider := adjust p (set_web v) (mr_InfoByProvider g)\<rparr>)"
  using assms by (auto simp: prov_ok_def)

lemma prov_ok_web_flags:
  assumes "prov_ok P V g"
  shows "prov_ok P (V(p := v)) (web_flags p w v g)"
proof (cases "p = []")
  case True
  then show ?thesis using assms prov_ok_irrelevant[of P V g P "V(p := v)"]
    by (auto simp: web_flags_def intro: prov_ok_cong[THEN iffD1, rotated 2])
next
  case False
  then show ?thesis using prov_ok_adjust[OF assms, of p v]
    by (auto simp: web_flags_def intro: prov_ok_cong[THEN iffD1, rotated 2])
qed

lemma prov_ok_set:
  assumes "prov_ok P V g" "p \<noteq> []" "0 \<le> P p" "0 < n"
  shows "prov_ok (P(p := P p + n)) (V(p := mi_SupportsWebSearch info))
     (g\<lparr>mr_Providers := AList.update p (count_at (mr_Providers g) p + n) (mr_Providers g),
        mr_InfoByProvider := AList.update p info (mr_InfoByProvider g)\<rparr>)"
proof -
  have "count_at (mr_Providers g) p = P p" using assms by (simp add: prov_ok_def count_at_def)
  then show ?thesis using assms by (auto simp: prov_ok_def update_conv' distinct_update)
qed

section \<open>The rounds keep the records right\<close>

lemma rm_one_ok:
  assumes ok: "reg_ok K P W V go" and K: "0 < K" and p: "p \<noteq> [] \<Longrightarrow> 1 \<le> P p"
    and last: "K = 1 \<Longrightarrow> \<forall>q. q \<noteq> [] \<longrightarrow> (P(p := P p - 1)) q = 0"
  shows "reg_ok (K - 1) (P(p := P p - 1)) w (V(p := v)) (rm_one c p now keep w v go)"
proof (cases go)
  case None
  then show ?thesis using ok K by simp
next
  case (Some g)
  define h where "h = (if keep then g\<lparr>mr_Count := K - 1, mr_LastUpdated := now\<rparr> else forget_client c (g\<lparr>mr_Count := K - 1, mr_LastUpdated := now\<rparr>))"
  define d where "d = (if p = [] then h else drop_provider p 1 h)"
  have g: "mr_Count g = K" "prov_ok P V g" using ok Some by (auto simp: reg_ok_Some)
  then have "prov_ok P V h" by (auto simp: h_def intro: prov_ok_cong[THEN iffD1, rotated 2])
  then have d: "prov_ok (P(p := P p - 1)) V d" "mr_Count d = K - 1"
    using p prov_ok_drop[of P V h p 1] prov_ok_irrelevant[of P V h "P(p := P p - 1)" V] by (auto simp: d_def h_def)
  have "rm_one c p now keep w v go = (if K \<le> 1 then None else Some (web_flags p w v d))"
    using Some g K d by (simp add: rm_one_def h_def d_def Let_def max_def)
  moreover have "mr_Count (web_flags p w v d) = K - 1" "mi_SupportsWebSearch (mr_Info (web_flags p w v d)) = w"
    using d by (simp_all add: web_flags_def)
  ultimately show ?thesis
    using K last prov_ok_web_flags[OF d(1)] by (auto simp: reg_ok_Some)
qed

lemma rm_pow_ok:
  assumes ok: "reg_ok K P W V go" and n: "0 < n" "int n \<le> K" and p: "p \<noteq> [] \<Longrightarrow> int n \<le> P p"
    and last: "int n = K \<Longrightarrow> \<forall>q. q \<noteq> [] \<longrightarrow> (P(p := P p - int n)) q = 0"
  shows "reg_ok (K - int n) (P(p := P p - int n)) w (V(p := v)) ((rm_one c p now keep w v ^^ n) go)"
  using n p last
proof (induction n)
  case (Suc n)
  show ?case
  proof (cases n)
    case 0
    have "reg_ok (K - 1) (P(p := P p - 1)) w (V(p := v)) (rm_one c p now keep w v go)"
      using rm_one_ok[OF ok, of p w v c now keep] Suc.prems 0 by simp
    then show ?thesis using 0 by (simp del: fun_upd_apply)
  next
    case (Suc m)
    have "reg_ok (K - int n) (P(p := P p - int n)) w (V(p := v)) ((rm_one c p now keep w v ^^ n) go)"
      using Suc.prems Suc by (intro Suc.IH) auto
    moreover have "\<forall>q. q \<noteq> [] \<longrightarrow> (P(p := P p - int n, p := (P(p := P p - int n)) p - 1)) q = 0" if "K - int n = 1"
      using Suc.prems(4) that by (auto simp: algebra_simps)
    ultimately have "reg_ok (K - int n - 1) (P(p := P p - int n, p := (P(p := P p - int n)) p - 1)) w (V(p := v, p := v))
        (rm_one c p now keep w v ((rm_one c p now keep w v ^^ n) go))"
      using Suc.prems by (intro rm_one_ok) auto
    then show ?thesis by (simp add: algebra_simps fun_upd_same del: fun_upd_apply)
  qed
qed simp

lemma add_one_ok:
  assumes ok: "reg_ok K P W V go" and nonneg: "0 \<le> K" "0 \<le> P p" and fresh: "K = 0 \<Longrightarrow> \<not> w \<and> \<not> v"
  shows "reg_ok (K + 1) (P(p := P p + 1)) (mi_SupportsWebSearch m \<or> w) (V(p := mi_SupportsWebSearch m \<or> v)) (add_one p m now w v go)"
proof (cases go)
  case None
  then show ?thesis using ok fresh by (auto simp: add_one_def reg_ok_def prov_ok_def)
next
  case (Some g)
  define h where "h = g\<lparr>mr_Count := mr_Count g + 1, mr_LastUpdated := now, mr_Info := set_web (mi_SupportsWebSearch m \<or> w) m\<rparr>"
  have h: "prov_ok P V h" "mr_Count h = K + 1" "mi_SupportsWebSearch (mr_Info h) = (mi_SupportsWebSearch m \<or> w)"
    using ok Some by (auto simp: h_def reg_ok_Some intro: prov_ok_cong[THEN iffD1, rotated 2])
  show ?thesis
  proof (cases "p = []")
    case True
    then have "prov_ok (P(p := P p + 1)) (V(p := mi_SupportsWebSearch m \<or> v)) h" using h(1) by (auto intro: prov_ok_irrelevant)
    then show ?thesis using True Some h nonneg by (simp add: add_one_def reg_ok_Some h_def Let_def)
  next
    case False
    then show ?thesis
      using Some h nonneg prov_ok_set[OF h(1) False, of 1 "set_web (mi_SupportsWebSearch m \<or> v) m"]
      by (simp add: add_one_def reg_ok_Some h_def Let_def)
  qed
qed

lemma add_pow_ok:
  assumes ok: "reg_ok K P W V go" and nonneg: "0 \<le> K" "0 \<le> P p" and fresh: "K = 0 \<Longrightarrow> \<not> w \<and> \<not> v" and n: "0 < n"
  shows "reg_ok (K + int n) (P(p := P p + int n)) (mi_SupportsWebSearch m \<or> w) (V(p := mi_SupportsWebSearch m \<or> v))
     ((add_one p m now w v ^^ n) go)"
  using n
proof (induction n)
  case (Suc n)
  show ?case
  proof (cases n)
    case 0
    then show ?thesis using add_one_ok[OF ok nonneg fresh, of m now] by (simp del: fun_upd_apply)
  next
    case (Suc k)
    then have "reg_ok (K + int n) (P(p := P p + int n)) (mi_SupportsWebSearch m \<or> w) (V(p := mi_SupportsWebSearch m \<or> v))
       ((add_one p m now w v ^^ n) go)" using Suc.IH by (simp del: fun_upd_apply)
    from add_one_ok[OF this, of p w v m now] nonneg Suc show ?thesis by (simp add: algebra_simps fun_upd_same del: fun_upd_apply)
  qed
qed simp

lemma move_one_ok:
  assumes ok: "reg_ok K P W V go" and "p \<noteq> []" "0 < n" "n \<le> P p"
  shows "reg_ok K (P(p := P p - n)) W (V(p := v)) (move_one p n v go)"
proof (cases go)
  case None
  then show ?thesis using assms by (auto simp: move_one_def)
next
  case (Some g)
  have d: "prov_ok (P(p := P p - n)) V (drop_provider p n g)" using assms Some by (auto simp: reg_ok_Some intro: prov_ok_drop)
  show ?thesis
  proof (cases "P p = n")
    case True
    have "prov_ok (P(p := P p - n)) (V(p := v)) (drop_provider p n g)"
      using d True assms(2) unfolding prov_ok_def by (metis fun_upd_apply option.distinct(1) cancel_comm_monoid_add_class.diff_cancel)
    moreover have "map_of (mr_Providers (drop_provider p n g)) p = None" using d True by (simp add: prov_ok_def)
    ultimately show ?thesis using ok Some by (simp add: move_one_def reg_ok_Some Let_def)
  next
    case False
    then have "map_of (mr_Providers (drop_provider p n g)) p \<noteq> None" using d assms by (simp add: prov_ok_def)
    then show ?thesis using ok Some prov_ok_adjust[OF d, of p v] by (auto simp: move_one_def reg_ok_Some Let_def)
  qed
qed

lemma refreshed_reg_ok:
  assumes ok: "reg_ok K P W V (Some g)" and nonneg: "0 \<le> P p"
    and has: "p \<noteq> [] \<Longrightarrow> oldP = p \<or> o' = 0 \<or> n = 0 \<Longrightarrow> 0 < P p"
    and o': "o' = count_list olds i" and n: "n = count_list news i"
    and w: "w = hasClientSupportingWebSearchLocked i [] c r" and v: "v = hasClientSupportingWebSearchLocked i p c r"
    and vo: "vo = hasClientSupportingWebSearchLocked i oldP c r"
  shows "reg_ok K (if oldP = p then P else P(p := P p + int (min n o'))) (mi_SupportsWebSearch m \<or> w)
     (V(oldP := vo, p := mi_SupportsWebSearch m \<or> v))
     (Some (refreshed_registration c oldP p olds news keep m now i r g))"
proof -
  let ?m = "mi_SupportsWebSearch m"
  define P' where "P' = (if oldP = p then P else P(p := P p + int (min n o')))"
  define g1 where "g1 = g\<lparr>mr_Info := set_web (?m \<or> w) m,
     mr_InfoByProvider := (if p = [] then mr_InfoByProvider g else AList.update p (set_web (?m \<or> v) m) (mr_InfoByProvider g)),
     mr_Providers := (if oldP \<noteq> p \<and> p \<noteq> [] \<and> min n o' > 0
       then AList.update p (count_at (mr_Providers g) p + int (min n o')) (mr_Providers g) else mr_Providers g)\<rparr>"
  define h where "h = refreshed_registration c oldP p olds news keep m now i r g"
  have g: "prov_ok P V g" using ok by (simp add: reg_ok_Some)
  have h: "mr_Count h = mr_Count g" "mr_Info h = set_web (?m \<or> w) m" "mr_Providers h = mr_Providers g1"
    "mr_InfoByProvider h = (if oldP \<noteq> p \<and> oldP \<noteq> [] then adjust oldP (set_web vo) (mr_InfoByProvider g1) else mr_InfoByProvider g1)"
    by (auto simp: h_def g1_def refreshed_registration_def Let_def o' n w v vo forget_client_def)
  have g1: "prov_ok P' (V(p := ?m \<or> v)) g1"
  proof (cases "p = []")
    case True
    then have "prov_ok P' (V(p := ?m \<or> v)) g" by (intro prov_ok_irrelevant[OF g]) (auto simp: P'_def)
    then show ?thesis using True by (auto simp: g1_def intro: prov_ok_cong[THEN iffD1, rotated 2])
  next
    case p: False
    show ?thesis
    proof (cases "oldP \<noteq> p \<and> min n o' > 0")
      case True
      then show ?thesis using p prov_ok_set[OF g p nonneg, of "int (min n o')" "set_web (?m \<or> v) m"]
        by (auto simp: g1_def P'_def intro: prov_ok_cong[THEN iffD1, rotated 2])
    next
      case False
      then have "0 < P p" "P' = P" using has p by (auto simp: P'_def)
      then show ?thesis using g p False by (auto simp: prov_ok_def g1_def update_conv')
    qed
  qed
  have "prov_ok P' (V(oldP := vo, p := ?m \<or> v)) h"
  proof (cases "oldP \<noteq> p \<and> oldP \<noteq> []")
    case True
    then have e: "V(oldP := vo, p := ?m \<or> v) = (V(p := ?m \<or> v))(oldP := vo)" by (intro fun_upd_twist) simp
    show ?thesis unfolding e using True h prov_ok_adjust[OF g1, of oldP vo] by (auto intro: prov_ok_cong[THEN iffD1, rotated 2])
  next
    case False
    then have "prov_ok P' (V(oldP := vo, p := ?m \<or> v)) g1" using prov_ok_irrelevant[OF g1, of P'] by auto
    then show ?thesis using False h by (auto intro: prov_ok_cong[THEN iffD1, rotated 2])
  qed
  then show ?thesis using ok h by (simp add: reg_ok_Some P'_def h_def)
qed

section \<open>The reconciliation of one model\<close>

definition reconciled ::
  "string \<Rightarrow> string \<Rightarrow> string \<Rightarrow> string list \<Rightarrow> string list \<Rightarrow> bool \<Rightarrow> 'm ModelInfo \<Rightarrow> gtime \<Rightarrow> 'm ModelRegistry \<Rightarrow> string \<Rightarrow>
     'm ModelRegistration option \<Rightarrow> 'm ModelRegistration option" where
  "reconciled c oldP p olds news keep m now r i go =
     (let k = count_list olds i; n = count_list news i; has = (\<lambda>q. hasClientSupportingWebSearchLocked i q c r);
          go = (if oldP \<noteq> p \<and> oldP \<noteq> [] \<and> n \<noteq> 0 \<and> k \<noteq> 0 then move_one oldP (int (min n k)) (has oldP) go else go);
          go = (if n = 0 \<and> k \<noteq> 0 then (rm_one c oldP now False (has []) (has oldP) ^^ k) go else go);
          go = (if n \<noteq> 0 \<and> k \<noteq> 0 then (rm_one c oldP now (keep \<and> oldP = p) (has []) (has oldP) ^^ (k - n)) go else go);
          go = (if n \<noteq> 0 then (add_one p m now (has []) (has p) ^^ (n - k)) go else go)
      in if n \<noteq> 0 then map_option (refreshed_registration c oldP p olds news keep m now i r) go else go)"

lemma count_list_pos [simp]: "0 < count_list xs x \<longleftrightarrow> x \<in> set xs" "count_list xs x = 0 \<longleftrightarrow> x \<notin> set xs"
  by (metis count_list_0_iff neq0_conv) (rule count_list_0_iff)

lemma changes_fold_distinct:
  assumes "distinct xs" "\<And>i s. i \<in> set xs \<Longrightarrow> only_models r s \<Longrightarrow> changes_model i (f i) s (op i s)"
  shows "only_models r (fold op xs r)"
    "map_of (gr_models (fold op xs r)) j = (if j \<in> set xs then f j (map_of (gr_models r) j) else map_of (gr_models r) j)"
proof -
  have "only_models r (fold op xs r) \<and> map_of (gr_models (fold op xs r)) j = (f j ^^ count_list xs j) (map_of (gr_models r) j)"
    by (rule changes_fold) (rule assms(2))
  then show "only_models r (fold op xs r)"
    "map_of (gr_models (fold op xs r)) j = (if j \<in> set xs then f j (map_of (gr_models r) j) else map_of (gr_models r) j)"
    using assms(1) by (auto simp: count_list_distinct_if)
qed

text \<open>Each loop of the reconciliation, with the web-search index as it was before the first of them.\<close>

lemma remove_rounds:
  assumes "only_models r s"
  shows "changes_model i (rm_one c p now b (hasClientSupportingWebSearchLocked i [] c r) (hasClientSupportingWebSearchLocked i p c r) ^^ k)
     s ((removeModelRegistration c i p now b ^^ k) s)"
proof (rule changes_funpow)
  fix s' assume "only_models s s'"
  then have "only_models r s'" using assms only_models_trans by blast
  then show "changes_model i (rm_one c p now b (hasClientSupportingWebSearchLocked i [] c r) (hasClientSupportingWebSearchLocked i p c r))
      s' (removeModelRegistration c i p now b s')"
    using removeModelRegistration_changes[of i c p now b s'] by (simp add: has_web_only_models)
qed

lemma add_rounds:
  assumes "only_models r s" "i \<noteq> []"
  shows "changes_model i (add_one p m now (hasClientSupportingWebSearchLocked i [] c r) (hasClientSupportingWebSearchLocked i p c r) ^^ k)
     s ((addModelRegistration i p m now c ^^ k) s)"
proof (rule changes_funpow)
  fix s' assume "only_models s s'"
  then have "only_models r s'" using assms only_models_trans by blast
  then show "changes_model i (add_one p m now (hasClientSupportingWebSearchLocked i [] c r) (hasClientSupportingWebSearchLocked i p c r))
      s' (addModelRegistration i p m now c s')"
    using addModelRegistration_changes[of i p m now c s'] assms by (simp add: has_web_only_models)
qed

lemma move_round:
  assumes "only_models r s"
  shows "changes_model i (if count_list olds i = 0 then id else move_one oldP (int (min (count_list news i) (count_list olds i)))
     (hasClientSupportingWebSearchLocked i oldP c r)) s (move_provider c oldP olds news i s)"
  using move_provider_changes[of i olds oldP news c s] by (simp only: has_web_only_models[OF assms])

lemma refresh_round:
  assumes "only_models r s"
  shows "changes_model i (map_option (refreshed_registration c oldP p olds news keep m now i r)) s
     (s\<lparr>gr_models := adjust i (refreshed_registration c oldP p olds news keep m now i s) (gr_models s)\<rparr>)"
proof -
  have "refreshed_registration c oldP p olds news keep m now i s = refreshed_registration c oldP p olds news keep m now i r"
    by (rule ext) (rule refreshed_registration_only_models[OF assms])
  then show ?thesis using changes_adjust by metis
qed

lemma move_loop:
  assumes "only_models r s" "distinct xs"
  shows "only_models s (fold (move_provider c oldP olds news) xs s)"
    "map_of (gr_models (fold (move_provider c oldP olds news) xs s)) j = (if j \<in> set xs \<and> count_list olds j \<noteq> 0
       then move_one oldP (int (min (count_list news j) (count_list olds j))) (hasClientSupportingWebSearchLocked j oldP c r) (map_of (gr_models s) j)
       else map_of (gr_models s) j)"
  using changes_fold_distinct[where op = "move_provider c oldP olds news" and xs = xs and r = s,
      OF assms(2) move_round[OF only_models_trans[OF assms(1)]]] by (auto split: if_splits)

lemma remove_loop:
  assumes "only_models r s" "distinct xs"
  shows "only_models s (fold (\<lambda>i. removeModelRegistration c i p now b ^^ k i) xs s)"
    "map_of (gr_models (fold (\<lambda>i. removeModelRegistration c i p now b ^^ k i) xs s)) j = (if j \<in> set xs
       then (rm_one c p now b (hasClientSupportingWebSearchLocked j [] c r) (hasClientSupportingWebSearchLocked j p c r) ^^ k j) (map_of (gr_models s) j)
       else map_of (gr_models s) j)"
  using changes_fold_distinct[where op = "\<lambda>i. removeModelRegistration c i p now b ^^ k i" and xs = xs and r = s,
      OF assms(2) remove_rounds[OF only_models_trans[OF assms(1)]]] by auto

lemma add_loop:
  assumes "only_models r s" "distinct xs" "[] \<notin> set xs"
  shows "only_models s (fold (\<lambda>i. addModelRegistration i p (m i) now c ^^ k i) xs s)"
    "map_of (gr_models (fold (\<lambda>i. addModelRegistration i p (m i) now c ^^ k i) xs s)) j = (if j \<in> set xs
       then (add_one p (m j) now (hasClientSupportingWebSearchLocked j [] c r) (hasClientSupportingWebSearchLocked j p c r) ^^ k j) (map_of (gr_models s) j)
       else map_of (gr_models s) j)"
proof -
  have "changes_model i (add_one p (m i) now (hasClientSupportingWebSearchLocked i [] c r) (hasClientSupportingWebSearchLocked i p c r) ^^ k i)
      s' ((addModelRegistration i p (m i) now c ^^ k i) s')" if "i \<in> set xs" "only_models s s'" for i s'
    using that assms by (intro add_rounds only_models_trans[OF assms(1)]) auto
  from changes_fold_distinct[where op = "\<lambda>i. addModelRegistration i p (m i) now c ^^ k i" and xs = xs and r = s, OF assms(2) this]
  show "only_models s (fold (\<lambda>i. addModelRegistration i p (m i) now c ^^ k i) xs s)"
    "map_of (gr_models (fold (\<lambda>i. addModelRegistration i p (m i) now c ^^ k i) xs s)) j = (if j \<in> set xs
       then (add_one p (m j) now (hasClientSupportingWebSearchLocked j [] c r) (hasClientSupportingWebSearchLocked j p c r) ^^ k j) (map_of (gr_models s) j)
       else map_of (gr_models s) j)"
    by auto
qed

lemma refresh_loop:
  assumes "only_models r s" "distinct xs"
    and op: "op = (\<lambda>i s. s\<lparr>gr_models := adjust i (refreshed_registration c oldP p olds news keep (m i) now i s) (gr_models s)\<rparr>)"
  shows "only_models s (fold op xs s)"
    "map_of (gr_models (fold op xs s)) j = (if j \<in> set xs
       then map_option (refreshed_registration c oldP p olds news keep (m j) now j r) (map_of (gr_models s) j) else map_of (gr_models s) j)"
  unfolding op
  using changes_fold_distinct[where xs = xs and r = s, OF assms(2) refresh_round[OF only_models_trans[OF assms(1)]]] by auto

lemma reconcile_view:
  assumes ids: "[] \<notin> set (map mi_ID ms)" and old: "oldP = list_at (gr_clientProviders r) c"
  obtains s where "only_models r s"
    "\<And>i. map_of (gr_models s) i = reconciled c oldP p olds (map mi_ID ms) keep (the (map_of (new_models ms) i)) now r i (map_of (gr_models r) i)"
    "reconcile c p ms keep olds now r = addClientWebSearchCountsLocked c (set_client c p ms (dropClientWebSearchCountsLocked c s))"
proof -
  let ?news = "map mi_ID ms"
  let ?has = "\<lambda>i q. hasClientSupportingWebSearchLocked i q c r" and ?m = "\<lambda>i. the (map_of (new_models ms) i)"
  let ?o = "\<lambda>i. count_list olds i" and ?n = "\<lambda>i. count_list ?news i"
  define r1 where "r1 = (if oldP \<noteq> p \<and> oldP \<noteq> [] then fold (move_provider c oldP olds ?news) (uniq ?news) r else r)"
  define r2 where "r2 = fold (\<lambda>i. removeModelRegistration c i oldP now False ^^ ?o i) (filter (\<lambda>i. ?n i = 0) (uniq olds)) r1"
  define r3 where "r3 = fold (\<lambda>i. removeModelRegistration c i oldP now (keep \<and> oldP = p) ^^ (?o i - ?n i)) (filter (\<lambda>i. ?n i \<noteq> 0) (uniq olds)) r2"
  define r4 where "r4 = fold (\<lambda>i. addModelRegistration i p (?m i) now c ^^ (?n i - ?o i)) (uniq ?news) r3"
  define r5 where "r5 = fold (\<lambda>i r. r\<lparr>gr_models := adjust i (refreshed_registration c oldP p olds ?news keep (?m i) now i r) (gr_models r)\<rparr>) (uniq ?news) r4"
  have 1: "only_models r r1" "map_of (gr_models r1) i = (if oldP \<noteq> p \<and> oldP \<noteq> [] \<and> ?n i \<noteq> 0 \<and> ?o i \<noteq> 0
      then move_one oldP (int (min (?n i) (?o i))) (?has i oldP) (map_of (gr_models r) i) else map_of (gr_models r) i)" for i
    by (auto simp: r1_def move_loop[OF only_models_refl distinct_uniq])
  have 2: "only_models r r2" "map_of (gr_models r2) i = (if ?n i = 0 \<and> ?o i \<noteq> 0
      then (rm_one c oldP now False (?has i []) (?has i oldP) ^^ ?o i) (map_of (gr_models r1) i) else map_of (gr_models r1) i)" for i
    using remove_loop[OF 1(1) distinct_filter[OF distinct_uniq]] only_models_trans[OF 1(1)] by (auto simp: r2_def)
  have 3: "only_models r r3" "map_of (gr_models r3) i = (if ?n i \<noteq> 0 \<and> ?o i \<noteq> 0
      then (rm_one c oldP now (keep \<and> oldP = p) (?has i []) (?has i oldP) ^^ (?o i - ?n i)) (map_of (gr_models r2) i) else map_of (gr_models r2) i)" for i
    using remove_loop[OF 2(1) distinct_filter[OF distinct_uniq]] only_models_trans[OF 2(1)] by (auto simp: r3_def)
  have 4: "only_models r r4" "map_of (gr_models r4) i = (if ?n i \<noteq> 0
      then (add_one p (?m i) now (?has i []) (?has i p) ^^ (?n i - ?o i)) (map_of (gr_models r3) i) else map_of (gr_models r3) i)" for i
    using add_loop[OF 3(1) distinct_uniq, of ?news] only_models_trans[OF 3(1)] ids by (auto simp: r4_def)
  have 5: "only_models r r5" "map_of (gr_models r5) i = (if ?n i \<noteq> 0
      then map_option (refreshed_registration c oldP p olds ?news keep (?m i) now i r) (map_of (gr_models r4) i) else map_of (gr_models r4) i)" for i
    using refresh_loop[OF 4(1) distinct_uniq refl] only_models_trans[OF 4(1)] by (auto simp: r5_def)
  show thesis
  proof (rule that)
    show "only_models r r5" by (rule 5(1))
    show "map_of (gr_models r5) i = reconciled c oldP p olds ?news keep (?m i) now r i (map_of (gr_models r) i)" for i
      unfolding reconciled_def Let_def 5(2) 4(2) 3(2) 2(2) 1(2) by (rule refl)
    show "reconcile c p ms keep olds now r = addClientWebSearchCountsLocked c (set_client c p ms (dropClientWebSearchCountsLocked c r5))"
      unfolding reconcile_def Let_def r5_def r4_def r3_def r2_def r1_def old by (simp only: not_not)
  qed
qed

text \<open>Right up to the web-search flags of the providers in \<open>Q\<close>, which a later round writes.\<close>

definition reg_near :: "int \<Rightarrow> (string \<Rightarrow> int) \<Rightarrow> (string \<Rightarrow> bool) \<Rightarrow> string set \<Rightarrow> 'm ModelRegistration option \<Rightarrow> bool" where
  "reg_near K P V Q go \<longleftrightarrow> (\<exists>W' V'. (\<forall>q. q \<notin> Q \<longrightarrow> V' q = V q) \<and> reg_ok K P W' V' go)"

lemma reg_ok_irrelevant:
  "reg_ok K P W V go \<Longrightarrow> (\<And>q. q \<noteq> [] \<Longrightarrow> P' q = P q) \<Longrightarrow> (\<And>q. q \<noteq> [] \<Longrightarrow> V' q = V q) \<Longrightarrow> reg_ok K P' W V' go"
  by (cases go) (auto simp: reg_ok_Some intro: prov_ok_irrelevant)

lemma near_start: "reg_ok K P W V go \<Longrightarrow> reg_near K P V Q go"
  unfolding reg_near_def by blast

lemma near_counts: "reg_near K P V Q go \<Longrightarrow> (\<And>q. q \<noteq> [] \<Longrightarrow> P' q = P q) \<Longrightarrow> reg_near K P' V Q go"
  unfolding reg_near_def using reg_ok_irrelevant by metis

lemma near_rm:
  assumes "reg_near K P V Q go" "p \<in> Q" "n \<noteq> 0 \<Longrightarrow> int n < K" "p \<noteq> [] \<Longrightarrow> int n \<le> P p"
  shows "reg_near (K - int n) (P(p := P p - int n)) V Q ((rm_one c p now keep w v ^^ n) go)"
proof (cases "n = 0")
  case True
  then show ?thesis using assms(1) by simp
next
  case False
  obtain W' V' where V': "\<forall>q. q \<notin> Q \<longrightarrow> V' q = V q" "reg_ok K P W' V' go" using assms(1) by (auto simp: reg_near_def)
  have "reg_ok (K - int n) (P(p := P p - int n)) w (V'(p := v)) ((rm_one c p now keep w v ^^ n) go)"
    using False assms by (intro rm_pow_ok[OF V'(2)]) auto
  moreover have "\<forall>q. q \<notin> Q \<longrightarrow> (V'(p := v)) q = V q" using V'(1) assms(2) by auto
  ultimately show ?thesis unfolding reg_near_def by blast
qed

lemma near_add:
  assumes "reg_near K P V Q go" "p \<in> Q" "0 \<le> K" "0 \<le> P p" "n \<noteq> 0 \<Longrightarrow> K = 0 \<Longrightarrow> \<not> w \<and> \<not> v"
  shows "reg_near (K + int n) (P(p := P p + int n)) V Q ((add_one p m now w v ^^ n) go)"
proof (cases "n = 0")
  case True
  then show ?thesis using assms(1) by simp
next
  case False
  obtain W' V' where V': "\<forall>q. q \<notin> Q \<longrightarrow> V' q = V q" "reg_ok K P W' V' go" using assms(1) by (auto simp: reg_near_def)
  have "reg_ok (K + int n) (P(p := P p + int n)) (mi_SupportsWebSearch m \<or> w) (V'(p := mi_SupportsWebSearch m \<or> v)) ((add_one p m now w v ^^ n) go)"
    using False assms by (intro add_pow_ok[OF V'(2)]) auto
  moreover have "\<forall>q. q \<notin> Q \<longrightarrow> (V'(p := mi_SupportsWebSearch m \<or> v)) q = V q" using V'(1) assms(2) by auto
  ultimately show ?thesis unfolding reg_near_def by blast
qed

lemma near_move:
  assumes "reg_near K P V Q go" "p \<in> Q" "p \<noteq> []" "0 < n" "n \<le> P p"
  shows "reg_near K (P(p := P p - n)) V Q (move_one p n v go)"
proof -
  obtain W' V' where V': "\<forall>q. q \<notin> Q \<longrightarrow> V' q = V q" "reg_ok K P W' V' go" using assms(1) by (auto simp: reg_near_def)
  have "reg_ok K (P(p := P p - n)) W' (V'(p := v)) (move_one p n v go)" by (rule move_one_ok[OF V'(2) assms(3-5)])
  moreover have "\<forall>q. q \<notin> Q \<longrightarrow> (V'(p := v)) q = V q" using V'(1) assms(2) by auto
  ultimately show ?thesis unfolding reg_near_def by blast
qed

lemma near_refreshed:
  assumes near: "reg_near K P V {oldP, p} go" and K: "0 < K" and nonneg: "0 \<le> P p"
    and has: "p \<noteq> [] \<Longrightarrow> oldP = p \<or> count_list olds i = 0 \<or> count_list news i = 0 \<Longrightarrow> 0 < P p"
  shows "reg_ok K (if oldP = p then P else P(p := P p + int (min (count_list news i) (count_list olds i))))
     (mi_SupportsWebSearch m \<or> hasClientSupportingWebSearchLocked i [] c r)
     (V(oldP := hasClientSupportingWebSearchLocked i oldP c r, p := mi_SupportsWebSearch m \<or> hasClientSupportingWebSearchLocked i p c r))
     (map_option (refreshed_registration c oldP p olds news keep m now i r) go)"
proof -
  obtain W' V' where V': "\<forall>q. q \<notin> {oldP, p} \<longrightarrow> V' q = V q" "reg_ok K P W' V' go" using near by (auto simp: reg_near_def)
  then obtain g where g: "go = Some g" using K by (cases go) auto
  have "V(oldP := a, p := b) = V'(oldP := a, p := b)" for a b using V'(1) by (auto simp: fun_eq_iff)
  then show ?thesis
    using refreshed_reg_ok[OF V'(2)[unfolded g] nonneg has refl refl refl refl refl] g by simp
qed

lemma reconciled_gone:
  assumes ok: "reg_ok K P W V go" and k: "count_list olds i \<noteq> 0" "count_list news i = 0" "int (count_list olds i) \<le> K"
    and P: "oldP \<noteq> [] \<Longrightarrow> int (count_list olds i) \<le> P oldP"
    and last: "int (count_list olds i) = K \<Longrightarrow> \<forall>q. q \<noteq> [] \<longrightarrow> (P(oldP := P oldP - int (count_list olds i))) q = 0"
  shows "reg_ok (K - int (count_list olds i)) (P(oldP := P oldP - int (count_list olds i))) (hasClientSupportingWebSearchLocked i [] c r)
     (V(oldP := hasClientSupportingWebSearchLocked i oldP c r)) (reconciled c oldP p olds news keep m now r i go)"
  using k rm_pow_ok[OF ok _ k(3) P last] by (simp add: reconciled_def del: count_list_pos)

lemma reconciled_kept:
  assumes ok: "reg_ok K P W V go" and k: "k = count_list olds i" and n: "n = count_list news i" "n \<noteq> 0" and kK: "int k \<le> K"
    and P: "\<And>q. 0 \<le> P q" "oldP \<noteq> [] \<Longrightarrow> int k \<le> P oldP"
    and fresh: "K = 0 \<Longrightarrow> \<not> hasClientSupportingWebSearchLocked i [] c r \<and> \<not> hasClientSupportingWebSearchLocked i p c r"
  shows "reg_ok (K - int k + int n) (\<lambda>q. P q - (if q = oldP then int k else 0) + (if q = p then int n else 0))
     (mi_SupportsWebSearch m \<or> hasClientSupportingWebSearchLocked i [] c r)
     (V(oldP := hasClientSupportingWebSearchLocked i oldP c r, p := mi_SupportsWebSearch m \<or> hasClientSupportingWebSearchLocked i p c r))
     (reconciled c oldP p olds news keep m now r i go)"
proof -
  let ?has = "\<lambda>q. hasClientSupportingWebSearchLocked i q c r" and ?Q = "{oldP, p}"
  define s1 where "s1 = (if oldP \<noteq> p \<and> oldP \<noteq> [] \<and> k \<noteq> 0 then move_one oldP (int (min n k)) (?has oldP) go else go)"
  define s3 where "s3 = (rm_one c oldP now (keep \<and> oldP = p) (?has []) (?has oldP) ^^ (k - n)) s1"
  define s4 where "s4 = (add_one p m now (?has []) (?has p) ^^ (n - k)) s3"
  have s4: "reconciled c oldP p olds news keep m now r i go = map_option (refreshed_registration c oldP p olds news keep m now i r) s4"
    using n by (auto simp: reconciled_def s4_def s3_def s1_def k[symmetric] n(1)[symmetric] simp del: count_list_pos)
  define P1 where "P1 = (if oldP \<noteq> p then P(oldP := P oldP - int (min n k)) else P)"
  have 1: "reg_near K P1 V ?Q s1"
  proof (cases "oldP \<noteq> p \<and> oldP \<noteq> [] \<and> k \<noteq> 0")
    case True
    then show ?thesis using near_move[OF near_start[OF ok], of oldP ?Q "int (min n k)" "?has oldP"] P(2) n(2)
      by (simp add: s1_def P1_def)
  next
    case False
    then have "s1 = go" by (auto simp: s1_def)
    then show ?thesis using near_start[OF ok, of ?Q] False by (auto simp: P1_def intro: near_counts)
  qed
  define P3 where "P3 = P1(oldP := P1 oldP - int (k - n))"
  have 3: "reg_near (K - int (k - n)) P3 V ?Q s3"
    unfolding s3_def P3_def using kK n(2) P(2) by (intro near_rm[OF 1]) (auto simp: P1_def)
  define P4 where "P4 = P3(p := P3 p + int (n - k))"
  have P4: "P4 q = P q - (if q = oldP then int k - (if oldP = p then int (min n k) else 0) else 0) + (if q = p then int (n - k) else 0)" for q
    by (auto simp: P4_def P3_def P1_def)
  have pos: "0 \<le> P3 p" if "p \<noteq> []" using P(1)[of p] P(2) that by (auto simp: P3_def P1_def)
  have 4: "reg_near (K - int k + int n) P4 V ?Q s4"
  proof (cases "p = []")
    case True
    then have "reg_near (K - int (k - n)) (P3(p := 0)) V ?Q s3" using near_counts[OF 3] by simp
    then have "reg_near (K - int (k - n) + int (n - k)) ((P3(p := 0))(p := (P3(p := 0)) p + int (n - k))) V ?Q s4"
      unfolding s4_def using kK fresh by (intro near_add) auto
    moreover have "K - int (k - n) + int (n - k) = K - int k + int n" by auto
    ultimately show ?thesis using True by (auto simp: P4_def intro: near_counts)
  next
    case False
    then have "reg_near (K - int (k - n) + int (n - k)) P4 V ?Q s4"
      unfolding s4_def P4_def using kK fresh pos by (intro near_add[OF 3]) auto
    moreover have "K - int (k - n) + int (n - k) = K - int k + int n" by auto
    ultimately show ?thesis by simp
  qed
  have P4p: "0 \<le> P4 p" "oldP = p \<or> k = 0 \<or> n = 0 \<Longrightarrow> 0 < P4 p" if "p \<noteq> []"
    using P(1)[of p] P(2) that n(2) by (auto simp: P4)
  have K': "0 < K - int k + int n" using kK n(2) by linarith
  define P5 where "P5 = P4(p := if p = [] then 0 else P4 p)"
  have 5: "reg_near (K - int k + int n) P5 V ?Q s4" unfolding P5_def using near_counts[OF 4] by simp
  have "reg_ok (K - int k + int n) (if oldP = p then P5 else P5(p := P5 p + int (min (count_list news i) (count_list olds i))))
     (mi_SupportsWebSearch m \<or> ?has []) (V(oldP := ?has oldP, p := mi_SupportsWebSearch m \<or> ?has p))
     (map_option (refreshed_registration c oldP p olds news keep m now i r) s4)"
    by (rule near_refreshed[OF 5 K']) (use P4p in \<open>auto simp: P5_def k n(1)\<close>)
  then show ?thesis unfolding s4
    by (rule reg_ok_irrelevant) (auto simp: P5_def P4 k n(1))
qed

end
