(* ===== verification/RegistryInvariant.thy ===== *)
theory RegistryInvariant
  imports RegistryBindings
begin

text \<open>
  What the model registry keeps true: every registration records exactly the bindings of the clients
  (\<open>registry_ok\<close>), and the web-search index counts exactly the clients that offer web search, so that
  reading it answers like a scan over all clients. Every operation of the registry keeps this.
\<close>

section \<open>The web-search index\<close>

definition wc :: "'m ModelRegistry \<Rightarrow> string \<Rightarrow> int" where
  "wc r i = count_at (gr_webSearchClientCounts r) i"

definition wp :: "'m ModelRegistry \<Rightarrow> string \<Rightarrow> string \<Rightarrow> int" where
  "wp r i p = count_at (list_at (gr_webSearchProviderCounts r) i) p"

definition only_index :: "'m ModelRegistry \<Rightarrow> 'm ModelRegistry \<Rightarrow> bool" where
  "only_index r r' \<longleftrightarrow> r' = r\<lparr>gr_webSearchClientCounts := gr_webSearchClientCounts r', gr_webSearchProviderCounts := gr_webSearchProviderCounts r'\<rparr>"

lemma only_index_refl [simp]: "only_index r r"
  by (simp add: only_index_def)

lemma only_index_trans [trans]: "only_index r s \<Longrightarrow> only_index s t \<Longrightarrow> only_index r t"
  unfolding only_index_def by (cases r, cases s, cases t) simp

lemma only_index_sel:
  assumes "only_index r r'"
  shows "gr_models r' = gr_models r" "gr_clientModels r' = gr_clientModels r" "gr_clientModelInfos r' = gr_clientModelInfos r"
    "gr_clientProviders r' = gr_clientProviders r" "gr_clientEpochs r' = gr_clientEpochs r" "gr_clientGenerations r' = gr_clientGenerations r"
    "gr_availableModelsCache r' = gr_availableModelsCache r"
  using assms unfolding only_index_def by (cases r, cases r', simp)+

definition web_in :: "(string \<times> 'm ModelInfo) list \<Rightarrow> string \<Rightarrow> bool" where
  "web_in infos i = (case map_of infos i of None \<Rightarrow> False | Some info \<Rightarrow> mi_SupportsWebSearch info)"

lemma own_web_in: "own_web r c i = web_in (list_at (gr_clientModelInfos r) c) i"
  by (simp add: own_web_def web_in_def)

lemma web_in_Nil [simp]: "\<not> web_in [] i"
  by (simp add: web_in_def)

lemma web_in_Cons: "web_in ((k, info) # infos) i = (if i = k then mi_SupportsWebSearch info else web_in infos i)"
  by (simp add: web_in_def)

lemma web_in_absent: "i \<notin> fst ` set infos \<Longrightarrow> \<not> web_in infos i"
  by (simp add: web_in_def map_of_eq_None_iff[THEN iffD2])

lemma increment_view:
  assumes "i \<noteq> []"
  shows "only_index r (incrementWebSearchCountLocked i p r)"
    "wc (incrementWebSearchCountLocked i p r) j = wc r j + (if j = i then 1 else 0)"
    "wp (incrementWebSearchCountLocked i p r) j q = wp r j q + (if j = i \<and> q = p \<and> p \<noteq> [] then 1 else 0)"
  using assms by (auto simp: incrementWebSearchCountLocked_def only_index_def wc_def wp_def Let_def)

lemma count_decremented: "count_at (decremented k cs) q = (if q = k then max 0 (count_at cs k - 1) else count_at cs q)"
  by (auto simp: decremented_def)

lemma decrement_view:
  assumes "i \<noteq> []"
  shows "only_index r (decrementWebSearchCountLocked i p r)"
    "wc (decrementWebSearchCountLocked i p r) j = (if j = i then max 0 (wc r i - 1) else wc r j)"
    "wp (decrementWebSearchCountLocked i p r) j q = (if j = i \<and> q = p \<and> p \<noteq> [] then max 0 (wp r i p - 1) else wp r j q)"
proof -
  show "only_index r (decrementWebSearchCountLocked i p r)"
    by (auto simp: decrementWebSearchCountLocked_def only_index_def Let_def split: option.splits)
  show "wc (decrementWebSearchCountLocked i p r) j = (if j = i then max 0 (wc r i - 1) else wc r j)"
    using assms by (auto simp: decrementWebSearchCountLocked_def wc_def Let_def count_decremented split: option.splits)
  show "wp (decrementWebSearchCountLocked i p r) j q = (if j = i \<and> q = p \<and> p \<noteq> [] then max 0 (wp r i p - 1) else wp r j q)"
  proof (cases "p = []")
    case True
    then show ?thesis by (simp add: decrementWebSearchCountLocked_def wp_def Let_def)
  next
    case p: False
    show ?thesis
    proof (cases "map_of (gr_webSearchProviderCounts r) i")
      case None
      then show ?thesis using assms p by (auto simp: decrementWebSearchCountLocked_def wp_def Let_def list_at_def)
    next
      case (Some cs)
      then have "wp (decrementWebSearchCountLocked i p r) j q = (if j = i then count_at (decremented p cs) q else wp r j q)"
        using assms p by (auto simp: decrementWebSearchCountLocked_def wp_def Let_def)
      then show ?thesis using Some p by (auto simp: count_decremented wp_def list_at_def)
    qed
  qed
qed

lemma drop_fold_view:
  assumes "keys_distinct infos" "[] \<notin> fst ` set infos"
    and f_def: "f = (\<lambda>(i, info) r. if mi_SupportsWebSearch info then decrementWebSearchCountLocked i p r else r)"
  shows "only_index r (fold f infos r)
    \<and> wc (fold f infos r) j = (if web_in infos j then max 0 (wc r j - 1) else wc r j)
    \<and> wp (fold f infos r) j q = (if web_in infos j \<and> q = p \<and> p \<noteq> [] then max 0 (wp r j q - 1) else wp r j q)"
  using assms(1,2)
proof (induction infos arbitrary: r)
  case (Cons a infos)
  obtain i info where a: "a = (i, info)" by (cases a)
  have i: "i \<noteq> []" "i \<notin> fst ` set infos" using Cons.prems a by auto
  have IH: "only_index (f a r) (fold f infos (f a r))
    \<and> wc (fold f infos (f a r)) j = (if web_in infos j then max 0 (wc (f a r) j - 1) else wc (f a r) j)
    \<and> wp (fold f infos (f a r)) j q = (if web_in infos j \<and> q = p \<and> p \<noteq> [] then max 0 (wp (f a r) j q - 1) else wp (f a r) j q)"
    using Cons by simp
  have "only_index r (f a r)" using decrement_view(1)[OF i(1)] by (auto simp: f_def a)
  with IH show ?case using decrement_view(2,3)[OF i(1), of p r] web_in_absent[OF i(2)]
    by (auto simp: f_def a web_in_Cons intro: only_index_trans)
qed simp

lemma add_fold_view:
  assumes "keys_distinct infos" "[] \<notin> fst ` set infos"
    and f_def: "f = (\<lambda>(i, info) r. if mi_SupportsWebSearch info then incrementWebSearchCountLocked i p r else r)"
  shows "only_index r (fold f infos r)
    \<and> wc (fold f infos r) j = wc r j + (if web_in infos j then 1 else 0)
    \<and> wp (fold f infos r) j q = wp r j q + (if web_in infos j \<and> q = p \<and> p \<noteq> [] then 1 else 0)"
  using assms(1,2)
proof (induction infos arbitrary: r)
  case (Cons a infos)
  obtain i info where a: "a = (i, info)" by (cases a)
  have i: "i \<noteq> []" "i \<notin> fst ` set infos" using Cons.prems a by auto
  have IH: "only_index (f a r) (fold f infos (f a r))
    \<and> wc (fold f infos (f a r)) j = wc (f a r) j + (if web_in infos j then 1 else 0)
    \<and> wp (fold f infos (f a r)) j q = wp (f a r) j q + (if web_in infos j \<and> q = p \<and> p \<noteq> [] then 1 else 0)"
    using Cons by simp
  have "only_index r (f a r)" using increment_view(1)[OF i(1)] by (auto simp: f_def a)
  with IH show ?case using increment_view(2,3)[OF i(1), of p r] web_in_absent[OF i(2)]
    by (auto simp: f_def a web_in_Cons intro: only_index_trans)
qed simp

section \<open>The invariant\<close>

definition clients :: "'m ModelRegistry \<Rightarrow> string set" where
  "clients r = fst ` set (gr_clientModels r)"

definition provider_of :: "'m ModelRegistry \<Rightarrow> string \<Rightarrow> string" where
  "provider_of r c = list_at (gr_clientProviders r) c"

text \<open>How often a client binds a model, how often all clients do, how often the clients of a provider do.\<close>

definition bound :: "'m ModelRegistry \<Rightarrow> string \<Rightarrow> string \<Rightarrow> int" where
  "bound r i c = int (count_list (list_at (gr_clientModels r) c) i)"

definition bindings :: "'m ModelRegistry \<Rightarrow> string \<Rightarrow> int" where
  "bindings r i = (\<Sum>c\<in>clients r. bound r i c)"

definition prov_bindings :: "'m ModelRegistry \<Rightarrow> string \<Rightarrow> string \<Rightarrow> int" where
  "prov_bindings r i p = (\<Sum>c\<in>clients r. if provider_of r c = p then bound r i c else 0)"

text \<open>The clients that offer web search for a model.\<close>

definition web_clients :: "'m ModelRegistry \<Rightarrow> string \<Rightarrow> string set" where
  "web_clients r i = {c \<in> clients r. own_web r c i}"

definition prov_web_clients :: "'m ModelRegistry \<Rightarrow> string \<Rightarrow> string \<Rightarrow> string set" where
  "prov_web_clients r i p = {c \<in> clients r. own_web r c i \<and> provider_of r c = p}"

definition client_ok :: "'m ModelRegistry \<Rightarrow> string \<Rightarrow> bool" where
  "client_ok r c \<longleftrightarrow> map_of (gr_clientProviders r) c \<noteq> Some [] \<and>
     (case map_of (gr_clientModels r) c of
        None \<Rightarrow> map_of (gr_clientModelInfos r) c = None \<and> map_of (gr_clientProviders r) c = None
      | Some ids \<Rightarrow> c \<noteq> [] \<and> ids \<noteq> [] \<and> [] \<notin> set ids \<and>
          (\<exists>infos. map_of (gr_clientModelInfos r) c = Some infos \<and> fst ` set infos = set ids \<and> keys_distinct infos))"

definition model_ok :: "'m ModelRegistry \<Rightarrow> string \<Rightarrow> bool" where
  "model_ok r i \<longleftrightarrow>
     reg_ok (bindings r i) (prov_bindings r i) (web_clients r i \<noteq> {}) (\<lambda>p. prov_web_clients r i p \<noteq> {}) (map_of (gr_models r) i)"

definition index_ok :: "'m ModelRegistry \<Rightarrow> bool" where
  "index_ok r \<longleftrightarrow> (\<forall>i. wc r i = int (card (web_clients r i))) \<and>
     (\<forall>i p. p \<noteq> [] \<longrightarrow> wp r i p = int (card (prov_web_clients r i p)))"

definition registry_ok :: "'m ModelRegistry \<Rightarrow> bool" where
  "registry_ok r \<longleftrightarrow> (\<forall>c. client_ok r c) \<and> (\<forall>i. model_ok r i) \<and> index_ok r"

lemma finite_clients [simp]: "finite (clients r)"
  by (simp add: clients_def)

lemma finite_web_clients [simp]: "finite (web_clients r i)" "finite (prov_web_clients r i p)"
  by (simp_all add: web_clients_def prov_web_clients_def)

lemma clients_iff: "c \<in> clients r \<longleftrightarrow> map_of (gr_clientModels r) c \<noteq> None"
  by (simp add: clients_def map_of_eq_None_iff)

lemma bound_absent: "c \<notin> clients r \<Longrightarrow> bound r i c = 0"
  by (simp add: clients_iff bound_def list_at_def)

lemma bound_nonneg [simp]: "0 \<le> bound r i c"
  by (simp add: bound_def)

lemma bindings_over: "finite F \<Longrightarrow> clients r \<subseteq> F \<Longrightarrow> bindings r i = (\<Sum>c\<in>F. bound r i c)"
  unfolding bindings_def by (rule sum.mono_neutral_left) (auto simp: bound_absent)

lemma prov_bindings_over:
  "finite F \<Longrightarrow> clients r \<subseteq> F \<Longrightarrow> prov_bindings r i p = (\<Sum>c\<in>F. if provider_of r c = p then bound r i c else 0)"
  unfolding prov_bindings_def by (rule sum.mono_neutral_left) (auto simp: bound_absent)

lemma prov_bindings_nonneg [simp]: "0 \<le> prov_bindings r i p"
  unfolding prov_bindings_def by (rule sum_nonneg) simp

lemma bound_le: "bound r i c \<le> bindings r i"
proof (cases "c \<in> clients r")
  case True
  then show ?thesis unfolding bindings_def by (intro member_le_sum) auto
next
  case False
  then show ?thesis by (simp add: bound_absent bindings_def sum_nonneg)
qed

lemma bound_le_prov: "provider_of r c = p \<Longrightarrow> bound r i c \<le> prov_bindings r i p"
proof (cases "c \<in> clients r")
  case True
  assume "provider_of r c = p"
  then have "bound r i c = (if provider_of r c = p then bound r i c else 0)" by simp
  also have "\<dots> \<le> prov_bindings r i p" unfolding prov_bindings_def using True by (intro member_le_sum) auto
  finally show ?thesis .
qed (simp add: bound_absent)

lemma bindings_others:
  assumes "\<And>d. d \<noteq> c \<Longrightarrow> list_at (gr_clientModels r') d = list_at (gr_clientModels r) d"
  shows "bindings r' i = bindings r i - bound r i c + bound r' i c"
proof -
  define F where "F = insert c (clients r \<union> clients r')"
  have F: "finite F" "c \<in> F" "clients r \<subseteq> F" "clients r' \<subseteq> F" by (auto simp: F_def)
  have "(\<Sum>d\<in>F - {c}. bound r' i d) = (\<Sum>d\<in>F - {c}. bound r i d)" using assms by (intro sum.cong) (auto simp: bound_def)
  then show ?thesis
    using bindings_over[OF F(1,3), of i] bindings_over[OF F(1,4), of i] sum.remove[OF F(1,2), of "bound r i"] sum.remove[OF F(1,2), of "bound r' i"] by simp
qed

lemma prov_bindings_others:
  assumes "\<And>d. d \<noteq> c \<Longrightarrow> list_at (gr_clientModels r') d = list_at (gr_clientModels r) d" "\<And>d. d \<noteq> c \<Longrightarrow> provider_of r' d = provider_of r d"
  shows "prov_bindings r' i p = prov_bindings r i p - (if p = provider_of r c then bound r i c else 0) + (if p = provider_of r' c then bound r' i c else 0)"
proof -
  define F where "F = insert c (clients r \<union> clients r')"
  have F: "finite F" "c \<in> F" "clients r \<subseteq> F" "clients r' \<subseteq> F" by (auto simp: F_def)
  let ?b = "\<lambda>r d. if provider_of r d = p then bound r i d else 0"
  have "(\<Sum>d\<in>F - {c}. ?b r' d) = (\<Sum>d\<in>F - {c}. ?b r d)" using assms by (intro sum.cong) (auto simp: bound_def)
  then show ?thesis
    using prov_bindings_over[OF F(1,3), of i p] prov_bindings_over[OF F(1,4), of i p] sum.remove[OF F(1,2), of "?b r"] sum.remove[OF F(1,2), of "?b r'"] by simp
qed

lemma prov_rest:
  "0 \<le> prov_bindings r i q - (if q = provider_of r c then bound r i c else 0)"
  "prov_bindings r i q - (if q = provider_of r c then bound r i c else 0) \<le> bindings r i - bound r i c"
proof -
  define F where "F = insert c (clients r)"
  have F: "finite F" "c \<in> F" "clients r \<subseteq> F" by (auto simp: F_def)
  let ?b = "\<lambda>d. if provider_of r d = q then bound r i d else 0"
  have p: "prov_bindings r i q - (if q = provider_of r c then bound r i c else 0) = sum ?b (F - {c})"
    using prov_bindings_over[OF F(1,3), of i q] sum.remove[OF F(1,2), of ?b] by simp
  have b: "bindings r i - bound r i c = sum (bound r i) (F - {c})"
    using bindings_over[OF F(1,3), of i] sum.remove[OF F(1,2), of "bound r i"] by simp
  show "0 \<le> prov_bindings r i q - (if q = provider_of r c then bound r i c else 0)" unfolding p by (rule sum_nonneg) simp
  show "prov_bindings r i q - (if q = provider_of r c then bound r i c else 0) \<le> bindings r i - bound r i c"
    unfolding p b by (rule sum_mono) simp
qed

lemma client_okD:
  assumes "client_ok r c" "map_of (gr_clientModels r) c = Some ids"
  shows "c \<noteq> []" "ids \<noteq> []" "[] \<notin> set ids" "fst ` set (list_at (gr_clientModelInfos r) c) = set ids"
    "keys_distinct (list_at (gr_clientModelInfos r) c)" "[] \<notin> fst ` set (list_at (gr_clientModelInfos r) c)"
proof -
  obtain infos where i: "map_of (gr_clientModelInfos r) c = Some infos" "fst ` set infos = set ids" "keys_distinct infos"
    and *: "c \<noteq> []" "ids \<noteq> []" "[] \<notin> set ids"
    using assms by (auto simp: client_ok_def)
  moreover have "list_at (gr_clientModelInfos r) c = infos" using i by (simp add: list_at_def)
  ultimately show "c \<noteq> []" "ids \<noteq> []" "[] \<notin> set ids" "fst ` set (list_at (gr_clientModelInfos r) c) = set ids"
    "keys_distinct (list_at (gr_clientModelInfos r) c)" "[] \<notin> fst ` set (list_at (gr_clientModelInfos r) c)"
    by simp_all
qed

lemma client_ok_absent:
  assumes "client_ok r c" "map_of (gr_clientModels r) c = None"
  shows "list_at (gr_clientModelInfos r) c = []" "map_of (gr_clientModelInfos r) c = None" "provider_of r c = []"
    "map_of (gr_clientProviders r) c = None"
  using assms by (auto simp: client_ok_def list_at_def provider_of_def)

lemma client_infos_shape:
  assumes "client_ok r c"
  shows "keys_distinct (list_at (gr_clientModelInfos r) c)" "[] \<notin> fst ` set (list_at (gr_clientModelInfos r) c)"
    "fst ` set (list_at (gr_clientModelInfos r) c) = set (list_at (gr_clientModels r) c)"
  using client_okD[OF assms] client_ok_absent[OF assms]
  by (cases "map_of (gr_clientModels r) c"; auto simp: list_at_def)+

lemma own_web_bound: "client_ok r c \<Longrightarrow> own_web r c i \<Longrightarrow> c \<in> clients r \<and> 0 < bound r i c"
proof -
  assume ok: "client_ok r c" and web: "own_web r c i"
  then have "i \<in> fst ` set (list_at (gr_clientModelInfos r) c)" using web_in_absent own_web_in by metis
  then have "i \<in> set (list_at (gr_clientModels r) c)" using client_infos_shape(3)[OF ok] by simp
  then show ?thesis by (cases "map_of (gr_clientModels r) c") (auto simp: bound_def clients_iff list_at_def)
qed

lemma has_web_iff:
  assumes ok: "\<And>d. client_ok r d" and idx: "index_ok r"
  shows "hasClientSupportingWebSearchLocked i p c r \<longleftrightarrow> (\<exists>d. d \<noteq> c \<and> own_web r d i \<and> (p = [] \<or> provider_of r d = p))"
proof -
  have rest: "0 < int (card A) - (if c \<in> A then 1 else 0) \<longleftrightarrow> (\<exists>d. d \<noteq> c \<and> d \<in> A)" if "finite A" for A :: "string set"
  proof -
    have "int (card A) - (if c \<in> A then 1 else 0) = int (card (A - {c}))"
      using card.remove[OF that, of c] by auto
    moreover have "0 < card (A - {c}) \<longleftrightarrow> A - {c} \<noteq> {}" using that by (simp add: card_gt_0_iff)
    ultimately show ?thesis by auto
  qed
  show ?thesis
  proof (cases "p = []")
    case True
    have n: "count_at (gr_webSearchClientCounts r) i = int (card (web_clients r i))" using idx by (simp add: index_ok_def wc_def)
    have "own_web r c i \<longleftrightarrow> c \<in> web_clients r i" using own_web_bound[OF ok] by (auto simp: web_clients_def)
    then have "hasClientSupportingWebSearchLocked i p c r \<longleftrightarrow> 0 < int (card (web_clients r i)) - (if c \<in> web_clients r i then 1 else 0)"
      using True n by (auto simp: hasClientSupportingWebSearchLocked_def Let_def)
    then show ?thesis using rest[of "web_clients r i"] True own_web_bound[OF ok] by (auto simp: web_clients_def)
  next
    case False
    have n: "count_at (list_at (gr_webSearchProviderCounts r) i) p = int (card (prov_web_clients r i p))"
      using idx False by (simp add: index_ok_def wp_def)
    have "list_at (gr_clientProviders r) c = p \<and> own_web r c i \<longleftrightarrow> c \<in> prov_web_clients r i p"
      using own_web_bound[OF ok] by (auto simp: prov_web_clients_def provider_of_def)
    then have "hasClientSupportingWebSearchLocked i p c r \<longleftrightarrow> 0 < int (card (prov_web_clients r i p)) - (if c \<in> prov_web_clients r i p then 1 else 0)"
      using False n by (auto simp: hasClientSupportingWebSearchLocked_def Let_def)
    then show ?thesis using rest[of "prov_web_clients r i p"] False own_web_bound[OF ok] by (auto simp: prov_web_clients_def)
  qed
qed

section \<open>Rewriting one client\<close>

definition same_clients :: "string \<Rightarrow> 'm ModelRegistry \<Rightarrow> 'm ModelRegistry \<Rightarrow> bool" where
  "same_clients c r r' \<longleftrightarrow> (\<forall>d. d \<noteq> c \<longrightarrow> map_of (gr_clientModels r') d = map_of (gr_clientModels r) d \<and>
     map_of (gr_clientModelInfos r') d = map_of (gr_clientModelInfos r) d \<and> map_of (gr_clientProviders r') d = map_of (gr_clientProviders r) d)"

lemma same_clientsD:
  assumes "same_clients c r r'" "d \<noteq> c"
  shows "list_at (gr_clientModels r') d = list_at (gr_clientModels r) d" "provider_of r' d = provider_of r d" "own_web r' d i = own_web r d i"
    "client_ok r' d = client_ok r d" "d \<in> clients r' \<longleftrightarrow> d \<in> clients r"
  using assms by (simp_all add: same_clients_def list_at_def provider_of_def own_web_def client_ok_def clients_iff split: option.splits)

text \<open>What the loops of a (re-)registration leave of a registration before the index follows.\<close>

definition follows :: "string \<Rightarrow> 'm ModelRegistry \<Rightarrow> 'm ModelRegistry \<Rightarrow> string \<Rightarrow> bool" where
  "follows c r r' i \<longleftrightarrow> reg_ok (bindings r i - bound r i c + bound r' i c)
     (\<lambda>p. prov_bindings r i p - (if p = provider_of r c then bound r i c else 0) + (if p = provider_of r' c then bound r' i c else 0))
     (own_web r' c i \<or> hasClientSupportingWebSearchLocked i [] c r)
     ((\<lambda>p. prov_web_clients r i p \<noteq> {})(provider_of r c := hasClientSupportingWebSearchLocked i (provider_of r c) c r,
        provider_of r' c := own_web r' c i \<or> hasClientSupportingWebSearchLocked i (provider_of r' c) c r))
     (map_of (gr_models r') i)"

definition index_follows :: "string \<Rightarrow> 'm ModelRegistry \<Rightarrow> 'm ModelRegistry \<Rightarrow> bool" where
  "index_follows c r r' \<longleftrightarrow>
     (\<forall>i. wc r' i = wc r i - (if own_web r c i then 1 else 0) + (if own_web r' c i then 1 else 0)) \<and>
     (\<forall>i p. p \<noteq> [] \<longrightarrow> wp r' i p = wp r i p - (if own_web r c i \<and> provider_of r c = p then 1 else 0)
                                         + (if own_web r' c i \<and> provider_of r' c = p then 1 else 0))"

lemma card_swap:
  assumes "finite A" "finite B" "\<And>d. d \<noteq> c \<Longrightarrow> d \<in> B \<longleftrightarrow> d \<in> A"
  shows "int (card B) = int (card A) - (if c \<in> A then 1 else 0) + (if c \<in> B then 1 else 0)"
proof -
  have split: "int (card S) = int (card (S - {c})) + (if c \<in> S then 1 else 0)" if "finite S" for S
    using card.remove[OF that, of c] by auto
  have "B - {c} = A - {c}" using assms(3) by blast
  then show ?thesis using split[OF assms(1)] split[OF assms(2)] by simp
qed

lemma replace_client_ok:
  assumes ok: "registry_ok r" and same: "same_clients c r r'" and c: "client_ok r' c"
    and models: "\<And>i. follows c r r' i" and idx: "index_follows c r r'"
  shows "registry_ok r'"
proof -
  note sD = same_clientsD[OF same]
  have ok': "client_ok r d" "client_ok r' d" for d using ok c sD(4) by (cases "d = c"; auto simp: registry_ok_def)+
  have w: "d \<in> web_clients r i \<longleftrightarrow> own_web r d i" "d \<in> web_clients r' i \<longleftrightarrow> own_web r' d i"
    "d \<in> prov_web_clients r i p \<longleftrightarrow> own_web r d i \<and> provider_of r d = p"
    "d \<in> prov_web_clients r' i p \<longleftrightarrow> own_web r' d i \<and> provider_of r' d = p" for d i p
    using own_web_bound[OF ok'(1)] own_web_bound[OF ok'(2)] by (auto simp: web_clients_def prov_web_clients_def)
  have has: "hasClientSupportingWebSearchLocked i p c r \<longleftrightarrow> (\<exists>d. d \<noteq> c \<and> own_web r d i \<and> (p = [] \<or> provider_of r d = p))" for i p
    using has_web_iff[of r i p c] ok' ok by (simp add: registry_ok_def)
  have "model_ok r' i" for i
  proof -
    have W: "(own_web r' c i \<or> hasClientSupportingWebSearchLocked i [] c r) = (web_clients r' i \<noteq> {})"
    proof -
      have "(web_clients r' i \<noteq> {}) = (\<exists>d. own_web r' d i)" using w(2) by blast
      also have "\<dots> = (own_web r' c i \<or> (\<exists>d. d \<noteq> c \<and> own_web r d i))" using sD(3) by metis
      finally show ?thesis by (simp add: has)
    qed
    have V: "((\<lambda>p. prov_web_clients r i p \<noteq> {})(provider_of r c := hasClientSupportingWebSearchLocked i (provider_of r c) c r,
        provider_of r' c := own_web r' c i \<or> hasClientSupportingWebSearchLocked i (provider_of r' c) c r)) p = (prov_web_clients r' i p \<noteq> {})"
      if "p \<noteq> []" for p
    proof -
      have "(prov_web_clients r' i p \<noteq> {}) \<longleftrightarrow> (own_web r' c i \<and> provider_of r' c = p) \<or> hasClientSupportingWebSearchLocked i p c r"
      proof -
        have "(prov_web_clients r' i p \<noteq> {}) = (\<exists>d. own_web r' d i \<and> provider_of r' d = p)" using w(4) by blast
        also have "\<dots> = ((own_web r' c i \<and> provider_of r' c = p) \<or> (\<exists>d. d \<noteq> c \<and> own_web r d i \<and> provider_of r d = p))"
          using sD(2,3) by metis
        finally show ?thesis using that by (simp add: has)
      qed
      moreover have "(prov_web_clients r i p \<noteq> {}) \<longleftrightarrow> (own_web r c i \<and> provider_of r c = p) \<or> hasClientSupportingWebSearchLocked i p c r"
      proof -
        have "(prov_web_clients r i p \<noteq> {}) = (\<exists>d. own_web r d i \<and> provider_of r d = p)" using w(3) by blast
        also have "\<dots> = ((own_web r c i \<and> provider_of r c = p) \<or> (\<exists>d. d \<noteq> c \<and> own_web r d i \<and> provider_of r d = p))" by metis
        finally show ?thesis using that by (simp add: has)
      qed
      ultimately show ?thesis by auto
    qed
    have b: "bindings r' i = bindings r i - bound r i c + bound r' i c" using sD(1) by (rule bindings_others)
    have "prov_bindings r' i p = prov_bindings r i p - (if p = provider_of r c then bound r i c else 0) + (if p = provider_of r' c then bound r' i c else 0)" for p
      using sD(1,2) by (rule prov_bindings_others)
    then show ?thesis unfolding model_ok_def b
      by (rule reg_ok_irrelevant[OF models[of i, unfolded follows_def W]]) (rule V[symmetric])
  qed
  moreover have "index_ok r'"
  proof -
    have "wc r' i = int (card (web_clients r' i))" for i
      using idx ok card_swap[of "web_clients r i" "web_clients r' i" c] w(1,2) sD(3) by (simp add: index_follows_def registry_ok_def index_ok_def)
    moreover have "wp r' i p = int (card (prov_web_clients r' i p))" if "p \<noteq> []" for i p
      using idx ok card_swap[of "prov_web_clients r i p" "prov_web_clients r' i p" c] w(3,4) sD(2,3) that
      by (simp add: index_follows_def registry_ok_def index_ok_def)
    ultimately show ?thesis by (simp add: index_ok_def)
  qed
  ultimately show ?thesis using ok' by (simp add: registry_ok_def)
qed

section \<open>Registrations\<close>

lemma models_upd_irrelevant [simp]:
  "client_ok (r\<lparr>gr_models := ms\<rparr>) c = client_ok r c" "provider_of (r\<lparr>gr_models := ms\<rparr>) c = provider_of r c"
  "wc (r\<lparr>gr_models := ms\<rparr>) i = wc r i" "wp (r\<lparr>gr_models := ms\<rparr>) i p = wp r i p" "clients (r\<lparr>gr_models := ms\<rparr>) = clients r"
  "bound (r\<lparr>gr_models := ms\<rparr>) i c = bound r i c" "web_clients (r\<lparr>gr_models := ms\<rparr>) i = web_clients r i"
  "prov_web_clients (r\<lparr>gr_models := ms\<rparr>) i p = prov_web_clients r i p" "index_ok (r\<lparr>gr_models := ms\<rparr>) = index_ok r"
  by (simp_all add: client_ok_def provider_of_def wc_def wp_def clients_def bound_def web_clients_def prov_web_clients_def index_ok_def
      cong: option.case_cong)

lemma own_counted:
  assumes ok: "\<And>d. client_ok r d" and idx: "index_ok r"
  shows "own_web r c i \<Longrightarrow> 1 \<le> wc r i" "own_web r c i \<Longrightarrow> provider_of r c = p \<Longrightarrow> p \<noteq> [] \<Longrightarrow> 1 \<le> wp r i p"
proof -
  assume web: "own_web r c i"
  then have c: "c \<in> clients r" using own_web_bound[OF ok] by blast
  then have "c \<in> web_clients r i" using web by (simp add: web_clients_def)
  then have "0 < card (web_clients r i)" by (auto simp: card_gt_0_iff)
  then show "1 \<le> wc r i" using idx by (simp add: index_ok_def)
  assume p: "provider_of r c = p" "p \<noteq> []"
  then have "c \<in> prov_web_clients r i p" using c web by (simp add: prov_web_clients_def)
  then have "0 < card (prov_web_clients r i p)" by (auto simp: card_gt_0_iff)
  then show "1 \<le> wp r i p" using idx p by (simp add: index_ok_def)
qed

lemma drop_view:
  assumes ok: "\<And>d. client_ok r d" and idx: "index_ok r"
  shows "only_index r (dropClientWebSearchCountsLocked c r)"
    "wc (dropClientWebSearchCountsLocked c r) i = wc r i - (if own_web r c i then 1 else 0)"
    "p \<noteq> [] \<Longrightarrow> wp (dropClientWebSearchCountsLocked c r) i p = wp r i p - (if own_web r c i \<and> provider_of r c = p then 1 else 0)"
proof -
  let ?infos = "list_at (gr_clientModelInfos r) c"
  note shape = client_infos_shape[OF ok[of c]]
  note v = drop_fold_view[OF shape(1,2) refl, where p = "list_at (gr_clientProviders r) c" and r = r]
  have w: "web_in ?infos i = own_web r c i" for i by (simp add: own_web_in)
  show "only_index r (dropClientWebSearchCountsLocked c r)" using v by (simp add: dropClientWebSearchCountsLocked_def Let_def)
  show "wc (dropClientWebSearchCountsLocked c r) i = wc r i - (if own_web r c i then 1 else 0)"
    using v own_counted(1)[OF ok idx, of c i] by (auto simp: dropClientWebSearchCountsLocked_def Let_def w)
  show "wp (dropClientWebSearchCountsLocked c r) i p = wp r i p - (if own_web r c i \<and> provider_of r c = p then 1 else 0)" if p: "p \<noteq> []"
    using v p own_counted(2)[OF ok idx, of c i p] by (auto simp: dropClientWebSearchCountsLocked_def Let_def w provider_of_def)
qed

lemma add_view:
  assumes "keys_distinct (list_at (gr_clientModelInfos r) c)" "[] \<notin> fst ` set (list_at (gr_clientModelInfos r) c)"
  shows "only_index r (addClientWebSearchCountsLocked c r)"
    "wc (addClientWebSearchCountsLocked c r) i = wc r i + (if own_web r c i then 1 else 0)"
    "p \<noteq> [] \<Longrightarrow> wp (addClientWebSearchCountsLocked c r) i p = wp r i p + (if own_web r c i \<and> provider_of r c = p then 1 else 0)"
  using add_fold_view[OF assms refl, where p = "list_at (gr_clientProviders r) c" and r = r]
  by (auto simp: addClientWebSearchCountsLocked_def Let_def own_web_in provider_of_def)

lemma new_models_keys [simp]: "map fst (new_models ms) = uniq (map mi_ID ms)"
  by (simp add: new_models_def comp_def)

lemma new_models_set: "fst ` set (new_models ms) = mi_ID ` set ms"
  by (metis new_models_keys set_uniq list.set_map)

lemma given_ids: "[] \<notin> set (map mi_ID (given_models models))"
  by (auto simp: given_models_def)

text \<open>The end of a registration: the index forgets the client, the client is rewritten, the index follows.\<close>

definition registered :: "string \<Rightarrow> string \<Rightarrow> 'm ModelInfo list \<Rightarrow> 'm ModelRegistry \<Rightarrow> 'm ModelRegistry" where
  "registered c p ms s = addClientWebSearchCountsLocked c (set_client c p ms (dropClientWebSearchCountsLocked c s))"

lemma own_web_only_index: "only_index r r' \<Longrightarrow> own_web r' c i = own_web r c i"
  by (simp add: own_web_def only_index_sel)

lemma registered_view:
  assumes ok: "registry_ok r" and s: "only_models r s" and ids: "[] \<notin> set (map mi_ID ms)"
    and u_def: "u = registered c p ms s"
  shows "gr_models u = gr_models s" "gr_clientModels u = AList.update c (map mi_ID ms) (gr_clientModels r)"
    "gr_clientModelInfos u = AList.update c (new_models ms) (gr_clientModelInfos r)"
    "gr_clientProviders u = (if p \<noteq> [] then AList.update c p (gr_clientProviders r) else AList.delete c (gr_clientProviders r))"
    "gr_clientEpochs u = gr_clientEpochs r" "gr_clientGenerations u = gr_clientGenerations r"
    "index_follows c r u"
proof -
  obtain ms' where s': "s = r\<lparr>gr_models := ms'\<rparr>" using s by (rule only_modelsE)
  define d where "d = dropClientWebSearchCountsLocked c s"
  define t where "t = set_client c p ms d"
  have ok': "\<And>d. client_ok s d" "index_ok s" using ok by (simp_all add: s' registry_ok_def)
  note d = drop_view[OF ok', where c = c, folded d_def]
  note dsel = only_index_sel[OF d(1)]
  have infos: "list_at (gr_clientModelInfos t) c = new_models ms" by (simp add: t_def set_client_def)
  have u: "u = addClientWebSearchCountsLocked c t" by (simp add: u_def registered_def t_def d_def)
  note a = add_view[of t c, unfolded infos, folded u]
  have k: "keys_distinct (new_models ms)" "[] \<notin> fst ` set (new_models ms)" using ids by (auto simp: new_models_set)
  note a = a[OF k]
  note usel = only_index_sel[OF a(1)]
  show "gr_models u = gr_models s" "gr_clientModels u = AList.update c (map mi_ID ms) (gr_clientModels r)"
    "gr_clientModelInfos u = AList.update c (new_models ms) (gr_clientModelInfos r)"
    "gr_clientProviders u = (if p \<noteq> [] then AList.update c p (gr_clientProviders r) else AList.delete c (gr_clientProviders r))"
    "gr_clientEpochs u = gr_clientEpochs r" "gr_clientGenerations u = gr_clientGenerations r"
    by (simp_all add: usel t_def set_client_def dsel s')
  have "wc t i = wc d i" "wp t i q = wp d i q" "own_web t c i = own_web u c i" "provider_of t c = provider_of u c" for i q
    by (simp_all add: t_def set_client_def wc_def wp_def own_web_only_index[OF a(1)] provider_of_def usel)
  then show "index_follows c r u" using a d by (simp add: index_follows_def s')
qed

lemma followsI:
  assumes "reg_ok K P W V (map_of (gr_models r') i)" "K = bindings r i - bound r i c + bound r' i c"
    "\<And>p. p \<noteq> [] \<Longrightarrow> P p = prov_bindings r i p - (if p = provider_of r c then bound r i c else 0) + (if p = provider_of r' c then bound r' i c else 0)"
    "W = (own_web r' c i \<or> hasClientSupportingWebSearchLocked i [] c r)"
    "\<And>p. p \<noteq> [] \<Longrightarrow> V p = (if p = provider_of r' c then own_web r' c i \<or> hasClientSupportingWebSearchLocked i p c r
       else if p = provider_of r c then hasClientSupportingWebSearchLocked i p c r else prov_web_clients r i p \<noteq> {})"
  shows "follows c r r' i"
  unfolding follows_def assms(2)[symmetric] assms(4)[symmetric]
  by (rule reg_ok_irrelevant[OF assms(1)]) (auto simp: assms(3,5))

lemma has_web_unowned:
  assumes ok: "registry_ok r"
  shows "\<not> own_web r c i \<Longrightarrow> hasClientSupportingWebSearchLocked i [] c r = (web_clients r i \<noteq> {})"
    "p \<noteq> [] \<Longrightarrow> \<not> own_web r c i \<or> provider_of r c \<noteq> p \<Longrightarrow> hasClientSupportingWebSearchLocked i p c r = (prov_web_clients r i p \<noteq> {})"
proof -
  have cok: "\<And>d. client_ok r d" and idx: "index_ok r" using ok by (simp_all add: registry_ok_def)
  have "(web_clients r i \<noteq> {}) = (\<exists>d. own_web r d i)" using own_web_bound[OF cok] by (auto simp: web_clients_def)
  then show "\<not> own_web r c i \<Longrightarrow> hasClientSupportingWebSearchLocked i [] c r = (web_clients r i \<noteq> {})"
    unfolding has_web_iff[OF cok idx] by auto
  have "(prov_web_clients r i p \<noteq> {}) = (\<exists>d. own_web r d i \<and> provider_of r d = p)"
    using own_web_bound[OF cok] by (auto simp: prov_web_clients_def)
  then show "p \<noteq> [] \<Longrightarrow> \<not> own_web r c i \<or> provider_of r c \<noteq> p \<Longrightarrow> hasClientSupportingWebSearchLocked i p c r = (prov_web_clients r i p \<noteq> {})"
    unfolding has_web_iff[OF cok idx] by auto
qed

lemma follows_untouched:
  assumes ok: "registry_ok r" and b: "bound r i c = 0" "bound r' i c = 0" "\<not> own_web r' c i" and m: "map_of (gr_models r') i = map_of (gr_models r) i"
  shows "follows c r r' i"
proof -
  have own: "\<not> own_web r c i" using own_web_bound[of r c i] ok b(1) by (auto simp: registry_ok_def)
  have "reg_ok (bindings r i) (prov_bindings r i) (web_clients r i \<noteq> {}) (\<lambda>p. prov_web_clients r i p \<noteq> {}) (map_of (gr_models r') i)"
    using ok m by (simp add: registry_ok_def model_ok_def)
  then show ?thesis by (rule followsI) (simp_all add: b own has_web_unowned[OF ok])
qed

lemma client_model_facts:
  assumes ok: "registry_ok r"
  shows "provider_of r c \<noteq> [] \<Longrightarrow> bound r i c \<le> prov_bindings r i (provider_of r c)"
    "bindings r i = bound r i c \<Longrightarrow> prov_bindings r i q - (if q = provider_of r c then bound r i c else 0) = 0"
    "bindings r i = 0 \<Longrightarrow> \<not> hasClientSupportingWebSearchLocked i p c r"
proof -
  show "bound r i c \<le> prov_bindings r i (provider_of r c)" by (rule bound_le_prov) simp
  show "prov_bindings r i q - (if q = provider_of r c then bound r i c else 0) = 0" if "bindings r i = bound r i c"
    using prov_rest[of r i q c] that by linarith
  show "\<not> hasClientSupportingWebSearchLocked i p c r" if "bindings r i = 0"
  proof
    have cok: "\<And>d. client_ok r d" and idx: "index_ok r" using ok by (simp_all add: registry_ok_def)
    assume "hasClientSupportingWebSearchLocked i p c r"
    then obtain d where "own_web r d i" unfolding has_web_iff[OF cok idx] by blast
    then have "0 < bound r i d" using own_web_bound[OF cok] by blast
    then show False using bound_le[of r i d] that by simp
  qed
qed

lemma web_in_new_models:
  "web_in (new_models ms) i = (i \<in> set (map mi_ID ms) \<and> mi_SupportsWebSearch (the (map_of (new_models ms) i)))"
proof (cases "i \<in> set (map mi_ID ms)")
  case True
  then have "map_of (new_models ms) i \<noteq> None" by (simp add: map_of_eq_None_iff new_models_set)
  then show ?thesis using True by (auto simp: web_in_def)
next
  case False
  then show ?thesis using web_in_absent[of i "new_models ms"] by (simp add: new_models_set)
qed

lemma registered_client:
  assumes "registry_ok r" "only_models r s" "[] \<notin> set (map mi_ID ms)" "ms \<noteq> []" "c \<noteq> []" "u = registered c p ms s"
  shows "client_ok u c" "same_clients c r u" "provider_of u c = p" "bound u i c = int (count_list (map mi_ID ms) i)"
    "own_web u c i = (i \<in> set (map mi_ID ms) \<and> mi_SupportsWebSearch (the (map_of (new_models ms) i)))"
proof -
  note v = registered_view[OF assms(1-3,6)]
  show "client_ok u c" using assms(3-5) by (simp add: client_ok_def v update_conv' delete_conv' new_models_set)
  show "same_clients c r u" by (simp add: same_clients_def v update_conv' delete_conv')
  show "provider_of u c = p" by (simp add: provider_of_def v)
  show "bound u i c = int (count_list (map mi_ID ms) i)" by (simp add: bound_def v)
  show "own_web u c i = (i \<in> set (map mi_ID ms) \<and> mi_SupportsWebSearch (the (map_of (new_models ms) i)))"
    by (simp add: own_web_in v web_in_new_models)
qed

lemma reconcile_ok:
  assumes ok: "registry_ok r" and ids: "[] \<notin> set (map mi_ID ms)" "ms \<noteq> []" and olds: "map_of (gr_clientModels r) c = Some olds"
  obtains s where "only_models r s" "reconcile c p ms keep olds now r = registered c p ms s" "registry_ok (registered c p ms s)"
proof -
  have cok: "client_ok r c" using ok by (simp add: registry_ok_def)
  have c: "c \<noteq> []" using client_okD(1)[OF cok olds] .
  obtain s where s: "only_models r s"
    "\<And>i. map_of (gr_models s) i = reconciled c (provider_of r c) p olds (map mi_ID ms) keep (the (map_of (new_models ms) i)) now r i (map_of (gr_models r) i)"
    "reconcile c p ms keep olds now r = registered c p ms s"
    using reconcile_view[OF ids(1) refl, of r c p olds keep now] unfolding provider_of_def registered_def by metis
  let ?u = "registered c p ms s" and ?news = "map mi_ID ms"
  note v = registered_view[OF ok s(1) ids(1) refl, of c p] and cl = registered_client[OF ok s(1) ids c refl, of p]
  have k: "bound r i c = int (count_list olds i)" for i by (simp add: bound_def list_at_def olds)
  have m: "reg_ok (bindings r i) (prov_bindings r i) (web_clients r i \<noteq> {}) (\<lambda>p. prov_web_clients r i p \<noteq> {}) (map_of (gr_models r) i)" for i
    using ok by (simp add: registry_ok_def model_ok_def)
  note f = client_model_facts[OF ok, where c = c]
  have "follows c r ?u i" for i
  proof (cases "count_list ?news i = 0")
    case n: True
    show ?thesis
    proof (cases "count_list olds i = 0")
      case True
      then show ?thesis using n by (intro follows_untouched[OF ok]) (auto simp: k cl v s(2) reconciled_def)
    next
      case False
      have "reg_ok (bindings r i - int (count_list olds i)) ((prov_bindings r i)(provider_of r c := prov_bindings r i (provider_of r c) - int (count_list olds i)))
          (hasClientSupportingWebSearchLocked i [] c r) ((\<lambda>p. prov_web_clients r i p \<noteq> {})(provider_of r c := hasClientSupportingWebSearchLocked i (provider_of r c) c r))
          (map_of (gr_models ?u) i)"
        unfolding v(1) s(2)
        by (rule reconciled_gone[OF m False n]) (use bound_le[of r i c] f(1)[of i] f(2)[of i] in \<open>auto simp: k split: if_splits\<close>)
      then show ?thesis by (rule followsI) (use n in \<open>simp_all add: k cl has_web_unowned(2)[OF ok]\<close>)
    qed
  next
    case n: False
    have "reg_ok (bindings r i - int (count_list olds i) + int (count_list ?news i))
        (\<lambda>q. prov_bindings r i q - (if q = provider_of r c then int (count_list olds i) else 0) + (if q = p then int (count_list ?news i) else 0))
        (mi_SupportsWebSearch (the (map_of (new_models ms) i)) \<or> hasClientSupportingWebSearchLocked i [] c r)
        ((\<lambda>p. prov_web_clients r i p \<noteq> {})(provider_of r c := hasClientSupportingWebSearchLocked i (provider_of r c) c r,
           p := mi_SupportsWebSearch (the (map_of (new_models ms) i)) \<or> hasClientSupportingWebSearchLocked i p c r))
        (map_of (gr_models ?u) i)"
      unfolding v(1) s(2)
      by (rule reconciled_kept[OF m refl refl n]) (use bound_le[of r i c] f(1)[of i] f(3)[of i] in \<open>auto simp: k\<close>)
    then show ?thesis by (rule followsI) (use n in \<open>auto simp: k cl\<close>)
  qed
  then show thesis using s(1,3) by (intro that[of s] replace_client_ok[OF ok cl(2,1) _ v(7)])
qed

lemma drop_noop: "list_at (gr_clientModelInfos r) c = [] \<Longrightarrow> dropClientWebSearchCountsLocked c r = r"
  by (simp add: dropClientWebSearchCountsLocked_def)

lemma delete_absent: "map_of m k = None \<Longrightarrow> AList.delete k m = m"
  by (simp add: delete_id map_of_eq_None_iff)

lemma clear_orphaned_noop:
  "client_ok r c \<Longrightarrow> map_of (gr_clientModels r) c = None \<Longrightarrow> clearOrphanedClientModelInfosLocked c r = r"
  using client_ok_absent[of r c]
  by (simp add: clearOrphanedClientModelInfosLocked_def Let_def drop_noop delete_absent)

lemma register_new_ok:
  assumes ok: "registry_ok r" and ids: "[] \<notin> set (map mi_ID ms)" "ms \<noteq> []" and new: "map_of (gr_clientModels r) c = None" and c: "c \<noteq> []"
  obtains s where "only_models r s" "register_new c p ms now r = registered c p ms s" "registry_ok (registered c p ms s)"
proof -
  have cok: "client_ok r c" using ok by (simp add: registry_ok_def)
  note ab = client_ok_absent[OF cok new]
  let ?m = "\<lambda>i. the (map_of (new_models ms) i)" and ?news = "map mi_ID ms"
  let ?f = "\<lambda>i. add_one p (?m i) now (hasClientSupportingWebSearchLocked i [] c r) (hasClientSupportingWebSearchLocked i p c r)"
  define s where "s = fold (\<lambda>i. addModelRegistration i p (?m i) now c) ?news r"
  have "changes_model i (?f i) s' (addModelRegistration i p (?m i) now c s')" if "i \<in> set ?news" "only_models r s'" for i s'
  proof -
    have "i \<noteq> []" using that(1) ids(1) by metis
    from add_rounds[OF that(2) this, where p = p and m = "?m i" and now = now and c = c and k = 1] show ?thesis by simp
  qed
  then have s: "only_models r s" "map_of (gr_models s) i = (?f i ^^ count_list ?news i) (map_of (gr_models r) i)" for i
    using changes_fold[where xs = ?news and f = ?f and r = r and j = i] by (simp_all add: s_def)
  have "list_at (gr_clientModelInfos s) c = []" using s(1) ab(1) by (auto elim: only_modelsE)
  then have u: "register_new c p ms now r = registered c p ms s"
    by (simp add: register_new_def registered_def clear_orphaned_noop[OF cok new] s_def Let_def drop_noop)
  let ?u = "registered c p ms s"
  note v = registered_view[OF ok s(1) ids(1) refl, of c p] and cl = registered_client[OF ok s(1) ids c refl, of p]
  have k: "bound r i c = 0" for i by (simp add: bound_def list_at_def new)
  have "follows c r ?u i" for i
  proof (cases "count_list ?news i = 0")
    case True
    then show ?thesis by (intro follows_untouched[OF ok]) (auto simp: k cl v s(2))
  next
    case False
    have m: "reg_ok (bindings r i) (prov_bindings r i) (web_clients r i \<noteq> {}) (\<lambda>p. prov_web_clients r i p \<noteq> {}) (map_of (gr_models r) i)"
      using ok by (simp add: registry_ok_def model_ok_def)
    have "0 \<le> bindings r i" using bound_le[of r i c] k by simp
    moreover have "0 < count_list ?news i" using False by (simp only: neq0_conv)
    ultimately have "reg_ok (bindings r i + int (count_list ?news i)) ((prov_bindings r i)(p := prov_bindings r i p + int (count_list ?news i)))
       (mi_SupportsWebSearch (?m i) \<or> hasClientSupportingWebSearchLocked i [] c r)
       ((\<lambda>p. prov_web_clients r i p \<noteq> {})(p := mi_SupportsWebSearch (?m i) \<or> hasClientSupportingWebSearchLocked i p c r)) (map_of (gr_models ?u) i)"
      unfolding v(1) s(2) using client_model_facts(3)[OF ok] by (intro add_pow_ok[OF m]) simp_all
    then show ?thesis by (rule followsI) (use False ab(3) in \<open>simp_all add: k cl\<close>)
  qed
  then show thesis using s(1) u by (intro that[of s] replace_client_ok[OF ok cl(2,1) _ v(7)])
qed

text \<open>The end of an unregistration.\<close>

definition unregistered :: "string \<Rightarrow> 'm ModelRegistry \<Rightarrow> 'm ModelRegistry" where
  "unregistered c s = (let r = dropClientWebSearchCountsLocked c s
     in r\<lparr>gr_clientModels := AList.delete c (gr_clientModels r), gr_clientModelInfos := AList.delete c (gr_clientModelInfos r),
          gr_clientProviders := AList.delete c (gr_clientProviders r)\<rparr>)"

lemma unregistered_view:
  assumes ok: "registry_ok r" and s: "only_models r s" and u_def: "u = unregistered c s"
  shows "gr_models u = gr_models s" "gr_clientModels u = AList.delete c (gr_clientModels r)"
    "gr_clientModelInfos u = AList.delete c (gr_clientModelInfos r)" "gr_clientProviders u = AList.delete c (gr_clientProviders r)"
    "gr_clientEpochs u = gr_clientEpochs r" "gr_clientGenerations u = gr_clientGenerations r"
    "index_follows c r u" "client_ok u c" "same_clients c r u" "provider_of u c = []" "bound u i c = 0" "\<not> own_web u c i"
proof -
  obtain ms' where s': "s = r\<lparr>gr_models := ms'\<rparr>" using s by (rule only_modelsE)
  define d where "d = dropClientWebSearchCountsLocked c s"
  have ok': "\<And>d. client_ok s d" "index_ok s" using ok by (simp_all add: s' registry_ok_def)
  note d = drop_view[OF ok', where c = c, folded d_def]
  note dsel = only_index_sel[OF d(1)]
  have u: "u = d\<lparr>gr_clientModels := AList.delete c (gr_clientModels d), gr_clientModelInfos := AList.delete c (gr_clientModelInfos d),
          gr_clientProviders := AList.delete c (gr_clientProviders d)\<rparr>" by (simp add: u_def unregistered_def d_def Let_def)
  show sel: "gr_models u = gr_models s" "gr_clientModels u = AList.delete c (gr_clientModels r)"
    "gr_clientModelInfos u = AList.delete c (gr_clientModelInfos r)" "gr_clientProviders u = AList.delete c (gr_clientProviders r)"
    "gr_clientEpochs u = gr_clientEpochs r" "gr_clientGenerations u = gr_clientGenerations r"
    by (simp_all add: u dsel s')
  show own: "\<not> own_web u c i" for i by (simp add: own_web_in sel)
  show "client_ok u c" "same_clients c r u" "provider_of u c = []" "bound u i c = 0"
    by (simp_all add: client_ok_def same_clients_def provider_of_def bound_def sel delete_conv')
  have "wc u i = wc d i" "wp u i q = wp d i q" for i q by (simp_all add: u wc_def wp_def)
  then show "index_follows c r u" using d own by (simp add: index_follows_def s')
qed

lemma unregister_loop_ok:
  assumes ok: "registry_ok r" and olds: "map_of (gr_clientModels r) c = Some olds"
  shows "registry_ok (unregistered c (fold (unregister_model c (list_at (gr_clientProviders r) c) now) olds r))"
    "only_models r (fold (unregister_model c (list_at (gr_clientProviders r) c) now) olds r)"
proof -
  let ?p = "provider_of r c"
  let ?f = "\<lambda>i. rm_one c ?p now False (hasClientSupportingWebSearchLocked i [] c r) (hasClientSupportingWebSearchLocked i ?p c r)"
  define s where "s = fold (unregister_model c ?p now) olds r"
  have "changes_model i (?f i) s' (unregister_model c ?p now i s')" if "i \<in> set olds" "only_models r s'" for i s'
    using remove_rounds[where r = r and s = s' and i = i and c = c and p = ?p and now = now and b = False and k = 1] that by (auto simp: unregister_model_eq)
  then have s: "only_models r s" "map_of (gr_models s) i = (?f i ^^ count_list olds i) (map_of (gr_models r) i)" for i
    using changes_fold[where xs = olds and f = ?f and r = r and j = i] by (simp_all add: s_def)
  let ?u = "unregistered c s"
  note v = unregistered_view[OF ok s(1) refl, of c]
  have k: "bound r i c = int (count_list olds i)" for i by (simp add: bound_def list_at_def olds)
  note f = client_model_facts[OF ok, where c = c]
  have "follows c r ?u i" for i
  proof (cases "count_list olds i = 0")
    case True
    then show ?thesis by (intro follows_untouched[OF ok]) (auto simp: k v s(2))
  next
    case False
    have m: "reg_ok (bindings r i) (prov_bindings r i) (web_clients r i \<noteq> {}) (\<lambda>p. prov_web_clients r i p \<noteq> {}) (map_of (gr_models r) i)"
      using ok by (simp add: registry_ok_def model_ok_def)
    have "0 < count_list olds i" using False by (simp only: neq0_conv)
    then have "reg_ok (bindings r i - int (count_list olds i)) ((prov_bindings r i)(?p := prov_bindings r i ?p - int (count_list olds i)))
        (hasClientSupportingWebSearchLocked i [] c r) ((\<lambda>p. prov_web_clients r i p \<noteq> {})(?p := hasClientSupportingWebSearchLocked i ?p c r))
        (map_of (gr_models ?u) i)"
      unfolding v(1) s(2)
      by (rule rm_pow_ok[OF m]) (use bound_le[of r i c] f(1)[of i] f(2)[of i] in \<open>auto simp: k split: if_splits\<close>)
    then show ?thesis by (rule followsI) (simp_all add: k v)
  qed
  then show "registry_ok (unregistered c (fold (unregister_model c (list_at (gr_clientProviders r) c) now) olds r))"
    unfolding provider_of_def[symmetric] s_def[symmetric] by (intro replace_client_ok[OF ok v(9,8) _ v(7)])
  show "only_models r (fold (unregister_model c (list_at (gr_clientProviders r) c) now) olds r)"
    using s(1) by (simp add: s_def provider_of_def)
qed

section \<open>Operations that keep the bindings\<close>

definition same_binding :: "'m ModelRegistration \<Rightarrow> 'm ModelRegistration \<Rightarrow> bool" where
  "same_binding g h \<longleftrightarrow> mr_Count h = mr_Count g \<and> mr_Info h = mr_Info g \<and> mr_InfoByProvider h = mr_InfoByProvider g \<and> mr_Providers h = mr_Providers g"

definition same_bindings :: "'m ModelRegistry \<Rightarrow> 'm ModelRegistry \<Rightarrow> bool" where
  "same_bindings r r' \<longleftrightarrow> gr_clientModels r' = gr_clientModels r \<and> gr_clientModelInfos r' = gr_clientModelInfos r \<and>
     gr_clientProviders r' = gr_clientProviders r \<and> gr_webSearchClientCounts r' = gr_webSearchClientCounts r \<and>
     gr_webSearchProviderCounts r' = gr_webSearchProviderCounts r \<and>
     (\<forall>i. rel_option same_binding (map_of (gr_models r) i) (map_of (gr_models r') i))"

lemma same_binding_refl [simp]: "same_binding g g"
  by (simp add: same_binding_def)

lemma rel_same_binding_refl [simp]: "rel_option same_binding go go"
  by (simp add: option.rel_refl)

lemma same_bindings_refl [simp]: "same_bindings r r"
  by (simp add: same_bindings_def)

lemma same_bindings_trans: "same_bindings r s \<Longrightarrow> same_bindings s t \<Longrightarrow> same_bindings r t"
proof -
  assume a: "same_bindings r s" "same_bindings s t"
  have "rel_option same_binding (map_of (gr_models r) i) (map_of (gr_models t) i)" for i
  proof -
    have "rel_option same_binding (map_of (gr_models r) i) (map_of (gr_models s) i)" "rel_option same_binding (map_of (gr_models s) i) (map_of (gr_models t) i)"
      using a by (simp_all add: same_bindings_def)
    then show ?thesis
      by (cases "map_of (gr_models r) i"; cases "map_of (gr_models s) i"; cases "map_of (gr_models t) i") (auto simp: same_binding_def)
  qed
  then show ?thesis using a by (simp add: same_bindings_def)
qed

lemma reg_ok_same_binding: "rel_option same_binding go ho \<Longrightarrow> reg_ok K P W V go = reg_ok K P W V ho"
  by (cases go; cases ho) (auto simp: reg_ok_Some same_binding_def cong: prov_ok_cong)

lemma same_bindings_ok:
  assumes "same_bindings r r'"
  shows "registry_ok r' = registry_ok r"
proof -
  have f: "gr_clientModels r' = gr_clientModels r" "gr_clientModelInfos r' = gr_clientModelInfos r" "gr_clientProviders r' = gr_clientProviders r"
    "gr_webSearchClientCounts r' = gr_webSearchClientCounts r" "gr_webSearchProviderCounts r' = gr_webSearchProviderCounts r"
    and m: "\<And>i. rel_option same_binding (map_of (gr_models r) i) (map_of (gr_models r') i)"
    using assms by (simp_all add: same_bindings_def)
  have p: "provider_of r' = provider_of r" "clients r' = clients r" "own_web r' = own_web r" "bound r' = bound r"
    by (simp_all add: provider_of_def clients_def own_web_def bound_def f fun_eq_iff)
  have q: "web_clients r' = web_clients r" "prov_web_clients r' = prov_web_clients r" "bindings r' = bindings r" "prov_bindings r' = prov_bindings r"
    by (unfold web_clients_def prov_web_clients_def bindings_def prov_bindings_def p) (rule refl)+
  have "model_ok r' i = model_ok r i" for i unfolding model_ok_def q using reg_ok_same_binding[OF m] by simp
  moreover have "client_ok r' c = client_ok r c" for c by (simp add: client_ok_def f cong: option.case_cong)
  moreover have "index_ok r' = index_ok r" by (simp add: index_ok_def wc_def wp_def f q)
  ultimately show ?thesis by (simp add: registry_ok_def)
qed

lemma same_bindings_adjust: "(\<And>g. same_binding g (f g)) \<Longrightarrow> same_bindings r (upd_registration i f r)"
  by (auto simp: same_bindings_def upd_registration_def option.rel_map intro: option.rel_refl)

lemma same_bindings_map_vals: "(\<And>g. same_binding g (f g)) \<Longrightarrow> same_bindings r (r\<lparr>gr_models := map_vals f (gr_models r)\<rparr>)"
  by (auto simp: same_bindings_def option.rel_map intro: option.rel_refl)

lemma same_bindings_invalidate [simp]: "same_bindings r (invalidateAvailableModelsCacheLocked s) = same_bindings r s"
  by (simp add: same_bindings_def invalidateAvailableModelsCacheLocked_def)

lemma registry_ok_invalidate [simp]: "registry_ok (invalidateAvailableModelsCacheLocked r) = registry_ok r"
  by (rule same_bindings_ok) simp

lemma registry_ok_epochs [simp]:
  "registry_ok (r\<lparr>gr_clientEpochs := e\<rparr>) = registry_ok r" "registry_ok (r\<lparr>gr_clientGenerations := e\<rparr>) = registry_ok r"
  "registry_ok (r\<lparr>gr_registrationEpoch := n\<rparr>) = registry_ok r"
  by (rule same_bindings_ok; simp add: same_bindings_def)+

text \<open>Both ways of leaving end in \<open>unregistered\<close>; both ways of registering end in \<open>registered\<close>.\<close>

definition bumped :: "string \<Rightarrow> 'm ModelRegistry \<Rightarrow> 'm ModelRegistry" where
  "bumped c r = r\<lparr>gr_clientEpochs := AList.update c (count_at (gr_clientEpochs r) c + 1) (gr_clientEpochs r),
      gr_clientGenerations := AList.update c (count_at (gr_clientGenerations r) c + 1) (gr_clientGenerations r),
      gr_registrationEpoch := Suc (gr_registrationEpoch r)\<rparr>"

definition opened :: "string \<Rightarrow> string \<Rightarrow> bool \<Rightarrow> 'm ModelRegistry \<Rightarrow> 'm ModelRegistry" where
  "opened c p keep r = r\<lparr>gr_clientEpochs := AList.update c (count_at (gr_clientEpochs r) c + 1) (gr_clientEpochs r),
      gr_clientGenerations := (if \<not> keep \<or> map_of (gr_clientModels r) c = None \<or> list_at (gr_clientProviders r) c \<noteq> p
            then AList.update c 0 (gr_clientGenerations r) else gr_clientGenerations r),
      gr_registrationEpoch := Suc (gr_registrationEpoch r)\<rparr>"

lemma opened_code:
  "opened c p keep r = (let r' = r\<lparr>gr_clientEpochs := AList.update c (count_at (gr_clientEpochs r) c + 1) (gr_clientEpochs r)\<rparr>;
      r' = (if \<not> keep \<or> map_of (gr_clientModels r) c = None \<or> list_at (gr_clientProviders r) c \<noteq> p
            then r'\<lparr>gr_clientGenerations := AList.update c 0 (gr_clientGenerations r')\<rparr> else r')
    in r'\<lparr>gr_registrationEpoch := Suc (gr_registrationEpoch r')\<rparr>)"
  by (cases r) (simp add: opened_def Let_def)

lemma bumped_ok [simp]: "registry_ok (bumped c r) = registry_ok r"
  by (simp add: bumped_def)

lemma opened_ok [simp]: "registry_ok (opened c p keep r) = registry_ok r"
  by (simp add: opened_def)

lemma unregisterClientInternal_view:
  assumes ok: "registry_ok r"
  obtains s where "only_models (bumped c r) s" "unregisterClientInternal c now r = unregistered c s" "registry_ok (unregisterClientInternal c now r)"
proof -
  have ok0: "registry_ok (bumped c r)" using ok by simp
  then have cok: "client_ok (bumped c r) c" by (simp add: registry_ok_def)
  show thesis
  proof (cases "map_of (gr_clientModels (bumped c r)) c")
    case None
    note ab = client_ok_absent[OF cok None]
    have "unregisterClientInternal c now r = bumped c r"
      unfolding unregisterClientInternal_def Let_def bumped_def[symmetric]
      using clear_orphaned_noop[OF cok] None ab by (simp add: delete_absent)
    moreover have "unregistered c (bumped c r) = bumped c r" using None ab by (simp add: unregistered_def Let_def drop_noop delete_absent)
    ultimately show thesis using ok0 by (intro that[of "bumped c r"]) simp_all
  next
    case (Some olds)
    let ?s = "fold (unregister_model c (list_at (gr_clientProviders (bumped c r)) c) now) olds (bumped c r)"
    have e: "unregisterClientInternal c now r = unregistered c ?s"
      unfolding unregisterClientInternal_def Let_def bumped_def[symmetric] using Some by (simp add: unregistered_def Let_def)
    show thesis using unregister_loop_ok[OF ok0 Some] e by (intro that[of ?s]) simp_all
  qed
qed

lemma registerClientLocked_view:
  assumes ok: "registry_ok r" and c: "c \<noteq> []" and ms: "given_models models \<noteq> []"
  obtains s where "only_models (opened c (ToLower p) keep r) s"
    "registerClientLocked c p models keep now r = invalidateAvailableModelsCacheLocked (registered c (ToLower p) (given_models models) s)"
    "registry_ok (registerClientLocked c p models keep now r)"
proof -
  have ok0: "registry_ok (opened c (ToLower p) keep r)" using ok by simp
  have f: "gr_clientModels (opened c (ToLower p) keep r) = gr_clientModels r" by (simp add: opened_def)
  have e: "registerClientLocked c p models keep now r = invalidateAvailableModelsCacheLocked (case map_of (gr_clientModels r) c of
       None \<Rightarrow> register_new c (ToLower p) (given_models models) now (opened c (ToLower p) keep r)
     | Some olds \<Rightarrow> reconcile c (ToLower p) (given_models models) keep olds now (opened c (ToLower p) keep r))"
    unfolding registerClientLocked_def opened_code Let_def if_not_P[OF ms] by (rule refl)
  show thesis
  proof (cases "map_of (gr_clientModels r) c")
    case None
    obtain s where "only_models (opened c (ToLower p) keep r) s"
      "register_new c (ToLower p) (given_models models) now (opened c (ToLower p) keep r) = registered c (ToLower p) (given_models models) s"
      "registry_ok (registered c (ToLower p) (given_models models) s)"
      using register_new_ok[OF ok0 given_ids ms _ c, of "ToLower p" now] None f by metis
    then show thesis using e None by (intro that[of s]) simp_all
  next
    case (Some olds)
    obtain s where "only_models (opened c (ToLower p) keep r) s"
      "reconcile c (ToLower p) (given_models models) keep olds now (opened c (ToLower p) keep r) = registered c (ToLower p) (given_models models) s"
      "registry_ok (registered c (ToLower p) (given_models models) s)"
      using reconcile_ok[OF ok0 given_ids ms, of c olds "ToLower p" keep now] Some f by metis
    then show thesis using e Some by (intro that[of s]) simp_all
  qed
qed

end
