(* ===== verification/RegistrySteps.thy ===== *)
theory RegistrySteps
  imports RegistryInvariant
begin

text \<open>
  The operations of the model registry as steps of a machine with a clock, and what they keep: the
  bookkeeping of \<open>registry_ok\<close>, the epochs of the clients, and the cache of the available models.
\<close>

section \<open>Registrations and removals\<close>

lemma unregister_facts:
  assumes ok: "registry_ok r" and r': "r' = unregisterClientInternal c now r"
  shows "registry_ok r'" "gr_clientEpochs r' = AList.update c (count_at (gr_clientEpochs r) c + 1) (gr_clientEpochs r)"
    "same_clients c r r'" "map_of (gr_clientModels r') c = None" "map_of (gr_clientModelInfos r') c = None"
proof -
  obtain s where s: "only_models (bumped c r) s" "r' = unregistered c s" "registry_ok r'"
    using unregisterClientInternal_view[OF ok, of c now] r' by metis
  have ok0: "registry_ok (bumped c r)" using ok by simp
  note v = unregistered_view[OF ok0 s(1,2)]
  show "registry_ok r'" by (rule s(3))
  show "gr_clientEpochs r' = AList.update c (count_at (gr_clientEpochs r) c + 1) (gr_clientEpochs r)" unfolding v by (simp add: bumped_def)
  show "same_clients c r r'" using v(9) by (simp add: same_clients_def bumped_def)
  show "map_of (gr_clientModels r') c = None" "map_of (gr_clientModelInfos r') c = None" by (simp_all add: v delete_conv')
qed

lemma register_facts:
  assumes ok: "registry_ok r" and c: "c \<noteq> []" and r': "r' = registerClientLocked c p models keep now r" and ms: "ms = given_models models"
  shows "registry_ok r'" "gr_clientEpochs r' = AList.update c (count_at (gr_clientEpochs r) c + 1) (gr_clientEpochs r)"
    "gr_availableModelsCache r' = []" "same_clients c r r'"
    "map_of (gr_clientModels r') c = (if ms = [] then None else Some (map mi_ID ms))"
    "map_of (gr_clientModelInfos r') c = (if ms = [] then None else Some (new_models ms))"
proof -
  note inv = invalidateAvailableModelsCacheLocked_def
  have "registry_ok r' \<and> gr_clientEpochs r' = AList.update c (count_at (gr_clientEpochs r) c + 1) (gr_clientEpochs r) \<and>
    gr_availableModelsCache r' = [] \<and> same_clients c r r' \<and> map_of (gr_clientModels r') c = (if ms = [] then None else Some (map mi_ID ms)) \<and>
    map_of (gr_clientModelInfos r') c = (if ms = [] then None else Some (new_models ms))"
  proof (cases "ms = []")
    case True
    obtain s where s: "only_models (bumped c r) s" "unregisterClientInternal c now r = unregistered c s" "registry_ok (unregisterClientInternal c now r)"
      by (rule unregisterClientInternal_view[OF ok])
    have ok0: "registry_ok (bumped c r)" using ok by simp
    note v = unregistered_view[OF ok0 s(1) refl, of c]
    have e: "r' = invalidateAvailableModelsCacheLocked (unregistered c s)"
      using True ms by (simp add: r' registerClientLocked_def s(2)) (simp add: unregistered_def Let_def delete_idem)
    have "same_clients c r (unregistered c s)" using v(9) by (simp add: same_clients_def bumped_def)
    then have "same_clients c r r'" by (simp add: e inv same_clients_def)
    moreover have "gr_clientEpochs r' = AList.update c (count_at (gr_clientEpochs r) c + 1) (gr_clientEpochs r)" by (simp add: e inv v) (simp add: bumped_def)
    moreover have "map_of (gr_clientModels r') c = None" "map_of (gr_clientModelInfos r') c = None" by (simp_all add: e inv v delete_conv')
    ultimately show ?thesis using s True by (simp add: e) (simp add: inv)
  next
    case False
    then obtain s where s: "only_models (opened c (ToLower p) keep r) s"
      "r' = invalidateAvailableModelsCacheLocked (registered c (ToLower p) ms s)" "registry_ok r'"
      using registerClientLocked_view[OF ok c, of models p keep now] r' ms by metis
    have ok0: "registry_ok (opened c (ToLower p) keep r)" and ids: "[] \<notin> set (map mi_ID ms)" using ok given_ids ms by simp_all
    note v = registered_view[OF ok0 s(1) ids refl, of c "ToLower p"] and cl = registered_client[OF ok0 s(1) ids False c refl, of "ToLower p"]
    have "same_clients c r (registered c (ToLower p) ms s)" using cl(2) by (simp add: same_clients_def opened_def)
    then have "same_clients c r r'" by (simp add: s(2) inv same_clients_def)
    moreover have "gr_clientEpochs r' = AList.update c (count_at (gr_clientEpochs r) c + 1) (gr_clientEpochs r)" by (simp add: s(2) inv v) (simp add: opened_def)
    moreover have "map_of (gr_clientModels r') c = Some (map mi_ID ms)" "map_of (gr_clientModelInfos r') c = Some (new_models ms)"
      by (simp_all add: s(2) inv v update_conv')
    moreover have "gr_availableModelsCache r' = []" by (simp add: s(2) inv)
    ultimately show ?thesis using s(3) False by simp
  qed
  then show "registry_ok r'" "gr_clientEpochs r' = AList.update c (count_at (gr_clientEpochs r) c + 1) (gr_clientEpochs r)"
    "gr_availableModelsCache r' = []" "same_clients c r r'"
    "map_of (gr_clientModels r') c = (if ms = [] then None else Some (map mi_ID ms))"
    "map_of (gr_clientModelInfos r') c = (if ms = [] then None else Some (new_models ms))" by blast+
qed

section \<open>Changes of capabilities\<close>

definition mutated :: "(string \<Rightarrow> 'm ModelInfo \<Rightarrow> 'm ModelInfo) \<Rightarrow> (string \<times> 'm ModelInfo) list \<Rightarrow> (string \<times> 'm ModelInfo) list" where
  "mutated mutate infos = map (\<lambda>(i, info). (i, mutate i info)) infos"

lemma mutated_keys [simp]: "map fst (mutated mutate infos) = map fst infos" "fst ` set (mutated mutate infos) = fst ` set infos"
  by (force simp: mutated_def)+

lemma mutated_Cons [simp]: "mutated mutate ((i, info) # infos) = (i, mutate i info) # mutated mutate infos"
  by (simp add: mutated_def)

lemma has_web_nobody:
  assumes "list_at (gr_clientModelInfos s) [] = []" "list_at (gr_clientProviders s) [] = []"
  shows "hasClientSupportingWebSearchLocked i p [] s = (if p = [] then 0 < wc s i else 0 < wp s i p)"
  using assms by (simp add: hasClientSupportingWebSearchLocked_def Let_def own_web_def wc_def wp_def)

lemma capability_step:
  assumes nobody: "list_at (gr_clientModelInfos s) [] = []" "list_at (gr_clientProviders s) [] = []" and "i \<noteq> []" "c \<noteq> []"
    and t: "t = apply_capability mutate c p (i, info) s"
  shows "gr_clientModels t = gr_clientModels s" "gr_clientProviders t = gr_clientProviders s" "gr_clientEpochs t = gr_clientEpochs s"
    "gr_clientModelInfos t = adjust c (adjust i (\<lambda>_. mutate i info)) (gr_clientModelInfos s)"
    "wc t j = wc s j + (if j = i \<and> mi_SupportsWebSearch (mutate i info) then 1 else 0)"
    "wp t j q = wp s j q + (if j = i \<and> mi_SupportsWebSearch (mutate i info) \<and> q = p \<and> p \<noteq> [] then 1 else 0)"
    "map_of (gr_models t) j = (if j = i then map_option (web_flags p (0 < wc t i) (0 < wp t i p)) (map_of (gr_models s) i) else map_of (gr_models s) j)"
proof -
  define s1 where "s1 = s\<lparr>gr_clientModelInfos := adjust c (adjust i (\<lambda>_. mutate i info)) (gr_clientModelInfos s)\<rparr>"
  define s2 where "s2 = (if mi_SupportsWebSearch (mutate i info) then incrementWebSearchCountLocked i p s1 else s1)"
  have s2: "only_index s1 s2" "wc s2 j = wc s j + (if j = i \<and> mi_SupportsWebSearch (mutate i info) then 1 else 0)"
    "wp s2 j q = wp s j q + (if j = i \<and> mi_SupportsWebSearch (mutate i info) \<and> q = p \<and> p \<noteq> [] then 1 else 0)" for j q
    using increment_view[OF assms(3), where r = s1 and p = p] by (auto simp: s2_def s1_def wc_def wp_def)
  note sel = only_index_sel[OF s2(1)]
  have nobody2: "list_at (gr_clientModelInfos s2) [] = []" "list_at (gr_clientProviders s2) [] = []"
    using nobody assms(4) by (simp_all add: sel s1_def list_at_adjust)
  have t2: "t = upd_registration i (web_flags p (0 < wc s2 i) (0 < wp s2 i p)) s2"
    unfolding t apply_capability_def Let_def prod.case s1_def[symmetric] s2_def[symmetric] has_web_nobody[OF nobody2]
    by (auto simp: web_flags_def intro!: arg_cong[where f = "\<lambda>f. upd_registration i f s2"])
  have w: "wc t = wc s2" "wp t = wp s2" by (simp_all add: t2 upd_registration_def fun_eq_iff)
  show "gr_clientModels t = gr_clientModels s" "gr_clientProviders t = gr_clientProviders s" "gr_clientEpochs t = gr_clientEpochs s"
    "gr_clientModelInfos t = adjust c (adjust i (\<lambda>_. mutate i info)) (gr_clientModelInfos s)"
    by (simp_all add: t2 upd_registration_def sel) (simp_all add: s1_def)
  show "wc t j = wc s j + (if j = i \<and> mi_SupportsWebSearch (mutate i info) then 1 else 0)"
    "wp t j q = wp s j q + (if j = i \<and> mi_SupportsWebSearch (mutate i info) \<and> q = p \<and> p \<noteq> [] then 1 else 0)"
    by (simp_all add: w s2(2,3))
  show "map_of (gr_models t) j = (if j = i then map_option (web_flags p (0 < wc t i) (0 < wp t i p)) (map_of (gr_models s) i) else map_of (gr_models s) j)"
    by (simp add: w) (simp add: t2 upd_registration_def sel s1_def)
qed

lemma adjust_adjust: "adjust k f (adjust k g al) = adjust k (\<lambda>x. f (g x)) al"
  by (induction al) (auto simp: adjust_def)

lemma adjust_same: "adjust k (\<lambda>x. x) al = al"
  by (induction al) (auto simp: adjust_def)

lemma adjust_all:
  assumes "keys_distinct xs"
  shows "map fst (fold (\<lambda>(i, info). adjust i (\<lambda>_. info)) xs infos) = map fst infos \<and>
    map_of (fold (\<lambda>(i, info). adjust i (\<lambda>_. info)) xs infos) j =
      (if map_of infos j = None then None else case map_of xs j of None \<Rightarrow> map_of infos j | Some info \<Rightarrow> Some info)"
  using assms
proof (induction xs arbitrary: infos)
  case (Cons a xs)
  obtain i info where a: "a = (i, info)" by (cases a)
  have "map_of xs i = None" using Cons.prems by (simp add: a map_of_eq_None_iff)
  then show ?case using Cons by (auto simp: a split: option.splits)
qed (auto split: option.splits)

lemma capability_fold:
  assumes "keys_distinct infos" "[] \<notin> fst ` set infos" "c \<noteq> []"
    "list_at (gr_clientModelInfos s) [] = []" "list_at (gr_clientProviders s) [] = []"
    and t: "t = fold (apply_capability mutate c p) infos s" and m: "mut = mutated mutate infos"
  shows "gr_clientModels t = gr_clientModels s \<and> gr_clientProviders t = gr_clientProviders s \<and> gr_clientEpochs t = gr_clientEpochs s \<and>
    gr_clientModelInfos t = adjust c (fold (\<lambda>(i, info). adjust i (\<lambda>_. info)) mut) (gr_clientModelInfos s) \<and>
    (\<forall>j. wc t j = wc s j + (if web_in mut j then 1 else 0)) \<and>
    (\<forall>j q. wp t j q = wp s j q + (if web_in mut j \<and> q = p \<and> p \<noteq> [] then 1 else 0)) \<and>
    (\<forall>j. map_of (gr_models t) j = (if j \<in> fst ` set infos then map_option (web_flags p (0 < wc t j) (0 < wp t j p)) (map_of (gr_models s) j)
       else map_of (gr_models s) j))"
  using assms(1,2,4,5) t m
proof (induction infos arbitrary: s mut)
  case Nil
  then show ?case by (simp add: mutated_def id_def adjust_same)
next
  case (Cons a infos)
  obtain i info where a: "a = (i, info)" by (cases a)
  define s1 where "s1 = apply_capability mutate c p (i, info) s"
  define mut' where "mut' = mutated mutate infos"
  have i: "i \<noteq> []" "i \<notin> fst ` set infos" using Cons.prems a by auto
  note st = capability_step[OF Cons.prems(3,4) i(1) assms(3) s1_def]
  have n: "list_at (gr_clientModelInfos s1) [] = []" "list_at (gr_clientProviders s1) [] = []"
    using Cons.prems(3,4) assms(3) by (simp_all add: st list_at_adjust)
  have t1: "t = fold (apply_capability mutate c p) infos s1" using Cons.prems(5) by (simp add: a s1_def)
  have IH: "gr_clientModels t = gr_clientModels s1 \<and> gr_clientProviders t = gr_clientProviders s1 \<and> gr_clientEpochs t = gr_clientEpochs s1 \<and>
    gr_clientModelInfos t = adjust c (fold (\<lambda>(i, info). adjust i (\<lambda>_. info)) mut') (gr_clientModelInfos s1) \<and>
    (\<forall>j. wc t j = wc s1 j + (if web_in mut' j then 1 else 0)) \<and>
    (\<forall>j q. wp t j q = wp s1 j q + (if web_in mut' j \<and> q = p \<and> p \<noteq> [] then 1 else 0)) \<and>
    (\<forall>j. map_of (gr_models t) j = (if j \<in> fst ` set infos then map_option (web_flags p (0 < wc t j) (0 < wp t j p)) (map_of (gr_models s1) j)
       else map_of (gr_models s1) j))"
    using Cons.prems(1,2) a by (intro Cons.IH[OF _ _ n t1 mut'_def]) auto
  have absent: "\<not> web_in mut' i" using web_in_absent[of i mut'] i(2) by (simp add: mut'_def)
  have mut: "mut = (i, mutate i info) # mut'" using Cons.prems(6) by (simp add: a mut'_def)
  have infos: "gr_clientModelInfos t = adjust c (fold (\<lambda>(i, info). adjust i (\<lambda>_. info)) mut) (gr_clientModelInfos s)"
    using IH by (simp add: st mut comp_def adjust_adjust)
  show ?case using IH infos absent i(2) by (auto simp: st mut web_in_Cons a comp_def adjust_adjust)
qed

lemma reg_ok_web_flags: "reg_ok K P W V go \<Longrightarrow> reg_ok K P w (V(p := v)) (map_option (web_flags p w v) go)"
proof (cases go)
  case (Some g)
  have "mr_Count (web_flags p w v g) = mr_Count g" "mi_SupportsWebSearch (mr_Info (web_flags p w v g)) = w" by (simp_all add: web_flags_def)
  then show "reg_ok K P W V go \<Longrightarrow> ?thesis" using Some by (simp add: reg_ok_Some prov_ok_web_flags)
qed simp

lemma capabilities_ok:
  assumes ok: "registry_ok r" and c: "c \<in> clients r" and r': "r' = fold (apply_capability mutate c (provider_of r c)) infos (dropClientWebSearchCountsLocked c r)"
    and infos: "infos = list_at (gr_clientModelInfos r) c"
  shows "registry_ok r'" "gr_clientEpochs r' = gr_clientEpochs r" "gr_clientModels r' = gr_clientModels r" "same_clients c r r'"
    "map_of (list_at (gr_clientModelInfos r') c) j = map_of (mutated mutate infos) j"
proof -
  let ?p = "provider_of r c" and ?d = "dropClientWebSearchCountsLocked c r" and ?mut = "mutated mutate infos"
  have cok: "\<And>d. client_ok r d" and idx: "index_ok r" using ok by (simp_all add: registry_ok_def)
  obtain ids where ids: "map_of (gr_clientModels r) c = Some ids" using c by (auto simp: clients_iff)
  note cD = client_okD[OF cok ids, folded infos]
  have nobody: "map_of (gr_clientModels r) [] = None" using client_okD(1)[OF cok[of "[]"]] by (cases "map_of (gr_clientModels r) []") auto
  note d = drop_view[OF cok idx, where c = c] and dsel = only_index_sel[OF drop_view(1)[OF cok idx, where c = c]]
  have "list_at (gr_clientModelInfos ?d) [] = []" "list_at (gr_clientProviders ?d) [] = []"
    using client_ok_absent[OF cok nobody] by (simp_all add: dsel provider_of_def)
  note f = capability_fold[OF cD(5,6,1) this r' refl]
  have m: "gr_clientModels r' = gr_clientModels r" "gr_clientProviders r' = gr_clientProviders r" "gr_clientEpochs r' = gr_clientEpochs r"
    "gr_clientModelInfos r' = adjust c (fold (\<lambda>(i, info). adjust i (\<lambda>_. info)) ?mut) (gr_clientModelInfos r)"
    using f by (simp_all add: dsel)
  show "gr_clientEpochs r' = gr_clientEpochs r" "gr_clientModels r' = gr_clientModels r" by (rule m)+
  have ci: "map_of (gr_clientModelInfos r) c = Some infos" using cok[of c] ids by (auto simp: client_ok_def infos list_at_def)
  have all: "map fst (fold (\<lambda>(i, info). adjust i (\<lambda>_. info)) ?mut infos) = map fst infos"
    "map_of (fold (\<lambda>(i, info). adjust i (\<lambda>_. info)) ?mut infos) j = map_of ?mut j" for j
  proof -
    have "keys_distinct ?mut" using cD(5) by simp
    from adjust_all[OF this, of infos j] have *: "map fst (fold (\<lambda>(i, info). adjust i (\<lambda>_. info)) ?mut infos) = map fst infos"
      "map_of (fold (\<lambda>(i, info). adjust i (\<lambda>_. info)) ?mut infos) j = (if map_of infos j = None then None else case map_of ?mut j of None \<Rightarrow> map_of infos j | Some info \<Rightarrow> Some info)"
      by simp_all
    have "map_of ?mut j = None \<longleftrightarrow> map_of infos j = None" by (simp only: map_of_eq_None_iff mutated_keys)
    then show "map fst (fold (\<lambda>(i, info). adjust i (\<lambda>_. info)) ?mut infos) = map fst infos"
      "map_of (fold (\<lambda>(i, info). adjust i (\<lambda>_. info)) ?mut infos) j = map_of ?mut j" using * by (auto split: option.splits)
  qed
  have own: "own_web r' c i = web_in ?mut i" for i by (simp add: own_web_in m list_at_adjust ci infos[symmetric]) (simp add: web_in_def all)
  have pr: "provider_of r' = provider_of r" and bd: "bound r' = bound r" by (simp_all add: provider_of_def bound_def m fun_eq_iff)
  show same: "same_clients c r r'" by (simp add: same_clients_def m)
  show "map_of (list_at (gr_clientModelInfos r') c) j = map_of ?mut j" by (simp add: m list_at_adjust ci infos[symmetric] all)
  have cl: "client_ok r' c" using cok[of c] ids cD all(1)
    by (simp add: client_ok_def m ci) (metis list.set_map)
  have index: "index_follows c r r'" using f d own by (simp add: index_follows_def pr)
  have "follows c r r' i" for i
  proof (cases "i \<in> fst ` set infos")
    case False
    then have "bound r i c = 0" using client_infos_shape(3)[OF cok[of c], folded infos] by (simp add: bound_def)
    moreover have "\<not> web_in ?mut i" using web_in_absent[of i ?mut] False by simp
    ultimately show ?thesis using f False by (intro follows_untouched[OF ok]) (simp_all add: bd own dsel)
  next
    case True
    have mm: "map_of (gr_models r') i = map_option (web_flags ?p (0 < wc r' i) (0 < wp r' i ?p)) (map_of (gr_models r) i)" using f True by (simp add: dsel)
    have W: "(0 < wc r' i) = (own_web r' c i \<or> hasClientSupportingWebSearchLocked i [] c r)"
    proof -
      have "wc r' i = wc r i - (if own_web r c i then 1 else 0) + (if own_web r' c i then 1 else 0)" using index by (simp add: index_follows_def)
      then show ?thesis using own_counted(1)[OF cok idx, of c i] idx
        by (auto simp: hasClientSupportingWebSearchLocked_def Let_def wc_def[symmetric] index_ok_def)
    qed
    have V: "(0 < wp r' i ?p) = (own_web r' c i \<or> hasClientSupportingWebSearchLocked i ?p c r)" if "?p \<noteq> []"
    proof -
      have "wp r' i ?p = wp r i ?p - (if own_web r c i then 1 else 0) + (if own_web r' c i then 1 else 0)" using index that by (simp add: index_follows_def pr)
      then show ?thesis using own_counted(2)[OF cok idx, of c i ?p] idx that
        by (auto simp: hasClientSupportingWebSearchLocked_def Let_def wp_def[symmetric] index_ok_def provider_of_def[symmetric])
    qed
    have "reg_ok (bindings r i) (prov_bindings r i) (web_clients r i \<noteq> {}) (\<lambda>p. prov_web_clients r i p \<noteq> {}) (map_of (gr_models r) i)"
      using ok by (simp add: registry_ok_def model_ok_def)
    then have "reg_ok (bindings r i) (prov_bindings r i) (0 < wc r' i) ((\<lambda>p. prov_web_clients r i p \<noteq> {})(?p := 0 < wp r' i ?p)) (map_of (gr_models r') i)"
      unfolding mm by (rule reg_ok_web_flags)
    then show ?thesis by (rule followsI) (simp_all add: bd pr W V)
  qed
  then show "registry_ok r'" by (intro replace_client_ok[OF ok same cl _ index])
qed

section \<open>Marks, projections and the cache\<close>

text \<open>An operation is quiet when it either leaves the registrations and the cache alone or empties the cache.\<close>

definition quiet :: "'m ModelRegistry \<Rightarrow> 'm ModelRegistry \<Rightarrow> bool" where
  "quiet r r' \<longleftrightarrow> gr_availableModelsCache r' = [] \<or> (gr_models r' = gr_models r \<and> gr_availableModelsCache r' = gr_availableModelsCache r)"

text \<open>What an operation that changes marks only does to the rest.\<close>

definition marks_only :: "'m ModelRegistry \<Rightarrow> 'm ModelRegistry \<Rightarrow> bool" where
  "marks_only r r' \<longleftrightarrow> same_bindings r r' \<and> quiet r r' \<and> gr_clientEpochs r' = gr_clientEpochs r"

lemma marks_only_refl [simp]: "marks_only r r"
  by (simp add: marks_only_def quiet_def)

lemma marks_only_invalidate:
  "same_bindings r s \<Longrightarrow> gr_clientEpochs s = gr_clientEpochs r \<Longrightarrow> marks_only r (invalidateAvailableModelsCacheLocked s)"
  by (simp add: marks_only_def quiet_def invalidateAvailableModelsCacheLocked_def) (simp add: same_bindings_def)

lemma marks_only_upd:
  "(\<And>g. same_binding g (f g)) \<Longrightarrow> marks_only r (invalidateAvailableModelsCacheLocked (upd_registration i f r))"
  by (rule marks_only_invalidate[OF same_bindings_adjust]) (simp_all add: upd_registration_def)

lemma SetModelQuotaExceeded_marks: "marks_only r (SetModelQuotaExceeded c i now r)"
  by (auto simp: SetModelQuotaExceeded_def same_binding_def intro!: marks_only_upd split: option.splits)

lemma ClearModelQuotaExceeded_marks: "marks_only r (ClearModelQuotaExceeded c i r)"
  by (auto simp: ClearModelQuotaExceeded_def same_binding_def intro!: marks_only_upd split: option.splits)

lemma SuspendClientModel_marks: "marks_only r (SuspendClientModel c i reason now r)"
  by (auto simp: SuspendClientModel_def same_binding_def intro!: marks_only_upd split: option.splits)

lemma ResumeClientModel_marks: "marks_only r (ResumeClientModel c i now r)"
  by (auto simp: ResumeClientModel_def same_binding_def intro!: marks_only_upd split: option.splits)

lemma map_vals_id: "(\<And>k v. (k, v) \<in> set al \<Longrightarrow> f v = v) \<Longrightarrow> map_vals f al = al"
  by (induction al) (auto simp: map_vals_def)

lemma clear_quota_same: "same_binding g (snd (clear_quota c now g))" "fst (clear_quota c now g) = 0 \<Longrightarrow> snd (clear_quota c now g) = g"
  by (auto simp: clear_quota_def same_binding_def Let_def split: option.splits if_splits)

lemma ClearClientQuotaState_marks: "marks_only r (snd (ClearClientQuotaState c now r))"
proof -
  let ?c = "TrimSpace c" and ?f = "\<lambda>g. snd (clear_quota (TrimSpace c) now g)"
  let ?s = "r\<lparr>gr_models := map_vals ?f (gr_models r)\<rparr>"
  have m: "marks_only r (invalidateAvailableModelsCacheLocked ?s)"
    by (rule marks_only_invalidate[OF same_bindings_map_vals]) (simp_all add: clear_quota_same)
  have "?s = r" if "sum_list (map (\<lambda>(i, g). fst (clear_quota ?c now g)) (gr_models r)) = 0"
  proof -
    have "map_vals ?f (gr_models r) = gr_models r" using that by (intro map_vals_id clear_quota_same(2)) fastforce
    then show ?thesis by simp
  qed
  then show ?thesis using m by (auto simp: ClearClientQuotaState_def Let_def)
qed

lemma CleanupExpiredQuotas_marks: "marks_only r (CleanupExpiredQuotas now r)"
proof -
  let ?f = "\<lambda>g. g\<lparr>mr_QuotaExceededClients := filter (\<lambda>(c, t). \<not> expired_mark now t) (mr_QuotaExceededClients g)\<rparr>"
  let ?s = "r\<lparr>gr_models := map_vals ?f (gr_models r)\<rparr>"
  have m: "marks_only r (invalidateAvailableModelsCacheLocked ?s)"
    by (rule marks_only_invalidate[OF same_bindings_map_vals]) (simp_all add: same_binding_def)
  have "?s = r" if "\<not> list_ex (\<lambda>(i, g). list_ex (\<lambda>(c, t). expired_mark now t) (mr_QuotaExceededClients g)) (gr_models r)"
  proof -
    have "?f g = g" if "(i, g) \<in> set (gr_models r)" for i g
    proof -
      have "filter (\<lambda>(c, t). \<not> expired_mark now t) (mr_QuotaExceededClients g) = mr_QuotaExceededClients g"
        using \<open>\<not> list_ex _ _\<close> that by (fastforce simp: list_ex_iff filter_id_conv)
      then show ?thesis by simp
    qed
    then have "map_vals ?f (gr_models r) = gr_models r" by (rule map_vals_id)
    then show ?thesis by simp
  qed
  then show ?thesis using m by (auto simp: CleanupExpiredQuotas_def Let_def)
qed

lemma update_same: "map_of al k = Some v \<Longrightarrow> AList.update k v al = al"
  by (induction al) (auto split: if_splits)

lemma project_same:
  "same_binding g (snd (project_suspension c proj now g))" "same_binding g (snd (project_quota c proj now g))"
  "\<not> fst (project_suspension c proj now g) \<Longrightarrow> snd (project_suspension c proj now g) = g"
  "\<not> fst (project_quota c proj now g) \<Longrightarrow> snd (project_quota c proj now g) = g"
  by (auto simp: project_suspension_def project_quota_def same_binding_def)

lemma same_bindings_update:
  "map_of (gr_models r) i = Some g \<Longrightarrow> same_binding g h \<Longrightarrow> same_bindings r (r\<lparr>gr_models := AList.update i h (gr_models r)\<rparr>)"
  by (auto simp: same_bindings_def update_conv')

lemma project_loop_marks:
  "project_loop c owned now ps changed r = (changed', r') \<Longrightarrow>
     same_bindings r r' \<and> gr_clientEpochs r' = gr_clientEpochs r \<and> gr_availableModelsCache r' = gr_availableModelsCache r \<and>
     (\<not> changed' \<longrightarrow> \<not> changed \<and> gr_models r' = gr_models r)"
proof (induction c owned now ps changed r rule: project_loop.induct)
  case (2 c owned now proj ps changed r)
  let ?i = "TrimSpace (pj_ModelID proj)"
  show ?case
  proof (cases "?i = [] \<or> ?i \<notin> set owned \<or> map_of (gr_models r) ?i = None")
    case True
    then have "project_loop c owned now ps changed r = (changed', r')" using "2.prems" by (auto simp: Let_def split: if_splits)
    then show ?thesis using "2.IH"(1)[OF refl] "2.IH"(2)[OF refl] True by fastforce
  next
    case False
    then obtain g where g: "map_of (gr_models r) ?i = Some g" by auto
    obtain c1 g1 where s1: "project_suspension c proj now g = (c1, g1)" by fastforce
    obtain c2 g2 where s2: "project_quota c proj now g1 = (c2, g2)" by fastforce
    let ?s = "r\<lparr>gr_models := AList.update ?i g2 (gr_models r)\<rparr>"
    have loop: "project_loop c owned now ps (changed \<or> c1 \<or> c2) ?s = (changed', r')" using "2.prems" False g s1 s2 by (simp add: Let_def)
    have cond: "\<not> (?i = [] \<or> ?i \<notin> set owned)" using False by blast
    have IH: "same_bindings ?s r' \<and> gr_clientEpochs r' = gr_clientEpochs ?s \<and> gr_availableModelsCache r' = gr_availableModelsCache ?s \<and>
        (\<not> changed' \<longrightarrow> \<not> (changed \<or> c1 \<or> c2) \<and> gr_models r' = gr_models ?s)"
      using "2.IH"(3)[OF refl cond g s1[symmetric] refl s2[symmetric] refl loop] .
    have "same_binding g g1" "same_binding g1 g2" using project_same(1)[of g c proj now] project_same(2)[of g1 c proj now] s1 s2 by simp_all
    then have "same_binding g g2" by (simp add: same_binding_def)
    then have "same_bindings r ?s" using same_bindings_update[OF g] by blast
    moreover have "?s = r" if "\<not> c1" "\<not> c2"
      using project_same(3)[of c proj now g] project_same(4)[of c proj now g1] s1 s2 that g by (simp add: update_same)
    ultimately show ?thesis using IH same_bindings_trans by fastforce
  qed
qed simp

lemma ApplyClientModelProjections_marks: "marks_only r (snd (ApplyClientModelProjections c epoch gen projs now r))"
proof -
  let ?c = "TrimSpace c"
  let ?s = "r\<lparr>gr_clientGenerations := AList.update ?c gen (gr_clientGenerations r)\<rparr>"
  let ?reg = "filter (\<lambda>m. m \<noteq> []) (map TrimSpace (list_at (gr_clientModels r) ?c))"
  obtain ch r' where p: "project_loop ?c ?reg now projs False ?s = (ch, r')" by fastforce
  have "same_bindings r ?s" by (simp add: same_bindings_def)
  then have m: "same_bindings r r'" "gr_clientEpochs r' = gr_clientEpochs r" "gr_availableModelsCache r' = gr_availableModelsCache r"
    "\<not> ch \<Longrightarrow> gr_models r' = gr_models r"
    using project_loop_marks[OF p] same_bindings_trans by auto
  have "marks_only r (if ch then invalidateAvailableModelsCacheLocked r' else r')"
    using m marks_only_invalidate[OF m(1,2)] by (auto simp: marks_only_def quiet_def)
  then show ?thesis using p by (simp add: ApplyClientModelProjections_def Let_def)
qed

end
