(* ===== verification/RegistryProperties.thy ===== *)
theory RegistryProperties
  imports RegistrySteps
begin

text \<open>
  The model registry as a machine with a clock, and the theorems about it. A step is one call of an
  operation, under the registry's lock; the clock may stand still between two calls and never goes
  back. \<open>GetAvailableModels\<close> reads the clock before it takes the lock, so that its reading may be
  older than the clock. Clients have identifiers that are not empty, and
  the callback of \<open>ApplyClientModelCapabilities\<close> changes capabilities, not identifiers.
\<close>

section \<open>The machine\<close>

type_synonym 'm registry_state = "'m ModelRegistry \<times> gtime"

inductive registry_step :: "'m registry_state \<Rightarrow> 'm registry_state \<Rightarrow> bool" where
  step_tick: "t \<le> t' \<Longrightarrow> registry_step (r, t) (r, t')"
| step_register: "c \<noteq> [] \<Longrightarrow> registry_step (r, t) (RegisterClient c p models t r, t)"
| step_register_fenced: "c \<noteq> [] \<Longrightarrow> registry_step (r, t) (snd (RegisterClientIfEpochCurrent c p e models publish t r), t)"
| step_replace: "c \<noteq> [] \<Longrightarrow> registry_step (r, t) (snd (ReplaceClientModels c p e models t r), t)"
| step_unregister: "registry_step (r, t) (UnregisterClient c t r, t)"
| step_unregister_fenced: "registry_step (r, t) (snd (UnregisterClientIfEpochCurrent c e publish t r), t)"
| step_set_quota: "registry_step (r, t) (SetModelQuotaExceeded c i t r, t)"
| step_clear_quota: "registry_step (r, t) (ClearModelQuotaExceeded c i r, t)"
| step_clear_client: "registry_step (r, t) (snd (ClearClientQuotaState c t r), t)"
| step_suspend: "registry_step (r, t) (SuspendClientModel c i reason t r, t)"
| step_resume: "registry_step (r, t) (ResumeClientModel c i t r, t)"
| step_cleanup: "registry_step (r, t) (CleanupExpiredQuotas t r, t)"
| step_project: "registry_step (r, t) (snd (ApplyClientModelProjections c e gen projs t r), t)"
| step_capabilities: "(\<And>i info. mi_ID (mutate i info) = mi_ID info) \<Longrightarrow> registry_step (r, t) (snd (ApplyClientModelCapabilities c e mutate r), t)"
| step_list: "0 \<le> now \<Longrightarrow> now \<le> t \<Longrightarrow> registry_step (r, t) (snd (GetAvailableModels h now r), t)"

definition registry_start :: "'m registry_state \<Rightarrow> bool" where
  "registry_start s \<longleftrightarrow> fst s = new_registry \<and> 0 \<le> snd s"

text \<open>A client's epoch never falls, and while it stands the client's models stand.\<close>

definition epochs_grow :: "'m ModelRegistry \<Rightarrow> 'm ModelRegistry \<Rightarrow> bool" where
  "epochs_grow r r' \<longleftrightarrow> (\<forall>c. ClientRegistrationEpoch c r \<le> ClientRegistrationEpoch c r' \<and>
     (ClientRegistrationEpoch c r' = ClientRegistrationEpoch c r \<longrightarrow> map_of (gr_clientModels r') c = map_of (gr_clientModels r) c))"

text \<open>The metadata a client keeps under an identifier carries that identifier.\<close>

definition infos_named :: "'m ModelRegistry \<Rightarrow> bool" where
  "infos_named r \<longleftrightarrow> (\<forall>c i info. map_of (list_at (gr_clientModelInfos r) c) i = Some info \<longrightarrow> mi_ID info = i)"

definition kept :: "'m ModelRegistry \<Rightarrow> 'm ModelRegistry \<Rightarrow> bool" where
  "kept r r' \<longleftrightarrow> registry_ok r' \<and> quiet r r' \<and> epochs_grow r r' \<and> (infos_named r \<longrightarrow> infos_named r')"

lemma infos_named_invalidate [simp]: "infos_named (invalidateAvailableModelsCacheLocked r) = infos_named r"
  unfolding infos_named_def invalidateAvailableModelsCacheLocked_def by simp

lemma infos_named_client:
  assumes "infos_named r" "same_clients c r r'" "\<And>i info. map_of (list_at (gr_clientModelInfos r') c) i = Some info \<Longrightarrow> mi_ID info = i"
  shows "infos_named r'"
  unfolding infos_named_def
proof (intro allI impI)
  fix d i info assume i: "map_of (list_at (gr_clientModelInfos r') d) i = Some info"
  show "mi_ID info = i"
  proof (cases "d = c")
    case False
    then have "list_at (gr_clientModelInfos r') d = list_at (gr_clientModelInfos r) d" using assms(2) by (simp add: same_clients_def list_at_def)
    then show ?thesis using i assms(1) by (simp add: infos_named_def)
  qed (use i assms(3) in simp)
qed

lemma new_models_named: "map_of (new_models ms) i = Some info \<Longrightarrow> mi_ID info = i"
proof -
  assume "map_of (new_models ms) i = Some info"
  then have "i \<in> mi_ID ` set ms" "info = the (map_of (map (\<lambda>m. (mi_ID m, m)) ms) i)"
    by (auto simp: new_models_def dest!: map_of_SomeD)
  moreover have "map_of (map (\<lambda>m. (mi_ID m, m)) ms) i \<noteq> None" using calculation(1) by (auto simp: map_of_eq_None_iff image_image)
  ultimately have "map_of (map (\<lambda>m. (mi_ID m, m)) ms) i = Some info" by auto
  from map_of_SomeD[OF this] show ?thesis by auto
qed

lemma kept_refl [simp]: "registry_ok r \<Longrightarrow> kept r r"
  by (simp add: kept_def quiet_def epochs_grow_def)

lemma kept_marks: "registry_ok r \<Longrightarrow> marks_only r r' \<Longrightarrow> kept r r'"
  using same_bindings_ok[of r r'] by (simp add: kept_def marks_only_def epochs_grow_def ClientRegistrationEpoch_def same_bindings_def infos_named_def)

lemma epochs_grow_bump:
  "gr_clientEpochs r' = AList.update c (count_at (gr_clientEpochs r) c + 1) (gr_clientEpochs r) \<Longrightarrow> same_clients c r r' \<Longrightarrow> epochs_grow r r'"
  by (simp add: epochs_grow_def ClientRegistrationEpoch_def same_clients_def)

lemma kept_register:
  assumes "registry_ok r" "c \<noteq> []"
  shows "kept r (registerClientLocked c p models keep now r)"
proof -
  note f = register_facts[OF assms refl refl, of p models keep now]
  have "infos_named r \<Longrightarrow> infos_named (registerClientLocked c p models keep now r)"
    using infos_named_client[OF _ f(4)] f(6) new_models_named by (auto simp: list_at_def split: if_splits)
  then show ?thesis using f by (simp add: kept_def quiet_def epochs_grow_bump)
qed

lemma kept_unregister:
  assumes "registry_ok r"
  shows "kept r (invalidateAvailableModelsCacheLocked (unregisterClientInternal c now r))"
proof -
  let ?r = "invalidateAvailableModelsCacheLocked (unregisterClientInternal c now r)"
  note f = unregister_facts[OF assms refl, of c now]
  have s: "same_clients c r ?r" "gr_clientEpochs ?r = AList.update c (count_at (gr_clientEpochs r) c + 1) (gr_clientEpochs r)"
    "map_of (gr_clientModelInfos ?r) c = None" "gr_availableModelsCache ?r = []"
    using f by (simp_all add: invalidateAvailableModelsCacheLocked_def same_clients_def)
  have "infos_named r \<Longrightarrow> infos_named ?r" using infos_named_client[OF _ s(1)] s(3) by (simp add: list_at_def)
  then show ?thesis using f(1) epochs_grow_bump[OF s(2,1)] s(4) by (simp add: kept_def quiet_def)
qed

lemma kept_invalidate:
  "registry_ok s \<Longrightarrow> gr_clientEpochs s = gr_clientEpochs r \<Longrightarrow> gr_clientModels s = gr_clientModels r \<Longrightarrow> (infos_named r \<Longrightarrow> infos_named s) \<Longrightarrow>
     kept r (invalidateAvailableModelsCacheLocked s)"
  by (simp add: kept_def) (simp add: quiet_def epochs_grow_def ClientRegistrationEpoch_def invalidateAvailableModelsCacheLocked_def)

lemma kept_capabilities:
  assumes ok: "registry_ok r" and mutate: "\<And>i info. mi_ID (mutate i info) = mi_ID info"
  shows "kept r (snd (ApplyClientModelCapabilities c e mutate r))"
proof -
  let ?c = "TrimSpace c" and ?infos = "list_at (gr_clientModelInfos r) (TrimSpace c)"
  let ?s = "fold (apply_capability mutate ?c (provider_of r ?c)) ?infos (dropClientWebSearchCountsLocked ?c r)"
  show ?thesis
  proof (cases "?c = [] \<or> count_at (gr_clientEpochs r) ?c \<noteq> e \<or> ?infos = []")
    case True
    then show ?thesis using ok by (auto simp: ApplyClientModelCapabilities_def Let_def)
  next
    case False
    have "?c \<in> clients r"
    proof (rule ccontr)
      assume "?c \<notin> clients r"
      then have "?infos = []" using client_ok_absent(1)[of r ?c] ok by (simp add: clients_iff registry_ok_def)
      then show False using False by simp
    qed
    note m = capabilities_ok[OF ok this refl refl, of mutate]
    have "snd (ApplyClientModelCapabilities c e mutate r) = invalidateAvailableModelsCacheLocked ?s"
      using False by (simp add: ApplyClientModelCapabilities_def Let_def provider_of_def)
    moreover have "infos_named r \<Longrightarrow> infos_named ?s"
    proof (rule infos_named_client[OF _ m(4)])
      assume n: "infos_named r"
      fix i info assume "map_of (list_at (gr_clientModelInfos ?s) ?c) i = Some info"
      then have "map_of (mutated mutate ?infos) i = Some info" by (simp add: m(5))
      moreover have "map_of (mutated mutate al) i = map_option (mutate i) (map_of al i)" for al
        unfolding mutated_def by (induction al) auto
      ultimately obtain old where old: "map_of ?infos i = Some old" "info = mutate i old" by auto
      then have "mi_ID old = i" using n unfolding infos_named_def by blast
      then show "mi_ID info = i" by (simp add: old(2) mutate)
    qed
    ultimately show ?thesis using kept_invalidate[OF m(1-3)] by simp
  qed
qed

lemmas mark_operations = SetModelQuotaExceeded_marks ClearModelQuotaExceeded_marks ClearClientQuotaState_marks SuspendClientModel_marks
  ResumeClientModel_marks CleanupExpiredQuotas_marks ApplyClientModelProjections_marks

text \<open>Every step but the listing of the models is \<open>kept\<close>; the listing changes the cache only.\<close>

lemma step_cases:
  assumes "registry_step s s'" "registry_ok (fst s)"
  shows "kept (fst s) (fst s') \<and> snd s \<le> snd s' \<or>
    (\<exists>h now. 0 \<le> now \<and> now \<le> snd s \<and> fst s' = snd (GetAvailableModels h now (fst s)) \<and> snd s' = snd s)"
  using assms
  by (induction rule: registry_step.induct)
     (auto simp: RegisterClient_def UnregisterClient_def RegisterClientIfEpochCurrent_def ReplaceClientModels_def UnregisterClientIfEpochCurrent_def
        Let_def kept_register kept_unregister kept_capabilities kept_marks mark_operations)

section \<open>The cache of the available models\<close>

text \<open>Folding to the least of some positive times, with zero for none.\<close>

definition least_time :: "('a \<Rightarrow> bool) \<Rightarrow> ('a \<Rightarrow> gtime) \<Rightarrow> 'a \<Rightarrow> gtime \<Rightarrow> gtime" where
  "least_time P T x e = (if P x \<and> (e = 0 \<or> T x < e) then T x else e)"

lemma least_time_fold:
  assumes "0 \<le> e" "\<And>x. x \<in> set xs \<Longrightarrow> P x \<Longrightarrow> 0 < T x"
  shows "0 \<le> fold (least_time P T) xs e \<and> (e \<noteq> 0 \<longrightarrow> fold (least_time P T) xs e \<noteq> 0 \<and> fold (least_time P T) xs e \<le> e) \<and>
    (\<forall>x\<in>set xs. P x \<longrightarrow> fold (least_time P T) xs e \<noteq> 0 \<and> fold (least_time P T) xs e \<le> T x)"
  using assms
proof (induction xs arbitrary: e)
  case (Cons x xs)
  let ?e = "least_time P T x e" and ?R = "fold (least_time P T) xs (least_time P T x e)"
  have e: "0 \<le> ?e" "e \<noteq> 0 \<Longrightarrow> ?e \<noteq> 0 \<and> ?e \<le> e" "P x \<Longrightarrow> ?e \<noteq> 0 \<and> ?e \<le> T x"
    using Cons.prems(1) Cons.prems(2)[of x] by (auto simp: least_time_def)
  have "0 \<le> ?R \<and> (?e \<noteq> 0 \<longrightarrow> ?R \<noteq> 0 \<and> ?R \<le> ?e) \<and> (\<forall>x\<in>set xs. P x \<longrightarrow> ?R \<noteq> 0 \<and> ?R \<le> T x)"
    using Cons.IH[OF e(1)] Cons.prems(2) by simp
  then show ?case using e(2,3) by (simp, metis order.trans)
qed simp

lemma earliest_recovery_least:
  "earliest_recovery now marks = fold (least_time (\<lambda>(c, t). quota_active now t) (\<lambda>(c, t). t + modelQuotaExceededWindow)) marks 0"
  by (simp add: earliest_recovery_def least_time_def[abs_def] Let_def case_prod_unfold quota_active_def)

lemma earliest_recovery_le:
  assumes "0 \<le> now"
  shows "0 \<le> earliest_recovery now marks"
    "(c, t) \<in> set marks \<Longrightarrow> quota_active now t \<Longrightarrow> earliest_recovery now marks \<noteq> 0 \<and> earliest_recovery now marks \<le> t + modelQuotaExceededWindow"
proof -
  let ?P = "\<lambda>(c :: string, t). quota_active now t" and ?T = "\<lambda>(c :: string, t). t + modelQuotaExceededWindow"
  have "0 < ?T x" if "?P x" for x using that assms by (auto simp: quota_active_def)
  then have f: "0 \<le> earliest_recovery now marks \<and> (\<forall>x\<in>set marks. ?P x \<longrightarrow> earliest_recovery now marks \<noteq> 0 \<and> earliest_recovery now marks \<le> ?T x)"
    using least_time_fold[of 0 marks ?P ?T] unfolding earliest_recovery_least by simp
  then show "0 \<le> earliest_recovery now marks" by simp
  show "(c, t) \<in> set marks \<Longrightarrow> quota_active now t \<Longrightarrow> earliest_recovery now marks \<noteq> 0 \<and> earliest_recovery now marks \<le> t + modelQuotaExceededWindow"
    using f by fastforce
qed

lemma build_expiry_le:
  assumes "0 \<le> now" "(i, g) \<in> set (gr_models r)" "snd (modelRegistrationAvailability now g) \<noteq> 0"
  shows "snd (buildAvailableModelsLocked now r) \<noteq> 0 \<and> snd (buildAvailableModelsLocked now r) \<le> snd (modelRegistrationAvailability now g)"
proof -
  let ?T = "\<lambda>x :: string \<times> 'a ModelRegistration. snd (modelRegistrationAvailability now (snd x))"
  have "snd (buildAvailableModelsLocked now r) = fold (least_time (\<lambda>x. ?T x \<noteq> 0) ?T) (gr_models r) 0"
    by (simp add: buildAvailableModelsLocked_def least_time_def[abs_def] Let_def case_prod_unfold)
  moreover have "0 \<le> ?T x" for x using earliest_recovery_le(1)[OF assms(1)] by (simp add: modelRegistrationAvailability_def Let_def)
  ultimately show ?thesis using least_time_fold[OF order.refl, of "gr_models r" "\<lambda>x. ?T x \<noteq> 0" ?T] assms(2,3) by (fastforce simp: order.order_iff_strict)
qed

text \<open>Until the cache expires every quota mark is as active as when the answer was built.\<close>

lemma availability_cong:
  assumes "\<And>c t. (c, t) \<in> set (mr_QuotaExceededClients g) \<Longrightarrow> quota_active now t = quota_active t0 t"
  shows "fst (modelRegistrationAvailability now g) = fst (modelRegistrationAvailability t0 g)"
proof -
  have a: "filter (\<lambda>(c, t). quota_active now t) (mr_QuotaExceededClients g) = filter (\<lambda>(c, t). quota_active t0 t) (mr_QuotaExceededClients g)"
    using assms by (intro filter_cong) auto
  have b: "(case map_of (mr_QuotaExceededClients g) c of None \<Rightarrow> False | Some t \<Rightarrow> quota_active now t) =
      (case map_of (mr_QuotaExceededClients g) c of None \<Rightarrow> False | Some t \<Rightarrow> quota_active t0 t)" for c
    using assms by (auto split: option.splits dest: map_of_SomeD)
  show ?thesis unfolding modelRegistrationAvailability_def Let_def a b by simp
qed

lemma build_stable:
  assumes t: "0 \<le> t0" "t0 \<le> now" and fresh: "snd (buildAvailableModelsLocked t0 r) = 0 \<or> now < snd (buildAvailableModelsLocked t0 r)"
  shows "fst (buildAvailableModelsLocked now r) = fst (buildAvailableModelsLocked t0 r)"
proof -
  have "quota_active now t = quota_active t0 t" if g: "(i, g) \<in> set (gr_models r)" "(c, t) \<in> set (mr_QuotaExceededClients g)" for i g c t
  proof (cases "quota_active t0 t")
    case False
    then show ?thesis using t(2) by (auto simp: quota_active_def)
  next
    case True
    have e: "snd (modelRegistrationAvailability t0 g) \<noteq> 0" "snd (modelRegistrationAvailability t0 g) \<le> t + modelQuotaExceededWindow"
      using earliest_recovery_le(2)[OF t(1) g(2) True] by (simp_all add: modelRegistrationAvailability_def Let_def)
    have "snd (buildAvailableModelsLocked t0 r) \<noteq> 0 \<and> snd (buildAvailableModelsLocked t0 r) \<le> snd (modelRegistrationAvailability t0 g)"
      by (rule build_expiry_le[OF t(1) g(1) e(1)])
    then show ?thesis using True fresh e(2) by (auto simp: quota_active_def)
  qed
  then have "fst (modelRegistrationAvailability now g) = fst (modelRegistrationAvailability t0 g)" if "(i, g) \<in> set (gr_models r)" for i g
    using that by (intro availability_cong) blast
  then have "filter (\<lambda>(i, g). fst (modelRegistrationAvailability now g)) (gr_models r) = filter (\<lambda>(i, g). fst (modelRegistrationAvailability t0 g)) (gr_models r)"
    by (intro filter_cong) auto
  then show ?thesis by (simp add: buildAvailableModelsLocked_def)
qed

definition cache_ok :: "gtime \<Rightarrow> 'm ModelRegistry \<Rightarrow> bool" where
  "cache_ok t r \<longleftrightarrow> (\<forall>h e. map_of (gr_availableModelsCache r) h = Some e \<longrightarrow>
     (\<exists>t0. 0 \<le> t0 \<and> t0 \<le> t \<and> buildAvailableModelsLocked t0 r = (ac_models e, ac_expiresAt e)))"

lemma build_models_only: "gr_models r' = gr_models r \<Longrightarrow> buildAvailableModelsLocked now r' = buildAvailableModelsLocked now r"
  by (simp add: buildAvailableModelsLocked_def)

lemma quiet_cache_ok:
  assumes "cache_ok t r" "quiet r r'" "t \<le> t'"
  shows "cache_ok t' r'"
proof (cases "gr_availableModelsCache r' = []")
  case False
  then have "gr_models r' = gr_models r" "gr_availableModelsCache r' = gr_availableModelsCache r" using assms(2) by (auto simp: quiet_def)
  then show ?thesis using assms(1,3) build_models_only[of r' r] unfolding cache_ok_def by (metis order.trans)
qed (simp add: cache_ok_def)

lemma list_fields:
  "gr_models (snd (GetAvailableModels h now r)) = gr_models r" "same_bindings r (snd (GetAvailableModels h now r))"
  "gr_clientEpochs (snd (GetAvailableModels h now r)) = gr_clientEpochs r"
  by (auto simp: GetAvailableModels_def same_bindings_def split: option.splits prod.splits)

lemma list_cache_ok:
  assumes "cache_ok t r" "0 \<le> now" "now \<le> t"
  shows "cache_ok t (snd (GetAvailableModels h now r))"
proof -
  let ?b = "buildAvailableModelsLocked now r"
  let ?c = "AList.update h \<lparr>ac_models = fst ?b, ac_expiresAt = snd ?b\<rparr> (gr_availableModelsCache r)"
  have "snd (GetAvailableModels h now r) = r \<or> snd (GetAvailableModels h now r) = r\<lparr>gr_availableModelsCache := ?c\<rparr>"
    by (auto simp: GetAvailableModels_def split: option.splits prod.splits)
  moreover have "cache_ok t (r\<lparr>gr_availableModelsCache := ?c\<rparr>)"
    using assms build_models_only[of "r\<lparr>gr_availableModelsCache := ?c\<rparr>" r] by (auto simp: cache_ok_def update_conv' split: if_splits)
  ultimately show ?thesis using assms(1) by metis
qed

section \<open>Invariants\<close>

definition machine_ok :: "'m registry_state \<Rightarrow> bool" where
  "machine_ok s \<longleftrightarrow> registry_ok (fst s) \<and> cache_ok (snd s) (fst s) \<and> 0 \<le> snd s \<and> infos_named (fst s)"

lemma new_registry_ok: "registry_ok new_registry"
  by (simp add: registry_ok_def client_ok_def model_ok_def index_ok_def new_registry_def bindings_def prov_bindings_def clients_def web_clients_def
      prov_web_clients_def wc_def wp_def)

lemma registry_step_keeps:
  assumes "registry_step s s'" "machine_ok s"
  shows "machine_ok s' \<and> epochs_grow (fst s) (fst s')"
proof -
  have ok: "registry_ok (fst s)" using assms(2) by (simp add: machine_ok_def)
  from step_cases[OF assms(1) ok] show ?thesis
  proof (elim disjE exE conjE)
    assume "kept (fst s) (fst s')" "snd s \<le> snd s'"
    then show ?thesis using assms(2) by (auto simp: machine_ok_def kept_def intro: quiet_cache_ok)
  next
    fix h now assume l: "0 \<le> now" "now \<le> snd s" "fst s' = snd (GetAvailableModels h now (fst s))" "snd s' = snd s"
    note f = list_fields[where h = h and now = now and r = "fst s", folded l(3)]
    have "epochs_grow (fst s) (fst s')" using f by (simp add: epochs_grow_def ClientRegistrationEpoch_def same_bindings_def)
    moreover have "machine_ok s'" using assms(2) l list_cache_ok[of "snd s" "fst s" now h] same_bindings_ok[OF f(2)] f(2)
      by (simp add: machine_ok_def infos_named_def same_bindings_def)
    ultimately show ?thesis by blast
  qed
qed

lemma registry_start_ok: "registry_start s \<Longrightarrow> machine_ok s"
  using new_registry_ok by (simp add: registry_start_def machine_ok_def) (simp add: cache_ok_def infos_named_def new_registry_def)

interpretation registry: inductive_invariant registry_start registry_step machine_ok
  by unfold_locales (auto dest: registry_start_ok registry_step_keeps)

lemma epochs_grow_trans: "epochs_grow r s \<Longrightarrow> epochs_grow s t \<Longrightarrow> epochs_grow r t"
  unfolding epochs_grow_def by (metis order.trans order.antisym)

lemma epochs_grow_run: "registry_step\<^sup>*\<^sup>* s s' \<Longrightarrow> machine_ok s \<Longrightarrow> epochs_grow (fst s) (fst s')"
proof (induction rule: rtranclp_induct)
  case base
  then show ?case by (simp add: epochs_grow_def)
next
  case (step y z)
  then show ?case using registry_step_keeps[OF step.hyps(2)] registry.steps_inv[OF step.hyps(1)] epochs_grow_trans by blast
qed

section \<open>An example\<close>

text \<open>Two clients of one model, one of which offers web search, and a client of another model.\<close>

definition demo_model :: "string \<Rightarrow> bool \<Rightarrow> unit ModelInfo option" where
  "demo_model i web = Some \<lparr>mi_ID = i, mi_SupportsWebSearch = web, mi_NativeCapabilities = None, mi_rest = ()\<rparr>"

definition demo_registry :: "unit ModelRegistry" where
  "demo_registry = RegisterClient ''c'' ''Codex'' [demo_model ''m'' False, None, demo_model ''n'' True, demo_model ''m'' True] 9
     (RegisterClient ''b'' ''gemini'' [demo_model ''m'' True] 7 (RegisterClient ''a'' ''gemini'' [demo_model ''m'' False] 5 new_registry))"

lemma demo_reachable: "reachable registry_start registry_step (demo_registry, 9)"
proof -
  let ?r1 = "RegisterClient ''a'' ''gemini'' [demo_model ''m'' False] 5 new_registry"
  let ?r2 = "RegisterClient ''b'' ''gemini'' [demo_model ''m'' True] 7 ?r1"
  have "reachable registry_start registry_step (new_registry, 5)" by (rule reach_init) (simp add: registry_start_def)
  then have "reachable registry_start registry_step (?r1, 5)" by (rule reach_step) (rule step_register, simp)
  then have "reachable registry_start registry_step (?r1, 7)" by (rule reach_step) (rule step_tick, simp)
  then have "reachable registry_start registry_step (?r2, 7)" by (rule reach_step) (rule step_register, simp)
  then have "reachable registry_start registry_step (?r2, 9)" by (rule reach_step) (rule step_tick, simp)
  then show ?thesis unfolding demo_registry_def by (rule reach_step) (rule step_register, simp)
qed

section \<open>Properties\<close>

lemma machine_facts:
  assumes "reachable registry_start registry_step (r, t)"
  shows "registry_ok r" "cache_ok t r" "\<And>c. client_ok r c" "index_ok r" "\<And>i. model_ok r i" "machine_ok (r, t)"
  using registry.reachable_inv[OF assms] by (simp_all add: machine_ok_def registry_ok_def)

text \<open>C23: After any sequence of registrations, replacements, removals, marks and capability changes the
  registry records exactly what its clients registered: a model is listed exactly when some client binds
  it, its count is the number of bindings, the count of every provider is the number of bindings by
  clients of that provider, a provider has metadata exactly when it has a binding, and the aggregate
  web-search flags say whether some client (of the provider) offers web search for the model.\<close>

theorem registry_bindings_exact:
  assumes "reachable registry_start registry_step (r, t)"
  shows "case map_of (gr_models r) i of
      None \<Rightarrow> \<forall>c\<in>clients r. i \<notin> set (list_at (gr_clientModels r) c)
    | Some g \<Rightarrow>
        0 < mr_Count g \<and> mr_Count g = (\<Sum>c\<in>clients r. int (count_list (list_at (gr_clientModels r) c) i)) \<and>
        (mi_SupportsWebSearch (mr_Info g) \<longleftrightarrow> (\<exists>c\<in>clients r. own_web r c i)) \<and>
        (\<forall>p. p \<noteq> [] \<longrightarrow>
          count_at (mr_Providers g) p = (\<Sum>c\<in>{c \<in> clients r. provider_of r c = p}. int (count_list (list_at (gr_clientModels r) c) i)) \<and>
          (case map_of (mr_InfoByProvider g) p of
             None \<Rightarrow> count_at (mr_Providers g) p = 0
           | Some info \<Rightarrow> 0 < count_at (mr_Providers g) p \<and> (mi_SupportsWebSearch info \<longleftrightarrow> (\<exists>c\<in>clients r. own_web r c i \<and> provider_of r c = p))))"
proof -
  have ok: "reg_ok (bindings r i) (prov_bindings r i) (web_clients r i \<noteq> {}) (\<lambda>p. prov_web_clients r i p \<noteq> {}) (map_of (gr_models r) i)"
    using machine_facts(5)[OF assms] by (simp add: model_ok_def)
  have "bindings r i = 0 \<longleftrightarrow> (\<forall>c\<in>clients r. bound r i c = 0)" unfolding bindings_def by (rule sum_nonneg_eq_0_iff) auto
  then have b: "bindings r i = 0 \<longleftrightarrow> (\<forall>c\<in>clients r. i \<notin> set (list_at (gr_clientModels r) c))" by (simp add: bound_def)
  show ?thesis
  proof (cases "map_of (gr_models r) i")
    case None
    then show ?thesis using ok b by simp
  next
    case (Some g)
    with ok have g: "0 < bindings r i" "mr_Count g = bindings r i" "mi_SupportsWebSearch (mr_Info g) = (web_clients r i \<noteq> {})"
      "prov_ok (prov_bindings r i) (\<lambda>p. prov_web_clients r i p \<noteq> {}) g" by (simp_all add: reg_ok_Some)
    have p: "prov_bindings r i p = (\<Sum>c\<in>{c \<in> clients r. provider_of r c = p}. int (count_list (list_at (gr_clientModels r) c) i))" for p
      unfolding prov_bindings_def bound_def by (rule sum.inter_filter[symmetric]) simp
    have cp: "count_at (mr_Providers g) p = prov_bindings r i p" if "p \<noteq> []" for p using g(4) that by (auto simp: prov_ok_def count_at_def)
    have ip: "case map_of (mr_InfoByProvider g) p of None \<Rightarrow> prov_bindings r i p = 0
        | Some info \<Rightarrow> 0 < prov_bindings r i p \<and> (mi_SupportsWebSearch info \<longleftrightarrow> (\<exists>c\<in>clients r. own_web r c i \<and> provider_of r c = p))" if "p \<noteq> []" for p
      using g(4) that prov_bindings_nonneg[of r i p] by (auto simp: prov_ok_def prov_web_clients_def order.order_iff_strict split: option.splits)
    have "(mi_SupportsWebSearch (mr_Info g) \<longleftrightarrow> (\<exists>c\<in>clients r. own_web r c i))" using g(3) by (auto simp: web_clients_def)
    then show ?thesis using Some g(1,2) cp ip by (simp add: p bindings_def bound_def cong: option.case_cong)
  qed
qed

theorem registry_bindings_exact_witness:
  "map_of (gr_models demo_registry) ''m'' \<noteq> None \<and> mr_Count (the (map_of (gr_models demo_registry) ''m'')) =
     (\<Sum>c\<in>clients demo_registry. int (count_list (list_at (gr_clientModels demo_registry) c) ''m'')) \<and>
   mr_Count (the (map_of (gr_models demo_registry) ''m'')) = 4"
proof -
  have "map_of (gr_models demo_registry) ''m'' \<noteq> None \<and> mr_Count (the (map_of (gr_models demo_registry) ''m'')) = 4" by code_simp
  then show ?thesis using registry_bindings_exact[OF demo_reachable, of "''m''"] by (auto split: option.splits)
qed

text \<open>The scan over all clients that the index stands in for.\<close>

definition scan_web_search :: "string \<Rightarrow> string \<Rightarrow> string \<Rightarrow> 'm ModelRegistry \<Rightarrow> bool" where
  "scan_web_search modelID provider excludeClientID r =
     list_ex (\<lambda>c. c \<noteq> excludeClientID \<and> (provider = [] \<or> list_at (gr_clientProviders r) c = provider) \<and> own_web r c modelID)
       (map fst (gr_clientModelInfos r))"

text \<open>The web-search index answers exactly as a scan over the clients would: some client other than the
  excluded one (of the given provider, if one is given) offers web search for the model.\<close>

theorem web_search_index_scan:
  assumes "reachable registry_start registry_step (r, t)"
  shows "hasClientSupportingWebSearchLocked i p c r = scan_web_search i p c r"
proof -
  have "d \<in> fst ` set (gr_clientModelInfos r)" if "own_web r d i" for d
  proof -
    have "map_of (gr_clientModelInfos r) d \<noteq> None" using that by (auto simp: own_web_def list_at_def split: option.splits)
    then show ?thesis by (simp add: map_of_eq_None_iff)
  qed
  then show ?thesis unfolding has_web_iff[OF machine_facts(3,4)[OF assms]]
    by (auto simp: scan_web_search_def list_ex_iff provider_of_def)
qed

theorem web_search_index_scan_witness:
  "hasClientSupportingWebSearchLocked ''m'' ''gemini'' ''a'' demo_registry = scan_web_search ''m'' ''gemini'' ''a'' demo_registry \<and>
   hasClientSupportingWebSearchLocked ''m'' ''gemini'' ''a'' demo_registry \<and> \<not> hasClientSupportingWebSearchLocked ''m'' ''gemini'' ''b'' demo_registry"
proof -
  have "hasClientSupportingWebSearchLocked ''m'' ''gemini'' ''a'' demo_registry \<and> \<not> hasClientSupportingWebSearchLocked ''m'' ''gemini'' ''b'' demo_registry"
    by code_simp
  then show ?thesis using web_search_index_scan[OF demo_reachable, of "''m''" "''gemini''" "''a''"] by blast
qed

text \<open>C24: The cache of the available models is never seen: whatever was registered, marked, suspended or listed
  before, \<open>GetAvailableModels\<close> answers with what a registry without a cache would list at some moment
  between the call's reading of the clock and its end.\<close>

theorem available_models_fresh:
  assumes "reachable registry_start registry_step (r, t)" "0 \<le> now" "now \<le> t"
  shows "\<exists>t'. now \<le> t' \<and> t' \<le> t \<and> fst (GetAvailableModels h now r) = fst (buildAvailableModelsLocked t' r)"
proof -
  have built: "?thesis" if "fst (GetAvailableModels h now r) = fst (buildAvailableModelsLocked now r)"
    using that assms(3) by (intro exI[of _ now]) simp
  show ?thesis
  proof (cases "map_of (gr_availableModelsCache r) h")
    case None
    then show ?thesis by (intro built) (auto simp: GetAvailableModels_def split: prod.splits)
  next
    case (Some e)
    then obtain t0 where t0: "0 \<le> t0" "t0 \<le> t" "buildAvailableModelsLocked t0 r = (ac_models e, ac_expiresAt e)"
      using machine_facts(2)[OF assms(1)] by (auto simp: cache_ok_def)
    show ?thesis
    proof (cases "cache_hit now e")
      case False
      then show ?thesis using Some by (intro built) (auto simp: GetAvailableModels_def split: prod.splits)
    next
      case True
      have a: "fst (GetAvailableModels h now r) = fst (buildAvailableModelsLocked t0 r)" using True Some t0 by (simp add: GetAvailableModels_def)
      show ?thesis
      proof (cases "t0 \<le> now")
        case le: True
        then show ?thesis using build_stable[OF t0(1) le, of r] True a t0(3) by (intro built) (simp add: cache_hit_def)
      next
        case False
        then show ?thesis using a t0(2) by (intro exI[of _ t0]) simp
      qed
    qed
  qed
qed

definition demo_listed :: "unit ModelRegistry" where
  "demo_listed = snd (GetAvailableModels ''openai'' 9 (SetModelQuotaExceeded ''b'' ''m'' 9 demo_registry))"

lemma demo_listed_reachable: "reachable registry_start registry_step (demo_listed, 11)"
proof -
  have "reachable registry_start registry_step (SetModelQuotaExceeded ''b'' ''m'' 9 demo_registry, 9)"
    by (rule reach_step[OF demo_reachable]) (rule step_set_quota)
  then have "reachable registry_start registry_step (demo_listed, 9)" unfolding demo_listed_def by (rule reach_step) (rule step_list, simp_all)
  then show ?thesis by (rule reach_step) (rule step_tick, simp)
qed

theorem available_models_fresh_witness:
  "gr_availableModelsCache demo_listed \<noteq> [] \<and>
   (\<exists>t'. 10 \<le> t' \<and> t' \<le> 11 \<and> fst (GetAvailableModels ''openai'' 10 demo_listed) = fst (buildAvailableModelsLocked t' demo_listed))"
proof -
  have "gr_availableModelsCache demo_listed \<noteq> []" by code_simp
  then show ?thesis using available_models_fresh[OF demo_listed_reachable, of 10 "''openai''"] by simp
qed

text \<open>A registration or a removal of the client.\<close>

inductive replaces_client :: "string \<Rightarrow> 'm registry_state \<Rightarrow> 'm registry_state \<Rightarrow> bool" for c :: string where
  "c \<noteq> [] \<Longrightarrow> replaces_client c (r, t) (RegisterClient c p models t r, t)"
| "c \<noteq> [] \<Longrightarrow> ReplaceClientModels c p e models t r = ((e', True), r') \<Longrightarrow> replaces_client c (r, t) (r', t)"
| "replaces_client c (r, t) (UnregisterClient c t r, t)"

lemma replaces_client_bumps:
  assumes "replaces_client c s s'" "machine_ok s"
  shows "registry_step s s'" "ClientRegistrationEpoch c (fst s) < ClientRegistrationEpoch c (fst s')"
proof -
  have *: "registry_step s s' \<and> ClientRegistrationEpoch c (fst s) < ClientRegistrationEpoch c (fst s')"
    using assms
  proof (cases rule: replaces_client.cases)
    case (1 r t p models)
    then show ?thesis using assms(2) register_facts(2)[OF _ 1(3) refl refl, of r p models False t]
      by (auto simp: machine_ok_def RegisterClient_def[symmetric] ClientRegistrationEpoch_def intro: step_register)
  next
    case (2 p e models t r e' r')
    then have r': "r' = registerClientLocked c p models True t r" by (simp add: ReplaceClientModels_def Let_def split: if_splits)
    have "registry_step (r, t) (snd (ReplaceClientModels c p e models t r), t)" using 2 by (intro step_replace)
    then show ?thesis using 2 assms(2) register_facts(2)[OF _ 2(3) r' refl] by (simp add: machine_ok_def ClientRegistrationEpoch_def)
  next
    case (3 r t)
    then show ?thesis using assms(2) unregister_facts(2)[OF _ refl, of r c t]
      by (auto simp: machine_ok_def UnregisterClient_def ClientRegistrationEpoch_def invalidateAvailableModelsCacheLocked_def
          intro: step_unregister[unfolded UnregisterClient_def invalidateAvailableModelsCacheLocked_def])
  qed
  then show "registry_step s s'" "ClientRegistrationEpoch c (fst s) < ClientRegistrationEpoch c (fst s')" by blast+
qed

text \<open>C25: Work that holds a client's registration epoch from before the client was registered anew or removed
  is refused, however much happens in between: the fenced registration and removal, the replacement of the
  models, the projections and the capability changes all answer no and leave the registry as it is.\<close>

theorem stale_epoch_rejected:
  assumes "reachable registry_start registry_step s0" "replaces_client c s0 s1" "registry_step\<^sup>*\<^sup>* s1 (r, t)"
    and e: "e = ClientRegistrationEpoch c (fst s0)" and c': "TrimSpace c' = c"
  shows "RegisterClientIfEpochCurrent c p e models publish t r = (False, r) \<and>
    UnregisterClientIfEpochCurrent c e publish t r = (False, r) \<and>
    ReplaceClientModels c p e models t r = ((0, False), r) \<and>
    ApplyClientModelProjections c' e gen projs t r = (False, r) \<and>
    ApplyClientModelCapabilities c' e mutate r = (False, r)"
proof -
  have ok: "machine_ok s0" by (rule registry.reachable_inv[OF assms(1)])
  note b = replaces_client_bumps[OF assms(2) ok]
  have "machine_ok s1" using registry_step_keeps[OF b(1) ok] by blast
  then have "ClientRegistrationEpoch c (fst s1) \<le> ClientRegistrationEpoch c r" using epochs_grow_run[OF assms(3)] by (simp add: epochs_grow_def)
  then have "e \<noteq> count_at (gr_clientEpochs r) c" using b(2) e by (simp add: ClientRegistrationEpoch_def)
  then show ?thesis
    by (auto simp: RegisterClientIfEpochCurrent_def UnregisterClientIfEpochCurrent_def ReplaceClientModels_def ApplyClientModelProjections_def
        ApplyClientModelCapabilities_def fence_open_def c' Let_def)
qed

theorem stale_epoch_rejected_witness:
  "\<exists>r1. r1 = UnregisterClient ''b'' 9 demo_registry \<and> ClientRegistrationEpoch ''b'' demo_registry = 1 \<and>
    RegisterClientIfEpochCurrent ''b'' ''gemini'' 1 [demo_model ''m'' True] (Some True) 9 r1 = (False, r1)"
proof -
  let ?r1 = "UnregisterClient ''b'' 9 demo_registry"
  have e: "ClientRegistrationEpoch ''b'' demo_registry = 1" by code_simp
  have "replaces_client ''b'' (demo_registry, 9) (?r1, 9)" by (rule replaces_client.intros(3))
  moreover have "registry_step\<^sup>*\<^sup>* (?r1, 9) (?r1, 9)" by simp
  moreover have "TrimSpace ''b'' = ''b''" by code_simp
  ultimately have "RegisterClientIfEpochCurrent ''b'' ''gemini'' 1 [demo_model ''m'' True] (Some True) 9 ?r1 = (False, ?r1)"
    using stale_epoch_rejected[OF demo_reachable, of "''b''" _ ?r1 9 1 "''b''" "''gemini''" "[demo_model ''m'' True]" "Some True"] e by auto
  then show ?thesis using e by blast
qed

text \<open>A client's registration epoch names its models: as long as it reads the same, the client has the
  same models, whatever happens to other clients, marks, suspensions and capabilities.\<close>

lemma epoch_names_models:
  assumes "machine_ok s" "registry_step\<^sup>*\<^sup>* s s'" "ClientRegistrationEpoch c (fst s') = ClientRegistrationEpoch c (fst s)"
  shows "list_at (gr_clientModels (fst s')) c = list_at (gr_clientModels (fst s)) c"
  using epochs_grow_run[OF assms(2,1)] assms(3) by (simp add: epochs_grow_def list_at_def)

lemma unique_loop_spec:
  "unique_loop seen models = map (\<lambda>i. the (map_of (map (\<lambda>m. (mi_ID m, m)) (given_models models)) i))
     (filter (\<lambda>i. i \<notin> set seen) (uniq (map mi_ID (given_models models))))"
proof (induction seen models rule: unique_loop.induct)
  case (3 seen model models)
  let ?ms = "given_models models" and ?i = "mi_ID model"
  show ?case
  proof (cases "?i = []")
    case True
    then show ?thesis using 3 by (simp add: given_models_def map_filter_simps)
  next
    case id: False
    then have g: "given_models (Some model # models) = model # ?ms" by (simp add: given_models_def map_filter_simps)
    show ?thesis
    proof (cases "?i \<in> set seen")
      case True
      then have "filter (\<lambda>i. i \<notin> set seen) (filter (\<lambda>j. j \<noteq> ?i) xs) = filter (\<lambda>i. i \<notin> set seen) xs" for xs by (induction xs) auto
      then show ?thesis using 3 True id g by (auto cong: map_cong)
    next
      case False
      have "filter (\<lambda>i. i \<notin> set seen) (filter (\<lambda>j. j \<noteq> ?i) xs) = filter (\<lambda>i. i \<notin> set (?i # seen)) xs" for xs by (induction xs) auto
      then show ?thesis using 3 False id g by (auto cong: map_cong)
    qed
  qed
qed (simp_all add: given_models_def map_filter_simps)

lemma unique_models: "cloneModelInfosUnique models = map snd (new_models (given_models models))"
  by (simp add: cloneModelInfosUnique_def unique_loop_spec new_models_def)

lemma uniq_distinct: "distinct xs \<Longrightarrow> uniq xs = xs"
  by (induction xs) (auto simp: filter_id_conv)

lemma models_from_infos:
  assumes "\<And>i. i \<in> set ids \<Longrightarrow> map_of infos i = Some (f i)"
  shows "List.map_filter (\<lambda>i. case map_of infos i of Some info \<Rightarrow> Some info | None \<Rightarrow> g i) ids = map f ids"
  using assms by (induction ids) (auto simp: map_filter_simps)

lemma models_of_client:
  assumes "machine_ok (r, t)"
  shows "map mi_ID (GetModelsForClient c r) = uniq (list_at (gr_clientModels r) c)"
proof -
  let ?ids = "uniq (list_at (gr_clientModels r) c)" and ?infos = "list_at (gr_clientModelInfos r) c"
  have cok: "client_ok r c" and n: "infos_named r" using assms by (simp_all add: machine_ok_def registry_ok_def)
  have i: "map_of ?infos i = Some (the (map_of ?infos i))" if "i \<in> set ?ids" for i
  proof -
    have "map_of ?infos i \<noteq> None" using that client_infos_shape(3)[OF cok] by (simp add: map_of_eq_None_iff)
    then show ?thesis by auto
  qed
  have "GetModelsForClient c r = map (\<lambda>i. the (map_of ?infos i)) ?ids"
    unfolding GetModelsForClient_def GetModelsAndEpochForClient_def fst_conv by (rule models_from_infos[OF i])
  moreover have "mi_ID (the (map_of ?infos i)) = i" if "i \<in> set ?ids" for i using i[OF that] n by (auto simp: infos_named_def)
  ultimately show ?thesis by (simp only: map_map comp_def) (rule map_idI, simp)
qed

text \<open>What a client registers is what the registry gives back: right after \<open>RegisterClient\<close> the client's models
  are the models of the request in its order, each once with the metadata of its first entry, entries
  that are nil or have no identifier left out (the list the registration hook is told); every other
  client's models, with their metadata, and epoch are what they were.\<close>

theorem register_lookup:
  assumes reach: "reachable registry_start registry_step (r, t)" and c: "c \<noteq> []"
  shows "GetModelsForClient c (RegisterClient c p models t r) = cloneModelInfosUnique models \<and>
    (\<forall>d. d \<noteq> c \<longrightarrow> GetModelsAndEpochForClient d (RegisterClient c p models t r) = GetModelsAndEpochForClient d r)"
proof -
  note ok = machine_facts(1)[OF reach]
  define r' where "r' = registerClientLocked c p models False t r"
  define ms where "ms = given_models models"
  note f = register_facts[OF ok c r'_def ms_def]
  have r: "RegisterClient c p models t r = r'" by (simp add: RegisterClient_def r'_def)
  have "GetModelsForClient c r' = map snd (new_models ms)"
  proof -
    have l: "list_at (gr_clientModels r') c = map mi_ID ms" "list_at (gr_clientModelInfos r') c = new_models ms"
      using f(5,6) by (auto simp: list_at_def new_models_def)
    have "map_of (new_models ms) i = Some (the (map_of (map (\<lambda>m. (mi_ID m, m)) ms) i))" if "i \<in> set (uniq (map mi_ID ms))" for i
      using that by (simp add: new_models_def map_of_map_restrict)
    then have "List.map_filter (\<lambda>i. case map_of (new_models ms) i of Some info \<Rightarrow> Some info | None \<Rightarrow> map_option mr_Info (map_of (gr_models r') i))
        (uniq (map mi_ID ms)) = map snd (new_models ms)"
      using models_from_infos[of "uniq (map mi_ID ms)" "new_models ms" "\<lambda>i. the (map_of (map (\<lambda>m. (mi_ID m, m)) ms) i)"]
      by (simp add: new_models_def[of ms] comp_def)
    then show ?thesis by (simp add: GetModelsForClient_def GetModelsAndEpochForClient_def l)
  qed
  moreover have "GetModelsAndEpochForClient d r' = GetModelsAndEpochForClient d r" if d: "d \<noteq> c" for d
  proof -
    have s: "list_at (gr_clientModels r') d = list_at (gr_clientModels r) d" "list_at (gr_clientModelInfos r') d = list_at (gr_clientModelInfos r) d"
      using f(4) d by (simp_all add: same_clients_def list_at_def)
    have "map_of (list_at (gr_clientModelInfos r) d) i \<noteq> None" if "i \<in> set (list_at (gr_clientModels r) d)" for i
      using client_infos_shape(3)[OF machine_facts(3)[OF reach, of d]] that by (simp add: map_of_eq_None_iff)
    then have "map_of (list_at (gr_clientModelInfos r) d) i = Some (the (map_of (list_at (gr_clientModelInfos r) d) i))"
      if "i \<in> set (uniq (list_at (gr_clientModels r) d))" for i using that by auto
    then have "List.map_filter (\<lambda>i. case map_of (list_at (gr_clientModelInfos r) d) i of Some info \<Rightarrow> Some info | None \<Rightarrow> map_option mr_Info (map_of (gr_models s) i))
          (uniq (list_at (gr_clientModels r) d)) =
        map (\<lambda>i. the (map_of (list_at (gr_clientModelInfos r) d) i)) (uniq (list_at (gr_clientModels r) d))" for s :: "'a ModelRegistry"
      by (rule models_from_infos)
    then show ?thesis unfolding GetModelsAndEpochForClient_def s using d by (simp add: f(2))
  qed
  ultimately show ?thesis by (simp add: r unique_models ms_def)
qed

theorem register_lookup_witness:
  "GetModelsForClient ''a'' (RegisterClient ''a'' ''codex'' [demo_model ''y'' True, None, demo_model ''m'' False, demo_model ''y'' False] 9 demo_registry) =
     cloneModelInfosUnique [demo_model ''y'' True, None, demo_model ''m'' False, demo_model ''y'' False] \<and>
   map mi_ID (cloneModelInfosUnique [demo_model ''y'' True, None, demo_model ''m'' False, demo_model ''y'' False]) = [''y'', ''m'']"
proof -
  have "map mi_ID (cloneModelInfosUnique [demo_model ''y'' True, None, demo_model ''m'' False, demo_model ''y'' False]) = [''y'', ''m'']" by code_simp
  then show ?thesis
    using register_lookup[OF demo_reachable, of "''a''" "''codex''" "[demo_model ''y'' True, None, demo_model ''m'' False, demo_model ''y'' False]"] by simp
qed

text \<open>A suspension for the quota of a whole credential counts as a quota cooldown (\<open>isQuotaSuspension\<close>), but
  \<open>ClearClientQuotaState\<close> leaves it in place; a suspension for the quota of the model is lifted.\<close>

lemma clear_keeps_credential_quota:
  "isQuotaSuspension ''credential_quota'' \<and>
   IsModelSuspendedForClient ''b'' ''m'' (snd (ClearClientQuotaState ''b'' 10 (SuspendClientModel ''b'' ''m'' ''credential_quota'' 9 demo_registry))) \<and>
   \<not> IsModelSuspendedForClient ''b'' ''m'' (snd (ClearClientQuotaState ''b'' 10 (SuspendClientModel ''b'' ''m'' ''quota'' 9 demo_registry)))"
  by code_simp

lemma ranked_names:
  assumes g: "keys_distinct al" "\<And>p. map_of al p = (if p = [] \<or> P p = 0 then None else Some (P p))" and P: "\<And>p. 0 \<le> P p"
    and l: "L = map fst (sort_key (\<lambda>(name :: string, n :: int). (- n, name)) (filter (\<lambda>(name, n). n > 0) al))"
  shows "set L = {p. p \<noteq> [] \<and> 0 < P p} \<and> distinct L \<and> sorted_wrt (\<lambda>p q. P q < P p \<or> (P q = P p \<and> p < q)) L"
proof -
  let ?key = "\<lambda>(name :: string, n :: int). (- n, name)"
  let ?ps = "sort_key ?key (filter (\<lambda>(name, n). n > 0) al)"
  have set_ps: "(p, n) \<in> set ?ps \<longleftrightarrow> p \<noteq> [] \<and> 0 < P p \<and> n = P p" for p n
    using map_of_eq_Some_iff[OF g(1), of p n] g(2)[of p] P[of p] by (auto split: if_splits)
  have "distinct (map fst (filter (\<lambda>(name, n). n > 0) al))" by (rule keys_distinct_filter[OF g(1)])
  then have d: "distinct (map fst ?ps)"
    by (metis (no_types, lifting) distinct_count_atmost_1 mset_map mset_sort set_mset_mset mset_eq_imp_distinct_iff)
  have "distinct (map ?key ?ps)" using d by (auto simp: distinct_map inj_on_def)
  then have "sorted_wrt (<) (map ?key ?ps)" using sorted_sort_key[of ?key] by (simp add: strict_sorted_iff)
  then have "sorted_wrt (\<lambda>x y. ?key x < ?key y) ?ps" by (simp add: sorted_wrt_map)
  then have "sorted_wrt (\<lambda>x y. P (fst y) < P (fst x) \<or> (P (fst y) = P (fst x) \<and> fst x < fst y)) ?ps"
    by (rule sorted_wrt_mono_rel[rotated]) (auto simp: set_ps simp del: set_sort)
  moreover have "p \<in> set L \<longleftrightarrow> (\<exists>n. (p, n) \<in> set ?ps)" for p unfolding l by force
  then have "set L = {p. p \<noteq> [] \<and> 0 < P p}" unfolding set_ps by auto
  ultimately show ?thesis using d l by (simp add: sorted_wrt_map)
qed

text \<open>The providers of a model, as requests are routed over them, are exactly the providers of the clients
  that bind it, each once, the provider with the most bindings first and equal ones by name.\<close>

theorem model_providers_ranked:
  assumes "reachable registry_start registry_step (r, t)"
  shows "set (GetModelProviders i r) = {p. p \<noteq> [] \<and> (\<exists>c\<in>clients r. provider_of r c = p \<and> i \<in> set (list_at (gr_clientModels r) c))} \<and>
    distinct (GetModelProviders i r) \<and>
    sorted_wrt (\<lambda>p q. prov_bindings r i q < prov_bindings r i p \<or> (prov_bindings r i q = prov_bindings r i p \<and> p < q)) (GetModelProviders i r)"
proof -
  have "prov_bindings r i p = 0 \<longleftrightarrow> (\<forall>c\<in>clients r. (if provider_of r c = p then bound r i c else 0) = 0)" for p
    unfolding prov_bindings_def by (rule sum_nonneg_eq_0_iff) auto
  then have nz: "prov_bindings r i p \<noteq> 0 \<longleftrightarrow> (\<exists>c\<in>clients r. provider_of r c = p \<and> i \<in> set (list_at (gr_clientModels r) c))" for p
    by (auto simp: bound_def split: if_splits)
  have b: "0 < prov_bindings r i p \<longleftrightarrow> (\<exists>c\<in>clients r. provider_of r c = p \<and> i \<in> set (list_at (gr_clientModels r) c))" for p
    unfolding nz[symmetric] using prov_bindings_nonneg[of r i p] by linarith
  have ok: "reg_ok (bindings r i) (prov_bindings r i) (web_clients r i \<noteq> {}) (\<lambda>p. prov_web_clients r i p \<noteq> {}) (map_of (gr_models r) i)"
    using machine_facts(5)[OF assms] by (simp add: model_ok_def)
  show ?thesis
  proof (cases "map_of (gr_models r) i")
    case None
    then have "prov_bindings r i p = 0" if "p \<noteq> []" for p using ok that by simp
    then have "{p. p \<noteq> [] \<and> 0 < prov_bindings r i p} = {}" by auto
    then show ?thesis using None unfolding b[symmetric] by (simp add: GetModelProviders_def)
  next
    case (Some g)
    then have g: "keys_distinct (mr_Providers g)"
      "\<And>p. map_of (mr_Providers g) p = (if p = [] \<or> prov_bindings r i p = 0 then None else Some (prov_bindings r i p))"
      using ok by (simp_all add: reg_ok_Some prov_ok_def)
    show ?thesis unfolding b[symmetric]
      by (rule ranked_names[OF g prov_bindings_nonneg]) (simp add: Some GetModelProviders_def)
  qed
qed

theorem model_providers_ranked_witness:
  "GetModelProviders ''m'' demo_registry = [''codex'', ''gemini''] \<and> distinct (GetModelProviders ''m'' demo_registry)"
proof -
  have "GetModelProviders ''m'' demo_registry = [''codex'', ''gemini'']" by code_simp
  then show ?thesis using model_providers_ranked[OF demo_reachable, of "''m''"] by blast
qed

text \<open>The capability of a model over all routes does not depend on the order in which the clients are met: one
  route known not to support native web search decides, and it takes support known on every route to say yes.\<close>

definition route_refuses :: "NativeCapabilityRoute \<Rightarrow> bool" where
  "route_refuses x \<longleftrightarrow> native_web x = Some False \<or> responsesWebSearchProviderPathSupport (rt_Provider x) = Some False"

definition route_supports :: "NativeCapabilityRoute \<Rightarrow> bool" where
  "route_supports x \<longleftrightarrow> native_web x = Some True \<and> responsesWebSearchProviderPathSupport (rt_Provider x) = Some True"

lemma resolve_loop_spec:
  "resolve_loop unknown routes =
     (if list_ex route_refuses routes then Some False else if \<not> unknown \<and> list_all route_supports routes then Some True else None)"
proof (induction routes arbitrary: unknown)
  case (Cons x routes)
  show ?case
    by (cases "native_web x"; cases "responsesWebSearchProviderPathSupport (rt_Provider x)")
       (simp_all add: Cons route_refuses_def[of x] route_supports_def[of x])
qed simp

lemma resolve_capability_conservative:
  "ResolveResponsesWebSearchCapability routes =
     (if list_ex route_refuses routes then Some False else if routes \<noteq> [] \<and> list_all route_supports routes then Some True else None)"
  by (auto simp: ResolveResponsesWebSearchCapability_def resolve_loop_spec)

end
