(* ===== verification/ThinkingConfig.thy ===== *)
theory ThinkingConfig
  imports AuthState ModelRegistry
begin

text \<open>
  The thinking configuration of \<open>src/internal/thinking\<close>: how much a model may think, as a budget of
  tokens or as a level. \<open>types.go\<close> and \<open>errors.go\<close> give the data, \<open>suffix.go\<close> reads a configuration
  from the suffix of a model's name, \<open>convert.go\<close> goes between budgets and levels, \<open>validate.go\<close>
  brings a configuration into what the chosen model accepts or rejects it, \<open>codex_wire.go\<close> names the
  effort on the wire, and the start of \<open>apply.go\<close> keeps the table of the providers' appliers.

  A level is a string, as in the source; \<open>int\<close> is the 64-bit integer of Go, with the sum that could
  overflow written out. An error keeps its code and its model; the text for people is left out, and so
  are the log lines and the arguments that only feed them. What a model's metadata holds beside the
  fields the registry reads is \<open>ThinkingInfo\<close>. An applier is a value of a type parameter: the functions
  here store and find appliers and never call one.
\<close>

section \<open>Data\<close>

record ThinkingSupport =
  ts_Min :: int
  ts_Max :: int
  ts_ZeroAllowed :: bool
  ts_DynamicAllowed :: bool
  ts_DisableType :: string
  ts_Levels :: "string list"

record ThinkingInfo =
  ti_Type :: string
  ti_Thinking :: "ThinkingSupport option"
  ti_UserDefined :: bool

type_synonym ThinkingModel = "ThinkingInfo ModelInfo"

abbreviation model_support :: "ThinkingModel \<Rightarrow> ThinkingSupport option" where
  "model_support m \<equiv> ti_Thinking (mi_rest m)"

datatype ThinkingMode = ModeBudget | ModeLevel | ModeNone | ModeAuto

fun mode_String :: "ThinkingMode \<Rightarrow> string" where
  "mode_String ModeBudget = ''budget''"
| "mode_String ModeLevel = ''level''"
| "mode_String ModeNone = ''none''"
| "mode_String ModeAuto = ''auto''"

abbreviation LevelNone :: string where "LevelNone \<equiv> ''none''"
abbreviation LevelAuto :: string where "LevelAuto \<equiv> ''auto''"
abbreviation LevelMinimal :: string where "LevelMinimal \<equiv> ''minimal''"
abbreviation LevelLow :: string where "LevelLow \<equiv> ''low''"
abbreviation LevelMedium :: string where "LevelMedium \<equiv> ''medium''"
abbreviation LevelHigh :: string where "LevelHigh \<equiv> ''high''"
abbreviation LevelXHigh :: string where "LevelXHigh \<equiv> ''xhigh''"
abbreviation LevelMax :: string where "LevelMax \<equiv> ''max''"
abbreviation LevelUltra :: string where "LevelUltra \<equiv> ''ultra''"

record ThinkingConfig =
  tc_Mode :: ThinkingMode
  tc_Budget :: int
  tc_Level :: string

text \<open>\<open>ThinkingConfig{}\<close> and the literals the sources build.\<close>

definition empty_config :: ThinkingConfig where
  "empty_config = \<lparr>tc_Mode = ModeBudget, tc_Budget = 0, tc_Level = []\<rparr>"

abbreviation none_config :: ThinkingConfig where
  "none_config \<equiv> \<lparr>tc_Mode = ModeNone, tc_Budget = 0, tc_Level = []\<rparr>"

abbreviation auto_config :: ThinkingConfig where
  "auto_config \<equiv> \<lparr>tc_Mode = ModeAuto, tc_Budget = -1, tc_Level = []\<rparr>"

abbreviation level_config :: "string \<Rightarrow> ThinkingConfig" where
  "level_config l \<equiv> \<lparr>tc_Mode = ModeLevel, tc_Budget = 0, tc_Level = l\<rparr>"

abbreviation budget_config :: "int \<Rightarrow> ThinkingConfig" where
  "budget_config b \<equiv> \<lparr>tc_Mode = ModeBudget, tc_Budget = b, tc_Level = []\<rparr>"

datatype ThinkingErrorCode =
  ErrInvalidPolicyRequest | ErrInvalidSuffix | ErrUnknownLevel | ErrThinkingNotSupported
| ErrLevelNotSupported | ErrBudgetOutOfRange | ErrProviderMismatch

record ThinkingError =
  te_Code :: ThinkingErrorCode
  te_Model :: string

definition NewThinkingError :: "ThinkingErrorCode \<Rightarrow> ThinkingError" where
  "NewThinkingError code = \<lparr>te_Code = code, te_Model = []\<rparr>"

definition NewThinkingErrorWithModel :: "ThinkingErrorCode \<Rightarrow> string \<Rightarrow> ThinkingError" where
  "NewThinkingErrorWithModel code model = \<lparr>te_Code = code, te_Model = model\<rparr>"

section \<open>Suffixes\<close>

text \<open>\<open>strconv.Atoi\<close> reads what \<open>ParseInt\<close> reads where an \<open>int\<close> has 64 bits.\<close>

definition ParseNumericSuffix :: "string \<Rightarrow> int option" where
  "ParseNumericSuffix rawSuffix =
     (if rawSuffix = [] then None
      else case ParseInt rawSuffix of
             None \<Rightarrow> None
           | Some v \<Rightarrow> if v < 0 then None else Some v)"

definition ParseSpecialSuffix :: "string \<Rightarrow> ThinkingMode option" where
  "ParseSpecialSuffix rawSuffix =
     (if rawSuffix = [] then None
      else let s = ToLower rawSuffix
           in if s = ''none'' then Some ModeNone
              else if s = ''auto'' \<or> s = ''-1'' then Some ModeAuto
              else None)"

definition ParseLevelSuffix :: "string \<Rightarrow> string option" where
  "ParseLevelSuffix rawSuffix =
     (if rawSuffix = [] then None
      else let s = ToLower rawSuffix
           in if s = ''minimal'' then Some LevelMinimal
              else if s = ''low'' then Some LevelLow
              else if s = ''medium'' then Some LevelMedium
              else if s = ''high'' then Some LevelHigh
              else if s = ''xhigh'' then Some LevelXHigh
              else if s = ''max'' then Some LevelMax
              else if s = ''ultra'' then Some LevelUltra
              else None)"

definition numeric_config :: "string \<Rightarrow> ThinkingConfig" where
  "numeric_config rawSuffix =
     (case ParseNumericSuffix rawSuffix of
        Some budget \<Rightarrow> if budget = 0 then none_config else budget_config budget
      | None \<Rightarrow> empty_config)"

definition level_or_numeric :: "string \<Rightarrow> ThinkingConfig" where
  "level_or_numeric rawSuffix =
     (case ParseLevelSuffix rawSuffix of
        Some level \<Rightarrow> level_config level
      | None \<Rightarrow> numeric_config rawSuffix)"

definition parseSuffixToConfig :: "string \<Rightarrow> ThinkingConfig" where
  "parseSuffixToConfig rawSuffix =
     (case ParseSpecialSuffix rawSuffix of
        Some ModeNone \<Rightarrow> none_config
      | Some ModeAuto \<Rightarrow> auto_config
      | _ \<Rightarrow> level_or_numeric rawSuffix)"

definition hasThinkingConfig :: "ThinkingConfig \<Rightarrow> bool" where
  "hasThinkingConfig c \<longleftrightarrow> tc_Mode c \<noteq> ModeBudget \<or> tc_Budget c \<noteq> 0 \<or> tc_Level c \<noteq> []"

definition HasThinkingSuffix :: "string \<Rightarrow> bool" where
  "HasThinkingSuffix model =
     (let r = ParseSuffix model
      in sr_HasSuffix r \<and> hasThinkingConfig (parseSuffixToConfig (sr_RawSuffix r)))"

section \<open>Budgets and levels\<close>

definition levelToBudgetMap :: "(string \<times> int) list" where
  "levelToBudgetMap =
     [(''none'', 0), (''auto'', -1), (''minimal'', 512), (''low'', 1024), (''medium'', 8192),
      (''high'', 24576), (''xhigh'', 32768), (''max'', 128000)]"

definition ConvertLevelToBudget :: "string \<Rightarrow> int option" where
  "ConvertLevelToBudget level = map_of levelToBudgetMap (ToLower level)"

definition ConvertBudgetToLevel :: "int \<Rightarrow> string option" where
  "ConvertBudgetToLevel budget =
     (if budget < -1 then None
      else if budget = -1 then Some LevelAuto
      else if budget = 0 then Some LevelNone
      else if budget \<le> 512 then Some LevelMinimal
      else if budget \<le> 1024 then Some LevelLow
      else if budget \<le> 8192 then Some LevelMedium
      else if budget \<le> 24576 then Some LevelHigh
      else Some LevelXHigh)"

definition HasLevel :: "string list \<Rightarrow> string \<Rightarrow> bool" where
  "HasLevel levels target \<longleftrightarrow> list_ex (\<lambda>level. EqualFold (TrimSpace level) target) levels"

definition MapToClaudeEffort :: "string \<Rightarrow> bool \<Rightarrow> string option" where
  "MapToClaudeEffort level supportsMax =
     (let level = ToLower (TrimSpace level)
      in if level = [] then None
         else if level = ''minimal'' then Some ''low''
         else if level \<in> set [''low'', ''medium'', ''high''] then Some level
         else if level \<in> set [''xhigh'', ''max''] then Some (if supportsMax then ''max'' else ''high'')
         else if level = ''auto'' then Some ''high''
         else None)"

datatype ModelCapability =
  CapabilityUnknown | CapabilityNone | CapabilityBudgetOnly | CapabilityLevelOnly | CapabilityHybrid

definition support_capability :: "ThinkingSupport \<Rightarrow> ModelCapability" where
  "support_capability s =
     (let hasBudget = ts_Min s > 0 \<or> ts_Max s > 0; hasLevels = length (ts_Levels s) > 0
      in if hasBudget \<and> hasLevels then CapabilityHybrid
         else if hasBudget then CapabilityBudgetOnly
         else if hasLevels then CapabilityLevelOnly
         else CapabilityNone)"

definition detectModelCapability :: "ThinkingModel option \<Rightarrow> ModelCapability" where
  "detectModelCapability modelInfo =
     (case modelInfo of
        None \<Rightarrow> CapabilityUnknown
      | Some m \<Rightarrow> (case model_support m of None \<Rightarrow> CapabilityNone | Some s \<Rightarrow> support_capability s))"

section \<open>Provider families\<close>

definition isBudgetCapableProvider :: "string \<Rightarrow> bool" where
  "isBudgetCapableProvider provider \<longleftrightarrow> provider \<in> set [''gemini'', ''antigravity'', ''claude'']"

definition isGeminiFamily :: "string \<Rightarrow> bool" where
  "isGeminiFamily provider \<longleftrightarrow> provider \<in> set [''gemini'', ''antigravity'']"

definition isOpenAIFamily :: "string \<Rightarrow> bool" where
  "isOpenAIFamily provider \<longleftrightarrow> provider \<in> set [''openai'', ''openai-response'', ''codex'']"

definition isKnownProviderFamily :: "string \<Rightarrow> bool" where
  "isKnownProviderFamily provider \<longleftrightarrow>
     provider \<in> set [''gemini'', ''antigravity'', ''claude'', ''openai'', ''openai-response'', ''codex'', ''kimi'',
       ''kimi-ai'', ''kimi.ai'', ''kimi.com'', ''xai'', ''interactions'', ''devin'']"

definition isSameProviderFamily :: "string \<Rightarrow> string \<Rightarrow> bool" where
  "isSameProviderFamily from to \<longleftrightarrow>
     (if from = to then True
      else (isGeminiFamily from \<and> isGeminiFamily to) \<or> (isOpenAIFamily from \<and> isOpenAIFamily to))"

section \<open>Clamping\<close>

definition standardLevelOrder :: "string list" where
  "standardLevelOrder = [LevelMinimal, LevelLow, LevelMedium, LevelHigh, LevelXHigh, LevelMax, LevelUltra]"

definition isLevelSupported :: "string \<Rightarrow> string list \<Rightarrow> bool" where
  "isLevelSupported level supported \<longleftrightarrow> list_ex (\<lambda>s. EqualFold level (TrimSpace s)) supported"

fun index_from :: "int \<Rightarrow> string \<Rightarrow> string list \<Rightarrow> int" where
  "index_from i level [] = -1"
| "index_from i level (l # ls) = (if EqualFold level l then i else index_from (i + 1) level ls)"

definition levelIndex :: "string \<Rightarrow> int" where
  "levelIndex level = index_from 0 level standardLevelOrder"

definition lower_best :: "string \<Rightarrow> int \<Rightarrow> int" where
  "lower_best s bestIdx =
     (let idx = levelIndex (TrimSpace s)
      in if idx \<noteq> -1 \<and> (bestIdx = -1 \<or> idx < bestIdx) then idx else bestIdx)"

definition lowestSupportedLevel :: "string list \<Rightarrow> string option" where
  "lowestSupportedLevel supported =
     (let bestIdx = fold lower_best supported (-1)
      in if bestIdx \<ge> 0 then Some (standardLevelOrder ! nat bestIdx) else None)"

definition nearer_best :: "int \<Rightarrow> string \<Rightarrow> int \<times> int \<Rightarrow> int \<times> int" where
  "nearer_best pos s = (\<lambda>(bestIdx, bestDist).
     (let idx = levelIndex (TrimSpace s); dist = \<bar>pos - idx\<bar>
      in if idx \<noteq> -1 \<and> (dist < bestDist \<or> (dist = bestDist \<and> idx < bestIdx)) then (idx, dist)
         else (bestIdx, bestDist)))"

definition clamp_level :: "string \<Rightarrow> string list \<Rightarrow> string" where
  "clamp_level level supported =
     (if length supported = 0 \<or> isLevelSupported level supported then level
      else let pos = levelIndex level
           in if pos = -1 then level
              else let (bestIdx, bestDist) =
                         fold (nearer_best pos) supported (-1, int (length standardLevelOrder) + 1)
                   in if bestIdx \<ge> 0 then standardLevelOrder ! nat bestIdx else level)"

definition clampLevel :: "string \<Rightarrow> ThinkingModel option \<Rightarrow> string" where
  "clampLevel level modelInfo =
     (let supported = (case modelInfo of
                         None \<Rightarrow> []
                       | Some m \<Rightarrow> (case model_support m of None \<Rightarrow> [] | Some s \<Rightarrow> ts_Levels s))
      in clamp_level level supported)"

definition clamp_budget :: "int \<Rightarrow> ThinkingSupport \<Rightarrow> int" where
  "clamp_budget v s =
     (if v = -1 then v
      else if v = 0 \<and> \<not> ts_ZeroAllowed s then ts_Min s
      else if ts_Min s = 0 \<and> ts_Max s = 0 then v
      else if v < ts_Min s then (if v = 0 \<and> ts_ZeroAllowed s then 0 else ts_Min s)
      else if v > ts_Max s then ts_Max s
      else v)"

definition clampBudget :: "int \<Rightarrow> ThinkingModel option \<Rightarrow> int" where
  "clampBudget v modelInfo =
     (case (case modelInfo of None \<Rightarrow> None | Some m \<Rightarrow> model_support m) of
        None \<Rightarrow> v
      | Some s \<Rightarrow> clamp_budget v s)"

definition normalizeLevels :: "string list \<Rightarrow> string list" where
  "normalizeLevels levels = map (\<lambda>l. ToLower (TrimSpace l)) levels"

definition convertAutoToMidRange :: "ThinkingConfig \<Rightarrow> ThinkingSupport \<Rightarrow> ThinkingConfig" where
  "convertAutoToMidRange c s =
     (if length (ts_Levels s) > 0 \<and> ts_Min s = 0 \<and> ts_Max s = 0
      then c\<lparr>tc_Mode := ModeLevel, tc_Level := LevelMedium, tc_Budget := 0\<rparr>
      else let mid = wrap64 (ts_Min s + ts_Max s) sdiv 2
           in if mid \<le> 0 \<and> ts_ZeroAllowed s then c\<lparr>tc_Mode := ModeNone, tc_Budget := 0\<rparr>
              else if mid \<le> 0 then c\<lparr>tc_Mode := ModeBudget, tc_Budget := ts_Min s\<rparr>
              else c\<lparr>tc_Mode := ModeBudget, tc_Budget := mid\<rparr>)"

section \<open>Validation\<close>

text \<open>\<open>ValidateConfig\<close> in its stages, each a function of the configuration so far. The first converts
  between the two formats and tells whether a budget came from a level.\<close>

definition family_mismatch :: "string \<Rightarrow> string \<Rightarrow> ThinkingModel \<Rightarrow> bool" where
  "family_mismatch from to m \<longleftrightarrow>
     (let modelType = ToLower (TrimSpace (ti_Type (mi_rest m)))
      in isKnownProviderFamily modelType \<and>
         ((from \<noteq> [] \<and> \<not> isSameProviderFamily from modelType) \<or>
          (to \<noteq> [] \<and> \<not> isSameProviderFamily to modelType)))"

definition allow_clamp :: "string \<Rightarrow> string \<Rightarrow> ThinkingModel \<Rightarrow> bool" where
  "allow_clamp from to m \<longleftrightarrow>
     detectModelCapability (Some m) \<in> set [CapabilityLevelOnly, CapabilityHybrid] \<and>
     (\<not> isSameProviderFamily from to \<or> family_mismatch from to m)"

definition strict_budget :: "string \<Rightarrow> string \<Rightarrow> ThinkingModel \<Rightarrow> bool \<Rightarrow> bool" where
  "strict_budget from to m fromSuffix \<longleftrightarrow>
     \<not> fromSuffix \<and> from \<noteq> [] \<and> isSameProviderFamily from to \<and> \<not> family_mismatch from to m"

definition convert_format :: "ThinkingModel \<Rightarrow> ThinkingConfig \<Rightarrow> ThinkingError + ThinkingConfig \<times> bool" where
  "convert_format m c =
     (case detectModelCapability (Some m) of
        CapabilityBudgetOnly \<Rightarrow>
          if tc_Mode c = ModeLevel then
            (if tc_Level c = LevelAuto then Inr (c, False)
             else case ConvertLevelToBudget (tc_Level c) of
                    None \<Rightarrow> Inl (NewThinkingError ErrUnknownLevel)
                  | Some budget \<Rightarrow> Inr (c\<lparr>tc_Mode := ModeBudget, tc_Budget := budget, tc_Level := []\<rparr>, True))
          else Inr (c, False)
      | CapabilityLevelOnly \<Rightarrow>
          if tc_Mode c = ModeBudget then
            (case ConvertBudgetToLevel (tc_Budget c) of
               None \<Rightarrow> Inl (NewThinkingError ErrUnknownLevel)
             | Some level \<Rightarrow>
                 Inr (c\<lparr>tc_Mode := ModeLevel, tc_Level := clampLevel level (Some m), tc_Budget := 0\<rparr>, False))
          else Inr (c, False)
      | _ \<Rightarrow> Inr (c, False))"

definition fold_special :: "ThinkingConfig \<Rightarrow> ThinkingConfig" where
  "fold_special c =
     (let c = (if tc_Mode c = ModeLevel \<and> tc_Level c = LevelNone
               then c\<lparr>tc_Mode := ModeNone, tc_Budget := 0, tc_Level := []\<rparr> else c);
          c = (if tc_Mode c = ModeLevel \<and> tc_Level c = LevelAuto
               then c\<lparr>tc_Mode := ModeAuto, tc_Budget := -1, tc_Level := []\<rparr> else c)
      in if tc_Mode c = ModeBudget \<and> tc_Budget c = 0 then c\<lparr>tc_Mode := ModeNone, tc_Level := []\<rparr> else c)"

definition check_level :: "bool \<Rightarrow> ThinkingModel \<Rightarrow> ThinkingSupport \<Rightarrow> ThinkingConfig \<Rightarrow> ThinkingError + ThinkingConfig" where
  "check_level clamp m s c =
     (if length (ts_Levels s) > 0 \<and> tc_Mode c = ModeLevel \<and> \<not> isLevelSupported (tc_Level c) (ts_Levels s)
      then let c = (if clamp then c\<lparr>tc_Level := clampLevel (tc_Level c) (Some m)\<rparr> else c)
           in if \<not> isLevelSupported (tc_Level c) (ts_Levels s) then Inl (NewThinkingError ErrLevelNotSupported)
              else Inr c
      else Inr c)"

definition budget_rejected :: "bool \<Rightarrow> ThinkingSupport \<Rightarrow> ThinkingConfig \<Rightarrow> bool" where
  "budget_rejected strict s c \<longleftrightarrow>
     strict \<and> tc_Mode c = ModeBudget \<and> (ts_Min s \<noteq> 0 \<or> ts_Max s \<noteq> 0) \<and>
     (tc_Budget c < ts_Min s \<or> tc_Budget c > ts_Max s \<or> (tc_Budget c = 0 \<and> \<not> ts_ZeroAllowed s))"

definition auto_fallback :: "ThinkingModel \<Rightarrow> ThinkingSupport \<Rightarrow> ThinkingConfig \<Rightarrow> ThinkingConfig" where
  "auto_fallback m s c =
     (if tc_Mode c = ModeAuto \<and> \<not> ts_DynamicAllowed s
      then let c = convertAutoToMidRange c s
           in if tc_Mode c = ModeLevel \<and> length (ts_Levels s) > 0 \<and> \<not> isLevelSupported (tc_Level c) (ts_Levels s)
              then c\<lparr>tc_Level := clampLevel (tc_Level c) (Some m)\<rparr> else c
      else c)"

definition finish_config :: "string \<Rightarrow> ThinkingModel \<Rightarrow> ThinkingSupport \<Rightarrow> ThinkingConfig \<Rightarrow> ThinkingConfig" where
  "finish_config to m s c =
     (if tc_Mode c = ModeNone \<and> to = ''claude''
      then if \<not> ts_ZeroAllowed s
           then case lowestSupportedLevel (ts_Levels s) of
                  Some lowest \<Rightarrow> c\<lparr>tc_Mode := ModeLevel, tc_Budget := 0, tc_Level := lowest\<rparr>
                | None \<Rightarrow> c\<lparr>tc_Budget := 0, tc_Level := []\<rparr>
           else c\<lparr>tc_Budget := 0, tc_Level := []\<rparr>
      else let c = (if tc_Mode c \<in> set [ModeBudget, ModeAuto, ModeNone]
                    then c\<lparr>tc_Budget := clampBudget (tc_Budget c) (Some m)\<rparr> else c);
               cannotDisable = (\<not> ts_ZeroAllowed s \<and> \<not> isLevelSupported LevelNone (ts_Levels s))
           in if tc_Mode c = ModeNone \<and> length (ts_Levels s) > 0 \<and> (tc_Budget c > 0 \<or> cannotDisable)
              then case lowestSupportedLevel (ts_Levels s) of
                     Some lowest \<Rightarrow> c\<lparr>tc_Level := lowest\<rparr>
                   | None \<Rightarrow> c
              else c)"

definition validate_supported ::
    "ThinkingConfig \<Rightarrow> ThinkingModel \<Rightarrow> ThinkingSupport \<Rightarrow> string \<Rightarrow> string \<Rightarrow> bool \<Rightarrow> ThinkingError + ThinkingConfig" where
  "validate_supported config m s from to fromSuffix =
     (case convert_format m config of
        Inl e \<Rightarrow> Inl e
      | Inr (c, derived) \<Rightarrow>
          (case check_level (allow_clamp from to m) m s (fold_special c) of
             Inl e \<Rightarrow> Inl e
           | Inr c \<Rightarrow>
               if budget_rejected (strict_budget from to m fromSuffix \<and> \<not> derived) s c
               then Inl (NewThinkingError ErrBudgetOutOfRange)
               else Inr (finish_config to m s (auto_fallback m s c))))"

definition ValidateConfig ::
    "ThinkingConfig \<Rightarrow> ThinkingModel option \<Rightarrow> string \<Rightarrow> string \<Rightarrow> bool \<Rightarrow> ThinkingError + ThinkingConfig" where
  "ValidateConfig config modelInfo fromFormat toFormat fromSuffix =
     (let from = ToLower (TrimSpace fromFormat); to = ToLower (TrimSpace toFormat);
          model = (case modelInfo of None \<Rightarrow> ''unknown'' | Some m \<Rightarrow> if mi_ID m \<noteq> [] then mi_ID m else ''unknown'')
      in case modelInfo of
           Some m \<Rightarrow>
             (case model_support m of
                Some s \<Rightarrow> validate_supported config m s from to fromSuffix
              | None \<Rightarrow> if tc_Mode config \<noteq> ModeNone
                        then Inl (NewThinkingErrorWithModel ErrThinkingNotSupported model) else Inr config)
         | None \<Rightarrow> if tc_Mode config \<noteq> ModeNone
                   then Inl (NewThinkingErrorWithModel ErrThinkingNotSupported model) else Inr config)"

section \<open>Intent, effort labels and the effort on the wire\<close>

definition IsUserDefinedModel :: "ThinkingModel option \<Rightarrow> bool" where
  "IsUserDefinedModel modelInfo = (case modelInfo of None \<Rightarrow> True | Some m \<Rightarrow> ti_UserDefined (mi_rest m))"

definition thinkingIsFullyDisabled :: "ThinkingConfig \<Rightarrow> bool" where
  "thinkingIsFullyDisabled c \<longleftrightarrow> tc_Mode c = ModeNone \<and> tc_Budget c = 0 \<and> tc_Level c = []"

definition thinkingRequestedOff :: "ThinkingConfig \<Rightarrow> bool" where
  "thinkingRequestedOff c \<longleftrightarrow> tc_Mode c = ModeNone \<or> (tc_Mode c = ModeBudget \<and> tc_Budget c = 0)"

definition shouldMapConfiguredHighIntent :: "string \<Rightarrow> string \<Rightarrow> ThinkingModel option \<Rightarrow> bool" where
  "shouldMapConfiguredHighIntent fromFormat toFormat modelInfo =
     (let from = ToLower (TrimSpace fromFormat); to = ToLower (TrimSpace toFormat)
      in if from \<noteq> to then True
         else case modelInfo of
                None \<Rightarrow> False
              | Some m \<Rightarrow> (let modelType = ToLower (TrimSpace (ti_Type (mi_rest m)))
                           in modelType \<noteq> [] \<and> \<not> isSameProviderFamily to modelType))"

definition first_supported :: "string list \<Rightarrow> string \<Rightarrow> string list \<Rightarrow> string" where
  "first_supported candidates level levels =
     (case find (\<lambda>c. isLevelSupported c levels) candidates of Some c \<Rightarrow> c | None \<Rightarrow> level)"

definition mapConfiguredHighIntent :: "string \<Rightarrow> ThinkingModel option \<Rightarrow> string" where
  "mapConfiguredHighIntent level modelInfo =
     (case (case modelInfo of None \<Rightarrow> None | Some m \<Rightarrow> model_support m) of
        None \<Rightarrow> level
      | Some s \<Rightarrow>
          if length (ts_Levels s) = 0 then level
          else let level = ToLower (TrimSpace level)
               in if level = LevelXHigh then first_supported [LevelXHigh, LevelMax, LevelHigh] level (ts_Levels s)
                  else if level = LevelMax then first_supported [LevelMax, LevelXHigh, LevelHigh] level (ts_Levels s)
                  else level)"

definition normalizeUserDefinedConfig :: "ThinkingConfig \<Rightarrow> string \<Rightarrow> ThinkingConfig" where
  "normalizeUserDefinedConfig c toFormat =
     (if tc_Mode c \<noteq> ModeLevel then c
      else if toFormat = ''claude'' then c
      else if \<not> isBudgetCapableProvider toFormat then c
      else case ConvertLevelToBudget (tc_Level c) of
             None \<Rightarrow> c
           | Some budget \<Rightarrow> c\<lparr>tc_Mode := ModeBudget, tc_Budget := budget, tc_Level := []\<rparr>)"

definition reasoningEffortFromConfig :: "ThinkingConfig \<Rightarrow> string" where
  "reasoningEffortFromConfig c =
     (if \<not> hasThinkingConfig c then []
      else case tc_Mode c of
             ModeNone \<Rightarrow> LevelNone
           | ModeAuto \<Rightarrow> LevelAuto
           | ModeLevel \<Rightarrow> ToLower (TrimSpace (tc_Level c))
           | ModeBudget \<Rightarrow> (case ConvertBudgetToLevel (tc_Budget c) of None \<Rightarrow> [] | Some l \<Rightarrow> l))"

definition reasoningEffortFromSuffix :: "SuffixResult \<Rightarrow> string" where
  "reasoningEffortFromSuffix suffix =
     (if \<not> sr_HasSuffix suffix then [] else reasoningEffortFromConfig (parseSuffixToConfig (sr_RawSuffix suffix)))"

definition CanonicalCodexWireEffort :: "string \<Rightarrow> ThinkingModel option \<Rightarrow> string" where
  "CanonicalCodexWireEffort effort modelInfo =
     (if \<not> EqualFold (TrimSpace effort) LevelUltra then effort
      else case modelInfo of
             None \<Rightarrow> effort
           | Some m \<Rightarrow>
               if IsUserDefinedModel modelInfo then effort
               else (case model_support m of
                       None \<Rightarrow> effort
                     | Some s \<Rightarrow> if \<not> HasLevel (ts_Levels s) LevelUltra then effort else LevelMax))"

section \<open>The table of appliers\<close>

record 'a pluginProviderApplier =
  pp_owner :: string
  pp_priority :: int
  pp_applier :: 'a

record 'a appliers =
  ap_native :: "(string \<times> 'a option) list"
  ap_plugin :: "(string \<times> 'a pluginProviderApplier) list"

definition init_appliers :: "'a appliers" where
  "init_appliers =
     \<lparr>ap_native = map (\<lambda>n. (n, None)) [''gemini'', ''claude'', ''openai'', ''codex'', ''antigravity'', ''kimi'',
        ''kimi-ai'', ''kimi.ai'', ''kimi.com'', ''xai''],
      ap_plugin = []\<rparr>"

definition normalizedProviderName :: "string \<Rightarrow> string" where
  "normalizedProviderName provider = ToLower (TrimSpace provider)"

definition getPluginProviderApplier :: "string \<Rightarrow> 'a appliers \<Rightarrow> 'a option" where
  "getPluginProviderApplier provider t =
     (let provider = normalizedProviderName provider
      in if provider = [] then None else map_option pp_applier (map_of (ap_plugin t) provider))"

definition GetProviderApplier :: "string \<Rightarrow> 'a appliers \<Rightarrow> 'a option" where
  "GetProviderApplier provider t =
     (let provider = normalizedProviderName provider
      in if provider = [] then None
         else case map_of (ap_native t) provider of
                Some nativeApplier \<Rightarrow> nativeApplier
              | None \<Rightarrow> map_option pp_applier (map_of (ap_plugin t) provider))"

definition resolveProviderApplier :: "string \<Rightarrow> string \<Rightarrow> 'a appliers \<Rightarrow> 'a option \<times> bool" where
  "resolveProviderApplier providerFormat providerKey t =
     (case getPluginProviderApplier providerKey t of
        Some applier \<Rightarrow> (Some applier, True)
      | None \<Rightarrow>
          (case getPluginProviderApplier providerFormat t of
             Some applier \<Rightarrow> (Some applier, True)
           | None \<Rightarrow> (GetProviderApplier providerFormat t, False)))"

definition RegisterProvider :: "string \<Rightarrow> 'a option \<Rightarrow> 'a appliers \<Rightarrow> 'a appliers" where
  "RegisterProvider name applier t =
     (let name = normalizedProviderName name
      in if name = [] then t else t\<lparr>ap_native := AList.update name applier (ap_native t)\<rparr>)"

definition RegisterPluginProvider ::
    "string \<Rightarrow> string \<Rightarrow> int \<Rightarrow> 'a option \<Rightarrow> 'a appliers \<Rightarrow> bool \<times> 'a appliers" where
  "RegisterPluginProvider owner name priority applier t =
     (let owner = TrimSpace owner; name = normalizedProviderName name
      in case applier of
           None \<Rightarrow> (False, t)
         | Some a \<Rightarrow>
             if owner = [] \<or> name = [] then (False, t)
             else if map_of (ap_native t) name \<noteq> None then (False, t)
             else let put = t\<lparr>ap_plugin := AList.update name
                               \<lparr>pp_owner = owner, pp_priority = priority, pp_applier = a\<rparr> (ap_plugin t)\<rparr>
                  in case map_of (ap_plugin t) name of
                       None \<Rightarrow> (True, put)
                     | Some current \<Rightarrow>
                         if pp_priority current > priority \<or>
                            (pp_priority current = priority \<and> pp_owner current \<le> owner)
                         then (False, t) else (True, put))"

definition UnregisterPluginProviders :: "string \<Rightarrow> 'a appliers \<Rightarrow> 'a appliers" where
  "UnregisterPluginProviders owner t =
     (let owner = TrimSpace owner
      in if owner = [] then t
         else t\<lparr>ap_plugin := filter (\<lambda>(provider, r). pp_owner r \<noteq> owner) (ap_plugin t)\<rparr>)"

definition ClearPluginProviders :: "'a appliers \<Rightarrow> 'a appliers" where
  "ClearPluginProviders t = t\<lparr>ap_plugin := []\<rparr>"

end
