(* ===== verification/ThinkingProperties.thy ===== *)
theory ThinkingProperties
  imports ThinkingConfig
begin

text \<open>
  What the validation of a thinking configuration promises. \<open>accepts\<close> is the contract of a model:
  the configurations a provider takes for it. A well-formed configuration that passes validation is
  accepted; each error arises in exactly the stated cases; a level outside the supported ones goes to
  the nearest supported one. The suffix of a model's name is read back as it was written, budgets and
  levels correspond, and the plugin that holds a provider's applier does not depend on the order of
  the registrations.
\<close>

section \<open>Positions in the standard order\<close>

lemma index_from_cases:
  "index_from i l ls = -1 \<or>
   (\<exists>k < length ls. index_from i l ls = i + int k \<and> EqualFold l (ls ! k))"
proof (induction ls arbitrary: i)
  case (Cons x ls)
  show ?case
  proof (cases "EqualFold l x")
    case False
    from Cons [of "i + 1"] show ?thesis
    proof
      assume "\<exists>k<length ls. index_from (i + 1) l ls = i + 1 + int k \<and> EqualFold l (ls ! k)"
      then obtain k where "k < length ls" "index_from (i + 1) l ls = i + 1 + int k" "EqualFold l (ls ! k)"
        by blast
      with False have "Suc k < length (x # ls) \<and> index_from i l (x # ls) = i + int (Suc k) \<and>
          EqualFold l ((x # ls) ! Suc k)" by simp
      then show ?thesis by blast
    qed (simp add: False)
  qed auto
qed simp

lemma levelIndex_cases:
  obtains "levelIndex l = -1"
  | k where "k < length standardLevelOrder" "levelIndex l = int k" "EqualFold l (standardLevelOrder ! k)"
  using index_from_cases [of 0 l standardLevelOrder] by (auto simp: levelIndex_def)

lemma levelIndex_fold: "EqualFold a b \<Longrightarrow> levelIndex a = levelIndex b"
proof -
  assume "EqualFold a b"
  then have "index_from i a ls = index_from i b ls" for i ls
    by (induction ls arbitrary: i) (auto simp: EqualFold_def)
  then show ?thesis by (simp add: levelIndex_def)
qed

lemma levelIndex_standard [simp]: "k < length standardLevelOrder \<Longrightarrow> levelIndex (standardLevelOrder ! k) = int k"
proof -
  have "\<forall>k < length standardLevelOrder. levelIndex (standardLevelOrder ! k) = int k"
    by code_simp
  then show "k < length standardLevelOrder \<Longrightarrow> levelIndex (standardLevelOrder ! k) = int k" by blast
qed

text \<open>The positions of the supported levels that the standard order knows.\<close>

definition level_positions :: "string list \<Rightarrow> int set" where
  "level_positions supported = {i. i \<noteq> -1 \<and> (\<exists>s \<in> set supported. i = levelIndex (TrimSpace s))}"

lemma level_positions_Nil [simp]: "level_positions [] = {}"
  by (simp add: level_positions_def)

lemma level_positions_Cons:
  "level_positions (s # ss) =
     (if levelIndex (TrimSpace s) = -1 then level_positions ss
      else insert (levelIndex (TrimSpace s)) (level_positions ss))"
  by (auto simp: level_positions_def)

lemma level_positions_bound: "i \<in> level_positions supported \<Longrightarrow> 0 \<le> i \<and> i < int (length standardLevelOrder)"
proof -
  assume "i \<in> level_positions supported"
  then obtain s where i: "i \<noteq> -1" "i = levelIndex (TrimSpace s)" by (auto simp: level_positions_def)
  then show ?thesis by (cases rule: levelIndex_cases [of "TrimSpace s"]) auto
qed

lemma isLevelSupported_fold: "EqualFold a b \<Longrightarrow> isLevelSupported a ls = isLevelSupported b ls"
  by (simp add: isLevelSupported_def EqualFold_def)

lemma supported_position:
  assumes "i \<in> level_positions supported"
  shows "isLevelSupported (standardLevelOrder ! nat i) supported"
proof -
  obtain s where s: "s \<in> set supported" "i = levelIndex (TrimSpace s)" "i \<noteq> -1"
    using assms by (auto simp: level_positions_def)
  show ?thesis
  proof (cases rule: levelIndex_cases [of "TrimSpace s"])
    case (2 k)
    then have "EqualFold (standardLevelOrder ! nat i) (TrimSpace s)" using s by (simp add: EqualFold_def)
    then show ?thesis using s by (auto simp: isLevelSupported_def list_ex_iff)
  qed (use s in simp)
qed

lemma level_positions_iff:
  assumes "k < length standardLevelOrder"
  shows "int k \<in> level_positions supported \<longleftrightarrow> isLevelSupported (standardLevelOrder ! k) supported"
proof
  assume "isLevelSupported (standardLevelOrder ! k) supported"
  then obtain s where s: "s \<in> set supported" "EqualFold (standardLevelOrder ! k) (TrimSpace s)"
    by (auto simp: isLevelSupported_def list_ex_iff)
  then have "levelIndex (TrimSpace s) = int k" using levelIndex_fold [OF s(2)] assms by simp
  then show "int k \<in> level_positions supported" using s by (force simp: level_positions_def)
qed (use supported_position in fastforce)

section \<open>The lowest and the nearest supported level\<close>

lemma fold_lower_best:
  "b = -1 \<or> 0 \<le> b \<Longrightarrow>
   (fold lower_best supported b = b \<and> (\<forall>j \<in> level_positions supported. b \<noteq> -1 \<and> b \<le> j)) \<or>
   (fold lower_best supported b \<in> level_positions supported \<and>
    (b = -1 \<or> fold lower_best supported b \<le> b) \<and>
    (\<forall>j \<in> level_positions supported. fold lower_best supported b \<le> j))"
proof (induction supported arbitrary: b)
  case (Cons s ss)
  let ?i = "levelIndex (TrimSpace s)"
  have i: "?i = -1 \<or> 0 \<le> ?i" using levelIndex_cases [of "TrimSpace s"] by fastforce
  have "lower_best s b = -1 \<or> 0 \<le> lower_best s b" using i Cons.prems by (auto simp: lower_best_def Let_def)
  from Cons.IH [OF this] show ?case
    using i Cons.prems by (auto simp: level_positions_Cons lower_best_def Let_def split: if_splits)
qed simp

lemma lowestSupportedLevel_None: "lowestSupportedLevel supported = None \<longleftrightarrow> level_positions supported = {}"
  using fold_lower_best [of "-1" supported] level_positions_bound [of _ supported]
  by (auto simp: lowestSupportedLevel_def Let_def)

lemma lowestSupportedLevel_Some:
  assumes "lowestSupportedLevel supported = Some l"
  obtains i where "i \<in> level_positions supported" "l = standardLevelOrder ! nat i"
    "\<forall>j \<in> level_positions supported. i \<le> j"
proof -
  have "0 \<le> fold lower_best supported (-1)" and l: "l = standardLevelOrder ! nat (fold lower_best supported (-1))"
    using assms by (auto simp: lowestSupportedLevel_def Let_def split: if_splits)
  then show ?thesis using fold_lower_best [of "-1" supported] that by auto
qed

lemma lowest_supported: "lowestSupportedLevel ls = Some l \<Longrightarrow> isLevelSupported l ls"
  by (elim lowestSupportedLevel_Some) (simp add: supported_position)

text \<open>\<open>nearest pos P i\<close>: of the positions in \<open>P\<close>, \<open>i\<close> is the nearest to \<open>pos\<close>, the lower one on a tie.\<close>

definition nearest :: "int \<Rightarrow> int set \<Rightarrow> int \<Rightarrow> bool" where
  "nearest pos P i \<longleftrightarrow>
     i \<in> P \<and> (\<forall>j \<in> P. \<bar>pos - i\<bar> < \<bar>pos - j\<bar> \<or> (\<bar>pos - i\<bar> = \<bar>pos - j\<bar> \<and> i \<le> j))"

lemma fold_nearer_best:
  assumes "fold (nearer_best pos) supported (b, d) = (b', d')"
  shows "(b' = b \<and> d' = d \<and> (\<forall>j \<in> level_positions supported. d < \<bar>pos - j\<bar> \<or> (d = \<bar>pos - j\<bar> \<and> b \<le> j))) \<or>
    (nearest pos (level_positions supported) b' \<and> d' = \<bar>pos - b'\<bar> \<and> (d' < d \<or> (d' = d \<and> b' < b)))"
  using assms
proof (induction supported arbitrary: b d)
  case (Cons s ss)
  obtain b1 d1 where step: "nearer_best pos s (b, d) = (b1, d1)" by (cases "nearer_best pos s (b, d)")
  then have "fold (nearer_best pos) ss (b1, d1) = (b', d')" using Cons.prems by simp
  from Cons.IH [OF this] step show ?case
    by (auto simp: level_positions_Cons nearer_best_def nearest_def Let_def split: if_splits)
qed simp

lemma clamp_level_cases:
  obtains "clamp_level level supported = level" "isLevelSupported level supported \<or> levelIndex level = -1 \<or> level_positions supported = {}"
  | i where "nearest (levelIndex level) (level_positions supported) i"
      "clamp_level level supported = standardLevelOrder ! nat i" "\<not> isLevelSupported level supported"
proof (cases "length supported = 0 \<or> isLevelSupported level supported \<or> levelIndex level = -1")
  case True
  with that(1) show ?thesis by (auto simp: clamp_level_def Let_def)
next
  case False
  let ?n = "int (length standardLevelOrder) + 1"
  obtain b d where f: "fold (nearer_best (levelIndex level)) supported (-1, ?n) = (b, d)" by fastforce
  have pos: "0 \<le> levelIndex level" "levelIndex level < int (length standardLevelOrder)"
    using False levelIndex_cases [of level] by fastforce+
  have clamp: "clamp_level level supported = (if b \<ge> 0 then standardLevelOrder ! nat b else level)"
    using False f by (simp add: clamp_level_def Let_def)
  consider "b = -1" "\<forall>j \<in> level_positions supported. ?n \<le> \<bar>levelIndex level - j\<bar>"
    | "nearest (levelIndex level) (level_positions supported) b"
    using fold_nearer_best [OF f] by fastforce
  then show ?thesis
  proof cases
    case 1
    have "j \<notin> level_positions supported" for j
      using 1(2) pos level_positions_bound [of j supported] by fastforce
    then show ?thesis using that(1) clamp 1(1) by auto
  next
    case 2
    then have "0 \<le> b" using level_positions_bound by (auto simp: nearest_def)
    then show ?thesis using that(2) clamp 2 False by simp
  qed
qed

lemma clamp_level_supported:
  assumes "levelIndex level \<noteq> -1" and "level_positions supported \<noteq> {}"
  shows "isLevelSupported (clamp_level level supported) supported"
  by (rule clamp_level_cases [of level supported]) (use assms supported_position in \<open>auto simp: nearest_def\<close>)

lemma clamp_level_id: "isLevelSupported level supported \<Longrightarrow> clamp_level level supported = level"
  by (simp add: clamp_level_def)

section \<open>What a model accepts\<close>

text \<open>A support entry as the catalogue means it: a range of budgets, or levels of which the standard
  order knows at least one, or both. A configuration as the type's comment describes it.\<close>

definition wf_support :: "ThinkingSupport \<Rightarrow> bool" where
  "wf_support s \<longleftrightarrow>
     0 \<le> ts_Min s \<and> ts_Min s \<le> ts_Max s \<and> ts_Max s < 2 ^ 62 \<and> support_capability s \<noteq> CapabilityNone \<and>
     (ts_Levels s \<noteq> [] \<longrightarrow> lowestSupportedLevel (ts_Levels s) \<noteq> None)"

definition wf_config :: "ThinkingConfig \<Rightarrow> bool" where
  "wf_config c \<longleftrightarrow>
     (case tc_Mode c of
        ModeBudget \<Rightarrow> tc_Budget c \<noteq> -1
      | ModeLevel \<Rightarrow> ToLower (tc_Level c) = LevelAuto \<longrightarrow> tc_Level c = LevelAuto
      | ModeNone \<Rightarrow> tc_Budget c = 0
      | ModeAuto \<Rightarrow> tc_Budget c = -1)"

text \<open>The contract of a model: a level it lists, a budget in its range, dynamic thinking only where it
  is allowed; thinking is off with a budget of zero where zero is allowed, and otherwise the
  request carries the least budget of the range and, for a model with levels, its lowest level
  (unless the range starts at zero and the model lists the level none).\<close>

definition accepts :: "ThinkingSupport \<Rightarrow> ThinkingConfig \<Rightarrow> bool" where
  "accepts s c \<longleftrightarrow>
     (case tc_Mode c of
        ModeLevel \<Rightarrow> isLevelSupported (tc_Level c) (ts_Levels s)
      | ModeBudget \<Rightarrow> ts_Min s \<le> tc_Budget c \<and> tc_Budget c \<le> ts_Max s
      | ModeAuto \<Rightarrow> ts_DynamicAllowed s \<and> tc_Budget c = -1
      | ModeNone \<Rightarrow>
          if ts_ZeroAllowed s then tc_Budget c = 0
          else tc_Budget c = ts_Min s \<and>
               (ts_Levels s \<noteq> [] \<and> (0 < ts_Min s \<or> \<not> isLevelSupported LevelNone (ts_Levels s)) \<longrightarrow>
                lowestSupportedLevel (ts_Levels s) = Some (tc_Level c)))"

text \<open>What the Claude format does with a request to be off for a model that takes budgets only and whose
  range leaves out zero: it is switched off all the same.\<close>

definition claude_switched_off :: "ThinkingSupport \<Rightarrow> string \<Rightarrow> ThinkingConfig \<Rightarrow> bool" where
  "claude_switched_off s to c \<longleftrightarrow>
     to = ''claude'' \<and> ts_Levels s = [] \<and> \<not> ts_ZeroAllowed s \<and> 0 < ts_Min s \<and> c = none_config"

text \<open>What holds between the stages.\<close>

definition staged :: "ThinkingSupport \<Rightarrow> ThinkingConfig \<Rightarrow> bool" where
  "staged s c \<longleftrightarrow>
     (case tc_Mode c of
        ModeLevel \<Rightarrow> ts_Levels s \<noteq> []
      | ModeBudget \<Rightarrow> tc_Budget c \<noteq> 0 \<and> tc_Budget c \<noteq> -1 \<and> 0 < ts_Max s
      | ModeNone \<Rightarrow> tc_Budget c = 0
      | ModeAuto \<Rightarrow> tc_Budget c = -1)"

lemma clampLevel_model [simp]: "model_support m = Some s \<Longrightarrow> clampLevel l (Some m) = clamp_level l (ts_Levels s)"
  by (simp add: clampLevel_def)

lemma clampBudget_model [simp]: "model_support m = Some s \<Longrightarrow> clampBudget b (Some m) = clamp_budget b s"
  by (simp add: clampBudget_def)

lemma capability_model [simp]: "model_support m = Some s \<Longrightarrow> detectModelCapability (Some m) = support_capability s"
  by (simp add: detectModelCapability_def)

lemma capability_range:
  assumes "wf_support s"
  shows "support_capability s = CapabilityBudgetOnly \<longleftrightarrow> 0 < ts_Max s \<and> ts_Levels s = []"
    and "support_capability s = CapabilityLevelOnly \<longleftrightarrow> ts_Min s = 0 \<and> ts_Max s = 0"
    and "support_capability s = CapabilityHybrid \<longleftrightarrow> 0 < ts_Max s \<and> ts_Levels s \<noteq> []"
    and "support_capability s \<noteq> CapabilityUnknown" and "support_capability s \<noteq> CapabilityNone"
  using assms by (auto simp: wf_support_def support_capability_def Let_def split: if_splits)

lemma level_only_levels: "wf_support s \<Longrightarrow> ts_Max s = 0 \<Longrightarrow> ts_Levels s \<noteq> []"
  by (auto simp: wf_support_def support_capability_def Let_def)

lemma wf_support_positions: "wf_support s \<Longrightarrow> ts_Levels s \<noteq> [] \<Longrightarrow> level_positions (ts_Levels s) \<noteq> {}"
  by (simp add: wf_support_def lowestSupportedLevel_None)

lemma ConvertLevelToBudget_auto: "ConvertLevelToBudget l = Some (-1) \<Longrightarrow> ToLower l = LevelAuto"
  by (auto simp: ConvertLevelToBudget_def levelToBudgetMap_def split: if_splits)

lemma convert_staged:
  assumes "model_support m = Some s" and "wf_support s" and "wf_config c" and "convert_format m c = Inr (c', derived)"
  shows "staged s (fold_special c')"
proof (cases "tc_Mode c")
  case ModeBudget
  then show ?thesis using assms capability_range [OF assms(2)] level_only_levels [OF assms(2)]
    by (cases "support_capability s")
       (auto simp: convert_format_def fold_special_def staged_def wf_config_def Let_def split: option.splits if_splits)
next
  case ModeLevel
  then show ?thesis using assms capability_range [OF assms(2)] level_only_levels [OF assms(2)]
    by (cases "support_capability s")
       (auto simp: convert_format_def fold_special_def staged_def wf_config_def Let_def
         dest: ConvertLevelToBudget_auto split: option.splits if_splits)
qed (use assms in \<open>auto simp: convert_format_def fold_special_def staged_def wf_config_def
        split: ModelCapability.splits\<close>)

lemma check_level_staged:
  assumes "model_support m = Some s" and "staged s c" and "check_level clamp m s c = Inr c'"
  shows "staged s c'" and "tc_Mode c' = ModeLevel \<Longrightarrow> isLevelSupported (tc_Level c') (ts_Levels s)"
  using assms by (auto simp: check_level_def staged_def Let_def split: if_splits)

lemma mid_range:
  assumes "wf_support s"
  shows "wrap64 (ts_Min s + ts_Max s) sdiv 2 = (ts_Min s + ts_Max s) div 2"
proof -
  have "0 \<le> ts_Min s + ts_Max s" "ts_Min s + ts_Max s < 2 ^ 63" using assms by (auto simp: wf_support_def)
  then show ?thesis by (cases "ts_Min s + ts_Max s = 0") (auto simp: wrap64_id signed_divide_int_def)
qed

lemma medium_index: "levelIndex LevelMedium \<noteq> -1"
  by code_simp

text \<open>After the fallback for dynamic thinking a budget may be the least one, even zero.\<close>

definition settled :: "ThinkingSupport \<Rightarrow> ThinkingConfig \<Rightarrow> bool" where
  "settled s c \<longleftrightarrow>
     (case tc_Mode c of
        ModeLevel \<Rightarrow> isLevelSupported (tc_Level c) (ts_Levels s)
      | ModeBudget \<Rightarrow> tc_Budget c \<noteq> -1 \<and> 0 < ts_Max s \<and> (tc_Budget c = 0 \<longrightarrow> ts_Min s = 0 \<and> \<not> ts_ZeroAllowed s)
      | ModeNone \<Rightarrow> tc_Budget c = 0
      | ModeAuto \<Rightarrow> tc_Budget c = -1 \<and> ts_DynamicAllowed s)"

lemma auto_fallback_settled:
  assumes m: "model_support m = Some s" and wf: "wf_support s" and c: "staged s c"
    and l: "tc_Mode c = ModeLevel \<Longrightarrow> isLevelSupported (tc_Level c) (ts_Levels s)"
  shows "settled s (auto_fallback m s c)"
proof (cases "tc_Mode c = ModeAuto \<and> \<not> ts_DynamicAllowed s")
  case False
  then have "auto_fallback m s c = c" by (auto simp: auto_fallback_def)
  then show ?thesis using False c l by (cases "tc_Mode c") (auto simp: settled_def staged_def)
next
  case auto: True
  show ?thesis
  proof (cases "ts_Max s = 0")
    case True
    then have lv: "ts_Levels s \<noteq> []" "ts_Min s = 0" using wf level_only_levels by (auto simp: wf_support_def)
    have "isLevelSupported (clamp_level LevelMedium (ts_Levels s)) (ts_Levels s)"
      using clamp_level_supported medium_index wf_support_positions [OF wf] lv by blast
    then show ?thesis using auto m lv True
      by (auto simp: auto_fallback_def convertAutoToMidRange_def settled_def Let_def)
  next
    case False
    then have "0 < ts_Max s" "0 \<le> ts_Min s" using wf by (auto simp: wf_support_def)
    then show ?thesis using auto mid_range [OF wf] False
      by (auto simp: auto_fallback_def convertAutoToMidRange_def settled_def Let_def)
  qed
qed

lemma clamp_budget_range:
  assumes "wf_support s" and "0 < ts_Max s" and "b \<noteq> -1" and "b = 0 \<longrightarrow> ts_Min s = 0 \<and> \<not> ts_ZeroAllowed s"
  shows "ts_Min s \<le> clamp_budget b s \<and> clamp_budget b s \<le> ts_Max s"
  using assms by (auto simp: clamp_budget_def wf_support_def)

lemma clamp_budget_zero:
  "wf_support s \<Longrightarrow> clamp_budget 0 s = (if ts_ZeroAllowed s then 0 else ts_Min s)"
  by (auto simp: clamp_budget_def wf_support_def)

lemma finish_accepts:
  assumes m: "model_support m = Some s" and wf: "wf_support s" and c: "settled s c"
  shows "accepts s (finish_config to m s c) \<or> tc_Mode c = ModeNone \<and> claude_switched_off s to (finish_config to m s c)"
proof (cases "tc_Mode c")
  case ModeBudget
  then show ?thesis using c m clamp_budget_range [OF wf, of "tc_Budget c"]
    by (auto simp: settled_def finish_config_def accepts_def Let_def)
next
  case ModeLevel
  then show ?thesis using c by (auto simp: settled_def finish_config_def accepts_def Let_def)
next
  case ModeAuto
  then show ?thesis using c m by (auto simp: settled_def finish_config_def accepts_def clamp_budget_def Let_def)
next
  case ModeNone
  have lowest: "ts_Levels s = [] \<or> (\<exists>l. lowestSupportedLevel (ts_Levels s) = Some l)"
    using wf by (auto simp: wf_support_def)
  have "lowestSupportedLevel [] = None" "0 \<le> ts_Min s" using wf by (simp_all add: lowestSupportedLevel_None wf_support_def)
  then show ?thesis using ModeNone c m lowest clamp_budget_zero [OF wf]
    by (cases "ts_Min s = 0") (auto simp: settled_def finish_config_def accepts_def claude_switched_off_def Let_def lowest_supported
      split: option.splits)
qed

lemma validate_supported_accepts:
  assumes m: "model_support m = Some s" and wf: "wf_support s" and c: "wf_config c"
    and v: "validate_supported c m s from to fromSuffix = Inr c'"
  shows "accepts s c' \<or> claude_switched_off s to c'"
proof -
  obtain c1 derived c2 where 1: "convert_format m c = Inr (c1, derived)"
    and 2: "check_level (allow_clamp from to m) m s (fold_special c1) = Inr c2"
    and 3: "c' = finish_config to m s (auto_fallback m s c2)"
    using v by (auto simp: validate_supported_def split: sum.splits prod.splits if_splits)
  have "staged s (fold_special c1)" by (rule convert_staged [OF m wf c 1])
  from check_level_staged [OF m this 2] show ?thesis
    using auto_fallback_settled [OF m wf] finish_accepts [OF m wf] 3 by blast
qed

text \<open>Every configuration read from a suffix is well-formed.\<close>

lemma suffix_config_wf: "wf_config (parseSuffixToConfig raw)"
proof -
  have "wf_config (numeric_config raw)"
    by (auto simp: numeric_config_def ParseNumericSuffix_def wf_config_def empty_config_def split: option.splits if_splits)
  moreover have "ParseLevelSuffix raw = Some l \<Longrightarrow> ToLower l \<noteq> LevelAuto" for l
    by (auto simp: ParseLevelSuffix_def Let_def ToLower_def lower_char_def split: if_splits)
  ultimately have "wf_config (level_or_numeric raw)"
    by (auto simp: level_or_numeric_def wf_config_def split: option.splits)
  then show ?thesis
    by (auto simp: parseSuffixToConfig_def wf_config_def split: option.splits ThinkingMode.splits)
qed

section \<open>Errors\<close>

text \<open>The reference answer for the error of a validation, from the configuration alone.\<close>

definition crosses_family :: "string \<Rightarrow> string \<Rightarrow> ThinkingModel \<Rightarrow> bool" where
  "crosses_family from to m \<longleftrightarrow> \<not> isSameProviderFamily from to \<or> family_mismatch from to m"

definition lists_standard_level :: "ThinkingSupport \<Rightarrow> bool" where
  "lists_standard_level s \<longleftrightarrow> list_ex (\<lambda>l. levelIndex (TrimSpace l) \<noteq> -1) (ts_Levels s)"

definition rejection :: "ThinkingConfig \<Rightarrow> ThinkingModel \<Rightarrow> ThinkingSupport \<Rightarrow> string \<Rightarrow> string \<Rightarrow> bool \<Rightarrow> ThinkingErrorCode option" where
  "rejection c m s from to fromSuffix =
     (case tc_Mode c of
        ModeLevel \<Rightarrow>
          if ts_Levels s = []
          then if (0 < ts_Min s \<or> 0 < ts_Max s) \<and> ToLower (tc_Level c) \<notin> fst ` set levelToBudgetMap then Some ErrUnknownLevel else None
          else if tc_Level c \<in> {LevelNone, LevelAuto} \<or> isLevelSupported (tc_Level c) (ts_Levels s) \<or>
                  (crosses_family from to m \<and> levelIndex (tc_Level c) \<noteq> -1 \<and> lists_standard_level s) then None
          else Some ErrLevelNotSupported
      | ModeBudget \<Rightarrow>
          if ts_Min s \<le> 0 \<and> ts_Max s \<le> 0 \<and> ts_Levels s \<noteq> []
          then if tc_Budget c < -1 then Some ErrUnknownLevel
               else if 0 < tc_Budget c \<and> \<not> lists_standard_level s then Some ErrLevelNotSupported
               else None
          else if tc_Budget c \<noteq> 0 \<and> (ts_Min s \<noteq> 0 \<or> ts_Max s \<noteq> 0) \<and> (tc_Budget c < ts_Min s \<or> ts_Max s < tc_Budget c) \<and>
                  \<not> fromSuffix \<and> from \<noteq> [] \<and> \<not> crosses_family from to m then Some ErrBudgetOutOfRange
          else None
      | _ \<Rightarrow> None)"

abbreviation error_code :: "ThinkingError + ThinkingConfig \<Rightarrow> ThinkingErrorCode option" where
  "error_code r \<equiv> (case r of Inl e \<Rightarrow> Some (te_Code e) | Inr _ \<Rightarrow> None)"

lemma convert_none: "ConvertLevelToBudget l = None \<longleftrightarrow> ToLower l \<notin> fst ` set levelToBudgetMap"
  by (simp add: ConvertLevelToBudget_def map_of_eq_None_iff)

lemma budget_level_known:
  "ConvertBudgetToLevel b = Some l \<Longrightarrow> l = LevelNone \<or> l = LevelAuto \<or> levelIndex l \<noteq> -1"
proof -
  have "levelIndex LevelMinimal \<noteq> -1" "levelIndex LevelLow \<noteq> -1" "levelIndex LevelMedium \<noteq> -1"
    "levelIndex LevelHigh \<noteq> -1" "levelIndex LevelXHigh \<noteq> -1"
    by code_simp+
  then show "ConvertBudgetToLevel b = Some l \<Longrightarrow> l = LevelNone \<or> l = LevelAuto \<or> levelIndex l \<noteq> -1"
    by (auto simp: ConvertBudgetToLevel_def split: if_splits)
qed

lemma special_index: "levelIndex LevelNone = -1" "levelIndex LevelAuto = -1"
  by code_simp+

lemma clamp_special [simp]: "clamp_level LevelNone ls = LevelNone" "clamp_level LevelAuto ls = LevelAuto"
  by (simp_all add: clamp_level_def special_index Let_def)

lemma check_level_budget: "tc_Mode c \<noteq> ModeLevel \<Longrightarrow> check_level b m s c = Inr c"
  by (auto simp: check_level_def)

lemma check_level_ok:
  "isLevelSupported (tc_Level c) (ts_Levels s) \<Longrightarrow> check_level b m s c = Inr c"
  by (auto simp: check_level_def)

lemma error_other_modes:
  assumes "tc_Mode c = ModeNone \<or> tc_Mode c = ModeAuto"
  shows "error_code (validate_supported c m s from to sfx) = None"
proof -
  have "convert_format m c = Inr (c, False)" using assms
    by (auto simp: convert_format_def split: ModelCapability.splits)
  moreover have "fold_special c = c" using assms by (auto simp: fold_special_def Let_def)
  ultimately show ?thesis using assms
    by (auto simp: validate_supported_def check_level_budget budget_rejected_def)
qed

lemma lists_standard: "lists_standard_level s \<longleftrightarrow> level_positions (ts_Levels s) \<noteq> {}"
  by (auto simp: lists_standard_level_def level_positions_def list_ex_iff)

lemma clamp_supported_iff:
  "isLevelSupported (clamp_level l (ts_Levels s)) (ts_Levels s) \<longleftrightarrow>
     isLevelSupported l (ts_Levels s) \<or> levelIndex l \<noteq> -1 \<and> lists_standard_level s"
proof (cases rule: clamp_level_cases [of l "ts_Levels s"])
  case 1
  then show ?thesis using clamp_level_supported [of l "ts_Levels s"] by (auto simp: lists_standard)
next
  case (2 i)
  then have i: "i \<in> level_positions (ts_Levels s)" by (simp add: nearest_def)
  moreover have "levelIndex l \<noteq> -1"
    using 2(2,3) supported_position [OF i] by (auto simp: clamp_level_def Let_def split: if_splits)
  ultimately show ?thesis using 2 supported_position by (auto simp: lists_standard)
qed

lemma error_level_mode:
  assumes m: "model_support m = Some s" and c: "tc_Mode c = ModeLevel"
  shows "error_code (validate_supported c m s from to sfx) = rejection c m s from to sfx"
proof (cases "ts_Levels s = []")
  case True
  have auto: "LevelAuto \<in> fst ` set levelToBudgetMap" "ToLower LevelAuto = LevelAuto" by code_simp+
  show ?thesis
  proof (cases "tc_Level c = LevelAuto \<or> \<not> (0 < ts_Min s \<or> 0 < ts_Max s)")
    case True
    then show ?thesis using c m auto \<open>ts_Levels s = []\<close>
      by (auto simp: validate_supported_def convert_format_def support_capability_def fold_special_def check_level_def
        budget_rejected_def rejection_def Let_def)
  next
    case False
    then have "support_capability s = CapabilityBudgetOnly" using \<open>ts_Levels s = []\<close> by (auto simp: support_capability_def)
    then show ?thesis using False c m \<open>ts_Levels s = []\<close> convert_none [of "tc_Level c"]
      by (auto simp: validate_supported_def convert_format_def check_level_def fold_special_def
        budget_rejected_def rejection_def NewThinkingError_def Let_def split: option.splits)
  qed
next
  case False
  then have cap: "support_capability s \<in> {CapabilityLevelOnly, CapabilityHybrid}"
    by (simp add: support_capability_def Let_def)
  then have conv: "convert_format m c = Inr (c, False)" using c m by (auto simp: convert_format_def)
  have "allow_clamp from to m = crosses_family from to m"
    using cap m by (auto simp: allow_clamp_def crosses_family_def)
  then show ?thesis using c m clamp_supported_iff [of "tc_Level c" s] False
    by (auto simp: validate_supported_def conv fold_special_def check_level_def budget_rejected_def
      rejection_def NewThinkingError_def Let_def)
qed

lemma budget_level_positive:
  assumes "0 < b" and "ConvertBudgetToLevel b = Some l"
  shows "levelIndex l \<noteq> -1"
  using budget_level_known [OF assms(2)] assms by (auto simp: ConvertBudgetToLevel_def split: if_splits)

lemma error_level_only:
  assumes m: "model_support m = Some s" and c: "tc_Mode c = ModeBudget"
    and lv: "ts_Min s \<le> 0" "ts_Max s \<le> 0" "ts_Levels s \<noteq> []"
  shows "error_code (validate_supported c m s from to sfx) = rejection c m s from to sfx"
proof -
  have cap: "support_capability s = CapabilityLevelOnly" using lv by (simp add: support_capability_def)
  consider "tc_Budget c < -1" | "tc_Budget c = -1" | "tc_Budget c = 0" | "0 < tc_Budget c" by linarith
  then show ?thesis
  proof cases
    case 4
    then have "ConvertBudgetToLevel (tc_Budget c) \<noteq> None" by (simp add: ConvertBudgetToLevel_def)
    then obtain l where l: "ConvertBudgetToLevel (tc_Budget c) = Some l" by blast
    have idx: "levelIndex l \<noteq> -1" using 4 l by (rule budget_level_positive)
    then have n: "l \<noteq> LevelNone" "l \<noteq> LevelAuto" using special_index by auto
    have u: "lists_standard_level s" if "isLevelSupported l (ts_Levels s)"
      using that levelIndex_fold idx by (force simp: isLevelSupported_def lists_standard_level_def list_ex_iff)
    let ?l = "clamp_level l (ts_Levels s)"
    have sup: "isLevelSupported ?l (ts_Levels s) \<longleftrightarrow> lists_standard_level s" using clamp_supported_iff [of l s] idx u by blast
    have cl: "clamp_level ?l (ts_Levels s) = ?l"
      by (rule clamp_level_cases [of l "ts_Levels s"]) (auto simp: clamp_level_id supported_position nearest_def)
    have "?l \<noteq> LevelNone \<and> ?l \<noteq> LevelAuto"
      by (rule clamp_level_cases [of l "ts_Levels s"]) (use n special_index level_positions_bound in \<open>fastforce simp: nearest_def\<close>)+
    then show ?thesis using 4 c m l cap sup cl lv
      by (simp add: validate_supported_def convert_format_def rejection_def fold_special_def check_level_def
        budget_rejected_def NewThinkingError_def)
  qed (use c m cap lv in \<open>simp_all add: validate_supported_def convert_format_def rejection_def fold_special_def check_level_def
        ConvertBudgetToLevel_def budget_rejected_def NewThinkingError_def Let_def\<close>)
qed

lemma error_budget_mode:
  assumes m: "model_support m = Some s" and c: "tc_Mode c = ModeBudget"
  shows "error_code (validate_supported c m s from to sfx) = rejection c m s from to sfx"
proof (cases "ts_Min s \<le> 0 \<and> ts_Max s \<le> 0 \<and> ts_Levels s \<noteq> []")
  case True
  then show ?thesis using error_level_only [OF m c] by blast
next
  case False
  then have "support_capability s \<noteq> CapabilityLevelOnly" by (auto simp: support_capability_def Let_def)
  then have "convert_format m c = Inr (c, False)" using c m by (auto simp: convert_format_def split: ModelCapability.splits)
  moreover have "strict_budget from to m sfx \<longleftrightarrow> \<not> sfx \<and> from \<noteq> [] \<and> \<not> crosses_family from to m"
    by (auto simp: strict_budget_def crosses_family_def)
  ultimately show ?thesis using c False
    by (auto simp: validate_supported_def fold_special_def check_level_budget
      budget_rejected_def rejection_def NewThinkingError_def Let_def)
qed

section \<open>Suffixes\<close>

lemma LastIndex_split:
  assumes "c \<notin> set v"
  shows "LastIndex (m @ c # v) c = Some (length m)"
proof -
  have "takeWhile (\<lambda>x. x \<noteq> c) (rev v @ [c] @ rev m) = rev v"
    using assms by (subst takeWhile_append2) auto
  then show ?thesis by (simp add: LastIndex_def)
qed

lemma LastIndex_None: "LastIndex s c = None \<longleftrightarrow> c \<notin> set s"
  by (simp add: LastIndex_def)

lemma ParseSuffix_print:
  assumes "CHR ''('' \<notin> set v"
  shows "ParseSuffix (m @ CHR ''('' # v @ '')'') = \<lparr>sr_ModelName = m, sr_HasSuffix = True, sr_RawSuffix = v\<rparr>"
proof -
  have "CHR ''('' \<notin> set (v @ '')'')" using assms by simp
  from LastIndex_split [OF this, of m] show ?thesis
    by (simp add: ParseSuffix_def HasSuffix_def)
qed

lemma ParseSuffix_found:
  assumes "sr_HasSuffix (ParseSuffix model)"
  shows "model = sr_ModelName (ParseSuffix model) @ CHR ''('' # sr_RawSuffix (ParseSuffix model) @ '')''"
    and "CHR ''('' \<notin> set (sr_RawSuffix (ParseSuffix model))"
proof -
  have p: "CHR ''('' \<in> set model" "HasSuffix model '')''"
    using assms LastIndex_None [of model "CHR ''(''"] by (auto simp: ParseSuffix_def split: option.splits if_splits)
  from p(1) obtain a b where ab: "model = a @ CHR ''('' # b" "CHR ''('' \<notin> set b" by (meson split_list_last)
  have "last model = CHR '')''" using p(2) ab(1)
    by (metis HasSuffix_def last.simps last_appendR append_take_drop_id list.distinct(1))
  then have "b \<noteq> [] \<and> last b = CHR '')''" using ab(1) by (auto split: if_splits)
  then obtain v where b: "b = v @ '')''" by (metis append_butlast_last_id)
  then have v: "CHR ''('' \<notin> set v" and model: "model = a @ CHR ''('' # v @ '')''" using ab by auto
  show "model = sr_ModelName (ParseSuffix model) @ CHR ''('' # sr_RawSuffix (ParseSuffix model) @ '')''"
    and "CHR ''('' \<notin> set (sr_RawSuffix (ParseSuffix model))"
    unfolding model ParseSuffix_print [OF v] using v by simp_all
qed

lemma ParseSuffix_absent:
  "\<not> sr_HasSuffix (ParseSuffix model) \<Longrightarrow>
   ParseSuffix model = \<lparr>sr_ModelName = model, sr_HasSuffix = False, sr_RawSuffix = []\<rparr>"
  by (auto simp: ParseSuffix_def split: option.splits if_splits)

lemma digits_lower: "list_all is_digit s \<Longrightarrow> ToLower s = s"
  by (induction s) (auto simp: ToLower_def lower_char_def is_digit_def Let_def)

lemma digits_not_word:
  assumes "list_all is_digit s" and "\<not> list_all is_digit w"
  shows "ToLower s \<noteq> w"
  using assms digits_lower by metis

lemma number_config:
  assumes "0 < n" and "n < 2 ^ 63"
  shows "parseSuffixToConfig (FormatInt n) = budget_config n"
proof -
  have d: "list_all is_digit (FormatInt n)" and ne: "FormatInt n \<noteq> []"
    using assms itoa_digits itoa_nonempty by (auto simp: FormatInt_def)
  have w: "ToLower (FormatInt n) \<noteq> w" if "\<not> list_all is_digit w" for w using digits_not_word [OF d that] .
  have "ParseSpecialSuffix (FormatInt n) = None" "ParseLevelSuffix (FormatInt n) = None"
    by (simp_all add: ParseSpecialSuffix_def ParseLevelSuffix_def Let_def w is_digit_def)
  moreover have "ParseNumericSuffix (FormatInt n) = Some n"
    using parse_format [of n] assms ne by (simp add: ParseNumericSuffix_def)
  ultimately show ?thesis using assms by (simp add: parseSuffixToConfig_def level_or_numeric_def numeric_config_def)
qed

lemma level_suffix_config:
  assumes "EqualFold v l" and "l \<in> set standardLevelOrder"
  shows "parseSuffixToConfig v = level_config l"
proof -
  have low: "ToLower v = l" using assms by (auto simp: EqualFold_def standardLevelOrder_def ToLower_def lower_char_def)
  then have "v \<noteq> []" using assms(2) by (auto simp: ToLower_def standardLevelOrder_def)
  then show ?thesis using low assms(2)
    by (auto simp: parseSuffixToConfig_def ParseSpecialSuffix_def ParseLevelSuffix_def level_or_numeric_def Let_def
      standardLevelOrder_def)
qed

section \<open>Plugin appliers\<close>

type_synonym 'a registration = "string \<times> string \<times> int \<times> 'a option"

definition register_all :: "'a registration list \<Rightarrow> 'a appliers \<Rightarrow> 'a appliers" where
  "register_all rs t = fold (\<lambda>(owner, name, priority, a) t. snd (RegisterPluginProvider owner name priority a t)) rs t"

text \<open>The owners and priorities that ask for the applier of a provider with a valid registration.\<close>

definition claim_of :: "string \<Rightarrow> 'a registration \<Rightarrow> (string \<times> int) option" where
  "claim_of n = (\<lambda>(owner, name, priority, a).
     if normalizedProviderName name = n \<and> TrimSpace owner \<noteq> [] \<and> a \<noteq> None then Some (TrimSpace owner, priority) else None)"

definition claimants :: "string \<Rightarrow> 'a registration list \<Rightarrow> (string \<times> int) set" where
  "claimants n rs = set (List.map_filter (claim_of n) rs)"

definition applier_holder :: "string \<Rightarrow> 'a appliers \<Rightarrow> (string \<times> int) option" where
  "applier_holder n t = map_option (\<lambda>r. (pp_owner r, pp_priority r)) (map_of (ap_plugin t) n)"

text \<open>\<open>outranks\<close>: a higher priority, or the same one and an owner no later in the order of strings.\<close>

definition outranks :: "string \<times> int \<Rightarrow> string \<times> int \<Rightarrow> bool" where
  "outranks x y \<longleftrightarrow> snd y < snd x \<or> (snd y = snd x \<and> fst x \<le> fst y)"

definition top_claim :: "(string \<times> int) option \<Rightarrow> (string \<times> int) set \<Rightarrow> bool" where
  "top_claim h C \<longleftrightarrow> (case h of None \<Rightarrow> C = {} | Some x \<Rightarrow> x \<in> C \<and> (\<forall>y \<in> C. outranks x y))"

lemma claimants_Nil [simp]: "claimants n [] = {}"
  by (simp add: claimants_def map_filter_simps)

lemma claimants_snoc: "claimants n (rs @ [r]) = claimants n rs \<union> set_option (claim_of n r)"
  by (cases "claim_of n r") (auto simp: claimants_def map_filter_def)

lemma register_native [simp]: "ap_native (snd (RegisterPluginProvider owner name priority a t)) = ap_native t"
  by (auto simp: RegisterPluginProvider_def Let_def split: option.splits)

lemma register_all_native [simp]: "ap_native (register_all rs t) = ap_native t"
  by (induction rs arbitrary: t) (auto simp: register_all_def)

lemma applier_holder_put:
  "applier_holder n (t\<lparr>ap_plugin := AList.update k r (ap_plugin t)\<rparr>) = (if n = k then Some (pp_owner r, pp_priority r) else applier_holder n t)"
  by (simp add: applier_holder_def update_conv)

lemma applier_holder_cases: "applier_holder n t = None \<longleftrightarrow> map_of (ap_plugin t) n = None"
  by (simp add: applier_holder_def)

lemma applier_holder_step:
  assumes "n \<noteq> []" and "map_of (ap_native t) n = None"
  shows "applier_holder n (snd (RegisterPluginProvider owner name priority a t)) =
     (case claim_of n (owner, name, priority, a) of
        None \<Rightarrow> applier_holder n t
      | Some x \<Rightarrow> (case applier_holder n t of None \<Rightarrow> Some x | Some h \<Rightarrow> if outranks h x then Some h else Some x))"
proof (cases "claim_of n (owner, name, priority, a)")
  case None
  then have "a = None \<or> TrimSpace owner = [] \<or> n \<noteq> normalizedProviderName name"
    by (auto simp: claim_of_def split: if_splits)
  with None show ?thesis
    by (auto simp: RegisterPluginProvider_def Let_def applier_holder_put split: option.splits)
next
  case (Some x)
  then have x: "x = (TrimSpace owner, priority)" "normalizedProviderName name = n" "TrimSpace owner \<noteq> []"
    and "a \<noteq> None" by (auto simp: claim_of_def split: if_splits)
  then obtain v where a: "a = Some v" by blast
  show ?thesis
  proof (cases "map_of (ap_plugin t) n")
    case None
    then have "applier_holder n t = None" by (simp add: applier_holder_def)
    then show ?thesis using Some None x assms by (simp add: RegisterPluginProvider_def a applier_holder_put)
  next
    case (Some cur)
    then have "applier_holder n t = Some (pp_owner cur, pp_priority cur)" by (simp add: applier_holder_def)
    then show ?thesis using Some \<open>claim_of n (owner, name, priority, a) = Some x\<close> x assms
      by (simp add: RegisterPluginProvider_def a applier_holder_put outranks_def Let_def)
  qed
qed

lemma rank_compare:
  fixes a b c :: "'o::linorder" and p q r :: int
  shows "q < p \<or> (q = p \<and> a \<le> b) \<Longrightarrow> \<not> (r < p \<or> (r = p \<and> a \<le> c)) \<Longrightarrow> q < r \<or> (q = r \<and> c \<le> b)"
  by auto

lemma top_claim_step:
  assumes "top_claim h C"
  shows "top_claim (case x of None \<Rightarrow> h | Some x \<Rightarrow> (case h of None \<Rightarrow> Some x | Some h \<Rightarrow> if outranks h x then Some h else Some x))
    (C \<union> set_option x)"
proof -
  have refl: "outranks a a" for a by (simp add: outranks_def)
  have "outranks c b" if "h = Some a" "b \<in> C" "\<not> outranks a c" for a b c
  proof -
    have "outranks a b" using assms that by (simp add: top_claim_def)
    with that(3) show ?thesis unfolding outranks_def by (rule rank_compare [rotated])
  qed
  then show ?thesis using assms by (cases h; cases x) (auto simp: top_claim_def refl)
qed

lemma register_all_top:
  assumes "n \<noteq> []" and "map_of (ap_native t) n = None" and "applier_holder n t = None"
  shows "top_claim (applier_holder n (register_all rs t)) (claimants n rs)"
proof (induction rs rule: rev_induct)
  case Nil
  then show ?case using assms(3) by (simp add: register_all_def top_claim_def)
next
  case (snoc r rs)
  obtain owner name priority a where r: "r = (owner, name, priority, a)" by (cases r)
  have "register_all (rs @ [r]) t = snd (RegisterPluginProvider owner name priority a (register_all rs t))"
    by (simp add: register_all_def r)
  moreover have "map_of (ap_native (register_all rs t)) n = None" using assms(2) by simp
  ultimately show ?case
    using applier_holder_step [OF assms(1), of "register_all rs t" owner name priority a] top_claim_step [OF snoc.IH, of "claim_of n r"]
    by (simp add: claimants_snoc r)
qed

lemma top_claim_unique: "top_claim h C \<Longrightarrow> top_claim h' C \<Longrightarrow> h = h'"
  by (auto simp: top_claim_def outranks_def split: option.splits) fastforce+

lemma claimants_set: "set rs' = set rs \<Longrightarrow> claimants n rs' = claimants n rs"
  by (auto simp: claimants_def map_filter_def)

section \<open>Properties\<close>

definition demo_support :: ThinkingSupport where
  "demo_support = \<lparr>ts_Min = 128, ts_Max = 32768, ts_ZeroAllowed = False, ts_DynamicAllowed = False,
     ts_DisableType = [], ts_Levels = [''low'', '' High '']\<rparr>"

definition thinking_demo_model :: ThinkingModel where
  "thinking_demo_model = \<lparr>mi_ID = ''m'', mi_SupportsWebSearch = False, mi_NativeCapabilities = None,
     mi_rest = \<lparr>ti_Type = ''gemini'', ti_Thinking = Some demo_support, ti_UserDefined = False\<rparr>\<rparr>"

lemma thinking_demo_support: "model_support thinking_demo_model = Some demo_support"
  by (simp add: thinking_demo_model_def)

lemma demo_support_wf: "wf_support demo_support"
  by code_simp

text \<open>C37: For every model, whatever its entry holds, a validation fails in exactly the cases the reference
  function lists, with the listed code, and succeeds in all others. A level fails as unknown when
  the model has a range and no levels and no budget stands for the level; as not supported when the model has levels,
  the level is neither none nor auto nor one of them, and it is not clamped: clamping takes a request that crosses
  provider families, a standard level, and a list with at least one standard level. A budget fails on a
  model with levels and no range, as unknown below -1 and as not supported when it is positive and the list has no
  standard level; elsewhere, as out of range, only when there is a range, the budget is not zero and lies outside it, and it
  comes from a request body of a named format of the same family. A model without an entry takes only the
  disabled configuration.\<close>

theorem validation_errors_exact:
  "error_code (ValidateConfig c (Some m) fromFormat toFormat fromSuffix) =
     (case model_support m of
        Some s \<Rightarrow> rejection c m s (ToLower (TrimSpace fromFormat)) (ToLower (TrimSpace toFormat)) fromSuffix
      | None \<Rightarrow> if tc_Mode c = ModeNone then None else Some ErrThinkingNotSupported)"
proof (cases "model_support m")
  case (Some s)
  have "error_code (validate_supported c m s from to fromSuffix) = rejection c m s from to fromSuffix" for "from" to
    using error_level_mode [OF Some] error_budget_mode [OF Some] error_other_modes [of c]
    by (cases "tc_Mode c") (auto simp: rejection_def)
  then show ?thesis using Some by (simp add: ValidateConfig_def Let_def)
qed (simp add: ValidateConfig_def NewThinkingErrorWithModel_def Let_def)

text \<open>A standard level that a model does not list is clamped to a listed level, the one nearest in
  the standard order and the lower one on a tie; a listed level is kept as it is.\<close>

theorem clamp_level_nearest:
  assumes "model_support m = Some s" and "lowestSupportedLevel (ts_Levels s) \<noteq> None"
    and "k < length standardLevelOrder" and "EqualFold level (standardLevelOrder ! k)"
  shows "if isLevelSupported level (ts_Levels s) then clampLevel level (Some m) = level
     else \<exists>i < length standardLevelOrder. clampLevel level (Some m) = standardLevelOrder ! i \<and>
       isLevelSupported (standardLevelOrder ! i) (ts_Levels s) \<and>
       (\<forall>j < length standardLevelOrder. isLevelSupported (standardLevelOrder ! j) (ts_Levels s) \<longrightarrow>
          \<bar>int k - int i\<bar> < \<bar>int k - int j\<bar> \<or> (\<bar>int k - int i\<bar> = \<bar>int k - int j\<bar> \<and> i \<le> j))"
proof (rule clamp_level_cases [of level "ts_Levels s"])
  fix i
  assume n: "nearest (levelIndex level) (level_positions (ts_Levels s)) i" and u: "\<not> isLevelSupported level (ts_Levels s)"
    and c: "clamp_level level (ts_Levels s) = standardLevelOrder ! nat i"
  have k: "levelIndex level = int k" using levelIndex_fold [OF assms(4)] assms(3) by simp
  have i: "i \<in> level_positions (ts_Levels s)" using n by (simp add: nearest_def)
  then have b: "0 \<le> i" "nat i < length standardLevelOrder" using level_positions_bound by fastforce+
  have near: "\<bar>int k - int (nat i)\<bar> < \<bar>int k - int j\<bar> \<or> (\<bar>int k - int (nat i)\<bar> = \<bar>int k - int j\<bar> \<and> nat i \<le> j)"
    if "j < length standardLevelOrder" "isLevelSupported (standardLevelOrder ! j) (ts_Levels s)" for j
    using n k b level_positions_iff [OF that(1)] that(2) by (auto simp: nearest_def)
  have "clampLevel level (Some m) = standardLevelOrder ! nat i" using c assms(1) by simp
  then show ?thesis using u b(2) supported_position [OF i] near by (simp only: if_False) blast
next
  assume "clamp_level level (ts_Levels s) = level"
    "isLevelSupported level (ts_Levels s) \<or> levelIndex level = -1 \<or> level_positions (ts_Levels s) = {}"
  then show ?thesis using assms levelIndex_fold [OF assms(4)] by (auto simp: lowestSupportedLevel_None)
qed

theorem clamp_level_nearest_witness:
  "\<exists>i < length standardLevelOrder. clampLevel ''MEDIUM'' (Some thinking_demo_model) = standardLevelOrder ! i \<and>
     isLevelSupported (standardLevelOrder ! i) (ts_Levels demo_support)"
proof -
  have "\<not> isLevelSupported ''MEDIUM'' (ts_Levels demo_support)" "2 < length standardLevelOrder"
    "EqualFold ''MEDIUM'' (standardLevelOrder ! 2)" "lowestSupportedLevel (ts_Levels demo_support) \<noteq> None"
    by code_simp+
  then show ?thesis using clamp_level_nearest [OF thinking_demo_support, of 2 "''MEDIUM''"] by auto
qed

text \<open>The suffix of a model's name is read back as it was written: a name followed by a value in
  parentheses parses into the name and the value, and every suffix found comes from such a name; a positive
  number of 63 bits becomes that budget and a standard level, in any case, becomes that level.\<close>

theorem suffix_read_back:
  "(ParseSuffix model = \<lparr>sr_ModelName = name, sr_HasSuffix = True, sr_RawSuffix = v\<rparr> \<longleftrightarrow>
      model = name @ ''('' @ v @ '')'' \<and> CHR ''('' \<notin> set v) \<and>
   (0 < n \<and> n < 2 ^ 63 \<longrightarrow>
      parseSuffixToConfig (sr_RawSuffix (ParseSuffix (name @ ''('' @ FormatInt n @ '')''))) = budget_config n) \<and>
   (l \<in> set standardLevelOrder \<and> EqualFold v l \<longrightarrow>
      parseSuffixToConfig (sr_RawSuffix (ParseSuffix (name @ ''('' @ v @ '')''))) = level_config l)"
proof (intro conjI impI)
  have print: "CHR ''('' \<notin> set w \<Longrightarrow>
      ParseSuffix (name @ ''('' @ w @ '')'') = \<lparr>sr_ModelName = name, sr_HasSuffix = True, sr_RawSuffix = w\<rparr>" for w
    using ParseSuffix_print [of w name] by simp
  show "ParseSuffix model = \<lparr>sr_ModelName = name, sr_HasSuffix = True, sr_RawSuffix = v\<rparr> \<longleftrightarrow>
     model = name @ ''('' @ v @ '')'' \<and> CHR ''('' \<notin> set v"
    using print [of v] ParseSuffix_found [of model] by auto
  show "parseSuffixToConfig (sr_RawSuffix (ParseSuffix (name @ ''('' @ FormatInt n @ '')''))) = budget_config n"
    if n: "0 < n \<and> n < 2 ^ 63"
  proof -
    have "list_all is_digit (FormatInt n)" using n itoa_digits by (simp add: FormatInt_def)
    then have "CHR ''('' \<notin> set (FormatInt n)" by (auto simp: list_all_iff is_digit_def Let_def)
    then show ?thesis using print number_config n by simp
  qed
  show "parseSuffixToConfig (sr_RawSuffix (ParseSuffix (name @ ''('' @ v @ '')''))) = level_config l"
    if l: "l \<in> set standardLevelOrder \<and> EqualFold v l"
  proof -
    have "CHR ''('' \<notin> set (ToLower v)" using l by (auto simp: standardLevelOrder_def EqualFold_def ToLower_def lower_char_def)
    moreover have "lower_char (CHR ''('') = CHR ''(''" by code_simp
    ultimately have "CHR ''('' \<notin> set v" unfolding ToLower_def by force
    then show ?thesis using print level_suffix_config l by simp
  qed
qed

theorem suffix_read_back_witness:
  "parseSuffixToConfig (sr_RawSuffix (ParseSuffix (''gpt'' @ ''('' @ FormatInt 8192 @ '')''))) = budget_config 8192 \<and>
   parseSuffixToConfig (sr_RawSuffix (ParseSuffix (''gpt'' @ ''('' @ ''HIGH'' @ '')''))) = level_config ''high''"
proof -
  have "''high'' \<in> set standardLevelOrder" "EqualFold ''HIGH'' ''high''" by code_simp+
  then show ?thesis
    using suffix_read_back [where name = "''gpt''" and n = 8192 and v = "''HIGH''" and l = "''high''"] by auto
qed

text \<open>Whatever the order in which plugins register for a provider that has no native applier, the
  plugin that ends up holding it is the valid registration of the highest priority, and among those the one of
  the first owner in the order of strings; without a valid registration nobody holds it.\<close>

theorem plugin_applier_order_free:
  assumes "n \<noteq> []" and "map_of (ap_native t) n = None" and "applier_holder n t = None"
  shows "top_claim (applier_holder n (register_all rs t)) (claimants n rs) \<and>
    (set rs' = set rs \<longrightarrow> applier_holder n (register_all rs' t) = applier_holder n (register_all rs t))"
  using register_all_top [OF assms, of rs] register_all_top [OF assms, of rs'] claimants_set [of rs' rs n]
  by (auto intro: top_claim_unique)

theorem plugin_applier_order_free_witness:
  "applier_holder ''acme'' (register_all [(''a'', ''acme'', 1, Some True), (''b'', '' ACME'', 2, Some False)] init_appliers) = Some (''b'', 2) \<and>
   applier_holder ''acme'' (register_all [(''b'', '' ACME'', 2, Some False), (''a'', ''acme'', 1, Some True)] init_appliers) = Some (''b'', 2)"
proof
  have t: "map_of (ap_native (init_appliers :: bool appliers)) ''acme'' = None" "applier_holder ''acme'' (init_appliers :: bool appliers) = None"
    by code_simp+
  show h: "applier_holder ''acme'' (register_all [(''a'', ''acme'', 1, Some True), (''b'', '' ACME'', 2, Some False)] init_appliers) = Some (''b'', 2)"
    by code_simp
  show "applier_holder ''acme'' (register_all [(''b'', '' ACME'', 2, Some False), (''a'', ''acme'', 1, Some True)] init_appliers) = Some (''b'', 2)"
    using plugin_applier_order_free [OF _ t,
      where rs' = "[(''b'', '' ACME'', 2, Some False), (''a'', ''acme'', 1, Some True)]"
        and rs = "[(''a'', ''acme'', 1, Some True), (''b'', '' ACME'', 2, Some False)]"] h
    by auto
qed

end
