(* ===== verification/ThinkingExtract.thy ===== *)
theory ThinkingExtract
  imports ThinkingProperties
begin

text \<open>
  Reading a thinking configuration from a request body: the extractors of
  \<open>src/internal/thinking/apply.go\<close> for each provider format, the control items of a Responses request
  (\<open>src/internal/util/responses_controls.go\<close>) and the effort label for usage records.

  A request body is what the extractors can ask of it: whether it is empty, whether it is valid JSON, and
  for a path what the \<open>gjson\<close> package answers, a result with its existence, whether it is a string, and its
  value as a string and as an integer. \<open>gjson\<close> is a parameter in this form, a function from paths to
  results; of it the theorems use nothing but the answers themselves. The controls are read with the
  standard decoder; a decoded request is the argument of \<open>InspectResponsesControls\<close>, an item that is
  not an object is \<open>BadItem\<close>, and the effort of an update is \<open>None\<close> where its \<open>reasoning\<close> does not decode.
\<close>

section \<open>Control items of a Responses request\<close>

record ResponsesControls =
  rc_HasConfigurationUpdate :: bool
  rc_HasCompactionTrigger :: bool
  rc_HasAsyncTools :: bool
  rc_ConfigurationEffort :: string

datatype ritem = BadItem | Item (item_kind: string) (item_effort: "string option")
datatype rinput = NoArray | BadArray | Items "ritem list"

record rrequest =
  rr_Input :: rinput
  rr_Tools :: "(string \<times> bool) list"

datatype ControlsError = InvalidJSON | InvalidInput | AdjacentUpdates nat | EmptyEffort nat
  | CompactEndpoint | InvalidOptions | AutoTruncation | AutoCompaction | NeedsNativeResponses

fun inspect_items :: "nat \<Rightarrow> bool \<Rightarrow> ritem list \<Rightarrow> ResponsesControls \<Rightarrow> ResponsesControls \<times> ControlsError option" where
  "inspect_items index previousUpdate [] c = (c, None)"
| "inspect_items index previousUpdate (BadItem # rest) c = inspect_items (Suc index) False rest c"
| "inspect_items index previousUpdate (Item kind effort # rest) c =
     (if kind = ''configuration_update'' then
        (let c = c\<lparr>rc_HasConfigurationUpdate := True\<rparr>
         in if previousUpdate then (c, Some (AdjacentUpdates index))
            else case effort of
                   None \<Rightarrow> (c, Some (EmptyEffort index))
                 | Some e \<Rightarrow>
                     if TrimSpace e = [] then (c, Some (EmptyEffort index))
                     else inspect_items (Suc index) True rest (c\<lparr>rc_ConfigurationEffort := ToLower (TrimSpace e)\<rparr>))
      else if kind = ''compaction_trigger'' then
        inspect_items (Suc index) False rest (c\<lparr>rc_HasCompactionTrigger := True, rc_ConfigurationEffort := []\<rparr>)
      else if kind = ''compaction'' \<or> kind = ''context_compaction'' then
        inspect_items (Suc index) False rest (c\<lparr>rc_ConfigurationEffort := []\<rparr>)
      else inspect_items (Suc index) False rest c)"

definition no_controls :: ResponsesControls where
  "no_controls = \<lparr>rc_HasConfigurationUpdate = False, rc_HasCompactionTrigger = False, rc_HasAsyncTools = False,
     rc_ConfigurationEffort = []\<rparr>"

definition InspectResponsesControls :: "rrequest option \<Rightarrow> ResponsesControls \<times> ControlsError option" where
  "InspectResponsesControls request =
     (case request of
        None \<Rightarrow> (no_controls, Some InvalidJSON)
      | Some r \<Rightarrow>
          (let c = no_controls\<lparr>rc_HasAsyncTools := list_ex (\<lambda>(t, async). (t = ''function'' \<or> t = ''custom'') \<and> async) (rr_Tools r)\<rparr>
           in case rr_Input r of
                NoArray \<Rightarrow> (c, None)
              | BadArray \<Rightarrow> (c, Some InvalidInput)
              | Items items \<Rightarrow> inspect_items 0 False items c))"

text \<open>The options are the truncation mode and the types of the context management entries.\<close>

definition ValidateResponsesControls ::
    "rrequest option \<Rightarrow> (string \<times> string list) option \<Rightarrow> bool \<Rightarrow> ControlsError option" where
  "ValidateResponsesControls request options isCompact =
     (let (controls, err) = InspectResponsesControls request
      in if err \<noteq> None \<or> \<not> rc_HasConfigurationUpdate controls then err
         else if isCompact then Some CompactEndpoint
         else case options of
                None \<Rightarrow> Some InvalidOptions
              | Some (truncation, management) \<Rightarrow>
                  if truncation = ''auto'' then Some AutoTruncation
                  else if ''compaction'' \<in> set management then Some AutoCompaction
                  else None)"

definition RequireChatRepresentableResponses :: "rrequest option \<Rightarrow> ControlsError option" where
  "RequireChatRepresentableResponses request =
     (let (controls, err) = InspectResponsesControls request
      in if err \<noteq> None then err
         else if rc_HasConfigurationUpdate controls \<or> rc_HasCompactionTrigger controls \<or> rc_HasAsyncTools controls
         then Some NeedsNativeResponses
         else None)"

section \<open>Request bodies\<close>

record gresult =
  g_Exists :: bool
  g_IsString :: bool
  g_String :: string
  g_Int :: int

record body =
  b_empty :: bool
  b_valid :: bool
  b_get :: "string \<Rightarrow> gresult"
  b_request :: "rrequest option"

section \<open>Extractors\<close>

definition effort_value_config :: "string \<Rightarrow> ThinkingConfig" where
  "effort_value_config v =
     (if v = ''none'' then none_config else if v = ''auto'' then auto_config else level_config v)"

definition budget_value_config :: "int \<Rightarrow> ThinkingConfig" where
  "budget_value_config v =
     (if v = 0 then none_config else if v = -1 then auto_config else budget_config v)"

definition extractClaudeConfig :: "body \<Rightarrow> ThinkingConfig" where
  "extractClaudeConfig b =
     (let thinkingType = g_String (b_get b ''thinking.type'');
          effort = b_get b ''output_config.effort'';
          v = ToLower (TrimSpace (g_String effort));
          budget = b_get b ''thinking.budget_tokens''
      in if thinkingType = ''disabled'' then none_config
         else if \<not> g_Exists (b_get b ''thinking'') \<or> thinkingType = ''adaptive'' \<or> thinkingType = ''auto''
         then if g_Exists effort \<and> g_IsString effort
              then if v = [] then empty_config else effort_value_config v
              else empty_config
         else if g_Exists budget then budget_value_config (g_Int budget)
         else if thinkingType = ''enabled''
         then if g_Exists effort \<and> g_IsString effort \<and> v \<noteq> [] then effort_value_config v else auto_config
         else empty_config)"

definition either_path :: "body \<Rightarrow> string \<Rightarrow> string \<Rightarrow> gresult" where
  "either_path b p q = (if \<not> g_Exists (b_get b p) then b_get b q else b_get b p)"

definition extractGeminiConfig :: "body \<Rightarrow> string \<Rightarrow> ThinkingConfig" where
  "extractGeminiConfig b provider =
     (let prefix = (if provider = ''antigravity'' then ''request.generationConfig.thinkingConfig''
                    else ''generationConfig.thinkingConfig'');
          level = either_path b (prefix @ ''.thinkingLevel'') (prefix @ ''.thinking_level'');
          budget = either_path b (prefix @ ''.thinkingBudget'') (prefix @ ''.thinking_budget'')
      in if g_Exists level then effort_value_config (g_String level)
         else if g_Exists budget then budget_value_config (g_Int budget)
         else empty_config)"

definition first_path :: "body \<Rightarrow> string list \<Rightarrow> gresult option" where
  "first_path b paths = find g_Exists (map (b_get b) paths)"

definition extractInteractionsConfig :: "body \<Rightarrow> ThinkingConfig" where
  "extractInteractionsConfig b =
     (case first_path b [''generation_config.thinking_level'', ''generation_config.thinkingLevel'',
             ''generation_config.thinking_config.thinking_level'', ''generation_config.thinking_config.thinkingLevel'',
             ''generation_config.thinkingConfig.thinking_level'', ''generation_config.thinkingConfig.thinkingLevel''] of
        Some level \<Rightarrow> effort_value_config (ToLower (TrimSpace (g_String level)))
      | None \<Rightarrow>
          (case first_path b [''generation_config.thinking_budget'', ''generation_config.thinkingBudget'',
                ''generation_config.thinking_config.thinking_budget'', ''generation_config.thinking_config.thinkingBudget'',
                ''generation_config.thinkingConfig.thinking_budget'', ''generation_config.thinkingConfig.thinkingBudget''] of
             Some budget \<Rightarrow> budget_value_config (g_Int budget)
           | None \<Rightarrow> empty_config))"

definition named_effort_config :: "gresult \<Rightarrow> ThinkingConfig" where
  "named_effort_config effort =
     (if g_Exists effort
      then if g_String effort = ''none'' then none_config else level_config (g_String effort)
      else empty_config)"

definition extractOpenAIConfig :: "body \<Rightarrow> ThinkingConfig" where
  "extractOpenAIConfig b = named_effort_config (b_get b ''reasoning_effort'')"

definition extractCodexConfig :: "body \<Rightarrow> ThinkingConfig" where
  "extractCodexConfig b = named_effort_config (b_get b ''reasoning.effort'')"

definition extractKimiConfig :: "body \<Rightarrow> ThinkingConfig" where
  "extractKimiConfig b =
     (let thinkingType = b_get b ''thinking.type'';
          effort = b_get b ''thinking.effort'';
          kind = ToLower (TrimSpace (g_String thinkingType));
          v = ToLower (TrimSpace (g_String effort))
      in if g_Exists thinkingType \<and> kind = ''disabled'' then none_config
         else if g_Exists thinkingType \<and> kind = ''enabled'' \<and> \<not> g_Exists effort then empty_config
         else if g_Exists effort then if v = [] then empty_config else effort_value_config v
         else if g_Exists thinkingType then empty_config
         else extractOpenAIConfig b)"

definition extractCodexUsageConfig :: "body \<Rightarrow> ThinkingConfig" where
  "extractCodexUsageConfig b =
     (if b_empty b \<or> \<not> b_valid b then empty_config
      else let (controls, err) = InspectResponsesControls (b_request b)
           in if err = None \<and> rc_ConfigurationEffort controls \<noteq> [] then effort_value_config (rc_ConfigurationEffort controls)
              else extractCodexConfig b)"

definition extractConfigurationUpdateConfig :: "body \<Rightarrow> ThinkingConfig" where
  "extractConfigurationUpdateConfig b =
     (let (controls, err) = InspectResponsesControls (b_request b)
      in if err \<noteq> None then empty_config
         else if rc_ConfigurationEffort controls = [] then empty_config
         else effort_value_config (rc_ConfigurationEffort controls))"

definition extractThinkingConfig :: "body \<Rightarrow> string \<Rightarrow> ThinkingConfig" where
  "extractThinkingConfig b provider =
     (if b_empty b \<or> \<not> b_valid b then empty_config
      else if provider = ''claude'' then extractClaudeConfig b
      else if provider \<in> set [''gemini'', ''antigravity''] then extractGeminiConfig b provider
      else if provider = ''interactions'' then extractInteractionsConfig b
      else if provider = ''openai'' then extractOpenAIConfig b
      else if provider \<in> set [''codex'', ''xai''] then extractCodexConfig b
      else if provider \<in> set [''kimi'', ''kimi-ai'', ''kimi.ai'', ''kimi.com''] then extractKimiConfig b
      else empty_config)"

definition extractSourceThinkingConfig :: "body \<Rightarrow> string \<Rightarrow> ThinkingConfig" where
  "extractSourceThinkingConfig b provider =
     (let provider = ToLower (TrimSpace provider)
      in if provider = ''openai-response'' then extractCodexConfig b else extractThinkingConfig b provider)"

definition extractThinkingConfigForUsage :: "body \<Rightarrow> string \<Rightarrow> ThinkingConfig" where
  "extractThinkingConfigForUsage b provider =
     (let p = ToLower (TrimSpace provider)
      in if p \<in> set [''codex'', ''xai'', ''openai-response''] then extractCodexUsageConfig b
         else if p = ''claude'' \<and> g_String (b_get b ''thinking.type'') = ''between_tools'' then none_config
         else extractThinkingConfig b provider)"

definition ExtractReasoningEffort :: "body \<Rightarrow> string \<Rightarrow> string \<Rightarrow> string" where
  "ExtractReasoningEffort b provider model =
     (let provider = ToLower (TrimSpace provider); effort = reasoningEffortFromSuffix (ParseSuffix model)
      in if effort \<noteq> [] then effort
         else let c = extractThinkingConfigForUsage b provider;
                  c = (if \<not> hasThinkingConfig c \<and> provider \<in> set [''openai-response'', ''openai'']
                       then extractCodexUsageConfig b else c)
              in reasoningEffortFromConfig c)"

definition ExtractTranslatedReasoningEffort :: "body \<Rightarrow> string \<Rightarrow> string" where
  "ExtractTranslatedReasoningEffort b provider =
     (let provider = ToLower (TrimSpace provider);
          c = extractThinkingConfigForUsage b provider;
          c = (if \<not> hasThinkingConfig c \<and> provider \<in> set [''openai'', ''openai-response'']
               then let c = extractCodexUsageConfig b in if \<not> hasThinkingConfig c then extractOpenAIConfig b else c
               else c)
      in reasoningEffortFromConfig c)"

section \<open>The effort of the control items\<close>

text \<open>The reference reading, from the last item backwards: the effort of the last update, unless
  a compaction comes after it.\<close>

fun last_effort :: "string \<Rightarrow> ritem list \<Rightarrow> string" where
  "last_effort d [] = d"
| "last_effort d (BadItem # rest) = last_effort d rest"
| "last_effort d (Item kind effort # rest) =
     (if kind = ''configuration_update'' then (case effort of None \<Rightarrow> [] | Some e \<Rightarrow> ToLower (TrimSpace e))
      else if kind \<in> set [''compaction_trigger'', ''compaction'', ''context_compaction''] then []
      else last_effort d rest)"

definition is_update :: "ritem \<Rightarrow> bool" where
  "is_update it \<longleftrightarrow> (case it of BadItem \<Rightarrow> False | Item kind _ \<Rightarrow> kind = ''configuration_update'')"

definition good_update :: "ritem \<Rightarrow> bool" where
  "good_update it \<longleftrightarrow> (case it of BadItem \<Rightarrow> True
     | Item kind effort \<Rightarrow> kind = ''configuration_update'' \<longrightarrow> (case effort of None \<Rightarrow> False | Some e \<Rightarrow> TrimSpace e \<noteq> []))"

text \<open>No update follows another one directly; the flag tells whether one came just before.\<close>

fun no_adjacent :: "bool \<Rightarrow> ritem list \<Rightarrow> bool" where
  "no_adjacent previous [] = True"
| "no_adjacent previous (it # rest) = (\<not> (previous \<and> is_update it) \<and> no_adjacent (is_update it) rest)"

lemma inspect_items_ok:
  "snd (inspect_items i previous items c) = None \<longleftrightarrow> list_all good_update items \<and> no_adjacent previous items"
  by (induction i previous items c rule: inspect_items.induct)
     (auto simp: good_update_def is_update_def Let_def split: option.splits)

lemma last_effort_snoc: "last_effort d (xs @ [x]) = last_effort (last_effort d [x]) xs"
  by (induction d xs rule: last_effort.induct) auto

lemma inspect_items_effort:
  "snd (inspect_items i previous items c) = None \<Longrightarrow>
   rc_ConfigurationEffort (fst (inspect_items i previous items c)) = last_effort (rc_ConfigurationEffort c) (rev items)"
  by (induction i previous items c rule: inspect_items.induct)
     (auto simp: last_effort_snoc Let_def split: option.splits if_splits)

text \<open>A Responses input is accepted exactly when no update follows another directly and every update has
  an effort; then the effort found is that of the last update with no compaction after it.\<close>

lemma responses_effort_last:
  assumes "rr_Input r = Items items"
  shows "snd (InspectResponsesControls (Some r)) = None \<longleftrightarrow> list_all good_update items \<and> no_adjacent False items"
    and "snd (InspectResponsesControls (Some r)) = None \<Longrightarrow>
      rc_ConfigurationEffort (fst (InspectResponsesControls (Some r))) = last_effort [] (rev items)"
  using assms inspect_items_ok inspect_items_effort
  by (simp_all add: InspectResponsesControls_def no_controls_def)

section \<open>Extracted configurations\<close>

text \<open>A format whose extractor takes the effort as it is written yields a well-formed configuration
  unless the effort is the word auto in another case.\<close>

definition cased_auto :: "string \<Rightarrow> bool" where
  "cased_auto v \<longleftrightarrow> EqualFold v LevelAuto \<and> v \<noteq> LevelAuto"

lemma lower_auto: "ToLower LevelAuto = LevelAuto"
  by code_simp

definition plain_config :: "ThinkingConfig \<Rightarrow> bool" where
  "plain_config c \<longleftrightarrow> \<not> (tc_Mode c = ModeLevel \<and> cased_auto (tc_Level c))"

lemma plain_implies_wf:
  "plain_config (effort_value_config v) \<longrightarrow> wf_config (effort_value_config v)"
  "plain_config (named_effort_config r) \<longrightarrow> wf_config (named_effort_config r)"
  "wf_config (budget_value_config n)" "wf_config empty_config" "wf_config none_config" "wf_config auto_config"
  by (auto simp: plain_config_def effort_value_config_def named_effort_config_def budget_value_config_def empty_config_def
    wf_config_def cased_auto_def EqualFold_def lower_auto)

lemma lower_value_wf: "wf_config (effort_value_config (ToLower v))"
  by (auto simp: effort_value_config_def wf_config_def)

lemma extractor_wf:
  "wf_config (extractClaudeConfig b)"
  "wf_config (extractInteractionsConfig b)"
  "plain_config (extractGeminiConfig b p) \<longrightarrow> wf_config (extractGeminiConfig b p)"
  "plain_config (extractOpenAIConfig b) \<longrightarrow> wf_config (extractOpenAIConfig b)"
  "plain_config (extractCodexConfig b) \<longrightarrow> wf_config (extractCodexConfig b)"
  by (simp_all add: extractClaudeConfig_def extractInteractionsConfig_def extractGeminiConfig_def extractOpenAIConfig_def
    extractCodexConfig_def Let_def plain_implies_wf lower_value_wf split: option.splits)

lemma kimi_wf: "plain_config (extractKimiConfig b) \<longrightarrow> wf_config (extractKimiConfig b)"
  by (simp add: extractKimiConfig_def Let_def plain_implies_wf lower_value_wf extractor_wf)

lemma extracted_wf: "plain_config (extractThinkingConfig b p) \<longrightarrow> wf_config (extractThinkingConfig b p)"
  by (simp add: extractThinkingConfig_def plain_implies_wf extractor_wf kimi_wf)

section \<open>Properties\<close>

text \<open>C36: A thinking configuration that passes validation for a model is in the form the model accepts, with one
  exception. Accepted are a level the model lists, a budget within its range, dynamic thinking where it is
  allowed, and thinking off with a budget of zero where zero is allowed; where it is not, a request to be off
  carries the least budget of the range and, for a model with levels, the lowest of them (unless the range starts at zero
  and the model lists the level none). The exception is a request for the Claude format to be off, on a model
  that takes budgets only, whose range leaves out zero and which does not allow zero: thinking is switched off
  with a budget of zero all the same. The entry of the model is one that the catalogue could hold:
  a range with 0 <= Min <= Max below 2^62, a range or levels, and, where there are levels, at least one standard
  level among them. The configuration is one as its type describes, in particular one read from the
  suffix of a model's name, or one extracted from a request body of any format, unless that is the
  word auto spelled with capitals.\<close>

theorem validated_config_accepted:
  assumes "model_support m = Some s" and "wf_support s"
    and "wf_config c \<or> c = parseSuffixToConfig raw \<or> (c = extractThinkingConfig b provider \<and> plain_config c)"
    and "ValidateConfig c (Some m) fromFormat toFormat fromSuffix = Inr c'"
  shows "accepts s c' \<or> claude_switched_off s (ToLower (TrimSpace toFormat)) c'"
proof -
  have "wf_config c" using assms(3) suffix_config_wf extracted_wf by auto
  then show ?thesis using assms(1,4) validate_supported_accepts [OF assms(1,2)]
    by (simp add: ValidateConfig_def Let_def)
qed

theorem validated_config_accepted_witness:
  "ValidateConfig (parseSuffixToConfig ''MAX'') (Some thinking_demo_model) ''openai'' ''gemini'' True = Inr (level_config ''high'') \<and>
   accepts demo_support (level_config ''high'')"
proof
  show v: "ValidateConfig (parseSuffixToConfig ''MAX'') (Some thinking_demo_model) ''openai'' ''gemini'' True = Inr (level_config ''high'')"
    by code_simp
  show "accepts demo_support (level_config ''high'')"
    using validated_config_accepted [OF thinking_demo_support demo_support_wf disjI2 [OF disjI1 [OF refl]] v]
    by (simp add: claude_switched_off_def)
qed

text \<open>The word auto spelled with capitals escapes the validation of a model that takes budgets only and
  does not allow dynamic thinking: from an OpenAI request with such an effort the result is the
  numeric budget -1, whatever the formats, which the model does not accept. Validation compares the
  level with the lower-case word, and the conversion to a budget ignores case. Spelled in lower case, the same
  request gets a budget within the range or, where zero is allowed, thinking off.\<close>

theorem cased_auto_escapes:
  assumes m: "model_support m = Some s" and wf: "wf_support s" and lv: "ts_Levels s = []"
    and dyn: "\<not> ts_DynamicAllowed s" and b: "\<not> b_empty b" "b_valid b" "g_Exists (b_get b ''reasoning_effort'')"
    and v: "cased_auto (g_String (b_get b ''reasoning_effort''))"
  shows "ValidateConfig (extractThinkingConfig b ''openai'') (Some m) fromFormat toFormat fromSuffix = Inr (budget_config (-1)) \<and>
    \<not> accepts s (budget_config (-1)) \<and>
    (\<exists>c'. ValidateConfig (level_config LevelAuto) (Some m) fromFormat toFormat fromSuffix = Inr c' \<and>
      accepts s c')"
proof (intro conjI)
  let ?v = "g_String (b_get b ''reasoning_effort'')"
  have cap: "support_capability s = CapabilityBudgetOnly"
    using capability_range [OF wf] level_only_levels [OF wf] wf lv by (auto simp: wf_support_def)
  have low: "ToLower ?v = LevelAuto" "?v \<noteq> LevelAuto" using v by (auto simp: cased_auto_def EqualFold_def lower_auto)
  have "ToLower LevelNone \<noteq> LevelAuto" by code_simp
  then have "?v \<noteq> LevelNone" using low by auto
  then have c: "extractThinkingConfig b ''openai'' = level_config ?v"
    using b by (simp add: extractThinkingConfig_def extractOpenAIConfig_def named_effort_config_def)
  have "ConvertLevelToBudget ?v = Some (-1)" using low by (simp add: ConvertLevelToBudget_def levelToBudgetMap_def)
  then have "validate_supported (level_config ?v) m s from to fromSuffix = Inr (budget_config (-1))" for "from" to
    using m cap low lv dyn
    by (simp add: validate_supported_def convert_format_def fold_special_def check_level_def budget_rejected_def
      auto_fallback_def finish_config_def clamp_budget_def Let_def)
  then show "ValidateConfig (extractThinkingConfig b ''openai'') (Some m) fromFormat toFormat fromSuffix = Inr (budget_config (-1))"
    using m by (simp add: ValidateConfig_def Let_def c)
  show "\<not> accepts s (budget_config (-1))" using wf by (simp add: accepts_def wf_support_def)
  have v: "validate_supported (level_config LevelAuto) m s from to fromSuffix = Inr (finish_config to m s (auto_fallback m s auto_config))" for "from" to
    using m cap lv by (simp add: validate_supported_def convert_format_def fold_special_def check_level_def budget_rejected_def Let_def)
  have "settled s (auto_fallback m s auto_config)" by (rule auto_fallback_settled [OF m wf]) (simp_all add: staged_def)
  moreover have "\<not> claude_switched_off s to x" if "tc_Mode (auto_fallback m s auto_config) = ModeNone" for to x
    using that dyn by (auto simp: auto_fallback_def convertAutoToMidRange_def claude_switched_off_def Let_def split: if_splits)
  ultimately have "accepts s (finish_config to m s (auto_fallback m s auto_config))" for to
    using finish_accepts [OF m wf] by blast
  then show "\<exists>c'. ValidateConfig (level_config LevelAuto) (Some m) fromFormat toFormat fromSuffix = Inr c' \<and> accepts s c'"
    using m v by (simp add: ValidateConfig_def Let_def)
qed

definition budget_support :: ThinkingSupport where
  "budget_support = \<lparr>ts_Min = 1024, ts_Max = 128000, ts_ZeroAllowed = False, ts_DynamicAllowed = False,
     ts_DisableType = [], ts_Levels = []\<rparr>"

definition budget_model :: ThinkingModel where
  "budget_model = \<lparr>mi_ID = ''claude'', mi_SupportsWebSearch = False, mi_NativeCapabilities = None,
     mi_rest = \<lparr>ti_Type = ''claude'', ti_Thinking = Some budget_support, ti_UserDefined = False\<rparr>\<rparr>"

definition effort_body :: "string \<Rightarrow> body" where
  "effort_body v = \<lparr>b_empty = False, b_valid = True,
     b_get = (\<lambda>p. if p = ''reasoning_effort'' then \<lparr>g_Exists = True, g_IsString = True, g_String = v, g_Int = 0\<rparr>
                  else \<lparr>g_Exists = False, g_IsString = False, g_String = [], g_Int = 0\<rparr>),
     b_request = None\<rparr>"

text \<open>The exception is real: a request to be off for this model passes validation, and what it carries is not
  what the model accepts.\<close>

lemma switched_off_despite_range:
  "ValidateConfig none_config (Some budget_model) ''claude'' ''claude'' False = Inr none_config \<and>
   \<not> accepts budget_support none_config \<and> claude_switched_off budget_support ''claude'' none_config"
  by code_simp

theorem cased_auto_escapes_witness:
  "ValidateConfig (extractThinkingConfig (effort_body ''Auto'') ''openai'') (Some budget_model) ''openai'' ''claude'' False =
     Inr (budget_config (-1)) \<and>
   \<not> accepts budget_support (budget_config (-1)) \<and>
   (\<exists>c'. ValidateConfig (level_config LevelAuto) (Some budget_model) ''openai'' ''claude'' False = Inr c' \<and>
      accepts budget_support c')"
proof (rule cased_auto_escapes)
  show "model_support budget_model = Some budget_support" by (simp add: budget_model_def)
  show "wf_support budget_support" by code_simp
  show "ts_Levels budget_support = []" "\<not> ts_DynamicAllowed budget_support" by (simp_all add: budget_support_def)
  show "\<not> b_empty (effort_body ''Auto'')" "b_valid (effort_body ''Auto'')"
    "g_Exists (b_get (effort_body ''Auto'') ''reasoning_effort'')" by (simp_all add: effort_body_def)
  have "cased_auto ''Auto''" by code_simp
  then show "cased_auto (g_String (b_get (effort_body ''Auto'') ''reasoning_effort''))" by (simp add: effort_body_def)
qed

end
