(* ===== verification/CredentialCooldown.thy ===== *)
theory CredentialCooldown
  imports AuthState
begin

text \<open>
  How results of requests change the availability of a credential: the cooldowns of
  \<open>src/sdk/cliproxy/auth/conductor_cooldown.go\<close>. A failure sets a deadline for a model, or for the whole
  credential, by its kind; repeated quota failures climb a ladder of longer windows; a success clears
  what earlier failures left, unless it was dispatched before the cooldown was recorded. While the quota of a
  whole credential is exhausted, that verdict lies over every model as an outer layer, and the
  model's own cooldown is kept beneath it as a shadow.

  A model's state is a layer (the fields of \<open>ModelState\<close>) and, perhaps, a shadow, itself a layer:
  \<open>cloneShallow\<close> copies a state without its shadow, and every shadow is made by it. The pointer into the map
  \<open>ModelStates\<close> is the key of the entry; a nil entry is \<^const>\<open>None\<close>. Observed quota signals, which no decision
  reads, are left out. Of \<open>MarkResult\<close> the change of the credential is modelled; arguments stand for the answer of
  \<open>cooldownDisabledForAuth\<close>, the configured number of seconds, the number of the latest execution, and what the
  Codex continuity tracker and \<open>authHasRefreshCredential\<close> answer. Four tests that decode the JSON body of an error
  are functions the theorems leave open (the record \<open>body_tests\<close>). What \<open>MarkResult\<close> counts, logs, persists and
  publishes besides is not part of the state here.
\<close>

section \<open>Data\<close>

record cquota =
  cq_Exceeded :: bool
  cq_Reason :: string
  cq_NextRecoverAt :: gtime
  cq_BackoffLevel :: int

record layer =
  ly_Status :: string
  ly_StatusMessage :: string
  ly_Unavailable :: bool
  ly_NextRetryAfter :: gtime
  ly_LastError :: "Error option"
  ly_Quota :: cquota
  ly_UpdatedAt :: gtime
  ly_modelFallbackReason :: string
  ly_cooldownRecordedSeq :: nat
  ly_credentialQuotaPropagated :: bool

record cstate =
  st_layer :: layer
  st_shadow :: "layer option"

record cauth =
  ca_Provider :: string
  ca_Status :: string
  ca_StatusMessage :: string
  ca_Disabled :: bool
  ca_Unavailable :: bool
  ca_Quota :: cquota
  ca_LastError :: "Error option"
  ca_UpdatedAt :: gtime
  ca_LastRefreshedAt :: gtime
  ca_NextRefreshAfter :: gtime
  ca_NextRetryAfter :: gtime
  ca_ModelStates :: "(string \<times> cstate option) list"
  ca_cooldownRecordedSeq :: nat

record exec_result =
  re_Success :: bool
  re_Error :: "Error option"
  re_RetryAfter :: "int option"
  re_CredentialScope :: bool
  re_ExecutionSeq :: nat
  re_ModelFallbackReason :: string

abbreviation StatusActive :: string where "StatusActive \<equiv> ''active''"
abbreviation credentialQuota :: string where "credentialQuota \<equiv> ''credential_quota''"

definition zero_quota :: cquota where
  "zero_quota = \<lparr>cq_Exceeded = False, cq_Reason = [], cq_NextRecoverAt = 0, cq_BackoffLevel = 0\<rparr>"

definition zero_layer :: layer where
  "zero_layer = \<lparr>ly_Status = [], ly_StatusMessage = [], ly_Unavailable = False, ly_NextRetryAfter = 0, ly_LastError = None,
     ly_Quota = zero_quota, ly_UpdatedAt = 0, ly_modelFallbackReason = [], ly_cooldownRecordedSeq = 0,
     ly_credentialQuotaPropagated = False\<rparr>"

section \<open>Durations\<close>

definition quotaBackoffBase :: int where "quotaBackoffBase = sec_ns"
definition quotaBackoffMax :: int where "quotaBackoffMax = 1800 * sec_ns"
definition minQuotaCooldownFloor :: int where "minQuotaCooldownFloor = 10 * sec_ns"
definition transientErrorCooldown :: int where "transientErrorCooldown = 60 * sec_ns"

abbreviation half_hour :: int where "half_hour \<equiv> 1800 * sec_ns"
abbreviation half_day :: int where "half_day \<equiv> 43200 * sec_ns"

text \<open>The argument \<open>seconds\<close> is the setting \<open>transientErrorCooldownSeconds\<close>.\<close>

definition recoverableFailureRetryAfterWithHint :: "int \<Rightarrow> gtime \<Rightarrow> int option \<Rightarrow> bool \<Rightarrow> gtime" where
  "recoverableFailureRetryAfterWithHint seconds now retryAfter disableCooling =
     (if disableCooling then 0
      else if seconds < 0 then 0
      else case retryAfter of
             Some r \<Rightarrow> if r > 0 then now + r
                        else if seconds = 0 then now + transientErrorCooldown else now + wrap64 (seconds * sec_ns)
           | None \<Rightarrow> if seconds = 0 then now + transientErrorCooldown else now + wrap64 (seconds * sec_ns))"

definition recoverableFailureRetryAfter :: "int \<Rightarrow> gtime \<Rightarrow> bool \<Rightarrow> gtime" where
  "recoverableFailureRetryAfter seconds now disableCooling =
     recoverableFailureRetryAfterWithHint seconds now None disableCooling"

definition nextTransientErrorRetryAfter :: "int \<Rightarrow> gtime \<Rightarrow> gtime" where
  "nextTransientErrorRetryAfter seconds now = recoverableFailureRetryAfterWithHint seconds now None False"

definition transientRateLimitRetryAfter :: "int \<Rightarrow> gtime \<Rightarrow> int option \<Rightarrow> bool \<Rightarrow> gtime" where
  "transientRateLimitRetryAfter seconds now retryAfter disableCooling =
     (if retryAfter = Some 0 then 0
      else recoverableFailureRetryAfterWithHint seconds now retryAfter disableCooling)"

text \<open>The shift and the product are 64 bits wide.\<close>

definition nextQuotaCooldown :: "int \<Rightarrow> bool \<Rightarrow> int \<times> int" where
  "nextQuotaCooldown prevLevel disableCooling =
     (let prevLevel = (if prevLevel < 0 then 0 else prevLevel)
      in if disableCooling then (0, prevLevel)
         else let cooldown = wrap64 (quotaBackoffBase * wrap64 (2 ^ nat prevLevel));
                  cooldown = (if cooldown < quotaBackoffBase then quotaBackoffBase else cooldown)
              in if cooldown \<ge> quotaBackoffMax then (quotaBackoffMax, prevLevel)
                 else (cooldown, prevLevel + 1))"

definition quotaCooldownAfterFailure :: "cquota \<Rightarrow> gtime \<Rightarrow> gtime \<times> int" where
  "quotaCooldownAfterFailure q now =
     (if cq_NextRecoverAt q > now then (cq_NextRecoverAt q, cq_BackoffLevel q)
      else let (cooldown, nextLevel) = nextQuotaCooldown (cq_BackoffLevel q) False
           in (if cooldown > 0 then now + cooldown else 0, nextLevel))"

definition nextCloudflareCooldown :: "int \<Rightarrow> bool \<Rightarrow> gtime \<Rightarrow> gtime \<times> int" where
  "nextCloudflareCooldown backoffLevel disableCooling now =
     (if disableCooling then (0, backoffLevel)
      else let (cooldown, nextLevel) = nextQuotaCooldown backoffLevel disableCooling;
               cooldown = (if cooldown < 10 * sec_ns then 10 * sec_ns else cooldown)
           in (if cooldown > 0 then now + cooldown else 0, nextLevel))"

definition activeQuotaCooldown :: "cquota \<Rightarrow> gtime \<Rightarrow> gtime \<Rightarrow> bool" where
  "activeQuotaCooldown q nextRetryAfter now \<longleftrightarrow>
     cq_Exceeded q \<and> EqualFold (TrimSpace (cq_Reason q)) ''quota'' \<and> nextRetryAfter > now"

section \<open>Kinds of errors\<close>

definition statusCodeFromResult :: "Error option \<Rightarrow> int" where
  "statusCodeFromResult e = (case e of None \<Rightarrow> 0 | Some e \<Rightarrow> er_HTTPStatus e)"

definition has_code :: "string \<Rightarrow> Error option \<Rightarrow> bool" where
  "has_code c e \<longleftrightarrow> (case e of None \<Rightarrow> False | Some e \<Rightarrow> er_Code e = c)"

definition isTransientRateLimitResultError :: "Error option \<Rightarrow> bool" where
  "isTransientRateLimitResultError e = has_code ''transient_rate_limit'' e"

definition isInvalidGrantErrorMessage :: "string \<Rightarrow> bool" where
  "isInvalidGrantErrorMessage message = ContainsStr (ToLower message) ''invalid_grant''"

definition isInvalidGrantResultError :: "Error option \<Rightarrow> bool" where
  "isInvalidGrantResultError e =
     (case e of
        None \<Rightarrow> False
      | Some x \<Rightarrow>
          (if \<not> isInvalidGrantErrorMessage (er_Code x) \<and> \<not> isInvalidGrantErrorMessage (er_Message x) then False
           else er_HTTPStatus x \<in> set [400, 401, 0]))"

definition isCloudflareChallengeErrorMessage :: "string \<Rightarrow> bool" where
  "isCloudflareChallengeErrorMessage message =
     (let lower = ToLower (TrimSpace message)
      in ContainsStr lower ''challenge-platform'' \<or> ContainsStr lower ''cf-mitigated'' \<or>
         ContainsStr lower ''cloudflare challenge'' \<or>
         (ContainsStr lower ''just a moment'' \<and> ContainsStr lower ''cloudflare''))"

definition isCloudflareChallengeResultError :: "Error option \<Rightarrow> bool" where
  "isCloudflareChallengeResultError e =
     (case e of
        None \<Rightarrow> False
      | Some x \<Rightarrow> if er_HTTPStatus x \<ge> 500 then False else isCloudflareChallengeErrorMessage (er_Message x))"

definition isXaiBadCredentialsMessage :: "string \<Rightarrow> bool" where
  "isXaiBadCredentialsMessage message =
     (let lower = ToLower message in ContainsStr lower ''bad-credentials'' \<or> ContainsStr lower ''could not be validated'')"

definition isXaiBadCredentialsResultError :: "string \<Rightarrow> Error option \<Rightarrow> bool" where
  "isXaiBadCredentialsResultError provider e =
     (case e of
        None \<Rightarrow> False
      | Some x \<Rightarrow>
          if \<not> EqualFold (TrimSpace provider) ''xai'' then False
          else if er_HTTPStatus x \<noteq> 403 then False
          else isXaiBadCredentialsMessage (er_Code x) \<or> isXaiBadCredentialsMessage (er_Message x))"

definition isCodexTransientRateLimitResultError :: "string \<Rightarrow> Error option \<Rightarrow> bool" where
  "isCodexTransientRateLimitResultError provider e =
     (case e of
        None \<Rightarrow> False
      | Some x \<Rightarrow>
          if \<not> EqualFold (TrimSpace provider) ''codex'' then False
          else ToLower (TrimSpace (er_Code x)) \<in> set [''transient-rate-limit'', ''rate_limit_error'', ''rate_limit_exceeded''])"

definition isDevinQuotaExhaustionMessage :: "string \<Rightarrow> bool" where
  "isDevinQuotaExhaustionMessage text =
     (let lower = ToLower text
      in if \<not> ContainsStr lower ''quota'' \<or> \<not> ContainsStr lower ''exhausted'' then False
         else ContainsStr lower ''weekly'' \<or> ContainsStr lower ''daily'')"

definition devinStateErrorText :: "layer \<Rightarrow> string" where
  "devinStateErrorText l =
     (case ly_LastError l of
        Some e \<Rightarrow> if TrimSpace (er_Message e) \<noteq> [] then er_Message e else ly_StatusMessage l
      | None \<Rightarrow> ly_StatusMessage l)"

text \<open>Classifications that look into the JSON body of an error are left open: whether the body says that an access
  program is not enabled (\<open>IsAccessProgramNotEnabledBody\<close>), that the request is invalid
  (\<open>isRequestInvalidError\<close>), that an item or model of the request is missing (\<open>IsItemNotPersisted\<close>,
  \<open>isRequestScopedModelNotFoundMessage\<close>), or that the requested model is unknown (\<open>isExplicitModelNotFoundError\<close>).\<close>

record body_tests =
  bt_accessNotEnabled :: "string \<Rightarrow> string \<Rightarrow> bool"
  bt_requestInvalid :: "Error \<Rightarrow> bool"
  bt_requestNotFound :: "string \<Rightarrow> bool"
  bt_modelNotFound :: "Error \<Rightarrow> bool"

definition isHTTP2ClosedConnectionMessage :: "string \<Rightarrow> bool" where
  "isHTTP2ClosedConnectionMessage lower \<longleftrightarrow>
     ContainsStr lower ''http2: client connection force closed via clientconn.close'' \<or>
     ContainsStr lower ''http2: client conn is closed''"

definition isConnectionLifecycleMessage :: "string \<Rightarrow> bool" where
  "isConnectionLifecycleMessage message =
     (let lower = ToLower (TrimSpace message)
      in if lower = [] then False
         else if lower \<in> set [''context canceled'', ''context deadline exceeded'', ''eof'', ''unexpected eof''] then True
         else ContainsStr lower ''websocket: close 1000'' \<or> ContainsStr lower ''websocket: close 1001'' \<or>
              ContainsStr lower ''websocket: close 1006'' \<or> ContainsStr lower ''unexpected eof'' \<or>
              isHTTP2ClosedConnectionMessage lower)"

definition isConnectionLifecycleResultError :: "Error option \<Rightarrow> bool" where
  "isConnectionLifecycleResultError e =
     (case e of
        None \<Rightarrow> False
      | Some x \<Rightarrow>
          if er_Code x = ''connection_lifecycle'' then True
          else if er_Code x = ''transient_transport'' then False
          else if er_HTTPStatus x \<noteq> 0 then False
          else isConnectionLifecycleMessage (er_Message x))"

definition transport_phrases :: "string list" where
  "transport_phrases =
     [''tls: tls handshake'', ''tls handshake timeout'', ''wsarecv'', ''wsasend'', ''a connection attempt failed'',
      ''connection refused'', ''connection reset'', ''i/o timeout'', ''no such host'', ''server misbehaving'',
      ''network is unreachable'', ''no route to host'', ''broken pipe'', ''connection aborted'',
      ''use of closed network connection'', ''unexpected eof'']"

definition isTransientTransportMessage :: "string \<Rightarrow> bool" where
  "isTransientTransportMessage message =
     (let lower = ToLower (TrimSpace message)
      in if lower = [] then False
         else list_ex (ContainsStr lower) transport_phrases \<or> isHTTP2ClosedConnectionMessage lower)"

definition isTransientTransportResultError :: "Error option \<Rightarrow> bool" where
  "isTransientTransportResultError e =
     (case e of
        None \<Rightarrow> False
      | Some x \<Rightarrow>
          if er_Code x = ''transient_transport'' then True
          else if er_HTTPStatus x \<noteq> 0 then False
          else if ContainsStr (ToLower (er_Message x)) ''tls handshake timeout'' then False
          else isTransientTransportMessage (er_Message x))"

definition isAccessProgramNotEnabledResultError :: "body_tests \<Rightarrow> Error option \<Rightarrow> bool" where
  "isAccessProgramNotEnabledResultError bt e =
     (case e of
        None \<Rightarrow> False
      | Some x \<Rightarrow> if er_HTTPStatus x \<noteq> 0 \<and> er_HTTPStatus x \<noteq> 403 then False
                  else bt_accessNotEnabled bt (er_Code x) (er_Message x))"

definition isRequestScopedNotFoundResultError :: "body_tests \<Rightarrow> Error option \<Rightarrow> bool" where
  "isRequestScopedNotFoundResultError bt e =
     (case e of None \<Rightarrow> False | Some x \<Rightarrow> if er_HTTPStatus x \<noteq> 404 then False else bt_requestNotFound bt (er_Message x))"

definition isRequestScopedResultError :: "body_tests \<Rightarrow> Error option \<Rightarrow> bool" where
  "isRequestScopedResultError bt e =
     (case e of
        None \<Rightarrow> False
      | Some x \<Rightarrow> if er_Code x = ''request_scoped'' \<or> isRequestScopedNotFoundResultError bt e then True else bt_requestInvalid bt x)"

definition shouldSkipCredentialCooldown :: "body_tests \<Rightarrow> Error option \<Rightarrow> bool" where
  "shouldSkipCredentialCooldown bt e =
     (if has_code ''force_cooldown'' e then False
      else if isAccessProgramNotEnabledResultError bt e then True
      else if isRequestScopedResultError bt e \<or> has_code ''stream_truncated'' e then True
      else if (case e of None \<Rightarrow> False | Some x \<Rightarrow> er_HTTPStatus x = 502 \<and> isConnectionLifecycleMessage (er_Message x)) then False
      else isConnectionLifecycleResultError e \<or> isTransientTransportResultError e)"

definition isModelSupportErrorMessage :: "string \<Rightarrow> bool" where
  "isModelSupportErrorMessage message =
     (let lower = ToLower (TrimSpace message)
      in if lower = [] then False
         else list_ex (ContainsStr lower)
           [''model_not_supported'', ''requested model is not supported'', ''requested model is unsupported'',
            ''requested model is unavailable'', ''model is not supported'', ''model not supported'', ''unsupported model'',
            ''model unavailable'', ''not available for your plan'', ''not available for your account''])"

definition isModelSupportResultError :: "body_tests \<Rightarrow> Error option \<Rightarrow> bool" where
  "isModelSupportResultError bt e =
     (case e of
        None \<Rightarrow> False
      | Some x \<Rightarrow>
          if er_Code x = ''request_scoped'' \<or> isRequestScopedNotFoundResultError bt e then False
          else if bt_modelNotFound bt x then True
          else if er_HTTPStatus x \<notin> set [400, 422, 404] then False
          else isModelSupportErrorMessage (er_Message x))"

text \<open>\<open>Error.Error\<close>, and whether a result condemns the access token.\<close>

definition error_text :: "Error option \<Rightarrow> string" where
  "error_text e = (case e of None \<Rightarrow> [] | Some x \<Rightarrow> if er_Code x = [] then er_Message x else er_Code x @ '': '' @ er_Message x)"

definition isUnauthorizedError :: "Error option \<Rightarrow> bool" where
  "isUnauthorizedError e =
     (if statusCodeFromResult e = 401 then True
      else let raw = ToLower (error_text e) in ContainsStr raw ''status 401'' \<or> ContainsStr raw ''401 unauthorized'')"

definition rejects_token :: "body_tests \<Rightarrow> exec_result \<Rightarrow> bool" where
  "rejects_token bt r \<longleftrightarrow>
     \<not> re_Success r \<and> \<not> has_code ''force_cooldown'' (re_Error r) \<and> \<not> shouldSkipCredentialCooldown bt (re_Error r) \<and>
     (statusCodeFromResult (re_Error r) = 401 \<or> isUnauthorizedError (re_Error r))"

section \<open>States of models\<close>

definition modelStateKey :: "string \<Rightarrow> string \<Rightarrow> string" where
  "modelStateKey provider model =
     (let model = TrimSpace model
      in if EqualFold (TrimSpace provider) ''codex'' then model else canonicalModelKey model)"

text \<open>\<open>auth.ModelStates[model]\<close>, nil for a missing entry.\<close>

definition state_at :: "string \<Rightarrow> cauth \<Rightarrow> cstate option" where
  "state_at k a = (case map_of (ca_ModelStates a) k of None \<Rightarrow> None | Some s \<Rightarrow> s)"

definition put_state :: "string \<Rightarrow> cstate \<Rightarrow> cauth \<Rightarrow> cauth" where
  "put_state k s a = a\<lparr>ca_ModelStates := AList.update k (Some s) (ca_ModelStates a)\<rparr>"

definition existingModelState :: "cauth \<Rightarrow> string \<Rightarrow> cstate option" where
  "existingModelState a model =
     (let model = canonicalModelKey model in if model = [] then None else state_at model a)"

definition later :: "gtime \<Rightarrow> gtime \<Rightarrow> gtime" where
  "later a b = (if b > a then b else a)"

definition or_else :: "string \<Rightarrow> string \<Rightarrow> string" where
  "or_else a b = (if a = [] then b else a)"

definition merge_layers :: "layer \<Rightarrow> layer \<Rightarrow> layer" where
  "merge_layers target source =
     (let newer = ly_UpdatedAt source > ly_UpdatedAt target;
          preferred = (if newer then source else target);
          fallback = (if newer then target else source);
          unavailable = (ly_Unavailable target \<or> ly_Unavailable source);
          exceeded = (cq_Exceeded (ly_Quota target) \<or> cq_Exceeded (ly_Quota source))
      in \<lparr>ly_Status = (if ly_Status target = StatusDisabled \<or> ly_Status source = StatusDisabled then StatusDisabled
                       else if unavailable \<or> exceeded then StatusError else ly_Status preferred),
          ly_StatusMessage = or_else (ly_StatusMessage preferred) (ly_StatusMessage fallback),
          ly_Unavailable = unavailable,
          ly_NextRetryAfter = later (ly_NextRetryAfter target) (ly_NextRetryAfter source),
          ly_LastError = (case ly_LastError preferred of Some e \<Rightarrow> Some e | None \<Rightarrow> ly_LastError fallback),
          ly_Quota = \<lparr>cq_Exceeded = exceeded,
             cq_Reason = or_else (cq_Reason (ly_Quota preferred)) (cq_Reason (ly_Quota fallback)),
             cq_NextRecoverAt = later (cq_NextRecoverAt (ly_Quota target)) (cq_NextRecoverAt (ly_Quota source)),
             cq_BackoffLevel = later (cq_BackoffLevel (ly_Quota target)) (cq_BackoffLevel (ly_Quota source))\<rparr>,
          ly_UpdatedAt = later (ly_UpdatedAt target) (ly_UpdatedAt source),
          ly_modelFallbackReason = or_else (ly_modelFallbackReason preferred) (ly_modelFallbackReason fallback),
          ly_cooldownRecordedSeq = max (ly_cooldownRecordedSeq target) (ly_cooldownRecordedSeq source),
          ly_credentialQuotaPropagated = (ly_credentialQuotaPropagated target \<or> ly_credentialQuotaPropagated source)\<rparr>)"

definition mergeModelState :: "cstate option \<Rightarrow> cstate option \<Rightarrow> cstate option" where
  "mergeModelState target source =
     (case (target, source) of
        (None, _) \<Rightarrow> source
      | (_, None) \<Rightarrow> target
      | (Some t, Some s) \<Rightarrow>
          (let merged = merge_layers (st_layer t) (st_layer s);
               newer = ly_UpdatedAt (st_layer s) > ly_UpdatedAt (st_layer t);
               preferred = (if newer then s else t);
               fallback = (if newer then t else s);
               wrapped = (cq_Reason (ly_Quota merged) = credentialQuota \<or> cq_Reason (ly_Quota merged) = ''quota'' \<or>
                 ly_credentialQuotaPropagated (st_layer t) \<or> ly_credentialQuotaPropagated (st_layer s) \<or>
                 st_shadow t \<noteq> None \<or> st_shadow s \<noteq> None)
           in Some \<lparr>st_layer = merged,
                st_shadow = (if wrapped then (case st_shadow preferred of Some x \<Rightarrow> Some x | None \<Rightarrow> st_shadow fallback) else None)\<rparr>))"

definition normalize_step :: "string \<Rightarrow> string \<times> cstate option \<Rightarrow> (string \<times> cstate option) list \<Rightarrow> (string \<times> cstate option) list" where
  "normalize_step provider entry acc =
     (case entry of (model, state) \<Rightarrow>
        (let modelKey = modelStateKey provider model;
             modelKey = (if modelKey = [] then TrimSpace model else modelKey)
         in case map_of acc modelKey of
              Some existing \<Rightarrow> AList.update modelKey (mergeModelState existing state) acc
            | None \<Rightarrow> AList.update modelKey state acc))"

definition normalizeModelStates :: "cauth \<Rightarrow> cauth" where
  "normalizeModelStates a =
     a\<lparr>ca_ModelStates := fold (normalize_step (ca_Provider a)) (ca_ModelStates a) []\<rparr>"

definition ensureModelState :: "cauth \<Rightarrow> string \<Rightarrow> (string \<times> cstate \<times> cauth) option" where
  "ensureModelState a model =
     (let k = modelStateKey (ca_Provider a) model
      in if k = [] then None
         else let a = normalizeModelStates a
              in case state_at k a of
                   Some s \<Rightarrow> Some (k, s, a)
                 | None \<Rightarrow> (let s = \<lparr>st_layer = zero_layer\<lparr>ly_Status := StatusActive\<rparr>, st_shadow = None\<rparr> in Some (k, s, put_state k s a)))"

definition resetModelState :: "gtime \<Rightarrow> cstate" where
  "resetModelState now = \<lparr>st_layer = zero_layer\<lparr>ly_Status := StatusActive, ly_UpdatedAt := now\<rparr>, st_shadow = None\<rparr>"

definition isModelStateActiveCooldown :: "layer \<Rightarrow> gtime \<Rightarrow> bool" where
  "isModelStateActiveCooldown l now \<longleftrightarrow>
     ly_Status l = StatusDisabled \<or>
     (ly_NextRetryAfter l \<noteq> 0 \<and> ly_NextRetryAfter l > now) \<or>
     (cq_NextRecoverAt (ly_Quota l) \<noteq> 0 \<and> cq_NextRecoverAt (ly_Quota l) > now) \<or>
     (cq_Exceeded (ly_Quota l) \<and> cq_NextRecoverAt (ly_Quota l) = 0)"

definition modelStateIsClean :: "layer \<Rightarrow> bool" where
  "modelStateIsClean l \<longleftrightarrow>
     ly_Status l = StatusActive \<and> \<not> ly_Unavailable l \<and> ly_StatusMessage l = [] \<and> ly_NextRetryAfter l = 0 \<and>
     ly_LastError l = None \<and> \<not> cq_Exceeded (ly_Quota l) \<and> cq_Reason (ly_Quota l) = [] \<and>
     cq_NextRecoverAt (ly_Quota l) = 0 \<and> cq_BackoffLevel (ly_Quota l) = 0"

section \<open>The credential as a whole\<close>

definition unauthorized_failure :: "cauth \<Rightarrow> bool" where
  "unauthorized_failure a =
     (case ca_LastError a of
        None \<Rightarrow> False
      | Some e \<Rightarrow>
          ca_Unavailable a \<and> ca_Status a = StatusError \<and> ca_NextRefreshAfter a = 0 \<and> ca_NextRetryAfter a = 0 \<and>
          (er_HTTPStatus e = 401 \<or> EqualFold (er_Code e) ''unauthorized''))"

definition clearAggregatedAvailability :: "cauth \<Rightarrow> cauth" where
  "clearAggregatedAvailability a = a\<lparr>ca_Unavailable := False, ca_NextRetryAfter := 0, ca_Quota := zero_quota\<rparr>"

text \<open>The locals of the loop in \<open>updateAggregatedAvailability\<close>.\<close>

record agg =
  ag_allUnavailable :: bool
  ag_earliestRetry :: gtime
  ag_quotaExceeded :: bool
  ag_quotaRecover :: gtime
  ag_maxBackoffLevel :: int
  ag_hasState :: bool

definition aggregate_state :: "gtime \<Rightarrow> cstate \<Rightarrow> agg \<Rightarrow> cstate \<times> agg" where
  "aggregate_state now s g =
     (let l = st_layer s;
          waiting = (ly_Status l \<noteq> StatusDisabled \<and> ly_Unavailable l \<and> ly_NextRetryAfter l \<noteq> 0);
          live = (waiting \<and> ly_NextRetryAfter l > now);
          expired = (waiting \<and> \<not> ly_NextRetryAfter l > now);
          unavailable = (ly_Status l = StatusDisabled \<or> live);
          q = ly_Quota l
      in (if expired then s\<lparr>st_layer := l\<lparr>ly_Unavailable := False, ly_NextRetryAfter := 0\<rparr>\<rparr> else s,
          \<lparr>ag_allUnavailable = (ag_allUnavailable g \<and> unavailable),
           ag_earliestRetry = (if live \<and> (ag_earliestRetry g = 0 \<or> ly_NextRetryAfter l < ag_earliestRetry g)
                               then ly_NextRetryAfter l else ag_earliestRetry g),
           ag_quotaExceeded = (ag_quotaExceeded g \<or> cq_Exceeded q),
           ag_quotaRecover = (if cq_Exceeded q \<and> (ag_quotaRecover g = 0 \<or>
                                 (cq_NextRecoverAt q \<noteq> 0 \<and> cq_NextRecoverAt q < ag_quotaRecover g))
                              then cq_NextRecoverAt q else ag_quotaRecover g),
           ag_maxBackoffLevel = (if cq_Exceeded q \<and> cq_BackoffLevel q > ag_maxBackoffLevel g
                                 then cq_BackoffLevel q else ag_maxBackoffLevel g),
           ag_hasState = True\<rparr>))"

fun aggregate_loop :: "gtime \<Rightarrow> (string \<times> cstate option) list \<Rightarrow> agg \<Rightarrow> (string \<times> cstate option) list \<times> agg" where
  "aggregate_loop now [] g = ([], g)"
| "aggregate_loop now ((k, None) # rest) g = (let (ss, g) = aggregate_loop now rest g in ((k, None) # ss, g))"
| "aggregate_loop now ((k, Some s) # rest) g =
     (let (s, g) = aggregate_state now s g; (ss, g) = aggregate_loop now rest g in ((k, Some s) # ss, g))"

definition agg_start :: agg where
  "agg_start = \<lparr>ag_allUnavailable = True, ag_earliestRetry = 0, ag_quotaExceeded = False, ag_quotaRecover = 0,
     ag_maxBackoffLevel = 0, ag_hasState = False\<rparr>"

definition apply_aggregate :: "gtime \<Rightarrow> agg \<Rightarrow> cauth \<Rightarrow> cauth" where
  "apply_aggregate now g a =
     (let q = ca_Quota a
      in a\<lparr>ca_Unavailable := ag_allUnavailable g,
           ca_NextRetryAfter := (if ag_allUnavailable g then ag_earliestRetry g else 0),
           ca_Quota := (if ag_quotaExceeded g
                        then \<lparr>cq_Exceeded = True, cq_Reason = ''quota'',
                              cq_NextRecoverAt = (if cq_NextRecoverAt q > ag_quotaRecover g then cq_NextRecoverAt q else ag_quotaRecover g),
                              cq_BackoffLevel = ag_maxBackoffLevel g\<rparr>
                        else if cq_Exceeded q \<and> cq_NextRecoverAt q > now then q
                        else zero_quota)\<rparr>)"

definition updateAggregatedAvailability :: "gtime \<Rightarrow> cauth \<Rightarrow> cauth" where
  "updateAggregatedAvailability now a =
     (if unauthorized_failure a then a\<lparr>ca_Unavailable := True\<rparr>
      else if cq_Exceeded (ca_Quota a) \<and> cq_Reason (ca_Quota a) = credentialQuota \<and> cq_NextRecoverAt (ca_Quota a) > now
      then a\<lparr>ca_Unavailable := True\<rparr>
      else if ca_ModelStates a = [] then clearAggregatedAvailability a
      else let (states, g) = aggregate_loop now (ca_ModelStates a) agg_start;
               a = a\<lparr>ca_ModelStates := states\<rparr>
           in if \<not> ag_hasState g then clearAggregatedAvailability a else apply_aggregate now g a)"

definition hasModelError :: "gtime \<Rightarrow> cauth \<Rightarrow> bool" where
  "hasModelError now a \<longleftrightarrow>
     list_ex (\<lambda>(k, so). case so of
        None \<Rightarrow> False
      | Some s \<Rightarrow> (let l = st_layer s
                   in ly_LastError l \<noteq> None \<or>
                      (ly_Status l = StatusError \<and> ly_Unavailable l \<and>
                       (ly_NextRetryAfter l = 0 \<or> ly_NextRetryAfter l > now)))) (ca_ModelStates a)"

definition clearAuthStateOnSuccess :: "gtime \<Rightarrow> cauth \<Rightarrow> cauth" where
  "clearAuthStateOnSuccess now a =
     (if unauthorized_failure a then a\<lparr>ca_Unavailable := True\<rparr>
      else a\<lparr>ca_Unavailable := False, ca_Status := StatusActive, ca_StatusMessage := [], ca_Quota := zero_quota,
             ca_LastError := None, ca_NextRetryAfter := 0, ca_cooldownRecordedSeq := 0, ca_UpdatedAt := now\<rparr>)"

definition isAuthActiveCooldown :: "gtime \<Rightarrow> cauth \<Rightarrow> bool" where
  "isAuthActiveCooldown now a =
     (if ca_Disabled a \<or> ca_Status a = StatusDisabled then False
      else (ca_NextRetryAfter a \<noteq> 0 \<and> ca_NextRetryAfter a > now) \<or>
           (cq_NextRecoverAt (ca_Quota a) \<noteq> 0 \<and> cq_NextRecoverAt (ca_Quota a) > now) \<or>
           (cq_Exceeded (ca_Quota a) \<and> cq_NextRecoverAt (ca_Quota a) = 0))"

section \<open>A failure without a model\<close>

definition zero_if :: "bool \<Rightarrow> gtime \<Rightarrow> gtime" where
  "zero_if disableCooling t = (if disableCooling then 0 else t)"

definition positive_hint :: "int option \<Rightarrow> gtime \<Rightarrow> int \<Rightarrow> gtime" where
  "positive_hint retryAfter now d = (case retryAfter of Some r \<Rightarrow> if r > 0 then now + r else now + d | None \<Rightarrow> now + d)"

definition transient_statuses :: "int list" where
  "transient_statuses = [408, 500, 502, 503, 504, 520, 521, 522, 523, 524, 525, 526]"

text \<open>A transient capacity rejection: the deadline of the hint, but never before a live quota deadline.\<close>

definition capacity_deadline :: "int \<Rightarrow> gtime \<Rightarrow> int option \<Rightarrow> bool \<Rightarrow> cquota \<Rightarrow> gtime" where
  "capacity_deadline seconds now retryAfter disableCooling q =
     (let n = transientRateLimitRetryAfter seconds now retryAfter disableCooling;
          n = (if n \<noteq> 0 \<and> cq_Exceeded q \<and> cq_NextRecoverAt q > n then cq_NextRecoverAt q else n)
      in if n = 0 \<and> cq_Exceeded q \<and> cq_NextRecoverAt q > now then cq_NextRecoverAt q else n)"

definition floor_hint :: "gtime \<Rightarrow> int \<Rightarrow> gtime" where
  "floor_hint now r = now + (if r < minQuotaCooldownFloor then minQuotaCooldownFloor else r)"

definition auth_quota_failure :: "int option \<Rightarrow> gtime \<Rightarrow> bool \<Rightarrow> cauth \<Rightarrow> cauth" where
  "auth_quota_failure retryAfter now disableCooling a =
     (let q = (ca_Quota a)\<lparr>cq_Exceeded := True, cq_Reason := ''quota''\<rparr>;
          (n, level) = (if disableCooling then (0, cq_BackoffLevel q)
                        else case retryAfter of
                               Some r \<Rightarrow> (floor_hint now r, cq_BackoffLevel q)
                             | None \<Rightarrow> quotaCooldownAfterFailure q now);
          n = (if \<not> disableCooling \<and> cq_NextRecoverAt q > n then cq_NextRecoverAt q else n)
      in a\<lparr>ca_StatusMessage := ''quota exhausted'', ca_Quota := q\<lparr>cq_NextRecoverAt := n, cq_BackoffLevel := level\<rparr>,
           ca_NextRetryAfter := n\<rparr>)"

definition auth_status_failure :: "int \<Rightarrow> Error option \<Rightarrow> int option \<Rightarrow> gtime \<Rightarrow> bool \<Rightarrow> cauth \<Rightarrow> cauth" where
  "auth_status_failure seconds e retryAfter now disableCooling a =
     (let status = statusCodeFromResult e
      in if status = 401
         then a\<lparr>ca_StatusMessage := ''unauthorized'', ca_NextRetryAfter := zero_if disableCooling (now + half_hour)\<rparr>
         else if status = 402 \<or> status = 403
         then a\<lparr>ca_StatusMessage := ''payment_required'', ca_NextRetryAfter := zero_if disableCooling (now + half_hour)\<rparr>
         else if status = 404
         then a\<lparr>ca_StatusMessage := ''not_found'', ca_NextRetryAfter := zero_if disableCooling (positive_hint retryAfter now half_day)\<rparr>
         else if status = 429 then auth_quota_failure retryAfter now disableCooling a
         else if status \<in> set transient_statuses
         then (let n = recoverableFailureRetryAfterWithHint seconds now retryAfter disableCooling
               in a\<lparr>ca_StatusMessage := ''transient upstream error'', ca_NextRetryAfter := n, ca_Unavailable := (n \<noteq> 0)\<rparr>)
         else (let n = recoverableFailureRetryAfter seconds now disableCooling
               in a\<lparr>ca_StatusMessage := or_else (ca_StatusMessage a) ''request failed'', ca_NextRetryAfter := n, ca_Unavailable := (n \<noteq> 0)\<rparr>))"

definition set_code :: "string \<Rightarrow> Error option \<Rightarrow> Error option" where
  "set_code c e = map_option (\<lambda>x. x\<lparr>er_Code := c\<rparr>) e"

definition auth_failure_body :: "int \<Rightarrow> Error option \<Rightarrow> int option \<Rightarrow> gtime \<Rightarrow> bool \<Rightarrow> cauth \<Rightarrow> cauth" where
  "auth_failure_body seconds e retryAfter now disableCooling a =
     (if isTransientRateLimitResultError e \<and> statusCodeFromResult e = 429
      then (let n = capacity_deadline seconds now retryAfter disableCooling (ca_Quota a)
            in a\<lparr>ca_NextRetryAfter := n, ca_Unavailable := (n \<noteq> 0)\<rparr>)
      else if isCloudflareChallengeResultError e
      then (let (n, level) = nextCloudflareCooldown (cq_BackoffLevel (ca_Quota a)) disableCooling now
            in a\<lparr>ca_StatusMessage := ''cloudflare challenge'',
                 ca_Quota := \<lparr>cq_Exceeded = True, cq_Reason = ''cloudflare challenge'', cq_NextRecoverAt = n, cq_BackoffLevel = level\<rparr>,
                 ca_NextRetryAfter := n\<rparr>)
      else if isInvalidGrantResultError e
      then a\<lparr>ca_StatusMessage := ''invalid_grant'', ca_NextRetryAfter := zero_if disableCooling (now + half_hour)\<rparr>
      else if isXaiBadCredentialsResultError (ca_Provider a) e
      then a\<lparr>ca_StatusMessage := ''unauthorized'', ca_LastError := set_code ''unauthorized'' (ca_LastError a),
             ca_NextRetryAfter := zero_if disableCooling (now + half_hour)\<rparr>
      else auth_status_failure seconds e retryAfter now disableCooling a)"

text \<open>The deferred function of \<open>applyAuthFailureState\<close>; \<open>prev\<close> is the deadline before the failure.\<close>

definition auth_failure_end :: "Error option \<Rightarrow> gtime \<Rightarrow> bool \<Rightarrow> gtime \<Rightarrow> cauth \<Rightarrow> cauth" where
  "auth_failure_end e now disableCooling prev a =
     (let a = (if ca_NextRetryAfter a \<noteq> 0 \<and> prev > ca_NextRetryAfter a \<and> prev > now then a\<lparr>ca_NextRetryAfter := prev\<rparr> else a);
          a = (if has_code ''force_cooldown'' e \<and> ca_NextRetryAfter a = 0
               then a\<lparr>ca_NextRetryAfter := now + transientErrorCooldown, ca_Unavailable := True\<rparr> else a)
      in if disableCooling \<and> ca_NextRetryAfter a = 0 \<and> cq_NextRecoverAt (ca_Quota a) = 0
         then a\<lparr>ca_Unavailable := False, ca_Quota := (ca_Quota a)\<lparr>cq_Exceeded := False\<rparr>\<rparr> else a)"

definition applyAuthFailureState ::
    "(Error option \<Rightarrow> bool) \<Rightarrow> int \<Rightarrow> Error option \<Rightarrow> int option \<Rightarrow> gtime \<Rightarrow> bool \<Rightarrow> cauth \<Rightarrow> cauth" where
  "applyAuthFailureState skip seconds e retryAfter now disableCooling a =
     (if skip e then a
      else let prev = ca_NextRetryAfter a;
               a = a\<lparr>ca_Unavailable := True, ca_Status := StatusError, ca_UpdatedAt := now\<rparr>;
               a = (case e of
                      None \<Rightarrow> a
                    | Some x \<Rightarrow> a\<lparr>ca_LastError := Some x,
                                  ca_StatusMessage := (if er_Message x \<noteq> [] then er_Message x else ca_StatusMessage a)\<rparr>)
           in auth_failure_end e now disableCooling prev (auth_failure_body seconds e retryAfter now disableCooling a))"

definition applyTransientRateLimitAuthFailureState :: "int \<Rightarrow> Error option \<Rightarrow> gtime \<Rightarrow> bool \<Rightarrow> cauth \<Rightarrow> cauth" where
  "applyTransientRateLimitAuthFailureState seconds e now disableCooling a =
     (let preserve = activeQuotaCooldown (ca_Quota a) (ca_NextRetryAfter a) now;
          a = a\<lparr>ca_Unavailable := True, ca_Status := StatusError, ca_UpdatedAt := now\<rparr>
      in if preserve then a
         else a\<lparr>ca_Quota := zero_quota, ca_LastError := e,
                ca_StatusMessage := (case e of None \<Rightarrow> ca_StatusMessage a | Some x \<Rightarrow> er_Message x),
                ca_NextRetryAfter := zero_if disableCooling (nextTransientErrorRetryAfter seconds now)\<rparr>)"

section \<open>A failure of a model\<close>

text \<open>The state a failure starts from, once an expired wrap has been undone.\<close>

definition quota_wrapped :: "cauth \<Rightarrow> gtime \<Rightarrow> bool" where
  "quota_wrapped a now \<longleftrightarrow>
     cq_Exceeded (ca_Quota a) \<and> cq_Reason (ca_Quota a) = credentialQuota \<and> cq_NextRecoverAt (ca_Quota a) > now"

definition unwrap_expired :: "cauth \<Rightarrow> gtime \<Rightarrow> cstate \<Rightarrow> cstate" where
  "unwrap_expired a now s =
     (if (ly_credentialQuotaPropagated (st_layer s) \<or> cq_Reason (ly_Quota (st_layer s)) = credentialQuota) \<and> \<not> quota_wrapped a now
      then (case st_shadow s of
              Some shadow \<Rightarrow> if isModelStateActiveCooldown shadow now then \<lparr>st_layer = shadow, st_shadow = None\<rparr>
                             else resetModelState now
            | None \<Rightarrow> resetModelState now)
      else s)"

definition own_layer_pending :: "exec_result \<Rightarrow> cauth \<Rightarrow> gtime \<Rightarrow> bool" where
  "own_layer_pending r a now \<longleftrightarrow>
     \<not> re_CredentialScope r \<and> cq_Reason (ca_Quota a) = credentialQuota \<and> cq_NextRecoverAt (ca_Quota a) > now"

definition own_layer :: "cstate \<Rightarrow> cstate" where
  "own_layer s = (case st_shadow s of Some shadow \<Rightarrow> \<lparr>st_layer = shadow, st_shadow = None\<rparr> | None \<Rightarrow> \<lparr>st_layer = zero_layer, st_shadow = None\<rparr>)"

text \<open>The fields every failure writes.\<close>

definition fail_start :: "exec_result \<Rightarrow> gtime \<Rightarrow> bool \<Rightarrow> layer \<Rightarrow> layer" where
  "fail_start r now preserve l =
     (let l = l\<lparr>ly_modelFallbackReason := ToLower (TrimSpace (re_ModelFallbackReason r)), ly_Unavailable := True,
                ly_Status := StatusError, ly_UpdatedAt := now\<rparr>
      in case re_Error r of
           Some e \<Rightarrow> if preserve then l else l\<lparr>ly_LastError := Some e, ly_StatusMessage := er_Message e\<rparr>
         | None \<Rightarrow> l)"

definition note_auth_error :: "exec_result \<Rightarrow> bool \<Rightarrow> cauth \<Rightarrow> cauth" where
  "note_auth_error r noted a =
     (case re_Error r of
        Some e \<Rightarrow> if noted then a\<lparr>ca_LastError := Some e, ca_StatusMessage := er_Message e\<rparr> else a
      | None \<Rightarrow> a)"

text \<open>The quota case: the deadline of the model, the deadline of the credential, and the backoff level.\<close>

definition quota_deadlines :: "exec_result \<Rightarrow> gtime \<Rightarrow> bool \<Rightarrow> cauth \<Rightarrow> cquota \<Rightarrow> gtime \<times> gtime \<times> int" where
  "quota_deadlines r now disableCooling a q =
     (let credQuota = (cq_Exceeded (ca_Quota a) \<and> cq_Reason (ca_Quota a) = credentialQuota);
          level = (if re_CredentialScope r then (if credQuota then cq_BackoffLevel (ca_Quota a) else 0) else cq_BackoffLevel q);
          source = (if re_CredentialScope r
                    then (if credQuota then ca_Quota a else q\<lparr>cq_NextRecoverAt := 0, cq_BackoffLevel := 0\<rparr>) else q)
      in if disableCooling then (0, 0, level)
         else let (n, level) = (case re_RetryAfter r of
                                  Some d \<Rightarrow> (floor_hint now d, level)
                                | None \<Rightarrow> quotaCooldownAfterFailure source now)
              in (if cq_Exceeded q \<and> cq_NextRecoverAt q > n then cq_NextRecoverAt q else n, n, level))"

definition mark_quota :: "string \<Rightarrow> gtime \<Rightarrow> int \<Rightarrow> layer \<Rightarrow> layer" where
  "mark_quota reason n level l =
     l\<lparr>ly_Quota := \<lparr>cq_Exceeded = True, cq_Reason = reason, cq_NextRecoverAt = n, cq_BackoffLevel = level\<rparr>\<rparr>"

definition status_fail_layer :: "int \<Rightarrow> exec_result \<Rightarrow> gtime \<Rightarrow> bool \<Rightarrow> cauth \<Rightarrow> layer \<Rightarrow> layer" where
  "status_fail_layer seconds r now disableCooling a l =
     (let status = statusCodeFromResult (re_Error r)
      in if status \<in> set [401, 402, 403] then l\<lparr>ly_NextRetryAfter := zero_if disableCooling (now + half_hour)\<rparr>
         else if status = 404
         then l\<lparr>ly_NextRetryAfter := zero_if disableCooling (positive_hint (re_RetryAfter r) now half_day)\<rparr>
         else if status = 429
         then (let (n, credentialNext, level) = quota_deadlines r now disableCooling a (ly_Quota l)
               in mark_quota ''quota'' n level (l\<lparr>ly_NextRetryAfter := n\<rparr>))
         else if status \<in> set transient_statuses
         then (let n = recoverableFailureRetryAfterWithHint seconds now (re_RetryAfter r) disableCooling
               in l\<lparr>ly_NextRetryAfter := n, ly_Unavailable := (n \<noteq> 0)\<rparr>)
         else (let n = recoverableFailureRetryAfter seconds now disableCooling
               in l\<lparr>ly_NextRetryAfter := n, ly_Unavailable := (n \<noteq> 0)\<rparr>))"

definition fail_body :: "(Error option \<Rightarrow> bool) \<Rightarrow> int \<Rightarrow> exec_result \<Rightarrow> gtime \<Rightarrow> bool \<Rightarrow> cauth \<Rightarrow> bool \<Rightarrow> layer \<Rightarrow> layer" where
  "fail_body modelSupport seconds r now disableCooling a preserve l =
     (let e = re_Error r
      in if modelSupport e
         then l\<lparr>ly_NextRetryAfter := zero_if disableCooling (positive_hint (re_RetryAfter r) now half_day)\<rparr>
         else if isCloudflareChallengeResultError e
         then (let (n, level) = nextCloudflareCooldown (cq_BackoffLevel (ly_Quota l)) disableCooling now
               in mark_quota ''cloudflare challenge'' n level (l\<lparr>ly_NextRetryAfter := n, ly_StatusMessage := ''cloudflare challenge''\<rparr>))
         else if isInvalidGrantResultError e
         then l\<lparr>ly_NextRetryAfter := zero_if disableCooling (now + half_hour)\<rparr>
         else if isXaiBadCredentialsResultError (ca_Provider a) e
         then l\<lparr>ly_LastError := set_code ''unauthorized'' (ly_LastError l), ly_NextRetryAfter := zero_if disableCooling (now + half_hour)\<rparr>
         else if isTransientRateLimitResultError e \<and> statusCodeFromResult e = 429
         then (let n = capacity_deadline seconds now (re_RetryAfter r) disableCooling (ly_Quota l)
               in l\<lparr>ly_NextRetryAfter := n, ly_Unavailable := (n \<noteq> 0)\<rparr>)
         else if isCodexTransientRateLimitResultError (ca_Provider a) e
         then (if preserve then l
               else l\<lparr>ly_Quota := zero_quota, ly_NextRetryAfter := zero_if disableCooling (nextTransientErrorRetryAfter seconds now)\<rparr>)
         else status_fail_layer seconds r now disableCooling a l)"

text \<open>What follows the switch; \<open>prev\<close> is the deadline of the layer before the failure.\<close>

definition fail_end :: "exec_result \<Rightarrow> gtime \<Rightarrow> bool \<Rightarrow> gtime \<Rightarrow> nat \<Rightarrow> layer \<Rightarrow> layer" where
  "fail_end r now disableCooling prev seq l =
     (let l = (if disableCooling \<and> ly_NextRetryAfter l = 0 \<and> cq_NextRecoverAt (ly_Quota l) = 0
               then l\<lparr>ly_Unavailable := False, ly_Quota := (ly_Quota l)\<lparr>cq_Exceeded := False\<rparr>\<rparr> else l);
          l = (if has_code ''force_cooldown'' (re_Error r) \<and> ly_NextRetryAfter l = 0
               then l\<lparr>ly_NextRetryAfter := now + transientErrorCooldown, ly_Unavailable := True\<rparr> else l);
          l = (if ly_NextRetryAfter l \<noteq> 0 \<and> prev > ly_NextRetryAfter l \<and> prev > now then l\<lparr>ly_NextRetryAfter := prev\<rparr> else l)
      in l\<lparr>ly_cooldownRecordedSeq := seq\<rparr>)"

text \<open>The shadow of the reporting model in the quota case. \<open>saved\<close> is the outer layer and \<open>prev\<close> the deadline
  before the failure.\<close>

definition quota_shadow :: "exec_result \<Rightarrow> gtime \<Rightarrow> layer \<Rightarrow> gtime \<Rightarrow> layer \<Rightarrow> layer option \<Rightarrow> layer option" where
  "quota_shadow r now saved prev l shadow =
     (if \<not> re_CredentialScope r then None
      else if \<not> ly_credentialQuotaPropagated l \<and> cq_Reason (ly_Quota saved) \<noteq> credentialQuota
      then (if prev > now \<and> \<not> isDevinQuotaExhaustionMessage (devinStateErrorText saved)
            then Some (saved\<lparr>ly_NextRetryAfter := prev, ly_Unavailable := True, ly_Status := StatusError\<rparr>)
            else None)
      else shadow)"

text \<open>The quota of the credential laid over another of its models.\<close>

definition propagate_quota :: "cauth \<Rightarrow> gtime \<Rightarrow> gtime \<Rightarrow> int \<Rightarrow> cstate \<Rightarrow> cstate" where
  "propagate_quota a now credentialNext level s =
     (let s = unwrap_expired a now s;
          l = st_layer s;
          already = (ly_credentialQuotaPropagated l \<or> cq_Reason (ly_Quota l) = credentialQuota);
          shadow = (if already then st_shadow s
                    else if isModelStateActiveCooldown l now \<and> \<not> isDevinQuotaExhaustionMessage (devinStateErrorText l)
                    then Some l else None);
          quotaNext = (if cq_Exceeded (ly_Quota l) \<and> cq_NextRecoverAt (ly_Quota l) > credentialNext
                       then cq_NextRecoverAt (ly_Quota l) else credentialNext);
          retryAfter = (if ly_NextRetryAfter l \<noteq> 0 \<and> ly_NextRetryAfter l > quotaNext then ly_NextRetryAfter l else quotaNext)
      in \<lparr>st_layer = mark_quota credentialQuota quotaNext level
            (l\<lparr>ly_credentialQuotaPropagated := True, ly_Unavailable := True, ly_Status := StatusError, ly_NextRetryAfter := retryAfter\<rparr>),
          st_shadow = shadow\<rparr>)"

definition map_others :: "string \<Rightarrow> (cstate \<Rightarrow> cstate) \<Rightarrow> cauth \<Rightarrow> cauth" where
  "map_others k f a =
     a\<lparr>ca_ModelStates := map (\<lambda>(k', so). (k', if k' = k then so else map_option f so)) (ca_ModelStates a)\<rparr>"

definition credential_exhausted :: "gtime \<Rightarrow> int \<Rightarrow> cauth \<Rightarrow> cauth" where
  "credential_exhausted credentialNext level a =
     (let q = ca_Quota a;
          n = (if cq_Exceeded q \<and> cq_Reason q = credentialQuota \<and> cq_NextRecoverAt q > credentialNext
               then cq_NextRecoverAt q else credentialNext)
      in a\<lparr>ca_Unavailable := True,
           ca_Quota := \<lparr>cq_Exceeded = True, cq_Reason = credentialQuota, cq_NextRecoverAt = n, cq_BackoffLevel = level\<rparr>,
           ca_NextRetryAfter := n\<rparr>)"

text \<open>The outer layer over the model's own one, composed from the saved outer layer and the layer just
  written.\<close>

definition compose_outer :: "cauth \<Rightarrow> gtime \<Rightarrow> nat \<Rightarrow> layer \<Rightarrow> layer \<Rightarrow> cstate" where
  "compose_outer a now seq saved own =
     (let n = later (ly_NextRetryAfter saved) (ly_NextRetryAfter own);
          n = later n (cq_NextRecoverAt (ca_Quota a));
          outer = saved\<lparr>ly_cooldownRecordedSeq := seq, ly_credentialQuotaPropagated := True, ly_Unavailable := True,
                        ly_Status := StatusError, ly_UpdatedAt := now, ly_LastError := ly_LastError own,
                        ly_StatusMessage := ly_StatusMessage own, ly_NextRetryAfter := n\<rparr>;
          outer = (if cq_Exceeded (ly_Quota outer) \<and> cq_Reason (ly_Quota outer) = credentialQuota then outer
                   else mark_quota credentialQuota (cq_NextRecoverAt (ca_Quota a)) (cq_BackoffLevel (ca_Quota a)) outer)
      in \<lparr>st_layer = outer, st_shadow = (if isModelStateActiveCooldown own now then Some own else None)\<rparr>)"

text \<open>Which branch of the failure writes the quota of the status 429.\<close>

definition quota_branch :: "(Error option \<Rightarrow> bool) \<Rightarrow> string \<Rightarrow> Error option \<Rightarrow> bool" where
  "quota_branch modelSupport provider e \<longleftrightarrow>
     \<not> modelSupport e \<and> \<not> isCloudflareChallengeResultError e \<and> \<not> isInvalidGrantResultError e \<and>
     \<not> isXaiBadCredentialsResultError provider e \<and> \<not> isTransientRateLimitResultError e \<and>
     \<not> isCodexTransientRateLimitResultError provider e \<and> statusCodeFromResult e = 429"

definition auth_notes :: "(Error option \<Rightarrow> bool) \<Rightarrow> exec_result \<Rightarrow> bool \<Rightarrow> bool \<Rightarrow> cauth \<Rightarrow> cauth" where
  "auth_notes modelSupport r preserve terminal a =
     (let e = re_Error r;
          a = note_auth_error r (\<not> preserve \<and> \<not> terminal) a
      in if modelSupport e then a
         else if isCloudflareChallengeResultError e
         then (if ca_LastError a \<noteq> None \<and> \<not> terminal then a\<lparr>ca_StatusMessage := ''cloudflare challenge''\<rparr> else a)
         else if isInvalidGrantResultError e then a
         else if isXaiBadCredentialsResultError (ca_Provider a) e then a\<lparr>ca_LastError := set_code ''unauthorized'' (ca_LastError a)\<rparr>
         else a)"

text \<open>A failure of the model under the key \<open>k\<close> that counts against the credential.\<close>

definition mark_model_failure ::
    "(Error option \<Rightarrow> bool) \<Rightarrow> int \<Rightarrow> string \<Rightarrow> exec_result \<Rightarrow> gtime \<Rightarrow> bool \<Rightarrow> nat \<Rightarrow> cstate \<Rightarrow> cauth \<Rightarrow> cauth" where
  "mark_model_failure modelSupport seconds k r now disableCooling seq s a =
     (let terminal = unauthorized_failure a;
          e = re_Error r;
          s = unwrap_expired a now s;
          saved = st_layer s;
          pending = own_layer_pending r a now;
          s = (if pending then own_layer s else s);
          l = st_layer s;
          preserve = (isCodexTransientRateLimitResultError (ca_Provider a) e \<and> activeQuotaCooldown (ly_Quota l) (ly_NextRetryAfter l) now);
          prev = ly_NextRetryAfter l;
          l1 = fail_start r now preserve l;
          a1 = auth_notes modelSupport r preserve terminal a;
          l2 = fail_body modelSupport seconds r now disableCooling a preserve l1;
          quota = quota_branch modelSupport (ca_Provider a) e;
          shadow = (if quota then quota_shadow r now saved prev l1 (st_shadow s) else st_shadow s);
          spread = (quota \<and> re_CredentialScope r \<and> \<not> disableCooling);
          (n, credentialNext, level) = quota_deadlines r now disableCooling a (ly_Quota l1);
          a2 = (if spread then map_others k (propagate_quota a now credentialNext level) a1 else a1);
          a3 = (if spread \<and> \<not> terminal then credential_exhausted credentialNext level a2 else a2);
          l3 = (if spread \<and> \<not> terminal then l2\<lparr>ly_credentialQuotaPropagated := True\<rparr> else l2);
          l4 = fail_end r now disableCooling prev seq l3;
          s4 = (if pending then compose_outer a3 now seq saved l4 else \<lparr>st_layer = l4, st_shadow = shadow\<rparr>);
          a4 = put_state k s4 a3;
          a5 = (if re_CredentialScope r \<and> \<not> disableCooling \<and> statusCodeFromResult e = 429
                then map_others k (\<lambda>s. s\<lparr>st_layer := (st_layer s)\<lparr>ly_cooldownRecordedSeq := seq\<rparr>\<rparr>) (a4\<lparr>ca_cooldownRecordedSeq := seq\<rparr>)
                else a4)
      in updateAggregatedAvailability now (a5\<lparr>ca_Status := StatusError\<rparr>))"

section \<open>The change of a credential by a result\<close>

text \<open>The answers of the continuity tracker for Codex rate limits.\<close>

datatype disposition = ApplyResult | RecordOnly | ObserveOnly

definition mark_success :: "string \<Rightarrow> exec_result \<Rightarrow> gtime \<Rightarrow> cauth \<Rightarrow> cauth" where
  "mark_success modelKey r now a =
     (let terminal = unauthorized_failure a;
          retainModel = (modelKey \<noteq> [] \<and> \<not> terminal \<and> re_ExecutionSeq r > 0 \<and>
            (case existingModelState a modelKey of
               None \<Rightarrow> False
             | Some s \<Rightarrow> isModelStateActiveCooldown (st_layer s) now \<and> ly_cooldownRecordedSeq (st_layer s) > 0 \<and>
                         re_ExecutionSeq r \<le> ly_cooldownRecordedSeq (st_layer s)));
          retainAuth = (modelKey = [] \<and> \<not> terminal \<and> re_ExecutionSeq r > 0 \<and> isAuthActiveCooldown now a \<and>
            ca_cooldownRecordedSeq a > 0 \<and> re_ExecutionSeq r \<le> ca_cooldownRecordedSeq a)
      in if terminal
         then (case ensureModelState a modelKey of None \<Rightarrow> a | Some (k, s, a) \<Rightarrow> put_state k (resetModelState now) a)
         else if cq_Reason (ca_Quota a) = credentialQuota \<and> cq_NextRecoverAt (ca_Quota a) > now then a
         else if retainModel \<or> retainAuth then a
         else if modelKey \<noteq> []
         then (let a = (case ensureModelState a modelKey of None \<Rightarrow> a | Some (k, s, a) \<Rightarrow> put_state k (resetModelState now) a);
                   a = updateAggregatedAvailability now a
               in if \<not> hasModelError now a then a\<lparr>ca_LastError := None, ca_StatusMessage := [], ca_Status := StatusActive\<rparr> else a)
         else clearAuthStateOnSuccess now a)"

definition mark_failure ::
    "(Error option \<Rightarrow> bool) \<Rightarrow> (Error option \<Rightarrow> bool) \<Rightarrow> int \<Rightarrow> string \<Rightarrow> exec_result \<Rightarrow> gtime \<Rightarrow> bool \<Rightarrow> nat \<Rightarrow> cauth \<Rightarrow> cauth" where
  "mark_failure skip modelSupport seconds modelKey r now coolingDisabled seq a =
     (let disableCooling = (coolingDisabled \<and> \<not> has_code ''force_cooldown'' (re_Error r))
      in if modelKey \<noteq> []
         then (if skip (re_Error r) then a
               else case ensureModelState a modelKey of
                      None \<Rightarrow> a
                    | Some (k, s, a) \<Rightarrow> mark_model_failure modelSupport seconds k r now disableCooling seq s a)
         else if unauthorized_failure a then a
         else if isCodexTransientRateLimitResultError (ca_Provider a) (re_Error r)
         then applyTransientRateLimitAuthFailureState seconds (re_Error r) now disableCooling a
         else (applyAuthFailureState skip seconds (re_Error r) (re_RetryAfter r) now disableCooling a)\<lparr>ca_cooldownRecordedSeq := seq\<rparr>)"

text \<open>The next refresh of a credential whose token was rejected. The argument \<open>refreshable\<close> of \<open>mark_availability\<close> is the
  answer of \<open>authHasRefreshCredential\<close>.\<close>

definition schedule_refresh :: "gtime \<Rightarrow> cauth \<Rightarrow> cauth" where
  "schedule_refresh now a =
     (if ca_NextRefreshAfter a = 0
      then a\<lparr>ca_NextRefreshAfter := (if ca_LastRefreshedAt a \<noteq> 0 \<and> now - ca_LastRefreshedAt a < 300 * sec_ns
                                   then now + 300 * sec_ns else now)\<rparr>
      else a)"

definition mark_availability ::
    "body_tests \<Rightarrow> int \<Rightarrow> disposition \<Rightarrow> bool \<Rightarrow> string \<Rightarrow> exec_result \<Rightarrow> gtime \<Rightarrow> bool \<Rightarrow> nat \<Rightarrow> cauth \<Rightarrow> cauth" where
  "mark_availability bt seconds d refreshable modelKey r now coolingDisabled seq a =
     (let terminal = unauthorized_failure a;
          skip = shouldSkipCredentialCooldown bt;
          modelSupport = isModelSupportResultError bt;
          a = (if d = RecordOnly then a
               else if re_Success r then mark_success modelKey r now a
               else if d = ObserveOnly then a
               else mark_failure skip modelSupport seconds modelKey r now coolingDisabled seq a);
          a = (if terminal then a\<lparr>ca_Unavailable := True, ca_Status := StatusError, ca_NextRefreshAfter := 0, ca_NextRetryAfter := 0\<rparr>
               else if rejects_token bt r \<and> refreshable then schedule_refresh now a
               else a)
      in a\<lparr>ca_UpdatedAt := now\<rparr>)"

section \<open>Lifting the cooldowns of a credential\<close>

definition state_held :: "cstate \<Rightarrow> bool" where
  "state_held s \<longleftrightarrow>
     ly_Unavailable (st_layer s) \<or> ly_NextRetryAfter (st_layer s) \<noteq> 0 \<or> cq_Exceeded (ly_Quota (st_layer s)) \<or>
     cq_NextRecoverAt (ly_Quota (st_layer s)) \<noteq> 0 \<or> st_shadow s \<noteq> None \<or> ly_credentialQuotaPropagated (st_layer s)"

definition clear_state :: "gtime \<Rightarrow> cstate \<Rightarrow> cstate" where
  "clear_state now s =
     (if state_held s
      then \<lparr>st_layer = (st_layer s)\<lparr>ly_Unavailable := False, ly_NextRetryAfter := 0, ly_Quota := zero_quota,
                         ly_modelFallbackReason := [], ly_credentialQuotaPropagated := False, ly_UpdatedAt := now\<rparr>,
            st_shadow = None\<rparr>
      else s)"

text \<open>The credential and whether it changed.\<close>

definition clearCooldownStateForAuth :: "gtime \<Rightarrow> cauth \<Rightarrow> cauth \<times> bool" where
  "clearCooldownStateForAuth now a =
     (if unauthorized_failure a then (a, False)
      else let held = (ca_Unavailable a \<or> ca_NextRetryAfter a \<noteq> 0 \<or> cq_Exceeded (ca_Quota a) \<or> cq_NextRecoverAt (ca_Quota a) \<noteq> 0);
               changed = (held \<or> list_ex (\<lambda>(k, so). case so of None \<Rightarrow> False | Some s \<Rightarrow> state_held s) (ca_ModelStates a));
               a = (if held then a\<lparr>ca_Unavailable := False, ca_NextRetryAfter := 0, ca_Quota := zero_quota, ca_UpdatedAt := now\<rparr> else a);
               a = a\<lparr>ca_ModelStates := map (\<lambda>(k, so). (k, map_option (clear_state now) so)) (ca_ModelStates a)\<rparr>;
               a = (if ca_ModelStates a \<noteq> [] then updateAggregatedAvailability now a else a)
           in (if changed then a\<lparr>ca_UpdatedAt := now\<rparr> else a, changed))"

section \<open>What the scheduler sees\<close>

text \<open>A credential of \<open>AuthState\<close> with the fields of this one.\<close>

definition quota_view :: "cquota \<Rightarrow> QuotaState" where
  "quota_view q = \<lparr>qs_Exceeded = cq_Exceeded q, qs_Reason = cq_Reason q, qs_NextRecoverAt = cq_NextRecoverAt q\<rparr>"

definition state_view :: "cstate \<Rightarrow> ModelState" where
  "state_view s =
     (let l = st_layer s
      in \<lparr>mo_Status = ly_Status l, mo_StatusMessage = ly_StatusMessage l, mo_Unavailable = ly_Unavailable l,
          mo_NextRetryAfter = ly_NextRetryAfter l, mo_LastError = ly_LastError l, mo_Quota = quota_view (ly_Quota l),
          mo_UpdatedAt = ly_UpdatedAt l\<rparr>)"

definition auth_view :: "'x Auth \<Rightarrow> cauth \<Rightarrow> 'x Auth" where
  "auth_view b a =
     b\<lparr>au_Provider := ca_Provider a, au_Status := ca_Status a, au_StatusMessage := ca_StatusMessage a, au_Disabled := ca_Disabled a,
       au_Unavailable := ca_Unavailable a, au_Quota := quota_view (ca_Quota a), au_LastError := ca_LastError a,
       au_UpdatedAt := ca_UpdatedAt a, au_NextRefreshAfter := ca_NextRefreshAfter a, au_NextRetryAfter := ca_NextRetryAfter a,
       au_ModelStates := map (\<lambda>(k, so). (k, map_option state_view so)) (ca_ModelStates a)\<rparr>"

end
