(* ===== verification/CooldownProperties.thy ===== *)
theory CooldownProperties
  imports CredentialCooldown
begin

text \<open>
  What the cooldowns of a credential promise. The aggregate of the models' states is the least deadline
  of what is blocked, whatever the order of the map; a failure never shortens a live cooldown unless it writes
  none at all; an exhausted credential is blocked for every model until its deadline; a success that was dispatched
  before a cooldown was recorded does not lift it.
\<close>

section \<open>The aggregate of the states\<close>

text \<open>What the aggregation does to a state: a deadline that has passed is cleared.\<close>

definition tidy :: "gtime \<Rightarrow> cstate \<Rightarrow> cstate" where
  "tidy now s =
     (let l = st_layer s
      in if ly_Status l \<noteq> StatusDisabled \<and> ly_Unavailable l \<and> ly_NextRetryAfter l \<noteq> 0 \<and> \<not> ly_NextRetryAfter l > now
         then s\<lparr>st_layer := l\<lparr>ly_Unavailable := False, ly_NextRetryAfter := 0\<rparr>\<rparr> else s)"

definition live_layer :: "gtime \<Rightarrow> layer \<Rightarrow> bool" where
  "live_layer now l \<longleftrightarrow> ly_Status l \<noteq> StatusDisabled \<and> ly_Unavailable l \<and> ly_NextRetryAfter l \<noteq> 0 \<and> ly_NextRetryAfter l > now"

definition blocked_layer :: "gtime \<Rightarrow> layer \<Rightarrow> bool" where
  "blocked_layer now l \<longleftrightarrow> ly_Status l = StatusDisabled \<or> live_layer now l"

text \<open>The layers of the models, without nil entries.\<close>

definition layers :: "(string \<times> cstate option) list \<Rightarrow> layer list" where
  "layers al = map st_layer (List.map_filter snd al)"

lemma layers_simps [simp]:
  "layers [] = []" "layers ((k, None) # al) = layers al" "layers ((k, Some s) # al) = st_layer s # layers al"
  by (simp_all add: layers_def map_filter_simps)

definition least_deadline :: "gtime \<Rightarrow> layer \<Rightarrow> gtime \<Rightarrow> gtime" where
  "least_deadline now l e = (if live_layer now l \<and> (e = 0 \<or> ly_NextRetryAfter l < e) then ly_NextRetryAfter l else e)"

definition least_recover :: "layer \<Rightarrow> gtime \<Rightarrow> gtime" where
  "least_recover l q =
     (let t = cq_NextRecoverAt (ly_Quota l)
      in if cq_Exceeded (ly_Quota l) \<and> (q = 0 \<or> (t \<noteq> 0 \<and> t < q)) then t else q)"

definition most_backoff :: "layer \<Rightarrow> int \<Rightarrow> int" where
  "most_backoff l b = (if cq_Exceeded (ly_Quota l) \<and> cq_BackoffLevel (ly_Quota l) > b then cq_BackoffLevel (ly_Quota l) else b)"

lemma aggregate_state_parts:
  "fst (aggregate_state now s g) = tidy now s"
  "snd (aggregate_state now s g) =
     \<lparr>ag_allUnavailable = (ag_allUnavailable g \<and> blocked_layer now (st_layer s)),
      ag_earliestRetry = least_deadline now (st_layer s) (ag_earliestRetry g),
      ag_quotaExceeded = (ag_quotaExceeded g \<or> cq_Exceeded (ly_Quota (st_layer s))),
      ag_quotaRecover = least_recover (st_layer s) (ag_quotaRecover g),
      ag_maxBackoffLevel = most_backoff (st_layer s) (ag_maxBackoffLevel g),
      ag_hasState = True\<rparr>"
  by (auto simp: aggregate_state_def tidy_def blocked_layer_def live_layer_def least_deadline_def least_recover_def most_backoff_def Let_def)

lemma aggregate_loop_states:
  "fst (aggregate_loop now al g) = map (\<lambda>(k, so). (k, map_option (tidy now) so)) al"
proof (induction now al g rule: aggregate_loop.induct)
  case (3 now k s rest g)
  obtain g1 where p: "aggregate_state now s g = (tidy now s, g1)"
    using aggregate_state_parts(1) [of now s g] by (metis prod.collapse)
  with "3.IH" [OF p [symmetric] refl] show ?case by (cases "aggregate_loop now rest g1") simp
qed (auto split: prod.splits)

lemma aggregate_loop_result:
  "snd (aggregate_loop now al g) =
     \<lparr>ag_allUnavailable = (ag_allUnavailable g \<and> list_all (blocked_layer now) (layers al)),
      ag_earliestRetry = fold (least_deadline now) (layers al) (ag_earliestRetry g),
      ag_quotaExceeded = (ag_quotaExceeded g \<or> list_ex (\<lambda>l. cq_Exceeded (ly_Quota l)) (layers al)),
      ag_quotaRecover = fold least_recover (layers al) (ag_quotaRecover g),
      ag_maxBackoffLevel = fold most_backoff (layers al) (ag_maxBackoffLevel g),
      ag_hasState = (ag_hasState g \<or> layers al \<noteq> [])\<rparr>"
proof (induction now al g rule: aggregate_loop.induct)
  case (3 now k s rest g)
  obtain s1 g1 where p: "aggregate_state now s g = (s1, g1)" by fastforce
  then have g1: "g1 = snd (aggregate_state now s g)" by simp
  have "snd (aggregate_loop now ((k, Some s) # rest) g) = snd (aggregate_loop now rest g1)"
    by (simp add: p split: prod.splits)
  then show ?case using "3.IH" [OF p [symmetric] refl] g1 by (simp add: aggregate_state_parts(2))
qed (auto split: prod.splits)

text \<open>The loops over the deadlines find the least one, whatever the order.\<close>

definition live_deadlines :: "gtime \<Rightarrow> (string \<times> cstate option) list \<Rightarrow> gtime list" where
  "live_deadlines now al = map ly_NextRetryAfter (filter (live_layer now) (layers al))"

definition least_nz :: "gtime \<Rightarrow> gtime \<Rightarrow> gtime" where
  "least_nz x e = (if e = 0 \<or> x < e then x else e)"

definition least_of :: "gtime list \<Rightarrow> gtime" where
  "least_of ts = (if ts = [] then 0 else Min (set ts))"

lemma fold_least_nz:
  "0 \<notin> set ts \<Longrightarrow> fold least_nz ts e = (if ts = [] then e else if e = 0 then Min (set ts) else min e (Min (set ts)))"
proof (induction ts arbitrary: e)
  case (Cons t ts)
  then have t: "t \<noteq> 0" and IH: "fold least_nz ts x = (if ts = [] then x else if x = 0 then Min (set ts) else min x (Min (set ts)))" for x
    by auto
  show ?case
  proof (cases "ts = []")
    case True
    then show ?thesis by (auto simp: least_nz_def)
  next
    case False
    then have "Min (set (t # ts)) = min t (Min (set ts))" by simp
    moreover have "least_nz t e = (if e = 0 then t else min e t)" by (auto simp: least_nz_def)
    ultimately show ?thesis using False t by (auto simp: IH min.assoc)
  qed
qed simp

lemma fold_least_deadline: "fold (least_deadline now) ls e = fold least_nz (map ly_NextRetryAfter (filter (live_layer now) ls)) e"
  by (induction ls arbitrary: e) (auto simp: least_deadline_def least_nz_def)

lemma earliest_is_least: "fold (least_deadline now) (layers al) 0 = least_of (live_deadlines now al)"
proof -
  have "0 \<notin> set (live_deadlines now al)" by (auto simp: live_deadlines_def live_layer_def)
  then show ?thesis by (simp add: fold_least_deadline fold_least_nz least_of_def live_deadlines_def)
qed

text \<open>The deadlines at which exhausted quotas recover; a quota without one is left aside.\<close>

definition recover_times :: "(string \<times> cstate option) list \<Rightarrow> gtime list" where
  "recover_times al = filter (\<lambda>t. t \<noteq> 0) (map (\<lambda>l. cq_NextRecoverAt (ly_Quota l)) (filter (\<lambda>l. cq_Exceeded (ly_Quota l)) (layers al)))"

lemma fold_least_recover:
  "fold least_recover ls e = fold least_nz (filter (\<lambda>t. t \<noteq> 0) (map (\<lambda>l. cq_NextRecoverAt (ly_Quota l)) (filter (\<lambda>l. cq_Exceeded (ly_Quota l)) ls))) e"
  by (induction ls arbitrary: e) (auto simp: least_recover_def least_nz_def Let_def)

lemma recover_is_least: "fold least_recover (layers al) 0 = least_of (recover_times al)"
proof -
  have "0 \<notin> set (recover_times al)" by (auto simp: recover_times_def)
  then show ?thesis by (simp add: fold_least_recover fold_least_nz least_of_def recover_times_def)
qed

lemma state_at_update:
  "ca_ModelStates (updateAggregatedAvailability now a) = ca_ModelStates a \<or>
   ca_ModelStates (updateAggregatedAvailability now a) = map (\<lambda>(k, so). (k, map_option (tidy now) so)) (ca_ModelStates a)"
  using aggregate_loop_states [of now "ca_ModelStates a" agg_start]
  by (auto simp: updateAggregatedAvailability_def clearAggregatedAvailability_def apply_aggregate_def Let_def split: prod.splits)

lemma map_of_map_option:
  "map_of (map (\<lambda>(k, so). (k, map_option f so)) al) k = map_option (map_option f) (map_of al k)"
  by (induction al) auto

lemma tidy_live: "now < ly_NextRetryAfter (st_layer s) \<or> ly_NextRetryAfter (st_layer s) = 0 \<Longrightarrow> tidy now s = s"
  by (auto simp: tidy_def Let_def)

text \<open>A state whose deadline has not passed is left as it is.\<close>

lemma update_keeps_state:
  assumes "state_at k a = Some s" and "now < ly_NextRetryAfter (st_layer s) \<or> ly_NextRetryAfter (st_layer s) = 0"
  shows "state_at k (updateAggregatedAvailability now a) = Some s"
proof -
  have "map_of (ca_ModelStates a) k = Some (Some s)" using assms(1) by (auto simp: state_at_def split: option.splits)
  then show ?thesis using state_at_update [of now a] tidy_live [OF assms(2)]
    by (auto simp: state_at_def map_of_map_option)
qed

definition backoff_levels :: "(string \<times> cstate option) list \<Rightarrow> int list" where
  "backoff_levels al = map (\<lambda>l. cq_BackoffLevel (ly_Quota l)) (filter (\<lambda>l. cq_Exceeded (ly_Quota l)) (layers al))"

lemma fold_most_backoff:
  "fold most_backoff ls b = Max (insert b (set (map (\<lambda>l. cq_BackoffLevel (ly_Quota l)) (filter (\<lambda>l. cq_Exceeded (ly_Quota l)) ls))))"
proof -
  have "fold most_backoff ls b = fold max (map (\<lambda>l. cq_BackoffLevel (ly_Quota l)) (filter (\<lambda>l. cq_Exceeded (ly_Quota l)) ls)) b"
    by (induction ls arbitrary: b) (auto simp: most_backoff_def max_def)
  then show ?thesis by (simp only: Max.set_eq_fold [symmetric] list.set)
qed

text \<open>The aggregate as a function of the set of states.\<close>

definition any_exceeded :: "(string \<times> cstate option) list \<Rightarrow> bool" where
  "any_exceeded al \<longleftrightarrow> list_ex (\<lambda>l. cq_Exceeded (ly_Quota l)) (layers al)"

definition aggregate_quota :: "gtime \<Rightarrow> (string \<times> cstate option) list \<Rightarrow> cquota \<Rightarrow> cquota" where
  "aggregate_quota now al q =
     (if any_exceeded al
      then \<lparr>cq_Exceeded = True, cq_Reason = ''quota'', cq_NextRecoverAt = later (least_of (recover_times al)) (cq_NextRecoverAt q),
            cq_BackoffLevel = Max (insert 0 (set (backoff_levels al)))\<rparr>
      else if cq_Exceeded q \<and> cq_NextRecoverAt q > now then q else zero_quota)"

definition aggregate_of :: "gtime \<Rightarrow> cauth \<Rightarrow> cauth" where
  "aggregate_of now a =
     (let al = ca_ModelStates a; all = list_all (blocked_layer now) (layers al)
      in a\<lparr>ca_ModelStates := map (\<lambda>(k, so). (k, map_option (tidy now) so)) al,
           ca_Unavailable := all, ca_NextRetryAfter := (if all then least_of (live_deadlines now al) else 0),
           ca_Quota := aggregate_quota now al (ca_Quota a)\<rparr>)"

lemma update_is_aggregate:
  assumes "\<not> unauthorized_failure a" and "\<not> quota_wrapped a now" and "layers (ca_ModelStates a) \<noteq> []"
  shows "updateAggregatedAvailability now a = aggregate_of now a"
proof -
  let ?al = "ca_ModelStates a"
  have ne: "?al \<noteq> []" using assms(3) by auto
  obtain ss g where p: "aggregate_loop now ?al agg_start = (ss, g)" by fastforce
  have ss: "ss = map (\<lambda>(k, so). (k, map_option (tidy now) so)) ?al" using aggregate_loop_states [of now ?al agg_start] p by simp
  have g: "g = \<lparr>ag_allUnavailable = list_all (blocked_layer now) (layers ?al),
      ag_earliestRetry = least_of (live_deadlines now ?al), ag_quotaExceeded = any_exceeded ?al,
      ag_quotaRecover = least_of (recover_times ?al), ag_maxBackoffLevel = Max (insert 0 (set (backoff_levels ?al))),
      ag_hasState = True\<rparr>"
    using aggregate_loop_result [of now ?al agg_start] p assms(3)
    by (simp add: agg_start_def earliest_is_least recover_is_least fold_most_backoff backoff_levels_def any_exceeded_def)
  have "updateAggregatedAvailability now a = apply_aggregate now g (a\<lparr>ca_ModelStates := ss\<rparr>)"
    using assms(1,2) ne p g by (auto simp: updateAggregatedAvailability_def quota_wrapped_def)
  then show ?thesis
    by (simp add: apply_aggregate_def aggregate_of_def aggregate_quota_def later_def g ss Let_def)
qed

lemma tidy_parts:
  "blocked_layer now (st_layer (tidy now s)) = blocked_layer now (st_layer s)"
  "live_layer now (st_layer (tidy now s)) = live_layer now (st_layer s)"
  "live_layer now (st_layer s) \<Longrightarrow> ly_NextRetryAfter (st_layer (tidy now s)) = ly_NextRetryAfter (st_layer s)"
  "ly_Quota (st_layer (tidy now s)) = ly_Quota (st_layer s)"
  "tidy now (tidy now s) = tidy now s"
  by (auto simp: tidy_def blocked_layer_def live_layer_def Let_def)

lemma layers_tidy: "layers (map (\<lambda>(k, so). (k, map_option (tidy now) so)) al) = map st_layer (map (tidy now) (List.map_filter snd al))"
  by (induction al) (auto simp: layers_def map_filter_simps split: option.splits)

lemma tidy_aggregates:
  fixes al now
  defines "al' \<equiv> map (\<lambda>(k, so). (k, map_option (tidy now) so)) al"
  shows "list_all (blocked_layer now) (layers al') = list_all (blocked_layer now) (layers al)"
    and "live_deadlines now al' = live_deadlines now al" and "recover_times al' = recover_times al"
    and "backoff_levels al' = backoff_levels al" and "any_exceeded al' = any_exceeded al"
    and "layers al' = [] \<longleftrightarrow> layers al = []" and "map (\<lambda>(k, so). (k, map_option (tidy now) so)) al' = al'"
proof -
  have l: "layers al' = map (\<lambda>s. st_layer (tidy now s)) (List.map_filter snd al)" unfolding al'_def layers_tidy by simp
  have m: "layers al = map st_layer (List.map_filter snd al)" by (simp add: layers_def)
  show "list_all (blocked_layer now) (layers al') = list_all (blocked_layer now) (layers al)"
    by (simp add: l m list_all_iff tidy_parts)
  show "live_deadlines now al' = live_deadlines now al"
    unfolding live_deadlines_def l m by (induction "List.map_filter snd al") (simp_all add: tidy_parts filter_map o_def)
  show "recover_times al' = recover_times al" "backoff_levels al' = backoff_levels al" "any_exceeded al' = any_exceeded al"
    unfolding recover_times_def backoff_levels_def any_exceeded_def l m
    by (simp_all add: filter_map o_def tidy_parts list_ex_iff)
  show "layers al' = [] \<longleftrightarrow> layers al = []" by (simp add: l m)
  show "map (\<lambda>(k, so). (k, map_option (tidy now) so)) al' = al'"
    by (auto simp: al'_def tidy_parts option.map_comp o_def)
qed

lemma aggregate_stable:
  assumes "\<not> quota_wrapped a now" and "layers (ca_ModelStates a) \<noteq> []"
  shows "updateAggregatedAvailability now (aggregate_of now a) = aggregate_of now a"
proof (cases "unauthorized_failure (aggregate_of now a)")
  case True
  then have "ca_Unavailable (aggregate_of now a)" by (simp add: unauthorized_failure_def split: option.splits)
  then show ?thesis using True by (simp add: updateAggregatedAvailability_def)
next
  case False
  let ?al = "ca_ModelStates a"
  have "cq_Reason (aggregate_quota now ?al (ca_Quota a)) = credentialQuota \<Longrightarrow> aggregate_quota now ?al (ca_Quota a) = ca_Quota a \<and>
      cq_Exceeded (ca_Quota a) \<and> cq_NextRecoverAt (ca_Quota a) > now"
    by (auto simp: aggregate_quota_def zero_quota_def split: if_splits)
  then have nw: "\<not> quota_wrapped (aggregate_of now a) now" using assms(1) by (auto simp: quota_wrapped_def aggregate_of_def Let_def)
  have st: "ca_ModelStates (aggregate_of now a) = map (\<lambda>(k, so). (k, map_option (tidy now) so)) ?al"
    by (simp add: aggregate_of_def Let_def)
  have "aggregate_quota now (ca_ModelStates (aggregate_of now a)) (aggregate_quota now ?al (ca_Quota a)) = aggregate_quota now ?al (ca_Quota a)"
    unfolding st by (auto simp: aggregate_quota_def tidy_aggregates later_def zero_quota_def)
  moreover have "layers (ca_ModelStates (aggregate_of now a)) \<noteq> []" using assms(2) by (simp add: st tidy_aggregates)
  ultimately show ?thesis using update_is_aggregate [OF False nw]
    by (simp add: st aggregate_of_def tidy_aggregates Let_def del: map_map)
qed

lemma layers_set: "set (layers al) = {st_layer s |k s. (k, Some s) \<in> set al}"
proof -
  have "set (List.map_filter snd al) = {s. \<exists>k. (k, Some s) \<in> set al}" by (force simp: map_filter_def)
  then show ?thesis by (auto simp: layers_def)
qed

lemma least_of_set: "set ts = set ts' \<Longrightarrow> least_of ts = least_of ts'"
  by (auto simp: least_of_def)

lemma aggregate_order_free:
  assumes "set al' = set al"
  shows "list_all (blocked_layer now) (layers al') = list_all (blocked_layer now) (layers al)"
    and "least_of (live_deadlines now al') = least_of (live_deadlines now al)"
    and "aggregate_quota now al' q = aggregate_quota now al q"
proof -
  have l: "set (layers al') = set (layers al)" using assms by (simp add: layers_set)
  then show "list_all (blocked_layer now) (layers al') = list_all (blocked_layer now) (layers al)" by (simp add: list_all_iff)
  have "set (live_deadlines now al') = set (live_deadlines now al)" using l by (simp add: live_deadlines_def)
  then show "least_of (live_deadlines now al') = least_of (live_deadlines now al)" by (rule least_of_set)
  have "set (recover_times al') = set (recover_times al)" "set (backoff_levels al') = set (backoff_levels al)"
    "any_exceeded al' = any_exceeded al"
    using l by (simp_all add: recover_times_def backoff_levels_def any_exceeded_def list_ex_iff)
  then show "aggregate_quota now al' q = aggregate_quota now al q"
    using least_of_set [of "recover_times al'" "recover_times al"] by (simp add: aggregate_quota_def)
qed

section \<open>Deadlines\<close>

abbreviation deadline :: "cstate \<Rightarrow> gtime" where
  "deadline s \<equiv> ly_NextRetryAfter (st_layer s)"

lemma fail_end_deadline:
  "now < prev \<Longrightarrow> ly_NextRetryAfter (fail_end r now dis prev seq l) = 0 \<or> prev \<le> ly_NextRetryAfter (fail_end r now dis prev seq l)"
  by (auto simp: fail_end_def Let_def)

lemma fail_end_zero:
  assumes "0 < now" and "ly_NextRetryAfter (fail_end r now dis prev seq l) = 0"
  shows "ly_NextRetryAfter l = 0"
  using assms by (auto simp: fail_end_def transientErrorCooldown_def sec_ns_def Let_def split: if_splits)

text \<open>With cooling enabled, every way of computing a deadline gives a time after the zero time.\<close>

lemma ladder_positive: "0 < fst (nextQuotaCooldown n False)"
  by (auto simp: nextQuotaCooldown_def Let_def quotaBackoffBase_def quotaBackoffMax_def sec_ns_def)

lemma quota_window: "0 < now \<Longrightarrow> 0 < fst (quotaCooldownAfterFailure q now)"
  using ladder_positive [of "cq_BackoffLevel q"]
  by (cases "nextQuotaCooldown (cq_BackoffLevel q) False") (simp add: quotaCooldownAfterFailure_def)

lemma retry_positive:
  assumes "0 < now" and "0 \<le> seconds" and "seconds < 2 ^ 33"
  shows "0 < recoverableFailureRetryAfterWithHint seconds now h False"
proof -
  have "wrap64 (seconds * sec_ns) = seconds * sec_ns" using assms(2,3) by (simp add: wrap64_id sec_ns_def)
  then show ?thesis using assms
    by (simp add: recoverableFailureRetryAfterWithHint_def transientErrorCooldown_def sec_ns_def split: option.splits)
qed

lemma capacity_positive:
  assumes "0 < now" and "0 \<le> seconds" and "seconds < 2 ^ 33" and "h \<noteq> Some 0"
  shows "0 < capacity_deadline seconds now h False q"
  using retry_positive [OF assms(1-3), of h] assms(4)
  by (simp add: capacity_deadline_def transientRateLimitRetryAfter_def Let_def)

lemma floor_positive: "0 < now \<Longrightarrow> 0 < floor_hint now d"
  by (simp add: floor_hint_def minQuotaCooldownFloor_def sec_ns_def)

lemma quota_deadline_positive:
  assumes "0 < now"
  shows "0 < fst (quota_deadlines r now False a q)"
proof -
  define source where "source = (if re_CredentialScope r
    then (if cq_Exceeded (ca_Quota a) \<and> cq_Reason (ca_Quota a) = credentialQuota then ca_Quota a
          else q\<lparr>cq_NextRecoverAt := 0, cq_BackoffLevel := 0\<rparr>) else q)"
  obtain n level where w: "quotaCooldownAfterFailure source now = (n, level)" by fastforce
  then have "0 < n" using quota_window [OF assms, of source] by simp
  then show ?thesis using floor_positive [OF assms] w
    by (cases "re_RetryAfter r") (auto simp: quota_deadlines_def Let_def source_def [symmetric] intro: less_trans)
qed

lemma fixed_positive:
  assumes "0 < now"
  shows "0 < positive_hint h now half_day" and "0 < now + half_hour" and "0 < fst (nextCloudflareCooldown b False now)"
  using assms by (simp_all add: positive_hint_def nextCloudflareCooldown_def sec_ns_def Let_def split: option.splits prod.splits)

lemma status_fail_positive:
  assumes "0 < now" and "0 \<le> seconds" and "seconds < 2 ^ 33"
  shows "0 < ly_NextRetryAfter (status_fail_layer seconds r now False a l)"
  using retry_positive [OF assms] fixed_positive [OF assms(1)] quota_deadline_positive [OF assms(1), of r a "ly_Quota l"]
  by (cases "quota_deadlines r now False a (ly_Quota l)")
     (simp add: status_fail_layer_def Let_def zero_if_def recoverableFailureRetryAfter_def mark_quota_def)

lemma fail_body_positive:
  assumes "0 < now" and "0 \<le> seconds" and "seconds < 2 ^ 33" and "re_RetryAfter r \<noteq> Some 0" and "0 < ly_NextRetryAfter l"
  shows "0 < ly_NextRetryAfter (fail_body ms seconds r now False a preserve l)"
proof -
  note facts = fixed_positive [OF assms(1)] capacity_positive [OF assms(1-4)] retry_positive [OF assms(1-3)] status_fail_positive [OF assms(1-3)]
  show ?thesis using facts(3) [of "cq_BackoffLevel (ly_Quota l)"]
    by (cases "nextCloudflareCooldown (cq_BackoffLevel (ly_Quota l)) False now")
       (simp add: fail_body_def Let_def zero_if_def nextTransientErrorRetryAfter_def mark_quota_def facts assms(5))
qed

section \<open>Reading the state of a model\<close>

lemma state_at_simps [simp]:
  "state_at k (put_state k s a) = Some s"
  "k' \<noteq> k \<Longrightarrow> state_at k' (put_state k s a) = state_at k' a"
  by (simp_all add: state_at_def put_state_def update_conv')

lemma state_at_others [simp]:
  "state_at k' (map_others k f a) = (if k' = k then state_at k' a else map_option f (state_at k' a))"
proof -
  have "map_of (map (\<lambda>(k', so). (k', if k' = k then so else map_option f so)) al) k' =
      map_option (\<lambda>so. if k' = k then so else map_option f so) (map_of al k')" for al
    by (induction al) auto
  then show ?thesis by (auto simp: state_at_def map_others_def split: option.splits)
qed

lemma state_at_fields [simp]:
  "state_at k (a\<lparr>ca_Status := x\<rparr>) = state_at k a"
  "state_at k (a\<lparr>ca_cooldownRecordedSeq := q\<rparr>) = state_at k a"
  "state_at k (credential_exhausted n level a) = state_at k a"
  "state_at k (auth_notes ms r p t a) = state_at k a"
  by (auto simp: state_at_def credential_exhausted_def auth_notes_def note_auth_error_def Let_def split: option.splits)

section \<open>The failure of a model\<close>

lemma fail_start_parts [simp]:
  "ly_NextRetryAfter (fail_start r now p l) = ly_NextRetryAfter l"
  "ly_Quota (fail_start r now p l) = ly_Quota l"
  by (simp_all add: fail_start_def Let_def split: option.splits)

lemma fail_end_propagated [simp]:
  "ly_NextRetryAfter (fail_end r now dis prev seq (l\<lparr>ly_credentialQuotaPropagated := x\<rparr>)) = ly_NextRetryAfter (fail_end r now dis prev seq l)"
  by (simp add: fail_end_def Let_def)

text \<open>The deadline of the model after a failure that concerns its only layer.\<close>

definition failed_deadline :: "(Error option \<Rightarrow> bool) \<Rightarrow> int \<Rightarrow> exec_result \<Rightarrow> gtime \<Rightarrow> bool \<Rightarrow> nat \<Rightarrow> cauth \<Rightarrow> layer \<Rightarrow> gtime" where
  "failed_deadline ms seconds r now dis seq a l =
     (let preserve = (isCodexTransientRateLimitResultError (ca_Provider a) (re_Error r) \<and> activeQuotaCooldown (ly_Quota l) (ly_NextRetryAfter l) now)
      in ly_NextRetryAfter (fail_end r now dis (ly_NextRetryAfter l) seq
           (fail_body ms seconds r now dis a preserve (fail_start r now preserve l))))"

lemma failed_deadline_never_shorter:
  assumes "0 < now" and "seconds < 2 ^ 33" and "now < ly_NextRetryAfter l"
  shows "ly_NextRetryAfter l \<le> failed_deadline ms seconds r now dis seq a l \<or>
    (failed_deadline ms seconds r now dis seq a l = 0 \<and> (dis \<or> seconds < 0 \<or> re_RetryAfter r = Some 0))"
proof -
  let ?p = "isCodexTransientRateLimitResultError (ca_Provider a) (re_Error r) \<and> activeQuotaCooldown (ly_Quota l) (ly_NextRetryAfter l) now"
  let ?b = "fail_body ms seconds r now dis a ?p (fail_start r now ?p l)"
  have "dis \<or> seconds < 0 \<or> re_RetryAfter r = Some 0" if "ly_NextRetryAfter (fail_end r now dis (ly_NextRetryAfter l) seq ?b) = 0"
  proof (rule ccontr)
    assume n: "\<not> (dis \<or> seconds < 0 \<or> re_RetryAfter r = Some 0)"
    then have d: "dis = False" "0 \<le> seconds" "re_RetryAfter r \<noteq> Some 0" by auto
    have "0 < ly_NextRetryAfter (fail_start r now ?p l)" using assms(1,3) by simp
    from fail_body_positive [OF assms(1) d(2) assms(2) d(3) this] have "0 < ly_NextRetryAfter ?b" using d(1) by simp
    with fail_end_zero [OF assms(1) that] show False by simp
  qed
  then show ?thesis using fail_end_deadline [OF assms(3)] unfolding failed_deadline_def Let_def by blast
qed

text \<open>The states the failure leaves behind, before the aggregation.\<close>

lemma mark_model_failure_states:
  fixes s a now
  defines "u \<equiv> unwrap_expired a now s"
  shows "\<exists>b s'. mark_model_failure ms seconds k r now dis seq s a = updateAggregatedAvailability now b \<and>
     state_at k b = Some s' \<and> ly_cooldownRecordedSeq (st_layer s') = seq \<and>
     (if own_layer_pending r a now then deadline u \<le> deadline s'
      else deadline s' = failed_deadline ms seconds r now dis seq a (st_layer u)) \<and>
     (\<forall>k' t. k' \<noteq> k \<and> state_at k' a = Some t \<and> unwrap_expired a now t = t \<and> deadline t \<noteq> 0 \<longrightarrow>
        (\<exists>t'. state_at k' b = Some t' \<and> deadline t \<le> deadline t'))"
proof -
  define pend where "pend = own_layer_pending r a now"
  define s0 where "s0 = (if pend then own_layer u else u)"
  define l where "l = st_layer s0"
  define p where "p = (isCodexTransientRateLimitResultError (ca_Provider a) (re_Error r) \<and> activeQuotaCooldown (ly_Quota l) (ly_NextRetryAfter l) now)"
  define l2 where "l2 = fail_body ms seconds r now dis a p (fail_start r now p l)"
  define quota where "quota = quota_branch ms (ca_Provider a) (re_Error r)"
  define spread where "spread = (quota \<and> re_CredentialScope r \<and> \<not> dis)"
  define terml where "terml = unauthorized_failure a"
  define sh where "sh = (if quota then quota_shadow r now (st_layer u) (ly_NextRetryAfter l) (fail_start r now p l) (st_shadow s0) else st_shadow s0)"
  obtain n cn level where qd: "quota_deadlines r now dis a (ly_Quota (fail_start r now p l)) = (n, cn, level)" by (metis prod_cases3)
  define a1 where "a1 = auth_notes ms r p terml a"
  define a2 where "a2 = (if spread then map_others k (propagate_quota a now cn level) a1 else a1)"
  define a3 where "a3 = (if spread \<and> \<not> terml then credential_exhausted cn level a2 else a2)"
  define l4 where "l4 = fail_end r now dis (ly_NextRetryAfter l) seq (if spread \<and> \<not> terml then l2\<lparr>ly_credentialQuotaPropagated := True\<rparr> else l2)"
  define s4 where "s4 = (if pend then compose_outer a3 now seq (st_layer u) l4 else \<lparr>st_layer = l4, st_shadow = sh\<rparr>)"
  define stamp where "stamp = (\<lambda>s :: cstate. s\<lparr>st_layer := (st_layer s)\<lparr>ly_cooldownRecordedSeq := seq\<rparr>\<rparr>)"
  define a5 where "a5 = (if re_CredentialScope r \<and> \<not> dis \<and> statusCodeFromResult (re_Error r) = 429
     then map_others k stamp ((put_state k s4 a3)\<lparr>ca_cooldownRecordedSeq := seq\<rparr>) else put_state k s4 a3)"
  note defs = pend_def s0_def l_def p_def l2_def quota_def spread_def terml_def sh_def a1_def a2_def a3_def l4_def s4_def stamp_def a5_def
  have eq: "mark_model_failure ms seconds k r now dis seq s a = updateAggregatedAvailability now (a5\<lparr>ca_Status := StatusError\<rparr>)"
    unfolding mark_model_failure_def Let_def u_def [symmetric] defs [symmetric] qd prod.case by (simp only: defs)
  have k: "state_at k (a5\<lparr>ca_Status := StatusError\<rparr>) = Some s4" by (simp add: a5_def)
  have q: "ly_cooldownRecordedSeq (st_layer s4) = seq"
    by (simp add: s4_def compose_outer_def mark_quota_def l4_def fail_end_def Let_def)
  have d: "if pend then deadline u \<le> deadline s4 else deadline s4 = failed_deadline ms seconds r now dis seq a (st_layer u)"
    by (auto simp: s4_def compose_outer_def later_def mark_quota_def l4_def l2_def p_def l_def s0_def failed_deadline_def Let_def)
  have "\<exists>t'. state_at k' (a5\<lparr>ca_Status := StatusError\<rparr>) = Some t' \<and> deadline t \<le> deadline t'"
    if t: "k' \<noteq> k" "state_at k' a = Some t" "unwrap_expired a now t = t" "deadline t \<noteq> 0" for k' t
  proof -
    have "deadline t \<le> deadline (propagate_quota a now cn level t)"
      using t(3,4) by (auto simp: propagate_quota_def mark_quota_def Let_def)
    moreover have "state_at k' a3 = Some (if spread then propagate_quota a now cn level t else t)"
      using t by (simp add: a3_def a2_def a1_def)
    ultimately show ?thesis using t(1) by (simp add: a5_def stamp_def)
  qed
  with eq k q d show ?thesis unfolding pend_def by blast
qed

section \<open>Whole results\<close>

lemma unwrap_fresh [simp]: "unwrap_expired a now \<lparr>st_layer = zero_layer\<lparr>ly_Status := x\<rparr>, st_shadow = None\<rparr> = \<lparr>st_layer = zero_layer\<lparr>ly_Status := x\<rparr>, st_shadow = None\<rparr>"
  by (simp add: unwrap_expired_def zero_layer_def zero_quota_def)

lemma unwrap_put [simp]: "unwrap_expired (put_state k s a) = unwrap_expired a"
  by (simp add: fun_eq_iff unwrap_expired_def quota_wrapped_def put_state_def)

lemma put_state_provider [simp]: "ca_Provider (put_state k s a) = ca_Provider a"
  by (simp add: put_state_def)

text \<open>The state a result of a model works on, for a map whose keys are normal.\<close>

lemma ensure_cases:
  assumes "normalizeModelStates a = a" and "ensureModelState a m = Some (k, s, a')"
  shows "k = modelStateKey (ca_Provider a) m" and "state_at k a' = Some s"
    and "state_at k a = Some s \<and> a' = a \<or>
      state_at k a = None \<and> s = \<lparr>st_layer = zero_layer\<lparr>ly_Status := StatusActive\<rparr>, st_shadow = None\<rparr> \<and> a' = put_state k s a"
  using assms by (auto simp: ensureModelState_def Let_def split: if_splits option.splits)

text \<open>A state with a live deadline after the failure of any model.\<close>

lemma model_failure_deadline:
  assumes "0 < now" and "seconds < 2 ^ 33" and "state_at k a = Some t"
    and "state_at k' a = Some s" and "unwrap_expired a now s = s" and "now < deadline s"
  shows "\<exists>s'. state_at k' (mark_model_failure ms seconds k r now dis seq t a) = Some s' \<and>
     (deadline s \<le> deadline s' \<or> deadline s' = 0 \<and> k' = k \<and> (dis \<or> seconds < 0 \<or> re_RetryAfter r = Some 0))"
proof -
  let ?u = "unwrap_expired a now t"
  obtain b t' where b: "mark_model_failure ms seconds k r now dis seq t a = updateAggregatedAvailability now b" "state_at k b = Some t'"
    and own: "if own_layer_pending r a now then deadline ?u \<le> deadline t'
      else deadline t' = failed_deadline ms seconds r now dis seq a (st_layer ?u)"
    and others: "\<forall>k' t. k' \<noteq> k \<and> state_at k' a = Some t \<and> unwrap_expired a now t = t \<and> deadline t \<noteq> 0 \<longrightarrow>
      (\<exists>t'. state_at k' b = Some t' \<and> deadline t \<le> deadline t')"
    using mark_model_failure_states [of ms seconds k r now dis seq t a] by blast
  have "\<exists>s'. state_at k' b = Some s' \<and>
     (deadline s \<le> deadline s' \<or> deadline s' = 0 \<and> k' = k \<and> (dis \<or> seconds < 0 \<or> re_RetryAfter r = Some 0))"
  proof (cases "k' = k")
    case True
    with assms(3-5) have u: "?u = s" by simp
    have "deadline s \<le> deadline t' \<or> deadline t' = 0 \<and> (dis \<or> seconds < 0 \<or> re_RetryAfter r = Some 0)"
      using own failed_deadline_never_shorter [OF assms(1,2,6), of ms r dis seq a] u by (auto split: if_splits)
    with True b(2) show ?thesis by simp
  next
    case False
    have "deadline s \<noteq> 0" using assms(1,6) by simp
    with others False assms(4,5) show ?thesis by blast
  qed
  then obtain s' where s': "state_at k' b = Some s'"
    "deadline s \<le> deadline s' \<or> deadline s' = 0 \<and> k' = k \<and> (dis \<or> seconds < 0 \<or> re_RetryAfter r = Some 0)" by blast
  then have "now < deadline s' \<or> deadline s' = 0" using assms(6) by linarith
  with update_keeps_state [OF s'(1)] s'(2) show ?thesis unfolding b(1) by blast
qed

text \<open>A failure without a model leaves the states of the models alone.\<close>

lemma auth_failure_end_states: "ca_ModelStates (auth_failure_end e now dis prev a) = ca_ModelStates a"
  by (simp add: auth_failure_end_def Let_def)

lemma auth_status_failure_states: "ca_ModelStates (auth_status_failure seconds e h now dis a) = ca_ModelStates a"
  by (simp add: auth_status_failure_def auth_quota_failure_def Let_def split_def)

lemma auth_failure_body_states: "ca_ModelStates (auth_failure_body seconds e h now dis a) = ca_ModelStates a"
  by (simp add: auth_failure_body_def auth_status_failure_states Let_def split_def)

lemma auth_failure_states [simp]:
  "ca_ModelStates (applyAuthFailureState skip seconds e h now dis a) = ca_ModelStates a"
  "ca_ModelStates (applyTransientRateLimitAuthFailureState seconds e now dis a) = ca_ModelStates a"
  by (simp_all add: applyAuthFailureState_def auth_failure_end_states auth_failure_body_states
      applyTransientRateLimitAuthFailureState_def Let_def split: option.splits)

text \<open>C27: A failure never shortens a live cooldown. Take a credential whose map of model states has normal
  keys, and a model of it whose deadline is still ahead (and whose state is not the left-over of an exhausted quota that has
  recovered). After any failed result, of this model, of another model or of the credential itself, the
  model's deadline is at least the one it had, or it has been cleared; it is cleared only by a
  failure of the model itself, and only when cooling is disabled, when the configured cooldown of transient errors is negative,
  or when the upstream sent the explicit hint to retry at once.\<close>

theorem cooldown_never_shortened:
  assumes "0 < now" and "seconds < 2 ^ 33" and "normalizeModelStates a = a"
    and "state_at k a = Some s" and "unwrap_expired a now s = s" and "now < ly_NextRetryAfter (st_layer s)"
  shows "\<exists>s'. state_at k (mark_failure skip ms seconds model r now coolingDisabled seq a) = Some s' \<and>
     (ly_NextRetryAfter (st_layer s) \<le> ly_NextRetryAfter (st_layer s') \<or>
      ly_NextRetryAfter (st_layer s') = 0 \<and> k = modelStateKey (ca_Provider a) model \<and>
      (coolingDisabled \<or> seconds < 0 \<or> re_RetryAfter r = Some 0))"
proof -
  define dis where "dis = (coolingDisabled \<and> \<not> has_code ''force_cooldown'' (re_Error r))"
  have same: ?thesis if "ca_ModelStates (mark_failure skip ms seconds model r now coolingDisabled seq a) = ca_ModelStates a"
    using that assms(4) by (simp add: state_at_def)
  show ?thesis
  proof (cases "model = [] \<or> skip (re_Error r) \<or> ensureModelState a model = None")
    case True
    then show ?thesis by (intro same) (auto simp: mark_failure_def Let_def)
  next
    case False
    then obtain k0 t a' where e: "ensureModelState a model = Some (k0, t, a')" by (cases "ensureModelState a model") auto
    note ec = ensure_cases [OF assms(3) e]
    have m: "mark_failure skip ms seconds model r now coolingDisabled seq a = mark_model_failure ms seconds k0 r now dis seq t a'"
      using False e by (simp add: mark_failure_def dis_def Let_def)
    from ec(3) show ?thesis
    proof
      assume o: "state_at k0 a = Some t \<and> a' = a"
      with model_failure_deadline [OF assms(1,2), of k0 a t k s ms r dis seq] assms(4-6) show ?thesis
        by (auto simp: m ec(1) dis_def)
    next
      assume n: "state_at k0 a = None \<and> t = \<lparr>st_layer = zero_layer\<lparr>ly_Status := StatusActive\<rparr>, st_shadow = None\<rparr> \<and> a' = put_state k0 t a"
      then have "k \<noteq> k0" using assms(4) by auto
      with n model_failure_deadline [OF assms(1,2), of k0 a' t k s ms r dis seq] assms(4-6) show ?thesis by (auto simp: m)
    qed
  qed
qed


subsection \<open>A success from before the cooldown\<close>

lemma update_keeps_recorded:
  assumes "state_at k b = Some s"
  shows "\<exists>s'. state_at k (updateAggregatedAvailability now b) = Some s' \<and>
     ly_cooldownRecordedSeq (st_layer s') = ly_cooldownRecordedSeq (st_layer s)"
proof -
  have "map_of (ca_ModelStates b) k = Some (Some s)" using assms by (auto simp: state_at_def split: option.splits)
  then have "state_at k (updateAggregatedAvailability now b) = Some s \<or> state_at k (updateAggregatedAvailability now b) = Some (tidy now s)"
    using state_at_update [of now b] by (auto simp: state_at_def map_of_map_option)
  then show ?thesis by (auto simp: tidy_def Let_def)
qed

text \<open>A failure that counts stamps the state of its model with the number of the latest execution.\<close>

lemma failure_recorded:
  assumes "model \<noteq> []" and "\<not> skip (re_Error r)" and "modelStateKey (ca_Provider a) model \<noteq> []"
  shows "\<exists>s. state_at (modelStateKey (ca_Provider a) model) (mark_failure skip ms seconds model r now dis seq a) = Some s \<and>
     ly_cooldownRecordedSeq (st_layer s) = seq"
proof -
  let ?k = "modelStateKey (ca_Provider a) model"
  obtain t a' where e: "ensureModelState a model = Some (?k, t, a')"
    using assms(3) by (cases "state_at ?k (normalizeModelStates a)") (auto simp: ensureModelState_def Let_def)
  obtain d where m: "mark_failure skip ms seconds model r now dis seq a = mark_model_failure ms seconds ?k r now d seq t a'"
    using assms(1,2) e by (simp add: mark_failure_def Let_def)
  obtain b s where "mark_model_failure ms seconds ?k r now d seq t a' = updateAggregatedAvailability now b"
      "state_at ?k b = Some s" "ly_cooldownRecordedSeq (st_layer s) = seq"
    using mark_model_failure_states [of ms seconds ?k r now d seq t a'] by blast
  then show ?thesis using update_keeps_recorded [of ?k b s now] by (simp add: m)
qed

lemma retained_success:
  assumes "re_Success r" and "model \<noteq> []" and "0 < re_ExecutionSeq r" and "\<not> unauthorized_failure a"
    and "existingModelState a model = Some s" and "isModelStateActiveCooldown (st_layer s) t"
    and "re_ExecutionSeq r \<le> ly_cooldownRecordedSeq (st_layer s)"
  shows "mark_availability bt seconds d rf model r t dis seq a = a\<lparr>ca_UpdatedAt := t\<rparr>"
proof -
  have "mark_success model r t a = a" using assms by (simp add: mark_success_def Let_def)
  moreover have "\<not> rejects_token bt r" using assms(1) by (simp add: rejects_token_def)
  ultimately show ?thesis using assms(1,4) by (simp add: mark_availability_def Let_def)
qed

text \<open>A success does not lift the verdict on a condemned credential.\<close>

lemma condemned_stays:
  assumes "re_Success r" and "unauthorized_failure a"
  shows "unauthorized_failure (mark_availability bt seconds d rf model r t dis seq a)"
proof -
  have "ca_LastError (mark_success model r t a) = ca_LastError a"
    using assms(2) by (auto simp: mark_success_def ensureModelState_def normalizeModelStates_def put_state_def Let_def split: option.splits prod.splits if_splits)
  then show ?thesis using assms by (auto simp: mark_availability_def Let_def unauthorized_failure_def split: option.splits)
qed

text \<open>C29: A success that was dispatched before a cooldown was recorded does not make the credential usable. After a
  failure of a model that counts against the credential, recorded when execution \<open>n\<close> was the latest and
  leaving a deadline ahead, take a success of the same model from an execution numbered at most \<open>n\<close>, before that
  deadline. If the credential is not condemned by a terminal unauthorized failure at that point, the success
  changes nothing but the time of the update. If it is condemned, the code does reset the state of the
  model, but the credential stays condemned, which blocks it for every model. The model's
  name is one that carries no suffix.\<close>

theorem stale_success_keeps_cooldown:
  fixes a n dis rf seconds model r now bt r' t dis' rf' seconds' n' d
  assumes "model \<noteq> []" and "canonicalModelKey model = model" and "TrimSpace model = model"
    and "\<not> re_Success r" and "\<not> shouldSkipCredentialCooldown bt (re_Error r)"
  defines "a' \<equiv> mark_availability bt seconds ApplyResult rf model r now dis n a"
  assumes "\<exists>s. state_at model a' = Some s \<and> t < ly_NextRetryAfter (st_layer s)" and "0 < t"
    and "re_Success r'" and "0 < re_ExecutionSeq r'" and "re_ExecutionSeq r' \<le> n"
  defines "b \<equiv> mark_availability bt seconds' d rf' model r' t dis' n' a'"
  shows "if unauthorized_failure a' then unauthorized_failure b else b = a'\<lparr>ca_UpdatedAt := t\<rparr>"
proof (cases "unauthorized_failure a'")
  case True
  then show ?thesis using condemned_stays [OF assms(9) True] by (simp add: b_def)
next
  case False
  let ?b = "mark_failure (shouldSkipCredentialCooldown bt) (isModelSupportResultError bt) seconds model r now dis n a"
  have k: "modelStateKey (ca_Provider a) model = model" using assms(2,3) by (simp add: modelStateKey_def)
  have "ca_ModelStates a' = ca_ModelStates ?b"
    using assms(4) by (simp add: a'_def mark_availability_def schedule_refresh_def Let_def)
  then have st: "state_at model a' = state_at model ?b" by (simp add: state_at_def)
  obtain s where s: "state_at model a' = Some s" "ly_cooldownRecordedSeq (st_layer s) = n"
    using failure_recorded [of model "shouldSkipCredentialCooldown bt" r a "isModelSupportResultError bt" seconds now dis n]
      k assms(1,5) st by auto
  then have "isModelStateActiveCooldown (st_layer s) t" using assms(7,8) by (auto simp: isModelStateActiveCooldown_def)
  moreover have "existingModelState a' model = Some s" using s(1) assms(1,2) by (simp add: existingModelState_def)
  ultimately show ?thesis using retained_success [OF assms(9,1,10) False] assms(11) s(2) False by (simp add: b_def)
qed

subsection \<open>The aggregate\<close>

text \<open>C31: What the credential shows after its models changed. For a credential that is neither condemned by a terminal
  unauthorized failure nor held by its own exhausted quota, and that has the state of some model,
  \<open>updateAggregatedAvailability\<close> computes exactly this: the deadlines that have passed are cleared; the credential is unavailable
  iff every model is disabled or waits for a deadline ahead, and then until the least of these
  deadlines; its quota is exceeded if that of any model is, and recovers at the least recovery time of the exceeded ones
  (or at its own, when that is later), at the greatest of their backoff levels. Doing it again changes nothing, and
  another order of the entries of the map gives the same verdict.\<close>

theorem aggregate_exact:
  assumes "\<not> unauthorized_failure a" and "\<not> quota_wrapped a now" and "layers (ca_ModelStates a) \<noteq> []"
  defines "a' \<equiv> updateAggregatedAvailability now a"
  shows "a' = aggregate_of now a \<and> updateAggregatedAvailability now a' = a' \<and>
    (\<forall>al. set al = set (ca_ModelStates a) \<longrightarrow>
       (let b = updateAggregatedAvailability now (a\<lparr>ca_ModelStates := al\<rparr>)
        in ca_Unavailable b = ca_Unavailable a' \<and> ca_NextRetryAfter b = ca_NextRetryAfter a' \<and> ca_Quota b = ca_Quota a'))"
proof -
  have e: "a' = aggregate_of now a" using update_is_aggregate [OF assms(1-3)] by (simp add: a'_def)
  moreover have "updateAggregatedAvailability now a' = a'" using aggregate_stable [OF assms(2,3)] e by simp
  moreover have "let b = updateAggregatedAvailability now (a\<lparr>ca_ModelStates := al\<rparr>)
      in ca_Unavailable b = ca_Unavailable a' \<and> ca_NextRetryAfter b = ca_NextRetryAfter a' \<and> ca_Quota b = ca_Quota a'"
    if al: "set al = set (ca_ModelStates a)" for al
  proof -
    let ?c = "a\<lparr>ca_ModelStates := al\<rparr>"
    have "set (layers al) = set (layers (ca_ModelStates a))" using al by (simp add: layers_set)
    then have "layers (ca_ModelStates ?c) \<noteq> []" using assms(3) by auto
    moreover have "\<not> unauthorized_failure ?c" "\<not> quota_wrapped ?c now"
      using assms(1,2) by (simp_all add: unauthorized_failure_def quota_wrapped_def split: option.splits)
    ultimately show ?thesis using update_is_aggregate [of ?c now] aggregate_order_free [OF al, of now]
      by (simp add: e aggregate_of_def Let_def)
  qed
  ultimately show ?thesis by blast
qed


subsection \<open>An exhausted credential\<close>

lemma quota_end:
  assumes "quota_deadlines r now False a q = (n, cn, level)"
  shows "now < cn" and "re_RetryAfter r = Some h \<Longrightarrow> now + h \<le> cn"
proof -
  have ladder: "now < fst (quotaCooldownAfterFailure q' now)" for q'
    using ladder_positive [of "cq_BackoffLevel q'"]
    by (cases "nextQuotaCooldown (cq_BackoffLevel q') False") (simp add: quotaCooldownAfterFailure_def)
  show "now < cn"
  proof (cases "re_RetryAfter r")
    case None
    then show ?thesis using assms ladder
      by (auto simp: quota_deadlines_def Let_def split: prod.splits if_splits) (metis fst_conv)+
  next
    case (Some d)
    then show ?thesis using assms by (auto simp: quota_deadlines_def Let_def floor_hint_def minQuotaCooldownFloor_def sec_ns_def)
  qed
  show "re_RetryAfter r = Some h \<Longrightarrow> now + h \<le> cn"
    using assms by (auto simp: quota_deadlines_def Let_def floor_hint_def)
qed

lemma keeps_credential [simp]:
  "ca_Quota (put_state k s a) = ca_Quota a" "ca_Quota (map_others k f a) = ca_Quota a" "ca_Quota (auth_notes ms r p t a) = ca_Quota a"
  "ca_Disabled (put_state k s a) = ca_Disabled a" "ca_Disabled (map_others k f a) = ca_Disabled a"
  "ca_Disabled (auth_notes ms r p t a) = ca_Disabled a" "ca_Disabled (credential_exhausted cn level a) = ca_Disabled a"
  "ca_NextRetryAfter (put_state k s a) = ca_NextRetryAfter a" "ca_NextRetryAfter (map_others k f a) = ca_NextRetryAfter a"
  by (simp_all add: put_state_def map_others_def auth_notes_def note_auth_error_def credential_exhausted_def Let_def split: option.splits)

lemma update_wrapped:
  assumes "quota_wrapped a now"
  shows "updateAggregatedAvailability now a = a\<lparr>ca_Unavailable := True\<rparr>"
  using assms by (simp add: updateAggregatedAvailability_def quota_wrapped_def)

lemma exhausted_fields:
  assumes "0 < now" and "quota_branch ms (ca_Provider a) (re_Error r)" and "re_CredentialScope r" and "\<not> unauthorized_failure a"
  shows "\<exists>N level. now < N \<and> (\<forall>h. re_RetryAfter r = Some h \<longrightarrow> now + h \<le> N) \<and>
     ca_Quota (mark_model_failure ms seconds k r now False seq s a) =
       \<lparr>cq_Exceeded = True, cq_Reason = credentialQuota, cq_NextRecoverAt = N, cq_BackoffLevel = level\<rparr> \<and>
     ca_NextRetryAfter (mark_model_failure ms seconds k r now False seq s a) = N \<and>
     ca_Status (mark_model_failure ms seconds k r now False seq s a) = StatusError \<and>
     ca_Disabled (mark_model_failure ms seconds k r now False seq s a) = ca_Disabled a"
proof -
  let ?u = "unwrap_expired a now s"
  define l where "l = st_layer ?u"
  define p where "p = (isCodexTransientRateLimitResultError (ca_Provider a) (re_Error r) \<and> activeQuotaCooldown (ly_Quota l) (ly_NextRetryAfter l) now)"
  obtain n cn level where qd: "quota_deadlines r now False a (ly_Quota l) = (n, cn, level)" by (metis prod_cases3)
  define N where "N = (if cq_Exceeded (ca_Quota a) \<and> cq_Reason (ca_Quota a) = credentialQuota \<and> cq_NextRecoverAt (ca_Quota a) > cn
     then cq_NextRecoverAt (ca_Quota a) else cn)"
  define b where "b = credential_exhausted cn level (map_others k (propagate_quota a now cn level) (auth_notes ms r p False a))"
  have np: "\<not> own_layer_pending r a now" using assms(3) by (simp add: own_layer_pending_def)
  have st: "statusCodeFromResult (re_Error r) = 429" using assms(2) by (simp add: quota_branch_def)
  obtain s4 f where m: "mark_model_failure ms seconds k r now False seq s a =
      updateAggregatedAvailability now ((map_others k f ((put_state k s4 b)\<lparr>ca_cooldownRecordedSeq := seq\<rparr>))\<lparr>ca_Status := StatusError\<rparr>)"
    using assms(2,3,4) np st qd by (simp add: mark_model_failure_def Let_def b_def l_def p_def)
  define c where "c = (map_others k f ((put_state k s4 b)\<lparr>ca_cooldownRecordedSeq := seq\<rparr>))\<lparr>ca_Status := StatusError\<rparr>"
  have q: "ca_Quota c = \<lparr>cq_Exceeded = True, cq_Reason = credentialQuota, cq_NextRecoverAt = N, cq_BackoffLevel = level\<rparr>"
    and n: "ca_NextRetryAfter c = N" and d: "ca_Disabled c = ca_Disabled a" and e: "ca_Status c = StatusError"
    by (simp_all add: c_def b_def N_def credential_exhausted_def Let_def put_state_def map_others_def auth_notes_def note_auth_error_def split: option.splits)
  have N: "now < N" "\<forall>h. re_RetryAfter r = Some h \<longrightarrow> now + h \<le> N" using quota_end [OF qd] by (auto simp: N_def)
  have "updateAggregatedAvailability now c = c\<lparr>ca_Unavailable := True\<rparr>"
    using N(1) by (intro update_wrapped) (simp add: quota_wrapped_def q)
  then show ?thesis using N q n d e m by (auto simp: c_def [symmetric])
qed

text \<open>C28: A credential whose quota is exhausted is blocked for every model. After a result of the status 429 that speaks for the
  whole credential (and is none of the other kinds of failure the code tells apart), with cooling enabled, on
  a credential that is not disabled and not condemned, there is a time ahead, at least the hint of the upstream away, such that
  until it the scheduler's test finds the credential blocked by a cooldown until exactly that time: for every model, for
  those the credential has no state of and for the empty name too. This is while the access token has not expired; with an
  expired token the test gives that as the reason, without a time.\<close>

theorem exhausted_credential_blocked:
  fixes a r model now bt seconds rf seq b
  assumes "0 < now" and "model \<noteq> []" and "modelStateKey (ca_Provider a) model \<noteq> []"
    and "\<not> re_Success r" and "re_CredentialScope r" and "\<not> shouldSkipCredentialCooldown bt (re_Error r)"
    and "quota_branch (isModelSupportResultError bt) (ca_Provider a) (re_Error r)"
    and "\<not> unauthorized_failure a" and "\<not> ca_Disabled a"
  defines "a' \<equiv> mark_availability bt seconds ApplyResult rf model r now False seq a"
  shows "\<exists>N. now < N \<and> (\<forall>h. re_RetryAfter r = Some h \<longrightarrow> now + h \<le> N) \<and>
     (\<forall>m t. t < N \<and> \<not> token_expired b t \<longrightarrow> isAuthBlockedForModel (auth_view b a') m t = (True, blockReasonCooldown, N))"
proof -
  let ?k = "modelStateKey (ca_Provider a) model" and ?ms = "isModelSupportResultError bt"
  obtain t c where e: "ensureModelState a model = Some (?k, t, c)" and c: "\<not> unauthorized_failure c" "ca_Provider c = ca_Provider a" "\<not> ca_Disabled c"
    using assms(3,8,9) by (cases "state_at ?k (normalizeModelStates a)")
      (auto simp: ensureModelState_def normalizeModelStates_def put_state_def unauthorized_failure_def Let_def split: option.splits)
  have m: "mark_failure (shouldSkipCredentialCooldown bt) ?ms seconds model r now False seq a = mark_model_failure ?ms seconds ?k r now False seq t c"
    using assms(2,6) e by (simp add: mark_failure_def Let_def)
  have f0: "ca_Quota a' = ca_Quota (mark_model_failure ?ms seconds ?k r now False seq t c)"
      "ca_NextRetryAfter a' = ca_NextRetryAfter (mark_model_failure ?ms seconds ?k r now False seq t c)"
      "ca_Status a' = ca_Status (mark_model_failure ?ms seconds ?k r now False seq t c)"
      "ca_Disabled a' = ca_Disabled (mark_model_failure ?ms seconds ?k r now False seq t c)"
    using assms(4,8) by (simp_all add: a'_def mark_availability_def schedule_refresh_def m Let_def)
  obtain N level where N: "now < N" "\<forall>h. re_RetryAfter r = Some h \<longrightarrow> now + h \<le> N"
    and f: "ca_Quota a' = \<lparr>cq_Exceeded = True, cq_Reason = credentialQuota, cq_NextRecoverAt = N, cq_BackoffLevel = level\<rparr>"
      "ca_NextRetryAfter a' = N" "ca_Status a' = StatusError" "\<not> ca_Disabled a'"
    using exhausted_fields [of now ?ms c r seconds ?k seq t] assms(1,5,7) c unfolding f0 [symmetric] by auto
  have "N \<noteq> 0" using N(1) assms(1) by simp
  then have "isAuthBlockedForModel (auth_view b a') m t = (True, blockReasonCooldown, N)" if "t < N" "\<not> token_expired b t" for m t
    using that f by (simp add: isAuthBlockedForModel_def auth_view_def quota_view_def hasUnauthorizedAuthFailure_def token_expired_def split: option.splits)
  with N show ?thesis by blast
qed


subsection \<open>A credential whose cooldowns are lifted\<close>

definition free_state :: "cstate \<Rightarrow> bool" where
  "free_state s \<longleftrightarrow> ly_Status (st_layer s) \<noteq> StatusDisabled \<and> \<not> ly_Unavailable (st_layer s) \<and> \<not> cq_Exceeded (ly_Quota (st_layer s))"

lemma free_states_pass:
  assumes "\<forall>k s. (k, Some s) \<in> set al \<longrightarrow> free_state s"
  shows "block_loop p m t (map (\<lambda>(k, so). (k, map_option state_view so)) al) matched (False, blockReasonNone, 0) = (False, blockReasonNone, 0)"
  using assms
proof (induction al arbitrary: matched)
  case (Cons e al)
  obtain k so where e: "e = (k, so)" by fastforce
  show ?case
  proof (cases so)
    case None
    then show ?thesis using Cons e by auto
  next
    case (Some s)
    then have "free_state s" using Cons.prems e by auto
    then have "mo_Status (state_view s) \<noteq> StatusDisabled \<and> state_block (state_view s) t = (False, blockReasonNone, 0)"
      by (simp add: free_state_def state_view_def state_block_def availabilityBlock_def quota_view_def Let_def)
    then show ?thesis using Cons e Some by auto
  qed
qed simp

lemma clear_state_free:
  assumes "ly_Status (st_layer s) \<noteq> StatusDisabled"
  shows "free_state (clear_state now s)" and "\<not> blocked_layer now (st_layer (clear_state now s))" and "tidy now (clear_state now s) = clear_state now s"
  using assms by (auto simp: clear_state_def state_held_def free_state_def blocked_layer_def live_layer_def tidy_def zero_quota_def Let_def)

lemma free_view:
  assumes "\<not> ca_Disabled c" and "ca_Status c \<noteq> StatusDisabled" and "\<not> ca_Unavailable c" and "\<not> cq_Exceeded (ca_Quota c)"
    and "\<forall>k s. (k, Some s) \<in> set (ca_ModelStates c) \<longrightarrow> free_state s" and "\<not> token_expired b t"
  shows "isAuthBlockedForModel (auth_view b c) m t = (False, blockReasonNone, 0)"
  using assms(1-4,6) free_states_pass [OF assms(5)]
  by (auto simp: isAuthBlockedForModel_def auth_view_def quota_view_def hasUnauthorizedAuthFailure_def token_expired_def availabilityBlock_def
      split: option.splits)

lemma mapped_states: "(k, Some s) \<in> set (map (\<lambda>(k, so). (k, map_option f so)) al) \<longleftrightarrow> (\<exists>s0. (k, Some s0) \<in> set al \<and> s = f s0)"
proof (induction al)
  case (Cons e al)
  obtain k' so where "e = (k', so)" by fastforce
  with Cons show ?case by (cases so) auto
qed simp

text \<open>The aggregate of free states.\<close>

lemma update_free:
  fixes c now
  assumes "\<not> ca_Unavailable c" and "\<not> cq_Exceeded (ca_Quota c)" and "\<forall>k s. (k, Some s) \<in> set (ca_ModelStates c) \<longrightarrow> free_state s"
  defines "c' \<equiv> updateAggregatedAvailability now c"
  shows "\<not> ca_Unavailable c' \<and> \<not> cq_Exceeded (ca_Quota c') \<and> ca_Status c' = ca_Status c \<and> ca_Disabled c' = ca_Disabled c \<and>
    (\<forall>k s. (k, Some s) \<in> set (ca_ModelStates c') \<longrightarrow> free_state s)"
proof -
  have u: "\<not> unauthorized_failure c" "\<not> quota_wrapped c now" using assms(1,2) by (simp_all add: unauthorized_failure_def quota_wrapped_def split: option.splits)
  have tidy: "tidy now s = s" if "free_state s" for s using that by (simp add: free_state_def tidy_def Let_def)
  have st: "\<forall>k s. (k, Some s) \<in> set (ca_ModelStates c') \<longrightarrow> free_state s"
    using state_at_update [of now c] assms(3) tidy mapped_states [of _ _ "tidy now" "ca_ModelStates c"] unfolding c'_def by auto
  show ?thesis
  proof (cases "layers (ca_ModelStates c) = []")
    case True
    then have "c' = clearAggregatedAvailability (c\<lparr>ca_ModelStates := ca_ModelStates c'\<rparr>)"
      using u aggregate_loop_result [of now "ca_ModelStates c" agg_start]
      by (auto simp: c'_def updateAggregatedAvailability_def clearAggregatedAvailability_def quota_wrapped_def agg_start_def Let_def split: prod.splits)
    then have "\<not> ca_Unavailable c' \<and> \<not> cq_Exceeded (ca_Quota c') \<and> ca_Status c' = ca_Status c \<and> ca_Disabled c' = ca_Disabled c"
      by (metis clearAggregatedAvailability_def cauth.select_convs cauth.surjective cauth.update_convs zero_quota_def cquota.select_convs(1))
    then show ?thesis using st by blast
  next
    case False
    then have "c' = aggregate_of now c" using update_is_aggregate [OF u] by (simp add: c'_def)
    moreover obtain l where "l \<in> set (layers (ca_ModelStates c))" using False by (cases "layers (ca_ModelStates c)") auto
    then obtain k s where "l = st_layer s" "(k, Some s) \<in> set (ca_ModelStates c)" by (auto simp: layers_set)
    then have "\<not> blocked_layer now l" using assms(3) by (auto simp: blocked_layer_def live_layer_def free_state_def)
    then have "\<not> list_all (blocked_layer now) (layers (ca_ModelStates c))"
      using \<open>l \<in> set (layers (ca_ModelStates c))\<close> by (auto simp: list_all_iff)
    moreover have "\<not> any_exceeded (ca_ModelStates c)"
      using assms(3) by (auto simp: any_exceeded_def list_ex_iff layers_set free_state_def)
    ultimately show ?thesis using st assms(2) by (auto simp: aggregate_of_def aggregate_quota_def zero_quota_def Let_def)
  qed
qed

definition free_auth :: "cauth \<Rightarrow> bool" where
  "free_auth c \<longleftrightarrow> \<not> ca_Disabled c \<and> ca_Status c \<noteq> StatusDisabled \<and> \<not> ca_Unavailable c \<and> \<not> cq_Exceeded (ca_Quota c) \<and>
     (\<forall>k s. (k, Some s) \<in> set (ca_ModelStates c) \<longrightarrow> free_state s)"

lemma cleared_free:
  assumes "\<not> unauthorized_failure a" and "\<not> ca_Disabled a" and "ca_Status a \<noteq> StatusDisabled"
    and "\<forall>k s. (k, Some s) \<in> set (ca_ModelStates a) \<longrightarrow> ly_Status (st_layer s) \<noteq> StatusDisabled"
  shows "free_auth (fst (clearCooldownStateForAuth now a))"
proof -
  define held where "held = (ca_Unavailable a \<or> ca_NextRetryAfter a \<noteq> 0 \<or> cq_Exceeded (ca_Quota a) \<or> cq_NextRecoverAt (ca_Quota a) \<noteq> 0)"
  define a1 where "a1 = (if held then a\<lparr>ca_Unavailable := False, ca_NextRetryAfter := 0, ca_Quota := zero_quota, ca_UpdatedAt := now\<rparr> else a)"
  define c where "c = a1\<lparr>ca_ModelStates := map (\<lambda>(k, so). (k, map_option (clear_state now) so)) (ca_ModelStates a1)\<rparr>"
  define c' where "c' = (if ca_ModelStates c \<noteq> [] then updateAggregatedAvailability now c else c)"
  have c: "\<not> ca_Unavailable c" "\<not> cq_Exceeded (ca_Quota c)" "\<not> ca_Disabled c" "ca_Status c \<noteq> StatusDisabled"
    using assms(2,3) by (simp_all add: c_def a1_def held_def zero_quota_def)
  have s: "\<forall>k s. (k, Some s) \<in> set (ca_ModelStates c) \<longrightarrow> free_state s"
    using assms(4) clear_state_free(1) mapped_states [of _ _ "clear_state now" "ca_ModelStates a"] by (auto simp: c_def a1_def)
  have "\<not> ca_Unavailable c' \<and> \<not> cq_Exceeded (ca_Quota c') \<and> ca_Status c' = ca_Status c \<and> ca_Disabled c' = ca_Disabled c \<and>
    (\<forall>k s. (k, Some s) \<in> set (ca_ModelStates c') \<longrightarrow> free_state s)"
    using update_free [OF c(1,2) s, of now] c(1,2) s by (simp add: c'_def)
  then have "free_auth (if x then c'\<lparr>ca_UpdatedAt := now\<rparr> else c')" for x using c by (simp add: free_auth_def)
  moreover have "\<exists>x. fst (clearCooldownStateForAuth now a) = (if x then c'\<lparr>ca_UpdatedAt := now\<rparr> else c')"
    unfolding clearCooldownStateForAuth_def Let_def held_def [symmetric] a1_def [symmetric] c_def [symmetric] c'_def [symmetric]
    using assms(1) by (simp only: if_False fst_conv) blast
  ultimately show ?thesis by metis
qed

section \<open>Concrete results\<close>

definition demo_tests :: body_tests where
  "demo_tests = \<lparr>bt_accessNotEnabled = (\<lambda>_ _. False), bt_requestInvalid = (\<lambda>_. False), bt_requestNotFound = (\<lambda>_. False),
     bt_modelNotFound = (\<lambda>_. False)\<rparr>"

definition demo_waiting :: cstate where
  "demo_waiting = \<lparr>st_layer = zero_layer\<lparr>ly_Status := StatusError, ly_Unavailable := True, ly_NextRetryAfter := 90 * sec_ns,
     ly_cooldownRecordedSeq := 4\<rparr>, st_shadow = None\<rparr>"

definition demo_cauth :: "string \<Rightarrow> string \<Rightarrow> cauth" where
  "demo_cauth provider model =
     \<lparr>ca_Provider = provider, ca_Status = StatusActive, ca_StatusMessage = [], ca_Disabled = False, ca_Unavailable = False,
      ca_Quota = zero_quota, ca_LastError = None, ca_UpdatedAt = 0, ca_LastRefreshedAt = 0, ca_NextRefreshAfter = 0,
      ca_NextRetryAfter = 0, ca_ModelStates = [(model, Some demo_waiting), (''o'', None)], ca_cooldownRecordedSeq = 0\<rparr>"

definition demo_failed :: "int \<Rightarrow> bool \<Rightarrow> exec_result" where
  "demo_failed status scope =
     \<lparr>re_Success = False, re_Error = Some \<lparr>er_Code = [], er_Message = ''slow down'', er_Retryable = True, er_HTTPStatus = status\<rparr>,
      re_RetryAfter = None, re_CredentialScope = scope, re_ExecutionSeq = 5, re_ModelFallbackReason = []\<rparr>"

definition demo_succeeded :: "nat \<Rightarrow> exec_result" where
  "demo_succeeded n =
     \<lparr>re_Success = True, re_Error = None, re_RetryAfter = None, re_CredentialScope = False, re_ExecutionSeq = n, re_ModelFallbackReason = []\<rparr>"

definition demo_plain :: "unit Auth" where
  "demo_plain = \<lparr>au_ID = ''a'', au_RegistrationEpoch = 0, au_Generation = 0, au_Provider = ''claude'', au_Label = [], au_Status = StatusActive,
     au_StatusMessage = [], au_Disabled = False, au_Unavailable = False, au_Attributes = [], au_Metadata = [],
     au_Quota = quota_view zero_quota, au_LastError = None, au_UpdatedAt = 0, au_NextRefreshAfter = 0, au_NextRetryAfter = 0,
     au_ModelStates = [], au_tokenExpiry = None, au_rest = ()\<rparr>"

theorem cooldown_never_shortened_witness:
  "\<exists>s'. state_at ''m'' (mark_failure (\<lambda>_. False) (\<lambda>_. False) 5 ''m'' (demo_failed 500 False) sec_ns False 7 (demo_cauth ''claude'' ''m'')) = Some s' \<and>
     90 * sec_ns \<le> ly_NextRetryAfter (st_layer s')"
proof -
  have "normalizeModelStates (demo_cauth ''claude'' ''m'') = demo_cauth ''claude'' ''m''" by code_simp
  moreover have "state_at ''m'' (demo_cauth ''claude'' ''m'') = Some demo_waiting" by code_simp
  moreover have "unwrap_expired (demo_cauth ''claude'' ''m'') sec_ns demo_waiting = demo_waiting" by code_simp
  ultimately show ?thesis
    using cooldown_never_shortened [of sec_ns 5 "demo_cauth ''claude'' ''m''" "''m''" demo_waiting "\<lambda>_. False" "\<lambda>_. False" "''m''" "demo_failed 500 False" False 7]
    by (simp add: demo_waiting_def zero_layer_def demo_failed_def sec_ns_def)
qed

theorem stale_success_keeps_cooldown_witness:
  "let a' = mark_availability demo_tests 0 ApplyResult False ''m'' (demo_failed 500 False) sec_ns False 7 (demo_cauth ''claude'' ''m'')
   in mark_availability demo_tests 0 ApplyResult False ''m'' (demo_succeeded 6) (2 * sec_ns) False 8 a' = a'\<lparr>ca_UpdatedAt := 2 * sec_ns\<rparr>"
proof -
  let ?a = "mark_availability demo_tests 0 ApplyResult False ''m'' (demo_failed 500 False) sec_ns False 7 (demo_cauth ''claude'' ''m'')"
  have "canonicalModelKey ''m'' = ''m''" and "TrimSpace ''m'' = ''m''" by code_simp+
  moreover have "\<not> re_Success (demo_failed 500 False)" and "\<not> shouldSkipCredentialCooldown demo_tests (re_Error (demo_failed 500 False))" by code_simp+
  moreover have "\<not> unauthorized_failure ?a" by code_simp
  moreover have "(case state_at ''m'' ?a of None \<Rightarrow> False | Some s \<Rightarrow> 2 * sec_ns < ly_NextRetryAfter (st_layer s))" by code_simp
  then have "\<exists>s. state_at ''m'' ?a = Some s \<and> 2 * sec_ns < ly_NextRetryAfter (st_layer s)" by (auto split: option.splits)
  moreover have "re_Success (demo_succeeded 6)" and "re_ExecutionSeq (demo_succeeded 6) = 6" by (simp_all add: demo_succeeded_def)
  ultimately show ?thesis
    using stale_success_keeps_cooldown [of "''m''" "demo_failed 500 False" demo_tests 0 False sec_ns False 7 "demo_cauth ''claude'' ''m''"
      "2 * sec_ns" "demo_succeeded 6"] by (simp add: sec_ns_def)
qed

theorem aggregate_exact_witness:
  "updateAggregatedAvailability sec_ns (demo_cauth ''claude'' ''m'') = aggregate_of sec_ns (demo_cauth ''claude'' ''m'')"
proof -
  have "\<not> unauthorized_failure (demo_cauth ''claude'' ''m'')" and "\<not> quota_wrapped (demo_cauth ''claude'' ''m'') sec_ns" by code_simp+
  moreover have "layers (ca_ModelStates (demo_cauth ''claude'' ''m'')) \<noteq> []" by (simp add: demo_cauth_def)
  ultimately show ?thesis using aggregate_exact by blast
qed

theorem exhausted_credential_blocked_witness:
  "\<exists>N > sec_ns. \<forall>t < N. isAuthBlockedForModel (auth_view demo_plain (mark_availability demo_tests 0 ApplyResult False ''m''
      (demo_failed 429 True) sec_ns False 7 (demo_cauth ''claude'' ''m''))) ''other'' t = (True, blockReasonCooldown, N)"
proof -
  let ?r = "demo_failed 429 True" and ?a = "demo_cauth ''claude'' ''m''"
  have "modelStateKey (ca_Provider ?a) ''m'' \<noteq> []" and "\<not> re_Success ?r" and "re_CredentialScope ?r"
    and "\<not> shouldSkipCredentialCooldown demo_tests (re_Error ?r)"
    and "quota_branch (isModelSupportResultError demo_tests) (ca_Provider ?a) (re_Error ?r)"
    and "\<not> unauthorized_failure ?a" and "\<not> ca_Disabled ?a" by code_simp+
  moreover have "\<not> token_expired demo_plain t" for t by (simp add: token_expired_def demo_plain_def)
  ultimately show ?thesis
    using exhausted_credential_blocked [of sec_ns "''m''" ?a ?r demo_tests demo_plain 0 False 7] by (force simp: sec_ns_def)
qed

text \<open>The protection from stale successes is lost for a Codex model whose name carries a suffix. The states of Codex models
  are kept under the whole name, but the test for a success from before the cooldown looks under the name without its
  suffix. The same results that keep the cooldown of \<open>m\<close> of a Claude credential lift the one of \<open>m(high)\<close> of
  a Codex credential: the failure, recorded when execution 7 was the latest, leaves a deadline ahead, and the success
  of execution 6 clears it.\<close>

theorem suffixed_success_lifts_cooldown:
  "let a' = mark_availability demo_tests 0 ApplyResult False ''m(high)'' (demo_failed 500 False) sec_ns False 7 (demo_cauth ''codex'' ''m(high)'');
       a'' = mark_availability demo_tests 0 ApplyResult False ''m(high)'' (demo_succeeded 6) (2 * sec_ns) False 8 a'
   in map_option (\<lambda>s. (ly_NextRetryAfter (st_layer s), ly_cooldownRecordedSeq (st_layer s))) (state_at ''m(high)'' a') = Some (90 * sec_ns, 7) \<and>
      map_option (\<lambda>s. ly_NextRetryAfter (st_layer s)) (state_at ''m(high)'' a'') = Some 0"
  by code_simp

end
