(* ===== verification/CooldownStore.thy ===== *)
theory CooldownStore
  imports CooldownProperties
begin

text \<open>
  Cooldowns across a restart: the records that are written of a credential's live cooldowns, how they
  are put back into the credentials that are registered when the service starts again
  (\<open>src/sdk/cliproxy/auth/conductor_cooldown.go\<close>, \<open>cooldown_state.go\<close>), and the reset of a credential's quotas
  by the operator. The store itself (files, one per credential) is not modelled; a record is
  restored as it was written. The path of the credential's file, which names the record's file, is left out.
\<close>

section \<open>Records\<close>

record cooldown_record =
  cr_Provider :: string
  cr_AuthID :: string
  cr_Model :: string
  cr_Status :: string
  cr_NextRetryAfter :: gtime
  cr_Reason :: string
  cr_Quota :: cquota
  cr_LastError :: "Error option"
  cr_ModelFallbackReason :: string
  cr_UpdatedAt :: gtime
  cr_IndependentState :: "layer option"
  cr_CredentialQuotaPropagated :: bool

definition cooldownReason :: "string \<Rightarrow> cquota \<Rightarrow> Error option \<Rightarrow> string" where
  "cooldownReason statusMessage quota lastErr =
     (if TrimSpace (cq_Reason quota) \<noteq> [] then TrimSpace (cq_Reason quota)
      else if TrimSpace statusMessage \<noteq> [] then TrimSpace statusMessage
      else case lastErr of
             None \<Rightarrow> []
           | Some e \<Rightarrow> if TrimSpace (er_Code e) \<noteq> [] then TrimSpace (er_Code e) else TrimSpace (er_Message e))"

definition authCooldownStateRecord :: "string \<Rightarrow> gtime \<Rightarrow> cauth \<Rightarrow> cooldown_record option" where
  "authCooldownStateRecord authID now a =
     (if \<not> ca_Unavailable a \<or> ca_NextRetryAfter a = 0 \<or> \<not> ca_NextRetryAfter a > now then None
      else Some \<lparr>cr_Provider = TrimSpace (ca_Provider a), cr_AuthID = authID, cr_Model = [], cr_Status = ''cooling'',
             cr_NextRetryAfter = ca_NextRetryAfter a, cr_Reason = cooldownReason (ca_StatusMessage a) (ca_Quota a) (ca_LastError a),
             cr_Quota = ca_Quota a, cr_LastError = ca_LastError a, cr_ModelFallbackReason = [], cr_UpdatedAt = ca_UpdatedAt a,
             cr_IndependentState = None, cr_CredentialQuotaPropagated = False\<rparr>)"

definition modelCooldownStateRecord :: "string \<Rightarrow> gtime \<Rightarrow> cauth \<Rightarrow> string \<times> cstate option \<Rightarrow> cooldown_record option" where
  "modelCooldownStateRecord authID now a entry =
     (case entry of (model, state) \<Rightarrow>
        (let model = TrimSpace model
         in case state of
              None \<Rightarrow> None
            | Some s \<Rightarrow>
                (let l = st_layer s
                 in if model = [] \<or> \<not> ly_Unavailable l \<or> ly_NextRetryAfter l = 0 \<or> \<not> ly_NextRetryAfter l > now then None
                    else Some \<lparr>cr_Provider = TrimSpace (ca_Provider a), cr_AuthID = authID, cr_Model = model, cr_Status = ''cooling'',
                           cr_NextRetryAfter = ly_NextRetryAfter l,
                           cr_Reason = cooldownReason (ly_StatusMessage l) (ly_Quota l) (ly_LastError l),
                           cr_Quota = ly_Quota l, cr_LastError = ly_LastError l, cr_ModelFallbackReason = ly_modelFallbackReason l,
                           cr_UpdatedAt = ly_UpdatedAt l, cr_IndependentState = st_shadow s,
                           cr_CredentialQuotaPropagated = ly_credentialQuotaPropagated l\<rparr>)))"

definition cooldownStateRecordsForAuthLocked :: "string \<Rightarrow> gtime \<Rightarrow> bool \<Rightarrow> cauth \<Rightarrow> cooldown_record list" where
  "cooldownStateRecordsForAuthLocked authID now coolingDisabled a =
     (if authID = [] \<or> ca_Disabled a \<or> ca_Status a = StatusDisabled \<or> coolingDisabled then []
      else sort_key cr_Model
        ((case authCooldownStateRecord authID now a of Some rec \<Rightarrow> [rec] | None \<Rightarrow> []) @
         List.map_filter (modelCooldownStateRecord authID now a) (ca_ModelStates a)))"

section \<open>Restoring\<close>

definition devinRecordErrorText :: "cooldown_record \<Rightarrow> string" where
  "devinRecordErrorText rec =
     (case cr_LastError rec of Some e \<Rightarrow> if TrimSpace (er_Message e) \<noteq> [] then er_Message e else [] | None \<Rightarrow> [])"

definition record_quota :: "cooldown_record \<Rightarrow> cquota" where
  "record_quota rec =
     (let q = cr_Quota rec
      in if cq_Exceeded q \<and> cq_NextRecoverAt q = 0 then q\<lparr>cq_NextRecoverAt := cr_NextRetryAfter rec\<rparr> else q)"

definition record_time :: "gtime \<Rightarrow> cooldown_record \<Rightarrow> gtime" where
  "record_time now rec = (if cr_UpdatedAt rec = 0 then now else cr_UpdatedAt rec)"

definition record_layer :: "gtime \<Rightarrow> cooldown_record \<Rightarrow> layer" where
  "record_layer now rec =
     zero_layer\<lparr>ly_Unavailable := True, ly_Status := StatusError, ly_StatusMessage := TrimSpace (cr_Reason rec),
       ly_NextRetryAfter := cr_NextRetryAfter rec, ly_Quota := record_quota rec, ly_LastError := cr_LastError rec,
       ly_UpdatedAt := record_time now rec\<rparr>"

definition live_shadow :: "gtime \<Rightarrow> cstate \<Rightarrow> layer option" where
  "live_shadow now s =
     (let l = st_layer s
      in case st_shadow s of
           Some x \<Rightarrow> Some x
         | None \<Rightarrow> if \<not> ly_credentialQuotaPropagated l \<and> cq_Reason (ly_Quota l) \<noteq> credentialQuota \<and>
                       isModelStateActiveCooldown l now \<and> \<not> isDevinQuotaExhaustionMessage (devinStateErrorText l)
                    then Some l else None)"

text \<open>The record laid beneath a live wrap; \<open>m\<close> is the merged state.\<close>

definition restore_beneath :: "cauth \<Rightarrow> gtime \<Rightarrow> cooldown_record \<Rightarrow> layer option \<Rightarrow> cstate \<Rightarrow> cstate" where
  "restore_beneath a now rec liveShadow m =
     (let newer = (case liveShadow of None \<Rightarrow> False | Some x \<Rightarrow> ly_UpdatedAt x > record_time now rec);
          shadow = (if isDevinQuotaExhaustionMessage (devinRecordErrorText rec) then st_shadow m
                    else if st_shadow m = None \<or> (liveShadow \<noteq> None \<and> \<not> newer) then Some (record_layer now rec)
                    else if liveShadow \<noteq> None \<and> newer then liveShadow
                    else st_shadow m);
          l = mark_quota credentialQuota (cq_NextRecoverAt (ca_Quota a)) (cq_BackoffLevel (ca_Quota a))
                ((st_layer m)\<lparr>ly_credentialQuotaPropagated := True\<rparr>);
          l = (if ly_NextRetryAfter l < cq_NextRecoverAt (ca_Quota a) then l\<lparr>ly_NextRetryAfter := cq_NextRecoverAt (ca_Quota a)\<rparr> else l)
      in \<lparr>st_layer = l\<lparr>ly_Unavailable := True, ly_Status := StatusError\<rparr>, st_shadow = shadow\<rparr>)"

definition restore_wrapped :: "cooldown_record \<Rightarrow> layer option \<Rightarrow> cstate \<Rightarrow> cstate" where
  "restore_wrapped rec liveShadow m =
     \<lparr>st_layer = (st_layer m)\<lparr>ly_credentialQuotaPropagated := True\<rparr>,
      st_shadow = (case (cr_IndependentState rec, liveShadow) of
          (Some i, None) \<Rightarrow> Some i
        | (Some i, Some x) \<Rightarrow> if \<not> ly_UpdatedAt x > ly_UpdatedAt i then Some i else Some x
        | (None, Some x) \<Rightarrow> Some x
        | (None, None) \<Rightarrow> st_shadow m)\<rparr>"

definition restore_state :: "cauth \<Rightarrow> gtime \<Rightarrow> cooldown_record \<Rightarrow> cstate \<Rightarrow> cstate" where
  "restore_state a now rec s =
     (let liveShadow = live_shadow now s;
          wasLiveWrapped = (ly_credentialQuotaPropagated (st_layer s) \<or> cq_Reason (ly_Quota (st_layer s)) = credentialQuota \<or> quota_wrapped a now);
          source = \<lparr>st_layer = (record_layer now rec)\<lparr>ly_modelFallbackReason := ToLower (TrimSpace (cr_ModelFallbackReason rec))\<rparr>, st_shadow = None\<rparr>;
          m = (case mergeModelState (Some s) (Some source) of Some m \<Rightarrow> m | None \<Rightarrow> s);
          isWrappedRecord = (cr_IndependentState rec \<noteq> None \<or> cr_CredentialQuotaPropagated rec \<or>
                             TrimSpace (cq_Reason (record_quota rec)) = credentialQuota)
      in if \<not> isWrappedRecord \<and> wasLiveWrapped then restore_beneath a now rec liveShadow m
         else if isWrappedRecord then restore_wrapped rec liveShadow m
         else m)"

text \<open>A record put back into the credential it names; nothing when it is refused.\<close>

definition restoreCooldownRecordLocked :: "bool \<Rightarrow> gtime \<Rightarrow> cooldown_record \<Rightarrow> cauth \<Rightarrow> cauth option" where
  "restoreCooldownRecordLocked coolingDisabled now rec a =
     (if TrimSpace (cr_AuthID rec) = [] \<or> cr_NextRetryAfter rec = 0 \<or> \<not> cr_NextRetryAfter rec > now then None
      else if ca_Disabled a \<or> ca_Status a = StatusDisabled \<or> coolingDisabled \<or> unauthorized_failure a then None
      else if TrimSpace (cr_Provider rec) \<noteq> [] \<and> \<not> EqualFold (TrimSpace (cr_Provider rec)) (TrimSpace (ca_Provider a)) then None
      else if TrimSpace (cr_Model rec) = []
      then Some (a\<lparr>ca_Unavailable := True, ca_Status := StatusError, ca_NextRetryAfter := cr_NextRetryAfter rec,
                   ca_Quota := record_quota rec, ca_UpdatedAt := record_time now rec,
                   ca_StatusMessage := (if TrimSpace (cr_Reason rec) \<noteq> [] then TrimSpace (cr_Reason rec) else ca_StatusMessage a),
                   ca_LastError := cr_LastError rec\<rparr>)
      else case ensureModelState a (TrimSpace (cr_Model rec)) of
             None \<Rightarrow> None
           | Some (k, s, a) \<Rightarrow>
               Some (updateAggregatedAvailability now ((put_state k (restore_state a now rec s) a)\<lparr>ca_UpdatedAt := record_time now rec\<rparr>)))"

text \<open>All records, those of models before those of credentials. The credentials are a map from their
  identifiers; \<open>off\<close> says for which of them cooling is disabled.\<close>

definition restore_into :: "(cauth \<Rightarrow> bool) \<Rightarrow> gtime \<Rightarrow> cooldown_record \<Rightarrow> (string \<times> cauth) list \<Rightarrow> (string \<times> cauth) list" where
  "restore_into off now rec auths =
     (case map_of auths (TrimSpace (cr_AuthID rec)) of
        None \<Rightarrow> auths
      | Some a \<Rightarrow> (case restoreCooldownRecordLocked (off a) now rec a of
                     None \<Rightarrow> auths
                   | Some a' \<Rightarrow> AList.update (TrimSpace (cr_AuthID rec)) a' auths))"

definition RestoreCooldownStates :: "(cauth \<Rightarrow> bool) \<Rightarrow> gtime \<Rightarrow> cooldown_record list \<Rightarrow> (string \<times> cauth) list \<Rightarrow> (string \<times> cauth) list" where
  "RestoreCooldownStates off now records auths =
     fold (restore_into off now) (filter (\<lambda>rec. TrimSpace (cr_Model rec) = []) records)
       (fold (restore_into off now) (filter (\<lambda>rec. TrimSpace (cr_Model rec) \<noteq> []) records) auths)"

section \<open>Reset by the operator\<close>

text \<open>The change of the credential in \<open>ResetQuota\<close>.\<close>

definition ResetQuota :: "gtime \<Rightarrow> cauth \<Rightarrow> cauth" where
  "ResetQuota now a =
     (let a = a\<lparr>ca_ModelStates := map (\<lambda>(k, so). (k, if TrimSpace k = [] then so else map_option (\<lambda>s. resetModelState now) so)) (ca_ModelStates a)\<rparr>;
          (b, cleared) = clearCooldownStateForAuth now a;
          a = (if cleared then b else if ca_ModelStates b \<noteq> [] then updateAggregatedAvailability now b else b);
          a = (if \<not> ca_Disabled a \<and> ca_Status a \<noteq> StatusDisabled \<and> \<not> hasModelError now a \<and> \<not> unauthorized_failure a
               then a\<lparr>ca_LastError := None, ca_StatusMessage := [], ca_Status := StatusActive\<rparr> else a)
      in a\<lparr>ca_UpdatedAt := now\<rparr>)"

section \<open>A restored cooldown\<close>

lemma merged_state:
  "\<exists>m. mergeModelState (Some t) (Some s) = Some m \<and> st_layer m = merge_layers (st_layer t) (st_layer s)"
  by (simp add: mergeModelState_def Let_def)

lemma restored_deadline:
  "cr_NextRetryAfter rec \<le> deadline (restore_state a now rec s) \<and> ly_Unavailable (st_layer (restore_state a now rec s))"
proof -
  let ?src = "\<lparr>st_layer = (record_layer now rec)\<lparr>ly_modelFallbackReason := ToLower (TrimSpace (cr_ModelFallbackReason rec))\<rparr>, st_shadow = None\<rparr>"
  obtain m where m: "mergeModelState (Some s) (Some ?src) = Some m" "st_layer m = merge_layers (st_layer s) (st_layer ?src)"
    using merged_state by blast
  have "cr_NextRetryAfter rec \<le> deadline m" "ly_Unavailable (st_layer m)"
    by (simp_all add: m(2) merge_layers_def later_def record_layer_def Let_def)
  then show ?thesis by (auto simp: restore_state_def m(1) restore_beneath_def restore_wrapped_def mark_quota_def Let_def)
qed


text \<open>The scheduler's loop over the states of a credential blocks when one of the states of the model does.\<close>

lemma loop_stays_blocked: "fst v \<Longrightarrow> fst (block_loop p m t sts True v)"
proof (induction sts arbitrary: v)
  case (Cons e sts)
  obtain k so where e: "e = (k, so)" by fastforce
  obtain r n where v: "v = (True, r, n)" using Cons.prems by (cases v) auto
  show ?case using Cons.IH e v by (cases so) (auto split: prod.splits)
qed simp

lemma loop_blocks:
  assumes "(k, Some st) \<in> set sts" and "modelStateMatchesRoute p k m" and "fst (state_block st t)"
  shows "fst (block_loop p m t sts matched v)"
  using assms(1)
proof (induction sts arbitrary: matched v)
  case (Cons e sts)
  obtain k' so where e: "e = (k', so)" by fastforce
  obtain x r n where v: "v = (x, r, n)" by (cases v)
  show ?case
  proof (cases "e = (k, Some st)")
    case True
    then show ?thesis using assms(2,3) e v loop_stays_blocked by (auto split: prod.splits)
  next
    case False
    then have "fst (block_loop p m t sts matched' v')" for matched' v' using Cons by simp
    then show ?thesis using e v by (cases so) (auto split: prod.splits)
  qed
qed simp

lemma waiting_blocks:
  assumes "0 < deadline s" and "t < deadline s" and "ly_Unavailable (st_layer s)"
  shows "fst (state_block (state_view s) t)"
  using assms by (simp add: state_block_def state_view_def availabilityBlock_def next_after_def Let_def)

lemma waiting_credential:
  assumes "state_at k a = Some s" and "0 < deadline s" and "t < deadline s" and "ly_Unavailable (st_layer s)"
    and "modelStateMatchesRoute (ca_Provider a) k m" and "m \<noteq> []"
  shows "fst (isAuthBlockedForModel (auth_view b a) m t)"
proof -
  have "(k, Some s) \<in> set (ca_ModelStates a)" using assms(1) by (auto simp: state_at_def split: option.splits dest: map_of_SomeD)
  then have i: "(k, Some (state_view s)) \<in> set (map (\<lambda>(k, so). (k, map_option state_view so)) (ca_ModelStates a))" by force
  then have "fst (block_loop (ca_Provider a) m t (map (\<lambda>(k, so). (k, map_option state_view so)) (ca_ModelStates a)) False (False, blockReasonNone, 0))"
    using loop_blocks [OF i assms(5) waiting_blocks [OF assms(2-4)]] by blast
  moreover have "ca_ModelStates a \<noteq> []" using i by auto
  ultimately show ?thesis using assms(6) by (simp add: isAuthBlockedForModel_def auth_view_def)
qed

lemma update_provider [simp]: "ca_Provider (updateAggregatedAvailability now a) = ca_Provider a"
  by (simp add: updateAggregatedAvailability_def clearAggregatedAvailability_def apply_aggregate_def Let_def split_def)

lemma ensure_key:
  assumes "modelStateKey (ca_Provider a) m \<noteq> []"
  shows "\<exists>s a'. ensureModelState a m = Some (modelStateKey (ca_Provider a) m, s, a') \<and> ca_Provider a' = ca_Provider a"
  using assms by (cases "state_at (modelStateKey (ca_Provider a) m) (normalizeModelStates a)")
    (auto simp: ensureModelState_def normalizeModelStates_def Let_def)

lemma state_key_nonempty: "TrimSpace m \<noteq> [] \<Longrightarrow> modelStateKey p (TrimSpace m) \<noteq> []"
  by (simp add: modelStateKey_def canonicalModelKey_def Let_def)

text \<open>C30: A cooldown survives a restart. The record that is written of a model's live cooldown, restored while its deadline is ahead into a
  credential of the same provider (whatever that credential knows by then; not disabled, not condemned, cooling
  not disabled), is accepted, and until the deadline that was written the scheduler's test blocks every route to the
  model.\<close>

theorem restart_keeps_cooldown:
  assumes "0 < now" and "modelCooldownStateRecord authID before a0 (k, Some s) = Some rec" and "now < ly_NextRetryAfter (st_layer s)"
    and "TrimSpace authID \<noteq> []" and "TrimSpace (ca_Provider a0) = TrimSpace (ca_Provider a)"
    and "\<not> ca_Disabled a" and "ca_Status a \<noteq> StatusDisabled" and "\<not> unauthorized_failure a"
  shows "\<exists>a'. restoreCooldownRecordLocked False now rec a = Some a' \<and>
     (\<forall>b m t. t < ly_NextRetryAfter (st_layer s) \<and> m \<noteq> [] \<and>
        modelStateMatchesRoute (ca_Provider a) (modelStateKey (ca_Provider a) (TrimSpace k)) m \<longrightarrow>
        fst (isAuthBlockedForModel (auth_view b a') m t))"
proof -
  let ?k = "modelStateKey (ca_Provider a) (TrimSpace k)"
  have r: "cr_AuthID rec = authID" "cr_NextRetryAfter rec = deadline s" "cr_Provider rec = TrimSpace (ca_Provider a0)" "cr_Model rec = TrimSpace k" "TrimSpace k \<noteq> []"
    using assms(2) by (auto simp: modelCooldownStateRecord_def Let_def split: if_splits)
  obtain t c where e: "ensureModelState a (TrimSpace k) = Some (?k, t, c)" and c: "ca_Provider c = ca_Provider a"
    using ensure_key [OF state_key_nonempty [OF r(5)]] by fastforce
  define u where "u = restore_state c now rec t"
  define d where "d = (put_state ?k u c)\<lparr>ca_UpdatedAt := record_time now rec\<rparr>"
  have a': "restoreCooldownRecordLocked False now rec a = Some (updateAggregatedAvailability now d)"
    using assms(1,3-8) r e by (simp add: restoreCooldownRecordLocked_def EqualFold_def d_def u_def)
  have u: "deadline s \<le> deadline u" "ly_Unavailable (st_layer u)" using restored_deadline [of rec c now t] r(2) by (simp_all add: u_def)
  have "state_at ?k d = Some u" by (simp add: d_def state_at_def put_state_def update_conv')
  from update_keeps_state [OF this, of now] u(1) assms(3) have st: "state_at ?k (updateAggregatedAvailability now d) = Some u" by simp
  have p: "ca_Provider (updateAggregatedAvailability now d) = ca_Provider a" using c by (simp add: d_def)
  have "fst (isAuthBlockedForModel (auth_view b (updateAggregatedAvailability now d)) m t')"
    if "t' < deadline s" "m \<noteq> []" "modelStateMatchesRoute (ca_Provider a) ?k m" for b :: "'x Auth" and m t'
    using waiting_credential [OF st, of t' m b] u that assms(1,3) p by simp
  with a' show ?thesis by blast
qed

theorem restart_keeps_cooldown_witness:
  "\<exists>rec a'. modelCooldownStateRecord ''c1'' sec_ns (demo_cauth ''claude'' ''m'') (''m'', Some demo_waiting) = Some rec \<and>
     restoreCooldownRecordLocked False (2 * sec_ns) rec ((demo_cauth ''claude'' ''m'')\<lparr>ca_ModelStates := []\<rparr>) = Some a' \<and>
     fst (isAuthBlockedForModel (auth_view demo_plain a') ''m'' (3 * sec_ns))"
proof -
  let ?a = "demo_cauth ''claude'' ''m''" and ?c = "(demo_cauth ''claude'' ''m'')\<lparr>ca_ModelStates := []\<rparr>"
  have "modelCooldownStateRecord ''c1'' sec_ns ?a (''m'', Some demo_waiting) \<noteq> None" by code_simp
  then obtain rec where rec: "modelCooldownStateRecord ''c1'' sec_ns ?a (''m'', Some demo_waiting) = Some rec" by blast
  have "2 * sec_ns < ly_NextRetryAfter (st_layer demo_waiting)" "TrimSpace ''c1'' \<noteq> []"
    "TrimSpace (ca_Provider ?a) = TrimSpace (ca_Provider ?c)" "\<not> ca_Disabled ?c" "ca_Status ?c \<noteq> StatusDisabled"
    "\<not> unauthorized_failure ?c" by code_simp+
  note h = restart_keeps_cooldown [OF _ rec this]
  have "3 * sec_ns < ly_NextRetryAfter (st_layer demo_waiting)"
    "modelStateMatchesRoute (ca_Provider ?c) (modelStateKey (ca_Provider ?c) (TrimSpace ''m'')) ''m''" by code_simp+
  with h rec show ?thesis by (force simp: sec_ns_def)
qed

section \<open>Cooldowns lifted\<close>

lemma free_auth_view: "free_auth c \<Longrightarrow> \<not> token_expired b t \<Longrightarrow> isAuthBlockedForModel (auth_view b c) m t = (False, blockReasonNone, 0)"
  by (rule free_view) (simp_all add: free_auth_def)

lemma free_auth_update: "free_auth c \<Longrightarrow> free_auth (updateAggregatedAvailability now c)"
  using update_free [of c now] by (simp add: free_auth_def)

lemma free_auth_fields [simp]:
  "free_auth (c\<lparr>ca_LastError := e, ca_StatusMessage := x, ca_Status := StatusActive\<rparr>) \<longleftrightarrow>
     free_auth (c\<lparr>ca_Status := StatusActive\<rparr>)"
  "free_auth (c\<lparr>ca_UpdatedAt := u\<rparr>) = free_auth c"
  by (simp_all add: free_auth_def)

lemma reset_free:
  assumes "\<not> unauthorized_failure a" and "\<not> ca_Disabled a" and "ca_Status a \<noteq> StatusDisabled"
    and "\<forall>k s. (k, Some s) \<in> set (ca_ModelStates a) \<longrightarrow> ly_Status (st_layer s) \<noteq> StatusDisabled"
  shows "free_auth (ResetQuota now a)"
proof -
  define r where "r = (\<lambda>(k, so). (k, if TrimSpace k = [] then so else map_option (\<lambda>s. resetModelState now) so))"
  define a1 where "a1 = a\<lparr>ca_ModelStates := map r (ca_ModelStates a)\<rparr>"
  obtain b cleared where b: "clearCooldownStateForAuth now a1 = (b, cleared)" by fastforce
  have "ly_Status (st_layer s) \<noteq> StatusDisabled" if "(k, Some s) \<in> set (map r al)"
    "\<forall>k s. (k, Some s) \<in> set al \<longrightarrow> ly_Status (st_layer s) \<noteq> StatusDisabled" for k s al
    using that by (auto simp: r_def resetModelState_def eq_commute [of "Some _" "map_option _ _"] split: if_splits)
  then have "free_auth b"
    using cleared_free [of a1 now] assms b by (auto simp: a1_def unauthorized_failure_def split: option.splits)
  then have "free_auth (if cleared then b else if ca_ModelStates b \<noteq> [] then updateAggregatedAvailability now b else b)"
    by (simp add: free_auth_update)
  then show ?thesis unfolding ResetQuota_def Let_def r_def [symmetric] a1_def [symmetric] b prod.case
    by (auto simp: free_auth_def)
qed

text \<open>Lifting the cooldowns of a credential makes it usable. After \<open>clearCooldownStateForAuth\<close> (cooling was switched off) and
  after \<open>ResetQuota\<close> (the operator's reset), on a credential that is neither disabled nor condemned and none of whose
  models is disabled, the scheduler's test passes it for every model at every time before its token
  expires, whatever deadlines, quotas and shadows were recorded.\<close>

theorem cleared_credential_usable:
  assumes "\<not> unauthorized_failure a" and "\<not> ca_Disabled a" and "ca_Status a \<noteq> StatusDisabled"
    and "\<forall>k s. (k, Some s) \<in> set (ca_ModelStates a) \<longrightarrow> ly_Status (st_layer s) \<noteq> StatusDisabled" and "\<not> token_expired b t"
  shows "isAuthBlockedForModel (auth_view b (fst (clearCooldownStateForAuth now a))) m t = (False, blockReasonNone, 0) \<and>
    isAuthBlockedForModel (auth_view b (ResetQuota now a)) m t = (False, blockReasonNone, 0)"
  using free_auth_view [OF cleared_free [OF assms(1-4)] assms(5)] free_auth_view [OF reset_free [OF assms(1-4)] assms(5)] by blast

theorem cleared_credential_usable_witness:
  "isAuthBlockedForModel (auth_view demo_plain (ResetQuota sec_ns (demo_cauth ''claude'' ''m''))) ''m'' sec_ns = (False, blockReasonNone, 0)"
proof -
  let ?a = "demo_cauth ''claude'' ''m''"
  have "\<not> unauthorized_failure ?a" "\<not> ca_Disabled ?a" "ca_Status ?a \<noteq> StatusDisabled" "\<not> token_expired demo_plain sec_ns"
    "\<forall>k s. (k, Some s) \<in> set (ca_ModelStates ?a) \<longrightarrow> ly_Status (st_layer s) \<noteq> StatusDisabled"
    by (simp_all add: demo_cauth_def demo_waiting_def unauthorized_failure_def token_expired_def demo_plain_def)
  then show ?thesis using cleared_credential_usable by blast
qed

end
