(* ===== verification/CodexContinuity.thy ===== *)
theory CodexContinuity
  imports CredentialCooldown
begin

text \<open>
  The continuity of Codex sessions under rate limits: the store of
  \<open>src/sdk/cliproxy/auth/codex_rate_limit_continuity.go\<close>. Per credential and model it tells sessions that have worked from
  fresh ones. The first usage limit a fresh session meets blocks fresh sessions only; after an observation
  window one of them goes out as a canary. A limit that an established session meets too, or a lonely canary, is confirmed,
  and then the cooldowns of the credential apply. What the store answers about a result decides
  whether the result changes the credential (\<open>disposition\<close> in \<open>CredentialCooldown\<close>).

  Every operation runs under the store's mutex and is one function on the store; the clock is an
  argument. Attempts are values, as in the source: the map of active attempts keeps a copy. Counters of 64 bits that
  skip zero when they overflow are natural numbers here. The lock of the manager, the policy switches and the
  identity of a session (read from headers and the request body) are outside.
\<close>

section \<open>Data\<close>

record continuity_key =
  ck_authID :: string
  ck_model :: string

datatype continuity_phase = Healthy | FreshBlocked | ConfirmedCooldown

record continuity_state =
  cs_phase :: continuity_phase
  cs_suspect :: bool
  cs_confirmed :: bool
  cs_generation :: nat
  cs_observeUntil :: gtime
  cs_establishedSuccesses :: int
  cs_establishedSessions :: "(string \<times> gtime) list"
  cs_inFlight :: "(string \<times> int) list"
  cs_nextLeaseExpiry :: gtime
  cs_leasePruneScans :: nat
  cs_canaryToken :: nat

record attempt =
  at_key :: continuity_key
  at_sessionID :: string
  at_generation :: nat
  at_established :: bool
  at_incumbent :: bool
  at_canaryToken :: nat
  at_attemptToken :: nat
  at_leaseTTL :: gdur

record continuity_store =
  co_states :: "continuity_key \<Rightarrow> continuity_state option"
  co_nextToken :: nat
  co_nextAttempt :: nat
  co_activeAttempts :: "(nat \<times> attempt) list"

record continuity_cfg =
  cc_ObservationWindowSeconds :: int
  cc_EstablishedSuccessThreshold :: int
  cc_EstablishedSessionTTLSeconds :: int

definition newCodexRateLimitContinuityStore :: continuity_store where
  "newCodexRateLimitContinuityStore = \<lparr>co_states = (\<lambda>_. None), co_nextToken = 0, co_nextAttempt = 0, co_activeAttempts = []\<rparr>"

definition fresh_continuity :: "nat \<Rightarrow> continuity_state" where
  "fresh_continuity generation =
     \<lparr>cs_phase = Healthy, cs_suspect = False, cs_confirmed = False, cs_generation = generation, cs_observeUntil = 0,
      cs_establishedSuccesses = 0, cs_establishedSessions = [], cs_inFlight = [], cs_nextLeaseExpiry = 0, cs_leasePruneScans = 0,
      cs_canaryToken = 0\<rparr>"

text \<open>Reading a map of numbers or times: zero when the key is absent.\<close>

definition zero_at :: "(string \<times> int) list \<Rightarrow> string \<Rightarrow> int" where
  "zero_at m k = (case map_of m k of None \<Rightarrow> 0 | Some n \<Rightarrow> n)"

definition put_continuity :: "continuity_key \<Rightarrow> continuity_state \<Rightarrow> continuity_store \<Rightarrow> continuity_store" where
  "put_continuity k st s = s\<lparr>co_states := (co_states s)(k := Some st)\<rparr>"

section \<open>Helpers\<close>

definition codexRateLimitObservationWindow :: "continuity_cfg \<Rightarrow> gdur" where
  "codexRateLimitObservationWindow cfg = wrap64 (cc_ObservationWindowSeconds cfg * sec_ns)"

definition codexRateLimitEstablishedSessionTTL :: "continuity_cfg \<Rightarrow> gdur" where
  "codexRateLimitEstablishedSessionTTL cfg = wrap64 (cc_EstablishedSessionTTLSeconds cfg * sec_ns)"

definition setCodexRateLimitContinuityPhase :: "continuity_phase \<Rightarrow> continuity_state \<Rightarrow> continuity_state" where
  "setCodexRateLimitContinuityPhase phase st =
     st\<lparr>cs_phase := phase, cs_suspect := (phase = FreshBlocked), cs_confirmed := (phase = ConfirmedCooldown)\<rparr>"

definition ensureCodexRateLimitContinuityState :: "continuity_state \<Rightarrow> continuity_state" where
  "ensureCodexRateLimitContinuityState st =
     (if cs_confirmed st then setCodexRateLimitContinuityPhase ConfirmedCooldown st
      else if cs_suspect st then setCodexRateLimitContinuityPhase FreshBlocked st
      else st)"

definition earlier_expiry :: "gtime \<Rightarrow> gtime \<Rightarrow> gtime" where
  "earlier_expiry expiresAt n = (if n = 0 \<or> expiresAt < n then expiresAt else n)"

definition pruneCodexRateLimitContinuityState :: "gtime \<Rightarrow> continuity_state \<Rightarrow> continuity_state" where
  "pruneCodexRateLimitContinuityState now st =
     (if cs_nextLeaseExpiry st > now \<and> cs_nextLeaseExpiry st \<noteq> 0 then st
      else let live = filter (\<lambda>(_, expiresAt). expiresAt > now) (cs_establishedSessions st)
           in st\<lparr>cs_leasePruneScans := cs_leasePruneScans st + 1, cs_establishedSessions := live,
                 cs_nextLeaseExpiry := fold (\<lambda>(_, expiresAt). earlier_expiry expiresAt) live 0\<rparr>)"

definition codexRateLimitCanaryEligible :: "continuity_cfg \<Rightarrow> gtime \<Rightarrow> continuity_state \<Rightarrow> bool" where
  "codexRateLimitCanaryEligible cfg now st =
     (if cs_phase st \<noteq> FreshBlocked \<or> cs_canaryToken st \<noteq> 0 then False
      else \<not> cs_observeUntil st > now \<or> cs_establishedSuccesses st \<ge> cc_EstablishedSuccessThreshold cfg)"

definition advanceCodexRateLimitContinuityGeneration :: "continuity_state \<Rightarrow> continuity_state" where
  "advanceCodexRateLimitContinuityGeneration st = st\<lparr>cs_generation := cs_generation st + 1\<rparr>"

definition incr_inFlight :: "string \<Rightarrow> continuity_state \<Rightarrow> continuity_state" where
  "incr_inFlight sid st = st\<lparr>cs_inFlight := AList.update sid (zero_at (cs_inFlight st) sid + 1) (cs_inFlight st)\<rparr>"

section \<open>Operations\<close>

definition continuity_clear :: "continuity_store \<Rightarrow> continuity_store" where
  "continuity_clear s = s\<lparr>co_states := (\<lambda>_. None), co_activeAttempts := []\<rparr>"

definition continuity_removeAuth :: "string \<Rightarrow> continuity_store \<Rightarrow> continuity_store" where
  "continuity_removeAuth authID s =
     (if TrimSpace authID = [] then s
      else s\<lparr>co_states := (\<lambda>k. if ck_authID k = authID then None else co_states s k),
             co_activeAttempts := filter (\<lambda>(t, a). ck_authID (at_key a) \<noteq> authID) (co_activeAttempts s)\<rparr>)"

text \<open>Whether a candidate is allowed, is an established one under observation, or is confirmed to be limited.\<close>

definition candidateDisposition :: "continuity_key \<Rightarrow> string \<Rightarrow> continuity_cfg \<Rightarrow> gtime \<Rightarrow> continuity_store \<Rightarrow>
    (bool \<times> bool \<times> bool) \<times> continuity_store" where
  "candidateDisposition key sessionID cfg now s =
     (case co_states s key of
        None \<Rightarrow> ((True, False, False), s)
      | Some st \<Rightarrow>
          (let st = pruneCodexRateLimitContinuityState now (ensureCodexRateLimitContinuityState st);
               answer = (if cs_phase st = ConfirmedCooldown then (True, False, True)
                         else if cs_phase st = Healthy then (True, False, False)
                         else if zero_at (cs_establishedSessions st) sessionID > now \<or> zero_at (cs_inFlight st) sessionID > 0
                         then (True, True, False)
                         else (codexRateLimitCanaryEligible cfg now st, False, False))
           in (answer, put_continuity key st s)))"

text \<open>The attempt, whether it is admitted, and the store.\<close>

definition beginWithLeaseTTL :: "continuity_key \<Rightarrow> string \<Rightarrow> continuity_cfg \<Rightarrow> gdur \<Rightarrow> gtime \<Rightarrow> continuity_store \<Rightarrow>
    attempt \<times> bool \<times> continuity_store" where
  "beginWithLeaseTTL key sessionID cfg leaseTTL now s =
     (let a = \<lparr>at_key = key, at_sessionID = sessionID, at_generation = 0, at_established = False, at_incumbent = False,
               at_canaryToken = 0, at_attemptToken = 0, at_leaseTTL = leaseTTL\<rparr>;
          st = (case co_states s key of Some st \<Rightarrow> st | None \<Rightarrow> fresh_continuity 1);
          st = ensureCodexRateLimitContinuityState st;
          st = (if cs_generation st = 0 then st\<lparr>cs_generation := 1\<rparr> else st);
          st = pruneCodexRateLimitContinuityState now st
      in if cs_phase st = ConfirmedCooldown then (a, False, put_continuity key st s)
         else let t = co_nextAttempt s + 1;
                  a = a\<lparr>at_generation := cs_generation st, at_attemptToken := t\<rparr>;
                  s = s\<lparr>co_nextAttempt := t, co_activeAttempts := AList.update t a (co_activeAttempts s)\<rparr>
              in if zero_at (cs_establishedSessions st) sessionID > now
                 then (a\<lparr>at_established := True\<rparr>, True, put_continuity key (incr_inFlight sessionID st) s)
                 else if zero_at (cs_inFlight st) sessionID > 0 \<or> cs_phase st = Healthy
                 then (a\<lparr>at_incumbent := True\<rparr>, True, put_continuity key (incr_inFlight sessionID st) s)
                 else if \<not> codexRateLimitCanaryEligible cfg now st
                 then (a\<lparr>at_attemptToken := 0\<rparr>, False,
                       put_continuity key st (s\<lparr>co_activeAttempts := AList.delete t (co_activeAttempts s)\<rparr>))
                 else let c = co_nextToken s + 1
                      in (a\<lparr>at_canaryToken := c\<rparr>, True,
                          put_continuity key ((incr_inFlight sessionID st)\<lparr>cs_canaryToken := c\<rparr>) (s\<lparr>co_nextToken := c\<rparr>)))"

definition attemptCurrentLocked :: "attempt \<Rightarrow> continuity_store \<Rightarrow> bool" where
  "attemptCurrentLocked a s =
     (if at_attemptToken a = 0 then True
      else case map_of (co_activeAttempts s) (at_attemptToken a) of
             None \<Rightarrow> False
           | Some b \<Rightarrow> at_key b = at_key a \<and> at_sessionID b = at_sessionID a)"

text \<open>Whether the attempt was released, its state and the active attempts.\<close>

definition releaseAttemptLocked :: "attempt \<Rightarrow> continuity_state \<Rightarrow> (nat \<times> attempt) list \<Rightarrow>
    bool \<times> continuity_state \<times> (nat \<times> attempt) list" where
  "releaseAttemptLocked a st active =
     (if at_attemptToken a = 0 then (False, st, active)
      else case map_of active (at_attemptToken a) of
             None \<Rightarrow> (False, st, active)
           | Some b \<Rightarrow>
               if at_key b \<noteq> at_key a \<or> at_sessionID b \<noteq> at_sessionID a then (False, st, active)
               else (True,
                     st\<lparr>cs_inFlight := (if zero_at (cs_inFlight st) (at_sessionID a) > 1
                                     then AList.update (at_sessionID a) (zero_at (cs_inFlight st) (at_sessionID a) - 1) (cs_inFlight st)
                                     else AList.delete (at_sessionID a) (cs_inFlight st))\<rparr>,
                     AList.delete (at_attemptToken a) active))"

definition reset_observation :: "continuity_cfg \<Rightarrow> gtime \<Rightarrow> continuity_state \<Rightarrow> continuity_state" where
  "reset_observation cfg now st =
     st\<lparr>cs_canaryToken := 0, cs_observeUntil := now + codexRateLimitObservationWindow cfg, cs_establishedSuccesses := 0\<rparr>"

definition observe_success :: "attempt \<Rightarrow> continuity_cfg \<Rightarrow> gtime \<Rightarrow> continuity_state \<Rightarrow> continuity_state" where
  "observe_success a cfg now st =
     (let matchingCanary = (at_canaryToken a \<noteq> 0 \<and> at_canaryToken a = cs_canaryToken st);
          leaseTTL = (if at_leaseTTL a \<le> 0 then codexRateLimitEstablishedSessionTTL cfg else at_leaseTTL a);
          expiresAt = now + leaseTTL;
          st = st\<lparr>cs_establishedSessions := AList.update (at_sessionID a) expiresAt (cs_establishedSessions st),
                  cs_nextLeaseExpiry := earlier_expiry expiresAt (cs_nextLeaseExpiry st)\<rparr>
      in if matchingCanary
         then (setCodexRateLimitContinuityPhase Healthy (advanceCodexRateLimitContinuityGeneration st))
                \<lparr>cs_observeUntil := 0, cs_establishedSuccesses := 0, cs_canaryToken := 0\<rparr>
         else if cs_phase st = FreshBlocked \<and> (at_established a \<or> at_incumbent a)
         then (if cs_establishedSuccesses st < cc_EstablishedSuccessThreshold cfg
               then st\<lparr>cs_establishedSuccesses := cs_establishedSuccesses st + 1\<rparr> else st)
         else st)"

definition confirm_limit :: "continuity_state \<Rightarrow> continuity_state" where
  "confirm_limit st =
     (setCodexRateLimitContinuityPhase ConfirmedCooldown (advanceCodexRateLimitContinuityGeneration st))
       \<lparr>cs_observeUntil := 0, cs_establishedSuccesses := 0, cs_canaryToken := 0, cs_establishedSessions := [], cs_inFlight := [],
        cs_nextLeaseExpiry := 0\<rparr>"

definition observe_limit :: "attempt \<Rightarrow> continuity_cfg \<Rightarrow> gtime \<Rightarrow> continuity_state \<Rightarrow> (nat \<times> attempt) list \<Rightarrow>
    disposition \<times> continuity_state \<times> (nat \<times> attempt) list" where
  "observe_limit a cfg now st active =
     (let matchingCanary = (at_canaryToken a \<noteq> 0 \<and> at_canaryToken a = cs_canaryToken st);
          incumbentUsageLimit = (at_established a \<or> (at_incumbent a \<and> cs_phase st = FreshBlocked))
      in if incumbentUsageLimit \<or> matchingCanary
         then (if matchingCanary \<and> (cs_establishedSessions st \<noteq> [] \<or> cs_inFlight st \<noteq> [])
               then (ObserveOnly, reset_observation cfg now st, active)
               else (ApplyResult, confirm_limit st, filter (\<lambda>(t, b). at_key b \<noteq> at_key a) active))
         else if cs_phase st \<noteq> FreshBlocked
         then (ObserveOnly, reset_observation cfg now (setCodexRateLimitContinuityPhase FreshBlocked st), active)
         else (ObserveOnly, st, active))"

definition codexUsageLimit :: string where
  "codexUsageLimit = ''usage-limit''"

definition continuity_observe :: "attempt \<Rightarrow> bool \<Rightarrow> string \<Rightarrow> continuity_cfg \<Rightarrow> gtime \<Rightarrow> continuity_store \<Rightarrow>
    disposition \<times> continuity_store" where
  "continuity_observe a success fallbackReason cfg now s =
     (let usageLimit = EqualFold (TrimSpace fallbackReason) codexUsageLimit;
          stale = (if success \<or> usageLimit then RecordOnly else ApplyResult)
      in if ck_authID (at_key a) = [] \<or> ck_model (at_key a) = [] \<or> at_sessionID a = [] then (ApplyResult, s)
         else if \<not> attemptCurrentLocked a s then (stale, s)
         else if co_states s (at_key a) = None \<and> \<not> success \<and> \<not> usageLimit then (ApplyResult, s)
         else let st = (case co_states s (at_key a) of
                          Some st \<Rightarrow> st
                        | None \<Rightarrow> fresh_continuity (if at_generation a = 0 then 1 else at_generation a));
                  st = (if cs_generation st = 0 then st\<lparr>cs_generation := 1\<rparr> else st);
                  st = pruneCodexRateLimitContinuityState now (ensureCodexRateLimitContinuityState st);
                  (released, st, active) = releaseAttemptLocked a st (co_activeAttempts s);
                  s = s\<lparr>co_activeAttempts := active\<rparr>
              in if at_generation a \<noteq> 0 \<and> at_generation a \<noteq> cs_generation st then (stale, put_continuity (at_key a) st s)
                 else if success then (ApplyResult, put_continuity (at_key a) (observe_success a cfg now st) s)
                 else if usageLimit
                 then (let (d, st, active) = observe_limit a cfg now st active
                       in (d, put_continuity (at_key a) st (s\<lparr>co_activeAttempts := active\<rparr>)))
                 else if at_canaryToken a \<noteq> 0 \<and> at_canaryToken a = cs_canaryToken st
                 then (ApplyResult, put_continuity (at_key a) (reset_observation cfg now st) s)
                 else (ApplyResult, put_continuity (at_key a) st s))"

definition continuity_abandon :: "attempt \<Rightarrow> continuity_cfg \<Rightarrow> gtime \<Rightarrow> continuity_store \<Rightarrow> continuity_store" where
  "continuity_abandon a cfg now s =
     (case co_states s (at_key a) of
        None \<Rightarrow> s
      | Some st \<Rightarrow>
          if \<not> attemptCurrentLocked a s then s
          else let st = ensureCodexRateLimitContinuityState st;
                   (released, st, active) = releaseAttemptLocked a st (co_activeAttempts s)
               in if \<not> released then put_continuity (at_key a) st s
                  else let st = (if at_canaryToken a \<noteq> 0 \<and> cs_canaryToken st = at_canaryToken a \<and>
                                    (at_generation a = 0 \<or> at_generation a = cs_generation st)
                                 then reset_observation cfg now st else st)
                       in put_continuity (at_key a) st (s\<lparr>co_activeAttempts := active\<rparr>))"

text \<open>The loop over the active attempts of the session, which clears the canary of the state when the stored attempt has it, and
  the loop over the states.\<close>

definition drop_session :: "string \<Rightarrow> bool \<Rightarrow> continuity_state \<Rightarrow> continuity_state" where
  "drop_session sessionID keep st =
     (let st = ensureCodexRateLimitContinuityState st
      in st\<lparr>cs_establishedSessions := AList.delete sessionID (cs_establishedSessions st),
            cs_inFlight := (if keep then cs_inFlight st else AList.delete sessionID (cs_inFlight st)), cs_nextLeaseExpiry := 0\<rparr>)"

definition drop_canary :: "(nat \<times> attempt) list \<Rightarrow> continuity_key \<Rightarrow> continuity_state \<Rightarrow> continuity_state" where
  "drop_canary dropped k st =
     (if list_ex (\<lambda>(t, a). at_key a = k \<and> at_canaryToken a \<noteq> 0 \<and> cs_canaryToken st = at_canaryToken a) dropped
      then st\<lparr>cs_canaryToken := 0, cs_establishedSuccesses := 0\<rparr> else st)"

definition removeSessionPreservingKey :: "string \<Rightarrow> continuity_key option \<Rightarrow> continuity_store \<Rightarrow> continuity_store" where
  "removeSessionPreservingKey sessionID preserve s =
     (if sessionID = [] then s
      else let kept = (\<lambda>(t, a). at_sessionID a \<noteq> sessionID \<or> preserve = Some (at_key a));
               dropped = filter (\<lambda>x. \<not> kept x) (co_activeAttempts s)
           in s\<lparr>co_states := (\<lambda>k. map_option (\<lambda>st. drop_session sessionID (preserve = Some k) (drop_canary dropped k st)) (co_states s k)),
                co_activeAttempts := filter kept (co_activeAttempts s)\<rparr>)"

definition reopenConfirmed :: "continuity_key \<Rightarrow> nat \<Rightarrow> continuity_store \<Rightarrow> bool \<times> continuity_store" where
  "reopenConfirmed key expectedGeneration s =
     (case co_states s key of
        None \<Rightarrow> (False, s)
      | Some st \<Rightarrow>
          (let st = ensureCodexRateLimitContinuityState st
           in if cs_phase st \<noteq> ConfirmedCooldown \<or> (expectedGeneration \<noteq> 0 \<and> cs_generation st \<noteq> expectedGeneration)
              then (False, put_continuity key st s)
              else (True, put_continuity key
                ((setCodexRateLimitContinuityPhase FreshBlocked (advanceCodexRateLimitContinuityGeneration st))
                   \<lparr>cs_observeUntil := 0, cs_canaryToken := 0, cs_establishedSuccesses := 0, cs_establishedSessions := [],
                    cs_inFlight := [], cs_nextLeaseExpiry := 0\<rparr>) s)))"

definition dispatchAllowed :: "attempt \<Rightarrow> continuity_store \<Rightarrow> bool \<times> bool" where
  "dispatchAllowed a s =
     (if ck_authID (at_key a) = [] then (True, False)
      else case co_states s (at_key a) of
             None \<Rightarrow> (False, False)
           | Some st \<Rightarrow>
               if \<not> attemptCurrentLocked a s then (False, False)
               else let st = ensureCodexRateLimitContinuityState st; confirmed = (cs_phase st = ConfirmedCooldown)
                    in (\<not> confirmed \<and> (at_generation a = 0 \<or> at_generation a = cs_generation st), confirmed))"

end
