(* ===== verification/ContinuityProperties.thy ===== *)
theory ContinuityProperties
  imports CodexContinuity
begin

text \<open>
  What the continuity store promises: its machine (any requests, results, repeated results, closed sessions and lifecycle
  events, in any order and at any times), and the invariant of its tokens, canaries and counts of
  attempts in flight.
\<close>

section \<open>The machine\<close>

text \<open>The state is the store and the attempts that were ever admitted. A result may be observed, or an
  attempt abandoned, any number of times and at any time; the clock of an admission is not before the zero time.\<close>

inductive continuity_step :: "continuity_store \<times> attempt list \<Rightarrow> continuity_store \<times> attempt list \<Rightarrow> bool" where
  step_begin: "beginWithLeaseTTL key sid cfg ttl now s = (a, True, s') \<Longrightarrow> 0 \<le> now \<Longrightarrow> continuity_step (s, is) (s', a # is)"
| step_refused: "beginWithLeaseTTL key sid cfg ttl now s = (a, False, s') \<Longrightarrow> 0 \<le> now \<Longrightarrow> continuity_step (s, is) (s', is)"
| step_observe: "a \<in> set is \<Longrightarrow> continuity_observe a success reason cfg now s = (d, s') \<Longrightarrow> continuity_step (s, is) (s', is)"
| step_abandon: "a \<in> set is \<Longrightarrow> continuity_step (s, is) (continuity_abandon a cfg now s, is)"
| step_candidate: "continuity_step (s, is) (snd (candidateDisposition key sid cfg now s), is)"
| step_session: "continuity_step (s, is) (removeSessionPreservingKey sid preserve s, is)"
| step_reopen: "continuity_step (s, is) (snd (reopenConfirmed key gen s), is)"
| step_clear: "continuity_step (s, is) (continuity_clear s, is)"
| step_remove: "continuity_step (s, is) (continuity_removeAuth authID s, is)"

definition continuity_start :: "continuity_store \<times> attempt list \<Rightarrow> bool" where
  "continuity_start x \<longleftrightarrow> x = (newCodexRateLimitContinuityStore, [])"

section \<open>The invariant\<close>

text \<open>How many active attempts a session has at a key.\<close>

definition flights :: "(nat \<times> attempt) list \<Rightarrow> continuity_key \<Rightarrow> string \<Rightarrow> int" where
  "flights active k sid = asum (\<lambda>b. if at_key b = k \<and> at_sessionID b = sid then 1 else 0) active"

definition flight_ok :: "(nat \<times> attempt) list \<Rightarrow> continuity_key \<Rightarrow> continuity_state \<Rightarrow> bool" where
  "flight_ok active k st \<longleftrightarrow>
     keys_distinct (cs_inFlight st) \<and> (\<forall>(x, n) \<in> set (cs_inFlight st). n > 0) \<and>
     (\<forall>sid. zero_at (cs_inFlight st) sid = flights active k sid)"

definition phase_sync :: "(nat \<times> attempt) list \<Rightarrow> continuity_key \<Rightarrow> continuity_state \<Rightarrow> bool" where
  "phase_sync active k st \<longleftrightarrow>
     cs_suspect st = (cs_phase st = FreshBlocked) \<and> cs_confirmed st = (cs_phase st = ConfirmedCooldown) \<and> 0 < cs_generation st \<and>
     (cs_canaryToken st \<noteq> 0 \<longrightarrow> cs_phase st = FreshBlocked) \<and>
     (cs_phase st = ConfirmedCooldown \<longrightarrow> (\<forall>(t, b) \<in> set active. at_key b \<noteq> k))"

definition key_ok :: "nat \<Rightarrow> (nat \<times> attempt) list \<Rightarrow> continuity_key \<Rightarrow> continuity_state \<Rightarrow> bool" where
  "key_ok n active k st \<longleftrightarrow> flight_ok active k st \<and> phase_sync active k st \<and> cs_canaryToken st \<le> n"

definition issued_ok :: "continuity_store \<Rightarrow> attempt list \<Rightarrow> bool" where
  "issued_ok s is \<longleftrightarrow>
     distinct (map at_attemptToken is) \<and>
     (\<forall>a \<in> set is. 0 < at_attemptToken a \<and> at_attemptToken a \<le> co_nextAttempt s \<and> at_canaryToken a \<le> co_nextToken s) \<and>
     (\<forall>a \<in> set is. \<forall>b \<in> set is. at_canaryToken a = at_canaryToken b \<and> at_canaryToken a \<noteq> 0 \<longrightarrow> a = b)"

text \<open>An entry of the active attempts is a copy of an admitted attempt, taken before its canary token was set.\<close>

definition copy_ok :: "(continuity_key \<Rightarrow> continuity_state option) \<Rightarrow> attempt list \<Rightarrow> nat \<Rightarrow> attempt \<Rightarrow> bool" where
  "copy_ok states is t b \<longleftrightarrow>
     at_canaryToken b = 0 \<and> states (at_key b) \<noteq> None \<and>
     (\<exists>a \<in> set is. at_attemptToken a = t \<and> at_key a = at_key b \<and> at_sessionID a = at_sessionID b)"

definition active_ok :: "continuity_store \<Rightarrow> attempt list \<Rightarrow> bool" where
  "active_ok s is \<longleftrightarrow>
     keys_distinct (co_activeAttempts s) \<and> (\<forall>t b. (t, b) \<in> set (co_activeAttempts s) \<longrightarrow> copy_ok (co_states s) is t b)"

lemma copy_ok_mono: "copy_ok states is t b \<Longrightarrow> (states (at_key b) \<noteq> None \<Longrightarrow> states' (at_key b) \<noteq> None) \<Longrightarrow> set is \<subseteq> set is' \<Longrightarrow> copy_ok states' is' t b"
  by (auto simp: copy_ok_def)

definition is_active :: "attempt \<Rightarrow> continuity_store \<Rightarrow> bool" where
  "is_active a s \<longleftrightarrow> at_attemptToken a \<in> fst ` set (co_activeAttempts s)"

definition canary_ok :: "continuity_store \<Rightarrow> attempt list \<Rightarrow> bool" where
  "canary_ok s is \<longleftrightarrow>
     (\<forall>a \<in> set is. at_canaryToken a \<noteq> 0 \<and> is_active a s \<longrightarrow>
        (\<exists>st. co_states s (at_key a) = Some st \<and> cs_canaryToken st = at_canaryToken a \<and> cs_generation st = at_generation a))"

definition continuity_ok :: "continuity_store \<times> attempt list \<Rightarrow> bool" where
  "continuity_ok x \<longleftrightarrow>
     (case x of (s, is) \<Rightarrow> issued_ok s is \<and> active_ok s is \<and> canary_ok s is \<and>
        (\<forall>k st. co_states s k = Some st \<longrightarrow> key_ok (co_nextToken s) (co_activeAttempts s) k st))"

lemma continuity_start_ok: "continuity_start x \<Longrightarrow> continuity_ok x"
  by (simp add: continuity_start_def continuity_ok_def issued_ok_def active_ok_def canary_ok_def is_active_def newCodexRateLimitContinuityStore_def)

section \<open>Helpers\<close>

lemma put_continuity_fields [simp]:
  "co_activeAttempts (put_continuity k st s) = co_activeAttempts s" "co_nextToken (put_continuity k st s) = co_nextToken s"
  "co_nextAttempt (put_continuity k st s) = co_nextAttempt s" "co_states (put_continuity k st s) = (co_states s)(k := Some st)"
  "put_continuity k st (put_continuity k st' s) = put_continuity k st s"
  by (simp_all add: put_continuity_def)

lemma ensure_in_sync [simp]: "phase_sync active k st \<Longrightarrow> ensureCodexRateLimitContinuityState st = st"
  by (cases st) (auto simp: phase_sync_def ensureCodexRateLimitContinuityState_def setCodexRateLimitContinuityPhase_def)

lemma prune_fields [simp]:
  "cs_phase (pruneCodexRateLimitContinuityState now st) = cs_phase st" "cs_suspect (pruneCodexRateLimitContinuityState now st) = cs_suspect st"
  "cs_confirmed (pruneCodexRateLimitContinuityState now st) = cs_confirmed st"
  "cs_generation (pruneCodexRateLimitContinuityState now st) = cs_generation st"
  "cs_inFlight (pruneCodexRateLimitContinuityState now st) = cs_inFlight st"
  "cs_canaryToken (pruneCodexRateLimitContinuityState now st) = cs_canaryToken st"
  "cs_observeUntil (pruneCodexRateLimitContinuityState now st) = cs_observeUntil st"
  "cs_establishedSuccesses (pruneCodexRateLimitContinuityState now st) = cs_establishedSuccesses st"
  by (simp_all add: pruneCodexRateLimitContinuityState_def Let_def)

lemma prune_ok [simp]: "key_ok n active k (pruneCodexRateLimitContinuityState now st) = key_ok n active k st"
  by (simp add: key_ok_def flight_ok_def phase_sync_def)

lemma update_fresh: "t \<notin> fst ` set al \<Longrightarrow> AList.update t v al = al @ [(t, v)]"
  by (induction al) auto

lemma set_alist:
  "set (AList.delete k al) \<subseteq> set al" "set (AList.update k v al) \<subseteq> insert (k, v) (set al)"
  by (induction al) (auto split: if_splits)

lemma zero_at_update [simp]: "zero_at (AList.update k v m) k' = (if k' = k then v else zero_at m k')"
  by (simp add: zero_at_def update_conv')

lemma zero_at_delete [simp]: "zero_at (AList.delete k m) k' = (if k' = k then 0 else zero_at m k')"
  by (simp add: zero_at_def delete_conv')

lemma flights_none: "(\<forall>(t, b) \<in> set active. at_key b \<noteq> k \<or> at_sessionID b \<noteq> sid) \<Longrightarrow> flights active k sid = 0"
  unfolding flights_def by (induction active) auto

lemma flights_nonneg: "0 \<le> flights active k sid"
  unfolding flights_def by (rule asum_nonneg) simp

lemma flights_filter:
  assumes "\<And>t b. (t, b) \<in> set active \<Longrightarrow> at_key b = k \<Longrightarrow> at_sessionID b = sid \<Longrightarrow> P (t, b)"
  shows "flights (filter P active) k sid = flights active k sid"
  using assms unfolding flights_def by (induction active) auto

lemma continuity_okI:
  assumes "issued_ok s is" and "keys_distinct (co_activeAttempts s)"
    and "\<And>t b. (t, b) \<in> set (co_activeAttempts s) \<Longrightarrow> copy_ok (co_states s) is t b"
    and "\<And>a. a \<in> set is \<Longrightarrow> at_canaryToken a \<noteq> 0 \<Longrightarrow> is_active a s \<Longrightarrow>
      \<exists>st. co_states s (at_key a) = Some st \<and> cs_canaryToken st = at_canaryToken a \<and> cs_generation st = at_generation a"
    and "\<And>k st. co_states s k = Some st \<Longrightarrow> key_ok (co_nextToken s) (co_activeAttempts s) k st"
  shows "continuity_ok (s, is)"
  using assms by (simp add: continuity_ok_def active_ok_def canary_ok_def)

lemma continuity_okD:
  assumes "continuity_ok (s, is)"
  shows "issued_ok s is" and "keys_distinct (co_activeAttempts s)"
    and "(t, b) \<in> set (co_activeAttempts s) \<Longrightarrow> copy_ok (co_states s) is t b"
    and "a \<in> set is \<Longrightarrow> at_canaryToken a \<noteq> 0 \<Longrightarrow> is_active a s \<Longrightarrow>
      \<exists>st. co_states s (at_key a) = Some st \<and> cs_canaryToken st = at_canaryToken a \<and> cs_generation st = at_generation a"
    and "co_states s k = Some st \<Longrightarrow> key_ok (co_nextToken s) (co_activeAttempts s) k st"
    and "co_states s k = Some st \<Longrightarrow> phase_sync (co_activeAttempts s) k st"
    and "co_states s k = Some st \<Longrightarrow> flight_ok (co_activeAttempts s) k st"
  using assms by (simp_all add: continuity_ok_def active_ok_def canary_ok_def key_ok_def)

lemma is_active_put [simp]: "is_active a (put_continuity k st s) = is_active a s"
  by (simp add: is_active_def)

text \<open>Storing another state at a key.\<close>

lemma put_ok:
  assumes ok: "continuity_ok (s, is)" and "key_ok (co_nextToken s) (co_activeAttempts s) k st"
    and "\<And>a. a \<in> set is \<Longrightarrow> at_key a = k \<Longrightarrow> at_canaryToken a \<noteq> 0 \<Longrightarrow> is_active a s \<Longrightarrow>
      cs_canaryToken st = at_canaryToken a \<and> cs_generation st = at_generation a"
  shows "continuity_ok (put_continuity k st s, is)"
proof (rule continuity_okI)
  show "issued_ok (put_continuity k st s) is" using continuity_okD(1) [OF ok] by (simp add: issued_ok_def)
  show "keys_distinct (co_activeAttempts (put_continuity k st s))" using continuity_okD(2) [OF ok] by simp
  show "copy_ok (co_states (put_continuity k st s)) is t b" if "(t, b) \<in> set (co_activeAttempts (put_continuity k st s))" for t b
    using that by (intro copy_ok_mono [OF continuity_okD(3) [OF ok]]) auto
  show "\<exists>u. co_states (put_continuity k st s) (at_key a) = Some u \<and> cs_canaryToken u = at_canaryToken a \<and> cs_generation u = at_generation a"
    if "a \<in> set is" "at_canaryToken a \<noteq> 0" "is_active a (put_continuity k st s)" for a
    using that continuity_okD(4) [OF ok] assms(3) by (cases "at_key a = k") simp_all
  show "key_ok (co_nextToken (put_continuity k st s)) (co_activeAttempts (put_continuity k st s)) k' u"
    if "co_states (put_continuity k st s) k' = Some u" for k' u
    using that assms(2) continuity_okD(5) [OF ok] by (auto split: if_splits)
qed

section \<open>Every step keeps the invariant\<close>

text \<open>The active copy of an admitted attempt.\<close>

lemma active_copy:
  assumes "continuity_ok (s, is)" and "a \<in> set is" and "map_of (co_activeAttempts s) (at_attemptToken a) = Some b"
  shows "at_key b = at_key a" and "at_sessionID b = at_sessionID a"
proof -
  obtain c where c: "c \<in> set is" "at_attemptToken c = at_attemptToken a" "at_key c = at_key b" "at_sessionID c = at_sessionID b"
    using continuity_okD(3) [OF assms(1) map_of_SomeD [OF assms(3)]] by (auto simp: copy_ok_def)
  have "c = a" using continuity_okD(1) [OF assms(1)] assms(2) c(1,2) by (auto simp: issued_ok_def distinct_map dest: inj_onD)
  with c show "at_key b = at_key a" "at_sessionID b = at_sessionID a" by auto
qed

lemma token_nonzero: "continuity_ok (s, is) \<Longrightarrow> a \<in> set is \<Longrightarrow> at_attemptToken a \<noteq> 0"
  by (auto simp: continuity_ok_def issued_ok_def)

lemma current_iff:
  assumes "continuity_ok (s, is)" and "a \<in> set is"
  shows "attemptCurrentLocked a s \<longleftrightarrow> is_active a s"
proof (cases "map_of (co_activeAttempts s) (at_attemptToken a)")
  case None
  then have "\<not> is_active a s" by (simp add: is_active_def map_of_eq_None_iff)
  then show ?thesis using token_nonzero [OF assms] None by (simp add: attemptCurrentLocked_def)
next
  case (Some b)
  then have "is_active a s" using map_of_SomeD [OF Some] by (force simp: is_active_def)
  then show ?thesis using Some active_copy [OF assms Some] by (simp add: attemptCurrentLocked_def)
qed

text \<open>Releasing an active attempt.\<close>

lemma release_keeps:
  assumes ok: "continuity_ok (s, is)" and a: "a \<in> set is" "is_active a s" and st: "co_states s (at_key a) = Some st"
  obtains fl where "releaseAttemptLocked a st (co_activeAttempts s) = (True, st\<lparr>cs_inFlight := fl\<rparr>, AList.delete (at_attemptToken a) (co_activeAttempts s))"
    and "continuity_ok (put_continuity (at_key a) (st\<lparr>cs_inFlight := fl\<rparr>) (s\<lparr>co_activeAttempts := AList.delete (at_attemptToken a) (co_activeAttempts s)\<rparr>), is)"
proof -
  let ?act = "co_activeAttempts s" and ?k = "at_key a" and ?sid = "at_sessionID a" and ?t = "at_attemptToken a"
  obtain b where b: "map_of ?act ?t = Some b" using a(2) by (auto simp: is_active_def dest!: weak_map_of_SomeI)
  note copy = active_copy [OF ok a(1) b]
  note dist = continuity_okD(2) [OF ok]
  define active where "active = AList.delete ?t ?act"
  define fl where "fl = (if zero_at (cs_inFlight st) ?sid > 1 then AList.update ?sid (zero_at (cs_inFlight st) ?sid - 1) (cs_inFlight st)
      else AList.delete ?sid (cs_inFlight st))"
  have rel: "releaseAttemptLocked a st ?act = (True, st\<lparr>cs_inFlight := fl\<rparr>, active)"
    using token_nonzero [OF ok a(1)] b copy by (simp add: releaseAttemptLocked_def fl_def active_def)
  have cnt: "flights active k sid = flights ?act k sid - (if ?k = k \<and> ?sid = sid then 1 else 0)" for k sid
    using asum_delete [OF dist b] copy by (simp add: flights_def active_def)
  have sub: "set active \<subseteq> set ?act" using set_alist(1) by (simp add: active_def)
  have fo: "flight_ok ?act ?k st" by (rule continuity_okD(7) [OF ok st])
  have "1 \<le> flights ?act ?k ?sid" using cnt [of ?k ?sid] flights_nonneg [of active ?k ?sid] by simp
  then have pos: "1 \<le> zero_at (cs_inFlight st) ?sid" using fo by (simp add: flight_ok_def)
  have "\<forall>(x, n) \<in> set fl. n > 0"
    using fo pos set_alist(1) [of ?sid "cs_inFlight st"] set_alist(2) [of ?sid "zero_at (cs_inFlight st) ?sid - 1" "cs_inFlight st"]
    by (auto simp: flight_ok_def fl_def)
  then have f': "flight_ok active ?k (st\<lparr>cs_inFlight := fl\<rparr>)" using fo cnt pos by (auto simp: flight_ok_def fl_def distinct_update)
  have others: "flight_ok active k u" if "flight_ok ?act k u" "k \<noteq> ?k" for k u
    using that cnt [of k] by (simp add: flight_ok_def)
  have ph: "phase_sync active k u" if "phase_sync ?act k u" for k u using that sub by (auto simp: phase_sync_def)
  have ph': "phase_sync active ?k (st\<lparr>cs_inFlight := fl\<rparr>)" using ph [OF continuity_okD(6) [OF ok st]] by (simp add: phase_sync_def)
  define s' where "s' = put_continuity ?k (st\<lparr>cs_inFlight := fl\<rparr>) (s\<lparr>co_activeAttempts := active\<rparr>)"
  have act: "is_active c s' \<Longrightarrow> is_active c s" for c using sub by (auto simp: is_active_def s'_def)
  have "continuity_ok (s', is)"
  proof (rule continuity_okI)
    show "issued_ok s' is" using continuity_okD(1) [OF ok] by (simp add: issued_ok_def s'_def)
    show "keys_distinct (co_activeAttempts s')" using dist by (simp add: s'_def active_def)
    show "copy_ok (co_states s') is t c" if "(t, c) \<in> set (co_activeAttempts s')" for t c
      using that sub by (intro copy_ok_mono [OF continuity_okD(3) [OF ok]]) (auto simp: s'_def)
    show "\<exists>u. co_states s' (at_key c) = Some u \<and> cs_canaryToken u = at_canaryToken c \<and> cs_generation u = at_generation c"
      if "c \<in> set is" "at_canaryToken c \<noteq> 0" "is_active c s'" for c
      using continuity_okD(4) [OF ok that(1,2) act [OF that(3)]] st by (auto simp: s'_def)
    show "key_ok (co_nextToken s') (co_activeAttempts s') k u" if "co_states s' k = Some u" for k u
      using that f' ph' others [of k u] ph [of k u] continuity_okD(5) [OF ok, of k u] continuity_okD(5) [OF ok st]
      by (auto simp: key_ok_def s'_def split: if_splits)
  qed
  then show ?thesis using that rel by (simp add: active_def s'_def)
qed


lemma same_canary:
  assumes "continuity_ok (s, is)" and "a \<in> set is" and "c \<in> set is" and "at_canaryToken a = at_canaryToken c" and "at_canaryToken a \<noteq> 0"
  shows "c = a"
  using continuity_okD(1) [OF assms(1)] assms(2-5) by (auto simp: issued_ok_def)

text \<open>After the canary has been released, no active attempt holds its token.\<close>

lemma no_other_canary:
  assumes ok: "continuity_ok (s, is)" and a: "a \<in> set is" "\<not> is_active a s" and st: "co_states s (at_key a) = Some st"
    and m: "at_canaryToken a \<noteq> 0" "at_canaryToken a = cs_canaryToken st" and c: "c \<in> set is" "at_key c = at_key a" "at_canaryToken c \<noteq> 0" "is_active c s"
  shows False
proof -
  have "cs_canaryToken st = at_canaryToken c" using continuity_okD(4) [OF ok c(1,3,4)] st c(2) by simp
  with m(2) have "at_canaryToken a = at_canaryToken c" by (rule trans)
  then have "c = a" by (rule same_canary [OF ok a(1) c(1) _ m(1)])
  then show False using a(2) c(4) by simp
qed

lemma reset_ok:
  assumes ok: "continuity_ok (s, is)" and a: "a \<in> set is" "\<not> is_active a s" and st: "co_states s (at_key a) = Some st"
    and m: "at_canaryToken a \<noteq> 0" "at_canaryToken a = cs_canaryToken st"
  shows "continuity_ok (put_continuity (at_key a) (reset_observation cfg now st) s, is)"
proof (rule put_ok [OF ok])
  show "key_ok (co_nextToken s) (co_activeAttempts s) (at_key a) (reset_observation cfg now st)"
    using continuity_okD(5) [OF ok st] by (auto simp: key_ok_def flight_ok_def phase_sync_def reset_observation_def)
qed (use no_other_canary [OF ok a st m] in blast)

lemma success_ok:
  assumes ok: "continuity_ok (s, is)" and a: "a \<in> set is" "\<not> is_active a s" and st: "co_states s (at_key a) = Some st"
  shows "continuity_ok (put_continuity (at_key a) (observe_success a cfg now st) s, is)"
proof (rule put_ok [OF ok])
  show "key_ok (co_nextToken s) (co_activeAttempts s) (at_key a) (observe_success a cfg now st)"
    using continuity_okD(5) [OF ok st]
    by (auto simp: key_ok_def flight_ok_def phase_sync_def observe_success_def setCodexRateLimitContinuityPhase_def advanceCodexRateLimitContinuityGeneration_def Let_def)
  show "cs_canaryToken (observe_success a cfg now st) = at_canaryToken c \<and> cs_generation (observe_success a cfg now st) = at_generation c"
    if c: "c \<in> set is" "at_key c = at_key a" "at_canaryToken c \<noteq> 0" "is_active c s" for c
  proof -
    have "\<not> (at_canaryToken a \<noteq> 0 \<and> at_canaryToken a = cs_canaryToken st)" using no_other_canary [OF ok a st _ _ c] by blast
    then have "cs_canaryToken (observe_success a cfg now st) = cs_canaryToken st" "cs_generation (observe_success a cfg now st) = cs_generation st"
      by (auto simp: observe_success_def Let_def)
    then show ?thesis using continuity_okD(4) [OF ok c(1,3,4)] st c(2) by simp
  qed
qed

lemma confirm_ok:
  assumes ok: "continuity_ok (s, is)" and st: "co_states s k = Some st"
  shows "continuity_ok (put_continuity k (confirm_limit st) (s\<lparr>co_activeAttempts := filter (\<lambda>(t, b). at_key b \<noteq> k) (co_activeAttempts s)\<rparr>), is)"
    (is "continuity_ok (?s, is)")
proof (rule continuity_okI)
  let ?act = "filter (\<lambda>(t, b). at_key b \<noteq> k) (co_activeAttempts s)"
  show "issued_ok ?s is" using continuity_okD(1) [OF ok] by (simp add: issued_ok_def)
  show "keys_distinct (co_activeAttempts ?s)" using continuity_okD(2) [OF ok] by (simp add: keys_distinct_filter)
  show "copy_ok (co_states ?s) is t b" if "(t, b) \<in> set (co_activeAttempts ?s)" for t b
    using that by (intro copy_ok_mono [OF continuity_okD(3) [OF ok]]) auto
  have f: "flights ?act k' sid = (if k' = k then 0 else flights (co_activeAttempts s) k' sid)" for k' sid
    by (auto intro: flights_none flights_filter)
  show "key_ok (co_nextToken ?s) (co_activeAttempts ?s) k' u" if "co_states ?s k' = Some u" for k' u
  proof (cases "k' = k")
    case True
    then have "u = confirm_limit st" using that by simp
    then show ?thesis using True f
      by (auto simp: key_ok_def flight_ok_def phase_sync_def confirm_limit_def setCodexRateLimitContinuityPhase_def
          advanceCodexRateLimitContinuityGeneration_def zero_at_def)
  next
    case False
    then have "key_ok (co_nextToken s) (co_activeAttempts s) k' u" using that continuity_okD(5) [OF ok] by simp
    then show ?thesis using False f by (auto simp: key_ok_def flight_ok_def phase_sync_def)
  qed
  show "\<exists>u. co_states ?s (at_key a) = Some u \<and> cs_canaryToken u = at_canaryToken a \<and> cs_generation u = at_generation a"
    if a: "a \<in> set is" "at_canaryToken a \<noteq> 0" "is_active a ?s" for a
  proof -
    obtain b where b: "(at_attemptToken a, b) \<in> set (co_activeAttempts s)" "at_key b \<noteq> k" using a(3) by (auto simp: is_active_def)
    then have "map_of (co_activeAttempts s) (at_attemptToken a) = Some b" using continuity_okD(2) [OF ok] by simp
    then have "at_key a \<noteq> k" using active_copy(1) [OF ok a(1)] b(2) by simp
    moreover have "is_active a s" using b(1) by (force simp: is_active_def)
    ultimately show ?thesis using continuity_okD(4) [OF ok a(1,2)] by simp
  qed
qed

lemma limit_cases:
  assumes "observe_limit a cfg now st active = (d, st', active')"
  shows "at_canaryToken a \<noteq> 0 \<and> at_canaryToken a = cs_canaryToken st \<and> st' = reset_observation cfg now st \<and> active' = active \<or>
     st' = confirm_limit st \<and> active' = filter (\<lambda>(t, b). at_key b \<noteq> at_key a) active \<or>
     cs_phase st \<noteq> FreshBlocked \<and> st' = reset_observation cfg now (setCodexRateLimitContinuityPhase FreshBlocked st) \<and> active' = active \<or>
     st' = st \<and> active' = active"
proof -
  define m where "m = (at_canaryToken a \<noteq> 0 \<and> at_canaryToken a = cs_canaryToken st)"
  define i where "i = (at_established a \<or> (at_incumbent a \<and> cs_phase st = FreshBlocked))"
  define e where "e = (cs_establishedSessions st \<noteq> [] \<or> cs_inFlight st \<noteq> [])"
  have "m \<and> st' = reset_observation cfg now st \<and> active' = active \<or>
     st' = confirm_limit st \<and> active' = filter (\<lambda>(t, b). at_key b \<noteq> at_key a) active \<or>
     cs_phase st \<noteq> FreshBlocked \<and> st' = reset_observation cfg now (setCodexRateLimitContinuityPhase FreshBlocked st) \<and> active' = active \<or>
     st' = st \<and> active' = active"
    using assms unfolding observe_limit_def Let_def m_def [symmetric] i_def [symmetric] e_def [symmetric]
    by (cases m; cases i; cases e; cases "cs_phase st = FreshBlocked"; simp)
  then show ?thesis unfolding m_def conj_assoc .
qed

lemma limit_ok:
  assumes ok: "continuity_ok (s, is)" and a: "a \<in> set is" "\<not> is_active a s" and st: "co_states s (at_key a) = Some st"
    and o: "observe_limit a cfg now st (co_activeAttempts s) = (d, st', active)"
  shows "continuity_ok (put_continuity (at_key a) st' (s\<lparr>co_activeAttempts := active\<rparr>), is)"
proof -
  have s: "s\<lparr>co_activeAttempts := co_activeAttempts s\<rparr> = s" "put_continuity (at_key a) st s = s" using st by (auto simp: put_continuity_def fun_upd_idem)
  consider (reset) "at_canaryToken a \<noteq> 0" "at_canaryToken a = cs_canaryToken st" "st' = reset_observation cfg now st" "active = co_activeAttempts s"
    | (confirm) "st' = confirm_limit st" "active = filter (\<lambda>(t, b). at_key b \<noteq> at_key a) (co_activeAttempts s)"
    | (block) "cs_phase st \<noteq> FreshBlocked" "st' = reset_observation cfg now (setCodexRateLimitContinuityPhase FreshBlocked st)" "active = co_activeAttempts s"
    | (same) "st' = st" "active = co_activeAttempts s"
    using limit_cases [OF o] by blast
  then show ?thesis
  proof cases
    case reset
    then show ?thesis using reset_ok [OF ok a st] s by simp
  next
    case confirm
    then show ?thesis using confirm_ok [OF ok st] by simp
  next
    case block
    have c: "cs_canaryToken st = 0" using continuity_okD(6) [OF ok st] block(1) by (auto simp: phase_sync_def)
    have "continuity_ok (put_continuity (at_key a) st' s, is)"
    proof (rule put_ok [OF ok])
      show "key_ok (co_nextToken s) (co_activeAttempts s) (at_key a) st'"
        using continuity_okD(5) [OF ok st] unfolding block(2)
        by (auto simp: key_ok_def flight_ok_def phase_sync_def reset_observation_def setCodexRateLimitContinuityPhase_def)
    qed (use continuity_okD(4) [OF ok] st c in fastforce)
    then show ?thesis using block(3) s by simp
  next
    case same
    then show ?thesis using ok s by simp
  qed
qed


lemma ensure_id: "continuity_ok (s, is) \<Longrightarrow> co_states s k = Some st \<Longrightarrow> ensureCodexRateLimitContinuityState st = st"
  using ensure_in_sync [OF continuity_okD(6)] by blast

lemma put_same: "co_states s k = Some st \<Longrightarrow> put_continuity k st s = s"
  by (simp add: put_continuity_def fun_upd_idem)

text \<open>Refreshing the leases of a state.\<close>

lemma prune_step:
  assumes ok: "continuity_ok (s, is)" and st: "co_states s k = Some st"
  shows "continuity_ok (put_continuity k (pruneCodexRateLimitContinuityState now st) s, is)"
proof (rule put_ok [OF ok])
  show "key_ok (co_nextToken s) (co_activeAttempts s) k (pruneCodexRateLimitContinuityState now st)" using continuity_okD(5) [OF ok st] by simp
qed (use continuity_okD(4) [OF ok] st in fastforce)

lemma active_state:
  assumes ok: "continuity_ok (s, is)" and a: "a \<in> set is" "is_active a s"
  obtains st where "co_states s (at_key a) = Some st"
proof -
  obtain b where b: "map_of (co_activeAttempts s) (at_attemptToken a) = Some b" using a(2) by (auto simp: is_active_def dest!: weak_map_of_SomeI)
  show ?thesis using continuity_okD(3) [OF ok map_of_SomeD [OF b]] active_copy(1) [OF ok a(1) b] that by (auto simp: copy_ok_def)
qed

text \<open>The change by a result once the attempt has been released.\<close>

definition observed_by :: "attempt \<Rightarrow> bool \<Rightarrow> bool \<Rightarrow> continuity_cfg \<Rightarrow> gtime \<Rightarrow> continuity_state \<Rightarrow> continuity_store \<Rightarrow> disposition \<times> continuity_store" where
  "observed_by a success limit cfg now st2 s2 =
      (if at_generation a \<noteq> 0 \<and> at_generation a \<noteq> cs_generation st2 then (if success \<or> limit then RecordOnly else ApplyResult, s2)
       else if success then (ApplyResult, put_continuity (at_key a) (observe_success a cfg now st2) s2)
       else if limit
       then (let (d, st, active) = observe_limit a cfg now st2 (co_activeAttempts s2)
             in (d, put_continuity (at_key a) st (s2\<lparr>co_activeAttempts := active\<rparr>)))
       else if at_canaryToken a \<noteq> 0 \<and> at_canaryToken a = cs_canaryToken st2
       then (ApplyResult, put_continuity (at_key a) (reset_observation cfg now st2) s2)
       else (ApplyResult, s2))"

text \<open>What observing the result of an active attempt does: the lease check and the release lead to a good
  store \<open>s2\<close>, and then the state of the key changes by the result.\<close>

lemma observe_active:
  assumes ok: "continuity_ok (s, is)" and a: "a \<in> set is" "is_active a s"
    and ids: "ck_authID (at_key a) \<noteq> []" "ck_model (at_key a) \<noteq> []" "at_sessionID a \<noteq> []"
  obtains s2 st2 where "continuity_ok (s2, is)" and "co_states s2 (at_key a) = Some st2" and "\<not> is_active a s2"
    and "co_activeAttempts s2 = AList.delete (at_attemptToken a) (co_activeAttempts s)"
    and "continuity_observe a success reason cfg now s = observed_by a success (EqualFold (TrimSpace reason) codexUsageLimit) cfg now st2 s2"
proof -
  let ?k = "at_key a"
  obtain st where st: "co_states s ?k = Some st" by (rule active_state [OF ok a])
  define st1 where "st1 = pruneCodexRateLimitContinuityState now st"
  define s1 where "s1 = put_continuity ?k st1 s"
  have ok1: "continuity_ok (s1, is)" unfolding s1_def st1_def by (rule prune_step [OF ok st])
  have a1: "is_active a s1" "co_states s1 ?k = Some st1" using a(2) by (simp_all add: s1_def)
  obtain fl where rel: "releaseAttemptLocked a st1 (co_activeAttempts s1) = (True, st1\<lparr>cs_inFlight := fl\<rparr>, AList.delete (at_attemptToken a) (co_activeAttempts s1))"
    and ok2: "continuity_ok (put_continuity ?k (st1\<lparr>cs_inFlight := fl\<rparr>) (s1\<lparr>co_activeAttempts := AList.delete (at_attemptToken a) (co_activeAttempts s1)\<rparr>), is)"
    by (rule release_keeps [OF ok1 a(1) a1])
  define st2 where "st2 = st1\<lparr>cs_inFlight := fl\<rparr>"
  define act where "act = AList.delete (at_attemptToken a) (co_activeAttempts s)"
  define s2 where "s2 = put_continuity ?k st2 (s\<lparr>co_activeAttempts := act\<rparr>)"
  have gen: "cs_generation st \<noteq> 0" using continuity_okD(6) [OF ok st] by (simp add: phase_sync_def)
  have put: "put_continuity ?k u (s\<lparr>co_activeAttempts := act\<rparr>) = put_continuity ?k u s2" for u by (simp add: s2_def)
  have put': "put_continuity ?k u (s2\<lparr>co_activeAttempts := act'\<rparr>) = put_continuity ?k u (s\<lparr>co_activeAttempts := act'\<rparr>)" for u act'
    by (simp add: s2_def put_continuity_def)
  have cur: "attemptCurrentLocked a s" using current_iff [OF ok a(1)] a(2) by simp
  have relS: "releaseAttemptLocked a st1 (co_activeAttempts s) = (True, st2, act)" using rel by (simp add: s1_def st2_def act_def)
  show ?thesis
  proof (rule that)
    show "continuity_ok (s2, is)" using ok2 by (simp add: s2_def s1_def st2_def act_def put_continuity_def)
    show "co_states s2 ?k = Some st2" by (simp add: s2_def)
    show "\<not> is_active a s2" by (simp add: is_active_def s2_def act_def set_map [symmetric] delete_keys del: set_map)
    show "co_activeAttempts s2 = AList.delete (at_attemptToken a) (co_activeAttempts s)" by (simp add: s2_def act_def)
    have same: "put_continuity ?k st2 s2 = s2" "co_activeAttempts s2 = act" by (simp_all add: s2_def)
    show "continuity_observe a success reason cfg now s = observed_by a success (EqualFold (TrimSpace reason) codexUsageLimit) cfg now st2 s2"
      using ids cur gen
      unfolding continuity_observe_def observed_by_def Let_def st option.case
      by (simp add: ensure_id [OF ok st] st1_def [symmetric] relS put put' same)
  qed
qed

lemma observe_inactive:
  assumes "continuity_ok (s, is)" and "a \<in> set is" and "\<not> is_active a s"
  shows "snd (continuity_observe a success reason cfg now s) = s"
  using assms current_iff [OF assms(1,2)] by (simp add: continuity_observe_def Let_def)

lemma observe_step:
  assumes ok: "continuity_ok (s, is)" and a: "a \<in> set is"
  shows "continuity_ok (snd (continuity_observe a success reason cfg now s), is)"
proof (cases "is_active a s \<and> ck_authID (at_key a) \<noteq> [] \<and> ck_model (at_key a) \<noteq> [] \<and> at_sessionID a \<noteq> []")
  case False
  then have "snd (continuity_observe a success reason cfg now s) = s"
    using observe_inactive [OF ok a] by (cases "is_active a s") (auto simp: continuity_observe_def Let_def)
  then show ?thesis using ok by simp
next
  case True
  then obtain s2 st2 where s2: "continuity_ok (s2, is)" "co_states s2 (at_key a) = Some st2" "\<not> is_active a s2"
    and eq: "continuity_observe a success reason cfg now s = observed_by a success (EqualFold (TrimSpace reason) codexUsageLimit) cfg now st2 s2"
    using observe_active [OF ok a, of success reason cfg now] by metis
  obtain d st' active where l: "observe_limit a cfg now st2 (co_activeAttempts s2) = (d, st', active)" by (metis prod_cases3)
  show ?thesis unfolding eq observed_by_def l Let_def prod.case
    using s2(1) success_ok [OF s2(1) a s2(3,2), of cfg now] limit_ok [OF s2(1) a s2(3,2) l] reset_ok [OF s2(1) a s2(3,2), of cfg now] by simp
qed


lemma abandon_step:
  assumes ok: "continuity_ok (s, is)" and a: "a \<in> set is"
  shows "continuity_ok (continuity_abandon a cfg now s, is)"
proof (cases "is_active a s")
  case False
  then have "continuity_abandon a cfg now s = s" using current_iff [OF ok a] by (simp add: continuity_abandon_def split: option.splits)
  then show ?thesis using ok by simp
next
  case True
  obtain st where st: "co_states s (at_key a) = Some st" by (rule active_state [OF ok a True])
  obtain fl where rel: "releaseAttemptLocked a st (co_activeAttempts s) = (True, st\<lparr>cs_inFlight := fl\<rparr>, AList.delete (at_attemptToken a) (co_activeAttempts s))"
    and ok2: "continuity_ok (put_continuity (at_key a) (st\<lparr>cs_inFlight := fl\<rparr>) (s\<lparr>co_activeAttempts := AList.delete (at_attemptToken a) (co_activeAttempts s)\<rparr>), is)"
    by (rule release_keeps [OF ok a True st])
  define s1 where "s1 = s\<lparr>co_activeAttempts := AList.delete (at_attemptToken a) (co_activeAttempts s)\<rparr>"
  define s2 where "s2 = put_continuity (at_key a) (st\<lparr>cs_inFlight := fl\<rparr>) s1"
  have "continuity_ok (s2, is)" using ok2 by (simp add: s2_def s1_def)
  moreover have "\<not> is_active a s2" by (simp add: is_active_def s2_def s1_def set_map [symmetric] delete_keys del: set_map)
  moreover have "co_states s2 (at_key a) = Some (st\<lparr>cs_inFlight := fl\<rparr>)" by (simp add: s2_def)
  moreover have "continuity_abandon a cfg now s =
      (if at_canaryToken a \<noteq> 0 \<and> cs_canaryToken st = at_canaryToken a \<and> (at_generation a = 0 \<or> at_generation a = cs_generation st)
       then put_continuity (at_key a) (reset_observation cfg now (st\<lparr>cs_inFlight := fl\<rparr>)) s2 else s2)"
    using current_iff [OF ok a] True by (auto simp: continuity_abandon_def st ensure_id [OF ok st] rel s2_def s1_def)
  ultimately show ?thesis using reset_ok [of s2 "is" a "st\<lparr>cs_inFlight := fl\<rparr>" cfg now] a by simp
qed

lemma candidate_keeps: "continuity_ok (s, is) \<Longrightarrow> continuity_ok (snd (candidateDisposition key sid cfg now s), is)"
  using prune_step ensure_id by (auto simp: candidateDisposition_def Let_def split: option.splits)

text \<open>Taking attempts out of the active ones, together with the states or counts that belong to them.\<close>

lemma filter_ok:
  assumes ok: "continuity_ok (s, is)"
    and copies: "\<And>t b. (t, b) \<in> set (co_activeAttempts s) \<Longrightarrow> P (t, b) \<Longrightarrow> states (at_key b) \<noteq> None"
    and kept: "\<And>k u. states k = Some u \<Longrightarrow> \<exists>st. co_states s k = Some st \<and> phase_sync (co_activeAttempts s) k u \<and>
      cs_canaryToken u = cs_canaryToken st \<and> cs_generation u = cs_generation st \<and> flight_ok (filter P (co_activeAttempts s)) k u"
  shows "continuity_ok (s\<lparr>co_states := states, co_activeAttempts := filter P (co_activeAttempts s)\<rparr>, is)" (is "continuity_ok (?s, is)")
proof (rule continuity_okI)
  show "issued_ok ?s is" using continuity_okD(1) [OF ok] by (simp add: issued_ok_def)
  show "keys_distinct (co_activeAttempts ?s)" using continuity_okD(2) [OF ok] by (simp add: keys_distinct_filter)
  show "copy_ok (co_states ?s) is t b" if "(t, b) \<in> set (co_activeAttempts ?s)" for t b
    using that copies by (intro copy_ok_mono [OF continuity_okD(3) [OF ok]]) auto
  show "key_ok (co_nextToken ?s) (co_activeAttempts ?s) k u" if u: "co_states ?s k = Some u" for k u
  proof -
    obtain st where st: "co_states s k = Some st" "phase_sync (co_activeAttempts s) k u" "cs_canaryToken u = cs_canaryToken st"
      "flight_ok (filter P (co_activeAttempts s)) k u" using kept [of k u] u by auto
    then show ?thesis using continuity_okD(5) [OF ok st(1)] by (auto simp: key_ok_def phase_sync_def)
  qed
  show "\<exists>u. co_states ?s (at_key a) = Some u \<and> cs_canaryToken u = at_canaryToken a \<and> cs_generation u = at_generation a"
    if a: "a \<in> set is" "at_canaryToken a \<noteq> 0" "is_active a ?s" for a
  proof -
    obtain b where b: "(at_attemptToken a, b) \<in> set (co_activeAttempts s)" "P (at_attemptToken a, b)" using a(3) by (auto simp: is_active_def)
    then have m: "map_of (co_activeAttempts s) (at_attemptToken a) = Some b" using continuity_okD(2) [OF ok] by simp
    have "is_active a s" using b(1) by (force simp: is_active_def)
    from continuity_okD(4) [OF ok a(1,2) this] obtain st where "co_states s (at_key a) = Some st" "cs_canaryToken st = at_canaryToken a" "cs_generation st = at_generation a" by blast
    moreover obtain u where "states (at_key a) = Some u" using copies [OF b] active_copy(1) [OF ok a(1) m] by auto
    ultimately show ?thesis using kept [of "at_key a" u] by auto
  qed
qed

lemma clear_step: "continuity_ok (s, is) \<Longrightarrow> continuity_ok (continuity_clear s, is)"
  using filter_ok [of s "is" "\<lambda>_. False" "\<lambda>_. None"] by (simp add: continuity_clear_def)

lemma remove_step:
  assumes ok: "continuity_ok (s, is)"
  shows "continuity_ok (continuity_removeAuth authID s, is)"
proof (cases "TrimSpace authID = []")
  case False
  let ?P = "\<lambda>(t, a). ck_authID (at_key a) \<noteq> authID"
  have "continuity_ok (s\<lparr>co_states := (\<lambda>k. if ck_authID k = authID then None else co_states s k), co_activeAttempts := filter ?P (co_activeAttempts s)\<rparr>, is)"
  proof (rule filter_ok [OF ok])
    show "(if ck_authID (at_key b) = authID then None else co_states s (at_key b)) \<noteq> None"
      if "(t, b) \<in> set (co_activeAttempts s)" "?P (t, b)" for t b
      using that continuity_okD(3) [OF ok that(1)] by (simp add: copy_ok_def)
    fix k u
    assume "(if ck_authID k = authID then None else co_states s k) = Some u"
    then have u: "ck_authID k \<noteq> authID" "co_states s k = Some u" by (auto split: if_splits)
    have "flights (filter ?P (co_activeAttempts s)) k sid = flights (co_activeAttempts s) k sid" for sid
      by (rule flights_filter) (use u(1) in auto)
    then have "flight_ok (filter ?P (co_activeAttempts s)) k u" using continuity_okD(7) [OF ok u(2)] by (simp add: flight_ok_def)
    then show "\<exists>st. co_states s k = Some st \<and> phase_sync (co_activeAttempts s) k u \<and>
      cs_canaryToken u = cs_canaryToken st \<and> cs_generation u = cs_generation st \<and> flight_ok (filter ?P (co_activeAttempts s)) k u"
      using u(2) continuity_okD(6) [OF ok u(2)] by blast
  qed
  then show ?thesis using False by (simp add: continuity_removeAuth_def)
qed (use ok in \<open>simp add: continuity_removeAuth_def\<close>)

text \<open>No stored copy carries a canary token, so closing a session clears no canary.\<close>

lemma drop_canary_none:
  assumes "continuity_ok (s, is)"
  shows "drop_canary (filter P (co_activeAttempts s)) k st = st"
proof -
  have "at_canaryToken b = 0" if "(t, b) \<in> set (co_activeAttempts s)" for t b
    using continuity_okD(3) [OF assms that] by (simp add: copy_ok_def)
  then have "\<not> list_ex (\<lambda>(t, a). at_key a = k \<and> at_canaryToken a \<noteq> 0 \<and> cs_canaryToken st = at_canaryToken a) (filter P (co_activeAttempts s))"
    by (auto simp: list_ex_iff)
  then show ?thesis by (simp add: drop_canary_def)
qed

lemma session_keeps:
  assumes ok: "continuity_ok (s, is)"
  shows "continuity_ok (removeSessionPreservingKey sid preserve s, is)"
proof (cases "sid = []")
  case False
  let ?P = "\<lambda>(t, a). at_sessionID a \<noteq> sid \<or> preserve = Some (at_key a)" and ?act = "co_activeAttempts s"
  define states where "states = (\<lambda>k. map_option (drop_session sid (preserve = Some k)) (co_states s k))"
  have "continuity_ok (s\<lparr>co_states := states, co_activeAttempts := filter ?P ?act\<rparr>, is)"
  proof (rule filter_ok [OF ok])
    show "states (at_key b) \<noteq> None" if "(t, b) \<in> set ?act" for t b
      using continuity_okD(3) [OF ok that] by (simp add: states_def copy_ok_def)
    fix k u
    assume "states k = Some u"
    then obtain st where st: "co_states s k = Some st" and u: "u = drop_session sid (preserve = Some k) st" by (auto simp: states_def)
    have f: "flights (filter ?P ?act) k x = (if x = sid \<and> preserve \<noteq> Some k then 0 else flights ?act k x)" for x
      by (auto intro!: flights_none flights_filter)
    have "flight_ok (filter ?P ?act) k u" using continuity_okD(7) [OF ok st] f set_alist(1) [of sid "cs_inFlight st"]
      by (auto simp: flight_ok_def u drop_session_def ensure_id [OF ok st] Let_def)
    moreover have "phase_sync ?act k u" using continuity_okD(6) [OF ok st] by (simp add: phase_sync_def u drop_session_def ensure_id [OF ok st] Let_def)
    ultimately show "\<exists>st. co_states s k = Some st \<and> phase_sync ?act k u \<and> cs_canaryToken u = cs_canaryToken st \<and>
      cs_generation u = cs_generation st \<and> flight_ok (filter ?P ?act) k u"
      using st by (simp add: u drop_session_def ensure_id [OF ok st] Let_def)
  qed
  then show ?thesis using False
    by (simp add: removeSessionPreservingKey_def drop_canary_none [OF ok] states_def Let_def case_prod_unfold)
qed (use ok in \<open>simp add: removeSessionPreservingKey_def\<close>)


lemma inactive_key:
  assumes ok: "continuity_ok (s, is)" and a: "a \<in> set is" and "\<forall>(t, b) \<in> set (co_activeAttempts s). at_key b \<noteq> at_key a"
  shows "\<not> is_active a s"
proof
  assume "is_active a s"
  then obtain b where b: "map_of (co_activeAttempts s) (at_attemptToken a) = Some b" by (auto simp: is_active_def dest!: weak_map_of_SomeI)
  then have "at_key b = at_key a" by (rule active_copy(1) [OF ok a])
  then show False using map_of_SomeD [OF b] assms(3) by auto
qed

lemma reopen_step:
  assumes ok: "continuity_ok (s, is)"
  shows "continuity_ok (snd (reopenConfirmed key gen s), is)"
proof (cases "co_states s key")
  case None
  then show ?thesis using ok by (simp add: reopenConfirmed_def)
next
  case (Some st)
  let ?u = "(setCodexRateLimitContinuityPhase FreshBlocked (advanceCodexRateLimitContinuityGeneration st))
     \<lparr>cs_observeUntil := 0, cs_canaryToken := 0, cs_establishedSuccesses := 0, cs_establishedSessions := [], cs_inFlight := [], cs_nextLeaseExpiry := 0\<rparr>"
  have "continuity_ok (put_continuity key ?u s, is)" if "cs_phase st = ConfirmedCooldown"
  proof (rule put_ok [OF ok])
    have n: "\<forall>(t, b) \<in> set (co_activeAttempts s). at_key b \<noteq> key" using continuity_okD(6) [OF ok Some] that by (simp add: phase_sync_def)
    then have "flights (co_activeAttempts s) key sid = 0" for sid by (auto intro: flights_none)
    then show "key_ok (co_nextToken s) (co_activeAttempts s) key ?u"
      by (simp add: key_ok_def flight_ok_def phase_sync_def zero_at_def setCodexRateLimitContinuityPhase_def advanceCodexRateLimitContinuityGeneration_def)
    show "cs_canaryToken ?u = at_canaryToken a \<and> cs_generation ?u = at_generation a"
      if "a \<in> set is" "at_key a = key" "at_canaryToken a \<noteq> 0" "is_active a s" for a
      using inactive_key [OF ok that(1)] n that(2,4) by simp
  qed
  then show ?thesis using ok Some put_same [OF Some] by (auto simp: reopenConfirmed_def ensure_id [OF ok Some] Let_def)
qed

text \<open>The state an attempt starts from.\<close>

definition begin_state :: "continuity_key \<Rightarrow> gtime \<Rightarrow> continuity_store \<Rightarrow> continuity_state" where
  "begin_state key now s =
     pruneCodexRateLimitContinuityState now (case co_states s key of Some st \<Rightarrow> st | None \<Rightarrow> fresh_continuity 1)"

lemma begin_base:
  assumes ok: "continuity_ok (s, is)"
  shows "continuity_ok (put_continuity key (begin_state key now s) s, is)"
proof (cases "co_states s key")
  case (Some st)
  then show ?thesis using prune_step [OF ok Some] by (simp add: begin_state_def)
next
  case None
  have n: "\<forall>(t, b) \<in> set (co_activeAttempts s). at_key b \<noteq> key" using continuity_okD(3) [OF ok] None by (fastforce simp: copy_ok_def)
  then have "flights (co_activeAttempts s) key sid = 0" for sid by (auto intro: flights_none)
  then have "key_ok (co_nextToken s) (co_activeAttempts s) key (fresh_continuity 1)"
    by (simp add: key_ok_def flight_ok_def phase_sync_def fresh_continuity_def zero_at_def)
  then show ?thesis unfolding begin_state_def None option.case
    by (intro put_ok [OF ok]) (use inactive_key [OF ok] n in \<open>auto simp: fresh_continuity_def\<close>)
qed

text \<open>Admitting an attempt: \<open>c\<close> is its canary token, or zero.\<close>

lemma admit_ok:
  fixes s st k sid c
  assumes ok: "continuity_ok (s, is)" and st: "co_states s k = Some st" and ph: "cs_phase st \<noteq> ConfirmedCooldown"
    and c: "c = 0 \<and> m = co_nextToken s \<and> tok = cs_canaryToken st \<or>
      c = co_nextToken s + 1 \<and> m = c \<and> tok = c \<and> cs_phase st = FreshBlocked \<and> cs_canaryToken st = 0"
    and a: "at_key a = k" "at_sessionID a = sid" "at_generation a = cs_generation st" "at_attemptToken a = co_nextAttempt s + 1" "at_canaryToken a = c"
    and b: "at_key b = k" "at_sessionID b = sid" "at_canaryToken b = 0"
  defines "s' \<equiv> put_continuity k ((incr_inFlight sid st)\<lparr>cs_canaryToken := tok\<rparr>)
    (s\<lparr>co_nextToken := m, co_nextAttempt := co_nextAttempt s + 1, co_activeAttempts := co_activeAttempts s @ [(co_nextAttempt s + 1, b)]\<rparr>)"
  shows "continuity_ok (s', a # is)"
proof (rule continuity_okI)
  let ?t = "co_nextAttempt s + 1" and ?act = "co_activeAttempts s @ [(co_nextAttempt s + 1, b)]"
  note i = continuity_okD(1) [OF ok]
  have old: "at_attemptToken x \<le> co_nextAttempt s" "at_canaryToken x \<le> co_nextToken s" if "x \<in> set is" for x
    using i that by (auto simp: issued_ok_def)
  have mono: "co_nextToken s \<le> m" using c by auto
  show "issued_ok s' (a # is)"
    using i old c a(4,5) mono by (fastforce simp: issued_ok_def s'_def)
  have fresh: "?t \<notin> fst ` set (co_activeAttempts s)"
    using continuity_okD(3) [OF ok] old by (fastforce simp: copy_ok_def)
  then show "keys_distinct (co_activeAttempts s')" using continuity_okD(2) [OF ok] by (simp add: s'_def)
  show "copy_ok (co_states s') (a # is) t x" if "(t, x) \<in> set (co_activeAttempts s')" for t x
  proof (cases "(t, x) \<in> set (co_activeAttempts s)")
    case True
    then show ?thesis by (intro copy_ok_mono [OF continuity_okD(3) [OF ok True]]) (auto simp: s'_def)
  next
    case False
    then show ?thesis using that a b by (auto simp: s'_def copy_ok_def)
  qed
  have fl: "flights ?act k' x = flights (co_activeAttempts s) k' x + (if k' = k \<and> x = sid then 1 else 0)" for k' x
    using b by (simp add: flights_def)
  have fo: "flight_ok (co_activeAttempts s) k st" by (rule continuity_okD(7) [OF ok st])
  then have nn: "0 \<le> zero_at (cs_inFlight st) sid" using flights_nonneg by (simp add: flight_ok_def)
  have "flight_ok ?act k ((incr_inFlight sid st)\<lparr>cs_canaryToken := tok\<rparr>)"
    using fo fl nn set_alist(2) [of sid "zero_at (cs_inFlight st) sid + 1" "cs_inFlight st"]
    by (auto simp: flight_ok_def incr_inFlight_def distinct_update)
  moreover have "phase_sync ?act k ((incr_inFlight sid st)\<lparr>cs_canaryToken := tok\<rparr>)"
    using continuity_okD(6) [OF ok st] ph c by (auto simp: phase_sync_def incr_inFlight_def)
  moreover have "tok \<le> m" using c continuity_okD(5) [OF ok st] by (auto simp: key_ok_def)
  moreover have "key_ok m ?act k' u" if "co_states s k' = Some u" "k' \<noteq> k" for k' u
    using continuity_okD(5) [OF ok that(1)] that(2) fl b(1) mono by (auto simp: key_ok_def flight_ok_def phase_sync_def)
  ultimately show "key_ok (co_nextToken s') (co_activeAttempts s') k' u" if "co_states s' k' = Some u" for k' u
    using that by (auto simp: s'_def key_ok_def split: if_splits)
  show "\<exists>u. co_states s' (at_key x) = Some u \<and> cs_canaryToken u = at_canaryToken x \<and> cs_generation u = at_generation x"
    if x: "x \<in> set (a # is)" "at_canaryToken x \<noteq> 0" "is_active x s'" for x
  proof (cases "x = a")
    case True
    then show ?thesis using a c x(2) by (auto simp: s'_def incr_inFlight_def)
  next
    case False
    then have xi: "x \<in> set is" using x(1) by simp
    then have "at_attemptToken x \<noteq> ?t" using old(1) by fastforce
    then have "is_active x s" using x(3) by (auto simp: is_active_def s'_def)
    from continuity_okD(4) [OF ok xi x(2) this] show ?thesis using st c x(2) by (auto simp: s'_def incr_inFlight_def)
  qed
qed

lemma bump_ok: "continuity_ok (s, is) \<Longrightarrow> continuity_ok (s\<lparr>co_nextAttempt := co_nextAttempt s + 1\<rparr>, is)"
  by (fastforce simp: continuity_ok_def issued_ok_def active_ok_def canary_ok_def is_active_def)


lemma delete_last: "t \<notin> fst ` set al \<Longrightarrow> AList.delete t (al @ [(t, v)]) = al"
  by (induction al) auto

lemma store_eqI:
  "co_states s = co_states s' \<Longrightarrow> co_nextToken s = co_nextToken s' \<Longrightarrow> co_nextAttempt s = co_nextAttempt s' \<Longrightarrow>
   co_activeAttempts s = co_activeAttempts s' \<Longrightarrow> s = (s' :: continuity_store)"
  by simp

definition new_attempt :: "continuity_key \<Rightarrow> string \<Rightarrow> gdur \<Rightarrow> nat \<Rightarrow> nat \<Rightarrow> attempt" where
  "new_attempt key sid ttl gen t =
     \<lparr>at_key = key, at_sessionID = sid, at_generation = gen, at_established = False, at_incumbent = False, at_canaryToken = 0,
      at_attemptToken = t, at_leaseTTL = ttl\<rparr>"

text \<open>The admission on a store that satisfies the invariant.\<close>

lemma begin_unfold:
  fixes key now s sid ttl
  assumes ok: "continuity_ok (s, is)"
  defines "st \<equiv> begin_state key now s" and "t \<equiv> co_nextAttempt s + 1"
  defines "a \<equiv> new_attempt key sid ttl (cs_generation st) t"
  defines "s1 \<equiv> s\<lparr>co_nextAttempt := t, co_activeAttempts := co_activeAttempts s @ [(t, a)]\<rparr>"
  shows "beginWithLeaseTTL key sid cfg ttl now s =
    (if cs_phase st = ConfirmedCooldown then (new_attempt key sid ttl 0 0, False, put_continuity key st s)
     else if zero_at (cs_establishedSessions st) sid > now then (a\<lparr>at_established := True\<rparr>, True, put_continuity key (incr_inFlight sid st) s1)
     else if zero_at (cs_inFlight st) sid > 0 \<or> cs_phase st = Healthy then (a\<lparr>at_incumbent := True\<rparr>, True, put_continuity key (incr_inFlight sid st) s1)
     else if \<not> codexRateLimitCanaryEligible cfg now st
     then (a\<lparr>at_attemptToken := 0\<rparr>, False, put_continuity key st (s\<lparr>co_nextAttempt := t\<rparr>))
     else (a\<lparr>at_canaryToken := co_nextToken s + 1\<rparr>, True,
           put_continuity key ((incr_inFlight sid st)\<lparr>cs_canaryToken := co_nextToken s + 1\<rparr>) (s1\<lparr>co_nextToken := co_nextToken s + 1\<rparr>)))"
proof -
  let ?st = "case co_states s key of Some st \<Rightarrow> st | None \<Rightarrow> fresh_continuity 1"
  have e: "ensureCodexRateLimitContinuityState ?st = ?st" "cs_generation ?st \<noteq> 0"
    using ensure_id [OF ok, of key] continuity_okD(6) [OF ok, of key]
    by (cases "co_states s key"; simp add: ensureCodexRateLimitContinuityState_def fresh_continuity_def phase_sync_def)+
  have fresh: "t \<notin> fst ` set (co_activeAttempts s)"
    using continuity_okD(1,3) [OF ok] by (fastforce simp: copy_ok_def issued_ok_def t_def)
  then have upd: "AList.update t v (co_activeAttempts s) = co_activeAttempts s @ [(t, v)]" for v by (rule update_fresh)
  have del: "AList.delete t (co_activeAttempts s @ [(t, v)]) = co_activeAttempts s" for v by (rule delete_last [OF fresh])
  show ?thesis
    unfolding beginWithLeaseTTL_def Let_def e if_not_P [OF e(2)] begin_state_def [symmetric] st_def [symmetric] t_def [symmetric] upd
    by (simp add: del s1_def a_def new_attempt_def)
qed

lemma begin_step:
  assumes ok: "continuity_ok (s, is)" and b: "beginWithLeaseTTL key sid cfg ttl now s = (a, adm, s')"
  shows "continuity_ok (s', if adm then a # is else is)"
proof -
  define st where "st = begin_state key now s"
  have ok1: "continuity_ok (put_continuity key st s, is)" unfolding st_def by (rule begin_base [OF ok])
  let ?t = "co_nextAttempt s + 1"
  let ?a = "new_attempt key sid ttl (cs_generation st) ?t"
  have k: "co_states (put_continuity key st s) key = Some st" by simp
  have plain: "continuity_ok (put_continuity key (incr_inFlight sid st) (s\<lparr>co_nextAttempt := ?t, co_activeAttempts := co_activeAttempts s @ [(?t, ?a)]\<rparr>), x # is)"
    if "cs_phase st \<noteq> ConfirmedCooldown" "x = ?a\<lparr>at_established := True\<rparr> \<or> x = ?a\<lparr>at_incumbent := True\<rparr>" for x
  proof -
    have "(incr_inFlight sid st)\<lparr>cs_canaryToken := cs_canaryToken st\<rparr> = incr_inFlight sid st" by (simp add: incr_inFlight_def)
    then show ?thesis
      using admit_ok [OF ok1 k that(1), of 0 "co_nextToken s" "cs_canaryToken st" x sid ?a] that(2)
      by (auto simp: new_attempt_def put_continuity_def)
  qed
  have canary: "continuity_ok (put_continuity key ((incr_inFlight sid st)\<lparr>cs_canaryToken := co_nextToken s + 1\<rparr>)
      (s\<lparr>co_nextAttempt := ?t, co_activeAttempts := co_activeAttempts s @ [(?t, ?a)], co_nextToken := co_nextToken s + 1\<rparr>), ?a\<lparr>at_canaryToken := co_nextToken s + 1\<rparr> # is)"
    if "codexRateLimitCanaryEligible cfg now st"
  proof -
    have e: "cs_phase st = FreshBlocked" "cs_canaryToken st = 0" using that by (auto simp: codexRateLimitCanaryEligible_def split: if_splits)
    let ?u = "(incr_inFlight sid st)\<lparr>cs_canaryToken := co_nextToken s + 1\<rparr>" and ?p = "put_continuity key st s"
    have eq: "put_continuity key ?u (s\<lparr>co_nextAttempt := ?t, co_activeAttempts := co_activeAttempts s @ [(?t, ?a)], co_nextToken := co_nextToken s + 1\<rparr>) =
        put_continuity key ?u (?p\<lparr>co_nextToken := co_nextToken s + 1, co_nextAttempt := co_nextAttempt ?p + 1,
          co_activeAttempts := co_activeAttempts ?p @ [(co_nextAttempt ?p + 1, ?a)]\<rparr>)"
      by (rule store_eqI) (simp_all add: put_continuity_def)
    show ?thesis unfolding eq using e by (intro admit_ok [OF ok1 k, of "co_nextToken s + 1"]) (simp_all add: new_attempt_def)
  qed
  have refused: "continuity_ok (put_continuity key st (s\<lparr>co_nextAttempt := ?t\<rparr>), is)"
  proof -
    have "put_continuity key st (s\<lparr>co_nextAttempt := ?t\<rparr>) = (put_continuity key st s)\<lparr>co_nextAttempt := co_nextAttempt (put_continuity key st s) + 1\<rparr>"
      by (rule store_eqI) (simp_all add: put_continuity_def)
    then show ?thesis using bump_ok [OF ok1] by (simp only:)
  qed
  show ?thesis using b [unfolded begin_unfold [OF ok] st_def [symmetric]] ok1 plain canary refused by (auto split: if_splits)
qed

lemma continuity_step_ok: "continuity_step x y \<Longrightarrow> continuity_ok x \<Longrightarrow> continuity_ok y"
proof (induction rule: continuity_step.induct)
  case (step_begin key sid cfg ttl now s a s' "is")
  then show ?case using begin_step [OF step_begin(3,1)] by simp
next
  case (step_refused key sid cfg ttl now s a s' "is")
  then show ?case using begin_step [OF step_refused(3,1)] by simp
next
  case (step_observe a "is" success reason cfg now s d s')
  then show ?case using observe_step [OF step_observe(3,1), of success reason cfg now] by simp
qed (simp_all add: abandon_step candidate_keeps session_keeps reopen_step clear_step remove_step)

interpretation continuity: inductive_invariant continuity_start continuity_step continuity_ok
  by unfold_locales (auto dest: continuity_start_ok continuity_step_ok)


section \<open>Promises\<close>

lemma flights_length: "flights active k sid = int (length (filter (\<lambda>(t, b). at_key b = k \<and> at_sessionID b = sid) active))"
  unfolding flights_def by (induction active) (auto split: if_splits)

text \<open>C34: The accounting of attempts in flight is exact. Whatever requests began, finished, reported twice, were
  abandoned or lost their session, in whatever order: for every credential and model with a state, the store counts for each
  session exactly the active attempts of that session, each of which is an admitted attempt, kept once.\<close>

theorem continuity_accounting_exact:
  assumes "reachable continuity_start continuity_step (s, is)"
  shows "(\<forall>k st sid. co_states s k = Some st \<longrightarrow>
      zero_at (cs_inFlight st) sid = int (length (filter (\<lambda>(t, b). at_key b = k \<and> at_sessionID b = sid) (co_activeAttempts s)))) \<and>
    keys_distinct (co_activeAttempts s) \<and> distinct (map at_attemptToken is) \<and>
    (\<forall>t b. (t, b) \<in> set (co_activeAttempts s) \<longrightarrow>
       (\<exists>a \<in> set is. at_attemptToken a = t \<and> at_key a = at_key b \<and> at_sessionID a = at_sessionID b))"
proof -
  have ok: "continuity_ok (s, is)" by (rule continuity.reachable_inv [OF assms])
  have "zero_at (cs_inFlight st) sid = flights (co_activeAttempts s) k sid" if "co_states s k = Some st" for k st sid
    using continuity_okD(7) [OF ok that] by (simp add: flight_ok_def)
  then show ?thesis using continuity_okD(1-3) [OF ok] by (simp add: flights_length copy_ok_def issued_ok_def)
qed

text \<open>Sessions without a lease at a time.\<close>

definition no_lease :: "continuity_state \<Rightarrow> string \<Rightarrow> gtime \<Rightarrow> bool" where
  "no_lease st sid now \<longleftrightarrow> list_all (\<lambda>(x, expiresAt). x = sid \<longrightarrow> expiresAt \<le> now) (cs_establishedSessions st)"

lemma pruned_lease: "no_lease st sid now \<Longrightarrow> 0 \<le> now \<Longrightarrow> \<not> now < zero_at (cs_establishedSessions (pruneCodexRateLimitContinuityState now st)) sid"
proof
  assume n: "no_lease st sid now" "0 \<le> now" and l: "now < zero_at (cs_establishedSessions (pruneCodexRateLimitContinuityState now st)) sid"
  obtain x where x: "(sid, x) \<in> set (cs_establishedSessions (pruneCodexRateLimitContinuityState now st))" "now < x"
    using l n(2) by (auto simp: zero_at_def split: option.splits dest!: map_of_SomeD)
  then have "(sid, x) \<in> set (cs_establishedSessions st)" by (auto simp: pruneCodexRateLimitContinuityState_def Let_def split: if_splits)
  then show False using n(1) x(2) by (auto simp: no_lease_def list_all_iff)
qed

lemma refused_fresh:
  assumes ok: "continuity_ok (s, is)" and st: "co_states s k = Some st" and "cs_phase st \<noteq> Healthy" and "cs_phase st = FreshBlocked \<longrightarrow> cs_canaryToken st \<noteq> 0"
    and "cs_phase st = FreshBlocked \<longrightarrow> no_lease st sid now \<and> zero_at (cs_inFlight st) sid = 0" and "0 \<le> now"
  shows "\<not> fst (snd (beginWithLeaseTTL k sid cfg ttl now s))"
proof -
  have b: "begin_state k now s = pruneCodexRateLimitContinuityState now st" by (simp add: begin_state_def st)
  show ?thesis
  proof (cases "cs_phase st")
    case FreshBlocked
    then show ?thesis using assms(4-6) pruned_lease [of st sid now] by (simp add: begin_unfold [OF ok] b codexRateLimitCanaryEligible_def)
  next
    case ConfirmedCooldown
    then show ?thesis by (simp add: begin_unfold [OF ok] b)
  qed (use assms(3) in simp)
qed

text \<open>C32: Only one fresh session probes a blocked credential. While an admitted canary has not been released, it is the only
  one for its credential and model, the state is the one that blocks fresh sessions, and the admission refuses every session
  that has neither a lease nor a request in flight.\<close>

theorem single_canary:
  assumes "reachable continuity_start continuity_step (s, is)" and "a \<in> set is" and "at_canaryToken a \<noteq> 0" and "is_active a s"
  shows "(\<forall>b \<in> set is. at_key b = at_key a \<and> at_canaryToken b \<noteq> 0 \<and> is_active b s \<longrightarrow> b = a) \<and>
    (\<exists>st. co_states s (at_key a) = Some st \<and> cs_phase st = FreshBlocked \<and>
       (\<forall>sid cfg ttl now. no_lease st sid now \<and> zero_at (cs_inFlight st) sid = 0 \<and> 0 \<le> now \<longrightarrow>
          \<not> fst (snd (beginWithLeaseTTL (at_key a) sid cfg ttl now s))))"
proof -
  have ok: "continuity_ok (s, is)" by (rule continuity.reachable_inv [OF assms(1)])
  obtain st where st: "co_states s (at_key a) = Some st" "cs_canaryToken st = at_canaryToken a" using continuity_okD(4) [OF ok assms(2-4)] by blast
  have ph: "cs_phase st = FreshBlocked" using continuity_okD(6) [OF ok st(1)] st(2) assms(3) by (simp add: phase_sync_def)
  have "b = a" if "b \<in> set is" "at_key b = at_key a" "at_canaryToken b \<noteq> 0" "is_active b s" for b
  proof -
    have "cs_canaryToken st = at_canaryToken b" using continuity_okD(4) [OF ok that(1,3,4)] st(1) that(2) by simp
    then have "at_canaryToken a = at_canaryToken b" using st(2) by simp
    then show ?thesis by (rule same_canary [OF ok assms(2) that(1) _ assms(3)])
  qed
  moreover have "\<not> fst (snd (beginWithLeaseTTL (at_key a) sid cfg ttl now s))"
    if "no_lease st sid now" "zero_at (cs_inFlight st) sid = 0" "0 \<le> now" for sid cfg ttl now
    using refused_fresh [OF ok st(1)] ph st(2) assms(3) that by simp
  ultimately show ?thesis using st(1) ph by blast
qed

text \<open>C33: A confirmed limit holds until it is reopened. While a credential and model are in the confirmed cooldown, nothing is
  admitted; no attempt that was admitted before may be dispatched any more; and the success of such an attempt, however often it
  is reported, changes neither the store nor, through \<open>MarkResult\<close>, the credential (but for the time of
  its update): a request in flight cannot lift the cooldown that was just confirmed.\<close>

theorem confirmed_limit_holds:
  assumes "reachable continuity_start continuity_step (s, is)" and "co_states s k = Some st" and "cs_phase st = ConfirmedCooldown"
  shows "(\<forall>sid cfg ttl now. 0 \<le> now \<longrightarrow> \<not> fst (snd (beginWithLeaseTTL k sid cfg ttl now s))) \<and>
    (\<forall>a \<in> set is. at_key a = k \<and> ck_authID k \<noteq> [] \<and> ck_model k \<noteq> [] \<and> at_sessionID a \<noteq> [] \<longrightarrow>
       \<not> fst (dispatchAllowed a s) \<and>
       (\<forall>reason cfg now bt seconds rf m r dis seq c. re_Success r \<and> \<not> unauthorized_failure c \<longrightarrow>
          (let (d, s') = continuity_observe a True reason cfg now s
           in s' = s \<and> mark_availability bt seconds d rf m r now dis seq c = c\<lparr>ca_UpdatedAt := now\<rparr>)))"
proof -
  have ok: "continuity_ok (s, is)" by (rule continuity.reachable_inv [OF assms(1)])
  have n: "\<forall>(t, b) \<in> set (co_activeAttempts s). at_key b \<noteq> k" using continuity_okD(6) [OF ok assms(2)] assms(3) by (simp add: phase_sync_def)
  have "\<not> fst (snd (beginWithLeaseTTL k sid cfg ttl now s))" if "0 \<le> now" for sid cfg ttl now
    using refused_fresh [OF ok assms(2)] assms(3) that by simp
  moreover have "\<not> fst (dispatchAllowed a s) \<and> continuity_observe a True reason cfg now s = (RecordOnly, s)"
    if a: "a \<in> set is" "at_key a = k" "ck_authID k \<noteq> []" "ck_model k \<noteq> []" "at_sessionID a \<noteq> []" for a reason cfg now
  proof -
    have "\<not> attemptCurrentLocked a s" using current_iff [OF ok a(1)] inactive_key [OF ok a(1)] n a(2) by simp
    then show ?thesis using a(2-5) assms(2) by (simp add: dispatchAllowed_def continuity_observe_def Let_def)
  qed
  moreover have "mark_availability bt seconds RecordOnly rf m r now dis seq c = c\<lparr>ca_UpdatedAt := now\<rparr>"
    if "re_Success r" "\<not> unauthorized_failure c" for bt seconds rf m r now dis seq c
    using that by (simp add: mark_availability_def rejects_token_def Let_def)
  ultimately show ?thesis by simp
qed


section \<open>A canary whose session is closed\<close>

text \<open>A state that waits for the result of a canary nobody can report any more.\<close>

definition orphaned :: "continuity_key \<Rightarrow> continuity_store \<Rightarrow> bool" where
  "orphaned k s \<longleftrightarrow>
     (\<exists>st. co_states s k = Some st \<and> cs_phase st = FreshBlocked \<and> cs_canaryToken st \<noteq> 0 \<and> cs_inFlight st = [] \<and>
        cs_establishedSessions st = []) \<and>
     (\<forall>(t, b) \<in> set (co_activeAttempts s). at_key b \<noteq> k)"

lemma orphaned_refuses:
  assumes "continuity_ok (s, is)" and "orphaned k s" and "0 \<le> now"
  shows "\<not> fst (snd (beginWithLeaseTTL k sid cfg ttl now s))"
  using assms refused_fresh [OF assms(1), of k] by (auto simp: orphaned_def no_lease_def zero_at_def)

text \<open>Operations on other keys leave the state and the active attempts of a key alone.\<close>

lemma release_active: "releaseAttemptLocked a st active = (r, st', active') \<Longrightarrow> set active' \<subseteq> set active"
  using set_alist(1) by (fastforce simp: releaseAttemptLocked_def split: if_splits option.splits)

lemma observe_frame:
  assumes "continuity_observe a success reason cfg now s = (d, s')"
  shows "k \<noteq> at_key a \<Longrightarrow> co_states s' k = co_states s k" and "set (co_activeAttempts s') \<subseteq> set (co_activeAttempts s)"
proof -
  have limit: "set active' \<subseteq> set active" if "observe_limit a cfg now st active = (e, st', active')" for st active e st' active'
    using limit_cases [OF that] by auto
  show "k \<noteq> at_key a \<Longrightarrow> co_states s' k = co_states s k"
    using assms by (auto simp: continuity_observe_def Let_def put_continuity_def split: if_splits prod.splits)
  show "set (co_activeAttempts s') \<subseteq> set (co_activeAttempts s)"
    using assms release_active limit by (fastforce simp: continuity_observe_def Let_def split: if_splits prod.splits)
qed

lemma orphaned_frame:
  assumes "orphaned k s" and "co_states s' k = co_states s k" and "\<forall>(t, b) \<in> set (co_activeAttempts s'). (t, b) \<in> set (co_activeAttempts s) \<or> at_key b \<noteq> k"
  shows "orphaned k s'"
  using assms by (fastforce simp: orphaned_def)

lemma orphaned_put:
  assumes "orphaned k s" and "cs_phase u = FreshBlocked" and "cs_canaryToken u \<noteq> 0" and "cs_inFlight u = []" and "cs_establishedSessions u = []"
  shows "orphaned k (put_continuity k u s)"
  using assms by (simp add: orphaned_def)


lemma begin_frame:
  assumes ok: "continuity_ok (s, is)" and b: "beginWithLeaseTTL key sid cfg ttl now s = (a, adm, s')"
  shows "k \<noteq> key \<Longrightarrow> co_states s' k = co_states s k" and "\<forall>(t, b) \<in> set (co_activeAttempts s'). (t, b) \<in> set (co_activeAttempts s) \<or> at_key b = key"
  using b [unfolded begin_unfold [OF ok]] by (auto simp: new_attempt_def split: if_splits)

lemma abandon_frame:
  "k \<noteq> at_key a \<Longrightarrow> co_states (continuity_abandon a cfg now s) k = co_states s k"
  "set (co_activeAttempts (continuity_abandon a cfg now s)) \<subseteq> set (co_activeAttempts s)"
  using release_active [of a _ "co_activeAttempts s"] by (auto simp: continuity_abandon_def Let_def split: option.splits prod.splits)

lemma prune_empty [simp]: "cs_establishedSessions st = [] \<Longrightarrow> cs_establishedSessions (pruneCodexRateLimitContinuityState now st) = []"
  by (simp add: pruneCodexRateLimitContinuityState_def Let_def)

text \<open>Every step that does not drop the state of the key leaves it orphaned.\<close>

lemma orphaned_begin:
  assumes ok: "continuity_ok (s, is)" and o: "orphaned k s" and b: "beginWithLeaseTTL key sid cfg ttl now s = (a, adm, s')" and "0 \<le> now"
  shows "orphaned k s'"
proof (cases "key = k")
  case False
  show ?thesis by (rule orphaned_frame [OF o]) (use begin_frame [OF ok b] False in auto)
next
  case True
  obtain st where st: "co_states s k = Some st" "cs_phase st = FreshBlocked" "cs_canaryToken st \<noteq> 0" "cs_inFlight st = []" "cs_establishedSessions st = []"
    using o by (auto simp: orphaned_def)
  let ?st = "pruneCodexRateLimitContinuityState now st"
  have "\<not> adm" using orphaned_refuses [OF ok o assms(4), of sid cfg ttl] b True by simp
  then have "s' = put_continuity k ?st (s\<lparr>co_nextAttempt := co_nextAttempt s + 1\<rparr>)"
    using b [unfolded begin_unfold [OF ok]] True st(1,2) by (auto simp: begin_state_def split: if_splits)
  moreover have "orphaned k (s\<lparr>co_nextAttempt := co_nextAttempt s + 1\<rparr>)" by (rule orphaned_frame [OF o]) auto
  ultimately show ?thesis using st by (simp add: orphaned_put)
qed

lemma orphaned_attempt:
  assumes ok: "continuity_ok (s, is)" and o: "orphaned k s" and a: "a \<in> set is" "at_key a = k"
  shows "\<not> is_active a s"
  by (rule inactive_key [OF ok a(1)]) (use o a(2) in \<open>auto simp: orphaned_def\<close>)

lemma orphaned_observe:
  assumes ok: "continuity_ok (s, is)" and o: "orphaned k s" and a: "a \<in> set is" and r: "continuity_observe a success reason cfg now s = (d, s')"
  shows "orphaned k s'"
proof (cases "at_key a = k")
  case True
  then have "s' = s" using observe_inactive [OF ok a orphaned_attempt [OF ok o a True], of success reason cfg now] r by simp
  then show ?thesis using o by simp
next
  case False
  show ?thesis by (rule orphaned_frame [OF o]) (use observe_frame [OF r] False in auto)
qed

lemma orphaned_abandon:
  assumes ok: "continuity_ok (s, is)" and o: "orphaned k s" and a: "a \<in> set is"
  shows "orphaned k (continuity_abandon a cfg now s)"
proof (cases "at_key a = k")
  case True
  have "\<not> attemptCurrentLocked a s" using current_iff [OF ok a] orphaned_attempt [OF ok o a True] by simp
  then have "continuity_abandon a cfg now s = s" by (simp add: continuity_abandon_def split: option.splits)
  then show ?thesis using o by simp
next
  case False
  show ?thesis by (rule orphaned_frame [OF o]) (use abandon_frame(1) [of k a cfg now s] abandon_frame(2) [where a = a] False in auto)
qed

lemma orphaned_session:
  assumes ok: "continuity_ok (s, is)" and o: "orphaned k s"
  shows "orphaned k (removeSessionPreservingKey sid preserve s)"
proof -
  obtain st where st: "co_states s k = Some st" "cs_phase st = FreshBlocked" "cs_canaryToken st \<noteq> 0" "cs_inFlight st = []" "cs_establishedSessions st = []"
    using o by (auto simp: orphaned_def)
  show ?thesis using o st by (auto simp: orphaned_def removeSessionPreservingKey_def drop_canary_none [OF ok] drop_session_def ensure_id [OF ok st(1)] Let_def)
qed

lemma orphaned_state_op:
  assumes ok: "continuity_ok (s, is)" and o: "orphaned k s"
  shows "orphaned k (snd (candidateDisposition key sid cfg now s))" and "orphaned k (snd (reopenConfirmed key gen s))"
proof -
  obtain st where st: "co_states s k = Some st" "cs_phase st = FreshBlocked" "cs_canaryToken st \<noteq> 0" "cs_inFlight st = []" "cs_establishedSessions st = []"
    using o by (auto simp: orphaned_def)
  have other: "orphaned k (put_continuity key u s)" if "key \<noteq> k" for u by (rule orphaned_frame [OF o]) (use that in auto)
  have same: "orphaned k (put_continuity k (pruneCodexRateLimitContinuityState now st) s)" using st by (simp add: orphaned_put [OF o])
  show "orphaned k (snd (candidateDisposition key sid cfg now s))"
    using o other same st(1) ensure_id [OF ok st(1)] by (cases "key = k") (auto simp: candidateDisposition_def Let_def split: option.splits)
  show "orphaned k (snd (reopenConfirmed key gen s))"
    using o other st(1,2) put_same [OF st(1)] ensure_id [OF ok st(1)] by (cases "key = k") (auto simp: reopenConfirmed_def Let_def split: option.splits)
qed

text \<open>Steps that keep the state of a key: clearing the store and removing the credential drop it.\<close>

definition kept_step :: "continuity_key \<Rightarrow> continuity_store \<times> attempt list \<Rightarrow> continuity_store \<times> attempt list \<Rightarrow> bool" where
  "kept_step k x y \<longleftrightarrow> continuity_step x y \<and> co_states (fst y) k \<noteq> None"

lemma orphaned_step:
  assumes "continuity_step x y" and "co_states (fst y) k \<noteq> None" and "continuity_ok x" and "orphaned k (fst x)"
  shows "orphaned k (fst y)"
  using assms
proof (induction rule: continuity_step.induct)
  case (step_begin key sid cfg ttl now s a s' "is")
  then show ?case using orphaned_begin [of s "is" k key sid cfg ttl now a True s'] by simp
next
  case (step_refused key sid cfg ttl now s a s' "is")
  then show ?case using orphaned_begin [of s "is" k key sid cfg ttl now a False s'] by simp
next
  case (step_observe a "is" success reason cfg now s d s')
  then show ?case using orphaned_observe [of s "is" k a success reason cfg now d s'] by simp
next
  case (step_remove s "is" authID)
  have "co_states (continuity_removeAuth authID s) k = co_states s k" using step_remove(1) by (auto simp: continuity_removeAuth_def split: if_splits)
  moreover have "set (co_activeAttempts (continuity_removeAuth authID s)) \<subseteq> set (co_activeAttempts s)" by (auto simp: continuity_removeAuth_def)
  ultimately show ?case using step_remove(3) by (auto intro: orphaned_frame)
next
  case (step_clear s "is")
  then show ?case by (simp add: continuity_clear_def)
qed (simp_all add: orphaned_abandon orphaned_session orphaned_state_op)

lemma orphaned_forever:
  assumes "(kept_step k)\<^sup>*\<^sup>* x y" and "continuity_ok x" and "orphaned k (fst x)"
  shows "continuity_ok y \<and> orphaned k (fst y)"
  using assms by (induction rule: rtranclp_induct) (auto simp: kept_step_def dest: continuity_step_ok orphaned_step)

lemma delete_all: "fst ` set al \<subseteq> {k} \<Longrightarrow> AList.delete k al = []"
  by (induction al) auto

lemma flights_member: "(t, b) \<in> set active \<Longrightarrow> 1 \<le> flights active (at_key b) (at_sessionID b)"
proof (induction active)
  case (Cons x active)
  obtain t' c where x: "x = (t', c)" by fastforce
  have "0 \<le> flights active (at_key b) (at_sessionID b)" by (rule flights_nonneg)
  then show ?case using Cons x by (auto simp: flights_def)
qed simp

lemma closing_orphans:
  assumes ok: "continuity_ok (s, is)" and a: "a \<in> set is" "at_canaryToken a \<noteq> 0" "is_active a s" "at_sessionID a \<noteq> []"
    and st: "co_states s (at_key a) = Some st" "cs_establishedSessions st = []" "fst ` set (cs_inFlight st) \<subseteq> {at_sessionID a}"
  shows "orphaned (at_key a) (removeSessionPreservingKey (at_sessionID a) None s)"
proof -
  let ?k = "at_key a" and ?sid = "at_sessionID a"
  have c: "cs_canaryToken st \<noteq> 0" using continuity_okD(4) [OF ok a(1-3)] st(1) a(2) by simp
  have ph: "cs_phase st = FreshBlocked" using continuity_okD(6) [OF ok st(1)] c by (simp add: phase_sync_def)
  have "AList.delete ?sid (cs_inFlight st) = []" using st(3) by (rule delete_all)
  moreover have "at_key b \<noteq> ?k" if "(t, b) \<in> set (co_activeAttempts s)" "at_sessionID b \<noteq> ?sid" for t b
  proof
    assume k: "at_key b = ?k"
    have "1 \<le> zero_at (cs_inFlight st) (at_sessionID b)"
      using flights_member [OF that(1)] continuity_okD(7) [OF ok st(1)] k by (simp add: flight_ok_def)
    then have "at_sessionID b \<in> fst ` set (cs_inFlight st)" by (force simp: zero_at_def split: option.splits dest!: map_of_SomeD)
    then show False using st(3) that(2) by auto
  qed
  ultimately show ?thesis using a(4) st c ph
    by (auto simp: orphaned_def removeSessionPreservingKey_def drop_canary_none [OF ok] drop_session_def ensure_id [OF ok st(1)] Let_def)
qed


text \<open>C35: A canary whose session is closed blocks fresh sessions for good. The store keeps a copy of an attempt taken before its canary
  token is set, so closing the session of a canary drops the attempt but not the canary. Take any reachable state in which a
  canary is out and the credential and model have no lease and no other session in flight, and close the canary's session.
  From then on, whatever happens, at whatever times, as long as the store is not cleared and the credential is not
  removed, every admission for this credential and model is refused.\<close>

theorem orphaned_canary_blocks_forever:
  assumes "reachable continuity_start continuity_step (s, is)" and "a \<in> set is" and "at_canaryToken a \<noteq> 0" and "is_active a s"
    and "at_sessionID a \<noteq> []" and "co_states s (at_key a) = Some st" and "cs_establishedSessions st = []"
    and "fst ` set (cs_inFlight st) \<subseteq> {at_sessionID a}"
    and "(kept_step (at_key a))\<^sup>*\<^sup>* (removeSessionPreservingKey (at_sessionID a) None s, is) (s', is')" and "0 \<le> now"
  shows "\<not> fst (snd (beginWithLeaseTTL (at_key a) sid cfg ttl now s'))"
proof -
  have ok: "continuity_ok (s, is)" by (rule continuity.reachable_inv [OF assms(1)])
  have ok': "continuity_ok (removeSessionPreservingKey (at_sessionID a) None s, is)" by (rule session_keeps [OF ok])
  have "orphaned (at_key a) (removeSessionPreservingKey (at_sessionID a) None s)" by (rule closing_orphans [OF ok assms(2-8)])
  with orphaned_forever [OF assms(9) ok'] have "continuity_ok (s', is')" "orphaned (at_key a) s'" by auto
  then show ?thesis by (rule orphaned_refuses [OF _ _ assms(10)])
qed

section \<open>A concrete run\<close>

text \<open>A fresh session meets the limit, the next fresh session goes out as the canary after the window.\<close>

definition demo_key :: continuity_key where
  "demo_key = \<lparr>ck_authID = ''a'', ck_model = ''m''\<rparr>"

definition demo_cfg :: continuity_cfg where
  "demo_cfg = \<lparr>cc_ObservationWindowSeconds = 60, cc_EstablishedSuccessThreshold = 2, cc_EstablishedSessionTTLSeconds = 3600\<rparr>"

definition demo_first :: "attempt \<times> bool \<times> continuity_store" where
  "demo_first = beginWithLeaseTTL demo_key ''s1'' demo_cfg 0 sec_ns newCodexRateLimitContinuityStore"

definition demo_limited :: continuity_store where
  "demo_limited = snd (continuity_observe (fst demo_first) False ''usage-limit'' demo_cfg (2 * sec_ns) (snd (snd demo_first)))"

definition demo_canary :: "attempt \<times> bool \<times> continuity_store" where
  "demo_canary = beginWithLeaseTTL demo_key ''s2'' demo_cfg 0 (100 * sec_ns) demo_limited"

definition demo_confirmed :: continuity_store where
  "demo_confirmed = snd (continuity_observe (fst demo_canary) False ''usage-limit'' demo_cfg (101 * sec_ns) (snd (snd demo_canary)))"

abbreviation demo_attempts :: "attempt list" where
  "demo_attempts \<equiv> [fst demo_canary, fst demo_first]"

lemma demo_admitted: "fst (snd demo_first)" "fst (snd demo_canary)" "0 \<le> sec_ns" "0 \<le> 100 * sec_ns"
  by code_simp+

lemma demo_canary_reachable: "reachable continuity_start continuity_step (snd (snd demo_canary), demo_attempts)"
proof -
  have r0: "reachable continuity_start continuity_step (newCodexRateLimitContinuityStore, [])" by (rule reachable.intros(1)) (simp add: continuity_start_def)
  have "continuity_step (newCodexRateLimitContinuityStore, []) (snd (snd demo_first), [fst demo_first])"
    by (rule step_begin [OF _ demo_admitted(3)]) (use demo_admitted(1) in \<open>simp add: demo_first_def prod_eq_iff\<close>)
  from reachable.intros(2) [OF r0 this] have r1: "reachable continuity_start continuity_step (snd (snd demo_first), [fst demo_first])" .
  have "continuity_step (snd (snd demo_first), [fst demo_first]) (demo_limited, [fst demo_first])"
    by (rule step_observe [where a = "fst demo_first" and d = "fst (continuity_observe (fst demo_first) False ''usage-limit'' demo_cfg (2 * sec_ns) (snd (snd demo_first)))"])
       (simp_all add: demo_limited_def)
  from reachable.intros(2) [OF r1 this] have r2: "reachable continuity_start continuity_step (demo_limited, [fst demo_first])" .
  have "continuity_step (demo_limited, [fst demo_first]) (snd (snd demo_canary), demo_attempts)"
    by (rule step_begin [OF _ demo_admitted(4)]) (use demo_admitted(2) in \<open>simp add: demo_canary_def prod_eq_iff\<close>)
  from reachable.intros(2) [OF r2 this] show ?thesis .
qed

lemma demo_confirmed_reachable: "reachable continuity_start continuity_step (demo_confirmed, demo_attempts)"
proof -
  have "continuity_step (snd (snd demo_canary), demo_attempts) (demo_confirmed, demo_attempts)"
    by (rule step_observe [where a = "fst demo_canary" and d = "fst (continuity_observe (fst demo_canary) False ''usage-limit'' demo_cfg (101 * sec_ns) (snd (snd demo_canary)))"])
       (simp_all add: demo_confirmed_def)
  from reachable.intros(2) [OF demo_canary_reachable this] show ?thesis .
qed

theorem continuity_accounting_exact_witness:
  "keys_distinct (co_activeAttempts (snd (snd demo_canary))) \<and> length (co_activeAttempts (snd (snd demo_canary))) = 1"
proof -
  have "length (co_activeAttempts (snd (snd demo_canary))) = 1" by code_simp
  then show ?thesis using continuity_accounting_exact [OF demo_canary_reachable] by blast
qed

lemma demo_canary_facts:
  "at_canaryToken (fst demo_canary) \<noteq> 0" "is_active (fst demo_canary) (snd (snd demo_canary))" "at_key (fst demo_canary) = demo_key"
  "at_sessionID (fst demo_canary) = ''s2''"
  by code_simp+

theorem single_canary_witness:
  "\<exists>st. co_states (snd (snd demo_canary)) demo_key = Some st \<and> cs_phase st = FreshBlocked \<and>
     (\<forall>sid cfg ttl now. no_lease st sid now \<and> zero_at (cs_inFlight st) sid = 0 \<and> 0 \<le> now \<longrightarrow>
          \<not> fst (snd (beginWithLeaseTTL demo_key sid cfg ttl now (snd (snd demo_canary)))))"
  using single_canary [OF demo_canary_reachable _ demo_canary_facts(1,2)] demo_canary_facts(3) by simp

theorem confirmed_limit_holds_witness:
  "\<not> fst (snd (beginWithLeaseTTL demo_key ''s3'' demo_cfg 0 (200 * sec_ns) demo_confirmed)) \<and> \<not> fst (dispatchAllowed (fst demo_first) demo_confirmed)"
proof -
  have "map_option cs_phase (co_states demo_confirmed demo_key) = Some ConfirmedCooldown" by code_simp
  then obtain st where st: "co_states demo_confirmed demo_key = Some st" "cs_phase st = ConfirmedCooldown" by auto
  have "at_key (fst demo_first) = demo_key" "ck_authID demo_key \<noteq> []" "ck_model demo_key \<noteq> []" "at_sessionID (fst demo_first) \<noteq> []" by code_simp+
  then show ?thesis using confirmed_limit_holds [OF demo_confirmed_reachable st] by (simp add: sec_ns_def)
qed

theorem orphaned_canary_blocks_forever_witness:
  "\<not> fst (snd (beginWithLeaseTTL demo_key ''s3'' demo_cfg 0 (1000000 * sec_ns) (removeSessionPreservingKey ''s2'' None (snd (snd demo_canary)))))"
proof -
  have "map_option (\<lambda>st. (cs_establishedSessions st, map fst (cs_inFlight st))) (co_states (snd (snd demo_canary)) demo_key) = Some ([], [''s2''])" by code_simp
  then obtain st where st: "co_states (snd (snd demo_canary)) demo_key = Some st" "cs_establishedSessions st = []" "map fst (cs_inFlight st) = [''s2'']" by auto
  then have "fst ` set (cs_inFlight st) \<subseteq> {''s2''}" by (metis list.set(1) list.set(2) set_map order_refl)
  then show ?thesis
    using orphaned_canary_blocks_forever [OF demo_canary_reachable _ demo_canary_facts(1,2), of st _ demo_attempts] st(1,2) demo_canary_facts(3,4)
    by (simp add: sec_ns_def)
qed

end
