(* ===== verification/Spec2Isabelle.thy ===== *)
theory Spec2Isabelle
  imports FlowProperties FlowUpdate FlowStatus FlowMigration UsageQueue BoundedLRU
    ExecProperties ReadyView SchedulerRemoval SchedulerFreshness SessionProperties RegistryProperties ThinkingExtract
    CooldownStore ContinuityProperties
begin

text \<open>
  A verification library for the scheduling core of CLI Proxy API (package \<open>sdk/cliproxy\<close> and the
  small packages it rests on). The program is a proxy that offers many accounts at several AI
  providers behind one interface. A request first passes the flow control, which admits, queues or
  refuses it; the credential scheduler then chooses the account to use; the execution registry
  keeps track of what is running until the process drains; a usage queue carries the records of
  finished requests to whoever collects them. The model registry tells which credential offers which
  model. Before a request goes out, the amount of thinking it asks for is brought into what its model
  accepts.

  \<^bold>\<open>Prelude.\<close> \<open>GoBase\<close>: strings, times, durations, maps, binary search and decimal numbers as Go
  has them; reachability, and the locale \<open>inductive_invariant\<close> through which every state machine
  below gets its invariants.

  \<^bold>\<open>Flow control\<close> (\<open>src/sdk/cliproxy/flowcontrol\<close>).
  \<^item> \<open>FlowConfig\<close>, \<open>FlowConfigLemmas\<close>: the policy language (\<open>config.go\<close>, \<open>serialization.go\<close>,
    \<open>observation_config.go\<close>): defaults, validation, dimensions, counter identities. Shown: what a
    validated policy guarantees, that defaults are stable, that identities neither merge nor split
    counters (locale \<open>prefix_code\<close>), that saving loses nothing.
  \<^item> \<open>FlowEngine\<close>, \<open>FlowApi\<close>: the engine (\<open>engine.go\<close>, \<open>joint.go\<close>), one definition per critical
    section and per entry point. \<open>FlowInvariant\<close>, \<open>FlowAdmission\<close>, \<open>FlowMachine\<close>, \<open>FlowLimits\<close>,
    \<open>FlowQueue\<close>: its step relation, and the invariants through the locales \<open>dispatch_invariant\<close>,
    \<open>engine_invariant\<close> and \<open>admission_invariant\<close>, each with one law per elementary action.
    \<open>FlowProperties\<close>: concurrency caps and rate windows hold at all times, state and queue stay
    within their bounds, a dispatch settles whom it must and in the fair order, announced waits are
    exact, a cleanup changes no answer of a rate window, refunds and closing undo what they should.
  \<^item> \<open>FlowUpdate\<close>, \<open>FlowStatus\<close>, \<open>FlowMigration\<close>: replacing the policy of a running engine, what the
    engine reports (\<open>status.go\<close>, \<open>summary.go\<close>), proposals for old policies (\<open>migration.go\<close>) and the
    slot held by a stream (\<open>stream.go\<close>).

  \<^bold>\<open>Queues and caches.\<close> \<open>UsageQueue\<close> (\<open>src/internal/redisqueue/queue.go\<close>): the queue refines a
  list with expiry (locale \<open>expiring_fifo\<close>), and no interleaving panics on a channel. \<open>BoundedLRU\<close>
  (\<open>src/internal/cache/bounded_lru.go\<close>): the cache refines a list by recency (locale
  \<open>bounded_cache\<close>) and loses no value.

  \<^bold>\<open>Execution registry\<close> (\<open>src/sdk/cliproxy/executionregistry\<close>). \<open>ExecRegistry\<close>: tokens, scopes,
  resources and the goroutines inside blocking calls, as a step relation; \<open>ExecProperties\<close>: tokens,
  resources and release numbers are exact, barriers and drains mean what they say and nobody waits
  forever (locales \<open>registry_stable\<close>, \<open>registry_invariant\<close>).

  \<^bold>\<open>Credential scheduler\<close> (\<open>src/sdk/cliproxy/auth\<close>).
  \<^item> \<open>AuthState\<close>: a credential as scheduling reads it (\<open>types.go\<close>, \<open>errors.go\<close>), weights (\<open>weight.go\<close>,
    \<open>internal/credentialweight\<close>), provider keys, model names, and whether a credential is blocked
    (\<open>isAuthBlockedForModel\<close> in \<open>selector.go\<close>), with how that verdict ages.
  \<^item> \<open>SmoothWeighted\<close>, \<open>ReadyView\<close>: the weighted and the plain round robin and the ready views of
    \<open>scheduler.go\<close> (locale \<open>ready_picker\<close>, interpreted by the three ways to pick).
  \<^item> \<open>ModelShard\<close>, \<open>ShardProperties\<close>: the shard of a model; its lazily refreshed indexes always equal
    a full evaluation, and a pick takes the best free credential.
  \<^item> \<open>AuthScheduler\<close>, \<open>SchedulerProperties\<close>, \<open>SchedulerRemoval\<close>: the scheduler itself, its invariant
    over all operations, picks from one and several providers, and tombstones. \<open>SchedulerFreshness\<close>: runs
    followed with a history of the recorded metadata; a shard shows no snapshot older than the last
    update that concerned its model, and a pick takes the best credential by these snapshots.
  \<^item> \<open>SessionCache\<close>, \<open>SessionProperties\<close>: the bindings of sessions to credentials (\<open>session_cache.go\<close>): its
    four tables refine one list of groups by recency, every operation returns, and a binding is
    found again.

  \<^item> \<open>CredentialCooldown\<close>: what a result does to the availability of a credential (\<open>MarkResult\<close> and its helpers in
    \<open>conductor_cooldown.go\<close>): durations, kinds of failures, the states of models, the layers of a
    credential-wide quota, the aggregate. \<open>CooldownProperties\<close>: a failure shortens no live cooldown, an exhausted
    credential is blocked for every model by the scheduler's own test, a success from before a cooldown does not
    lift it (with the names for which it does), and the aggregate against a specification on the set of
    states. \<open>CooldownStore\<close>: the records of cooldowns and their restoration after a restart, and the
    reset by the operator.
  \<^item> \<open>CodexContinuity\<close>, \<open>ContinuityProperties\<close>: the store that tells a limit of a fresh Codex session from one of the whole
    credential (\<open>codex_rate_limit_continuity.go\<close>) as a machine: attempts in flight are counted exactly, one canary is out
    at a time, a confirmed limit holds against late results, and the case in which a lost canary blocks for good.

  \<^bold>\<open>Model registry\<close> (\<open>src/internal/registry/model_registry.go\<close>).
  \<^item> \<open>ModelRegistry\<close>: clients (credentials), their models, the registrations with their counts, the
    web-search index, registration, reconciliation and removal, and the fenced variants.
    \<open>ModelAvailability\<close>: quota marks, suspensions, projections, capability changes, the cache of the
    available models and the questions the program asks.
  \<^item> \<open>RegistryBindings\<close>: the loops seen one model at a time. \<open>RegistryInvariant\<close>, \<open>RegistrySteps\<close>: the
    bookkeeping is exact after every operation. \<open>RegistryProperties\<close>: the machine (an interpretation
    of \<open>inductive_invariant\<close>); counts, providers and web-search flags are those of the clients, the
    index answers like a scan, the cache is never seen, stale epochs are refused, what is registered
    is read back.
  \<^item> Below: the registry and the scheduler together. The scheduler keeps a credential's models next to
    the epoch it read before them; when it trusts them, they are current.

  \<^bold>\<open>Thinking configuration\<close> (\<open>src/internal/thinking\<close>).
  \<^item> \<open>ThinkingConfig\<close>: budgets and levels, suffixes of model names, conversion, clamping, \<open>ValidateConfig\<close>
    in its stages, and the table of the providers' appliers with its plugins.
  \<^item> \<open>ThinkingProperties\<close>: the contract \<open>accepts\<close> of a model, the exact errors of a validation against a
    reference function, the nearest supported level, suffixes read back as written, and the holder of
    a plugin's provider independent of the order of registration.
  \<^item> \<open>ThinkingExtract\<close>: the extractors of the request formats and the control items of Responses requests;
    what passes validation is accepted, with the two cases in which it is not (the Claude format off on a
    model whose range leaves out zero, and the word auto in capitals).

  \<^bold>\<open>How the code is read.\<close> A critical section under a mutex is one function on the state; what a
  goroutine does between two of them is a step of its own, so every interleaving is a path of a step
  relation. Readings of the clock and of contexts are arguments. A Go map is an association list
  whose order stands for the iteration order, which the theorems leave open. Pointers that are shared are
  identifiers into a store. Errors are values, a panic is \<^const>\<open>None\<close>. String functions act on
  ASCII; durations and credits are kept at 64 bits where they can overflow, while counters that only
  grow by one per event (tickets, tokens, epochs, generations) are natural numbers. All recursion
  is total: every loop of the source that is modelled runs over a list, or shrinks a measure
  (\<open>dispatchLocked\<close>: the queued keys), so no fuel is needed. The eviction loop of the session cache
  need not end on an inconsistent state; it is a \<open>partial_function\<close>, and that it ends on every
  reachable state is a theorem.

  \<^bold>\<open>Parameters.\<close> What the scheduler reads of the model registry (\<open>registry_view\<close>, instantiated below
  with readings of the modelled registry), the eligibility of a credential for a request,
  the expiry of an access token (a JWT decoder), contexts, the callbacks of resources and caches, the
  answers of the \<open>gjson\<close> package about a request body, and the appliers of the providers. For the cooldowns: four
  tests that decode the JSON body of an error, whether cooling is disabled for the credential, the
  number of the latest execution, and the answer of the search for a refresh token.

  \<^bold>\<open>Not modelled.\<close> Everything whose meaning is a JSON body, a network connection or a file: the
  executors, translators, HTTP handlers, login flows, stores, watcher and configuration loader, the
  plugin host, the remote-service and discovery clients, logging, statistics and the terminal
  interface; the conductor, which drives executors and streams around the scheduler (of its handling of
  results the change of the credential is modelled, not the hooks, events and files around it); the session
  selectors around the session cache, which match hashes of request bodies; the event ring, the snapshots for display and
  the resource lookups of flow control, which change no scheduling state; of the model registry the
  hooks, the conversion of metadata to answers, and the static catalogues; of the thinking
  configuration the editing of request bodies (appliers, stripping, summaries, effort policies and
  \<open>applyThinking\<close>, which chains them), which is done on bytes by packages outside the program. The theorems about the
  scheduler are about credentials whose identifier has no surrounding white space; the source
  files credentials under the identifier as written but removes them under the trimmed one.
\<close>

section \<open>The scheduler and the model registry\<close>

text \<open>What the scheduler reads of the registry: the epoch of a credential at one moment and its models at another.\<close>

definition registry_reading :: "'m ModelRegistry \<Rightarrow> 'm ModelRegistry \<Rightarrow> registry_view" where
  "registry_reading r0 r1 = \<lparr>rw_epoch = (\<lambda>c. ClientRegistrationEpoch c r0), rw_models = (\<lambda>c. map (\<lambda>m. Some (mi_ID m)) (GetModelsForClient c r1))\<rparr>"

text \<open>C26: The scheduler never works with outdated models. It reads a credential's registration epoch, then its
  models, and keeps both; in between and afterwards the registry may change in any way. Whenever a
  later reading of the epoch makes it trust the kept models instead of reading them again, they are
  exactly what reading them again would give.\<close>

theorem scheduled_models_current:
  assumes reach: "reachable registry_start registry_step (r0, t0)"
    and run: "registry_step\<^sup>*\<^sup>* (r0, t0) (r1, t1)" "registry_step\<^sup>*\<^sup>* (r1, t1) (r2, t2)"
    and id: "TrimSpace (au_ID a) = au_ID a"
    and me: "me = buildScheduledAuthMetaWithModelSet a (supportedModelSetForAuth (registry_reading r0 r1) (au_ID a))
        (rw_epoch (registry_reading r0 r1) (au_ID a))"
    and trusted: "cached_models (ClientRegistrationEpoch (au_ID a) r2) (Some me) = Some ks"
  shows "supportedModelSetForAuth (registry_reading r2 r2) (au_ID a) = Some ks"
proof -
  let ?c = "au_ID a"
  have ok: "machine_ok (r0, t0)" by (rule registry.reachable_inv[OF reach])
  have ok1: "machine_ok (r1, t1)" by (rule registry.steps_inv[OF run(1) ok])
  have ok2: "machine_ok (r2, t2)" by (rule registry.steps_inv[OF run(2) ok1])
  have kept: "ClientRegistrationEpoch ?c r0 = ClientRegistrationEpoch ?c r2" "supportedModelSetForAuth (registry_reading r0 r1) ?c = Some ks"
    using trusted by (auto simp: cached_models_def me buildScheduledAuthMetaWithModelSet_def registry_reading_def split: if_splits)
  have "ClientRegistrationEpoch ?c r0 \<le> ClientRegistrationEpoch ?c r1" "ClientRegistrationEpoch ?c r1 \<le> ClientRegistrationEpoch ?c r2"
    using epochs_grow_run[OF run(1) ok] epochs_grow_run[OF run(2) ok1] by (simp_all add: epochs_grow_def)
  then have "ClientRegistrationEpoch ?c r2 = ClientRegistrationEpoch ?c r1" using kept(1) by simp
  then have "list_at (gr_clientModels r2) ?c = list_at (gr_clientModels r1) ?c" using epoch_names_models[OF ok1 run(2)] by simp
  then have "map mi_ID (GetModelsForClient ?c r2) = map mi_ID (GetModelsForClient ?c r1)"
    using models_of_client[OF ok1, of ?c] models_of_client[OF ok2, of ?c] by simp
  then have "map Some (map mi_ID (GetModelsForClient ?c r2)) = map Some (map mi_ID (GetModelsForClient ?c r1))" by simp
  then have "rw_models (registry_reading r2 r2) ?c = rw_models (registry_reading r0 r1) ?c" by (simp add: registry_reading_def comp_def)
  then show ?thesis using kept(2) unfolding supportedModelSetForAuth_def Let_def id by (auto split: if_splits)
qed

theorem scheduled_models_current_witness:
  "cached_models (ClientRegistrationEpoch ''b'' demo_listed) (Some (buildScheduledAuthMetaWithModelSet (plain_auth ''b'')
      (supportedModelSetForAuth (registry_reading demo_registry demo_registry) ''b'') (ClientRegistrationEpoch ''b'' demo_registry))) = Some [''m''] \<and>
   supportedModelSetForAuth (registry_reading demo_listed demo_listed) ''b'' = Some [''m'']"
proof -
  have c: "cached_models (ClientRegistrationEpoch ''b'' demo_listed) (Some (buildScheduledAuthMetaWithModelSet (plain_auth ''b'')
      (supportedModelSetForAuth (registry_reading demo_registry demo_registry) ''b'') (ClientRegistrationEpoch ''b'' demo_registry))) = Some [''m'']"
    by code_simp
  have i: "au_ID (plain_auth ''b'') = ''b''" "TrimSpace ''b'' = ''b''" by code_simp+
  have "registry_step (demo_registry, 9) (SetModelQuotaExceeded ''b'' ''m'' 9 demo_registry, 9)" by (rule step_set_quota)
  moreover have "registry_step (SetModelQuotaExceeded ''b'' ''m'' 9 demo_registry, 9) (demo_listed, 9)"
    unfolding demo_listed_def by (rule step_list) simp_all
  ultimately have "registry_step\<^sup>*\<^sup>* (demo_registry, 9) (demo_listed, 9)" by (rule converse_rtranclp_into_rtranclp[OF _ r_into_rtranclp])
  then show ?thesis
    using scheduled_models_current[where a = "plain_auth ''b''" and ks = "[''m'']", OF demo_reachable rtranclp.rtrancl_refl _ _ refl] c i
    by (simp add: registry_reading_def)
qed

end
